(* ===== verification/Prelude.thy ===== *)
theory Prelude
  imports Main "HOL-Library.Word"
begin

text \<open>
  Shared vocabulary of the development: the collections that carry the component proofs, and
  the positional number systems (little-endian digit lists) on which gates, limbs and
  multi-limb integers are built.
\<close>

named_theorems tval_simps \<open>field values of the builder's arithmetic\<close>
named_theorems gadget_rules \<open>contracts of the circuit gadgets\<close>

section \<open>Little-endian digit lists\<close>

text \<open>\<open>le_value B [d\<^sub>0, d\<^sub>1, \<dots>] = d\<^sub>0 + B * d\<^sub>1 + B\<^sup>2 * d\<^sub>2 + \<dots>\<close>, over any semiring.\<close>

primrec le_value :: "'a::comm_semiring_1 \<Rightarrow> 'a list \<Rightarrow> 'a" where
  "le_value B [] = 0"
| "le_value B (d # ds) = d + B * le_value B ds"

primrec le_digits :: "nat \<Rightarrow> nat \<Rightarrow> nat \<Rightarrow> nat list" where
  "le_digits B 0 x = []"
| "le_digits B (Suc n) x = x mod B # le_digits B n (x div B)"

lemma le_value_append: "le_value B (xs @ ys) = le_value B xs + B ^ length xs * le_value B ys"
  by (induction xs) (simp_all add: algebra_simps)

lemma le_value_replicate_0 [simp]: "le_value B (replicate n 0) = 0"
  by (induction n) simp_all

lemma le_value_foldl_rev:
  "foldl (\<lambda>acc d. B * acc + d) 0 (rev ds) = le_value B ds"
  by (induction ds) (simp_all add: add.commute)

lemma le_value_foldl_rev': "foldl (\<lambda>acc d. acc * B + d) 0 (rev ds) = le_value B ds"
  using le_value_foldl_rev [of B ds] by (simp add: mult.commute)

lemma of_nat_le_value:
  "of_nat (le_value B ds) = le_value (of_nat B) (map of_nat ds)"
  by (induction ds) simp_all

lemma le_value_bound:
  fixes ds :: "nat list"
  assumes "\<forall>d\<in>set ds. d < B"
  shows "le_value B ds < B ^ length ds"
  using assms
proof (induction ds)
  case Nil
  then show ?case by simp
next
  case (Cons d ds)
  then have "le_value B ds + 1 \<le> B ^ length ds" by simp
  then have "B * le_value B ds + B \<le> B * B ^ length ds"
    by (metis add_mult_distrib2 mult.right_neutral mult_le_mono2)
  then show ?case using Cons.prems by simp
qed

lemma le_value_inject:
  fixes xs ys :: "nat list"
  assumes "length xs = length ys" "\<forall>d\<in>set xs. d < B" "\<forall>d\<in>set ys. d < B"
    and "le_value B xs = le_value B ys"
  shows "xs = ys"
  using assms
proof (induction xs ys rule: list_induct2)
  case Nil
  then show ?case by simp
next
  case (Cons x xs y ys)
  have "x < B" "y < B" using Cons.prems by simp_all
  have eq: "x + B * le_value B xs = y + B * le_value B ys" using Cons.prems by simp
  then have "(x + B * le_value B xs) mod B = (y + B * le_value B ys) mod B" by simp
  then have "x = y" using \<open>x < B\<close> \<open>y < B\<close> by simp
  with eq \<open>x < B\<close> have "le_value B xs = le_value B ys" by simp
  with \<open>x = y\<close> show ?case using Cons by simp
qed

lemma length_le_digits [simp]: "length (le_digits B n x) = n"
  by (induction n arbitrary: x) simp_all

lemma le_digits_lt: "0 < B \<Longrightarrow> d \<in> set (le_digits B n x) \<Longrightarrow> d < B"
  by (induction n arbitrary: x) auto

lemma le_value_digits: "le_value B (le_digits B n x) = x mod B ^ n"
proof (induction n arbitrary: x)
  case 0
  show ?case by simp
next
  case (Suc n)
  have "x mod (B * B ^ n) = B * (x div B mod B ^ n) + x mod B"
    by (simp add: mod_mult2_eq)
  then show ?case by (simp add: Suc.IH)
qed

lemma le_digits_value:
  fixes ds :: "nat list"
  assumes "0 < B" "\<forall>d\<in>set ds. d < B"
  shows "le_digits B (length ds) (le_value B ds) = ds"
  using assms by (induction ds) simp_all

lemma le_digits_append:
  "le_digits B (m + n) x = le_digits B m x @ le_digits B n (x div B ^ m)"
  by (induction m arbitrary: x) (simp_all add: div_mult2_eq mult.commute)

lemma take_le_digits: "m \<le> n \<Longrightarrow> take m (le_digits B n x) = le_digits B m x"
  using le_digits_append [of B m "n - m" x] by simp

lemma drop_le_digits: "m \<le> n \<Longrightarrow> drop m (le_digits B n x) = le_digits B (n - m) (x div B ^ m)"
  using le_digits_append [of B m "n - m" x] by simp

lemma le_digits_numeral:
  "le_digits B (numeral k) x = x mod B # le_digits B (pred_numeral k) (x div B)"
  by (simp add: numeral_eq_Suc)

lemma digit_eq_iff:
  fixes x y W :: nat
  assumes "x < W" "y < W"
  shows "x + W * u = y + W * v \<longleftrightarrow> x = y \<and> u = v"
proof
  assume eq: "x + W * u = y + W * v"
  then have "(x + W * u) mod W = (y + W * v) mod W" by simp
  then have "x = y" using assms by simp
  then show "x = y \<and> u = v" using assms eq by simp
qed simp

lemma digit_less_iff:
  fixes x y z W :: nat
  assumes "x < W"
  shows "x + W * y < W * z \<longleftrightarrow> y < z"
proof (cases "y < z")
  case True
  then have "W * Suc y \<le> W * z" by (intro mult_le_mono2) simp
  with True assms show ?thesis by simp
next
  case False
  then have "W * z \<le> x + W * y" by (intro trans_le_add2 mult_le_mono2) simp
  with False show ?thesis by (simp add: not_less)
qed

lemma pow2_mono_less: "(x::nat) < 2 ^ a \<Longrightarrow> a \<le> b \<Longrightarrow> x < 2 ^ b"
  by (meson less_le_trans one_le_numeral power_increasing)

section \<open>Lists\<close>

lemma map_eq_upt_nth: "map f xs = map (\<lambda>k. f (xs ! k)) [0..<length xs]"
  by (rule nth_equalityI) simp_all

lemma nth_concat_const:
  assumes "\<forall>xs\<in>set xss. length xs = n" "c < length xss" "p < n"
  shows "concat xss ! (c * n + p) = xss ! c ! p"
  using assms
proof (induction xss arbitrary: c)
  case Nil
  then show ?case by simp
next
  case (Cons xs xss)
  show ?case
  proof (cases c)
    case 0
    then show ?thesis using Cons.prems by (simp add: nth_append)
  next
    case (Suc c')
    then have "concat (xs # xss) ! (c * n + p) = concat xss ! (c' * n + p)"
      using Cons.prems by (simp add: nth_append add.assoc)
    then show ?thesis using Cons Suc by simp
  qed
qed

lemma length_concat_const: "\<forall>xs\<in>set xss. length xs = n \<Longrightarrow> length (concat xss) = length xss * n"
  by (induction xss) simp_all

lemma index_block_lt: "c < m \<Longrightarrow> p < n \<Longrightarrow> c * n + p < m * (n::nat)"
  by (metis add.commute add_less_mono1 less_le_trans mult_Suc mult_le_mono1 Suc_leI)

end
