(* ===== verification/Goldilocks.thy ===== *)
theory Goldilocks
  imports Prelude
begin

text \<open>
  The field \<open>F = GoldilocksField\<close> in which every wire of the circuits takes its value
  (\<open>circuit/src/types/config.rs\<close>): the integers modulo \<open>p = 2^64 - 2^32 + 1\<close>.
  The theory defines the type \<open>gf\<close>, proves that \<open>p\<close> is prime (a Proth-style argument: a
  proper divisor would have more than \<open>2^32\<close> distinct powers of a witness), and makes
  \<open>gf\<close> an instance of the class \<open>field\<close>. The soundness of every gate rests on the absence of
  zero divisors proved here.
\<close>

section \<open>The modulus\<close>

definition goldilocks_order :: int where
  "goldilocks_order = 18446744069414584321"

lemma goldilocks_order_eq: "goldilocks_order = 2 ^ 64 - 2 ^ 32 + 1"
  by (simp add: goldilocks_order_def)

lemma goldilocks_order_pos [simp]: "0 < goldilocks_order" "goldilocks_order \<noteq> 0"
  by (simp_all add: goldilocks_order_def)

section \<open>The modulus is prime\<close>

text \<open>
  \<open>mersenne_step k 1\<close> is \<open>7^(2^k - 1)\<close> modulo \<open>p\<close> and \<open>iterated_square k x\<close> is \<open>x^(2^k)\<close> modulo \<open>p\<close>; both
  are computed by repeated squaring so that the kernel can evaluate them.
\<close>

fun mersenne_step :: "nat \<Rightarrow> int \<Rightarrow> int" where
  "mersenne_step 0 x = x"
| "mersenne_step (Suc k) x = mersenne_step k ((x * x mod goldilocks_order) * 7 mod goldilocks_order)"

fun iterated_square :: "nat \<Rightarrow> int \<Rightarrow> int" where
  "iterated_square 0 x = x"
| "iterated_square (Suc k) x = iterated_square k (x * x mod goldilocks_order)"

lemma mersenne_step_cong:
  "mersenne_step k x mod goldilocks_order = x ^ (2 ^ k) * 7 ^ (2 ^ k - 1) mod goldilocks_order"
proof (induction k arbitrary: x)
  case 0
  show ?case by simp
next
  case (Suc k)
  have pos: "(1::nat) \<le> 2 ^ k" by simp
  then have exp: "2 ^ Suc k - 1 = 2 ^ k + (2 ^ k - (1::nat))" by simp
  have "mersenne_step (Suc k) x mod goldilocks_order
      = (x * x * 7 mod goldilocks_order) ^ (2 ^ k) * 7 ^ (2 ^ k - 1) mod goldilocks_order"
    using Suc.IH [of "x * x * 7 mod goldilocks_order"] by (simp add: mod_simps)
  also have "\<dots> = ((x * x * 7 mod goldilocks_order) ^ (2 ^ k) mod goldilocks_order) * 7 ^ (2 ^ k - 1)
      mod goldilocks_order"
    by (simp only: mod_mult_left_eq)
  also have "\<dots> = (x * x * 7) ^ (2 ^ k) * 7 ^ (2 ^ k - 1) mod goldilocks_order"
    by (simp only: power_mod mod_mult_left_eq)
  also have "(x * x * 7) ^ (2 ^ k) * 7 ^ (2 ^ k - 1) = x ^ (2 ^ Suc k) * (7 ^ (2 ^ k) * 7 ^ (2 ^ k - 1))"
    by (simp add: power_mult_distrib power_add [symmetric] mult_2)
  also have "7 ^ (2 ^ k) * 7 ^ (2 ^ k - 1) = (7::int) ^ (2 ^ Suc k - 1)"
    unfolding exp by (simp only: power_add)
  finally show ?case .
qed

lemma iterated_square_cong:
  "iterated_square k x mod goldilocks_order = x ^ (2 ^ k) mod goldilocks_order"
proof (induction k arbitrary: x)
  case 0
  show ?case by simp
next
  case (Suc k)
  have "iterated_square (Suc k) x mod goldilocks_order = (x * x) ^ (2 ^ k) mod goldilocks_order"
    using Suc.IH [of "x * x mod goldilocks_order"] by (simp add: power_mod)
  also have "(x * x) ^ (2 ^ k) = x ^ (2 ^ Suc k)"
    by (simp add: power2_eq_square [symmetric] power_mult [symmetric])
  finally show ?case .
qed

lemma proth_witness_eval:
  "iterated_square 31 (mersenne_step 32 1) = goldilocks_order - 1"
  by code_simp

definition proth_base :: int where
  "proth_base = mersenne_step 32 1"

lemma proth_base_power: "goldilocks_order dvd proth_base ^ (2 ^ 31) + 1"
proof -
  have "proth_base ^ (2 ^ 31) mod goldilocks_order = (- 1) mod goldilocks_order"
    using iterated_square_cong [of 31 proth_base] proth_witness_eval
    by (simp add: proth_base_def goldilocks_order_def)
  then show ?thesis
    by (metis diff_minus_eq_add mod_eq_dvd_iff)
qed

text \<open>
  If \<open>q > 2\<close> divides \<open>b^(2^31) + 1\<close>, no power \<open>b^d\<close> with \<open>0 < d < 2^32\<close> is \<open>1\<close> modulo \<open>q\<close>.
\<close>

lemma odd_part:
  assumes "0 < (d::nat)"
  obtains s m where "d = 2 ^ s * m" and "odd m"
  using assms
proof (induction d arbitrary: thesis rule: less_induct)
  case (less d)
  show ?case
  proof (cases "odd d")
    case True
    then show ?thesis using less.prems(1) [of 0 d] by simp
  next
    case False
    then obtain e where e: "d = 2 * e" by (auto elim: evenE)
    with less.prems(2) have "e < d" "0 < e" by auto
    then obtain s m where "e = 2 ^ s * m" "odd m" using less.IH by blast
    then show ?thesis using less.prems(1) [of "Suc s" m] e by simp
  qed
qed

lemma no_small_order:
  fixes b q :: int
  assumes q: "2 < q" and half: "q dvd b ^ (2 ^ k) + 1" and d: "0 < d" "d < 2 ^ Suc k"
  shows "\<not> q dvd b ^ d - 1"
proof
  assume one: "q dvd b ^ d - 1"
  obtain s m where dm: "d = 2 ^ s * m" and m: "odd m"
    using d(1) by (rule odd_part)
  have "2 ^ s \<le> d"
    using dm m by (cases m) auto
  with d(2) have s: "s \<le> k"
    by (metis less_Suc_eq_le nat_power_less_imp_less order_le_less_trans zero_less_numeral)
  have "(b ^ d) ^ (2 ^ (k - s)) = (b ^ (2 ^ k)) ^ m"
    using s by (simp add: dm power_mult [symmetric] power_add [symmetric] mult.assoc mult.left_commute)
      (metis le_add_diff_inverse mult.commute power_add)
  moreover have "(b ^ d) ^ (2 ^ (k - s)) mod q = 1 mod q"
    using one by (metis mod_eq_dvd_iff power_mod power_one)
  moreover have "(b ^ (2 ^ k)) ^ m mod q = (- 1) mod q"
  proof -
    have "b ^ (2 ^ k) mod q = (- 1) mod q"
      using half by (metis diff_minus_eq_add mod_eq_dvd_iff)
    then have "(b ^ (2 ^ k)) ^ m mod q = (- 1) ^ m mod q"
      by (metis power_mod)
    with m show ?thesis by simp
  qed
  ultimately have "(1::int) mod q = (- 1) mod q" by metis
  then have "q dvd 1 - (- 1)" by (simp only: mod_eq_dvd_iff)
  then have "q \<le> 2" by (auto dest: zdvd_imp_le)
  with q show False by simp
qed

lemma powers_distinct:
  fixes b q :: int
  assumes q: "2 < q" and half: "q dvd b ^ (2 ^ k) + 1"
  shows "inj_on (\<lambda>i. b ^ i mod q) {..<2 ^ Suc k}"
proof -
  have cop: "coprime q (b ^ (2 ^ k))"
  proof (rule coprimeI)
    fix c assume "c dvd q" "c dvd b ^ (2 ^ k)"
    then have "c dvd 1" using half by (metis add.commute dvd_add_right_iff dvd_trans)
    then show "is_unit c" .
  qed
  then have cop_b: "coprime q (b ^ i)" for i
    by (cases "i = 0") (auto simp: coprime_power_right_iff)
  have step: False if "i < j" "j < 2 ^ Suc k" "b ^ i mod q = b ^ j mod q" for i j
  proof -
    have "q dvd b ^ j - b ^ i" using that(3) by (metis mod_eq_dvd_iff)
    also have "b ^ j - b ^ i = b ^ i * (b ^ (j - i) - 1)"
      using that(1) by (simp add: right_diff_distrib power_add [symmetric])
    finally have "q dvd b ^ (j - i) - 1"
      using cop_b [of i] by (simp add: coprime_dvd_mult_right_iff)
    then show False
      using no_small_order [OF q half, of "j - i"] that(1,2)
      by (meson less_imp_diff_less zero_less_diff)
  qed
  show ?thesis
  proof (rule inj_onI)
    fix i j assume "i \<in> {..<2 ^ Suc k}" "j \<in> {..<2 ^ Suc k}" "b ^ i mod q = b ^ j mod q"
    then show "i = j"
      using step [of i j] step [of j i] by (metis lessThan_iff linorder_neqE_nat)
  qed
qed

lemma divisor_large:
  fixes b q :: int
  assumes "2 < q" and "q dvd b ^ (2 ^ k) + 1"
  shows "2 ^ Suc k \<le> q"
proof -
  have "(\<lambda>i. b ^ i mod q) ` {..<2 ^ Suc k} \<subseteq> {0..<q}"
    using assms(1) by auto
  then have "card {..<2 ^ Suc k :: nat} \<le> card {0..<q}"
    using card_inj_on_le [OF powers_distinct [OF assms]] by blast
  then have "2 ^ Suc k \<le> nat q" by simp
  then have "int (2 ^ Suc k) \<le> int (nat q)" by (simp only: of_nat_le_iff)
  then show ?thesis using assms(1) by simp
qed

theorem goldilocks_order_irreducible:
  assumes "d dvd goldilocks_order" and "0 < d"
  shows "d = 1 \<or> d = goldilocks_order"
proof (rule ccontr)
  assume neg: "\<not> (d = 1 \<or> d = goldilocks_order)"
  obtain e where e: "goldilocks_order = d * e" using assms(1) by (auto elim: dvdE)
  have large: "2 ^ 32 \<le> x" if "x dvd goldilocks_order" "1 < x" for x
  proof -
    have "x \<noteq> 2" using that(1) by (auto simp: goldilocks_order_def)
    then have "2 < x" using that(2) by simp
    moreover have "x dvd proth_base ^ (2 ^ 31) + 1"
      using that(1) proth_base_power by (rule dvd_trans)
    ultimately have "2 ^ Suc 31 \<le> x" by (rule divisor_large)
    then show ?thesis by simp
  qed
  have "0 < e" using e assms(2) by (metis goldilocks_order_pos(1) zero_less_mult_pos)
  have "e \<noteq> 1" using neg e by auto
  with \<open>0 < e\<close> have "1 < e" by simp
  moreover have "e dvd goldilocks_order" using e by (rule dvdI [of _ e d, unfolded mult.commute [of e d]])
  ultimately have "2 ^ 32 \<le> e" using large by blast
  moreover have "2 ^ 32 \<le> d" using large [of d] assms neg by auto
  ultimately have "2 ^ 32 * 2 ^ 32 \<le> d * e" by (intro mult_mono) auto
  with e show False by (simp add: goldilocks_order_def)
qed

lemma goldilocks_coprime:
  assumes "\<not> goldilocks_order dvd a"
  shows "coprime a goldilocks_order"
proof (rule coprimeI)
  fix c assume c: "c dvd a" "c dvd goldilocks_order"
  then have "\<bar>c\<bar> dvd goldilocks_order" "c \<noteq> 0" by auto
  then have "\<bar>c\<bar> = 1 \<or> \<bar>c\<bar> = goldilocks_order"
    using goldilocks_order_irreducible [of "\<bar>c\<bar>"] by simp
  moreover have "\<bar>c\<bar> \<noteq> goldilocks_order" using c(1) assms by (metis abs_dvd_iff)
  ultimately show "is_unit c" by simp
qed

lemma goldilocks_dvd_mult:
  assumes "goldilocks_order dvd a * b"
  shows "goldilocks_order dvd a \<or> goldilocks_order dvd b"
  using assms goldilocks_coprime [of a]
  by (metis coprime_commute coprime_dvd_mult_right_iff)

section \<open>The field\<close>

typedef gf = "{x::int. 0 \<le> x \<and> x < goldilocks_order}"
  morphisms gf_rep gf_abs
  by (rule exI [of _ 0]) simp

setup_lifting type_definition_gf

instantiation gf :: field
begin

lift_definition zero_gf :: gf is "0::int" by simp
lift_definition one_gf :: gf is "1::int" by (simp add: goldilocks_order_def)
lift_definition plus_gf :: "gf \<Rightarrow> gf \<Rightarrow> gf" is "\<lambda>a b. (a + b) mod goldilocks_order" by simp
lift_definition minus_gf :: "gf \<Rightarrow> gf \<Rightarrow> gf" is "\<lambda>a b. (a - b) mod goldilocks_order" by simp
lift_definition uminus_gf :: "gf \<Rightarrow> gf" is "\<lambda>a. (- a) mod goldilocks_order" by simp
lift_definition times_gf :: "gf \<Rightarrow> gf \<Rightarrow> gf" is "\<lambda>a b. (a * b) mod goldilocks_order" by simp
lift_definition inverse_gf :: "gf \<Rightarrow> gf"
  is "\<lambda>a. (if a = 0 then 0 else fst (bezw (nat a) (nat goldilocks_order)) mod goldilocks_order)" by simp

definition divide_gf :: "gf \<Rightarrow> gf \<Rightarrow> gf" where
  "divide_gf a b = a * inverse b"

lemma bezw_goldilocks:
  assumes "0 < a" "a < goldilocks_order"
  shows "(fst (bezw (nat a) (nat goldilocks_order)) mod goldilocks_order) * a mod goldilocks_order = 1"
proof -
  let ?x = "fst (bezw (nat a) (nat goldilocks_order))"
  let ?y = "snd (bezw (nat a) (nat goldilocks_order))"
  have "\<not> goldilocks_order dvd a" using assms by (auto dest: zdvd_imp_le)
  then have "gcd a goldilocks_order = 1"
    using goldilocks_coprime by (simp add: coprime_iff_gcd_eq_1)
  then have "int (gcd (nat a) (nat goldilocks_order)) = 1"
    using assms by (simp add: gcd_int_def)
  then have bez: "?x * a + ?y * goldilocks_order = 1"
    using bezw_aux [of "nat a" "nat goldilocks_order"] assms by simp
  then have "(?x * a + ?y * goldilocks_order) mod goldilocks_order = 1"
    by (simp add: goldilocks_order_def)
  then show ?thesis by (simp add: mod_simps)
qed

instance
proof
  fix a b c :: gf
  show "a * b * c = a * (b * c)"
    by transfer (simp add: mod_simps mult.assoc)
  show "a * b = b * a"
    by transfer (simp add: mult.commute)
  show "1 * a = a"
    by transfer simp
  show "a + b + c = a + (b + c)"
    by transfer (simp add: mod_simps add.assoc)
  show "a + b = b + a"
    by transfer (simp add: add.commute)
  show "0 + a = a"
    by transfer simp
  show "- a + a = 0"
    by transfer (simp add: mod_simps)
  show "a - b = a + - b"
    by transfer (simp add: mod_simps)
  show "(a + b) * c = a * c + b * c"
    by transfer (simp add: mod_simps distrib_right)
  show "(0::gf) \<noteq> 1"
    by transfer simp
  show "inverse (0::gf) = 0"
    by transfer simp
  show "a div b = a * inverse b"
    by (rule divide_gf_def)
  show "a \<noteq> 0 \<Longrightarrow> inverse a * a = 1"
    by transfer (use bezw_goldilocks in auto)
qed

end

instantiation gf :: equal
begin

definition equal_gf :: "gf \<Rightarrow> gf \<Rightarrow> bool" where
  "equal_gf a b \<longleftrightarrow> gf_rep a = gf_rep b"

instance
  by standard (simp add: equal_gf_def gf_rep_inject)

end

section \<open>Canonical representatives\<close>

text \<open>
  \<open>to_canonical_u64\<close> is the least non-negative representative of a field element and
  \<open>of_nat\<close>/\<open>of_int\<close> play the part of \<open>from_canonical_u64\<close>.
\<close>

definition to_canonical_u64 :: "gf \<Rightarrow> nat" where
  "to_canonical_u64 a = nat (gf_rep a)"

abbreviation p_nat :: nat where
  "p_nat \<equiv> 18446744069414584321"

lemma goldilocks_order_nat: "goldilocks_order = int p_nat"
  by (simp add: goldilocks_order_def)

lemma gf_rep_bounds: "0 \<le> gf_rep a" "gf_rep a < goldilocks_order"
  using gf_rep [of a] by auto

lemma gf_rep_of_nat: "gf_rep (of_nat n) = int n mod goldilocks_order"
  by (induction n) (simp_all add: zero_gf.rep_eq plus_gf.rep_eq one_gf.rep_eq mod_simps add.commute)

lemma gf_rep_of_int: "gf_rep (of_int n) = n mod goldilocks_order"
proof (cases n)
  case (nonneg k)
  then show ?thesis by (simp add: gf_rep_of_nat)
next
  case (neg k)
  then have "(of_int n :: gf) = - of_nat (Suc k)" by simp
  then have "gf_rep (of_int n) = (- (int (Suc k) mod goldilocks_order)) mod goldilocks_order"
    by (simp only: uminus_gf.rep_eq gf_rep_of_nat)
  also have "\<dots> = n mod goldilocks_order" by (simp add: neg mod_simps)
  finally show ?thesis .
qed

lemma to_canonical_lt [simp, intro]: "to_canonical_u64 a < p_nat"
  using gf_rep_bounds [of a] by (simp add: to_canonical_u64_def goldilocks_order_def nat_less_iff)

lemma to_canonical_of_nat: "to_canonical_u64 (of_nat n) = n mod p_nat"
  by (simp add: to_canonical_u64_def gf_rep_of_nat goldilocks_order_nat nat_mod_distrib del: of_nat_numeral)

lemma to_canonical_of_nat_small [simp]: "n < p_nat \<Longrightarrow> to_canonical_u64 (of_nat n) = n"
  by (simp add: to_canonical_of_nat)

lemma of_nat_to_canonical [simp]: "of_nat (to_canonical_u64 a) = a"
proof -
  have "gf_rep (of_nat (to_canonical_u64 a)) = gf_rep a"
    using gf_rep_bounds [of a] by (simp add: gf_rep_of_nat to_canonical_u64_def del: of_nat_nat)
  then show ?thesis by (simp add: gf_rep_inject)
qed

lemma to_canonical_inject: "to_canonical_u64 a = to_canonical_u64 b \<longleftrightarrow> a = b"
  by (metis of_nat_to_canonical)

lemma gf_of_nat_eq_iff: "(of_nat m :: gf) = of_nat n \<longleftrightarrow> m mod p_nat = n mod p_nat"
  using to_canonical_inject [of "of_nat m" "of_nat n"] by (simp only: to_canonical_of_nat)

lemma gf_of_nat_inj: "m < p_nat \<Longrightarrow> n < p_nat \<Longrightarrow> (of_nat m :: gf) = of_nat n \<longleftrightarrow> m = n"
  by (simp add: gf_of_nat_eq_iff)

lemma gf_of_int_eq_iff: "(of_int m :: gf) = of_int n \<longleftrightarrow> goldilocks_order dvd m - n"
  by (simp add: gf_rep_inject [symmetric] gf_rep_of_int mod_eq_dvd_iff)

lemma gf_of_int_inj:
  assumes "\<bar>m - n\<bar> < goldilocks_order"
  shows "(of_int m :: gf) = of_int n \<longleftrightarrow> m = n"
proof
  assume "(of_int m :: gf) = of_int n"
  then have "goldilocks_order dvd \<bar>m - n\<bar>" by (simp add: gf_of_int_eq_iff)
  with assms show "m = n" using zdvd_imp_le [of goldilocks_order "\<bar>m - n\<bar>"] by fastforce
qed simp

lemma gf_numeral_eq_iff [simp]:
  "(numeral m :: gf) = numeral n \<longleftrightarrow> (numeral m :: nat) mod p_nat = numeral n mod p_nat"
  using gf_of_nat_eq_iff [of "numeral m" "numeral n"] by simp

lemma gf_numeral_eq_0_iff [simp]:
  "(numeral m :: gf) = 0 \<longleftrightarrow> (numeral m :: nat) mod p_nat = 0"
  "(0 :: gf) = numeral m \<longleftrightarrow> (numeral m :: nat) mod p_nat = 0"
proof -
  show "(numeral m :: gf) = 0 \<longleftrightarrow> (numeral m :: nat) mod p_nat = 0"
    using gf_of_nat_eq_iff [of "numeral m" 0] by (simp only: of_nat_numeral semiring_1_class.of_nat_0 mod_0)
  then show "(0 :: gf) = numeral m \<longleftrightarrow> (numeral m :: nat) mod p_nat = 0"
    by (simp only: eq_commute [of "0::gf"])
qed

lemma gf_numeral_eq_1_iff [simp]:
  "(numeral m :: gf) = 1 \<longleftrightarrow> (numeral m :: nat) mod p_nat = 1"
  "(1 :: gf) = numeral m \<longleftrightarrow> (numeral m :: nat) mod p_nat = 1"
proof -
  have "(1::nat) mod p_nat = 1" by simp
  then show "(numeral m :: gf) = 1 \<longleftrightarrow> (numeral m :: nat) mod p_nat = 1"
    using gf_of_nat_eq_iff [of "numeral m" 1] by (simp only: of_nat_numeral of_nat_1)
  then show "(1 :: gf) = numeral m \<longleftrightarrow> (numeral m :: nat) mod p_nat = 1"
    by (simp only: eq_commute [of "1::gf"])
qed

lemma gf_minus_one: "(- 1 :: gf) = 18446744069414584320"
proof -
  have "(- 1 :: gf) = of_int (- 1)" by simp
  also have "\<dots> = of_int 18446744069414584320"
    by (simp only: gf_of_int_eq_iff) (simp add: goldilocks_order_def)
  finally show ?thesis by simp
qed

lemma to_canonical_numeral [simp]:
  "to_canonical_u64 (numeral m) = numeral m mod p_nat"
  using to_canonical_of_nat [of "numeral m"] by simp

lemma to_canonical_0 [simp]: "to_canonical_u64 0 = 0"
  and to_canonical_1 [simp]: "to_canonical_u64 1 = 1"
  using to_canonical_of_nat [of 0] to_canonical_of_nat [of 1] by simp_all

lemma to_canonical_eq_0_iff [simp]: "to_canonical_u64 a = 0 \<longleftrightarrow> a = 0"
  using to_canonical_inject [of a 0] by simp

lemma of_int_to_canonical [simp]: "of_int (int (to_canonical_u64 a)) = a"
  by (simp only: of_int_of_nat_eq of_nat_to_canonical)

text \<open>A field equation between small integers is an equation of integers.\<close>

lemma to_canonical_eqI:
  assumes "a = of_int m" "\<bar>int (to_canonical_u64 a) - m\<bar> < goldilocks_order"
  shows "int (to_canonical_u64 a) = m"
proof -
  have "(of_int (int (to_canonical_u64 a)) :: gf) = of_int m" using assms(1) by simp
  then show ?thesis using gf_of_int_inj [OF assms(2)] by blast
qed

lemma to_canonical_of_int:
  assumes "0 \<le> m" "m < goldilocks_order"
  shows "int (to_canonical_u64 (of_int m)) = m"
proof -
  have "nat m < p_nat" using assms by (simp add: goldilocks_order_def nat_less_iff)
  then have "to_canonical_u64 (of_nat (nat m)) = nat m" by (rule to_canonical_of_nat_small)
  then show ?thesis using assms by (simp add: of_nat_nat)
qed

lemma gf_bool_constraint: "b * (1 - b) = 0 \<longleftrightarrow> to_canonical_u64 (b :: gf) \<le> 1"
proof
  assume "b * (1 - b) = 0"
  then have "b = 0 \<or> b = 1" by auto
  then show "to_canonical_u64 b \<le> 1" by auto
next
  assume "to_canonical_u64 b \<le> 1"
  then have "to_canonical_u64 b = 0 \<or> to_canonical_u64 b = 1" by linarith
  then have "b = 0 \<or> b = 1" using to_canonical_inject [of b 1] by auto
  then show "b * (1 - b) = 0" by auto
qed

end
