(* ===== verification/Circuit.thy ===== *)
theory Circuit
  imports Goldilocks
begin

text \<open>
  The circuit builder as a shallow embedding. A circuit function is run on the values its input
  targets take in one assignment of the wires; what the prover is free to choose (virtual targets,
  gate outputs and auxiliary wires) comes from an advice tape, and the run ends in
  \<^item> \<open>Done x rest\<close>: every constraint emitted so far holds, the result is \<open>x\<close>, and \<open>rest\<close> is unread;
  \<^item> \<open>Unsat\<close>: a constraint is violated (or the assignment is incomplete);
  \<^item> \<open>Panic\<close>: building the circuit hits a Rust \<open>assert!\<close>.
  A tape is an arbitrary, possibly malicious, prover. \<open>sound c Q\<close> says that every accepted
  run returns a value with \<open>Q\<close>, \<open>complete c Q\<close> that some tape is accepted with such a value, and
  \<open>implements c Q\<close> both. The three notions have the same composition rules, so a gadget's
  contract is proved once by following its code.

  A target is either a constant known while the circuit is built (\<open>Const\<close>) or a wire
  (\<open>Wire\<close>), since the builder folds constants (\<open>target_as_constant\<close>).
\<close>

section \<open>Targets and the builder's arithmetic\<close>

datatype target = Const gf | Wire gf

fun tval :: "target \<Rightarrow> gf" where
  "tval (Const c) = c"
| "tval (Wire v) = v"

fun target_as_constant :: "target \<Rightarrow> gf option" where
  "target_as_constant (Const c) = Some c"
| "target_as_constant (Wire v) = None"

lemma target_as_constant_Some: "target_as_constant t = Some c \<Longrightarrow> tval t = c"
  by (cases t) simp_all

text \<open>\<open>arithmetic_special_cases\<close> of \<open>plonky2/src/gadgets/arithmetic.rs\<close>.\<close>

definition arithmetic_special_cases :: "gf \<Rightarrow> gf \<Rightarrow> target \<Rightarrow> target \<Rightarrow> target \<Rightarrow> target option" where
  "arithmetic_special_cases const_0 const_1 multiplicand_0 multiplicand_1 addend =
    (let first_term_zero = (const_0 = 0 \<or> multiplicand_0 = Const 0 \<or> multiplicand_1 = Const 0);
         second_term_zero = (const_1 = 0 \<or> addend = Const 0);
         first_term_const =
           (if first_term_zero then Some 0
            else case (target_as_constant multiplicand_0, target_as_constant multiplicand_1) of
              (Some x, Some y) \<Rightarrow> Some (x * y * const_0) | _ \<Rightarrow> None);
         second_term_const =
           (if second_term_zero then Some 0
            else map_option (\<lambda>x. x * const_1) (target_as_constant addend))
     in case (first_term_const, second_term_const) of
          (Some x, Some y) \<Rightarrow> Some (Const (x + y))
        | _ \<Rightarrow>
          if first_term_zero \<and> const_1 = 1 then Some addend
          else if second_term_zero \<and> map_option (\<lambda>x. x * const_0) (target_as_constant multiplicand_0) = Some 1
            then Some multiplicand_1
          else if second_term_zero \<and> map_option (\<lambda>x. x * const_0) (target_as_constant multiplicand_1) = Some 1
            then Some multiplicand_0
          else None)"

definition arithmetic :: "gf \<Rightarrow> gf \<Rightarrow> target \<Rightarrow> target \<Rightarrow> target \<Rightarrow> target" where
  "arithmetic const_0 const_1 multiplicand_0 multiplicand_1 addend =
    (case arithmetic_special_cases const_0 const_1 multiplicand_0 multiplicand_1 addend of
       Some result \<Rightarrow> result
     | None \<Rightarrow> Wire (const_0 * tval multiplicand_0 * tval multiplicand_1 + const_1 * tval addend))"

lemma arithmetic_special_cases_value:
  assumes "arithmetic_special_cases c0 c1 x y z = Some r"
  shows "tval r = c0 * tval x * tval y + c1 * tval z"
proof -
  have unit: "a * b = 1 \<Longrightarrow> b * a * v = v" "a * b = 1 \<Longrightarrow> b * v * a = v" for a b v :: gf
    by (simp_all add: mult_ac)
  show ?thesis
    using assms
    by (cases x; cases y; cases z)
      (auto simp: arithmetic_special_cases_def Let_def unit algebra_simps split: if_splits)
qed

lemma tval_arithmetic [tval_simps]:
  "tval (arithmetic c0 c1 x y z) = c0 * tval x * tval y + c1 * tval z"
  using arithmetic_special_cases_value by (auto simp: arithmetic_def split: option.split)

definition b_mul_add :: "target \<Rightarrow> target \<Rightarrow> target \<Rightarrow> target" where
  "b_mul_add x y z = arithmetic 1 1 x y z"

definition b_mul_sub :: "target \<Rightarrow> target \<Rightarrow> target \<Rightarrow> target" where
  "b_mul_sub x y z = arithmetic 1 (- 1) x y z"

definition b_add :: "target \<Rightarrow> target \<Rightarrow> target" where
  "b_add x y = arithmetic 1 1 x (Const 1) y"

definition b_sub :: "target \<Rightarrow> target \<Rightarrow> target" where
  "b_sub x y = arithmetic 1 (- 1) x (Const 1) y"

definition b_mul :: "target \<Rightarrow> target \<Rightarrow> target" where
  "b_mul x y = arithmetic 1 0 x y x"

definition b_neg :: "target \<Rightarrow> target" where
  "b_neg x = b_mul x (Const (- 1))"

definition b_mul_const_add :: "gf \<Rightarrow> target \<Rightarrow> target \<Rightarrow> target" where
  "b_mul_const_add c x y = b_mul_add (Const c) x y"

definition b_add_many :: "target list \<Rightarrow> target" where
  "b_add_many ts = foldl b_add (Const 0) ts"

definition b_not :: "target \<Rightarrow> target" where
  "b_not b = b_sub (Const 1) b"

definition b_and :: "target \<Rightarrow> target \<Rightarrow> target" where
  "b_and b1 b2 = b_mul b1 b2"

definition b_or :: "target \<Rightarrow> target \<Rightarrow> target" where
  "b_or b1 b2 = b_add (arithmetic (- 1) 1 b1 b2 b1) b2"

lemma tval_b_mul_add [tval_simps]: "tval (b_mul_add x y z) = tval x * tval y + tval z"
  and tval_b_mul_sub [tval_simps]: "tval (b_mul_sub x y z) = tval x * tval y - tval z"
  and tval_b_add [tval_simps]: "tval (b_add x y) = tval x + tval y"
  and tval_b_sub [tval_simps]: "tval (b_sub x y) = tval x - tval y"
  and tval_b_mul [tval_simps]: "tval (b_mul x y) = tval x * tval y"
  by (simp_all add: b_mul_add_def b_mul_sub_def b_add_def b_sub_def b_mul_def tval_arithmetic)

lemma tval_b_neg [tval_simps]: "tval (b_neg x) = - tval x"
  and tval_b_mul_const_add [tval_simps]: "tval (b_mul_const_add c x y) = c * tval x + tval y"
  and tval_b_not [tval_simps]: "tval (b_not b) = 1 - tval b"
  and tval_b_and [tval_simps]: "tval (b_and b b') = tval b * tval b'"
  and tval_b_or [tval_simps]: "tval (b_or b b') = tval b + tval b' - tval b * tval b'"
  by (simp_all add: b_neg_def b_mul_const_add_def b_not_def b_and_def b_or_def tval_simps)

lemma tval_b_add_many [tval_simps]: "tval (b_add_many ts) = sum_list (map tval ts)"
proof -
  have "tval (foldl b_add a ts) = tval a + sum_list (map tval ts)" for a
    by (induction ts arbitrary: a) (simp_all add: tval_simps)
  then show ?thesis by (simp add: b_add_many_def)
qed

section \<open>Booleans\<close>

text \<open>A \<open>BoolTarget\<close> that holds the truth value \<open>b\<close> carries the field element \<open>of_bool b\<close>.\<close>

lemma of_bool_gf:
  "1 - of_bool a = (of_bool (\<not> a) :: gf)"
  "of_bool a * of_bool b = (of_bool (a \<and> b) :: gf)"
  "of_bool a + of_bool b - of_bool a * of_bool b = (of_bool (a \<or> b) :: gf)"
  "of_bool a + of_bool b - of_bool (a \<and> b) = (of_bool (a \<or> b) :: gf)"
  "of_bool a - of_bool a * of_bool b = (of_bool (a \<and> \<not> b) :: gf)"
  by auto

lemma of_bool_mult_gf: "of_bool a * (x :: gf) = (if a then x else 0)" "x * of_bool a = (if a then x else 0)"
  by simp_all

section \<open>Runs\<close>

datatype 'a outcome = Done 'a "gf list" | Unsat | Panic

type_synonym 'a circ = "gf list \<Rightarrow> 'a outcome"

definition circ_return :: "'a \<Rightarrow> 'a circ" where
  "circ_return x = (\<lambda>tape. Done x tape)"

definition circ_bind :: "'a circ \<Rightarrow> ('a \<Rightarrow> 'b circ) \<Rightarrow> 'b circ" where
  "circ_bind c f = (\<lambda>tape. case c tape of Done x rest \<Rightarrow> f x rest | Unsat \<Rightarrow> Unsat | Panic \<Rightarrow> Panic)"

definition circ_assert :: "bool \<Rightarrow> unit circ" where
  "circ_assert b = (\<lambda>tape. if b then Done () tape else Unsat)"

definition circ_panic_unless :: "bool \<Rightarrow> unit circ" where
  "circ_panic_unless b = (\<lambda>tape. if b then Done () tape else Panic)"

definition add_virtual_target :: "target circ" where
  "add_virtual_target = (\<lambda>tape. case tape of [] \<Rightarrow> Unsat | v # rest \<Rightarrow> Done (Wire v) rest)"

primrec circ_map :: "('a \<Rightarrow> 'b circ) \<Rightarrow> 'a list \<Rightarrow> 'b list circ" where
  "circ_map f [] = circ_return []"
| "circ_map f (x # xs) =
    circ_bind (f x) (\<lambda>y. circ_bind (circ_map f xs) (\<lambda>ys. circ_return (y # ys)))"

definition add_virtual_targets :: "nat \<Rightarrow> target list circ" where
  "add_virtual_targets n = circ_map (\<lambda>_. add_virtual_target) [0..<n]"

definition circ_for :: "'a list \<Rightarrow> ('a \<Rightarrow> unit circ) \<Rightarrow> unit circ" where
  "circ_for xs f = circ_bind (circ_map f xs) (\<lambda>_. circ_return ())"

section \<open>Soundness and completeness\<close>

definition sound :: "'a circ \<Rightarrow> ('a \<Rightarrow> bool) \<Rightarrow> bool" where
  "sound c Q \<longleftrightarrow> (\<forall>tape x rest. c tape = Done x rest \<longrightarrow> Q x)"

definition complete :: "'a circ \<Rightarrow> ('a \<Rightarrow> bool) \<Rightarrow> bool" where
  "complete c Q \<longleftrightarrow> (\<exists>tape x. Q x \<and> (\<forall>rest. c (tape @ rest) = Done x rest))"

definition implements :: "'a circ \<Rightarrow> ('a \<Rightarrow> bool) \<Rightarrow> bool" where
  "implements c Q \<longleftrightarrow> sound c Q \<and> complete c Q"

definition unsatisfiable :: "'a circ \<Rightarrow> bool" where
  "unsatisfiable c \<longleftrightarrow> (\<forall>tape. \<forall>x rest. c tape \<noteq> Done x rest)"

lemma soundI: "(\<And>tape x rest. c tape = Done x rest \<Longrightarrow> Q x) \<Longrightarrow> sound c Q"
  by (auto simp: sound_def)

lemma soundD: "sound c Q \<Longrightarrow> c tape = Done x rest \<Longrightarrow> Q x"
  by (auto simp: sound_def)

lemma implementsI: "sound c Q \<Longrightarrow> complete c Q \<Longrightarrow> implements c Q"
  by (simp add: implements_def)

lemma implements_sound: "implements c Q \<Longrightarrow> sound c Q"
  and implements_complete: "implements c Q \<Longrightarrow> complete c Q"
  by (simp_all add: implements_def)

lemma sound_False_iff: "unsatisfiable c \<longleftrightarrow> sound c (\<lambda>_. False)"
  by (auto simp: unsatisfiable_def sound_def)

lemma sound_weaken: "sound c P \<Longrightarrow> (\<And>x. P x \<Longrightarrow> Q x) \<Longrightarrow> sound c Q"
  by (auto simp: sound_def)

lemma complete_weaken: "complete c P \<Longrightarrow> (\<And>x. P x \<Longrightarrow> Q x) \<Longrightarrow> complete c Q"
  by (auto simp: complete_def)

lemma implements_weaken: "implements c P \<Longrightarrow> (\<And>x. P x \<Longrightarrow> Q x) \<Longrightarrow> implements c Q"
  by (auto simp: implements_def intro: sound_weaken complete_weaken)

lemma sound_return: "Q x \<Longrightarrow> sound (circ_return x) Q"
  by (simp add: sound_def circ_return_def)

lemma complete_return: "Q x \<Longrightarrow> complete (circ_return x) Q"
  unfolding complete_def circ_return_def by (rule exI [of _ "[]"]) auto

lemma implements_return: "Q x \<Longrightarrow> implements (circ_return x) Q"
  by (simp add: implements_def sound_return complete_return)

lemma circ_bind_Done:
  "circ_bind c f tape = Done y rest \<longleftrightarrow> (\<exists>x mid. c tape = Done x mid \<and> f x mid = Done y rest)"
  by (auto simp: circ_bind_def split: outcome.splits)

lemma circ_bind_assoc: "circ_bind (circ_bind c f) g = circ_bind c (\<lambda>x. circ_bind (f x) g)"
  by (rule ext) (simp add: circ_bind_def split: outcome.split)

lemma circ_return_bind: "circ_bind (circ_return x) f = f x"
  by (rule ext) (simp add: circ_bind_def circ_return_def)

lemma sound_bind:
  assumes "sound c P" "\<And>x. P x \<Longrightarrow> sound (f x) Q"
  shows "sound (circ_bind c f) Q"
  using assms unfolding sound_def circ_bind_Done by blast

lemma complete_bind:
  assumes "complete c P" "\<And>x. P x \<Longrightarrow> complete (f x) Q"
  shows "complete (circ_bind c f) Q"
proof -
  obtain t1 x where x: "P x" "\<And>rest. c (t1 @ rest) = Done x rest"
    using assms(1) by (auto simp: complete_def)
  then obtain t2 y where y: "Q y" "\<And>rest. f x (t2 @ rest) = Done y rest"
    using assms(2) unfolding complete_def by blast
  have "circ_bind c f ((t1 @ t2) @ rest) = Done y rest" for rest
    using x(2) [of "t2 @ rest"] y(2) by (simp add: circ_bind_def)
  with y(1) show ?thesis unfolding complete_def by blast
qed

lemma implements_bind:
  assumes "implements c P" "\<And>x. P x \<Longrightarrow> implements (f x) Q"
  shows "implements (circ_bind c f) Q"
  using assms by (auto simp: implements_def intro: sound_bind complete_bind)

lemma sound_assert: "sound (circ_assert b) (\<lambda>_. b)"
  by (simp add: sound_def circ_assert_def)

lemma implements_assert: "b \<Longrightarrow> implements (circ_assert b) (\<lambda>_. True)"
  unfolding implements_def sound_def complete_def circ_assert_def
  by (auto intro: exI [of _ "[]"])

lemma sound_panic: "sound (circ_panic_unless b) (\<lambda>_. b)"
  by (simp add: sound_def circ_panic_unless_def)

lemma implements_panic: "b \<Longrightarrow> implements (circ_panic_unless b) (\<lambda>_. True)"
  unfolding implements_def sound_def complete_def circ_panic_unless_def
  by (auto intro: exI [of _ "[]"])

lemma sound_add_virtual_target: "sound add_virtual_target (\<lambda>t. \<exists>v. t = Wire v)"
  by (auto simp: sound_def add_virtual_target_def split: list.splits)

lemma complete_add_virtual_target: "complete add_virtual_target (\<lambda>t. t = Wire v)"
  unfolding complete_def add_virtual_target_def by (rule exI [of _ "[v]"]) auto

lemma sound_circ_map:
  assumes "\<And>x. x \<in> set xs \<Longrightarrow> sound (f x) (P x)"
  shows "sound (circ_map f xs) (\<lambda>ys. list_all2 P xs ys)"
  using assms
  by (induction xs) (auto intro!: sound_return sound_bind [where P = "P _"] sound_bind [where P = "list_all2 P _"])

lemma complete_circ_map:
  assumes "\<And>x. x \<in> set xs \<Longrightarrow> complete (f x) (P x)"
  shows "complete (circ_map f xs) (\<lambda>ys. list_all2 P xs ys)"
  using assms
  by (induction xs)
    (auto intro!: complete_return complete_bind [where P = "P _"] complete_bind [where P = "list_all2 P _"])

lemma implements_circ_map:
  assumes "\<And>x. x \<in> set xs \<Longrightarrow> implements (f x) (P x)"
  shows "implements (circ_map f xs) (\<lambda>ys. list_all2 P xs ys)"
  using assms by (auto simp: implements_def intro: sound_circ_map complete_circ_map)

lemma sound_add_virtual_targets: "sound (add_virtual_targets n) (\<lambda>ts. length ts = n)"
  unfolding add_virtual_targets_def
  by (rule sound_weaken [OF sound_circ_map [where P = "\<lambda>_ _. True"]])
    (auto simp: list_all2_iff intro: sound_weaken [OF sound_add_virtual_target])

lemma complete_add_virtual_targets:
  "complete (add_virtual_targets (length vs)) (\<lambda>ts. ts = map Wire vs)"
proof -
  have "complete (circ_map (\<lambda>_. add_virtual_target) [0..<length vs])
      (list_all2 (\<lambda>i t. t = Wire (vs ! i)) [0..<length vs])"
    by (rule complete_circ_map) (rule complete_add_virtual_target)
  then show ?thesis
    unfolding add_virtual_targets_def
    by (rule complete_weaken) (auto simp: list_all2_conv_all_nth intro!: nth_equalityI)
qed

lemma sound_for: 
  assumes "\<And>x. x \<in> set xs \<Longrightarrow> sound (f x) (\<lambda>_. P x)"
  shows "sound (circ_for xs f) (\<lambda>_. \<forall>x\<in>set xs. P x)"
  unfolding circ_for_def
  by (rule sound_bind [OF sound_circ_map [OF assms]])
    (auto simp: list_all2_conv_all_nth in_set_conv_nth intro!: sound_return)

lemma implements_for:
  assumes "\<And>x. x \<in> set xs \<Longrightarrow> implements (f x) (\<lambda>_. True)"
  shows "implements (circ_for xs f) (\<lambda>_. True)"
  unfolding circ_for_def
  by (rule implements_bind [OF implements_circ_map [OF assms]]) (auto intro!: implements_return)


section \<open>Circuits that assert something\<close>

text \<open>
  \<open>realises c P Q\<close>: the circuit can be satisfied exactly when \<open>P\<close> holds, and then it implements \<open>Q\<close>.
  Gadgets that fail on bad inputs (an assertion, an overflow that the caller promised away) have
  contracts of this form; \<open>implements\<close> is the case \<open>P = True\<close>.
\<close>

definition realises :: "'a circ \<Rightarrow> bool \<Rightarrow> ('a \<Rightarrow> bool) \<Rightarrow> bool" where
  "realises c P Q \<longleftrightarrow> (if P then implements c Q else unsatisfiable c)"

lemma implements_realises: "implements c Q \<longleftrightarrow> realises c True Q"
  by (simp add: realises_def)

lemma realises_implements: "realises c P Q \<Longrightarrow> P \<Longrightarrow> implements c Q"
  by (simp add: realises_def)

lemma realises_unsatisfiable: "realises c P Q \<Longrightarrow> \<not> P \<Longrightarrow> unsatisfiable c"
  by (simp add: realises_def)

lemma realises_sound: "realises c P Q \<Longrightarrow> sound c (\<lambda>x. P \<and> Q x)"
  by (auto simp: realises_def implements_def sound_False_iff split: if_splits intro: sound_weaken)

lemma realisesI:
  assumes "sound c (\<lambda>x. P \<and> Q x)" "P \<Longrightarrow> complete c (\<lambda>_. True)"
  shows "realises c P Q"
proof -
  have "complete c Q" if P
  proof -
    have "complete c (\<lambda>_. True)" using assms(2) that by blast
    then obtain tape x where x: "\<forall>rest. c (tape @ rest) = Done x rest"
      by (auto simp: complete_def)
    then have "Q x" using assms(1) soundD [of c _ "tape @ []" x "[]"] by blast
    with x show ?thesis by (auto simp: complete_def)
  qed
  then show ?thesis
    using assms(1) by (auto simp: realises_def implements_def sound_False_iff intro: sound_weaken)
qed

lemma realises_bind:
  assumes "realises c P Q" "\<And>x. P \<Longrightarrow> Q x \<Longrightarrow> realises (f x) P' R"
  shows "realises (circ_bind c f) (P \<and> P') R"
proof (cases "P \<and> P'")
  case True
  then show ?thesis
    using assms by (auto simp: realises_def intro: implements_bind)
next
  case False
  have "sound (circ_bind c f) (\<lambda>_. False)"
    by (rule sound_bind [OF realises_sound [OF assms(1)]])
      (use False assms(2) in \<open>auto simp: realises_def sound_False_iff\<close>)
  with False show ?thesis by (simp only: realises_def sound_False_iff if_False)
qed

lemma realises_return: "Q x \<Longrightarrow> realises (circ_return x) True Q"
  by (simp add: realises_def implements_return)

lemma realises_weaken:
  "realises c P Q \<Longrightarrow> (\<And>x. P \<Longrightarrow> Q x \<Longrightarrow> Q' x) \<Longrightarrow> P = P' \<Longrightarrow> realises c P' Q'"
  by (auto simp: realises_def intro: implements_weaken split: if_splits)

lemma realises_assert: "realises (circ_assert b) b (\<lambda>_. True)"
  using implements_assert by (auto simp: realises_def unsatisfiable_def circ_assert_def)

text \<open>The two usual ways to compose: a first step that always succeeds, and a last one.\<close>

lemma realises_after:
  "implements c Q \<Longrightarrow> (\<And>x. Q x \<Longrightarrow> realises (f x) P R) \<Longrightarrow> realises (circ_bind c f) P R"
  using realises_bind [of c True Q f P R] by (simp add: implements_realises)

lemma realises_then_return:
  "realises c P Q \<Longrightarrow> (\<And>x. P \<Longrightarrow> Q x \<Longrightarrow> R (g x)) \<Longrightarrow> realises (circ_bind c (\<lambda>x. circ_return (g x))) P R"
  using realises_bind [of c P Q "\<lambda>x. circ_return (g x)" True R] realises_return by fastforce

lemma realises_circ_map:
  assumes "\<And>x. x \<in> set xs \<Longrightarrow> realises (f x) (P x) (Q x)"
  shows "realises (circ_map f xs) (\<forall>x\<in>set xs. P x) (\<lambda>ys. list_all2 Q xs ys)"
  using assms
proof (induction xs)
  case Nil
  then show ?case by (simp add: realises_return)
next
  case (Cons x xs)
  have "realises (circ_map f (x # xs)) (P x \<and> (\<forall>x\<in>set xs. P x) \<and> True) (list_all2 Q (x # xs))"
    unfolding circ_map.simps
    by (rule realises_bind [OF Cons.prems [of x]], simp, rule realises_bind [OF Cons.IH], (simp add: Cons.prems)+,
        rule realises_return, simp)
  then show ?case by simp
qed

lemma realises_for:
  assumes "\<And>x. x \<in> set xs \<Longrightarrow> realises (f x) (P x) (\<lambda>_. True)"
  shows "realises (circ_for xs f) (\<forall>x\<in>set xs. P x) (\<lambda>_. True)"
  unfolding circ_for_def by (rule realises_then_return [OF realises_circ_map [OF assms]]) simp_all

text \<open>The prover chooses a value, and the rest of the circuit checks it.\<close>

lemma realises_choose:
  assumes "sound c A" "P \<Longrightarrow> complete c (\<lambda>x. A x \<and> P' x)"
    and "\<And>x. A x \<Longrightarrow> realises (f x) (P' x) Q" "\<And>x. A x \<Longrightarrow> P' x \<Longrightarrow> P"
  shows "realises (circ_bind c f) P Q"
proof (rule realisesI)
  show "sound (circ_bind c f) (\<lambda>x. P \<and> Q x)"
    by (rule sound_bind [OF assms(1)], rule sound_weaken [OF realises_sound [OF assms(3)]]) (use assms(4) in auto)
  assume P
  show "complete (circ_bind c f) (\<lambda>_. True)"
    by (rule complete_bind [OF assms(2) [OF \<open>P\<close>]], elim conjE,
        rule complete_weaken [OF implements_complete [OF realises_implements [OF assms(3)]]]) auto
qed

end
