(* ===== verification/Gate_Base.thy ===== *)
theory Gate_Base
  imports Circuit
begin

text \<open>
  What the limb gates have in common. A gate is a list of constraint polynomials over the wires of
  one row, given by \<open>eval_unfiltered\<close>; the prover evaluates the same list by three optimised
  routines (batched, batched with filtered accumulation, packed). This theory has the range
  product of a limb and its factored form, the loop that collects the products and recombines the
  limbs, the batch layout with its accumulation routine, the placement of a gate operation in the
  circuit (\<open>gate_slot\<close>), and the locale \<open>gate_variants\<close> that states what the
  optimised routines owe to \<open>eval_unfiltered\<close>.
\<close>

section \<open>Range products\<close>

text \<open>\<open>(0..max_limb).map(|x| this_limb - x).product()\<close>\<close>

definition range_product :: "nat \<Rightarrow> 'f::comm_ring_1 \<Rightarrow> 'f" where
  "range_product max_limb this_limb = prod_list (map (\<lambda>x. this_limb - of_nat x) [0..<max_limb])"

text \<open>The factored form used by the batch routines: \<open>x(x-1)(x-2)(x-3) = y(y+2)\<close> with \<open>y = x(x-3)\<close>.\<close>

definition range_product4 :: "'f::comm_ring_1 \<Rightarrow> 'f" where
  "range_product4 x = (let y = x * (x - 3) in y * (y + 2))"

lemma range_product_4: "range_product 4 x = range_product4 x"
  by (simp add: range_product_def range_product4_def upt_rec algebra_simps numeral_eq_Suc)

text \<open>The product as the recursive circuit builds it, in a loop.\<close>

definition circuit_range_product :: "nat \<Rightarrow> 'f::comm_ring_1 \<Rightarrow> 'f" where
  "circuit_range_product max_limb this_limb =
    foldl (\<lambda>product x. product * (this_limb - of_nat x)) 1 [0..<max_limb]"

lemma circuit_range_product_eq: "circuit_range_product m x = range_product m x"
proof -
  have "foldl (\<lambda>product k. product * (x - of_nat k)) a ks = a * prod_list (map (\<lambda>k. x - of_nat k) ks)" for a ks
    by (induction ks arbitrary: a) (simp_all add: mult.assoc)
  then show ?thesis by (simp add: circuit_range_product_def range_product_def)
qed

lemma range_product_zero_iff:
  fixes x :: gf
  assumes "b \<le> p_nat"
  shows "range_product b x = 0 \<longleftrightarrow> to_canonical_u64 x < b"
proof
  assume "range_product b x = 0"
  then obtain k where k: "k < b" "x = of_nat k"
    by (auto simp: range_product_def prod_list_zero_iff)
  with assms show "to_canonical_u64 x < b" by simp
next
  assume "to_canonical_u64 x < b"
  then have "x - of_nat (to_canonical_u64 x) \<in> set (map (\<lambda>k. x - of_nat k) [0..<b])"
    unfolding set_map set_upt by (intro imageI) simp
  then have "0 \<in> set (map (\<lambda>k. x - of_nat k) [0..<b])" by simp
  then show "range_product b x = 0"
    unfolding range_product_def prod_list_zero_iff .
qed

lemma range_product_4_zero: "range_product 4 (x::gf) = 0 \<longleftrightarrow> to_canonical_u64 x < 4"
  by (rule range_product_zero_iff) simp

lemma to_canonical_le_value:
  assumes "\<forall>x\<in>set xs. to_canonical_u64 x < B" "B ^ length xs \<le> p_nat"
  shows "to_canonical_u64 (le_value (of_nat B) xs) = le_value B (map to_canonical_u64 xs)"
    and "to_canonical_u64 (le_value (of_nat B) xs) < B ^ length xs"
proof -
  have lt: "le_value B (map to_canonical_u64 xs) < B ^ length xs"
    using le_value_bound [of "map to_canonical_u64 xs" B] assms(1) by simp
  have "of_nat (le_value B (map to_canonical_u64 xs)) = le_value (of_nat B) xs"
    by (simp add: of_nat_le_value comp_def)
  then show eq: "to_canonical_u64 (le_value (of_nat B) xs) = le_value B (map to_canonical_u64 xs)"
    using lt assms(2) to_canonical_of_nat_small [of "le_value B (map to_canonical_u64 xs)"] by simp
  show "to_canonical_u64 (le_value (of_nat B) xs) < B ^ length xs"
    using lt by (simp add: eq)
qed

lemma limb_range_value:
  assumes "\<forall>j\<in>set js. range_product 4 (limb j :: gf) = 0" "4 ^ length js \<le> p_nat"
    and "v = le_value 4 (map limb js)"
  shows "to_canonical_u64 v < 4 ^ length js"
proof -
  have "\<forall>x\<in>set (map limb js). to_canonical_u64 x < 4"
    using assms(1) by (auto simp: range_product_4_zero)
  then show ?thesis
    using to_canonical_le_value(2) [of "map limb js" 4] assms(2,3) by simp
qed

section \<open>The limb loop\<close>

text \<open>
  \<open>for j in (0..num_limbs).rev()\<close>: one range product per limb, and the Horner recombination of the
  limbs below and above \<open>midpoint\<close>.
\<close>

definition limb_loop ::
  "'f::comm_ring_1 \<Rightarrow> nat \<Rightarrow> nat \<Rightarrow> (nat \<Rightarrow> 'f) \<Rightarrow> nat list \<Rightarrow> 'f list \<times> 'f \<times> 'f" where
  "limb_loop base max_limb midpoint limb js =
    foldl (\<lambda>(constraints, low, high) j.
        let this_limb = limb j; product = range_product max_limb this_limb
        in if j < midpoint then (constraints @ [product], base * low + this_limb, high)
           else (constraints @ [product], low, base * high + this_limb))
      ([], 0, 0) js"

lemma limb_loop_gen:
  "foldl (\<lambda>(constraints, low, high) j.
        let this_limb = limb j; product = rp this_limb
        in if j < midpoint then (constraints @ [product], base * low + this_limb, high)
           else (constraints @ [product], low, base * high + this_limb))
      (cs, lo, hi) js
   = (cs @ map (\<lambda>j. rp (limb j)) js,
      foldl (\<lambda>acc d. base * acc + d) lo (map limb (filter (\<lambda>j. j < midpoint) js)),
      foldl (\<lambda>acc d. base * acc + d) hi (map limb (filter (\<lambda>j. \<not> j < midpoint) js)))"
  by (induction js arbitrary: cs lo hi) (simp_all add: Let_def)

lemma filter_upt_below: "m \<le> n \<Longrightarrow> filter (\<lambda>j. j < m) [0..<n] = [0..<m]"
  by (induction n) (auto simp: le_Suc_eq filter_empty_conv)

lemma filter_upt_above: "m \<le> n \<Longrightarrow> filter (\<lambda>j. \<not> j < m) [0..<n] = [m..<n]"
  by (induction n) (auto simp: le_Suc_eq filter_empty_conv)

lemma limb_loop_eq:
  assumes "midpoint \<le> n"
  shows "limb_loop base max_limb midpoint limb (rev [0..<n])
    = (map (\<lambda>j. range_product max_limb (limb j)) (rev [0..<n]),
       le_value base (map limb [0..<midpoint]), le_value base (map limb [midpoint..<n]))"
  unfolding limb_loop_def limb_loop_gen
  by (simp only: rev_filter [symmetric] filter_upt_below [OF assms] filter_upt_above [OF assms]
      rev_map [symmetric] le_value_foldl_rev append_Nil)

text \<open>The same loop of a gate that recombines all its limbs into one value.\<close>

definition range_loop :: "'f::comm_ring_1 \<Rightarrow> nat \<Rightarrow> (nat \<Rightarrow> 'f) \<Rightarrow> nat list \<Rightarrow> 'f list \<times> 'f" where
  "range_loop base max_limb limb js =
    foldl (\<lambda>(constraints, combined) j.
        let this_limb = limb j; product = range_product max_limb this_limb
        in (constraints @ [product], base * combined + this_limb))
      ([], 0) js"

lemma range_loop_gen:
  "foldl (\<lambda>(constraints, combined) j.
        let this_limb = limb j; product = rp this_limb
        in (constraints @ [product], base * combined + this_limb)) (cs, acc) js
   = (cs @ map (\<lambda>j. rp (limb j)) js, foldl (\<lambda>acc d. base * acc + d) acc (map limb js))"
  by (induction js arbitrary: cs acc) (simp_all add: Let_def)

lemma range_loop_eq:
  "range_loop base max_limb limb (rev js)
    = (map (\<lambda>j. range_product max_limb (limb j)) (rev js), le_value base (map limb js))"
  unfolding range_loop_def range_loop_gen
  by (simp only: rev_map [symmetric] le_value_foldl_rev append_Nil)

section \<open>Batches\<close>

text \<open>
  A batch holds \<open>n\<close> points; wire \<open>w\<close> at point \<open>p\<close> is at index \<open>w * n + p\<close>. The constraints of a batch
  are kept as a list of chunks, one chunk of \<open>n\<close> values per constraint.
\<close>

definition batch_point :: "nat \<Rightarrow> (nat \<Rightarrow> 'f) \<Rightarrow> nat \<Rightarrow> nat \<Rightarrow> 'f" where
  "batch_point n wires p w = wires (w * n + p)"

definition batch_limb_loop ::
  "'f::comm_ring_1 \<Rightarrow> nat \<Rightarrow> nat \<Rightarrow> (nat \<Rightarrow> nat \<Rightarrow> 'f) \<Rightarrow> nat list \<Rightarrow> 'f list list \<times> 'f list \<times> 'f list" where
  "batch_limb_loop base midpoint n limb js =
    foldl (\<lambda>(chunks, low, high) j.
        let out = map (\<lambda>p. range_product4 (limb p j)) [0..<n]
        in if j < midpoint then (chunks @ [out], map (\<lambda>p. low ! p * base + limb p j) [0..<n], high)
           else (chunks @ [out], low, map (\<lambda>p. high ! p * base + limb p j) [0..<n]))
      ([], replicate n 0, replicate n 0) js"

definition batch_horner :: "'f::comm_ring_1 \<Rightarrow> nat \<Rightarrow> (nat \<Rightarrow> nat \<Rightarrow> 'f) \<Rightarrow> nat list \<Rightarrow> 'f list" where
  "batch_horner base n limb js =
    foldl (\<lambda>scratch j. map (\<lambda>p. scratch ! p * base + limb p j) [0..<n]) (replicate n 0) js"

lemma batch_horner_gen:
  "foldl (\<lambda>scratch j. map (\<lambda>p. scratch ! p * base + limb p j) [0..<n]) (map f [0..<n]) js
   = map (\<lambda>p. foldl (\<lambda>acc d. acc * base + d) (f p) (map (limb p) js)) [0..<n]"
proof (induction js arbitrary: f)
  case Nil
  show ?case by simp
next
  case (Cons j js)
  have eq: "map (\<lambda>p. map f [0..<n] ! p * base + limb p j) [0..<n] = map (\<lambda>p. f p * base + limb p j) [0..<n]"
    by (rule map_cong) simp_all
  show ?case using Cons.IH [of "\<lambda>p. f p * base + limb p j"] by (simp only: foldl_Cons eq list.map)
qed

lemma batch_horner_eq:
  "batch_horner base n limb (rev js) = map (\<lambda>p. le_value base (map (limb p) js)) [0..<n]"
  using batch_horner_gen [of base limb n "\<lambda>_. 0" "rev js"]
  by (simp add: batch_horner_def map_replicate_const rev_map [symmetric] le_value_foldl_rev')

definition batch_range_loop ::
  "'f::comm_ring_1 \<Rightarrow> nat \<Rightarrow> (nat \<Rightarrow> nat \<Rightarrow> 'f) \<Rightarrow> nat list \<Rightarrow> 'f list list \<times> 'f list" where
  "batch_range_loop base n limb js =
    foldl (\<lambda>(chunks, combined) j.
        (chunks @ [map (\<lambda>p. range_product4 (limb p j)) [0..<n]],
         map (\<lambda>p. combined ! p * base + limb p j) [0..<n]))
      ([], replicate n 0) js"

lemma batch_range_loop_gen:
  "foldl (\<lambda>(chunks, combined) j.
        (chunks @ [map (\<lambda>p. range_product4 (limb p j)) [0..<n]],
         map (\<lambda>p. combined ! p * base + limb p j) [0..<n])) (cs, acc) js
   = (cs @ map (\<lambda>j. map (\<lambda>p. range_product4 (limb p j)) [0..<n]) js,
      foldl (\<lambda>scratch j. map (\<lambda>p. scratch ! p * base + limb p j) [0..<n]) acc js)"
  by (induction js arbitrary: cs acc) simp_all

lemma batch_range_loop_eq:
  "batch_range_loop base n limb (rev js)
    = (map (\<lambda>j. map (\<lambda>p. range_product4 (limb p j)) [0..<n]) (rev js),
       map (\<lambda>p. le_value base (map (limb p) js)) [0..<n])"
  unfolding batch_range_loop_def batch_range_loop_gen batch_horner_def [symmetric] batch_horner_eq by simp

lemma batch_limb_loop_gen:
  "foldl (\<lambda>(chunks, low, high) j.
        let out = map (\<lambda>p. range_product4 (limb p j)) [0..<n]
        in if j < midpoint then (chunks @ [out], map (\<lambda>p. low ! p * base + limb p j) [0..<n], high)
           else (chunks @ [out], low, map (\<lambda>p. high ! p * base + limb p j) [0..<n]))
      (cs, lo, hi) js
   = (cs @ map (\<lambda>j. map (\<lambda>p. range_product4 (limb p j)) [0..<n]) js,
      foldl (\<lambda>scratch j. map (\<lambda>p. scratch ! p * base + limb p j) [0..<n]) lo (filter (\<lambda>j. j < midpoint) js),
      foldl (\<lambda>scratch j. map (\<lambda>p. scratch ! p * base + limb p j) [0..<n]) hi (filter (\<lambda>j. \<not> j < midpoint) js))"
  by (induction js arbitrary: cs lo hi) (simp_all add: Let_def)

lemma batch_limb_loop_eq:
  assumes "midpoint \<le> m"
  shows "batch_limb_loop base midpoint n limb (rev [0..<m])
    = (map (\<lambda>j. map (\<lambda>p. range_product4 (limb p j)) [0..<n]) (rev [0..<m]),
       map (\<lambda>p. le_value base (map (limb p) [0..<midpoint])) [0..<n],
       map (\<lambda>p. le_value base (map (limb p) [midpoint..<m])) [0..<n])"
  unfolding batch_limb_loop_def batch_limb_loop_gen batch_horner_def [symmetric]
  by (simp only: rev_filter [symmetric] filter_upt_below [OF assms] filter_upt_above [OF assms]
      batch_horner_eq append_Nil)

text \<open>
  \<open>chunked n F A\<close>: the chunks \<open>A\<close> are the constraint lists \<open>F p\<close> of the \<open>n\<close> points, transposed.
\<close>

definition chunked :: "nat \<Rightarrow> (nat \<Rightarrow> 'f list) \<Rightarrow> 'f list list \<Rightarrow> bool" where
  "chunked n F A \<longleftrightarrow>
     (\<forall>p<n. length (F p) = length A) \<and> (\<forall>c<length A. A ! c = map (\<lambda>p. F p ! c) [0..<n])"

lemma chunked_Nil: "chunked n (\<lambda>p. []) []"
  by (simp add: chunked_def)

lemma chunked_Cons:
  "(\<And>p. p < n \<Longrightarrow> f p = f' p) \<Longrightarrow> chunked n F A \<Longrightarrow> chunked n (\<lambda>p. f' p # F p) (map f [0..<n] # A)"
  by (auto simp: chunked_def nth_Cons split: nat.split)

lemma chunked_append:
  "chunked n F A \<Longrightarrow> chunked n G B \<Longrightarrow> chunked n (\<lambda>p. F p @ G p) (A @ B)"
  by (auto simp: chunked_def nth_append)

lemma chunked_map: "chunked n (\<lambda>p. map (\<lambda>j. f p j) js) (map (\<lambda>j. map (\<lambda>p. f p j) [0..<n]) js)"
  by (auto simp: chunked_def)

lemma chunked_concat:
  "(\<And>i. i \<in> set is \<Longrightarrow> chunked n (\<lambda>p. F p i) (A i)) \<Longrightarrow>
   chunked n (\<lambda>p. concat (map (F p) is)) (concat (map A is))"
  by (induction "is") (auto intro: chunked_Nil chunked_append)

lemmas chunked_intros = chunked_Nil chunked_Cons chunked_append chunked_map chunked_concat

lemma chunked_widths: "chunked n F A \<Longrightarrow> \<forall>xs\<in>set A. length xs = n"
  by (auto simp: chunked_def in_set_conv_nth)

lemma chunked_nth:
  assumes "chunked n F A" "c < length A" "p < n"
  shows "concat A ! (c * n + p) = F p ! c"
  using nth_concat_const [OF chunked_widths [OF assms(1)] assms(2,3)] assms
  by (auto simp: chunked_def)

section \<open>Filtered accumulation\<close>

text \<open>
  \<open>batch_multiply_add_inplace(combined, scratch, filters)\<close> on the slice of the running
  constraint index.
\<close>

definition accumulate_chunk ::
  "nat \<Rightarrow> 'f::comm_ring_1 list \<Rightarrow> 'f list \<times> nat \<Rightarrow> 'f list \<Rightarrow> 'f list \<times> nat" where
  "accumulate_chunk n filters = (\<lambda>(combined, constraint_index) scratch.
     (take (constraint_index * n) combined
      @ map (\<lambda>p. combined ! (constraint_index * n + p) + scratch ! p * filters ! p) [0..<n]
      @ drop ((constraint_index + 1) * n) combined,
      constraint_index + 1))"

definition accumulate_chunks ::
  "nat \<Rightarrow> 'f::comm_ring_1 list \<Rightarrow> 'f list list \<Rightarrow> 'f list \<Rightarrow> 'f list" where
  "accumulate_chunks n filters scratches combined =
     fst (foldl (accumulate_chunk n filters) (combined, 0) scratches)"

definition accumulate_spec ::
  "nat \<Rightarrow> 'f::comm_ring_1 list \<Rightarrow> 'f list list \<Rightarrow> 'f list \<Rightarrow> nat \<Rightarrow> nat \<Rightarrow> 'f" where
  "accumulate_spec n filters scratches combined ci k =
     (if ci * n \<le> k \<and> k < (ci + length scratches) * n
      then combined ! k + scratches ! (k div n - ci) ! (k mod n) * filters ! (k mod n)
      else combined ! k)"

lemma accumulate_chunk_nth:
  assumes "(ci + 1) * n \<le> length combined"
  shows "length (fst (accumulate_chunk n filters (combined, ci) s)) = length combined"
    and "k < length combined \<Longrightarrow> fst (accumulate_chunk n filters (combined, ci) s) ! k =
      (if ci * n \<le> k \<and> k < (ci + 1) * n
       then combined ! k + s ! (k - ci * n) * filters ! (k - ci * n) else combined ! k)"
proof -
  have len: "length (take (ci * n) combined) = ci * n" using assms by simp
  show "length (fst (accumulate_chunk n filters (combined, ci) s)) = length combined"
    using assms by (simp add: accumulate_chunk_def)
  assume k: "k < length combined"
  consider "k < ci * n" | "ci * n \<le> k" "k < ci * n + n" | "ci * n + n \<le> k" by linarith
  then show "fst (accumulate_chunk n filters (combined, ci) s) ! k =
      (if ci * n \<le> k \<and> k < (ci + 1) * n
       then combined ! k + s ! (k - ci * n) * filters ! (k - ci * n) else combined ! k)"
    by cases (use assms len k in \<open>auto simp: accumulate_chunk_def nth_append\<close>)
qed

lemma foldl_accumulate_chunk:
  assumes "(ci + length scratches) * n \<le> length combined"
  shows "length (fst (foldl (accumulate_chunk n filters) (combined, ci) scratches)) = length combined
    \<and> (\<forall>k<length combined. fst (foldl (accumulate_chunk n filters) (combined, ci) scratches) ! k
         = accumulate_spec n filters scratches combined ci k)"
  using assms
proof (induction scratches arbitrary: combined ci)
  case Nil
  then show ?case by (auto simp: accumulate_spec_def)
next
  case (Cons s scratches)
  let ?c = "fst (accumulate_chunk n filters (combined, ci) s)"
  have fits: "(ci + 1) * n \<le> length combined"
    using Cons.prems by (simp add: algebra_simps)
  note step = accumulate_chunk_nth [OF fits, where filters = filters and s = s]
  have snd: "accumulate_chunk n filters (combined, ci) s = (?c, Suc ci)"
    by (simp add: accumulate_chunk_def)
  have IH: "length (fst (foldl (accumulate_chunk n filters) (?c, Suc ci) scratches)) = length ?c
    \<and> (\<forall>k<length ?c. fst (foldl (accumulate_chunk n filters) (?c, Suc ci) scratches) ! k
         = accumulate_spec n filters scratches ?c (Suc ci) k)"
    by (rule Cons.IH) (use Cons.prems step(1) in \<open>simp add: algebra_simps\<close>)
  have "accumulate_spec n filters scratches ?c (Suc ci) k = accumulate_spec n filters (s # scratches) combined ci k"
    if k: "k < length combined" for k
  proof -
    consider "k < ci * n" | "ci * n \<le> k" "k < (ci + 1) * n" | "(ci + 1) * n \<le> k" by linarith
    then show ?thesis
    proof cases
      case 1
      then show ?thesis using step(2) [OF k] by (simp add: accumulate_spec_def)
    next
      case 2
      then have "k div n = ci" "k mod n = k - ci * n"
        by (metis add.commute add_mult_distrib div_nat_eqI mult.commute mult.left_neutral mult_Suc plus_1_eq_Suc,
            metis 2 add.commute add_mult_distrib div_nat_eqI minus_mult_div_eq_mod mult.commute mult.left_neutral mult_Suc plus_1_eq_Suc)
      moreover have "k < (ci + length (s # scratches)) * n"
        using 2 by (simp add: algebra_simps)
      ultimately show ?thesis using step(2) [OF k] 2 by (simp add: accumulate_spec_def)
    next
      case 3
      then have "ci < k div n" if "0 < n"
        using that by (metis Suc_eq_plus1 Suc_le_eq less_eq_div_iff_mult_less_eq)
      then have "scratches ! (k div n - Suc ci) = (s # scratches) ! (k div n - ci)" if "0 < n"
        using that by (simp add: nth_Cons')
      then show ?thesis using step(2) [OF k] 3
        by (cases "n = 0") (auto simp: accumulate_spec_def algebra_simps)
    qed
  qed
  moreover have "foldl (accumulate_chunk n filters) (combined, ci) (s # scratches)
      = foldl (accumulate_chunk n filters) (?c, Suc ci) scratches"
    by (subst snd [symmetric]) simp
  ultimately show ?case using IH step(1) by (simp only:) metis
qed

lemma accumulate_chunks_nth:
  assumes "length scratches * n \<le> length combined" "c < length scratches" "p < n"
  shows "accumulate_chunks n filters scratches combined ! (c * n + p)
    = combined ! (c * n + p) + scratches ! c ! p * filters ! p"
proof -
  have lt: "c * n + p < length scratches * n" using assms(2,3) by (rule index_block_lt)
  have "accumulate_chunks n filters scratches combined ! (c * n + p)
    = accumulate_spec n filters scratches combined 0 (c * n + p)"
    using foldl_accumulate_chunk [of 0 scratches n combined filters] assms(1) lt
    by (simp add: accumulate_chunks_def)
  then show ?thesis using lt assms(3) by (simp add: accumulate_spec_def)
qed

lemma accumulate_chunks_frame:
  assumes "length scratches * n \<le> length combined"
  shows "length (accumulate_chunks n filters scratches combined) = length combined"
    and "length scratches * n \<le> k \<Longrightarrow> k < length combined \<Longrightarrow>
      accumulate_chunks n filters scratches combined ! k = combined ! k"
  using foldl_accumulate_chunk [of 0 scratches n combined filters] assms
  by (auto simp: accumulate_chunks_def accumulate_spec_def)

text \<open>
  \<open>eval_unfiltered_base_batch_accumulate\<close> starts with two assertions on the lengths of its
  arguments.
\<close>

definition accumulate_checked ::
  "nat \<Rightarrow> nat \<Rightarrow> 'f::comm_ring_1 list list \<Rightarrow> 'f list \<Rightarrow> 'f list \<Rightarrow> 'f list option" where
  "accumulate_checked num_constraints n scratches filters combined =
     (if length filters \<noteq> n \<or> \<not> num_constraints * n \<le> length combined then None
      else Some (accumulate_chunks n filters scratches combined))"

lemma accumulate_checked_Some:
  "length filters = n \<Longrightarrow> num_constraints * n \<le> length combined \<Longrightarrow>
   \<exists>combined'. accumulate_checked num_constraints n scratches filters combined = Some combined'"
  by (simp add: accumulate_checked_def)

lemma all_below_at: "\<forall>c<m. \<forall>p<n. P c p \<Longrightarrow> c0 < (m::nat) \<Longrightarrow> p0 < (n::nat) \<Longrightarrow> P c0 p0"
  by blast

section \<open>The evaluation routines of a gate\<close>

locale gate_variants =
  fixes num_constraints :: nat
    and eval_unfiltered :: "(nat \<Rightarrow> 'f::comm_ring_1) \<Rightarrow> 'f list"
    and eval_circuit :: "(nat \<Rightarrow> 'f) \<Rightarrow> 'f list"
    and eval_packed :: "(nat \<Rightarrow> 'f) \<Rightarrow> 'f list"
    and eval_batch :: "nat \<Rightarrow> (nat \<Rightarrow> 'f) \<Rightarrow> 'f list list"
    and accumulate_scratches :: "nat \<Rightarrow> (nat \<Rightarrow> 'f) \<Rightarrow> 'f list list"
  assumes length_eval: "length (eval_unfiltered w) = num_constraints"
    and circuit_eq: "eval_circuit w = eval_unfiltered w"
    and packed_eq: "eval_packed w = eval_unfiltered w"
    and batch_chunked: "chunked n (\<lambda>p. eval_unfiltered (batch_point n wires p)) (eval_batch n wires)"
    and scratches_chunked:
      "chunked n (\<lambda>p. eval_unfiltered (batch_point n wires p)) (accumulate_scratches n wires)"
begin

lemma chunk_count: "0 < n \<Longrightarrow> chunked n (\<lambda>p. eval_unfiltered (batch_point n wires p)) A \<Longrightarrow> length A = num_constraints"
  using length_eval by (auto simp: chunked_def)

lemma batch_matches_eval:
  assumes "c < num_constraints" "p < n"
  shows "concat (eval_batch n wires) ! (c * n + p) = eval_unfiltered (batch_point n wires p) ! c"
  using chunked_nth [OF batch_chunked, of c n wires p] chunk_count [OF _ batch_chunked, of n wires] assms
  by simp

lemma length_batch: "0 < n \<Longrightarrow> length (concat (eval_batch n wires)) = num_constraints * n"
  using length_concat_const [OF chunked_widths [OF batch_chunked]] chunk_count [OF _ batch_chunked]
  by simp

lemma accumulate_matches_eval:
  assumes "c < num_constraints" "p < n"
    and "accumulate_checked num_constraints n (accumulate_scratches n wires) filters combined = Some combined'"
  shows "combined' ! (c * n + p)
    = combined ! (c * n + p) + eval_unfiltered (batch_point n wires p) ! c * filters ! p"
proof -
  have len: "length (accumulate_scratches n wires) = num_constraints"
    using chunk_count [OF _ scratches_chunked, of n wires] assms(2) by simp
  have "accumulate_scratches n wires ! c ! p = eval_unfiltered (batch_point n wires p) ! c"
    using scratches_chunked [of n wires] assms(1,2) len by (simp add: chunked_def)
  then show ?thesis
    using assms len by (auto simp: accumulate_checked_def accumulate_chunks_nth split: if_splits)
qed

lemma accumulate_frame:
  assumes "accumulate_checked num_constraints n (accumulate_scratches n wires) filters combined = Some combined'"
    and "0 < n"
  shows "length combined' = length combined"
    and "num_constraints * n \<le> k \<Longrightarrow> k < length combined \<Longrightarrow> combined' ! k = combined ! k"
  using assms chunk_count [OF assms(2) scratches_chunked, of wires]
  by (auto simp: accumulate_checked_def accumulate_chunks_frame split: if_splits)

text \<open>Everything the four routines owe to \<open>eval_unfiltered\<close>, in one statement.\<close>

lemma routines_agree:
  "eval_circuit w = eval_unfiltered w \<and> eval_packed w = eval_unfiltered w
    \<and> (\<forall>c<num_constraints. \<forall>p<n. concat (eval_batch n wires) ! (c * n + p) = eval_unfiltered (batch_point n wires p) ! c)
    \<and> (0 < n \<longrightarrow> accumulate_checked num_constraints n (accumulate_scratches n wires) filters combined = Some combined'
        \<longrightarrow> length combined' = length combined
          \<and> (\<forall>c<num_constraints. \<forall>p<n. combined' ! (c * n + p)
              = combined ! (c * n + p) + eval_unfiltered (batch_point n wires p) ! c * filters ! p)
          \<and> (\<forall>k. num_constraints * n \<le> k \<longrightarrow> k < length combined \<longrightarrow> combined' ! k = combined ! k))"
  using batch_matches_eval accumulate_matches_eval accumulate_frame
  by (auto simp: circuit_eq packed_eq)

lemma batch_zero_iff:
  assumes "0 < n"
  shows "(\<forall>c\<in>set (concat (eval_batch n wires)). c = 0)
    \<longleftrightarrow> (\<forall>p<n. \<forall>c\<in>set (eval_unfiltered (batch_point n wires p)). c = 0)"
proof -
  have len: "length (eval_batch n wires) = num_constraints"
    by (rule chunk_count [OF assms batch_chunked])
  have col: "eval_batch n wires ! c = map (\<lambda>p. eval_unfiltered (batch_point n wires p) ! c) [0..<n]"
    if "c < num_constraints" for c
    using batch_chunked [of n wires] len that by (simp add: chunked_def)
  show ?thesis
    using len col length_eval
    by (auto simp: in_set_conv_nth all_set_conv_all_nth)
qed

end

text \<open>A gate whose row is a sequence of \<open>num_ops\<close> independent operations.\<close>

lemma gate_variants_concat:
  assumes "\<And>w i. length (op w i) = k"
    and "circuit_op = op" "packed_op = op"
    and "\<And>n wires i. chunked n (\<lambda>p. op (batch_point n wires p) i) (batch_op n wires i)"
    and "\<And>n wires i. chunked n (\<lambda>p. op (batch_point n wires p) i) (accumulate_op n wires i)"
  shows "gate_variants (num_ops * k) (\<lambda>w. concat (map (op w) [0..<num_ops]))
    (\<lambda>w. concat (map (circuit_op w) [0..<num_ops])) (\<lambda>w. concat (map (packed_op w) [0..<num_ops]))
    (\<lambda>n wires. concat (map (batch_op n wires) [0..<num_ops]))
    (\<lambda>n wires. concat (map (accumulate_op n wires) [0..<num_ops]))"
  using assms
  by unfold_locales (auto intro!: chunked_concat simp: length_concat comp_def sum_list_triv)

section \<open>Witness generators\<close>

text \<open>A generator returns the wires it sets, in order; \<open>set_wires\<close> writes them into a row.\<close>

definition set_wires :: "(nat \<times> gf) list \<Rightarrow> (nat \<Rightarrow> gf) \<Rightarrow> (nat \<Rightarrow> gf)" where
  "set_wires values w = foldl (\<lambda>w (k, v). w(k := v)) w values"

lemma set_wires_append [simp]: "set_wires (xs @ ys) w = set_wires ys (set_wires xs w)"
  by (simp add: set_wires_def)

lemma set_wires_Cons [simp]: "set_wires ((k, v) # xs) w = set_wires xs (w(k := v))"
  by (simp add: set_wires_def)

lemma set_wires_Nil [simp]: "set_wires [] w = w"
  by (simp add: set_wires_def)

lemma set_wires_other: "k \<notin> fst ` set xs \<Longrightarrow> set_wires xs w k = w k"
  by (induction xs arbitrary: w) (auto simp: fun_upd_def)

lemma set_wires_enumerate:
  assumes "inj f"
  shows "set_wires (map (\<lambda>(j, x). (f j, h x)) (enumerate m xs)) w (f k)
    = (if m \<le> k \<and> k < m + length xs then h (xs ! (k - m)) else w (f k))"
  using assms
proof (induction xs arbitrary: m w)
  case Nil
  then show ?case by auto
next
  case (Cons x xs)
  then show ?case
    by (auto simp: inj_eq nth_Cons' Suc_diff_Suc dest: le_antisym)
qed

lemma le_digits_range: "j < n \<Longrightarrow> le_digits 4 n x ! j < 4"
  using le_digits_lt [of 4 "le_digits 4 n x ! j" n x] by simp

section \<open>Placing a gate operation\<close>

text \<open>
  \<open>find_slot\<close> hands out one operation of a gate row. Its routed input wires are connected to the
  input targets; the remaining wires of the operation (outputs, auxiliary limbs) are free, and the
  constraints of the operation must vanish. The constraints are those of a row with one operation:
  for every gate below a lemma shows that a row with more operations is the concatenation of its
  operations.
\<close>

definition gate_slot :: "((nat \<Rightarrow> gf) \<Rightarrow> gf list) \<Rightarrow> target list \<Rightarrow> nat \<Rightarrow> target list circ" where
  "gate_slot constraints inputs num_free =
    circ_bind (add_virtual_targets num_free) (\<lambda>free.
    circ_bind (circ_assert (\<forall>c\<in>set (constraints (\<lambda>k. map tval (inputs @ free) ! k)). c = 0)) (\<lambda>_.
    circ_return free))"

lemma sound_gate_slot:
  assumes "\<And>vs. length vs = m \<Longrightarrow> \<forall>c\<in>set (constraints (\<lambda>k. (map tval inputs @ vs) ! k)). c = 0 \<Longrightarrow> Q vs"
  shows "sound (gate_slot constraints inputs m) (\<lambda>free. length free = m \<and> Q (map tval free))"
  unfolding gate_slot_def
  by (rule sound_bind [OF sound_add_virtual_targets], rule sound_bind [OF sound_assert], rule sound_return)
    (use assms in simp)

lemma complete_gate_slot:
  assumes "length vs = m" "\<forall>c\<in>set (constraints (\<lambda>k. (map tval inputs @ vs) ! k)). c = 0"
  shows "complete (gate_slot constraints inputs m) (\<lambda>free. free = map Wire vs)"
proof -
  have "map (tval \<circ> Wire) vs = vs" by (simp add: comp_def)
  then show ?thesis
    unfolding gate_slot_def assms(1) [symmetric]
    by (intro complete_bind [OF complete_add_virtual_targets]
        complete_bind [OF implements_complete [OF implements_assert]] complete_return)
      (use assms(2) in simp_all)
qed

lemma implements_gate_slot:
  assumes "\<And>vs. length vs = m \<Longrightarrow> \<forall>c\<in>set (constraints (\<lambda>k. (map tval inputs @ vs) ! k)). c = 0 \<Longrightarrow> Q vs"
    and "length vs = m" "\<forall>c\<in>set (constraints (\<lambda>k. (map tval inputs @ vs) ! k)). c = 0"
  shows "implements (gate_slot constraints inputs m) (\<lambda>free. length free = m \<and> Q (map tval free))"
proof (rule implementsI)
  show "sound (gate_slot constraints inputs m) (\<lambda>free. length free = m \<and> Q (map tval free))"
    using assms(1) by (rule sound_gate_slot)
  have "Q vs" using assms by blast
  then show "complete (gate_slot constraints inputs m) (\<lambda>free. length free = m \<and> Q (map tval free))"
    by (intro complete_weaken [OF complete_gate_slot [of vs m constraints inputs]])
      (simp_all add: assms(2,3) comp_def)
qed

end
