(* ===== verification/U32_Arithmetic_Gate.thy ===== *)
theory U32_Arithmetic_Gate
  imports Gate_Base
begin

text \<open>
  \<open>circuit/src/uint/u32/gates/arithmetic_u32.rs\<close>: the gate \<open>U32ArithmeticGate\<close> that computes
  \<open>x * y + z\<close> and splits it into two 32-bit halves, its five evaluation routines and its witness
  generator.
\<close>

section \<open>The gate\<close>

record U32ArithmeticGate =
  ua_num_ops :: nat

definition ua_limb_bits :: nat where "ua_limb_bits = 2"
definition ua_num_limbs :: nat where "ua_num_limbs = 64 div ua_limb_bits"
definition ua_routed_wires_per_op :: nat where "ua_routed_wires_per_op = 6"

definition ua_new_from_config :: "nat \<Rightarrow> nat \<Rightarrow> U32ArithmeticGate" where
  "ua_new_from_config num_wires num_routed_wires =
    \<lparr>ua_num_ops = min (num_wires div (ua_routed_wires_per_op + ua_num_limbs))
                     (num_routed_wires div ua_routed_wires_per_op)\<rparr>"

definition ua_wire_ith_multiplicand_0 :: "nat \<Rightarrow> nat" where
  "ua_wire_ith_multiplicand_0 i = ua_routed_wires_per_op * i"
definition ua_wire_ith_multiplicand_1 :: "nat \<Rightarrow> nat" where
  "ua_wire_ith_multiplicand_1 i = ua_routed_wires_per_op * i + 1"
definition ua_wire_ith_addend :: "nat \<Rightarrow> nat" where
  "ua_wire_ith_addend i = ua_routed_wires_per_op * i + 2"
definition ua_wire_ith_output_low_half :: "nat \<Rightarrow> nat" where
  "ua_wire_ith_output_low_half i = ua_routed_wires_per_op * i + 3"
definition ua_wire_ith_output_high_half :: "nat \<Rightarrow> nat" where
  "ua_wire_ith_output_high_half i = ua_routed_wires_per_op * i + 4"
definition ua_wire_ith_inverse :: "nat \<Rightarrow> nat" where
  "ua_wire_ith_inverse i = ua_routed_wires_per_op * i + 5"
definition ua_wire_ith_output_jth_limb :: "U32ArithmeticGate \<Rightarrow> nat \<Rightarrow> nat \<Rightarrow> nat" where
  "ua_wire_ith_output_jth_limb g i j = ua_routed_wires_per_op * ua_num_ops g + ua_num_limbs * i + j"

definition ua_num_wires :: "U32ArithmeticGate \<Rightarrow> nat" where
  "ua_num_wires g = ua_num_ops g * (ua_routed_wires_per_op + ua_num_limbs)"
definition ua_num_constraints :: "U32ArithmeticGate \<Rightarrow> nat" where
  "ua_num_constraints g = ua_num_ops g * (4 + ua_num_limbs)"

lemmas ua_wire_defs = ua_limb_bits_def ua_num_limbs_def ua_routed_wires_per_op_def
  ua_wire_ith_multiplicand_0_def ua_wire_ith_multiplicand_1_def ua_wire_ith_addend_def
  ua_wire_ith_output_low_half_def ua_wire_ith_output_high_half_def ua_wire_ith_inverse_def
  ua_wire_ith_output_jth_limb_def

definition u32_max :: "'f::comm_ring_1" where "u32_max = of_nat (2 ^ 32 - 1)"

section \<open>Evaluation routines\<close>

text \<open>The body of the loop over the operations of \<open>eval_unfiltered\<close>.\<close>

definition ua_eval_op :: "U32ArithmeticGate \<Rightarrow> (nat \<Rightarrow> 'f::comm_ring_1) \<Rightarrow> nat \<Rightarrow> 'f list" where
  "ua_eval_op g local_wires i =
    (let multiplicand_0 = local_wires (ua_wire_ith_multiplicand_0 i);
         multiplicand_1 = local_wires (ua_wire_ith_multiplicand_1 i);
         addend = local_wires (ua_wire_ith_addend i);
         computed_output = multiplicand_0 * multiplicand_1 + addend;
         output_low = local_wires (ua_wire_ith_output_low_half i);
         output_high = local_wires (ua_wire_ith_output_high_half i);
         inverse = local_wires (ua_wire_ith_inverse i);
         diff = u32_max - output_high;
         hi_not_max = inverse * diff - 1;
         hi_not_max_or_lo_zero = hi_not_max * output_low;
         combined_output = output_high * of_nat (2 ^ 32) + output_low;
         midpoint = ua_num_limbs div 2;
         (products, combined_low_limbs, combined_high_limbs) =
           limb_loop (of_nat (2 ^ ua_limb_bits)) (2 ^ ua_limb_bits) midpoint
             (\<lambda>j. local_wires (ua_wire_ith_output_jth_limb g i j)) (rev [0..<ua_num_limbs])
     in [hi_not_max_or_lo_zero, combined_output - computed_output] @ products
        @ [combined_low_limbs - output_low, combined_high_limbs - output_high])"

definition ua_eval_unfiltered :: "U32ArithmeticGate \<Rightarrow> (nat \<Rightarrow> 'f::comm_ring_1) \<Rightarrow> 'f list" where
  "ua_eval_unfiltered g local_wires = concat (map (ua_eval_op g local_wires) [0..<ua_num_ops g])"

text \<open>
  \<open>eval_unfiltered_circuit\<close>: the same constraints, computed by the builder's extension
  arithmetic (\<open>mul_add_extension\<close>, \<open>mul_sub_extension\<close>, \dots), with the range product built up by
  a loop.
\<close>

definition ua_eval_circuit_op :: "U32ArithmeticGate \<Rightarrow> (nat \<Rightarrow> 'f::comm_ring_1) \<Rightarrow> nat \<Rightarrow> 'f list" where
  "ua_eval_circuit_op g local_wires i =
    (let multiplicand_0 = local_wires (ua_wire_ith_multiplicand_0 i);
         multiplicand_1 = local_wires (ua_wire_ith_multiplicand_1 i);
         addend = local_wires (ua_wire_ith_addend i);
         computed_output = multiplicand_0 * multiplicand_1 + addend;
         output_low = local_wires (ua_wire_ith_output_low_half i);
         output_high = local_wires (ua_wire_ith_output_high_half i);
         inverse = local_wires (ua_wire_ith_inverse i);
         diff = u32_max - output_high;
         hi_not_max = inverse * diff - 1;
         hi_not_max_or_lo_zero = hi_not_max * output_low;
         combined_output = output_high * of_nat (2 ^ 32) + output_low;
         midpoint = ua_num_limbs div 2; base = of_nat (2 ^ ua_limb_bits);
         (products, combined_low_limbs, combined_high_limbs) =
           foldl (\<lambda>(constraints, low, high) j.
               let this_limb = local_wires (ua_wire_ith_output_jth_limb g i j);
                   product = circuit_range_product (2 ^ ua_limb_bits) this_limb
               in if j < midpoint then (constraints @ [product], base * low + this_limb, high)
                  else (constraints @ [product], low, base * high + this_limb))
             ([], 0, 0) (rev [0..<ua_num_limbs])
     in [hi_not_max_or_lo_zero, combined_output - computed_output] @ products
        @ [combined_low_limbs - output_low, combined_high_limbs - output_high])"

definition ua_eval_unfiltered_circuit :: "U32ArithmeticGate \<Rightarrow> (nat \<Rightarrow> 'f::comm_ring_1) \<Rightarrow> 'f list" where
  "ua_eval_unfiltered_circuit g local_wires =
     concat (map (ua_eval_circuit_op g local_wires) [0..<ua_num_ops g])"

text \<open>\<open>eval_unfiltered_base_packed\<close>: one lane of the packed evaluation.\<close>

definition ua_eval_packed_op :: "U32ArithmeticGate \<Rightarrow> (nat \<Rightarrow> 'f::comm_ring_1) \<Rightarrow> nat \<Rightarrow> 'f list" where
  "ua_eval_packed_op g local_wires i =
    (let multiplicand_0 = local_wires (ua_wire_ith_multiplicand_0 i);
         multiplicand_1 = local_wires (ua_wire_ith_multiplicand_1 i);
         addend = local_wires (ua_wire_ith_addend i);
         computed_output = multiplicand_0 * multiplicand_1 + addend;
         output_low = local_wires (ua_wire_ith_output_low_half i);
         output_high = local_wires (ua_wire_ith_output_high_half i);
         inverse = local_wires (ua_wire_ith_inverse i);
         diff = u32_max - output_high;
         hi_not_max = inverse * diff - 1;
         hi_not_max_or_lo_zero = hi_not_max * output_low;
         combined_output = output_high * of_nat (2 ^ 32) + output_low;
         midpoint = ua_num_limbs div 2; base = of_nat (2 ^ ua_limb_bits);
         (products, combined_low_limbs, combined_high_limbs) =
           foldl (\<lambda>(constraints, low, high) j.
               let this_limb = local_wires (ua_wire_ith_output_jth_limb g i j);
                   product = range_product (2 ^ ua_limb_bits) this_limb
               in if j < midpoint then (constraints @ [product], low * base + this_limb, high)
                  else (constraints @ [product], low, high * base + this_limb))
             ([], 0, 0) (rev [0..<ua_num_limbs])
     in [hi_not_max_or_lo_zero, combined_output - computed_output] @ products
        @ [combined_low_limbs - output_low, combined_high_limbs - output_high])"

definition ua_eval_unfiltered_base_packed :: "U32ArithmeticGate \<Rightarrow> (nat \<Rightarrow> 'f::comm_ring_1) \<Rightarrow> 'f list" where
  "ua_eval_unfiltered_base_packed g local_wires =
     concat (map (ua_eval_packed_op g local_wires) [0..<ua_num_ops g])"

text \<open>\<open>eval_unfiltered_base_batch\<close>: chunks of \<open>n\<close> points, factored range products.\<close>

definition ua_eval_batch_op ::
  "U32ArithmeticGate \<Rightarrow> nat \<Rightarrow> (nat \<Rightarrow> 'f::comm_ring_1) \<Rightarrow> nat \<Rightarrow> 'f list list" where
  "ua_eval_batch_op g n wires i =
    (let multiplicand_0 = (\<lambda>p. batch_point n wires p (ua_wire_ith_multiplicand_0 i));
         multiplicand_1 = (\<lambda>p. batch_point n wires p (ua_wire_ith_multiplicand_1 i));
         addend = (\<lambda>p. batch_point n wires p (ua_wire_ith_addend i));
         output_low = (\<lambda>p. batch_point n wires p (ua_wire_ith_output_low_half i));
         output_high = (\<lambda>p. batch_point n wires p (ua_wire_ith_output_high_half i));
         inverse = (\<lambda>p. batch_point n wires p (ua_wire_ith_inverse i));
         (chunks, combined_low, combined_high) =
           batch_limb_loop (of_nat (2 ^ ua_limb_bits)) (ua_num_limbs div 2) n
             (\<lambda>p j. batch_point n wires p (ua_wire_ith_output_jth_limb g i j)) (rev [0..<ua_num_limbs])
     in map (\<lambda>p. (inverse p * (u32_max - output_high p) - 1) * output_low p) [0..<n]
      # map (\<lambda>p. output_high p * of_nat (2 ^ 32) + output_low p
                    - (multiplicand_0 p * multiplicand_1 p + addend p)) [0..<n]
      # chunks
      @ [map (\<lambda>p. combined_low ! p - output_low p) [0..<n],
         map (\<lambda>p. combined_high ! p - output_high p) [0..<n]])"

definition ua_eval_unfiltered_base_batch ::
  "U32ArithmeticGate \<Rightarrow> nat \<Rightarrow> (nat \<Rightarrow> 'f::comm_ring_1) \<Rightarrow> 'f list list" where
  "ua_eval_unfiltered_base_batch g n wires =
     concat (map (ua_eval_batch_op g n wires) [0..<ua_num_ops g])"

text \<open>
  The scratch rows of \<open>eval_unfiltered_base_batch_accumulate\<close>, in the order in which they are
  multiplied into the accumulator: the recombinations are folded in two separate loops.
\<close>

definition ua_accumulate_op ::
  "U32ArithmeticGate \<Rightarrow> nat \<Rightarrow> (nat \<Rightarrow> 'f::comm_ring_1) \<Rightarrow> nat \<Rightarrow> 'f list list" where
  "ua_accumulate_op g n wires i =
    (let multiplicand_0 = (\<lambda>p. batch_point n wires p (ua_wire_ith_multiplicand_0 i));
         multiplicand_1 = (\<lambda>p. batch_point n wires p (ua_wire_ith_multiplicand_1 i));
         addend = (\<lambda>p. batch_point n wires p (ua_wire_ith_addend i));
         output_low = (\<lambda>p. batch_point n wires p (ua_wire_ith_output_low_half i));
         output_high = (\<lambda>p. batch_point n wires p (ua_wire_ith_output_high_half i));
         inverse = (\<lambda>p. batch_point n wires p (ua_wire_ith_inverse i));
         limb = (\<lambda>p j. batch_point n wires p (ua_wire_ith_output_jth_limb g i j));
         midpoint = ua_num_limbs div 2; limb_base = of_nat (2 ^ ua_limb_bits);
         low = batch_horner limb_base n limb (rev [0..<midpoint]);
         high = batch_horner limb_base n limb (rev [midpoint..<ua_num_limbs])
     in map (\<lambda>p. (inverse p * (u32_max - output_high p) - 1) * output_low p) [0..<n]
      # map (\<lambda>p. output_high p * of_nat (2 ^ 32) + output_low p
                    - (multiplicand_0 p * multiplicand_1 p + addend p)) [0..<n]
      # map (\<lambda>j. map (\<lambda>p. range_product4 (limb p j)) [0..<n]) (rev [0..<ua_num_limbs])
      @ [map (\<lambda>p. low ! p - output_low p) [0..<n], map (\<lambda>p. high ! p - output_high p) [0..<n]])"

definition ua_accumulate_scratches ::
  "U32ArithmeticGate \<Rightarrow> nat \<Rightarrow> (nat \<Rightarrow> 'f::comm_ring_1) \<Rightarrow> 'f list list" where
  "ua_accumulate_scratches g n wires = concat (map (ua_accumulate_op g n wires) [0..<ua_num_ops g])"

definition ua_eval_unfiltered_base_batch_accumulate ::
  "U32ArithmeticGate \<Rightarrow> nat \<Rightarrow> (nat \<Rightarrow> 'f::comm_ring_1) \<Rightarrow> 'f list \<Rightarrow> 'f list \<Rightarrow> 'f list option" where
  "ua_eval_unfiltered_base_batch_accumulate g n wires filters combined =
     accumulate_checked (ua_num_constraints g) n (ua_accumulate_scratches g n wires) filters combined"

section \<open>The routines agree\<close>

text \<open>The constraints of an operation in closed form.\<close>

definition ua_op_constraints ::
  "(nat \<Rightarrow> 'f::comm_ring_1) \<Rightarrow> 'f \<Rightarrow> 'f \<Rightarrow> 'f \<Rightarrow> 'f \<Rightarrow> 'f \<Rightarrow> 'f \<Rightarrow> 'f list" where
  "ua_op_constraints limb m0 m1 addend lo hi iv =
     [(iv * (u32_max - hi) - 1) * lo, hi * of_nat (2 ^ 32) + lo - (m0 * m1 + addend)]
     @ map (\<lambda>j. range_product (2 ^ ua_limb_bits) (limb j)) (rev [0..<ua_num_limbs])
     @ [le_value (of_nat (2 ^ ua_limb_bits)) (map limb [0..<ua_num_limbs div 2]) - lo,
        le_value (of_nat (2 ^ ua_limb_bits)) (map limb [ua_num_limbs div 2..<ua_num_limbs]) - hi]"

lemma ua_limb_numbers: "ua_num_limbs = 32" "ua_limb_bits = 2"
  by (simp_all add: ua_num_limbs_def ua_limb_bits_def)

lemma ua_range_product: "range_product (2 ^ ua_limb_bits) x = range_product4 x"
  by (simp add: ua_limb_bits_def range_product_4)

abbreviation ua_op_at :: "U32ArithmeticGate \<Rightarrow> (nat \<Rightarrow> 'f::comm_ring_1) \<Rightarrow> nat \<Rightarrow> 'f list" where
  "ua_op_at g w i \<equiv> ua_op_constraints (\<lambda>j. w (ua_wire_ith_output_jth_limb g i j))
     (w (ua_wire_ith_multiplicand_0 i)) (w (ua_wire_ith_multiplicand_1 i)) (w (ua_wire_ith_addend i))
     (w (ua_wire_ith_output_low_half i)) (w (ua_wire_ith_output_high_half i)) (w (ua_wire_ith_inverse i))"

lemma ua_eval_op_eq: "ua_eval_op g w i = ua_op_at g w i"
  unfolding ua_eval_op_def ua_op_constraints_def Let_def
  by (subst limb_loop_eq) (simp_all del: upt_rec_numeral)

lemma ua_eval_circuit_op_eq: "ua_eval_circuit_op g w = ua_eval_op g w"
  unfolding ua_eval_circuit_op_def circuit_range_product_eq ua_eval_op_def limb_loop_def fun_eq_iff
  by (simp only: Let_def simp_thms)

lemma ua_eval_packed_op_eq: "ua_eval_packed_op g w = ua_eval_op g w"
  unfolding ua_eval_packed_op_def ua_eval_op_def limb_loop_def fun_eq_iff
  by (simp only: mult.commute [of _ "of_nat (2 ^ ua_limb_bits)"] Let_def simp_thms)

lemma length_ua_op [simp]: "length (ua_op_constraints limb m0 m1 a lo hi iv) = 4 + ua_num_limbs"
  by (simp add: ua_op_constraints_def)

lemma ua_batch_op_chunked:
  "chunked n (\<lambda>p. ua_op_at g (batch_point n wires p) i) (ua_eval_batch_op g n wires i)"
  unfolding ua_eval_batch_op_def ua_op_constraints_def Let_def ua_range_product
  by (subst batch_limb_loop_eq, simp)
    (unfold prod.case append_Cons append_Nil, (intro chunked_intros; simp))

lemma ua_accumulate_op_chunked:
  "chunked n (\<lambda>p. ua_op_at g (batch_point n wires p) i) (ua_accumulate_op g n wires i)"
  unfolding ua_accumulate_op_def ua_op_constraints_def Let_def batch_horner_eq ua_range_product
  by (unfold append_Cons append_Nil, (intro chunked_intros; simp))

interpretation ua: gate_variants "ua_num_constraints g" "ua_eval_unfiltered g"
  "ua_eval_unfiltered_circuit g" "ua_eval_unfiltered_base_packed g"
  "ua_eval_unfiltered_base_batch g" "ua_accumulate_scratches g" for g
proof unfold_locales
  show "length (ua_eval_unfiltered g w) = ua_num_constraints g" for w :: "nat \<Rightarrow> 'a"
    by (simp add: ua_eval_unfiltered_def ua_eval_op_eq length_concat comp_def sum_list_triv
        ua_num_constraints_def)
  show "ua_eval_unfiltered_circuit g w = ua_eval_unfiltered g w" for w :: "nat \<Rightarrow> 'a"
    by (simp add: ua_eval_unfiltered_circuit_def ua_eval_unfiltered_def ua_eval_circuit_op_eq)
  show "ua_eval_unfiltered_base_packed g w = ua_eval_unfiltered g w" for w :: "nat \<Rightarrow> 'a"
    by (simp add: ua_eval_unfiltered_base_packed_def ua_eval_unfiltered_def ua_eval_packed_op_eq)
  show "chunked n (\<lambda>p. ua_eval_unfiltered g (batch_point n wires p)) (ua_eval_unfiltered_base_batch g n wires)"
    for n and wires :: "nat \<Rightarrow> 'a"
    unfolding ua_eval_unfiltered_def ua_eval_unfiltered_base_batch_def ua_eval_op_eq
    by (rule chunked_concat) (rule ua_batch_op_chunked)
  show "chunked n (\<lambda>p. ua_eval_unfiltered g (batch_point n wires p)) (ua_accumulate_scratches g n wires)"
    for n and wires :: "nat \<Rightarrow> 'a"
    unfolding ua_eval_unfiltered_def ua_accumulate_scratches_def ua_eval_op_eq
    by (rule chunked_concat) (rule ua_accumulate_op_chunked)
qed

section \<open>Soundness of the constraints\<close>

lemma ua_op_sound:
  fixes limb :: "nat \<Rightarrow> gf"
  assumes zero: "\<forall>c\<in>set (ua_op_constraints limb m0 m1 addend lo hi iv). c = 0"
  shows "to_canonical_u64 lo < 2 ^ 32" and "to_canonical_u64 hi < 2 ^ 32"
    and "to_canonical_u64 (m0 * m1 + addend) = to_canonical_u64 hi * 2 ^ 32 + to_canonical_u64 lo"
proof -
  have canon: "(iv * (u32_max - hi) - 1) * lo = 0"
    and comb: "hi * of_nat (2 ^ 32) + lo = m0 * m1 + addend"
    and range: "\<forall>j<32. range_product 4 (limb j) = 0"
    and low: "lo = le_value 4 (map limb [0..<16])" and high: "hi = le_value 4 (map limb [16..<32])"
    using zero by (auto simp: ua_op_constraints_def ua_limb_numbers simp del: upt_rec_numeral mult_eq_0_iff)
  show lo: "to_canonical_u64 lo < 2 ^ 32"
    using limb_range_value [of "[0..<16]" limb lo] range low by simp
  show hi: "to_canonical_u64 hi < 2 ^ 32"
    using limb_range_value [of "[16..<32]" limb hi] range high by (simp del: upt_rec_numeral)
  let ?N = "to_canonical_u64 hi * 2 ^ 32 + to_canonical_u64 lo"
  have "?N < p_nat"
  proof (cases "to_canonical_u64 hi = 2 ^ 32 - 1")
    case True
    then have "hi = u32_max"
      unfolding u32_max_def by (metis of_nat_to_canonical)
    with canon have "lo = 0" by simp
    with True show ?thesis by simp
  next
    case False
    then show ?thesis using lo hi by simp
  qed
  moreover have "of_nat ?N = m0 * m1 + addend" using comb by simp
  ultimately show "to_canonical_u64 (m0 * m1 + addend) = ?N"
    by (metis to_canonical_of_nat_small)
qed

section \<open>The witness generator\<close>

text \<open>\<open>std::iter::from_fn(..).take(num_limbs)\<close>: the digits of \<open>output_u64\<close>, up to the last non-zero one.\<close>

fun ua_output_limbs :: "nat \<Rightarrow> nat \<Rightarrow> nat list" where
  "ua_output_limbs 0 output_u64 = []"
| "ua_output_limbs (Suc k) output_u64 =
    (if output_u64 = 0 then []
     else output_u64 mod 2 ^ ua_limb_bits # ua_output_limbs k (output_u64 div 2 ^ ua_limb_bits))"

definition ua_generated_inverse :: "nat \<Rightarrow> gf" where
  "ua_generated_inverse output_high_u64 =
    (let diff = 2 ^ 32 - 1 - output_high_u64
     in if diff = 0 then 0
        else if diff = 2 ^ 32 - 1 then of_nat 0xfffffffe00000001
        else inverse (of_nat diff))"

text \<open>\<open>run_once\<close> returns the wires it sets, in order.\<close>

definition ua_run_once :: "U32ArithmeticGate \<Rightarrow> (nat \<Rightarrow> gf) \<Rightarrow> nat \<Rightarrow> (nat \<times> gf) list" where
  "ua_run_once g get_local_wire i =
    (let multiplicand_0 = get_local_wire (ua_wire_ith_multiplicand_0 i);
         multiplicand_1 = get_local_wire (ua_wire_ith_multiplicand_1 i);
         addend = get_local_wire (ua_wire_ith_addend i);
         output = multiplicand_0 * multiplicand_1 + addend;
         output_u64 = to_canonical_u64 output;
         output_high_u64 = output_u64 div 2 ^ 32;
         output_low_u64 = output_u64 mod 2 ^ 32
     in [(ua_wire_ith_output_high_half i, of_nat output_high_u64),
         (ua_wire_ith_output_low_half i, of_nat output_low_u64),
         (ua_wire_ith_inverse i, ua_generated_inverse output_high_u64)]
        @ map (\<lambda>(j, output_limb). (ua_wire_ith_output_jth_limb g i j, of_nat output_limb))
            (enumerate 0 (ua_output_limbs ua_num_limbs output_u64)))"

lemma ua_output_limbs_nth:
  "j < k \<Longrightarrow> (if j < length (ua_output_limbs k x) then ua_output_limbs k x ! j else 0) = le_digits 4 k x ! j"
proof (induction k arbitrary: j x)
  case 0
  then show ?case by simp
next
  case (Suc k)
  have zero: "le_digits 4 m 0 ! l = 0" if "l < m" for l m
    using that by (induction m arbitrary: l) (auto simp: nth_Cons split: nat.split)
  show ?case
  proof (cases "x = 0")
    case True
    then show ?thesis using zero [OF Suc.prems] by simp
  next
    case False
    show ?thesis
    proof (cases j)
      case (Suc l)
      then show ?thesis using Suc.IH [of l "x div 4"] Suc.prems False
        by (simp add: ua_limb_bits_def split: if_splits)
    qed (use False in \<open>simp add: ua_limb_bits_def\<close>)
  qed
qed

lemma length_ua_output_limbs: "length (ua_output_limbs k x) \<le> k"
  by (induction k arbitrary: x) auto

lemma ua_inverse_correct:
  assumes "h < 2 ^ 32 - 1"
  shows "ua_generated_inverse h * (u32_max - of_nat h) = 1"
proof -
  define d :: nat where "d = 2 ^ 32 - 1 - h"
  have d: "0 < d" "d < p_nat" using assms by (simp_all add: d_def)
  have diff: "u32_max - of_nat h = (of_nat d :: gf)"
    using assms unfolding u32_max_def d_def by simp
  show ?thesis
  proof (cases "d = 2 ^ 32 - 1")
    case True
    have "(of_nat 0xfffffffe00000001 * of_nat (2 ^ 32 - 1) :: gf) = of_nat 1"
      unfolding of_nat_mult [symmetric] gf_of_nat_eq_iff by simp
    then show ?thesis
      using True d(1) by (simp only: ua_generated_inverse_def diff d_def [symmetric] Let_def) simp
  next
    case False
    have "(of_nat d :: gf) \<noteq> 0"
      using d gf_of_nat_inj [of d 0] by simp
    then show ?thesis
      using False d(1) by (simp only: ua_generated_inverse_def diff d_def [symmetric] Let_def) simp
  qed
qed

text \<open>The values the generator computes satisfy the constraints, for all field inputs.\<close>

lemma ua_op_complete:
  fixes m0 m1 addend :: gf
  defines "out \<equiv> to_canonical_u64 (m0 * m1 + addend)"
  assumes limb: "\<And>j. j < 32 \<Longrightarrow> limb j = of_nat (le_digits 4 32 out ! j)"
  shows "\<forall>c\<in>set (ua_op_constraints limb m0 m1 addend (of_nat (out mod 2 ^ 32)) (of_nat (out div 2 ^ 32))
      (ua_generated_inverse (out div 2 ^ 32))). c = 0"
proof -
  have out: "out < p_nat" by (simp add: out_def)
  have range: "range_product 4 (limb j) = 0" if "j < 32" for j
    using le_digits_range [OF that, of out] limb [OF that] by (simp add: range_product_4_zero)
  have canon: "(ua_generated_inverse (out div 2 ^ 32) * (u32_max - of_nat (out div 2 ^ 32)) - 1) * of_nat (out mod 2 ^ 32) = 0"
  proof (cases "out div 2 ^ 32 < 2 ^ 32 - 1")
    case True
    then show ?thesis by (simp only: ua_inverse_correct) simp
  next
    case False
    then have "4294967295 \<le> out div 4294967296" by simp
    moreover have "out = 4294967296 * (out div 4294967296) + out mod 4294967296" by simp
    ultimately have "out mod 4294967296 = 0" using out by linarith
    then have "out mod 2 ^ 32 = 0" by simp
    then show ?thesis by simp
  qed
  have comb: "of_nat (out div 2 ^ 32) * of_nat (2 ^ 32) + of_nat (out mod 2 ^ 32) - (m0 * m1 + addend) = 0"
  proof -
    have "(of_nat (out div 2 ^ 32) * of_nat (2 ^ 32) + of_nat (out mod 2 ^ 32) :: gf)
      = of_nat (out div 2 ^ 32 * 2 ^ 32 + out mod 2 ^ 32)" by (simp only: of_nat_add of_nat_mult)
    also have "\<dots> = of_nat out" by (simp only: div_mult_mod_eq)
    finally show ?thesis by (simp add: out_def)
  qed
  have low: "le_value 4 (map limb [0..<16]) = of_nat (out mod 2 ^ 32)"
  proof -
    have "map limb [0..<16] = map of_nat (le_digits 4 16 out)"
      using take_le_digits [of 16 32 4 out, symmetric]
      by (intro nth_equalityI) (simp_all add: limb del: upt_rec_numeral)
    then show ?thesis
      using of_nat_le_value [of 4 "le_digits 4 16 out", symmetric] by (simp add: le_value_digits)
  qed
  have high: "le_value 4 (map limb [16..<32]) = of_nat (out div 2 ^ 32)"
  proof -
    have "map limb [16..<32] = map of_nat (drop 16 (le_digits 4 32 out))"
      by (intro nth_equalityI) (simp_all add: limb del: upt_rec_numeral)
    moreover have "drop 16 (le_digits 4 32 out) = le_digits 4 16 (out div 2 ^ 32)"
      using drop_le_digits [of 16 32 4 out] by simp
    moreover have "out div 2 ^ 32 < 4 ^ 16" using out by simp
    ultimately show ?thesis
      using of_nat_le_value [of 4 "le_digits 4 16 (out div 2 ^ 32)", symmetric] by (simp add: le_value_digits)
  qed
  show ?thesis
    using range canon comb low high
    by (auto simp: ua_op_constraints_def ua_limb_numbers simp del: upt_rec_numeral mult_eq_0_iff of_nat_power)
qed

lemma ua_limb_wire_inj: "inj (ua_wire_ith_output_jth_limb g i)"
  by (auto simp: inj_def ua_wire_ith_output_jth_limb_def)

lemma ua_limb_wire_routed:
  assumes "i < ua_num_ops g" "k < 6"
  shows "6 * i + k \<noteq> ua_wire_ith_output_jth_limb g i' j"
proof -
  have "6 * i + 6 \<le> 6 * ua_num_ops g" using assms(1) by simp
  then show ?thesis using assms(2) by (simp add: ua_wire_ith_output_jth_limb_def ua_routed_wires_per_op_def)
qed

definition ua_free_wires_unset :: "U32ArithmeticGate \<Rightarrow> (nat \<Rightarrow> gf) \<Rightarrow> nat \<Rightarrow> bool" where
  "ua_free_wires_unset g w i \<longleftrightarrow> (\<forall>j<ua_num_limbs. w (ua_wire_ith_output_jth_limb g i j) = 0)"

lemma ua_generator_complete:
  assumes i: "i < ua_num_ops g" and unset: "ua_free_wires_unset g w i"
  shows "\<forall>c\<in>set (ua_eval_op g (set_wires (ua_run_once g w i) w) i). c = 0"
proof -
  let ?w = "set_wires (ua_run_once g w i) w"
  let ?out = "to_canonical_u64 (w (6 * i) * w (6 * i + 1) + w (6 * i + 2))"
  define w3 where "w3 = w(6 * i + 4 := of_nat (?out div 2 ^ 32), 6 * i + 3 := of_nat (?out mod 2 ^ 32),
    6 * i + 5 := ua_generated_inverse (?out div 2 ^ 32))"
  have run: "?w = set_wires (map (\<lambda>(j, l). (ua_wire_ith_output_jth_limb g i j, of_nat l))
      (enumerate 0 (ua_output_limbs ua_num_limbs ?out))) w3"
    unfolding w3_def ua_run_once_def Let_def
    by (simp add: ua_wire_ith_multiplicand_0_def ua_wire_ith_multiplicand_1_def ua_wire_ith_addend_def
        ua_wire_ith_output_low_half_def ua_wire_ith_output_high_half_def ua_wire_ith_inverse_def
        ua_routed_wires_per_op_def)
  have routed: "?w (6 * i + k) = w3 (6 * i + k)" if "k < 6" for k
    unfolding run using ua_limb_wire_routed [OF i that]
    by (intro set_wires_other) (auto simp: image_def in_set_enumerate_eq)
  have limb: "?w (ua_wire_ith_output_jth_limb g i j) = of_nat (le_digits 4 32 ?out ! j)" if "j < 32" for j
  proof -
    have "w3 (ua_wire_ith_output_jth_limb g i j) = w (ua_wire_ith_output_jth_limb g i j)"
      using ua_limb_wire_routed [OF i, of 3 i j] ua_limb_wire_routed [OF i, of 4 i j]
        ua_limb_wire_routed [OF i, of 5 i j] by (simp add: w3_def)
    then have "w3 (ua_wire_ith_output_jth_limb g i j) = 0"
      using unset that by (simp add: ua_free_wires_unset_def ua_limb_numbers)
    then show ?thesis
      unfolding run set_wires_enumerate [OF ua_limb_wire_inj]
      using ua_output_limbs_nth [OF that, of ?out, symmetric] by (simp add: ua_limb_numbers)
  qed
  have "w3 (6 * i) = w (6 * i)" "w3 (6 * i + 1) = w (6 * i + 1)" "w3 (6 * i + 2) = w (6 * i + 2)"
    by (simp_all add: w3_def)
  then have "ua_op_at g ?w i = ua_op_constraints (\<lambda>j. ?w (ua_wire_ith_output_jth_limb g i j))
      (w (6 * i)) (w (6 * i + 1)) (w (6 * i + 2)) (of_nat (?out mod 2 ^ 32)) (of_nat (?out div 2 ^ 32))
      (ua_generated_inverse (?out div 2 ^ 32))"
    using routed [of 0] routed [of 1] routed [of 2] routed [of 3] routed [of 4] routed [of 5]
    by (simp only: ua_wire_ith_multiplicand_0_def ua_wire_ith_multiplicand_1_def ua_wire_ith_addend_def
        ua_wire_ith_output_low_half_def ua_wire_ith_output_high_half_def ua_wire_ith_inverse_def
        ua_routed_wires_per_op_def add_0_right) (simp add: w3_def)
  then show ?thesis
    unfolding ua_eval_op_eq using ua_op_complete [OF limb] by simp
qed

section \<open>Operations of a row are independent\<close>

definition ua_op_wires :: "U32ArithmeticGate \<Rightarrow> (nat \<Rightarrow> 'f) \<Rightarrow> nat \<Rightarrow> nat \<Rightarrow> 'f" where
  "ua_op_wires g w i k =
     (if k < 6 then w (6 * i + k) else w (6 * ua_num_ops g + 32 * i + (k - 6)))"

lemma ua_single_op: "ua_eval_unfiltered \<lparr>ua_num_ops = 1\<rparr> w = ua_op_at \<lparr>ua_num_ops = 1\<rparr> w 0"
  by (simp add: ua_eval_unfiltered_def ua_eval_op_eq)

lemma ua_rows_decompose:
  "ua_eval_unfiltered g w
     = concat (map (\<lambda>i. ua_eval_unfiltered \<lparr>ua_num_ops = 1\<rparr> (ua_op_wires g w i)) [0..<ua_num_ops g])"
  unfolding ua_single_op unfolding ua_eval_unfiltered_def
  by (intro arg_cong [where f = concat] map_cong refl)
    (simp add: ua_eval_op_eq ua_op_wires_def ua_wire_defs)

section \<open>The gadget operation\<close>

text \<open>One operation of the gate on the targets \<open>x\<close>, \<open>y\<close>, \<open>z\<close>; the result is the pair of output wires.\<close>

definition ua_slot :: "target \<Rightarrow> target \<Rightarrow> target \<Rightarrow> (target \<times> target) circ" where
  "ua_slot x y z =
    circ_bind (gate_slot (ua_eval_unfiltered \<lparr>ua_num_ops = 1\<rparr>) [x, y, z] (3 + ua_num_limbs)) (\<lambda>free.
    circ_return (free ! 0, free ! 1))"

lemma ua_slot_row:
  "ua_eval_unfiltered \<lparr>ua_num_ops = 1\<rparr> (\<lambda>k. ([x, y, z] @ lo # hi # iv # limbs) ! k)
     = ua_op_constraints (\<lambda>j. limbs ! j) x y z lo hi iv"
  unfolding ua_single_op by (simp add: ua_wire_defs numeral_eq_Suc)

lemma implements_ua_slot:
  "implements (ua_slot x y z) (\<lambda>(low, high).
     to_canonical_u64 (tval low) = to_canonical_u64 (tval x * tval y + tval z) mod 2 ^ 32 \<and>
     to_canonical_u64 (tval high) = to_canonical_u64 (tval x * tval y + tval z) div 2 ^ 32)"
proof -
  define out where "out = to_canonical_u64 (tval x * tval y + tval z)"
  define Q :: "gf list \<Rightarrow> bool" where
    "Q vs \<longleftrightarrow> to_canonical_u64 (vs ! 0) = out mod 2 ^ 32 \<and> to_canonical_u64 (vs ! 1) = out div 2 ^ 32" for vs
  have "implements (gate_slot (ua_eval_unfiltered \<lparr>ua_num_ops = 1\<rparr>) [x, y, z] (3 + ua_num_limbs))
      (\<lambda>free. length free = 3 + ua_num_limbs \<and> Q (map tval free))"
  proof (rule implements_gate_slot)
    fix vs assume len: "length vs = 3 + ua_num_limbs"
      and zero: "\<forall>c\<in>set (ua_eval_unfiltered \<lparr>ua_num_ops = 1\<rparr> (\<lambda>k. (map tval [x, y, z] @ vs) ! k)). c = 0"
    obtain lo hi iv limbs where vs: "vs = lo # hi # iv # limbs"
      using len by (metis add.commute add_2_eq_Suc' eval_nat_numeral(3) length_Suc_conv plus_1_eq_Suc numeral_3_eq_3 add_Suc)
    then have "\<forall>c\<in>set (ua_op_constraints (\<lambda>j. limbs ! j) (tval x) (tval y) (tval z) lo hi iv). c = 0"
      using zero ua_slot_row [of "tval x" "tval y" "tval z" lo hi iv limbs] by simp
    from ua_op_sound [OF this] show "Q vs" by (simp add: Q_def out_def vs)
  next
    let ?vs = "of_nat (out mod 2 ^ 32) # of_nat (out div 2 ^ 32) # ua_generated_inverse (out div 2 ^ 32)
      # map of_nat (le_digits 4 32 out)"
    show "length ?vs = 3 + ua_num_limbs" by (simp add: ua_limb_numbers)
    show "\<forall>c\<in>set (ua_eval_unfiltered \<lparr>ua_num_ops = 1\<rparr> (\<lambda>k. (map tval [x, y, z] @ ?vs) ! k)). c = 0"
      unfolding list.map ua_slot_row out_def by (rule ua_op_complete) simp
  qed
  then show ?thesis
    unfolding ua_slot_def
    by (rule implements_bind) (auto intro!: implements_return simp: Q_def out_def ua_limb_numbers)
qed


section \<open>Properties\<close>

lemma ua_run_keeps_inputs:
  assumes "i < ua_num_ops g" "k < 3"
  shows "set_wires (ua_run_once g w i) w (6 * i + k) = w (6 * i + k)"
  using ua_limb_wire_routed [OF assms(1), of k] assms(2)
  by (intro set_wires_other)
    (auto simp: ua_run_once_def Let_def ua_wire_ith_output_low_half_def ua_wire_ith_output_high_half_def
      ua_wire_ith_inverse_def ua_routed_wires_per_op_def image_def in_set_enumerate_eq)

lemma ua_row_op:
  assumes "\<forall>c\<in>set (ua_eval_unfiltered g w). c = 0" "i < ua_num_ops g"
  shows "\<forall>c\<in>set (ua_op_at g w i). c = 0"
  using assms by (auto simp: ua_eval_unfiltered_def ua_eval_op_eq)

text \<open>
  Soundness of \<open>U32ArithmeticGate\<close>: in every row on which all constraints vanish, whatever the
  prover put on the output, inverse and limb wires, the two outputs of each operation are the low
  and the high 32 bits of the canonical value of \<open>multiplicand_0 * multiplicand_1 + addend\<close>. There is
  no assumption on the inputs; in particular the decomposition of a value above \<open>2 ^ 32\<close> is unique
  although \<open>2 ^ 64\<close> exceeds the field order.
\<close>

theorem u32_arithmetic_gate_sound:
  fixes w :: "nat \<Rightarrow> gf"
  assumes "\<forall>c\<in>set (ua_eval_unfiltered g w). c = 0" and "i < ua_num_ops g"
  defines "out \<equiv> to_canonical_u64 (w (ua_wire_ith_multiplicand_0 i) * w (ua_wire_ith_multiplicand_1 i)
      + w (ua_wire_ith_addend i))"
  shows "to_canonical_u64 (w (ua_wire_ith_output_low_half i)) = out mod 2 ^ 32
    \<and> to_canonical_u64 (w (ua_wire_ith_output_high_half i)) = out div 2 ^ 32"
  using ua_op_sound [OF ua_row_op [OF assms(1,2)]] by (simp add: out_def)

definition ua_example_gate :: U32ArithmeticGate where
  "ua_example_gate = \<lparr>ua_num_ops = 1\<rparr>"

lemma ua_example_gate_ops [simp]: "ua_num_ops ua_example_gate = 1"
  by (simp add: ua_example_gate_def)

definition ua_example_wires :: "nat \<Rightarrow> gf" where
  "ua_example_wires k = (if k = 0 then of_nat (2 ^ 32 - 1) else if k = 1 then of_nat (2 ^ 32 - 1) else if k = 2 then 7 else 0)"

definition ua_example_row :: "nat \<Rightarrow> gf" where
  "ua_example_row = set_wires (ua_run_once ua_example_gate ua_example_wires 0) ua_example_wires"

lemma ua_example_row_zero: "\<forall>c\<in>set (ua_eval_unfiltered ua_example_gate ua_example_row). c = 0"
  using ua_generator_complete [of 0 ua_example_gate ua_example_wires]
  by (simp add: ua_eval_unfiltered_def ua_example_row_def ua_free_wires_unset_def ua_example_wires_def
      ua_wire_ith_output_jth_limb_def ua_routed_wires_per_op_def)

lemma ua_example_row_inputs:
  "ua_example_row 0 = of_nat (2 ^ 32 - 1)" "ua_example_row 1 = of_nat (2 ^ 32 - 1)" "ua_example_row (Suc (Suc 0)) = 7"
  using ua_run_keeps_inputs [of 0 ua_example_gate 0 ua_example_wires]
    ua_run_keeps_inputs [of 0 ua_example_gate 1 ua_example_wires]
    ua_run_keeps_inputs [of 0 ua_example_gate 2 ua_example_wires]
  by (simp_all add: ua_example_row_def ua_example_wires_def numeral_2_eq_2)

theorem u32_arithmetic_gate_sound_witness:
  "to_canonical_u64 (ua_example_row 3) = 8 \<and> to_canonical_u64 (ua_example_row 4) = 4294967294"
proof -
  have v: "to_canonical_u64 (of_nat (2 ^ 32 - 1) * of_nat (2 ^ 32 - 1) + 7) = (2 ^ 32 - 1) * (2 ^ 32 - 1) + 7"
    using to_canonical_of_nat_small [of "(2 ^ 32 - 1) * (2 ^ 32 - 1) + 7"] by simp
  show ?thesis
    using u32_arithmetic_gate_sound [OF ua_example_row_zero, of 0] ua_example_row_inputs v
    by (simp add: ua_wire_defs)
qed

text \<open>
  The prover's evaluation routines of \<open>U32ArithmeticGate\<close> compute the constraints that
  \<open>eval_unfiltered\<close> defines: the recursive circuit and the packed evaluation agree with it wire for wire,
  the batched evaluation has its \<open>c\<close>-th constraint at point \<open>p\<close> at index \<open>c * n + p\<close>, and the filtered
  accumulation adds exactly the filtered constraint there and changes nothing else.
\<close>

theorem u32_arithmetic_gate_routines_agree:
  fixes w wires :: "nat \<Rightarrow> 'f::comm_ring_1"
  shows "ua_eval_unfiltered_circuit g w = ua_eval_unfiltered g w
    \<and> ua_eval_unfiltered_base_packed g w = ua_eval_unfiltered g w
    \<and> (\<forall>c<ua_num_constraints g. \<forall>p<n. concat (ua_eval_unfiltered_base_batch g n wires) ! (c * n + p)
        = ua_eval_unfiltered g (batch_point n wires p) ! c)
    \<and> (0 < n \<longrightarrow> ua_eval_unfiltered_base_batch_accumulate g n wires filters combined = Some combined'
        \<longrightarrow> length combined' = length combined
          \<and> (\<forall>c<ua_num_constraints g. \<forall>p<n. combined' ! (c * n + p)
              = combined ! (c * n + p) + ua_eval_unfiltered g (batch_point n wires p) ! c * filters ! p)
          \<and> (\<forall>k. ua_num_constraints g * n \<le> k \<longrightarrow> k < length combined \<longrightarrow> combined' ! k = combined ! k))"
  unfolding ua_eval_unfiltered_base_batch_accumulate_def by (rule ua.routines_agree)

theorem u32_arithmetic_gate_routines_agree_witness:
  "ua_eval_unfiltered_base_batch_accumulate ua_example_gate 1 ua_example_wires [2] (replicate 36 0)
      = Some (map (\<lambda>c. ua_eval_unfiltered ua_example_gate ua_example_wires ! c * 2) [0..<36])
    \<and> concat (ua_eval_unfiltered_base_batch ua_example_gate 1 ua_example_wires)
      = ua_eval_unfiltered ua_example_gate ua_example_wires"
proof -
  have n: "ua_num_constraints ua_example_gate = 36" by (simp add: ua_num_constraints_def ua_limb_numbers)
  have pt: "batch_point 1 ua_example_wires 0 = ua_example_wires" by (simp add: batch_point_def fun_eq_iff)
  obtain combined' where c: "ua_eval_unfiltered_base_batch_accumulate ua_example_gate 1 ua_example_wires [2] (replicate 36 0) = Some combined'"
    by (simp add: ua_eval_unfiltered_base_batch_accumulate_def accumulate_checked_def n)
  note agree = u32_arithmetic_gate_routines_agree
    [of ua_example_gate ua_example_wires 1 ua_example_wires "[2]" "replicate 36 0" combined', unfolded n pt]
  have "length combined' = 36" "\<forall>c<36. combined' ! c = ua_eval_unfiltered ua_example_gate ua_example_wires ! c * 2"
    using agree c pt by auto
  then have "combined' = map (\<lambda>c. ua_eval_unfiltered ua_example_gate ua_example_wires ! c * 2) [0..<36]"
    by (intro nth_equalityI) (simp_all del: upt_rec_numeral)
  moreover have "concat (ua_eval_unfiltered_base_batch ua_example_gate 1 ua_example_wires)
      = ua_eval_unfiltered ua_example_gate ua_example_wires"
    using agree pt n ua.length_batch [of 1 ua_example_gate ua_example_wires] ua.length_eval [of ua_example_gate ua_example_wires]
    by (intro nth_equalityI) auto
  ultimately show ?thesis using c by simp
qed

text \<open>
  Completeness of the witness generator of \<open>U32ArithmeticGate\<close>: for every operation and all
  input values the wires set by \<open>run_once\<close> satisfy the constraints of the operation and leave its inputs
  alone. The generator stops at the last non-zero limb, so the limb wires are unset (zero) before.
\<close>

theorem u32_arithmetic_generator_complete:
  assumes "i < ua_num_ops g" and "ua_free_wires_unset g w i"
  shows "(\<forall>c\<in>set (ua_eval_op g (set_wires (ua_run_once g w i) w) i). c = 0)
    \<and> (\<forall>k<3. set_wires (ua_run_once g w i) w (ua_wire_ith_multiplicand_0 i + k) = w (ua_wire_ith_multiplicand_0 i + k))"
  using ua_generator_complete [OF assms] ua_run_keeps_inputs [OF assms(1)]
  by (simp add: ua_wire_ith_multiplicand_0_def ua_routed_wires_per_op_def)

theorem u32_arithmetic_generator_complete_witness:
  "ua_free_wires_unset ua_example_gate ua_example_wires 0
    \<and> set (ua_eval_op ua_example_gate ua_example_row 0) \<subseteq> {0}"
proof -
  have "ua_free_wires_unset ua_example_gate ua_example_wires 0"
    by (auto simp: ua_free_wires_unset_def ua_example_wires_def ua_wire_ith_output_jth_limb_def ua_routed_wires_per_op_def)
  then show ?thesis
    using u32_arithmetic_generator_complete [of 0 ua_example_gate ua_example_wires]
    by (auto simp: ua_example_row_def)
qed

end
