(* ===== verification/Subtraction_Gate.thy ===== *)
theory Subtraction_Gate
  imports Gate_Base
begin

text \<open>
  The subtraction gates \<open>U16SubtractionGate\<close>, \<open>U32SubtractionGate\<close> and \<open>U48SubtractionGate\<close>
  (\<open>circuit/src/uint/u16/gates/subtraction_u16.rs\<close>, \<open>u32/gates/subtraction_u32.rs\<close>,
  \<open>u48/subtraction_u48.rs\<close>). The three files are one program at three limb widths, so the gate
  carries its width \<open>sg_base_bits\<close> and the three gates are its instances. Given \<open>x\<close>, \<open>y\<close> and a borrow bit
  an operation returns \<open>x - y - borrow\<close> and the borrow it leaves.
\<close>

section \<open>The gate\<close>

record SubtractionGate =
  sg_base_bits :: nat
  sg_num_ops :: nat

definition sg_limb_bits :: nat where "sg_limb_bits = 2"
definition sg_num_limbs :: "SubtractionGate \<Rightarrow> nat" where
  "sg_num_limbs g = sg_base_bits g div sg_limb_bits"

definition sg_new_from_config :: "nat \<Rightarrow> nat \<Rightarrow> nat \<Rightarrow> SubtractionGate" where
  "sg_new_from_config base_bits num_wires num_routed_wires =
    (let wires_per_op = 5 + base_bits div sg_limb_bits; routed_wires_per_op = 5
     in \<lparr>sg_base_bits = base_bits,
         sg_num_ops = min (num_wires div wires_per_op) (num_routed_wires div routed_wires_per_op)\<rparr>)"

definition sg_wire_ith_input_x :: "nat \<Rightarrow> nat" where "sg_wire_ith_input_x i = 5 * i"
definition sg_wire_ith_input_y :: "nat \<Rightarrow> nat" where "sg_wire_ith_input_y i = 5 * i + 1"
definition sg_wire_ith_input_borrow :: "nat \<Rightarrow> nat" where "sg_wire_ith_input_borrow i = 5 * i + 2"
definition sg_wire_ith_output_result :: "nat \<Rightarrow> nat" where "sg_wire_ith_output_result i = 5 * i + 3"
definition sg_wire_ith_output_borrow :: "nat \<Rightarrow> nat" where "sg_wire_ith_output_borrow i = 5 * i + 4"
definition sg_wire_ith_output_jth_limb :: "SubtractionGate \<Rightarrow> nat \<Rightarrow> nat \<Rightarrow> nat" where
  "sg_wire_ith_output_jth_limb g i j = 5 * sg_num_ops g + sg_num_limbs g * i + j"

definition sg_num_wires :: "SubtractionGate \<Rightarrow> nat" where
  "sg_num_wires g = sg_num_ops g * (5 + sg_num_limbs g)"
definition sg_num_constraints :: "SubtractionGate \<Rightarrow> nat" where
  "sg_num_constraints g = sg_num_ops g * (3 + sg_num_limbs g)"

lemmas sg_routed_defs = sg_wire_ith_input_x_def sg_wire_ith_input_y_def sg_wire_ith_input_borrow_def
  sg_wire_ith_output_result_def sg_wire_ith_output_borrow_def

definition U16SubtractionGate :: "nat \<Rightarrow> SubtractionGate" where
  "U16SubtractionGate num_ops = \<lparr>sg_base_bits = 16, sg_num_ops = num_ops\<rparr>"
definition U32SubtractionGate :: "nat \<Rightarrow> SubtractionGate" where
  "U32SubtractionGate num_ops = \<lparr>sg_base_bits = 32, sg_num_ops = num_ops\<rparr>"
definition U48SubtractionGate :: "nat \<Rightarrow> SubtractionGate" where
  "U48SubtractionGate num_ops = \<lparr>sg_base_bits = 48, sg_num_ops = num_ops\<rparr>"

section \<open>Evaluation routines\<close>

definition sg_eval_op :: "SubtractionGate \<Rightarrow> (nat \<Rightarrow> 'f::comm_ring_1) \<Rightarrow> nat \<Rightarrow> 'f list" where
  "sg_eval_op g local_wires i =
    (let input_x = local_wires (sg_wire_ith_input_x i);
         input_y = local_wires (sg_wire_ith_input_y i);
         input_borrow = local_wires (sg_wire_ith_input_borrow i);
         result_initial = input_x - input_y - input_borrow;
         base = of_nat (2 ^ sg_base_bits g);
         output_result = local_wires (sg_wire_ith_output_result i);
         output_borrow = local_wires (sg_wire_ith_output_borrow i);
         (products, combined_limbs) =
           range_loop (of_nat (2 ^ sg_limb_bits)) (2 ^ sg_limb_bits)
             (\<lambda>j. local_wires (sg_wire_ith_output_jth_limb g i j)) (rev [0..<sg_num_limbs g])
     in [output_result - (result_initial + base * output_borrow)] @ products
        @ [combined_limbs - output_result, output_borrow * (1 - output_borrow)])"

definition sg_eval_unfiltered :: "SubtractionGate \<Rightarrow> (nat \<Rightarrow> 'f::comm_ring_1) \<Rightarrow> 'f list" where
  "sg_eval_unfiltered g local_wires = concat (map (sg_eval_op g local_wires) [0..<sg_num_ops g])"

text \<open>\<open>eval_unfiltered_circuit\<close>\<close>

definition sg_eval_circuit_op :: "SubtractionGate \<Rightarrow> (nat \<Rightarrow> 'f::comm_ring_1) \<Rightarrow> nat \<Rightarrow> 'f list" where
  "sg_eval_circuit_op g local_wires i =
    (let input_x = local_wires (sg_wire_ith_input_x i);
         input_y = local_wires (sg_wire_ith_input_y i);
         input_borrow = local_wires (sg_wire_ith_input_borrow i);
         diff = input_x - input_y;
         result_initial = diff - input_borrow;
         base = of_nat (2 ^ sg_base_bits g);
         output_result = local_wires (sg_wire_ith_output_result i);
         output_borrow = local_wires (sg_wire_ith_output_borrow i);
         computed_output = base * output_borrow + result_initial;
         limb_base = of_nat (2 ^ sg_limb_bits);
         (products, combined_limbs) =
           foldl (\<lambda>(constraints, combined) j.
               let this_limb = local_wires (sg_wire_ith_output_jth_limb g i j);
                   product = circuit_range_product (2 ^ sg_limb_bits) this_limb
               in (constraints @ [product], limb_base * combined + this_limb))
             ([], 0) (rev [0..<sg_num_limbs g]);
         not_borrow = 1 - output_borrow
     in [output_result - computed_output] @ products
        @ [combined_limbs - output_result, output_borrow * not_borrow])"

definition sg_eval_unfiltered_circuit :: "SubtractionGate \<Rightarrow> (nat \<Rightarrow> 'f::comm_ring_1) \<Rightarrow> 'f list" where
  "sg_eval_unfiltered_circuit g local_wires =
     concat (map (sg_eval_circuit_op g local_wires) [0..<sg_num_ops g])"

text \<open>\<open>eval_unfiltered_base_packed\<close>\<close>

definition sg_eval_packed_op :: "SubtractionGate \<Rightarrow> (nat \<Rightarrow> 'f::comm_ring_1) \<Rightarrow> nat \<Rightarrow> 'f list" where
  "sg_eval_packed_op g local_wires i =
    (let input_x = local_wires (sg_wire_ith_input_x i);
         input_y = local_wires (sg_wire_ith_input_y i);
         input_borrow = local_wires (sg_wire_ith_input_borrow i);
         result_initial = input_x - input_y - input_borrow;
         base = of_nat (2 ^ sg_base_bits g);
         output_result = local_wires (sg_wire_ith_output_result i);
         output_borrow = local_wires (sg_wire_ith_output_borrow i);
         limb_base = of_nat (2 ^ sg_limb_bits);
         (products, combined_limbs) =
           foldl (\<lambda>(constraints, combined) j.
               let this_limb = local_wires (sg_wire_ith_output_jth_limb g i j);
                   product = range_product (2 ^ sg_limb_bits) this_limb
               in (constraints @ [product], combined * limb_base + this_limb))
             ([], 0) (rev [0..<sg_num_limbs g])
     in [output_result - (result_initial + output_borrow * base)] @ products
        @ [combined_limbs - output_result, output_borrow * (1 - output_borrow)])"

definition sg_eval_unfiltered_base_packed :: "SubtractionGate \<Rightarrow> (nat \<Rightarrow> 'f::comm_ring_1) \<Rightarrow> 'f list" where
  "sg_eval_unfiltered_base_packed g local_wires =
     concat (map (sg_eval_packed_op g local_wires) [0..<sg_num_ops g])"

text \<open>\<open>eval_unfiltered_base_batch\<close>\<close>

definition sg_eval_batch_op ::
  "SubtractionGate \<Rightarrow> nat \<Rightarrow> (nat \<Rightarrow> 'f::comm_ring_1) \<Rightarrow> nat \<Rightarrow> 'f list list" where
  "sg_eval_batch_op g n wires i =
    (let input_x = (\<lambda>p. batch_point n wires p (sg_wire_ith_input_x i));
         input_y = (\<lambda>p. batch_point n wires p (sg_wire_ith_input_y i));
         input_borrow = (\<lambda>p. batch_point n wires p (sg_wire_ith_input_borrow i));
         output_result = (\<lambda>p. batch_point n wires p (sg_wire_ith_output_result i));
         output_borrow = (\<lambda>p. batch_point n wires p (sg_wire_ith_output_borrow i));
         base = of_nat (2 ^ sg_base_bits g);
         (chunks, combined_limbs) =
           batch_range_loop (of_nat (2 ^ sg_limb_bits)) n
             (\<lambda>p j. batch_point n wires p (sg_wire_ith_output_jth_limb g i j)) (rev [0..<sg_num_limbs g])
     in map (\<lambda>p. let result_initial = input_x p - input_y p - input_borrow p
                 in output_result p - (result_initial + base * output_borrow p)) [0..<n]
      # chunks
      @ [map (\<lambda>p. combined_limbs ! p - output_result p) [0..<n],
         map (\<lambda>p. output_borrow p * (1 - output_borrow p)) [0..<n]])"

definition sg_eval_unfiltered_base_batch ::
  "SubtractionGate \<Rightarrow> nat \<Rightarrow> (nat \<Rightarrow> 'f::comm_ring_1) \<Rightarrow> 'f list list" where
  "sg_eval_unfiltered_base_batch g n wires =
     concat (map (sg_eval_batch_op g n wires) [0..<sg_num_ops g])"

text \<open>\<open>eval_unfiltered_base_batch_accumulate\<close>\<close>

definition sg_accumulate_op ::
  "SubtractionGate \<Rightarrow> nat \<Rightarrow> (nat \<Rightarrow> 'f::comm_ring_1) \<Rightarrow> nat \<Rightarrow> 'f list list" where
  "sg_accumulate_op g n wires i =
    (let input_x = (\<lambda>p. batch_point n wires p (sg_wire_ith_input_x i));
         input_y = (\<lambda>p. batch_point n wires p (sg_wire_ith_input_y i));
         input_borrow = (\<lambda>p. batch_point n wires p (sg_wire_ith_input_borrow i));
         output_result = (\<lambda>p. batch_point n wires p (sg_wire_ith_output_result i));
         output_borrow = (\<lambda>p. batch_point n wires p (sg_wire_ith_output_borrow i));
         base = of_nat (2 ^ sg_base_bits g); limb_base = of_nat (2 ^ sg_limb_bits);
         limb = (\<lambda>p j. batch_point n wires p (sg_wire_ith_output_jth_limb g i j));
         scratch = batch_horner limb_base n limb (rev [0..<sg_num_limbs g])
     in map (\<lambda>p. let result_initial = input_x p - input_y p - input_borrow p
                 in output_result p - (result_initial + base * output_borrow p)) [0..<n]
      # map (\<lambda>j. map (\<lambda>p. range_product4 (limb p j)) [0..<n]) (rev [0..<sg_num_limbs g])
      @ [map (\<lambda>p. scratch ! p - output_result p) [0..<n],
         map (\<lambda>p. output_borrow p * (1 - output_borrow p)) [0..<n]])"

definition sg_accumulate_scratches ::
  "SubtractionGate \<Rightarrow> nat \<Rightarrow> (nat \<Rightarrow> 'f::comm_ring_1) \<Rightarrow> 'f list list" where
  "sg_accumulate_scratches g n wires = concat (map (sg_accumulate_op g n wires) [0..<sg_num_ops g])"

definition sg_eval_unfiltered_base_batch_accumulate ::
  "SubtractionGate \<Rightarrow> nat \<Rightarrow> (nat \<Rightarrow> 'f::comm_ring_1) \<Rightarrow> 'f list \<Rightarrow> 'f list \<Rightarrow> 'f list option" where
  "sg_eval_unfiltered_base_batch_accumulate g n wires filters combined =
     accumulate_checked (sg_num_constraints g) n (sg_accumulate_scratches g n wires) filters combined"

section \<open>The witness generator\<close>

fun sg_limb_values :: "nat \<Rightarrow> nat \<Rightarrow> nat list" where
  "sg_limb_values 0 acc = []"
| "sg_limb_values (Suc k) acc = acc mod 2 ^ sg_limb_bits # sg_limb_values k (acc div 2 ^ sg_limb_bits)"

definition sg_run_once :: "SubtractionGate \<Rightarrow> (nat \<Rightarrow> gf) \<Rightarrow> nat \<Rightarrow> (nat \<times> gf) list" where
  "sg_run_once g get_local_wire i =
    (let input_x = get_local_wire (sg_wire_ith_input_x i);
         input_y = get_local_wire (sg_wire_ith_input_y i);
         input_borrow = get_local_wire (sg_wire_ith_input_borrow i);
         result_initial = input_x - input_y - input_borrow;
         result_initial_u64 = to_canonical_u64 result_initial;
         output_borrow = (if result_initial_u64 > 2 ^ sg_base_bits g then 1 else 0);
         base = of_nat (2 ^ sg_base_bits g);
         output_result = result_initial + base * output_borrow;
         output_result_u64 = (if output_borrow = 0 then result_initial_u64 else to_canonical_u64 output_result)
     in [(sg_wire_ith_output_result i, output_result), (sg_wire_ith_output_borrow i, output_borrow)]
        @ map (\<lambda>(j, tmp). (sg_wire_ith_output_jth_limb g i j, of_nat tmp))
            (enumerate 0 (sg_limb_values (sg_num_limbs g) output_result_u64)))"

section \<open>The three gates\<close>

text \<open>
  The definitions above are the routines of \<open>subtraction_u32.rs\<close> with the width taken from the gate; the two
  other files have the same text at 16 and 48 bits.
\<close>

definition u16_sub_eval_unfiltered :: "nat \<Rightarrow> (nat \<Rightarrow> 'f::comm_ring_1) \<Rightarrow> 'f list" where
  "u16_sub_eval_unfiltered num_ops = sg_eval_unfiltered (U16SubtractionGate num_ops)"
definition u16_sub_eval_unfiltered_base_batch :: "nat \<Rightarrow> nat \<Rightarrow> (nat \<Rightarrow> 'f::comm_ring_1) \<Rightarrow> 'f list list" where
  "u16_sub_eval_unfiltered_base_batch num_ops = sg_eval_unfiltered_base_batch (U16SubtractionGate num_ops)"
definition u16_sub_eval_unfiltered_base_batch_accumulate :: "nat \<Rightarrow> nat \<Rightarrow> (nat \<Rightarrow> 'f::comm_ring_1) \<Rightarrow> 'f list \<Rightarrow> 'f list \<Rightarrow> 'f list option" where
  "u16_sub_eval_unfiltered_base_batch_accumulate num_ops = sg_eval_unfiltered_base_batch_accumulate (U16SubtractionGate num_ops)"
definition u16_sub_eval_unfiltered_circuit :: "nat \<Rightarrow> (nat \<Rightarrow> 'f::comm_ring_1) \<Rightarrow> 'f list" where
  "u16_sub_eval_unfiltered_circuit num_ops = sg_eval_unfiltered_circuit (U16SubtractionGate num_ops)"
definition u16_sub_eval_unfiltered_base_packed :: "nat \<Rightarrow> (nat \<Rightarrow> 'f::comm_ring_1) \<Rightarrow> 'f list" where
  "u16_sub_eval_unfiltered_base_packed num_ops = sg_eval_unfiltered_base_packed (U16SubtractionGate num_ops)"
definition u16_sub_run_once :: "nat \<Rightarrow> (nat \<Rightarrow> gf) \<Rightarrow> nat \<Rightarrow> (nat \<times> gf) list" where
  "u16_sub_run_once num_ops = sg_run_once (U16SubtractionGate num_ops)"

definition u48_sub_eval_unfiltered :: "nat \<Rightarrow> (nat \<Rightarrow> 'f::comm_ring_1) \<Rightarrow> 'f list" where
  "u48_sub_eval_unfiltered num_ops = sg_eval_unfiltered (U48SubtractionGate num_ops)"
definition u48_sub_eval_unfiltered_base_batch :: "nat \<Rightarrow> nat \<Rightarrow> (nat \<Rightarrow> 'f::comm_ring_1) \<Rightarrow> 'f list list" where
  "u48_sub_eval_unfiltered_base_batch num_ops = sg_eval_unfiltered_base_batch (U48SubtractionGate num_ops)"
definition u48_sub_eval_unfiltered_base_batch_accumulate :: "nat \<Rightarrow> nat \<Rightarrow> (nat \<Rightarrow> 'f::comm_ring_1) \<Rightarrow> 'f list \<Rightarrow> 'f list \<Rightarrow> 'f list option" where
  "u48_sub_eval_unfiltered_base_batch_accumulate num_ops = sg_eval_unfiltered_base_batch_accumulate (U48SubtractionGate num_ops)"
definition u48_sub_eval_unfiltered_circuit :: "nat \<Rightarrow> (nat \<Rightarrow> 'f::comm_ring_1) \<Rightarrow> 'f list" where
  "u48_sub_eval_unfiltered_circuit num_ops = sg_eval_unfiltered_circuit (U48SubtractionGate num_ops)"
definition u48_sub_eval_unfiltered_base_packed :: "nat \<Rightarrow> (nat \<Rightarrow> 'f::comm_ring_1) \<Rightarrow> 'f list" where
  "u48_sub_eval_unfiltered_base_packed num_ops = sg_eval_unfiltered_base_packed (U48SubtractionGate num_ops)"
definition u48_sub_run_once :: "nat \<Rightarrow> (nat \<Rightarrow> gf) \<Rightarrow> nat \<Rightarrow> (nat \<times> gf) list" where
  "u48_sub_run_once num_ops = sg_run_once (U48SubtractionGate num_ops)"

section \<open>The routines agree\<close>

definition sg_op_constraints ::
  "nat \<Rightarrow> nat \<Rightarrow> (nat \<Rightarrow> 'f::comm_ring_1) \<Rightarrow> 'f \<Rightarrow> 'f \<Rightarrow> 'f \<Rightarrow> 'f \<Rightarrow> 'f \<Rightarrow> 'f list" where
  "sg_op_constraints bits limbs limb x y borrow result output_borrow =
     [result - (x - y - borrow + of_nat (2 ^ bits) * output_borrow)]
     @ map (\<lambda>j. range_product (2 ^ sg_limb_bits) (limb j)) (rev [0..<limbs])
     @ [le_value (of_nat (2 ^ sg_limb_bits)) (map limb [0..<limbs]) - result,
        output_borrow * (1 - output_borrow)]"

abbreviation sg_op_at :: "SubtractionGate \<Rightarrow> (nat \<Rightarrow> 'f::comm_ring_1) \<Rightarrow> nat \<Rightarrow> 'f list" where
  "sg_op_at g w i \<equiv> sg_op_constraints (sg_base_bits g) (sg_num_limbs g)
     (\<lambda>j. w (sg_wire_ith_output_jth_limb g i j)) (w (sg_wire_ith_input_x i)) (w (sg_wire_ith_input_y i))
     (w (sg_wire_ith_input_borrow i)) (w (sg_wire_ith_output_result i)) (w (sg_wire_ith_output_borrow i))"

lemma sg_eval_op_eq: "sg_eval_op g w i = sg_op_at g w i"
  unfolding sg_eval_op_def sg_op_constraints_def Let_def range_loop_eq by simp

lemma sg_range_product: "range_product (2 ^ sg_limb_bits) x = range_product4 x"
  by (simp add: sg_limb_bits_def range_product_4)

lemma sg_eval_circuit_op_eq: "sg_eval_circuit_op g = sg_eval_op g"
  unfolding sg_eval_circuit_op_def circuit_range_product_eq sg_eval_op_def range_loop_def fun_eq_iff
  by (simp only: Let_def add.commute [of "of_nat (2 ^ sg_base_bits g) * _"] simp_thms)

lemma sg_eval_packed_op_eq: "sg_eval_packed_op g = sg_eval_op g"
  unfolding sg_eval_packed_op_def sg_eval_op_def range_loop_def fun_eq_iff
  by (simp only: Let_def mult.commute [of _ "of_nat (2 ^ sg_base_bits g)"]
      mult.commute [of _ "of_nat (2 ^ sg_limb_bits)"] simp_thms)

lemma sg_batch_op_chunked:
  "chunked n (\<lambda>p. sg_eval_op g (batch_point n wires p) i) (sg_eval_batch_op g n wires i)"
  unfolding sg_eval_batch_op_def sg_eval_op_eq sg_op_constraints_def Let_def sg_range_product batch_range_loop_eq
  by (unfold prod.case append_Cons append_Nil, (intro chunked_intros; simp))

lemma sg_accumulate_op_chunked:
  "chunked n (\<lambda>p. sg_eval_op g (batch_point n wires p) i) (sg_accumulate_op g n wires i)"
  unfolding sg_accumulate_op_def sg_eval_op_eq sg_op_constraints_def Let_def sg_range_product batch_horner_eq
  by (unfold append_Cons append_Nil, (intro chunked_intros; simp))

interpretation sg: gate_variants "sg_num_constraints g" "sg_eval_unfiltered g"
  "sg_eval_unfiltered_circuit g" "sg_eval_unfiltered_base_packed g"
  "sg_eval_unfiltered_base_batch g" "sg_accumulate_scratches g" for g
  unfolding sg_num_constraints_def sg_eval_unfiltered_def [abs_def] sg_eval_unfiltered_circuit_def [abs_def]
    sg_eval_unfiltered_base_packed_def [abs_def] sg_eval_unfiltered_base_batch_def [abs_def]
    sg_accumulate_scratches_def [abs_def]
  by (rule gate_variants_concat)
    (simp_all add: sg_eval_circuit_op_eq sg_eval_packed_op_eq sg_batch_op_chunked sg_accumulate_op_chunked,
      simp add: sg_eval_op_eq sg_op_constraints_def)


section \<open>Soundness and completeness of the constraints\<close>

text \<open>The widths for which the argument works: an even number of bits, two field elements of head room.\<close>

definition sg_width_ok :: "nat \<Rightarrow> bool" where
  "sg_width_ok bits \<longleftrightarrow> even bits \<and> bits \<le> 62"

lemma sg_width:
  assumes "sg_width_ok bits"
  shows "2 * 2 ^ bits < goldilocks_order" and "4 ^ (bits div 2) = (2 ^ bits :: nat)"
    and "(2::nat) ^ bits < p_nat"
proof -
  have le: "(2::int) ^ bits \<le> 2 ^ 62" "(2::nat) ^ bits \<le> 2 ^ 62"
    using assms by (auto simp: sg_width_ok_def intro: power_increasing simp del: power_numeral)
  then show "2 * 2 ^ bits < goldilocks_order" "(2::nat) ^ bits < p_nat"
    by (simp_all add: goldilocks_order_def)
  have "(4::nat) ^ (bits div 2) = (2 ^ 2) ^ (bits div 2)" by simp
  also have "\<dots> = 2 ^ bits"
    using assms by (simp only: power_mult [symmetric]) (simp add: sg_width_ok_def)
  finally show "4 ^ (bits div 2) = (2 ^ bits :: nat)" .
qed

lemma sg_head_room:
  fixes x y b r ob w p :: int
  assumes "0 \<le> x" "x < w" "0 \<le> y" "y < w" "0 \<le> b" "b \<le> 1" "0 \<le> r" "r < w" "ob = 0 \<or> ob = 1" "2 * w < p"
  shows "\<bar>r - (x - y - b + w * ob)\<bar> < p"
  using assms by (elim disjE) (simp_all add: abs_less_iff)

lemma sg_op_sound:
  fixes x y borrow result ob :: gf
  assumes zero: "\<forall>c\<in>set (sg_op_constraints bits (bits div 2) limb x y borrow result ob). c = 0"
    and w: "sg_width_ok bits"
    and x: "to_canonical_u64 x < 2 ^ bits" and y: "to_canonical_u64 y < 2 ^ bits"
    and b: "to_canonical_u64 borrow \<le> 1"
  shows "to_canonical_u64 result < 2 ^ bits" and "to_canonical_u64 ob \<le> 1"
    and "int (to_canonical_u64 result)
      = int (to_canonical_u64 x) - int (to_canonical_u64 y) - int (to_canonical_u64 borrow)
        + 2 ^ bits * int (to_canonical_u64 ob)"
proof -
  have eq: "result = x - y - borrow + of_nat (2 ^ bits) * ob"
    and range: "\<forall>j\<in>set [0..<bits div 2]. range_product 4 (limb j) = 0"
    and comb: "result = le_value 4 (map limb [0..<bits div 2])"
    and "ob * (1 - ob) = 0"
    using zero by (auto simp: sg_op_constraints_def sg_limb_bits_def simp del: of_nat_power)
  then show ob: "to_canonical_u64 ob \<le> 1" by (simp only: gf_bool_constraint)
  show r: "to_canonical_u64 result < 2 ^ bits"
    using limb_range_value [OF range _ comb] sg_width [OF w] by simp
  let ?m = "int (to_canonical_u64 x) - int (to_canonical_u64 y) - int (to_canonical_u64 borrow)
        + 2 ^ bits * int (to_canonical_u64 ob)"
  have "result = of_int ?m" using eq by simp
  moreover have "\<bar>int (to_canonical_u64 result) - ?m\<bar> < goldilocks_order"
  proof -
    have "int (to_canonical_u64 x) < 2 ^ bits" "int (to_canonical_u64 y) < 2 ^ bits"
      "int (to_canonical_u64 result) < 2 ^ bits" using x y r by simp_all
    moreover have "int (to_canonical_u64 ob) = 0 \<or> int (to_canonical_u64 ob) = 1" using ob by linarith
    moreover have "int (to_canonical_u64 borrow) \<le> 1" using b by simp
    ultimately show ?thesis
      using sg_head_room [OF _ _ _ _ _ _ _ _ _ sg_width(1) [OF w], of "int (to_canonical_u64 x)"] by simp
  qed
  ultimately show "int (to_canonical_u64 result) = ?m" by (rule to_canonical_eqI)
qed

text \<open>The result and the borrow as functions of the inputs.\<close>

lemma borrow_unique:
  fixes x y b r ob :: nat
  assumes "int r = int x - int y - int b + 2 ^ bits * int ob" "r < 2 ^ bits" "ob \<le> 1" "x < 2 ^ bits"
  shows "ob = of_bool (x < y + b)" and "int r = (int x - int y - int b) mod 2 ^ bits"
proof -
  have "ob = 0 \<or> ob = 1" using assms(3) by linarith
  moreover have "int r < 2 ^ bits" "int x < 2 ^ bits" using assms(2,4) by simp_all
  ultimately show "ob = of_bool (x < y + b)" using assms(1) by (elim disjE) auto
  have "int r mod 2 ^ bits = (int x - int y - int b) mod 2 ^ bits" using assms(1) by simp
  then show "int r = (int x - int y - int b) mod 2 ^ bits"
    using \<open>int r < 2 ^ bits\<close> by simp
qed

lemma sg_limb_values_eq: "sg_limb_values k x = le_digits 4 k x"
  by (induction k arbitrary: x) (simp_all add: sg_limb_bits_def)

lemma sg_op_complete:
  fixes x y borrow :: gf and bits :: nat
  defines "ri \<equiv> x - y - borrow"
  defines "ob \<equiv> if to_canonical_u64 ri > 2 ^ bits then 1 else 0"
  defines "result \<equiv> ri + of_nat (2 ^ bits) * ob"
  assumes w: "sg_width_ok bits"
    and x: "to_canonical_u64 x < 2 ^ bits" and y: "to_canonical_u64 y < 2 ^ bits"
    and b: "to_canonical_u64 borrow \<le> 1"
    and limb: "\<And>j. j < bits div 2 \<Longrightarrow> limb j = of_nat (le_digits 4 (bits div 2) (to_canonical_u64 result) ! j)"
  shows "\<forall>c\<in>set (sg_op_constraints bits (bits div 2) limb x y borrow result ob). c = 0"
proof -
  define X Y B where "X = int (to_canonical_u64 x)" and "Y = int (to_canonical_u64 y)"
    and "B = int (to_canonical_u64 borrow)"
  have bounds: "0 \<le> X" "X < 2 ^ bits" "0 \<le> Y" "Y < 2 ^ bits" "0 \<le> B" "B \<le> 1"
    using x y b by (simp_all add: X_def Y_def B_def)
  have ri: "ri = of_int (X - Y - B)" by (simp add: ri_def X_def Y_def B_def)
  note big = sg_width [OF w]
  have res: "to_canonical_u64 result < 2 ^ bits"
  proof (cases "0 \<le> X - Y - B")
    case True
    then have *: "int (to_canonical_u64 ri) = X - Y - B"
      unfolding ri using bounds big(1) by (intro to_canonical_of_int) simp_all
    then have "int (to_canonical_u64 ri) < 2 ^ bits" using bounds by linarith
    then have "to_canonical_u64 ri < 2 ^ bits" by simp
    then show ?thesis by (simp add: result_def ob_def)
  next
    case False
    have "ri = of_int (X - Y - B + goldilocks_order)"
      unfolding ri by (subst gf_of_int_eq_iff) simp
    then have *: "int (to_canonical_u64 ri) = X - Y - B + goldilocks_order"
      using to_canonical_of_int [of "X - Y - B + goldilocks_order"] bounds big(1) False by simp
    have "int (to_canonical_u64 ri) \<ge> goldilocks_order - 2 ^ bits" using * bounds by linarith
    then have "int (to_canonical_u64 ri) > 2 ^ bits" using big(1) by linarith
    then have "to_canonical_u64 ri > 2 ^ bits" by simp
    then have "result = of_int (X - Y - B + 2 ^ bits)" by (simp add: result_def ob_def ri)
    then have "int (to_canonical_u64 result) = X - Y - B + 2 ^ bits"
      using to_canonical_of_int [of "X - Y - B + 2 ^ bits"] bounds big(1) False by simp
    then have "int (to_canonical_u64 result) < 2 ^ bits" using False by linarith
    then show ?thesis by simp
  qed
  let ?ds = "le_digits 4 (bits div 2) (to_canonical_u64 result)"
  have limbs: "map limb [0..<bits div 2] = map of_nat ?ds"
    by (rule nth_equalityI) (simp_all add: limb)
  have "(of_nat (le_value 4 ?ds) :: gf) = le_value 4 (map of_nat ?ds)"
    using of_nat_le_value [of 4 ?ds] by simp
  moreover have "le_value 4 ?ds = to_canonical_u64 result"
    using res big(2) by (simp add: le_value_digits)
  ultimately have "le_value 4 (map limb [0..<bits div 2]) = result" by (simp add: limbs)
  moreover have "range_product 4 (limb j) = 0" if "j < bits div 2" for j
    using le_digits_range [OF that, of "to_canonical_u64 result"] limb [OF that]
    by (simp add: range_product_4_zero)
  moreover have "ob * (1 - ob) = 0" by (simp add: ob_def)
  ultimately show ?thesis
    by (auto simp: sg_op_constraints_def sg_limb_bits_def result_def ri_def
        simp del: mult_eq_0_iff)
qed


section \<open>Rows\<close>

lemma sg_row_op:
  assumes "\<forall>c\<in>set (sg_eval_unfiltered g w). c = 0" "i < sg_num_ops g"
  shows "\<forall>c\<in>set (sg_op_at g w i). c = 0"
  using assms by (auto simp: sg_eval_unfiltered_def sg_eval_op_eq)

lemma sg_limb_wire_inj: "inj (sg_wire_ith_output_jth_limb g i)"
  by (auto simp: inj_def sg_wire_ith_output_jth_limb_def)

lemma sg_limb_wire_routed:
  assumes "i < sg_num_ops g" "k < 5"
  shows "5 * i + k \<noteq> sg_wire_ith_output_jth_limb g i' j"
proof -
  have "5 * i + 5 \<le> 5 * sg_num_ops g" using assms(1) by simp
  then show ?thesis using assms(2) by (simp add: sg_wire_ith_output_jth_limb_def)
qed

lemma sg_generator_complete:
  assumes i: "i < sg_num_ops g" and w: "sg_width_ok (sg_base_bits g)"
    and x: "to_canonical_u64 (wires (sg_wire_ith_input_x i)) < 2 ^ sg_base_bits g"
    and y: "to_canonical_u64 (wires (sg_wire_ith_input_y i)) < 2 ^ sg_base_bits g"
    and b: "to_canonical_u64 (wires (sg_wire_ith_input_borrow i)) \<le> 1"
  shows "\<forall>c\<in>set (sg_eval_op g (set_wires (sg_run_once g wires i) wires) i). c = 0"
proof -
  let ?w = "set_wires (sg_run_once g wires i) wires"
  define ri where "ri = wires (5 * i) - wires (5 * i + 1) - wires (5 * i + 2)"
  define ob :: gf where "ob = (if to_canonical_u64 ri > 2 ^ sg_base_bits g then 1 else 0)"
  define result where "result = ri + of_nat (2 ^ sg_base_bits g) * ob"
  define w2 where "w2 = wires(5 * i + 3 := result, 5 * i + 4 := ob)"
  let ?ds = "le_digits 4 (sg_num_limbs g) (to_canonical_u64 result)"
  have u64: "(if ob = 0 then to_canonical_u64 ri else to_canonical_u64 result) = to_canonical_u64 result"
    by (simp add: result_def)
  have run: "?w = set_wires (map (\<lambda>(j, l). (sg_wire_ith_output_jth_limb g i j, of_nat l)) (enumerate 0 ?ds)) w2"
    unfolding sg_run_once_def Let_def sg_routed_defs ri_def [symmetric] ob_def [symmetric]
      result_def [symmetric] u64 sg_limb_values_eq w2_def by simp
  have routed: "?w (5 * i + k) = w2 (5 * i + k)" if "k < 5" for k
    unfolding run using sg_limb_wire_routed [OF i that]
    by (intro set_wires_other) (auto simp: image_def in_set_enumerate_eq)
  have limb: "?w (sg_wire_ith_output_jth_limb g i j) = of_nat (?ds ! j)" if "j < sg_base_bits g div 2" for j
    unfolding run set_wires_enumerate [OF sg_limb_wire_inj]
    using that by (simp add: sg_num_limbs_def sg_limb_bits_def)
  have "w2 (5 * i) = wires (5 * i)" "w2 (5 * i + 1) = wires (5 * i + 1)" "w2 (5 * i + 2) = wires (5 * i + 2)"
    "w2 (5 * i + 3) = result" "w2 (5 * i + 4) = ob" by (simp_all add: w2_def)
  then have "sg_op_at g ?w i = sg_op_constraints (sg_base_bits g) (sg_base_bits g div 2)
      (\<lambda>j. ?w (sg_wire_ith_output_jth_limb g i j)) (wires (5 * i)) (wires (5 * i + 1)) (wires (5 * i + 2)) result ob"
    using routed [of 0] routed [of 1] routed [of 2] routed [of 3] routed [of 4]
    by (simp add: sg_routed_defs sg_num_limbs_def sg_limb_bits_def)
  then show ?thesis
    unfolding sg_eval_op_eq
    using sg_op_complete [OF w, of "wires (5 * i)" "wires (5 * i + 1)" "wires (5 * i + 2)"
        "\<lambda>j. ?w (sg_wire_ith_output_jth_limb g i j)"] x y b limb
    unfolding sg_routed_defs ri_def [symmetric] ob_def [symmetric] result_def [symmetric]
    by (simp add: sg_num_limbs_def sg_limb_bits_def)
qed

definition sg_op_wires :: "SubtractionGate \<Rightarrow> (nat \<Rightarrow> 'f) \<Rightarrow> nat \<Rightarrow> nat \<Rightarrow> 'f" where
  "sg_op_wires g w i k =
     (if k < 5 then w (5 * i + k) else w (5 * sg_num_ops g + sg_num_limbs g * i + (k - 5)))"

lemma sg_single_op: "sg_eval_unfiltered \<lparr>sg_base_bits = bits, sg_num_ops = 1\<rparr> w
    = sg_op_at \<lparr>sg_base_bits = bits, sg_num_ops = 1\<rparr> w 0"
  by (simp add: sg_eval_unfiltered_def sg_eval_op_eq)

lemma sg_rows_decompose:
  "sg_eval_unfiltered g w
     = concat (map (\<lambda>i. sg_eval_unfiltered \<lparr>sg_base_bits = sg_base_bits g, sg_num_ops = 1\<rparr> (sg_op_wires g w i))
         [0..<sg_num_ops g])"
  unfolding sg_single_op unfolding sg_eval_unfiltered_def
  by (intro arg_cong [where f = concat] map_cong refl)
    (simp add: sg_eval_op_eq sg_op_wires_def sg_routed_defs sg_wire_ith_output_jth_limb_def sg_num_limbs_def)

section \<open>The gadget operation\<close>

definition sg_slot :: "nat \<Rightarrow> target \<Rightarrow> target \<Rightarrow> target \<Rightarrow> (target \<times> target) circ" where
  "sg_slot bits x y borrow =
    circ_bind (gate_slot (sg_eval_unfiltered \<lparr>sg_base_bits = bits, sg_num_ops = 1\<rparr>) [x, y, borrow]
        (2 + bits div sg_limb_bits)) (\<lambda>free.
    circ_return (free ! 0, free ! 1))"

lemma sg_slot_row:
  "sg_eval_unfiltered \<lparr>sg_base_bits = bits, sg_num_ops = 1\<rparr> (\<lambda>k. ([x, y, b] @ r # ob # limbs) ! k)
     = sg_op_constraints bits (bits div 2) (\<lambda>j. limbs ! j) x y b r ob"
  unfolding sg_single_op
  by (simp add: sg_routed_defs sg_wire_ith_output_jth_limb_def sg_num_limbs_def sg_limb_bits_def numeral_eq_Suc)

lemma implements_sg_slot:
  assumes w: "sg_width_ok bits" and x: "to_canonical_u64 (tval x) < 2 ^ bits"
    and y: "to_canonical_u64 (tval y) < 2 ^ bits" and b: "to_canonical_u64 (tval borrow) \<le> 1"
  shows "implements (sg_slot bits x y borrow) (\<lambda>(result, output_borrow).
     int (to_canonical_u64 (tval result)) = (int (to_canonical_u64 (tval x)) - int (to_canonical_u64 (tval y))
        - int (to_canonical_u64 (tval borrow))) mod 2 ^ bits \<and>
     tval output_borrow = of_bool (to_canonical_u64 (tval x)
        < to_canonical_u64 (tval y) + to_canonical_u64 (tval borrow)))"
proof -
  define Q :: "gf list \<Rightarrow> bool" where
    "Q vs \<longleftrightarrow> int (to_canonical_u64 (vs ! 0)) = (int (to_canonical_u64 (tval x)) - int (to_canonical_u64 (tval y))
        - int (to_canonical_u64 (tval borrow))) mod 2 ^ bits \<and>
     vs ! 1 = of_bool (to_canonical_u64 (tval x) < to_canonical_u64 (tval y) + to_canonical_u64 (tval borrow))" for vs
  have "implements (gate_slot (sg_eval_unfiltered \<lparr>sg_base_bits = bits, sg_num_ops = 1\<rparr>) [x, y, borrow] (2 + bits div 2))
      (\<lambda>free. length free = 2 + bits div 2 \<and> Q (map tval free))"
  proof (rule implements_gate_slot)
    fix vs assume len: "length vs = 2 + bits div 2"
      and zero: "\<forall>c\<in>set (sg_eval_unfiltered \<lparr>sg_base_bits = bits, sg_num_ops = 1\<rparr>
        (\<lambda>k. (map tval [x, y, borrow] @ vs) ! k)). c = 0"
    obtain r ob limbs where vs: "vs = r # ob # limbs"
      using len by (metis add_2_eq_Suc length_Suc_conv)
    then have "\<forall>c\<in>set (sg_op_constraints bits (bits div 2) (\<lambda>j. limbs ! j) (tval x) (tval y) (tval borrow) r ob). c = 0"
      using zero unfolding vs list.map sg_slot_row by blast
    note s = sg_op_sound [OF this w x y b]
    have "ob = of_nat (of_bool (to_canonical_u64 (tval x) < to_canonical_u64 (tval y) + to_canonical_u64 (tval borrow)))"
      using borrow_unique(1) [OF s(3,1,2) x] by (metis of_nat_to_canonical)
    with borrow_unique(2) [OF s(3,1,2) x] show "Q vs"
      unfolding Q_def vs by simp
  next
    define ri where "ri = tval x - tval y - tval borrow"
    define ob :: gf where "ob = (if to_canonical_u64 ri > 2 ^ bits then 1 else 0)"
    define result where "result = ri + of_nat (2 ^ bits) * ob"
    let ?vs = "result # ob # map of_nat (le_digits 4 (bits div 2) (to_canonical_u64 result))"
    show "length ?vs = 2 + bits div 2" by simp
    show "\<forall>c\<in>set (sg_eval_unfiltered \<lparr>sg_base_bits = bits, sg_num_ops = 1\<rparr>
        (\<lambda>k. (map tval [x, y, borrow] @ ?vs) ! k)). c = 0"
      unfolding list.map sg_slot_row result_def ob_def ri_def
      by (rule sg_op_complete [OF w x y b]) simp
  qed
  then show ?thesis
    unfolding sg_slot_def sg_limb_bits_def
    by (rule implements_bind) (auto intro!: implements_return simp: Q_def)
qed


section \<open>Properties\<close>

lemma sg_run_keeps_inputs:
  assumes "i < sg_num_ops g" "k < 3"
  shows "set_wires (sg_run_once g w i) w (5 * i + k) = w (5 * i + k)"
  using sg_limb_wire_routed [OF assms(1), of k] assms(2)
  by (intro set_wires_other)
    (auto simp: sg_run_once_def Let_def sg_routed_defs image_def in_set_enumerate_eq)

text \<open>
  Soundness of the subtraction gates at every even width up to 62 bits (16, 32 and 48 in the
  code): on a row on which all constraints vanish, if the inputs of an operation are limbs and its input
  borrow is a bit, then the output is \<open>(x - y - borrow) mod 2 ^ bits\<close> and the output borrow is 1 exactly
  when the subtraction underflows.
\<close>

theorem subtraction_gate_sound:
  fixes w :: "nat \<Rightarrow> gf"
  assumes "\<forall>c\<in>set (sg_eval_unfiltered g w). c = 0" and "i < sg_num_ops g" and "sg_width_ok (sg_base_bits g)"
  defines "x \<equiv> to_canonical_u64 (w (sg_wire_ith_input_x i))"
    and "y \<equiv> to_canonical_u64 (w (sg_wire_ith_input_y i))"
    and "b \<equiv> to_canonical_u64 (w (sg_wire_ith_input_borrow i))"
  assumes "x < 2 ^ sg_base_bits g" "y < 2 ^ sg_base_bits g" "b \<le> 1"
  shows "int (to_canonical_u64 (w (sg_wire_ith_output_result i))) = (int x - int y - int b) mod 2 ^ sg_base_bits g
    \<and> to_canonical_u64 (w (sg_wire_ith_output_borrow i)) = of_bool (x < y + b)"
proof -
  have k: "sg_num_limbs g = sg_base_bits g div 2" by (simp add: sg_num_limbs_def sg_limb_bits_def)
  note s = sg_op_sound [OF sg_row_op [OF assms(1,2), unfolded k] assms(3) assms(7,8,9) [unfolded x_def y_def b_def]]
  show ?thesis
    using borrow_unique [OF s(3,1,2) assms(7) [unfolded x_def]] by (simp add: x_def y_def b_def)
qed

definition sg_example_gate :: SubtractionGate where
  "sg_example_gate = U32SubtractionGate 1"

definition sg_example_wires :: "nat \<Rightarrow> gf" where
  "sg_example_wires k = (if k = 0 then 5 else if k = 1 then 9 else if k = 2 then 1 else 0)"

definition sg_example_row :: "nat \<Rightarrow> gf" where
  "sg_example_row = set_wires (sg_run_once sg_example_gate sg_example_wires 0) sg_example_wires"

lemma sg_example_gate_fields [simp]: "sg_num_ops sg_example_gate = 1" "sg_base_bits sg_example_gate = 32"
  by (simp_all add: sg_example_gate_def U32SubtractionGate_def)

lemma sg_example_width [simp]: "sg_width_ok 32"
  by (simp add: sg_width_ok_def)

lemma sg_example_row_zero: "\<forall>c\<in>set (sg_eval_unfiltered sg_example_gate sg_example_row). c = 0"
  using sg_generator_complete [of 0 sg_example_gate sg_example_wires]
  by (simp add: sg_eval_unfiltered_def sg_example_row_def sg_example_wires_def sg_routed_defs)

lemma sg_example_row_inputs:
  "sg_example_row 0 = 5" "sg_example_row (Suc 0) = 9" "sg_example_row 2 = 1" "sg_example_row (Suc (Suc 0)) = 1"
  using sg_run_keeps_inputs [of 0 sg_example_gate 0 sg_example_wires]
    sg_run_keeps_inputs [of 0 sg_example_gate 1 sg_example_wires]
    sg_run_keeps_inputs [of 0 sg_example_gate 2 sg_example_wires]
  by (simp_all add: sg_example_row_def sg_example_wires_def numeral_2_eq_2)

theorem subtraction_gate_sound_witness:
  "to_canonical_u64 (sg_example_row 3) = 4294967291 \<and> to_canonical_u64 (sg_example_row 4) = 1"
proof -
  have "int (to_canonical_u64 (sg_example_row 3)) = 4294967291 \<and> to_canonical_u64 (sg_example_row 4) = 1"
    using subtraction_gate_sound [OF sg_example_row_zero, of 0] sg_example_row_inputs
    by (simp add: sg_routed_defs)
  then show ?thesis by (metis of_nat_eq_iff of_nat_numeral)
qed

text \<open>
  The evaluation routines of the subtraction gates agree with \<open>eval_unfiltered\<close>, in the sense
  spelled out for \<open>U32ArithmeticGate\<close>, at every width.
\<close>

theorem subtraction_gate_routines_agree:
  fixes w wires :: "nat \<Rightarrow> 'f::comm_ring_1"
  shows "sg_eval_unfiltered_circuit g w = sg_eval_unfiltered g w
    \<and> sg_eval_unfiltered_base_packed g w = sg_eval_unfiltered g w
    \<and> (\<forall>c < sg_num_constraints g. \<forall>p<n. concat (sg_eval_unfiltered_base_batch g n wires) ! (c * n + p)
        = sg_eval_unfiltered g (batch_point n wires p) ! c)
    \<and> (0 < n \<longrightarrow> sg_eval_unfiltered_base_batch_accumulate g n wires filters combined = Some combined'
        \<longrightarrow> length combined' = length combined
          \<and> (\<forall>c < sg_num_constraints g. \<forall>p<n. combined' ! (c * n + p)
              = combined ! (c * n + p) + sg_eval_unfiltered g (batch_point n wires p) ! c * filters ! p)
          \<and> (\<forall>k. sg_num_constraints g * n \<le> k \<longrightarrow> k < length combined \<longrightarrow> combined' ! k = combined ! k))"
  unfolding sg_eval_unfiltered_base_batch_accumulate_def by (rule sg.routines_agree)

theorem subtraction_gate_routines_agree_witness:
  "concat (sg_eval_unfiltered_base_batch sg_example_gate 2 sg_example_wires) ! (18 * 2 + 1)
      = sg_eval_unfiltered sg_example_gate (batch_point 2 sg_example_wires 1) ! 18
    \<and> (\<exists>combined'. sg_eval_unfiltered_base_batch_accumulate sg_example_gate 2 sg_example_wires [1, 3] (replicate 38 0)
          = Some combined'
        \<and> combined' ! (18 * 2 + 1) = sg_eval_unfiltered sg_example_gate (batch_point 2 sg_example_wires 1) ! 18 * 3)"
proof -
  have n: "sg_num_constraints sg_example_gate = 19"
    by (simp add: sg_num_constraints_def sg_num_limbs_def sg_limb_bits_def)
  obtain combined' where c: "sg_eval_unfiltered_base_batch_accumulate sg_example_gate 2 sg_example_wires [1, 3] (replicate 38 0)
      = Some combined'"
    using accumulate_checked_Some [of "[1, 3 :: gf]" 2 19 "replicate 38 0" "sg_accumulate_scratches sg_example_gate 2 sg_example_wires"]
    by (auto simp: sg_eval_unfiltered_base_batch_accumulate_def n)
  note agree = subtraction_gate_routines_agree [of sg_example_gate sg_example_wires 2 sg_example_wires "[1, 3]"
      "replicate 38 0" combined', unfolded n]
  have "\<forall>c<19. \<forall>p<2. combined' ! (c * 2 + p) = replicate 38 0 ! (c * 2 + p)
      + sg_eval_unfiltered sg_example_gate (batch_point 2 sg_example_wires p) ! c * [1, 3] ! p"
    using agree c by (simp del: nth_replicate)
  from all_below_at [OF this, of 18 1]
  have "combined' ! (18 * 2 + 1) = replicate 38 0 ! (18 * 2 + 1)
      + sg_eval_unfiltered sg_example_gate (batch_point 2 sg_example_wires 1) ! 18 * [1, 3] ! 1" by simp
  moreover have "concat (sg_eval_unfiltered_base_batch sg_example_gate 2 sg_example_wires) ! (18 * 2 + 1)
      = sg_eval_unfiltered sg_example_gate (batch_point 2 sg_example_wires 1) ! 18"
    using all_below_at [OF conjunct1 [OF conjunct2 [OF conjunct2 [OF agree]]], of 18 1] by simp
  ultimately show ?thesis using c by simp
qed

text \<open>
  Completeness of the subtraction generator: on limb inputs and a borrow bit the wires set by
  \<open>run_once\<close> satisfy the constraints of the operation, and the inputs are kept.
\<close>

theorem subtraction_generator_complete:
  assumes "i < sg_num_ops g" and "sg_width_ok (sg_base_bits g)"
    and "to_canonical_u64 (w (sg_wire_ith_input_x i)) < 2 ^ sg_base_bits g"
    and "to_canonical_u64 (w (sg_wire_ith_input_y i)) < 2 ^ sg_base_bits g"
    and "to_canonical_u64 (w (sg_wire_ith_input_borrow i)) \<le> 1"
  shows "(\<forall>c\<in>set (sg_eval_op g (set_wires (sg_run_once g w i) w) i). c = 0)
    \<and> (\<forall>k<3. set_wires (sg_run_once g w i) w (sg_wire_ith_input_x i + k) = w (sg_wire_ith_input_x i + k))"
  using sg_generator_complete [OF assms] sg_run_keeps_inputs [OF assms(1)]
  by (simp add: sg_wire_ith_input_x_def)

theorem subtraction_generator_complete_witness:
  "set (sg_eval_op sg_example_gate sg_example_row 0) \<subseteq> {0}"
  using subtraction_generator_complete [of 0 sg_example_gate sg_example_wires]
  by (auto simp: sg_example_row_def sg_example_wires_def sg_routed_defs)

end
