(* ===== verification/Add_Many_Gate.thy ===== *)
theory Add_Many_Gate
  imports Gate_Base
begin

text \<open>
  The gates \<open>U16AddManyGate\<close> and \<open>U32AddManyGate\<close> (\<open>circuit/src/uint/u16/gates/add_many_u16.rs\<close>,
  \<open>u32/gates/add_many_u32.rs\<close>), one program at two widths: an operation adds \<open>num_addends\<close> values and a
  carry and returns the result modulo \<open>2 ^ base_bits\<close> and a carry of at most four bits.
\<close>

section \<open>The gate\<close>

record AddManyGate =
  am_base_bits :: nat
  am_num_addends :: nat
  am_num_ops :: nat

definition LOG2_MAX_NUM_ADDENDS :: nat where "LOG2_MAX_NUM_ADDENDS = 4"
definition MAX_NUM_ADDENDS :: nat where "MAX_NUM_ADDENDS = 16"

definition ceil_div_usize :: "nat \<Rightarrow> nat \<Rightarrow> nat" where
  "ceil_div_usize a b = a div b + (if a mod b > 0 then 1 else 0)"

definition am_limb_bits :: nat where "am_limb_bits = 2"
definition am_num_result_limbs :: "AddManyGate \<Rightarrow> nat" where
  "am_num_result_limbs g = ceil_div_usize (am_base_bits g) am_limb_bits"
definition am_num_carry_limbs :: nat where
  "am_num_carry_limbs = ceil_div_usize LOG2_MAX_NUM_ADDENDS am_limb_bits"
definition am_num_limbs :: "AddManyGate \<Rightarrow> nat" where
  "am_num_limbs g = am_num_result_limbs g + am_num_carry_limbs"

definition am_new_from_config :: "nat \<Rightarrow> nat \<Rightarrow> nat \<Rightarrow> nat \<Rightarrow> AddManyGate" where
  "am_new_from_config base_bits num_wires num_routed_wires num_addends =
    (let num_limbs = ceil_div_usize base_bits am_limb_bits + am_num_carry_limbs;
         wires_per_op = (num_addends + 3) + num_limbs;
         routed_wires_per_op = num_addends + 3
     in \<lparr>am_base_bits = base_bits, am_num_addends = num_addends,
         am_num_ops = min (num_wires div wires_per_op) (num_routed_wires div routed_wires_per_op)\<rparr>)"

definition am_wire_ith_op_jth_addend :: "AddManyGate \<Rightarrow> nat \<Rightarrow> nat \<Rightarrow> nat" where
  "am_wire_ith_op_jth_addend g i j = (am_num_addends g + 3) * i + j"
definition am_wire_ith_carry :: "AddManyGate \<Rightarrow> nat \<Rightarrow> nat" where
  "am_wire_ith_carry g i = (am_num_addends g + 3) * i + am_num_addends g"
definition am_wire_ith_output_result :: "AddManyGate \<Rightarrow> nat \<Rightarrow> nat" where
  "am_wire_ith_output_result g i = (am_num_addends g + 3) * i + am_num_addends g + 1"
definition am_wire_ith_output_carry :: "AddManyGate \<Rightarrow> nat \<Rightarrow> nat" where
  "am_wire_ith_output_carry g i = (am_num_addends g + 3) * i + am_num_addends g + 2"
definition am_wire_ith_output_jth_limb :: "AddManyGate \<Rightarrow> nat \<Rightarrow> nat \<Rightarrow> nat" where
  "am_wire_ith_output_jth_limb g i j = (am_num_addends g + 3) * am_num_ops g + am_num_limbs g * i + j"

definition am_num_wires :: "AddManyGate \<Rightarrow> nat" where
  "am_num_wires g = (am_num_addends g + 3) * am_num_ops g + am_num_limbs g * am_num_ops g"
definition am_num_constraints :: "AddManyGate \<Rightarrow> nat" where
  "am_num_constraints g = am_num_ops g * (3 + am_num_limbs g)"

lemmas am_routed_defs = am_wire_ith_op_jth_addend_def am_wire_ith_carry_def
  am_wire_ith_output_result_def am_wire_ith_output_carry_def

definition U16AddManyGate :: "nat \<Rightarrow> nat \<Rightarrow> AddManyGate" where
  "U16AddManyGate num_addends num_ops =
     \<lparr>am_base_bits = 16, am_num_addends = num_addends, am_num_ops = num_ops\<rparr>"
definition U32AddManyGate :: "nat \<Rightarrow> nat \<Rightarrow> AddManyGate" where
  "U32AddManyGate num_addends num_ops =
     \<lparr>am_base_bits = 32, am_num_addends = num_addends, am_num_ops = num_ops\<rparr>"

section \<open>Evaluation routines\<close>

definition am_eval_op :: "AddManyGate \<Rightarrow> (nat \<Rightarrow> 'f::comm_ring_1) \<Rightarrow> nat \<Rightarrow> 'f list" where
  "am_eval_op g local_wires i =
    (let addends = map (\<lambda>j. local_wires (am_wire_ith_op_jth_addend g i j)) [0..<am_num_addends g];
         carry = local_wires (am_wire_ith_carry g i);
         computed_output = foldl (+) 0 addends + carry;
         output_result = local_wires (am_wire_ith_output_result g i);
         output_carry = local_wires (am_wire_ith_output_carry g i);
         combined_output = output_carry * of_nat (2 ^ am_base_bits g) + output_result;
         (products, combined_result_limbs, combined_carry_limbs) =
           limb_loop (of_nat (2 ^ am_limb_bits)) (2 ^ am_limb_bits) (am_num_result_limbs g)
             (\<lambda>j. local_wires (am_wire_ith_output_jth_limb g i j)) (rev [0..<am_num_limbs g])
     in [combined_output - computed_output] @ products
        @ [combined_result_limbs - output_result, combined_carry_limbs - output_carry])"

definition am_eval_unfiltered :: "AddManyGate \<Rightarrow> (nat \<Rightarrow> 'f::comm_ring_1) \<Rightarrow> 'f list" where
  "am_eval_unfiltered g local_wires = concat (map (am_eval_op g local_wires) [0..<am_num_ops g])"

text \<open>\<open>eval_unfiltered_base_one\<close>: the same text as \<open>eval_unfiltered\<close>, over the base field.\<close>

definition am_eval_base_one_op :: "AddManyGate \<Rightarrow> (nat \<Rightarrow> 'f::comm_ring_1) \<Rightarrow> nat \<Rightarrow> 'f list" where
  "am_eval_base_one_op g local_wires i =
    (let addends = map (\<lambda>j. local_wires (am_wire_ith_op_jth_addend g i j)) [0..<am_num_addends g];
         carry = local_wires (am_wire_ith_carry g i);
         computed_output = foldl (+) 0 addends + carry;
         output_result = local_wires (am_wire_ith_output_result g i);
         output_carry = local_wires (am_wire_ith_output_carry g i);
         combined_output = output_carry * of_nat (2 ^ am_base_bits g) + output_result;
         (products, combined_result_limbs, combined_carry_limbs) =
           limb_loop (of_nat (2 ^ am_limb_bits)) (2 ^ am_limb_bits) (am_num_result_limbs g)
             (\<lambda>j. local_wires (am_wire_ith_output_jth_limb g i j)) (rev [0..<am_num_limbs g])
     in [combined_output - computed_output] @ products
        @ [combined_result_limbs - output_result, combined_carry_limbs - output_carry])"

definition am_eval_unfiltered_base_one :: "AddManyGate \<Rightarrow> (nat \<Rightarrow> 'f::comm_ring_1) \<Rightarrow> 'f list" where
  "am_eval_unfiltered_base_one g local_wires =
     concat (map (am_eval_base_one_op g local_wires) [0..<am_num_ops g])"

text \<open>\<open>eval_unfiltered_circuit\<close>: the sum starts from the carry.\<close>

definition am_eval_circuit_op :: "AddManyGate \<Rightarrow> (nat \<Rightarrow> 'f::comm_ring_1) \<Rightarrow> nat \<Rightarrow> 'f list" where
  "am_eval_circuit_op g local_wires i =
    (let addends = map (\<lambda>j. local_wires (am_wire_ith_op_jth_addend g i j)) [0..<am_num_addends g];
         carry = local_wires (am_wire_ith_carry g i);
         computed_output = foldl (+) carry addends;
         output_result = local_wires (am_wire_ith_output_result g i);
         output_carry = local_wires (am_wire_ith_output_carry g i);
         combined_output = output_carry * of_nat (2 ^ am_base_bits g) + output_result;
         base = of_nat (2 ^ am_limb_bits);
         (products, combined_result_limbs, combined_carry_limbs) =
           foldl (\<lambda>(constraints, low, high) j.
               let this_limb = local_wires (am_wire_ith_output_jth_limb g i j);
                   product = circuit_range_product (2 ^ am_limb_bits) this_limb
               in if j < am_num_result_limbs g then (constraints @ [product], base * low + this_limb, high)
                  else (constraints @ [product], low, base * high + this_limb))
             ([], 0, 0) (rev [0..<am_num_limbs g])
     in [combined_output - computed_output] @ products
        @ [combined_result_limbs - output_result, combined_carry_limbs - output_carry])"

definition am_eval_unfiltered_circuit :: "AddManyGate \<Rightarrow> (nat \<Rightarrow> 'f::comm_ring_1) \<Rightarrow> 'f list" where
  "am_eval_unfiltered_circuit g local_wires =
     concat (map (am_eval_circuit_op g local_wires) [0..<am_num_ops g])"

text \<open>\<open>eval_unfiltered_base_batch\<close>: the first chunk is built up from the carry in place.\<close>

definition am_batch_sum :: "AddManyGate \<Rightarrow> nat \<Rightarrow> (nat \<Rightarrow> 'f::comm_ring_1) \<Rightarrow> nat \<Rightarrow> 'f list" where
  "am_batch_sum g n wires i =
    foldl (\<lambda>out j. map (\<lambda>p. out ! p + batch_point n wires p (am_wire_ith_op_jth_addend g i j)) [0..<n])
      (map (\<lambda>p. batch_point n wires p (am_wire_ith_carry g i)) [0..<n]) [0..<am_num_addends g]"

definition am_eval_batch_op ::
  "AddManyGate \<Rightarrow> nat \<Rightarrow> (nat \<Rightarrow> 'f::comm_ring_1) \<Rightarrow> nat \<Rightarrow> 'f list list" where
  "am_eval_batch_op g n wires i =
    (let output_result = (\<lambda>p. batch_point n wires p (am_wire_ith_output_result g i));
         output_carry = (\<lambda>p. batch_point n wires p (am_wire_ith_output_carry g i));
         out = am_batch_sum g n wires i;
         (chunks, combined_result, combined_carry) =
           batch_limb_loop (of_nat (2 ^ am_limb_bits)) (am_num_result_limbs g) n
             (\<lambda>p j. batch_point n wires p (am_wire_ith_output_jth_limb g i j)) (rev [0..<am_num_limbs g])
     in map (\<lambda>p. output_carry p * of_nat (2 ^ am_base_bits g) + output_result p - out ! p) [0..<n]
      # chunks
      @ [map (\<lambda>p. combined_result ! p - output_result p) [0..<n],
         map (\<lambda>p. combined_carry ! p - output_carry p) [0..<n]])"

definition am_eval_unfiltered_base_batch ::
  "AddManyGate \<Rightarrow> nat \<Rightarrow> (nat \<Rightarrow> 'f::comm_ring_1) \<Rightarrow> 'f list list" where
  "am_eval_unfiltered_base_batch g n wires =
     concat (map (am_eval_batch_op g n wires) [0..<am_num_ops g])"

text \<open>\<open>eval_unfiltered_base_batch_accumulate\<close>\<close>

definition am_accumulate_op ::
  "AddManyGate \<Rightarrow> nat \<Rightarrow> (nat \<Rightarrow> 'f::comm_ring_1) \<Rightarrow> nat \<Rightarrow> 'f list list" where
  "am_accumulate_op g n wires i =
    (let output_result = (\<lambda>p. batch_point n wires p (am_wire_ith_output_result g i));
         output_carry = (\<lambda>p. batch_point n wires p (am_wire_ith_output_carry g i));
         scratch = am_batch_sum g n wires i;
         limb = (\<lambda>p j. batch_point n wires p (am_wire_ith_output_jth_limb g i j));
         base_limb = of_nat (2 ^ am_limb_bits);
         result = batch_horner base_limb n limb (rev [0..<am_num_result_limbs g]);
         carry = batch_horner base_limb n limb (rev [am_num_result_limbs g..<am_num_limbs g])
     in map (\<lambda>p. output_carry p * of_nat (2 ^ am_base_bits g) + output_result p - scratch ! p) [0..<n]
      # map (\<lambda>j. map (\<lambda>p. range_product4 (limb p j)) [0..<n]) (rev [0..<am_num_limbs g])
      @ [map (\<lambda>p. result ! p - output_result p) [0..<n], map (\<lambda>p. carry ! p - output_carry p) [0..<n]])"

definition am_accumulate_scratches ::
  "AddManyGate \<Rightarrow> nat \<Rightarrow> (nat \<Rightarrow> 'f::comm_ring_1) \<Rightarrow> 'f list list" where
  "am_accumulate_scratches g n wires = concat (map (am_accumulate_op g n wires) [0..<am_num_ops g])"

definition am_eval_unfiltered_base_batch_accumulate ::
  "AddManyGate \<Rightarrow> nat \<Rightarrow> (nat \<Rightarrow> 'f::comm_ring_1) \<Rightarrow> 'f list \<Rightarrow> 'f list \<Rightarrow> 'f list option" where
  "am_eval_unfiltered_base_batch_accumulate g n wires filters combined =
     accumulate_checked (am_num_constraints g) n (am_accumulate_scratches g n wires) filters combined"

section \<open>The witness generator\<close>

fun am_split_limbs :: "nat \<Rightarrow> nat \<Rightarrow> nat list" where
  "am_split_limbs 0 val = []"
| "am_split_limbs (Suc k) val = val mod 2 ^ am_limb_bits # am_split_limbs k (val div 2 ^ am_limb_bits)"

definition am_run_once :: "AddManyGate \<Rightarrow> (nat \<Rightarrow> gf) \<Rightarrow> nat \<Rightarrow> (nat \<times> gf) list" where
  "am_run_once g get_local_wire i =
    (let addends_sum = foldl (\<lambda>acc j. acc + get_local_wire (am_wire_ith_op_jth_addend g i j)) 0
           [0..<am_num_addends g];
         carry = get_local_wire (am_wire_ith_carry g i);
         output_u64 = to_canonical_u64 (addends_sum + carry);
         output_carry_u64 = output_u64 div 2 ^ am_base_bits g;
         output_result_u64 = output_u64 mod 2 ^ am_base_bits g
     in [(am_wire_ith_output_carry g i, of_nat output_carry_u64),
         (am_wire_ith_output_result g i, of_nat output_result_u64)]
        @ map (\<lambda>(j, l). (am_wire_ith_output_jth_limb g i j, of_nat l))
            (enumerate 0 (am_split_limbs (am_num_result_limbs g) output_result_u64))
        @ map (\<lambda>(j, l). (am_wire_ith_output_jth_limb g i (am_num_result_limbs g + j), of_nat l))
            (enumerate 0 (am_split_limbs am_num_carry_limbs output_carry_u64)))"

section \<open>The two gates\<close>

text \<open>
  The definitions above are the routines of \<open>add_many_u32.rs\<close> with the width taken from the gate;
  \<open>add_many_u16.rs\<close> has the same text at 16 bits.
\<close>

definition u16_add_many_eval_unfiltered :: "nat \<Rightarrow> nat \<Rightarrow> (nat \<Rightarrow> 'f::comm_ring_1) \<Rightarrow> 'f list" where
  "u16_add_many_eval_unfiltered num_addends num_ops = am_eval_unfiltered (U16AddManyGate num_addends num_ops)"
definition u16_add_many_eval_unfiltered_base_batch :: "nat \<Rightarrow> nat \<Rightarrow> nat \<Rightarrow> (nat \<Rightarrow> 'f::comm_ring_1) \<Rightarrow> 'f list list" where
  "u16_add_many_eval_unfiltered_base_batch num_addends num_ops = am_eval_unfiltered_base_batch (U16AddManyGate num_addends num_ops)"
definition u16_add_many_eval_unfiltered_base_batch_accumulate :: "nat \<Rightarrow> nat \<Rightarrow> nat \<Rightarrow> (nat \<Rightarrow> 'f::comm_ring_1) \<Rightarrow> 'f list \<Rightarrow> 'f list \<Rightarrow> 'f list option" where
  "u16_add_many_eval_unfiltered_base_batch_accumulate num_addends num_ops = am_eval_unfiltered_base_batch_accumulate (U16AddManyGate num_addends num_ops)"
definition u16_add_many_eval_unfiltered_base_one :: "nat \<Rightarrow> nat \<Rightarrow> (nat \<Rightarrow> 'f::comm_ring_1) \<Rightarrow> 'f list" where
  "u16_add_many_eval_unfiltered_base_one num_addends num_ops = am_eval_unfiltered_base_one (U16AddManyGate num_addends num_ops)"
definition u16_add_many_eval_unfiltered_circuit :: "nat \<Rightarrow> nat \<Rightarrow> (nat \<Rightarrow> 'f::comm_ring_1) \<Rightarrow> 'f list" where
  "u16_add_many_eval_unfiltered_circuit num_addends num_ops = am_eval_unfiltered_circuit (U16AddManyGate num_addends num_ops)"
definition u16_add_many_run_once :: "nat \<Rightarrow> nat \<Rightarrow> (nat \<Rightarrow> gf) \<Rightarrow> nat \<Rightarrow> (nat \<times> gf) list" where
  "u16_add_many_run_once num_addends num_ops = am_run_once (U16AddManyGate num_addends num_ops)"

section \<open>The routines agree\<close>

definition am_op_constraints ::
  "nat \<Rightarrow> nat \<Rightarrow> (nat \<Rightarrow> 'f::comm_ring_1) \<Rightarrow> 'f list \<Rightarrow> 'f \<Rightarrow> 'f \<Rightarrow> 'f \<Rightarrow> 'f list" where
  "am_op_constraints bits limbs limb addends carry result output_carry =
     [output_carry * of_nat (2 ^ bits) + result - (sum_list addends + carry)]
     @ map (\<lambda>j. range_product (2 ^ am_limb_bits) (limb j)) (rev [0..<limbs + am_num_carry_limbs])
     @ [le_value (of_nat (2 ^ am_limb_bits)) (map limb [0..<limbs]) - result,
        le_value (of_nat (2 ^ am_limb_bits)) (map limb [limbs..<limbs + am_num_carry_limbs]) - output_carry]"

abbreviation am_op_at :: "AddManyGate \<Rightarrow> (nat \<Rightarrow> 'f::comm_ring_1) \<Rightarrow> nat \<Rightarrow> 'f list" where
  "am_op_at g w i \<equiv> am_op_constraints (am_base_bits g) (am_num_result_limbs g)
     (\<lambda>j. w (am_wire_ith_output_jth_limb g i j))
     (map (\<lambda>j. w (am_wire_ith_op_jth_addend g i j)) [0..<am_num_addends g])
     (w (am_wire_ith_carry g i)) (w (am_wire_ith_output_result g i)) (w (am_wire_ith_output_carry g i))"

lemma foldl_plus: "foldl (+) (a::'f::comm_ring_1) xs = a + sum_list xs"
  by (induction xs arbitrary: a) (simp_all add: add.assoc)

lemma am_eval_op_eq: "am_eval_op g w i = am_op_at g w i"
  unfolding am_eval_op_def am_op_constraints_def Let_def am_num_limbs_def
  by (subst limb_loop_eq) (simp_all add: foldl_plus)

lemma am_range_product: "range_product (2 ^ am_limb_bits) x = range_product4 x"
  by (simp add: am_limb_bits_def range_product_4)

lemma am_eval_base_one_op_eq: "am_eval_base_one_op g = am_eval_op g"
  unfolding am_eval_base_one_op_def am_eval_op_def ..

lemma am_eval_circuit_op_eq: "am_eval_circuit_op g = am_eval_op g"
  unfolding am_eval_circuit_op_def circuit_range_product_eq am_eval_op_def limb_loop_def fun_eq_iff foldl_plus
  by (simp only: Let_def add_0_left add_0_right add.commute [of _ "sum_list _"] simp_thms)

lemma am_batch_sum_eq:
  "am_batch_sum g n wires i = map (\<lambda>p. sum_list (map (\<lambda>j. batch_point n wires p (am_wire_ith_op_jth_addend g i j))
      [0..<am_num_addends g]) + batch_point n wires p (am_wire_ith_carry g i)) [0..<n]"
proof -
  have "foldl (\<lambda>out j. map (\<lambda>p. out ! p + a p j) [0..<n]) (map f [0..<n]) js
      = map (\<lambda>p. sum_list (map (a p) js) + f p) [0..<n]" for a :: "nat \<Rightarrow> nat \<Rightarrow> 'f::comm_ring_1" and f js
  proof (induction js arbitrary: f)
    case (Cons j js)
    have eq: "map (\<lambda>p. map f [0..<n] ! p + a p j) [0..<n] = map (\<lambda>p. f p + a p j) [0..<n]" by simp
    show ?case unfolding foldl_Cons eq Cons.IH by (simp add: algebra_simps)
  qed simp
  then show ?thesis unfolding am_batch_sum_def .
qed

lemma am_batch_op_chunked:
  "chunked n (\<lambda>p. am_eval_op g (batch_point n wires p) i) (am_eval_batch_op g n wires i)"
  unfolding am_eval_batch_op_def am_eval_op_eq am_op_constraints_def Let_def am_range_product
    am_num_limbs_def am_batch_sum_eq
  by (subst batch_limb_loop_eq, simp)
    (unfold prod.case append_Cons append_Nil, (intro chunked_intros; simp))

lemma am_accumulate_op_chunked:
  "chunked n (\<lambda>p. am_eval_op g (batch_point n wires p) i) (am_accumulate_op g n wires i)"
  unfolding am_accumulate_op_def am_eval_op_eq am_op_constraints_def Let_def am_range_product batch_horner_eq
    am_num_limbs_def am_batch_sum_eq
  by (unfold append_Cons append_Nil, (intro chunked_intros; simp))

interpretation am: gate_variants "am_num_constraints g" "am_eval_unfiltered g"
  "am_eval_unfiltered_circuit g" "am_eval_unfiltered_base_one g"
  "am_eval_unfiltered_base_batch g" "am_accumulate_scratches g" for g
  unfolding am_num_constraints_def am_eval_unfiltered_def [abs_def] am_eval_unfiltered_circuit_def [abs_def]
    am_eval_unfiltered_base_one_def [abs_def] am_eval_unfiltered_base_batch_def [abs_def]
    am_accumulate_scratches_def [abs_def]
  by (rule gate_variants_concat)
    (simp_all add: am_eval_circuit_op_eq am_eval_base_one_op_eq am_batch_op_chunked am_accumulate_op_chunked,
      simp add: am_eval_op_eq am_op_constraints_def am_num_limbs_def)


section \<open>Soundness and completeness of the constraints\<close>

definition am_width_ok :: "nat \<Rightarrow> bool" where
  "am_width_ok bits \<longleftrightarrow> even bits \<and> bits \<le> 58"

lemma am_limb_numbers: "am_num_carry_limbs = 2" "even bits \<Longrightarrow> ceil_div_usize bits am_limb_bits = bits div 2"
  by (simp_all add: am_num_carry_limbs_def LOG2_MAX_NUM_ADDENDS_def am_limb_bits_def ceil_div_usize_def)

lemma am_width:
  assumes "am_width_ok bits"
  shows "16 * 2 ^ bits < p_nat" and "4 ^ (bits div 2) = (2 ^ bits :: nat)"
proof -
  have "(2::nat) ^ bits \<le> 2 ^ 58"
    using assms by (auto simp: am_width_ok_def intro: power_increasing simp del: power_numeral)
  then show "16 * 2 ^ bits < p_nat" by simp
  have "(4::nat) ^ (bits div 2) = (2 ^ 2) ^ (bits div 2)" by simp
  also have "\<dots> = 2 ^ bits"
    using assms by (simp only: power_mult [symmetric]) (simp add: am_width_ok_def)
  finally show "4 ^ (bits div 2) = (2 ^ bits :: nat)" .
qed

lemma am_op_sound:
  fixes carry result oc :: gf
  assumes zero: "\<forall>c\<in>set (am_op_constraints bits (bits div 2) limb addends carry result oc). c = 0"
    and w: "am_width_ok bits"
  shows "to_canonical_u64 result < 2 ^ bits" and "to_canonical_u64 oc < 16"
    and "to_canonical_u64 (sum_list addends + carry)
      = to_canonical_u64 oc * 2 ^ bits + to_canonical_u64 result"
proof -
  let ?k = "bits div 2"
  have eq: "oc * of_nat (2 ^ bits) + result = sum_list addends + carry"
    and range: "\<forall>j\<in>{0..<?k + 2}. range_product 4 (limb j) = 0"
    and res: "result = le_value 4 (map limb [0..<?k])" and oc: "oc = le_value 4 (map limb [?k..<?k + 2])"
    using zero by (auto simp: am_op_constraints_def am_limb_bits_def am_limb_numbers(1)
        simp del: of_nat_power upt_Suc add_2_eq_Suc')
  show r: "to_canonical_u64 result < 2 ^ bits"
    using limb_range_value [OF _ _ res] range am_width [OF w] by simp
  show c: "to_canonical_u64 oc < 16"
    using limb_range_value [OF _ _ oc] range by (simp del: upt_Suc)
  let ?N = "to_canonical_u64 oc * 2 ^ bits + to_canonical_u64 result"
  have "to_canonical_u64 oc * 2 ^ bits \<le> 15 * 2 ^ bits" using c by (intro mult_le_mono1) simp
  then have "?N < p_nat" using r am_width(1) [OF w] by linarith
  moreover have "of_nat ?N = sum_list addends + carry" using eq by simp
  ultimately show "to_canonical_u64 (sum_list addends + carry) = ?N"
    by (metis to_canonical_of_nat_small)
qed

lemma am_split_limbs_eq: "am_split_limbs k x = le_digits 4 k x"
  by (induction k arbitrary: x) (simp_all add: am_limb_bits_def)

lemma am_op_complete:
  fixes carry :: gf and bits :: nat and addends :: "gf list"
  defines "out \<equiv> to_canonical_u64 (sum_list addends + carry)"
  assumes w: "am_width_ok bits" and small: "out < 16 * 2 ^ bits"
    and limb: "\<And>j. j < bits div 2 \<Longrightarrow> limb j = of_nat (le_digits 4 (bits div 2) (out mod 2 ^ bits) ! j)"
    and climb: "\<And>j. j < 2 \<Longrightarrow> limb (bits div 2 + j) = of_nat (le_digits 4 2 (out div 2 ^ bits) ! j)"
  shows "\<forall>c\<in>set (am_op_constraints bits (bits div 2) limb addends carry
      (of_nat (out mod 2 ^ bits)) (of_nat (out div 2 ^ bits))). c = 0"
proof -
  let ?k = "bits div 2"
  have comb: "of_nat (out div 2 ^ bits) * of_nat (2 ^ bits) + of_nat (out mod 2 ^ bits) = sum_list addends + carry"
    unfolding of_nat_mult [symmetric] of_nat_add [symmetric] div_mult_mod_eq by (simp add: out_def)
  have low: "le_value 4 (map limb [0..<?k]) = of_nat (out mod 2 ^ bits)"
  proof -
    have "map limb [0..<?k] = map of_nat (le_digits 4 ?k (out mod 2 ^ bits))"
      by (rule nth_equalityI) (simp_all add: limb)
    then show ?thesis
      using of_nat_le_value [of 4 "le_digits 4 ?k (out mod 2 ^ bits)", symmetric] am_width(2) [OF w]
      by (simp add: le_value_digits)
  qed
  have high: "le_value 4 (map limb [?k..<?k + 2]) = of_nat (out div 2 ^ bits)"
  proof -
    have "map limb [?k..<?k + 2] = map of_nat (le_digits 4 2 (out div 2 ^ bits))"
      by (rule nth_equalityI) (simp_all add: climb del: upt_Suc)
    moreover have "out div 2 ^ bits < 4 ^ 2"
      using small by (simp add: less_mult_imp_div_less)
    ultimately show ?thesis
      using of_nat_le_value [of 4 "le_digits 4 2 (out div 2 ^ bits)", symmetric]
      by (simp add: le_value_digits)
  qed
  have "range_product 4 (limb j) = 0" if "j < ?k + 2" for j
  proof (cases "j < ?k")
    case True
    then show ?thesis using le_digits_range [OF True, of "out mod 2 ^ bits"] limb [OF True] by (simp add: range_product_4_zero)
  next
    case False
    then have j: "j - ?k < 2" "?k + (j - ?k) = j" using that by linarith+
    then show ?thesis using le_digits_range [OF j(1), of "out div 2 ^ bits"] climb [OF j(1)]
      by (simp add: range_product_4_zero)
  qed
  with comb low high show ?thesis
    by (auto simp: am_op_constraints_def am_limb_bits_def am_limb_numbers(1)
        simp del: of_nat_power upt_Suc add_2_eq_Suc')
qed


section \<open>Rows\<close>

lemma am_row_op:
  assumes "\<forall>c\<in>set (am_eval_unfiltered g w). c = 0" "i < am_num_ops g"
  shows "\<forall>c\<in>set (am_op_at g w i). c = 0"
  using assms by (auto simp: am_eval_unfiltered_def am_eval_op_eq)

lemma am_limb_wire_inj: "inj (am_wire_ith_output_jth_limb g i)"
  by (auto simp: inj_def am_wire_ith_output_jth_limb_def)

lemma am_limb_wire_routed:
  assumes "i < am_num_ops g" "k < am_num_addends g + 3"
  shows "(am_num_addends g + 3) * i + k \<noteq> am_wire_ith_output_jth_limb g i' j"
proof -
  have "(am_num_addends g + 3) * i + (am_num_addends g + 3) \<le> (am_num_addends g + 3) * am_num_ops g"
    using assms(1) by (metis Suc_leI mult_Suc_right mult_le_mono2 add.commute)
  then show ?thesis using assms(2) unfolding am_wire_ith_output_jth_limb_def by linarith
qed

lemma foldl_plus_map: "foldl (\<lambda>acc j. acc + f j) (a::'f::comm_ring_1) js = a + sum_list (map f js)"
  by (induction js arbitrary: a) (simp_all add: add.assoc)

lemma am_generator_complete:
  fixes wires :: "nat \<Rightarrow> gf" and g i
  defines "total_sum \<equiv> sum_list (map (\<lambda>j. wires (am_wire_ith_op_jth_addend g i j)) [0..<am_num_addends g])
      + wires (am_wire_ith_carry g i)"
  assumes i: "i < am_num_ops g" and w: "am_width_ok (am_base_bits g)"
    and small: "to_canonical_u64 total_sum < 16 * 2 ^ am_base_bits g"
  shows "\<forall>c\<in>set (am_eval_op g (set_wires (am_run_once g wires i) wires) i). c = 0"
proof -
  let ?w = "set_wires (am_run_once g wires i) wires"
  let ?b = "am_base_bits g" and ?m = "am_num_addends g" and ?L = "am_wire_ith_output_jth_limb g i"
  define out where "out = to_canonical_u64 total_sum"
  define w2 where "w2 = wires(am_wire_ith_output_carry g i := of_nat (out div 2 ^ ?b),
    am_wire_ith_output_result g i := of_nat (out mod 2 ^ ?b))"
  have k: "am_num_result_limbs g = ?b div 2"
    using w by (simp add: am_num_result_limbs_def am_limb_numbers am_width_ok_def)
  define low where "low = map (\<lambda>(j, l). (?L j, of_nat l :: gf)) (enumerate 0 (le_digits 4 (?b div 2) (out mod 2 ^ ?b)))"
  define high where "high = map (\<lambda>(j, l). (?L (?b div 2 + j), of_nat l :: gf)) (enumerate 0 (le_digits 4 2 (out div 2 ^ ?b)))"
  have run: "?w = set_wires high (set_wires low w2)"
    unfolding am_run_once_def Let_def foldl_plus_map add_0_left total_sum_def [symmetric] out_def [symmetric]
      am_split_limbs_eq k am_limb_numbers low_def high_def w2_def by simp
  have routed: "?w ((?m + 3) * i + k) = w2 ((?m + 3) * i + k)" if "k < ?m + 3" for k
  proof -
    have "(?m + 3) * i + k \<notin> fst ` set low" "(?m + 3) * i + k \<notin> fst ` set high"
      using am_limb_wire_routed [OF i that] by (auto simp: low_def high_def image_def in_set_enumerate_eq)
    then show ?thesis unfolding run by (simp add: set_wires_other)
  qed
  have injk: "inj (\<lambda>j. ?L (?b div 2 + j))" by (auto simp: inj_def am_wire_ith_output_jth_limb_def)
  have climb: "?w (?L (?b div 2 + j)) = of_nat (le_digits 4 2 (out div 2 ^ ?b) ! j)" if "j < 2" for j
    unfolding run high_def using set_wires_enumerate [OF injk, where h = of_nat and m = 0] that by simp
  have limb: "?w (?L j) = of_nat (le_digits 4 (?b div 2) (out mod 2 ^ ?b) ! j)" if "j < ?b div 2" for j
  proof -
    have "?L j \<notin> fst ` set high"
      using that by (auto simp: high_def image_def in_set_enumerate_eq dest: injD [OF am_limb_wire_inj])
    then have "?w (?L j) = set_wires low w2 (?L j)" unfolding run by (rule set_wires_other)
    then show ?thesis
      unfolding low_def using that set_wires_enumerate [OF am_limb_wire_inj, where h = of_nat and m = 0] by simp
  qed
  have addends: "map (\<lambda>j. ?w (am_wire_ith_op_jth_addend g i j)) [0..<?m]
      = map (\<lambda>j. wires (am_wire_ith_op_jth_addend g i j)) [0..<?m]"
    using routed by (simp add: am_routed_defs w2_def add.assoc)
  have "?w (am_wire_ith_carry g i) = wires (am_wire_ith_carry g i)"
    "?w (am_wire_ith_output_result g i) = of_nat (out mod 2 ^ ?b)"
    "?w (am_wire_ith_output_carry g i) = of_nat (out div 2 ^ ?b)"
    using routed [of ?m] routed [of "?m + 1"] routed [of "?m + 2"]
    by (simp_all add: am_routed_defs w2_def add.assoc)
  then show ?thesis
    unfolding am_eval_op_eq k addends
    using am_op_complete [OF w small [unfolded total_sum_def], of "\<lambda>j. ?w (?L j)"] limb climb
    by (simp add: out_def total_sum_def)
qed

definition am_op_wires :: "AddManyGate \<Rightarrow> (nat \<Rightarrow> 'f) \<Rightarrow> nat \<Rightarrow> nat \<Rightarrow> 'f" where
  "am_op_wires g w i k =
     (if k < am_num_addends g + 3 then w ((am_num_addends g + 3) * i + k)
      else w ((am_num_addends g + 3) * am_num_ops g + am_num_limbs g * i + (k - (am_num_addends g + 3))))"

lemma am_single_op: "am_eval_unfiltered \<lparr>am_base_bits = bits, am_num_addends = m, am_num_ops = 1\<rparr> w
    = am_op_at \<lparr>am_base_bits = bits, am_num_addends = m, am_num_ops = 1\<rparr> w 0"
  by (simp add: am_eval_unfiltered_def am_eval_op_eq)

lemma am_op_wires_addends:
  "map (am_op_wires g w i) [0..<am_num_addends g] = map (\<lambda>j. w ((am_num_addends g + 3) * i + j)) [0..<am_num_addends g]"
  by (simp add: am_op_wires_def)

lemma am_op_wires_beyond:
  "am_op_wires g w i (am_num_addends g + (3 + j)) = w ((am_num_addends g + 3) * am_num_ops g + am_num_limbs g * i + j)"
  "am_op_wires g w i (am_num_addends g) = w ((am_num_addends g + 3) * i + am_num_addends g)"
  "am_op_wires g w i (Suc (am_num_addends g)) = w (Suc ((am_num_addends g + 3) * i + am_num_addends g))"
  "am_op_wires g w i (Suc (Suc (am_num_addends g))) = w (Suc (Suc ((am_num_addends g + 3) * i + am_num_addends g)))"
  by (simp_all add: am_op_wires_def)

lemma am_rows_decompose:
  "am_eval_unfiltered g w
     = concat (map (\<lambda>i. am_eval_unfiltered
           \<lparr>am_base_bits = am_base_bits g, am_num_addends = am_num_addends g, am_num_ops = 1\<rparr> (am_op_wires g w i))
         [0..<am_num_ops g])"
  unfolding am_single_op unfolding am_eval_unfiltered_def
  by (intro arg_cong [where f = concat] map_cong refl)
    (simp add: am_eval_op_eq am_op_wires_addends am_op_wires_beyond am_routed_defs
      am_wire_ith_output_jth_limb_def am_num_limbs_def am_num_result_limbs_def add.assoc)

section \<open>The gadget operation\<close>

definition am_slot :: "nat \<Rightarrow> target list \<Rightarrow> target \<Rightarrow> (target \<times> target) circ" where
  "am_slot bits addends carry =
    circ_bind (gate_slot
        (am_eval_unfiltered \<lparr>am_base_bits = bits, am_num_addends = length addends, am_num_ops = 1\<rparr>)
        (addends @ [carry])
        (2 + (ceil_div_usize bits am_limb_bits + am_num_carry_limbs))) (\<lambda>free.
    circ_return (free ! 0, free ! 1))"

lemma am_slot_row:
  assumes "even bits"
  shows "am_eval_unfiltered \<lparr>am_base_bits = bits, am_num_addends = length xs, am_num_ops = 1\<rparr>
      (\<lambda>k. ((xs @ [c]) @ r # oc # limbs) ! k)
     = am_op_constraints bits (bits div 2) (\<lambda>j. limbs ! j) xs c r oc"
proof -
  have "map (\<lambda>j. ((xs @ [c]) @ r # oc # limbs) ! j) [0..<length xs] = xs"
    by (rule nth_equalityI) (simp_all add: nth_append)
  moreover have "((xs @ [c]) @ r # oc # limbs) ! (length xs + 3 + j) = limbs ! j" for j
    by (simp add: nth_append numeral_eq_Suc)
  ultimately show ?thesis
    unfolding am_single_op
    by (simp add: am_routed_defs am_wire_ith_output_jth_limb_def am_num_limbs_def am_num_result_limbs_def
        am_limb_numbers assms nth_append)
qed

lemma implements_am_slot:
  assumes w: "am_width_ok bits"
    and small: "to_canonical_u64 (sum_list (map tval addends) + tval carry) < 16 * 2 ^ bits"
  shows "implements (am_slot bits addends carry) (\<lambda>(result, output_carry).
     to_canonical_u64 (tval result) = to_canonical_u64 (sum_list (map tval addends) + tval carry) mod 2 ^ bits \<and>
     to_canonical_u64 (tval output_carry)
       = to_canonical_u64 (sum_list (map tval addends) + tval carry) div 2 ^ bits)"
proof -
  define out where "out = to_canonical_u64 (sum_list (map tval addends) + tval carry)"
  define Q :: "gf list \<Rightarrow> bool" where
    "Q vs \<longleftrightarrow> to_canonical_u64 (vs ! 0) = out mod 2 ^ bits \<and> to_canonical_u64 (vs ! 1) = out div 2 ^ bits" for vs
  have even: "even bits" using w by (simp add: am_width_ok_def)
  let ?C = "am_eval_unfiltered \<lparr>am_base_bits = bits, am_num_addends = length (map tval addends), am_num_ops = 1\<rparr>"
  have "implements (gate_slot ?C (addends @ [carry]) (2 + (bits div 2 + 2)))
      (\<lambda>free. length free = 2 + (bits div 2 + 2) \<and> Q (map tval free))"
  proof (rule implements_gate_slot)
    fix vs assume len: "length vs = 2 + (bits div 2 + 2)"
      and zero: "\<forall>c\<in>set (?C (\<lambda>k. (map tval (addends @ [carry]) @ vs) ! k)). c = 0"
    obtain r oc limbs where vs: "vs = r # oc # limbs"
      using len by (metis add_2_eq_Suc length_Suc_conv)
    have "\<forall>c\<in>set (am_op_constraints bits (bits div 2) (\<lambda>j. limbs ! j) (map tval addends) (tval carry) r oc). c = 0"
      using zero unfolding vs map_append list.map am_slot_row [OF even] .
    from am_op_sound [OF this w] show "Q vs" by (simp add: Q_def vs out_def)
  next
    let ?vs = "of_nat (out mod 2 ^ bits) # of_nat (out div 2 ^ bits)
      # map of_nat (le_digits 4 (bits div 2) (out mod 2 ^ bits) @ le_digits 4 2 (out div 2 ^ bits))"
    show "length ?vs = 2 + (bits div 2 + 2)" by simp
    show "\<forall>c\<in>set (?C (\<lambda>k. (map tval (addends @ [carry]) @ ?vs) ! k)). c = 0"
      unfolding map_append list.map am_slot_row [OF even] unfolding out_def
      by (rule am_op_complete [OF w small]) (simp_all add: nth_append)
  qed
  then show ?thesis
    unfolding am_slot_def am_limb_numbers(1) am_limb_numbers(2) [OF even] length_map
    by (rule implements_bind) (auto intro!: implements_return simp: Q_def out_def)
qed


section \<open>Properties\<close>

text \<open>
  Soundness of the add-many gates at every even width up to 58 bits (16 and 32 in the code),
  for any number of addends: on a row on which all constraints vanish, the output is the canonical
  value of \<open>addends + carry\<close> modulo \<open>2 ^ bits\<close> and the output carry its quotient, which is below 16.
\<close>

theorem add_many_gate_sound:
  fixes w :: "nat \<Rightarrow> gf"
  assumes "\<forall>c\<in>set (am_eval_unfiltered g w). c = 0" and "i < am_num_ops g" and "am_width_ok (am_base_bits g)"
  defines "out \<equiv> to_canonical_u64 (sum_list (map (\<lambda>j. w (am_wire_ith_op_jth_addend g i j)) [0..<am_num_addends g])
      + w (am_wire_ith_carry g i))"
  shows "to_canonical_u64 (w (am_wire_ith_output_result g i)) = out mod 2 ^ am_base_bits g
    \<and> to_canonical_u64 (w (am_wire_ith_output_carry g i)) = out div 2 ^ am_base_bits g
    \<and> out < 16 * 2 ^ am_base_bits g"
proof -
  have k: "am_num_result_limbs g = am_base_bits g div 2"
    using assms(3) by (simp add: am_num_result_limbs_def am_limb_numbers am_width_ok_def)
  note s = am_op_sound [OF am_row_op [OF assms(1,2), unfolded k] assms(3)]
  have "to_canonical_u64 (w (am_wire_ith_output_carry g i)) * 2 ^ am_base_bits g \<le> 15 * 2 ^ am_base_bits g"
    using s(2) by (intro mult_le_mono1) simp
  then have "out < 16 * 2 ^ am_base_bits g" using s(1,3) unfolding out_def by linarith
  then show ?thesis using s unfolding out_def by simp
qed

definition am_example_gate :: AddManyGate where
  "am_example_gate = U32AddManyGate 3 1"

definition am_example_wires :: "nat \<Rightarrow> gf" where
  "am_example_wires k = (if k < 3 then of_nat (2 ^ 32 - 1) else if k = 3 then 1 else 0)"

definition am_example_row :: "nat \<Rightarrow> gf" where
  "am_example_row = set_wires (am_run_once am_example_gate am_example_wires 0) am_example_wires"

lemma am_example_gate_fields [simp]:
  "am_num_ops am_example_gate = 1" "am_base_bits am_example_gate = 32" "am_num_addends am_example_gate = 3"
  by (simp_all add: am_example_gate_def U32AddManyGate_def)

lemma am_example_width [simp]: "am_width_ok 32"
  by (simp add: am_width_ok_def)

lemma am_run_keeps_inputs:
  assumes "i < am_num_ops g" "k \<le> am_num_addends g"
  shows "set_wires (am_run_once g w i) w ((am_num_addends g + 3) * i + k) = w ((am_num_addends g + 3) * i + k)"
proof -
  have "(am_num_addends g + 3) * i + k \<notin> range (am_wire_ith_output_jth_limb g i)"
    using am_limb_wire_routed [OF assms(1), of k] assms(2) by auto
  then show ?thesis
    using assms(2)
    by (intro set_wires_other)
      (auto simp: am_run_once_def Let_def am_wire_ith_output_result_def am_wire_ith_output_carry_def
        image_def in_set_enumerate_eq)
qed

lemma am_example_row_inputs: "k \<le> 3 \<Longrightarrow> am_example_row k = am_example_wires k"
  using am_run_keeps_inputs [of 0 am_example_gate k am_example_wires] by (simp add: am_example_row_def)

lemma am_example_total:
  "to_canonical_u64 (sum_list (map am_example_wires [0..<3]) + am_example_wires 3) = 3 * (2 ^ 32 - 1) + 1"
  by (simp add: am_example_wires_def upt_rec)

lemma am_example_row_zero: "\<forall>c\<in>set (am_eval_unfiltered am_example_gate am_example_row). c = 0"
  using am_generator_complete [of 0 am_example_gate am_example_wires] am_example_total
  by (simp add: am_eval_unfiltered_def am_example_row_def am_routed_defs del: upt_rec_numeral)

theorem add_many_gate_sound_witness:
  "to_canonical_u64 (am_example_row 4) = 2 ^ 32 - 2 \<and> to_canonical_u64 (am_example_row 5) = 2"
proof -
  have row: "map am_example_row [0..<3] = map am_example_wires [0..<3]"
    by (simp add: am_example_row_inputs del: upt_rec_numeral)
  show ?thesis
    using add_many_gate_sound [OF am_example_row_zero, of 0] am_example_total am_example_row_inputs [of 3]
    by (simp add: am_routed_defs row del: upt_rec_numeral)
qed

text \<open>
  The evaluation routines of the add-many gates agree with \<open>eval_unfiltered\<close>; the base field
  routine is \<open>eval_unfiltered_base_one\<close>.
\<close>

theorem add_many_gate_routines_agree:
  fixes w wires :: "nat \<Rightarrow> 'f::comm_ring_1"
  shows "am_eval_unfiltered_circuit g w = am_eval_unfiltered g w
    \<and> am_eval_unfiltered_base_one g w = am_eval_unfiltered g w
    \<and> (\<forall>c<am_num_constraints g. \<forall>p<n. concat (am_eval_unfiltered_base_batch g n wires) ! (c * n + p)
        = am_eval_unfiltered g (batch_point n wires p) ! c)
    \<and> (0 < n \<longrightarrow> am_eval_unfiltered_base_batch_accumulate g n wires filters combined = Some combined'
        \<longrightarrow> length combined' = length combined
          \<and> (\<forall>c<am_num_constraints g. \<forall>p<n. combined' ! (c * n + p)
              = combined ! (c * n + p) + am_eval_unfiltered g (batch_point n wires p) ! c * filters ! p)
          \<and> (\<forall>k. am_num_constraints g * n \<le> k \<longrightarrow> k < length combined \<longrightarrow> combined' ! k = combined ! k))"
  unfolding am_eval_unfiltered_base_batch_accumulate_def by (rule am.routines_agree)

theorem add_many_gate_routines_agree_witness:
  "concat (am_eval_unfiltered_base_batch am_example_gate 2 am_example_wires) ! (20 * 2 + 1)
      = am_eval_unfiltered am_example_gate (batch_point 2 am_example_wires 1) ! 20
    \<and> (\<exists>combined'. am_eval_unfiltered_base_batch_accumulate am_example_gate 2 am_example_wires [1, 3] (replicate 42 0)
          = Some combined'
        \<and> combined' ! (20 * 2 + 1) = am_eval_unfiltered am_example_gate (batch_point 2 am_example_wires 1) ! 20 * 3)"
proof -
  have n: "am_num_constraints am_example_gate = 21"
    by (simp add: am_num_constraints_def am_num_limbs_def am_num_result_limbs_def am_limb_numbers)
  obtain combined' where c: "am_eval_unfiltered_base_batch_accumulate am_example_gate 2 am_example_wires [1, 3] (replicate 42 0)
      = Some combined'"
    using accumulate_checked_Some [of "[1, 3 :: gf]" 2 21 "replicate 42 0" "am_accumulate_scratches am_example_gate 2 am_example_wires"]
    by (auto simp: am_eval_unfiltered_base_batch_accumulate_def n)
  note agree = add_many_gate_routines_agree [of am_example_gate am_example_wires 2 am_example_wires "[1, 3]"
      "replicate 42 0" combined', unfolded n]
  have "\<forall>c<21. \<forall>p<2. combined' ! (c * 2 + p) = replicate 42 0 ! (c * 2 + p)
      + am_eval_unfiltered am_example_gate (batch_point 2 am_example_wires p) ! c * [1, 3] ! p"
    using agree c by (simp del: nth_replicate)
  from all_below_at [OF this, of 20 1]
  have "combined' ! (20 * 2 + 1) = replicate 42 0 ! (20 * 2 + 1)
      + am_eval_unfiltered am_example_gate (batch_point 2 am_example_wires 1) ! 20 * [1, 3] ! 1" by simp
  moreover have "concat (am_eval_unfiltered_base_batch am_example_gate 2 am_example_wires) ! (20 * 2 + 1)
      = am_eval_unfiltered am_example_gate (batch_point 2 am_example_wires 1) ! 20"
    using all_below_at [OF conjunct1 [OF conjunct2 [OF conjunct2 [OF agree]]], of 20 1] by simp
  ultimately show ?thesis using c by simp
qed

text \<open>
  Completeness of the add-many generator: when the sum is below \<open>2 ^ (bits + 4)\<close> the wires set
  by \<open>run_once\<close> satisfy the constraints of the operation, and the inputs are kept. By the soundness theorem
  no assignment satisfies them for a larger sum.
\<close>

theorem add_many_generator_complete:
  fixes w :: "nat \<Rightarrow> gf"
  assumes "i < am_num_ops g" and "am_width_ok (am_base_bits g)"
    and "to_canonical_u64 (sum_list (map (\<lambda>j. w (am_wire_ith_op_jth_addend g i j)) [0..<am_num_addends g])
      + w (am_wire_ith_carry g i)) < 16 * 2 ^ am_base_bits g"
  shows "(\<forall>c\<in>set (am_eval_op g (set_wires (am_run_once g w i) w) i). c = 0)
    \<and> (\<forall>k\<le>am_num_addends g. set_wires (am_run_once g w i) w (am_wire_ith_op_jth_addend g i k)
          = w (am_wire_ith_op_jth_addend g i k))"
  using am_generator_complete [OF assms] am_run_keeps_inputs [OF assms(1)]
  by (simp add: am_wire_ith_op_jth_addend_def)

theorem add_many_generator_complete_witness:
  "set (am_eval_op am_example_gate am_example_row 0) \<subseteq> {0}"
  using add_many_generator_complete [of 0 am_example_gate am_example_wires] am_example_total
  by (auto simp: am_example_row_def am_routed_defs del: upt_rec_numeral)

end
