(* ===== verification/Range_Check_Gate.thy ===== *)
theory Range_Check_Gate
  imports Add_Many_Gate
begin

text \<open>
  The gate \<open>RangeCheckGate\<close> of \<open>circuit/src/uint/range_check.rs\<close>: it bounds a value by
  \<open>2 ^ bit_size\<close> through base-4 limbs, the top limb being one bit wide when \<open>bit_size\<close> is odd. The
  builder operations of the same file, which collect the range checks of a circuit and place them at its
  end, are in \<open>Range_Check_Registry\<close>.
\<close>

section \<open>Weighted sums\<close>

text \<open>\<open>reduce_with_powers\<close> and its circuit version (\<open>plonky2/src/plonk/plonk_common.rs\<close>).\<close>

definition reduce_with_powers :: "'f::comm_ring_1 list \<Rightarrow> 'f \<Rightarrow> 'f" where
  "reduce_with_powers terms alpha = foldl (\<lambda>sum term. sum * alpha + term) 0 (rev terms)"

definition reduce_with_powers_ext_circuit :: "'f::comm_ring_1 list \<Rightarrow> 'f \<Rightarrow> 'f" where
  "reduce_with_powers_ext_circuit terms alpha = foldl (\<lambda>acc term. alpha * acc + term) 0 (rev terms)"

lemma reduce_with_powers_eq: "reduce_with_powers ts a = le_value a ts"
  by (simp add: reduce_with_powers_def le_value_foldl_rev')

lemma reduce_with_powers_ext_circuit_eq: "reduce_with_powers_ext_circuit ts a = le_value a ts"
  by (simp add: reduce_with_powers_ext_circuit_def le_value_foldl_rev)

text \<open>\<open>acc = arithmetic_extension(ONE, neg_i, acc, limb, acc)\<close>, that is \<open>acc * limb + (- i) * acc\<close>.\<close>

definition arithmetic_range_product :: "nat \<Rightarrow> 'f::comm_ring_1 \<Rightarrow> 'f" where
  "arithmetic_range_product iter limb = foldl (\<lambda>acc i. 1 * acc * limb + - of_nat i * acc) 1 [0..<iter]"

lemma arithmetic_range_product_eq: "arithmetic_range_product m = range_product m"
proof
  fix x :: 'a
  have "1 * acc * x + - of_nat i * acc = acc * (x - of_nat i)" for acc i by (simp add: algebra_simps)
  then show "arithmetic_range_product m x = range_product m x"
    using circuit_range_product_eq [of m x]
    by (simp add: arithmetic_range_product_def circuit_range_product_def)
qed

section \<open>The gate\<close>

record RangeCheckGate =
  rc_num_ops :: nat
  rc_bit_size :: nat

definition AUX_LIMB_BITS :: nat where "AUX_LIMB_BITS = 2"
definition BASE :: nat where "BASE = 2 ^ AUX_LIMB_BITS"

definition rc_config_num_ops :: "nat \<Rightarrow> nat \<Rightarrow> nat \<Rightarrow> nat" where
  "rc_config_num_ops num_wires num_routed_wires bit_size =
    (let routed_wires_per_op = 1;
         unrouted_wires_per_op = ceil_div_usize bit_size AUX_LIMB_BITS;
         wires_per_op = routed_wires_per_op + unrouted_wires_per_op
     in num_wires div min wires_per_op (num_routed_wires div routed_wires_per_op))"

definition rc_new_from_config :: "nat \<Rightarrow> nat \<Rightarrow> nat \<Rightarrow> RangeCheckGate" where
  "rc_new_from_config num_wires num_routed_wires bit_size =
     \<lparr>rc_num_ops = rc_config_num_ops num_wires num_routed_wires bit_size, rc_bit_size = bit_size\<rparr>"

definition aux_limbs_per_input :: "RangeCheckGate \<Rightarrow> nat" where
  "aux_limbs_per_input g = ceil_div_usize (rc_bit_size g) AUX_LIMB_BITS"
definition rc_wire_ith_input :: "nat \<Rightarrow> nat" where "rc_wire_ith_input i = i"
definition rc_wire_ith_input_jth_aux_limb :: "RangeCheckGate \<Rightarrow> nat \<Rightarrow> nat \<Rightarrow> nat" where
  "rc_wire_ith_input_jth_aux_limb g i j = rc_num_ops g + aux_limbs_per_input g * i + j"
definition rc_num_wires :: "RangeCheckGate \<Rightarrow> nat" where
  "rc_num_wires g = rc_num_ops g * (1 + aux_limbs_per_input g)"
definition rc_num_constraints :: "RangeCheckGate \<Rightarrow> nat" where
  "rc_num_constraints g = rc_num_ops g * (1 + aux_limbs_per_input g)"

section \<open>Evaluation routines\<close>

definition rc_eval_op :: "RangeCheckGate \<Rightarrow> (nat \<Rightarrow> 'f::comm_ring_1) \<Rightarrow> nat \<Rightarrow> 'f list" where
  "rc_eval_op g local_wires i =
    (let base = of_nat BASE;
         input_limb = local_wires (rc_wire_ith_input i);
         aux_limbs = map (\<lambda>j. local_wires (rc_wire_ith_input_jth_aux_limb g i j)) [0..<aux_limbs_per_input g];
         computed_sum = reduce_with_powers aux_limbs base;
         iter = (if rc_bit_size g mod 2 = 1 then BASE div 2 else BASE)
     in [computed_sum - input_limb]
        @ map (range_product BASE) (take (length aux_limbs - 1) aux_limbs)
        @ [range_product iter (last aux_limbs)])"

definition rc_eval_unfiltered :: "RangeCheckGate \<Rightarrow> (nat \<Rightarrow> 'f::comm_ring_1) \<Rightarrow> 'f list" where
  "rc_eval_unfiltered g local_wires = concat (map (rc_eval_op g local_wires) [0..<rc_num_ops g])"

text \<open>\<open>eval_unfiltered_base_one\<close>\<close>

definition rc_eval_unfiltered_base_one :: "RangeCheckGate \<Rightarrow> (nat \<Rightarrow> 'f::comm_ring_1) \<Rightarrow> 'f list" where
  "rc_eval_unfiltered_base_one g local_wires =
    concat (map (\<lambda>i.
      let base = of_nat BASE;
          input_limb = local_wires (rc_wire_ith_input i);
          aux_limbs = map (\<lambda>j. local_wires (rc_wire_ith_input_jth_aux_limb g i j)) [0..<aux_limbs_per_input g];
          computed_sum = reduce_with_powers aux_limbs base;
          iter = (if rc_bit_size g mod 2 = 1 then BASE div 2 else BASE)
      in [computed_sum - input_limb]
         @ map (range_product BASE) (take (length aux_limbs - 1) aux_limbs)
         @ [range_product iter (last aux_limbs)]) [0..<rc_num_ops g])"

text \<open>\<open>eval_unfiltered_circuit\<close>\<close>

definition rc_eval_circuit_op :: "RangeCheckGate \<Rightarrow> (nat \<Rightarrow> 'f::comm_ring_1) \<Rightarrow> nat \<Rightarrow> 'f list" where
  "rc_eval_circuit_op g local_wires i =
    (let base = of_nat BASE;
         input_limb = local_wires (rc_wire_ith_input i);
         aux_limbs = map (\<lambda>j. local_wires (rc_wire_ith_input_jth_aux_limb g i j)) [0..<aux_limbs_per_input g];
         computed_sum = reduce_with_powers_ext_circuit aux_limbs base;
         iter = (if rc_bit_size g mod 2 = 1 then BASE div 2 else BASE)
     in [computed_sum - input_limb]
        @ map (arithmetic_range_product BASE) (take (length aux_limbs - 1) aux_limbs)
        @ [arithmetic_range_product iter (last aux_limbs)])"

definition rc_eval_unfiltered_circuit :: "RangeCheckGate \<Rightarrow> (nat \<Rightarrow> 'f::comm_ring_1) \<Rightarrow> 'f list" where
  "rc_eval_unfiltered_circuit g local_wires = concat (map (rc_eval_circuit_op g local_wires) [0..<rc_num_ops g])"

text \<open>\<open>eval_unfiltered_base_packed\<close>: two doublings for a multiplication by 4, factored products.\<close>

definition rc_packed_range :: "'f::comm_ring_1 \<Rightarrow> 'f" where
  "rc_packed_range limb = (let u = limb * limb - (limb + limb + limb) in u * (u + 2))"

definition rc_eval_packed_op :: "RangeCheckGate \<Rightarrow> (nat \<Rightarrow> 'f::comm_ring_1) \<Rightarrow> nat \<Rightarrow> 'f list" where
  "rc_eval_packed_op g local_wires i =
    (let aux_count = aux_limbs_per_input g;
         last_is_half = (rc_bit_size g mod 2 = 1);
         input_limb = local_wires (rc_wire_ith_input i);
         computed_sum = foldl (\<lambda>computed_sum j.
             let limb = local_wires (rc_wire_ith_input_jth_aux_limb g i j); doubled = computed_sum + computed_sum
             in doubled + doubled + limb) 0 (rev [0..<aux_count]);
         last = local_wires (rc_wire_ith_input_jth_aux_limb g i (aux_count - 1))
     in [computed_sum - input_limb]
        @ map (\<lambda>j. rc_packed_range (local_wires (rc_wire_ith_input_jth_aux_limb g i j))) [0..<aux_count - 1]
        @ [if last_is_half then last * last - last else rc_packed_range last])"

definition rc_eval_unfiltered_base_packed :: "RangeCheckGate \<Rightarrow> (nat \<Rightarrow> 'f::comm_ring_1) \<Rightarrow> 'f list" where
  "rc_eval_unfiltered_base_packed g local_wires = concat (map (rc_eval_packed_op g local_wires) [0..<rc_num_ops g])"

text \<open>
  \<open>eval_unfiltered_base_batch\<close> calls \<open>eval_unfiltered_base_batch_packed\<close>, which runs the packed
  evaluation at every point of the batch.
\<close>

definition rc_eval_batch_op ::
  "RangeCheckGate \<Rightarrow> nat \<Rightarrow> (nat \<Rightarrow> 'f::comm_ring_1) \<Rightarrow> nat \<Rightarrow> 'f list list" where
  "rc_eval_batch_op g n wires i =
    map (\<lambda>c. map (\<lambda>p. rc_eval_packed_op g (batch_point n wires p) i ! c) [0..<n]) [0..<1 + aux_limbs_per_input g]"

definition rc_eval_unfiltered_base_batch ::
  "RangeCheckGate \<Rightarrow> nat \<Rightarrow> (nat \<Rightarrow> 'f::comm_ring_1) \<Rightarrow> 'f list list" where
  "rc_eval_unfiltered_base_batch g n wires = concat (map (rc_eval_batch_op g n wires) [0..<rc_num_ops g])"

text \<open>
  \<open>eval_unfiltered_base_batch_accumulate\<close>: the subtraction of the input is folded into the last
  Horner step; the scratch row is a slice of a stack array of 32 elements.
\<close>

definition rc_accumulate_op ::
  "RangeCheckGate \<Rightarrow> nat \<Rightarrow> (nat \<Rightarrow> 'f::comm_ring_1) \<Rightarrow> nat \<Rightarrow> 'f list list" where
  "rc_accumulate_op g n wires i =
    (let num_aux = aux_limbs_per_input g;
         input = (\<lambda>p. batch_point n wires p (rc_wire_ith_input i));
         limb = (\<lambda>p j. batch_point n wires p (rc_wire_ith_input_jth_aux_limb g i j));
         scratch = map (\<lambda>p. limb p (num_aux - 1)) [0..<n];
         scratch' =
           (if num_aux = 1 then map (\<lambda>p. scratch ! p - input p) [0..<n]
            else foldl (\<lambda>scratch j.
                if j = 0 then map (\<lambda>p. scratch ! p * of_nat BASE + limb p j - input p) [0..<n]
                else map (\<lambda>p. scratch ! p * of_nat BASE + limb p j) [0..<n])
              scratch (rev [0..<num_aux - 1]))
     in scratch' # map (\<lambda>j. if j = num_aux - 1 \<and> rc_bit_size g mod 2 = 1
                            then map (\<lambda>p. let x = limb p j in x * (x - 1)) [0..<n]
                            else map (\<lambda>p. range_product4 (limb p j)) [0..<n]) [0..<num_aux])"

definition rc_accumulate_scratches ::
  "RangeCheckGate \<Rightarrow> nat \<Rightarrow> (nat \<Rightarrow> 'f::comm_ring_1) \<Rightarrow> 'f list list" where
  "rc_accumulate_scratches g n wires = concat (map (rc_accumulate_op g n wires) [0..<rc_num_ops g])"

definition rc_eval_unfiltered_base_batch_accumulate ::
  "RangeCheckGate \<Rightarrow> nat \<Rightarrow> (nat \<Rightarrow> 'f::comm_ring_1) \<Rightarrow> 'f list \<Rightarrow> 'f list \<Rightarrow> 'f list option" where
  "rc_eval_unfiltered_base_batch_accumulate g n wires filters combined =
     (if n > 32 then None
      else accumulate_checked (rc_num_constraints g) n (rc_accumulate_scratches g n wires) filters combined)"

section \<open>The witness generator\<close>

fun rc_limb_values :: "nat \<Rightarrow> nat \<Rightarrow> nat list" where
  "rc_limb_values 0 acc = []"
| "rc_limb_values (Suc k) acc = acc mod BASE # rc_limb_values k (acc div BASE)"

definition rc_run_once :: "RangeCheckGate \<Rightarrow> (nat \<Rightarrow> gf) \<Rightarrow> nat \<Rightarrow> (nat \<times> gf) list" where
  "rc_run_once g get_target i =
    (let sum_value = to_canonical_u64 (get_target (rc_wire_ith_input i))
     in map (\<lambda>(j, tmp). (rc_wire_ith_input_jth_aux_limb g i j, of_nat tmp))
          (enumerate 0 (rc_limb_values (aux_limbs_per_input g) sum_value)))"

section \<open>The routines agree\<close>

definition rc_op_constraints :: "nat \<Rightarrow> nat \<Rightarrow> (nat \<Rightarrow> 'f::comm_ring_1) \<Rightarrow> 'f \<Rightarrow> 'f list" where
  "rc_op_constraints bits num limb input =
     (le_value 4 (map limb [0..<num]) - input)
     # map (\<lambda>j. range_product (if j = num - 1 \<and> bits mod 2 = 1 then 2 else 4) (limb j)) [0..<num]"

abbreviation rc_op_at :: "RangeCheckGate \<Rightarrow> (nat \<Rightarrow> 'f::comm_ring_1) \<Rightarrow> nat \<Rightarrow> 'f list" where
  "rc_op_at g w i \<equiv> rc_op_constraints (rc_bit_size g) (aux_limbs_per_input g)
     (\<lambda>j. w (rc_wire_ith_input_jth_aux_limb g i j)) (w (rc_wire_ith_input i))"

lemma BASE_eq: "BASE = 4" "of_nat BASE = 4"
  by (simp_all add: BASE_def AUX_LIMB_BITS_def)

lemma range_product_2: "range_product 2 (x::'f::comm_ring_1) = x * (x - 1)"
  by (simp add: range_product_def upt_rec)

lemma rc_packed_range_eq: "rc_packed_range x = range_product 4 x"
  by (simp add: rc_packed_range_def range_product_4 range_product4_def Let_def algebra_simps)

text \<open>The gate is only ever built for a positive number of bits.\<close>

locale rc_gate =
  fixes g :: RangeCheckGate
  assumes bits_positive: "0 < rc_bit_size g"
begin

lemma aux_positive: "0 < aux_limbs_per_input g"
  using bits_positive by (auto simp: aux_limbs_per_input_def ceil_div_usize_def AUX_LIMB_BITS_def)

lemma aux_Suc: obtains k where "aux_limbs_per_input g = Suc k"
  using aux_positive by (cases "aux_limbs_per_input g") auto

lemma rc_eval_op_eq: "rc_eval_op g w i = rc_op_at g w i"
proof -
  obtain k where k: "aux_limbs_per_input g = Suc k" by (rule aux_Suc)
  have take: "take k (map f [0..<k] @ [f k]) = map f [0..<k]" for f :: "nat \<Rightarrow> 'a" by simp
  show ?thesis
    unfolding rc_eval_op_def rc_op_constraints_def Let_def reduce_with_powers_eq BASE_eq k
    by (simp add: take)
qed

lemma rc_eval_circuit_op_eq: "rc_eval_circuit_op g = rc_eval_op g"
  unfolding rc_eval_circuit_op_def rc_eval_op_def fun_eq_iff
  by (simp add: reduce_with_powers_eq reduce_with_powers_ext_circuit_eq arithmetic_range_product_eq)

lemma rc_eval_packed_op_eq: "rc_eval_packed_op g = rc_eval_op g"
proof (intro ext)
  fix w :: "nat \<Rightarrow> 'a" and i
  let ?l = "\<lambda>j. w (rc_wire_ith_input_jth_aux_limb g i j)"
  obtain k where k: "aux_limbs_per_input g = Suc k" by (rule aux_Suc)
  have "x + x + (x + x) + y = 4 * x + y" for x y :: 'a by simp
  then have horner: "foldl (\<lambda>s j. s + s + (s + s) + ?l j) 0 (rev js) = le_value 4 (map ?l js)" for js
    unfolding le_value_foldl_rev [symmetric] rev_map foldl_map by simp
  show "rc_eval_packed_op g w i = rc_eval_op g w i"
    unfolding rc_eval_op_eq unfolding rc_eval_packed_op_def rc_op_constraints_def Let_def horner k
    by (simp add: rc_packed_range_eq range_product_2 algebra_simps)
qed

lemma length_rc_op: "length (rc_eval_op g w i) = 1 + aux_limbs_per_input g"
  by (simp add: rc_eval_op_eq rc_op_constraints_def)

lemma rc_batch_op_chunked:
  "chunked n (\<lambda>p. rc_eval_op g (batch_point n wires p) i) (rc_eval_batch_op g n wires i)"
  by (auto simp: chunked_def rc_eval_batch_op_def rc_eval_packed_op_eq length_rc_op simp del: upt_Suc)

lemma rc_accumulate_horner:
  fixes limb :: "nat \<Rightarrow> nat \<Rightarrow> 'f::comm_ring_1"
  shows "(if k = 0 then map (\<lambda>p. map (\<lambda>p. limb p k) [0..<n] ! p - input p) [0..<n]
     else foldl (\<lambda>scratch j.
         if j = 0 then map (\<lambda>p. scratch ! p * of_nat BASE + limb p j - input p) [0..<n]
         else map (\<lambda>p. scratch ! p * of_nat BASE + limb p j) [0..<n])
       (map (\<lambda>p. limb p k) [0..<n]) (rev [0..<k]))
   = map (\<lambda>p. le_value 4 (map (limb p) [0..<Suc k]) - input p) [0..<n]"
proof (cases k)
  case 0
  then show ?thesis by simp
next
  case (Suc m)
  let ?step = "\<lambda>scratch j. if j = 0 then map (\<lambda>p. scratch ! p * of_nat BASE + limb p j - input p) [0..<n]
         else map (\<lambda>p. scratch ! p * of_nat BASE + limb p j) [0..<n]"
  let ?plain = "\<lambda>scratch j. map (\<lambda>p. scratch ! p * 4 + limb p j) [0..<n]"
  have tail: "foldl ?step s (rev (map Suc js)) = foldl ?plain s (rev (map Suc js))" for s js
    by (rule foldl_cong) (auto simp: BASE_eq)
  have rev: "rev [0..<Suc m] = rev (map Suc [0..<m]) @ [0]"
    by (simp only: upt_conv_Cons [OF zero_less_Suc] map_Suc_upt rev.simps)
  have rev1: "rev [Suc 0..<Suc k] = k # rev (map Suc [0..<m])"
    using Suc by (simp add: map_Suc_upt)
  have horner: "foldl ?plain (map (\<lambda>p. limb p k) [0..<n]) (rev (map Suc [0..<m]))
      = map (\<lambda>p. le_value 4 (map (limb p) [Suc 0..<Suc k])) [0..<n]"
  proof -
    have z: "map (\<lambda>p. replicate n (0::'f) ! p * 4 + limb p k) [0..<n] = map (\<lambda>p. limb p k) [0..<n]" by simp
    show ?thesis
      using batch_horner_eq [of 4 n limb "[Suc 0..<Suc k]"] unfolding batch_horner_def rev1 foldl_Cons z .
  qed
  have "map (limb p) [0..<Suc k] = limb p 0 # map (limb p) [Suc 0..<Suc k]" for p
    by (simp only: upt_conv_Cons [OF zero_less_Suc] list.map)
  then show ?thesis
    unfolding Suc rev foldl_append tail horner [unfolded Suc]
    by (simp add: BASE_eq algebra_simps del: upt_Suc)
qed

lemma rc_accumulate_op_chunked:
  "chunked n (\<lambda>p. rc_eval_op g (batch_point n wires p) i) (rc_accumulate_op g n wires i)"
proof -
  obtain k where k: "aux_limbs_per_input g = Suc k" using aux_positive by (cases "aux_limbs_per_input g") auto
  have rp: "(if b then map (\<lambda>p. let x = limb p j in x * (x - 1)) [0..<n] else map (\<lambda>p. range_product4 (limb p j)) [0..<n])
      = map (\<lambda>p. range_product (if b then 2 else 4) (limb p j)) [0..<n]" for b j and limb :: "nat \<Rightarrow> nat \<Rightarrow> 'a"
    by (simp add: range_product_2 range_product_4 Let_def)
  have Suc_eq_1: "(Suc k = 1) = (k = 0)" by simp
  show ?thesis
    unfolding rc_accumulate_op_def rc_eval_op_eq rc_op_constraints_def
    unfolding Let_def k diff_Suc_1 Suc_eq_1 rp [unfolded Let_def]
      rc_accumulate_horner [where k = k and n = n and limb = "\<lambda>p j. batch_point n wires p (rc_wire_ith_input_jth_aux_limb g i j)"
        and input = "\<lambda>p. batch_point n wires p (rc_wire_ith_input i)"]
    by (intro chunked_Cons chunked_map) simp
qed

end

sublocale rc_gate \<subseteq> variants: gate_variants "rc_num_constraints g" "rc_eval_unfiltered g"
  "rc_eval_unfiltered_circuit g" "rc_eval_unfiltered_base_packed g"
  "rc_eval_unfiltered_base_batch g" "rc_accumulate_scratches g"
  unfolding rc_num_constraints_def rc_eval_unfiltered_def [abs_def] rc_eval_unfiltered_circuit_def [abs_def]
    rc_eval_unfiltered_base_packed_def [abs_def] rc_eval_unfiltered_base_batch_def [abs_def]
    rc_accumulate_scratches_def [abs_def]
  by (rule gate_variants_concat)
    (simp_all add: rc_eval_circuit_op_eq rc_eval_packed_op_eq rc_batch_op_chunked rc_accumulate_op_chunked length_rc_op)


context rc_gate
begin

lemmas rc_routines_agree = variants.routines_agree

end

text \<open>The three sizes with a custom gate (\<open>CUSTOM_GATE_SIZES\<close>).\<close>

definition CUSTOM_GATE_SIZES :: "nat list" where "CUSTOM_GATE_SIZES = [16, 32, 48]"

interpretation rc16: rc_gate "\<lparr>rc_num_ops = n, rc_bit_size = 16\<rparr>" for n
  by unfold_locales simp

interpretation rc32: rc_gate "\<lparr>rc_num_ops = n, rc_bit_size = 32\<rparr>" for n
  by unfold_locales simp

interpretation rc48: rc_gate "\<lparr>rc_num_ops = n, rc_bit_size = 48\<rparr>" for n
  by unfold_locales simp

section \<open>Soundness and completeness of the constraints\<close>

definition rc_bits_ok :: "nat \<Rightarrow> bool" where
  "rc_bits_ok bits \<longleftrightarrow> 0 < bits \<and> bits \<le> 63"

abbreviation rc_limbs :: "nat \<Rightarrow> nat" where
  "rc_limbs bits \<equiv> ceil_div_usize bits AUX_LIMB_BITS"

lemma rc_limbs_split:
  assumes "rc_bits_ok bits"
  obtains k r where "rc_limbs bits = Suc k" "bits = 2 * k + r" "r = 1 \<or> r = 2" "bits mod 2 = 1 \<longleftrightarrow> r = 1"
    "(2::nat) ^ bits = 4 ^ k * 2 ^ r" "(2::nat) ^ bits < p_nat"
proof -
  define k r where "k = (bits - 1) div 2" and "r = bits - 2 * k"
  have b: "0 < bits" "bits \<le> 63" using assms by (simp_all add: rc_bits_ok_def)
  have k: "rc_limbs bits = Suc k" using b unfolding k_def ceil_div_usize_def AUX_LIMB_BITS_def by auto presburger+
  have r: "bits = 2 * k + r" "r = 1 \<or> r = 2" using b unfolding k_def r_def by presburger+
  have "(2::nat) ^ (2 * k) = 4 ^ k" by (simp add: power_mult)
  then have "(2::nat) ^ bits = 4 ^ k * 2 ^ r" by (subst r(1)) (simp add: power_add)
  moreover have "(2::nat) ^ bits \<le> 2 ^ 63" using b by (intro power_increasing) simp_all
  then have "(2::nat) ^ bits < p_nat" by simp
  moreover have "bits mod 2 = 1 \<longleftrightarrow> r = 1" using r by presburger
  ultimately show ?thesis using that k r by blast
qed

lemma rc_op_sound:
  fixes limb :: "nat \<Rightarrow> gf"
  assumes zero: "\<forall>c\<in>set (rc_op_constraints bits (rc_limbs bits) limb input). c = 0" and bits: "rc_bits_ok bits"
  shows "to_canonical_u64 input < 2 ^ bits"
proof -
  obtain k r where k: "rc_limbs bits = Suc k" and r: "r = 1 \<or> r = 2" "bits mod 2 = 1 \<longleftrightarrow> r = 1"
    and pow: "(2::nat) ^ bits = 4 ^ k * 2 ^ r" "(2::nat) ^ bits < p_nat"
    using rc_limbs_split [OF bits] by metis
  have sum: "input = le_value 4 (map limb [0..<Suc k])"
    and range: "\<forall>j\<le>k. range_product (if j = k \<and> bits mod 2 = 1 then 2 else 4) (limb j) = 0"
    using zero by (auto simp: rc_op_constraints_def k less_Suc_eq_le simp del: upt_Suc)
  have "range_product 4 (limb j) = 0" if "j < k" for j
    using range [rule_format, of j] that by simp
  then have low: "\<forall>d\<in>set (map (\<lambda>j. to_canonical_u64 (limb j)) [0..<k]). d < 4"
    by (simp add: range_product_4_zero)
  have top: "to_canonical_u64 (limb k) < 2 ^ r"
    using range r range_product_zero_iff [of 2 "limb k"] by (auto simp: range_product_4_zero)
  let ?L = "le_value 4 (map (\<lambda>j. to_canonical_u64 (limb j)) [0..<k])"
  have "?L < 4 ^ k" using le_value_bound [OF low] by simp
  moreover have "4 ^ k * to_canonical_u64 (limb k) + 4 ^ k \<le> 4 ^ k * 2 ^ r"
    using mult_le_mono2 [of "Suc (to_canonical_u64 (limb k))" "2 ^ r" "4 ^ k"] top by simp
  ultimately have lt: "?L + 4 ^ k * to_canonical_u64 (limb k) < 2 ^ bits" by (simp add: pow(1))
  have "of_nat (?L + 4 ^ k * to_canonical_u64 (limb k)) = input"
    unfolding sum by (simp add: le_value_append of_nat_le_value comp_def)
  then have "to_canonical_u64 input = ?L + 4 ^ k * to_canonical_u64 (limb k)"
    using to_canonical_of_nat_small [OF less_trans [OF lt pow(2)]] by (simp only:)
  then show ?thesis using lt by simp
qed

lemma rc_limb_values_eq: "rc_limb_values k x = le_digits 4 k x"
  by (induction k arbitrary: x) (simp_all add: BASE_eq)

lemma rc_op_complete:
  fixes limb :: "nat \<Rightarrow> gf"
  assumes lt: "to_canonical_u64 input < 2 ^ bits" and bits: "rc_bits_ok bits"
    and limb: "\<And>j. j < rc_limbs bits \<Longrightarrow> limb j = of_nat (le_digits 4 (rc_limbs bits) (to_canonical_u64 input) ! j)"
  shows "\<forall>c\<in>set (rc_op_constraints bits (rc_limbs bits) limb input). c = 0"
proof -
  obtain k r where k: "rc_limbs bits = Suc k" and r: "r = 1 \<or> r = 2" "bits mod 2 = 1 \<longleftrightarrow> r = 1"
    and pow: "(2::nat) ^ bits = 4 ^ k * 2 ^ r"
    using rc_limbs_split [OF bits] by metis
  define x where "x = to_canonical_u64 input"
  have "x < 4 ^ Suc k" using lt pow r by (auto simp: x_def)
  moreover have "map limb [0..<Suc k] = map of_nat (le_digits 4 (Suc k) x)"
    using limb unfolding k x_def [symmetric] by (intro nth_equalityI) (simp_all del: upt_Suc le_digits.simps)
  ultimately have sum: "le_value 4 (map limb [0..<Suc k]) = input"
    using of_nat_le_value [of 4 "le_digits 4 (Suc k) x", where 'a = gf]
    by (simp add: le_value_digits x_def del: upt_Suc le_digits.simps)
  have top: "le_digits 4 (Suc k) x ! k < 2 ^ r"
  proof -
    have "le_digits 4 (Suc k) x = le_digits 4 k x @ [x div 4 ^ k mod 4]"
      using le_digits_append [of 4 k 1 x] by simp
    moreover have "x div 4 ^ k < 2 ^ r"
      using lt pow by (simp add: x_def less_mult_imp_div_less mult.commute)
    moreover have "x div 4 ^ k mod 4 \<le> x div 4 ^ k" by simp
    ultimately show ?thesis by (simp add: nth_append)
  qed
  have "range_product (if j = k \<and> bits mod 2 = 1 then 2 else 4) (limb j) = 0" if "j < Suc k" for j
    using limb [unfolded k, OF that] le_digits_range [OF that, of x] top r range_product_zero_iff [of 2 "limb j"]
    by (auto simp: range_product_4_zero x_def simp del: le_digits.simps)
  with sum show ?thesis
    by (auto simp: rc_op_constraints_def k simp del: upt_Suc)
qed

section \<open>Rows\<close>

lemma rc_row_op:
  assumes "\<forall>c\<in>set (rc_eval_unfiltered g w). c = 0" "i < rc_num_ops g" "0 < rc_bit_size g"
  shows "\<forall>c\<in>set (rc_op_at g w i). c = 0"
  using assms by (auto simp: rc_eval_unfiltered_def rc_gate.rc_eval_op_eq [OF rc_gate.intro])

lemma rc_limb_wire_inj: "inj (rc_wire_ith_input_jth_aux_limb g i)"
  by (auto simp: inj_def rc_wire_ith_input_jth_aux_limb_def)

lemma rc_run_keeps_input:
  assumes "i < rc_num_ops g" "i' < rc_num_ops g"
  shows "set_wires (rc_run_once g w i) w (rc_wire_ith_input i') = w (rc_wire_ith_input i')"
  by (rule set_wires_other)
    (use assms in \<open>auto simp: rc_run_once_def Let_def rc_wire_ith_input_def rc_wire_ith_input_jth_aux_limb_def
      image_def in_set_enumerate_eq\<close>)

lemma rc_generator_complete:
  assumes i: "i < rc_num_ops g" and bits: "rc_bits_ok (rc_bit_size g)"
    and lt: "to_canonical_u64 (w (rc_wire_ith_input i)) < 2 ^ rc_bit_size g"
  shows "\<forall>c\<in>set (rc_eval_op g (set_wires (rc_run_once g w i) w) i). c = 0"
proof -
  let ?w = "set_wires (rc_run_once g w i) w"
  have pos: "rc_gate g" using bits by (simp add: rc_gate_def rc_bits_ok_def)
  have "?w (rc_wire_ith_input_jth_aux_limb g i j)
      = of_nat (le_digits 4 (rc_limbs (rc_bit_size g)) (to_canonical_u64 (?w (rc_wire_ith_input i))) ! j)"
    if "j < rc_limbs (rc_bit_size g)" for j
    unfolding rc_run_keeps_input [OF i i] unfolding rc_run_once_def Let_def rc_limb_values_eq
      set_wires_enumerate [OF rc_limb_wire_inj] using that by (simp add: aux_limbs_per_input_def)
  then show ?thesis
    unfolding rc_gate.rc_eval_op_eq [OF pos] aux_limbs_per_input_def
    by (intro rc_op_complete [OF _ bits]) (simp_all add: rc_run_keeps_input [OF i i] lt)
qed

section \<open>The gadget operation\<close>

text \<open>
  One operation of the gate with its input connected to \<open>x\<close>: the last step of
  \<open>perform_registered_range_checks\<close> for a bit size that has a custom gate.
\<close>

definition rc_slot :: "nat \<Rightarrow> target \<Rightarrow> unit circ" where
  "rc_slot bits x =
    circ_bind (gate_slot (rc_eval_unfiltered \<lparr>rc_num_ops = 1, rc_bit_size = bits\<rparr>) [x] (rc_limbs bits)) (\<lambda>_.
    circ_return ())"

lemma rc_slot_row:
  assumes "0 < bits"
  shows "rc_eval_unfiltered \<lparr>rc_num_ops = 1, rc_bit_size = bits\<rparr> (\<lambda>k. ([x] @ limbs) ! k)
     = rc_op_constraints bits (rc_limbs bits) (\<lambda>j. limbs ! j) x"
  using assms
  by (simp add: rc_eval_unfiltered_def rc_gate.rc_eval_op_eq [OF rc_gate.intro] rc_wire_ith_input_jth_aux_limb_def
      rc_wire_ith_input_def aux_limbs_per_input_def)

lemma sound_rc_slot:
  assumes "rc_bits_ok bits"
  shows "sound (rc_slot bits x) (\<lambda>_. to_canonical_u64 (tval x) < 2 ^ bits)"
proof -
  have "sound (gate_slot (rc_eval_unfiltered \<lparr>rc_num_ops = 1, rc_bit_size = bits\<rparr>) [x] (rc_limbs bits))
      (\<lambda>free. length free = rc_limbs bits \<and> to_canonical_u64 (tval x) < 2 ^ bits)"
  proof (rule sound_gate_slot)
    fix vs :: "gf list"
    assume "\<forall>c\<in>set (rc_eval_unfiltered \<lparr>rc_num_ops = 1, rc_bit_size = bits\<rparr> (\<lambda>k. (map tval [x] @ vs) ! k)). c = 0"
    then show "to_canonical_u64 (tval x) < 2 ^ bits"
      using assms unfolding list.map by (subst (asm) rc_slot_row) (auto simp: rc_bits_ok_def intro: rc_op_sound)
  qed
  then show ?thesis unfolding rc_slot_def by (rule sound_bind) (simp add: sound_return)
qed

lemma complete_rc_slot:
  assumes "rc_bits_ok bits" "to_canonical_u64 (tval x) < 2 ^ bits"
  shows "complete (rc_slot bits x) (\<lambda>_. True)"
proof -
  let ?vs = "map of_nat (le_digits 4 (rc_limbs bits) (to_canonical_u64 (tval x))) :: gf list"
  have "\<forall>c\<in>set (rc_eval_unfiltered \<lparr>rc_num_ops = 1, rc_bit_size = bits\<rparr> (\<lambda>k. (map tval [x] @ ?vs) ! k)). c = 0"
    unfolding list.map using assms rc_op_complete [OF assms(2,1), of "\<lambda>j. ?vs ! j"] rc_slot_row [of bits "tval x" ?vs]
    by (simp add: rc_bits_ok_def)
  then have "complete (gate_slot (rc_eval_unfiltered \<lparr>rc_num_ops = 1, rc_bit_size = bits\<rparr>) [x] (rc_limbs bits))
      (\<lambda>free. free = map Wire ?vs)"
    by (intro complete_gate_slot) simp_all
  then show ?thesis
    unfolding rc_slot_def by (rule complete_bind) (simp_all add: complete_return)
qed

section \<open>Properties\<close>

text \<open>
  Soundness of \<open>RangeCheckGate\<close>: on a row on which all constraints vanish every input is below
  \<open>2 ^ bit_size\<close>, for every bit size from 1 to 63, odd ones included.
\<close>

theorem range_check_gate_sound:
  fixes w :: "nat \<Rightarrow> gf"
  assumes "\<forall>c\<in>set (rc_eval_unfiltered g w). c = 0" and "i < rc_num_ops g" and "rc_bits_ok (rc_bit_size g)"
  shows "to_canonical_u64 (w (rc_wire_ith_input i)) < 2 ^ rc_bit_size g"
  using rc_op_sound [OF _ assms(3)] rc_row_op [OF assms(1,2)] assms(3)
  by (simp add: aux_limbs_per_input_def rc_bits_ok_def)

definition rc_example_gate :: RangeCheckGate where
  "rc_example_gate = \<lparr>rc_num_ops = 1, rc_bit_size = 47\<rparr>"

definition rc_example_wires :: "nat \<Rightarrow> gf" where
  "rc_example_wires k = (if k = 0 then of_nat (2 ^ 47 - 1) else 0)"

definition rc_example_row :: "nat \<Rightarrow> gf" where
  "rc_example_row = set_wires (rc_run_once rc_example_gate rc_example_wires 0) rc_example_wires"

lemma rc_example_fields [simp]: "rc_num_ops rc_example_gate = 1" "rc_bit_size rc_example_gate = 47"
  by (simp_all add: rc_example_gate_def)

lemma rc_example_input: "to_canonical_u64 (rc_example_wires 0) = 2 ^ 47 - 1"
  by (simp add: rc_example_wires_def)

lemma rc_example_row_zero: "\<forall>c\<in>set (rc_eval_unfiltered rc_example_gate rc_example_row). c = 0"
  using rc_generator_complete [of 0 rc_example_gate rc_example_wires] rc_example_input
  by (simp add: rc_eval_unfiltered_def rc_example_row_def rc_bits_ok_def rc_wire_ith_input_def)

theorem range_check_gate_sound_witness:
  "to_canonical_u64 (rc_example_row 0) < 2 ^ 47 \<and> to_canonical_u64 (rc_example_row 0) = 2 ^ 47 - 1"
  using range_check_gate_sound [OF rc_example_row_zero, of 0] rc_example_input
    rc_run_keeps_input [of 0 rc_example_gate 0 rc_example_wires]
  by (simp add: rc_bits_ok_def rc_wire_ith_input_def rc_example_row_def)

text \<open>
  The evaluation routines of \<open>RangeCheckGate\<close> agree with \<open>eval_unfiltered\<close>: the scalar one, the
  recursive circuit, the packed one (which the batch routine runs point by point) and the filtered
  accumulation, which is only defined for batches of at most 32 points.
\<close>

theorem range_check_gate_routines_agree:
  fixes w wires :: "nat \<Rightarrow> 'f::comm_ring_1"
  assumes "0 < rc_bit_size g"
  shows "rc_eval_unfiltered_base_one g w = rc_eval_unfiltered g w
    \<and> rc_eval_unfiltered_circuit g w = rc_eval_unfiltered g w
    \<and> rc_eval_unfiltered_base_packed g w = rc_eval_unfiltered g w
    \<and> (\<forall>c<rc_num_constraints g. \<forall>p<n. concat (rc_eval_unfiltered_base_batch g n wires) ! (c * n + p)
        = rc_eval_unfiltered g (batch_point n wires p) ! c)
    \<and> (0 < n \<longrightarrow> rc_eval_unfiltered_base_batch_accumulate g n wires filters combined = Some combined'
        \<longrightarrow> n \<le> 32 \<and> length combined' = length combined
          \<and> (\<forall>c<rc_num_constraints g. \<forall>p<n. combined' ! (c * n + p)
              = combined ! (c * n + p) + rc_eval_unfiltered g (batch_point n wires p) ! c * filters ! p)
          \<and> (\<forall>k. rc_num_constraints g * n \<le> k \<longrightarrow> k < length combined \<longrightarrow> combined' ! k = combined ! k))"
proof -
  have "rc_eval_unfiltered_base_one g w = rc_eval_unfiltered g w"
    unfolding rc_eval_unfiltered_base_one_def rc_eval_unfiltered_def rc_eval_op_def ..
  then show ?thesis
    using rc_gate.rc_routines_agree [OF rc_gate.intro [OF assms], of w n wires filters combined combined']
    by (auto simp: rc_eval_unfiltered_base_batch_accumulate_def split: if_splits)
qed

theorem range_check_gate_routines_agree_witness:
  "concat (rc_eval_unfiltered_base_batch rc_example_gate 2 rc_example_wires) ! (24 * 2 + 1)
      = rc_eval_unfiltered rc_example_gate (batch_point 2 rc_example_wires 1) ! 24
    \<and> (\<exists>combined'. rc_eval_unfiltered_base_batch_accumulate rc_example_gate 2 rc_example_wires [1, 3] (replicate 50 0)
          = Some combined'
        \<and> combined' ! (24 * 2 + 1) = rc_eval_unfiltered rc_example_gate (batch_point 2 rc_example_wires 1) ! 24 * 3)"
proof -
  have n: "rc_num_constraints rc_example_gate = 25"
    by (simp add: rc_num_constraints_def aux_limbs_per_input_def ceil_div_usize_def AUX_LIMB_BITS_def)
  obtain combined' where c: "rc_eval_unfiltered_base_batch_accumulate rc_example_gate 2 rc_example_wires [1, 3] (replicate 50 0)
      = Some combined'"
    using accumulate_checked_Some [of "[1, 3 :: gf]" 2 25 "replicate 50 0" "rc_accumulate_scratches rc_example_gate 2 rc_example_wires"]
    by (auto simp: rc_eval_unfiltered_base_batch_accumulate_def n)
  have "0 < rc_bit_size rc_example_gate" by simp
  note agree = range_check_gate_routines_agree [OF this, of rc_example_wires 2 rc_example_wires "[1, 3]"
      "replicate 50 0" combined', unfolded n]
  have "\<forall>c<25. \<forall>p<2. combined' ! (c * 2 + p) = replicate 50 0 ! (c * 2 + p)
      + rc_eval_unfiltered rc_example_gate (batch_point 2 rc_example_wires p) ! c * [1, 3] ! p"
    using agree c by (simp del: nth_replicate)
  from all_below_at [OF this, of 24 1]
  have "combined' ! (24 * 2 + 1) = replicate 50 0 ! (24 * 2 + 1)
      + rc_eval_unfiltered rc_example_gate (batch_point 2 rc_example_wires 1) ! 24 * [1, 3] ! 1" by simp
  moreover have "concat (rc_eval_unfiltered_base_batch rc_example_gate 2 rc_example_wires) ! (24 * 2 + 1)
      = rc_eval_unfiltered rc_example_gate (batch_point 2 rc_example_wires 1) ! 24"
    using all_below_at [OF conjunct1 [OF conjunct2 [OF conjunct2 [OF conjunct2 [OF agree]]]], of 24 1] by simp
  ultimately show ?thesis using c by simp
qed

text \<open>
  Completeness of the range check generator: whenever the input is in range, the wires set by
  \<open>run_once\<close> satisfy the constraints of the operation and the inputs of the row are kept.
\<close>

theorem range_check_generator_complete:
  assumes "i < rc_num_ops g" and "rc_bits_ok (rc_bit_size g)"
    and "to_canonical_u64 (w (rc_wire_ith_input i)) < 2 ^ rc_bit_size g"
  shows "(\<forall>c\<in>set (rc_eval_op g (set_wires (rc_run_once g w i) w) i). c = 0)
    \<and> (\<forall>i'<rc_num_ops g. set_wires (rc_run_once g w i) w (rc_wire_ith_input i') = w (rc_wire_ith_input i'))"
  using rc_generator_complete [where w = w, OF assms] rc_run_keeps_input [OF assms(1)] by blast

theorem range_check_generator_complete_witness:
  "set (rc_eval_op rc_example_gate rc_example_row 0) \<subseteq> {0}"
  using range_check_generator_complete [of 0 rc_example_gate rc_example_wires] rc_example_input
  by (auto simp: rc_example_row_def rc_bits_ok_def rc_wire_ith_input_def)

text \<open>
  \<open>num_ops\<close> applies \<open>min\<close> to \<open>wires_per_op\<close> instead of to the quotient, so for a configuration with
  few routed wires it promises more operations than the row has routed wires.
\<close>

lemma rc_config_num_ops_exceeds_routed:
  "rc_config_num_ops 135 8 32 = 16 \<and> 16 > (8::nat) \<and> min (135 div 17) 8 = (7::nat)"
  by (simp add: rc_config_num_ops_def ceil_div_usize_def AUX_LIMB_BITS_def)

end
