(* ===== verification/Builder.thy ===== *)
theory Builder
  imports Range_Check_Gate
begin

text \<open>
  The builder's own gadgets on field elements and Booleans: \<open>circuit/src/builder/custom.rs\<close>,
  \<open>circuit/src/bool_utils.rs\<close>, \<open>circuit/src/utils.rs\<close>, and what they call in plonky2. The caches of the
  builder are left out: a cached result is the result of the same operation on the same targets
  earlier in the circuit, and every contract below determines the value of the result.
\<close>

section \<open>Values\<close>

abbreviation uval :: "target \<Rightarrow> nat" where
  "uval t \<equiv> to_canonical_u64 (tval t)"

text \<open>\<open>bval t b\<close>: the target \<open>t\<close> holds the Boolean \<open>b\<close>.\<close>

definition bval :: "target \<Rightarrow> bool \<Rightarrow> bool" where
  "bval t b \<longleftrightarrow> tval t = of_bool b"

lemma bval_unique: "bval t a \<Longrightarrow> bval t b \<Longrightarrow> a = b"
  by (auto simp: bval_def split: if_splits)

lemma uval_bval: "bval t b \<Longrightarrow> uval t = of_bool b"
  by (simp add: bval_def)

lemma bval_iff_uval: "bval t b \<longleftrightarrow> uval t = of_bool b"
  using to_canonical_inject [of "tval t" "of_bool b"] by (auto simp: bval_def)

lemma uval_Const_small: "n < p_nat \<Longrightarrow> uval (Const (of_nat n)) = n"
  by simp

section \<open>Assertions\<close>

definition connect :: "target \<Rightarrow> target \<Rightarrow> unit circ" where
  "connect x y = circ_assert (tval x = tval y)"

definition assert_zero :: "target \<Rightarrow> unit circ" where
  "assert_zero x = connect x (Const 0)"

definition assert_one :: "target \<Rightarrow> unit circ" where
  "assert_one x = connect x (Const 1)"

definition assert_true :: "target \<Rightarrow> unit circ" where "assert_true t = assert_one t"
definition assert_false :: "target \<Rightarrow> unit circ" where "assert_false t = assert_zero t"

definition conditional_assert_eq :: "target \<Rightarrow> target \<Rightarrow> target \<Rightarrow> unit circ" where
  "conditional_assert_eq condition x y = (let diff = b_sub x y in connect (b_mul condition diff) (Const 0))"

definition mul_bool :: "target \<Rightarrow> target \<Rightarrow> target" where
  "mul_bool a b = b_mul a b"

definition conditional_assert_zero :: "target \<Rightarrow> target \<Rightarrow> unit circ" where
  "conditional_assert_zero is_enabled a = assert_zero (mul_bool is_enabled a)"

definition conditional_assert_one :: "target \<Rightarrow> target \<Rightarrow> unit circ" where
  "conditional_assert_one is_enabled a = conditional_assert_zero is_enabled (b_sub a (Const 1))"

definition conditional_assert_true :: "target \<Rightarrow> target \<Rightarrow> unit circ" where
  "conditional_assert_true is_enabled a = conditional_assert_one is_enabled a"

definition conditional_assert_false :: "target \<Rightarrow> target \<Rightarrow> unit circ" where
  "conditional_assert_false is_enabled a = conditional_assert_zero is_enabled a"

lemma realises_connect: "realises (connect x y) (tval x = tval y) (\<lambda>_. True)"
  unfolding connect_def by (rule realises_assert)

lemma realises_assert_zero: "realises (assert_zero x) (uval x = 0) (\<lambda>_. True)"
  using realises_connect [of x "Const 0"] by (simp add: assert_zero_def)

lemma realises_assert_true: "bval t b \<Longrightarrow> realises (assert_true t) b (\<lambda>_. True)"
  using realises_connect [of t "Const 1"] by (cases b) (auto simp: assert_true_def assert_one_def bval_def)

lemma realises_assert_false: "bval t b \<Longrightarrow> realises (assert_false t) (\<not> b) (\<lambda>_. True)"
  using realises_connect [of t "Const 0"]
  by (cases b) (auto simp: assert_false_def assert_zero_def bval_def)

lemma realises_conditional_assert_eq:
  assumes "bval c b"
  shows "realises (conditional_assert_eq c x y) (b \<longrightarrow> tval x = tval y) (\<lambda>_. True)"
proof -
  have "tval (b_mul c (b_sub x y)) = tval (Const 0) \<longleftrightarrow> (b \<longrightarrow> tval x = tval y)"
    using assms by (auto simp: tval_simps bval_def)
  then show ?thesis
    using realises_connect [of "b_mul c (b_sub x y)" "Const 0"] by (simp only: conditional_assert_eq_def Let_def)
qed

lemma realises_conditional_assert_zero:
  assumes "bval c b"
  shows "realises (conditional_assert_zero c x) (b \<longrightarrow> uval x = 0) (\<lambda>_. True)"
  using assms realises_connect [of "b_mul c x" "Const 0"]
  by (cases b) (auto simp: conditional_assert_zero_def assert_zero_def mul_bool_def tval_simps bval_def)

lemma realises_conditional_assert_true:
  assumes "bval c b" "bval x v"
  shows "realises (conditional_assert_true c x) (b \<longrightarrow> v) (\<lambda>_. True)"
  using assms(2) realises_conditional_assert_zero [OF assms(1), of "b_sub x (Const 1)"]
  by (cases v) (auto simp: conditional_assert_true_def conditional_assert_one_def tval_simps bval_def)

lemma realises_conditional_assert_false:
  assumes "bval c b" "bval x v"
  shows "realises (conditional_assert_false c x) (b \<longrightarrow> \<not> v) (\<lambda>_. True)"
  using assms(2) realises_conditional_assert_zero [OF assms(1), of x]
  by (cases v) (auto simp: conditional_assert_false_def bval_def)

text \<open>Sums and differences that do not wrap around.\<close>

lemma uval_add_small: "uval a + uval b < p_nat \<Longrightarrow> uval (b_add a b) = uval a + uval b"
proof -
  assume small: "uval a + uval b < p_nat"
  have "tval (b_add a b) = of_nat (uval a + uval b)" by (simp add: tval_simps)
  then show ?thesis using to_canonical_of_nat_small [OF small] by (simp only:)
qed

lemma uval_sub_small: "uval b \<le> uval a \<Longrightarrow> uval (b_sub a b) = uval a - uval b"
proof -
  assume le: "uval b \<le> uval a"
  then have "tval (b_sub a b) = of_nat (uval a - uval b)" by (simp add: tval_simps of_nat_diff)
  moreover have "uval a - uval b < p_nat" by (rule le_less_trans [OF diff_le_self to_canonical_lt])
  ultimately show ?thesis using to_canonical_of_nat_small by (simp only:)
qed

section \<open>Equality\<close>

text \<open>
  The constraints of one operation of plonky2's \<open>EqualityGate\<close> (\<open>eval_unfiltered\<close> in
  \<open>equality_base.rs\<close>) on the wires \<open>x, y, equal, diff, invdiff, prod\<close>; \<open>const_0\<close> is 1.
\<close>

definition equality_gate_op :: "(nat \<Rightarrow> 'f::comm_ring_1) \<Rightarrow> 'f list" where
  "equality_gate_op w =
    (let const_0 = 1; x = w 0; y = w 1; equal = w 2; diff = w 3; invdiff = w 4; prod = w 5
     in [(x - y) - diff, (diff * invdiff) - prod, (prod * diff) - diff, (const_0 - prod) - equal])"

definition is_equal :: "target \<Rightarrow> target \<Rightarrow> target circ" where
  "is_equal x y = circ_bind (gate_slot equality_gate_op [x, y] 4) (\<lambda>free. circ_return (free ! 0))"

text \<open>Without the gate (\<open>equality_gate_enable\<close> is off in \<open>OUTER_WRAPPER_CONFIG\<close>).\<close>

definition is_equal_without_gate :: "target \<Rightarrow> target \<Rightarrow> target circ" where
  "is_equal_without_gate x y =
    circ_bind add_virtual_target (\<lambda>equal.
    let not_equal = b_not equal in
    circ_bind add_virtual_target (\<lambda>inv.
    let diff = b_sub x y;
        not_equal_check = b_mul equal diff;
        diff_normalized = b_mul diff inv;
        equal_check = b_sub diff_normalized not_equal in
    circ_bind (connect not_equal_check (Const 0)) (\<lambda>_.
    circ_bind (connect equal_check (Const 0)) (\<lambda>_.
    circ_return equal))))"

lemma implements_is_equal: "implements (is_equal x y) (\<lambda>r. bval r (tval x = tval y))"
proof -
  let ?Q = "\<lambda>vs :: gf list. vs ! 0 = of_bool (tval x = tval y)"
  have "implements (gate_slot equality_gate_op [x, y] 4) (\<lambda>free. length free = 4 \<and> ?Q (map tval free))"
  proof (rule implements_gate_slot)
    fix vs :: "gf list"
    assume len: "length vs = 4"
      and zero: "\<forall>c\<in>set (equality_gate_op (\<lambda>k. (map tval [x, y] @ vs) ! k)). c = 0"
    obtain e d iv pr where vs: "vs = [e, d, iv, pr]"
      using len by (auto simp: length_Suc_conv numeral_eq_Suc)
    have "d = tval x - tval y" "pr = d * iv" "pr * d = d" "e = 1 - pr"
      using zero by (auto simp: vs equality_gate_op_def Let_def numeral_eq_Suc)
    then show "?Q vs" by (auto simp: vs)
  next
    let ?vs = "[of_bool (tval x = tval y), tval x - tval y, inverse (tval x - tval y), of_bool (tval x \<noteq> tval y)]"
    show "length ?vs = 4" by simp
    show "\<forall>c\<in>set (equality_gate_op (\<lambda>k. (map tval [x, y] @ ?vs) ! k)). c = 0"
      by (auto simp: equality_gate_op_def Let_def numeral_eq_Suc)
  qed
  then show ?thesis
    unfolding is_equal_def by (rule implements_bind) (auto intro!: implements_return simp: bval_def)
qed

lemma implements_is_equal_without_gate: "implements (is_equal_without_gate x y) (\<lambda>r. bval r (tval x = tval y))"
proof (rule implementsI)
  have "e = of_bool (tval x = tval y)" if "e * (tval x - tval y) = 0" "(tval x - tval y) * i - (1 - e) = 0" for e i
    using that by (cases "tval x = tval y") auto
  then show "sound (is_equal_without_gate x y) (\<lambda>r. bval r (tval x = tval y))"
    unfolding is_equal_without_gate_def Let_def connect_def
    by (intro sound_bind [OF sound_add_virtual_target] sound_bind [OF sound_assert] sound_return)
      (auto simp: bval_def tval_simps)
  show "complete (is_equal_without_gate x y) (\<lambda>r. bval r (tval x = tval y))"
    unfolding is_equal_without_gate_def Let_def connect_def
    by (rule complete_bind [OF complete_add_virtual_target [of "of_bool (tval x = tval y)"]],
        rule complete_bind [OF complete_add_virtual_target [of "inverse (tval x - tval y)"]],
        intro complete_bind [OF implements_complete [OF implements_assert]] complete_return)
      (auto simp: bval_def tval_simps)
qed

definition is_not_equal :: "target \<Rightarrow> target \<Rightarrow> target circ" where
  "is_not_equal a b = circ_bind (is_equal a b) (\<lambda>is_eq. circ_return (b_not is_eq))"

definition is_zero :: "target \<Rightarrow> target circ" where
  "is_zero a = is_equal a (Const 0)"

definition is_not_zero :: "target \<Rightarrow> target circ" where
  "is_not_zero a = circ_bind (is_zero a) (\<lambda>is_zero. circ_return (b_not is_zero))"

definition conditional_assert_not_eq :: "target \<Rightarrow> target \<Rightarrow> target \<Rightarrow> unit circ" where
  "conditional_assert_not_eq is_enabled a b =
    circ_bind (is_equal a b) (\<lambda>eq. assert_false (b_and is_enabled eq))"

definition conditional_assert_not_zero :: "target \<Rightarrow> target \<Rightarrow> unit circ" where
  "conditional_assert_not_zero is_enabled a =
    circ_bind (is_zero a) (\<lambda>is_zero. assert_false (b_and is_enabled is_zero))"

section \<open>Booleans\<close>

definition and_not :: "target \<Rightarrow> target \<Rightarrow> target" where
  "and_not a b = arithmetic (- 1) 1 a b a"

fun multi_and :: "target list \<Rightarrow> target" where
  "multi_and (t # ts) = foldl b_and t ts"

fun multi_or :: "target list \<Rightarrow> target" where
  "multi_or (t # ts) = foldl b_or t ts"

lemma bval_not: "bval t a \<Longrightarrow> bval (b_not t) (\<not> a)"
  and bval_and: "bval t a \<Longrightarrow> bval u b \<Longrightarrow> bval (b_and t u) (a \<and> b)"
  and bval_or: "bval t a \<Longrightarrow> bval u b \<Longrightarrow> bval (b_or t u) (a \<or> b)"
  and bval_and_not: "bval t a \<Longrightarrow> bval u b \<Longrightarrow> bval (and_not t u) (a \<and> \<not> b)"
  by (auto simp: bval_def tval_simps and_not_def)

lemma bval_Const: "bval (Const 1) True" "bval (Const 0) False"
  by (simp_all add: bval_def)

lemma bval_multi_and:
  assumes "list_all2 bval ts bs" "ts \<noteq> []"
  shows "bval (multi_and ts) (\<forall>b\<in>set bs. b)"
proof -
  have fold: "bval (foldl b_and t ts) (a \<and> (\<forall>b\<in>set bs. b))" if "bval t a" "list_all2 bval ts bs" for t a ts bs
    using that(2,1)
  proof (induction ts bs arbitrary: t a rule: list_all2_induct)
    case (Cons u us b bs)
    then show ?case using Cons.IH [OF bval_and [OF Cons.prems Cons.hyps(1)]] by (simp add: conj_ac)
  qed simp
  from assms show ?thesis by (cases ts; cases bs) (auto dest: fold)
qed

lemma bval_multi_or:
  assumes "list_all2 bval ts bs" "ts \<noteq> []"
  shows "bval (multi_or ts) (\<exists>b\<in>set bs. b)"
proof -
  have fold: "bval (foldl b_or t ts) (a \<or> (\<exists>b\<in>set bs. b))" if "bval t a" "list_all2 bval ts bs" for t a ts bs
    using that(2,1)
  proof (induction ts bs arbitrary: t a rule: list_all2_induct)
    case (Cons u us b bs)
    then show ?case using Cons.IH [OF bval_or [OF Cons.prems Cons.hyps(1)]] by (simp add: disj_ac)
  qed simp
  from assms show ?thesis by (cases ts; cases bs) (auto dest: fold)
qed

lemma implements_is_not_equal: "implements (is_not_equal x y) (\<lambda>r. bval r (tval x \<noteq> tval y))"
  unfolding is_not_equal_def
  by (rule implements_bind [OF implements_is_equal]) (auto intro!: implements_return bval_not)

lemma implements_is_zero: "implements (is_zero x) (\<lambda>r. bval r (uval x = 0))"
  using implements_is_equal [of x "Const 0"] by (simp add: is_zero_def)

lemma implements_is_not_zero: "implements (is_not_zero x) (\<lambda>r. bval r (uval x \<noteq> 0))"
  unfolding is_not_zero_def
  by (rule implements_bind [OF implements_is_zero]) (auto intro!: implements_return bval_not)

lemma realises_conditional_assert_not_eq:
  assumes "bval c b"
  shows "realises (conditional_assert_not_eq c x y) (b \<longrightarrow> tval x \<noteq> tval y) (\<lambda>_. True)"
  unfolding conditional_assert_not_eq_def
  by (rule realises_after [OF implements_is_equal])
    (auto intro!: realises_weaken [OF realises_assert_false [OF bval_and [OF assms]]])

lemma realises_conditional_assert_not_zero:
  assumes "bval c b"
  shows "realises (conditional_assert_not_zero c x) (b \<longrightarrow> uval x \<noteq> 0) (\<lambda>_. True)"
  unfolding conditional_assert_not_zero_def
  by (rule realises_after [OF implements_is_zero])
    (auto intro!: realises_weaken [OF realises_assert_false [OF bval_and [OF assms]]])

text \<open>A list of tests joined by \<open>multi_and\<close>.\<close>

lemma implements_all_tests:
  assumes "\<And>x. x \<in> set xs \<Longrightarrow> implements (f x) (\<lambda>r. bval r (P x))" "xs \<noteq> []"
  shows "implements (circ_bind (circ_map f xs) (\<lambda>assertions. circ_return (multi_and assertions))) (\<lambda>r. bval r (\<forall>x\<in>set xs. P x))"
proof (rule implements_bind [OF implements_circ_map [where P = "\<lambda>x r. bval r (P x)", OF assms(1)]], assumption, rule implements_return)
  fix rs assume rs: "list_all2 (\<lambda>x r. bval r (P x)) xs rs"
  then have "list_all2 bval rs (map P xs)" by (auto simp: list_all2_conv_all_nth)
  moreover have "rs \<noteq> []" using rs assms(2) by auto
  ultimately show "bval (multi_and rs) (\<forall>x\<in>set xs. P x)" using bval_multi_and [of rs "map P xs"] by simp
qed

section \<open>Selection\<close>

text \<open>plonky2's \<open>select\<close>: both the gate and the arithmetic version compute \<open>b * x - (b * y - y)\<close>.\<close>

definition builder_select :: "target \<Rightarrow> target \<Rightarrow> target \<Rightarrow> target" where
  "builder_select b x y = (let tmp = b_mul_sub b y y in b_mul_sub b x tmp)"

definition select_or_zero :: "target \<Rightarrow> target \<Rightarrow> target" where
  "select_or_zero b x = b_mul b x"

definition select_if_zero :: "target \<Rightarrow> target \<Rightarrow> target" where
  "select_if_zero b x = arithmetic (- 1) 1 b x x"

definition select :: "target \<Rightarrow> target \<Rightarrow> target \<Rightarrow> target" where
  "select b x y =
    (case target_as_constant b of
       Some const_b \<Rightarrow> if const_b = 0 then y else x
     | None \<Rightarrow>
         let const_x = target_as_constant x; const_y = target_as_constant y in
         if const_x \<noteq> None \<and> const_y \<noteq> None \<and> const_x = const_y then x
         else if const_x = Some 0 then select_if_zero b y
         else if const_y = Some 0 then select_or_zero b x
         else builder_select b x y)"

definition select_bool :: "target \<Rightarrow> target \<Rightarrow> target \<Rightarrow> target" where
  "select_bool flag a b = select flag a b"

definition select_constant :: "target \<Rightarrow> nat \<Rightarrow> nat \<Rightarrow> target" where
  "select_constant b x y = select b (Const (of_nat x)) (Const (of_nat y))"

definition conditional_and :: "target \<Rightarrow> target \<Rightarrow> target \<Rightarrow> target" where
  "conditional_and b b1 b2 = select_bool b (b_and b1 b2) b1"

definition neg_mul_sub :: "target \<Rightarrow> target \<Rightarrow> target \<Rightarrow> target" where
  "neg_mul_sub a b c = arithmetic (- 1) 1 b c a"

lemma tval_select:
  assumes "bval c b"
  shows "tval (select c x y) = (if b then tval x else tval y)"
proof -
  have val: "tval c = of_bool b" using assms by (simp add: bval_def)
  show ?thesis
  proof (cases c)
    case (Const k)
    then show ?thesis using val by (auto simp: select_def)
  next
    case (Wire k)
    have "target_as_constant x = Some 0 \<Longrightarrow> tval x = 0" "target_as_constant y = Some 0 \<Longrightarrow> tval y = 0"
      by (auto dest: target_as_constant_Some)
    moreover have "target_as_constant x \<noteq> None \<Longrightarrow> target_as_constant x = target_as_constant y \<Longrightarrow> tval x = tval y"
      by (metis not_None_eq target_as_constant_Some)
    ultimately show ?thesis
      using val Wire
      by (auto simp: select_def Let_def select_if_zero_def select_or_zero_def builder_select_def tval_simps)
  qed
qed

lemma uval_select: "bval c b \<Longrightarrow> uval (select c x y) = (if b then uval x else uval y)"
  by (simp add: tval_select)

lemma bval_select_bool: "bval c b \<Longrightarrow> bval x u \<Longrightarrow> bval y v \<Longrightarrow> bval (select_bool c x y) (if b then u else v)"
  by (simp add: select_bool_def bval_def [of "select c x y"] tval_select) (simp add: bval_def)

lemma bval_conditional_and:
  "bval c b \<Longrightarrow> bval x u \<Longrightarrow> bval y v \<Longrightarrow> bval (conditional_and c x y) (u \<and> (b \<longrightarrow> v))"
  using bval_select_bool [OF _ bval_and] by (fastforce simp: conditional_and_def split: if_splits)

lemma tval_neg_mul_sub [tval_simps]: "tval (neg_mul_sub a b c) = tval a - tval b * tval c"
  by (simp add: neg_mul_sub_def tval_simps)

text \<open>
  \<open>is_equal\<close> decides equality of field elements, with and without the equality gate: every
  satisfying assignment makes the output the truth value of \<open>x = y\<close>, and one exists for all inputs.
\<close>

theorem is_equal_correct:
  "implements (is_equal x y) (\<lambda>r. tval r = of_bool (tval x = tval y))
   \<and> implements (is_equal_without_gate x y) (\<lambda>r. tval r = of_bool (tval x = tval y))"
  using implements_is_equal implements_is_equal_without_gate by (simp add: bval_def)

end
