(* ===== verification/Byte_Gate.thy ===== *)
theory Byte_Gate
  imports Builder
begin

text \<open>
  \<open>circuit/src/byte/split_gate.rs\<close> and \<open>circuit/src/byte/split.rs\<close>: the gate
  \<open>ByteDecompositionGate\<close>, which writes a value as little-endian bytes (each byte as four base-4 limbs),
  and the gadget \<open>split_bytes\<close> built on it. The gate is always placed with eight bytes and \<open>split_bytes\<close>
  asserts that the superfluous ones vanish.
\<close>

section \<open>The gate\<close>

record ByteDecompositionGate =
  bd_num_limbs :: nat
  bd_num_ops :: nat

definition bd_num_constraints :: "ByteDecompositionGate \<Rightarrow> nat" where
  "bd_num_constraints g = (1 + bd_num_limbs g * 5) * bd_num_ops g"
definition bd_num_wires :: "ByteDecompositionGate \<Rightarrow> nat" where
  "bd_num_wires g = (1 + bd_num_limbs g * 5) * bd_num_ops g"

text \<open>\<open>while num_constraints > 123 && num_ops > 1 { num_ops -= 1 }\<close>\<close>

fun bd_reduce_ops :: "nat \<Rightarrow> nat \<Rightarrow> nat" where
  "bd_reduce_ops num_limbs 0 = 0"
| "bd_reduce_ops num_limbs (Suc n) =
    (if bd_num_constraints \<lparr>bd_num_limbs = num_limbs, bd_num_ops = Suc n\<rparr> > 123 \<and> Suc n > 1
     then bd_reduce_ops num_limbs n else Suc n)"

definition bd_new_from_config :: "nat \<Rightarrow> nat \<Rightarrow> nat \<Rightarrow> ByteDecompositionGate" where
  "bd_new_from_config num_wires num_routed_wires num_limbs =
    (let num_ops = min (num_routed_wires div (1 + num_limbs)) (num_wires div (1 + num_limbs * 5))
     in \<lparr>bd_num_limbs = num_limbs, bd_num_ops = bd_reduce_ops num_limbs num_ops\<rparr>)"

definition i_th_sum :: "ByteDecompositionGate \<Rightarrow> nat \<Rightarrow> nat" where
  "i_th_sum g i = i * (1 + bd_num_limbs g)"

definition i_th_limbs :: "ByteDecompositionGate \<Rightarrow> nat \<Rightarrow> nat list" where
  "i_th_limbs g i = (let start = 1 + i * (1 + bd_num_limbs g) in [start..<start + bd_num_limbs g])"

definition i_th_aux_limbs :: "ByteDecompositionGate \<Rightarrow> nat \<Rightarrow> nat list" where
  "i_th_aux_limbs g i =
    (let start = (1 + bd_num_limbs g) * bd_num_ops g + i * (4 * bd_num_limbs g)
     in [start..<start + 4 * bd_num_limbs g])"

fun chunks4 :: "'a list \<Rightarrow> 'a list list" where
  "chunks4 [] = []"
| "chunks4 xs = take 4 xs # chunks4 (drop 4 xs)"

section \<open>Evaluation routines\<close>

definition bd_eval_op :: "ByteDecompositionGate \<Rightarrow> (nat \<Rightarrow> 'f::comm_ring_1) \<Rightarrow> nat \<Rightarrow> 'f list" where
  "bd_eval_op g local_wires i =
    (let limbs = map local_wires (i_th_aux_limbs g i);
         bytes = map local_wires (i_th_limbs g i);
         expected_sum = local_wires (i_th_sum g i)
     in map (range_product 4) limbs
        @ map (\<lambda>(index, chunk). reduce_with_powers chunk 4 - bytes ! index) (enumerate 0 (chunks4 limbs))
        @ [reduce_with_powers bytes 256 - expected_sum])"

definition bd_eval_unfiltered :: "ByteDecompositionGate \<Rightarrow> (nat \<Rightarrow> 'f::comm_ring_1) \<Rightarrow> 'f list" where
  "bd_eval_unfiltered g local_wires = concat (map (bd_eval_op g local_wires) [0..<bd_num_ops g])"

definition bd_eval_circuit_op :: "ByteDecompositionGate \<Rightarrow> (nat \<Rightarrow> 'f::comm_ring_1) \<Rightarrow> nat \<Rightarrow> 'f list" where
  "bd_eval_circuit_op g local_wires i =
    (let limbs = map local_wires (i_th_aux_limbs g i);
         bytes = map local_wires (i_th_limbs g i);
         expected_sum = local_wires (i_th_sum g i)
     in map (arithmetic_range_product 4) limbs
        @ map (\<lambda>(index, chunk). reduce_with_powers_ext_circuit chunk 4 - bytes ! index) (enumerate 0 (chunks4 limbs))
        @ [reduce_with_powers_ext_circuit bytes 256 - expected_sum])"

definition bd_eval_unfiltered_circuit :: "ByteDecompositionGate \<Rightarrow> (nat \<Rightarrow> 'f::comm_ring_1) \<Rightarrow> 'f list" where
  "bd_eval_unfiltered_circuit g local_wires = concat (map (bd_eval_circuit_op g local_wires) [0..<bd_num_ops g])"

text \<open>\<open>eval_unfiltered_base_packed\<close>: the chunks are slices \<open>j * 4..(j + 1) * 4\<close> of the limbs.\<close>

definition bd_eval_packed_op :: "ByteDecompositionGate \<Rightarrow> (nat \<Rightarrow> 'f::comm_ring_1) \<Rightarrow> nat \<Rightarrow> 'f list" where
  "bd_eval_packed_op g local_wires i =
    (let limbs = map local_wires (i_th_aux_limbs g i);
         bytes = map local_wires (i_th_limbs g i);
         expected_sum = local_wires (i_th_sum g i)
     in map (range_product 4) limbs
        @ map (\<lambda>j. reduce_with_powers (take 4 (drop (j * 4) limbs)) 4 - bytes ! j) [0..<bd_num_limbs g]
        @ [reduce_with_powers bytes 256 - expected_sum])"

definition bd_eval_unfiltered_base_packed :: "ByteDecompositionGate \<Rightarrow> (nat \<Rightarrow> 'f::comm_ring_1) \<Rightarrow> 'f list" where
  "bd_eval_unfiltered_base_packed g local_wires = concat (map (bd_eval_packed_op g local_wires) [0..<bd_num_ops g])"

text \<open>
  The batch routines start a recombination from a copy of its highest column:
  \<open>out.copy_from_slice(top); for col in rest.rev() { out = out * base + col }; out -= target\<close>.
\<close>

definition batch_recombine ::
  "'f::comm_ring_1 \<Rightarrow> nat \<Rightarrow> (nat \<Rightarrow> nat \<Rightarrow> 'f) \<Rightarrow> nat \<Rightarrow> nat list \<Rightarrow> nat \<Rightarrow> 'f list" where
  "batch_recombine base n col topw rest tgt =
    (let out = foldl (\<lambda>out k. map (\<lambda>p. out ! p * base + col p k) [0..<n]) (map (\<lambda>p. col p topw) [0..<n]) (rev rest)
     in map (\<lambda>p. out ! p - col p tgt) [0..<n])"

definition bd_eval_batch_op ::
  "ByteDecompositionGate \<Rightarrow> nat \<Rightarrow> (nat \<Rightarrow> 'f::comm_ring_1) \<Rightarrow> nat \<Rightarrow> 'f list list" where
  "bd_eval_batch_op g n wires i =
    (let aux = i_th_aux_limbs g i; bytes = i_th_limbs g i; aux_start = hd aux;
         col = batch_point n wires
     in map (\<lambda>limb_wire. map (\<lambda>p. range_product4 (col p limb_wire)) [0..<n]) aux
        @ map (\<lambda>(byte_index, byte_wire).
             let chunk_start = aux_start + 4 * byte_index
             in batch_recombine 4 n col (chunk_start + 3) (map (\<lambda>k. chunk_start + k) [0..<3]) byte_wire)
           (enumerate 0 bytes)
        @ [batch_recombine 256 n col (last bytes) (butlast bytes) (i_th_sum g i)])"

definition bd_eval_unfiltered_base_batch ::
  "ByteDecompositionGate \<Rightarrow> nat \<Rightarrow> (nat \<Rightarrow> 'f::comm_ring_1) \<Rightarrow> 'f list list" where
  "bd_eval_unfiltered_base_batch g n wires = concat (map (bd_eval_batch_op g n wires) [0..<bd_num_ops g])"

text \<open>\<open>eval_unfiltered_base_batch_accumulate\<close> computes the same rows in its scratch space.\<close>

definition bd_accumulate_op ::
  "ByteDecompositionGate \<Rightarrow> nat \<Rightarrow> (nat \<Rightarrow> 'f::comm_ring_1) \<Rightarrow> nat \<Rightarrow> 'f list list" where
  "bd_accumulate_op g n wires i =
    (let aux = i_th_aux_limbs g i; bytes = i_th_limbs g i; aux_start = hd aux;
         col = batch_point n wires
     in map (\<lambda>limb_wire. map (\<lambda>p. range_product4 (col p limb_wire)) [0..<n]) aux
        @ map (\<lambda>(byte_index, byte_wire).
             let chunk_start = aux_start + 4 * byte_index
             in batch_recombine 4 n col (chunk_start + 3) (map (\<lambda>k. chunk_start + k) [0..<3]) byte_wire)
           (enumerate 0 bytes)
        @ [batch_recombine 256 n col (last bytes) (butlast bytes) (i_th_sum g i)])"

definition bd_accumulate_scratches ::
  "ByteDecompositionGate \<Rightarrow> nat \<Rightarrow> (nat \<Rightarrow> 'f::comm_ring_1) \<Rightarrow> 'f list list" where
  "bd_accumulate_scratches g n wires = concat (map (bd_accumulate_op g n wires) [0..<bd_num_ops g])"

definition bd_eval_unfiltered_base_batch_accumulate ::
  "ByteDecompositionGate \<Rightarrow> nat \<Rightarrow> (nat \<Rightarrow> 'f::comm_ring_1) \<Rightarrow> 'f list \<Rightarrow> 'f list \<Rightarrow> 'f list option" where
  "bd_eval_unfiltered_base_batch_accumulate g n wires filters combined =
     accumulate_checked (bd_num_constraints g) n (bd_accumulate_scratches g n wires) filters combined"

section \<open>The witness generator\<close>

fun bd_digits :: "nat \<Rightarrow> nat list \<Rightarrow> nat \<Rightarrow> (nat \<times> gf) list" where
  "bd_digits base [] acc = []"
| "bd_digits base (i # is) acc = (i, of_nat (acc mod base)) # bd_digits base is (acc div base)"

definition bd_run_once :: "ByteDecompositionGate \<Rightarrow> (nat \<Rightarrow> gf) \<Rightarrow> nat \<Rightarrow> (nat \<times> gf) list" where
  "bd_run_once g get_target i =
    (let sum_value = to_canonical_u64 (get_target (i_th_sum g i))
     in bd_digits 256 (i_th_limbs g i) sum_value @ bd_digits 4 (i_th_aux_limbs g i) sum_value)"

section \<open>The routines agree\<close>

definition bd_op_constraints :: "nat \<Rightarrow> (nat \<Rightarrow> 'f::comm_ring_1) \<Rightarrow> (nat \<Rightarrow> 'f) \<Rightarrow> 'f \<Rightarrow> 'f list" where
  "bd_op_constraints n aux byte total_sum =
     map (\<lambda>k. range_product 4 (aux k)) [0..<4 * n]
     @ map (\<lambda>j. le_value 4 (map (\<lambda>k. aux (4 * j + k)) [0..<4]) - byte j) [0..<n]
     @ [le_value 256 (map byte [0..<n]) - total_sum]"

abbreviation bd_aux_wire :: "ByteDecompositionGate \<Rightarrow> nat \<Rightarrow> nat \<Rightarrow> nat" where
  "bd_aux_wire g i k \<equiv> (1 + bd_num_limbs g) * bd_num_ops g + i * (4 * bd_num_limbs g) + k"

abbreviation bd_byte_wire :: "ByteDecompositionGate \<Rightarrow> nat \<Rightarrow> nat \<Rightarrow> nat" where
  "bd_byte_wire g i j \<equiv> 1 + i * (1 + bd_num_limbs g) + j"

abbreviation bd_op_at :: "ByteDecompositionGate \<Rightarrow> (nat \<Rightarrow> 'f::comm_ring_1) \<Rightarrow> nat \<Rightarrow> 'f list" where
  "bd_op_at g w i \<equiv> bd_op_constraints (bd_num_limbs g) (\<lambda>k. w (bd_aux_wire g i k)) (\<lambda>j. w (bd_byte_wire g i j))
     (w (i_th_sum g i))"

lemma upt_shift: "[a..<a + n] = map (\<lambda>k. a + k) [0..<n]"
  by (rule nth_equalityI) simp_all

lemma chunks4_map: "chunks4 (map f [0..<4 * n]) = map (\<lambda>j. map (\<lambda>k. f (4 * j + k)) [0..<4]) [0..<n]"
proof (induction n arbitrary: f)
  case 0
  then show ?case by simp
next
  case (Suc n)
  have split: "[0..<4 * Suc n] = [0..<4] @ map (\<lambda>k. 4 + k) [0..<4 * n]"
    using upt_add_eq_append [of 0 4 "4 * n"] upt_shift [of 4 "4 * n"] by (simp del: upt_rec_numeral)
  have ne: "zs \<noteq> [] \<Longrightarrow> chunks4 zs = take 4 zs # chunks4 (drop 4 zs)" for zs :: "'a list"
    by (cases zs) simp_all
  have "chunks4 (xs @ ys) = xs # chunks4 ys" if "length xs = 4" for xs ys :: "'a list"
    using that by (subst ne) auto
  then have "chunks4 (map f [0..<4 * Suc n]) = map f [0..<4] # chunks4 (map (\<lambda>k. f (4 + k)) [0..<4 * n])"
    unfolding split map_append map_map by (simp add: comp_def del: upt_rec_numeral)
  also have "\<dots> = map (\<lambda>k. f (4 * 0 + k)) [0..<4] # map (\<lambda>j. map (\<lambda>k. f (4 * Suc j + k)) [0..<4]) [0..<n]"
    by (simp add: Suc.IH add.assoc del: upt_rec_numeral)
  also have "\<dots> = map (\<lambda>j. map (\<lambda>k. f (4 * j + k)) [0..<4]) [0..<Suc n]"
    by (simp only: upt_conv_Cons [OF zero_less_Suc] list.map map_Suc_upt [symmetric] map_map comp_def)
  finally show ?case .
qed

lemma enumerate_map_upt: "enumerate 0 (map f [0..<n]) = map (\<lambda>j. (j, f j)) [0..<n]"
  by (rule nth_equalityI) (simp_all add: nth_enumerate_eq)

lemma bd_wires:
  "i_th_aux_limbs g i = map (bd_aux_wire g i) [0..<4 * bd_num_limbs g]"
  "i_th_limbs g i = map (bd_byte_wire g i) [0..<bd_num_limbs g]"
  by (intro nth_equalityI; simp add: i_th_aux_limbs_def i_th_limbs_def Let_def del: upt_Suc)+

lemma bd_eval_op_eq: "bd_eval_op g w i = bd_op_at g w i"
  unfolding bd_eval_op_def bd_op_constraints_def Let_def bd_wires map_map comp_def chunks4_map
    enumerate_map_upt prod.case reduce_with_powers_eq
  by (simp del: upt_rec_numeral cong: map_cong)

lemma bd_eval_circuit_op_eq: "bd_eval_circuit_op g = bd_eval_op g"
  unfolding bd_eval_circuit_op_def bd_eval_op_def fun_eq_iff
  by (simp add: reduce_with_powers_eq reduce_with_powers_ext_circuit_eq arithmetic_range_product_eq)

lemma take_drop_map_upt: "j * 4 + 4 \<le> m \<Longrightarrow> take 4 (drop (j * 4) (map f [0..<m])) = map (\<lambda>k. f (4 * j + k)) [0..<4]"
  by (rule nth_equalityI) (simp_all add: mult.commute del: upt_rec_numeral)

lemma bd_eval_packed_op_eq: "bd_eval_packed_op g = bd_eval_op g"
proof (intro ext)
  fix w :: "nat \<Rightarrow> 'a" and i
  have "map (\<lambda>j. reduce_with_powers (take 4 (drop (j * 4) (map w (i_th_aux_limbs g i)))) 4 - map w (i_th_limbs g i) ! j) [0..<bd_num_limbs g]
      = map (\<lambda>j. le_value 4 (map (\<lambda>k. w (bd_aux_wire g i (4 * j + k))) [0..<4]) - w (bd_byte_wire g i j)) [0..<bd_num_limbs g]"
    unfolding bd_wires map_map comp_def reduce_with_powers_eq
    by (intro map_cong refl, subst take_drop_map_upt) (simp_all del: upt_rec_numeral)
  then show "bd_eval_packed_op g w i = bd_eval_op g w i"
    unfolding bd_eval_op_eq unfolding bd_eval_packed_op_def bd_op_constraints_def Let_def
    by (simp add: bd_wires reduce_with_powers_eq comp_def del: upt_rec_numeral)
qed

lemma batch_recombine_eq:
  "batch_recombine base n col topw rest tgt
    = map (\<lambda>p. le_value base (map (col p) (rest @ [topw])) - col p tgt) [0..<n]"
proof -
  have z: "map (\<lambda>p. replicate n 0 ! p * base + col p topw) [0..<n] = map (\<lambda>p. col p topw) [0..<n]" by simp
  have "foldl (\<lambda>out k. map (\<lambda>p. out ! p * base + col p k) [0..<n]) (map (\<lambda>p. col p topw) [0..<n]) (rev rest)
      = batch_horner base n col (rev (rest @ [topw]))"
    unfolding batch_horner_def rev_append rev.simps append_Nil append_Cons foldl_Cons z ..
  then show ?thesis unfolding batch_recombine_def batch_horner_eq Let_def by simp
qed

lemma bd_batch_op_chunked:
  assumes "0 < bd_num_limbs g"
  shows "chunked n (\<lambda>p. bd_eval_op g (batch_point n wires p) i) (bd_eval_batch_op g n wires i)"
proof -
  let ?m = "bd_num_limbs g"
  have hd: "hd (i_th_aux_limbs g i) = bd_aux_wire g i 0"
    using assms by (simp add: i_th_aux_limbs_def Let_def)
  have "i_th_limbs g i \<noteq> []" using assms by (simp add: i_th_limbs_def Let_def)
  then have bytes: "butlast (i_th_limbs g i) @ [last (i_th_limbs g i)] = i_th_limbs g i" by simp
  have upt: "map (\<lambda>k. a + k) [0..<3] @ [a + 3] = map (\<lambda>k. a + k) [0..<4]" for a :: nat
    by (simp add: upt_rec)
  show ?thesis
    unfolding bd_eval_batch_op_def bd_eval_op_eq bd_op_constraints_def Let_def hd batch_recombine_eq bytes upt
    unfolding bd_wires enumerate_map_upt map_map comp_def prod.case range_product_4
    by (intro chunked_append chunked_map)
      (auto simp: chunked_def comp_def add.assoc simp del: upt_rec_numeral cong: map_cong)
qed

text \<open>The gate is only ever built with at least one byte.\<close>

locale bd_gate =
  fixes g :: ByteDecompositionGate
  assumes limbs_positive: "0 < bd_num_limbs g"

sublocale bd_gate \<subseteq> variants: gate_variants "bd_num_constraints g" "bd_eval_unfiltered g"
  "bd_eval_unfiltered_circuit g" "bd_eval_unfiltered_base_packed g"
  "bd_eval_unfiltered_base_batch g" "bd_accumulate_scratches g"
proof -
  have acc: "bd_accumulate_op g = bd_eval_batch_op g" unfolding bd_accumulate_op_def bd_eval_batch_op_def ..
  show "gate_variants (bd_num_constraints g) (bd_eval_unfiltered g) (bd_eval_unfiltered_circuit g)
    (bd_eval_unfiltered_base_packed g) (bd_eval_unfiltered_base_batch g) (bd_accumulate_scratches g)"
    unfolding bd_num_constraints_def mult.commute [of _ "bd_num_ops g"] bd_eval_unfiltered_def [abs_def]
      bd_eval_unfiltered_circuit_def [abs_def] bd_eval_unfiltered_base_packed_def [abs_def]
      bd_eval_unfiltered_base_batch_def [abs_def] bd_accumulate_scratches_def [abs_def] acc
    by (rule gate_variants_concat)
      (simp_all add: bd_eval_circuit_op_eq bd_eval_packed_op_eq bd_batch_op_chunked limbs_positive,
        simp add: bd_eval_op_eq bd_op_constraints_def)
qed

context bd_gate
begin

lemmas bd_routines_agree = variants.routines_agree

end

interpretation bd8: bd_gate "\<lparr>bd_num_limbs = 8, bd_num_ops = n\<rparr>" for n
  by unfold_locales simp


section \<open>Digits of a field element\<close>

lemma field_digits_unique:
  fixes x :: gf
  assumes "\<forall>d\<in>set ds. d < B" "B ^ length ds \<le> p_nat" "0 < B" "of_nat (le_value B ds) = x"
  shows "ds = le_digits B (length ds) (to_canonical_u64 x)" and "to_canonical_u64 x < B ^ length ds"
proof -
  have lt: "le_value B ds < B ^ length ds" using le_value_bound [OF assms(1)] .
  have x: "to_canonical_u64 x = le_value B ds"
    unfolding assms(4) [symmetric] by (rule to_canonical_of_nat_small [OF less_le_trans [OF lt assms(2)]])
  show "ds = le_digits B (length ds) (to_canonical_u64 x)"
    unfolding x using le_digits_value [OF assms(3,1)] by simp
  show "to_canonical_u64 x < B ^ length ds" using lt x by simp
qed

lemma le_value_uval: "of_nat (le_value B (map to_canonical_u64 xs)) = le_value (of_nat B) (xs :: gf list)"
  by (simp add: of_nat_le_value comp_def)

lemma le_value_digits_field:
  "to_canonical_u64 x < B ^ n \<Longrightarrow> le_value (of_nat B) (map of_nat (le_digits B n (to_canonical_u64 x))) = (x :: gf)"
  using of_nat_le_value [of B "le_digits B n (to_canonical_u64 x)", where 'a = gf, symmetric]
  by (simp add: le_value_digits)

section \<open>Soundness of the constraints\<close>

lemma bd_op_sound:
  fixes aux byte :: "nat \<Rightarrow> gf"
  assumes "\<forall>c\<in>set (bd_op_constraints n aux byte v). c = 0"
  shows "\<forall>j<n. to_canonical_u64 (byte j) < 256" and "of_nat (le_value 256 (map (\<lambda>j. to_canonical_u64 (byte j)) [0..<n])) = v"
proof -
  have range: "\<forall>k\<in>{0..<4 * n}. range_product 4 (aux k) = 0"
    and bytes: "\<forall>j\<in>{0..<n}. le_value 4 (map (\<lambda>k. aux (4 * j + k)) [0..<4]) - byte j = 0"
    and v: "le_value 256 (map byte [0..<n]) - v = 0"
    using assms by (simp_all add: bd_op_constraints_def ball_Un del: upt_rec_numeral)
  have "to_canonical_u64 (byte j) < 4 ^ length [0..<4]" if j: "j < n" for j
  proof (rule limb_range_value [of _ "\<lambda>k. aux (4 * j + k)"])
    show "\<forall>k\<in>set [0..<4]. range_product 4 (aux (4 * j + k)) = 0"
      using range j by (auto simp del: upt_rec_numeral)
    show "byte j = le_value 4 (map (\<lambda>k. aux (4 * j + k)) [0..<4])"
      using bspec [OF bytes, of j] j by (simp del: upt_rec_numeral)
  qed simp
  then show "\<forall>j<n. to_canonical_u64 (byte j) < 256" by simp
  show "of_nat (le_value 256 (map (\<lambda>j. to_canonical_u64 (byte j)) [0..<n])) = v"
    using le_value_uval [of 256 "map byte [0..<n]"] v by (simp add: comp_def)
qed

lemma bd_op_complete:
  fixes aux byte :: "nat \<Rightarrow> gf"
  assumes "\<And>j. j < n \<Longrightarrow> b j < 256" "\<And>j. j < n \<Longrightarrow> byte j = of_nat (b j)"
    and "\<And>j k. j < n \<Longrightarrow> k < 4 \<Longrightarrow> aux (4 * j + k) = of_nat (le_digits 4 4 (b j) ! k)"
    and "of_nat (le_value 256 (map b [0..<n])) = v"
  shows "\<forall>c\<in>set (bd_op_constraints n aux byte v). c = 0"
proof -
  have range: "range_product 4 (aux k) = 0" if "k < 4 * n" for k
  proof -
    have jk: "k div 4 < n" "k mod 4 < 4" "4 * (k div 4) + k mod 4 = k" using that by auto
    then show ?thesis
      using assms(3) [OF jk(1,2)] le_digits_range [OF jk(2), of "b (k div 4)"] by (simp add: range_product_4_zero)
  qed
  have "le_value 4 (map (\<lambda>k. aux (4 * j + k)) [0..<4]) = byte j" if "j < n" for j
  proof -
    have "map (\<lambda>k. aux (4 * j + k)) [0..<4] = map of_nat (le_digits 4 4 (b j))"
      by (rule nth_equalityI) (simp_all add: assms(3) [OF that] del: upt_rec_numeral)
    moreover have "to_canonical_u64 (byte j) = b j" using assms(1,2) [OF that] by simp
    ultimately show ?thesis
      using le_value_digits_field [of "byte j" 4 4] assms(1) [OF that] by simp
  qed
  moreover have "le_value 256 (map byte [0..<n]) = v"
  proof -
    have eq: "map byte [0..<n] = map of_nat (map b [0..<n])" using assms(2) by simp
    show ?thesis unfolding eq using assms(4) of_nat_le_value [of 256 "map b [0..<n]", where 'a = gf] by simp
  qed
  ultimately show ?thesis
    using range by (auto simp: bd_op_constraints_def simp del: upt_rec_numeral)
qed

section \<open>Splitting into bytes\<close>

definition GOLDILOCKS_BYTES :: nat where "GOLDILOCKS_BYTES = 8"

definition split_bytes :: "target \<Rightarrow> nat \<Rightarrow> target list circ" where
  "split_bytes x num_bytes =
    circ_bind (gate_slot (bd_eval_unfiltered \<lparr>bd_num_limbs = GOLDILOCKS_BYTES, bd_num_ops = 1\<rparr>) [x]
        (5 * GOLDILOCKS_BYTES)) (\<lambda>free.
    let result = take GOLDILOCKS_BYTES free in
    circ_bind (circ_for (drop num_bytes result) assert_zero) (\<lambda>_.
    circ_return (take num_bytes result)))"

lemma bd_slot_row:
  assumes "length bs = 8"
  shows "bd_eval_unfiltered \<lparr>bd_num_limbs = GOLDILOCKS_BYTES, bd_num_ops = 1\<rparr> (\<lambda>k. ([x] @ bs @ aux) ! k)
    = bd_op_constraints 8 (\<lambda>k. aux ! k) (\<lambda>j. (bs @ aux) ! j) x"
proof -
  have "([x] @ bs @ aux) ! (9 + k) = aux ! k" for k using assms by (simp add: nth_append nth_Cons')
  then show ?thesis
    by (simp add: bd_eval_unfiltered_def bd_eval_op_eq i_th_sum_def GOLDILOCKS_BYTES_def)
qed

definition byte_decomposition :: "nat list \<Rightarrow> gf \<Rightarrow> bool" where
  "byte_decomposition bs x \<longleftrightarrow> length bs = 8 \<and> (\<forall>b\<in>set bs. b < 256) \<and> of_nat (le_value 256 bs) = x"

lemma sound_bd_slot:
  "sound (gate_slot (bd_eval_unfiltered \<lparr>bd_num_limbs = GOLDILOCKS_BYTES, bd_num_ops = 1\<rparr>) [x] (5 * GOLDILOCKS_BYTES))
    (\<lambda>free. length free = 40 \<and> byte_decomposition (map uval (take 8 free)) (tval x))"
proof -
  have "sound (gate_slot (bd_eval_unfiltered \<lparr>bd_num_limbs = GOLDILOCKS_BYTES, bd_num_ops = 1\<rparr>) [x] (5 * GOLDILOCKS_BYTES))
    (\<lambda>free. length free = 5 * GOLDILOCKS_BYTES \<and> byte_decomposition (map to_canonical_u64 (take 8 (map tval free))) (tval x))"
  proof (rule sound_gate_slot)
    fix vs :: "gf list"
    assume len: "length vs = 5 * GOLDILOCKS_BYTES"
      and zero: "\<forall>c\<in>set (bd_eval_unfiltered \<lparr>bd_num_limbs = GOLDILOCKS_BYTES, bd_num_ops = 1\<rparr>
        (\<lambda>k. (map tval [x] @ vs) ! k)). c = 0"
    define bs aux where "bs = take 8 vs" and "aux = drop 8 vs"
    have vs: "vs = bs @ aux" "length bs = 8" using len by (simp_all add: bs_def aux_def GOLDILOCKS_BYTES_def)
    have zero': "\<forall>c\<in>set (bd_op_constraints 8 (\<lambda>k. aux ! k) (\<lambda>j. (bs @ aux) ! j) (tval x)). c = 0"
      using zero bd_slot_row [OF vs(2), of "tval x" aux] by (simp add: vs(1))
    have "map (\<lambda>j. to_canonical_u64 ((bs @ aux) ! j)) [0..<8] = map to_canonical_u64 bs"
      using vs(2) by (intro nth_equalityI) (simp_all add: nth_append del: upt_rec_numeral)
    then show "byte_decomposition (map to_canonical_u64 (take 8 vs)) (tval x)"
      using bd_op_sound [OF zero'] vs
      by (auto simp: byte_decomposition_def in_set_conv_nth nth_append simp del: upt_rec_numeral)
  qed
  then show ?thesis by (rule sound_weaken) (simp add: GOLDILOCKS_BYTES_def take_map comp_def)
qed

lemma complete_bd_slot:
  assumes "byte_decomposition bs (tval x)"
  shows "complete (gate_slot (bd_eval_unfiltered \<lparr>bd_num_limbs = GOLDILOCKS_BYTES, bd_num_ops = 1\<rparr>) [x] (5 * GOLDILOCKS_BYTES))
    (\<lambda>free. length free = 40 \<and> map uval (take 8 free) = bs)"
proof -
  have bs: "length bs = 8" "\<forall>b\<in>set bs. b < 256" "of_nat (le_value 256 bs) = tval x"
    using assms by (simp_all add: byte_decomposition_def)
  define aux :: "gf list" where "aux = concat (map (\<lambda>b. map of_nat (le_digits 4 4 b)) bs)"
  let ?vs = "map of_nat bs @ aux"
  have wid: "\<forall>xs\<in>set (map (\<lambda>b. map of_nat (le_digits 4 4 b)) bs). length xs = 4" by auto
  have aux_nth: "aux ! (4 * j + k) = of_nat (le_digits 4 4 (bs ! j) ! k)" if "j < 8" "k < 4" for j k
    using nth_concat_const [OF wid, of j k] that bs(1) unfolding aux_def by (simp add: mult.commute)
  have len: "length aux = 32" unfolding aux_def using length_concat_const [OF wid] bs(1) by simp
  have bytes: "map (\<lambda>j. bs ! j) [0..<8] = bs" using bs(1) map_nth [of bs] by simp
  have "\<forall>c\<in>set (bd_op_constraints 8 (\<lambda>k. aux ! k) (\<lambda>j. (map of_nat bs @ aux) ! j) (tval x)). c = 0"
  proof (rule bd_op_complete [where b = "\<lambda>j. bs ! j"])
    show "of_nat (le_value 256 (map (\<lambda>j. bs ! j) [0..<8])) = tval x" unfolding bytes by (rule bs(3))
  qed (use bs aux_nth in \<open>simp_all add: nth_append\<close>)
  then have zero: "\<forall>c\<in>set (bd_eval_unfiltered \<lparr>bd_num_limbs = GOLDILOCKS_BYTES, bd_num_ops = 1\<rparr>
      (\<lambda>k. (map tval [x] @ ?vs) ! k)). c = 0"
    using bd_slot_row [of "map of_nat bs" "tval x" aux] bs(1) by simp
  have small: "map (to_canonical_u64 \<circ> of_nat) bs = bs"
    using bs(2) by (intro map_idI) auto
  have "complete (gate_slot (bd_eval_unfiltered \<lparr>bd_num_limbs = GOLDILOCKS_BYTES, bd_num_ops = 1\<rparr>) [x]
      (5 * GOLDILOCKS_BYTES)) (\<lambda>free. free = map Wire ?vs)"
    using zero bs(1) len by (intro complete_gate_slot) (simp_all add: GOLDILOCKS_BYTES_def)
  then show ?thesis
    by (rule complete_weaken) (use bs(1) len small in \<open>auto simp: comp_def\<close>)
qed

lemma assert_zero_tail:
  "realises (circ_for ts assert_zero) (\<forall>t\<in>set ts. uval t = 0) (\<lambda>_. True)"
  by (rule realises_for) (rule realises_assert_zero)

lemma sound_split_bytes:
  assumes "n \<le> 8"
  shows "sound (split_bytes x n) (\<lambda>bs. length bs = n \<and> byte_decomposition (map uval bs @ replicate (8 - n) 0) (tval x))"
  unfolding split_bytes_def Let_def
proof (rule sound_bind [OF sound_bd_slot], rule sound_bind [OF realises_sound [OF assert_zero_tail]], rule sound_return)
  fix free u
  assume free: "length free = 40 \<and> byte_decomposition (map uval (take 8 free)) (tval x)"
    and zero: "(\<forall>t\<in>set (drop n (take GOLDILOCKS_BYTES free)). uval t = 0) \<and> True"
  have "map uval (drop n (take 8 free)) = replicate (8 - n) 0"
    using zero free by (intro replicate_eqI) (auto simp: GOLDILOCKS_BYTES_def)
  then have "map uval (take 8 free) = map uval (take n (take 8 free)) @ replicate (8 - n) 0"
    by (metis append_take_drop_id map_append)
  then show "length (take n (take GOLDILOCKS_BYTES free)) = n \<and>
      byte_decomposition (map uval (take n (take GOLDILOCKS_BYTES free)) @ replicate (8 - n) 0) (tval x)"
    using free assms by (simp add: GOLDILOCKS_BYTES_def)
qed

lemma complete_split_bytes:
  assumes "n \<le> 8" "length bs = n" "byte_decomposition (bs @ replicate (8 - n) 0) (tval x)"
  shows "complete (split_bytes x n) (\<lambda>ts. map uval ts = bs)"
  unfolding split_bytes_def Let_def
proof (rule complete_bind [OF complete_bd_slot [OF assms(3)]])
  fix free
  assume free: "length free = 40 \<and> map uval (take 8 free) = bs @ replicate (8 - n) 0"
  have "map uval (drop n (take 8 free)) = replicate (8 - n) 0"
    using free assms(2) by (metis append_eq_conv_conj drop_map)
  then have "\<forall>t\<in>set (drop n (take GOLDILOCKS_BYTES free)). uval t = 0"
    by (metis GOLDILOCKS_BYTES_def image_eqI in_set_replicate set_map)
  moreover have "map uval (take n (take 8 free)) = bs"
    using free assms(2) by (metis append_eq_conv_conj take_map)
  ultimately show "complete (circ_bind (circ_for (drop n (take GOLDILOCKS_BYTES free)) assert_zero)
      (\<lambda>_. circ_return (take n (take GOLDILOCKS_BYTES free)))) (\<lambda>ts. map uval ts = bs)"
    by (intro complete_bind [OF implements_complete [OF realises_implements [OF assert_zero_tail]]] complete_return)
      (simp_all add: GOLDILOCKS_BYTES_def)
qed

text \<open>Up to seven bytes the decomposition is unique and exists exactly for the values that fit.\<close>

lemma realises_split_bytes:
  assumes "n \<le> 7"
  shows "realises (split_bytes x n) (uval x < 256 ^ n) (\<lambda>ts. map uval ts = le_digits 256 n (uval x))"
proof (rule realisesI)
  have pow: "(256::nat) ^ n \<le> 256 ^ 7" using assms by (intro power_increasing) simp_all
  then have le: "(256::nat) ^ n \<le> p_nat" by simp
  show "sound (split_bytes x n) (\<lambda>ts. uval x < 256 ^ n \<and> map uval ts = le_digits 256 n (uval x))"
  proof (rule sound_weaken [OF sound_split_bytes])
    show "n \<le> 8" using assms by simp
    fix ts assume ts: "length ts = n \<and> byte_decomposition (map uval ts @ replicate (8 - n) 0) (tval x)"
    then have "\<forall>d\<in>set (map uval ts). d < 256" "of_nat (le_value 256 (map uval ts)) = tval x"
      by (auto simp: byte_decomposition_def le_value_append)
    from field_digits_unique [OF this(1) _ _ this(2)] ts le
    show "uval x < 256 ^ n \<and> map uval ts = le_digits 256 n (uval x)" by simp
  qed
  show "complete (split_bytes x n) (\<lambda>_. True)" if "uval x < 256 ^ n"
  proof -
    have "byte_decomposition (le_digits 256 n (uval x) @ replicate (8 - n) 0) (tval x)"
      using assms that le_digits_lt [of 256] by (auto simp: byte_decomposition_def le_value_append le_value_digits)
    then show ?thesis
      using assms complete_split_bytes [of n "le_digits 256 n (uval x)" x] by (auto intro: complete_weaken)
  qed
qed

section \<open>Splitting into bits\<close>

text \<open>
  plonky2's \<open>split_le\<close>: the limbs of its \<open>BaseSumGate::<2>\<close> rows are bits, those beyond \<open>num_bits\<close>
  are zero, and the weighted sum is connected to the integer. No bits at all constrain nothing.
\<close>

definition split_le :: "target \<Rightarrow> nat \<Rightarrow> target list circ" where
  "split_le x bit_count =
    (if bit_count = 0 then circ_return []
     else
       circ_bind (add_virtual_targets bit_count) (\<lambda>bits.
       circ_bind (circ_for bits (\<lambda>b. circ_assert (range_product 2 (tval b) = 0))) (\<lambda>_.
       circ_bind (connect (Wire (le_value 2 (map tval bits))) x) (\<lambda>_.
       circ_return bits))))"

lemma range_product_2_zero: "range_product 2 (x::gf) = 0 \<longleftrightarrow> to_canonical_u64 x < 2"
  by (rule range_product_zero_iff) simp

lemma realises_split_le:
  assumes "n \<le> 63" "n \<noteq> 0"
  shows "realises (split_le x n) (uval x < 2 ^ n) (\<lambda>ts. map uval ts = le_digits 2 n (uval x))"
proof (rule realisesI)
  have "(2::nat) ^ n \<le> 2 ^ 63" using assms by (intro power_increasing) simp_all
  then have le: "(2::nat) ^ n \<le> p_nat" by simp
  have for_bits: "realises (circ_for ts (\<lambda>b. circ_assert (range_product 2 (tval b) = 0))) (\<forall>t\<in>set ts. uval t < 2) (\<lambda>_. True)" for ts
    unfolding range_product_2_zero by (rule realises_for) (rule realises_assert)
  show "sound (split_le x n) (\<lambda>ts. uval x < 2 ^ n \<and> map uval ts = le_digits 2 n (uval x))"
    unfolding split_le_def if_not_P [OF assms(2)]
  proof (rule sound_bind [OF sound_add_virtual_targets], rule sound_bind [OF realises_sound [OF for_bits]],
      rule sound_bind [OF realises_sound [OF realises_connect]], rule sound_return)
    fix ts u v
    assume len: "length ts = n" and bits: "(\<forall>t\<in>set ts. uval t < 2) \<and> True"
      and val: "tval (Wire (le_value 2 (map tval ts))) = tval x \<and> True"
    have "of_nat (le_value 2 (map uval ts)) = tval x"
      using val le_value_uval [of 2 "map tval ts"] by (simp add: comp_def)
    moreover have "\<forall>d\<in>set (map uval ts). d < 2" using bits by simp
    ultimately have "map uval ts = le_digits 2 (length (map uval ts)) (uval x)"
        "uval x < 2 ^ length (map uval ts)"
      using field_digits_unique [of "map uval ts" 2 "tval x"] len le by (simp_all only: length_map)
    then show "uval x < 2 ^ n \<and> map uval ts = le_digits 2 n (uval x)" by (simp add: len)
  qed
  show "complete (split_le x n) (\<lambda>_. True)" if lt: "uval x < 2 ^ n"
  proof -
    let ?vs = "map of_nat (le_digits 2 n (uval x)) :: gf list"
    have "\<forall>t\<in>set (map Wire ?vs). uval t < 2"
      using le_digits_lt [of 2 _ n "uval x"]
      by (auto simp: to_canonical_of_nat intro: le_less_trans [OF mod_less_eq_dividend])
    moreover have "tval (Wire (le_value 2 (map tval (map Wire ?vs)))) = tval x"
      using le_value_digits_field [of "tval x" 2 n] lt by (simp add: comp_def)
    ultimately show ?thesis
      unfolding split_le_def if_not_P [OF assms(2)]
      using complete_add_virtual_targets [of ?vs]
      by (intro complete_bind [where P = "\<lambda>ts. ts = map Wire ?vs"]) 
        (auto intro!: complete_bind [OF implements_complete [OF realises_implements [OF for_bits]]]
          complete_bind [OF implements_complete [OF realises_implements [OF realises_connect]]] complete_return)
  qed
qed

section \<open>Range checks\<close>

text \<open>
  \<open>register_range_check\<close> with its check placed at once: a constant is checked while the circuit is
  built, 64 bits need no check, the custom sizes use \<open>RangeCheckGate\<close>, multiples of eight the byte gate,
  and the others \<open>split_le\<close>. \<open>Range_Check_Registry\<close> shows that collecting the checks and placing them at the
  end of the circuit constrains the targets in the same way.
\<close>

definition place_range_check :: "target \<Rightarrow> nat \<Rightarrow> unit circ" where
  "place_range_check x bit_size =
    (if bit_size \<notin> set CUSTOM_GATE_SIZES then
       if bit_size mod 8 = 0 then circ_bind (split_bytes x (bit_size div 8)) (\<lambda>_. circ_return ())
       else circ_bind (split_le x bit_size) (\<lambda>_. circ_return ())
     else rc_slot bit_size x)"

definition register_range_check :: "target \<Rightarrow> nat \<Rightarrow> unit circ" where
  "register_range_check val bit_size =
    circ_bind (circ_panic_unless (bit_size \<le> 64)) (\<lambda>_.
    if bit_size = 64 then circ_return ()
    else case target_as_constant val of
      Some const_val \<Rightarrow> circ_panic_unless (to_canonical_u64 const_val < 2 ^ bit_size)
    | None \<Rightarrow> place_range_check val bit_size)"

lemma realises_rc_slot:
  assumes "rc_bits_ok bits"
  shows "realises (rc_slot bits x) (uval x < 2 ^ bits) (\<lambda>_. True)"
  by (rule realisesI) (use sound_rc_slot [OF assms, of x] complete_rc_slot [OF assms, of x] in auto)

lemma realises_place_range_check:
  assumes "bits < 64"
  shows "realises (place_range_check x bits) (uval x < 2 ^ bits) (\<lambda>_. True)"
proof -
  consider (custom) "bits \<in> set CUSTOM_GATE_SIZES" | (bytes) "bits \<notin> set CUSTOM_GATE_SIZES" "bits mod 8 = 0"
    | (bits) "bits \<notin> set CUSTOM_GATE_SIZES" "bits mod 8 \<noteq> 0" by blast
  then show ?thesis
  proof cases
    case custom
    then have ok: "rc_bits_ok bits" by (auto simp: CUSTOM_GATE_SIZES_def rc_bits_ok_def)
    show ?thesis using custom realises_rc_slot [OF ok, of x] by (simp add: place_range_check_def)
  next
    case bytes
    have n: "bits div 8 \<le> 7" using assms by simp
    have "(256::nat) ^ (bits div 8) = (2 ^ 8) ^ (bits div 8)" by simp
    also have "\<dots> = 2 ^ bits" using bytes(2) by (simp only: power_mult [symmetric]) (simp add: mod_0_imp_dvd)
    finally have "realises (split_bytes x (bits div 8)) (uval x < 2 ^ bits) (\<lambda>ts. map uval ts = le_digits 256 (bits div 8) (uval x))"
      using realises_split_bytes [OF n, of x] by simp
    then show ?thesis using bytes by (simp add: place_range_check_def realises_then_return)
  next
    case bits
    then show ?thesis
      using assms realises_then_return [OF realises_split_le [of bits x], of "\<lambda>_. True" "\<lambda>_. ()"]
      by (cases "bits = 0") (simp_all add: place_range_check_def)
  qed
qed

lemma realises_panic: "realises (circ_panic_unless b) b (\<lambda>_. True)"
  using implements_panic by (auto simp: realises_def unsatisfiable_def circ_panic_unless_def)

lemma uval_lt_64: "uval x < 2 ^ 64"
  using less_trans [OF to_canonical_lt [of "tval x"], of "2 ^ 64"] by simp

lemma realises_register_range_check:
  assumes "bits \<le> 64"
  shows "realises (register_range_check x bits) (uval x < 2 ^ bits) (\<lambda>_. True)"
proof -
  have step: "realises (circ_bind (circ_panic_unless (bits \<le> 64)) (\<lambda>_. c)) P Q" if "realises c P Q" for c :: "unit circ" and P Q
    using realises_after [OF implements_panic [OF assms], of "\<lambda>_. c" P Q] that by simp
  show ?thesis
  proof (cases "bits = 64")
    case True
    then show ?thesis
      unfolding register_range_check_def using uval_lt_64 [of x] by (intro step) (simp add: realises_return)
  next
    case False
    then have lt: "bits < 64" using assms by simp
    show ?thesis
    proof (cases x)
      case (Const c)
      then show ?thesis
        unfolding register_range_check_def using lt by (intro step) (simp add: realises_panic)
    next
      case (Wire v)
      then show ?thesis
        unfolding register_range_check_def using lt realises_place_range_check [OF lt, of "Wire v"]
        by (intro step) simp
    qed
  qed
qed

section \<open>Properties\<close>

text \<open>
  \<open>split_bytes\<close> with up to seven bytes: it is satisfiable exactly when the value fits, and then
  every satisfying assignment returns the little-endian bytes of its canonical value.
\<close>

theorem split_bytes_exact:
  assumes "n \<le> 7"
  shows "realises (split_bytes x n) (uval x < 256 ^ n) (\<lambda>ts. map uval ts = le_digits 256 n (uval x))"
  using assms by (rule realises_split_bytes)

theorem split_bytes_exact_witness:
  "implements (split_bytes (Wire 4294624844) 4) (\<lambda>ts. map uval ts = [76, 198, 250, 255])
   \<and> unsatisfiable (split_bytes (Wire 4294624844) 3)"
proof -
  have "realises (split_bytes (Wire 4294624844) 4) True (\<lambda>ts. map uval ts = [76, 198, 250, 255])"
    using split_bytes_exact [of 4 "Wire 4294624844"] by (simp add: le_digits_numeral)
  moreover have "realises (split_bytes (Wire 4294624844) 3) False (\<lambda>ts. map uval ts = le_digits 256 3 4294624844)"
    using split_bytes_exact [of 3 "Wire 4294624844"] by simp
  ultimately show ?thesis by (simp add: realises_def)
qed

text \<open>
  With eight bytes the decomposition is not unique: a value below \<open>2 ^ 32 - 1\<close> can be split into
  its own bytes or into the bytes of the value plus the field order. The commitments of
  \<open>recursion/wrapper_circuit.rs\<close> and \<open>types/target_pub_data_helper.rs\<close> take such bytes of field elements.
\<close>

theorem split_bytes_8_ambiguous:
  assumes "uval x < 2 ^ 32 - 1"
  shows "complete (split_bytes x 8) (\<lambda>ts. le_value 256 (map uval ts) = uval x)
    \<and> complete (split_bytes x 8) (\<lambda>ts. le_value 256 (map uval ts) = uval x + p_nat)"
proof -
  have digits: "byte_decomposition (le_digits 256 8 v) (tval x)" "le_value 256 (le_digits 256 8 v) = v"
    if "v < 256 ^ 8" "v mod p_nat = uval x" for v
  proof -
    show val: "le_value 256 (le_digits 256 8 v) = v" using that(1) by (simp add: le_value_digits)
    have "(of_nat v :: gf) = of_nat (uval x)" using that(2) by (simp only: gf_of_nat_eq_iff) simp
    then show "byte_decomposition (le_digits 256 8 v) (tval x)"
      using le_digits_lt [of 256] by (auto simp: byte_decomposition_def val)
  qed
  have c: "complete (split_bytes x 8) (\<lambda>ts. le_value 256 (map uval ts) = v)"
    if "v < 256 ^ 8" "v mod p_nat = uval x" for v
    using complete_split_bytes [of 8 "le_digits 256 8 v" x] digits [OF that] by (auto intro: complete_weaken)
  show ?thesis
    using c [of "uval x"] c [of "uval x + p_nat"] assms by simp
qed

theorem split_bytes_8_ambiguous_witness:
  "complete (split_bytes (Wire 5) 8) (\<lambda>ts. le_value 256 (map uval ts) = 5)
   \<and> complete (split_bytes (Wire 5) 8) (\<lambda>ts. le_value 256 (map uval ts) = 18446744069414584326)"
  using split_bytes_8_ambiguous [of "Wire 5"] by simp

text \<open>
  \<open>register_range_check\<close> for any number of bits up to 64: the circuit is satisfiable exactly when
  the canonical value is below \<open>2 ^ bit_size\<close>, whichever of the three gates the size selects.
\<close>

theorem register_range_check_exact:
  assumes "bit_size \<le> 64"
  shows "realises (register_range_check x bit_size) (uval x < 2 ^ bit_size) (\<lambda>_. True)"
  using assms by (rule realises_register_range_check)

theorem register_range_check_exact_witness:
  "implements (register_range_check (Wire 4095) 12) (\<lambda>_. True)
   \<and> unsatisfiable (register_range_check (Wire 4096) 12)"
  using register_range_check_exact [of 12 "Wire 4095"] register_range_check_exact [of 12 "Wire 4096"]
  by (simp add: realises_def)

end
