(* ===== verification/Range_Check_Registry.thy ===== *)
theory Range_Check_Registry
  imports Byte_Gate
begin

text \<open>
  The range-check registry of the builder (\<open>uint/range_check.rs\<close>, fields of \<open>builder/types.rs\<close>):
  checks are not placed where they are requested but collected, the smallest size per target, and
  placed at the end of the circuit, skipping the targets that were split into bits or bytes anyway.
  The theory shows that this bookkeeping loses no check.
\<close>

section \<open>The registry\<close>

text \<open>
  A \<open>Target\<close> is named by a number. Of the two split caches the registry reads the length of the
  cached vector only. \<open>target_as_constant\<close> is the parameter \<open>constants\<close>, \<open>None\<close> a failed \<open>assert!\<close>.
\<close>

type_synonym tid = nat

record registry =
  range_checks :: "nat \<Rightarrow> tid list"
  range_check_targets_to_bit_sizes :: "tid \<rightharpoonup> nat"
  split_le_cache :: "tid \<rightharpoonup> nat"
  split_bytes_cache :: "tid \<rightharpoonup> nat"

definition new_registry :: registry where
  "new_registry = \<lparr>range_checks = (\<lambda>_. []), range_check_targets_to_bit_sizes = Map.empty,
    split_le_cache = Map.empty, split_bytes_cache = Map.empty\<rparr>"

definition remove_check :: "tid \<Rightarrow> nat \<Rightarrow> registry \<Rightarrow> registry" where
  "remove_check val old_bit_size st =
    st\<lparr>range_checks := (range_checks st)(old_bit_size := removeAll val (range_checks st old_bit_size)),
       range_check_targets_to_bit_sizes := (range_check_targets_to_bit_sizes st)(val := None)\<rparr>"

definition insert_check :: "tid \<Rightarrow> nat \<Rightarrow> registry \<Rightarrow> registry" where
  "insert_check val bit_size st =
    st\<lparr>range_checks := (range_checks st)(bit_size := insort_insert val (range_checks st bit_size)),
       range_check_targets_to_bit_sizes := (range_check_targets_to_bit_sizes st)(val \<mapsto> bit_size)\<rparr>"

definition register :: "(tid \<rightharpoonup> gf) \<Rightarrow> tid \<Rightarrow> nat \<Rightarrow> registry \<Rightarrow> registry option" where
  "register constants val bit_size st =
    (if bit_size > 64 then None
     else if bit_size = 64 then Some st
     else case constants val of
       Some const_val \<Rightarrow> if to_canonical_u64 const_val < 2 ^ bit_size then Some st else None
     | None \<Rightarrow>
       (case range_check_targets_to_bit_sizes st val of
          Some old_bit_size \<Rightarrow>
            if old_bit_size \<le> bit_size then Some st
            else Some (insert_check val bit_size (remove_check val old_bit_size st))
        | None \<Rightarrow> Some (insert_check val bit_size st)))"

fun register_all :: "(tid \<rightharpoonup> gf) \<Rightarrow> (tid \<times> nat) list \<Rightarrow> registry \<Rightarrow> registry option" where
  "register_all constants [] st = Some st"
| "register_all constants ((val, bit_size) # calls) st =
    (case register constants val bit_size st of
       None \<Rightarrow> None | Some st' \<Rightarrow> register_all constants calls st')"

text \<open>Placing the checks. \<open>SplitBytes\<close>, \<open>SplitLe\<close> and \<open>RangeGate\<close> are the three ways to check a target.\<close>

datatype placed = SplitBytes tid nat | SplitLe tid nat | RangeGate tid nat

definition already_split :: "registry \<Rightarrow> nat \<Rightarrow> tid \<Rightarrow> bool" where
  "already_split st bit_size x \<longleftrightarrow>
    (case split_le_cache st x of Some bits \<Rightarrow> bits \<le> bit_size | None \<Rightarrow> False)
    \<or> (case split_bytes_cache st x of Some bytes \<Rightarrow> bytes * 8 \<le> bit_size | None \<Rightarrow> False)"

definition place_check :: "nat list \<Rightarrow> nat \<Rightarrow> tid \<Rightarrow> registry \<Rightarrow> placed list \<times> registry" where
  "place_check custom_gate_sizes bit_size target st =
    (if bit_size \<notin> set custom_gate_sizes then
       if bit_size mod 8 = 0 then
         if split_bytes_cache st target = Some (bit_size div 8) then ([], st)
         else ([SplitBytes target (bit_size div 8)],
           st\<lparr>split_bytes_cache := (split_bytes_cache st)(target \<mapsto> bit_size div 8)\<rparr>)
       else
         if split_le_cache st target = Some bit_size then ([], st)
         else ([SplitLe target bit_size], st\<lparr>split_le_cache := (split_le_cache st)(target \<mapsto> bit_size)\<rparr>)
     else ([RangeGate target bit_size], st))"

fun place_checks :: "nat list \<Rightarrow> nat \<Rightarrow> tid list \<Rightarrow> registry \<Rightarrow> placed list \<times> registry" where
  "place_checks custom bit_size [] st = ([], st)"
| "place_checks custom bit_size (t # ts) st =
    (let (ps, st') = place_check custom bit_size t st; (qs, st'') = place_checks custom bit_size ts st'
     in (ps @ qs, st''))"

fun place_entries :: "nat list \<Rightarrow> (nat \<times> tid list) list \<Rightarrow> registry \<Rightarrow> placed list \<times> registry" where
  "place_entries custom [] st = ([], st)"
| "place_entries custom ((bit_size, targets) # entries) st =
    (let filtered_targets = filter (\<lambda>x. \<not> already_split st bit_size x) targets;
         (ps, st') = place_checks custom bit_size filtered_targets st;
         (qs, st'') = place_entries custom entries st'
     in (ps @ qs, st''))"

definition perform_with_custom_sizes :: "nat list \<Rightarrow> registry \<Rightarrow> placed list \<times> registry" where
  "perform_with_custom_sizes custom_gate_sizes st =
    (let entries = map (\<lambda>k. (k, range_checks st k)) [0..<64]
     in place_entries custom_gate_sizes entries
          (st\<lparr>range_checks := (\<lambda>_. []), range_check_targets_to_bit_sizes := Map.empty\<rparr>))"

definition perform_registered_range_checks :: "registry \<Rightarrow> placed list \<times> registry" where
  "perform_registered_range_checks st = perform_with_custom_sizes CUSTOM_GATE_SIZES st"

text \<open>What a placed check is in the circuit, when the wire of target \<open>t\<close> carries \<open>v t\<close>.\<close>

fun placed_circ :: "(tid \<Rightarrow> gf) \<Rightarrow> placed \<Rightarrow> unit circ" where
  "placed_circ v (SplitBytes t n) = circ_bind (split_bytes (Wire (v t)) n) (\<lambda>_. circ_return ())"
| "placed_circ v (SplitLe t n) = circ_bind (split_le (Wire (v t)) n) (\<lambda>_. circ_return ())"
| "placed_circ v (RangeGate t n) = rc_slot n (Wire (v t))"

section \<open>The invariant of the bookkeeping\<close>

text \<open>Every registered target sits in exactly one bucket, the one of its recorded size.\<close>

definition registry_inv :: "(tid \<rightharpoonup> gf) \<Rightarrow> registry \<Rightarrow> bool" where
  "registry_inv constants st \<longleftrightarrow>
    (\<forall>t b. t \<in> set (range_checks st b) \<longleftrightarrow> range_check_targets_to_bit_sizes st t = Some b)
    \<and> (\<forall>t b. range_check_targets_to_bit_sizes st t = Some b \<longrightarrow> b < 64 \<and> constants t = None)"

text \<open>
  The caches only ever hold splits whose constraints are in the circuit. \<open>split_le\<close> with no bits would
  break this: it is cached too, but constrains nothing.
\<close>

definition caches_truthful :: "(tid \<Rightarrow> gf) \<Rightarrow> registry \<Rightarrow> bool" where
  "caches_truthful v st \<longleftrightarrow>
    (\<forall>t n. split_le_cache st t = Some n \<longrightarrow> to_canonical_u64 (v t) < 2 ^ n)
    \<and> (\<forall>t n. split_bytes_cache st t = Some n \<longrightarrow> to_canonical_u64 (v t) < 256 ^ n)"

text \<open>What the registry promises of an assignment.\<close>

definition registered_ok :: "(tid \<Rightarrow> gf) \<Rightarrow> registry \<Rightarrow> bool" where
  "registered_ok v st \<longleftrightarrow>
    (\<forall>t b. range_check_targets_to_bit_sizes st t = Some b \<longrightarrow> to_canonical_u64 (v t) < 2 ^ b)"

lemma new_registry_inv [simp]: "registry_inv constants new_registry" "registered_ok v new_registry"
  by (simp_all add: registry_inv_def registered_ok_def new_registry_def)

lemma insert_check_inv:
  assumes "registry_inv constants st" "range_check_targets_to_bit_sizes st val = None"
    and "bit_size < 64" "constants val = None"
  shows "registry_inv constants (insert_check val bit_size st)"
  using assms by (auto simp: registry_inv_def insert_check_def set_insort_insert)

lemma remove_check_inv:
  assumes "registry_inv constants st" "range_check_targets_to_bit_sizes st val = Some old"
  shows "registry_inv constants (remove_check val old st)"
    and "range_check_targets_to_bit_sizes (remove_check val old st) val = None"
  using assms by (auto simp: registry_inv_def remove_check_def)

lemma register_inv:
  assumes "register constants val bit_size st = Some st'" "registry_inv constants st"
  shows "registry_inv constants st'"
  using assms remove_check_inv [OF assms(2), of val]
  by (auto simp: register_def split: if_splits option.splits intro!: insert_check_inv)

text \<open>Registering keeps the earlier promises and adds the new one, and nothing more.\<close>

definition assignment_matches :: "(tid \<rightharpoonup> gf) \<Rightarrow> (tid \<Rightarrow> gf) \<Rightarrow> bool" where
  "assignment_matches constants v \<longleftrightarrow> (\<forall>t c. constants t = Some c \<longrightarrow> v t = c)"

lemma canonical_lt_64: "to_canonical_u64 (x :: gf) < 2 ^ 64"
  using uval_lt_64 [of "Wire x"] by simp

lemma registered_ok_insert:
  "range_check_targets_to_bit_sizes st val = None \<Longrightarrow>
    registered_ok v (insert_check val b st) \<longleftrightarrow> registered_ok v st \<and> to_canonical_u64 (v val) < 2 ^ b"
  by (auto simp: registered_ok_def insert_check_def)

lemma registered_ok_remove:
  "range_check_targets_to_bit_sizes st val = Some old \<Longrightarrow>
    registered_ok v st \<longleftrightarrow> registered_ok v (remove_check val old st) \<and> to_canonical_u64 (v val) < 2 ^ old"
  by (auto simp: registered_ok_def remove_check_def) (metis option.inject)

lemma registered_ok_lower:
  assumes "range_check_targets_to_bit_sizes st val = Some old" "registry_inv constants st" "b \<le> old"
  shows "registered_ok v (insert_check val b (remove_check val old st))
    \<longleftrightarrow> registered_ok v st \<and> to_canonical_u64 (v val) < 2 ^ b"
  using registered_ok_insert [OF remove_check_inv(2) [OF assms(2,1)], of v b] registered_ok_remove [OF assms(1), of v]
    pow2_mono_less [OF _ assms(3), of "to_canonical_u64 (v val)"] by blast

lemma register_registered_ok:
  assumes "register constants val bit_size st = Some st'" "registry_inv constants st"
    and "assignment_matches constants v"
  shows "registered_ok v st' \<longleftrightarrow> registered_ok v st \<and> to_canonical_u64 (v val) < 2 ^ bit_size"
proof (cases "bit_size = 64")
  case True
  then show ?thesis using assms(1) canonical_lt_64 by (simp add: register_def)
next
  case False
  show ?thesis
  proof (cases "constants val")
    case (Some c)
    then have "v val = c" using assms(3) by (simp add: assignment_matches_def)
    with Some False show ?thesis using assms(1) by (simp add: register_def split: if_splits)
  next
    case None
    show ?thesis
    proof (cases "range_check_targets_to_bit_sizes st val")
      case fresh: None
      with None False have "st' = insert_check val bit_size st"
        using assms(1) by (simp add: register_def split: if_splits)
      with registered_ok_insert [OF fresh] show ?thesis by simp
    next
      case (Some old)
      show ?thesis
      proof (cases "old \<le> bit_size")
        case True
        with Some None False have "st' = st" using assms(1) by (simp add: register_def split: if_splits)
        with Some True show ?thesis
          using pow2_mono_less [of "to_canonical_u64 (v val)" old bit_size] by (auto simp: registered_ok_def)
      next
        case small: False
        with Some None False have "st' = insert_check val bit_size (remove_check val old st)"
          using assms(1) by (simp add: register_def split: if_splits)
        with registered_ok_lower [OF Some assms(2)] small show ?thesis by simp
      qed
    qed
  qed
qed

lemma register_all_inv:
  "register_all constants calls st = Some st' \<Longrightarrow> registry_inv constants st \<Longrightarrow> registry_inv constants st'"
  by (induction constants calls st rule: register_all.induct) (auto split: option.splits dest: register_inv)

lemma register_all_registered_ok:
  assumes "assignment_matches constants v"
  shows "register_all constants calls st = Some st' \<Longrightarrow> registry_inv constants st \<Longrightarrow>
    registered_ok v st' \<longleftrightarrow> registered_ok v st \<and> (\<forall>(t, b)\<in>set calls. to_canonical_u64 (v t) < 2 ^ b)"
  using assms
proof (induction constants calls st rule: register_all.induct)
  case (2 constants val bit_size calls st)
  then obtain st1 where st1: "register constants val bit_size st = Some st1" "register_all constants calls st1 = Some st'"
    by (auto split: option.splits)
  from 2(1) [OF st1 register_inv [OF st1(1) 2(3)] 2(4)] register_registered_ok [OF st1(1) 2(3,4)]
  show ?case by auto
qed simp

text \<open>The recorded size is the smallest one that was asked for.\<close>

lemma register_sizes:
  assumes "register constants val bit_size st = Some st'"
  shows "range_check_targets_to_bit_sizes st' t =
    (if t = val \<and> constants val = None \<and> bit_size < 64
     then Some (case range_check_targets_to_bit_sizes st val of None \<Rightarrow> bit_size | Some old \<Rightarrow> min old bit_size)
     else range_check_targets_to_bit_sizes st t)"
  using assms by (auto simp: register_def insert_check_def remove_check_def split: if_splits option.splits)

lemma register_all_smallest:
  "register_all constants calls st = Some st' \<Longrightarrow> registry_inv constants st \<Longrightarrow>
    range_check_targets_to_bit_sizes st' t = Some b \<longleftrightarrow>
      constants t = None \<and> b < 64 \<and> ((t, b) \<in> set calls \<or> range_check_targets_to_bit_sizes st t = Some b)
      \<and> (\<forall>(u, c)\<in>set calls. u = t \<longrightarrow> b \<le> c) \<and> (\<forall>old. range_check_targets_to_bit_sizes st t = Some old \<longrightarrow> b \<le> old)"
proof (induction constants calls st rule: register_all.induct)
  case (1 constants st)
  then show ?case by (auto simp: registry_inv_def)
next
  case (2 constants val bit_size calls st)
  then obtain st1 where st1: "register constants val bit_size st = Some st1" "register_all constants calls st1 = Some st'"
    by (auto split: option.splits)
  note IH = 2(1) [OF st1 register_inv [OF st1(1) 2(3)]]
  show ?case
    unfolding IH register_sizes [OF st1(1)] by (cases "range_check_targets_to_bit_sizes st val") auto
qed

section \<open>Placing the checks\<close>

fun placed_ok :: "(tid \<Rightarrow> gf) \<Rightarrow> placed \<Rightarrow> bool" where
  "placed_ok v (SplitBytes t n) = (to_canonical_u64 (v t) < 256 ^ n)"
| "placed_ok v (SplitLe t n) = (to_canonical_u64 (v t) < 2 ^ n)"
| "placed_ok v (RangeGate t n) = (to_canonical_u64 (v t) < 2 ^ n)"

fun placed_valid :: "placed \<Rightarrow> bool" where
  "placed_valid (SplitBytes t n) = (n \<le> 7)"
| "placed_valid (SplitLe t n) = (n \<le> 63 \<and> n \<noteq> 0)"
| "placed_valid (RangeGate t n) = rc_bits_ok n"

lemma realises_placed: "placed_valid p \<Longrightarrow> realises (placed_circ v p) (placed_ok v p) (\<lambda>_. True)"
  using realises_then_return [OF realises_split_bytes, of _ "Wire _" "\<lambda>_. True" "\<lambda>_. ()"]
    realises_then_return [OF realises_split_le, of _ "Wire _" "\<lambda>_. True" "\<lambda>_. ()"]
    realises_rc_slot [of _ "Wire _"] by (cases p) simp_all

lemma pow_256: "(256::nat) ^ n = 2 ^ (n * 8)"
  using power_mult [of "2::nat" 8 n] by (simp add: mult.commute)

lemma already_split_ok:
  assumes "already_split st b t" "caches_truthful v st"
  shows "to_canonical_u64 (v t) < 2 ^ b"
proof -
  consider n where "split_le_cache st t = Some n" "n \<le> b" | n where "split_bytes_cache st t = Some n" "n * 8 \<le> b"
    using assms(1) by (auto simp: already_split_def split: option.splits)
  then show ?thesis
  proof cases
    case 1
    then show ?thesis using assms(2) pow2_mono_less [of _ n b] by (simp add: caches_truthful_def)
  next
    case 2
    then show ?thesis using assms(2) pow2_mono_less [of _ "n * 8" b] by (simp add: caches_truthful_def pow_256)
  qed
qed

definition custom_sizes_ok :: "nat list \<Rightarrow> bool" where
  "custom_sizes_ok custom \<longleftrightarrow> 0 \<notin> set custom \<and> (\<forall>b\<in>set custom. b < 64)"

lemma place_check_ok:
  assumes "place_check custom b t st = (ps, st')" "b < 64" "custom_sizes_ok custom" "caches_truthful v st"
  shows "(\<forall>p\<in>set ps. placed_ok v p) \<longleftrightarrow> to_canonical_u64 (v t) < 2 ^ b"
    and "\<forall>p\<in>set ps. placed_valid p"
    and "to_canonical_u64 (v t) < 2 ^ b \<Longrightarrow> caches_truthful v st'"
proof -
  have pow: "(256::nat) ^ (b div 8) = 2 ^ b" if "b mod 8 = 0" using that by (simp add: pow_256 mod_0_imp_dvd)
  have ok: "rc_bits_ok b" if "b \<in> set custom"
    using assms(2,3) that by (cases "b = 0") (auto simp: custom_sizes_ok_def rc_bits_ok_def)
  have "split_bytes_cache st t = Some (b div 8) \<Longrightarrow> to_canonical_u64 (v t) < 256 ^ (b div 8)"
    "split_le_cache st t = Some b \<Longrightarrow> to_canonical_u64 (v t) < 2 ^ b"
    using assms(4) by (simp_all add: caches_truthful_def)
  with assms(1,2) pow ok show "(\<forall>p\<in>set ps. placed_ok v p) \<longleftrightarrow> to_canonical_u64 (v t) < 2 ^ b"
    "\<forall>p\<in>set ps. placed_valid p"
    by (auto simp: place_check_def split: if_splits)
  show "caches_truthful v st'" if "to_canonical_u64 (v t) < 2 ^ b"
    using assms(1,4) that pow by (auto simp: place_check_def caches_truthful_def split: if_splits)
qed

lemma place_checks_ok:
  assumes "b < 64" "custom_sizes_ok custom"
  shows "place_checks custom b ts st = (ps, st') \<Longrightarrow> caches_truthful v st \<Longrightarrow>
    ((\<forall>p\<in>set ps. placed_ok v p) \<longleftrightarrow> (\<forall>t\<in>set ts. to_canonical_u64 (v t) < 2 ^ b))
    \<and> ((\<forall>t\<in>set ts. to_canonical_u64 (v t) < 2 ^ b) \<longrightarrow> caches_truthful v st')"
proof (induction ts arbitrary: st ps)
  case (Cons t ts)
  obtain qs st1 rs where step: "place_check custom b t st = (qs, st1)" "place_checks custom b ts st1 = (rs, st')" "ps = qs @ rs"
    using Cons.prems(1) by (auto split: prod.splits)
  show ?case
    using place_check_ok [OF step(1) assms Cons.prems(2)] Cons.IH [OF step(2)] by (auto simp: step(3))
qed simp

lemma place_checks_valid:
  assumes "b < 64" "custom_sizes_ok custom"
  shows "place_checks custom b ts st = (ps, st') \<Longrightarrow> \<forall>p\<in>set ps. placed_valid p"
proof (induction ts arbitrary: st ps)
  case (Cons t ts)
  obtain qs st1 rs where step: "place_check custom b t st = (qs, st1)" "place_checks custom b ts st1 = (rs, st')" "ps = qs @ rs"
    using Cons.prems(1) by (auto split: prod.splits)
  have "\<forall>p\<in>set qs. placed_valid p"
    using step(1) assms by (auto simp: place_check_def custom_sizes_ok_def rc_bits_ok_def split: if_splits intro!: Suc_leI gr0I)
  with Cons.IH [OF step(2)] show ?case by (auto simp: step(3))
qed simp

lemma place_entries_ok:
  assumes "custom_sizes_ok custom"
  shows "place_entries custom entries st = (ps, st') \<Longrightarrow> caches_truthful v st \<Longrightarrow> (\<forall>(b, ts)\<in>set entries. b < 64) \<Longrightarrow>
    (\<forall>p\<in>set ps. placed_ok v p) \<longleftrightarrow> (\<forall>(b, ts)\<in>set entries. \<forall>t\<in>set ts. to_canonical_u64 (v t) < 2 ^ b)"
proof (induction entries arbitrary: st ps)
  case (Cons entry entries)
  obtain b ts where entry: "entry = (b, ts)" by fastforce
  let ?ts = "filter (\<lambda>x. \<not> already_split st b x) ts"
  obtain qs st1 rs where step: "place_checks custom b ?ts st = (qs, st1)" "place_entries custom entries st1 = (rs, st')" "ps = qs @ rs"
    using Cons.prems(1) by (auto simp: entry split: prod.splits)
  have b: "b < 64" using Cons.prems(3) by (simp add: entry)
  have filtered: "(\<forall>t\<in>set ?ts. to_canonical_u64 (v t) < 2 ^ b) \<longleftrightarrow> (\<forall>t\<in>set ts. to_canonical_u64 (v t) < 2 ^ b)"
    using already_split_ok [OF _ Cons.prems(2)] by auto
  have "caches_truthful v st1 \<Longrightarrow> (\<forall>p\<in>set rs. placed_ok v p)
      \<longleftrightarrow> (\<forall>(b, ts)\<in>set entries. \<forall>t\<in>set ts. to_canonical_u64 (v t) < 2 ^ b)"
    using Cons.IH [OF step(2)] Cons.prems(3) by simp
  then show ?case
    using place_checks_ok [OF b assms step(1) Cons.prems(2)]
    unfolding filtered entry step(3) set_append ball_Un list.set ball_simps(7) prod.case by blast
qed simp

lemma place_entries_valid:
  assumes "custom_sizes_ok custom"
  shows "place_entries custom entries st = (ps, st') \<Longrightarrow> (\<forall>(b, ts)\<in>set entries. b < 64) \<Longrightarrow> \<forall>p\<in>set ps. placed_valid p"
proof (induction entries arbitrary: st ps)
  case (Cons entry entries)
  obtain b ts where entry: "entry = (b, ts)" by fastforce
  obtain qs st1 rs where step: "place_checks custom b (filter (\<lambda>x. \<not> already_split st b x) ts) st = (qs, st1)"
      "place_entries custom entries st1 = (rs, st')" "ps = qs @ rs"
    using Cons.prems(1) by (auto simp: entry split: prod.splits)
  then show ?case
    using place_checks_valid [OF _ assms step(1)] Cons.IH [OF step(2)] Cons.prems(2) by (auto simp: entry)
qed simp

text \<open>Performing the registered checks places exactly what was promised.\<close>

lemma perform_realises:
  assumes "custom_sizes_ok custom" "registry_inv constants st" "caches_truthful v st"
  shows "realises (circ_for (fst (perform_with_custom_sizes custom st)) (placed_circ v)) (registered_ok v st) (\<lambda>_. True)"
proof -
  let ?entries = "map (\<lambda>k. (k, range_checks st k)) [0..<64]"
  let ?st = "st\<lparr>range_checks := (\<lambda>_. []), range_check_targets_to_bit_sizes := Map.empty\<rparr>"
  obtain ps st' where run: "place_entries custom ?entries ?st = (ps, st')" by fastforce
  then have ps: "fst (perform_with_custom_sizes custom st) = ps" by (simp add: perform_with_custom_sizes_def Let_def)
  have small: "\<forall>(b, ts)\<in>set ?entries. b < 64" by auto
  have truthful: "caches_truthful v ?st" using assms(3) by (simp add: caches_truthful_def)
  have "registered_ok v st \<longleftrightarrow> (\<forall>(b, ts)\<in>set ?entries. \<forall>t\<in>set ts. to_canonical_u64 (v t) < 2 ^ b)"
    using assms(2) by (auto simp: registered_ok_def registry_inv_def)
  then have "registered_ok v st \<longleftrightarrow> (\<forall>p\<in>set ps. placed_ok v p)"
    using place_entries_ok [OF assms(1) run truthful small] by blast
  then show ?thesis
    unfolding ps using realises_for [of ps "placed_circ v" "placed_ok v"] realises_placed
      place_entries_valid [OF assms(1) run small] by simp
qed

lemma perform_clears: "range_check_targets_to_bit_sizes (snd (perform_with_custom_sizes custom st)) = Map.empty"
proof -
  have check: "range_check_targets_to_bit_sizes (snd (place_check c b t s)) = range_check_targets_to_bit_sizes s" for c b t s
    by (simp add: place_check_def)
  have checks: "range_check_targets_to_bit_sizes (snd (place_checks c b ts s)) = range_check_targets_to_bit_sizes s" for c b ts s
    by (induction ts arbitrary: s) (simp_all add: check split_beta Let_def)
  have "range_check_targets_to_bit_sizes (snd (place_entries c es s)) = range_check_targets_to_bit_sizes s" for c es s
    by (induction es arbitrary: s) (auto simp: checks split_beta Let_def)
  then show ?thesis by (simp add: perform_with_custom_sizes_def Let_def)
qed

lemma upt_0_64: "[0..<64] = 0 # 1 # [2..<64]"
  by (simp add: upt_conv_Cons numeral_2_eq_2 del: upt_rec_numeral)

lemma registry_inv_caches:
  "registry_inv constants (st\<lparr>split_le_cache := les, split_bytes_cache := bytes\<rparr>) = registry_inv constants st"
  "registered_ok v (st\<lparr>split_le_cache := les, split_bytes_cache := bytes\<rparr>) = registered_ok v st"
  by (simp_all add: registry_inv_def registered_ok_def)

lemma custom_sizes_default: "custom_sizes_ok CUSTOM_GATE_SIZES"
  by (simp add: custom_sizes_ok_def CUSTOM_GATE_SIZES_def)

section \<open>Properties\<close>

text \<open>
  C35. The registry loses no check and adds none: after any sequence of registrations, with whatever
  splits the circuit caches in between, the checks placed by \<open>perform_registered_range_checks\<close> can be
  satisfied exactly by the assignments in which every registered target fits its registered size.
\<close>

theorem registered_range_checks_exact:
  assumes "register_all constants calls new_registry = Some st"
    and "assignment_matches constants v"
    and "caches_truthful v (st\<lparr>split_le_cache := les, split_bytes_cache := bytes\<rparr>)"
  shows "realises (circ_for (fst (perform_registered_range_checks (st\<lparr>split_le_cache := les, split_bytes_cache := bytes\<rparr>))) (placed_circ v))
    (list_all (\<lambda>(t, b). to_canonical_u64 (v t) < 2 ^ b) calls) (\<lambda>_. True)"
proof -
  let ?st = "st\<lparr>split_le_cache := les, split_bytes_cache := bytes\<rparr>"
  have inv: "registry_inv constants ?st"
    using register_all_inv [OF assms(1) new_registry_inv(1)] by (simp only: registry_inv_caches)
  have "registered_ok v ?st \<longleftrightarrow> list_all (\<lambda>(t, b). to_canonical_u64 (v t) < 2 ^ b) calls"
    using register_all_registered_ok [OF assms(2,1) new_registry_inv(1)] new_registry_inv(2) [of v]
    unfolding registry_inv_caches list_all_iff by blast
  then show ?thesis
    using perform_realises [OF custom_sizes_default inv assms(3)]
    by (simp only: perform_registered_range_checks_def)
qed

text \<open>Target 1 is registered twice, target 2 was split into three bits, target 3 is a constant.\<close>

theorem registered_range_checks_exact_witness:
  "implements (circ_for [SplitLe 1 5] (placed_circ (\<lambda>t. of_nat (t + 2)))) (\<lambda>_. True)"
proof -
  let ?v = "\<lambda>t::tid. of_nat (t + 2) :: gf" and ?c = "Map.empty(3 \<mapsto> 5) :: tid \<rightharpoonup> gf"
  let ?st = "insert_check 2 8 (insert_check 1 5 (remove_check 1 16 (insert_check 1 16 new_registry)))"
  have reg: "register_all ?c [(1, 16), (1, 5), (2, 8), (3, 4), (2, 9)] new_registry = Some ?st"
    by (simp add: register_def new_registry_def insert_check_def remove_check_def)
  have run: "fst (perform_registered_range_checks (?st\<lparr>split_le_cache := [2 \<mapsto> 3], split_bytes_cache := Map.empty\<rparr>)) = [SplitLe 1 5]"
    by (simp add: perform_registered_range_checks_def perform_with_custom_sizes_def Let_def CUSTOM_GATE_SIZES_def
      upt_0_64 insert_check_def remove_check_def new_registry_def already_split_def place_check_def
      insort_insert_key_def fun_upd_def)
  have "realises (circ_for [SplitLe 1 5] (placed_circ ?v)) (list_all (\<lambda>(t, b). to_canonical_u64 (?v t) < 2 ^ b) [(1, 16), (1, 5), (2, 8), (3, 4), (2, 9)]) (\<lambda>_. True)"
    by (subst run [symmetric], rule registered_range_checks_exact [OF reg])
      (simp_all add: assignment_matches_def caches_truthful_def)
  then show ?thesis by (simp add: realises_def)
qed

text \<open>
  The invariant of the bookkeeping: whatever is registered, every target sits in exactly one bucket,
  that of its recorded size below 64, constants never do, and the recorded size is the smallest one asked for.
\<close>

theorem register_all_keeps_smallest:
  assumes "register_all constants calls new_registry = Some st"
  shows "registry_inv constants st \<and>
    (range_check_targets_to_bit_sizes st t = Some b)
      = (constants t = None \<and> b < 64 \<and> (t, b) \<in> set calls \<and> list_all (\<lambda>(u, c). u = t \<longrightarrow> b \<le> c) calls)"
  using register_all_inv [OF assms new_registry_inv(1)] register_all_smallest [OF assms new_registry_inv(1), of t b]
  by (simp add: new_registry_def list_all_iff)

theorem register_all_keeps_smallest_witness:
  "range_check_targets_to_bit_sizes
     (insert_check 1 5 (remove_check 1 16 (insert_check 1 16 new_registry))) 1 = Some 5"
  using register_all_keeps_smallest [of Map.empty "[(1, 16), (1, 5), (1, 32)]" _ 1 5]
  by (simp add: register_def new_registry_def insert_check_def remove_check_def)

end
