(* ===== verification/U16_Arithmetic_Gate.thy ===== *)
theory U16_Arithmetic_Gate
  imports Gate_Base
begin

text \<open>
  \<open>circuit/src/uint/u16/gates/arithmetic_u16.rs\<close>: the gate \<open>U16ArithmeticGate\<close> for \<open>x * y + z\<close> on
  16-bit values, its evaluation routines and its witness generator. The gate has eight limbs of two
  bits for both halves together, so it only accepts results whose halves have eight bits each; a row
  has three constraints more per operation than limbs, while \<open>num_constraints\<close> counts four.
\<close>

section \<open>The gate\<close>

record U16ArithmeticGate =
  ua16_num_ops :: nat

definition ua16_limb_bits :: nat where "ua16_limb_bits = 2"
definition ua16_num_limbs :: nat where "ua16_num_limbs = 16 div ua16_limb_bits"
definition ua16_routed_wires_per_op :: nat where "ua16_routed_wires_per_op = 5"

definition ua16_new_from_config :: "nat \<Rightarrow> nat \<Rightarrow> U16ArithmeticGate" where
  "ua16_new_from_config num_wires num_routed_wires =
    \<lparr>ua16_num_ops = min (num_wires div (ua16_routed_wires_per_op + ua16_num_limbs))
                       (num_routed_wires div ua16_routed_wires_per_op)\<rparr>"

definition ua16_wire_ith_multiplicand_0 :: "nat \<Rightarrow> nat" where
  "ua16_wire_ith_multiplicand_0 i = ua16_routed_wires_per_op * i"
definition ua16_wire_ith_multiplicand_1 :: "nat \<Rightarrow> nat" where
  "ua16_wire_ith_multiplicand_1 i = ua16_routed_wires_per_op * i + 1"
definition ua16_wire_ith_addend :: "nat \<Rightarrow> nat" where
  "ua16_wire_ith_addend i = ua16_routed_wires_per_op * i + 2"
definition ua16_wire_ith_output_low_half :: "nat \<Rightarrow> nat" where
  "ua16_wire_ith_output_low_half i = ua16_routed_wires_per_op * i + 3"
definition ua16_wire_ith_output_high_half :: "nat \<Rightarrow> nat" where
  "ua16_wire_ith_output_high_half i = ua16_routed_wires_per_op * i + 4"
definition ua16_wire_ith_output_jth_limb :: "U16ArithmeticGate \<Rightarrow> nat \<Rightarrow> nat \<Rightarrow> nat" where
  "ua16_wire_ith_output_jth_limb g i j = ua16_routed_wires_per_op * ua16_num_ops g + ua16_num_limbs * i + j"

definition ua16_num_wires :: "U16ArithmeticGate \<Rightarrow> nat" where
  "ua16_num_wires g = ua16_num_ops g * (ua16_routed_wires_per_op + ua16_num_limbs)"
definition ua16_num_constraints :: "U16ArithmeticGate \<Rightarrow> nat" where
  "ua16_num_constraints g = ua16_num_ops g * (4 + ua16_num_limbs)"

lemmas ua16_wire_defs = ua16_limb_bits_def ua16_num_limbs_def ua16_routed_wires_per_op_def
  ua16_wire_ith_multiplicand_0_def ua16_wire_ith_multiplicand_1_def ua16_wire_ith_addend_def
  ua16_wire_ith_output_low_half_def ua16_wire_ith_output_high_half_def ua16_wire_ith_output_jth_limb_def

section \<open>Evaluation routines\<close>

definition ua16_eval_op :: "U16ArithmeticGate \<Rightarrow> (nat \<Rightarrow> 'f::comm_ring_1) \<Rightarrow> nat \<Rightarrow> 'f list" where
  "ua16_eval_op g local_wires i =
    (let multiplicand_0 = local_wires (ua16_wire_ith_multiplicand_0 i);
         multiplicand_1 = local_wires (ua16_wire_ith_multiplicand_1 i);
         addend = local_wires (ua16_wire_ith_addend i);
         computed_output = multiplicand_0 * multiplicand_1 + addend;
         output_low = local_wires (ua16_wire_ith_output_low_half i);
         output_high = local_wires (ua16_wire_ith_output_high_half i);
         combined_output = output_high * of_nat (2 ^ 16) + output_low;
         midpoint = ua16_num_limbs div 2;
         (products, combined_low_limbs, combined_high_limbs) =
           limb_loop (of_nat (2 ^ ua16_limb_bits)) (2 ^ ua16_limb_bits) midpoint
             (\<lambda>j. local_wires (ua16_wire_ith_output_jth_limb g i j)) (rev [0..<ua16_num_limbs])
     in [combined_output - computed_output] @ products
        @ [combined_low_limbs - output_low, combined_high_limbs - output_high])"

definition ua16_eval_unfiltered :: "U16ArithmeticGate \<Rightarrow> (nat \<Rightarrow> 'f::comm_ring_1) \<Rightarrow> 'f list" where
  "ua16_eval_unfiltered g local_wires = concat (map (ua16_eval_op g local_wires) [0..<ua16_num_ops g])"

definition ua16_eval_circuit_op :: "U16ArithmeticGate \<Rightarrow> (nat \<Rightarrow> 'f::comm_ring_1) \<Rightarrow> nat \<Rightarrow> 'f list" where
  "ua16_eval_circuit_op g local_wires i =
    (let multiplicand_0 = local_wires (ua16_wire_ith_multiplicand_0 i);
         multiplicand_1 = local_wires (ua16_wire_ith_multiplicand_1 i);
         addend = local_wires (ua16_wire_ith_addend i);
         computed_output = multiplicand_0 * multiplicand_1 + addend;
         output_low = local_wires (ua16_wire_ith_output_low_half i);
         output_high = local_wires (ua16_wire_ith_output_high_half i);
         combined_output = output_high * of_nat (2 ^ 16) + output_low;
         midpoint = ua16_num_limbs div 2; base = of_nat (2 ^ ua16_limb_bits);
         (products, combined_low_limbs, combined_high_limbs) =
           foldl (\<lambda>(constraints, low, high) j.
               let this_limb = local_wires (ua16_wire_ith_output_jth_limb g i j);
                   product = circuit_range_product (2 ^ ua16_limb_bits) this_limb
               in if j < midpoint then (constraints @ [product], base * low + this_limb, high)
                  else (constraints @ [product], low, base * high + this_limb))
             ([], 0, 0) (rev [0..<ua16_num_limbs])
     in [combined_output - computed_output] @ products
        @ [combined_low_limbs - output_low, combined_high_limbs - output_high])"

definition ua16_eval_unfiltered_circuit :: "U16ArithmeticGate \<Rightarrow> (nat \<Rightarrow> 'f::comm_ring_1) \<Rightarrow> 'f list" where
  "ua16_eval_unfiltered_circuit g local_wires =
     concat (map (ua16_eval_circuit_op g local_wires) [0..<ua16_num_ops g])"

definition ua16_eval_packed_op :: "U16ArithmeticGate \<Rightarrow> (nat \<Rightarrow> 'f::comm_ring_1) \<Rightarrow> nat \<Rightarrow> 'f list" where
  "ua16_eval_packed_op g local_wires i =
    (let multiplicand_0 = local_wires (ua16_wire_ith_multiplicand_0 i);
         multiplicand_1 = local_wires (ua16_wire_ith_multiplicand_1 i);
         addend = local_wires (ua16_wire_ith_addend i);
         computed_output = multiplicand_0 * multiplicand_1 + addend;
         output_low = local_wires (ua16_wire_ith_output_low_half i);
         output_high = local_wires (ua16_wire_ith_output_high_half i);
         combined_output = output_high * of_nat (2 ^ 16) + output_low;
         midpoint = ua16_num_limbs div 2; base = of_nat (2 ^ ua16_limb_bits);
         (products, combined_low_limbs, combined_high_limbs) =
           foldl (\<lambda>(constraints, low, high) j.
               let this_limb = local_wires (ua16_wire_ith_output_jth_limb g i j);
                   product = range_product (2 ^ ua16_limb_bits) this_limb
               in if j < midpoint then (constraints @ [product], low * base + this_limb, high)
                  else (constraints @ [product], low, high * base + this_limb))
             ([], 0, 0) (rev [0..<ua16_num_limbs])
     in [combined_output - computed_output] @ products
        @ [combined_low_limbs - output_low, combined_high_limbs - output_high])"

definition ua16_eval_unfiltered_base_packed :: "U16ArithmeticGate \<Rightarrow> (nat \<Rightarrow> 'f::comm_ring_1) \<Rightarrow> 'f list" where
  "ua16_eval_unfiltered_base_packed g local_wires =
     concat (map (ua16_eval_packed_op g local_wires) [0..<ua16_num_ops g])"

text \<open>
  \<open>eval_unfiltered_base_batch_packed\<close> starts from \<open>num_constraints\<close> rows of zeros and fills one row
  for each constraint of the packed evaluation; the last row of every operation stays zero.
\<close>

definition ua16_eval_batch_op :: "U16ArithmeticGate \<Rightarrow> nat \<Rightarrow> (nat \<Rightarrow> 'f::comm_ring_1) \<Rightarrow> nat \<Rightarrow> 'f list list" where
  "ua16_eval_batch_op g n wires i =
    map (\<lambda>c. map (\<lambda>p. ua16_eval_packed_op g (batch_point n wires p) i ! c) [0..<n]) [0..<3 + ua16_num_limbs]"

definition ua16_eval_unfiltered_base_batch :: "U16ArithmeticGate \<Rightarrow> nat \<Rightarrow> (nat \<Rightarrow> 'f::comm_ring_1) \<Rightarrow> 'f list list" where
  "ua16_eval_unfiltered_base_batch g n wires =
     concat (map (ua16_eval_batch_op g n wires) [0..<ua16_num_ops g]) @ replicate (ua16_num_ops g) (replicate n 0)"

text \<open>
  \<open>eval_unfiltered_base_batch_accumulate\<close> recombines the limbs in a 128-bit integer and reduces once.
  \<open>raw\<close> is the 64-bit representative of a field element (\<open>to_noncanonical_u64\<close>), which need not be
  canonical; \<open>from_noncanonical_u128\<close> takes the integer back into the field.
\<close>

definition u128_step :: "('f \<Rightarrow> nat) \<Rightarrow> nat \<Rightarrow> nat \<Rightarrow> 'f \<Rightarrow> nat" where
  "u128_step raw limb_base combined limb = (combined * limb_base + raw limb) mod 2 ^ 128"

definition from_noncanonical_u128 :: "nat \<Rightarrow> 'f::comm_ring_1" where
  "from_noncanonical_u128 v = of_nat v"

definition delayed_horner :: "('f::comm_ring_1 \<Rightarrow> nat) \<Rightarrow> 'f list \<Rightarrow> nat" where
  "delayed_horner raw limbs = foldl (u128_step raw (2 ^ ua16_limb_bits)) 0 limbs"

definition ua16_accumulate_op ::
  "('f \<Rightarrow> nat) \<Rightarrow> U16ArithmeticGate \<Rightarrow> nat \<Rightarrow> (nat \<Rightarrow> 'f::comm_ring_1) \<Rightarrow> nat \<Rightarrow> 'f list list" where
  "ua16_accumulate_op raw g n wires i =
    (let multiplicand_0 = (\<lambda>p. batch_point n wires p (ua16_wire_ith_multiplicand_0 i));
         multiplicand_1 = (\<lambda>p. batch_point n wires p (ua16_wire_ith_multiplicand_1 i));
         addend = (\<lambda>p. batch_point n wires p (ua16_wire_ith_addend i));
         output_low = (\<lambda>p. batch_point n wires p (ua16_wire_ith_output_low_half i));
         output_high = (\<lambda>p. batch_point n wires p (ua16_wire_ith_output_high_half i));
         limb = (\<lambda>p j. batch_point n wires p (ua16_wire_ith_output_jth_limb g i j));
         midpoint = ua16_num_limbs div 2;
         combined_low = (\<lambda>p. delayed_horner raw (map (limb p) (rev [0..<midpoint])));
         combined_high = (\<lambda>p. delayed_horner raw (map (limb p) (rev [midpoint..<ua16_num_limbs])))
     in map (\<lambda>p. output_high p * of_nat (2 ^ 16) + output_low p - (multiplicand_0 p * multiplicand_1 p + addend p)) [0..<n]
      # map (\<lambda>j. map (\<lambda>p. range_product4 (limb p j)) [0..<n]) (rev [0..<ua16_num_limbs])
      @ [map (\<lambda>p. from_noncanonical_u128 (combined_low p) - output_low p) [0..<n],
         map (\<lambda>p. from_noncanonical_u128 (combined_high p) - output_high p) [0..<n]])"

definition ua16_accumulate_scratches ::
  "('f \<Rightarrow> nat) \<Rightarrow> U16ArithmeticGate \<Rightarrow> nat \<Rightarrow> (nat \<Rightarrow> 'f::comm_ring_1) \<Rightarrow> 'f list list" where
  "ua16_accumulate_scratches raw g n wires = concat (map (ua16_accumulate_op raw g n wires) [0..<ua16_num_ops g])"

definition ua16_eval_unfiltered_base_batch_accumulate ::
  "('f \<Rightarrow> nat) \<Rightarrow> U16ArithmeticGate \<Rightarrow> nat \<Rightarrow> (nat \<Rightarrow> 'f::comm_ring_1) \<Rightarrow> 'f list \<Rightarrow> 'f list \<Rightarrow> 'f list option" where
  "ua16_eval_unfiltered_base_batch_accumulate raw g n wires filters combined =
     (if \<not> ua16_limb_bits * (ua16_num_limbs div 2) \<le> 30 then None
      else accumulate_checked (ua16_num_constraints g) n (ua16_accumulate_scratches raw g n wires) filters combined)"

section \<open>The routines agree\<close>

definition ua16_op_constraints :: "(nat \<Rightarrow> 'f::comm_ring_1) \<Rightarrow> 'f \<Rightarrow> 'f \<Rightarrow> 'f \<Rightarrow> 'f \<Rightarrow> 'f \<Rightarrow> 'f list" where
  "ua16_op_constraints limb m0 m1 addend lo hi =
     [hi * of_nat (2 ^ 16) + lo - (m0 * m1 + addend)]
     @ map (\<lambda>j. range_product (2 ^ ua16_limb_bits) (limb j)) (rev [0..<ua16_num_limbs])
     @ [le_value (of_nat (2 ^ ua16_limb_bits)) (map limb [0..<ua16_num_limbs div 2]) - lo,
        le_value (of_nat (2 ^ ua16_limb_bits)) (map limb [ua16_num_limbs div 2..<ua16_num_limbs]) - hi]"

lemma ua16_limb_numbers: "ua16_num_limbs = 8" "ua16_limb_bits = 2"
  by (simp_all add: ua16_num_limbs_def ua16_limb_bits_def)

lemma ua16_range_product: "range_product (2 ^ ua16_limb_bits) x = range_product4 x"
  by (simp add: ua16_limb_bits_def range_product_4)

abbreviation ua16_op_at :: "U16ArithmeticGate \<Rightarrow> (nat \<Rightarrow> 'f::comm_ring_1) \<Rightarrow> nat \<Rightarrow> 'f list" where
  "ua16_op_at g w i \<equiv> ua16_op_constraints (\<lambda>j. w (ua16_wire_ith_output_jth_limb g i j))
     (w (ua16_wire_ith_multiplicand_0 i)) (w (ua16_wire_ith_multiplicand_1 i)) (w (ua16_wire_ith_addend i))
     (w (ua16_wire_ith_output_low_half i)) (w (ua16_wire_ith_output_high_half i))"

lemma ua16_eval_op_eq: "ua16_eval_op g w i = ua16_op_at g w i"
  unfolding ua16_eval_op_def ua16_op_constraints_def Let_def
  by (subst limb_loop_eq) (simp_all del: upt_rec_numeral)

lemma ua16_eval_circuit_op_eq: "ua16_eval_circuit_op g w = ua16_eval_op g w"
  unfolding ua16_eval_circuit_op_def circuit_range_product_eq ua16_eval_op_def limb_loop_def fun_eq_iff
  by (simp only: Let_def simp_thms)

lemma ua16_eval_packed_op_eq: "ua16_eval_packed_op g w = ua16_eval_op g w"
  unfolding ua16_eval_packed_op_def ua16_eval_op_def limb_loop_def fun_eq_iff
  by (simp only: mult.commute [of _ "of_nat (2 ^ ua16_limb_bits)"] Let_def simp_thms)

lemma length_ua16_op [simp]: "length (ua16_op_constraints limb m0 m1 a lo hi) = 3 + ua16_num_limbs"
  by (simp add: ua16_op_constraints_def)

lemma ua16_batch_op_chunked:
  "chunked n (\<lambda>p. ua16_op_at g (batch_point n wires p) i) (ua16_eval_batch_op g n wires i)"
  by (auto simp: chunked_def ua16_eval_batch_op_def ua16_eval_packed_op_eq ua16_eval_op_eq simp del: upt_Suc)

text \<open>
  The 128-bit accumulator stays below \<open>2 ^ 96\<close> (what the debug assertions check), for arbitrary 64-bit
  representatives, so the delayed reduction recombines the limbs.
\<close>

lemma delayed_horner_gen:
  fixes limbs :: "'f::comm_ring_1 list"
  assumes raw: "\<And>x :: 'f. raw x < 2 ^ 64 \<and> of_nat (raw x) = x"
    and "3 * acc + (2 ^ 64 - 1) \<le> (2 ^ 64 - 1) * 4 ^ k" "k + length limbs \<le> 15"
  shows "foldl (u128_step raw 4) acc limbs < 2 ^ 96
    \<and> of_nat (foldl (u128_step raw 4) acc limbs) = foldl (\<lambda>acc d. 4 * acc + d) (of_nat acc) limbs"
  using assms(2,3)
proof (induction limbs arbitrary: acc k)
  case Nil
  have "(4::nat) ^ k \<le> 4 ^ 15" using Nil.prems(2) by (intro power_increasing) simp_all
  then have "(2 ^ 64 - 1) * 4 ^ k \<le> (2 ^ 64 - 1) * (4::nat) ^ 15" by (rule mult_le_mono2)
  then show ?case using Nil.prems(1) by simp
next
  case (Cons d limbs)
  have r: "raw d < 2 ^ 64" "of_nat (raw d) = d" using raw by auto
  have next_acc: "3 * (acc * 4 + raw d) + (2 ^ 64 - 1) \<le> (2 ^ 64 - 1) * 4 ^ Suc k"
  proof -
    have "3 * (acc * 4 + raw d) + (2 ^ 64 - 1) \<le> 4 * (3 * acc + (2 ^ 64 - 1))" using r(1) by simp
    also have "\<dots> \<le> 4 * ((2 ^ 64 - 1) * 4 ^ k)" by (rule mult_le_mono2 [OF Cons.prems(1)])
    finally show ?thesis by simp
  qed
  have "(4::nat) ^ Suc k \<le> 4 ^ 15" using Cons.prems(2) by (intro power_increasing) simp_all
  then have "(2 ^ 64 - 1) * 4 ^ Suc k \<le> (2 ^ 64 - 1) * (4::nat) ^ 15" by (rule mult_le_mono2)
  then have "acc * 4 + raw d < 2 ^ 128" using next_acc by simp
  then have step: "u128_step raw 4 acc d = acc * 4 + raw d" by (simp add: u128_step_def)
  show ?case using Cons.IH [OF next_acc] Cons.prems(2) r(2) by (simp add: step mult.commute)
qed

lemma delayed_horner_eq:
  fixes limbs :: "'f::comm_ring_1 list"
  assumes "\<And>x :: 'f. raw x < 2 ^ 64 \<and> of_nat (raw x) = x" "length limbs \<le> 15"
  shows "delayed_horner raw limbs < 2 ^ 96"
    and "from_noncanonical_u128 (delayed_horner raw (rev limbs)) = le_value (of_nat (2 ^ ua16_limb_bits)) limbs"
  using delayed_horner_gen [OF assms(1), of 0 0 limbs] delayed_horner_gen [OF assms(1), of 0 0 "rev limbs"] assms(2)
    le_value_foldl_rev [of 4 limbs]
  by (simp_all add: delayed_horner_def from_noncanonical_u128_def ua16_limb_bits_def)

lemma ua16_accumulate_op_chunked:
  fixes wires :: "nat \<Rightarrow> 'f::comm_ring_1"
  assumes "\<And>x :: 'f. raw x < 2 ^ 64 \<and> of_nat (raw x) = x"
  shows "chunked n (\<lambda>p. ua16_op_at g (batch_point n wires p) i) (ua16_accumulate_op raw g n wires i)"
proof -
  have low: "from_noncanonical_u128 (delayed_horner raw (map f (rev [0..<ua16_num_limbs div 2])))
      = le_value (of_nat (2 ^ ua16_limb_bits)) (map f [0..<ua16_num_limbs div 2])" for f :: "nat \<Rightarrow> 'f"
    unfolding rev_map [symmetric] by (rule delayed_horner_eq(2) [OF assms]) (simp add: ua16_limb_numbers)
  have high: "from_noncanonical_u128 (delayed_horner raw (map f (rev [ua16_num_limbs div 2..<ua16_num_limbs])))
      = le_value (of_nat (2 ^ ua16_limb_bits)) (map f [ua16_num_limbs div 2..<ua16_num_limbs])" for f :: "nat \<Rightarrow> 'f"
    unfolding rev_map [symmetric] by (rule delayed_horner_eq(2) [OF assms]) (simp add: ua16_limb_numbers)
  show ?thesis
    unfolding ua16_accumulate_op_def ua16_op_constraints_def Let_def low high ua16_range_product
    by (unfold append_Cons append_Nil, (intro chunked_intros; simp))
qed

text \<open>
  The rows the routines fill are the constraints of \<open>eval_unfiltered\<close>: \<open>gate_variants\<close> holds with three
  constraints more than limbs per operation.
\<close>

locale raw_representation =
  fixes raw :: "'f::comm_ring_1 \<Rightarrow> nat"
  assumes raw_bound: "raw x < 2 ^ 64" and raw_value: "of_nat (raw x) = x"

sublocale raw_representation \<subseteq> variants: gate_variants "ua16_num_ops g * (3 + ua16_num_limbs)" "ua16_eval_unfiltered g"
  "ua16_eval_unfiltered_circuit g" "ua16_eval_unfiltered_base_packed g"
  "\<lambda>n wires. concat (map (ua16_eval_batch_op g n wires) [0..<ua16_num_ops g])" "ua16_accumulate_scratches raw g" for g
  unfolding ua16_eval_unfiltered_def [abs_def] ua16_eval_unfiltered_circuit_def [abs_def]
    ua16_eval_unfiltered_base_packed_def [abs_def] ua16_accumulate_scratches_def [abs_def]
proof (rule gate_variants_concat)
  show "chunked n (\<lambda>p. ua16_eval_op g (batch_point n wires p) i) (ua16_accumulate_op raw g n wires i)" for n wires i
    unfolding ua16_eval_op_eq by (rule ua16_accumulate_op_chunked) (intro conjI raw_bound raw_value)
  show "chunked n (\<lambda>p. ua16_eval_op g (batch_point n wires p) i) (ua16_eval_batch_op g n wires i)" for n and wires :: "nat \<Rightarrow> 'f" and i
    unfolding ua16_eval_op_eq by (rule ua16_batch_op_chunked)
qed (simp_all add: ua16_eval_circuit_op_eq ua16_eval_packed_op_eq ua16_eval_op_eq)

interpretation canonical_raw: raw_representation to_canonical_u64
proof unfold_locales
  show "to_canonical_u64 x < 2 ^ 64" for x by (rule less_trans [OF to_canonical_lt]) simp
qed simp

section \<open>What the gate accepts\<close>

lemma ua16_op_sound:
  fixes limb :: "nat \<Rightarrow> gf"
  assumes zero: "\<forall>c\<in>set (ua16_op_constraints limb m0 m1 addend lo hi). c = 0"
  shows "to_canonical_u64 lo < 2 ^ 8" and "to_canonical_u64 hi < 2 ^ 8"
    and "to_canonical_u64 (m0 * m1 + addend) = to_canonical_u64 hi * 2 ^ 16 + to_canonical_u64 lo"
proof -
  have comb: "hi * of_nat (2 ^ 16) + lo = m0 * m1 + addend"
    and range: "\<forall>j<8. range_product 4 (limb j) = 0"
    and low: "lo = le_value 4 (map limb [0..<4])" and high: "hi = le_value 4 (map limb [4..<8])"
    using zero by (auto simp: ua16_op_constraints_def ua16_limb_numbers simp del: upt_rec_numeral mult_eq_0_iff)
  show lo: "to_canonical_u64 lo < 2 ^ 8"
    using limb_range_value [of "[0..<4]" limb lo] range low by (simp del: upt_rec_numeral)
  show hi: "to_canonical_u64 hi < 2 ^ 8"
    using limb_range_value [of "[4..<8]" limb hi] range high by (simp del: upt_rec_numeral)
  let ?N = "to_canonical_u64 hi * 2 ^ 16 + to_canonical_u64 lo"
  have "?N < p_nat" using lo hi by simp
  moreover have "of_nat ?N = m0 * m1 + addend" using comb by simp
  ultimately show "to_canonical_u64 (m0 * m1 + addend) = ?N" by (metis to_canonical_of_nat_small)
qed

text \<open>The results the gate accepts: both 16-bit halves have eight bits.\<close>

definition eight_bit_halves :: "nat \<Rightarrow> bool" where
  "eight_bit_halves v \<longleftrightarrow> v mod 2 ^ 16 < 2 ^ 8 \<and> v div 2 ^ 16 < 2 ^ 8"

lemma ua16_op_complete:
  fixes m0 m1 addend :: gf
  defines "out \<equiv> to_canonical_u64 (m0 * m1 + addend)"
  assumes fits: "eight_bit_halves out"
    and low_limbs: "\<And>j. j < 4 \<Longrightarrow> limb j = of_nat (le_digits 4 4 (out mod 2 ^ 16) ! j)"
    and high_limbs: "\<And>j. j < 4 \<Longrightarrow> limb (4 + j) = of_nat (le_digits 4 4 (out div 2 ^ 16) ! j)"
  shows "\<forall>c\<in>set (ua16_op_constraints limb m0 m1 addend (of_nat (out mod 2 ^ 16)) (of_nat (out div 2 ^ 16))). c = 0"
proof -
  have range: "range_product 4 (limb j) = 0" if "j < 8" for j
  proof (cases "j < 4")
    case True
    then show ?thesis using low_limbs le_digits_range [of j 4 "out mod 2 ^ 16"] by (simp add: range_product_4_zero)
  next
    case False
    then have k: "j = 4 + (j - 4)" "j - 4 < 4" using that by auto
    have "limb j = of_nat (le_digits 4 4 (out div 2 ^ 16) ! (j - 4))" using high_limbs [OF k(2)] k(1) by simp
    then show ?thesis using le_digits_range [OF k(2), of "out div 2 ^ 16"] by (simp add: range_product_4_zero)
  qed
  have comb: "of_nat (out div 2 ^ 16) * of_nat (2 ^ 16) + of_nat (out mod 2 ^ 16) - (m0 * m1 + addend) = 0"
  proof -
    have "(of_nat (out div 2 ^ 16) * of_nat (2 ^ 16) + of_nat (out mod 2 ^ 16) :: gf)
      = of_nat (out div 2 ^ 16 * 2 ^ 16 + out mod 2 ^ 16)" by (simp only: of_nat_add of_nat_mult)
    also have "\<dots> = of_nat out" by (simp only: div_mult_mod_eq)
    finally show ?thesis by (simp add: out_def)
  qed
  have digits: "le_value 4 (map of_nat (le_digits 4 4 v)) = (of_nat v :: gf)" if "v < 2 ^ 8" for v
    using of_nat_le_value [of 4 "le_digits 4 4 v", symmetric] that by (simp add: le_value_digits)
  have "map limb [0..<4] = map of_nat (le_digits 4 4 (out mod 2 ^ 16))"
    by (intro nth_equalityI) (simp_all add: low_limbs del: upt_rec_numeral)
  then have low: "le_value 4 (map limb [0..<4]) = of_nat (out mod 2 ^ 16)"
    using digits fits by (simp add: eight_bit_halves_def del: upt_rec_numeral)
  have "map limb [4..<8] = map of_nat (le_digits 4 4 (out div 2 ^ 16))"
    by (intro nth_equalityI) (simp_all add: high_limbs del: upt_rec_numeral)
  then have high: "le_value 4 (map limb [4..<8]) = of_nat (out div 2 ^ 16)"
    using digits fits by (simp add: eight_bit_halves_def del: upt_rec_numeral)
  show ?thesis
    using range comb low high
    by (auto simp: ua16_op_constraints_def ua16_limb_numbers simp del: upt_rec_numeral mult_eq_0_iff of_nat_power)
qed

section \<open>The witness generator\<close>

fun ua16_output_limbs :: "nat \<Rightarrow> nat \<Rightarrow> nat list" where
  "ua16_output_limbs 0 output_u64 = []"
| "ua16_output_limbs (Suc k) output_u64 =
    (if output_u64 = 0 then []
     else output_u64 mod 2 ^ ua16_limb_bits # ua16_output_limbs k (output_u64 div 2 ^ ua16_limb_bits))"

text \<open>The limbs are the digits of the whole result, not of its halves.\<close>

definition ua16_run_once :: "U16ArithmeticGate \<Rightarrow> (nat \<Rightarrow> gf) \<Rightarrow> nat \<Rightarrow> (nat \<times> gf) list" where
  "ua16_run_once g get_local_wire i =
    (let multiplicand_0 = get_local_wire (ua16_wire_ith_multiplicand_0 i);
         multiplicand_1 = get_local_wire (ua16_wire_ith_multiplicand_1 i);
         addend = get_local_wire (ua16_wire_ith_addend i);
         output = multiplicand_0 * multiplicand_1 + addend;
         output_u64 = to_canonical_u64 output;
         output_high_u64 = output_u64 div 2 ^ 16;
         output_low_u64 = output_u64 mod 2 ^ 16
     in [(ua16_wire_ith_output_high_half i, of_nat output_high_u64),
         (ua16_wire_ith_output_low_half i, of_nat output_low_u64)]
        @ map (\<lambda>(j, output_limb). (ua16_wire_ith_output_jth_limb g i j, of_nat output_limb))
            (enumerate 0 (ua16_output_limbs ua16_num_limbs output_u64)))"

section \<open>The gadget operation\<close>

definition ua16_slot :: "target \<Rightarrow> target \<Rightarrow> target \<Rightarrow> (target \<times> target) circ" where
  "ua16_slot x y z =
    circ_bind (gate_slot (ua16_eval_unfiltered \<lparr>ua16_num_ops = 1\<rparr>) [x, y, z] (2 + ua16_num_limbs)) (\<lambda>free.
    circ_return (free ! 0, free ! 1))"

lemma ua16_single_op: "ua16_eval_unfiltered \<lparr>ua16_num_ops = 1\<rparr> w = ua16_op_at \<lparr>ua16_num_ops = 1\<rparr> w 0"
  by (simp add: ua16_eval_unfiltered_def ua16_eval_op_eq)

lemma ua16_slot_row:
  "ua16_eval_unfiltered \<lparr>ua16_num_ops = 1\<rparr> (\<lambda>k. ([x, y, z] @ lo # hi # limbs) ! k) = ua16_op_constraints (\<lambda>j. limbs ! j) x y z lo hi"
  unfolding ua16_single_op by (simp add: ua16_wire_defs numeral_eq_Suc)

lemma realises_ua16_slot:
  fixes x y z :: target
  defines "out \<equiv> to_canonical_u64 (tval x * tval y + tval z)"
  shows "realises (ua16_slot x y z) (eight_bit_halves out) (\<lambda>(low, high). to_canonical_u64 (tval low) = out mod 2 ^ 16 \<and> to_canonical_u64 (tval high) = out div 2 ^ 16)"
proof -
  define Q :: "gf list \<Rightarrow> bool" where
    "Q vs \<longleftrightarrow> eight_bit_halves out \<and> to_canonical_u64 (vs ! 0) = out mod 2 ^ 16 \<and> to_canonical_u64 (vs ! 1) = out div 2 ^ 16" for vs
  have accepted: "Q vs" if len: "length vs = 2 + ua16_num_limbs"
      and zero: "\<forall>c\<in>set (ua16_eval_unfiltered \<lparr>ua16_num_ops = 1\<rparr> (\<lambda>k. (map tval [x, y, z] @ vs) ! k)). c = 0" for vs
  proof -
    obtain lo hi limbs where vs: "vs = lo # hi # limbs" using len by (metis add_2_eq_Suc length_Suc_conv)
    then have "\<forall>c\<in>set (ua16_op_constraints (\<lambda>j. limbs ! j) (tval x) (tval y) (tval z) lo hi). c = 0"
      using zero ua16_slot_row [of "tval x" "tval y" "tval z" lo hi limbs] by simp
    from ua16_op_sound [OF this] have "to_canonical_u64 lo < 2 ^ 8" "to_canonical_u64 hi < 2 ^ 8"
      "out = to_canonical_u64 hi * 2 ^ 16 + to_canonical_u64 lo" by (simp_all add: out_def)
    moreover have "out mod 2 ^ 16 = to_canonical_u64 lo" "out div 2 ^ 16 = to_canonical_u64 hi"
      using calculation by simp_all
    ultimately show "Q vs" by (simp only: Q_def eight_bit_halves_def vs) simp
  qed
  have after: "sound (ua16_slot x y z) (\<lambda>r. eight_bit_halves out \<and> (case r of (low, high) \<Rightarrow> to_canonical_u64 (tval low) = out mod 2 ^ 16 \<and> to_canonical_u64 (tval high) = out div 2 ^ 16))"
    unfolding ua16_slot_def
    by (rule sound_bind [OF sound_gate_slot [where Q = Q, OF accepted]]) (auto intro!: sound_return simp: Q_def ua16_limb_numbers)
  show ?thesis
  proof (rule realisesI [OF after])
    assume fits: "eight_bit_halves out"
    let ?limbs = "map of_nat (le_digits 4 4 (out mod 2 ^ 16)) @ map of_nat (le_digits 4 4 (out div 2 ^ 16))"
    let ?vs = "of_nat (out mod 2 ^ 16) # of_nat (out div 2 ^ 16) # ?limbs"
    have "\<forall>c\<in>set (ua16_eval_unfiltered \<lparr>ua16_num_ops = 1\<rparr> (\<lambda>k. (map tval [x, y, z] @ ?vs) ! k)). c = 0"
      unfolding list.map ua16_slot_row unfolding out_def
      by (rule ua16_op_complete) (use fits in \<open>simp_all add: out_def nth_append\<close>)
    then show "complete (ua16_slot x y z) (\<lambda>_. True)"
      unfolding ua16_slot_def
      by (intro complete_bind [OF complete_gate_slot [of ?vs]] complete_return) (simp_all add: ua16_limb_numbers)
  qed
qed

section \<open>Properties\<close>

text \<open>
  An operation of \<open>U16ArithmeticGate\<close> can be satisfied exactly when both 16-bit halves of the
  result are below \<open>2 ^ 8\<close>: the gate never accepts a wrong result, but it also rejects the correct one
  for most inputs, such as \<open>300 * 1 + 0\<close>.
\<close>

theorem u16_arithmetic_gate_eight_bits:
  "realises (ua16_slot x y z)
     (to_canonical_u64 (tval x * tval y + tval z) mod 2 ^ 16 < 2 ^ 8
       \<and> to_canonical_u64 (tval x * tval y + tval z) div 2 ^ 16 < 2 ^ 8)
     (\<lambda>(low, high). to_canonical_u64 (tval low) = to_canonical_u64 (tval x * tval y + tval z) mod 2 ^ 16
       \<and> to_canonical_u64 (tval high) = to_canonical_u64 (tval x * tval y + tval z) div 2 ^ 16)
   \<and> unsatisfiable (ua16_slot (Wire 300) (Wire 1) (Wire 0))"
  using realises_ua16_slot [of x y z] realises_ua16_slot [of "Wire 300" "Wire 1" "Wire 0"]
  by (simp add: eight_bit_halves_def realises_def split del: if_split)

end
