(* ===== verification/U32_Gadgets.thy ===== *)
theory U32_Gadgets
  imports U32_Arithmetic_Gate Subtraction_Gate Byte_Gate
begin

text \<open>
  The gadgets on 32-bit targets (\<open>circuit/src/uint/u32/gadgets/arithmetic_u32.rs\<close>): constant folding in
  front of the gates, multiplication with addition, sums of many addends, subtraction with borrow, and
  the split of a field element into its two 32-bit halves. A \<open>U32Target\<close> is its \<open>Target\<close>; every
  contract says what the canonical values of the results are.
\<close>

section \<open>Targets\<close>

definition is_u32 :: "target \<Rightarrow> bool" where
  "is_u32 t \<longleftrightarrow> uval t < 2 ^ 32"

definition constant_u32 :: "nat \<Rightarrow> target" where
  "constant_u32 c = Const (of_nat c)"

definition zero_u32 :: target where "zero_u32 = Const 0"
definition one_u32 :: target where "one_u32 = Const 1"

definition add_virtual_u32_target_unsafe :: "target circ" where
  "add_virtual_u32_target_unsafe = add_virtual_target"

definition add_virtual_u32_target_safe :: "target circ" where
  "add_virtual_u32_target_safe =
    circ_bind add_virtual_target (\<lambda>target. circ_bind (register_range_check target 32) (\<lambda>_. circ_return target))"

definition add_virtual_u32_targets_safe :: "nat \<Rightarrow> target list circ" where
  "add_virtual_u32_targets_safe n =
    circ_bind (add_virtual_targets n) (\<lambda>targets.
    circ_bind (circ_for targets (\<lambda>target. register_range_check target 32)) (\<lambda>_. circ_return targets))"

definition select_u32 :: "target \<Rightarrow> target \<Rightarrow> target \<Rightarrow> target" where
  "select_u32 cond a b = select cond a b"

definition connect_u32 :: "target \<Rightarrow> target \<Rightarrow> unit circ" where
  "connect_u32 x y = connect x y"

definition is_equal_u32 :: "target \<Rightarrow> target \<Rightarrow> target circ" where
  "is_equal_u32 a b = is_equal a b"

definition is_zero_u32 :: "target \<Rightarrow> target circ" where
  "is_zero_u32 x = is_equal_u32 zero_u32 x"

definition assert_zero_u32 :: "target \<Rightarrow> unit circ" where
  "assert_zero_u32 x = assert_zero x"

definition conditional_assert_eq_u32 :: "target \<Rightarrow> target \<Rightarrow> target \<Rightarrow> unit circ" where
  "conditional_assert_eq_u32 cond a b = conditional_assert_eq cond a b"

definition conditional_assert_zero_u32 :: "target \<Rightarrow> target \<Rightarrow> unit circ" where
  "conditional_assert_zero_u32 cond a = conditional_assert_eq cond a (Const 0)"

lemma is_u32_bound: "is_u32 t \<Longrightarrow> uval t < 4294967296"
  by (simp add: is_u32_def)

lemma uval_constant_u32: "c < 2 ^ 32 \<Longrightarrow> uval (constant_u32 c) = c"
  by (simp add: constant_u32_def)

lemma is_u32_constants [simp]: "is_u32 zero_u32" "is_u32 one_u32" "c < 2 ^ 32 \<Longrightarrow> is_u32 (constant_u32 c)"
  by (simp_all add: is_u32_def zero_u32_def one_u32_def constant_u32_def)

lemma uval_constants_u32 [simp]: "uval zero_u32 = 0" "uval one_u32 = 1"
  by (simp_all add: zero_u32_def one_u32_def)

lemma is_u32_bval: "bval t b \<Longrightarrow> is_u32 t"
  by (cases b) (simp_all add: is_u32_def bval_def)

lemma is_u32_select: "bval c b \<Longrightarrow> is_u32 x \<Longrightarrow> is_u32 y \<Longrightarrow> is_u32 (select_u32 c x y)"
  by (simp add: is_u32_def select_u32_def uval_select)

lemma uval_select_u32: "bval c b \<Longrightarrow> uval (select_u32 c x y) = (if b then uval x else uval y)"
  by (simp add: select_u32_def uval_select)

lemma realises_conditional_assert_zero_u32:
  "bval c b \<Longrightarrow> realises (conditional_assert_zero_u32 c x) (b \<longrightarrow> uval x = 0) (\<lambda>_. True)"
  using realises_conditional_assert_eq [of c b x "Const 0"] by (simp add: conditional_assert_zero_u32_def)

lemma implements_is_equal_u32: "implements (is_equal_u32 x y) (\<lambda>r. bval r (uval x = uval y))"
  using implements_is_equal by (simp add: is_equal_u32_def to_canonical_inject)

lemma implements_is_zero_u32: "implements (is_zero_u32 x) (\<lambda>r. bval r (uval x = 0))"
  using implements_is_equal_u32 [of zero_u32 x] by (simp add: is_zero_u32_def eq_commute [of 0])

lemma implements_add_virtual_u32_target_safe: "implements add_virtual_u32_target_safe is_u32"
proof (rule implementsI)
  show "sound add_virtual_u32_target_safe is_u32"
    unfolding add_virtual_u32_target_safe_def
    by (intro sound_bind [OF sound_add_virtual_target] sound_bind [OF realises_sound [OF realises_register_range_check]]
        sound_return) (simp_all add: is_u32_def)
  show "complete add_virtual_u32_target_safe is_u32"
    unfolding add_virtual_u32_target_safe_def
    by (rule complete_bind [OF complete_add_virtual_target [of 0]],
        rule complete_bind [OF implements_complete [OF realises_implements [OF realises_register_range_check]]],
        simp_all add: complete_return is_u32_def)
qed

section \<open>Multiplication and addition\<close>

definition arithmetic_u32_special_cases :: "target \<Rightarrow> target \<Rightarrow> target \<Rightarrow> (target \<times> target) option" where
  "arithmetic_u32_special_cases x y z =
    (let x_const = target_as_constant x; y_const = target_as_constant y; z_const = target_as_constant z;
         first_term_const = (case (x_const, y_const) of (Some xx, Some yy) \<Rightarrow> Some (xx * yy) | _ \<Rightarrow> None)
     in case (first_term_const, z_const) of
       (Some a, Some b) \<Rightarrow>
         let sum = to_canonical_u64 (a + b)
         in Some (constant_u32 (sum mod 2 ^ 32), constant_u32 (sum div 2 ^ 32 mod 2 ^ 32))
     | _ \<Rightarrow>
       if x_const = Some 0 \<or> y_const = Some 0 then Some (z, zero_u32)
       else if z_const = Some 0 \<and> x_const = Some 1 then Some (y, zero_u32)
       else if z_const = Some 0 \<and> y_const = Some 1 then Some (x, zero_u32)
       else None)"

definition mul_add_u32 :: "target \<Rightarrow> target \<Rightarrow> target \<Rightarrow> (target \<times> target) circ" where
  "mul_add_u32 x y z =
    (case arithmetic_u32_special_cases x y z of Some result \<Rightarrow> circ_return result | None \<Rightarrow> ua_slot x y z)"

definition add_u32 :: "target \<Rightarrow> target \<Rightarrow> (target \<times> target) circ" where
  "add_u32 a b = mul_add_u32 a one_u32 b"

definition add_u32_lo :: "target \<Rightarrow> target \<Rightarrow> target circ" where
  "add_u32_lo a b = circ_bind (add_u32 a b) (\<lambda>(result, _). circ_return result)"

definition mul_u32 :: "target \<Rightarrow> target \<Rightarrow> (target \<times> target) circ" where
  "mul_u32 a b = mul_add_u32 a b zero_u32"

text \<open>A pair of halves of a 64-bit number.\<close>

definition u32_halves :: "nat \<Rightarrow> target \<times> target \<Rightarrow> bool" where
  "u32_halves v r \<longleftrightarrow> is_u32 (fst r) \<and> is_u32 (snd r) \<and> uval (fst r) + 2 ^ 32 * uval (snd r) = v"

lemma u32_halvesI: "v < 2 ^ 64 \<Longrightarrow> uval lo = v mod 2 ^ 32 \<Longrightarrow> uval hi = v div 2 ^ 32 \<Longrightarrow> u32_halves v (lo, hi)"
  by (auto simp: u32_halves_def is_u32_def)

lemma u32_halves_div_mod: "u32_halves v (lo, hi) \<Longrightarrow> uval lo = v mod 2 ^ 32 \<and> uval hi = v div 2 ^ 32"
  by (auto simp: u32_halves_def is_u32_def)

lemma implements_halves:
  "implements c (u32_halves v) \<Longrightarrow> implements c (\<lambda>(low, high). uval low = v mod 2 ^ 32 \<and> uval high = v div 2 ^ 32)"
  by (erule implements_weaken) (auto dest: u32_halves_div_mod)

lemma u32_mul_add_lt:
  fixes x y z :: nat
  assumes "x < 2 ^ 32" "y < 2 ^ 32" "z < 2 ^ 32"
  shows "x * y + z < p_nat"
proof -
  have "x * y \<le> (2 ^ 32 - 1) * (2 ^ 32 - 1)" using assms by (intro mult_le_mono) simp_all
  then show ?thesis using assms(3) by simp
qed

lemma mul_add_canonical:
  assumes "is_u32 x" "is_u32 y" "is_u32 z"
  shows "to_canonical_u64 (tval x * tval y + tval z) = uval x * uval y + uval z"
    and "uval x * uval y + uval z < p_nat"
proof -
  show lt: "uval x * uval y + uval z < p_nat"
    using assms u32_mul_add_lt by (simp add: is_u32_def)
  have "tval x * tval y + tval z = of_nat (uval x * uval y + uval z)" by simp
  then show "to_canonical_u64 (tval x * tval y + tval z) = uval x * uval y + uval z"
    using to_canonical_of_nat_small [OF lt] by (simp only:)
qed

lemma special_cases_halves:
  assumes "is_u32 x" "is_u32 y" "is_u32 z" "arithmetic_u32_special_cases x y z = Some r"
  shows "u32_halves (uval x * uval y + uval z) r"
proof (cases "target_as_constant x \<noteq> None \<and> target_as_constant y \<noteq> None \<and> target_as_constant z \<noteq> None")
  case True
  then obtain a b c where c: "x = Const a" "y = Const b" "z = Const c"
    by (cases x; cases y; cases z) auto
  define v where "v = to_canonical_u64 (a * b + c)"
  have "v = uval x * uval y + uval z" "v < 2 ^ 64"
    using mul_add_canonical [OF assms(1-3)] by (simp_all add: v_def c)
  moreover have "r = (constant_u32 (v mod 2 ^ 32), constant_u32 (v div 2 ^ 32 mod 2 ^ 32))"
    using assms(4) by (simp add: arithmetic_u32_special_cases_def c v_def Let_def)
  ultimately show ?thesis
    by (auto intro!: u32_halvesI simp: uval_constant_u32)
next
  case False
  with assms show ?thesis
    by (cases x; cases y; cases z)
      (auto simp: arithmetic_u32_special_cases_def u32_halves_def Let_def split: if_splits)
qed

lemma implements_mul_add_u32:
  assumes "is_u32 x" "is_u32 y" "is_u32 z"
  shows "implements (mul_add_u32 x y z) (u32_halves (uval x * uval y + uval z))"
proof (cases "arithmetic_u32_special_cases x y z")
  case None
  have lt: "uval x * uval y + uval z < 2 ^ 64" using mul_add_canonical(2) [OF assms] by simp
  have "implements (ua_slot x y z) (u32_halves (uval x * uval y + uval z))"
    by (rule implements_weaken [OF implements_ua_slot])
      (auto simp: mul_add_canonical(1) [OF assms] intro!: u32_halvesI lt)
  with None show ?thesis by (simp add: mul_add_u32_def)
next
  case (Some r)
  with special_cases_halves [OF assms Some] show ?thesis by (simp add: mul_add_u32_def implements_return)
qed

lemma implements_add_u32:
  "is_u32 a \<Longrightarrow> is_u32 b \<Longrightarrow> implements (add_u32 a b) (u32_halves (uval a + uval b))"
  using implements_mul_add_u32 [of a one_u32 b] by (simp add: add_u32_def)

lemma implements_mul_u32:
  "is_u32 a \<Longrightarrow> is_u32 b \<Longrightarrow> implements (mul_u32 a b) (u32_halves (uval a * uval b))"
  using implements_mul_add_u32 [of a b zero_u32] by (simp add: mul_u32_def)

section \<open>Sums of many addends\<close>

text \<open>\<open>CIRCUIT_CONFIG\<close> of \<open>types/config.rs\<close>.\<close>

definition config_num_wires :: nat where "config_num_wires = 136"
definition config_num_routed_wires :: nat where "config_num_routed_wires = 80"

definition add_many_num_ops :: "nat \<Rightarrow> nat" where
  "add_many_num_ops num_addends = am_num_ops (am_new_from_config 32 config_num_wires config_num_routed_wires num_addends)"

text \<open>The \<open>while\<close> loop that widens the gate as long as the number of operations per row stays the same.\<close>

function expand_loop :: "nat \<Rightarrow> nat \<Rightarrow> nat" where
  "expand_loop num_ops expand_num_addends =
    (if expand_num_addends < MAX_NUM_ADDENDS \<and> add_many_num_ops (expand_num_addends + 1) = num_ops
     then expand_loop num_ops (expand_num_addends + 1) else expand_num_addends)"
  by pat_completeness auto
termination by (relation "measure (\<lambda>(_, n). MAX_NUM_ADDENDS - n)") auto

declare expand_loop.simps [simp del]

text \<open>\<open>find_slot\<close> needs a gate with room for an operation.\<close>

definition add_many_slot_u32 :: "target list \<Rightarrow> target \<Rightarrow> (target \<times> target) circ" where
  "add_many_slot_u32 to_add carry =
    (let num_addends = length to_add;
         expand_num_addends = expand_loop (add_many_num_ops num_addends) num_addends
     in circ_bind (circ_panic_unless (0 < add_many_num_ops expand_num_addends)) (\<lambda>_.
        am_slot 32 (to_add @ replicate (expand_num_addends - num_addends) (Const 0)) carry))"

definition add_u32s_with_carry :: "target list \<Rightarrow> target \<Rightarrow> (target \<times> target) circ" where
  "add_u32s_with_carry to_add carry =
    (if to_add = [] then circ_return (zero_u32, carry)
     else if length to_add = 1 then add_u32 (hd to_add) carry
     else
       let filtered = filter (\<lambda>t. target_as_constant t \<noteq> Some 0) to_add in
       if filtered = [] then add_u32 zero_u32 carry
       else if length filtered = 1 then add_u32 (hd filtered) carry
       else add_many_slot_u32 filtered carry)"

definition add_many_u32 :: "target list \<Rightarrow> (target \<times> target) circ" where
  "add_many_u32 to_add =
    (case to_add of
       [] \<Rightarrow> circ_return (zero_u32, zero_u32)
     | [a] \<Rightarrow> circ_return (a, zero_u32)
     | [a, b] \<Rightarrow> add_u32 a b
     | _ \<Rightarrow> add_u32s_with_carry to_add zero_u32)"

lemma expand_loop_ge: "n \<le> expand_loop k n"
proof (induction k n rule: expand_loop.induct)
  case (1 k n)
  then show ?case by (subst expand_loop.simps) auto
qed

lemma expand_loop_le: "expand_loop k n \<le> max n MAX_NUM_ADDENDS"
proof (induction k n rule: expand_loop.induct)
  case (1 k n)
  then show ?case by (subst expand_loop.simps) auto
qed

text \<open>A row has room for an operation with up to 77 addends.\<close>

lemma add_many_num_ops_pos: "n \<le> 77 \<Longrightarrow> 0 < add_many_num_ops n"
proof -
  assume n: "n \<le> 77"
  have "1 \<le> 136 div (n + 21)" "1 \<le> 80 div (n + 3)"
    using n div_le_mono2 [of "n + 21" 98 136] div_le_mono2 [of "n + 3" 80 80] by simp_all
  moreover have "add_many_num_ops n = min (136 div (n + 21)) (80 div (n + 3))"
    by (simp add: add_many_num_ops_def am_new_from_config_def config_num_wires_def config_num_routed_wires_def
      ceil_div_usize_def am_limb_bits_def am_num_carry_limbs_def LOG2_MAX_NUM_ADDENDS_def Let_def add.assoc)
  ultimately show ?thesis by simp
qed

lemma sum_list_canonical:
  assumes "(\<Sum>t\<leftarrow>ts. uval t) + uval c < p_nat"
  shows "to_canonical_u64 (sum_list (map tval ts) + tval c) = (\<Sum>t\<leftarrow>ts. uval t) + uval c"
proof -
  have "sum_list (map tval ts) = of_nat (\<Sum>t\<leftarrow>ts. uval t)" by (induction ts) simp_all
  then have "sum_list (map tval ts) + tval c = of_nat ((\<Sum>t\<leftarrow>ts. uval t) + uval c)" by simp
  then show ?thesis using to_canonical_of_nat_small [OF assms] by (simp only:)
qed

lemma am_width_32: "am_width_ok 32"
  by (simp add: am_width_ok_def)

lemma implements_add_many_slot_u32:
  assumes "(\<Sum>t\<leftarrow>ts. uval t) + uval c < 16 * 2 ^ 32" "length ts \<le> 77"
  shows "implements (add_many_slot_u32 ts c) (u32_halves ((\<Sum>t\<leftarrow>ts. uval t) + uval c))"
proof -
  let ?e = "expand_loop (add_many_num_ops (length ts)) (length ts)"
  define us where "us = ts @ replicate (?e - length ts) (Const 0)"
  have "?e \<le> 77" using expand_loop_le [of "add_many_num_ops (length ts)" "length ts"] assms(2)
    by (simp add: MAX_NUM_ADDENDS_def)
  then have ops: "0 < add_many_num_ops ?e" by (rule add_many_num_ops_pos)
  have sum: "(\<Sum>t\<leftarrow>us. uval t) + uval c = (\<Sum>t\<leftarrow>ts. uval t) + uval c"
    by (simp add: us_def sum_list_replicate)
  have canon: "to_canonical_u64 (sum_list (map tval us) + tval c) = (\<Sum>t\<leftarrow>ts. uval t) + uval c"
    using sum_list_canonical [of us c] assms(1) unfolding sum by simp
  have "implements (am_slot 32 us c) (u32_halves ((\<Sum>t\<leftarrow>ts. uval t) + uval c))"
    by (rule implements_weaken [OF implements_am_slot [OF am_width_32]])
      (use assms(1) in \<open>auto simp: canon intro!: u32_halvesI\<close>)
  then show ?thesis
    unfolding add_many_slot_u32_def Let_def us_def by (intro implements_bind [OF implements_panic [OF ops]]) simp
qed

lemma sum_list_filter_zero: "(\<Sum>t\<leftarrow>filter (\<lambda>t. target_as_constant t \<noteq> Some 0) ts. uval t) = (\<Sum>t\<leftarrow>ts. uval t)"
  by (induction ts) (auto dest: target_as_constant_Some)

text \<open>
  The carry is added to the sum, except for an empty list of addends, where the carry is returned as
  the high half: the result is right then only if the carry is zero.
\<close>

lemma implements_add_u32s_with_carry:
  assumes "list_all is_u32 ts" "is_u32 c" "(\<Sum>t\<leftarrow>ts. uval t) + uval c < 16 * 2 ^ 32" "length ts \<le> 77"
    and "ts = [] \<Longrightarrow> uval c = 0"
  shows "implements (add_u32s_with_carry ts c) (u32_halves ((\<Sum>t\<leftarrow>ts. uval t) + uval c))"
proof -
  let ?fs = "filter (\<lambda>t. target_as_constant t \<noteq> Some 0) ts"
  have sum: "(\<Sum>t\<leftarrow>?fs. uval t) = (\<Sum>t\<leftarrow>ts. uval t)" by (rule sum_list_filter_zero)
  have fs: "list_all is_u32 ?fs" using assms(1) by (auto simp: list_all_iff)
  have single: "implements (add_u32 (hd us) c) (u32_halves ((\<Sum>t\<leftarrow>us. uval t) + uval c))"
    if "length us = 1" "list_all is_u32 us" for us
    using that assms(2) implements_add_u32 by (auto simp: length_Suc_conv)
  consider "ts = []" | "length ts = 1" | "1 < length ts" "?fs = []" | "1 < length ts" "length ?fs = 1"
    | "1 < length ts" "1 < length ?fs"
    by (cases "length ts"; cases "length ?fs") force+
  then show ?thesis
  proof cases
    case 1
    then show ?thesis
      using assms(2,5) by (auto simp: add_u32s_with_carry_def u32_halves_def intro: implements_return)
  next
    case 2
    then show ?thesis using single [of ts] assms(1) by (auto simp: add_u32s_with_carry_def)
  next
    case 3
    then have "add_u32s_with_carry ts c = add_u32 zero_u32 c"
      by (auto simp: add_u32s_with_carry_def Let_def)
    moreover have "(\<Sum>t\<leftarrow>ts. uval t) + uval c = uval zero_u32 + uval c"
      unfolding sum [symmetric] using 3 by (simp only: list.map sum_list.Nil uval_constants_u32)
    ultimately show ?thesis
      using implements_add_u32 [OF is_u32_constants(1) assms(2)] by (simp only:)
  next
    case 4
    then show ?thesis
      using single [of ?fs] fs sum by (auto simp: add_u32s_with_carry_def Let_def)
  next
    case 5
    then have "add_u32s_with_carry ts c = add_many_slot_u32 ?fs c"
      by (auto simp: add_u32s_with_carry_def Let_def)
    moreover have "length ?fs \<le> 77" using assms(4) length_filter_le [of _ ts] order_trans by blast
    ultimately show ?thesis
      using implements_add_many_slot_u32 [of ?fs c] assms(3) unfolding sum by simp
  qed
qed

lemma implements_add_many_u32:
  assumes "list_all is_u32 ts" "(\<Sum>t\<leftarrow>ts. uval t) < 16 * 2 ^ 32" "length ts \<le> 77"
  shows "implements (add_many_u32 ts) (u32_halves (\<Sum>t\<leftarrow>ts. uval t))"
proof -
  consider "ts = []" | a where "ts = [a]" | a b where "ts = [a, b]" | a b c us where "ts = a # b # c # us"
    by (metis list.exhaust)
  then show ?thesis
    using assms implements_add_u32 implements_add_u32s_with_carry [of ts zero_u32]
    by cases (auto simp: add_many_u32_def u32_halves_def intro!: implements_return)
qed

section \<open>Subtraction\<close>

definition sub_u32 :: "target \<Rightarrow> target \<Rightarrow> target \<Rightarrow> (target \<times> target) circ" where
  "sub_u32 x y borrow =
    (if target_as_constant y = Some 0 \<and> target_as_constant borrow = Some 0 then circ_return (x, zero_u32)
     else sg_slot 32 x y borrow)"

text \<open>A difference with its borrow: \<open>x - y - borrow = result - 2 ^ 32 * output_borrow\<close>.\<close>

definition u32_difference :: "nat \<Rightarrow> nat \<Rightarrow> target \<times> target \<Rightarrow> bool" where
  "u32_difference x y r \<longleftrightarrow> is_u32 (fst r) \<and> bval (snd r) (x < y) \<and> uval (fst r) + y = x + 2 ^ 32 * of_bool (x < y)"

lemma u32_differenceI:
  assumes "x < 2 ^ 32" "y \<le> 2 ^ 32" "int (uval r) = (int x - int y) mod 2 ^ 32" "bval b (x < y)"
  shows "u32_difference x y (r, b)"
proof (cases "x < y")
  case True
  have "(int x - int y) mod 2 ^ 32 = int x - int y + 2 ^ 32"
    using mod_pos_pos_trivial [of "int x - int y + 2 ^ 32" "2 ^ 32"] True assms(1,2) by simp
  then show ?thesis using True assms by (auto simp: u32_difference_def is_u32_def)
next
  case False
  then have "(int x - int y) mod 2 ^ 32 = int x - int y" using assms(1) by (intro mod_pos_pos_trivial) auto
  then show ?thesis using False assms by (auto simp: u32_difference_def is_u32_def)
qed

lemma implements_sub_u32:
  assumes "is_u32 x" "is_u32 y" "bval borrow b"
  shows "implements (sub_u32 x y borrow) (u32_difference (uval x) (uval y + of_bool b))"
proof (cases "target_as_constant y = Some 0 \<and> target_as_constant borrow = Some 0")
  case True
  then have "uval y = 0" "\<not> b" using assms(3) by (auto simp: bval_def dest!: target_as_constant_Some split: if_splits)
  with True show ?thesis
    using assms(1) by (auto simp: sub_u32_def u32_difference_def bval_def zero_u32_def intro!: implements_return)
next
  case False
  have w: "sg_width_ok 32" by (simp add: sg_width_ok_def)
  have ub: "uval borrow = of_bool b" by (rule uval_bval [OF assms(3)])
  have "implements (sg_slot 32 x y borrow) (u32_difference (uval x) (uval y + of_bool b))"
  proof (rule implements_weaken [OF implements_sg_slot [OF w]])
    fix r assume "case r of (result, output_borrow) \<Rightarrow>
      int (uval result) = (int (uval x) - int (uval y) - int (uval borrow)) mod 2 ^ 32 \<and>
      tval output_borrow = of_bool (uval x < uval y + uval borrow)"
    then show "u32_difference (uval x) (uval y + of_bool b) r"
      using assms(1,2) unfolding ub
      by (cases r) (auto intro!: u32_differenceI simp: is_u32_def bval_def algebra_simps)
  qed (use assms(1,2) ub in \<open>auto simp: is_u32_def\<close>)
  then show ?thesis by (simp only: sub_u32_def if_not_P [OF False])
qed

section \<open>Splitting a field element\<close>

definition split_u64_to_u32s_le_unsafe :: "target \<Rightarrow> (target \<times> target) circ" where
  "split_u64_to_u32s_le_unsafe x =
    circ_bind add_virtual_u32_target_unsafe (\<lambda>low.
    circ_bind add_virtual_u32_target_unsafe (\<lambda>high.
    circ_bind (connect (b_mul_add high (Const (2 ^ 32)) low) x) (\<lambda>_.
    circ_return (low, high))))"

text \<open>A constant is split while the circuit is built: \<open>constant_biguint\<close>, padded to two limbs.\<close>

definition split_u64_to_u32s_le :: "target \<Rightarrow> (target \<times> target) circ" where
  "split_u64_to_u32s_le x =
    (case target_as_constant x of
       Some const_x \<Rightarrow>
         let big_x = to_canonical_u64 const_x
         in circ_return (constant_u32 (big_x mod 2 ^ 32), constant_u32 (big_x div 2 ^ 32))
     | None \<Rightarrow>
         circ_bind (split_u64_to_u32s_le_unsafe x) (\<lambda>(low, high).
         circ_bind (register_range_check low 32) (\<lambda>_.
         circ_bind (register_range_check high 32) (\<lambda>_.
         circ_bind (is_equal high (Const (2 ^ 32 - 1))) (\<lambda>is_high_max.
         circ_bind (conditional_assert_zero_u32 is_high_max low) (\<lambda>_.
         circ_return (low, high)))))))"

text \<open>The canonical halves: those below the order of the field.\<close>

lemma halves_canonical:
  fixes lo hi :: gf
  assumes "to_canonical_u64 lo < 2 ^ 32" "to_canonical_u64 hi < 2 ^ 32"
    and "to_canonical_u64 hi = 2 ^ 32 - 1 \<longrightarrow> to_canonical_u64 lo = 0"
  shows "to_canonical_u64 (hi * 2 ^ 32 + lo) = to_canonical_u64 lo + 2 ^ 32 * to_canonical_u64 hi"
proof -
  have lt: "to_canonical_u64 lo + 2 ^ 32 * to_canonical_u64 hi < p_nat"
    using assms by (cases "to_canonical_u64 hi = 2 ^ 32 - 1") simp_all
  have "hi * 2 ^ 32 + lo = of_nat (to_canonical_u64 lo + 2 ^ 32 * to_canonical_u64 hi)"
    by simp
  then show ?thesis using to_canonical_of_nat_small [OF lt] by (simp only:)
qed

lemma halves_below_order: "v < p_nat \<Longrightarrow> v div 2 ^ 32 < 2 ^ 32 \<and> (v div 2 ^ 32 = 2 ^ 32 - 1 \<longrightarrow> v mod 2 ^ 32 = 0)"
proof -
  define q r where "q = v div 2 ^ 32" and "r = v mod 2 ^ 32"
  have "v = 2 ^ 32 * q + r" by (simp add: q_def r_def)
  moreover have "r < 2 ^ 32" by (simp add: r_def)
  moreover assume "v < p_nat"
  ultimately show ?thesis unfolding q_def [symmetric] r_def [symmetric] by auto
qed

lemma halves_of_canonical:
  fixes x :: gf
  defines "lo \<equiv> to_canonical_u64 x mod 2 ^ 32" and "hi \<equiv> to_canonical_u64 x div 2 ^ 32"
  shows "hi < 2 ^ 32" "hi = 2 ^ 32 - 1 \<longrightarrow> lo = 0" "of_nat hi * 2 ^ 32 + of_nat lo = x"
proof -
  show "hi < 2 ^ 32" "hi = 2 ^ 32 - 1 \<longrightarrow> lo = 0"
    unfolding lo_def hi_def using halves_below_order [OF to_canonical_lt] by blast+
  have "of_nat hi * 2 ^ 32 + of_nat lo = (of_nat (hi * 2 ^ 32 + lo) :: gf)" by simp
  also have "hi * 2 ^ 32 + lo = to_canonical_u64 x" by (simp only: hi_def lo_def div_mult_mod_eq)
  finally show "of_nat hi * 2 ^ 32 + of_nat lo = x" by simp
qed

lemma is_max_iff:
  "tval t = tval (Const (2 ^ 32 - 1)) \<longleftrightarrow> uval t = 2 ^ 32 - 1"
  "tval t = tval (Const 4294967295) \<longleftrightarrow> uval t = 4294967295"
  using to_canonical_inject [of "tval t" "of_nat (2 ^ 32 - 1)"] by simp_all

lemma sound_split_u64: "sound (split_u64_to_u32s_le (Wire v)) (u32_halves (to_canonical_u64 v))"
proof -
  have "sound (split_u64_to_u32s_le_unsafe (Wire v)) (\<lambda>(low, high). tval high * 2 ^ 32 + tval low = v)"
    unfolding split_u64_to_u32s_le_unsafe_def add_virtual_u32_target_unsafe_def
    by (intro sound_bind [OF sound_add_virtual_target] sound_bind [OF realises_sound [OF realises_connect]] sound_return)
      (simp add: tval_simps)
  then show ?thesis
    unfolding split_u64_to_u32s_le_def target_as_constant.simps option.case
  proof (rule sound_bind, unfold split_paired_all prod.case)
    fix low high
    assume eq: "tval high * 2 ^ 32 + tval low = v"
    show "sound (circ_bind (register_range_check low 32) (\<lambda>_. circ_bind (register_range_check high 32) (\<lambda>_.
        circ_bind (is_equal high (Const (2 ^ 32 - 1))) (\<lambda>m. circ_bind (conditional_assert_zero_u32 m low) (\<lambda>_.
        circ_return (low, high)))))) (u32_halves (to_canonical_u64 v))"
      by (rule sound_bind [OF realises_sound [OF realises_register_range_check]], simp,
          rule sound_bind [OF realises_sound [OF realises_register_range_check]], simp,
          rule sound_bind [OF implements_sound [OF implements_is_equal]],
          rule sound_bind [OF realises_sound [OF realises_conditional_assert_zero_u32]], assumption,
          rule sound_return)
        (use halves_canonical [of "tval low" "tval high"] eq in
          \<open>auto simp: u32_halves_def is_u32_def is_max_iff simp del: tval.simps\<close>)
  qed
qed

lemma complete_split_u64: "complete (split_u64_to_u32s_le (Wire v)) (\<lambda>_. True)"
proof -
  define lo hi where "lo = to_canonical_u64 v mod 2 ^ 32" and "hi = to_canonical_u64 v div 2 ^ 32"
  note halves = halves_of_canonical [of v, folded lo_def hi_def]
  have small: "uval (Wire (of_nat lo)) = lo" "uval (Wire (of_nat hi)) = hi" "lo < 2 ^ 32"
    using halves(1) by (simp_all add: lo_def)
  have "complete (split_u64_to_u32s_le_unsafe (Wire v)) (\<lambda>r. r = (Wire (of_nat lo), Wire (of_nat hi)))"
    unfolding split_u64_to_u32s_le_unsafe_def add_virtual_u32_target_unsafe_def
    by (rule complete_bind [OF complete_add_virtual_target [of "of_nat lo"]],
        rule complete_bind [OF complete_add_virtual_target [of "of_nat hi"]],
        rule complete_bind [OF implements_complete [OF realises_implements [OF realises_connect]]])
      (use halves(3) in \<open>auto simp: tval_simps intro: complete_return\<close>)
  then show ?thesis
    unfolding split_u64_to_u32s_le_def target_as_constant.simps option.case
  proof (rule complete_bind, clarify)
    let ?lo = "Wire (of_nat lo)" and ?hi = "Wire (of_nat hi)"
    have "realises (register_range_check ?lo 32) True (\<lambda>_. True)" "realises (register_range_check ?hi 32) True (\<lambda>_. True)"
      using realises_register_range_check [of 32 ?lo] realises_register_range_check [of 32 ?hi] small halves(1) by simp_all
    note range = this [folded implements_realises, THEN implements_complete]
    have "complete (circ_bind (is_equal ?hi (Const (2 ^ 32 - 1))) (\<lambda>m. circ_bind (conditional_assert_zero_u32 m ?lo) (\<lambda>_.
        circ_return (?lo, ?hi)))) (\<lambda>_. True)"
    proof (rule complete_bind [OF implements_complete [OF implements_is_equal]])
      fix m assume m: "bval m (tval ?hi = tval (Const (2 ^ 32 - 1)))"
      show "complete (circ_bind (conditional_assert_zero_u32 m ?lo) (\<lambda>_. circ_return (?lo, ?hi))) (\<lambda>_. True)"
        by (rule complete_bind [OF implements_complete [OF realises_implements [OF realises_conditional_assert_zero_u32 [OF m]]]])
          (use halves(2) small in \<open>simp_all only: is_max_iff complete_return simp_thms\<close>)
    qed
    then show "complete (circ_bind (register_range_check ?lo 32) (\<lambda>_. circ_bind (register_range_check ?hi 32) (\<lambda>_.
        circ_bind (is_equal ?hi (Const (2 ^ 32 - 1))) (\<lambda>m. circ_bind (conditional_assert_zero_u32 m ?lo) (\<lambda>_.
        circ_return (?lo, ?hi)))))) (\<lambda>_. True)"
      by (intro complete_bind [OF range(1)] complete_bind [OF range(2)])
  qed
qed

lemma implements_split_u64: "implements (split_u64_to_u32s_le x) (u32_halves (uval x))"
proof (cases x)
  case (Const c)
  have "u32_halves (to_canonical_u64 c) (constant_u32 (to_canonical_u64 c mod 2 ^ 32), constant_u32 (to_canonical_u64 c div 2 ^ 32))"
    using halves_of_canonical(1) [of c] uval_lt_64 [of x] by (auto intro!: u32_halvesI simp: uval_constant_u32)
  with Const show ?thesis by (simp add: split_u64_to_u32s_le_def Let_def implements_return)
next
  case (Wire v)
  have "realises (split_u64_to_u32s_le (Wire v)) True (u32_halves (to_canonical_u64 v))"
    by (rule realisesI) (use sound_split_u64 complete_split_u64 in auto)
  with Wire show ?thesis by (simp add: implements_realises)
qed

section \<open>Properties\<close>

text \<open>
  Multiplication with addition of 32-bit targets: for all inputs, constants or wires, every
  satisfying assignment returns the low and high half of \<open>x * y + z\<close>, and one exists.
\<close>

theorem mul_add_u32_correct:
  assumes "uval x < 2 ^ 32" "uval y < 2 ^ 32" "uval z < 2 ^ 32"
  shows "implements (mul_add_u32 x y z)
    (\<lambda>(low, high). uval low = (uval x * uval y + uval z) mod 2 ^ 32 \<and> uval high = (uval x * uval y + uval z) div 2 ^ 32)"
  by (rule implements_halves [OF implements_mul_add_u32]) (use assms in \<open>simp_all add: is_u32_def\<close>)

theorem mul_add_u32_correct_witness:
  "implements (mul_add_u32 (Wire 4294967295) (Const 4294967295) (Wire 4294967295))
     (\<lambda>(low, high). uval low = 0 \<and> uval high = 4294967295)"
  using mul_add_u32_correct [of "Wire 4294967295" "Const 4294967295" "Wire 4294967295"] by simp

text \<open>
  Sums: up to 15 addends of 32 bits and a 32-bit carry are added exactly, whatever constants
  are among them; \<open>sub_u32\<close> returns the difference modulo \<open>2 ^ 32\<close> and the borrow.
\<close>

theorem add_sub_u32_correct:
  assumes "list_all is_u32 to_add" "to_add \<noteq> []" "length to_add \<le> 15" "is_u32 carry"
    and "is_u32 x" "is_u32 y" "bval borrow b"
  shows "implements (add_u32s_with_carry to_add carry) (u32_halves ((\<Sum>t\<leftarrow>to_add. uval t) + uval carry))
    \<and> implements (sub_u32 x y borrow) (u32_difference (uval x) (uval y + of_bool b))"
proof -
  have "(\<Sum>t\<leftarrow>to_add. uval t) \<le> length to_add * (2 ^ 32 - 1)"
    using assms(1) by (induction to_add) (auto simp: is_u32_def)
  also have "\<dots> \<le> 15 * (2 ^ 32 - 1)" using assms(3) by (rule mult_le_mono1)
  finally have "(\<Sum>t\<leftarrow>to_add. uval t) + uval carry < 16 * 2 ^ 32" using assms(4) by (simp add: is_u32_def)
  then show ?thesis
    using implements_add_u32s_with_carry [OF assms(1,4)] implements_sub_u32 [OF assms(5-7)] assms(2,3) by simp
qed

theorem add_sub_u32_correct_witness:
  "implements (add_u32s_with_carry [Wire 4294967295, Const 0, Wire 4294967295] (Const 7)) (u32_halves 8589934597)
   \<and> implements (sub_u32 (Wire 3) (Wire 3) (Const 1)) (u32_difference 3 4)"
  using add_sub_u32_correct [of "[Wire 4294967295, Const 0, Wire 4294967295]" "Const 7" "Wire 3" "Wire 3" "Const 1" True]
  by (simp add: is_u32_def bval_def)

text \<open>
  Without addends \<open>add_u32s_with_carry\<close> returns the carry as the high half: the pair denotes
  \<open>2 ^ 32 * carry\<close> and not the sum \<open>carry\<close>, for every carry but zero.
\<close>

theorem add_u32s_with_carry_empty:
  assumes "is_u32 carry"
  shows "implements (add_u32s_with_carry [] carry) (u32_halves (2 ^ 32 * uval carry))"
  using assms by (auto simp: add_u32s_with_carry_def u32_halves_def intro: implements_return)

theorem add_u32s_with_carry_empty_witness:
  "implements (add_u32s_with_carry [] (Wire 5)) (u32_halves 21474836480)"
  using add_u32s_with_carry_empty [of "Wire 5"] by (simp add: is_u32_def)

text \<open>
  \<open>split_u64_to_u32s_le\<close> is exact for every field element: the halves are those of the canonical
  value, so the check on the maximal high half excludes the second representation.
\<close>

theorem split_u64_to_u32s_le_exact:
  "implements (split_u64_to_u32s_le x)
    (\<lambda>(low, high). uval low = uval x mod 2 ^ 32 \<and> uval high = uval x div 2 ^ 32)"
  by (rule implements_halves [OF implements_split_u64])

text \<open>
  The variant without checks is not: the value 0 can be split into its own halves and into those of
  the order of the field.
\<close>

theorem split_u64_to_u32s_le_unsafe_ambiguous:
  "complete (split_u64_to_u32s_le_unsafe (Wire 0)) (\<lambda>r. r = (Wire 0, Wire 0))
   \<and> complete (split_u64_to_u32s_le_unsafe (Wire 0)) (\<lambda>r. r = (Wire 1, Wire 4294967295))"
proof -
  have split: "complete (split_u64_to_u32s_le_unsafe (Wire 0)) (\<lambda>r. r = (Wire lo, Wire hi))"
    if "hi * 2 ^ 32 + lo = 0" for lo hi
    unfolding split_u64_to_u32s_le_unsafe_def add_virtual_u32_target_unsafe_def
    by (rule complete_bind [OF complete_add_virtual_target [of lo]],
        rule complete_bind [OF complete_add_virtual_target [of hi]],
        rule complete_bind [OF implements_complete [OF realises_implements [OF realises_connect]]])
      (use that in \<open>auto simp: tval_simps intro: complete_return\<close>)
  show ?thesis using split [of 0 0] split [of 4294967295 1] by simp
qed

end
