(* ===== verification/Biguint.thy ===== *)
theory Biguint
  imports U32_Gadgets
begin

text \<open>
  Multi-limb integers (\<open>circuit/src/bigint/biguint.rs\<close>): structure, conversions, addition and
  subtraction. A \<open>BigUintTarget\<close> is the list of its 32-bit limbs, least significant first; \<open>bnat\<close> is
  the number it denotes and \<open>big r n v\<close> says that \<open>r\<close> has \<open>n\<close> proper limbs and denotes \<open>v\<close>. The limb
  loops with a running carry or borrow share the interfaces \<open>limb_chain\<close> and \<open>carry_chain\<close>.
\<close>

section \<open>Values\<close>

type_synonym biguint = "target list"

definition bnat :: "biguint \<Rightarrow> nat" where
  "bnat a = le_value (2 ^ 32) (map uval a)"

definition limbs_ok :: "biguint \<Rightarrow> bool" where
  "limbs_ok a \<longleftrightarrow> list_all is_u32 a"

definition big :: "biguint \<Rightarrow> nat \<Rightarrow> nat \<Rightarrow> bool" where
  "big r n v \<longleftrightarrow> limbs_ok r \<and> length r = n \<and> bnat r = v"

lemma bnat_Nil [simp]: "bnat [] = 0"
  and bnat_Cons: "bnat (x # xs) = uval x + 2 ^ 32 * bnat xs"
  and bnat_append: "bnat (xs @ ys) = bnat xs + 2 ^ (32 * length xs) * bnat ys"
  by (simp_all add: bnat_def le_value_append power_mult)

lemma bnat_single [simp]: "bnat [x] = uval x"
  by (simp add: bnat_Cons)

lemma bnat_replicate_zero [simp]: "bnat (replicate n zero_u32) = 0"
  by (simp add: bnat_def)

lemma limbs_ok_simps [simp]:
  "limbs_ok []" "limbs_ok (x # xs) \<longleftrightarrow> is_u32 x \<and> limbs_ok xs" "limbs_ok (xs @ ys) \<longleftrightarrow> limbs_ok xs \<and> limbs_ok ys"
  "limbs_ok (replicate n zero_u32)"
  by (auto simp: limbs_ok_def list_all_iff)

lemma limbs_ok_nth: "limbs_ok a \<Longrightarrow> i < length a \<Longrightarrow> is_u32 (a ! i)"
  by (simp add: limbs_ok_def list_all_length)

lemma limbs_ok_take: "limbs_ok a \<Longrightarrow> limbs_ok (take n a)" "limbs_ok a \<Longrightarrow> limbs_ok (drop n a)"
  by (auto simp: limbs_ok_def list_all_iff dest: in_set_takeD in_set_dropD)

lemma bnat_bound: "limbs_ok a \<Longrightarrow> bnat a < 2 ^ (32 * length a)"
  using le_value_bound [of "map uval a" "2 ^ 32"]
  by (simp add: bnat_def limbs_ok_def list_all_iff is_u32_def power_mult)

lemma bnat_split: "bnat a = bnat (take n a) + 2 ^ (32 * min (length a) n) * bnat (drop n a)"
  using bnat_append [of "take n a" "drop n a"] by simp

lemma bnat_eq_0_iff: "bnat a = 0 \<longleftrightarrow> (\<forall>t\<in>set a. uval t = 0)"
  by (induction a) (simp_all add: bnat_Cons)

lemma bnat_inject:
  "limbs_ok a \<Longrightarrow> limbs_ok b \<Longrightarrow> length a = length b \<Longrightarrow> bnat a = bnat b \<longleftrightarrow> map uval a = map uval b"
  using le_value_inject [of "map uval a" "map uval b" "2 ^ 32"]
  by (auto simp: bnat_def limbs_ok_def list_all_iff is_u32_def)

lemma bigI: "limbs_ok r \<Longrightarrow> length r = n \<Longrightarrow> bnat r = v \<Longrightarrow> big r n v"
  by (simp add: big_def)

lemma bigD: "big r n v \<Longrightarrow> limbs_ok r" "big r n v \<Longrightarrow> length r = n" "big r n v \<Longrightarrow> bnat r = v"
  by (simp_all add: big_def)

section \<open>Constants, conversions and padding\<close>

text \<open>\<open>to_u32_digits\<close> has no leading zeros: zero has no limbs.\<close>

function to_u32_digits :: "nat \<Rightarrow> nat list" where
  "to_u32_digits v = (if v = 0 then [] else v mod 2 ^ 32 # to_u32_digits (v div 2 ^ 32))"
  by pat_completeness auto
termination by (relation "measure id") auto

declare to_u32_digits.simps [simp del]

definition constant_biguint :: "nat \<Rightarrow> biguint" where
  "constant_biguint v = map constant_u32 (to_u32_digits v)"

definition zero_biguint :: biguint where "zero_biguint = constant_biguint 0"
definition one_biguint :: biguint where "one_biguint = constant_biguint 1"

definition biguint_to_target_safe :: "biguint \<Rightarrow> target circ" where
  "biguint_to_target_safe val =
    (case val of
       [] \<Rightarrow> circ_return (Const 0)
     | [limb] \<Rightarrow> circ_return limb
     | first_limb # second_limb # rest \<Rightarrow>
         circ_bind (circ_for rest assert_zero_u32) (\<lambda>_.
         circ_bind (is_equal second_limb (Const (2 ^ 32 - 1))) (\<lambda>is_high_max.
         circ_bind (conditional_assert_zero is_high_max first_limb) (\<lambda>_.
         circ_return (b_mul_const_add (2 ^ 32) second_limb first_limb)))))"

definition biguint_to_target_unsafe :: "biguint \<Rightarrow> target" where
  "biguint_to_target_unsafe val =
    (case val of
       [] \<Rightarrow> Const 0
     | [limb] \<Rightarrow> limb
     | first_limb # second_limb # rest \<Rightarrow> b_mul_const_add (2 ^ 32) second_limb first_limb)"

definition target_to_biguint :: "target \<Rightarrow> biguint circ" where
  "target_to_biguint x = circ_bind (split_u64_to_u32s_le x) (\<lambda>(low, high). circ_return [low, high])"

definition pad_to :: "nat \<Rightarrow> biguint \<Rightarrow> biguint" where
  "pad_to n a = a @ replicate (n - length a) zero_u32"

definition pad_biguints :: "biguint \<Rightarrow> biguint \<Rightarrow> biguint \<times> biguint" where
  "pad_biguints a b =
    (if length a > length b then (a, pad_to (length a) b) else (pad_to (length b) a, b))"

definition trim_biguint :: "biguint \<Rightarrow> nat \<Rightarrow> biguint circ" where
  "trim_biguint a final_num_limbs =
    circ_bind (circ_panic_unless (final_num_limbs \<le> length a)) (\<lambda>_.
    circ_bind (circ_for (drop final_num_limbs a) assert_zero_u32) (\<lambda>_.
    circ_return (take final_num_limbs a)))"

text \<open>A loop that asks for every limb whether it is zero.\<close>

fun all_limbs_zero :: "biguint \<Rightarrow> target \<Rightarrow> target circ" where
  "all_limbs_zero [] success = circ_return success"
| "all_limbs_zero (limb # limbs) success =
    circ_bind (is_zero_u32 limb) (\<lambda>empty_limb. all_limbs_zero limbs (b_and success empty_limb))"

definition try_trim_biguint :: "biguint \<Rightarrow> nat \<Rightarrow> (target \<times> biguint) circ" where
  "try_trim_biguint a final_num_limbs =
    circ_bind (circ_panic_unless (final_num_limbs \<le> length a)) (\<lambda>_.
    circ_bind (all_limbs_zero (drop final_num_limbs a) (Const 1)) (\<lambda>success.
    circ_return (success, take final_num_limbs a)))"

definition connect_biguint :: "biguint \<Rightarrow> biguint \<Rightarrow> unit circ" where
  "connect_biguint lhs rhs =
    (let min_limbs = min (length lhs) (length rhs) in
     circ_bind (circ_for [0..<min_limbs] (\<lambda>i. connect_u32 (lhs ! i) (rhs ! i))) (\<lambda>_.
     circ_bind (circ_for (drop min_limbs lhs) assert_zero_u32) (\<lambda>_.
     circ_for (drop min_limbs rhs) assert_zero_u32)))"

definition select_biguint :: "target \<Rightarrow> biguint \<Rightarrow> biguint \<Rightarrow> biguint" where
  "select_biguint cond a b =
    (let (a_padded, b_padded) = pad_biguints a b in map2 (\<lambda>a_limb b_limb. select_u32 cond a_limb b_limb) a_padded b_padded)"

definition assert_zero_biguint :: "biguint \<Rightarrow> unit circ" where
  "assert_zero_biguint a = circ_for a assert_zero_u32"

definition mul_biguint_by_bool :: "biguint \<Rightarrow> target \<Rightarrow> biguint" where
  "mul_biguint_by_bool a b = map (\<lambda>l. b_mul l b) a"

definition is_zero_biguint :: "biguint \<Rightarrow> target circ" where
  "is_zero_biguint a =
    (let a' = (if a = [] then [zero_u32] else a) in
     circ_bind (circ_map (\<lambda>l. is_equal l (Const 0)) a') (\<lambda>and_results. circ_return (multi_and and_results)))"

text \<open>\<open>multi_and\<close> of no results panics (\<open>targets[0]\<close>).\<close>

definition is_equal_biguint :: "biguint \<Rightarrow> biguint \<Rightarrow> target circ" where
  "is_equal_biguint lhs rhs =
    (let min_limbs = min (length lhs) (length rhs) in
     circ_bind (circ_map (\<lambda>i. is_equal_u32 (lhs ! i) (rhs ! i)) [0..<min_limbs]) (\<lambda>xs.
     circ_bind (circ_map is_zero_u32 (drop min_limbs lhs)) (\<lambda>ys.
     circ_bind (circ_map is_zero_u32 (drop min_limbs rhs)) (\<lambda>zs.
     circ_bind (circ_panic_unless (xs @ ys @ zs \<noteq> [])) (\<lambda>_.
     circ_return (multi_and (xs @ ys @ zs)))))))"

definition range_check_biguint :: "biguint \<Rightarrow> nat \<Rightarrow> unit circ" where
  "range_check_biguint a bit_count =
    circ_bind (circ_panic_unless (bit_count \<noteq> 0)) (\<lambda>_.
    let limb = ceil_div_usize bit_count 32 in
    circ_bind (circ_for (drop limb a) assert_zero_u32) (\<lambda>_.
    if bit_count mod 32 \<noteq> 0 \<and> limb \<le> length a
    then register_range_check (a ! (limb - 1)) (bit_count mod 32) else circ_return ()))"

definition add_virtual_biguint_target_safe :: "nat \<Rightarrow> biguint circ" where
  "add_virtual_biguint_target_safe num_limbs = add_virtual_u32_targets_safe num_limbs"

definition biguint_vector_diff :: "biguint \<Rightarrow> biguint \<Rightarrow> biguint" where
  "biguint_vector_diff new old = map2 (\<lambda>x y. b_sub x y) new old"

definition biguint_vector_sum :: "target \<Rightarrow> biguint \<Rightarrow> biguint \<Rightarrow> biguint" where
  "biguint_vector_sum cond new old = map2 (\<lambda>x y. b_mul_add cond x y) new old"

section \<open>Limb loops\<close>

primrec carry_loop :: "('s \<Rightarrow> target \<Rightarrow> (target \<times> target) circ) \<Rightarrow> 's list \<Rightarrow> target \<Rightarrow> (biguint \<times> target) circ" where
  "carry_loop step [] carry = circ_return ([], carry)"
| "carry_loop step (s # ss) carry =
    circ_bind (step s carry) (\<lambda>(new_limb, new_carry).
    circ_bind (carry_loop step ss new_carry) (\<lambda>(limbs, final_carry).
    circ_return (new_limb # limbs, final_carry)))"

definition limb_or_zero :: "biguint \<Rightarrow> nat \<Rightarrow> target" where
  "limb_or_zero a i = (if i < length a then a ! i else zero_u32)"

definition add_step :: "target \<times> target \<Rightarrow> target \<Rightarrow> (target \<times> target) circ" where
  "add_step limbs carry = (let (a_limb, b_limb) = limbs in add_many_u32 [carry, a_limb, b_limb])"

definition sub_step :: "target \<times> target \<Rightarrow> target \<Rightarrow> (target \<times> target) circ" where
  "sub_step limbs borrow = (let (a_limb, b_limb) = limbs in sub_u32 a_limb b_limb borrow)"

definition add_biguint :: "biguint \<Rightarrow> biguint \<Rightarrow> biguint circ" where
  "add_biguint a b =
    (let num_limbs = max (length a) (length b) in
     circ_bind (carry_loop add_step (map (\<lambda>i. (limb_or_zero a i, limb_or_zero b i)) [0..<num_limbs]) zero_u32)
       (\<lambda>(combined_limbs, carry). circ_return (combined_limbs @ [carry])))"

definition add_biguint_non_carry :: "biguint \<Rightarrow> biguint \<Rightarrow> nat \<Rightarrow> biguint circ" where
  "add_biguint_non_carry a b num_limbs =
    circ_bind (circ_panic_unless (max (length a) (length b) \<le> num_limbs)) (\<lambda>_.
    circ_bind (carry_loop add_step (map (\<lambda>i. (limb_or_zero a i, limb_or_zero b i)) [0..<num_limbs]) zero_u32)
       (\<lambda>(combined_limbs, carry). circ_bind (assert_zero_u32 carry) (\<lambda>_. circ_return combined_limbs)))"

definition try_sub_biguint :: "biguint \<Rightarrow> biguint \<Rightarrow> (biguint \<times> target) circ" where
  "try_sub_biguint a b = (let (a, b) = pad_biguints a b in carry_loop sub_step (zip a b) zero_u32)"

definition sub_biguint :: "biguint \<Rightarrow> biguint \<Rightarrow> biguint circ" where
  "sub_biguint a b =
    circ_bind (try_sub_biguint a b) (\<lambda>(result, borrow).
    circ_bind (assert_zero_u32 borrow) (\<lambda>_. circ_return result))"

text \<open>
  The interface of a limb loop: one step adds the incoming carry to the value of an item and returns a
  limb of \<open>w\<close> bits and a carry of the next weight. Borrows are carries of negative value.
\<close>

locale limb_chain =
  fixes w :: nat
    and step :: "'s \<Rightarrow> target \<Rightarrow> (target \<times> target) circ"
    and item_ok :: "'s \<Rightarrow> bool" and item_val :: "'s \<Rightarrow> int"
    and carry_ok :: "target \<Rightarrow> bool" and carry_val :: "target \<Rightarrow> int"
  assumes limb_contract: "item_ok s \<Longrightarrow> carry_ok c \<Longrightarrow>
    implements (step s c) (\<lambda>r. uval (fst r) < 2 ^ w \<and> carry_ok (snd r)
      \<and> int (uval (fst r)) + 2 ^ w * carry_val (snd r) = item_val s + carry_val c)"
begin

definition limb_result :: "'s list \<Rightarrow> target \<Rightarrow> target list \<times> target \<Rightarrow> bool" where
  "limb_result ss c r \<longleftrightarrow> list_all (\<lambda>t. uval t < 2 ^ w) (fst r) \<and> length (fst r) = length ss \<and> carry_ok (snd r)
    \<and> le_value (2 ^ w) (map (\<lambda>t. int (uval t)) (fst r)) + 2 ^ (w * length ss) * carry_val (snd r)
      = le_value (2 ^ w) (map item_val ss) + carry_val c"

lemma implements_limbs:
  "list_all item_ok ss \<Longrightarrow> carry_ok c \<Longrightarrow> implements (carry_loop step ss c) (limb_result ss c)"
proof (induction ss arbitrary: c)
  case Nil
  then show ?case by (auto simp: limb_result_def intro!: implements_return)
next
  case (Cons s ss)
  show ?case
    unfolding carry_loop.simps
  proof (rule implements_bind [OF limb_contract], unfold split_paired_all prod.case fst_conv snd_conv)
    fix l c' assume step: "uval l < 2 ^ w \<and> carry_ok c' \<and> int (uval l) + 2 ^ w * carry_val c' = item_val s + carry_val c"
    show "implements (circ_bind (carry_loop step ss c') (\<lambda>(limbs, final_carry). circ_return (l # limbs, final_carry)))
        (limb_result (s # ss) c)"
    proof (rule implements_bind [OF Cons.IH], unfold split_paired_all prod.case)
      fix ls d assume rest: "limb_result ss c' (ls, d)"
      let ?B = "2 ^ w :: int" and ?W = "2 ^ (w * length ss) :: int" and ?L = "le_value (2 ^ w) (map (\<lambda>t. int (uval t)) ls)"
      have "?L + ?W * carry_val d = le_value ?B (map item_val ss) + carry_val c'"
        using rest by (simp add: limb_result_def)
      then have "?B * (?L + ?W * carry_val d) = ?B * (le_value ?B (map item_val ss) + carry_val c')" by simp
      then have "int (uval l) + ?B * ?L + ?B * ?W * carry_val d
          = item_val s + ?B * le_value ?B (map item_val ss) + carry_val c"
        using step by (simp add: algebra_simps)
      then show "implements (circ_return (l # ls, d)) (limb_result (s # ss) c)"
        using rest step
        by (intro implements_return) (simp add: limb_result_def power_add algebra_simps)
    qed (use Cons.prems step in simp_all)
  qed (use Cons.prems in simp_all)
qed

end

text \<open>Loops over 32-bit limbs.\<close>

locale carry_chain =
  fixes step :: "'s \<Rightarrow> target \<Rightarrow> (target \<times> target) circ"
    and item_ok :: "'s \<Rightarrow> bool" and item_val :: "'s \<Rightarrow> int"
    and carry_ok :: "target \<Rightarrow> bool" and carry_val :: "target \<Rightarrow> int"
  assumes step_contract: "item_ok s \<Longrightarrow> carry_ok c \<Longrightarrow>
    implements (step s c) (\<lambda>r. is_u32 (fst r) \<and> carry_ok (snd r)
      \<and> int (uval (fst r)) + 2 ^ 32 * carry_val (snd r) = item_val s + carry_val c)"

lemma int_bnat: "le_value (2 ^ 32) (map (\<lambda>t. int (uval t)) a) = int (bnat a)"
  using of_nat_le_value [of "2 ^ 32" "map uval a", where 'a = int] by (simp add: bnat_def comp_def)

sublocale carry_chain \<subseteq> chain: limb_chain 32 step item_ok item_val carry_ok carry_val
  by unfold_locales (rule step_contract [unfolded is_u32_def])

context carry_chain
begin

definition loop_result :: "'s list \<Rightarrow> target \<Rightarrow> biguint \<times> target \<Rightarrow> bool" where
  "loop_result ss c r \<longleftrightarrow> limbs_ok (fst r) \<and> length (fst r) = length ss \<and> carry_ok (snd r)
    \<and> int (bnat (fst r)) + 2 ^ (32 * length ss) * carry_val (snd r)
      = le_value (2 ^ 32) (map item_val ss) + carry_val c"

lemma implements_loop:
  "list_all item_ok ss \<Longrightarrow> carry_ok c \<Longrightarrow> implements (carry_loop step ss c) (loop_result ss c)"
  unfolding loop_result_def limbs_ok_def is_u32_def int_bnat [symmetric]
  using chain.implements_limbs by (simp only: chain.limb_result_def [abs_def])

end

section \<open>Contracts of the structural operations\<close>

lemma le_value_limbs: "le_value (2 ^ 32) (map (\<lambda>i. int (uval (limb_or_zero a i))) [0..<n]) = int (bnat (take n a))"
proof -
  have eq: "map (\<lambda>i. int (uval (limb_or_zero a i))) [0..<n] = map int (map uval (take n a)) @ replicate (n - length a) 0"
    by (rule nth_equalityI) (auto simp: limb_or_zero_def nth_append)
  show ?thesis
    unfolding eq le_value_append bnat_def
    using of_nat_le_value [of "2 ^ 32" "map uval (take n a)", where 'a = int] by simp
qed

lemma limb_or_zero_ok: "limbs_ok a \<Longrightarrow> is_u32 (limb_or_zero a i)"
  by (simp add: limb_or_zero_def limbs_ok_nth)

lemma pad_to_simps [simp]:
  "bnat (pad_to n a) = bnat a" "length (pad_to n a) = max n (length a)" "limbs_ok (pad_to n a) = limbs_ok a"
  by (simp_all add: pad_to_def bnat_append)

lemma pad_biguints_cases:
  assumes "pad_biguints a b = (a', b')"
  shows "length a' = max (length a) (length b)" "length b' = max (length a) (length b)"
    and "bnat a' = bnat a" "bnat b' = bnat b" "limbs_ok a' = limbs_ok a" "limbs_ok b' = limbs_ok b"
  using assms by (auto simp: pad_biguints_def split: if_splits)

lemma to_u32_digits_props: "le_value (2 ^ 32) (to_u32_digits v) = v \<and> (\<forall>d\<in>set (to_u32_digits v). d < 2 ^ 32)"
proof (induction v rule: to_u32_digits.induct)
  case (1 v)
  then show ?case by (cases "v = 0") (simp_all add: to_u32_digits.simps [of 0] to_u32_digits.simps [of v])
qed

lemma constant_biguint_props [simp]: "bnat (constant_biguint v) = v" "limbs_ok (constant_biguint v)"
proof -
  have "map uval (constant_biguint v) = to_u32_digits v"
    using to_u32_digits_props [of v] by (auto simp: constant_biguint_def uval_constant_u32 intro!: map_idI)
  then show "bnat (constant_biguint v) = v" using to_u32_digits_props [of v] by (simp add: bnat_def)
  show "limbs_ok (constant_biguint v)"
    using to_u32_digits_props [of v] by (auto simp: limbs_ok_def list_all_iff constant_biguint_def)
qed

lemma zero_one_biguint [simp]:
  "bnat zero_biguint = 0" "limbs_ok zero_biguint" "length zero_biguint = 0"
  "bnat one_biguint = 1" "limbs_ok one_biguint" "length one_biguint = 1"
  by (simp_all add: zero_biguint_def one_biguint_def)
    (simp_all add: constant_biguint_def to_u32_digits.simps)

lemma realises_zero_limbs: "realises (circ_for ts assert_zero_u32) (bnat ts = 0) (\<lambda>_. True)"
  unfolding bnat_eq_0_iff assert_zero_u32_def by (rule realises_for) (rule realises_assert_zero)

lemma realises_assert_zero_biguint: "realises (assert_zero_biguint a) (bnat a = 0) (\<lambda>_. True)"
  unfolding assert_zero_biguint_def by (rule realises_zero_limbs)

lemma bnat_lt_iff_drop:
  assumes "limbs_ok a"
  shows "bnat a < 2 ^ (32 * n) \<longleftrightarrow> bnat (drop n a) = 0"
proof
  assume lt: "bnat a < 2 ^ (32 * n)"
  show "bnat (drop n a) = 0"
  proof (cases "n \<le> length a")
    case True
    have "2 ^ (32 * n) * bnat (drop n a) \<le> bnat a"
      using bnat_split [of a n] True by (simp add: min_absorb2)
    then have "2 ^ (32 * n) * bnat (drop n a) < 2 ^ (32 * n) * 1" using lt by linarith
    then show ?thesis using mult_less_cancel1 by blast
  qed simp
next
  assume zero: "bnat (drop n a) = 0"
  have "bnat (take n a) < 2 ^ (32 * length (take n a))" by (rule bnat_bound [OF limbs_ok_take(1) [OF assms]])
  also have "\<dots> \<le> 2 ^ (32 * n)" by (intro power_increasing) simp_all
  finally show "bnat a < 2 ^ (32 * n)" using bnat_split [of a n] zero by simp
qed

lemma bnat_take:
  assumes "limbs_ok a" "n \<le> length a"
  shows "bnat (take n a) = bnat a mod 2 ^ (32 * n)"
proof -
  have "bnat (take n a) < 2 ^ (32 * n)"
    using bnat_bound [OF limbs_ok_take(1) [OF assms(1)], of n] assms(2) by (simp add: min_absorb2)
  then show ?thesis using bnat_split [of a n] assms(2) by (simp add: min_absorb2)
qed

lemma realises_trim_biguint:
  assumes "limbs_ok a"
  shows "realises (trim_biguint a n) (n \<le> length a \<and> bnat a < 2 ^ (32 * n)) (\<lambda>r. big r n (bnat a))"
  unfolding trim_biguint_def
proof (rule realises_bind [OF realises_panic])
  assume n: "n \<le> length a"
  show "realises (circ_bind (circ_for (drop n a) assert_zero_u32) (\<lambda>_. circ_return (take n a)))
      (bnat a < 2 ^ (32 * n)) (\<lambda>r. big r n (bnat a))"
    unfolding bnat_lt_iff_drop [OF assms]
    by (rule realises_then_return [OF realises_zero_limbs])
      (use assms n bnat_split [of a n] in \<open>simp add: big_def limbs_ok_take\<close>)
qed

lemma implements_all_limbs_zero:
  "bval success b \<Longrightarrow> implements (all_limbs_zero limbs success) (\<lambda>r. bval r (b \<and> bnat limbs = 0))"
proof (induction limbs arbitrary: success b)
  case Nil
  then show ?case by (simp add: implements_return)
next
  case (Cons l ls)
  show ?case
    unfolding all_limbs_zero.simps
    by (rule implements_bind [OF implements_is_zero_u32], rule implements_weaken [OF Cons.IH [OF bval_and [OF Cons.prems]]])
      (assumption, simp add: bnat_Cons conj_ac)
qed

lemma implements_try_trim_biguint:
  assumes "limbs_ok a" "n \<le> length a"
  shows "implements (try_trim_biguint a n)
    (\<lambda>(success, r). bval success (bnat a < 2 ^ (32 * n)) \<and> big r n (bnat a mod 2 ^ (32 * n)))"
  unfolding try_trim_biguint_def
  by (rule implements_bind [OF implements_panic [OF assms(2)]],
      rule implements_bind [OF implements_all_limbs_zero [OF bval_Const(1)]], rule implements_return)
    (use assms in \<open>simp add: big_def limbs_ok_take bnat_take bnat_lt_iff_drop\<close>)

lemma bnat_eq_iff:
  assumes "limbs_ok a" "limbs_ok b"
  shows "bnat a = bnat b \<longleftrightarrow> (\<forall>i<min (length a) (length b). uval (a ! i) = uval (b ! i))
    \<and> bnat (drop (min (length a) (length b)) a) = 0 \<and> bnat (drop (min (length a) (length b)) b) = 0"
    (is "_ \<longleftrightarrow> (\<forall>i<?m. _) \<and> _")
proof -
  let ?A = "take ?m a" and ?B = "take ?m b"
  have len: "length ?A = ?m" "length ?B = ?m" by simp_all
  have heads: "bnat ?A = bnat ?B \<longleftrightarrow> (\<forall>i<?m. uval (a ! i) = uval (b ! i))"
    using bnat_inject [of ?A ?B] assms limbs_ok_take len by (auto simp: list_eq_iff_nth_eq)
  have split: "bnat a = bnat ?A + 2 ^ (32 * ?m) * bnat (drop ?m a)" "bnat b = bnat ?B + 2 ^ (32 * ?m) * bnat (drop ?m b)"
    using bnat_append [of ?A "drop ?m a"] bnat_append [of ?B "drop ?m b"] len by simp_all
  have bound: "bnat ?A < 2 ^ (32 * ?m)" "bnat ?B < 2 ^ (32 * ?m)"
    using bnat_bound [of ?A] bnat_bound [of ?B] assms limbs_ok_take len by simp_all
  have "drop ?m a = [] \<or> drop ?m b = []" by auto
  then have one: "bnat (drop ?m a) = 0 \<or> bnat (drop ?m b) = 0" by (metis bnat_Nil)
  have tails: "bnat a = bnat b \<longleftrightarrow> bnat ?A = bnat ?B \<and> bnat (drop ?m a) = 0 \<and> bnat (drop ?m b) = 0"
    unfolding split(1) split(2) digit_eq_iff [OF bound] using one by auto
  show ?thesis unfolding tails heads by blast
qed

lemma realises_connect_biguint:
  assumes "limbs_ok a" "limbs_ok b"
  shows "realises (connect_biguint a b) (bnat a = bnat b) (\<lambda>_. True)"
proof -
  let ?m = "min (length a) (length b)"
  have heads: "realises (circ_for [0..<?m] (\<lambda>i. connect_u32 (a ! i) (b ! i)))
      (\<forall>i\<in>set [0..<?m]. uval (a ! i) = uval (b ! i)) (\<lambda>_. True)"
    unfolding connect_u32_def to_canonical_inject by (rule realises_for) (rule realises_connect)
  have "realises (connect_biguint a b)
      ((\<forall>i\<in>set [0..<?m]. uval (a ! i) = uval (b ! i)) \<and> bnat (drop ?m a) = 0 \<and> bnat (drop ?m b) = 0) (\<lambda>_. True)"
    unfolding connect_biguint_def Let_def
    by (rule realises_bind [OF heads], rule realises_bind [OF realises_zero_limbs], rule realises_zero_limbs)
  then show ?thesis
    by (rule realises_weaken) (simp_all add: bnat_eq_iff [OF assms] atLeast0LessThan lessThan_def)
qed

lemma select_biguint_big:
  assumes "bval c v" "limbs_ok a" "limbs_ok b"
  shows "big (select_biguint c a b) (max (length a) (length b)) (if v then bnat a else bnat b)"
proof -
  obtain a' b' where pad: "pad_biguints a b = (a', b')" by fastforce
  note props = pad_biguints_cases [OF pad]
  have len: "length a' = length b'" using props by simp
  have ok: "limbs_ok a'" "limbs_ok b'" using assms props by simp_all
  have "length xs = length ys \<Longrightarrow> limbs_ok xs \<Longrightarrow> limbs_ok ys \<Longrightarrow>
      limbs_ok (map2 (select_u32 c) xs ys) \<and> bnat (map2 (select_u32 c) xs ys) = (if v then bnat xs else bnat ys)" for xs ys
    by (induction xs ys rule: list_induct2)
      (simp_all add: bnat_Cons is_u32_select [OF assms(1)] uval_select_u32 [OF assms(1)])
  from this [OF len ok] show ?thesis
    using props by (simp add: select_biguint_def pad big_def)
qed

lemma mul_biguint_by_bool_big:
  assumes "bval c v" "limbs_ok a"
  shows "big (mul_biguint_by_bool a c) (length a) (if v then bnat a else 0)"
proof -
  have "tval (b_mul l c) = (if v then tval l else 0)" for l
    using assms(1) by (simp add: tval_simps bval_def)
  then have "map uval (mul_biguint_by_bool a c) = (if v then map uval a else replicate (length a) 0)"
    by (simp add: mul_biguint_by_bool_def comp_def map_replicate_const)
  then show ?thesis
    using assms(2) by (auto simp: big_def bnat_def limbs_ok_def list_all_iff is_u32_def mul_biguint_by_bool_def
      tval_simps bval_def assms(1) [unfolded bval_def] split: if_splits)
qed

lemma list_all2_bval_map: "list_all2 (\<lambda>x r. bval r (P x)) xs rs \<Longrightarrow> list_all2 bval rs (map P xs)"
  by (induction rule: list_all2_induct) simp_all

lemma implements_is_zero_biguint: "implements (is_zero_biguint a) (\<lambda>r. bval r (bnat a = 0))"
proof -
  let ?a = "if a = [] then [zero_u32] else a"
  have "implements (circ_map (\<lambda>l. is_equal l (Const 0)) ?a) (\<lambda>rs. list_all2 (\<lambda>l r. bval r (uval l = 0)) ?a rs)"
    by (rule implements_circ_map) (use implements_is_equal [of _ "Const 0"] in simp)
  then show ?thesis
    unfolding is_zero_biguint_def Let_def
  proof (rule implements_bind, intro implements_return)
    fix rs assume rs: "list_all2 (\<lambda>l r. bval r (uval l = 0)) ?a rs"
    then have "rs \<noteq> []" by (auto split: if_splits)
    from bval_multi_and [OF list_all2_bval_map [OF rs] this]
    show "bval (multi_and rs) (bnat a = 0)" by (auto simp: bnat_eq_0_iff zero_u32_def split: if_splits)
  qed
qed

lemma implements_is_equal_biguint:
  assumes "limbs_ok a" "limbs_ok b" "a \<noteq> [] \<or> b \<noteq> []"
  shows "implements (is_equal_biguint a b) (\<lambda>r. bval r (bnat a = bnat b))"
proof -
  let ?m = "min (length a) (length b)"
  have xs: "implements (circ_map (\<lambda>i. is_equal_u32 (a ! i) (b ! i)) [0..<?m])
      (\<lambda>rs. list_all2 (\<lambda>i r. bval r (uval (a ! i) = uval (b ! i))) [0..<?m] rs)"
    by (rule implements_circ_map) (rule implements_is_equal_u32)
  have ys: "implements (circ_map is_zero_u32 c) (\<lambda>rs. list_all2 (\<lambda>l r. bval r (uval l = 0)) c rs)" for c
    by (rule implements_circ_map) (rule implements_is_zero_u32)
  show ?thesis
    unfolding is_equal_biguint_def Let_def
  proof (rule implements_bind [OF xs], rule implements_bind [OF ys], rule implements_bind [OF ys])
    fix xs ys zs
    assume r: "list_all2 (\<lambda>i r. bval r (uval (a ! i) = uval (b ! i))) [0..<?m] xs"
      "list_all2 (\<lambda>l r. bval r (uval l = 0)) (drop ?m a) ys" "list_all2 (\<lambda>l r. bval r (uval l = 0)) (drop ?m b) zs"
    let ?bs = "map (\<lambda>i. uval (a ! i) = uval (b ! i)) [0..<?m] @ map (\<lambda>l. uval l = 0) (drop ?m a) @ map (\<lambda>l. uval l = 0) (drop ?m b)"
    have "length (xs @ ys @ zs) = max (length a) (length b)"
      using r by (auto dest!: list_all2_lengthD)
    then have ne: "xs @ ys @ zs \<noteq> []" using assms(3) by (cases "xs @ ys @ zs") auto
    have "list_all2 bval (xs @ ys @ zs) ?bs"
      using r by (intro list_all2_appendI list_all2_bval_map)
    from bval_multi_and [OF this ne] have "bval (multi_and (xs @ ys @ zs)) (\<forall>x\<in>set ?bs. x)" .
    also have "(\<forall>x\<in>set ?bs. x) \<longleftrightarrow> bnat a = bnat b"
      unfolding bnat_eq_iff [OF assms(1,2)] bnat_eq_0_iff by (auto simp: ball_Un)
    finally show "implements (circ_bind (circ_panic_unless (xs @ ys @ zs \<noteq> [])) (\<lambda>_. circ_return (multi_and (xs @ ys @ zs))))
        (\<lambda>r. bval r (bnat a = bnat b))"
      by (intro implements_bind [OF implements_panic [OF ne]] implements_return)
  qed
qed

lemma implements_target_to_biguint: "implements (target_to_biguint x) (\<lambda>r. big r 2 (uval x))"
  unfolding target_to_biguint_def
  by (rule implements_bind [OF implements_split_u64])
    (auto simp: u32_halves_def big_def bnat_Cons intro!: implements_return)

lemma halves_below_order_iff:
  "lo < 2 ^ 32 \<Longrightarrow> hi < 2 ^ 32 \<Longrightarrow> lo + 2 ^ 32 * hi < p_nat \<longleftrightarrow> (hi = 2 ^ 32 - 1 \<longrightarrow> lo = 0)"
  by (cases "hi = 2 ^ 32 - 1") auto

lemma realises_biguint_to_target_safe:
  assumes "limbs_ok a"
  shows "realises (biguint_to_target_safe a) (bnat a < p_nat) (\<lambda>t. uval t = bnat a)"
proof -
  consider "a = []" | l where "a = [l]" | lo hi rest where "a = lo # hi # rest"
    by (metis list.exhaust)
  then show ?thesis
  proof cases
    case 1
    then show ?thesis by (simp add: biguint_to_target_safe_def) (simp add: realises_return)
  next
    case 2
    then show ?thesis using realises_return [of "\<lambda>t. uval t = uval l" l] by (simp add: biguint_to_target_safe_def)
  next
    case 3
    then have ok: "uval lo < 2 ^ 32" "uval hi < 2 ^ 32" using assms by (simp_all add: is_u32_def)
    have val: "bnat a = (uval lo + 2 ^ 32 * uval hi) + 2 ^ 64 * bnat rest" by (simp add: 3 bnat_Cons)
    have fits: "bnat a < p_nat \<longleftrightarrow> bnat rest = 0 \<and> (uval hi = 2 ^ 32 - 1 \<longrightarrow> uval lo = 0)"
      unfolding halves_below_order_iff [OF ok, symmetric] val by (cases "bnat rest") simp_all
    show ?thesis
      unfolding fits unfolding biguint_to_target_safe_def 3 list.case
    proof (rule realises_bind [OF realises_zero_limbs])
      assume zero: "bnat rest = 0"
      show "realises (circ_bind (is_equal hi (Const (2 ^ 32 - 1))) (\<lambda>m. circ_bind (conditional_assert_zero m lo)
          (\<lambda>_. circ_return (b_mul_const_add (2 ^ 32) hi lo)))) (uval hi = 2 ^ 32 - 1 \<longrightarrow> uval lo = 0)
          (\<lambda>t. uval t = bnat (lo # hi # rest))"
      proof (rule realises_after [OF implements_is_equal], unfold is_max_iff(1), rule realises_then_return [OF realises_conditional_assert_zero])
        assume "uval hi = 2 ^ 32 - 1 \<longrightarrow> uval lo = 0"
        from halves_canonical [OF ok this] show "uval (b_mul_const_add (2 ^ 32) hi lo) = bnat (lo # hi # rest)"
          by (simp add: bnat_Cons zero tval_simps mult.commute)
      qed
    qed
  qed
qed

lemma ceil_div_32:
  "ceil_div_usize n 32 = n div 32 + of_bool (n mod 32 \<noteq> 0)" "n = 32 * (n div 32) + n mod 32"
  by (simp_all add: ceil_div_usize_def)

lemma realises_range_check_biguint:
  assumes "limbs_ok a"
  shows "realises (range_check_biguint a bits) (bits \<noteq> 0 \<and> bnat a < 2 ^ bits) (\<lambda>_. True)"
  unfolding range_check_biguint_def Let_def
proof (rule realises_bind [OF realises_panic])
  assume bits: "bits \<noteq> 0"
  define limb where "limb = ceil_div_usize bits 32"
  have limb: "limb \<noteq> 0" "bits mod 32 = 0 \<longrightarrow> bits = 32 * limb" "bits mod 32 \<noteq> 0 \<longrightarrow> 32 * (limb - 1) + bits mod 32 = bits"
    using ceil_div_32 [of bits] bits unfolding limb_def by auto
  have fits: "bnat a < 2 ^ bits \<longleftrightarrow> bnat (drop limb a) = 0 \<and>
      (bits mod 32 \<noteq> 0 \<and> limb \<le> length a \<longrightarrow> uval (a ! (limb - 1)) < 2 ^ (bits mod 32))"
  proof (cases "bits mod 32 \<noteq> 0 \<and> limb \<le> length a")
    case True
    then have l: "limb - 1 < length a" "Suc (limb - 1) = limb" using limb(1) by auto
    have a: "a = take (limb - 1) a @ a ! (limb - 1) # drop limb a"
      using id_take_nth_drop [OF l(1)] l(2) by simp
    have head: "bnat (take (limb - 1) a) < 2 ^ (32 * (limb - 1))"
      using bnat_bound [OF limbs_ok_take(1) [OF assms], of "limb - 1"] l by (simp add: min_absorb2)
    have val: "bnat a = bnat (take (limb - 1) a) + 2 ^ (32 * (limb - 1)) * (uval (a ! (limb - 1)) + 2 ^ 32 * bnat (drop limb a))"
      using l by (subst a) (simp add: bnat_append bnat_Cons)
    have pow: "(2::nat) ^ bits = 2 ^ (32 * (limb - 1)) * 2 ^ (bits mod 32)"
      using limb(3) True by (simp add: power_add [symmetric])
    have "uval (a ! (limb - 1)) + 2 ^ 32 * bnat (drop limb a) < 2 ^ (bits mod 32)
        \<longleftrightarrow> bnat (drop limb a) = 0 \<and> uval (a ! (limb - 1)) < 2 ^ (bits mod 32)"
    proof -
      have "(2::nat) ^ (bits mod 32) \<le> 2 ^ 32" by (intro power_increasing) (simp_all add: less_imp_le)
      then show ?thesis by (cases "bnat (drop limb a)") auto
    qed
    then show ?thesis unfolding val pow digit_less_iff [OF head] using True by simp
  next
    case False
    show ?thesis
    proof (cases "bits mod 32 = 0")
      case True
      then have "bits = 32 * limb" using limb(2) by simp
      then show ?thesis using True bnat_lt_iff_drop [OF assms, of limb] by simp
    next
      case nonzero: False
      then have short: "length a < limb" using False by simp
      then have "32 * length a \<le> 32 * (limb - 1)" by simp
      then have "32 * length a \<le> bits" using limb(3) nonzero by linarith
      then have "bnat a < 2 ^ bits" using pow2_mono_less [OF bnat_bound [OF assms]] by blast
      then show ?thesis using short nonzero by simp
    qed
  qed
  show "realises (circ_bind (circ_for (drop (ceil_div_usize bits 32) a) assert_zero_u32)
      (\<lambda>_. if bits mod 32 \<noteq> 0 \<and> ceil_div_usize bits 32 \<le> length a
        then register_range_check (a ! (ceil_div_usize bits 32 - 1)) (bits mod 32) else circ_return ()))
      (bnat a < 2 ^ bits) (\<lambda>_. True)"
    unfolding fits limb_def [symmetric]
  proof (rule realises_bind [OF realises_zero_limbs])
    show "realises (if bits mod 32 \<noteq> 0 \<and> limb \<le> length a then register_range_check (a ! (limb - 1)) (bits mod 32) else circ_return ())
        (bits mod 32 \<noteq> 0 \<and> limb \<le> length a \<longrightarrow> uval (a ! (limb - 1)) < 2 ^ (bits mod 32)) (\<lambda>_. True)"
      using realises_register_range_check [of "bits mod 32" "a ! (limb - 1)"] realises_return [of "\<lambda>_. True" "()"]
      by (auto split: if_splits)
  qed
qed

section \<open>Addition and subtraction\<close>

interpretation adder: carry_chain add_step "\<lambda>(a, b). is_u32 a \<and> is_u32 b" "\<lambda>(a, b). int (uval a) + int (uval b)"
  "\<lambda>c. uval c \<le> 2" "\<lambda>c. int (uval c)"
proof (unfold_locales, unfold split_paired_all prod.case)
  fix a b c
  assume ok: "is_u32 a \<and> is_u32 b" and c: "uval c \<le> 2"
  let ?v = "\<Sum>t\<leftarrow>[c, a, b]. uval t"
  have v: "?v = uval c + (uval a + uval b)" by simp
  have bound: "?v < 3 * 2 ^ 32" using ok c by (simp add: is_u32_def)
  have "implements (add_many_u32 [c, a, b]) (u32_halves ?v)"
    using ok c bound by (intro implements_add_many_u32) (simp_all add: is_u32_def)
  then show "implements (add_step (a, b) c) (\<lambda>r. is_u32 (fst r) \<and> uval (snd r) \<le> 2
      \<and> int (uval (fst r)) + 2 ^ 32 * int (uval (snd r)) = int (uval a) + int (uval b) + int (uval c))"
    unfolding add_step_def Let_def prod.case
  proof (rule implements_weaken)
    fix r assume r: "u32_halves ?v r"
    then have "uval (fst r) + 2 ^ 32 * uval (snd r) < 3 * 2 ^ 32" using bound by (simp only: u32_halves_def)
    then have "uval (snd r) \<le> 2" by simp
    moreover have "int (uval (fst r) + 2 ^ 32 * uval (snd r)) = int (uval c + (uval a + uval b))"
      using r unfolding v by (simp only: u32_halves_def)
    ultimately show "is_u32 (fst r) \<and> uval (snd r) \<le> 2
        \<and> int (uval (fst r)) + 2 ^ 32 * int (uval (snd r)) = int (uval a) + int (uval b) + int (uval c)"
      using r by (simp add: u32_halves_def)
  qed
qed

interpretation subtractor: carry_chain sub_step "\<lambda>(a, b). is_u32 a \<and> is_u32 b" "\<lambda>(a, b). int (uval a) - int (uval b)"
  "\<lambda>c. bval c True \<or> bval c False" "\<lambda>c. - int (uval c)"
proof (unfold_locales, unfold split_paired_all prod.case)
  fix a b c
  assume ok: "is_u32 a \<and> is_u32 b" and "bval c True \<or> bval c False"
  then obtain v where c: "bval c v" by blast
  show "implements (sub_step (a, b) c) (\<lambda>r. is_u32 (fst r) \<and> (bval (snd r) True \<or> bval (snd r) False)
      \<and> int (uval (fst r)) + 2 ^ 32 * - int (uval (snd r)) = int (uval a) - int (uval b) + - int (uval c))"
    unfolding sub_step_def Let_def prod.case
  proof (rule implements_weaken [OF implements_sub_u32 [OF _ _ c]])
    fix r assume r: "u32_difference (uval a) (uval b + of_bool v) r"
    then have "int (uval (fst r) + (uval b + of_bool v)) = int (uval a + 2 ^ 32 * of_bool (uval a < uval b + of_bool v))"
      by (simp only: u32_difference_def)
    then show "is_u32 (fst r) \<and> (bval (snd r) True \<or> bval (snd r) False)
        \<and> int (uval (fst r)) + 2 ^ 32 * - int (uval (snd r)) = int (uval a) - int (uval b) + - int (uval c)"
      using r uval_bval [OF c] uval_bval [of "snd r"] by (cases "uval a < uval b + of_bool v") (auto simp: u32_difference_def)
  qed (use ok in auto)
qed

lemma le_value_add: "le_value B (map (\<lambda>x. f x + g x) xs) = le_value B (map f xs) + le_value B (map g xs)"
  by (induction xs) (simp_all add: algebra_simps)

lemma le_value_diff:
  "le_value B (map (\<lambda>x. f x - g x) xs) = le_value B (map f xs) - le_value B (map g (xs :: 'x list))" for B :: int
  using le_value_add [of B "\<lambda>x. f x - g x" g xs] by simp

lemma map_zip_fst_snd:
  assumes "length xs = length ys"
  shows "map (\<lambda>p. f (fst p)) (zip xs ys) = map f xs" "map (\<lambda>p. g (snd p)) (zip xs ys) = map g ys"
  using assms by (induction xs ys rule: list_induct2) simp_all

lemma implements_add_loop:
  assumes "limbs_ok a" "limbs_ok b" "max (length a) (length b) \<le> n"
  shows "implements (carry_loop add_step (map (\<lambda>i. (limb_or_zero a i, limb_or_zero b i)) [0..<n]) zero_u32)
    (\<lambda>(ls, c). limbs_ok ls \<and> length ls = n \<and> uval c \<le> 2 \<and> bnat ls + 2 ^ (32 * n) * uval c = bnat a + bnat b)"
proof (rule implements_weaken [OF adder.implements_loop])
  fix r assume "adder.loop_result (map (\<lambda>i. (limb_or_zero a i, limb_or_zero b i)) [0..<n]) zero_u32 r"
  then show "case r of (ls, c) \<Rightarrow> limbs_ok ls \<and> length ls = n \<and> uval c \<le> 2 \<and> bnat ls + 2 ^ (32 * n) * uval c = bnat a + bnat b"
  proof (cases r)
    case (Pair ls c)
    have "int (bnat ls) + 2 ^ (32 * n) * int (uval c) = int (bnat a) + int (bnat b)"
      using \<open>adder.loop_result _ _ r\<close> assms(3) le_value_limbs [of a n] le_value_limbs [of b n]
      by (simp add: Pair adder.loop_result_def comp_def le_value_add)
    then have "int (bnat ls + 2 ^ (32 * n) * uval c) = int (bnat a + bnat b)" by simp
    then have "bnat ls + 2 ^ (32 * n) * uval c = bnat a + bnat b" by (simp only: of_nat_eq_iff)
    then show ?thesis using \<open>adder.loop_result _ _ r\<close> by (simp add: Pair adder.loop_result_def)
  qed
qed (use limb_or_zero_ok assms in \<open>auto simp: list_all_iff\<close>)

lemma implements_add_biguint:
  assumes "limbs_ok a" "limbs_ok b"
  shows "implements (add_biguint a b) (\<lambda>r. big r (Suc (max (length a) (length b))) (bnat a + bnat b))"
  unfolding add_biguint_def Let_def
  by (rule implements_bind [OF implements_add_loop [OF assms order_refl]])
    (auto simp: big_def bnat_append is_u32_def intro!: implements_return)

lemma realises_add_biguint_non_carry:
  assumes "limbs_ok a" "limbs_ok b"
  shows "realises (add_biguint_non_carry a b n)
    (max (length a) (length b) \<le> n \<and> bnat a + bnat b < 2 ^ (32 * n)) (\<lambda>r. big r n (bnat a + bnat b))"
  unfolding add_biguint_non_carry_def
proof (rule realises_bind [OF realises_panic])
  assume n: "max (length a) (length b) \<le> n"
  show "realises (circ_bind (carry_loop add_step (map (\<lambda>i. (limb_or_zero a i, limb_or_zero b i)) [0..<n]) zero_u32)
      (\<lambda>(combined_limbs, carry). circ_bind (assert_zero_u32 carry) (\<lambda>_. circ_return combined_limbs)))
      (bnat a + bnat b < 2 ^ (32 * n)) (\<lambda>r. big r n (bnat a + bnat b))"
  proof (rule realises_after [OF implements_add_loop [OF assms n]], unfold split_paired_all prod.case)
    fix ls c assume r: "limbs_ok ls \<and> length ls = n \<and> uval c \<le> 2 \<and> bnat ls + 2 ^ (32 * n) * uval c = bnat a + bnat b"
    have fits: "bnat a + bnat b < 2 ^ (32 * n) \<longleftrightarrow> uval c = 0"
      using digit_less_iff [of "bnat ls" "2 ^ (32 * n)" "uval c" 1] bnat_bound [of ls] r by simp
    show "realises (circ_bind (assert_zero_u32 c) (\<lambda>_. circ_return ls)) (bnat a + bnat b < 2 ^ (32 * n)) (\<lambda>r. big r n (bnat a + bnat b))"
      unfolding fits assert_zero_u32_def
      by (rule realises_then_return [OF realises_assert_zero]) (use r in \<open>simp add: big_def\<close>)
  qed
qed

text \<open>The difference modulo the width, and the borrow.\<close>

lemma implements_try_sub_biguint:
  assumes "limbs_ok a" "limbs_ok b"
  shows "implements (try_sub_biguint a b) (\<lambda>(r, borrow). bval borrow (bnat a < bnat b)
    \<and> big r (max (length a) (length b)) (bnat a + 2 ^ (32 * max (length a) (length b)) * of_bool (bnat a < bnat b) - bnat b))"
proof -
  obtain a' b' where pad: "pad_biguints a b = (a', b')" by fastforce
  note props = pad_biguints_cases [OF pad]
  let ?n = "max (length a) (length b)"
  have len: "length a' = ?n" "length b' = ?n" and ok: "limbs_ok a'" "limbs_ok b'" using props assms by simp_all
  have items: "list_all (\<lambda>(a, b). is_u32 a \<and> is_u32 b) (zip a' b')"
    using ok by (auto simp: limbs_ok_def list_all_iff dest: set_zip_leftD set_zip_rightD)
  have len': "length a' = length b'" using len by simp
  have val: "le_value (2 ^ 32) (map (\<lambda>(a, b). int (uval a) - int (uval b)) (zip a' b')) = int (bnat a) - int (bnat b)"
    unfolding case_prod_beta le_value_diff
      map_zip_fst_snd(1) [OF len', of "\<lambda>t. int (uval t)"] map_zip_fst_snd(2) [OF len', of "\<lambda>t. int (uval t)"]
    by (simp only: int_bnat props)
  show ?thesis
    unfolding try_sub_biguint_def pad Let_def prod.case
  proof (rule implements_weaken [OF subtractor.implements_loop [OF items]], unfold split_paired_all prod.case)
    fix ls c assume r: "subtractor.loop_result (zip a' b') zero_u32 (ls, c)"
    then have ls: "limbs_ok ls" "length ls = ?n" using len by (simp_all add: subtractor.loop_result_def)
    obtain v where c: "bval c v" using r by (auto simp: subtractor.loop_result_def)
    have eq: "int (bnat ls) - 2 ^ (32 * ?n) * of_bool v = int (bnat a) - int (bnat b)"
      using r uval_bval [OF c] len val by (simp add: subtractor.loop_result_def)
    have lt: "int (bnat ls) < 2 ^ (32 * ?n)" using bnat_bound [OF ls(1)] ls(2) by (metis of_nat_less_numeral_power_cancel_iff)
    show "bval c (bnat a < bnat b) \<and> big ls ?n (bnat a + 2 ^ (32 * ?n) * of_bool (bnat a < bnat b) - bnat b)"
    proof (cases v)
      case True
      then have eq': "int (bnat ls) + int (bnat b) = int (bnat a) + 2 ^ (32 * ?n)" using eq by simp
      then have "int (bnat a) < int (bnat b)" using lt by linarith
      then have "bnat a < bnat b" by simp
      moreover from eq' have "int (bnat ls + bnat b) = int (bnat a + 2 ^ (32 * ?n))" by simp
      then have "bnat ls + bnat b = bnat a + 2 ^ (32 * ?n)" by (simp only: of_nat_eq_iff)
      ultimately show ?thesis using True c ls by (simp add: big_def)
    next
      case False
      then have "bnat ls + bnat b = bnat a" using eq by simp
      then show ?thesis using False c ls by (simp add: big_def)
    qed
  qed (simp add: bval_def zero_u32_def)
qed

lemma realises_sub_biguint:
  assumes "limbs_ok a" "limbs_ok b"
  shows "realises (sub_biguint a b) (bnat b \<le> bnat a) (\<lambda>r. big r (max (length a) (length b)) (bnat a - bnat b))"
  unfolding sub_biguint_def
proof (rule realises_after [OF implements_try_sub_biguint [OF assms]], unfold split_paired_all prod.case)
  fix r c assume h: "bval c (bnat a < bnat b) \<and> big r (max (length a) (length b))
    (bnat a + 2 ^ (32 * max (length a) (length b)) * of_bool (bnat a < bnat b) - bnat b)"
  have fits: "bnat b \<le> bnat a \<longleftrightarrow> uval c = 0" using uval_bval [of c "bnat a < bnat b"] h by auto
  show "realises (circ_bind (assert_zero_u32 c) (\<lambda>_. circ_return r)) (bnat b \<le> bnat a)
      (\<lambda>r. big r (max (length a) (length b)) (bnat a - bnat b))"
    unfolding fits assert_zero_u32_def
    by (rule realises_then_return [OF realises_assert_zero]) (use h fits in \<open>auto simp: not_less [symmetric]\<close>)
qed

section \<open>Properties\<close>

text \<open>
  Addition of integers of any sizes is exact: the result has one limb more than the longer operand,
  its limbs are proper and it denotes the sum; \<open>add_biguint_non_carry\<close> is satisfiable exactly when the
  sum fits the requested number of limbs.
\<close>

theorem add_biguint_correct:
  assumes "limbs_ok a" "limbs_ok b"
  shows "implements (add_biguint a b) (\<lambda>r. big r (Suc (max (length a) (length b))) (bnat a + bnat b))
    \<and> realises (add_biguint_non_carry a b n) (max (length a) (length b) \<le> n \<and> bnat a + bnat b < 2 ^ (32 * n))
        (\<lambda>r. big r n (bnat a + bnat b))"
  using implements_add_biguint [OF assms] realises_add_biguint_non_carry [OF assms] by blast

theorem add_biguint_correct_witness:
  "implements (add_biguint [Wire 4294967295, Wire 7] [Wire 1]) (\<lambda>r. big r (Suc (Suc (Suc 0))) 34359738368)
   \<and> unsatisfiable (add_biguint_non_carry [Wire 4294967295] [Wire 1] 1)"
  using add_biguint_correct [of "[Wire 4294967295, Wire 7]" "[Wire 1]" 2]
    add_biguint_correct [of "[Wire 4294967295]" "[Wire 1]" 1]
  by (simp add: is_u32_def bnat_Cons realises_def)

text \<open>
  Subtraction: the borrow is set exactly when the subtrahend is larger, the limbs denote the
  difference modulo the width, and \<open>sub_biguint\<close> is satisfiable exactly when there is no borrow.
\<close>

theorem sub_biguint_correct:
  assumes "limbs_ok a" "limbs_ok b"
  shows "implements (try_sub_biguint a b) (\<lambda>(r, borrow). bval borrow (bnat a < bnat b)
      \<and> big r (max (length a) (length b)) (bnat a + 2 ^ (32 * max (length a) (length b)) * of_bool (bnat a < bnat b) - bnat b))
    \<and> realises (sub_biguint a b) (bnat b \<le> bnat a) (\<lambda>r. big r (max (length a) (length b)) (bnat a - bnat b))"
  using implements_try_sub_biguint [OF assms] realises_sub_biguint [OF assms] by blast

theorem sub_biguint_correct_witness:
  "unsatisfiable (sub_biguint [Wire 5] [Wire 6])
   \<and> implements (sub_biguint [Wire 0, Wire 1] [Wire 1]) (\<lambda>r. big r (Suc (Suc 0)) 4294967295)"
  using sub_biguint_correct [of "[Wire 5]" "[Wire 6]"] sub_biguint_correct [of "[Wire 0, Wire 1]" "[Wire 1]"]
  by (simp add: is_u32_def bnat_Cons realises_def)

text \<open>
  Conversion to a field element is exact: it is satisfiable exactly for the values below the order of
  the field, so no value is represented by the residue of another, and converting back returns the limbs.
\<close>

theorem biguint_target_roundtrip:
  assumes "limbs_ok a"
  shows "realises (circ_bind (biguint_to_target_safe a) target_to_biguint) (bnat a < p_nat) (\<lambda>r. big r 2 (bnat a))"
proof -
  have "realises (circ_bind (biguint_to_target_safe a) target_to_biguint) (bnat a < p_nat \<and> True) (\<lambda>r. big r 2 (bnat a))"
    by (rule realises_bind [OF realises_biguint_to_target_safe [OF assms]])
      (use implements_target_to_biguint in \<open>simp add: implements_realises [symmetric] flip: tval.simps\<close>, metis)
  then show ?thesis by simp
qed

theorem biguint_target_roundtrip_witness:
  "implements (circ_bind (biguint_to_target_safe [Wire 0, Wire 4294967295]) target_to_biguint) (\<lambda>r. big r 2 18446744069414584320)
   \<and> unsatisfiable (circ_bind (biguint_to_target_safe [Wire 1, Wire 4294967295]) target_to_biguint)"
  using biguint_target_roundtrip [of "[Wire 0, Wire 4294967295]"] biguint_target_roundtrip [of "[Wire 1, Wire 4294967295]"]
  by (simp add: is_u32_def bnat_Cons realises_def)

text \<open>
  \<open>range_check_biguint\<close> is satisfiable exactly when the value has at most \<open>bit_count\<close> bits, for every
  positive bit count, also one beyond the limbs.
\<close>

theorem range_check_biguint_exact:
  assumes "limbs_ok a"
  shows "realises (range_check_biguint a bit_count) (bit_count \<noteq> 0 \<and> bnat a < 2 ^ bit_count) (\<lambda>_. True)"
  using assms by (rule realises_range_check_biguint)

theorem range_check_biguint_exact_witness:
  "implements (range_check_biguint [Wire 9, Wire 3, Wire 0] 34) (\<lambda>_. True)
   \<and> unsatisfiable (range_check_biguint [Wire 9, Wire 4, Wire 0] 34)"
  using range_check_biguint_exact [of "[Wire 9, Wire 3, Wire 0]" 34] range_check_biguint_exact [of "[Wire 9, Wire 4, Wire 0]" 34]
  by (simp add: is_u32_def bnat_Cons realises_def)

end
