(* ===== verification/Biguint_Mul.thy ===== *)
theory Biguint_Mul
  imports Biguint "HOL-Library.Multiset"
begin

text \<open>
  Multiplication of multi-limb integers and sums of many of them (\<open>bigint/biguint.rs\<close>). All limb
  products are computed first and sorted into columns of equal weight; the columns are then added with
  a running carry. A column of a product with at most eight limbs on one side never exceeds the
  sixteen addends for which the add-many gate is built.
\<close>

section \<open>The schoolbook loops\<close>

text \<open>\<open>to_add[i + j].push(product); to_add[i + j + 1].push(carry)\<close> for every pair of limbs.\<close>

primrec push_products :: "((nat \<times> nat) \<times> (target \<times> target)) list \<Rightarrow> target list list \<Rightarrow> target list list" where
  "push_products [] to_add = to_add"
| "push_products (entry # entries) to_add =
    (let ((i, j), (product, carry)) = entry;
         to_add = to_add[i + j := to_add ! (i + j) @ [product]];
         to_add = to_add[i + j + 1 := to_add ! (i + j + 1) @ [carry]]
     in push_products entries to_add)"

definition limb_pairs :: "biguint \<Rightarrow> biguint \<Rightarrow> (nat \<times> nat) list" where
  "limb_pairs a b = List.product [0..<length a] [0..<length b]"

definition mul_columns :: "biguint \<Rightarrow> biguint \<Rightarrow> target list list circ" where
  "mul_columns a b =
    circ_bind (circ_map (\<lambda>(i, j). mul_u32 (a ! i) (b ! j)) (limb_pairs a b)) (\<lambda>products.
    circ_return (push_products (zip (limb_pairs a b) products) (replicate (length a + length b) [])))"

definition column_step :: "target list \<Rightarrow> target \<Rightarrow> (target \<times> target) circ" where
  "column_step summands carry = add_u32s_with_carry summands carry"

definition mul_biguint :: "biguint \<Rightarrow> biguint \<Rightarrow> biguint circ" where
  "mul_biguint a b =
    circ_bind (mul_columns a b) (\<lambda>to_add.
    circ_bind (carry_loop column_step to_add zero_u32) (\<lambda>(combined_limbs, carry).
    circ_return (combined_limbs @ [carry])))"

definition mul_biguint_non_carry :: "biguint \<Rightarrow> biguint \<Rightarrow> nat \<Rightarrow> biguint circ" where
  "mul_biguint_non_carry a b num_limbs =
    circ_bind (circ_panic_unless (max (length a) (length b) \<le> num_limbs)) (\<lambda>_.
    let total_limbs = length a + length b;
        num_limbs = min num_limbs total_limbs in
    circ_bind (mul_columns a b) (\<lambda>to_add.
    circ_bind (carry_loop column_step to_add zero_u32) (\<lambda>(combined_limbs, carry).
    circ_bind (assert_zero_u32 carry) (\<lambda>_.
    circ_bind (circ_for (drop num_limbs combined_limbs) assert_zero_u32) (\<lambda>_.
    circ_return (take num_limbs combined_limbs))))))"

definition mul_add_biguint :: "biguint \<Rightarrow> biguint \<Rightarrow> biguint \<Rightarrow> biguint circ" where
  "mul_add_biguint x y z = circ_bind (mul_biguint x y) (\<lambda>product. add_biguint product z)"

fun mul_many_loop :: "biguint list \<Rightarrow> nat \<Rightarrow> biguint \<Rightarrow> biguint circ" where
  "mul_many_loop [] num_limbs result = circ_return result"
| "mul_many_loop (t # ts) num_limbs result =
    circ_bind (mul_biguint_non_carry result t num_limbs) (mul_many_loop ts num_limbs)"

definition mul_many_biguint_non_carry :: "biguint list \<Rightarrow> nat \<Rightarrow> biguint circ" where
  "mul_many_biguint_non_carry targets num_limbs =
    circ_bind (circ_panic_unless (targets \<noteq> [])) (\<lambda>_. mul_many_loop (tl targets) num_limbs (hd targets))"

section \<open>The value of the columns\<close>

abbreviation column_sum :: "target list \<Rightarrow> nat" where
  "column_sum col \<equiv> (\<Sum>t\<leftarrow>col. uval t)"

definition columns_val :: "target list list \<Rightarrow> nat" where
  "columns_val cols = le_value (2 ^ 32) (map column_sum cols)"

lemma le_value_update:
  fixes xs :: "nat list"
  assumes "i < length xs"
  shows "le_value B (xs[i := xs ! i + d]) = le_value B xs + B ^ i * d"
  using assms
proof (induction xs arbitrary: i)
  case (Cons x xs)
  then show ?case by (cases i) (simp_all add: algebra_simps)
qed simp

lemma columns_val_push:
  assumes "k < length cols"
  shows "columns_val (cols[k := cols ! k @ [t]]) = columns_val cols + 2 ^ (32 * k) * uval t"
  using le_value_update [of k "map column_sum cols" "2 ^ 32" "uval t"] assms
  by (simp add: columns_val_def map_update power_mult)

lemma length_push_products [simp]: "length (push_products entries cols) = length cols"
  by (induction entries arbitrary: cols) (simp_all add: split_beta Let_def)

lemma columns_val_push_products:
  assumes "\<forall>((i, j), _)\<in>set entries. i + j + 1 < length cols"
  shows "columns_val (push_products entries cols)
    = columns_val cols + (\<Sum>((i, j), (p, c))\<leftarrow>entries. 2 ^ (32 * (i + j)) * (uval p + 2 ^ 32 * uval c))"
  using assms
proof (induction entries arbitrary: cols)
  case (Cons e es)
  obtain i j p c where e: "e = ((i, j), (p, c))" by (metis surj_pair)
  let ?c1 = "cols[i + j := cols ! (i + j) @ [p]]"
  let ?c2 = "?c1[i + j + 1 := ?c1 ! (i + j + 1) @ [c]]"
  have "columns_val ?c2 = columns_val cols + 2 ^ (32 * (i + j)) * uval p + 2 ^ (32 * (i + j + 1)) * uval c"
    using Cons.prems columns_val_push [of "i + j + 1" ?c1 c] columns_val_push [of "i + j" cols p] by (simp add: e)
  then have "columns_val ?c2 = columns_val cols + 2 ^ (32 * (i + j)) * (uval p + 2 ^ 32 * uval c)"
    by (simp add: power_add algebra_simps)
  moreover have "\<forall>((i, j), _)\<in>set es. i + j + 1 < length ?c2" using Cons.prems by auto
  ultimately show ?case using Cons.IH [of ?c2] by (simp add: e Let_def)
qed simp

section \<open>The size of the columns\<close>

text \<open>A column holds the low halves of the pairs of its weight and the high halves of the weight below.\<close>

definition lows :: "nat \<Rightarrow> ((nat \<times> nat) \<times> (target \<times> target)) list \<Rightarrow> target list" where
  "lows k entries = map (\<lambda>(_, (p, _)). p) (filter (\<lambda>((i, j), _). i + j = k) entries)"

definition highs :: "nat \<Rightarrow> ((nat \<times> nat) \<times> (target \<times> target)) list \<Rightarrow> target list" where
  "highs k entries = map (\<lambda>(_, (_, c)). c) (filter (\<lambda>((i, j), _). i + j + 1 = k) entries)"

lemma mset_column:
  assumes "k < length cols"
  shows "mset (push_products entries cols ! k) = mset (cols ! k) + mset (lows k entries) + mset (highs k entries)"
  using assms
proof (induction entries arbitrary: cols)
  case (Cons e es)
  obtain i j p c where e: "e = ((i, j), (p, c))" by (metis surj_pair)
  let ?c1 = "cols[i + j := cols ! (i + j) @ [p]]"
  let ?c2 = "?c1[i + j + 1 := ?c1 ! (i + j + 1) @ [c]]"
  have "mset (?c2 ! k) = mset (cols ! k) + (if i + j = k then {#p#} else {#}) + (if i + j + 1 = k then {#c#} else {#})"
    using Cons.prems by (auto simp: nth_list_update)
  then show ?case using Cons.IH [of ?c2] Cons.prems by (simp add: e Let_def lows_def highs_def)
qed (simp add: lows_def highs_def)

lemma pair_count:
  "length (filter (\<lambda>(i, j). i + j = k) (List.product [0..<m] [0..<n])) \<le> min m n"
proof -
  let ?ps = "filter (\<lambda>(i, j). i + j = k) (List.product [0..<m] [0..<n])"
  have dist: "distinct ?ps" by (intro distinct_filter distinct_product) simp_all
  have "inj_on fst (set ?ps)" "inj_on snd (set ?ps)" by (auto intro!: inj_onI)
  moreover have "fst ` set ?ps \<subseteq> {..<m}" "snd ` set ?ps \<subseteq> {..<n}" by auto
  ultimately have "card (set ?ps) \<le> card {..<m}" "card (set ?ps) \<le> card {..<n}"
    by (metis card_image card_mono finite_lessThan)+
  then show ?thesis using distinct_card [OF dist] by simp
qed

text \<open>The result of the limb products.\<close>

definition products_ok :: "biguint \<Rightarrow> biguint \<Rightarrow> (target \<times> target) list \<Rightarrow> bool" where
  "products_ok a b rs \<longleftrightarrow> list_all2 (\<lambda>(i, j) r. u32_halves (uval (a ! i) * uval (b ! j)) r) (limb_pairs a b) rs"

lemma high_half_lt:
  assumes "is_u32 x" "is_u32 y" "u32_halves (uval x * uval y) (p, c)"
  shows "uval c \<le> 2 ^ 32 - 2"
proof -
  have "uval x * uval y \<le> (2 ^ 32 - 1) * (2 ^ 32 - 1)"
    using assms(1,2) by (intro mult_le_mono) (simp_all add: is_u32_def)
  moreover have "uval c = uval x * uval y div 2 ^ 32" using u32_halves_div_mod [OF assms(3)] by simp
  ultimately have "uval c \<le> (2 ^ 32 - 1) * (2 ^ 32 - 1) div 2 ^ 32" by (simp only: div_le_mono)
  then show ?thesis by simp
qed

lemma sum_list_le: "\<forall>t\<in>set ts. f t \<le> (m::nat) \<Longrightarrow> (\<Sum>t\<leftarrow>ts. f t) \<le> length ts * m"
  by (induction ts) auto

lemma length_filter_zip:
  "length xs = length ys \<Longrightarrow> length (filter (\<lambda>(x, y). P x) (zip xs ys)) = length (filter P xs)"
  by (induction xs ys rule: list_induct2) auto

lemma highs_le_lows: "length (highs k es) \<le> length (lows (k - 1) es)"
  unfolding lows_def highs_def length_map by (induction es) auto

lemma length_lows_highs:
  assumes "products_ok a b rs"
  shows "length (lows k (zip (limb_pairs a b) rs)) \<le> min (length a) (length b)"
    and "length (highs k (zip (limb_pairs a b) rs)) \<le> min (length a) (length b)"
proof -
  have len: "length (limb_pairs a b) = length rs" using assms by (auto simp: products_ok_def dest: list_all2_lengthD)
  have lows: "length (lows k (zip (limb_pairs a b) rs)) = length (filter (\<lambda>(i, j). i + j = k) (limb_pairs a b))" for k
    using length_filter_zip [OF len, of "\<lambda>p. fst p + snd p = k"] by (simp add: lows_def split_def)
  then show "length (lows k (zip (limb_pairs a b) rs)) \<le> min (length a) (length b)" for k
    using pair_count [of k "length a" "length b"] by (simp add: limb_pairs_def)
  from this [of "k - 1"] highs_le_lows [of k "zip (limb_pairs a b) rs"]
  show "length (highs k (zip (limb_pairs a b) rs)) \<le> min (length a) (length b)" by linarith
qed

lemma products_ok_entry:
  assumes "products_ok a b rs" "((i, j), (p, c)) \<in> set (zip (limb_pairs a b) rs)" "limbs_ok a" "limbs_ok b"
  shows "is_u32 p" "uval p \<le> 2 ^ 32 - 1" "is_u32 c" "uval c \<le> 2 ^ 32 - 2" "i < length a" "j < length b"
    and "uval p + 2 ^ 32 * uval c = uval (a ! i) * uval (b ! j)"
proof -
  have r: "u32_halves (uval (a ! i) * uval (b ! j)) (p, c)"
    using assms(1,2) by (auto simp: products_ok_def list_all2_iff)
  show ij: "i < length a" "j < length b" using set_zip_leftD [OF assms(2)] by (auto simp: limb_pairs_def)
  show p: "is_u32 p" "is_u32 c" "uval p + 2 ^ 32 * uval c = uval (a ! i) * uval (b ! j)"
    using r by (simp_all add: u32_halves_def)
  show "uval p \<le> 2 ^ 32 - 1" using p(1) by (simp add: is_u32_def)
  show "uval c \<le> 2 ^ 32 - 2"
    using high_half_lt [OF limbs_ok_nth [OF assms(3) ij(1)] limbs_ok_nth [OF assms(4) ij(2)] r] .
qed

definition column_ok :: "target list \<Rightarrow> bool" where
  "column_ok col \<longleftrightarrow> list_all is_u32 col \<and> col \<noteq> [] \<and> column_sum col + 15 < 16 * 2 ^ 32 \<and> length col \<le> 77"

lemma column_nonempty:
  assumes "a \<noteq> []" "b \<noteq> []" "k < length a + length b" "length rs = length (limb_pairs a b)"
  shows "lows k (zip (limb_pairs a b) rs) \<noteq> [] \<or> highs k (zip (limb_pairs a b) rs) \<noteq> []"
proof -
  have "\<exists>i<length a. \<exists>j<length b. i + j = k \<or> i + j + 1 = k"
  proof (cases "k < length a + length b - 1")
    case True
    show ?thesis
      by (rule exI [of _ "min k (length a - 1)"], rule conjI, use assms in \<open>cases a; auto\<close>,
          rule exI [of _ "k - min k (length a - 1)"]) (use True assms in \<open>cases a; cases b; auto\<close>)
  next
    case False
    show ?thesis
      by (rule exI [of _ "length a - 1"], rule conjI, use assms in \<open>cases a; auto\<close>,
          rule exI [of _ "length b - 1"]) (use False assms in \<open>cases a; cases b; auto\<close>)
  qed
  then obtain i j where ij: "(i, j) \<in> set (limb_pairs a b)" "i + j = k \<or> i + j + 1 = k"
    by (auto simp: limb_pairs_def)
  then obtain n where n: "n < length (limb_pairs a b)" "limb_pairs a b ! n = (i, j)" by (auto simp: in_set_conv_nth)
  then have "((i, j), rs ! n) \<in> set (zip (limb_pairs a b) rs)"
    using assms(4) by (auto simp: set_zip intro!: exI [of _ n])
  with ij(2) show ?thesis by (auto simp: lows_def highs_def filter_empty_conv)
qed

lemma columns_ok:
  assumes "products_ok a b rs" "limbs_ok a" "limbs_ok b" "a \<noteq> []" "b \<noteq> []" "min (length a) (length b) \<le> 8"
  shows "list_all column_ok (push_products (zip (limb_pairs a b) rs) (replicate (length a + length b) []))"
  unfolding list_all_length length_push_products length_replicate
proof (intro allI impI)
  fix k assume k: "k < length a + length b"
  let ?es = "zip (limb_pairs a b) rs" and ?n = "min (length a) (length b)"
  let ?col = "push_products ?es (replicate (length a + length b) []) ! k"
  have m: "mset ?col = mset (lows k ?es @ highs k ?es)"
    using mset_column [of k "replicate (length a + length b) []" ?es] k by simp
  have set: "set ?col = set (lows k ?es) \<union> set (highs k ?es)" using mset_eq_setD [OF m] by simp
  have len: "length ?col = length (lows k ?es) + length (highs k ?es)" using mset_eq_length [OF m] by simp
  have "mset (map uval ?col) = mset (map uval (lows k ?es @ highs k ?es))" using m by simp
  then have val: "column_sum ?col = column_sum (lows k ?es) + column_sum (highs k ?es)"
    by (simp only: sum_mset_sum_list [symmetric] map_append mset_append sum_mset.union)
  have low: "\<forall>t\<in>set (lows k ?es). is_u32 t \<and> uval t \<le> 2 ^ 32 - 1"
    using products_ok_entry(1,2) [OF assms(1) _ assms(2,3)] by (fastforce simp: lows_def)
  have high: "\<forall>t\<in>set (highs k ?es). is_u32 t \<and> uval t \<le> 2 ^ 32 - 2"
    using products_ok_entry(3,4) [OF assms(1) _ assms(2,3)] by (fastforce simp: highs_def)
  note count = length_lows_highs [OF assms(1), of k]
  have "column_sum (lows k ?es) \<le> length (lows k ?es) * (2 ^ 32 - 1)" by (rule sum_list_le) (use low in blast)
  also have "\<dots> \<le> 8 * (2 ^ 32 - 1)" using count(1) assms(6) by (intro mult_le_mono1) linarith
  finally have lows: "column_sum (lows k ?es) \<le> 8 * (2 ^ 32 - 1)" .
  have "column_sum (highs k ?es) \<le> length (highs k ?es) * (2 ^ 32 - 2)" by (rule sum_list_le) (use high in blast)
  also have "\<dots> \<le> 8 * (2 ^ 32 - 2)" using count(2) assms(6) by (intro mult_le_mono1) linarith
  finally have "column_sum ?col + 15 < 16 * 2 ^ 32" using lows by (simp add: val)
  moreover have "list_all is_u32 ?col" using low high set by (auto simp: list_all_iff)
  moreover have "length (limb_pairs a b) = length rs" using assms(1) by (auto simp: products_ok_def dest: list_all2_lengthD)
  then have "?col \<noteq> []" using column_nonempty [OF assms(4,5) k, of rs] len by auto
  moreover have "length ?col \<le> 77" using len count assms(6) by linarith
  ultimately show "column_ok ?col" by (simp add: column_ok_def)
qed

section \<open>The value of the product\<close>

lemma le_value_sum: "le_value B xs = (\<Sum>i\<leftarrow>[0..<length xs]. B ^ i * xs ! i)" for xs :: "nat list"
proof (induction xs)
  case (Cons x xs)
  have "[0..<length (x # xs)] = 0 # map Suc [0..<length xs]" by (simp add: upt_conv_Cons map_Suc_upt del: upt_Suc)
  then show ?case by (simp add: Cons.IH comp_def sum_list_const_mult algebra_simps del: upt_Suc)
qed simp

lemma bnat_sum: "bnat a = (\<Sum>i\<leftarrow>[0..<length a]. 2 ^ (32 * i) * uval (a ! i))"
proof -
  have "bnat a = (\<Sum>i\<leftarrow>[0..<length a]. (2 ^ 32) ^ i * map uval a ! i)" by (simp add: bnat_def le_value_sum)
  also have "\<dots> = (\<Sum>i\<leftarrow>[0..<length a]. 2 ^ (32 * i) * uval (a ! i))"
    by (intro arg_cong [of _ _ sum_list] map_cong refl) (simp add: power_mult)
  finally show ?thesis .
qed

lemma sum_list_product:
  "(\<Sum>p\<leftarrow>List.product xs ys. f (fst p) * g (snd p)) = (\<Sum>x\<leftarrow>xs. f x) * (\<Sum>y\<leftarrow>ys. g y)" for f g :: "_ \<Rightarrow> nat"
  by (induction xs) (simp_all add: comp_def sum_list_const_mult algebra_simps)

lemma product_columns:
  assumes "products_ok a b rs" "limbs_ok a" "limbs_ok b"
  shows "columns_val (push_products (zip (limb_pairs a b) rs) (replicate (length a + length b) [])) = bnat a * bnat b"
proof -
  let ?es = "zip (limb_pairs a b) rs"
  have bounds: "\<forall>((i, j), _)\<in>set ?es. i + j + 1 < length (replicate (length a + length b) ([]::target list))"
    by (auto simp: limb_pairs_def dest!: set_zip_leftD)
  have "map (\<lambda>((i, j), (p, c)). 2 ^ (32 * (i + j)) * (uval p + 2 ^ 32 * uval c)) ?es
      = map (\<lambda>((i, j), _). (2 ^ (32 * i) * uval (a ! i)) * (2 ^ (32 * j) * uval (b ! j))) ?es"
  proof (intro map_cong refl, clarify)
    fix i j p c assume "((i, j), (p, c)) \<in> set ?es"
    note val = products_ok_entry(7) [OF assms(1) this assms(2,3)]
    have "(2::nat) ^ (32 * (i + j)) = 2 ^ (32 * i) * 2 ^ (32 * j)" by (simp only: distrib_left power_add)
    then show "2 ^ (32 * (i + j)) * (uval p + 2 ^ 32 * uval c) = (2 ^ (32 * i) * uval (a ! i)) * (2 ^ (32 * j) * uval (b ! j))"
      unfolding val by (simp only: mult_ac)
  qed
  also have "\<dots> = map ((\<lambda>p. (2 ^ (32 * fst p) * uval (a ! fst p)) * (2 ^ (32 * snd p) * uval (b ! snd p))) \<circ> fst) ?es"
    by (intro map_cong refl) (auto split: prod.splits)
  also have "\<dots> = map (\<lambda>p. (2 ^ (32 * fst p) * uval (a ! fst p)) * (2 ^ (32 * snd p) * uval (b ! snd p))) (limb_pairs a b)"
  proof -
    have "length (limb_pairs a b) = length rs" using assms(1) by (auto simp: products_ok_def dest: list_all2_lengthD)
    then show ?thesis unfolding map_map [symmetric] by simp
  qed
  finally have "(\<Sum>((i, j), (p, c))\<leftarrow>?es. 2 ^ (32 * (i + j)) * (uval p + 2 ^ 32 * uval c)) = bnat a * bnat b"
    unfolding bnat_sum sum_list_product [symmetric] limb_pairs_def by (rule arg_cong)
  moreover have "columns_val (replicate (length a + length b) []) = 0" by (simp add: columns_val_def)
  ultimately show ?thesis using columns_val_push_products [OF bounds] by simp
qed

section \<open>Contracts\<close>

interpretation columns: carry_chain column_step column_ok "\<lambda>col. int (column_sum col)"
  "\<lambda>c. uval c \<le> 15" "\<lambda>c. int (uval c)"
proof unfold_locales
  fix col c
  assume col: "column_ok col" and c: "uval c \<le> 15"
  have bound: "column_sum col + uval c < 16 * 2 ^ 32" using col c by (simp add: column_ok_def)
  have "implements (add_u32s_with_carry col c) (u32_halves (column_sum col + uval c))"
    using col c bound by (intro implements_add_u32s_with_carry) (simp_all add: column_ok_def is_u32_def)
  then show "implements (column_step col c) (\<lambda>r. is_u32 (fst r) \<and> uval (snd r) \<le> 15
      \<and> int (uval (fst r)) + 2 ^ 32 * int (uval (snd r)) = int (column_sum col) + int (uval c))"
    unfolding column_step_def
  proof (rule implements_weaken)
    fix r assume r: "u32_halves (column_sum col + uval c) r"
    then have "uval (fst r) + 2 ^ 32 * uval (snd r) < 16 * 2 ^ 32" using bound by (simp only: u32_halves_def)
    then have "uval (snd r) \<le> 15" by simp
    moreover have "int (uval (fst r) + 2 ^ 32 * uval (snd r)) = int (column_sum col + uval c)"
      using r by (simp only: u32_halves_def)
    ultimately show "is_u32 (fst r) \<and> uval (snd r) \<le> 15
        \<and> int (uval (fst r)) + 2 ^ 32 * int (uval (snd r)) = int (column_sum col) + int (uval c)"
      using r by (simp add: u32_halves_def)
  qed
qed

lemma tval_zero_u32: "tval zero_u32 = 0"
  by (simp add: zero_u32_def)

text \<open>Without limbs on one side the columns are empty and everything is zero.\<close>

lemma empty_columns: "carry_loop column_step (replicate n []) zero_u32 = circ_return (replicate n zero_u32, zero_u32)"
proof (induction n)
  case (Suc n)
  then show ?case by (simp add: column_step_def add_u32s_with_carry_def circ_bind_def circ_return_def fun_eq_iff)
qed simp

lemma implements_columns_loop:
  assumes "products_ok a b rs" "limbs_ok a" "limbs_ok b" "min (length a) (length b) \<le> 8"
  shows "implements (carry_loop column_step (push_products (zip (limb_pairs a b) rs) (replicate (length a + length b) [])) zero_u32)
    (\<lambda>(ls, c). big ls (length a + length b) (bnat a * bnat b) \<and> uval c = 0)"
proof (cases "a = [] \<or> b = []")
  case True
  then have "limb_pairs a b = []" by (auto simp: limb_pairs_def product_concat_map)
  with True show ?thesis by (auto simp: empty_columns big_def tval_zero_u32 intro!: implements_return)
next
  case False
  let ?cols = "push_products (zip (limb_pairs a b) rs) (replicate (length a + length b) [])"
  let ?W = "2 ^ (32 * (length a + length b)) :: nat"
  have sum: "le_value (2 ^ 32) (map (\<lambda>col. int (column_sum col)) ?cols) = int (bnat a * bnat b)"
    using of_nat_le_value [of "2 ^ 32" "map column_sum ?cols", where 'a = int] product_columns [OF assms(1-3)]
    by (simp add: columns_val_def comp_def)
  show ?thesis
  proof (rule implements_weaken [OF columns.implements_loop], unfold split_paired_all prod.case)
    show "list_all column_ok ?cols" using columns_ok [OF assms(1-3) _ _ assms(4)] False by simp
    fix ls c assume r: "columns.loop_result ?cols zero_u32 (ls, c)"
    have ls: "limbs_ok ls" "length ls = length a + length b" using r by (simp_all add: columns.loop_result_def)
    have "int (bnat ls) + int ?W * int (uval c) = int (bnat a * bnat b)"
      using r sum by (simp add: columns.loop_result_def)
    then have "int (bnat ls + ?W * uval c) = int (bnat a * bnat b)" by simp
    then have eq: "bnat ls + ?W * uval c = bnat a * bnat b" by (simp only: of_nat_eq_iff)
    have "bnat a * bnat b < 2 ^ (32 * length a) * 2 ^ (32 * length b)"
      by (rule mult_strict_mono') (simp_all add: bnat_bound assms(2,3))
    also have "\<dots> = ?W * 1" by (simp add: power_add [symmetric] distrib_left)
    finally have "bnat ls + ?W * uval c < ?W * 1" unfolding eq .
    then have "uval c = 0" using digit_less_iff [of "bnat ls" ?W "uval c" 1] bnat_bound [OF ls(1)] ls(2) by simp
    with eq ls show "big ls (length a + length b) (bnat a * bnat b) \<and> uval c = 0" by (simp add: big_def)
  qed simp
qed

lemma implements_mul_columns:
  assumes "limbs_ok a" "limbs_ok b"
  shows "implements (mul_columns a b)
    (\<lambda>cols. \<exists>rs. products_ok a b rs \<and> cols = push_products (zip (limb_pairs a b) rs) (replicate (length a + length b) []))"
  unfolding mul_columns_def
proof (rule implements_bind [OF implements_circ_map])
  fix ij assume "ij \<in> set (limb_pairs a b)"
  then show "implements (case ij of (i, j) \<Rightarrow> mul_u32 (a ! i) (b ! j))
      (case ij of (i, j) \<Rightarrow> u32_halves (uval (a ! i) * uval (b ! j)))"
    using assms by (auto simp: limb_pairs_def intro!: implements_mul_u32 limbs_ok_nth)
next
  fix rs assume "list_all2 (\<lambda>ij. case ij of (i, j) \<Rightarrow> u32_halves (uval (a ! i) * uval (b ! j))) (limb_pairs a b) rs"
  then have "products_ok a b rs" by (simp add: products_ok_def split_def)
  then show "implements (circ_return (push_products (zip (limb_pairs a b) rs) (replicate (length a + length b) [])))
      (\<lambda>cols. \<exists>rs. products_ok a b rs \<and> cols = push_products (zip (limb_pairs a b) rs) (replicate (length a + length b) []))"
    by (intro implements_return) blast
qed

lemma implements_mul_loop:
  assumes "limbs_ok a" "limbs_ok b" "min (length a) (length b) \<le> 8"
  shows "implements (circ_bind (mul_columns a b) (\<lambda>to_add. carry_loop column_step to_add zero_u32))
    (\<lambda>(ls, c). big ls (length a + length b) (bnat a * bnat b) \<and> uval c = 0)"
  by (rule implements_bind [OF implements_mul_columns [OF assms(1,2)]])
    (use implements_columns_loop [OF _ assms] in auto)

lemma implements_mul_biguint:
  assumes "limbs_ok a" "limbs_ok b" "min (length a) (length b) \<le> 8"
  shows "implements (mul_biguint a b) (\<lambda>r. big r (Suc (length a + length b)) (bnat a * bnat b))"
  unfolding mul_biguint_def circ_bind_assoc [symmetric]
  by (rule implements_bind [OF implements_mul_loop [OF assms]])
    (auto simp: big_def bnat_append is_u32_def intro!: implements_return)

lemma realises_mul_biguint_non_carry:
  assumes "limbs_ok a" "limbs_ok b" "min (length a) (length b) \<le> 8"
  shows "realises (mul_biguint_non_carry a b n) (max (length a) (length b) \<le> n \<and> bnat a * bnat b < 2 ^ (32 * n))
    (\<lambda>r. big r (min n (length a + length b)) (bnat a * bnat b))"
  unfolding mul_biguint_non_carry_def Let_def
proof (rule realises_bind [OF realises_panic], unfold circ_bind_assoc [symmetric], rule realises_after [OF implements_mul_loop [OF assms]],
    unfold split_paired_all prod.case)
  let ?t = "length a + length b"
  let ?n = "min n ?t"
  fix ls c assume r: "big ls ?t (bnat a * bnat b) \<and> uval c = 0"
  then have ls: "limbs_ok ls" "length ls = ?t" "bnat ls = bnat a * bnat b" by (simp_all add: big_def)
  have fits: "bnat a * bnat b < 2 ^ (32 * n) \<longleftrightarrow> bnat (drop ?n ls) = 0"
  proof (cases "n \<le> ?t")
    case True
    then show ?thesis using bnat_lt_iff_drop [OF ls(1), of n] ls(3) by (simp add: min_absorb1)
  next
    case False
    then have "bnat ls < 2 ^ (32 * n)" using pow2_mono_less [OF bnat_bound [OF ls(1)]] ls(2) by simp
    with False show ?thesis using ls by (simp add: min_absorb2)
  qed
  have "realises (circ_bind (circ_bind (assert_zero_u32 c) (\<lambda>_. circ_for (drop ?n ls) assert_zero_u32)) (\<lambda>_. circ_return (take ?n ls)))
      (True \<and> bnat (drop ?n ls) = 0) (\<lambda>r. big r ?n (bnat a * bnat b))"
  proof (rule realises_then_return)
    have "realises (assert_zero_u32 c) True (\<lambda>_. True)"
      using realises_assert_zero [of c] r unfolding assert_zero_u32_def by (simp only: simp_thms)
    then show "realises (circ_bind (assert_zero_u32 c) (\<lambda>_. circ_for (drop ?n ls) assert_zero_u32)) (True \<and> bnat (drop ?n ls) = 0) (\<lambda>_. True)"
      by (rule realises_bind) (rule realises_zero_limbs)
    assume "True \<and> bnat (drop ?n ls) = 0"
    then show "big (take ?n ls) ?n (bnat a * bnat b)"
      using bnat_split [of ls ?n] ls by (simp add: big_def limbs_ok_take)
  qed
  then show "realises (circ_bind (circ_bind (assert_zero_u32 c) (\<lambda>_. circ_for (drop ?n ls) assert_zero_u32)) (\<lambda>_. circ_return (take ?n ls)))
      (bnat a * bnat b < 2 ^ (32 * n)) (\<lambda>r. big r ?n (bnat a * bnat b))"
    unfolding fits by simp
qed

lemma implements_mul_add_biguint:
  assumes "limbs_ok x" "limbs_ok y" "limbs_ok z" "min (length x) (length y) \<le> 8"
  shows "implements (mul_add_biguint x y z)
    (\<lambda>r. big r (Suc (max (Suc (length x + length y)) (length z))) (bnat x * bnat y + bnat z))"
  unfolding mul_add_biguint_def
  by (rule implements_bind [OF implements_mul_biguint [OF assms(1,2,4)]])
    (use implements_add_biguint assms(3) in \<open>fastforce simp: big_def\<close>)

section \<open>Sums of many integers\<close>

text \<open>Fifteen integers and the carry fill one add-many gate per limb.\<close>

primrec chunks_fuel :: "nat \<Rightarrow> 'a list \<Rightarrow> 'a list list" where
  "chunks_fuel 0 xs = []"
| "chunks_fuel (Suc k) xs = (if xs = [] then [] else take 15 xs # chunks_fuel k (drop 15 xs))"

definition chunks15 :: "'a list \<Rightarrow> 'a list list" where
  "chunks15 xs = chunks_fuel (length xs) xs"

definition partial_limbs :: "biguint list \<Rightarrow> nat \<Rightarrow> target list" where
  "partial_limbs chunk i = map (\<lambda>j. if j < length chunk then limb_or_zero (chunk ! j) i else zero_u32) [0..<15]"

definition multiple_step :: "target list \<Rightarrow> target \<Rightarrow> (target \<times> target) circ" where
  "multiple_step limbs carry = add_many_u32 (limbs @ [carry])"

definition sum_chunk :: "nat \<Rightarrow> biguint list \<Rightarrow> biguint circ" where
  "sum_chunk num_limbs chunk =
    circ_bind (circ_panic_unless (\<forall>t\<in>set chunk. length t \<le> num_limbs)) (\<lambda>_.
    circ_bind (carry_loop multiple_step (map (partial_limbs chunk) [0..<num_limbs]) zero_u32) (\<lambda>(combined_limbs, carry).
    circ_bind (assert_zero_u32 carry) (\<lambda>_. circ_return combined_limbs)))"

text \<open>
  The recursion on the partial sums. Every level divides the number of integers by fifteen, so the
  number of integers is fuel enough; without any integer the code recurses until the stack is exhausted.
\<close>

primrec add_multiple_fuel :: "nat \<Rightarrow> biguint list \<Rightarrow> nat \<Rightarrow> biguint circ" where
  "add_multiple_fuel 0 targets num_limbs = circ_bind (circ_panic_unless False) (\<lambda>_. circ_return [])"
| "add_multiple_fuel (Suc fuel) targets num_limbs =
    (if length targets = 1 then circ_return (hd targets)
     else circ_bind (circ_map (sum_chunk num_limbs) (chunks15 targets))
       (\<lambda>partial_sums. add_multiple_fuel fuel partial_sums num_limbs))"

definition add_biguint_multiple :: "biguint list \<Rightarrow> nat \<Rightarrow> biguint circ" where
  "add_biguint_multiple targets num_limbs = add_multiple_fuel (length targets) targets num_limbs"

lemma chunks_fuel_props:
  "length xs \<le> k \<Longrightarrow> concat (chunks_fuel k xs) = xs \<and> (\<forall>c\<in>set (chunks_fuel k xs). c \<noteq> [] \<and> length c \<le> 15)
    \<and> length (chunks_fuel k xs) \<le> length xs \<and> (2 \<le> length xs \<longrightarrow> length (chunks_fuel k xs) < length xs)"
proof (induction k arbitrary: xs)
  case (Suc k)
  show ?case
  proof (cases "xs = []")
    case False
    then have len: "length (drop 15 xs) \<le> k" using Suc.prems by (cases xs) auto
    have "length (chunks_fuel k (drop 15 xs)) \<le> length xs - 15" using Suc.IH [OF len] by simp
    moreover have "1 \<le> length xs" using False by (cases xs) auto
    ultimately show ?thesis using Suc.IH [OF len] False by auto
  qed simp
qed simp

lemma chunks15_props:
  "concat (chunks15 xs) = xs" "c \<in> set (chunks15 xs) \<Longrightarrow> c \<noteq> [] \<and> length c \<le> 15"
  "2 \<le> length xs \<Longrightarrow> length (chunks15 xs) < length xs" "xs \<noteq> [] \<Longrightarrow> chunks15 xs \<noteq> []"
  using chunks_fuel_props [of xs "length xs"] by (auto simp: chunks15_def)

definition sixteen_ok :: "target list \<Rightarrow> bool" where
  "sixteen_ok limbs \<longleftrightarrow> list_all is_u32 limbs \<and> length limbs = 15"

interpretation multiple: carry_chain multiple_step sixteen_ok "\<lambda>ls. int (column_sum ls)"
  "\<lambda>c. uval c \<le> 14" "\<lambda>c. int (uval c)"
proof unfold_locales
  fix ls c
  assume ls: "sixteen_ok ls" and c: "uval c \<le> 14"
  have "column_sum ls \<le> length ls * (2 ^ 32 - 1)"
    by (rule sum_list_le) (use ls in \<open>auto simp: sixteen_ok_def list_all_iff is_u32_def\<close>)
  then have bound: "column_sum (ls @ [c]) < 15 * 2 ^ 32" using ls c by (simp add: sixteen_ok_def)
  have "implements (add_many_u32 (ls @ [c])) (u32_halves (column_sum (ls @ [c])))"
    using ls c bound by (intro implements_add_many_u32) (auto simp: sixteen_ok_def is_u32_def)
  then show "implements (multiple_step ls c) (\<lambda>r. is_u32 (fst r) \<and> uval (snd r) \<le> 14
      \<and> int (uval (fst r)) + 2 ^ 32 * int (uval (snd r)) = int (column_sum ls) + int (uval c))"
    unfolding multiple_step_def
  proof (rule implements_weaken)
    fix r assume r: "u32_halves (column_sum (ls @ [c])) r"
    then have "uval (fst r) + 2 ^ 32 * uval (snd r) < 15 * 2 ^ 32" using bound by (simp only: u32_halves_def)
    then have "uval (snd r) \<le> 14" by simp
    moreover have "int (uval (fst r) + 2 ^ 32 * uval (snd r)) = int (column_sum (ls @ [c]))"
      using r by (simp only: u32_halves_def)
    ultimately show "is_u32 (fst r) \<and> uval (snd r) \<le> 14
        \<and> int (uval (fst r)) + 2 ^ 32 * int (uval (snd r)) = int (column_sum ls) + int (uval c)"
      using r by (simp add: u32_halves_def)
  qed
qed

abbreviation sum_bnat :: "biguint list \<Rightarrow> nat" where
  "sum_bnat ts \<equiv> (\<Sum>t\<leftarrow>ts. bnat t)"

lemma le_value_sum_lists:
  fixes f :: "'a \<Rightarrow> nat \<Rightarrow> nat"
  shows "le_value B (map (\<lambda>i. \<Sum>j\<leftarrow>js. f j i) is) = (\<Sum>j\<leftarrow>js. le_value B (map (f j) is))"
proof (induction js)
  case (Cons j js)
  then show ?case by (simp add: le_value_add)
qed (simp add: map_replicate_const)

lemma partial_limbs_sum: "length chunk \<le> 15 \<Longrightarrow> column_sum (partial_limbs chunk i) = (\<Sum>t\<leftarrow>chunk. uval (limb_or_zero t i))"
proof -
  assume len: "length chunk \<le> 15"
  have "partial_limbs chunk i = map (\<lambda>t. limb_or_zero t i) chunk @ replicate (15 - length chunk) zero_u32"
    by (rule nth_equalityI) (use len in \<open>auto simp: partial_limbs_def nth_append simp del: upt_rec_numeral\<close>)
  then show ?thesis by (simp add: comp_def sum_list_replicate)
qed

lemma limb_or_zero_value:
  "length t \<le> n \<Longrightarrow> le_value (2 ^ 32) (map (\<lambda>i. uval (limb_or_zero t i)) [0..<n]) = bnat t"
proof -
  assume len: "length t \<le> n"
  have "int (le_value (2 ^ 32) (map (\<lambda>i. uval (limb_or_zero t i)) [0..<n])) = int (bnat t)"
    using le_value_limbs [of t n] len of_nat_le_value [of "2 ^ 32" "map (\<lambda>i. uval (limb_or_zero t i)) [0..<n]", where 'a = int]
    by (simp add: comp_def)
  then show ?thesis by (simp only: of_nat_eq_iff)
qed

lemma realises_sum_chunk:
  assumes "\<forall>t\<in>set chunk. limbs_ok t \<and> length t \<le> n" "length chunk \<le> 15"
  shows "realises (sum_chunk n chunk) (sum_bnat chunk < 2 ^ (32 * n)) (\<lambda>r. big r n (sum_bnat chunk))"
proof -
  let ?items = "map (partial_limbs chunk) [0..<n]"
  have fits: "\<forall>t\<in>set chunk. length t \<le> n" using assms(1) by blast
  have ok: "list_all sixteen_ok ?items"
    using assms limb_or_zero_ok by (auto simp: list_all_iff sixteen_ok_def partial_limbs_def simp del: upt_rec_numeral)
  have "le_value (2 ^ 32) (map (\<lambda>ls. column_sum ls) ?items) = (\<Sum>t\<leftarrow>chunk. le_value (2 ^ 32) (map (\<lambda>i. uval (limb_or_zero t i)) [0..<n]))"
    by (simp only: map_map comp_def partial_limbs_sum [OF assms(2)] le_value_sum_lists)
  also have "\<dots> = sum_bnat chunk"
    by (rule arg_cong [of _ _ sum_list], rule map_cong [OF refl], rule limb_or_zero_value) (use fits in blast)
  finally have val: "le_value (2 ^ 32) (map (\<lambda>ls. int (column_sum ls)) ?items) = int (sum_bnat chunk)"
    using of_nat_le_value [of "2 ^ 32" "map (\<lambda>ls. column_sum ls) ?items", where 'a = int] by (simp add: comp_def)
  have loop: "implements (carry_loop multiple_step ?items zero_u32)
      (\<lambda>(ls, c). limbs_ok ls \<and> length ls = n \<and> bnat ls + 2 ^ (32 * n) * uval c = sum_bnat chunk)"
  proof (rule implements_weaken [OF multiple.implements_loop [OF ok]], unfold split_paired_all prod.case)
    fix ls c assume r: "multiple.loop_result ?items zero_u32 (ls, c)"
    have "int (bnat ls + 2 ^ (32 * n) * uval c) = int (sum_bnat chunk)"
      using r val by (simp add: multiple.loop_result_def comp_def)
    then have "bnat ls + 2 ^ (32 * n) * uval c = sum_bnat chunk" by (simp only: of_nat_eq_iff)
    with r show "limbs_ok ls \<and> length ls = n \<and> bnat ls + 2 ^ (32 * n) * uval c = sum_bnat chunk"
      by (simp add: multiple.loop_result_def)
  qed simp
  have "realises (circ_bind (carry_loop multiple_step ?items zero_u32)
      (\<lambda>(combined_limbs, carry). circ_bind (assert_zero_u32 carry) (\<lambda>_. circ_return combined_limbs)))
      (sum_bnat chunk < 2 ^ (32 * n)) (\<lambda>r. big r n (sum_bnat chunk))"
  proof (rule realises_after [OF loop], unfold split_paired_all prod.case)
    fix ls c assume r: "limbs_ok ls \<and> length ls = n \<and> bnat ls + 2 ^ (32 * n) * uval c = sum_bnat chunk"
    have fits: "sum_bnat chunk < 2 ^ (32 * n) \<longleftrightarrow> uval c = 0"
      using digit_less_iff [of "bnat ls" "2 ^ (32 * n)" "uval c" 1] bnat_bound [of ls] r by simp
    show "realises (circ_bind (assert_zero_u32 c) (\<lambda>_. circ_return ls)) (sum_bnat chunk < 2 ^ (32 * n)) (\<lambda>r. big r n (sum_bnat chunk))"
      unfolding fits assert_zero_u32_def
      by (rule realises_then_return [OF realises_assert_zero]) (use r in \<open>simp add: big_def\<close>)
  qed
  then show ?thesis
    unfolding sum_chunk_def by (rule realises_after [OF implements_panic [OF fits]])
qed

lemma sum_bnat_concat: "sum_bnat (concat cs) = (\<Sum>c\<leftarrow>cs. sum_bnat c)"
  by (induction cs) simp_all

lemma realises_add_multiple_fuel:
  "ts \<noteq> [] \<Longrightarrow> length ts \<le> fuel \<Longrightarrow> \<forall>t\<in>set ts. limbs_ok t \<and> length t \<le> n \<Longrightarrow>
    realises (add_multiple_fuel fuel ts n) (length ts = 1 \<or> sum_bnat ts < 2 ^ (32 * n))
      (\<lambda>r. limbs_ok r \<and> length r \<le> n \<and> bnat r = sum_bnat ts)"
proof (induction fuel arbitrary: ts)
  case (Suc fuel)
  show ?case
  proof (cases "length ts = 1")
    case True
    then obtain t where "ts = [t]" by (auto simp: length_Suc_conv)
    then show ?thesis using Suc.prems by (simp add: realises_return)
  next
    case False
    then have len: "2 \<le> length ts" using Suc.prems(1) by (cases ts; cases "tl ts") auto
    let ?cs = "chunks15 ts"
    have mem: "t \<in> set ts" if "c \<in> set ?cs" "t \<in> set c" for c t
      using that arg_cong [OF chunks15_props(1) [of ts], of set] by auto
    have "realises (circ_map (sum_chunk n) ?cs) (\<forall>c\<in>set ?cs. sum_bnat c < 2 ^ (32 * n))
        (\<lambda>rs. list_all2 (\<lambda>c r. big r n (sum_bnat c)) ?cs rs)"
      using chunks15_props(2) Suc.prems(3) mem by (intro realises_circ_map realises_sum_chunk) blast+
    then have "realises (add_multiple_fuel (Suc fuel) ts n)
        ((\<forall>c\<in>set ?cs. sum_bnat c < 2 ^ (32 * n)) \<and> (length ?cs = 1 \<or> sum_bnat ts < 2 ^ (32 * n)))
        (\<lambda>r. limbs_ok r \<and> length r \<le> n \<and> bnat r = sum_bnat ts)"
      unfolding add_multiple_fuel.simps if_not_P [OF False]
    proof (rule realises_bind)
      fix rs assume rs: "list_all2 (\<lambda>c r. big r n (sum_bnat c)) ?cs rs"
      then have "map bnat rs = map sum_bnat ?cs" by (induction rule: list_all2_induct) (simp_all add: big_def)
      then have sum: "sum_bnat rs = sum_bnat ts"
        using sum_bnat_concat [of ?cs] by (simp add: chunks15_props(1))
      have "length rs = length ?cs" using list_all2_lengthD [OF rs] by simp
      moreover have "\<forall>t\<in>set rs. limbs_ok t \<and> length t \<le> n"
        using rs by (auto simp: list_all2_conv_all_nth in_set_conv_nth big_def)
      ultimately show "realises (add_multiple_fuel fuel rs n) (length ?cs = 1 \<or> sum_bnat ts < 2 ^ (32 * n))
          (\<lambda>r. limbs_ok r \<and> length r \<le> n \<and> bnat r = sum_bnat ts)"
        using Suc.IH [of rs] chunks15_props(3) [OF len] chunks15_props(4) [OF Suc.prems(1)] Suc.prems(2)
        unfolding sum by force
    qed
    moreover have "(\<forall>c\<in>set ?cs. sum_bnat c < 2 ^ (32 * n)) \<and> (length ?cs = 1 \<or> sum_bnat ts < 2 ^ (32 * n)) \<longleftrightarrow> sum_bnat ts < 2 ^ (32 * n)"
    proof -
      have total: "sum_bnat ts = (\<Sum>c\<leftarrow>?cs. sum_bnat c)"
        using sum_bnat_concat [of ?cs] by (simp add: chunks15_props(1))
      have each: "sum_bnat c \<le> sum_bnat ts" if "c \<in> set ?cs" for c
        unfolding total using that by (intro member_le_sum_list) simp_all
      have single: "sum_bnat ts = sum_bnat (hd ?cs) \<and> hd ?cs \<in> set ?cs" if "length ?cs = 1"
        unfolding total using that by (auto simp: length_Suc_conv)
      show ?thesis
      proof
        assume "(\<forall>c\<in>set ?cs. sum_bnat c < 2 ^ (32 * n)) \<and> (length ?cs = 1 \<or> sum_bnat ts < 2 ^ (32 * n))"
        then show "sum_bnat ts < 2 ^ (32 * n)" using single by auto
      next
        assume "sum_bnat ts < 2 ^ (32 * n)"
        then show "(\<forall>c\<in>set ?cs. sum_bnat c < 2 ^ (32 * n)) \<and> (length ?cs = 1 \<or> sum_bnat ts < 2 ^ (32 * n))"
          using each le_less_trans by blast
      qed
    qed
    ultimately show ?thesis using False by simp
  qed
qed simp

lemma realises_add_biguint_multiple:
  assumes "ts \<noteq> []" "\<forall>t\<in>set ts. limbs_ok t \<and> length t \<le> n"
  shows "realises (add_biguint_multiple ts n) (length ts = 1 \<or> sum_bnat ts < 2 ^ (32 * n))
    (\<lambda>r. limbs_ok r \<and> length r \<le> n \<and> bnat r = sum_bnat ts)"
  unfolding add_biguint_multiple_def using realises_add_multiple_fuel [OF assms(1) order_refl assms(2)] .

section \<open>Properties\<close>

text \<open>
  Multiplication is exact as long as one factor has at most eight limbs: no column of limb products
  exceeds what the add-many gate can carry, the final carry is zero and the limbs denote the product.
  \<open>mul_biguint_non_carry\<close> is satisfiable exactly when the product fits the requested limbs.
\<close>

theorem mul_biguint_correct:
  assumes "limbs_ok a" "limbs_ok b" "min (length a) (length b) \<le> 8"
  shows "implements (mul_biguint a b) (\<lambda>r. big r (Suc (length a + length b)) (bnat a * bnat b))
    \<and> realises (mul_biguint_non_carry a b n) (max (length a) (length b) \<le> n \<and> bnat a * bnat b < 2 ^ (32 * n))
        (\<lambda>r. big r (min n (length a + length b)) (bnat a * bnat b))"
  using implements_mul_biguint [OF assms] realises_mul_biguint_non_carry [OF assms] by blast

theorem mul_biguint_correct_witness:
  "implements (mul_biguint [Wire 4294967295, Wire 1] [Wire 4294967295]) (\<lambda>r. big r (Suc (Suc (Suc (Suc 0)))) 36893488134534201345)"
  using mul_biguint_correct [of "[Wire 4294967295, Wire 1]" "[Wire 4294967295]" 3]
  by (simp add: is_u32_def bnat_Cons)

text \<open>
  The tree of fifteen-fold sums is equivalent to one exact sum: for any positive number of integers
  \<open>add_biguint_multiple\<close> is satisfiable exactly when the total fits, and then returns the total; the
  recursion ends.
\<close>

theorem add_biguint_multiple_correct:
  assumes "ts \<noteq> []" "list_all (\<lambda>t. limbs_ok t \<and> length t \<le> n) ts"
  shows "realises (add_biguint_multiple ts n) (length ts = 1 \<or> (\<Sum>t\<leftarrow>ts. bnat t) < 2 ^ (32 * n))
    (\<lambda>r. limbs_ok r \<and> length r \<le> n \<and> bnat r = (\<Sum>t\<leftarrow>ts. bnat t))"
  using realises_add_biguint_multiple [OF assms(1)] assms(2) by (simp add: list_all_iff)

theorem add_biguint_multiple_correct_witness:
  "implements (add_biguint_multiple (replicate 300 [Wire 4294967295]) 2) (\<lambda>r. bnat r = 1288490188500)
   \<and> unsatisfiable (add_biguint_multiple [[Wire 4294967295], [Wire 1]] 1)"
proof -
  have "realises (add_biguint_multiple (replicate 300 [Wire 4294967295]) 2)
      (length (replicate 300 [Wire 4294967295]) = 1 \<or> (\<Sum>t\<leftarrow>replicate 300 [Wire 4294967295]. bnat t) < 2 ^ (32 * 2))
      (\<lambda>r. limbs_ok r \<and> length r \<le> 2 \<and> bnat r = (\<Sum>t\<leftarrow>replicate 300 [Wire 4294967295]. bnat t))"
    by (rule add_biguint_multiple_correct) (simp_all add: list_all_iff is_u32_def)
  then have "implements (add_biguint_multiple (replicate 300 [Wire 4294967295]) 2) (\<lambda>r. bnat r = 1288490188500)"
    by (simp add: realises_def sum_list_replicate) (erule implements_weaken, simp)
  moreover have "unsatisfiable (add_biguint_multiple [[Wire 4294967295], [Wire 1]] 1)"
    using add_biguint_multiple_correct [of "[[Wire 4294967295], [Wire 1]]" 1] by (simp add: is_u32_def realises_def)
  ultimately show ?thesis by blast
qed

end
