(* ===== verification/Biguint_Compare.thy ===== *)
theory Biguint_Compare
  imports Biguint_Mul
begin

text \<open>
  Comparison and division of multi-limb integers (\<open>circuit/src/bigint/comparison.rs\<close> and
  \<open>circuit/src/bigint/div_rem.rs\<close>). Comparison reads the borrow of a subtraction. Division lets the
  prover choose quotient and remainder and constrains them; the contract shows that the constraints
  leave exactly one choice, also for a zero divisor and for a trimmed quotient.
\<close>

section \<open>Comparison\<close>

text \<open>\<open>sval t s\<close>: the \<open>SignTarget\<close> \<open>t\<close> holds the sign of \<open>s\<close>.\<close>

definition sval :: "target \<Rightarrow> int \<Rightarrow> bool" where
  "sval t s \<longleftrightarrow> tval t = of_int (sgn s)"

definition cmp_biguint :: "biguint \<Rightarrow> biguint \<Rightarrow> target circ" where
  "cmp_biguint a b =
    circ_bind (try_sub_biguint a b) (\<lambda>(_, b_gt_a).
    circ_bind (try_sub_biguint b a) (\<lambda>(_, a_gt_b).
    circ_return (b_sub a_gt_b b_gt_a)))"

definition is_lte_biguint :: "biguint \<Rightarrow> biguint \<Rightarrow> target circ" where
  "is_lte_biguint a b = circ_bind (try_sub_biguint b a) (\<lambda>(_, a_gt_b). circ_return (b_not a_gt_b))"

definition is_gte_biguint :: "biguint \<Rightarrow> biguint \<Rightarrow> target circ" where
  "is_gte_biguint a b = is_lte_biguint b a"

definition is_lt_biguint :: "biguint \<Rightarrow> biguint \<Rightarrow> target circ" where
  "is_lt_biguint a b = circ_bind (is_gte_biguint a b) (\<lambda>a_gte_b. circ_return (b_not a_gte_b))"

definition is_gt_biguint :: "biguint \<Rightarrow> biguint \<Rightarrow> target circ" where
  "is_gt_biguint a b = circ_bind (is_lte_biguint a b) (\<lambda>a_lte_b. circ_return (b_not a_lte_b))"

definition conditional_assert_lt_biguint :: "target \<Rightarrow> biguint \<Rightarrow> biguint \<Rightarrow> unit circ" where
  "conditional_assert_lt_biguint is_enabled a b =
    circ_bind (is_gte_biguint a b) (\<lambda>a_gte_b. assert_false (b_and is_enabled a_gte_b))"

definition conditional_assert_lte_biguint :: "target \<Rightarrow> biguint \<Rightarrow> biguint \<Rightarrow> unit circ" where
  "conditional_assert_lte_biguint is_enabled a b =
    circ_bind (is_lte_biguint a b) (\<lambda>a_lte_b. assert_false (b_and is_enabled (b_not a_lte_b)))"

definition max_biguint :: "biguint \<Rightarrow> biguint \<Rightarrow> biguint circ" where
  "max_biguint a b = circ_bind (is_lte_biguint a b) (\<lambda>cmp. circ_return (select_biguint cmp b a))"

definition min_biguint :: "biguint \<Rightarrow> biguint \<Rightarrow> biguint circ" where
  "min_biguint a b = circ_bind (is_lte_biguint a b) (\<lambda>cmp. circ_return (select_biguint cmp a b))"

text \<open>The loops over \<open>targets[1..]\<close>; indexing an empty slice panics.\<close>

primrec fold_biguint :: "(biguint \<Rightarrow> biguint \<Rightarrow> biguint circ) \<Rightarrow> biguint \<Rightarrow> biguint list \<Rightarrow> biguint circ" where
  "fold_biguint f acc [] = circ_return acc"
| "fold_biguint f acc (t # ts) = circ_bind (f acc t) (\<lambda>r. fold_biguint f r ts)"

definition max_biguint_multiple :: "biguint list \<Rightarrow> biguint circ" where
  "max_biguint_multiple targets =
    circ_bind (circ_panic_unless (targets \<noteq> [])) (\<lambda>_. fold_biguint max_biguint (hd targets) (tl targets))"

definition min_biguint_multiple :: "biguint list \<Rightarrow> biguint circ" where
  "min_biguint_multiple targets =
    circ_bind (circ_panic_unless (targets \<noteq> [])) (\<lambda>_. fold_biguint min_biguint (hd targets) (tl targets))"

definition conditional_assert_zero_biguint :: "target \<Rightarrow> biguint \<Rightarrow> unit circ" where
  "conditional_assert_zero_biguint is_enabled a = assert_zero_biguint (mul_biguint_by_bool a is_enabled)"

definition conditional_assert_not_zero_biguint :: "target \<Rightarrow> biguint \<Rightarrow> unit circ" where
  "conditional_assert_not_zero_biguint is_enabled a =
    circ_bind (is_zero_biguint a) (\<lambda>is_zero. assert_false (b_and is_enabled is_zero))"

definition conditional_assert_eq_biguint :: "target \<Rightarrow> biguint \<Rightarrow> biguint \<Rightarrow> unit circ" where
  "conditional_assert_eq_biguint is_enabled a b =
    connect_biguint (select_biguint is_enabled a zero_biguint) (select_biguint is_enabled b zero_biguint)"

lemma sval_cmp:
  "bval t a \<Longrightarrow> bval u b \<Longrightarrow> \<not> (a \<and> b) \<Longrightarrow> sval (b_sub t u) (if a then 1 else if b then -1 else 0)"
  by (auto simp: sval_def bval_def tval_simps)

lemma implements_cmp_biguint:
  assumes "limbs_ok a" "limbs_ok b"
  shows "implements (cmp_biguint a b) (\<lambda>r. sval r (int (bnat a) - int (bnat b)))"
  unfolding cmp_biguint_def
proof (rule implements_bind [OF implements_try_sub_biguint [OF assms]], unfold split_paired_all prod.case,
    rule implements_bind [OF implements_try_sub_biguint [OF assms(2,1)]], unfold split_paired_all prod.case,
    rule implements_return, elim conjE)
  fix lt gt assume lt: "bval lt (bnat a < bnat b)" and gt: "bval gt (bnat b < bnat a)"
  have "\<not> (bnat b < bnat a \<and> bnat a < bnat b)" by simp
  from sval_cmp [OF gt lt this] show "sval (b_sub gt lt) (int (bnat a) - int (bnat b))"
    by (auto simp: sval_def sgn_if split: if_splits)
qed

lemma implements_is_lte_biguint:
  assumes "limbs_ok a" "limbs_ok b"
  shows "implements (is_lte_biguint a b) (\<lambda>r. bval r (bnat a \<le> bnat b))"
  unfolding is_lte_biguint_def
  by (rule implements_bind [OF implements_try_sub_biguint [OF assms(2,1)]], unfold split_paired_all prod.case, rule implements_return)
    (use bval_not in \<open>auto simp: not_less [symmetric]\<close>)

lemma implements_is_gte_biguint:
  "limbs_ok a \<Longrightarrow> limbs_ok b \<Longrightarrow> implements (is_gte_biguint a b) (\<lambda>r. bval r (bnat b \<le> bnat a))"
  unfolding is_gte_biguint_def by (rule implements_is_lte_biguint)

lemma implements_is_lt_biguint:
  "limbs_ok a \<Longrightarrow> limbs_ok b \<Longrightarrow> implements (is_lt_biguint a b) (\<lambda>r. bval r (bnat a < bnat b))"
  unfolding is_lt_biguint_def not_le [symmetric]
  by (rule implements_bind [OF implements_is_gte_biguint]) (auto intro!: implements_return bval_not)

lemma implements_is_gt_biguint:
  "limbs_ok a \<Longrightarrow> limbs_ok b \<Longrightarrow> implements (is_gt_biguint a b) (\<lambda>r. bval r (bnat b < bnat a))"
  unfolding is_gt_biguint_def not_le [symmetric]
  by (rule implements_bind [OF implements_is_lte_biguint]) (auto intro!: implements_return bval_not)

lemma realises_conditional_assert_lt_biguint:
  assumes "bval c v" "limbs_ok a" "limbs_ok b"
  shows "realises (conditional_assert_lt_biguint c a b) (v \<longrightarrow> bnat a < bnat b) (\<lambda>_. True)"
  unfolding conditional_assert_lt_biguint_def
  by (rule realises_after [OF implements_is_gte_biguint [OF assms(2,3)]])
    (auto intro!: realises_weaken [OF realises_assert_false [OF bval_and [OF assms(1)]]])

lemma realises_conditional_assert_lte_biguint:
  assumes "bval c v" "limbs_ok a" "limbs_ok b"
  shows "realises (conditional_assert_lte_biguint c a b) (v \<longrightarrow> bnat a \<le> bnat b) (\<lambda>_. True)"
  unfolding conditional_assert_lte_biguint_def
  by (rule realises_after [OF implements_is_lte_biguint [OF assms(2,3)]])
    (auto intro!: realises_weaken [OF realises_assert_false [OF bval_and [OF assms(1) bval_not]]])

lemma implements_max_biguint:
  assumes "limbs_ok a" "limbs_ok b"
  shows "implements (max_biguint a b) (\<lambda>r. big r (max (length a) (length b)) (max (bnat a) (bnat b)))"
  unfolding max_biguint_def
proof (rule implements_bind [OF implements_is_lte_biguint [OF assms]], rule implements_return)
  fix c assume "bval c (bnat a \<le> bnat b)"
  from select_biguint_big [OF this assms(2,1)]
  show "big (select_biguint c b a) (max (length a) (length b)) (max (bnat a) (bnat b))" by (simp only: max_def [of "bnat a"] max.commute)
qed

lemma implements_min_biguint:
  assumes "limbs_ok a" "limbs_ok b"
  shows "implements (min_biguint a b) (\<lambda>r. big r (max (length a) (length b)) (min (bnat a) (bnat b)))"
  unfolding min_biguint_def
proof (rule implements_bind [OF implements_is_lte_biguint [OF assms]], rule implements_return)
  fix c assume "bval c (bnat a \<le> bnat b)"
  from select_biguint_big [OF this assms]
  show "big (select_biguint c a b) (max (length a) (length b)) (min (bnat a) (bnat b))" by (simp only: min_def [of "bnat a"])
qed

lemma implements_fold_biguint:
  assumes step: "\<And>a b. limbs_ok a \<Longrightarrow> limbs_ok b \<Longrightarrow> implements (f a b) (\<lambda>r. limbs_ok r \<and> bnat r = g (bnat a) (bnat b))"
    and "limbs_ok acc" "list_all limbs_ok ts"
  shows "implements (fold_biguint f acc ts) (\<lambda>r. limbs_ok r \<and> bnat r = foldl g (bnat acc) (map bnat ts))"
  using assms(2,3)
proof (induction ts arbitrary: acc)
  case (Cons t ts)
  then show ?case
    unfolding fold_biguint.simps
    by (intro implements_bind [OF step]) (auto intro: implements_weaken [OF Cons.IH])
qed (simp add: implements_return)

lemma foldl_max: "foldl max a xs = Max (set (a # xs))" for a :: nat
proof (induction xs rule: rev_induct)
  case (snoc x xs)
  then show ?case by (simp add: insert_commute [of a x] max.commute)
qed simp

lemma foldl_min: "foldl min a xs = Min (set (a # xs))" for a :: nat
proof (induction xs rule: rev_induct)
  case (snoc x xs)
  then show ?case by (simp add: insert_commute [of a x] min.commute)
qed simp

lemma implements_max_min_multiple:
  assumes "list_all limbs_ok ts" "ts \<noteq> []"
  shows "implements (max_biguint_multiple ts) (\<lambda>r. limbs_ok r \<and> bnat r = Max (bnat ` set ts))"
    and "implements (min_biguint_multiple ts) (\<lambda>r. limbs_ok r \<and> bnat r = Min (bnat ` set ts))"
proof -
  obtain t us where ts: "ts = t # us" using assms(2) by (cases ts) auto
  have ok: "limbs_ok t" "list_all limbs_ok us" using assms(1) ts by auto
  have mx: "implements (max_biguint a b) (\<lambda>r. limbs_ok r \<and> bnat r = max (bnat a) (bnat b))"
    and mn: "implements (min_biguint a b) (\<lambda>r. limbs_ok r \<and> bnat r = min (bnat a) (bnat b))"
    if "limbs_ok a" "limbs_ok b" for a b
    using implements_weaken [OF implements_max_biguint [OF that]] implements_weaken [OF implements_min_biguint [OF that]]
    by (simp_all add: big_def)
  show "implements (max_biguint_multiple ts) (\<lambda>r. limbs_ok r \<and> bnat r = Max (bnat ` set ts))"
    unfolding max_biguint_multiple_def
    by (rule implements_bind [OF implements_panic [OF assms(2)]])
      (use implements_fold_biguint [where f = max_biguint and g = max, OF mx ok] in \<open>simp add: ts foldl_max\<close>)
  show "implements (min_biguint_multiple ts) (\<lambda>r. limbs_ok r \<and> bnat r = Min (bnat ` set ts))"
    unfolding min_biguint_multiple_def
    by (rule implements_bind [OF implements_panic [OF assms(2)]])
      (use implements_fold_biguint [where f = min_biguint and g = min, OF mn ok] in \<open>simp add: ts foldl_min\<close>)
qed

lemma realises_conditional_assert_zero_biguint:
  assumes "bval c v" "limbs_ok a"
  shows "realises (conditional_assert_zero_biguint c a) (v \<longrightarrow> bnat a = 0) (\<lambda>_. True)"
  unfolding conditional_assert_zero_biguint_def
  by (rule realises_weaken [OF realises_assert_zero_biguint])
    (use mul_biguint_by_bool_big [OF assms] in \<open>auto simp: big_def\<close>)

lemma realises_conditional_assert_not_zero_biguint:
  assumes "bval c v"
  shows "realises (conditional_assert_not_zero_biguint c a) (v \<longrightarrow> bnat a \<noteq> 0) (\<lambda>_. True)"
  unfolding conditional_assert_not_zero_biguint_def
  by (rule realises_after [OF implements_is_zero_biguint])
    (auto intro!: realises_weaken [OF realises_assert_false [OF bval_and [OF assms]]])

lemma realises_conditional_assert_eq_biguint:
  assumes "bval c v" "limbs_ok a" "limbs_ok b"
  shows "realises (conditional_assert_eq_biguint c a b) (v \<longrightarrow> bnat a = bnat b) (\<lambda>_. True)"
proof -
  have "big (select_biguint c x zero_biguint) (length x) (if v then bnat x else 0)" if "limbs_ok x" for x
    using select_biguint_big [OF assms(1) that zero_one_biguint(2)] by (simp only: zero_one_biguint max_0R)
  from this [OF assms(2)] this [OF assms(3)] show ?thesis
    unfolding conditional_assert_eq_biguint_def
    by (intro realises_weaken [OF realises_connect_biguint]) (auto simp: big_def)
qed

section \<open>Division\<close>

definition div_rem_biguint_trimmed :: "biguint \<Rightarrow> biguint \<Rightarrow> nat \<Rightarrow> (biguint \<times> biguint) circ" where
  "div_rem_biguint_trimmed a b quotient_num_limbs =
    circ_bind (circ_panic_unless (quotient_num_limbs \<le> length a)) (\<lambda>_.
    circ_bind (add_virtual_biguint_target_safe quotient_num_limbs) (\<lambda>quot.
    circ_bind (add_virtual_biguint_target_safe (length b)) (\<lambda>rem.
    circ_bind (is_zero_biguint b) (\<lambda>is_div_by_zero.
    let is_not_div_by_zero = b_not is_div_by_zero in
    circ_bind (conditional_assert_zero_biguint is_div_by_zero quot) (\<lambda>_.
    circ_bind (conditional_assert_zero_biguint is_div_by_zero rem) (\<lambda>_.
    circ_bind (mul_biguint quot b) (\<lambda>div_b.
    circ_bind (add_biguint div_b rem) (\<lambda>div_b_plus_rem.
    circ_bind (conditional_assert_eq_biguint is_not_div_by_zero a div_b_plus_rem) (\<lambda>_.
    circ_bind (conditional_assert_lt_biguint is_not_div_by_zero rem b) (\<lambda>_.
    circ_return (quot, rem)))))))))))"

definition div_rem_biguint :: "biguint \<Rightarrow> biguint \<Rightarrow> (biguint \<times> biguint) circ" where
  "div_rem_biguint a b = div_rem_biguint_trimmed a b (length a)"

definition div_biguint :: "biguint \<Rightarrow> biguint \<Rightarrow> biguint circ" where
  "div_biguint a b = circ_bind (div_rem_biguint a b) (\<lambda>(quot, _). circ_return quot)"

definition div_biguint_trimmed :: "biguint \<Rightarrow> biguint \<Rightarrow> nat \<Rightarrow> biguint circ" where
  "div_biguint_trimmed a b quotient_num_limbs =
    circ_bind (div_rem_biguint_trimmed a b quotient_num_limbs) (\<lambda>(quot, _). circ_return quot)"

definition rem_biguint :: "biguint \<Rightarrow> biguint \<Rightarrow> biguint circ" where
  "rem_biguint a b = circ_bind (div_rem_biguint a b) (\<lambda>(_, rem). circ_return rem)"

definition ceil_div_biguint :: "biguint \<Rightarrow> biguint \<Rightarrow> biguint circ" where
  "ceil_div_biguint a b =
    circ_bind (div_rem_biguint a b) (\<lambda>(quot, rem).
    circ_bind (is_zero_biguint rem) (\<lambda>is_zero_rem.
    circ_bind (add_biguint quot one_biguint) (\<lambda>div_plus_one.
    circ_return (select_biguint is_zero_rem quot div_plus_one))))"

text \<open>\<open>BigUintDivRemGenerator\<close>: the quotient and remainder the honest prover fills in.\<close>

definition biguint_div_rem_generator :: "nat \<Rightarrow> nat \<Rightarrow> nat \<times> nat" where
  "biguint_div_rem_generator a b = (if b = 0 then (0, 0) else (a div b, a mod b))"

lemma sound_virtual_limbs: "sound (add_virtual_biguint_target_safe n) (\<lambda>r. limbs_ok r \<and> length r = n)"
  unfolding add_virtual_biguint_target_safe_def add_virtual_u32_targets_safe_def
proof (rule sound_bind [OF sound_add_virtual_targets], rule sound_bind)
  show "sound (circ_for ts (\<lambda>t. register_range_check t 32)) (\<lambda>_. \<forall>t\<in>set ts. uval t < 2 ^ 32)" for ts
    by (rule sound_for, rule sound_weaken [OF realises_sound [OF realises_register_range_check]]) simp_all
qed (auto intro!: sound_return simp: limbs_ok_def list_all_iff is_u32_def)

lemma complete_virtual_limbs:
  assumes "v < 2 ^ (32 * n)"
  shows "complete (add_virtual_biguint_target_safe n) (\<lambda>r. big r n v)"
proof -
  let ?ds = "le_digits (2 ^ 32) n v"
  let ?vs = "map of_nat ?ds :: gf list"
  have lt: "d < 2 ^ 32" if "d \<in> set ?ds" for d using le_digits_lt that by simp
  have digit: "uval (Wire (of_nat d)) = d" if "d \<in> set ?ds" for d
    using lt [OF that] by simp
  then have val: "map uval (map Wire ?vs) = ?ds" by (simp only: map_map comp_def map_idI)
  have "is_u32 (Wire (of_nat d))" if "d \<in> set ?ds" for d
    using lt [OF that] digit [OF that] by (simp only: is_u32_def)
  then have ok: "limbs_ok (map Wire ?vs)" unfolding limbs_ok_def list_all_iff list.set_map ball_simps image_image by blast
  have big: "big (map Wire ?vs) n v"
    using ok val assms by (simp add: big_def bnat_def le_value_digits power_mult)
  have "complete (circ_bind (add_virtual_targets (length ?vs)) (\<lambda>targets.
      circ_bind (circ_for targets (\<lambda>target. register_range_check target 32)) (\<lambda>_. circ_return targets))) (\<lambda>r. big r n v)"
  proof (rule complete_bind [OF complete_add_virtual_targets], rule complete_bind)
    fix ts assume ts: "ts = map Wire ?vs"
    show "complete (circ_for ts (\<lambda>t. register_range_check t 32)) (\<lambda>_. True)"
      by (rule implements_complete, rule implements_for, rule realises_implements [OF realises_register_range_check])
        (use ok ts in \<open>auto simp: limbs_ok_def list_all_iff is_u32_def\<close>)
    show "complete (circ_return ts) (\<lambda>r. big r n v)" by (rule complete_return) (use ts big in simp)
  qed
  then show ?thesis by (simp add: add_virtual_biguint_target_safe_def add_virtual_u32_targets_safe_def)
qed

text \<open>The equation and the bound leave one quotient and one remainder.\<close>

lemma div_rem_unique:
  "(b = 0 \<longrightarrow> q = 0) \<and> (b = 0 \<longrightarrow> r = 0) \<and> (b \<noteq> 0 \<longrightarrow> a = q * b + r) \<and> (b \<noteq> 0 \<longrightarrow> r < b)
   \<longleftrightarrow> q = a div b \<and> r = (if b = 0 then 0 else a mod b)" for a :: nat
  by auto

lemma realises_div_rem_biguint_trimmed:
  assumes ok: "limbs_ok a" "limbs_ok b" and small: "min n (length b) \<le> 8"
  shows "realises (div_rem_biguint_trimmed a b n) (n \<le> length a \<and> bnat a div bnat b < 2 ^ (32 * n))
    (\<lambda>(q, r). big q n (bnat a div bnat b) \<and> big r (length b) (if bnat b = 0 then 0 else bnat a mod bnat b))"
    (is "realises _ (_ \<and> ?fits) ?Q")
  unfolding div_rem_biguint_trimmed_def
proof (rule realises_bind [OF realises_panic], rule realises_choose [OF sound_virtual_limbs])
  let ?q = "bnat a div bnat b" and ?r = "if bnat b = 0 then 0 else bnat a mod bnat b"
  show "complete (add_virtual_biguint_target_safe n) (\<lambda>x. (limbs_ok x \<and> length x = n) \<and> bnat x = ?q)" if ?fits
    by (rule complete_weaken [OF complete_virtual_limbs [OF that]]) (simp add: big_def)
  fix q assume q: "limbs_ok q \<and> length q = n"
  then show "?fits" if "bnat q = ?q" using that bnat_bound [of q] by simp
  let ?rest = "\<lambda>rem. circ_bind (is_zero_biguint b) (\<lambda>is_div_by_zero.
    let is_not_div_by_zero = b_not is_div_by_zero in
    circ_bind (conditional_assert_zero_biguint is_div_by_zero q) (\<lambda>_.
    circ_bind (conditional_assert_zero_biguint is_div_by_zero rem) (\<lambda>_.
    circ_bind (mul_biguint q b) (\<lambda>div_b.
    circ_bind (add_biguint div_b rem) (\<lambda>div_b_plus_rem.
    circ_bind (conditional_assert_eq_biguint is_not_div_by_zero a div_b_plus_rem) (\<lambda>_.
    circ_bind (conditional_assert_lt_biguint is_not_div_by_zero rem b) (\<lambda>_.
    circ_return (q, rem))))))))"
  show "realises (circ_bind (add_virtual_biguint_target_safe (length b)) ?rest) (bnat q = ?q) ?Q"
  proof (rule realises_choose [OF sound_virtual_limbs])
    have "?r < 2 ^ (32 * length b)"
      using less_trans [OF mod_less_divisor bnat_bound [OF ok(2)]] by simp
    then show "complete (add_virtual_biguint_target_safe (length b))
        (\<lambda>x. (limbs_ok x \<and> length x = length b) \<and> (bnat q = ?q \<and> bnat x = ?r))" if "bnat q = ?q"
      by (rule complete_weaken [OF complete_virtual_limbs]) (use that in \<open>simp add: big_def\<close>)
    fix r assume r: "limbs_ok r \<and> length r = length b"
    show "bnat q = ?q" if "bnat q = ?q \<and> bnat r = ?r" using that by simp
    show "realises (?rest r) (bnat q = ?q \<and> bnat r = ?r) ?Q"
      unfolding div_rem_unique [symmetric] Let_def
    proof (rule realises_after [OF implements_is_zero_biguint], rule realises_bind [OF realises_conditional_assert_zero_biguint],
        assumption, use q in blast, rule realises_bind [OF realises_conditional_assert_zero_biguint], assumption, use r in blast,
        rule realises_after [OF implements_mul_biguint], use q in blast, rule ok(2), use q small in simp,
        rule realises_after [OF implements_add_biguint])
      fix z qb assume z: "bval z (bnat b = 0)" and zero: "bnat b = 0 \<longrightarrow> bnat q = 0" "bnat b = 0 \<longrightarrow> bnat r = 0"
        and qb: "big qb (Suc (length q + length b)) (bnat q * bnat b)"
      show "limbs_ok qb" "limbs_ok r" using qb r by (simp_all add: big_def)
      fix s assume s: "big s (Suc (max (length qb) (length r))) (bnat qb + bnat r)"
      then have ok_s: "limbs_ok s" and val: "bnat s = bnat q * bnat b + bnat r" using qb by (simp_all add: big_def)
      have "limbs_ok r" using r by simp
      note steps = realises_conditional_assert_eq_biguint [OF bval_not [OF z] ok(1) ok_s, unfolded val]
        realises_then_return [OF realises_conditional_assert_lt_biguint [OF bval_not [OF z] \<open>limbs_ok r\<close> ok(2)]]
      show "realises (circ_bind (conditional_assert_eq_biguint (b_not z) a s) (\<lambda>_.
          circ_bind (conditional_assert_lt_biguint (b_not z) r b) (\<lambda>_. circ_return (q, r))))
          ((bnat b \<noteq> 0 \<longrightarrow> bnat a = bnat q * bnat b + bnat r) \<and> (bnat b \<noteq> 0 \<longrightarrow> bnat r < bnat b)) ?Q"
      proof (rule realises_bind [OF steps(1)], rule steps(2))
        assume "bnat b \<noteq> 0 \<longrightarrow> bnat a = bnat q * bnat b + bnat r" "bnat b \<noteq> 0 \<longrightarrow> bnat r < bnat b"
        with zero have "bnat q = ?q \<and> bnat r = ?r" unfolding div_rem_unique [symmetric] by blast
        with q r show "case (q, r) of (q, r) \<Rightarrow> big q n ?q \<and> big r (length b) ?r" by (simp add: big_def)
      qed
    qed
  qed
qed

lemma realises_div_rem_biguint:
  assumes "limbs_ok a" "limbs_ok b" "min (length a) (length b) \<le> 8"
  shows "implements (div_rem_biguint a b)
    (\<lambda>(q, r). big q (length a) (bnat a div bnat b) \<and> big r (length b) (if bnat b = 0 then 0 else bnat a mod bnat b))"
proof -
  have "bnat a div bnat b < 2 ^ (32 * length a)"
    using bnat_bound [OF assms(1)] div_le_dividend [of "bnat a" "bnat b"] by (rule le_less_trans [rotated])
  then show ?thesis
    using realises_implements [OF realises_div_rem_biguint_trimmed [OF assms]] by (simp add: div_rem_biguint_def)
qed

lemma realises_div_biguint_trimmed:
  assumes "limbs_ok a" "limbs_ok b" "min n (length b) \<le> 8"
  shows "realises (div_biguint_trimmed a b n) (n \<le> length a \<and> bnat a div bnat b < 2 ^ (32 * n))
    (\<lambda>q. big q n (bnat a div bnat b))"
  unfolding div_biguint_trimmed_def split_def
  by (rule realises_then_return [OF realises_div_rem_biguint_trimmed [OF assms]]) auto

lemma implements_div_biguint:
  assumes "limbs_ok a" "limbs_ok b" "min (length a) (length b) \<le> 8"
  shows "implements (div_biguint a b) (\<lambda>q. big q (length a) (bnat a div bnat b))"
  unfolding div_biguint_def split_def
  by (rule implements_bind [OF realises_div_rem_biguint [OF assms]], rule implements_return) auto

lemma implements_rem_biguint:
  assumes "limbs_ok a" "limbs_ok b" "min (length a) (length b) \<le> 8"
  shows "implements (rem_biguint a b) (\<lambda>r. big r (length b) (if bnat b = 0 then 0 else bnat a mod bnat b))"
  unfolding rem_biguint_def split_def
  by (rule implements_bind [OF realises_div_rem_biguint [OF assms]], rule implements_return) auto

text \<open>The ceiling of the quotient; a zero divisor gives zero.\<close>

lemma implements_ceil_div_biguint:
  assumes "limbs_ok a" "limbs_ok b" "min (length a) (length b) \<le> 8"
  shows "implements (ceil_div_biguint a b)
    (\<lambda>r. big r (Suc (max (length a) 1)) (bnat a div bnat b + of_bool (bnat b \<noteq> 0 \<and> bnat a mod bnat b \<noteq> 0)))"
  unfolding ceil_div_biguint_def
proof (rule implements_bind [OF realises_div_rem_biguint [OF assms]], unfold split_paired_all prod.case, elim conjE)
  fix q r
  assume q: "big q (length a) (bnat a div bnat b)" and r: "big r (length b) (if bnat b = 0 then 0 else bnat a mod bnat b)"
  then have ok: "limbs_ok q" by (simp add: big_def)
  show "implements (circ_bind (is_zero_biguint r) (\<lambda>is_zero_rem. circ_bind (add_biguint q one_biguint)
      (\<lambda>div_plus_one. circ_return (select_biguint is_zero_rem q div_plus_one))))
      (\<lambda>r. big r (Suc (max (length a) 1)) (bnat a div bnat b + of_bool (bnat b \<noteq> 0 \<and> bnat a mod bnat b \<noteq> 0)))"
  proof (rule implements_bind [OF implements_is_zero_biguint],
      rule implements_bind [OF implements_add_biguint [OF ok zero_one_biguint(5)]], rule implements_return)
    fix z s assume z: "bval z (bnat r = 0)" and s: "big s (Suc (max (length q) (length one_biguint))) (bnat q + bnat one_biguint)"
    then have "limbs_ok s" by (simp add: big_def)
    from select_biguint_big [OF z ok this] q r s
    show "big (select_biguint z q s) (Suc (max (length a) 1)) (bnat a div bnat b + of_bool (bnat b \<noteq> 0 \<and> bnat a mod bnat b \<noteq> 0))"
      by (auto simp: big_def max_def split: if_splits)
  qed
qed

text \<open>The generator fills in the values the constraints ask for.\<close>

lemma biguint_div_rem_generator_correct:
  "biguint_div_rem_generator a b = (a div b, if b = 0 then 0 else a mod b)"
  by (simp add: biguint_div_rem_generator_def)

section \<open>Properties\<close>

text \<open>
  Division: with a quotient of \<open>n\<close> limbs the circuit is satisfiable exactly when \<open>n\<close> is at most the
  size of the dividend and the quotient fits, and then quotient and remainder are the ones of the
  integers, whatever the prover chooses; a zero divisor gives zero for both. The bound of eight limbs on
  the smaller factor is the one of the multiplication.
\<close>

theorem div_rem_biguint_correct:
  assumes "limbs_ok a" "limbs_ok b" "min n (length b) \<le> 8"
  shows "realises (div_rem_biguint_trimmed a b n) (n \<le> length a \<and> bnat a div bnat b < 2 ^ (32 * n))
    (\<lambda>(q, r). big q n (bnat a div bnat b) \<and> big r (length b) (if bnat b = 0 then 0 else bnat a mod bnat b))"
  using assms by (rule realises_div_rem_biguint_trimmed)

theorem div_rem_biguint_correct_witness:
  "implements (div_rem_biguint_trimmed [Wire 5, Wire 1] [Wire 7] 1) (\<lambda>(q, r). big q 1 613566757 \<and> big r 1 2)
   \<and> unsatisfiable (div_rem_biguint_trimmed [Wire 5, Wire 1] [Wire 1] 1)
   \<and> implements (div_rem_biguint_trimmed [Wire 5, Wire 1] [Wire 0] 1) (\<lambda>(q, r). big q 1 0 \<and> big r 1 0)"
  using div_rem_biguint_correct [of "[Wire 5, Wire 1]" "[Wire 7]" 1] div_rem_biguint_correct [of "[Wire 5, Wire 1]" "[Wire 1]" 1]
    div_rem_biguint_correct [of "[Wire 5, Wire 1]" "[Wire 0]" 1]
  by (simp add: is_u32_def bnat_Cons realises_def)

end
