(* ===== verification/Comparison.thy ===== *)
theory Comparison
  imports Biguint_Compare
begin

text \<open>
  Comparison of field elements (\<open>circuit/src/comparison/subtractive_comparison.rs\<close>, with the subtraction
  gadgets of \<open>uint/u16\<close> and \<open>uint/u48\<close>), signed field elements (\<open>circuit/src/signed/signed_target.rs\<close>)
  and hinted division (\<open>circuit/src/hints/mod.rs\<close>). A comparison of \<open>num_bits\<close> picks the narrowest
  subtraction gate that holds the operands, and goes through two-limb integers above 48 bits, where it is
  exact for all field elements.
\<close>

section \<open>Comparison of field elements\<close>

definition cmp_bit_size_bucket :: "nat \<Rightarrow> nat" where
  "cmp_bit_size_bucket num_bits =
    (if num_bits \<le> 16 then 16 else if num_bits \<le> 32 then 32 else if num_bits \<le> 48 then 48 else 64)"

definition sub_u16 :: "target \<Rightarrow> target \<Rightarrow> target \<Rightarrow> (target \<times> target) circ" where
  "sub_u16 x y borrow =
    (if target_as_constant y = Some 0 \<and> target_as_constant borrow = Some 0 then circ_return (x, Const 0)
     else sg_slot 16 x y borrow)"

definition sub_u48 :: "target \<Rightarrow> target \<Rightarrow> target \<Rightarrow> (target \<times> target) circ" where
  "sub_u48 x y borrow = sg_slot 48 x y borrow"

definition is_lte :: "target \<Rightarrow> target \<Rightarrow> nat \<Rightarrow> target circ" where
  "is_lte a b num_bits =
    circ_bind (circ_panic_unless (num_bits \<le> 64)) (\<lambda>_.
    let borrow = Const 0 in
    if num_bits \<le> 16 then circ_bind (sub_u16 b a borrow) (\<lambda>(_, a_gt_b). circ_return (b_not a_gt_b))
    else if num_bits \<le> 32 then circ_bind (sub_u32 b a borrow) (\<lambda>(_, a_gt_b). circ_return (b_not a_gt_b))
    else if num_bits \<le> 48 then circ_bind (sub_u48 b a borrow) (\<lambda>(_, a_gt_b). circ_return (b_not a_gt_b))
    else
      circ_bind (target_to_biguint a) (\<lambda>a_big.
      circ_bind (target_to_biguint b) (\<lambda>b_big.
      is_lte_biguint a_big b_big)))"

definition cmp :: "target \<Rightarrow> target \<Rightarrow> nat \<Rightarrow> target circ" where
  "cmp a b num_bits =
    circ_bind (circ_panic_unless (num_bits \<le> 64)) (\<lambda>_.
    let borrow = Const 0 in
    if num_bits \<le> 16 then
      circ_bind (sub_u16 b a borrow) (\<lambda>(_, a_gt_b).
      circ_bind (sub_u16 a b borrow) (\<lambda>(_, b_gt_a). circ_return (b_sub a_gt_b b_gt_a)))
    else if num_bits \<le> 32 then
      circ_bind (sub_u32 b a borrow) (\<lambda>(_, a_gt_b).
      circ_bind (sub_u32 a b borrow) (\<lambda>(_, b_gt_a). circ_return (b_sub a_gt_b b_gt_a)))
    else if num_bits \<le> 48 then
      circ_bind (sub_u48 b a borrow) (\<lambda>(_, a_gt_b).
      circ_bind (sub_u48 a b borrow) (\<lambda>(_, b_gt_a). circ_return (b_sub a_gt_b b_gt_a)))
    else
      circ_bind (target_to_biguint a) (\<lambda>a_big.
      circ_bind (target_to_biguint b) (\<lambda>b_big.
      circ_bind (try_sub_biguint b_big a_big) (\<lambda>(_, a_gt_b).
      circ_bind (try_sub_biguint a_big b_big) (\<lambda>(_, b_gt_a). circ_return (b_sub a_gt_b b_gt_a))))))"

definition is_gte :: "target \<Rightarrow> target \<Rightarrow> nat \<Rightarrow> target circ" where
  "is_gte a b num_bits = is_lte b a num_bits"

definition is_lt :: "target \<Rightarrow> target \<Rightarrow> nat \<Rightarrow> target circ" where
  "is_lt a b num_bits = circ_bind (is_gte a b num_bits) (\<lambda>gte. circ_return (b_not gte))"

definition is_gt :: "target \<Rightarrow> target \<Rightarrow> nat \<Rightarrow> target circ" where
  "is_gt a b num_bits = circ_bind (is_lte a b num_bits) (\<lambda>lte. circ_return (b_not lte))"

definition conditional_assert_lte :: "target \<Rightarrow> target \<Rightarrow> target \<Rightarrow> nat \<Rightarrow> unit circ" where
  "conditional_assert_lte is_enabled a b num_bits =
    circ_bind (is_lte a b num_bits) (\<lambda>a_lte_b. assert_false (and_not is_enabled a_lte_b))"

definition assert_lte :: "target \<Rightarrow> target \<Rightarrow> nat \<Rightarrow> unit circ" where
  "assert_lte a b num_bits = circ_bind (is_lte a b num_bits) (\<lambda>a_lte_b. assert_true a_lte_b)"

definition conditional_assert_lt :: "target \<Rightarrow> target \<Rightarrow> target \<Rightarrow> nat \<Rightarrow> unit circ" where
  "conditional_assert_lt is_enabled a b num_bits =
    circ_bind (is_gte a b num_bits) (\<lambda>a_gte_b. assert_false (b_and is_enabled a_gte_b))"

text \<open>The loops of \<open>min\<close> and \<open>max\<close> over \<open>targets[1..]\<close>.\<close>

primrec min_loop :: "target \<Rightarrow> target list \<Rightarrow> nat \<Rightarrow> target circ" where
  "min_loop m [] max_bits = circ_return m"
| "min_loop m (t # ts) max_bits = circ_bind (is_lte t m max_bits) (\<lambda>lte. min_loop (select lte t m) ts max_bits)"

primrec max_loop :: "target \<Rightarrow> target list \<Rightarrow> nat \<Rightarrow> target circ" where
  "max_loop m [] max_bits = circ_return m"
| "max_loop m (t # ts) max_bits = circ_bind (is_gte t m max_bits) (\<lambda>gte. max_loop (select gte t m) ts max_bits)"

definition min_target :: "target list \<Rightarrow> nat \<Rightarrow> target circ" where
  "min_target targets max_bits =
    circ_bind (circ_panic_unless (targets \<noteq> [])) (\<lambda>_. min_loop (hd targets) (tl targets) max_bits)"

definition max_target :: "target list \<Rightarrow> nat \<Rightarrow> target circ" where
  "max_target targets max_bits =
    circ_bind (circ_panic_unless (targets \<noteq> [])) (\<lambda>_. max_loop (hd targets) (tl targets) max_bits)"

definition median3 :: "target \<Rightarrow> target \<Rightarrow> target \<Rightarrow> nat \<Rightarrow> target circ" where
  "median3 a b c num_bits =
    circ_bind (max_target [a, b, c] num_bits) (\<lambda>max_of_abc.
    circ_bind (min_target [a, b, c] num_bits) (\<lambda>min_of_abc.
    let sum_abc = b_add_many [a, b, c];
        sum_max_min = b_add max_of_abc min_of_abc in
    circ_return (b_sub sum_abc sum_max_min)))"

text \<open>Operands a comparison of \<open>num_bits\<close> accepts.\<close>

definition cmp_ok :: "nat \<Rightarrow> target \<Rightarrow> bool" where
  "cmp_ok num_bits t \<longleftrightarrow> num_bits \<le> 64 \<and> uval t < 2 ^ cmp_bit_size_bucket num_bits"

lemma cmp_okI: "num_bits \<le> 64 \<Longrightarrow> uval t < 2 ^ num_bits \<Longrightarrow> cmp_ok num_bits t"
  unfolding cmp_ok_def using pow2_mono_less [of "uval t" num_bits "cmp_bit_size_bucket num_bits"]
  by (simp add: cmp_bit_size_bucket_def)

lemma cmp_ok_wide: "48 < num_bits \<Longrightarrow> num_bits \<le> 64 \<Longrightarrow> cmp_ok num_bits t"
  using less_trans [OF to_canonical_lt [of "tval t"], of "2 ^ 64"] by (simp add: cmp_ok_def cmp_bit_size_bucket_def)

definition borrow_of :: "target \<Rightarrow> target \<Rightarrow> 'r \<times> target \<Rightarrow> bool" where
  "borrow_of x y r \<longleftrightarrow> bval (snd r) (uval x < uval y)"

lemma implements_sg_borrow:
  "sg_width_ok bits \<Longrightarrow> uval x < 2 ^ bits \<Longrightarrow> uval y < 2 ^ bits \<Longrightarrow> implements (sg_slot bits x y (Const 0)) (borrow_of x y)"
  by (rule implements_weaken [OF implements_sg_slot]) (auto simp: borrow_of_def bval_def)

lemma implements_sub_u16:
  assumes "uval x < 2 ^ 16" "uval y < 2 ^ 16"
  shows "implements (sub_u16 x y (Const 0)) (borrow_of x y)"
proof (cases "target_as_constant y = Some 0")
  case True
  then show ?thesis by (auto simp: sub_u16_def borrow_of_def bval_def intro!: implements_return dest!: target_as_constant_Some)
next
  case False
  then show ?thesis using implements_sg_borrow [of 16] assms by (simp add: sub_u16_def sg_width_ok_def)
qed

lemma implements_sub_u48:
  "uval x < 2 ^ 48 \<Longrightarrow> uval y < 2 ^ 48 \<Longrightarrow> implements (sub_u48 x y (Const 0)) (borrow_of x y)"
  unfolding sub_u48_def by (rule implements_sg_borrow) (simp_all add: sg_width_ok_def)

lemma implements_sub_u32_borrow:
  "uval x < 2 ^ 32 \<Longrightarrow> uval y < 2 ^ 32 \<Longrightarrow> implements (sub_u32 x y (Const 0)) (borrow_of x y)"
  by (rule implements_weaken [OF implements_sub_u32 [of x y "Const 0" False]])
    (simp_all add: is_u32_def bval_def borrow_of_def u32_difference_def)

lemma implements_is_lte:
  assumes "cmp_ok n a" "cmp_ok n b"
  shows "implements (is_lte a b n) (\<lambda>r. bval r (uval a \<le> uval b))"
proof -
  have n: "n \<le> 64" using assms by (simp add: cmp_ok_def)
  have lt: "uval a < 2 ^ cmp_bit_size_bucket n" "uval b < 2 ^ cmp_bit_size_bucket n" using assms by (simp_all add: cmp_ok_def)
  have ret: "implements (circ_bind c (\<lambda>(_, a_gt_b). circ_return (b_not a_gt_b))) (\<lambda>r. bval r (uval a \<le> uval b))"
    if "implements c (borrow_of b a)" for c :: "(target \<times> target) circ"
    by (rule implements_bind [OF that]) (auto simp: borrow_of_def not_less [symmetric] split: prod.split intro!: implements_return bval_not)
  have big: "implements (circ_bind (target_to_biguint a) (\<lambda>a_big. circ_bind (target_to_biguint b) (\<lambda>b_big. is_lte_biguint a_big b_big)))
      (\<lambda>r. bval r (uval a \<le> uval b))"
  proof (rule implements_bind [OF implements_target_to_biguint], rule implements_bind [OF implements_target_to_biguint])
    fix x y assume "big x 2 (uval a)" "big y 2 (uval b)"
    then show "implements (is_lte_biguint x y) (\<lambda>r. bval r (uval a \<le> uval b))"
      using implements_is_lte_biguint [of x y] by (simp add: big_def)
  qed
  show ?thesis
    unfolding is_lte_def Let_def
    by (rule implements_bind [OF implements_panic [OF n]])
      (use lt ret [OF implements_sub_u16] ret [OF implements_sub_u32_borrow] ret [OF implements_sub_u48] big in
        \<open>auto simp: cmp_bit_size_bucket_def split: if_splits\<close>)
qed

lemma implements_cmp:
  assumes "cmp_ok n a" "cmp_ok n b"
  shows "implements (cmp a b n) (\<lambda>r. sval r (int (uval a) - int (uval b)))"
proof -
  have n: "n \<le> 64" using assms by (simp add: cmp_ok_def)
  have lt: "uval a < 2 ^ cmp_bit_size_bucket n" "uval b < 2 ^ cmp_bit_size_bucket n" using assms by (simp_all add: cmp_ok_def)
  have val: "sval (b_sub gt lt) (int (uval a) - int (uval b))"
    if "bval gt (uval b < uval a)" "bval lt (uval a < uval b)" for gt lt
    using sval_cmp [OF that] by (auto simp: sval_def sgn_if split: if_splits)
  have ret: "implements (circ_bind c (\<lambda>(_, a_gt_b). circ_bind d (\<lambda>(_, b_gt_a). circ_return (b_sub a_gt_b b_gt_a))))
      (\<lambda>r. sval r (int (uval a) - int (uval b)))"
    if "implements c (borrow_of b a)" "implements d (borrow_of a b)" for c d :: "('r \<times> target) circ"
    by (rule implements_bind [OF that(1)], unfold split_paired_all prod.case, rule implements_bind [OF that(2)])
      (auto simp: borrow_of_def split: prod.split intro!: implements_return val)
  have big: "implements (circ_bind (target_to_biguint a) (\<lambda>a_big. circ_bind (target_to_biguint b) (\<lambda>b_big.
      circ_bind (try_sub_biguint b_big a_big) (\<lambda>(_, a_gt_b). circ_bind (try_sub_biguint a_big b_big) (\<lambda>(_, b_gt_a).
      circ_return (b_sub a_gt_b b_gt_a)))))) (\<lambda>r. sval r (int (uval a) - int (uval b)))"
  proof (rule implements_bind [OF implements_target_to_biguint], rule implements_bind [OF implements_target_to_biguint])
    fix x y assume xy: "big x 2 (uval a)" "big y 2 (uval b)"
    show "implements (circ_bind (try_sub_biguint y x) (\<lambda>(_, a_gt_b). circ_bind (try_sub_biguint x y) (\<lambda>(_, b_gt_a).
      circ_return (b_sub a_gt_b b_gt_a)))) (\<lambda>r. sval r (int (uval a) - int (uval b)))"
      by (rule ret; rule implements_weaken [OF implements_try_sub_biguint]) (use xy in \<open>auto simp: big_def borrow_of_def\<close>)
  qed
  show ?thesis
    unfolding cmp_def Let_def
    by (rule implements_bind [OF implements_panic [OF n]])
      (use lt ret [OF implements_sub_u16 implements_sub_u16] ret [OF implements_sub_u32_borrow implements_sub_u32_borrow]
        ret [OF implements_sub_u48 implements_sub_u48] big in \<open>auto simp: cmp_bit_size_bucket_def split: if_splits\<close>)
qed

lemma implements_is_gte: "cmp_ok n a \<Longrightarrow> cmp_ok n b \<Longrightarrow> implements (is_gte a b n) (\<lambda>r. bval r (uval b \<le> uval a))"
  unfolding is_gte_def by (rule implements_is_lte)

lemma implements_is_lt: "cmp_ok n a \<Longrightarrow> cmp_ok n b \<Longrightarrow> implements (is_lt a b n) (\<lambda>r. bval r (uval a < uval b))"
  unfolding is_lt_def not_le [symmetric]
  by (rule implements_bind [OF implements_is_gte]) (auto intro!: implements_return bval_not)

lemma implements_is_gt: "cmp_ok n a \<Longrightarrow> cmp_ok n b \<Longrightarrow> implements (is_gt a b n) (\<lambda>r. bval r (uval b < uval a))"
  unfolding is_gt_def not_le [symmetric]
  by (rule implements_bind [OF implements_is_lte]) (auto intro!: implements_return bval_not)

lemma realises_conditional_assert_lte:
  assumes "bval c v" "cmp_ok n a" "cmp_ok n b"
  shows "realises (conditional_assert_lte c a b n) (v \<longrightarrow> uval a \<le> uval b) (\<lambda>_. True)"
  unfolding conditional_assert_lte_def
  by (rule realises_after [OF implements_is_lte [OF assms(2,3)]])
    (auto intro!: realises_weaken [OF realises_assert_false [OF bval_and_not [OF assms(1)]]])

lemma realises_assert_lte:
  assumes "cmp_ok n a" "cmp_ok n b"
  shows "realises (assert_lte a b n) (uval a \<le> uval b) (\<lambda>_. True)"
  unfolding assert_lte_def by (rule realises_after [OF implements_is_lte [OF assms] realises_assert_true])

lemma realises_conditional_assert_lt:
  assumes "bval c v" "cmp_ok n a" "cmp_ok n b"
  shows "realises (conditional_assert_lt c a b n) (v \<longrightarrow> uval a < uval b) (\<lambda>_. True)"
  unfolding conditional_assert_lt_def
  by (rule realises_after [OF implements_is_gte [OF assms(2,3)]])
    (auto intro!: realises_weaken [OF realises_assert_false [OF bval_and [OF assms(1)]]])

lemma implements_min_loop:
  "cmp_ok n m \<Longrightarrow> list_all (cmp_ok n) ts \<Longrightarrow>
    implements (min_loop m ts n) (\<lambda>r. cmp_ok n r \<and> uval r = foldl min (uval m) (map uval ts))"
proof (induction ts arbitrary: m)
  case (Cons t ts)
  show ?case
    unfolding min_loop.simps
  proof (rule implements_bind [OF implements_is_lte])
    fix c assume c: "bval c (uval t \<le> uval m)"
    then have "uval (select c t m) = min (uval m) (uval t)" by (simp add: uval_select)
    then show "implements (min_loop (select c t m) ts n) (\<lambda>r. cmp_ok n r \<and> uval r = foldl min (uval m) (map uval (t # ts)))"
      using Cons.prems by (intro implements_weaken [OF Cons.IH]) (auto simp: cmp_ok_def)
  qed (use Cons.prems in auto)
qed (simp add: implements_return)

lemma implements_max_loop:
  "cmp_ok n m \<Longrightarrow> list_all (cmp_ok n) ts \<Longrightarrow>
    implements (max_loop m ts n) (\<lambda>r. cmp_ok n r \<and> uval r = foldl max (uval m) (map uval ts))"
proof (induction ts arbitrary: m)
  case (Cons t ts)
  show ?case
    unfolding max_loop.simps
  proof (rule implements_bind [OF implements_is_gte])
    fix c assume c: "bval c (uval m \<le> uval t)"
    then have "uval (select c t m) = max (uval m) (uval t)" by (simp add: uval_select)
    then show "implements (max_loop (select c t m) ts n) (\<lambda>r. cmp_ok n r \<and> uval r = foldl max (uval m) (map uval (t # ts)))"
      using Cons.prems by (intro implements_weaken [OF Cons.IH]) (auto simp: cmp_ok_def)
  qed (use Cons.prems in auto)
qed (simp add: implements_return)

lemma implements_min_max_target:
  assumes "list_all (cmp_ok n) ts" "ts \<noteq> []"
  shows "implements (min_target ts n) (\<lambda>r. uval r = Min (uval ` set ts))"
    and "implements (max_target ts n) (\<lambda>r. uval r = Max (uval ` set ts))"
proof -
  obtain t us where ts: "ts = t # us" using assms(2) by (cases ts) auto
  show "implements (min_target ts n) (\<lambda>r. uval r = Min (uval ` set ts))"
    unfolding min_target_def
    by (rule implements_bind [OF implements_panic [OF assms(2)]], rule implements_weaken [OF implements_min_loop])
      (use assms(1) in \<open>auto simp: ts foldl_min\<close>)
  show "implements (max_target ts n) (\<lambda>r. uval r = Max (uval ` set ts))"
    unfolding max_target_def
    by (rule implements_bind [OF implements_panic [OF assms(2)]], rule implements_weaken [OF implements_max_loop])
      (use assms(1) in \<open>auto simp: ts foldl_max\<close>)
qed

definition median_nat :: "nat \<Rightarrow> nat \<Rightarrow> nat \<Rightarrow> nat" where
  "median_nat a b c = max (min a b) (min (max a b) c)"

lemma median_sum: "median_nat a b c + (Max {a, b, c} + Min {a, b, c}) = a + b + c"
  by (simp add: median_nat_def max_def min_def)

lemma implements_median3:
  assumes "cmp_ok n a" "cmp_ok n b" "cmp_ok n c"
  shows "implements (median3 a b c n) (\<lambda>r. uval r = median_nat (uval a) (uval b) (uval c))"
proof -
  have ok: "list_all (cmp_ok n) [a, b, c]" using assms by simp
  show ?thesis
    unfolding median3_def
  proof (rule implements_bind [OF implements_min_max_target(2) [OF ok]], simp, rule implements_bind [OF implements_min_max_target(1) [OF ok]],
      simp, unfold Let_def, rule implements_return)
    fix mx mn assume m: "uval mx = Max (uval ` set [a, b, c])" "uval mn = Min (uval ` set [a, b, c])"
    have "tval a + tval b + tval c = of_nat (uval a + uval b + uval c)" by simp
    also have "\<dots> = of_nat (median_nat (uval a) (uval b) (uval c)) + (of_nat (uval mx) + of_nat (uval mn))"
      unfolding m using median_sum [of "uval a" "uval b" "uval c"] by (metis image_insert image_empty list.simps(15) empty_set of_nat_add)
    finally have "tval (b_sub (b_add_many [a, b, c]) (b_add mx mn)) = of_nat (median_nat (uval a) (uval b) (uval c))"
      by (simp add: tval_simps algebra_simps)
    moreover have "median_nat (uval a) (uval b) (uval c) < p_nat"
      by (simp only: median_nat_def max_less_iff_conj min_less_iff_disj to_canonical_lt simp_thms)
    ultimately show "uval (b_sub (b_add_many [a, b, c]) (b_add mx mn)) = median_nat (uval a) (uval b) (uval c)" by simp
  qed
qed

section \<open>Signed field elements\<close>

definition POSITIVE_THRESHOLD_BIT :: nat where "POSITIVE_THRESHOLD_BIT = 60"

text \<open>\<open>get_signed_target\<close>: the integer a \<open>SignedTarget\<close> stands for.\<close>

definition get_signed_target :: "target \<Rightarrow> int" where
  "get_signed_target t =
    (if uval t \<ge> 2 ^ POSITIVE_THRESHOLD_BIT then int (uval t) - goldilocks_order else int (uval t))"

definition signed_sign :: "target \<Rightarrow> target circ" where
  "signed_sign t =
    (let threshold = Const (of_nat (2 ^ POSITIVE_THRESHOLD_BIT - 1)) in
     circ_bind (is_lte t threshold 60) (\<lambda>lte.
     let rhs = b_mul_sub lte (Const 2) (Const 1) in
     circ_bind (is_not_zero t) (\<lambda>is_not_zero.
     circ_return (b_mul rhs is_not_zero))))"

definition signed_abs :: "target \<Rightarrow> (target \<times> target) circ" where
  "signed_abs t = circ_bind (signed_sign t) (\<lambda>s. circ_return (b_mul s t, s))"

definition is_negative :: "target \<Rightarrow> target circ" where
  "is_negative t = circ_bind (signed_sign t) (\<lambda>s. is_equal s (Const (- 1)))"

definition is_positive :: "target \<Rightarrow> target circ" where
  "is_positive t = circ_bind (signed_sign t) (\<lambda>s. is_equal s (Const 1))"

definition is_non_negative :: "target \<Rightarrow> target circ" where
  "is_non_negative t = circ_bind (is_negative t) (\<lambda>r. circ_return (b_not r))"

definition is_non_positive :: "target \<Rightarrow> target circ" where
  "is_non_positive t = circ_bind (is_positive t) (\<lambda>r. circ_return (b_not r))"

definition select_signed :: "target \<Rightarrow> target \<Rightarrow> target \<Rightarrow> target" where
  "select_signed flag a b = select flag a b"

definition add_signed :: "target \<Rightarrow> target \<Rightarrow> target" where "add_signed a b = b_add a b"
definition sub_signed :: "target \<Rightarrow> target \<Rightarrow> target" where "sub_signed a b = b_sub a b"
definition neg_signed :: "target \<Rightarrow> target" where "neg_signed a = b_neg a"

definition range_check_signed :: "target \<Rightarrow> nat \<Rightarrow> unit circ" where
  "range_check_signed t bit_size = circ_bind (signed_abs t) (\<lambda>(a, _). register_range_check a bit_size)"

definition conditional_assert_lte_signed_special :: "target \<Rightarrow> target \<Rightarrow> target \<Rightarrow> nat \<Rightarrow> unit circ" where
  "conditional_assert_lte_signed_special is_enabled a b num_bits =
    circ_bind (signed_abs a) (\<lambda>(abs_a, sign_a).
    circ_bind (is_gt abs_a b num_bits) (\<lambda>abs_a_gt_b.
    circ_bind (is_equal sign_a (Const 1)) (\<lambda>is_a_positive.
    assert_false (b_and is_enabled (b_and abs_a_gt_b is_a_positive)))))"

text \<open>The range of signed values: 60 bits upwards, the rest of the field downwards.\<close>

definition signed_range :: "int \<Rightarrow> bool" where
  "signed_range v \<longleftrightarrow> 2 ^ 60 - goldilocks_order \<le> v \<and> v < 2 ^ 60"

lemma signed_cases:
  assumes "n < p_nat"
  shows "2 ^ 60 - int p_nat \<le> (if 2 ^ 60 \<le> n then int n - int p_nat else int n) \<and>
      (if 2 ^ 60 \<le> n then int n - int p_nat else int n) < 2 ^ 60"
    and "(if 2 ^ 60 \<le> n then int n - int p_nat else int n) = 0 \<longleftrightarrow> n = 0"
    and "0 \<le> (if 2 ^ 60 \<le> n then int n - int p_nat else int n) \<longleftrightarrow> n \<le> 2 ^ 60 - 1"
  using assms by auto

lemma get_signed_target_props:
  "signed_range (get_signed_target t)" "tval t = of_int (get_signed_target t)"
proof -
  show "signed_range (get_signed_target t)"
    unfolding get_signed_target_def signed_range_def POSITIVE_THRESHOLD_BIT_def goldilocks_order_nat
    using signed_cases [OF to_canonical_lt [of "tval t"]] by simp
  have "(of_int (int (uval t) - goldilocks_order) :: gf) = tval t"
    using gf_of_int_eq_iff [of "int (uval t) - goldilocks_order" "int (uval t)"] by simp
  then show "tval t = of_int (get_signed_target t)" by (simp add: get_signed_target_def)
qed

lemma signed_range_inj: "signed_range v \<Longrightarrow> signed_range w \<Longrightarrow> (of_int v :: gf) = of_int w \<longleftrightarrow> v = w"
  by (rule gf_of_int_inj) (auto simp: signed_range_def goldilocks_order_nat)

lemma get_signed_target_eqI: "tval t = of_int v \<Longrightarrow> signed_range v \<Longrightarrow> get_signed_target t = v"
  using signed_range_inj [OF get_signed_target_props(1) [of t], of v] get_signed_target_props(2) [of t] by simp

lemma get_signed_target_sgn:
  "get_signed_target t = 0 \<longleftrightarrow> uval t = 0" "0 \<le> get_signed_target t \<longleftrightarrow> uval t \<le> 2 ^ POSITIVE_THRESHOLD_BIT - 1"
  unfolding get_signed_target_def POSITIVE_THRESHOLD_BIT_def goldilocks_order_nat
  by (rule signed_cases(2,3) [OF to_canonical_lt])+

lemma implements_signed_sign: "implements (signed_sign t) (\<lambda>s. sval s (get_signed_target t))"
  unfolding signed_sign_def Let_def
proof (rule implements_bind [OF implements_is_lte])
  fix lte assume lte: "bval lte (uval t \<le> uval (Const (of_nat (2 ^ POSITIVE_THRESHOLD_BIT - 1))))"
  have "uval (Const (of_nat (2 ^ POSITIVE_THRESHOLD_BIT - 1))) = 2 ^ POSITIVE_THRESHOLD_BIT - 1"
    by (simp add: POSITIVE_THRESHOLD_BIT_def)
  with lte have pos: "bval lte (0 \<le> get_signed_target t)" by (simp only: get_signed_target_sgn)
  show "implements (circ_bind (is_not_zero t) (\<lambda>nz. circ_return (b_mul (b_mul_sub lte (Const 2) (Const 1)) nz)))
      (\<lambda>s. sval s (get_signed_target t))"
  proof (rule implements_bind [OF implements_is_not_zero], rule implements_return)
    fix nz assume "bval nz (uval t \<noteq> 0)"
    then show "sval (b_mul (b_mul_sub lte (Const 2) (Const 1)) nz) (get_signed_target t)"
      using pos unfolding get_signed_target_sgn(1) [symmetric]
      by (auto simp: bval_def sval_def tval_simps sgn_if)
  qed
qed (simp_all add: cmp_ok_wide)

text \<open>The absolute value is exact for every field element.\<close>

lemma implements_signed_abs:
  "implements (signed_abs t) (\<lambda>(a, s). int (uval a) = \<bar>get_signed_target t\<bar> \<and> sval s (get_signed_target t))"
  unfolding signed_abs_def
proof (rule implements_bind [OF implements_signed_sign], rule implements_return, unfold prod.case)
  fix s assume s: "sval s (get_signed_target t)"
  have "tval (b_mul s t) = of_int (sgn (get_signed_target t) * get_signed_target t)"
    using s get_signed_target_props(2) [of t] by (simp add: sval_def tval_simps)
  then have "tval (b_mul s t) = of_int \<bar>get_signed_target t\<bar>" by (simp add: abs_sgn mult.commute)
  moreover have "\<bar>get_signed_target t\<bar> < goldilocks_order"
    using get_signed_target_props(1) [of t] by (auto simp: signed_range_def goldilocks_order_nat abs_if)
  ultimately have "int (uval (b_mul s t)) = \<bar>get_signed_target t\<bar>"
    by (simp only: to_canonical_of_int abs_ge_zero)
  then show "int (uval (b_mul s t)) = \<bar>get_signed_target t\<bar> \<and> sval s (get_signed_target t)" using s by blast
qed

lemma sval_eq_iff:
  assumes "sval s v"
  shows "tval s = - 1 \<longleftrightarrow> v < 0" "tval s = 1 \<longleftrightarrow> 0 < v" "tval s = 0 \<longleftrightarrow> v = 0"
  using assms by (auto simp: sval_def sgn_if gf_minus_one split: if_splits)

lemma implements_is_negative: "implements (is_negative t) (\<lambda>r. bval r (get_signed_target t < 0))"
  unfolding is_negative_def
  by (rule implements_bind [OF implements_signed_sign], rule implements_weaken [OF implements_is_equal])
    (simp add: sval_eq_iff)

lemma implements_is_positive: "implements (is_positive t) (\<lambda>r. bval r (0 < get_signed_target t))"
  unfolding is_positive_def
  by (rule implements_bind [OF implements_signed_sign], rule implements_weaken [OF implements_is_equal])
    (simp add: sval_eq_iff)

lemma implements_is_non_negative: "implements (is_non_negative t) (\<lambda>r. bval r (0 \<le> get_signed_target t))"
  unfolding is_non_negative_def not_less [symmetric]
  by (rule implements_bind [OF implements_is_negative]) (auto intro!: implements_return bval_not)

lemma implements_is_non_positive: "implements (is_non_positive t) (\<lambda>r. bval r (get_signed_target t \<le> 0))"
  unfolding is_non_positive_def not_less [symmetric]
  by (rule implements_bind [OF implements_is_positive]) (auto intro!: implements_return bval_not)

text \<open>Signed arithmetic is exact within the signed range.\<close>

lemma get_signed_target_arith:
  "signed_range (get_signed_target a + get_signed_target b) \<Longrightarrow>
    get_signed_target (add_signed a b) = get_signed_target a + get_signed_target b"
  "signed_range (get_signed_target a - get_signed_target b) \<Longrightarrow>
    get_signed_target (sub_signed a b) = get_signed_target a - get_signed_target b"
  "signed_range (- get_signed_target a) \<Longrightarrow> get_signed_target (neg_signed a) = - get_signed_target a"
  by (rule get_signed_target_eqI; simp add: add_signed_def sub_signed_def neg_signed_def tval_simps
      get_signed_target_props(2) [of a, symmetric] get_signed_target_props(2) [of b, symmetric])+

lemma get_signed_target_select:
  "bval c v \<Longrightarrow> get_signed_target (select_signed c a b) = (if v then get_signed_target a else get_signed_target b)"
  by (simp add: select_signed_def get_signed_target_def tval_select)

lemma realises_range_check_signed:
  assumes "bits \<noteq> 0" "bits \<le> 64"
  shows "realises (range_check_signed t bits) (\<bar>get_signed_target t\<bar> < 2 ^ bits) (\<lambda>_. True)"
  unfolding range_check_signed_def
proof (rule realises_after [OF implements_signed_abs], unfold split_paired_all prod.case, elim conjE)
  fix a s assume a: "int (uval a) = \<bar>get_signed_target t\<bar>"
  have "int (uval a) < 2 ^ bits \<longleftrightarrow> uval a < 2 ^ bits" by (rule of_nat_less_numeral_power_cancel_iff)
  then show "realises (register_range_check a bits) (\<bar>get_signed_target t\<bar> < 2 ^ bits) (\<lambda>_. True)"
    using realises_register_range_check [of bits a] assms(1,2) unfolding a [symmetric] by simp
qed

lemma realises_conditional_assert_lte_signed_special:
  assumes "bval c v" "cmp_ok n b" "48 < n \<or> \<bar>get_signed_target a\<bar> < 2 ^ cmp_bit_size_bucket n"
  shows "realises (conditional_assert_lte_signed_special c a b n) (v \<longrightarrow> get_signed_target a \<le> int (uval b)) (\<lambda>_. True)"
  unfolding conditional_assert_lte_signed_special_def
proof (rule realises_after [OF implements_signed_abs], unfold split_paired_all prod.case, elim conjE)
  fix m s assume m: "int (uval m) = \<bar>get_signed_target a\<bar>" and s: "sval s (get_signed_target a)"
  have n: "n \<le> 64" using assms(2) by (simp add: cmp_ok_def)
  have "cmp_ok n m"
  proof (cases "48 < n")
    case False
    then have "int (uval m) < int (2 ^ cmp_bit_size_bucket n)" using assms(3) m by simp
    then show ?thesis using n by (simp only: cmp_ok_def of_nat_less_iff simp_thms)
  qed (use n cmp_ok_wide in blast)
  then show "realises (circ_bind (is_gt m b n) (\<lambda>gt. circ_bind (is_equal s (Const 1)) (\<lambda>pos. assert_false (b_and c (b_and gt pos)))))
      (v \<longrightarrow> get_signed_target a \<le> int (uval b)) (\<lambda>_. True)"
    by (rule realises_after [OF implements_is_gt [OF _ assms(2)]], intro realises_after [OF implements_is_equal]
        realises_weaken [OF realises_assert_false [OF bval_and [OF assms(1) bval_and]]])
      (assumption | use m in \<open>auto simp: sval_eq_iff [OF s] abs_if split: if_splits\<close>)+
qed

section \<open>Hinted division\<close>

text \<open>The constraints on the hinted quotient and remainder.\<close>

definition div_rem :: "target \<Rightarrow> target \<Rightarrow> nat \<Rightarrow> (target \<times> target) circ" where
  "div_rem dividend divisor divisor_bits =
    circ_bind add_virtual_target (\<lambda>quotient.
    circ_bind add_virtual_target (\<lambda>remainder.
    circ_bind (is_zero divisor) (\<lambda>is_div_by_zero.
    circ_bind (conditional_assert_zero is_div_by_zero quotient) (\<lambda>_.
    circ_bind (conditional_assert_zero is_div_by_zero remainder) (\<lambda>_.
    let remainder_plus_quotient_times_divisor = b_mul_add quotient divisor remainder;
        is_not_div_by_zero = b_not is_div_by_zero in
    circ_bind (conditional_assert_eq is_not_div_by_zero remainder_plus_quotient_times_divisor dividend) (\<lambda>_.
    circ_bind (conditional_assert_lte is_not_div_by_zero quotient dividend 64) (\<lambda>_.
    circ_bind (register_range_check remainder (cmp_bit_size_bucket divisor_bits)) (\<lambda>_.
    circ_bind (conditional_assert_lt is_not_div_by_zero remainder divisor 64) (\<lambda>_.
    circ_return (quotient, remainder))))))))))"

definition conditional_div_rem :: "target \<Rightarrow> target \<Rightarrow> target \<Rightarrow> nat \<Rightarrow> (target \<times> target) circ" where
  "conditional_div_rem is_enabled dividend divisor divisor_bits =
    circ_bind add_virtual_target (\<lambda>quotient.
    circ_bind add_virtual_target (\<lambda>remainder.
    circ_bind (is_zero divisor) (\<lambda>is_div_by_zero.
    circ_bind (conditional_assert_zero is_div_by_zero quotient) (\<lambda>_.
    circ_bind (conditional_assert_zero is_div_by_zero remainder) (\<lambda>_.
    let remainder_plus_quotient_times_divisor = b_mul_add quotient divisor remainder;
        enabled_and_not_div_by_zero = and_not is_enabled is_div_by_zero in
    circ_bind (conditional_assert_eq enabled_and_not_div_by_zero remainder_plus_quotient_times_divisor dividend) (\<lambda>_.
    circ_bind (conditional_assert_lte enabled_and_not_div_by_zero quotient dividend 64) (\<lambda>_.
    let remainder_for_range_check = mul_bool is_enabled remainder in
    circ_bind (register_range_check remainder_for_range_check (cmp_bit_size_bucket divisor_bits)) (\<lambda>_.
    circ_bind (conditional_assert_lt enabled_and_not_div_by_zero remainder divisor 64) (\<lambda>_.
    circ_return (quotient, remainder))))))))))"

definition ceil_div :: "target \<Rightarrow> target \<Rightarrow> nat \<Rightarrow> target circ" where
  "ceil_div dividend divisor divisor_bits =
    circ_bind (div_rem dividend divisor divisor_bits) (\<lambda>(quotient, remainder).
    circ_bind (is_zero remainder) (\<lambda>is_rem_zero.
    let addend = b_sub (Const 1) is_rem_zero in
    circ_return (b_add quotient addend)))"

text \<open>\<open>DivRemHintGenerator\<close>.\<close>

definition div_rem_hint_generator :: "gf \<Rightarrow> gf \<Rightarrow> gf \<times> gf" where
  "div_rem_hint_generator dividend divisor =
    (let n = to_canonical_u64 dividend; d = to_canonical_u64 divisor in
     if d = 0 then (0, 0) else (of_nat (n div d), of_nat (n mod d)))"

text \<open>What the constraints accept: the equation of the division holds in the field.\<close>

definition division_accepts :: "bool \<Rightarrow> target \<Rightarrow> target \<Rightarrow> nat \<Rightarrow> target \<Rightarrow> target \<Rightarrow> bool" where
  "division_accepts e n d bits q r \<longleftrightarrow>
    (uval d = 0 \<longrightarrow> uval q = 0 \<and> uval r = 0) \<and> (e \<longrightarrow> uval r < 2 ^ cmp_bit_size_bucket bits) \<and>
    (e \<and> uval d \<noteq> 0 \<longrightarrow> tval q * tval d + tval r = tval n \<and> uval q \<le> uval n \<and> uval r < uval d)"

lemma cmp_bit_size_bucket_le: "cmp_bit_size_bucket n \<le> 64"
  by (simp add: cmp_bit_size_bucket_def)

lemmas cmp_ok_64 = cmp_ok_wide [of 64, simplified]

lemma realises_division_checks:
  assumes on: "\<And>z. bval z (uval d = 0) \<Longrightarrow> bval (on z) (v \<and> uval d \<noteq> 0)"
    and rc: "uval rc < 2 ^ cmp_bit_size_bucket bits \<longleftrightarrow> (v \<longrightarrow> uval r < 2 ^ cmp_bit_size_bucket bits)"
  shows "realises (
    circ_bind (is_zero d) (\<lambda>z.
    circ_bind (conditional_assert_zero z q) (\<lambda>_.
    circ_bind (conditional_assert_zero z r) (\<lambda>_.
    circ_bind (conditional_assert_eq (on z) (b_mul_add q d r) n) (\<lambda>_.
    circ_bind (conditional_assert_lte (on z) q n 64) (\<lambda>_.
    circ_bind (register_range_check rc (cmp_bit_size_bucket bits)) (\<lambda>_.
    circ_bind (conditional_assert_lt (on z) r d 64) (\<lambda>_.
    circ_return (q, r))))))))) (division_accepts v n d bits q r) (\<lambda>x. x = (q, r))"
proof (rule realises_after [OF implements_is_zero])
  fix z assume z: "bval z (uval d = 0)"
  note on = on [OF z]
  have eq: "tval (b_mul_add q d r) = tval q * tval d + tval r" by (simp add: tval_simps)
  have "realises (
      circ_bind (conditional_assert_zero z q) (\<lambda>_.
      circ_bind (conditional_assert_zero z r) (\<lambda>_.
      circ_bind (conditional_assert_eq (on z) (b_mul_add q d r) n) (\<lambda>_.
      circ_bind (conditional_assert_lte (on z) q n 64) (\<lambda>_.
      circ_bind (register_range_check rc (cmp_bit_size_bucket bits)) (\<lambda>_.
      circ_bind (conditional_assert_lt (on z) r d 64) (\<lambda>_.
      circ_return (q, r))))))))
      ((uval d = 0 \<longrightarrow> uval q = 0) \<and> (uval d = 0 \<longrightarrow> uval r = 0) \<and> (v \<and> uval d \<noteq> 0 \<longrightarrow> tval q * tval d + tval r = tval n)
        \<and> (v \<and> uval d \<noteq> 0 \<longrightarrow> uval q \<le> uval n) \<and> (v \<longrightarrow> uval r < 2 ^ cmp_bit_size_bucket bits)
        \<and> (v \<and> uval d \<noteq> 0 \<longrightarrow> uval r < uval d)) (\<lambda>x. x = (q, r))"
    by (rule realises_bind [OF realises_conditional_assert_zero [OF z]], rule realises_bind [OF realises_conditional_assert_zero [OF z]],
        rule realises_bind [OF realises_conditional_assert_eq [OF on, of "b_mul_add q d r" n, unfolded eq]],
        rule realises_bind [OF realises_conditional_assert_lte [OF on cmp_ok_64 cmp_ok_64]],
        rule realises_bind [OF realises_register_range_check [OF cmp_bit_size_bucket_le, of rc bits, unfolded rc]],
        rule realises_then_return [OF realises_conditional_assert_lt [OF on cmp_ok_64 cmp_ok_64]], rule refl)
  then show "realises (
      circ_bind (conditional_assert_zero z q) (\<lambda>_.
      circ_bind (conditional_assert_zero z r) (\<lambda>_.
      circ_bind (conditional_assert_eq (on z) (b_mul_add q d r) n) (\<lambda>_.
      circ_bind (conditional_assert_lte (on z) q n 64) (\<lambda>_.
      circ_bind (register_range_check rc (cmp_bit_size_bucket bits)) (\<lambda>_.
      circ_bind (conditional_assert_lt (on z) r d 64) (\<lambda>_.
      circ_return (q, r)))))))) (division_accepts v n d bits q r) (\<lambda>x. x = (q, r))"
    by (rule realises_weaken) (auto simp: division_accepts_def)
qed

text \<open>The prover chooses both results.\<close>

lemma hinted_division:
  assumes checks: "\<And>q r. realises (f q r) (division_accepts v n d bits q r) (\<lambda>x. x = (q, r))"
  shows "sound (circ_bind add_virtual_target (\<lambda>q. circ_bind add_virtual_target (f q))) (\<lambda>(q, r). division_accepts v n d bits q r)"
    and "division_accepts v n d bits (Wire q) (Wire r) \<Longrightarrow>
      complete (circ_bind add_virtual_target (\<lambda>q. circ_bind add_virtual_target (f q))) (\<lambda>x. x = (Wire q, Wire r))"
proof -
  show "sound (circ_bind add_virtual_target (\<lambda>q. circ_bind add_virtual_target (f q))) (\<lambda>(q, r). division_accepts v n d bits q r)"
    by (rule sound_bind [OF sound_add_virtual_target], rule sound_bind [OF sound_add_virtual_target],
        rule sound_weaken [OF realises_sound [OF checks]]) auto
  show "complete (circ_bind add_virtual_target (\<lambda>q. circ_bind add_virtual_target (f q))) (\<lambda>x. x = (Wire q, Wire r))"
    if "division_accepts v n d bits (Wire q) (Wire r)"
    by (rule complete_bind [OF complete_add_virtual_target [of q]], rule complete_bind [OF complete_add_virtual_target [of r]])
      (use implements_complete [OF realises_implements [OF checks that]] in simp)
qed

lemma conditional_div_rem_accepts:
  assumes "bval e v"
  shows "sound (conditional_div_rem e n d bits) (\<lambda>(q, r). division_accepts v n d bits q r)"
    and "division_accepts v n d bits (Wire q) (Wire r) \<Longrightarrow> complete (conditional_div_rem e n d bits) (\<lambda>x. x = (Wire q, Wire r))"
proof -
  have rc: "uval (mul_bool e r) < 2 ^ cmp_bit_size_bucket bits \<longleftrightarrow> (v \<longrightarrow> uval r < 2 ^ cmp_bit_size_bucket bits)" for r
    using assms by (cases v) (simp_all add: mul_bool_def tval_simps bval_def)
  note checks = realises_division_checks [where on = "and_not e", OF bval_and_not [OF assms] rc]
  show "sound (conditional_div_rem e n d bits) (\<lambda>(q, r). division_accepts v n d bits q r)"
    unfolding conditional_div_rem_def Let_def by (rule hinted_division(1) [OF checks])
  show "complete (conditional_div_rem e n d bits) (\<lambda>x. x = (Wire q, Wire r))" if "division_accepts v n d bits (Wire q) (Wire r)"
    unfolding conditional_div_rem_def Let_def by (rule hinted_division(2) [OF checks that])
qed

lemma div_rem_accepts:
  "sound (div_rem n d bits) (\<lambda>(q, r). division_accepts True n d bits q r)"
  "division_accepts True n d bits (Wire q) (Wire r) \<Longrightarrow> complete (div_rem n d bits) (\<lambda>x. x = (Wire q, Wire r))"
proof -
  have on: "bval (b_not z) (True \<and> uval d \<noteq> 0)" if "bval z (uval d = 0)" for z using bval_not [OF that] by simp
  have rc: "uval r < 2 ^ cmp_bit_size_bucket bits \<longleftrightarrow> (True \<longrightarrow> uval r < 2 ^ cmp_bit_size_bucket bits)" for r by simp
  note checks = realises_division_checks [where on = b_not, OF on rc]
  show "sound (div_rem n d bits) (\<lambda>(q, r). division_accepts True n d bits q r)"
    unfolding div_rem_def Let_def by (rule hinted_division(1) [OF checks])
  show "complete (div_rem n d bits) (\<lambda>x. x = (Wire q, Wire r))" if "division_accepts True n d bits (Wire q) (Wire r)"
    unfolding div_rem_def Let_def by (rule hinted_division(2) [OF checks that])
qed

text \<open>While quotient times divisor cannot wrap around, quotient and remainder are the ones of the integers.\<close>

definition division_fits :: "target \<Rightarrow> target \<Rightarrow> bool" where
  "division_fits n d \<longleftrightarrow> uval n * uval d + uval d \<le> p_nat"

definition is_quotient :: "target \<Rightarrow> target \<Rightarrow> target \<times> target \<Rightarrow> bool" where
  "is_quotient n d qr \<longleftrightarrow> uval (fst qr) = uval n div uval d \<and> uval (snd qr) = (if uval d = 0 then 0 else uval n mod uval d)"

lemma division_accepts_unique:
  assumes "division_accepts True n d bits q r" "division_fits n d"
  shows "is_quotient n d (q, r)"
proof (cases "uval d = 0")
  case True
  with assms(1) show ?thesis by (simp add: division_accepts_def is_quotient_def)
next
  case False
  then have eq: "tval q * tval d + tval r = tval n" and q: "uval q \<le> uval n" and r: "uval r < uval d"
    using assms(1) by (simp_all add: division_accepts_def)
  have "uval q * uval d + uval r < uval n * uval d + uval d" by (rule add_le_less_mono [OF mult_le_mono1 [OF q] r])
  then have lt: "uval q * uval d + uval r < p_nat" using assms(2) unfolding division_fits_def by (rule less_le_trans)
  have "(of_nat (uval q * uval d + uval r) :: gf) = of_nat (uval n)"
    unfolding of_nat_add of_nat_mult of_nat_to_canonical by (rule eq)
  then have n: "uval n = uval q * uval d + uval r" using gf_of_nat_inj [OF lt to_canonical_lt] by metis
  show ?thesis unfolding is_quotient_def fst_conv snd_conv n using r False by simp
qed

text \<open>The hint of the generator is accepted whenever the remainder passes its range check.\<close>

lemma generator_accepted:
  assumes "v \<and> uval d \<noteq> 0 \<longrightarrow> uval n mod uval d < 2 ^ cmp_bit_size_bucket bits"
  shows "case div_rem_hint_generator (tval n) (tval d) of (q, r) \<Rightarrow> division_accepts v n d bits (Wire q) (Wire r)"
proof (cases "uval d = 0")
  case True
  then show ?thesis by (simp add: div_rem_hint_generator_def division_accepts_def)
next
  case False
  have lt: "uval n div uval d < p_nat" "uval n mod uval d < p_nat"
    using to_canonical_lt [of "tval n"] by (meson div_le_dividend mod_less_eq_dividend le_less_trans)+
  have "of_nat (uval n div uval d) * tval d + of_nat (uval n mod uval d)
      = (of_nat ((uval n div uval d) * uval d + uval n mod uval d) :: gf)"
    by (simp only: of_nat_add of_nat_mult of_nat_to_canonical)
  then have eq: "of_nat (uval n div uval d) * tval d + of_nat (uval n mod uval d) = tval n" by (simp add: div_mult_mod_eq)
  have "uval (Wire (of_nat (uval n div uval d))) = uval n div uval d" "uval (Wire (of_nat (uval n mod uval d))) = uval n mod uval d"
    using lt by (simp_all only: tval.simps to_canonical_of_nat_small)
  then show ?thesis
    using False assms eq
    by (simp add: div_rem_hint_generator_def Let_def division_accepts_def) (intro impI mod_less_divisor gr0I, simp)
qed

lemma realises_div_rem:
  assumes "division_fits n d"
  shows "realises (div_rem n d bits) (uval d \<noteq> 0 \<longrightarrow> uval n mod uval d < 2 ^ cmp_bit_size_bucket bits) (is_quotient n d)"
proof (rule realisesI)
  show "sound (div_rem n d bits)
      (\<lambda>x. (uval d \<noteq> 0 \<longrightarrow> uval n mod uval d < 2 ^ cmp_bit_size_bucket bits) \<and> is_quotient n d x)"
  proof (rule sound_weaken [OF div_rem_accepts(1)], unfold split_paired_all prod.case)
    fix q r assume acc: "division_accepts True n d bits q r"
    from division_accepts_unique [OF this assms] acc
    show "(uval d \<noteq> 0 \<longrightarrow> uval n mod uval d < 2 ^ cmp_bit_size_bucket bits) \<and> is_quotient n d (q, r)"
      by (auto simp: is_quotient_def division_accepts_def)
  qed
  assume "uval d \<noteq> 0 \<longrightarrow> uval n mod uval d < 2 ^ cmp_bit_size_bucket bits"
  from generator_accepted [of True d n bits] this
  show "complete (div_rem n d bits) (\<lambda>_. True)"
    by (auto split: prod.splits intro!: complete_weaken [OF div_rem_accepts(2)])
qed

lemma implements_div_rem:
  assumes "division_fits n d" "uval d \<le> 2 ^ bits" "bits \<le> 64"
  shows "implements (div_rem n d bits) (is_quotient n d)"
proof (rule realises_implements [OF realises_div_rem [OF assms(1)]], rule impI)
  assume "uval d \<noteq> 0"
  then have "uval n mod uval d < 2 ^ bits" using mod_less_divisor [of "uval d" "uval n"] assms(2) by linarith
  then show "uval n mod uval d < 2 ^ cmp_bit_size_bucket bits"
    by (rule pow2_mono_less) (use assms(3) in \<open>simp add: cmp_bit_size_bucket_def\<close>)
qed

lemma implements_conditional_div_rem:
  assumes "bval e v" "v \<Longrightarrow> division_fits n d" "v \<Longrightarrow> uval d \<le> 2 ^ bits" "bits \<le> 64"
  shows "implements (conditional_div_rem e n d bits) (\<lambda>x. v \<longrightarrow> is_quotient n d x)"
proof (rule implementsI)
  show "sound (conditional_div_rem e n d bits) (\<lambda>x. v \<longrightarrow> is_quotient n d x)"
    by (rule sound_weaken [OF conditional_div_rem_accepts(1) [OF assms(1)]]) (use assms(2) division_accepts_unique in auto)
  have "uval n mod uval d < 2 ^ cmp_bit_size_bucket bits" if v "uval d \<noteq> 0"
  proof -
    have "uval n mod uval d < 2 ^ bits" using mod_less_divisor [of "uval d" "uval n"] assms(3) that by fastforce
    then show ?thesis by (rule pow2_mono_less) (use assms(4) in \<open>simp add: cmp_bit_size_bucket_def\<close>)
  qed
  then have "case div_rem_hint_generator (tval n) (tval d) of (q, r) \<Rightarrow> division_accepts v n d bits (Wire q) (Wire r)"
    by (intro generator_accepted) blast
  then obtain q r where acc: "division_accepts v n d bits (Wire q) (Wire r)" by (auto split: prod.splits)
  then have "v \<longrightarrow> is_quotient n d (Wire q, Wire r)" using assms(2) division_accepts_unique by (cases v) auto
  then show "complete (conditional_div_rem e n d bits) (\<lambda>x. v \<longrightarrow> is_quotient n d x)"
    by (intro complete_weaken [OF conditional_div_rem_accepts(2) [OF assms(1) acc]]) simp
qed

lemma implements_ceil_div:
  assumes "division_fits n d" "uval d \<le> 2 ^ bits" "bits \<le> 64"
  shows "implements (ceil_div n d bits)
    (\<lambda>r. tval r = of_nat (uval n div uval d + of_bool (uval d \<noteq> 0 \<and> uval n mod uval d \<noteq> 0)))"
  unfolding ceil_div_def
proof (rule implements_bind [OF implements_div_rem [OF assms]], unfold split_paired_all prod.case,
    rule implements_bind [OF implements_is_zero], unfold Let_def, rule implements_return)
  fix q r z assume q: "is_quotient n d (q, r)" and z: "bval z (uval r = 0)"
  have "tval q = of_nat (uval n div uval d)" using q by (metis fst_conv is_quotient_def of_nat_to_canonical)
  moreover have "tval (b_sub (Const 1) z) = of_bool (uval d \<noteq> 0 \<and> uval n mod uval d \<noteq> 0)"
    using q z by (auto simp: is_quotient_def bval_def tval_simps)
  ultimately show "tval (b_add q (b_sub (Const 1) z)) = of_nat (uval n div uval d + of_bool (uval d \<noteq> 0 \<and> uval n mod uval d \<noteq> 0))"
    by (simp add: tval_simps del: of_nat_mult)
qed

text \<open>A quotient and a remainder that make up the dividend plus the order of the field are accepted too.\<close>

lemma wrapped_quotient:
  assumes "q * uval d + r = uval n + p_nat" "q \<le> uval n" "r < uval d" "r < 2 ^ cmp_bit_size_bucket bits"
  shows "division_accepts True n d bits (Wire (of_nat q)) (Wire (of_nat r))"
    and "q < p_nat" "r < p_nat" "q \<noteq> uval n div uval d"
proof -
  show lt: "q < p_nat" "r < p_nat" using assms(2,3) to_canonical_lt [of "tval n"] to_canonical_lt [of "tval d"] by linarith+
  then have val: "uval (Wire (of_nat q)) = q" "uval (Wire (of_nat r)) = r" by (simp_all only: tval.simps to_canonical_of_nat_small)
  have "of_nat q * tval d + of_nat r = (of_nat (q * uval d + r) :: gf)" by (simp only: of_nat_add of_nat_mult of_nat_to_canonical)
  also have "\<dots> = of_nat (uval n)" unfolding assms(1) gf_of_nat_eq_iff by simp
  finally have "of_nat q * tval d + of_nat r = tval n" by simp
  moreover have "uval d \<noteq> 0" using assms(3) by linarith
  ultimately show "division_accepts True n d bits (Wire (of_nat q)) (Wire (of_nat r))"
    using assms(2-4) val by (simp add: division_accepts_def)
  show "q \<noteq> uval n div uval d"
  proof
    assume "q = uval n div uval d"
    then have "q * uval d \<le> uval n" by (simp only: div_times_less_eq_dividend)
    moreover have "r < p_nat" by (rule lt(2))
    ultimately show False using assms(1) by linarith
  qed
qed

section \<open>Properties\<close>

text \<open>
  Comparison of field elements: for operands that fit the bucket of \<open>num_bits\<close> the comparisons
  decide the order of the canonical values and the median is the middle one; above 48 bits this holds
  for all field elements.
\<close>

theorem comparison_correct:
  assumes "cmp_ok n a" "cmp_ok n b" "cmp_ok n c"
  shows "implements (is_lte a b n) (\<lambda>r. bval r (uval a \<le> uval b))
    \<and> implements (is_lt a b n) (\<lambda>r. bval r (uval a < uval b))
    \<and> implements (cmp a b n) (\<lambda>r. sval r (int (uval a) - int (uval b)))
    \<and> implements (median3 a b c n) (\<lambda>r. uval r = median_nat (uval a) (uval b) (uval c))"
  by (simp add: implements_is_lte implements_is_lt implements_cmp implements_median3 assms)

theorem comparison_correct_witness:
  "implements (is_lte (Wire 70000) (Wire 69999) 17) (\<lambda>r. bval r False)
   \<and> implements (median3 (Wire (- 1)) (Wire 3) (Wire 4) 63) (\<lambda>r. uval r = 4)"
  using comparison_correct [of 17 "Wire 70000" "Wire 69999" "Wire 0"] comparison_correct [of 63 "Wire (- 1)" "Wire 3" "Wire 4"]
  by (simp add: cmp_ok_def cmp_bit_size_bucket_def gf_minus_one median_nat_def)

text \<open>
  Signed field elements: the computed sign and absolute value are those of the integer
  \<open>get_signed_target\<close> reads off, for every field element, and the signed range check is exact.
\<close>

theorem signed_abs_correct:
  assumes "bits \<noteq> 0" "bits \<le> 64"
  shows "implements (signed_abs t) (\<lambda>(a, s). int (uval a) = \<bar>get_signed_target t\<bar> \<and> sval s (get_signed_target t))
    \<and> realises (range_check_signed t bits) (\<bar>get_signed_target t\<bar> < 2 ^ bits) (\<lambda>_. True)"
  using implements_signed_abs realises_range_check_signed [OF assms] by blast

theorem signed_abs_correct_witness:
  "implements (signed_abs (Wire (- 5))) (\<lambda>(a, s). int (uval a) = 5 \<and> sval s (- 5))"
proof -
  have "get_signed_target (Wire (- 5)) = - 5"
    by (rule get_signed_target_eqI) (simp_all add: signed_range_def goldilocks_order_nat)
  then show ?thesis using signed_abs_correct [of 60 "Wire (- 5)"] by simp
qed

text \<open>
  Hinted division: as long as dividend times divisor cannot exceed the order of the field, every
  accepted quotient and remainder is the one of the integers and the generator's hint is accepted; a zero
  divisor gives zeros.
\<close>

theorem div_rem_correct:
  assumes "uval n * uval d + uval d \<le> p_nat" "uval d \<le> 2 ^ bits" "bits \<le> 64"
  shows "implements (div_rem n d bits)
    (\<lambda>(q, r). uval q = uval n div uval d \<and> uval r = (if uval d = 0 then 0 else uval n mod uval d))"
  using implements_div_rem [of n d bits] assms by (simp add: division_fits_def is_quotient_def [abs_def] split_def)

theorem div_rem_correct_witness:
  "implements (div_rem (Wire 1000000) (Wire 300) 10) (\<lambda>(q, r). uval q = 3333 \<and> uval r = 100)"
  using div_rem_correct [of "Wire 1000000" "Wire 300" 10] by simp

text \<open>
  The division only holds in the field: whenever a quotient of at most the dividend and a remainder
  below the divisor make up the dividend plus the order of the field, the circuit accepts them, although
  they are not the quotient and remainder of the integers.
\<close>

theorem div_rem_wraps:
  assumes "q * uval d + r = uval n + p_nat" "q \<le> uval n" "r < uval d" "r < 2 ^ cmp_bit_size_bucket bits"
  shows "complete (div_rem n d bits) (\<lambda>(x, y). uval x = q \<and> uval y = r \<and> uval x \<noteq> uval n div uval d)"
proof (rule complete_weaken [OF div_rem_accepts(2) [OF wrapped_quotient(1) [OF assms]]])
  show "case x of (x, y) \<Rightarrow> uval x = q \<and> uval y = r \<and> uval x \<noteq> uval n div uval d"
    if "x = (Wire (of_nat q), Wire (of_nat r))" for x using that wrapped_quotient(2-4) [OF assms] by simp
qed

theorem div_rem_wraps_witness:
  "complete (div_rem (Wire 4294967296) (Wire 8589934592) 34)
    (\<lambda>(x, y). uval x = 2147483648 \<and> uval y = 1 \<and> uval x \<noteq> 0)"
  using div_rem_wraps [of 2147483648 "Wire 8589934592" 1 "Wire 4294967296" 34] by (simp add: cmp_bit_size_bucket_def)

end
