(* ===== verification/U16_Gadgets.thy ===== *)
theory U16_Gadgets
  imports U16_Arithmetic_Gate Comparison
begin

text \<open>
  The gadgets on 16-bit targets (\<open>uint/u16/gadgets/arithmetic_u16.rs\<close>, \<open>uint/u16/split.rs\<close>). The
  add-many and subtraction gates serve all sizes; the arithmetic gate is the restricted
  \<open>U16ArithmeticGate\<close>, so \<open>mul_add_u16\<close> only has the contract of that gate. The sums of two limbs and
  a carry that the multi-limb integers use never reach it.
\<close>

section \<open>Targets\<close>

definition is_u16 :: "target \<Rightarrow> bool" where
  "is_u16 t \<longleftrightarrow> uval t < 2 ^ 16"

definition constant_u16 :: "nat \<Rightarrow> target" where
  "constant_u16 c = Const (of_nat c)"

definition zero_u16 :: target where "zero_u16 = Const 0"
definition one_u16 :: target where "one_u16 = Const 1"

definition add_virtual_u16_target_unsafe :: "target circ" where
  "add_virtual_u16_target_unsafe = add_virtual_target"

definition add_virtual_u16_target_safe :: "target circ" where
  "add_virtual_u16_target_safe =
    circ_bind add_virtual_target (\<lambda>target. circ_bind (register_range_check target 16) (\<lambda>_. circ_return target))"

definition add_virtual_u16_targets_safe :: "nat \<Rightarrow> target list circ" where
  "add_virtual_u16_targets_safe n =
    circ_bind (add_virtual_targets n) (\<lambda>targets.
    circ_bind (circ_for targets (\<lambda>target. register_range_check target 16)) (\<lambda>_. circ_return targets))"

definition select_u16 :: "target \<Rightarrow> target \<Rightarrow> target \<Rightarrow> target" where
  "select_u16 cond a b = select cond a b"

definition connect_u16 :: "target \<Rightarrow> target \<Rightarrow> unit circ" where
  "connect_u16 x y = connect x y"

definition assert_zero_u16 :: "target \<Rightarrow> unit circ" where
  "assert_zero_u16 x = assert_zero x"

definition conditional_assert_zero_u16 :: "target \<Rightarrow> target \<Rightarrow> unit circ" where
  "conditional_assert_zero_u16 cond a = conditional_assert_eq cond a (Const 0)"

definition is_equal_u16 :: "target \<Rightarrow> target \<Rightarrow> target circ" where
  "is_equal_u16 a b = is_equal a b"

definition is_zero_u16 :: "target \<Rightarrow> target circ" where
  "is_zero_u16 x = is_equal_u16 zero_u16 x"

definition conditional_assert_eq_u16 :: "target \<Rightarrow> target \<Rightarrow> target \<Rightarrow> unit circ" where
  "conditional_assert_eq_u16 cond a b = conditional_assert_eq cond a b"

lemma is_u16_constants [simp]: "is_u16 zero_u16" "is_u16 one_u16" "c < 2 ^ 16 \<Longrightarrow> is_u16 (constant_u16 c)"
  by (simp_all add: is_u16_def zero_u16_def one_u16_def constant_u16_def)

lemma uval_constants_u16 [simp]: "uval zero_u16 = 0" "uval one_u16 = 1"
  by (simp_all add: zero_u16_def one_u16_def)

lemma uval_constant_u16: "c < 2 ^ 16 \<Longrightarrow> uval (constant_u16 c) = c"
  by (simp add: constant_u16_def)

lemma is_u16_select: "bval c b \<Longrightarrow> is_u16 x \<Longrightarrow> is_u16 y \<Longrightarrow> is_u16 (select_u16 c x y)"
  by (simp add: is_u16_def select_u16_def uval_select)

lemma uval_select_u16: "bval c b \<Longrightarrow> uval (select_u16 c x y) = (if b then uval x else uval y)"
  by (simp add: select_u16_def uval_select)

lemma implements_is_equal_u16: "implements (is_equal_u16 x y) (\<lambda>r. bval r (uval x = uval y))"
  using implements_is_equal by (simp add: is_equal_u16_def to_canonical_inject)

lemma implements_is_zero_u16: "implements (is_zero_u16 x) (\<lambda>r. bval r (uval x = 0))"
  using implements_is_equal_u16 [of zero_u16 x] by (simp add: is_zero_u16_def eq_commute [of 0])

lemma sound_add_virtual_u16_target_safe: "sound add_virtual_u16_target_safe is_u16"
  unfolding add_virtual_u16_target_safe_def
  by (intro sound_bind [OF sound_add_virtual_target] sound_bind [OF realises_sound [OF realises_register_range_check]] sound_return)
    (simp_all add: is_u16_def)

lemma complete_add_virtual_u16_target_safe:
  "v < 2 ^ 16 \<Longrightarrow> complete add_virtual_u16_target_safe (\<lambda>t. t = Wire (of_nat v))"
  unfolding add_virtual_u16_target_safe_def
  by (rule complete_bind [OF complete_add_virtual_target [of "of_nat v"]],
      rule complete_bind [OF implements_complete [OF realises_implements [OF realises_register_range_check]]])
    (simp_all add: complete_return)

section \<open>Multiplication and addition\<close>

definition arithmetic_u16_special_cases :: "target \<Rightarrow> target \<Rightarrow> target \<Rightarrow> (target \<times> target) option" where
  "arithmetic_u16_special_cases x y z =
    (let x_const = target_as_constant x; y_const = target_as_constant y; z_const = target_as_constant z;
         first_term_const = (case (x_const, y_const) of (Some xx, Some yy) \<Rightarrow> Some (xx * yy) | _ \<Rightarrow> None)
     in case (first_term_const, z_const) of
       (Some a, Some b) \<Rightarrow>
         let sum = to_canonical_u64 (a + b)
         in Some (constant_u16 (sum mod 2 ^ 16), constant_u16 (sum div 2 ^ 16 mod 2 ^ 16))
     | _ \<Rightarrow>
       if x_const = Some 0 \<or> y_const = Some 0 then Some (z, zero_u16)
       else if z_const = Some 0 \<and> x_const = Some 1 then Some (y, zero_u16)
       else if z_const = Some 0 \<and> y_const = Some 1 then Some (x, zero_u16)
       else None)"

definition mul_add_u16 :: "target \<Rightarrow> target \<Rightarrow> target \<Rightarrow> (target \<times> target) circ" where
  "mul_add_u16 x y z =
    (case arithmetic_u16_special_cases x y z of Some result \<Rightarrow> circ_return result | None \<Rightarrow> ua16_slot x y z)"

definition add_u16 :: "target \<Rightarrow> target \<Rightarrow> (target \<times> target) circ" where
  "add_u16 a b = mul_add_u16 a one_u16 b"

definition add_u16_lo :: "target \<Rightarrow> target \<Rightarrow> target circ" where
  "add_u16_lo a b = circ_bind (add_u16 a b) (\<lambda>(result, _). circ_return result)"

definition mul_u16 :: "target \<Rightarrow> target \<Rightarrow> (target \<times> target) circ" where
  "mul_u16 a b = mul_add_u16 a b zero_u16"

text \<open>The gate of a sum; \<open>find_slot\<close> needs room for an operation.\<close>

definition add_many_slot_u16 :: "target list \<Rightarrow> target \<Rightarrow> (target \<times> target) circ" where
  "add_many_slot_u16 to_add carry =
    circ_bind (circ_panic_unless (0 < am_num_ops (am_new_from_config 16 config_num_wires config_num_routed_wires (length to_add))))
      (\<lambda>_. am_slot 16 to_add carry)"

definition add_u16s_with_carry :: "target list \<Rightarrow> target \<Rightarrow> (target \<times> target) circ" where
  "add_u16s_with_carry to_add carry =
    (if to_add = [] then circ_return (zero_u16, carry)
     else if length to_add = 1 then add_u16 (hd to_add) carry
     else
       let filtered = filter (\<lambda>t. target_as_constant t \<noteq> Some 0) to_add in
       if filtered = [] then add_u16 zero_u16 carry
       else if length filtered = 1 then add_u16 (hd filtered) carry
       else add_many_slot_u16 filtered carry)"

definition add_many_u16 :: "target list \<Rightarrow> (target \<times> target) circ" where
  "add_many_u16 to_add =
    (case to_add of
       [] \<Rightarrow> circ_return (zero_u16, zero_u16)
     | [a] \<Rightarrow> circ_return (a, zero_u16)
     | [a, b] \<Rightarrow> add_u16 a b
     | _ \<Rightarrow> add_u16s_with_carry to_add zero_u16)"

definition u16_halves :: "nat \<Rightarrow> target \<times> target \<Rightarrow> bool" where
  "u16_halves v r \<longleftrightarrow> is_u16 (fst r) \<and> is_u16 (snd r) \<and> uval (fst r) + 2 ^ 16 * uval (snd r) = v"

lemma u16_halvesI: "v < 2 ^ 32 \<Longrightarrow> uval lo = v mod 2 ^ 16 \<Longrightarrow> uval hi = v div 2 ^ 16 \<Longrightarrow> u16_halves v (lo, hi)"
  by (auto simp: u16_halves_def is_u16_def)

lemma u16_mul_add_lt:
  fixes x y z :: nat
  assumes "x < 2 ^ 16" "y < 2 ^ 16" "z < 2 ^ 16"
  shows "x * y + z < 2 ^ 32"
proof -
  have "x * y \<le> (2 ^ 16 - 1) * (2 ^ 16 - 1)" using assms by (intro mult_le_mono) simp_all
  then show ?thesis using assms(3) by simp
qed

lemma mul_add_u16_canonical:
  assumes "is_u16 x" "is_u16 y" "is_u16 z"
  shows "to_canonical_u64 (tval x * tval y + tval z) = uval x * uval y + uval z" "uval x * uval y + uval z < 2 ^ 32"
proof -
  show lt: "uval x * uval y + uval z < 2 ^ 32" using assms u16_mul_add_lt by (simp add: is_u16_def)
  have "tval x * tval y + tval z = of_nat (uval x * uval y + uval z)" by simp
  moreover have "uval x * uval y + uval z < p_nat" using lt by simp
  ultimately show "to_canonical_u64 (tval x * tval y + tval z) = uval x * uval y + uval z"
    using to_canonical_of_nat_small by (simp only:)
qed

lemma special_cases_u16_halves:
  assumes "is_u16 x" "is_u16 y" "is_u16 z" "arithmetic_u16_special_cases x y z = Some r"
  shows "u16_halves (uval x * uval y + uval z) r"
proof (cases "target_as_constant x \<noteq> None \<and> target_as_constant y \<noteq> None \<and> target_as_constant z \<noteq> None")
  case True
  then obtain a b c where c: "x = Const a" "y = Const b" "z = Const c"
    by (cases x; cases y; cases z) auto
  define v where "v = to_canonical_u64 (a * b + c)"
  have "v = uval x * uval y + uval z" "v < 2 ^ 32"
    using mul_add_u16_canonical [OF assms(1-3)] by (simp_all add: v_def c)
  moreover have "r = (constant_u16 (v mod 2 ^ 16), constant_u16 (v div 2 ^ 16 mod 2 ^ 16))"
    using assms(4) by (simp add: arithmetic_u16_special_cases_def c v_def Let_def)
  ultimately show ?thesis by (auto intro!: u16_halvesI simp: uval_constant_u16)
next
  case False
  with assms show ?thesis
    by (cases x; cases y; cases z)
      (auto simp: arithmetic_u16_special_cases_def u16_halves_def Let_def split: if_splits)
qed

text \<open>Unless constants decide the result, only results with halves of eight bits are accepted.\<close>

lemma realises_mul_add_u16:
  assumes "is_u16 x" "is_u16 y" "is_u16 z"
  shows "realises (mul_add_u16 x y z)
    (arithmetic_u16_special_cases x y z \<noteq> None \<or> eight_bit_halves (uval x * uval y + uval z))
    (u16_halves (uval x * uval y + uval z))"
proof (cases "arithmetic_u16_special_cases x y z")
  case None
  have "realises (ua16_slot x y z) (eight_bit_halves (uval x * uval y + uval z)) (u16_halves (uval x * uval y + uval z))"
    by (rule realises_weaken [OF realises_ua16_slot])
      (auto simp: mul_add_u16_canonical(1) [OF assms] intro!: u16_halvesI mul_add_u16_canonical(2) [OF assms])
  with None show ?thesis by (simp add: mul_add_u16_def)
next
  case (Some r)
  then show ?thesis using special_cases_u16_halves [OF assms Some] by (simp add: mul_add_u16_def realises_return)
qed

lemma implements_add_u16_zero: "is_u16 a \<Longrightarrow> implements (add_u16 a zero_u16) (u16_halves (uval a))"
proof -
  assume a: "is_u16 a"
  have "arithmetic_u16_special_cases a one_u16 zero_u16 \<noteq> None"
    by (cases a) (auto simp: arithmetic_u16_special_cases_def one_u16_def zero_u16_def Let_def)
  then show ?thesis
    using realises_mul_add_u16 [OF a, of one_u16 zero_u16] by (simp add: add_u16_def realises_def)
qed

lemma am_width_16: "am_width_ok 16"
  by (simp add: am_width_ok_def)

lemma implements_add_many_slot_u16:
  assumes "list_all is_u16 ts" "2 \<le> length ts" "length ts \<le> 15"
  shows "implements (add_many_slot_u16 ts zero_u16) (u16_halves (\<Sum>t\<leftarrow>ts. uval t))"
proof -
  have "(\<Sum>t\<leftarrow>ts. uval t) \<le> length ts * (2 ^ 16 - 1)"
    using assms(1) by (induction ts) (auto simp: is_u16_def)
  also have "\<dots> \<le> 15 * (2 ^ 16 - 1)" using assms(3) by (rule mult_le_mono1)
  finally have bound: "(\<Sum>t\<leftarrow>ts. uval t) < 16 * 2 ^ 16" by simp
  have canon: "to_canonical_u64 (sum_list (map tval ts)) = (\<Sum>t\<leftarrow>ts. uval t)"
    using sum_list_canonical [of ts zero_u16] bound by (simp add: zero_u16_def)
  have "1 \<le> 136 div (length ts + 13)" "1 \<le> 80 div (length ts + 3)"
    using assms(3) div_le_mono2 [of "length ts + 13" 28 136] div_le_mono2 [of "length ts + 3" 18 80] by simp_all
  then have ops: "0 < am_num_ops (am_new_from_config 16 config_num_wires config_num_routed_wires (length ts))"
    by (simp add: am_new_from_config_def config_num_wires_def config_num_routed_wires_def
      ceil_div_usize_def am_limb_bits_def am_num_carry_limbs_def LOG2_MAX_NUM_ADDENDS_def Let_def add.assoc)
  show ?thesis
    unfolding add_many_slot_u16_def
  proof (rule implements_bind [OF implements_panic [OF ops]], rule implements_weaken [OF implements_am_slot [OF am_width_16]])
    show "to_canonical_u64 (sum_list (map tval ts) + tval zero_u16) < 16 * 2 ^ 16"
      using bound canon by (simp add: zero_u16_def)
    fix r
    assume r: "case r of (result, output_carry) \<Rightarrow>
      to_canonical_u64 (tval result) = to_canonical_u64 (sum_list (map tval ts) + tval zero_u16) mod 2 ^ 16 \<and>
      to_canonical_u64 (tval output_carry) = to_canonical_u64 (sum_list (map tval ts) + tval zero_u16) div 2 ^ 16"
    have "(\<Sum>t\<leftarrow>ts. uval t) < 2 ^ 32" using bound by simp
    then show "u16_halves (\<Sum>t\<leftarrow>ts. uval t) r"
      using r canon by (cases r) (auto intro!: u16_halvesI simp: zero_u16_def)
  qed
qed

text \<open>Sums of three to fifteen 16-bit values are exact.\<close>

lemma implements_add_many_u16:
  assumes "list_all is_u16 ts" "3 \<le> length ts" "length ts \<le> 15"
  shows "implements (add_many_u16 ts) (u16_halves (\<Sum>t\<leftarrow>ts. uval t))"
proof -
  let ?fs = "filter (\<lambda>t. target_as_constant t \<noteq> Some 0) ts"
  have sum: "(\<Sum>t\<leftarrow>?fs. uval t) = (\<Sum>t\<leftarrow>ts. uval t)" by (rule sum_list_filter_zero)
  have fs: "list_all is_u16 ?fs" "length ?fs \<le> 15" using assms(1) le_trans [OF length_filter_le assms(3)]
    by (auto simp: list_all_iff)
  obtain a b c us where ts: "ts = a # b # c # us" using assms(2) by (metis Suc_le_length_iff numeral_3_eq_3)
  have eq: "add_many_u16 ts = add_u16s_with_carry ts zero_u16" by (simp add: ts add_many_u16_def)
  have len: "ts \<noteq> []" "length ts \<noteq> 1" using assms(2) by auto
  consider "?fs = []" | "length ?fs = 1" | "2 \<le> length ?fs" by (cases ?fs rule: list.exhaust) (fastforce simp: neq_Nil_conv)+
  then show ?thesis
  proof cases
    case 1
    then have "add_u16s_with_carry ts zero_u16 = add_u16 zero_u16 zero_u16"
      using len by (simp add: add_u16s_with_carry_def)
    moreover have "(\<Sum>t\<leftarrow>ts. uval t) = uval zero_u16" unfolding sum [symmetric] using 1 by (simp only: list.map sum_list.Nil uval_constants_u16)
    ultimately show ?thesis using implements_add_u16_zero [of zero_u16] eq by (simp only: is_u16_constants)
  next
    case 2
    then obtain f where f: "?fs = [f]" by (metis length_0_conv length_Suc_conv One_nat_def)
    then have "add_u16s_with_carry ts zero_u16 = add_u16 f zero_u16"
      using len by (simp add: add_u16s_with_carry_def)
    moreover have "(\<Sum>t\<leftarrow>ts. uval t) = uval f" unfolding sum [symmetric] f by simp
    ultimately show ?thesis using implements_add_u16_zero [of f] eq fs(1) f by simp
  next
    case 3
    then have "?fs \<noteq> []" "length ?fs \<noteq> 1" by auto
    then have "add_u16s_with_carry ts zero_u16 = add_many_slot_u16 ?fs zero_u16"
      using len by (simp only: add_u16s_with_carry_def if_False Let_def)
    then show ?thesis using implements_add_many_slot_u16 [OF fs(1) 3 fs(2)] eq unfolding sum by simp
  qed
qed

section \<open>Subtraction\<close>

definition u16_difference :: "nat \<Rightarrow> nat \<Rightarrow> target \<times> target \<Rightarrow> bool" where
  "u16_difference x y r \<longleftrightarrow> is_u16 (fst r) \<and> bval (snd r) (x < y) \<and> uval (fst r) + y = x + 2 ^ 16 * of_bool (x < y)"

lemma u16_differenceI:
  assumes "x < 2 ^ 16" "y \<le> 2 ^ 16" "int (uval r) = (int x - int y) mod 2 ^ 16" "bval b (x < y)"
  shows "u16_difference x y (r, b)"
proof (cases "x < y")
  case True
  have "(int x - int y) mod 2 ^ 16 = int x - int y + 2 ^ 16"
    using mod_pos_pos_trivial [of "int x - int y + 2 ^ 16" "2 ^ 16"] True assms(1,2) by simp
  then show ?thesis using True assms by (auto simp: u16_difference_def is_u16_def)
next
  case False
  then have "(int x - int y) mod 2 ^ 16 = int x - int y" using assms(1) by (intro mod_pos_pos_trivial) auto
  then show ?thesis using False assms by (auto simp: u16_difference_def is_u16_def)
qed

lemma implements_sub_u16_difference:
  assumes "is_u16 x" "is_u16 y" "bval borrow b"
  shows "implements (sub_u16 x y borrow) (u16_difference (uval x) (uval y + of_bool b))"
proof (cases "target_as_constant y = Some 0 \<and> target_as_constant borrow = Some 0")
  case True
  then have "uval y = 0" "\<not> b" using assms(3) by (auto simp: bval_def dest!: target_as_constant_Some split: if_splits)
  with True show ?thesis
    using assms(1) by (auto simp: sub_u16_def u16_difference_def bval_def intro!: implements_return)
next
  case False
  have w: "sg_width_ok 16" by (simp add: sg_width_ok_def)
  have ub: "uval borrow = of_bool b" by (rule uval_bval [OF assms(3)])
  have "implements (sg_slot 16 x y borrow) (u16_difference (uval x) (uval y + of_bool b))"
  proof (rule implements_weaken [OF implements_sg_slot [OF w]])
    fix r assume "case r of (result, output_borrow) \<Rightarrow>
      int (uval result) = (int (uval x) - int (uval y) - int (uval borrow)) mod 2 ^ 16 \<and>
      tval output_borrow = of_bool (uval x < uval y + uval borrow)"
    then show "u16_difference (uval x) (uval y + of_bool b) r"
      using assms(1,2) unfolding ub
      by (cases r) (auto intro!: u16_differenceI simp: is_u16_def bval_def algebra_simps)
  qed (use assms(1,2) ub in \<open>auto simp: is_u16_def\<close>)
  then show ?thesis by (simp only: sub_u16_def if_not_P [OF False])
qed

section \<open>Splitting a field element\<close>

text \<open>
  Without the cache: a second split of the same target returns the first one's limbs, padded with zeros
  (and panics if fewer limbs are asked for). No limbs at all panic on \<open>limbs.last().unwrap()\<close>.
\<close>

definition split_u64_to_u16s_le :: "target \<Rightarrow> nat \<Rightarrow> target list circ" where
  "split_u64_to_u16s_le x num_limbs =
    circ_bind (circ_panic_unless (num_limbs \<le> 4)) (\<lambda>_.
    circ_bind (circ_map (\<lambda>_. add_virtual_u16_target_safe) [0..<num_limbs]) (\<lambda>limbs.
    if num_limbs \<noteq> 4 then
      circ_bind (circ_panic_unless (limbs \<noteq> [])) (\<lambda>_.
      let acc = foldl (\<lambda>acc limb. b_mul_add acc (Const (2 ^ 16)) limb) (last limbs) (rev (butlast limbs)) in
      circ_bind (connect acc x) (\<lambda>_. circ_return limbs))
    else
      let low = b_mul_add (limbs ! 1) (Const (2 ^ 16)) (limbs ! 0);
          high = b_mul_add (limbs ! 3) (Const (2 ^ 16)) (limbs ! 2);
          result = b_mul_add high (Const (2 ^ 32)) low in
      circ_bind (connect result x) (\<lambda>_.
      circ_bind (is_equal high (Const (2 ^ 32 - 1))) (\<lambda>is_high_max.
      circ_bind (conditional_assert_zero_u32 is_high_max low) (\<lambda>_. circ_return limbs)))))"

text \<open>\<open>SplitToU16Generator\<close>: the digits of the canonical value.\<close>

definition split_to_u16_generator :: "gf \<Rightarrow> nat \<Rightarrow> nat list" where
  "split_to_u16_generator x num_limbs = le_digits (2 ^ 16) num_limbs (to_canonical_u64 x)"

text \<open>The value of 16-bit limbs.\<close>

definition bnat16 :: "target list \<Rightarrow> nat" where
  "bnat16 a = le_value (2 ^ 16) (map uval a)"

definition limbs16_ok :: "target list \<Rightarrow> bool" where
  "limbs16_ok a \<longleftrightarrow> list_all is_u16 a"

definition big16 :: "target list \<Rightarrow> nat \<Rightarrow> nat \<Rightarrow> bool" where
  "big16 r n v \<longleftrightarrow> limbs16_ok r \<and> length r = n \<and> bnat16 r = v"

lemma tval_recombine: "tval (foldl (\<lambda>acc limb. b_mul_add acc (Const (2 ^ 16)) limb) a ls) = foldl (\<lambda>acc d. 2 ^ 16 * acc + d) (tval a) (map tval ls)"
  by (induction ls arbitrary: a) (simp_all add: tval_simps mult.commute)

lemma tval_recombine_limbs:
  assumes "limbs \<noteq> []"
  shows "tval (foldl (\<lambda>acc limb. b_mul_add acc (Const (2 ^ 16)) limb) (last limbs) (rev (butlast limbs))) = le_value (2 ^ 16) (map tval limbs)"
proof -
  have "rev (map tval limbs) = tval (last limbs) # map tval (rev (butlast limbs))"
    using assms by (cases limbs rule: rev_cases) (simp_all add: rev_map)
  then have "le_value (2 ^ 16) (map tval limbs) = foldl (\<lambda>acc d. 2 ^ 16 * acc + d) (tval (last limbs)) (map tval (rev (butlast limbs)))"
    using le_value_foldl_rev [of "2 ^ 16" "map tval limbs"] by simp
  then show ?thesis by (simp only: tval_recombine)
qed

lemma limbs16_canonical:
  assumes "limbs16_ok ls" "length ls \<le> 3"
  shows "to_canonical_u64 (le_value (2 ^ 16) (map tval ls)) = bnat16 ls"
proof -
  have "\<forall>x\<in>set (map tval ls). to_canonical_u64 x < 2 ^ 16" using assms(1) by (auto simp: limbs16_ok_def list_all_iff is_u16_def)
  moreover have "((2 ^ 16) ^ length (map tval ls) :: nat) \<le> p_nat"
  proof -
    have "((2 ^ 16) ^ length (map tval ls) :: nat) \<le> (2 ^ 16) ^ 3" using assms(2) by (intro power_increasing) simp_all
    then show ?thesis by simp
  qed
  ultimately show ?thesis using to_canonical_le_value(1) [of "map tval ls" "2 ^ 16"] by (simp add: bnat16_def comp_def)
qed

lemma sound_virtual_limbs16:
  "sound (circ_map (\<lambda>_. add_virtual_u16_target_safe) [0..<n]) (\<lambda>ls. limbs16_ok ls \<and> length ls = n)"
  by (rule sound_weaken [OF sound_circ_map [where P = "\<lambda>_. is_u16"]])
    (auto simp: limbs16_ok_def list_all2_conv_all_nth list_all_length intro: sound_add_virtual_u16_target_safe)

lemma complete_virtual_limbs16:
  assumes "list_all (\<lambda>d. d < 2 ^ 16) ds"
  shows "complete (circ_map (\<lambda>_. add_virtual_u16_target_safe) [0..<length ds]) (\<lambda>ls. ls = map (\<lambda>d. Wire (of_nat d)) ds)"
proof -
  have "complete (circ_map (\<lambda>_. add_virtual_u16_target_safe) [0..<length ds]) (list_all2 (\<lambda>i t. t = Wire (of_nat (ds ! i))) [0..<length ds])"
    by (rule complete_circ_map, rule complete_add_virtual_u16_target_safe) (use assms in \<open>simp add: list_all_length\<close>)
  then show ?thesis by (rule complete_weaken) (auto simp: list_all2_conv_all_nth intro!: nth_equalityI)
qed

text \<open>The checks after the limbs are chosen.\<close>

definition split_check :: "target \<Rightarrow> nat \<Rightarrow> target list \<Rightarrow> target list circ" where
  "split_check x num_limbs limbs =
    (if num_limbs \<noteq> 4 then
      circ_bind (circ_panic_unless (limbs \<noteq> [])) (\<lambda>_.
      let acc = foldl (\<lambda>acc limb. b_mul_add acc (Const (2 ^ 16)) limb) (last limbs) (rev (butlast limbs)) in
      circ_bind (connect acc x) (\<lambda>_. circ_return limbs))
    else
      let low = b_mul_add (limbs ! 1) (Const (2 ^ 16)) (limbs ! 0);
          high = b_mul_add (limbs ! 3) (Const (2 ^ 16)) (limbs ! 2);
          result = b_mul_add high (Const (2 ^ 32)) low in
      circ_bind (connect result x) (\<lambda>_.
      circ_bind (is_equal high (Const (2 ^ 32 - 1))) (\<lambda>is_high_max.
      circ_bind (conditional_assert_zero_u32 is_high_max low) (\<lambda>_. circ_return limbs))))"

lemma realises_split_check:
  assumes ls: "limbs16_ok ls" "length ls = n" "0 < n" "n \<le> 4"
  shows "realises (split_check x n ls) (bnat16 ls = uval x) (\<lambda>r. r = ls)"
proof (cases "n = 4")
  case False
  have ne: "ls \<noteq> []" and short: "length ls \<le> 3" using ls False by auto
  let ?acc = "foldl (\<lambda>acc limb. b_mul_add acc (Const (2 ^ 16)) limb) (last ls) (rev (butlast ls))"
  have acc: "tval ?acc = tval x \<longleftrightarrow> bnat16 ls = uval x"
    unfolding tval_recombine_limbs [OF ne] limbs16_canonical [OF ls(1) short, symmetric] by (simp only: to_canonical_inject)
  have "realises (circ_bind (connect ?acc x) (\<lambda>_. circ_return ls)) (tval ?acc = tval x) (\<lambda>r. r = ls)"
    by (rule realises_then_return [OF realises_connect]) simp
  then show ?thesis
    unfolding split_check_def if_P [OF False] Let_def acc
    by (intro realises_after [OF implements_panic [OF ne]])
next
  case True
  obtain a b c d where abcd: "ls = [a, b, c, d]" using ls(2) True by (auto simp: length_Suc_conv numeral_eq_Suc)
  have lim: "uval a < 2 ^ 16" "uval b < 2 ^ 16" "uval c < 2 ^ 16" "uval d < 2 ^ 16"
    using ls(1) by (simp_all add: abcd limbs16_ok_def is_u16_def)
  define lo hi where "lo = b_mul_add b (Const (2 ^ 16)) a" and "hi = b_mul_add d (Const (2 ^ 16)) c"
  have halves: "uval lo = uval a + 2 ^ 16 * uval b" "uval hi = uval c + 2 ^ 16 * uval d"
  proof -
    have half: "uval (b_mul_add y (Const (2 ^ 16)) x) = uval x + 2 ^ 16 * uval y" if "uval x < 2 ^ 16" "uval y < 2 ^ 16" for x y
    proof -
      have "tval (b_mul_add y (Const (2 ^ 16)) x) = of_nat (uval x + 2 ^ 16 * uval y)" by (simp add: tval_simps mult.commute)
      moreover have "uval x + 2 ^ 16 * uval y < p_nat" using that by simp
      ultimately show ?thesis using to_canonical_of_nat_small by (simp only:)
    qed
    show "uval lo = uval a + 2 ^ 16 * uval b" "uval hi = uval c + 2 ^ 16 * uval d"
      unfolding lo_def hi_def by (rule half; use lim in simp)+
  qed
  have small: "uval lo < 2 ^ 32" "uval hi < 2 ^ 32" using lim halves by simp_all
  have val: "bnat16 ls = uval lo + 2 ^ 32 * uval hi" by (simp add: abcd bnat16_def halves)
  have field: "tval (b_mul_add hi (Const (2 ^ 32)) lo) = tval hi * 2 ^ 32 + tval lo" by (simp add: tval_simps)
  have body: "split_check x n ls = circ_bind (connect (b_mul_add hi (Const (2 ^ 32)) lo) x) (\<lambda>_.
      circ_bind (is_equal hi (Const (2 ^ 32 - 1))) (\<lambda>m. circ_bind (conditional_assert_zero_u32 m lo) (\<lambda>_. circ_return ls)))"
    unfolding split_check_def lo_def hi_def by (simp add: True abcd Let_def numeral_eq_Suc)
  have fits: "bnat16 ls = uval x \<longleftrightarrow> tval (b_mul_add hi (Const (2 ^ 32)) lo) = tval x \<and> (uval hi = 2 ^ 32 - 1 \<longrightarrow> uval lo = 0)"
  proof
    assume eq: "bnat16 ls = uval x"
    then have "uval lo + 2 ^ 32 * uval hi < p_nat" using val to_canonical_lt [of "tval x"] by simp
    then have "uval hi = 2 ^ 32 - 1 \<longrightarrow> uval lo = 0" using halves_below_order_iff [OF small] by blast
    moreover have "tval hi * 2 ^ 32 + tval lo = tval x"
    proof -
      have "tval x = of_nat (uval lo + 2 ^ 32 * uval hi)" unfolding val [symmetric] eq by simp
      then show ?thesis by simp
    qed
    ultimately show "tval (b_mul_add hi (Const (2 ^ 32)) lo) = tval x \<and> (uval hi = 2 ^ 32 - 1 \<longrightarrow> uval lo = 0)"
      by (simp only: field simp_thms)
  next
    assume h: "tval (b_mul_add hi (Const (2 ^ 32)) lo) = tval x \<and> (uval hi = 2 ^ 32 - 1 \<longrightarrow> uval lo = 0)"
    then show "bnat16 ls = uval x" using halves_canonical [OF small] unfolding field val by metis
  qed
  show ?thesis
    unfolding body fits
  proof (rule realises_bind [OF realises_connect], rule realises_after [OF implements_is_equal])
    fix m assume "bval m (tval hi = tval (Const (2 ^ 32 - 1)))"
    then have m: "bval m (uval hi = 2 ^ 32 - 1)" by (simp only: is_max_iff)
    show "realises (circ_bind (conditional_assert_zero_u32 m lo) (\<lambda>_. circ_return ls)) (uval hi = 2 ^ 32 - 1 \<longrightarrow> uval lo = 0) (\<lambda>r. r = ls)"
      by (rule realises_then_return [OF realises_conditional_assert_zero_u32 [OF m]]) simp
  qed
qed

text \<open>The split is exact: it can be satisfied exactly for values that fit, and then the limbs are those of the value.\<close>

lemma realises_split_u64_to_u16s_le:
  assumes n: "0 < n" "n \<le> 4"
  shows "realises (split_u64_to_u16s_le x n) (uval x < 2 ^ (16 * n)) (\<lambda>ls. big16 ls n (uval x))"
proof -
  have body: "split_u64_to_u16s_le x n = circ_bind (circ_panic_unless (n \<le> 4)) (\<lambda>_.
      circ_bind (circ_map (\<lambda>_. add_virtual_u16_target_safe) [0..<n]) (split_check x n))"
    unfolding split_u64_to_u16s_le_def split_check_def [abs_def] ..
  show ?thesis
    unfolding body
  proof (rule realises_after [OF implements_panic [OF n(2)]], rule realises_choose [OF sound_virtual_limbs16])
    let ?ds = "split_to_u16_generator (tval x) n"
    show "complete (circ_map (\<lambda>_. add_virtual_u16_target_safe) [0..<n]) (\<lambda>ls. (limbs16_ok ls \<and> length ls = n) \<and> bnat16 ls = uval x)"
      if lt: "uval x < 2 ^ (16 * n)"
    proof -
      have ds: "list_all (\<lambda>d. d < 2 ^ 16) ?ds" "length ?ds = n"
        using le_digits_lt [of "2 ^ 16"] by (auto simp: list_all_iff split_to_u16_generator_def)
      let ?ls = "map (\<lambda>d. Wire (of_nat d)) ?ds"
      have small: "d < p_nat" if "d \<in> set ?ds" for d using ds(1) that by (fastforce simp: list_all_iff)
      then have "map uval ?ls = ?ds" by (auto intro!: map_idI)
      then have "bnat16 ?ls = uval x" "limbs16_ok ?ls" "length ?ls = n"
        using ds lt le_value_digits [of "2 ^ 16" n "uval x"]
        by (auto simp: bnat16_def limbs16_ok_def split_to_u16_generator_def power_mult list_all_iff is_u16_def small)
      then show ?thesis
        using complete_weaken [OF complete_virtual_limbs16 [OF ds(1)]] ds(2) by simp
    qed
  next
    fix ls assume ls: "limbs16_ok ls \<and> length ls = n"
    show "realises (split_check x n ls) (bnat16 ls = uval x) (\<lambda>ls. big16 ls n (uval x))"
      by (rule realises_weaken [OF realises_split_check]) (use ls n in \<open>auto simp: big16_def\<close>)
    assume "bnat16 ls = uval x"
    moreover have "bnat16 ls < (2 ^ 16) ^ n"
      using le_value_bound [of "map uval ls" "2 ^ 16"] ls by (auto simp: bnat16_def limbs16_ok_def list_all_iff is_u16_def)
    ultimately show "uval x < 2 ^ (16 * n)" by (simp only: power_mult)
  qed
qed

end
