(* ===== verification/Bigint.thy ===== *)
theory Bigint
  imports Comparison
begin

text \<open>
  Signed multi-limb integers (\<open>circuit/src/bigint/bigint.rs\<close>, with \<open>is_lte_bigint\<close> of
  \<open>bigint/comparison.rs\<close>, the signed divisions of \<open>bigint/div_rem.rs\<close> and \<open>negative_biguint\<close>): a
  magnitude and a sign target. \<open>bigz r n v\<close> says that \<open>r\<close> has \<open>n\<close> proper limbs, denotes the integer \<open>v\<close>
  and carries its sign; the arithmetic is then the one of the integers.
\<close>

section \<open>Representation\<close>

record bigint =
  bi_abs :: biguint
  bi_sign :: target

definition bigz :: "bigint \<Rightarrow> nat \<Rightarrow> int \<Rightarrow> bool" where
  "bigz r n v \<longleftrightarrow> big (bi_abs r) n (nat \<bar>v\<bar>) \<and> sval (bi_sign r) v"

lemma bigzD:
  "bigz r n v \<Longrightarrow> limbs_ok (bi_abs r)" "bigz r n v \<Longrightarrow> length (bi_abs r) = n" "bigz r n v \<Longrightarrow> bnat (bi_abs r) = nat \<bar>v\<bar>"
  "bigz r n v \<Longrightarrow> sval (bi_sign r) v"
  by (simp_all add: bigz_def big_def)

lemma bigz_bound: "bigz r n v \<Longrightarrow> \<bar>v\<bar> < 2 ^ (32 * n)"
  using bnat_bound [of "bi_abs r"] by (auto simp: bigz_def big_def nat_less_iff)

lemma nat_abs_simps:
  "nat \<bar>v\<bar> = 0 \<longleftrightarrow> v = 0" "nat \<bar>v\<bar> = nat \<bar>w\<bar> \<longleftrightarrow> \<bar>v\<bar> = \<bar>w\<bar>" "nat \<bar>v\<bar> \<le> nat \<bar>w\<bar> \<longleftrightarrow> \<bar>v\<bar> \<le> \<bar>w\<bar>" "nat \<bar>v\<bar> < nat \<bar>w\<bar> \<longleftrightarrow> \<bar>v\<bar> < \<bar>w\<bar>"
  "nat \<bar>v\<bar> < 2 ^ k \<longleftrightarrow> \<bar>v\<bar> < 2 ^ k"
  by (auto simp: nat_less_iff)

section \<open>Operations\<close>

definition is_sign_negative :: "target \<Rightarrow> target circ" where
  "is_sign_negative sign = is_equal sign (Const (- 1))"

definition is_sign_positive :: "target \<Rightarrow> target circ" where
  "is_sign_positive sign = is_equal sign (Const 1)"

definition negate_sign :: "target \<Rightarrow> target" where
  "negate_sign sign = b_mul (Const (- 1)) sign"

definition assert_sign :: "target \<Rightarrow> unit circ" where
  "assert_sign sign = (let s_sq = b_mul sign sign; s_cube = b_mul s_sq sign in connect s_cube sign)"

definition connect_bigint :: "bigint \<Rightarrow> bigint \<Rightarrow> unit circ" where
  "connect_bigint a b =
    circ_bind (connect_biguint (bi_abs a) (bi_abs b)) (\<lambda>_. connect (bi_sign a) (bi_sign b))"

definition is_equal_bigint :: "bigint \<Rightarrow> bigint \<Rightarrow> target circ" where
  "is_equal_bigint a b =
    circ_bind (is_equal_biguint (bi_abs a) (bi_abs b)) (\<lambda>abs_eq.
    circ_bind (is_equal (bi_sign a) (bi_sign b)) (\<lambda>sign_eq. circ_return (b_and abs_eq sign_eq)))"

definition is_not_equal_bigint :: "bigint \<Rightarrow> bigint \<Rightarrow> target circ" where
  "is_not_equal_bigint a b = circ_bind (is_equal_bigint a b) (\<lambda>is_equal. circ_return (b_not is_equal))"

definition is_zero_bigint :: "bigint \<Rightarrow> target circ" where
  "is_zero_bigint a =
    circ_bind (is_zero (bi_sign a)) (\<lambda>is_sign_zero.
    circ_bind (is_zero_biguint (bi_abs a)) (\<lambda>is_abs_zero. circ_return (b_and is_sign_zero is_abs_zero)))"

definition add_virtual_sign_target_safe :: "target circ" where
  "add_virtual_sign_target_safe = circ_bind add_virtual_target (\<lambda>s. circ_bind (assert_sign s) (\<lambda>_. circ_return s))"

definition add_virtual_bigint_target_safe :: "nat \<Rightarrow> bigint circ" where
  "add_virtual_bigint_target_safe num_limbs =
    circ_bind (add_virtual_biguint_target_safe num_limbs) (\<lambda>abs.
    circ_bind add_virtual_sign_target_safe (\<lambda>sign.
    circ_bind (is_zero_biguint abs) (\<lambda>abs_is_zero.
    circ_bind (is_zero sign) (\<lambda>sign_is_zero.
    circ_bind (connect abs_is_zero sign_is_zero) (\<lambda>_.
    circ_return \<lparr>bi_abs = abs, bi_sign = sign\<rparr>)))))"

definition zero_bigint :: bigint where
  "zero_bigint = \<lparr>bi_abs = zero_biguint, bi_sign = Const 0\<rparr>"

definition select_bigint :: "target \<Rightarrow> bigint \<Rightarrow> bigint \<Rightarrow> bigint" where
  "select_bigint condition a b =
    \<lparr>bi_abs = select_biguint condition (bi_abs a) (bi_abs b), bi_sign = select condition (bi_sign a) (bi_sign b)\<rparr>"

definition conditional_assert_zero_bigint :: "target \<Rightarrow> bigint \<Rightarrow> unit circ" where
  "conditional_assert_zero_bigint is_enabled a =
    circ_bind (conditional_assert_zero_biguint is_enabled (bi_abs a)) (\<lambda>_. conditional_assert_zero is_enabled (bi_sign a))"

definition abs_diff :: "bigint \<Rightarrow> bigint \<Rightarrow> bigint circ" where
  "abs_diff a b =
    circ_bind (try_sub_biguint (bi_abs a) (bi_abs b)) (\<lambda>(diff_if_a_gt_b, borrow_a_b).
    circ_bind (try_sub_biguint (bi_abs b) (bi_abs a)) (\<lambda>(diff_if_a_lte_b, borrow_b_a).
    circ_return \<lparr>bi_abs = select_biguint borrow_b_a diff_if_a_gt_b diff_if_a_lte_b, bi_sign = b_sub borrow_b_a borrow_a_b\<rparr>))"

definition abs_sum :: "bigint \<Rightarrow> bigint \<Rightarrow> biguint circ" where
  "abs_sum a b = add_biguint (bi_abs a) (bi_abs b)"

definition sub_bigint_non_carry :: "bigint \<Rightarrow> bigint \<Rightarrow> nat \<Rightarrow> bigint circ" where
  "sub_bigint_non_carry a b num_limbs =
    circ_bind (abs_diff a b) (\<lambda>abs_diff.
    circ_bind (abs_sum a b) (\<lambda>abs_sum.
    circ_bind (is_equal (bi_sign a) (bi_sign b)) (\<lambda>is_same_sign.
    let a_sign = bi_sign a; b_sign = bi_sign b;
        result_if_same_sign = \<lparr>bi_abs = bi_abs abs_diff, bi_sign = b_mul a_sign (bi_sign abs_diff)\<rparr>;
        one_minus_a_sign_sqr = arithmetic (- 1) 1 a_sign a_sign (Const 1);
        sign = arithmetic (- 1) 1 one_minus_a_sign_sqr b_sign a_sign;
        result_if_opposite_sign = \<lparr>bi_abs = abs_sum, bi_sign = sign\<rparr>;
        result = select_bigint is_same_sign result_if_same_sign result_if_opposite_sign in
    circ_bind (trim_biguint (bi_abs result) num_limbs) (\<lambda>abs.
    circ_return \<lparr>bi_abs = abs, bi_sign = bi_sign result\<rparr>))))"

definition add_bigint_non_carry :: "bigint \<Rightarrow> bigint \<Rightarrow> nat \<Rightarrow> bigint circ" where
  "add_bigint_non_carry a b num_limbs =
    (let neg_b = \<lparr>bi_abs = bi_abs b, bi_sign = b_mul (Const (- 1)) (bi_sign b)\<rparr> in
     sub_bigint_non_carry a neg_b num_limbs)"

definition mul_bigint_with_biguint_non_carry :: "bigint \<Rightarrow> biguint \<Rightarrow> nat \<Rightarrow> bigint circ" where
  "mul_bigint_with_biguint_non_carry a b num_limbs =
    circ_bind (mul_biguint_non_carry (bi_abs a) b num_limbs) (\<lambda>abs.
    circ_bind (is_zero_biguint b) (\<lambda>is_b_zero.
    circ_return \<lparr>bi_abs = abs, bi_sign = select is_b_zero (Const 0) (bi_sign a)\<rparr>))"

definition mul_bigint_by_bool :: "bigint \<Rightarrow> target \<Rightarrow> bigint" where
  "mul_bigint_by_bool a b = \<lparr>bi_abs = mul_biguint_by_bool (bi_abs a) b, bi_sign = b_mul (bi_sign a) b\<rparr>"

definition sub_bigint :: "bigint \<Rightarrow> bigint \<Rightarrow> bigint circ" where
  "sub_bigint a b =
    (let num_limbs = max (length (bi_abs a)) (length (bi_abs b)) + 1 in sub_bigint_non_carry a b num_limbs)"

definition signed_target_to_bigint :: "target \<Rightarrow> bigint circ" where
  "signed_target_to_bigint t =
    circ_bind (signed_abs t) (\<lambda>(abs, sign).
    circ_bind (target_to_biguint abs) (\<lambda>abs. circ_return \<lparr>bi_abs = abs, bi_sign = sign\<rparr>))"

definition bigint_to_signed_target_unsafe :: "bigint \<Rightarrow> target circ" where
  "bigint_to_signed_target_unsafe t =
    circ_bind (biguint_to_target_safe (bi_abs t)) (\<lambda>positive_result. circ_return (b_mul positive_result (bi_sign t)))"

definition biguint_to_bigint :: "biguint \<Rightarrow> bigint circ" where
  "biguint_to_bigint a =
    circ_bind (is_zero_biguint a) (\<lambda>is_zero. circ_return \<lparr>bi_abs = a, bi_sign = b_sub (Const 1) is_zero\<rparr>)"

definition negative_biguint :: "biguint \<Rightarrow> bigint circ" where
  "negative_biguint a =
    circ_bind (is_zero_biguint a) (\<lambda>is_target_zero.
    circ_return \<lparr>bi_abs = a, bi_sign = select is_target_zero (Const 0) (Const (- 1))\<rparr>)"

text \<open>\<open>zip_eq\<close> panics unless both have the same number of limbs.\<close>

definition bigint_vector_diff :: "bigint \<Rightarrow> bigint \<Rightarrow> bigint circ" where
  "bigint_vector_diff a b =
    circ_bind (circ_panic_unless (length (bi_abs a) = length (bi_abs b))) (\<lambda>_.
    circ_return \<lparr>bi_abs = map2 (\<lambda>x y. b_sub x y) (bi_abs a) (bi_abs b), bi_sign = b_sub (bi_sign a) (bi_sign b)\<rparr>)"

definition bigint_vector_sum :: "target \<Rightarrow> bigint \<Rightarrow> bigint \<Rightarrow> bigint circ" where
  "bigint_vector_sum cond a b =
    circ_bind (circ_panic_unless (length (bi_abs a) = length (bi_abs b))) (\<lambda>_.
    circ_return \<lparr>bi_abs = map2 (\<lambda>x y. b_mul_add cond x y) (bi_abs a) (bi_abs b), bi_sign = b_mul_add cond (bi_sign a) (bi_sign b)\<rparr>)"

definition trim_bigint :: "bigint \<Rightarrow> nat \<Rightarrow> bigint circ" where
  "trim_bigint a final_num_limbs =
    circ_bind (trim_biguint (bi_abs a) final_num_limbs) (\<lambda>abs. circ_return \<lparr>bi_abs = abs, bi_sign = bi_sign a\<rparr>)"

definition neg_bigint :: "bigint \<Rightarrow> bigint" where
  "neg_bigint a = \<lparr>bi_abs = bi_abs a, bi_sign = b_neg (bi_sign a)\<rparr>"

definition cmp_bigint :: "bigint \<Rightarrow> bigint \<Rightarrow> target circ" where
  "cmp_bigint a b =
    circ_bind (is_sign_positive (bi_sign a)) (\<lambda>a_is_positive.
    circ_bind (is_sign_positive (bi_sign b)) (\<lambda>b_is_positive.
    circ_bind (is_sign_negative (bi_sign a)) (\<lambda>a_is_negative.
    circ_bind (is_sign_negative (bi_sign b)) (\<lambda>b_is_negative.
    circ_bind (cmp_biguint (bi_abs a) (bi_abs b)) (\<lambda>result.
    let a_pos_b_not_pos = b_and a_is_positive (b_not b_is_positive);
        result = select a_pos_b_not_pos (Const 1) result in
    circ_bind (is_equal (bi_sign a) (Const 0)) (\<lambda>a_is_zero.
    let b_sign_flipped = b_mul (Const (- 1)) (bi_sign b);
        result = select a_is_zero b_sign_flipped result;
        a_neg_b_not_neg = b_and a_is_negative (b_not b_is_negative);
        result = select a_neg_b_not_neg (Const (- 1)) result;
        a_neg_b_neg = b_and a_is_negative b_is_negative;
        a_cmp_b_flipped = b_mul (Const (- 1)) result in
    circ_return (select a_neg_b_neg a_cmp_b_flipped result)))))))"

definition is_lte_bigint :: "bigint \<Rightarrow> bigint \<Rightarrow> target circ" where
  "is_lte_bigint a b =
    circ_bind (is_sign_negative (bi_sign a)) (\<lambda>a_is_negative.
    circ_bind (is_sign_negative (bi_sign b)) (\<lambda>b_is_negative.
    circ_bind (is_lte_biguint (bi_abs a) (bi_abs b)) (\<lambda>r.
    let a_neg_b_neg = b_and a_is_negative b_is_negative;
        r = select_bool a_neg_b_neg (b_not r) r;
        a_not_neg_and_b_neg = and_not b_is_negative a_is_negative;
        r = and_not r a_not_neg_and_b_neg;
        a_neg_b_not_neg = and_not a_is_negative b_is_negative;
        r = b_or r a_neg_b_not_neg in
    circ_bind (is_equal_bigint a b) (\<lambda>a_eq_b. circ_return (b_or a_eq_b r)))))"

definition euclidian_div_by_biguint :: "bigint \<Rightarrow> biguint \<Rightarrow> nat \<Rightarrow> bigint circ" where
  "euclidian_div_by_biguint a b num_limbs =
    circ_bind (div_rem_biguint (bi_abs a) b) (\<lambda>(a_div, a_rem).
    circ_bind (is_sign_negative (bi_sign a)) (\<lambda>is_negative.
    circ_bind (is_zero_biguint a_rem) (\<lambda>rem_is_zero.
    let need_to_add_one = and_not is_negative rem_is_zero;
        big_need_to_add_one = [need_to_add_one] in
    circ_bind (add_biguint_non_carry a_div big_need_to_add_one num_limbs) (\<lambda>abs_result.
    circ_bind (is_zero_biguint abs_result) (\<lambda>is_a_zero.
    circ_return \<lparr>bi_abs = abs_result, bi_sign = select is_a_zero (Const 0) (bi_sign a)\<rparr>)))))"

definition div_bigint_by_biguint_trimmed :: "bigint \<Rightarrow> biguint \<Rightarrow> nat \<Rightarrow> bigint circ" where
  "div_bigint_by_biguint_trimmed a b quotient_num_limbs =
    circ_bind (div_biguint_trimmed (bi_abs a) b quotient_num_limbs) (\<lambda>div_abs.
    circ_bind (biguint_to_bigint div_abs) (\<lambda>div_bigint.
    circ_return \<lparr>bi_abs = div_abs, bi_sign = b_mul (bi_sign div_bigint) (bi_sign a)\<rparr>))"

definition div_bigint_by_biguint :: "bigint \<Rightarrow> biguint \<Rightarrow> bigint circ" where
  "div_bigint_by_biguint a b = div_bigint_by_biguint_trimmed a b (length (bi_abs a))"

text \<open>\<open>get_bigint_target\<close> of the witness: any sign but -1, 0 and 1 panics (\<open>None\<close>).\<close>

definition get_bigint_target :: "bigint \<Rightarrow> int option" where
  "get_bigint_target a =
    (let sign = tval (bi_sign a) in
     if sign = 1 then Some (int (bnat (bi_abs a))) else if sign = - 1 then Some (- int (bnat (bi_abs a)))
     else if sign = 0 then Some 0 else None)"

section \<open>Contracts\<close>

lemma sval_simps: "sval (b_mul (Const (- 1)) s) v \<longleftrightarrow> sval s (- v)" "sval (b_neg s) v \<longleftrightarrow> sval s (- v)"
  using minus_equation_iff [of "tval s" "of_int (sgn v)"] by (auto simp: sval_def tval_simps sgn_minus)

lemma sval_mult: "sval s v \<Longrightarrow> sval t w \<Longrightarrow> sval (b_mul s t) (v * w)"
  by (simp add: sval_def tval_simps sgn_mult)

lemma sval_select: "bval c e \<Longrightarrow> sval s v \<Longrightarrow> sval t w \<Longrightarrow> sval (select c s t) (if e then v else w)"
  by (simp add: sval_def tval_select)

lemma sval_Const: "sval (Const 0) 0" "sval (Const 1) 1" "sval (Const (- 1)) (- 1)"
  by (simp_all add: sval_def)

lemma sval_cong: "sval s v \<Longrightarrow> sgn v = sgn w \<Longrightarrow> sval s w"
  by (simp add: sval_def)

lemma sval_sgn_iff: "sval s v \<Longrightarrow> sval t w \<Longrightarrow> tval s = tval t \<longleftrightarrow> sgn v = sgn w"
  by (auto simp: sval_def sgn_if gf_minus_one split: if_splits)

lemma implements_is_sign:
  assumes "sval s v"
  shows "implements (is_sign_negative s) (\<lambda>r. bval r (v < 0))" "implements (is_sign_positive s) (\<lambda>r. bval r (0 < v))"
    and "implements (is_equal s (Const 0)) (\<lambda>r. bval r (v = 0))" "implements (is_zero s) (\<lambda>r. bval r (v = 0))"
  using implements_is_equal [of s "Const (- 1)"] implements_is_equal [of s "Const 1"] implements_is_equal [of s "Const 0"]
  by (simp_all add: is_sign_negative_def is_sign_positive_def is_zero_def sval_eq_iff [OF assms])

text \<open>A sign target is -1, 0 or 1 exactly when its cube is itself.\<close>

lemma sign_cube: "s * s * s = s \<longleftrightarrow> s = 0 \<or> s = 1 \<or> s = (- 1 :: gf)"
proof
  assume "s * s * s = s"
  then have "s * ((s - 1) * (s + 1)) = 0" by (simp add: algebra_simps)
  then show "s = 0 \<or> s = 1 \<or> s = - 1" by (auto simp: eq_neg_iff_add_eq_0)
qed auto

lemma realises_assert_sign: "realises (assert_sign s) (\<exists>v. sval s v) (\<lambda>_. True)"
proof -
  have "(\<exists>v. sval s v) \<longleftrightarrow> tval (b_mul (b_mul s s) s) = tval s"
    unfolding tval_simps sign_cube
  proof
    assume "\<exists>v. sval s v"
    then show "tval s = 0 \<or> tval s = 1 \<or> tval s = - 1" by (auto simp: sval_def sgn_if split: if_splits)
  next
    assume "tval s = 0 \<or> tval s = 1 \<or> tval s = - 1"
    then have "sval s 0 \<or> sval s 1 \<or> sval s (- 1)" by (auto simp: sval_def)
    then show "\<exists>v. sval s v" by blast
  qed
  then show ?thesis using realises_connect [of "b_mul (b_mul s s) s" s] by (simp add: assert_sign_def Let_def)
qed

lemma bigz_eq_iff:
  assumes "bigz a n v" "bigz b m w"
  shows "bnat (bi_abs a) = bnat (bi_abs b) \<and> tval (bi_sign a) = tval (bi_sign b) \<longleftrightarrow> v = w"
  using sval_sgn_iff [OF bigzD(4) bigzD(4), OF assms] bigzD(3) [OF assms(1)] bigzD(3) [OF assms(2)]
  by (auto simp: sgn_if abs_if split: if_splits)

lemma realises_connect_bigint:
  assumes "bigz a n v" "bigz b m w"
  shows "realises (connect_bigint a b) (v = w) (\<lambda>_. True)"
proof -
  have "realises (connect_bigint a b) (bnat (bi_abs a) = bnat (bi_abs b) \<and> tval (bi_sign a) = tval (bi_sign b)) (\<lambda>_. True)"
    unfolding connect_bigint_def
    by (rule realises_bind [OF realises_connect_biguint]) (use bigzD assms realises_connect in blast)+
  then show ?thesis unfolding bigz_eq_iff [OF assms] .
qed

lemma implements_is_equal_bigint:
  assumes "bigz a n v" "bigz b m w" "n \<noteq> 0 \<or> m \<noteq> 0"
  shows "implements (is_equal_bigint a b) (\<lambda>r. bval r (v = w))"
  unfolding is_equal_bigint_def
proof (rule implements_bind [OF implements_is_equal_biguint [OF bigzD(1) [OF assms(1)] bigzD(1) [OF assms(2)]]])
  show "bi_abs a \<noteq> [] \<or> bi_abs b \<noteq> []" using assms(3) bigzD(2) [OF assms(1)] bigzD(2) [OF assms(2)] by auto
next
  fix x assume x: "bval x (bnat (bi_abs a) = bnat (bi_abs b))"
  show "implements (circ_bind (is_equal (bi_sign a) (bi_sign b)) (\<lambda>y. circ_return (b_and x y))) (\<lambda>r. bval r (v = w))"
  proof (rule implements_bind [OF implements_is_equal], rule implements_return)
    fix y assume "bval y (tval (bi_sign a) = tval (bi_sign b))"
    note bval_and [OF x this]
    moreover have "bnat (bi_abs a) = bnat (bi_abs b) \<and> tval (bi_sign a) = tval (bi_sign b) \<longleftrightarrow> v = w"
      by (rule bigz_eq_iff [OF assms(1,2)])
    ultimately show "bval (b_and x y) (v = w)" by (simp only:)
  qed
qed

lemma implements_is_not_equal_bigint:
  "bigz a n v \<Longrightarrow> bigz b m w \<Longrightarrow> n \<noteq> 0 \<or> m \<noteq> 0 \<Longrightarrow> implements (is_not_equal_bigint a b) (\<lambda>r. bval r (v \<noteq> w))"
  unfolding is_not_equal_bigint_def
  by (rule implements_bind [OF implements_is_equal_bigint]) (auto intro!: implements_return bval_not)

lemma implements_is_zero_bigint:
  assumes "bigz a n v"
  shows "implements (is_zero_bigint a) (\<lambda>r. bval r (v = 0))"
  unfolding is_zero_bigint_def
  by (rule implements_bind [OF implements_is_sign(4) [OF bigzD(4) [OF assms]]], rule implements_bind [OF implements_is_zero_biguint],
      rule implements_return, drule (1) bval_and) (simp add: bigzD(3) [OF assms])

lemma add_virtual_sign_target_safe_contract:
  "sound add_virtual_sign_target_safe (\<lambda>s. \<exists>v. sval s v)" "complete add_virtual_sign_target_safe (\<lambda>s. sval s v)"
proof -
  show "sound add_virtual_sign_target_safe (\<lambda>s. \<exists>v. sval s v)"
    unfolding add_virtual_sign_target_safe_def
    by (rule sound_bind [OF sound_add_virtual_target], rule sound_bind [OF realises_sound [OF realises_assert_sign]],
        rule sound_return) blast
  show "complete add_virtual_sign_target_safe (\<lambda>s. sval s v)"
    unfolding add_virtual_sign_target_safe_def
  proof (rule complete_bind [OF complete_add_virtual_target [of "of_int (sgn v)"]],
      rule complete_bind [OF implements_complete [OF realises_implements [OF realises_assert_sign]]])
    fix s assume "s = Wire (of_int (sgn v))"
    then have "sval s v" by (simp add: sval_def)
    then show "\<exists>v. sval s v" "complete (circ_return s) (\<lambda>s. sval s v)" by (auto intro: complete_return)
  qed
qed

lemma implements_add_virtual_bigint_target_safe:
  "sound (add_virtual_bigint_target_safe n) (\<lambda>r. \<exists>v. bigz r n v)"
  "\<bar>v\<bar> < 2 ^ (32 * n) \<Longrightarrow> complete (add_virtual_bigint_target_safe n) (\<lambda>r. bigz r n v)"
proof -
  have rest: "realises (circ_bind (is_zero_biguint a) (\<lambda>x. circ_bind (is_zero s) (\<lambda>y. circ_bind (connect x y)
      (\<lambda>_. circ_return \<lparr>bi_abs = a, bi_sign = s\<rparr>)))) (bnat a = 0 \<longleftrightarrow> uval s = 0) (\<lambda>r. r = \<lparr>bi_abs = a, bi_sign = s\<rparr>)" for a s
  proof (rule realises_after [OF implements_is_zero_biguint], rule realises_after [OF implements_is_zero], rule realises_then_return)
    fix x y assume "bval x (bnat a = 0)" "bval y (uval s = 0)"
    then have "tval x = tval y \<longleftrightarrow> (bnat a = 0 \<longleftrightarrow> uval s = 0)" by (auto simp: bval_def)
    then show "realises (connect x y) (bnat a = 0 \<longleftrightarrow> uval s = 0) (\<lambda>_. True)" using realises_connect [of x y] by simp
  qed simp
  show "sound (add_virtual_bigint_target_safe n) (\<lambda>r. \<exists>v. bigz r n v)"
    unfolding add_virtual_bigint_target_safe_def
  proof (rule sound_bind [OF sound_virtual_limbs], rule sound_bind [OF add_virtual_sign_target_safe_contract(1)],
      rule sound_weaken [OF realises_sound [OF rest]], elim conjE exE)
    fix a s r v assume a: "limbs_ok a" "length a = n" and v: "sval s v" and zero: "bnat a = 0 \<longleftrightarrow> uval s = 0"
      and r: "r = \<lparr>bi_abs = a, bi_sign = s\<rparr>"
    have z: "bnat a = 0 \<longleftrightarrow> v = 0" using zero sval_eq_iff(3) [OF v] by simp
    then have "sgn (sgn v * int (bnat a)) = sgn v" by (auto simp: sgn_mult)
    moreover have "\<bar>sgn v * int (bnat a)\<bar> = int (bnat a)" using z by (auto simp: abs_mult sgn_if)
    ultimately have "bigz r n (sgn v * int (bnat a))"
      using a v by (simp add: r bigz_def big_def sval_def)
    then show "\<exists>v. bigz r n v" by blast
  qed
  show "complete (add_virtual_bigint_target_safe n) (\<lambda>r. bigz r n v)" if "\<bar>v\<bar> < 2 ^ (32 * n)"
    unfolding add_virtual_bigint_target_safe_def
  proof (rule complete_bind [OF complete_virtual_limbs [of "nat \<bar>v\<bar>"]], use that in \<open>simp only: nat_abs_simps\<close>,
      rule complete_bind [OF add_virtual_sign_target_safe_contract(2) [of v]])
    fix a s assume a: "big a n (nat \<bar>v\<bar>)" and sv: "sval s v"
    then have "bnat a = 0 \<longleftrightarrow> uval s = 0" using sval_eq_iff(3) [OF sv] by (simp add: big_def)
    from implements_complete [OF realises_implements [OF rest this]]
    show "complete (circ_bind (is_zero_biguint a) (\<lambda>x. circ_bind (is_zero s) (\<lambda>y. circ_bind (connect x y)
        (\<lambda>_. circ_return \<lparr>bi_abs = a, bi_sign = s\<rparr>)))) (\<lambda>r. bigz r n v)"
      by (rule complete_weaken) (use a sv in \<open>simp add: bigz_def\<close>)
  qed
qed

lemma bigz_zero [simp]: "bigz zero_bigint 0 0"
  by (simp add: bigz_def zero_bigint_def big_def sval_Const)

lemma bigz_select:
  assumes "bval c e" "bigz a n v" "bigz b m w"
  shows "bigz (select_bigint c a b) (max n m) (if e then v else w)"
proof -
  have "big (select_biguint c (bi_abs a) (bi_abs b)) (max n m) (if e then nat \<bar>v\<bar> else nat \<bar>w\<bar>)"
    using select_biguint_big [OF assms(1) bigzD(1) [OF assms(2)] bigzD(1) [OF assms(3)]]
      bigzD(2,3) [OF assms(2)] bigzD(2,3) [OF assms(3)] by (cases e) simp_all
  then show ?thesis
    using sval_select [OF assms(1) bigzD(4) [OF assms(2)] bigzD(4) [OF assms(3)]]
    by (cases e) (simp_all add: bigz_def select_bigint_def)
qed

lemma bigz_neg: "bigz a n v \<Longrightarrow> bigz (neg_bigint a) n (- v)"
  by (simp add: bigz_def neg_bigint_def sval_simps)

lemma bigz_mul_by_bool:
  assumes "bval c e" "bigz a n v"
  shows "bigz (mul_bigint_by_bool a c) n (if e then v else 0)"
proof -
  have "sval c (of_bool e)" using assms(1) by (cases e) (simp_all add: bval_def sval_def)
  from sval_mult [OF bigzD(4) [OF assms(2)] this] mul_biguint_by_bool_big [OF assms(1) bigzD(1) [OF assms(2)]]
  show ?thesis
    using bigzD(2,3) [OF assms(2)] by (cases e) (simp_all add: bigz_def mul_bigint_by_bool_def)
qed

lemma realises_conditional_assert_zero_bigint:
  assumes "bval c e" "bigz a n v"
  shows "realises (conditional_assert_zero_bigint c a) (e \<longrightarrow> v = 0) (\<lambda>_. True)"
  unfolding conditional_assert_zero_bigint_def
  by (rule realises_weaken [OF realises_bind [OF realises_conditional_assert_zero_biguint [OF assms(1) bigzD(1) [OF assms(2)]]
        realises_conditional_assert_zero [OF assms(1)]]])
    (use sval_eq_iff(3) [OF bigzD(4) [OF assms(2)]] bigzD(3) [OF assms(2)] in \<open>auto\<close>)

lemma implements_biguint_to_bigint:
  assumes "limbs_ok a"
  shows "implements (biguint_to_bigint a) (\<lambda>r. bigz r (length a) (int (bnat a)))"
  unfolding biguint_to_bigint_def
proof (rule implements_bind [OF implements_is_zero_biguint], rule implements_return)
  fix z assume "bval z (bnat a = 0)"
  then have "sval (b_sub (Const 1) z) (int (bnat a))" by (auto simp: sval_def bval_def tval_simps sgn_if)
  then show "bigz \<lparr>bi_abs = a, bi_sign = b_sub (Const 1) z\<rparr> (length a) (int (bnat a))"
    using assms by (simp add: bigz_def big_def)
qed

lemma implements_negative_biguint:
  assumes "limbs_ok a"
  shows "implements (negative_biguint a) (\<lambda>r. bigz r (length a) (- int (bnat a)))"
  unfolding negative_biguint_def
proof (rule implements_bind [OF implements_is_zero_biguint], rule implements_return)
  fix z assume "bval z (bnat a = 0)"
  from sval_select [OF this sval_Const(1,3)] have "sval (select z (Const 0) (Const (- 1))) (- int (bnat a))"
    by (rule sval_cong) (simp add: sgn_if)
  then show "bigz \<lparr>bi_abs = a, bi_sign = select z (Const 0) (Const (- 1))\<rparr> (length a) (- int (bnat a))"
    using assms by (simp add: bigz_def big_def)
qed

lemma implements_signed_target_to_bigint: "implements (signed_target_to_bigint t) (\<lambda>r. bigz r 2 (get_signed_target t))"
  unfolding signed_target_to_bigint_def
proof (rule implements_bind [OF implements_signed_abs], unfold split_paired_all prod.case, elim conjE,
    rule implements_bind [OF implements_target_to_biguint], rule implements_return)
  fix m s a assume "int (uval m) = \<bar>get_signed_target t\<bar>" "sval s (get_signed_target t)" "big a 2 (uval m)"
  moreover have "uval m = nat \<bar>get_signed_target t\<bar>" using calculation(1) by linarith
  ultimately show "bigz \<lparr>bi_abs = a, bi_sign = s\<rparr> 2 (get_signed_target t)" by (simp add: bigz_def)
qed

text \<open>Back to a field element: unsatisfiable for magnitudes of at least the order of the field.\<close>

lemma realises_bigint_to_signed_target_unsafe:
  assumes "bigz a n v"
  shows "realises (bigint_to_signed_target_unsafe a) (\<bar>v\<bar> < goldilocks_order) (\<lambda>t. tval t = of_int v)"
proof -
  have fits: "\<bar>v\<bar> < goldilocks_order \<longleftrightarrow> bnat (bi_abs a) < p_nat"
    using bigzD(3) [OF assms] by (auto simp: goldilocks_order_nat nat_less_iff)
  show ?thesis
    unfolding bigint_to_signed_target_unsafe_def fits
  proof (rule realises_then_return [OF realises_biguint_to_target_safe [OF bigzD(1) [OF assms]]])
    fix t assume "uval t = bnat (bi_abs a)"
    then have "int (uval t) = \<bar>v\<bar>" using bigzD(3) [OF assms] by simp
    then have t: "tval t = of_int \<bar>v\<bar>" by (metis of_int_to_canonical)
    have "tval (b_mul t (bi_sign a)) = of_int (sgn v * \<bar>v\<bar>)"
      using bigzD(4) [OF assms] unfolding tval_simps t sval_def of_int_mult by simp
    then show "tval (b_mul t (bi_sign a)) = of_int v" by (simp only: mult_sgn_abs)
  qed
qed

lemma realises_trim_bigint:
  assumes "bigz a n v"
  shows "realises (trim_bigint a k) (k \<le> n \<and> \<bar>v\<bar> < 2 ^ (32 * k)) (\<lambda>r. bigz r k v)"
  unfolding trim_bigint_def nat_abs_simps(5) [symmetric] bigzD(3) [OF assms, symmetric] bigzD(2) [OF assms, symmetric]
  by (rule realises_then_return [OF realises_trim_biguint [OF bigzD(1) [OF assms]]])
    (use bigzD [OF assms] in \<open>simp add: bigz_def\<close>)

section \<open>Sums, differences and products\<close>

lemma implements_abs_diff:
  assumes "bigz a n v" "bigz b m w"
  shows "implements (abs_diff a b) (\<lambda>r. bigz r (max n m) (\<bar>v\<bar> - \<bar>w\<bar>))"
  unfolding abs_diff_def
proof (rule implements_bind [OF implements_try_sub_biguint [OF bigzD(1) bigzD(1), OF assms]], unfold split_paired_all prod.case,
    rule implements_bind [OF implements_try_sub_biguint [OF bigzD(1) bigzD(1), OF assms(2,1)]], unfold split_paired_all prod.case,
    rule implements_return, elim conjE)
  note va = bigzD(2,3) [OF assms(1)] and vb = bigzD(2,3) [OF assms(2)]
  fix d1 lt d2 gt
  let ?x = "nat \<bar>v\<bar>" and ?y = "nat \<bar>w\<bar>"
  assume "bval lt (bnat (bi_abs a) < bnat (bi_abs b))" "bval gt (bnat (bi_abs b) < bnat (bi_abs a))"
    and "big d1 (max (length (bi_abs a)) (length (bi_abs b))) (bnat (bi_abs a) + 2 ^ (32 * max (length (bi_abs a)) (length (bi_abs b)))
      * of_bool (bnat (bi_abs a) < bnat (bi_abs b)) - bnat (bi_abs b))"
    and "big d2 (max (length (bi_abs b)) (length (bi_abs a))) (bnat (bi_abs b) + 2 ^ (32 * max (length (bi_abs b)) (length (bi_abs a)))
      * of_bool (bnat (bi_abs b) < bnat (bi_abs a)) - bnat (bi_abs a))"
  then have lt: "bval lt (?x < ?y)" and gt: "bval gt (?y < ?x)"
    and d1: "big d1 (max n m) (?x + 2 ^ (32 * max n m) * of_bool (?x < ?y) - ?y)"
    and d2: "big d2 (max n m) (?y + 2 ^ (32 * max n m) * of_bool (?y < ?x) - ?x)"
    by (simp_all only: va vb max.commute)
  have ok: "limbs_ok d1" "limbs_ok d2" using d1 d2 by (simp_all add: big_def)
  have len: "length d1 = max n m" "length d2 = max n m" using d1 d2 by (simp_all only: big_def)
  have val: "bnat d1 = ?x + 2 ^ (32 * max n m) * of_bool (?x < ?y) - ?y" "bnat d2 = ?y + 2 ^ (32 * max n m) * of_bool (?y < ?x) - ?x"
    using d1 d2 by (simp_all only: big_def)
  have "(if ?y < ?x then bnat d1 else bnat d2) = nat \<bar>\<bar>v\<bar> - \<bar>w\<bar>\<bar>"
  proof (cases "?y < ?x")
    case True
    then show ?thesis unfolding val by simp
  next
    case False
    then have "\<bar>v\<bar> \<le> \<bar>w\<bar>" by (simp only: nat_abs_simps not_less)
    then have "nat \<bar>w\<bar> - nat \<bar>v\<bar> = nat \<bar>\<bar>v\<bar> - \<bar>w\<bar>\<bar>" by (simp add: nat_diff_distrib)
    with False show ?thesis unfolding val by (simp only: if_not_P of_bool_eq mult_0_right add_0_right if_False)
  qed
  then have "big (select_biguint gt d1 d2) (max n m) (nat \<bar>\<bar>v\<bar> - \<bar>w\<bar>\<bar>)"
    using select_biguint_big [OF gt ok] unfolding len by (simp only: max.idem)
  moreover have "sval (b_sub gt lt) (\<bar>v\<bar> - \<bar>w\<bar>)"
    by (rule sval_cong [OF sval_cmp [OF gt lt]]) (auto simp: sgn_if nat_less_iff)
  ultimately show "bigz \<lparr>bi_abs = select_biguint gt d1 d2, bi_sign = b_sub gt lt\<rparr> (max n m) (\<bar>v\<bar> - \<bar>w\<bar>)"
    by (simp add: bigz_def)
qed

text \<open>The sign algebra of a difference of numbers of different signs: \<open>a - (1 - a * a) * b\<close>.\<close>

lemma sgn_sub_opposite: "sgn v \<noteq> sgn w \<Longrightarrow> sgn v - (1 - sgn v * sgn v) * sgn w = sgn (v - w)" for v w :: int
  by (auto simp: sgn_if split: if_splits)

lemma sub_same_sign: "sgn v = sgn w \<Longrightarrow> v * (\<bar>v\<bar> - \<bar>w\<bar>) = \<bar>v\<bar> * (v - w) \<and> \<bar>\<bar>v\<bar> - \<bar>w\<bar>\<bar> = \<bar>v - w\<bar>" for v w :: int
  by (auto simp: sgn_if abs_if algebra_simps split: if_splits)

lemma sub_opposite_sign: "sgn v \<noteq> sgn w \<Longrightarrow> \<bar>v\<bar> + \<bar>w\<bar> = \<bar>v - w\<bar>" for v w :: int
  by (auto simp: sgn_if abs_if split: if_splits)

lemma realises_sub_bigint_non_carry:
  assumes a: "bigz a n v" and b: "bigz b m w"
  shows "realises (sub_bigint_non_carry a b k) (k \<le> Suc (max n m) \<and> \<bar>v - w\<bar> < 2 ^ (32 * k)) (\<lambda>r. bigz r k (v - w))"
  unfolding sub_bigint_non_carry_def
proof (rule realises_after [OF implements_abs_diff [OF a b]], unfold abs_sum_def,
    rule realises_after [OF implements_add_biguint [OF bigzD(1) bigzD(1), OF a b]], rule realises_after [OF implements_is_equal])
  fix d s c
  assume d: "bigz d (max n m) (\<bar>v\<bar> - \<bar>w\<bar>)"
    and s: "big s (Suc (max (length (bi_abs a)) (length (bi_abs b)))) (bnat (bi_abs a) + bnat (bi_abs b))"
    and c: "bval c (tval (bi_sign a) = tval (bi_sign b))"
  have c: "bval c (sgn v = sgn w)" using c by (simp only: sval_sgn_iff [OF bigzD(4) bigzD(4), OF a b])
  let ?osign = "arithmetic (- 1) 1 (arithmetic (- 1) 1 (bi_sign a) (bi_sign a) (Const 1)) (bi_sign b) (bi_sign a)"
  let ?same = "\<lparr>bi_abs = bi_abs d, bi_sign = b_mul (bi_sign a) (bi_sign d)\<rparr>" and ?opp = "\<lparr>bi_abs = s, bi_sign = ?osign\<rparr>"
  let ?r = "select_bigint c ?same ?opp"
  have r: "bigz ?r (Suc (max n m)) (v - w)"
  proof (cases "sgn v = sgn w")
    case True
    have "sgn (v * (\<bar>v\<bar> - \<bar>w\<bar>)) = sgn (v - w)" using sub_same_sign [OF True] True by (auto simp: sgn_mult)
    then have "sval (b_mul (bi_sign a) (bi_sign d)) (v - w)" using sval_cong [OF sval_mult [OF bigzD(4) [OF a] bigzD(4) [OF d]]] by blast
    moreover have "nat \<bar>\<bar>v\<bar> - \<bar>w\<bar>\<bar> = nat \<bar>v - w\<bar>" using sub_same_sign [OF True] by simp
    ultimately have same: "bigz ?same (max n m) (v - w)" using d by (simp add: bigz_def)
    have "bval c True" using c True by simp
    from select_biguint_big [OF this, of "bi_abs d" s] same s bigzD(2) [OF a] bigzD(2) [OF b] tval_select [OF this]
    show ?thesis by (simp add: bigz_def big_def select_bigint_def sval_def)
  next
    case False
    have "- 1 * (- 1 * x * x + 1 * 1) * y + 1 * x = x - (1 - x * x) * y" for x y :: gf by (simp add: algebra_simps)
    then have "tval ?osign = of_int (sgn v - (1 - sgn v * sgn v) * sgn w)"
      using bigzD(4) [OF a] bigzD(4) [OF b] by (simp only: tval_simps tval.simps sval_def of_int_diff of_int_mult of_int_1)
    then have "sval ?osign (v - w)" by (simp only: sgn_sub_opposite [OF False] sval_def)
    moreover have "bnat (bi_abs a) + bnat (bi_abs b) = nat \<bar>v - w\<bar>"
      unfolding bigzD(3) [OF a] bigzD(3) [OF b] sub_opposite_sign [OF False, symmetric] by (simp add: nat_add_distrib)
    ultimately have opp: "bigz ?opp (Suc (max n m)) (v - w)" using s bigzD(2) [OF a] bigzD(2) [OF b] by (simp add: bigz_def)
    have "bval c False" using c False by simp
    from select_biguint_big [OF this, of "bi_abs d" s] opp d tval_select [OF this]
    show ?thesis by (simp add: bigz_def big_def select_bigint_def sval_def)
  qed
  show "realises (let a_sign = bi_sign a; b_sign = bi_sign b;
        result_if_same_sign = \<lparr>bi_abs = bi_abs d, bi_sign = b_mul a_sign (bi_sign d)\<rparr>;
        one_minus_a_sign_sqr = arithmetic (- 1) 1 a_sign a_sign (Const 1);
        sign = arithmetic (- 1) 1 one_minus_a_sign_sqr b_sign a_sign;
        result_if_opposite_sign = \<lparr>bi_abs = s, bi_sign = sign\<rparr>;
        result = select_bigint c result_if_same_sign result_if_opposite_sign in
    circ_bind (trim_biguint (bi_abs result) k) (\<lambda>abs. circ_return \<lparr>bi_abs = abs, bi_sign = bi_sign result\<rparr>))
    (k \<le> Suc (max n m) \<and> \<bar>v - w\<bar> < 2 ^ (32 * k)) (\<lambda>r. bigz r k (v - w))"
    using realises_trim_bigint [OF r] by (simp only: Let_def trim_bigint_def)
qed

lemma realises_add_bigint_non_carry:
  assumes "bigz a n v" "bigz b m w"
  shows "realises (add_bigint_non_carry a b k) (k \<le> Suc (max n m) \<and> \<bar>v + w\<bar> < 2 ^ (32 * k)) (\<lambda>r. bigz r k (v + w))"
proof -
  have "bigz \<lparr>bi_abs = bi_abs b, bi_sign = b_mul (Const (- 1)) (bi_sign b)\<rparr> m (- w)"
    using assms(2) by (simp add: bigz_def sval_simps)
  from realises_sub_bigint_non_carry [OF assms(1) this] show ?thesis by (simp add: add_bigint_non_carry_def)
qed

lemma implements_sub_bigint:
  assumes "bigz a n v" "bigz b m w"
  shows "implements (sub_bigint a b) (\<lambda>r. bigz r (Suc (max n m)) (v - w))"
proof -
  have "\<bar>v\<bar> < 2 ^ (32 * max n m)" "\<bar>w\<bar> < 2 ^ (32 * max n m)"
    by (rule less_le_trans [OF bigz_bound], rule assms, rule power_increasing, simp_all)+
  then have "\<bar>v - w\<bar> < 2 * 2 ^ (32 * max n m)" by linarith
  also have "\<dots> \<le> 2 ^ (32 * Suc (max n m))" by (simp add: power_add)
  finally show ?thesis
    using realises_implements [OF realises_sub_bigint_non_carry [OF assms, of "Suc (max n m)"]] bigzD(2) [OF assms(1)] bigzD(2) [OF assms(2)]
    by (simp add: sub_bigint_def Let_def)
qed

lemma realises_mul_bigint_with_biguint_non_carry:
  assumes a: "bigz a n v" and b: "limbs_ok b" and small: "min n (length b) \<le> 8"
  shows "realises (mul_bigint_with_biguint_non_carry a b k) (max n (length b) \<le> k \<and> \<bar>v * int (bnat b)\<bar> < 2 ^ (32 * k))
    (\<lambda>r. bigz r (min k (n + length b)) (v * int (bnat b)))"
proof -
  have val: "nat \<bar>v * int (bnat b)\<bar> = nat \<bar>v\<bar> * bnat b" by (simp add: abs_mult nat_mult_distrib)
  show ?thesis
    unfolding mul_bigint_with_biguint_non_carry_def nat_abs_simps(5) [symmetric] val
  proof (rule realises_bind [where P' = True, simplified])
    show "realises (mul_biguint_non_carry (bi_abs a) b k) (max n (length b) \<le> k \<and> nat \<bar>v\<bar> * bnat b < 2 ^ (32 * k))
        (\<lambda>r. big r (min k (n + length b)) (nat \<bar>v\<bar> * bnat b))"
      using realises_mul_biguint_non_carry [OF bigzD(1) [OF a] b, of k] small by (simp only: bigzD(2,3) [OF a])
    fix m assume m: "big m (min k (n + length b)) (nat \<bar>v\<bar> * bnat b)"
    show "realises (circ_bind (is_zero_biguint b) (\<lambda>z. circ_return \<lparr>bi_abs = m, bi_sign = select z (Const 0) (bi_sign a)\<rparr>)) True
        (\<lambda>r. bigz r (min k (n + length b)) (v * int (bnat b)))"
    proof (rule realises_after [OF implements_is_zero_biguint], rule realises_return)
      fix z assume "bval z (bnat b = 0)"
      from sval_select [OF this sval_Const(1) bigzD(4) [OF a]]
      have "sval (select z (Const 0) (bi_sign a)) (v * int (bnat b))" by (rule sval_cong) (auto simp: sgn_mult)
      with m show "bigz \<lparr>bi_abs = m, bi_sign = select z (Const 0) (bi_sign a)\<rparr> (min k (n + length b)) (v * int (bnat b))"
        by (simp add: bigz_def val)
    qed
  qed
qed

section \<open>Order\<close>

lemma implements_is_lte_bigint:
  assumes a: "bigz a n v" and b: "bigz b m w" and ne: "n \<noteq> 0 \<or> m \<noteq> 0"
  shows "implements (is_lte_bigint a b) (\<lambda>r. bval r (v \<le> w))"
  unfolding is_lte_bigint_def
proof (rule implements_bind [OF implements_is_sign(1) [OF bigzD(4) [OF a]]], rule implements_bind [OF implements_is_sign(1) [OF bigzD(4) [OF b]]],
    rule implements_bind [OF implements_is_lte_biguint [OF bigzD(1) bigzD(1), OF a b]], unfold Let_def,
    rule implements_bind [OF implements_is_equal_bigint [OF a b ne]], rule implements_return)
  fix na nb le e
  assume na: "bval na (v < 0)" and nb: "bval nb (w < 0)" and e: "bval e (v = w)"
    and "bval le (bnat (bi_abs a) \<le> bnat (bi_abs b))"
  then have le: "bval le (\<bar>v\<bar> \<le> \<bar>w\<bar>)" by (simp only: bigzD(3) [OF a] bigzD(3) [OF b] nat_abs_simps)
  note flip = bval_select_bool [OF bval_and [OF na nb] bval_not [OF le] le]
  note total = bval_or [OF e bval_or [OF bval_and_not [OF flip bval_and_not [OF nb na]] bval_and_not [OF na nb]]]
  have "(v = w \<or> (if v < 0 \<and> w < 0 then \<not> \<bar>v\<bar> \<le> \<bar>w\<bar> else \<bar>v\<bar> \<le> \<bar>w\<bar>) \<and> \<not> (w < 0 \<and> \<not> v < 0) \<or> v < 0 \<and> \<not> w < 0) = (v \<le> w)"
    by auto
  with total show "bval (b_or e (b_or (and_not (select_bool (b_and na nb) (b_not le) le) (and_not nb na)) (and_not na nb))) (v \<le> w)"
    by (simp only:)
qed

lemma implements_cmp_bigint:
  assumes a: "bigz a n v" and b: "bigz b m w"
  shows "implements (cmp_bigint a b) (\<lambda>r. sval r (v - w))"
  unfolding cmp_bigint_def
proof (rule implements_bind [OF implements_is_sign(2) [OF bigzD(4) [OF a]]], rule implements_bind [OF implements_is_sign(2) [OF bigzD(4) [OF b]]],
    rule implements_bind [OF implements_is_sign(1) [OF bigzD(4) [OF a]]], rule implements_bind [OF implements_is_sign(1) [OF bigzD(4) [OF b]]],
    rule implements_bind [OF implements_cmp_biguint [OF bigzD(1) bigzD(1), OF a b]], unfold Let_def,
    rule implements_bind [OF implements_is_sign(3) [OF bigzD(4) [OF a]]], rule implements_return)
  fix pa pb na nb c za
  assume pa: "bval pa (0 < v)" and pb: "bval pb (0 < w)" and na: "bval na (v < 0)" and nb: "bval nb (w < 0)" and za: "bval za (v = 0)"
    and "sval c (int (bnat (bi_abs a)) - int (bnat (bi_abs b)))"
  then have c: "sval c (\<bar>v\<bar> - \<bar>w\<bar>)" by (simp add: bigzD(3) [OF a] bigzD(3) [OF b])
  have flipped: "sval (b_mul (Const (- 1)) (bi_sign b)) (- w)" using bigzD(4) [OF b] by (simp only: sval_simps minus_minus)
  note r1 = sval_select [OF bval_and [OF pa bval_not [OF pb]] sval_Const(2) c]
  note r2 = sval_select [OF za flipped r1]
  note r3 = sval_select [OF bval_and [OF na bval_not [OF nb]] sval_Const(3) r2]
  let ?s3 = "select (b_and na (b_not nb)) (Const (- 1)) (select za (b_mul (Const (- 1)) (bi_sign b)) (select (b_and pa (b_not pb)) (Const 1) c))"
  let ?v3 = "if v < 0 \<and> \<not> w < 0 then - 1 else if v = 0 then - w else if 0 < v \<and> \<not> 0 < w then 1 else \<bar>v\<bar> - \<bar>w\<bar>"
  have neg: "sval (b_mul (Const (- 1)) ?s3) (- ?v3)" using r3 by (simp only: sval_simps minus_minus)
  show "sval (select (b_and na nb) (b_mul (Const (- 1)) ?s3) ?s3) (v - w)"
    by (rule sval_cong [OF sval_select [OF bval_and [OF na nb] neg r3]]) (auto simp: sgn_if abs_if split: if_splits)
qed

section \<open>Division\<close>

lemma div_neg_abs:
  assumes "v < 0" "(b::nat) \<noteq> 0"
  shows "v div int b = - int (nat \<bar>v\<bar> div b + of_bool (nat \<bar>v\<bar> mod b \<noteq> 0))"
proof -
  have v: "v = - int (nat \<bar>v\<bar>)" using assms(1) by simp
  have "(- int x) div int b = - int (x div b + of_bool (x mod b \<noteq> 0))" for x
    using zdiv_zminus1_eq_if [of "int b" "int x"] assms(2)
    by (auto simp: zdiv_int [symmetric] zmod_int [symmetric] of_nat_eq_0_iff simp del: of_nat_mod of_nat_div)
  from this [of "nat \<bar>v\<bar>"] show ?thesis using v by simp
qed

lemma sgn_div_nat: "sgn (v div int b) = (if v div int b = 0 then 0 else sgn v)"
proof (cases "b = 0")
  case False
  then have "v < 0 \<Longrightarrow> v div int b < 0" "0 \<le> v \<Longrightarrow> 0 \<le> v div int b"
    by (simp_all add: pos_imp_zdiv_neg_iff pos_imp_zdiv_nonneg_iff)
  then show ?thesis by (cases "v < 0") (auto simp: sgn_if)
qed simp

text \<open>Division of a signed integer rounds towards minus infinity.\<close>

lemma realises_euclidian_div_by_biguint:
  assumes a: "bigz a n v" and b: "limbs_ok b" and small: "min n (length b) \<le> 8"
  shows "realises (euclidian_div_by_biguint a b k) (max n 1 \<le> k \<and> \<bar>v div int (bnat b)\<bar> < 2 ^ (32 * k))
    (\<lambda>r. bigz r k (v div int (bnat b)))"
  unfolding euclidian_div_by_biguint_def
proof (rule realises_after [OF realises_div_rem_biguint [OF bigzD(1) [OF a] b]], use small bigzD(2) [OF a] in simp,
    unfold split_paired_all prod.case, elim conjE, rule realises_after [OF implements_is_sign(1) [OF bigzD(4) [OF a]]],
    rule realises_after [OF implements_is_zero_biguint], unfold Let_def)
  let ?d = "nat \<bar>v\<bar> div bnat b" and ?r = "nat \<bar>v\<bar> mod bnat b"
  let ?one = "bnat b \<noteq> 0 \<and> v < 0 \<and> ?r \<noteq> 0"
  fix q r neg z
  assume q: "big q (length (bi_abs a)) (bnat (bi_abs a) div bnat b)"
    and r: "big r (length b) (if bnat b = 0 then 0 else bnat (bi_abs a) mod bnat b)"
    and neg: "bval neg (v < 0)" and z: "bval z (bnat r = 0)"
  have q: "big q n ?d" using q by (simp only: bigzD(2,3) [OF a])
  have r: "bnat r = (if bnat b = 0 then 0 else ?r)" using r by (simp only: bigzD(3) [OF a] big_def)
  have "(v < 0 \<and> bnat r \<noteq> 0) = ?one" unfolding r by auto
  with bval_and_not [OF neg z] have one: "bval (and_not neg z) ?one" by (simp only:)
  have ok: "limbs_ok q" "limbs_ok [and_not neg z]"
    using q one by (auto simp: big_def is_u32_def uval_bval)
  have val: "bnat q + bnat [and_not neg z] = nat \<bar>v div int (bnat b)\<bar>"
  proof -
    have sum: "bnat q + bnat [and_not neg z] = ?d + of_bool ?one"
      using q uval_bval [OF one] by (simp only: big_def bnat_single)
    have "?d + of_bool ?one = nat \<bar>v div int (bnat b)\<bar>"
    proof (cases "v < 0 \<and> bnat b \<noteq> 0")
      case True
      then show ?thesis by (simp only: div_neg_abs abs_minus_cancel abs_of_nat nat_int simp_thms)
    next
      case False
      then have "?one = False" by blast
      moreover have "?d = nat \<bar>v div int (bnat b)\<bar>"
        using False by (cases "bnat b = 0") (simp_all add: nat_div_distrib pos_imp_zdiv_nonneg_iff)
      ultimately show ?thesis by simp
    qed
    with sum show ?thesis by simp
  qed
  have len: "max (length q) (length [and_not neg z]) = max n 1" using q by (simp add: big_def)
  show "realises (circ_bind (add_biguint_non_carry q [and_not neg z] k) (\<lambda>m. circ_bind (is_zero_biguint m)
      (\<lambda>x. circ_return \<lparr>bi_abs = m, bi_sign = select x (Const 0) (bi_sign a)\<rparr>)))
      (max n 1 \<le> k \<and> \<bar>v div int (bnat b)\<bar> < 2 ^ (32 * k)) (\<lambda>r. bigz r k (v div int (bnat b)))"
    unfolding nat_abs_simps(5) [symmetric]
  proof (rule realises_bind [where P' = True, simplified])
    show "realises (add_biguint_non_carry q [and_not neg z] k) (max n 1 \<le> k \<and> nat \<bar>v div int (bnat b)\<bar> < 2 ^ (32 * k))
        (\<lambda>m. big m k (nat \<bar>v div int (bnat b)\<bar>))"
      using realises_add_biguint_non_carry [OF ok, of k] unfolding len val .
    fix m assume m: "big m k (nat \<bar>v div int (bnat b)\<bar>)"
    show "realises (circ_bind (is_zero_biguint m) (\<lambda>x. circ_return \<lparr>bi_abs = m, bi_sign = select x (Const 0) (bi_sign a)\<rparr>)) True
        (\<lambda>r. bigz r k (v div int (bnat b)))"
    proof (rule realises_after [OF implements_is_zero_biguint], rule realises_return)
      fix x assume "bval x (bnat m = 0)"
      from sval_select [OF this sval_Const(1) bigzD(4) [OF a]]
      have "sval (select x (Const 0) (bi_sign a)) (v div int (bnat b))"
        by (rule sval_cong) (use m sgn_div_nat [of v "bnat b"] in \<open>auto simp: big_def nat_abs_simps\<close>)
      with m show "bigz \<lparr>bi_abs = m, bi_sign = select x (Const 0) (bi_sign a)\<rparr> k (v div int (bnat b))"
        by (simp add: bigz_def)
    qed
  qed
qed

text \<open>Division by magnitude rounds towards zero.\<close>

lemma realises_div_bigint_by_biguint_trimmed:
  assumes a: "bigz a n v" and b: "limbs_ok b" and small: "min k (length b) \<le> 8"
  shows "realises (div_bigint_by_biguint_trimmed a b k) (k \<le> n \<and> \<bar>v\<bar> div int (bnat b) < 2 ^ (32 * k))
    (\<lambda>r. bigz r k (sgn v * (\<bar>v\<bar> div int (bnat b))))"
proof -
  have quot: "int (nat \<bar>v\<bar> div bnat b) = \<bar>v\<bar> div int (bnat b)" by (simp add: zdiv_int)
  have fits: "\<bar>v\<bar> div int (bnat b) < 2 ^ (32 * k) \<longleftrightarrow> nat \<bar>v\<bar> div bnat b < 2 ^ (32 * k)"
    unfolding quot [symmetric] by (rule of_nat_less_numeral_power_cancel_iff)
  show ?thesis
    unfolding div_bigint_by_biguint_trimmed_def fits
  proof (rule realises_bind [where P' = True, simplified])
    show "realises (div_biguint_trimmed (bi_abs a) b k) (k \<le> n \<and> nat \<bar>v\<bar> div bnat b < 2 ^ (32 * k))
        (\<lambda>q. big q k (nat \<bar>v\<bar> div bnat b))"
      using realises_div_biguint_trimmed [OF bigzD(1) [OF a] b small] by (simp only: bigzD(2,3) [OF a])
    fix q assume q: "big q k (nat \<bar>v\<bar> div bnat b)"
    then have "limbs_ok q" by (simp add: big_def)
    from implements_biguint_to_bigint [OF this] q
    have "implements (biguint_to_bigint q) (\<lambda>r. bigz r k (\<bar>v\<bar> div int (bnat b)))" by (simp add: big_def quot)
    then show "realises (circ_bind (biguint_to_bigint q) (\<lambda>d. circ_return \<lparr>bi_abs = q, bi_sign = b_mul (bi_sign d) (bi_sign a)\<rparr>)) True
        (\<lambda>r. bigz r k (sgn v * (\<bar>v\<bar> div int (bnat b))))"
    proof (rule realises_after, intro realises_return)
      fix d assume d: "bigz d k (\<bar>v\<bar> div int (bnat b))"
      have "sval (b_mul (bi_sign d) (bi_sign a)) (sgn v * (\<bar>v\<bar> div int (bnat b)))"
        by (rule sval_cong [OF sval_mult [OF bigzD(4) [OF d] bigzD(4) [OF a]]]) (simp add: sgn_mult mult.commute)
      moreover have "nat \<bar>sgn v * (\<bar>v\<bar> div int (bnat b))\<bar> = nat \<bar>v\<bar> div bnat b"
        unfolding quot [symmetric] by (cases "v = 0") (simp_all add: abs_mult abs_sgn_eq)
      ultimately show "bigz \<lparr>bi_abs = q, bi_sign = b_mul (bi_sign d) (bi_sign a)\<rparr> k (sgn v * (\<bar>v\<bar> div int (bnat b)))"
        using q by (simp add: bigz_def)
    qed
  qed
qed

lemma implements_div_bigint_by_biguint:
  assumes a: "bigz a n v" and b: "limbs_ok b" and small: "min n (length b) \<le> 8"
  shows "implements (div_bigint_by_biguint a b) (\<lambda>r. bigz r n (sgn v * (\<bar>v\<bar> div int (bnat b))))"
proof -
  have "\<bar>v\<bar> div int (bnat b) \<le> \<bar>v\<bar>"
  proof -
    have "int (nat \<bar>v\<bar> div bnat b) \<le> int (nat \<bar>v\<bar>)" by (simp only: of_nat_le_iff div_le_dividend)
    then show ?thesis by (simp add: zdiv_int)
  qed
  then have "\<bar>v\<bar> div int (bnat b) < 2 ^ (32 * n)" using bigz_bound [OF a] by linarith
  then show ?thesis
    using realises_implements [OF realises_div_bigint_by_biguint_trimmed [OF a b small]] bigzD(2) [OF a]
    by (simp add: div_bigint_by_biguint_def)
qed

text \<open>The value the witness reads back.\<close>

lemma get_bigint_target_bigz: "bigz a n v \<Longrightarrow> get_bigint_target a = Some v"
  using sval_eq_iff [OF bigzD(4), of a n v] bigzD(3) [of a n v] by (auto simp: get_bigint_target_def Let_def)

section \<open>Properties\<close>

text \<open>
  Signed arithmetic: difference and sum are satisfiable exactly when the requested width is available
  and holds the result, and then denote the difference and the sum of the integers with a consistent sign,
  for all signs and sizes of the operands.
\<close>

theorem bigint_add_sub_correct:
  assumes "bigz a n v" "bigz b m w"
  shows "realises (sub_bigint_non_carry a b k) (k \<le> Suc (max n m) \<and> \<bar>v - w\<bar> < 2 ^ (32 * k)) (\<lambda>r. bigz r k (v - w))
    \<and> realises (add_bigint_non_carry a b k) (k \<le> Suc (max n m) \<and> \<bar>v + w\<bar> < 2 ^ (32 * k)) (\<lambda>r. bigz r k (v + w))"
  using realises_sub_bigint_non_carry [OF assms] realises_add_bigint_non_carry [OF assms] by blast

theorem bigint_add_sub_correct_witness:
  "implements (sub_bigint_non_carry \<lparr>bi_abs = [Wire 3], bi_sign = Const 1\<rparr> \<lparr>bi_abs = [Wire 5], bi_sign = Const (- 1)\<rparr> 1)
    (\<lambda>r. bigz r 1 8)"
  using bigint_add_sub_correct [of "\<lparr>bi_abs = [Wire 3], bi_sign = Const 1\<rparr>" 1 3 "\<lparr>bi_abs = [Wire 5], bi_sign = Const (- 1)\<rparr>" 1 "- 5" 1]
  by (simp add: bigz_def big_def is_u32_def sval_def realises_def)

text \<open>
  Order and division of signed integers: the comparisons decide the order of the integers,
  \<open>euclidian_div_by_biguint\<close> rounds towards minus infinity and a zero divisor gives zero.
\<close>

theorem bigint_order_div_correct:
  assumes "bigz a n v" "bigz b m w" "n \<noteq> 0 \<or> m \<noteq> 0" "limbs_ok d" "min n (length d) \<le> 8"
  shows "implements (is_lte_bigint a b) (\<lambda>r. bval r (v \<le> w)) \<and> implements (cmp_bigint a b) (\<lambda>r. sval r (v - w))
    \<and> realises (euclidian_div_by_biguint a d k) (max n 1 \<le> k \<and> \<bar>v div int (bnat d)\<bar> < 2 ^ (32 * k)) (\<lambda>r. bigz r k (v div int (bnat d)))"
  using implements_is_lte_bigint [OF assms(1-3)] implements_cmp_bigint [OF assms(1,2)]
    realises_euclidian_div_by_biguint [OF assms(1,4,5)] by blast

theorem bigint_order_div_correct_witness:
  "implements (is_lte_bigint \<lparr>bi_abs = [Wire 7], bi_sign = Const (- 1)\<rparr> \<lparr>bi_abs = [Wire 5], bi_sign = Const (- 1)\<rparr>) (\<lambda>r. bval r True)
   \<and> implements (euclidian_div_by_biguint \<lparr>bi_abs = [Wire 7], bi_sign = Const (- 1)\<rparr> [Wire 2] 1) (\<lambda>r. bigz r 1 (- 4))"
  using bigint_order_div_correct [of "\<lparr>bi_abs = [Wire 7], bi_sign = Const (- 1)\<rparr>" 1 "- 7"
      "\<lparr>bi_abs = [Wire 5], bi_sign = Const (- 1)\<rparr>" 1 "- 5" "[Wire 2]" 1]
  by (simp add: bigz_def big_def is_u32_def sval_def realises_def)

end
