(* ===== verification/Big_U16.thy ===== *)
theory Big_U16
  imports U16_Gadgets Bigint
begin

text \<open>
  Multi-limb integers with 16-bit limbs, unsigned and signed (\<open>bigint/big_u16/biguint_u16.rs\<close>,
  \<open>bigint_u16.rs\<close>), in which positions and funding rates are kept. The limb loops are interpretations of
  \<open>limb_chain\<close> with limbs of 16 bits; \<open>big16 r n v\<close> and \<open>bigz16 r n v\<close> are the representations.
\<close>

type_synonym biguint_u16 = "target list"
type_synonym bigint_u16 = bigint

section \<open>Unsigned integers: operations\<close>

text \<open>\<open>flat_map\<close> over the 32-bit digits: an even number of limbs.\<close>

definition constant_biguint_u16 :: "nat \<Rightarrow> biguint_u16" where
  "constant_biguint_u16 v = map constant_u16 (concat (map (\<lambda>d. [d mod 2 ^ 16, d div 2 ^ 16]) (to_u32_digits v)))"

definition zero_biguint_u16 :: biguint_u16 where "zero_biguint_u16 = constant_biguint_u16 0"
definition one_biguint_u16 :: biguint_u16 where "one_biguint_u16 = constant_biguint_u16 1"

definition pad_to_u16 :: "nat \<Rightarrow> biguint_u16 \<Rightarrow> biguint_u16" where
  "pad_to_u16 n a = a @ replicate (n - length a) zero_u16"

definition pad_biguints_u16 :: "biguint_u16 \<Rightarrow> biguint_u16 \<Rightarrow> biguint_u16 \<times> biguint_u16" where
  "pad_biguints_u16 a b =
    (if length a > length b then (a, pad_to_u16 (length a) b) else (pad_to_u16 (length b) a, b))"

definition trim_biguint_u16 :: "biguint_u16 \<Rightarrow> nat \<Rightarrow> biguint_u16 circ" where
  "trim_biguint_u16 a final_num_limbs =
    circ_bind (circ_panic_unless (final_num_limbs \<le> length a)) (\<lambda>_.
    circ_bind (circ_for (drop final_num_limbs a) assert_zero_u16) (\<lambda>_.
    circ_return (take final_num_limbs a)))"


definition select_biguint_u16 :: "target \<Rightarrow> biguint_u16 \<Rightarrow> biguint_u16 \<Rightarrow> biguint_u16" where
  "select_biguint_u16 cond a b =
    (let (a_padded, b_padded) = pad_biguints_u16 a b in map2 (\<lambda>a_limb b_limb. select_u16 cond a_limb b_limb) a_padded b_padded)"


definition limb_or_zero_u16 :: "biguint_u16 \<Rightarrow> nat \<Rightarrow> target" where
  "limb_or_zero_u16 a i = (if i < length a then a ! i else zero_u16)"

definition add_step_u16 :: "target \<times> target \<Rightarrow> target \<Rightarrow> (target \<times> target) circ" where
  "add_step_u16 limbs carry = (let (a_limb, b_limb) = limbs in add_many_u16 [carry, a_limb, b_limb])"

definition sub_step_u16 :: "target \<times> target \<Rightarrow> target \<Rightarrow> (target \<times> target) circ" where
  "sub_step_u16 limbs borrow = (let (a_limb, b_limb) = limbs in sub_u16 a_limb b_limb borrow)"

definition add_biguint_u16 :: "biguint_u16 \<Rightarrow> biguint_u16 \<Rightarrow> biguint_u16 circ" where
  "add_biguint_u16 a b =
    (let num_limbs = max (length a) (length b) in
     circ_bind (carry_loop add_step_u16 (map (\<lambda>i. (limb_or_zero_u16 a i, limb_or_zero_u16 b i)) [0..<num_limbs]) zero_u16)
       (\<lambda>(combined_limbs, carry). circ_return (combined_limbs @ [carry])))"

definition add_biguint_u16_non_carry :: "biguint_u16 \<Rightarrow> biguint_u16 \<Rightarrow> nat \<Rightarrow> biguint_u16 circ" where
  "add_biguint_u16_non_carry a b num_limbs =
    circ_bind (circ_panic_unless (max (length a) (length b) \<le> num_limbs)) (\<lambda>_.
    circ_bind (carry_loop add_step_u16 (map (\<lambda>i. (limb_or_zero_u16 a i, limb_or_zero_u16 b i)) [0..<num_limbs]) zero_u16)
       (\<lambda>(combined_limbs, carry). circ_bind (assert_zero_u16 carry) (\<lambda>_. circ_return combined_limbs)))"

definition try_sub_biguint_u16 :: "biguint_u16 \<Rightarrow> biguint_u16 \<Rightarrow> (biguint_u16 \<times> target) circ" where
  "try_sub_biguint_u16 a b = (let (a, b) = pad_biguints_u16 a b in carry_loop sub_step_u16 (zip a b) zero_u16)"

definition sub_biguint_u16 :: "biguint_u16 \<Rightarrow> biguint_u16 \<Rightarrow> biguint_u16 circ" where
  "sub_biguint_u16 a b =
    circ_bind (try_sub_biguint_u16 a b) (\<lambda>(result, borrow).
    circ_bind (assert_zero_u16 borrow) (\<lambda>_. circ_return result))"


definition connect_biguint_u16 :: "biguint_u16 \<Rightarrow> biguint_u16 \<Rightarrow> unit circ" where
  "connect_biguint_u16 lhs rhs =
    (let min_limbs = min (length lhs) (length rhs) in
     circ_bind (circ_for [0..<min_limbs] (\<lambda>i. connect_u16 (lhs ! i) (rhs ! i))) (\<lambda>_.
     circ_bind (circ_for (drop min_limbs lhs) assert_zero_u16) (\<lambda>_.
     circ_for (drop min_limbs rhs) assert_zero_u16)))"

definition assert_zero_biguint_u16 :: "biguint_u16 \<Rightarrow> unit circ" where
  "assert_zero_biguint_u16 a = circ_for a assert_zero_u16"

definition is_zero_biguint_u16 :: "biguint_u16 \<Rightarrow> target circ" where
  "is_zero_biguint_u16 a =
    (let a' = (if a = [] then [zero_u16] else a) in
     circ_bind (circ_map (\<lambda>l. is_equal l (Const 0)) a') (\<lambda>and_results. circ_return (multi_and and_results)))"

text \<open>
  Equality: the squares of the differences of the common limbs and the remaining limbs are added up, and
  the sum is compared with zero.
\<close>

definition is_equal_biguint_u16 :: "biguint_u16 \<Rightarrow> biguint_u16 \<Rightarrow> target circ" where
  "is_equal_biguint_u16 lhs rhs =
    (let min_limbs = min (length lhs) (length rhs);
         accumulator = foldl (\<lambda>accumulator i. let diff = b_sub (lhs ! i) (rhs ! i) in b_mul_add diff diff accumulator) (Const 0) [0..<min_limbs];
         accumulator = foldl (\<lambda>accumulator l. b_add accumulator l) accumulator (drop min_limbs lhs);
         accumulator = foldl (\<lambda>accumulator l. b_add accumulator l) accumulator (drop min_limbs rhs) in
     is_equal accumulator (Const 0))"

definition conditional_assert_not_zero_biguint_u16 :: "target \<Rightarrow> biguint_u16 \<Rightarrow> unit circ" where
  "conditional_assert_not_zero_biguint_u16 is_enabled a =
    circ_bind (is_zero_biguint_u16 a) (\<lambda>is_zero. assert_false (b_and is_enabled is_zero))"

definition conditional_assert_not_eq_biguint_u16 :: "target \<Rightarrow> biguint_u16 \<Rightarrow> biguint_u16 \<Rightarrow> unit circ" where
  "conditional_assert_not_eq_biguint_u16 is_enabled a b =
    circ_bind (is_equal_biguint_u16 a b) (\<lambda>eq. assert_false (b_and is_enabled eq))"

definition target_to_biguint_u16 :: "target \<Rightarrow> nat \<Rightarrow> biguint_u16 circ" where
  "target_to_biguint_u16 t num_limbs = split_u64_to_u16s_le t num_limbs"

fun pair_limbs :: "target list \<Rightarrow> target list" where
  "pair_limbs (lo # hi # rest) = b_mul_add hi (Const (2 ^ 16)) lo # pair_limbs rest"
| "pair_limbs _ = []"

definition biguint_u16_to_biguint :: "biguint_u16 \<Rightarrow> biguint" where
  "biguint_u16_to_biguint a = pair_limbs (if odd (length a) then a @ [zero_u16] else a)"

definition biguint_u16_to_target :: "biguint_u16 \<Rightarrow> target circ" where
  "biguint_u16_to_target a =
    circ_bind (circ_panic_unless (length a < 5)) (\<lambda>_.
    circ_return (foldl (\<lambda>acc limb. b_mul_add acc (Const (2 ^ 16)) limb) (if a = [] then zero_u16 else last a) (rev (butlast a))))"

definition range_check_biguint_u16 :: "biguint_u16 \<Rightarrow> nat \<Rightarrow> unit circ" where
  "range_check_biguint_u16 a bit_count =
    circ_bind (circ_panic_unless (bit_count \<noteq> 0)) (\<lambda>_.
    let limb = ceil_div_usize bit_count 16 in
    circ_bind (circ_for (drop limb a) assert_zero_u16) (\<lambda>_.
    if bit_count mod 16 \<noteq> 0 \<and> limb \<le> length a
    then register_range_check (a ! (limb - 1)) (bit_count mod 16) else circ_return ()))"

section \<open>Unsigned integers: contracts\<close>

lemma big16D: "big16 r n v \<Longrightarrow> limbs16_ok r" "big16 r n v \<Longrightarrow> length r = n" "big16 r n v \<Longrightarrow> bnat16 r = v"
  by (simp_all add: big16_def)

lemma int_bnat16: "le_value (2 ^ 16) (map (\<lambda>t. int (uval t)) a) = int (bnat16 a)"
  using of_nat_le_value [of "2 ^ 16" "map uval a", where 'a = int] by (simp add: bnat16_def comp_def)

lemma limbs16_iff: "list_all (\<lambda>t. uval t < 2 ^ 16) ls \<longleftrightarrow> limbs16_ok ls"
  by (simp add: limbs16_ok_def is_u16_def list_all_iff)

lemmas limbs16_fold = limbs16_iff limbs16_iff [simplified] int_bnat16 int_bnat16 [simplified]

lemma bnat16_Nil [simp]: "bnat16 [] = 0"
  and bnat16_Cons: "bnat16 (x # xs) = uval x + 2 ^ 16 * bnat16 xs"
  and bnat16_append: "bnat16 (xs @ ys) = bnat16 xs + 2 ^ (16 * length xs) * bnat16 ys"
  by (simp_all add: bnat16_def le_value_append power_mult)

lemma bnat16_single [simp]: "bnat16 [x] = uval x"
  by (simp add: bnat16_Cons)

lemma bnat16_replicate_zero [simp]: "bnat16 (replicate n zero_u16) = 0"
  by (simp add: bnat16_def)

lemma limbs16_ok_simps [simp]:
  "limbs16_ok []" "limbs16_ok (x # xs) \<longleftrightarrow> is_u16 x \<and> limbs16_ok xs" "limbs16_ok (xs @ ys) \<longleftrightarrow> limbs16_ok xs \<and> limbs16_ok ys"
  "limbs16_ok (replicate n zero_u16)"
  by (auto simp: limbs16_ok_def list_all_iff)

lemma limbs16_ok_nth: "limbs16_ok a \<Longrightarrow> i < length a \<Longrightarrow> is_u16 (a ! i)"
  by (simp add: limbs16_ok_def list_all_length)

lemma limbs16_ok_take: "limbs16_ok a \<Longrightarrow> limbs16_ok (take n a)" "limbs16_ok a \<Longrightarrow> limbs16_ok (drop n a)"
  by (auto simp: limbs16_ok_def list_all_iff dest: in_set_takeD in_set_dropD)

lemma bnat16_bound: "limbs16_ok a \<Longrightarrow> bnat16 a < 2 ^ (16 * length a)"
  using le_value_bound [of "map uval a" "2 ^ 16"]
  by (simp add: bnat16_def limbs16_ok_def list_all_iff is_u16_def power_mult)

lemma bnat16_split: "bnat16 a = bnat16 (take n a) + 2 ^ (16 * min (length a) n) * bnat16 (drop n a)"
  using bnat16_append [of "take n a" "drop n a"] by simp

lemma bnat16_eq_0_iff: "bnat16 a = 0 \<longleftrightarrow> (\<forall>t\<in>set a. uval t = 0)"
  by (induction a) (simp_all add: bnat16_Cons)

lemma bnat16_inject:
  "limbs16_ok a \<Longrightarrow> limbs16_ok b \<Longrightarrow> length a = length b \<Longrightarrow> bnat16 a = bnat16 b \<longleftrightarrow> map uval a = map uval b"
  using le_value_inject [of "map uval a" "map uval b" "2 ^ 16"]
  by (auto simp: bnat16_def limbs16_ok_def list_all_iff is_u16_def)


lemma le_value_limbs16: "le_value (2 ^ 16) (map (\<lambda>i. int (uval (limb_or_zero_u16 a i))) [0..<n]) = int (bnat16 (take n a))"
proof -
  have eq: "map (\<lambda>i. int (uval (limb_or_zero_u16 a i))) [0..<n] = map int (map uval (take n a)) @ replicate (n - length a) 0"
    by (rule nth_equalityI) (auto simp: limb_or_zero_u16_def nth_append)
  show ?thesis
    unfolding eq le_value_append bnat16_def
    using of_nat_le_value [of "2 ^ 16" "map uval (take n a)", where 'a = int] by simp
qed

lemma limb_or_zero_u16_ok: "limbs16_ok a \<Longrightarrow> is_u16 (limb_or_zero_u16 a i)"
  by (simp add: limb_or_zero_u16_def limbs16_ok_nth)

lemma pad_to_simps_16 [simp]:
  "bnat16 (pad_to_u16 n a) = bnat16 a" "length (pad_to_u16 n a) = max n (length a)" "limbs16_ok (pad_to_u16 n a) = limbs16_ok a"
  by (simp_all add: pad_to_u16_def bnat16_append)

lemma pad_biguints_cases_16:
  assumes "pad_biguints_u16 a b = (a', b')"
  shows "length a' = max (length a) (length b)" "length b' = max (length a) (length b)"
    and "bnat16 a' = bnat16 a" "bnat16 b' = bnat16 b" "limbs16_ok a' = limbs16_ok a" "limbs16_ok b' = limbs16_ok b"
  using assms by (auto simp: pad_biguints_u16_def split: if_splits)


lemma realises_zero_limbs_16: "realises (circ_for ts assert_zero_u16) (bnat16 ts = 0) (\<lambda>_. True)"
  unfolding bnat16_eq_0_iff assert_zero_u16_def by (rule realises_for) (rule realises_assert_zero)


lemma bnat16_lt_iff_drop:
  assumes "limbs16_ok a"
  shows "bnat16 a < 2 ^ (16 * n) \<longleftrightarrow> bnat16 (drop n a) = 0"
proof
  assume lt: "bnat16 a < 2 ^ (16 * n)"
  show "bnat16 (drop n a) = 0"
  proof (cases "n \<le> length a")
    case True
    have "2 ^ (16 * n) * bnat16 (drop n a) \<le> bnat16 a"
      using bnat16_split [of a n] True by (simp add: min_absorb2)
    then have "2 ^ (16 * n) * bnat16 (drop n a) < 2 ^ (16 * n) * 1" using lt by linarith
    then show ?thesis using mult_less_cancel1 by blast
  qed simp
next
  assume zero: "bnat16 (drop n a) = 0"
  have "bnat16 (take n a) < 2 ^ (16 * length (take n a))" by (rule bnat16_bound [OF limbs16_ok_take(1) [OF assms]])
  also have "\<dots> \<le> 2 ^ (16 * n)" by (intro power_increasing) simp_all
  finally show "bnat16 a < 2 ^ (16 * n)" using bnat16_split [of a n] zero by simp
qed

lemma bnat16_take:
  assumes "limbs16_ok a" "n \<le> length a"
  shows "bnat16 (take n a) = bnat16 a mod 2 ^ (16 * n)"
proof -
  have "bnat16 (take n a) < 2 ^ (16 * n)"
    using bnat16_bound [OF limbs16_ok_take(1) [OF assms(1)], of n] assms(2) by (simp add: min_absorb2)
  then show ?thesis using bnat16_split [of a n] assms(2) by (simp add: min_absorb2)
qed

lemma realises_trim_biguint_u16:
  assumes "limbs16_ok a"
  shows "realises (trim_biguint_u16 a n) (n \<le> length a \<and> bnat16 a < 2 ^ (16 * n)) (\<lambda>r. big16 r n (bnat16 a))"
  unfolding trim_biguint_u16_def
proof (rule realises_bind [OF realises_panic])
  assume n: "n \<le> length a"
  show "realises (circ_bind (circ_for (drop n a) assert_zero_u16) (\<lambda>_. circ_return (take n a)))
      (bnat16 a < 2 ^ (16 * n)) (\<lambda>r. big16 r n (bnat16 a))"
    unfolding bnat16_lt_iff_drop [OF assms]
    by (rule realises_then_return [OF realises_zero_limbs_16])
      (use assms n bnat16_split [of a n] in \<open>simp add: big16_def limbs16_ok_take\<close>)
qed


lemma select_biguint_u16_big:
  assumes "bval c v" "limbs16_ok a" "limbs16_ok b"
  shows "big16 (select_biguint_u16 c a b) (max (length a) (length b)) (if v then bnat16 a else bnat16 b)"
proof -
  obtain a' b' where pad: "pad_biguints_u16 a b = (a', b')" by fastforce
  note props = pad_biguints_cases_16 [OF pad]
  have len: "length a' = length b'" using props by simp
  have ok: "limbs16_ok a'" "limbs16_ok b'" using assms props by simp_all
  have "length xs = length ys \<Longrightarrow> limbs16_ok xs \<Longrightarrow> limbs16_ok ys \<Longrightarrow>
      limbs16_ok (map2 (select_u16 c) xs ys) \<and> bnat16 (map2 (select_u16 c) xs ys) = (if v then bnat16 xs else bnat16 ys)" for xs ys
    by (induction xs ys rule: list_induct2)
      (simp_all add: bnat16_Cons is_u16_select [OF assms(1)] uval_select_u16 [OF assms(1)])
  from this [OF len ok] show ?thesis
    using props by (simp add: select_biguint_u16_def pad big16_def)
qed


interpretation adder16: limb_chain 16 add_step_u16 "\<lambda>(a, b). is_u16 a \<and> is_u16 b" "\<lambda>(a, b). int (uval a) + int (uval b)"
  "\<lambda>c. uval c \<le> 2" "\<lambda>c. int (uval c)"
proof (unfold_locales, unfold split_paired_all prod.case)
  fix a b c
  assume ok: "is_u16 a \<and> is_u16 b" and c: "uval c \<le> 2"
  let ?v = "\<Sum>t\<leftarrow>[c, a, b]. uval t"
  have v: "?v = uval c + (uval a + uval b)" by simp
  have bound: "?v < 3 * 2 ^ 16" using ok c by (simp add: is_u16_def)
  have "implements (add_many_u16 [c, a, b]) (u16_halves ?v)"
    using ok c bound by (intro implements_add_many_u16) (simp_all add: is_u16_def)
  then show "implements (add_step_u16 (a, b) c) (\<lambda>r. uval (fst r) < 2 ^ 16 \<and> uval (snd r) \<le> 2
      \<and> int (uval (fst r)) + 2 ^ 16 * int (uval (snd r)) = int (uval a) + int (uval b) + int (uval c))"
    unfolding add_step_u16_def Let_def prod.case
  proof (rule implements_weaken)
    fix r assume r: "u16_halves ?v r"
    then have "uval (fst r) + 2 ^ 16 * uval (snd r) < 3 * 2 ^ 16" using bound by (simp only: u16_halves_def)
    then have "uval (snd r) \<le> 2" by simp
    moreover have "int (uval (fst r) + 2 ^ 16 * uval (snd r)) = int (uval c + (uval a + uval b))"
      using r unfolding v by (simp only: u16_halves_def)
    ultimately show "uval (fst r) < 2 ^ 16 \<and> uval (snd r) \<le> 2
        \<and> int (uval (fst r)) + 2 ^ 16 * int (uval (snd r)) = int (uval a) + int (uval b) + int (uval c)"
      using r by (simp add: u16_halves_def is_u16_def)
  qed
qed

interpretation subtractor16: limb_chain 16 sub_step_u16 "\<lambda>(a, b). is_u16 a \<and> is_u16 b" "\<lambda>(a, b). int (uval a) - int (uval b)"
  "\<lambda>c. bval c True \<or> bval c False" "\<lambda>c. - int (uval c)"
proof (unfold_locales, unfold split_paired_all prod.case)
  fix a b c
  assume ok: "is_u16 a \<and> is_u16 b" and "bval c True \<or> bval c False"
  then obtain v where c: "bval c v" by blast
  show "implements (sub_step_u16 (a, b) c) (\<lambda>r. uval (fst r) < 2 ^ 16 \<and> (bval (snd r) True \<or> bval (snd r) False)
      \<and> int (uval (fst r)) + 2 ^ 16 * - int (uval (snd r)) = int (uval a) - int (uval b) + - int (uval c))"
    unfolding sub_step_u16_def Let_def prod.case
  proof (rule implements_weaken [OF implements_sub_u16_difference [OF _ _ c]])
    fix r assume r: "u16_difference (uval a) (uval b + of_bool v) r"
    then have "int (uval (fst r) + (uval b + of_bool v)) = int (uval a + 2 ^ 16 * of_bool (uval a < uval b + of_bool v))"
      by (simp only: u16_difference_def)
    then show "uval (fst r) < 2 ^ 16 \<and> (bval (snd r) True \<or> bval (snd r) False)
        \<and> int (uval (fst r)) + 2 ^ 16 * - int (uval (snd r)) = int (uval a) - int (uval b) + - int (uval c)"
      using r uval_bval [OF c] uval_bval [of "snd r"] by (cases "uval a < uval b + of_bool v") (auto simp: u16_difference_def is_u16_def)
  qed (use ok in auto)
qed


lemma implements_add_loop_16:
  assumes "limbs16_ok a" "limbs16_ok b" "max (length a) (length b) \<le> n"
  shows "implements (carry_loop add_step_u16 (map (\<lambda>i. (limb_or_zero_u16 a i, limb_or_zero_u16 b i)) [0..<n]) zero_u16)
    (\<lambda>(ls, c). limbs16_ok ls \<and> length ls = n \<and> uval c \<le> 2 \<and> bnat16 ls + 2 ^ (16 * n) * uval c = bnat16 a + bnat16 b)"
proof (rule implements_weaken [OF adder16.implements_limbs])
  fix r assume "adder16.limb_result (map (\<lambda>i. (limb_or_zero_u16 a i, limb_or_zero_u16 b i)) [0..<n]) zero_u16 r"
  then show "case r of (ls, c) \<Rightarrow> limbs16_ok ls \<and> length ls = n \<and> uval c \<le> 2 \<and> bnat16 ls + 2 ^ (16 * n) * uval c = bnat16 a + bnat16 b"
  proof (cases r)
    case (Pair ls c)
    have "int (bnat16 ls) + 2 ^ (16 * n) * int (uval c) = int (bnat16 a) + int (bnat16 b)"
      using \<open>adder16.limb_result _ _ r\<close> assms(3) le_value_limbs16 [of a n] le_value_limbs16 [of b n]
      by (simp add: Pair adder16.limb_result_def limbs16_fold comp_def le_value_add)
    then have "int (bnat16 ls + 2 ^ (16 * n) * uval c) = int (bnat16 a + bnat16 b)" by simp
    then have "bnat16 ls + 2 ^ (16 * n) * uval c = bnat16 a + bnat16 b" by (simp only: of_nat_eq_iff)
    then show ?thesis using \<open>adder16.limb_result _ _ r\<close> by (simp add: Pair adder16.limb_result_def limbs16_fold)
  qed
qed (use limb_or_zero_u16_ok assms in \<open>auto simp: list_all_iff\<close>)

lemma implements_add_biguint_u16:
  assumes "limbs16_ok a" "limbs16_ok b"
  shows "implements (add_biguint_u16 a b) (\<lambda>r. big16 r (Suc (max (length a) (length b))) (bnat16 a + bnat16 b))"
  unfolding add_biguint_u16_def Let_def
  by (rule implements_bind [OF implements_add_loop_16 [OF assms order_refl]])
    (auto simp: big16_def bnat16_append is_u16_def intro!: implements_return)

lemma realises_add_biguint_u16_non_carry:
  assumes "limbs16_ok a" "limbs16_ok b"
  shows "realises (add_biguint_u16_non_carry a b n)
    (max (length a) (length b) \<le> n \<and> bnat16 a + bnat16 b < 2 ^ (16 * n)) (\<lambda>r. big16 r n (bnat16 a + bnat16 b))"
  unfolding add_biguint_u16_non_carry_def
proof (rule realises_bind [OF realises_panic])
  assume n: "max (length a) (length b) \<le> n"
  show "realises (circ_bind (carry_loop add_step_u16 (map (\<lambda>i. (limb_or_zero_u16 a i, limb_or_zero_u16 b i)) [0..<n]) zero_u16)
      (\<lambda>(combined_limbs, carry). circ_bind (assert_zero_u16 carry) (\<lambda>_. circ_return combined_limbs)))
      (bnat16 a + bnat16 b < 2 ^ (16 * n)) (\<lambda>r. big16 r n (bnat16 a + bnat16 b))"
  proof (rule realises_after [OF implements_add_loop_16 [OF assms n]], unfold split_paired_all prod.case)
    fix ls c assume r: "limbs16_ok ls \<and> length ls = n \<and> uval c \<le> 2 \<and> bnat16 ls + 2 ^ (16 * n) * uval c = bnat16 a + bnat16 b"
    have fits: "bnat16 a + bnat16 b < 2 ^ (16 * n) \<longleftrightarrow> uval c = 0"
      using digit_less_iff [of "bnat16 ls" "2 ^ (16 * n)" "uval c" 1] bnat16_bound [of ls] r by simp
    show "realises (circ_bind (assert_zero_u16 c) (\<lambda>_. circ_return ls)) (bnat16 a + bnat16 b < 2 ^ (16 * n)) (\<lambda>r. big16 r n (bnat16 a + bnat16 b))"
      unfolding fits assert_zero_u16_def
      by (rule realises_then_return [OF realises_assert_zero]) (use r in \<open>simp add: big16_def\<close>)
  qed
qed

text \<open>The difference modulo the width, and the borrow.\<close>

lemma implements_try_sub_biguint_u16:
  assumes "limbs16_ok a" "limbs16_ok b"
  shows "implements (try_sub_biguint_u16 a b) (\<lambda>(r, borrow). bval borrow (bnat16 a < bnat16 b)
    \<and> big16 r (max (length a) (length b)) (bnat16 a + 2 ^ (16 * max (length a) (length b)) * of_bool (bnat16 a < bnat16 b) - bnat16 b))"
proof -
  obtain a' b' where pad: "pad_biguints_u16 a b = (a', b')" by fastforce
  note props = pad_biguints_cases_16 [OF pad]
  let ?n = "max (length a) (length b)"
  have len: "length a' = ?n" "length b' = ?n" and ok: "limbs16_ok a'" "limbs16_ok b'" using props assms by simp_all
  have items: "list_all (\<lambda>(a, b). is_u16 a \<and> is_u16 b) (zip a' b')"
    using ok by (auto simp: limbs16_ok_def list_all_iff dest: set_zip_leftD set_zip_rightD)
  have len': "length a' = length b'" using len by simp
  have val: "le_value (2 ^ 16) (map (\<lambda>(a, b). int (uval a) - int (uval b)) (zip a' b')) = int (bnat16 a) - int (bnat16 b)"
    unfolding case_prod_beta le_value_diff
      map_zip_fst_snd(1) [OF len', of "\<lambda>t. int (uval t)"] map_zip_fst_snd(2) [OF len', of "\<lambda>t. int (uval t)"]
    by (simp only: int_bnat16 props)
  show ?thesis
    unfolding try_sub_biguint_u16_def pad Let_def prod.case
  proof (rule implements_weaken [OF subtractor16.implements_limbs [OF items]], unfold split_paired_all prod.case)
    fix ls c assume r: "subtractor16.limb_result (zip a' b') zero_u16 (ls, c)"
    then have ls: "limbs16_ok ls" "length ls = ?n" using len by (simp_all add: subtractor16.limb_result_def limbs16_fold)
    obtain v where c: "bval c v" using r by (auto simp: subtractor16.limb_result_def limbs16_fold)
    have eq: "int (bnat16 ls) - 2 ^ (16 * ?n) * of_bool v = int (bnat16 a) - int (bnat16 b)"
      using r uval_bval [OF c] len val by (simp add: subtractor16.limb_result_def limbs16_fold)
    have lt: "int (bnat16 ls) < 2 ^ (16 * ?n)" using bnat16_bound [OF ls(1)] ls(2) by (metis of_nat_less_numeral_power_cancel_iff)
    show "bval c (bnat16 a < bnat16 b) \<and> big16 ls ?n (bnat16 a + 2 ^ (16 * ?n) * of_bool (bnat16 a < bnat16 b) - bnat16 b)"
    proof (cases v)
      case True
      then have eq': "int (bnat16 ls) + int (bnat16 b) = int (bnat16 a) + 2 ^ (16 * ?n)" using eq by simp
      then have "int (bnat16 a) < int (bnat16 b)" using lt by linarith
      then have "bnat16 a < bnat16 b" by simp
      moreover from eq' have "int (bnat16 ls + bnat16 b) = int (bnat16 a + 2 ^ (16 * ?n))" by simp
      then have "bnat16 ls + bnat16 b = bnat16 a + 2 ^ (16 * ?n)" by (simp only: of_nat_eq_iff)
      ultimately show ?thesis using True c ls by (simp add: big16_def)
    next
      case False
      then have "bnat16 ls + bnat16 b = bnat16 a" using eq by simp
      then show ?thesis using False c ls by (simp add: big16_def)
    qed
  qed (simp add: bval_def zero_u16_def)
qed

lemma bnat16_eq_iff:
  assumes "limbs16_ok a" "limbs16_ok b"
  shows "bnat16 a = bnat16 b \<longleftrightarrow> (\<forall>i<min (length a) (length b). uval (a ! i) = uval (b ! i))
    \<and> bnat16 (drop (min (length a) (length b)) a) = 0 \<and> bnat16 (drop (min (length a) (length b)) b) = 0"
    (is "_ \<longleftrightarrow> (\<forall>i<?m. _) \<and> _")
proof -
  let ?A = "take ?m a" and ?B = "take ?m b"
  have len: "length ?A = ?m" "length ?B = ?m" by simp_all
  have heads: "bnat16 ?A = bnat16 ?B \<longleftrightarrow> (\<forall>i<?m. uval (a ! i) = uval (b ! i))"
    using bnat16_inject [of ?A ?B] assms limbs16_ok_take len by (auto simp: list_eq_iff_nth_eq)
  have split: "bnat16 a = bnat16 ?A + 2 ^ (16 * ?m) * bnat16 (drop ?m a)" "bnat16 b = bnat16 ?B + 2 ^ (16 * ?m) * bnat16 (drop ?m b)"
    using bnat16_append [of ?A "drop ?m a"] bnat16_append [of ?B "drop ?m b"] len by simp_all
  have bound: "bnat16 ?A < 2 ^ (16 * ?m)" "bnat16 ?B < 2 ^ (16 * ?m)"
    using bnat16_bound [of ?A] bnat16_bound [of ?B] assms limbs16_ok_take len by simp_all
  have "drop ?m a = [] \<or> drop ?m b = []" by auto
  then have one: "bnat16 (drop ?m a) = 0 \<or> bnat16 (drop ?m b) = 0" by (metis bnat16_Nil)
  have tails: "bnat16 a = bnat16 b \<longleftrightarrow> bnat16 ?A = bnat16 ?B \<and> bnat16 (drop ?m a) = 0 \<and> bnat16 (drop ?m b) = 0"
    unfolding split(1) split(2) digit_eq_iff [OF bound] using one by auto
  show ?thesis unfolding tails heads by blast
qed

lemma realises_connect_biguint_u16:
  assumes "limbs16_ok a" "limbs16_ok b"
  shows "realises (connect_biguint_u16 a b) (bnat16 a = bnat16 b) (\<lambda>_. True)"
proof -
  let ?m = "min (length a) (length b)"
  have heads: "realises (circ_for [0..<?m] (\<lambda>i. connect_u16 (a ! i) (b ! i)))
      (\<forall>i\<in>set [0..<?m]. uval (a ! i) = uval (b ! i)) (\<lambda>_. True)"
    unfolding connect_u16_def to_canonical_inject by (rule realises_for) (rule realises_connect)
  have "realises (connect_biguint_u16 a b)
      ((\<forall>i\<in>set [0..<?m]. uval (a ! i) = uval (b ! i)) \<and> bnat16 (drop ?m a) = 0 \<and> bnat16 (drop ?m b) = 0) (\<lambda>_. True)"
    unfolding connect_biguint_u16_def Let_def
    by (rule realises_bind [OF heads], rule realises_bind [OF realises_zero_limbs_16], rule realises_zero_limbs_16)
  then show ?thesis
    by (rule realises_weaken) (simp_all add: bnat16_eq_iff [OF assms] atLeast0LessThan lessThan_def)
qed


lemma ceil_div_16:
  "ceil_div_usize n 16 = n div 16 + of_bool (n mod 16 \<noteq> 0)" "n = 16 * (n div 16) + n mod 16"
  by (simp_all add: ceil_div_usize_def)

lemma realises_range_check_biguint_u16:
  assumes "limbs16_ok a"
  shows "realises (range_check_biguint_u16 a bits) (bits \<noteq> 0 \<and> bnat16 a < 2 ^ bits) (\<lambda>_. True)"
  unfolding range_check_biguint_u16_def Let_def
proof (rule realises_bind [OF realises_panic])
  assume bits: "bits \<noteq> 0"
  define limb where "limb = ceil_div_usize bits 16"
  have limb: "limb \<noteq> 0" "bits mod 16 = 0 \<longrightarrow> bits = 16 * limb" "bits mod 16 \<noteq> 0 \<longrightarrow> 16 * (limb - 1) + bits mod 16 = bits"
    using ceil_div_16 [of bits] bits unfolding limb_def by auto
  have fits: "bnat16 a < 2 ^ bits \<longleftrightarrow> bnat16 (drop limb a) = 0 \<and>
      (bits mod 16 \<noteq> 0 \<and> limb \<le> length a \<longrightarrow> uval (a ! (limb - 1)) < 2 ^ (bits mod 16))"
  proof (cases "bits mod 16 \<noteq> 0 \<and> limb \<le> length a")
    case True
    then have l: "limb - 1 < length a" "Suc (limb - 1) = limb" using limb(1) by auto
    have a: "a = take (limb - 1) a @ a ! (limb - 1) # drop limb a"
      using id_take_nth_drop [OF l(1)] l(2) by simp
    have head: "bnat16 (take (limb - 1) a) < 2 ^ (16 * (limb - 1))"
      using bnat16_bound [OF limbs16_ok_take(1) [OF assms], of "limb - 1"] l by (simp add: min_absorb2)
    have val: "bnat16 a = bnat16 (take (limb - 1) a) + 2 ^ (16 * (limb - 1)) * (uval (a ! (limb - 1)) + 2 ^ 16 * bnat16 (drop limb a))"
      using l by (subst a) (simp add: bnat16_append bnat16_Cons)
    have pow: "(2::nat) ^ bits = 2 ^ (16 * (limb - 1)) * 2 ^ (bits mod 16)"
      using limb(3) True by (simp add: power_add [symmetric])
    have "uval (a ! (limb - 1)) + 2 ^ 16 * bnat16 (drop limb a) < 2 ^ (bits mod 16)
        \<longleftrightarrow> bnat16 (drop limb a) = 0 \<and> uval (a ! (limb - 1)) < 2 ^ (bits mod 16)"
    proof -
      have "(2::nat) ^ (bits mod 16) \<le> 2 ^ 16" by (intro power_increasing) (simp_all add: less_imp_le)
      then show ?thesis by (cases "bnat16 (drop limb a)") auto
    qed
    then show ?thesis unfolding val pow digit_less_iff [OF head] using True by simp
  next
    case False
    show ?thesis
    proof (cases "bits mod 16 = 0")
      case True
      then have "bits = 16 * limb" using limb(2) by simp
      then show ?thesis using True bnat16_lt_iff_drop [OF assms, of limb] by simp
    next
      case nonzero: False
      then have short: "length a < limb" using False by simp
      then have "16 * length a \<le> 16 * (limb - 1)" by simp
      then have "16 * length a \<le> bits" using limb(3) nonzero by linarith
      then have "bnat16 a < 2 ^ bits" using pow2_mono_less [OF bnat16_bound [OF assms]] by blast
      then show ?thesis using short nonzero by simp
    qed
  qed
  show "realises (circ_bind (circ_for (drop (ceil_div_usize bits 16) a) assert_zero_u16)
      (\<lambda>_. if bits mod 16 \<noteq> 0 \<and> ceil_div_usize bits 16 \<le> length a
        then register_range_check (a ! (ceil_div_usize bits 16 - 1)) (bits mod 16) else circ_return ()))
      (bnat16 a < 2 ^ bits) (\<lambda>_. True)"
    unfolding fits limb_def [symmetric]
  proof (rule realises_bind [OF realises_zero_limbs_16])
    show "realises (if bits mod 16 \<noteq> 0 \<and> limb \<le> length a then register_range_check (a ! (limb - 1)) (bits mod 16) else circ_return ())
        (bits mod 16 \<noteq> 0 \<and> limb \<le> length a \<longrightarrow> uval (a ! (limb - 1)) < 2 ^ (bits mod 16)) (\<lambda>_. True)"
      using realises_register_range_check [of "bits mod 16" "a ! (limb - 1)"] realises_return [of "\<lambda>_. True" "()"]
      by (auto split: if_splits)
  qed
qed

lemma implements_is_zero_biguint_u16: "implements (is_zero_biguint_u16 a) (\<lambda>r. bval r (bnat16 a = 0))"
proof -
  have "is_zero_biguint_u16 a = is_zero_biguint a"
    by (simp add: is_zero_biguint_u16_def is_zero_biguint_def zero_u16_def zero_u32_def)
  moreover have "bnat16 a = 0 \<longleftrightarrow> bnat a = 0" by (simp add: bnat16_eq_0_iff bnat_eq_0_iff)
  ultimately show ?thesis using implements_is_zero_biguint [of a] by (simp only:)
qed

subsection \<open>Equality as a sum of squares\<close>

lemma tval_sum_of_squares:
  "tval (foldl (\<lambda>accumulator i. let diff = b_sub (f i) (g i) in b_mul_add diff diff accumulator) t is)
    = tval t + (\<Sum>i\<leftarrow>is. (tval (f i) - tval (g i)) * (tval (f i) - tval (g i)))"
  by (induction "is" arbitrary: t) (simp_all add: tval_simps Let_def)

lemma tval_sum_of_limbs: "tval (foldl (\<lambda>accumulator l. b_add accumulator l) t ls) = tval t + (\<Sum>l\<leftarrow>ls. tval l)"
  by (induction ls arbitrary: t) (simp_all add: tval_simps)

definition square_distance :: "nat \<Rightarrow> nat \<Rightarrow> nat" where
  "square_distance x y = (x - y) * (x - y) + (y - x) * (y - x)"

lemma square_distance: "of_nat (square_distance (uval x) (uval y)) = (tval x - tval y) * (tval x - tval y)"
proof (cases "uval y \<le> uval x")
  case True
  then have "(of_nat (uval x - uval y) :: gf) = tval x - tval y" by (simp add: of_nat_diff)
  with True show ?thesis by (simp add: square_distance_def flip: of_nat_mult) simp
next
  case False
  then have "(of_nat (uval y - uval x) :: gf) = tval y - tval x" by (simp add: of_nat_diff)
  moreover have "(tval y - tval x) * (tval y - tval x) = (tval x - tval y) * (tval x - tval y)" by (simp add: algebra_simps)
  ultimately show ?thesis using False by (simp add: square_distance_def)
qed

lemma square_distance_0 [simp]: "square_distance x y = 0 \<longleftrightarrow> x = y"
  by (auto simp: square_distance_def)

lemma square_distance_le: "x < 2 ^ 16 \<Longrightarrow> y < 2 ^ 16 \<Longrightarrow> square_distance x y \<le> 2 ^ 32"
proof -
  assume "x < 2 ^ 16" "y < 2 ^ 16"
  then have "x - y \<le> 2 ^ 16" "y - x \<le> 2 ^ 16" "x - y = 0 \<or> y - x = 0" by auto
  then show ?thesis
    using mult_le_mono [of "x - y" "2 ^ 16" "x - y" "2 ^ 16"] mult_le_mono [of "y - x" "2 ^ 16" "y - x" "2 ^ 16"]
    by (auto simp: square_distance_def)
qed

lemma sum_list_map_le_const: "(\<And>x. x \<in> set xs \<Longrightarrow> f x \<le> (c::nat)) \<Longrightarrow> (\<Sum>x\<leftarrow>xs. f x) \<le> length xs * c"
  by (induction xs) (simp_all add: add_mono)

lemma of_nat_sum_list_map: "of_nat (\<Sum>x\<leftarrow>xs. f x) = (\<Sum>x\<leftarrow>xs. of_nat (f x))"
  by (induction xs) simp_all

lemma implements_is_equal_biguint_u16:
  assumes ok: "limbs16_ok a" "limbs16_ok b" and len: "length a + length b < 2 ^ 31"
  shows "implements (is_equal_biguint_u16 a b) (\<lambda>r. bval r (bnat16 a = bnat16 b))"
proof -
  let ?m = "min (length a) (length b)"
  let ?S = "(\<Sum>i\<leftarrow>[0..<?m]. square_distance (uval (a ! i)) (uval (b ! i)))"
  let ?A = "\<Sum>l\<leftarrow>drop ?m a. uval l" and ?B = "\<Sum>l\<leftarrow>drop ?m b. uval l"
  define acc where "acc = foldl (\<lambda>accumulator l. b_add accumulator l) (foldl (\<lambda>accumulator l. b_add accumulator l)
      (foldl (\<lambda>accumulator i. let diff = b_sub (a ! i) (b ! i) in b_mul_add diff diff accumulator) (Const 0) [0..<?m])
      (drop ?m a)) (drop ?m b)"
  have limb: "uval l \<le> 2 ^ 32" if "l \<in> set (drop ?m a) \<union> set (drop ?m b)" for l
    using that ok by (auto simp: limbs16_ok_def list_all_iff is_u16_def dest!: in_set_dropD)
  have "?S \<le> length [0..<?m] * 2 ^ 32"
    by (rule sum_list_map_le_const, rule square_distance_le) (use ok in \<open>auto simp: limbs16_ok_def list_all_length is_u16_def\<close>)
  moreover have "?A \<le> length (drop ?m a) * 2 ^ 32" "?B \<le> length (drop ?m b) * 2 ^ 32"
    by (rule sum_list_map_le_const, rule limb, simp)+
  ultimately have "?S + ?A + ?B \<le> (length [0..<?m] + length (drop ?m a) + length (drop ?m b)) * 2 ^ 32"
    by (simp only: add_mult_distrib add_mono)
  also have "\<dots> \<le> 2 ^ 31 * 2 ^ 32" using len by (intro mult_le_mono1) auto
  finally have small: "?S + ?A + ?B < p_nat" by simp
  have "tval acc = of_nat (?S + ?A + ?B)"
    by (simp only: acc_def tval_sum_of_squares tval_sum_of_limbs of_nat_sum_list_map square_distance of_nat_add of_nat_to_canonical tval.simps add_0)
  then have "uval acc = ?S + ?A + ?B" using to_canonical_of_nat_small [OF small] by simp
  then have "tval acc = tval (Const 0) \<longleftrightarrow> ?S + ?A + ?B = 0" using to_canonical_inject [of "tval acc" 0] by simp
  also have "\<dots> \<longleftrightarrow> bnat16 a = bnat16 b"
    by (auto simp: bnat16_eq_iff [OF ok] sum_list_eq_0_iff bnat16_eq_0_iff)
  finally have "tval acc = tval (Const 0) \<longleftrightarrow> bnat16 a = bnat16 b" .
  with implements_is_equal [of acc "Const 0"] show ?thesis
    by (simp only: is_equal_biguint_u16_def Let_def acc_def)
qed

section \<open>Conversions\<close>

lemma uval_pair:
  assumes "is_u16 lo" "is_u16 hi"
  shows "uval (b_mul_add hi (Const (2 ^ 16)) lo) = uval lo + 2 ^ 16 * uval hi"
proof -
  have "tval (b_mul_add hi (Const (2 ^ 16)) lo) = of_nat (uval lo + 2 ^ 16 * uval hi)" by (simp add: tval_simps mult.commute)
  moreover have "uval lo + 2 ^ 16 * uval hi < p_nat" using assms by (simp add: is_u16_def)
  ultimately show ?thesis using to_canonical_of_nat_small by (simp only:)
qed

lemma pair_limbs_value:
  "limbs16_ok a \<Longrightarrow> even (length a) \<Longrightarrow> limbs_ok (pair_limbs a) \<and> length (pair_limbs a) = length a div 2 \<and> bnat (pair_limbs a) = bnat16 a"
proof (induction a rule: pair_limbs.induct)
  case (1 lo hi rest)
  then have ok: "is_u16 lo" "is_u16 hi" by simp_all
  then have "is_u32 (b_mul_add hi (Const (2 ^ 16)) lo)" unfolding is_u32_def uval_pair [OF ok] by (simp add: is_u16_def)
  then show ?case
    using 1 uval_pair [OF ok] by (simp only: pair_limbs.simps limbs_ok_simps bnat_Cons bnat16_Cons) (simp add: bnat_Cons bnat16_Cons)
qed simp_all

lemma biguint_u16_to_biguint_big:
  assumes "limbs16_ok a"
  shows "big (biguint_u16_to_biguint a) ((length a + 1) div 2) (bnat16 a)"
  using pair_limbs_value [of a] pair_limbs_value [of "a @ [zero_u16]"] assms
  by (auto simp: biguint_u16_to_biguint_def big_def bnat16_append is_u16_def zero_u16_def)

lemma le_value_tval: "le_value (2 ^ 16) (map tval a) = of_nat (bnat16 a)"
  by (simp add: bnat16_def of_nat_le_value comp_def)

lemma implements_biguint_u16_to_target:
  assumes "length a < 5"
  shows "implements (biguint_u16_to_target a) (\<lambda>t. tval t = of_nat (bnat16 a))"
  unfolding biguint_u16_to_target_def
proof (rule implements_bind [OF implements_panic [OF assms]], rule implements_return, cases "a = []")
  case False
  then show "tval (foldl (\<lambda>acc limb. b_mul_add acc (Const (2 ^ 16)) limb) (if a = [] then zero_u16 else last a) (rev (butlast a))) = of_nat (bnat16 a)"
    using tval_recombine_limbs [OF False] by (simp only: if_False le_value_tval)
qed (simp add: zero_u16_def)

lemma implements_biguint_u16_to_target_small:
  "limbs16_ok a \<Longrightarrow> length a < 4 \<Longrightarrow> implements (biguint_u16_to_target a) (\<lambda>t. uval t = bnat16 a)"
proof (rule implements_weaken [OF implements_biguint_u16_to_target])
  fix t assume a: "limbs16_ok a" "length a < 4" and t: "tval t = of_nat (bnat16 a)"
  have "bnat16 a < 2 ^ (16 * length a)" by (rule bnat16_bound [OF a(1)])
  also have "\<dots> \<le> 2 ^ 48" using a(2) by (intro power_increasing) simp_all
  finally have "bnat16 a < p_nat" by simp
  then show "uval t = bnat16 a" unfolding t by (rule to_canonical_of_nat_small)
qed simp

end
