(* ===== verification/Bigint_U16.thy ===== *)
theory Bigint_U16
  imports Big_U16
begin

text \<open>
  Signed integers with 16-bit limbs (\<open>bigint/big_u16/bigint_u16.rs\<close>), the type of positions and funding
  rates: a magnitude and a sign target, as in \<open>Bigint\<close>. \<open>bigz16 r n v\<close> says that \<open>r\<close> has \<open>n\<close> proper limbs,
  denotes \<open>v\<close> and carries its sign.
\<close>

section \<open>Representation\<close>

definition bigz16 :: "bigint_u16 \<Rightarrow> nat \<Rightarrow> int \<Rightarrow> bool" where
  "bigz16 r n v \<longleftrightarrow> big16 (bi_abs r) n (nat \<bar>v\<bar>) \<and> sval (bi_sign r) v"

lemma bigz16D:
  "bigz16 r n v \<Longrightarrow> limbs16_ok (bi_abs r)" "bigz16 r n v \<Longrightarrow> length (bi_abs r) = n" "bigz16 r n v \<Longrightarrow> bnat16 (bi_abs r) = nat \<bar>v\<bar>"
  "bigz16 r n v \<Longrightarrow> sval (bi_sign r) v"
  by (simp_all add: bigz16_def big16_def)

lemma bigz16_bound: "bigz16 r n v \<Longrightarrow> \<bar>v\<bar> < 2 ^ (16 * n)"
  using bnat16_bound [of "bi_abs r"] by (auto simp: bigz16_def big16_def nat_less_iff)

section \<open>Operations\<close>

definition add_virtual_bigint_u16_target_safe :: "nat \<Rightarrow> bigint_u16 circ" where
  "add_virtual_bigint_u16_target_safe num_limbs =
    circ_bind (add_virtual_u16_targets_safe num_limbs) (\<lambda>abs.
    circ_bind add_virtual_sign_target_safe (\<lambda>sign.
    circ_bind (is_zero_biguint_u16 abs) (\<lambda>abs_is_zero.
    circ_bind (is_zero sign) (\<lambda>sign_is_zero.
    circ_bind (connect abs_is_zero sign_is_zero) (\<lambda>_.
    circ_return \<lparr>bi_abs = abs, bi_sign = sign\<rparr>)))))"

definition connect_bigint_u16 :: "bigint_u16 \<Rightarrow> bigint_u16 \<Rightarrow> unit circ" where
  "connect_bigint_u16 a b =
    circ_bind (connect_biguint_u16 (bi_abs a) (bi_abs b)) (\<lambda>_. connect (bi_sign a) (bi_sign b))"

definition is_equal_bigint_u16 :: "bigint_u16 \<Rightarrow> bigint_u16 \<Rightarrow> target circ" where
  "is_equal_bigint_u16 a b =
    circ_bind (is_equal_biguint_u16 (bi_abs a) (bi_abs b)) (\<lambda>abs_eq.
    circ_bind (is_equal (bi_sign a) (bi_sign b)) (\<lambda>sign_eq. circ_return (b_and abs_eq sign_eq)))"

definition is_not_equal_bigint_u16 :: "bigint_u16 \<Rightarrow> bigint_u16 \<Rightarrow> target circ" where
  "is_not_equal_bigint_u16 a b = circ_bind (is_equal_bigint_u16 a b) (\<lambda>is_equal. circ_return (b_not is_equal))"

definition is_zero_bigint_u16 :: "bigint_u16 \<Rightarrow> target circ" where
  "is_zero_bigint_u16 a =
    circ_bind (is_zero (bi_sign a)) (\<lambda>is_sign_zero.
    circ_bind (is_zero_biguint_u16 (bi_abs a)) (\<lambda>is_abs_zero. circ_return (b_and is_sign_zero is_abs_zero)))"

definition select_bigint_u16 :: "target \<Rightarrow> bigint_u16 \<Rightarrow> bigint_u16 \<Rightarrow> bigint_u16" where
  "select_bigint_u16 condition a b =
    \<lparr>bi_abs = select_biguint_u16 condition (bi_abs a) (bi_abs b), bi_sign = select condition (bi_sign a) (bi_sign b)\<rparr>"

definition zero_bigint_u16 :: bigint_u16 where
  "zero_bigint_u16 = \<lparr>bi_abs = zero_biguint_u16, bi_sign = Const 0\<rparr>"

definition abs_diff_u16 :: "bigint_u16 \<Rightarrow> bigint_u16 \<Rightarrow> bigint_u16 circ" where
  "abs_diff_u16 a b =
    circ_bind (try_sub_biguint_u16 (bi_abs a) (bi_abs b)) (\<lambda>(diff_if_a_gt_b, borrow_a_b).
    circ_bind (try_sub_biguint_u16 (bi_abs b) (bi_abs a)) (\<lambda>(diff_if_a_lte_b, borrow_b_a).
    circ_return \<lparr>bi_abs = select_biguint_u16 borrow_b_a diff_if_a_gt_b diff_if_a_lte_b, bi_sign = b_sub borrow_b_a borrow_a_b\<rparr>))"

definition abs_sum_u16 :: "bigint_u16 \<Rightarrow> bigint_u16 \<Rightarrow> biguint_u16 circ" where
  "abs_sum_u16 a b = add_biguint_u16 (bi_abs a) (bi_abs b)"

definition sub_bigint_u16_non_carry :: "bigint_u16 \<Rightarrow> bigint_u16 \<Rightarrow> nat \<Rightarrow> bigint_u16 circ" where
  "sub_bigint_u16_non_carry a b num_limbs =
    circ_bind (abs_diff_u16 a b) (\<lambda>abs_diff.
    circ_bind (abs_sum_u16 a b) (\<lambda>abs_sum.
    circ_bind (is_equal (bi_sign a) (bi_sign b)) (\<lambda>is_same_sign.
    let a_sign = bi_sign a; b_sign = bi_sign b;
        result_if_same_sign = \<lparr>bi_abs = bi_abs abs_diff, bi_sign = b_mul a_sign (bi_sign abs_diff)\<rparr>;
        one_minus_a_sign_sqr = arithmetic (- 1) 1 a_sign a_sign (Const 1);
        sign = arithmetic (- 1) 1 one_minus_a_sign_sqr b_sign a_sign;
        result_if_opposite_sign = \<lparr>bi_abs = abs_sum, bi_sign = sign\<rparr>;
        result = select_bigint_u16 is_same_sign result_if_same_sign result_if_opposite_sign in
    circ_bind (trim_biguint_u16 (bi_abs result) num_limbs) (\<lambda>abs.
    circ_return \<lparr>bi_abs = abs, bi_sign = bi_sign result\<rparr>))))"

definition add_bigint_u16_non_carry :: "bigint_u16 \<Rightarrow> bigint_u16 \<Rightarrow> nat \<Rightarrow> bigint_u16 circ" where
  "add_bigint_u16_non_carry a b num_limbs =
    (let neg_b = \<lparr>bi_abs = bi_abs b, bi_sign = b_mul (Const (- 1)) (bi_sign b)\<rparr> in
     sub_bigint_u16_non_carry a neg_b num_limbs)"

definition bigint_u16_to_bigint :: "bigint_u16 \<Rightarrow> bigint" where
  "bigint_u16_to_bigint a = \<lparr>bi_abs = biguint_u16_to_biguint (bi_abs a), bi_sign = bi_sign a\<rparr>"

definition signed_target_to_bigint_u16 :: "target \<Rightarrow> nat \<Rightarrow> bigint_u16 circ" where
  "signed_target_to_bigint_u16 t num_limbs =
    circ_bind (signed_abs t) (\<lambda>(abs, sign).
    circ_bind (target_to_biguint_u16 abs num_limbs) (\<lambda>abs. circ_return \<lparr>bi_abs = abs, bi_sign = sign\<rparr>))"

text \<open>\<open>zip_eq\<close> panics unless both have the same number of limbs.\<close>

definition bigint_u16_vector_diff :: "bigint_u16 \<Rightarrow> bigint_u16 \<Rightarrow> bigint_u16 circ" where
  "bigint_u16_vector_diff a b =
    circ_bind (circ_panic_unless (length (bi_abs a) = length (bi_abs b))) (\<lambda>_.
    circ_return \<lparr>bi_abs = map2 (\<lambda>x y. b_sub x y) (bi_abs a) (bi_abs b), bi_sign = b_sub (bi_sign a) (bi_sign b)\<rparr>)"

definition bigint_u16_vector_sum :: "target \<Rightarrow> bigint_u16 \<Rightarrow> bigint_u16 \<Rightarrow> bigint_u16 circ" where
  "bigint_u16_vector_sum cond a b =
    circ_bind (circ_panic_unless (length (bi_abs a) = length (bi_abs b))) (\<lambda>_.
    circ_return \<lparr>bi_abs = map2 (\<lambda>x y. b_mul_add cond x y) (bi_abs a) (bi_abs b), bi_sign = b_mul_add cond (bi_sign a) (bi_sign b)\<rparr>)"

text \<open>\<open>get_bigint_u16_target\<close> of the witness: any sign but -1, 0 and 1 panics (\<open>None\<close>).\<close>

definition get_bigint_u16_target :: "bigint_u16 \<Rightarrow> int option" where
  "get_bigint_u16_target a =
    (let sign = tval (bi_sign a) in
     if sign = 1 then Some (int (bnat16 (bi_abs a))) else if sign = - 1 then Some (- int (bnat16 (bi_abs a)))
     else if sign = 0 then Some 0 else None)"

section \<open>Contracts\<close>

lemma bigz16_select:
  assumes "bval c e" "bigz16 a n v" "bigz16 b m w"
  shows "bigz16 (select_bigint_u16 c a b) (max n m) (if e then v else w)"
proof -
  have "big16 (select_biguint_u16 c (bi_abs a) (bi_abs b)) (max n m) (if e then nat \<bar>v\<bar> else nat \<bar>w\<bar>)"
    using select_biguint_u16_big [OF assms(1) bigz16D(1) [OF assms(2)] bigz16D(1) [OF assms(3)]]
      bigz16D(2,3) [OF assms(2)] bigz16D(2,3) [OF assms(3)] by (cases e) simp_all
  then show ?thesis
    using sval_select [OF assms(1) bigz16D(4) [OF assms(2)] bigz16D(4) [OF assms(3)]]
    by (cases e) (simp_all add: bigz16_def select_bigint_u16_def)
qed


lemma implements_abs_diff_u16:
  assumes "bigz16 a n v" "bigz16 b m w"
  shows "implements (abs_diff_u16 a b) (\<lambda>r. bigz16 r (max n m) (\<bar>v\<bar> - \<bar>w\<bar>))"
  unfolding abs_diff_u16_def
proof (rule implements_bind [OF implements_try_sub_biguint_u16 [OF bigz16D(1) bigz16D(1), OF assms]], unfold split_paired_all prod.case,
    rule implements_bind [OF implements_try_sub_biguint_u16 [OF bigz16D(1) bigz16D(1), OF assms(2,1)]], unfold split_paired_all prod.case,
    rule implements_return, elim conjE)
  note va = bigz16D(2,3) [OF assms(1)] and vb = bigz16D(2,3) [OF assms(2)]
  fix d1 lt d2 gt
  let ?x = "nat \<bar>v\<bar>" and ?y = "nat \<bar>w\<bar>"
  assume "bval lt (bnat16 (bi_abs a) < bnat16 (bi_abs b))" "bval gt (bnat16 (bi_abs b) < bnat16 (bi_abs a))"
    and "big16 d1 (max (length (bi_abs a)) (length (bi_abs b))) (bnat16 (bi_abs a) + 2 ^ (16 * max (length (bi_abs a)) (length (bi_abs b)))
      * of_bool (bnat16 (bi_abs a) < bnat16 (bi_abs b)) - bnat16 (bi_abs b))"
    and "big16 d2 (max (length (bi_abs b)) (length (bi_abs a))) (bnat16 (bi_abs b) + 2 ^ (16 * max (length (bi_abs b)) (length (bi_abs a)))
      * of_bool (bnat16 (bi_abs b) < bnat16 (bi_abs a)) - bnat16 (bi_abs a))"
  then have lt: "bval lt (?x < ?y)" and gt: "bval gt (?y < ?x)"
    and d1: "big16 d1 (max n m) (?x + 2 ^ (16 * max n m) * of_bool (?x < ?y) - ?y)"
    and d2: "big16 d2 (max n m) (?y + 2 ^ (16 * max n m) * of_bool (?y < ?x) - ?x)"
    by (simp_all only: va vb max.commute)
  have ok: "limbs16_ok d1" "limbs16_ok d2" using d1 d2 by (simp_all add: big16_def)
  have len: "length d1 = max n m" "length d2 = max n m" using d1 d2 by (simp_all only: big16_def)
  have val: "bnat16 d1 = ?x + 2 ^ (16 * max n m) * of_bool (?x < ?y) - ?y" "bnat16 d2 = ?y + 2 ^ (16 * max n m) * of_bool (?y < ?x) - ?x"
    using d1 d2 by (simp_all only: big16_def)
  have "(if ?y < ?x then bnat16 d1 else bnat16 d2) = nat \<bar>\<bar>v\<bar> - \<bar>w\<bar>\<bar>"
  proof (cases "?y < ?x")
    case True
    then show ?thesis unfolding val by simp
  next
    case False
    then have "\<bar>v\<bar> \<le> \<bar>w\<bar>" by (simp only: nat_abs_simps not_less)
    then have "nat \<bar>w\<bar> - nat \<bar>v\<bar> = nat \<bar>\<bar>v\<bar> - \<bar>w\<bar>\<bar>" by (simp add: nat_diff_distrib)
    with False show ?thesis unfolding val by (simp only: if_not_P of_bool_eq mult_0_right add_0_right if_False)
  qed
  then have "big16 (select_biguint_u16 gt d1 d2) (max n m) (nat \<bar>\<bar>v\<bar> - \<bar>w\<bar>\<bar>)"
    using select_biguint_u16_big [OF gt ok] unfolding len by (simp only: max.idem)
  moreover have "sval (b_sub gt lt) (\<bar>v\<bar> - \<bar>w\<bar>)"
    by (rule sval_cong [OF sval_cmp [OF gt lt]]) (auto simp: sgn_if nat_less_iff)
  ultimately show "bigz16 \<lparr>bi_abs = select_biguint_u16 gt d1 d2, bi_sign = b_sub gt lt\<rparr> (max n m) (\<bar>v\<bar> - \<bar>w\<bar>)"
    by (simp add: bigz16_def)
qed


lemma realises_trim_bigint_u16:
  assumes "bigz16 a n v"
  shows "realises (circ_bind (trim_biguint_u16 (bi_abs a) k) (\<lambda>abs. circ_return \<lparr>bi_abs = abs, bi_sign = bi_sign a\<rparr>))
    (k \<le> n \<and> \<bar>v\<bar> < 2 ^ (16 * k)) (\<lambda>r. bigz16 r k v)"
  unfolding nat_abs_simps(5) [symmetric] bigz16D(3) [OF assms, symmetric] bigz16D(2) [OF assms, symmetric]
  by (rule realises_then_return [OF realises_trim_biguint_u16 [OF bigz16D(1) [OF assms]]])
    (use bigz16D [OF assms] in \<open>simp add: bigz16_def\<close>)

lemma realises_sub_bigint_u16_non_carry:
  assumes a: "bigz16 a n v" and b: "bigz16 b m w"
  shows "realises (sub_bigint_u16_non_carry a b k) (k \<le> Suc (max n m) \<and> \<bar>v - w\<bar> < 2 ^ (16 * k)) (\<lambda>r. bigz16 r k (v - w))"
  unfolding sub_bigint_u16_non_carry_def
proof (rule realises_after [OF implements_abs_diff_u16 [OF a b]], unfold abs_sum_u16_def,
    rule realises_after [OF implements_add_biguint_u16 [OF bigz16D(1) bigz16D(1), OF a b]], rule realises_after [OF implements_is_equal])
  fix d s c
  assume d: "bigz16 d (max n m) (\<bar>v\<bar> - \<bar>w\<bar>)"
    and s: "big16 s (Suc (max (length (bi_abs a)) (length (bi_abs b)))) (bnat16 (bi_abs a) + bnat16 (bi_abs b))"
    and c: "bval c (tval (bi_sign a) = tval (bi_sign b))"
  have c: "bval c (sgn v = sgn w)" using c by (simp only: sval_sgn_iff [OF bigz16D(4) bigz16D(4), OF a b])
  let ?osign = "arithmetic (- 1) 1 (arithmetic (- 1) 1 (bi_sign a) (bi_sign a) (Const 1)) (bi_sign b) (bi_sign a)"
  let ?same = "\<lparr>bi_abs = bi_abs d, bi_sign = b_mul (bi_sign a) (bi_sign d)\<rparr>" and ?opp = "\<lparr>bi_abs = s, bi_sign = ?osign\<rparr>"
  let ?r = "select_bigint_u16 c ?same ?opp"
  have r: "bigz16 ?r (Suc (max n m)) (v - w)"
  proof (cases "sgn v = sgn w")
    case True
    have "sgn (v * (\<bar>v\<bar> - \<bar>w\<bar>)) = sgn (v - w)" using sub_same_sign [OF True] True by (auto simp: sgn_mult)
    then have "sval (b_mul (bi_sign a) (bi_sign d)) (v - w)" using sval_cong [OF sval_mult [OF bigz16D(4) [OF a] bigz16D(4) [OF d]]] by blast
    moreover have "nat \<bar>\<bar>v\<bar> - \<bar>w\<bar>\<bar> = nat \<bar>v - w\<bar>" using sub_same_sign [OF True] by simp
    ultimately have same: "bigz16 ?same (max n m) (v - w)" using d by (simp add: bigz16_def)
    have "bval c True" using c True by simp
    from select_biguint_u16_big [OF this, of "bi_abs d" s] same s bigz16D(2) [OF a] bigz16D(2) [OF b] tval_select [OF this]
    show ?thesis by (simp add: bigz16_def big16_def select_bigint_u16_def sval_def)
  next
    case False
    have "- 1 * (- 1 * x * x + 1 * 1) * y + 1 * x = x - (1 - x * x) * y" for x y :: gf by (simp add: algebra_simps)
    then have "tval ?osign = of_int (sgn v - (1 - sgn v * sgn v) * sgn w)"
      using bigz16D(4) [OF a] bigz16D(4) [OF b] by (simp only: tval_simps tval.simps sval_def of_int_diff of_int_mult of_int_1)
    then have "sval ?osign (v - w)" by (simp only: sgn_sub_opposite [OF False] sval_def)
    moreover have "bnat16 (bi_abs a) + bnat16 (bi_abs b) = nat \<bar>v - w\<bar>"
      unfolding bigz16D(3) [OF a] bigz16D(3) [OF b] sub_opposite_sign [OF False, symmetric] by (simp add: nat_add_distrib)
    ultimately have opp: "bigz16 ?opp (Suc (max n m)) (v - w)" using s bigz16D(2) [OF a] bigz16D(2) [OF b] by (simp add: bigz16_def)
    have "bval c False" using c False by simp
    from select_biguint_u16_big [OF this, of "bi_abs d" s] opp d tval_select [OF this]
    show ?thesis by (simp add: bigz16_def big16_def select_bigint_u16_def sval_def)
  qed
  show "realises (let a_sign = bi_sign a; b_sign = bi_sign b;
        result_if_same_sign = \<lparr>bi_abs = bi_abs d, bi_sign = b_mul a_sign (bi_sign d)\<rparr>;
        one_minus_a_sign_sqr = arithmetic (- 1) 1 a_sign a_sign (Const 1);
        sign = arithmetic (- 1) 1 one_minus_a_sign_sqr b_sign a_sign;
        result_if_opposite_sign = \<lparr>bi_abs = s, bi_sign = sign\<rparr>;
        result = select_bigint_u16 c result_if_same_sign result_if_opposite_sign in
    circ_bind (trim_biguint_u16 (bi_abs result) k) (\<lambda>abs. circ_return \<lparr>bi_abs = abs, bi_sign = bi_sign result\<rparr>))
    (k \<le> Suc (max n m) \<and> \<bar>v - w\<bar> < 2 ^ (16 * k)) (\<lambda>r. bigz16 r k (v - w))"
    using realises_trim_bigint_u16 [OF r] by (simp only: Let_def)
qed

lemma realises_add_bigint_u16_non_carry:
  assumes "bigz16 a n v" "bigz16 b m w"
  shows "realises (add_bigint_u16_non_carry a b k) (k \<le> Suc (max n m) \<and> \<bar>v + w\<bar> < 2 ^ (16 * k)) (\<lambda>r. bigz16 r k (v + w))"
proof -
  have "bigz16 \<lparr>bi_abs = bi_abs b, bi_sign = b_mul (Const (- 1)) (bi_sign b)\<rparr> m (- w)"
    using assms(2) by (simp add: bigz16_def sval_simps)
  from realises_sub_bigint_u16_non_carry [OF assms(1) this] show ?thesis by (simp add: add_bigint_u16_non_carry_def)
qed

section \<open>Comparisons and conversions\<close>

lemma bigz16_eq_iff:
  assumes "bigz16 a n v" "bigz16 b m w"
  shows "bnat16 (bi_abs a) = bnat16 (bi_abs b) \<and> tval (bi_sign a) = tval (bi_sign b) \<longleftrightarrow> v = w"
  using sval_sgn_iff [OF bigz16D(4) bigz16D(4), OF assms] bigz16D(3) [OF assms(1)] bigz16D(3) [OF assms(2)]
  by (auto simp: sgn_if abs_if split: if_splits)

lemma realises_connect_bigint_u16:
  assumes "bigz16 a n v" "bigz16 b m w"
  shows "realises (connect_bigint_u16 a b) (v = w) (\<lambda>_. True)"
proof -
  have "realises (connect_bigint_u16 a b) (bnat16 (bi_abs a) = bnat16 (bi_abs b) \<and> tval (bi_sign a) = tval (bi_sign b)) (\<lambda>_. True)"
    unfolding connect_bigint_u16_def
    by (rule realises_bind [OF realises_connect_biguint_u16]) (use bigz16D assms realises_connect in blast)+
  then show ?thesis unfolding bigz16_eq_iff [OF assms] .
qed

lemma implements_is_equal_bigint_u16:
  assumes "bigz16 a n v" "bigz16 b m w" "n + m < 2 ^ 31"
  shows "implements (is_equal_bigint_u16 a b) (\<lambda>r. bval r (v = w))"
  unfolding is_equal_bigint_u16_def
proof (rule implements_bind [OF implements_is_equal_biguint_u16 [OF bigz16D(1) [OF assms(1)] bigz16D(1) [OF assms(2)]]])
  show "length (bi_abs a) + length (bi_abs b) < 2 ^ 31" using assms(3) bigz16D(2) [OF assms(1)] bigz16D(2) [OF assms(2)] by simp
next
  fix x assume x: "bval x (bnat16 (bi_abs a) = bnat16 (bi_abs b))"
  show "implements (circ_bind (is_equal (bi_sign a) (bi_sign b)) (\<lambda>y. circ_return (b_and x y))) (\<lambda>r. bval r (v = w))"
  proof (rule implements_bind [OF implements_is_equal], rule implements_return)
    fix y assume "bval y (tval (bi_sign a) = tval (bi_sign b))"
    note bval_and [OF x this]
    then show "bval (b_and x y) (v = w)" by (simp only: bigz16_eq_iff [OF assms(1,2)])
  qed
qed

lemma implements_is_not_equal_bigint_u16:
  "bigz16 a n v \<Longrightarrow> bigz16 b m w \<Longrightarrow> n + m < 2 ^ 31 \<Longrightarrow> implements (is_not_equal_bigint_u16 a b) (\<lambda>r. bval r (v \<noteq> w))"
  unfolding is_not_equal_bigint_u16_def
  by (rule implements_bind [OF implements_is_equal_bigint_u16]) (auto intro!: implements_return bval_not)

lemma implements_is_zero_bigint_u16:
  assumes "bigz16 a n v"
  shows "implements (is_zero_bigint_u16 a) (\<lambda>r. bval r (v = 0))"
  unfolding is_zero_bigint_u16_def
  by (rule implements_bind [OF implements_is_sign(4) [OF bigz16D(4) [OF assms]]], rule implements_bind [OF implements_is_zero_biguint_u16],
      rule implements_return, drule (1) bval_and) (simp add: bigz16D(3) [OF assms])

lemma zero_biguint_u16 [simp]: "zero_biguint_u16 = []"
  by (simp add: zero_biguint_u16_def constant_biguint_u16_def to_u32_digits.simps)

lemma bigz16_zero [simp]: "bigz16 zero_bigint_u16 0 0"
  by (simp add: bigz16_def zero_bigint_u16_def big16_def sval_Const)

text \<open>Positions are converted to 32-bit limbs before they are multiplied.\<close>

lemma bigz_bigint_u16_to_bigint:
  assumes "bigz16 a n v"
  shows "bigz (bigint_u16_to_bigint a) ((n + 1) div 2) v"
  using biguint_u16_to_biguint_big [OF bigz16D(1) [OF assms]] bigz16D(2-4) [OF assms]
  by (simp add: bigz_def bigint_u16_to_bigint_def)

lemma realises_signed_target_to_bigint_u16:
  assumes "0 < n" "n \<le> 4"
  shows "realises (signed_target_to_bigint_u16 t n) (\<bar>get_signed_target t\<bar> < 2 ^ (16 * n)) (\<lambda>r. bigz16 r n (get_signed_target t))"
  unfolding signed_target_to_bigint_u16_def target_to_biguint_u16_def
proof (rule realises_after [OF implements_signed_abs], unfold split_paired_all prod.case, elim conjE)
  fix m s assume m: "int (uval m) = \<bar>get_signed_target t\<bar>" and s: "sval s (get_signed_target t)"
  have m': "uval m = nat \<bar>get_signed_target t\<bar>" using m by linarith
  show "realises (circ_bind (split_u64_to_u16s_le m n) (\<lambda>abs. circ_return \<lparr>bi_abs = abs, bi_sign = s\<rparr>))
      (\<bar>get_signed_target t\<bar> < 2 ^ (16 * n)) (\<lambda>r. bigz16 r n (get_signed_target t))"
    unfolding nat_abs_simps(5) [symmetric] m' [symmetric]
    by (rule realises_then_return [OF realises_split_u64_to_u16s_le [OF assms]]) (use s in \<open>simp add: bigz16_def m'\<close>)
qed

text \<open>
  The difference of two states is published limb by limb and may be no integer of the representation, but
  adding it to the state it was taken from gives the other state back.
\<close>

lemma bigint_u16_vector_roundtrip:
  assumes "bval cond c" "length (bi_abs a) = length (bi_abs b)"
  shows "implements (circ_bind (bigint_u16_vector_diff a b) (\<lambda>d. bigint_u16_vector_sum cond d b))
    (\<lambda>r. map tval (bi_abs r) = map tval (bi_abs (if c then a else b)) \<and> tval (bi_sign r) = tval (bi_sign (if c then a else b)))"
proof -
  have "map tval (map2 (\<lambda>x y. b_mul_add cond x y) (map2 (\<lambda>x y. b_sub x y) xs ys) ys) = map tval (if c then xs else ys)"
    if "length xs = length ys" for xs ys
    using that assms(1) by (induction xs ys rule: list_induct2) (simp_all add: tval_simps bval_def)
  then show ?thesis
    using assms unfolding bigint_u16_vector_diff_def bigint_u16_vector_sum_def
    by (auto intro!: implements_bind [OF implements_panic] implements_return simp: circ_bind_assoc circ_return_bind tval_simps bval_def)
qed

lemma get_bigint_u16_target_bigz16: "bigz16 a n v \<Longrightarrow> get_bigint_u16_target a = Some v"
  using sval_eq_iff [OF bigz16D(4), of a n v] bigz16D(3) [of a n v] by (auto simp: get_bigint_u16_target_def Let_def)

lemma sound_add_virtual_u16_targets_safe: "sound (add_virtual_u16_targets_safe n) (\<lambda>ls. limbs16_ok ls \<and> length ls = n)"
  unfolding add_virtual_u16_targets_safe_def
proof (rule sound_bind [OF sound_add_virtual_targets])
  fix ts :: "target list" assume len: "length ts = n"
  have "realises (circ_for ts (\<lambda>t. register_range_check t 16)) (\<forall>t\<in>set ts. uval t < 2 ^ 16) (\<lambda>_. True)"
    by (rule realises_for) (rule realises_register_range_check, simp)
  from realises_sound [OF realises_then_return [OF this, where R = "\<lambda>r. r = ts" and g = "\<lambda>_. ts", OF refl]]
  show "sound (circ_bind (circ_for ts (\<lambda>t. register_range_check t 16)) (\<lambda>_. circ_return ts)) (\<lambda>ls. limbs16_ok ls \<and> length ls = n)"
    by (rule sound_weaken) (use len in \<open>auto simp: limbs16_ok_def list_all_iff is_u16_def\<close>)
qed

lemma sound_add_virtual_bigint_u16_target_safe:
  "sound (add_virtual_bigint_u16_target_safe n) (\<lambda>r. \<exists>v. bigz16 r n v)"
proof -
  have rest: "realises (circ_bind (is_zero_biguint_u16 a) (\<lambda>x. circ_bind (is_zero s) (\<lambda>y. circ_bind (connect x y)
      (\<lambda>_. circ_return \<lparr>bi_abs = a, bi_sign = s\<rparr>)))) (bnat16 a = 0 \<longleftrightarrow> uval s = 0) (\<lambda>r. r = \<lparr>bi_abs = a, bi_sign = s\<rparr>)" for a s
  proof (rule realises_after [OF implements_is_zero_biguint_u16], rule realises_after [OF implements_is_zero], rule realises_then_return)
    fix x y assume "bval x (bnat16 a = 0)" "bval y (uval s = 0)"
    then have "tval x = tval y \<longleftrightarrow> (bnat16 a = 0 \<longleftrightarrow> uval s = 0)" by (auto simp: bval_def)
    then show "realises (connect x y) (bnat16 a = 0 \<longleftrightarrow> uval s = 0) (\<lambda>_. True)" using realises_connect [of x y] by simp
  qed simp
  show ?thesis
    unfolding add_virtual_bigint_u16_target_safe_def
  proof (rule sound_bind [OF sound_add_virtual_u16_targets_safe], rule sound_bind [OF add_virtual_sign_target_safe_contract(1)],
      rule sound_weaken [OF realises_sound [OF rest]], elim conjE exE)
    fix a s r v assume a: "limbs16_ok a" "length a = n" and v: "sval s v" and zero: "bnat16 a = 0 \<longleftrightarrow> uval s = 0"
      and r: "r = \<lparr>bi_abs = a, bi_sign = s\<rparr>"
    have z: "bnat16 a = 0 \<longleftrightarrow> v = 0" using zero sval_eq_iff(3) [OF v] by simp
    then have "sgn (sgn v * int (bnat16 a)) = sgn v" by (auto simp: sgn_mult)
    moreover have "\<bar>sgn v * int (bnat16 a)\<bar> = int (bnat16 a)" using z by (auto simp: abs_mult sgn_if)
    ultimately have "bigz16 r n (sgn v * int (bnat16 a))"
      using a v by (simp add: r bigz16_def big16_def sval_def)
    then show "\<exists>v. bigz16 r n v" by blast
  qed
qed

section \<open>Properties\<close>

text \<open>
  Signed 16-bit-limb arithmetic, the arithmetic of positions: difference and sum are satisfiable
  exactly when the requested number of limbs is available and holds the result, and then denote the
  difference and the sum of the integers with a consistent sign.
\<close>

theorem bigint_u16_add_sub_correct:
  assumes "bigz16 a n v" "bigz16 b m w"
  shows "realises (sub_bigint_u16_non_carry a b k) (k \<le> Suc (max n m) \<and> \<bar>v - w\<bar> < 2 ^ (16 * k)) (\<lambda>r. bigz16 r k (v - w))
    \<and> realises (add_bigint_u16_non_carry a b k) (k \<le> Suc (max n m) \<and> \<bar>v + w\<bar> < 2 ^ (16 * k)) (\<lambda>r. bigz16 r k (v + w))"
  using realises_sub_bigint_u16_non_carry [OF assms] realises_add_bigint_u16_non_carry [OF assms] by blast

theorem bigint_u16_add_sub_correct_witness:
  "implements (add_bigint_u16_non_carry \<lparr>bi_abs = [Wire 5, Wire 1], bi_sign = Wire 1\<rparr> \<lparr>bi_abs = [Wire 6, Wire 1], bi_sign = Wire (- 1)\<rparr> 2)
    (\<lambda>r. bigz16 r 2 (- 1))"
proof -
  have "bigz16 \<lparr>bi_abs = [Wire 5, Wire 1], bi_sign = Wire 1\<rparr> 2 65541" "bigz16 \<lparr>bi_abs = [Wire 6, Wire 1], bi_sign = Wire (- 1)\<rparr> 2 (- 65542)"
    by (simp_all add: bigz16_def big16_def bnat16_def is_u16_def sval_def)
  from bigint_u16_add_sub_correct [OF this, of 2] show ?thesis
    by (intro realises_implements [of _ "2 \<le> Suc (max 2 2) \<and> \<bar>65541 + - 65542 :: int\<bar> < 2 ^ (16 * 2)"]) simp_all
qed

text \<open>
  State differences: subtracting two states limb by limb and adding the difference to the second one,
  enabled, gives the first one back, and disabled leaves the second one, for arbitrary limbs and signs.
\<close>

theorem bigint_u16_delta_roundtrip:
  assumes "bval cond c" "length (bi_abs a) = length (bi_abs b)"
  shows "implements (circ_bind (bigint_u16_vector_diff a b) (\<lambda>d. bigint_u16_vector_sum cond d b))
    (\<lambda>r. map tval (bi_abs r) = map tval (bi_abs (if c then a else b)) \<and> tval (bi_sign r) = tval (bi_sign (if c then a else b)))"
  by (rule bigint_u16_vector_roundtrip [OF assms])

theorem bigint_u16_delta_roundtrip_witness:
  "implements (circ_bind (bigint_u16_vector_diff \<lparr>bi_abs = [Wire 5], bi_sign = Wire 1\<rparr> \<lparr>bi_abs = [Wire 7], bi_sign = Wire (- 1)\<rparr>)
      (\<lambda>d. bigint_u16_vector_sum (Const 1) d \<lparr>bi_abs = [Wire 7], bi_sign = Wire (- 1)\<rparr>))
    (\<lambda>r. map tval (bi_abs r) = [5] \<and> tval (bi_sign r) = 1)"
  using bigint_u16_delta_roundtrip [of "Const 1" True "\<lparr>bi_abs = [Wire 5], bi_sign = Wire 1\<rparr>" "\<lparr>bi_abs = [Wire 7], bi_sign = Wire (- 1)\<rparr>"]
  by (simp add: bval_Const)

end
