(* ===== verification/Unsafe_Big.thy ===== *)
theory Unsafe_Big
  imports Bigint_U16
begin

text \<open>
  Unreduced multi-limb integers (\<open>bigint/unsafe_big/mod.rs\<close>): limbs are field elements read as integers
  of any size or sign, so that sums and products over all positions need no carries, and one pass at the
  end brings them to limbs of 16 or 32 bits. \<open>ubig a vs\<close> says that the limbs of \<open>a\<close> are the integers \<open>vs\<close>.
\<close>

type_synonym unsafe_big = "target list"

section \<open>Operations\<close>

definition unsafe_big_from_biguint :: "biguint \<Rightarrow> unsafe_big" where
  "unsafe_big_from_biguint a = a"

definition mul_unsafe_big_by_bool :: "unsafe_big \<Rightarrow> target \<Rightarrow> unsafe_big" where
  "mul_unsafe_big_by_bool a b = map (\<lambda>l. b_mul l b) a"

definition target_to_unsafe_big_u32 :: "target \<Rightarrow> unsafe_big circ" where
  "target_to_unsafe_big_u32 x = circ_bind (split_u64_to_u32s_le x) (\<lambda>(low, high). circ_return [low, high])"

definition add_unsafe_big :: "unsafe_big \<Rightarrow> unsafe_big \<Rightarrow> unsafe_big circ" where
  "add_unsafe_big a b =
    circ_bind (circ_panic_unless (length a = length b)) (\<lambda>_. circ_return (map2 (\<lambda>x y. b_add x y) a b))"

definition mul_add_unsafe_big :: "unsafe_big \<Rightarrow> target \<Rightarrow> unsafe_big \<Rightarrow> unsafe_big circ" where
  "mul_add_unsafe_big a c b =
    circ_bind (circ_panic_unless (length a = length b)) (\<lambda>_. circ_return (map2 (\<lambda>x y. b_mul_add x c y) a b))"

text \<open>The double loop, over the pairs of indices in order; no limbs at all underflow in the assertion.\<close>

definition index_pairs :: "nat \<Rightarrow> nat \<Rightarrow> (nat \<times> nat) list" where
  "index_pairs n m = concat (map (\<lambda>i. map (\<lambda>j. (i, j)) [0..<m]) [0..<n])"

definition mul_unsafe_big :: "unsafe_big \<Rightarrow> unsafe_big \<Rightarrow> nat \<Rightarrow> unsafe_big circ" where
  "mul_unsafe_big a b num_limbs =
    circ_bind (circ_panic_unless (length a + length b \<noteq> 0 \<and> length a + length b - 1 \<le> num_limbs)) (\<lambda>_.
    circ_return (foldl (\<lambda>result (i, j). result[i + j := b_mul_add (a ! i) (b ! j) (result ! (i + j))])
      (replicate num_limbs (Const 0)) (index_pairs (length a) (length b))))"

definition sub_bigint_u16_unsafe :: "bigint_u16 \<Rightarrow> bigint_u16 \<Rightarrow> unsafe_big circ" where
  "sub_bigint_u16_unsafe a b =
    circ_bind (circ_panic_unless (length (bi_abs a) = length (bi_abs b))) (\<lambda>_.
    let unsafe_a = map (\<lambda>l. b_mul l (bi_sign a)) (bi_abs a) in
    circ_return (map2 (\<lambda>a_limb b_limb. arithmetic (- 1) 1 b_limb (bi_sign b) a_limb) unsafe_a (bi_abs b)))"

definition mul_bigint_u16_and_target_unsafe :: "bigint_u16 \<Rightarrow> target \<Rightarrow> unsafe_big" where
  "mul_bigint_u16_and_target_unsafe a b =
    (let multiplier = b_mul b (bi_sign a) in map (\<lambda>l. b_mul l multiplier) (bi_abs a))"

text \<open>The limb of an iteration, if there is one, is added to the carry.\<close>

definition limb_with_carry :: "target option \<Rightarrow> target \<Rightarrow> target" where
  "limb_with_carry limb carry = (case limb of None \<Rightarrow> carry | Some l \<Rightarrow> b_add carry l)"

definition limb_at :: "unsafe_big \<Rightarrow> nat \<Rightarrow> target option" where
  "limb_at a i = (if i < length a then Some (a ! i) else None)"

definition normalize32_step :: "target option \<Rightarrow> target \<Rightarrow> (target \<times> target) circ" where
  "normalize32_step limb carry = split_u64_to_u32s_le (limb_with_carry limb carry)"

definition unsafe_big32_to_biguint :: "unsafe_big \<Rightarrow> nat \<Rightarrow> biguint circ" where
  "unsafe_big32_to_biguint a big_uint_limb_size =
    circ_bind (circ_panic_unless (big_uint_limb_size \<ge> length a)) (\<lambda>_.
    circ_bind (carry_loop normalize32_step (map (limb_at a) [0..<big_uint_limb_size]) (Const 0)) (\<lambda>(normalized_limbs, carry).
    circ_bind (assert_zero carry) (\<lambda>_. circ_return normalized_limbs)))"

definition normalize16_step :: "target option \<Rightarrow> target \<Rightarrow> (target \<times> target) circ" where
  "normalize16_step limb carry =
    circ_bind (signed_abs (limb_with_carry limb carry)) (\<lambda>(abs_limb, sign_limb).
    circ_bind (split_u64_to_u16s_le abs_limb 4) (\<lambda>split_limb_with_carry.
    circ_bind (is_sign_negative sign_limb) (\<lambda>is_limb_negative.
    let low = b_mul_add (Const (2 ^ 16)) is_limb_negative (split_limb_with_carry ! 0);
        low = arithmetic (- 2) 1 is_limb_negative (split_limb_with_carry ! 0) low;
        high = b_mul_add (split_limb_with_carry ! 3) (Const (2 ^ 16)) (split_limb_with_carry ! 2);
        high = b_mul_add high (Const (2 ^ 16)) (split_limb_with_carry ! 1);
        high = b_add high is_limb_negative;
        carry = arithmetic (- 2) 1 is_limb_negative high high in
    circ_return (low, carry))))"

text \<open>The second pass: the complement if the number is negative, and the carries of limbs of \<open>2 ^ 16\<close>.\<close>

definition complement16_step :: "target \<Rightarrow> target \<Rightarrow> target \<Rightarrow> target \<Rightarrow> (target \<times> target) circ" where
  "complement16_step mul_with_limbs add_to_limbs limb carry =
    (let limb = b_mul_add limb mul_with_limbs add_to_limbs;
         limb = b_add limb carry in
     circ_bind (is_equal limb (Const (2 ^ 16))) (\<lambda>is_limb_full.
     circ_return (select is_limb_full (Const 0) limb, is_limb_full)))"

definition unsafe_big16_to_bigint :: "unsafe_big \<Rightarrow> nat \<Rightarrow> bigint circ" where
  "unsafe_big16_to_bigint a big_int_limb_size =
    circ_bind (circ_panic_unless (big_int_limb_size * 2 \<ge> length a)) (\<lambda>_.
    circ_bind (carry_loop normalize16_step (map (limb_at a) [0..<big_int_limb_size * 2]) (Const 0)) (\<lambda>(normalized_limbs, carry).
    let is_carry_invalid = arithmetic 1 1 carry carry carry in
    circ_bind (assert_zero is_carry_invalid) (\<lambda>_.
    circ_bind (is_equal carry (Const (- 1))) (\<lambda>is_negative.
    let add_to_limbs = b_mul is_negative (Const (2 ^ 16 - 1));
        mul_with_limbs = select is_negative (Const (- 1)) (Const 1) in
    circ_bind (carry_loop (complement16_step mul_with_limbs add_to_limbs) normalized_limbs is_negative) (\<lambda>(limbs, _).
    let abs = pair_limbs limbs in
    circ_bind (is_zero_biguint abs) (\<lambda>is_zero.
    let sign = select is_zero (Const 0) (Const 1);
        sign = select is_negative (Const (- 1)) sign in
    circ_return \<lparr>bi_abs = abs, bi_sign = sign\<rparr>))))))"

section \<open>Sums and products without carries\<close>

definition ubig :: "unsafe_big \<Rightarrow> int list \<Rightarrow> bool" where
  "ubig a vs \<longleftrightarrow> map tval a = map of_int vs"

lemma ubig_Nil [simp]: "ubig [] vs \<longleftrightarrow> vs = []" "ubig a [] \<longleftrightarrow> a = []"
  and ubig_Cons [simp]: "ubig (t # a) (v # vs) \<longleftrightarrow> tval t = of_int v \<and> ubig a vs"
  by (auto simp: ubig_def)

lemma ubig_length: "ubig a vs \<Longrightarrow> length a = length vs"
  unfolding ubig_def by (metis length_map)

lemma ubig_nth: "ubig a vs \<Longrightarrow> i < length vs \<Longrightarrow> tval (a ! i) = of_int (vs ! i)"
  using ubig_length [of a vs] unfolding ubig_def by (metis nth_map)

lemma ubig_replicate_zero: "ubig (replicate n (Const 0)) (replicate n 0)"
  by (simp add: ubig_def)

lemma ubig_from_biguint: "ubig (unsafe_big_from_biguint a) (map (\<lambda>t. int (uval t)) a)"
  by (simp add: ubig_def unsafe_big_from_biguint_def comp_def)

lemma implements_add_unsafe_big:
  assumes "ubig a vs" "ubig b ws" "length vs = length ws"
  shows "implements (add_unsafe_big a b) (\<lambda>r. ubig r (map2 (+) vs ws))"
proof -
  have "length a = length b" using assms ubig_length by metis
  moreover have "ubig (map2 (\<lambda>x y. b_add x y) a b) (map2 (+) vs ws)"
    by (simp add: ubig_def, rule nth_equalityI)
      (use assms ubig_length [OF assms(1)] ubig_length [OF assms(2)] in \<open>simp_all add: ubig_nth tval_simps\<close>)
  ultimately show ?thesis
    unfolding add_unsafe_big_def by (intro implements_bind [OF implements_panic] implements_return)
qed

lemma implements_mul_add_unsafe_big:
  assumes "ubig a vs" "ubig b ws" "length vs = length ws" "tval c = of_int k"
  shows "implements (mul_add_unsafe_big a c b) (\<lambda>r. ubig r (map2 (\<lambda>x y. x * k + y) vs ws))"
proof -
  have "length a = length b" using assms ubig_length by metis
  moreover have "ubig (map2 (\<lambda>x y. b_mul_add x c y) a b) (map2 (\<lambda>x y. x * k + y) vs ws)"
    by (simp add: ubig_def, rule nth_equalityI)
      (use assms ubig_length [OF assms(1)] ubig_length [OF assms(2)] in \<open>simp_all add: ubig_nth tval_simps\<close>)
  ultimately show ?thesis
    unfolding mul_add_unsafe_big_def by (intro implements_bind [OF implements_panic] implements_return)
qed

lemma le_value_map2:
  "length vs = length ws \<Longrightarrow> le_value B (map2 (\<lambda>x y. x * k + y) vs ws) = le_value B vs * k + le_value B (ws :: int list)"
  "length vs = length ws \<Longrightarrow> le_value B (map2 (+) vs ws) = le_value B vs + le_value B ws"
  by (induction vs ws rule: list_induct2) (simp_all add: algebra_simps)

text \<open>Products: every pair of limbs adds to the limb of its weight.\<close>

definition convolution :: "int list \<Rightarrow> int list \<Rightarrow> nat \<Rightarrow> int list" where
  "convolution vs ws n = foldl (\<lambda>r (i, j). r[i + j := vs ! i * ws ! j + r ! (i + j)]) (replicate n 0) (index_pairs (length vs) (length ws))"

lemma index_pairs_set: "(i, j) \<in> set (index_pairs n m) \<longleftrightarrow> i < n \<and> j < m"
  by (auto simp: index_pairs_def image_iff)

lemma sum_list_map_concat: "(\<Sum>x\<leftarrow>concat xss. f x) = (\<Sum>xs\<leftarrow>xss. \<Sum>x\<leftarrow>xs. f x)"
  by (induction xss) simp_all

lemma le_value_add_at: "i < length r \<Longrightarrow> le_value B (r[i := x + r ! i]) = le_value B r + x * B ^ i"
  for B :: "'a::comm_ring_1"
  by (induction r arbitrary: i) (auto simp: algebra_simps split: nat.split)

lemma le_value_weights: "le_value B vs = (\<Sum>i\<leftarrow>[0..<length vs]. vs ! i * B ^ i)" for B :: "'a::comm_ring_1"
proof (induction vs)
  case (Cons v vs)
  have "(\<Sum>i\<leftarrow>[0..<length (v # vs)]. (v # vs) ! i * B ^ i) = v + (\<Sum>i\<leftarrow>[0..<length vs]. (vs ! i * B ^ i) * B)"
    by (simp only: length_Cons upt_conv_Cons [OF zero_less_Suc] list.map sum_list.Cons)
      (simp add: map_Suc_upt [symmetric] comp_def mult_ac del: upt_Suc)
  then show ?case using Cons by (simp add: sum_list_const_mult [symmetric] mult_ac del: upt_Suc)
qed simp

lemma convolution_props:
  assumes "length vs + length ws - 1 \<le> n"
  shows "length (convolution vs ws n) = n" "le_value B (convolution vs ws n) = le_value B vs * le_value B ws"
proof -
  let ?step = "\<lambda>r (i, j). r[i + j := vs ! i * ws ! j + r ! (i + j)]"
  have len: "length (foldl ?step r ps) = length r" for r ps by (induction ps arbitrary: r) auto
  show "length (convolution vs ws n) = n" by (simp add: convolution_def len)
  have val: "le_value B (foldl ?step r ps) = le_value B r + (\<Sum>(i, j)\<leftarrow>ps. vs ! i * ws ! j * B ^ (i + j))"
    if "\<forall>(i, j)\<in>set ps. i + j < length r" for r ps
    using that
  proof (induction ps arbitrary: r)
    case (Cons q ps)
    then show ?case by (cases q) (simp add: le_value_add_at)
  qed simp
  have fit: "\<forall>(i, j)\<in>set (index_pairs (length vs) (length ws)). i + j < length (replicate n (0::int))"
    using assms by (auto simp: index_pairs_set)
  have zero: "le_value B (replicate n 0) = 0" by simp
  have "(\<Sum>(i, j)\<leftarrow>index_pairs (length vs) (length ws). vs ! i * ws ! j * B ^ (i + j))
      = (\<Sum>i\<leftarrow>[0..<length vs]. \<Sum>j\<leftarrow>[0..<length ws]. (vs ! i * B ^ i) * (ws ! j * B ^ j))"
    by (simp add: index_pairs_def sum_list_map_concat comp_def power_add mult_ac)
  also have "\<dots> = le_value B vs * le_value B ws"
    by (simp only: sum_list_const_mult sum_list_mult_const le_value_weights [symmetric])
  finally show "le_value B (convolution vs ws n) = le_value B vs * le_value B ws"
    unfolding convolution_def val [OF fit] zero by simp
qed

lemma convolution_bound:
  assumes "\<forall>v\<in>set vs. \<bar>v\<bar> \<le> M" "\<forall>w\<in>set ws. \<bar>w\<bar> \<le> N" "0 \<le> M" "0 \<le> N" "x \<in> set (convolution vs ws n)"
  shows "\<bar>x\<bar> \<le> int (length vs * length ws) * (M * N)"
proof -
  let ?step = "\<lambda>r (i, j). r[i + j := vs ! i * ws ! j + r ! (i + j)]"
  have step: "\<forall>x\<in>set (foldl ?step r ps). \<bar>x\<bar> \<le> K + int (length ps) * (M * N)"
    if "\<forall>x\<in>set r. \<bar>x\<bar> \<le> K" "\<forall>(i, j)\<in>set ps. i < length vs \<and> j < length ws" for r ps K
    using that
  proof (induction ps arbitrary: r K)
    case (Cons q ps)
    obtain i j where q: "q = (i, j)" by fastforce
    have ij: "\<bar>vs ! i\<bar> \<le> M" "\<bar>ws ! j\<bar> \<le> N" using Cons.prems(2) assms(1,2) by (auto simp: q)
    have prod: "\<bar>vs ! i * ws ! j\<bar> \<le> M * N" unfolding abs_mult using ij assms(3,4) by (intro mult_mono) simp_all
    have nonneg: "0 \<le> M * N" using assms(3,4) by simp
    have upd: "\<forall>x\<in>set (r[i + j := vs ! i * ws ! j + r ! (i + j)]). \<bar>x\<bar> \<le> K + M * N"
    proof
      fix x assume "x \<in> set (r[i + j := vs ! i * ws ! j + r ! (i + j)])"
      then consider "x \<in> set r" | "i + j < length r" "x = vs ! i * ws ! j + r ! (i + j)"
        using set_update_subset_insert [of r "i + j"] by (cases "i + j < length r") (fastforce simp: list_update_beyond)+
      then show "\<bar>x\<bar> \<le> K + M * N"
      proof cases
        case 1
        then show ?thesis using Cons.prems(1) nonneg by fastforce
      next
        case 2
        then have "\<bar>r ! (i + j)\<bar> \<le> K" using Cons.prems(1) by simp
        then show ?thesis using 2 prod abs_triangle_ineq [of "vs ! i * ws ! j" "r ! (i + j)"] by linarith
      qed
    qed
    from Cons.IH [OF upd] Cons.prems(2) show ?case by (simp add: q algebra_simps)
  qed simp
  have len: "length (index_pairs (length vs) (length ws)) = length vs * length ws"
    by (simp add: index_pairs_def length_concat comp_def sum_list_triv)
  have ps: "\<forall>(i, j)\<in>set (index_pairs (length vs) (length ws)). i < length vs \<and> j < length ws"
    by (auto simp: index_pairs_set)
  have "\<forall>x\<in>set (replicate n 0). \<bar>x :: int\<bar> \<le> 0" by simp
  from step [OF this ps] assms(5) show ?thesis by (simp add: convolution_def len)
qed

lemma implements_mul_unsafe_big:
  assumes "ubig a vs" "ubig b ws" "length vs + length ws \<noteq> 0" "length vs + length ws - 1 \<le> n"
  shows "implements (mul_unsafe_big a b n) (\<lambda>r. ubig r (convolution vs ws n))"
proof -
  note len = ubig_length [OF assms(1)] ubig_length [OF assms(2)]
  let ?t = "\<lambda>result (i, j). result[i + j := b_mul_add (a ! i) (b ! j) (result ! (i + j))]"
  let ?v = "\<lambda>r (i, j). r[i + j := vs ! i * ws ! j + r ! (i + j)]"
  have "ubig (foldl ?t ts ps) (foldl ?v rs ps)"
    if "ubig ts rs" "\<forall>(i, j)\<in>set ps. i < length vs \<and> j < length ws \<and> i + j < length rs" for ts rs ps
    using that
  proof (induction ps arbitrary: ts rs)
    case (Cons q ps)
    obtain i j where q: "q = (i, j)" by fastforce
    have ij: "i < length vs" "j < length ws" "i + j < length rs" using Cons.prems(2) by (simp_all add: q)
    have "tval (b_mul_add (a ! i) (b ! j) (ts ! (i + j))) = of_int (vs ! i * ws ! j + rs ! (i + j))"
      using ubig_nth [OF assms(1) ij(1)] ubig_nth [OF assms(2) ij(2)] ubig_nth [OF Cons.prems(1) ij(3)] by (simp add: tval_simps)
    then have "ubig (?t ts q) (?v rs q)"
      using Cons.prems(1) by (simp add: q ubig_def map_update)
    from Cons.IH [OF this] Cons.prems(2) show ?case by (auto simp: q)
  qed simp
  from this [OF ubig_replicate_zero, of "index_pairs (length vs) (length ws)" n]
  have "ubig (foldl ?t (replicate n (Const 0)) (index_pairs (length a) (length b))) (convolution vs ws n)"
    using assms(4) by (fastforce simp: convolution_def index_pairs_set len)
  then show ?thesis
    unfolding mul_unsafe_big_def
    by (intro implements_bind [OF implements_panic] implements_return) (use assms(3,4) len in simp_all)
qed

section \<open>Normalisation to 32-bit limbs\<close>

definition limb_value :: "target option \<Rightarrow> nat" where
  "limb_value limb = (case limb of None \<Rightarrow> 0 | Some l \<Rightarrow> uval l)"

text \<open>A limb and a carry below \<open>2 ^ 32\<close> must not reach the order of the field.\<close>

definition unsafe32_ok :: "unsafe_big \<Rightarrow> bool" where
  "unsafe32_ok a \<longleftrightarrow> list_all (\<lambda>t. uval t + 2 ^ 32 \<le> p_nat) a"

lemma uval_limb_with_carry:
  assumes "limb_value limb + 2 ^ 32 \<le> p_nat" "uval carry < 2 ^ 32"
  shows "uval (limb_with_carry limb carry) = limb_value limb + uval carry"
proof (cases limb)
  case (Some l)
  have "tval (b_add carry l) = of_nat (uval l + uval carry)" by (simp add: tval_simps)
  moreover have "uval l + uval carry < p_nat" using assms by (simp add: Some limb_value_def)
  ultimately have "uval (b_add carry l) = uval l + uval carry" using to_canonical_of_nat_small by (simp only:)
  then show ?thesis by (simp add: Some limb_value_def limb_with_carry_def)
qed (simp add: limb_with_carry_def limb_value_def)

interpretation normalizer32: limb_chain 32 normalize32_step "\<lambda>l. limb_value l + 2 ^ 32 \<le> p_nat" "\<lambda>l. int (limb_value l)"
  is_u32 "\<lambda>c. int (uval c)"
proof
  fix l c assume l: "limb_value l + 2 ^ 32 \<le> p_nat" and c: "is_u32 c"
  show "implements (normalize32_step l c) (\<lambda>r. uval (fst r) < 2 ^ 32 \<and> is_u32 (snd r)
      \<and> int (uval (fst r)) + 2 ^ 32 * int (uval (snd r)) = int (limb_value l) + int (uval c))"
    unfolding normalize32_step_def
  proof (rule implements_weaken [OF implements_split_u64])
    fix r assume "u32_halves (uval (limb_with_carry l c)) r"
    then have "is_u32 (fst r)" "is_u32 (snd r)" "uval (fst r) + 2 ^ 32 * uval (snd r) = limb_value l + uval c"
      using uval_limb_with_carry [OF l, of c] c by (simp_all add: u32_halves_def is_u32_def)
    moreover from this(3) have "int (uval (fst r) + 2 ^ 32 * uval (snd r)) = int (limb_value l + uval c)" by simp
    ultimately show "uval (fst r) < 2 ^ 32 \<and> is_u32 (snd r)
        \<and> int (uval (fst r)) + 2 ^ 32 * int (uval (snd r)) = int (limb_value l) + int (uval c)" by (simp add: is_u32_def)
  qed
qed

lemma le_value_limb_at: "length a \<le> n \<Longrightarrow> le_value B (map (\<lambda>i. int (limb_value (limb_at a i))) [0..<n]) = le_value B (map (\<lambda>t. int (uval t)) a)"
proof -
  assume n: "length a \<le> n"
  have "map (\<lambda>i. int (limb_value (limb_at a i))) [0..<n] = map (\<lambda>t. int (uval t)) a @ replicate (n - length a) 0"
    by (rule nth_equalityI) (use n in \<open>auto simp: limb_at_def limb_value_def nth_append\<close>)
  then show ?thesis by (simp add: le_value_append)
qed

lemma limbs32_iff: "list_all (\<lambda>t. uval t < 2 ^ 32) ls \<longleftrightarrow> limbs_ok ls"
  by (simp add: limbs_ok_def is_u32_def list_all_iff)

lemmas limbs32_fold = limbs32_iff limbs32_iff [simplified] int_bnat int_bnat [simplified]

lemma realises_unsafe_big32_to_biguint:
  assumes "unsafe32_ok a"
  shows "realises (unsafe_big32_to_biguint a k) (length a \<le> k \<and> bnat a < 2 ^ (32 * k)) (\<lambda>r. big r k (bnat a))"
  unfolding unsafe_big32_to_biguint_def
proof (rule realises_bind [OF realises_panic])
  assume k: "length a \<le> k"
  have items: "list_all (\<lambda>l. limb_value l + 2 ^ 32 \<le> p_nat) (map (limb_at a) [0..<k])"
    using assms by (auto simp: list_all_length limb_at_def limb_value_def unsafe32_ok_def)
  have zero: "is_u32 (Const 0)" by (simp add: is_u32_def)
  show "realises (circ_bind (carry_loop normalize32_step (map (limb_at a) [0..<k]) (Const 0)) (\<lambda>(normalized_limbs, carry).
      circ_bind (assert_zero carry) (\<lambda>_. circ_return normalized_limbs))) (bnat a < 2 ^ (32 * k)) (\<lambda>r. big r k (bnat a))"
  proof (rule realises_after [OF normalizer32.implements_limbs [OF items zero]], unfold split_paired_all prod.case)
    fix ls c assume r: "normalizer32.limb_result (map (limb_at a) [0..<k]) (Const 0) (ls, c)"
    have "int (bnat ls) + 2 ^ (32 * k) * int (uval c) = int (bnat a)"
      using r le_value_limb_at [OF k, of "2 ^ 32"] by (simp add: normalizer32.limb_result_def limbs32_fold comp_def)
    then have "int (bnat ls + 2 ^ (32 * k) * uval c) = int (bnat a)" by simp
    then have val: "bnat ls + 2 ^ (32 * k) * uval c = bnat a" by (simp only: of_nat_eq_iff)
    have ok: "limbs_ok ls" "length ls = k" using r by (simp_all add: normalizer32.limb_result_def limbs32_fold)
    have fits: "bnat a < 2 ^ (32 * k) \<longleftrightarrow> uval c = 0"
      using digit_less_iff [of "bnat ls" "2 ^ (32 * k)" "uval c" 1] bnat_bound [OF ok(1)] val ok(2) by simp
    show "realises (circ_bind (assert_zero c) (\<lambda>_. circ_return ls)) (bnat a < 2 ^ (32 * k)) (\<lambda>r. big r k (bnat a))"
      unfolding fits by (rule realises_then_return [OF realises_assert_zero]) (use ok val in \<open>simp add: big_def\<close>)
  qed
qed

section \<open>Normalisation of signed limbs\<close>

text \<open>
  What one iteration does to the integer of its limb: magnitude and sign are split off first, so a negative
  number that is a multiple of \<open>2 ^ 16\<close> gives the digit \<open>2 ^ 16\<close> and one carry less than the quotient.
\<close>

definition signed_digit :: "int \<Rightarrow> int" where
  "signed_digit x = (if x < 0 then 2 ^ 16 - (- x) mod 2 ^ 16 else x mod 2 ^ 16)"

definition signed_carry :: "int \<Rightarrow> int" where
  "signed_carry x = (if x < 0 then - ((- x) div 2 ^ 16 + 1) else x div 2 ^ 16)"

fun signed_digits :: "int \<Rightarrow> int list \<Rightarrow> int list \<times> int" where
  "signed_digits c [] = ([], c)"
| "signed_digits c (v # vs) =
    (let (ds, e) = signed_digits (signed_carry (c + v)) vs in (signed_digit (c + v) # ds, e))"

definition regular_digits :: "int \<Rightarrow> int list \<Rightarrow> bool" where
  "regular_digits c vs \<longleftrightarrow> list_all (\<lambda>d. d < 2 ^ 16) (fst (signed_digits c vs))"

lemma signed_digit_carry: "signed_digit x + 2 ^ 16 * signed_carry x = x"
proof (cases "x < 0")
  case True
  have "(2 ^ 16 - y mod 2 ^ 16) + 2 ^ 16 * (- (y div 2 ^ 16 + 1)) = - y" for y :: int
    using mult_div_mod_eq [of "2 ^ 16" y] by (simp only: distrib_left mult_minus_right mult_1_right)
  from this [of "- x"] True show ?thesis by (simp only: signed_digit_def signed_carry_def if_True minus_minus)
qed (simp add: signed_digit_def signed_carry_def)

lemma signed_digit_range: "0 \<le> signed_digit x" "signed_digit x \<le> 2 ^ 16"
  unfolding signed_digit_def
  using pos_mod_bound [of "2 ^ 16" x] pos_mod_bound [of "2 ^ 16" "- x"] pos_mod_sign [of "2 ^ 16" x] pos_mod_sign [of "2 ^ 16" "- x"]
  by (auto simp del: pos_mod_sign pos_mod_bound)

lemma signed_carry_bound: "\<bar>x\<bar> < 2 ^ 60 \<Longrightarrow> \<bar>signed_carry x\<bar> \<le> 2 ^ 45"
  by (auto simp: signed_carry_def abs_if)

lemma signed_digits_value:
  "le_value (2 ^ 16) (fst (signed_digits c vs)) + 2 ^ (16 * length vs) * snd (signed_digits c vs) = c + le_value (2 ^ 16) vs"
proof (induction vs arbitrary: c)
  case (Cons v vs)
  obtain ds e where r: "signed_digits (signed_carry (c + v)) vs = (ds, e)" by fastforce
  have "le_value (2 ^ 16) ds + 2 ^ (16 * length vs) * e = signed_carry (c + v) + le_value (2 ^ 16) vs"
    using Cons [of "signed_carry (c + v)"] by (simp only: r fst_conv snd_conv)
  then have "2 ^ 16 * (le_value (2 ^ 16) ds + 2 ^ (16 * length vs) * e) = 2 ^ 16 * (signed_carry (c + v) + le_value (2 ^ 16) vs)" by simp
  then show ?case using signed_digit_carry [of "c + v"] by (simp add: r power_add algebra_simps)
qed simp

lemma length_signed_digits: "length (fst (signed_digits c vs)) = length vs"
  by (induction vs arbitrary: c) (simp_all add: split_def Let_def)

lemma signed_digits_nonneg: "d \<in> set (fst (signed_digits c vs)) \<Longrightarrow> 0 \<le> d"
  by (induction vs arbitrary: c) (auto simp: split_def Let_def signed_digit_range)

lemma implements_normalize16_step:
  assumes t: "tval (limb_with_carry l c) = of_int x" and x: "\<bar>x\<bar> < 2 ^ 60"
  shows "implements (normalize16_step l c) (\<lambda>r. tval (fst r) = of_int (signed_digit x) \<and> tval (snd r) = of_int (signed_carry x))"
  unfolding normalize16_step_def
proof (rule implements_bind [OF implements_signed_abs], unfold split_paired_all prod.case, elim conjE)
  have v: "get_signed_target (limb_with_carry l c) = x"
    by (rule get_signed_target_eqI [OF t]) (use x in \<open>simp add: signed_range_def goldilocks_order_def abs_if split: if_splits\<close>)
  fix m s assume m: "int (uval m) = \<bar>get_signed_target (limb_with_carry l c)\<bar>" and s: "sval s (get_signed_target (limb_with_carry l c))"
  have m: "int (uval m) = \<bar>x\<bar>" and s: "sval s x" using m s v by simp_all
  have "uval m < 2 ^ 64" by (rule less_trans [OF to_canonical_lt]) simp
  then have split: "implements (split_u64_to_u16s_le m 4) (\<lambda>ls. big16 ls 4 (uval m))"
    using realises_implements [OF realises_split_u64_to_u16s_le [of 4 m]] by simp
  let ?low = "\<lambda>n ls. arithmetic (- 2) 1 n (ls ! 0) (b_mul_add (Const (2 ^ 16)) n (ls ! 0))"
  let ?high = "\<lambda>n ls. b_add (b_mul_add (b_mul_add (ls ! 3) (Const (2 ^ 16)) (ls ! 2)) (Const (2 ^ 16)) (ls ! 1)) n"
  show "implements (circ_bind (split_u64_to_u16s_le m 4) (\<lambda>split_limb_with_carry.
      circ_bind (is_sign_negative s) (\<lambda>is_limb_negative.
      let low = b_mul_add (Const (2 ^ 16)) is_limb_negative (split_limb_with_carry ! 0);
          low = arithmetic (- 2) 1 is_limb_negative (split_limb_with_carry ! 0) low;
          high = b_mul_add (split_limb_with_carry ! 3) (Const (2 ^ 16)) (split_limb_with_carry ! 2);
          high = b_mul_add high (Const (2 ^ 16)) (split_limb_with_carry ! 1);
          high = b_add high is_limb_negative;
          carry = arithmetic (- 2) 1 is_limb_negative high high in
      circ_return (low, carry))))
    (\<lambda>r. tval (fst r) = of_int (signed_digit x) \<and> tval (snd r) = of_int (signed_carry x))"
  proof (rule implements_bind [OF split], rule implements_bind [OF implements_is_sign(1) [OF s]], unfold Let_def, rule implements_return,
      unfold fst_conv snd_conv)
    fix ls neg assume ls: "big16 ls 4 (uval m)" and neg: "bval neg (x < 0)"
    obtain l0 l1 l2 l3 where ls4: "ls = [l0, l1, l2, l3]" using ls by (auto simp: big16_def length_Suc_conv numeral_eq_Suc)
    have ok: "uval l0 < 2 ^ 16" "uval l1 < 2 ^ 16" "uval l2 < 2 ^ 16" "uval l3 < 2 ^ 16"
      using ls by (simp_all add: ls4 big16_def is_u16_def)
    define h where "h = uval l1 + 2 ^ 16 * (uval l2 + 2 ^ 16 * uval l3)"
    have m_eq: "uval m = uval l0 + 2 ^ 16 * h" using ls by (simp add: ls4 big16_def bnat16_def h_def)
    have "uval l0 = uval m mod 2 ^ 16" "h = uval m div 2 ^ 16" unfolding m_eq using ok(1) by simp_all
    then have parts: "int (uval l0) = \<bar>x\<bar> mod 2 ^ 16" "int h = \<bar>x\<bar> div 2 ^ 16" unfolding m [symmetric] by (simp_all add: zmod_int zdiv_int)
    have low: "tval (?low neg ls) = of_int (if x < 0 then 2 ^ 16 - int (uval l0) else int (uval l0))"
      using neg by (simp add: ls4 tval_simps bval_def)
    have "tval (b_mul_add (b_mul_add l3 (Const (2 ^ 16)) l2) (Const (2 ^ 16)) l1) = of_int (int h)"
      by (simp add: h_def tval_simps algebra_simps)
    then have high: "tval (arithmetic (- 2) 1 neg (?high neg ls) (?high neg ls)) = of_int (if x < 0 then - (int h + 1) else int h)"
      using neg by (simp add: ls4 tval_simps bval_def)
    show "tval (?low neg ls) = of_int (signed_digit x) \<and> tval (arithmetic (- 2) 1 neg (?high neg ls) (?high neg ls)) = of_int (signed_carry x)"
      unfolding low high signed_digit_def signed_carry_def parts by (simp add: abs_if)
  qed
qed

definition option_ubig :: "target option list \<Rightarrow> int list \<Rightarrow> bool" where
  "option_ubig ls vs \<longleftrightarrow> list_all2 (\<lambda>l v. \<forall>c k. tval c = of_int k \<longrightarrow> tval (limb_with_carry l c) = of_int (k + v)) ls vs"

lemma implements_normalize16:
  "option_ubig ls vs \<Longrightarrow> \<forall>v\<in>set vs. \<bar>v\<bar> < 2 ^ 59 \<Longrightarrow> tval c = of_int k \<Longrightarrow> \<bar>k\<bar> \<le> 2 ^ 45 \<Longrightarrow>
    implements (carry_loop normalize16_step ls c)
      (\<lambda>(ds, e). ubig ds (fst (signed_digits k vs)) \<and> tval e = of_int (snd (signed_digits k vs)))"
proof (induction ls arbitrary: vs c k)
  case Nil
  then show ?case by (auto simp: option_ubig_def intro!: implements_return)
next
  case (Cons l ls)
  then obtain v vs' where vs: "vs = v # vs'" and l: "tval (limb_with_carry l c) = of_int (k + v)" and rest: "option_ubig ls vs'"
    by (auto simp: option_ubig_def list_all2_Cons1)
  have "\<bar>v\<bar> < 2 ^ 59" using Cons.prems(2) vs by simp
  then have small: "\<bar>k + v\<bar> < 2 ^ 60" using Cons.prems(4) by simp
  obtain ds e where r: "signed_digits (signed_carry (k + v)) vs' = (ds, e)" by fastforce
  show ?case
    unfolding carry_loop.simps
  proof (rule implements_bind [OF implements_normalize16_step [OF l small]], unfold split_paired_all prod.case fst_conv snd_conv, elim conjE)
    fix d c' assume d: "tval d = of_int (signed_digit (k + v))" and c': "tval c' = of_int (signed_carry (k + v))"
    show "implements (circ_bind (carry_loop normalize16_step ls c') (\<lambda>(limbs, final_carry). circ_return (d # limbs, final_carry)))
        (\<lambda>(ds, e). ubig ds (fst (signed_digits k vs)) \<and> tval e = of_int (snd (signed_digits k vs)))"
    proof (rule implements_bind [OF Cons.IH [OF rest _ c' signed_carry_bound [OF small]]], use Cons.prems(2) vs in simp,
        unfold split_paired_all prod.case, rule implements_return)
      fix ds' e' assume "ubig ds' (fst (signed_digits (signed_carry (k + v)) vs')) \<and> tval e' = of_int (snd (signed_digits (signed_carry (k + v)) vs'))"
      then show "case (d # ds', e') of (ds, e) \<Rightarrow> ubig ds (fst (signed_digits k vs)) \<and> tval e = of_int (snd (signed_digits k vs))"
        using d by (simp add: vs r)
    qed
  qed
qed

text \<open>The second pass on integers.\<close>

fun complement_digits :: "bool \<Rightarrow> int \<Rightarrow> int list \<Rightarrow> int list \<times> int" where
  "complement_digits neg c [] = ([], c)"
| "complement_digits neg c (d # ds) =
    (let n = (if neg then 2 ^ 16 - 1 - d else d) + c;
         (rs, e) = complement_digits neg (of_bool (n = 2 ^ 16)) ds in ((if n = 2 ^ 16 then 0 else n) # rs, e))"

lemma complement_digits_props:
  assumes "\<forall>d\<in>set ds. 0 \<le> d \<and> d < 2 ^ 16" "c = 0 \<or> c = 1" "complement_digits neg c ds = (rs, e)"
  shows "(\<forall>r\<in>set rs. 0 \<le> r \<and> r < 2 ^ 16) \<and> length rs = length ds \<and> (e = 0 \<or> e = 1)
    \<and> le_value (2 ^ 16) rs + 2 ^ (16 * length ds) * e = (if neg then 2 ^ (16 * length ds) - 1 - le_value (2 ^ 16) ds else le_value (2 ^ 16) ds) + c"
  using assms
proof (induction ds arbitrary: c rs e)
  case (Cons d ds)
  let ?n = "(if neg then 2 ^ 16 - 1 - d else d) + c"
  obtain rs' where r: "complement_digits neg (of_bool (?n = 2 ^ 16)) ds = (rs', e)" and rs: "rs = (if ?n = 2 ^ 16 then 0 else ?n) # rs'"
    using Cons.prems(3) by (auto simp: Let_def split: prod.splits)
  have d: "0 \<le> d" "d < 2 ^ 16" using Cons.prems(1) by simp_all
  have n: "0 \<le> ?n" "?n \<le> 2 ^ 16" using d Cons.prems(2) by auto
  have ds: "\<forall>d\<in>set ds. 0 \<le> d \<and> d < 2 ^ 16" using Cons.prems(1) by simp
  have c': "of_bool (?n = 2 ^ 16) = (0::int) \<or> of_bool (?n = 2 ^ 16) = (1::int)" by simp
  note IH = Cons.IH [OF ds c' r]
  let ?W = "2 ^ (16 * length ds) :: int"
  have "le_value (2 ^ 16) rs' = (if neg then ?W - 1 - le_value (2 ^ 16) ds else le_value (2 ^ 16) ds) + of_bool (?n = 2 ^ 16) - ?W * e"
    using IH by (simp only: algebra_simps)
  then show ?case using IH n by (auto simp: rs power_add algebra_simps)
qed simp

lemma small_int_eq: "\<bar>x\<bar> < 2 ^ 62 \<Longrightarrow> \<bar>y\<bar> < 2 ^ 62 \<Longrightarrow> (of_int x :: gf) = of_int y \<longleftrightarrow> x = y"
  by (rule gf_of_int_inj) (simp add: goldilocks_order_def)

lemma implements_complement16:
  assumes neg: "tval m = (if neg then - 1 else 1)" "tval a = (if neg then 2 ^ 16 - 1 else 0)"
  shows "ubig ls ds \<Longrightarrow> \<forall>d\<in>set ds. 0 \<le> d \<and> d \<le> 2 ^ 16 \<Longrightarrow> tval c = of_int k \<Longrightarrow> k = 0 \<or> k = 1 \<Longrightarrow>
    implements (carry_loop (complement16_step m a) ls c) (\<lambda>(rs, _). ubig rs (fst (complement_digits neg k ds)))"
proof (induction ls arbitrary: ds c k)
  case Nil
  then show ?case by (auto intro!: implements_return)
next
  case (Cons l ls)
  then obtain d ds' where ds: "ds = d # ds'" and l: "tval l = of_int d" "ubig ls ds'" by (cases ds) auto
  let ?n = "(if neg then 2 ^ 16 - 1 - d else d) + k"
  have n: "tval (b_add (b_mul_add l m a) c) = of_int ?n" using neg l(1) Cons.prems(3) by (cases neg) (simp_all add: tval_simps)
  have "\<bar>?n\<bar> < 2 ^ 62" "\<bar>2 ^ 16 :: int\<bar> < 2 ^ 62" using Cons.prems(2,4) ds by auto
  then have full: "tval (b_add (b_mul_add l m a) c) = tval (Const (2 ^ 16)) \<longleftrightarrow> ?n = 2 ^ 16"
    unfolding n using small_int_eq [of ?n "2 ^ 16"] by simp
  have step: "implements (complement16_step m a l c)
      (\<lambda>r. tval (fst r) = of_int (if ?n = 2 ^ 16 then 0 else ?n) \<and> tval (snd r) = of_int (of_bool (?n = 2 ^ 16)))"
    unfolding complement16_step_def Let_def
  proof (rule implements_bind [OF implements_is_equal], unfold full, rule implements_return, unfold fst_conv snd_conv)
    fix b assume b: "bval b (?n = 2 ^ 16)"
    show "tval (select b (Const 0) (b_add (b_mul_add l m a) c)) = of_int (if ?n = 2 ^ 16 then 0 else ?n) \<and> tval b = of_int (of_bool (?n = 2 ^ 16))"
      unfolding tval_select [OF b] n using b by (simp add: bval_def)
  qed
  obtain rs e where r: "complement_digits neg (of_bool (?n = 2 ^ 16)) ds' = (rs, e)" by fastforce
  show ?case
    unfolding carry_loop.simps
  proof (rule implements_bind [OF step], unfold split_paired_all prod.case fst_conv snd_conv, elim conjE)
    fix x y assume x: "tval x = of_int (if ?n = 2 ^ 16 then 0 else ?n)" and y: "tval y = of_int (of_bool (?n = 2 ^ 16))"
    have bit: "of_bool (?n = 2 ^ 16) = (0::int) \<or> of_bool (?n = 2 ^ 16) = (1::int)" by simp
    have range: "\<forall>d\<in>set ds'. 0 \<le> d \<and> d \<le> 2 ^ 16" using Cons.prems(2) ds by simp
    show "implements (circ_bind (carry_loop (complement16_step m a) ls y) (\<lambda>(limbs, final_carry). circ_return (x # limbs, final_carry)))
        (\<lambda>(rs, _). ubig rs (fst (complement_digits neg k ds)))"
    proof (rule implements_bind [OF Cons.IH [OF l(2) range y bit]], unfold split_paired_all prod.case, rule implements_return, unfold prod.case)
      fix rs' e' assume "ubig rs' (fst (complement_digits neg (of_bool (?n = 2 ^ 16)) ds'))"
      then show "ubig (x # rs') (fst (complement_digits neg k ds))" using x by (simp add: ds r [simplified] Let_def split_def)
    qed
  qed
qed

section \<open>The whole normalisation\<close>

definition padded :: "int list \<Rightarrow> nat \<Rightarrow> int list" where
  "padded vs n = vs @ replicate (n - length vs) 0"

lemma option_ubig_limbs:
  assumes "ubig a vs" "length vs \<le> n"
  shows "option_ubig (map (limb_at a) [0..<n]) (padded vs n)"
  unfolding option_ubig_def
proof (rule list_all2_all_nthI, goal_cases)
  case 1
  show ?case using assms(2) by (simp add: padded_def)
next
  case (2 i)
  then show ?case
    using assms ubig_length [OF assms(1)] ubig_nth [OF assms(1), of i]
    by (auto simp: limb_at_def limb_with_carry_def padded_def nth_append tval_simps)
qed

lemma padded_value [simp]: "le_value B (padded vs n) = le_value B vs" "length vs \<le> n \<Longrightarrow> length (padded vs n) = n"
  by (simp_all add: padded_def le_value_append)

lemma signed_digits_le: "d \<in> set (fst (signed_digits c vs)) \<Longrightarrow> d \<le> 2 ^ 16"
  by (induction vs arbitrary: c) (use signed_digit_range in \<open>auto simp: split_def Let_def\<close>)

text \<open>What the two passes make of the integers.\<close>

definition normal_digits :: "int list \<Rightarrow> nat \<Rightarrow> int list" where
  "normal_digits vs n =
    (let (ds, e) = signed_digits 0 (padded vs n) in fst (complement_digits (e = - 1) (of_bool (e = - 1)) ds))"

lemma implements_unsafe_big16_digits:
  assumes a: "ubig a vs" and small: "\<forall>v\<in>set vs. \<bar>v\<bar> < 2 ^ 59" and len: "length vs \<le> k * 2"
    and e: "snd (signed_digits 0 (padded vs (k * 2))) = 0 \<or> snd (signed_digits 0 (padded vs (k * 2))) = - 1"
  shows "implements (unsafe_big16_to_bigint a k) (\<lambda>r. \<exists>ls. ubig ls (normal_digits vs (k * 2)) \<and> bi_abs r = pair_limbs ls
    \<and> tval (bi_sign r) = (if snd (signed_digits 0 (padded vs (k * 2))) = - 1 then - 1 else if bnat (bi_abs r) = 0 then 0 else 1))"
proof -
  obtain ds c where sd: "signed_digits 0 (padded vs (k * 2)) = (ds, c)" by fastforce
  have c: "c = 0 \<or> c = - 1" using e sd by simp
  have pad: "\<forall>v\<in>set (padded vs (k * 2)). \<bar>v\<bar> < 2 ^ 59" using small by (auto simp: padded_def)
  have zero: "tval (Const 0) = of_int 0" "\<bar>0 :: int\<bar> \<le> 2 ^ 45" by simp_all
  note first = implements_normalize16 [OF option_ubig_limbs [OF a len] pad zero, unfolded sd fst_conv snd_conv]
  have range: "\<forall>d\<in>set ds. 0 \<le> d \<and> d \<le> 2 ^ 16"
    using signed_digits_nonneg [of _ 0 "padded vs (k * 2)"] signed_digits_le [of _ 0 "padded vs (k * 2)"] by (simp add: sd)
  have nd: "normal_digits vs (k * 2) = fst (complement_digits (c = - 1) (of_bool (c = - 1)) ds)" by (simp add: normal_digits_def sd)
  show ?thesis
    unfolding unsafe_big16_to_bigint_def sd fst_conv snd_conv nd
  proof (rule implements_bind [OF implements_panic], use len ubig_length [OF a] in simp,
      rule implements_bind [OF first], unfold split_paired_all prod.case, elim conjE, unfold Let_def)
    fix ls e assume ls: "ubig ls ds" and te: "tval e = of_int c"
    have "tval (arithmetic 1 1 e e e) = 0" using c by (auto simp: tval_simps te)
    then have ok: "implements (assert_zero (arithmetic 1 1 e e e)) (\<lambda>_. True)"
      using realises_implements [OF realises_assert_zero] by simp
    have minus: "tval e = tval (Const (- 1)) \<longleftrightarrow> c = - 1"
      unfolding te using small_int_eq [of c "- 1"] c by auto
    show "implements (circ_bind (assert_zero (arithmetic 1 1 e e e)) (\<lambda>_.
        circ_bind (is_equal e (Const (- 1))) (\<lambda>is_negative.
        circ_bind (carry_loop (complement16_step (select is_negative (Const (- 1)) (Const 1)) (b_mul is_negative (Const (2 ^ 16 - 1)))) ls is_negative)
          (\<lambda>(limbs, _).
        circ_bind (is_zero_biguint (pair_limbs limbs)) (\<lambda>is_zero.
        circ_return \<lparr>bi_abs = pair_limbs limbs,
          bi_sign = select is_negative (Const (- 1)) (select is_zero (Const 0) (Const 1))\<rparr>)))))
      (\<lambda>r. \<exists>ls. ubig ls (fst (complement_digits (c = - 1) (of_bool (c = - 1)) ds)) \<and> bi_abs r = pair_limbs ls
        \<and> tval (bi_sign r) = (if c = - 1 then - 1 else if bnat (bi_abs r) = 0 then 0 else 1))"
    proof (rule implements_bind [OF ok], rule implements_bind [OF implements_is_equal], unfold minus)
      fix neg assume neg: "bval neg (c = - 1)"
      have m: "tval (select neg (Const (- 1)) (Const 1)) = (if c = - 1 then - 1 else 1)" using tval_select [OF neg] by simp
      have ad: "tval (b_mul neg (Const (2 ^ 16 - 1))) = (if c = - 1 then 2 ^ 16 - 1 else 0)" using neg by (simp add: tval_simps bval_def)
      have start: "tval neg = of_int (of_bool (c = - 1))" "of_bool (c = - 1) = (0::int) \<or> of_bool (c = - 1) = (1::int)"
        using neg by (simp_all add: bval_def)
      show "implements (circ_bind (carry_loop (complement16_step (select neg (Const (- 1)) (Const 1)) (b_mul neg (Const (2 ^ 16 - 1)))) ls neg)
          (\<lambda>(limbs, _). circ_bind (is_zero_biguint (pair_limbs limbs)) (\<lambda>is_zero.
        circ_return \<lparr>bi_abs = pair_limbs limbs, bi_sign = select neg (Const (- 1)) (select is_zero (Const 0) (Const 1))\<rparr>)))
        (\<lambda>r. \<exists>ls. ubig ls (fst (complement_digits (c = - 1) (of_bool (c = - 1)) ds)) \<and> bi_abs r = pair_limbs ls
          \<and> tval (bi_sign r) = (if c = - 1 then - 1 else if bnat (bi_abs r) = 0 then 0 else 1))"
      proof (rule implements_bind [OF implements_complement16 [OF m ad ls range start]], unfold split_paired_all prod.case,
          rule implements_bind [OF implements_is_zero_biguint], rule implements_return)
        fix rs z assume rs: "ubig rs (fst (complement_digits (c = - 1) (of_bool (c = - 1)) ds))" and z: "bval z (bnat (pair_limbs rs) = 0)"
        have "tval (select neg (Const (- 1)) (select z (Const 0) (Const 1))) = (if c = - 1 then - 1 else if bnat (pair_limbs rs) = 0 then 0 else 1)"
          unfolding tval_select [OF neg] tval_select [OF z] by simp
        with rs show "\<exists>ls. ubig ls (fst (complement_digits (c = - 1) (of_bool (c = - 1)) ds))
            \<and> bi_abs \<lparr>bi_abs = pair_limbs rs, bi_sign = select neg (Const (- 1)) (select z (Const 0) (Const 1))\<rparr> = pair_limbs ls
            \<and> tval (bi_sign \<lparr>bi_abs = pair_limbs rs, bi_sign = select neg (Const (- 1)) (select z (Const 0) (Const 1))\<rparr>)
              = (if c = - 1 then - 1 else if bnat (bi_abs \<lparr>bi_abs = pair_limbs rs, bi_sign = select neg (Const (- 1)) (select z (Const 0) (Const 1))\<rparr>) = 0
                then 0 else 1)"
          by (intro exI [of _ rs]) simp
      qed
    qed
  qed
qed

text \<open>When no digit is full the result is the integer, in proper limbs.\<close>

lemma ubig_limbs16: "ubig ls ds \<Longrightarrow> \<forall>d\<in>set ds. 0 \<le> d \<and> d < 2 ^ 16 \<Longrightarrow> limbs16_ok ls \<and> int (bnat16 ls) = le_value (2 ^ 16) ds"
proof (induction ls arbitrary: ds)
  case (Cons l ls)
  then obtain d ds' where ds: "ds = d # ds'" "tval l = of_int d" "ubig ls ds'" by (cases ds) auto
  have "0 \<le> d" "d < goldilocks_order" using Cons.prems(2) ds(1) by (auto simp: goldilocks_order_def)
  then have "int (uval l) = d" unfolding ds(2) by (rule to_canonical_of_int)
  moreover from this have "uval l < 2 ^ 16" using Cons.prems(2) ds(1) by (metis list.set_intros(1) of_nat_less_numeral_power_cancel_iff)
  ultimately show ?case using Cons.IH [OF ds(3)] Cons.prems(2) ds(1) by (simp add: bnat16_Cons is_u16_def)
qed simp

lemma top_carry:
  fixes D W e X :: int
  assumes "0 \<le> D" "D < W" "D + W * e = X" "\<bar>X\<bar> < W"
  shows "e = (if X < 0 then - 1 else 0)"
proof -
  have W: "0 < W" using assms(1,2) by linarith
  have "W * e < W * 1" "W * (- 2) < W * e" using assms by linarith+
  then have e: "e < 1" "- 2 < e" using W by (simp_all only: mult_less_cancel_left_pos)
  show ?thesis
  proof (cases "e = 0")
    case True
    then show ?thesis using assms(1,3) by simp
  next
    case False
    then have "e = - 1" using e by linarith
    then show ?thesis using assms by simp
  qed
qed

lemma le_value_bound_int: "\<forall>d\<in>set ds. 0 \<le> d \<and> d < B \<Longrightarrow> 0 \<le> le_value B ds \<and> le_value B ds < B ^ length ds" for B :: int
proof (induction ds)
  case (Cons d ds)
  then have IH: "0 \<le> le_value B ds" "le_value B ds + 1 \<le> B ^ length ds" and d: "0 \<le> d" "d < B" by auto
  have "B * (le_value B ds + 1) \<le> B * B ^ length ds" using IH(2) d by (intro mult_left_mono) simp_all
  then show ?case using IH d by (simp add: algebra_simps)
qed simp

lemma implements_unsafe_big16_to_bigint:
  assumes a: "ubig a vs" and small: "\<forall>v\<in>set vs. \<bar>v\<bar> < 2 ^ 59" and len: "length vs \<le> k * 2"
    and regular: "regular_digits 0 (padded vs (k * 2))" and fits: "\<bar>le_value (2 ^ 16) vs\<bar> < 2 ^ (32 * k)"
  shows "implements (unsafe_big16_to_bigint a k) (\<lambda>r. bigz r k (le_value (2 ^ 16) vs))"
proof -
  let ?X = "le_value (2 ^ 16) vs" and ?W = "2 ^ (16 * (k * 2)) :: int"
  obtain ds e where sd: "signed_digits 0 (padded vs (k * 2)) = (ds, e)" by fastforce
  have W: "?W = 2 ^ (32 * k)" by (simp add: mult.commute mult.left_commute)
  have dl: "length ds = k * 2" using length_signed_digits [of 0 "padded vs (k * 2)"] len by (simp add: sd)
  have range: "\<forall>d\<in>set ds. 0 \<le> d \<and> d < 2 ^ 16"
    using signed_digits_nonneg [of _ 0 "padded vs (k * 2)"] regular by (auto simp: sd regular_digits_def list_all_iff)
  have pow: "(2 ^ 16) ^ (k * 2) = ?W" by (simp only: power_mult)
  have bound: "0 \<le> le_value (2 ^ 16) ds" "le_value (2 ^ 16) ds < ?W" using le_value_bound_int [OF range] unfolding dl pow by blast+
  have val: "le_value (2 ^ 16) ds + ?W * e = ?X" using signed_digits_value [of 0 "padded vs (k * 2)"] len by (simp add: sd)
  have e: "e = (if ?X < 0 then - 1 else 0)" using top_carry [OF bound val] fits unfolding W by blast
  then have neg: "e = - 1 \<longleftrightarrow> ?X < 0" by simp
  have e': "snd (signed_digits 0 (padded vs (k * 2))) = 0 \<or> snd (signed_digits 0 (padded vs (k * 2))) = - 1" using e by (simp add: sd)
  obtain rs f where cd: "complement_digits (e = - 1) (of_bool (e = - 1)) ds = (rs, f)" by fastforce
  have bit: "of_bool (e = - 1) = (0::int) \<or> of_bool (e = - 1) = (1::int)" by simp
  note props = complement_digits_props [OF range bit cd]
  have rs: "\<forall>r\<in>set rs. 0 \<le> r \<and> r < 2 ^ 16" "length rs = k * 2" using props dl by simp_all
  have rbound: "0 \<le> le_value (2 ^ 16) rs" "le_value (2 ^ 16) rs < ?W" using le_value_bound_int [OF rs(1)] unfolding rs(2) pow by blast+
  have "le_value (2 ^ 16) rs + ?W * f = \<bar>?X\<bar>"
  proof (cases "?X < 0")
    case True
    then show ?thesis using props val e by (simp add: dl) 
  next
    case False
    then show ?thesis using props val e by (simp add: dl)
  qed
  then have abs: "le_value (2 ^ 16) rs = \<bar>?X\<bar>"
    using top_carry [OF rbound, of f "\<bar>?X\<bar>"] fits unfolding W by simp
  have nd: "normal_digits vs (k * 2) = rs" by (simp add: normal_digits_def sd cd)
  show ?thesis
  proof (rule implements_weaken [OF implements_unsafe_big16_digits [OF a small len e']], unfold nd, elim exE conjE)
    fix r :: bigint and ls assume ls: "ubig ls rs" and r: "bi_abs r = pair_limbs ls"
      and sign: "tval (bi_sign r) = (if snd (signed_digits 0 (padded vs (k * 2))) = - 1 then - 1 else if bnat (bi_abs r) = 0 then 0 else 1)"
    have ok: "limbs16_ok ls" "int (bnat16 ls) = \<bar>?X\<bar>" using ubig_limbs16 [OF ls rs(1)] abs by simp_all
    have "length ls = k * 2" using ubig_length [OF ls] rs(2) by simp
    then have big: "big (bi_abs r) k (bnat16 ls)" using pair_limbs_value [OF ok(1)] by (simp add: r big_def)
    have nat: "bnat16 ls = nat \<bar>?X\<bar>" using ok(2) by simp
    have "sval (bi_sign r) ?X" using sign big by (auto simp: sd neg big_def nat sval_def sgn_if)
    then show "bigz r k ?X" using big by (simp add: bigz_def nat)
  qed
qed

section \<open>Properties\<close>

text \<open>
  Normalising an unreduced signed number: when no intermediate limb is a negative multiple of
  \<open>2 ^ 16\<close>, limbs of up to 59 bits and any sign are brought to the magnitude and sign of the integer they
  denote, for every integer that fits.
\<close>

theorem unsafe_big16_to_bigint_exact:
  assumes "ubig a vs" "\<forall>v\<in>set vs. \<bar>v\<bar> < 2 ^ 59" "length vs \<le> k * 2"
    and "regular_digits 0 (padded vs (k * 2))" "\<bar>le_value (2 ^ 16) vs\<bar> < 2 ^ (32 * k)"
  shows "implements (unsafe_big16_to_bigint a k) (\<lambda>r. bigz r k (le_value (2 ^ 16) vs))"
  by (rule implements_unsafe_big16_to_bigint [OF assms])

theorem unsafe_big16_to_bigint_exact_witness:
  "implements (unsafe_big16_to_bigint [Wire 5, Wire (of_int (- 100000)), Wire 1] 2) (\<lambda>r. bigz r 2 (- 2258632699))"
  using unsafe_big16_to_bigint_exact [of "[Wire 5, Wire (of_int (- 100000)), Wire 1]" "[5, - 100000, 1]" 2]
  by (simp add: regular_digits_def padded_def signed_digit_def signed_carry_def)

text \<open>
  An irregular number: the limbs -1 and -65535 denote \<open>65535 - 2 ^ 32\<close>, but every accepted run of the
  normalisation returns -65535 as the lower limb of the magnitude, which is no 32-bit limb.
\<close>

theorem unsafe_big16_to_bigint_irregular:
  "implements (unsafe_big16_to_bigint [Wire (of_int (- 1)), Wire (of_int (- 65535))] 2)
    (\<lambda>r. tval (bi_abs r ! 0) = of_int (- 65535) \<and> \<not> limbs_ok (bi_abs r))"
proof (rule implements_weaken [OF implements_unsafe_big16_digits])
  show "ubig [Wire (of_int (- 1)), Wire (of_int (- 65535))] [- 1, - 65535]" by simp
  fix r :: bigint assume "\<exists>ls. ubig ls (normal_digits [- 1, - 65535] (2 * 2)) \<and> bi_abs r = pair_limbs ls
    \<and> tval (bi_sign r) = (if snd (signed_digits 0 (padded [- 1, - 65535] (2 * 2))) = - 1 then - 1 else if bnat (bi_abs r) = 0 then 0 else 1)"
  moreover have "normal_digits [- 1, - 65535] (2 * 2) = [1, - 1, 1, 0]"
    by (simp add: normal_digits_def padded_def signed_digit_def signed_carry_def numeral_eq_Suc)
  ultimately obtain l0 l1 l2 l3 where r: "bi_abs r = pair_limbs [l0, l1, l2, l3]" and l: "tval l0 = 1" "tval l1 = - 1"
    by (auto simp: ubig_def map_eq_Cons_conv)
  have low: "tval (b_mul_add l1 (Const (2 ^ 16)) l0) = of_int (- 65535)" using l by (simp add: tval_simps)
  have wrap: "(of_int (- 65535) :: gf) = of_int (goldilocks_order - 65535)" by (simp only: gf_of_int_eq_iff) simp
  have "int (uval (b_mul_add l1 (Const (2 ^ 16)) l0)) = goldilocks_order - 65535"
    unfolding low wrap by (rule to_canonical_of_int) (simp_all add: goldilocks_order_def)
  then show "tval (bi_abs r ! 0) = of_int (- 65535) \<and> \<not> limbs_ok (bi_abs r)"
    using low by (simp add: r is_u32_def goldilocks_order_def)
qed (simp_all add: padded_def signed_digit_def signed_carry_def numeral_eq_Suc)

end
