(* ===== verification/Bigint_Weak.thy ===== *)
theory Bigint_Weak
  imports Bigint
begin

text \<open>
  Signed integers whose zero may carry a sign. The settlement code builds integers from a magnitude and a
  sign that come from different places (an entry quote and the sign of a position), so a zero magnitude can
  have a sign of -1 or 1. \<open>bigw r n v\<close> allows that, and the contracts of the arithmetic of \<open>Bigint\<close> are
  proved again for it: values stay exact, only the sign of a zero is lost.
\<close>

section \<open>Representation\<close>

definition wsval :: "target \<Rightarrow> int \<Rightarrow> bool" where
  "wsval s v \<longleftrightarrow> (\<exists>u. sval s u \<and> (v \<noteq> 0 \<longrightarrow> sgn u = sgn v))"

definition bigw :: "bigint \<Rightarrow> nat \<Rightarrow> int \<Rightarrow> bool" where
  "bigw r n v \<longleftrightarrow> big (bi_abs r) n (nat \<bar>v\<bar>) \<and> wsval (bi_sign r) v"

lemma sval_wsval: "sval s v \<Longrightarrow> wsval s v"
  by (auto simp: wsval_def)

lemma wsval_sval: "wsval s v \<Longrightarrow> v \<noteq> 0 \<Longrightarrow> sval s v"
  by (auto simp: wsval_def sval_def)

lemma wsvalE:
  assumes "wsval s v"
  obtains u where "sval s u" "v = sgn u * \<bar>v\<bar>"
proof -
  obtain u where u: "sval s u" "v \<noteq> 0 \<longrightarrow> sgn u = sgn v" using assms by (auto simp: wsval_def)
  then have "v = sgn u * \<bar>v\<bar>" by (cases "v = 0") (simp_all add: sgn_mult_abs)
  with u(1) that show thesis by blast
qed

lemma wsvalI: "sval s u \<Longrightarrow> v = sgn u * \<bar>v\<bar> \<Longrightarrow> wsval s v"
proof -
  assume s: "sval s u" and v: "v = sgn u * \<bar>v\<bar>"
  have "v \<noteq> 0 \<longrightarrow> sgn u = sgn v"
  proof
    assume "v \<noteq> 0"
    have "sgn v = sgn (sgn u * \<bar>v\<bar>)" using v by simp
    then show "sgn u = sgn v" using \<open>v \<noteq> 0\<close> by (simp add: sgn_mult)
  qed
  with s show ?thesis by (auto simp: wsval_def)
qed

lemma bigz_bigw: "bigz r n v \<Longrightarrow> bigw r n v"
  by (simp add: bigz_def bigw_def sval_wsval)

lemma bigw_bigz: "bigw r n v \<Longrightarrow> v \<noteq> 0 \<Longrightarrow> bigz r n v"
  by (simp add: bigz_def bigw_def wsval_sval)

lemma bigwD:
  "bigw r n v \<Longrightarrow> limbs_ok (bi_abs r)" "bigw r n v \<Longrightarrow> length (bi_abs r) = n" "bigw r n v \<Longrightarrow> bnat (bi_abs r) = nat \<bar>v\<bar>"
  "bigw r n v \<Longrightarrow> wsval (bi_sign r) v"
  by (simp_all add: bigw_def big_def)

lemma bigw_bound: "bigw r n v \<Longrightarrow> \<bar>v\<bar> < 2 ^ (32 * n)"
  using bnat_bound [of "bi_abs r"] by (auto simp: bigw_def big_def nat_less_iff)

lemma wsval_0: "sval s u \<Longrightarrow> wsval s 0"
  by (auto simp: wsval_def)

lemma wsval_mult: "wsval s v \<Longrightarrow> wsval t w \<Longrightarrow> wsval (b_mul s t) (v * w)"
  unfolding wsval_def
proof (elim exE conjE)
  fix u u' assume "sval s u" "v \<noteq> 0 \<longrightarrow> sgn u = sgn v" "sval t u'" "w \<noteq> 0 \<longrightarrow> sgn u' = sgn w"
  then show "\<exists>u. sval (b_mul s t) u \<and> (v * w \<noteq> 0 \<longrightarrow> sgn u = sgn (v * w))"
    by (intro exI [of _ "u * u'"]) (simp add: sval_mult sgn_mult)
qed

lemma wsval_neg: "wsval s v \<Longrightarrow> wsval (b_neg s) (- v)" "wsval s v \<Longrightarrow> wsval (b_mul (Const (- 1)) s) (- v)"
proof -
  assume "wsval s v"
  then obtain u where "sval s u" "v \<noteq> 0 \<longrightarrow> sgn u = sgn v" by (auto simp: wsval_def)
  then have "sval (b_neg s) (- u)" "sval (b_mul (Const (- 1)) s) (- u)" "- v \<noteq> 0 \<longrightarrow> sgn (- u) = sgn (- v)"
    by (simp_all only: sval_simps minus_minus sgn_minus) auto
  then show "wsval (b_neg s) (- v)" "wsval (b_mul (Const (- 1)) s) (- v)" by (auto simp only: wsval_def)
qed

lemma wsval_select: "bval c e \<Longrightarrow> wsval s v \<Longrightarrow> wsval t w \<Longrightarrow> wsval (select c s t) (if e then v else w)"
  by (cases e) (auto simp: wsval_def sval_def tval_select)

lemma bigw_neg: "bigw a n v \<Longrightarrow> bigw \<lparr>bi_abs = bi_abs a, bi_sign = b_neg (bi_sign a)\<rparr> n (- v)"
  "bigw a n v \<Longrightarrow> bigw \<lparr>bi_abs = bi_abs a, bi_sign = b_mul (Const (- 1)) (bi_sign a)\<rparr> n (- v)"
  by (simp_all add: bigw_def wsval_neg)

lemma bigw_select:
  assumes "bval c e" "bigw a n v" "bigw b m w"
  shows "bigw (select_bigint c a b) (max n m) (if e then v else w)"
proof -
  have "big (select_biguint c (bi_abs a) (bi_abs b)) (max n m) (if e then nat \<bar>v\<bar> else nat \<bar>w\<bar>)"
    using select_biguint_big [OF assms(1) bigwD(1) [OF assms(2)] bigwD(1) [OF assms(3)]]
      bigwD(2,3) [OF assms(2)] bigwD(2,3) [OF assms(3)] by (cases e) simp_all
  then show ?thesis
    using wsval_select [OF assms(1) bigwD(4) [OF assms(2)] bigwD(4) [OF assms(3)]]
    by (cases e) (simp_all add: bigw_def select_bigint_def)
qed

lemma bigw_mul_by_bool:
  assumes "bval c e" "bigw a n v"
  shows "bigw (mul_bigint_by_bool a c) n (if e then v else 0)"
proof -
  have "big (mul_biguint_by_bool (bi_abs a) c) n (if e then nat \<bar>v\<bar> else 0)"
    using mul_biguint_by_bool_big [OF assms(1) bigwD(1) [OF assms(2)]] unfolding bigwD(2,3) [OF assms(2)] .
  moreover have "wsval (b_mul (bi_sign a) c) (if e then v else 0)"
  proof -
    have "sval c (of_bool e)" using assms(1) by (cases e) (simp_all add: sval_def bval_def)
    from wsval_mult [OF bigwD(4) [OF assms(2)] sval_wsval [OF this]] show ?thesis by (cases e) simp_all
  qed
  ultimately show ?thesis by (cases e) (simp_all add: bigw_def mul_bigint_by_bool_def)
qed

text \<open>A magnitude and a sign from different places.\<close>

lemma bigw_parts:
  assumes "big m n k" "sval s u" "u = 0 \<longrightarrow> k = 0"
  shows "bigw \<lparr>bi_abs = m, bi_sign = s\<rparr> n (sgn u * int k)"
proof -
  have "nat \<bar>sgn u * int k\<bar> = k" using assms(3) by (cases "u = 0") (simp_all add: abs_mult abs_sgn_eq)
  moreover have "wsval s (sgn u * int k)" using assms(2) by (auto simp: wsval_def sgn_mult)
  ultimately show ?thesis using assms(1) by (simp add: bigw_def)
qed

section \<open>Arithmetic\<close>

text \<open>\<open>abs_diff\<close> and \<open>abs_sum\<close> only read the magnitudes.\<close>

lemma implements_abs_diff_weak:
  assumes "bigw a n v" "bigw b m w"
  shows "implements (abs_diff a b) (\<lambda>r. bigz r (max n m) (\<bar>v\<bar> - \<bar>w\<bar>))"
proof -
  let ?a = "\<lparr>bi_abs = bi_abs a, bi_sign = Wire (of_int (sgn v))\<rparr>" and ?b = "\<lparr>bi_abs = bi_abs b, bi_sign = Wire (of_int (sgn w))\<rparr>"
  have "bigz ?a n v" "bigz ?b m w" using assms by (simp_all add: bigz_def bigw_def sval_def)
  moreover have "abs_diff a b = abs_diff ?a ?b" by (simp add: abs_diff_def)
  ultimately show ?thesis using implements_abs_diff by (simp only:)
qed

text \<open>The sign computed for operands of different signs.\<close>

lemma sgn_combine: "of_int (sgn u) - (1 - of_int (sgn u) * of_int (sgn u)) * of_int (sgn u') =
    (of_int (sgn (if u = 0 then - u' else u)) :: gf)"
  by (auto simp: sgn_if)

lemma weak_difference:
  fixes v w u u' :: int
  assumes v: "v = sgn u * \<bar>v\<bar>" and w: "w = sgn u' * \<bar>w\<bar>"
  shows "sgn u = sgn u' \<Longrightarrow> v - w = sgn u * (\<bar>v\<bar> - \<bar>w\<bar>)"
    and "sgn u \<noteq> sgn u' \<Longrightarrow> v - w = sgn (if u = 0 then - u' else u) * (\<bar>v\<bar> + \<bar>w\<bar>)"
proof -
  have signless: "\<bar>x\<bar> = 0" if "x = sgn z * \<bar>x\<bar>" "z = 0" for x z :: int
  proof -
    have "sgn z = 0" using that(2) by simp
    then have "x = 0 * \<bar>x\<bar>" using that(1) by metis
    then show ?thesis by (simp only: mult_zero_left abs_zero)
  qed
  note zero = signless [OF v] signless [OF w]
  have "sgn u * x - sgn u' * y = sgn u * (x - y)" if "sgn u = sgn u'" for x y :: int
    using that by (simp add: algebra_simps)
  then show "sgn u = sgn u' \<Longrightarrow> v - w = sgn u * (\<bar>v\<bar> - \<bar>w\<bar>)" using v w by metis
  have "sgn u * x - sgn u' * y = sgn (if u = 0 then - u' else u) * (x + y)"
    if "sgn u \<noteq> sgn u'" "u = 0 \<Longrightarrow> x = 0" "u' = 0 \<Longrightarrow> y = 0" for x y :: int
    using that by (auto simp: sgn_if algebra_simps split: if_splits)
  from this [OF _ zero] show "sgn u \<noteq> sgn u' \<Longrightarrow> v - w = sgn (if u = 0 then - u' else u) * (\<bar>v\<bar> + \<bar>w\<bar>)" using v w by metis
qed

lemma realises_sub_bigint_weak:
  assumes a: "bigw a n v" and b: "bigw b m w"
  shows "realises (sub_bigint_non_carry a b k) (k \<le> Suc (max n m) \<and> \<bar>v - w\<bar> < 2 ^ (32 * k)) (\<lambda>r. bigw r k (v - w))"
  unfolding sub_bigint_non_carry_def
proof (rule realises_after [OF implements_abs_diff_weak [OF a b]], unfold abs_sum_def,
    rule realises_after [OF implements_add_biguint [OF bigwD(1) bigwD(1), OF a b]], rule realises_after [OF implements_is_equal])
  obtain u u' where u: "sval (bi_sign a) u" "v = sgn u * \<bar>v\<bar>" and u': "sval (bi_sign b) u'" "w = sgn u' * \<bar>w\<bar>"
    using wsvalE [OF bigwD(4) [OF a]] wsvalE [OF bigwD(4) [OF b]] by metis
  fix d s c
  assume d: "bigz d (max n m) (\<bar>v\<bar> - \<bar>w\<bar>)"
    and s: "big s (Suc (max (length (bi_abs a)) (length (bi_abs b)))) (bnat (bi_abs a) + bnat (bi_abs b))"
    and c: "bval c (tval (bi_sign a) = tval (bi_sign b))"
  have c: "bval c (sgn u = sgn u')" using c by (simp only: sval_sgn_iff [OF u(1) u'(1)])
  let ?osign = "arithmetic (- 1) 1 (arithmetic (- 1) 1 (bi_sign a) (bi_sign a) (Const 1)) (bi_sign b) (bi_sign a)"
  let ?same = "\<lparr>bi_abs = bi_abs d, bi_sign = b_mul (bi_sign a) (bi_sign d)\<rparr>" and ?opp = "\<lparr>bi_abs = s, bi_sign = ?osign\<rparr>"
  let ?r = "select_bigint c ?same ?opp"
  have len: "length (bi_abs d) = max n m" "length s = Suc (max n m)" "limbs_ok (bi_abs d)" "limbs_ok s"
    using bigzD [OF d] s bigwD(2) [OF a] bigwD(2) [OF b] by (simp_all add: big_def)
  have r: "bigw ?r (Suc (max n m)) (v - w)"
  proof (cases "sgn u = sgn u'")
    case True
    note diff = weak_difference(1) [OF u(2) u'(2) True]
    have "wsval (b_mul (bi_sign a) (bi_sign d)) (v - w)"
    proof (rule wsvalI [OF sval_mult [OF u(1) bigzD(4) [OF d]]])
      show "v - w = sgn (u * (\<bar>v\<bar> - \<bar>w\<bar>)) * \<bar>v - w\<bar>"
        unfolding diff sgn_mult abs_mult by (auto simp: sgn_if)
    qed
    moreover have "bnat (bi_abs d) = nat \<bar>v - w\<bar>"
      unfolding bigzD(3) [OF d] diff abs_mult using u(2) u'(2) True by (cases "u = 0") (auto simp: abs_sgn_eq)
    moreover have "bval c True" using c True by simp
    ultimately show ?thesis
      using select_biguint_big [OF \<open>bval c True\<close> len(3,4)] len tval_select [OF \<open>bval c True\<close>]
      by (simp add: bigw_def big_def select_bigint_def wsval_def sval_def)
  next
    case False
    note diff = weak_difference(2) [OF u(2) u'(2) False]
    have "- 1 * (- 1 * x * x + 1 * 1) * y + 1 * x = x - (1 - x * x) * y" for x y :: gf by (simp add: algebra_simps)
    then have "tval ?osign = of_int (sgn (if u = 0 then - u' else u))"
      using u(1) u'(1) by (simp only: tval_simps tval.simps sval_def sgn_combine)
    then have sv: "sval ?osign (if u = 0 then - u' else u)" by (simp only: sval_def)
    have "wsval ?osign (v - w)"
      by (rule wsvalI [OF sv]) (use False in \<open>auto simp: diff abs_mult abs_sgn_eq\<close>)
    moreover have "bnat s = nat \<bar>v - w\<bar>"
    proof -
      have "\<bar>v - w\<bar> = \<bar>v\<bar> + \<bar>w\<bar>" unfolding diff abs_mult using False by (auto simp: abs_sgn_eq)
      then show ?thesis using s by (simp add: big_def bigwD(3) [OF a] bigwD(3) [OF b] nat_add_distrib)
    qed
    moreover have "bval c False" using c False by simp
    ultimately show ?thesis
      using select_biguint_big [OF \<open>bval c False\<close> len(3,4)] len tval_select [OF \<open>bval c False\<close>]
      by (simp add: bigw_def big_def select_bigint_def wsval_def sval_def)
  qed
  have fits: "k \<le> Suc (max n m) \<and> \<bar>v - w\<bar> < 2 ^ (32 * k) \<longleftrightarrow> k \<le> length (bi_abs ?r) \<and> bnat (bi_abs ?r) < 2 ^ (32 * k)"
    unfolding bigwD(2,3) [OF r] nat_abs_simps(5) ..
  show "realises (let a_sign = bi_sign a; b_sign = bi_sign b;
        result_if_same_sign = \<lparr>bi_abs = bi_abs d, bi_sign = b_mul a_sign (bi_sign d)\<rparr>;
        one_minus_a_sign_sqr = arithmetic (- 1) 1 a_sign a_sign (Const 1);
        sign = arithmetic (- 1) 1 one_minus_a_sign_sqr b_sign a_sign;
        result_if_opposite_sign = \<lparr>bi_abs = s, bi_sign = sign\<rparr>;
        result = select_bigint c result_if_same_sign result_if_opposite_sign in
    circ_bind (trim_biguint (bi_abs result) k) (\<lambda>abs. circ_return \<lparr>bi_abs = abs, bi_sign = bi_sign result\<rparr>))
    (k \<le> Suc (max n m) \<and> \<bar>v - w\<bar> < 2 ^ (32 * k)) (\<lambda>r. bigw r k (v - w))"
    unfolding Let_def fits
  proof (rule realises_then_return [OF realises_trim_biguint [OF bigwD(1) [OF r]]])
    fix x assume "big x k (bnat (bi_abs ?r))"
    then show "bigw \<lparr>bi_abs = x, bi_sign = bi_sign ?r\<rparr> k (v - w)" using bigwD(3,4) [OF r] by (simp add: bigw_def)
  qed
qed

lemma realises_add_bigint_weak:
  assumes "bigw a n v" "bigw b m w"
  shows "realises (add_bigint_non_carry a b k) (k \<le> Suc (max n m) \<and> \<bar>v + w\<bar> < 2 ^ (32 * k)) (\<lambda>r. bigw r k (v + w))"
  using realises_sub_bigint_weak [OF assms(1) bigw_neg(2) [OF assms(2)]] by (simp add: add_bigint_non_carry_def Let_def)

lemma realises_mul_bigint_weak:
  assumes a: "bigw a n v" and b: "limbs_ok b" and small: "min n (length b) \<le> 8"
  shows "realises (mul_bigint_with_biguint_non_carry a b k) (max n (length b) \<le> k \<and> \<bar>v * int (bnat b)\<bar> < 2 ^ (32 * k))
    (\<lambda>r. bigw r (min k (n + length b)) (v * int (bnat b)))"
proof -
  have val: "nat \<bar>v * int (bnat b)\<bar> = nat \<bar>v\<bar> * bnat b" by (simp add: abs_mult nat_mult_distrib)
  show ?thesis
    unfolding mul_bigint_with_biguint_non_carry_def nat_abs_simps(5) [symmetric] val
  proof (rule realises_bind [where P' = True, simplified])
    show "realises (mul_biguint_non_carry (bi_abs a) b k) (max n (length b) \<le> k \<and> nat \<bar>v\<bar> * bnat b < 2 ^ (32 * k))
        (\<lambda>r. big r (min k (n + length b)) (nat \<bar>v\<bar> * bnat b))"
      using realises_mul_biguint_non_carry [OF bigwD(1) [OF a] b, of k] small by (simp only: bigwD(2,3) [OF a])
    fix m assume m: "big m (min k (n + length b)) (nat \<bar>v\<bar> * bnat b)"
    show "realises (circ_bind (is_zero_biguint b) (\<lambda>z. circ_return \<lparr>bi_abs = m, bi_sign = select z (Const 0) (bi_sign a)\<rparr>)) True
        (\<lambda>r. bigw r (min k (n + length b)) (v * int (bnat b)))"
    proof (rule realises_after [OF implements_is_zero_biguint], rule realises_return)
      fix z assume "bval z (bnat b = 0)"
      from wsval_select [OF this sval_wsval [OF sval_Const(1)] bigwD(4) [OF a]]
      have "wsval (select z (Const 0) (bi_sign a)) (v * int (bnat b))"
        by (auto simp: wsval_def sgn_mult split: if_splits)
      with m show "bigw \<lparr>bi_abs = m, bi_sign = select z (Const 0) (bi_sign a)\<rparr> (min k (n + length b)) (v * int (bnat b))"
        by (simp add: bigw_def val)
    qed
  qed
qed

section \<open>Soundness of the steps of a settlement\<close>

text \<open>
  What an accepted run says about its results, in the form the proofs over long sequences of steps use:
  every step is a rule that turns the representation of its operands into the one of its result.
\<close>

named_theorems settle

lemma settle_sub [settle]: "bigw a n v \<Longrightarrow> bigw b m w \<Longrightarrow> sound (sub_bigint_non_carry a b k) (\<lambda>r. bigw r k (v - w))"
  by (rule sound_weaken [OF realises_sound [OF realises_sub_bigint_weak]], assumption+) (elim conjE, assumption)

lemma settle_add [settle]: "bigw a n v \<Longrightarrow> bigw b m w \<Longrightarrow> sound (add_bigint_non_carry a b k) (\<lambda>r. bigw r k (v + w))"
  by (rule sound_weaken [OF realises_sound [OF realises_add_bigint_weak]], assumption+) (elim conjE, assumption)

lemma settle_mul [settle]:
  assumes "bigw a n v" "limbs_ok b" "min n (length b) \<le> 8" "k \<le> n + length b"
  shows "sound (mul_bigint_with_biguint_non_carry a b k) (\<lambda>r. bigw r k (v * int (bnat b)))"
  by (rule sound_weaken [OF realises_sound [OF realises_mul_bigint_weak [OF assms(1-3), of k]]], elim conjE)
    (simp only: min_absorb1 [OF assms(4)])

end
