(* ===== verification/Circuit_Loops.thy ===== *)
theory Circuit_Loops
  imports Circuit
begin

text \<open>
  Loops of the circuit builder that thread a state, and circuits that run as machines. A Rust loop
  \<open>for x in xs { s = body(x, s) }\<close> is \<open>circ_fold\<close>; its contracts are proved with an invariant indexed by
  the iteration. The locale \<open>circuit_machine\<close> is the interface of a component whose operations refine the
  transitions of an abstract machine; its runs then refine the runs of that machine.
\<close>

primrec circ_fold :: "('x \<Rightarrow> 's \<Rightarrow> 's circ) \<Rightarrow> 'x list \<Rightarrow> 's \<Rightarrow> 's circ" where
  "circ_fold f [] s = circ_return s"
| "circ_fold f (x # xs) s = circ_bind (f x s) (circ_fold f xs)"

lemma circ_fold_append: "circ_fold f (xs @ ys) s = circ_bind (circ_fold f xs s) (circ_fold f ys)"
proof (induction xs arbitrary: s)
  case (Cons x xs)
  have "circ_fold f (xs @ ys) = (\<lambda>t. circ_bind (circ_fold f xs t) (circ_fold f ys))" by (rule ext) (rule Cons.IH)
  then show ?case by (simp add: circ_bind_assoc)
qed (simp add: circ_return_bind)

lemma implements_fold:
  assumes "I 0 s" "\<And>i s. i < length xs \<Longrightarrow> I i s \<Longrightarrow> implements (f (xs ! i) s) (I (Suc i))"
  shows "implements (circ_fold f xs s) (I (length xs))"
  using assms
proof (induction xs arbitrary: I s)
  case (Cons x xs)
  have "implements (f x s) (I (Suc 0))" using Cons.prems(2) [of 0 s] Cons.prems(1) by simp
  then show ?case
    unfolding circ_fold.simps
  proof (rule implements_bind)
    fix t assume "I (Suc 0) t"
    from Cons.IH [of "\<lambda>i. I (Suc i)", OF this] Cons.prems(2) [of "Suc i" for i]
    show "implements (circ_fold f xs t) (I (length (x # xs)))" by simp
  qed
qed (simp add: implements_return)

lemma sound_fold:
  assumes "I 0 s" "\<And>i s. i < length xs \<Longrightarrow> I i s \<Longrightarrow> sound (f (xs ! i) s) (I (Suc i))"
  shows "sound (circ_fold f xs s) (I (length xs))"
  using assms
proof (induction xs arbitrary: I s)
  case (Cons x xs)
  have "sound (f x s) (I (Suc 0))" using Cons.prems(2) [of 0 s] Cons.prems(1) by simp
  then show ?case
    unfolding circ_fold.simps
  proof (rule sound_bind)
    fix t assume "I (Suc 0) t"
    from Cons.IH [of "\<lambda>i. I (Suc i)", OF this] Cons.prems(2) [of "Suc i" for i]
    show "sound (circ_fold f xs t) (I (length (x # xs)))" by simp
  qed
qed (simp add: sound_return)

text \<open>The invariant of a loop may also be a function of the state before it.\<close>

lemma implements_fold_view:
  assumes "\<And>x s. x \<in> set xs \<Longrightarrow> ok s \<Longrightarrow> implements (f x s) (\<lambda>t. ok t \<and> view t = g x (view s))" "ok s"
  shows "implements (circ_fold f xs s) (\<lambda>t. ok t \<and> view t = fold g xs (view s))"
  using assms
proof (induction xs arbitrary: s)
  case (Cons x xs)
  have "implements (f x s) (\<lambda>t. ok t \<and> view t = g x (view s))" using Cons.prems by simp
  then show ?case
    unfolding circ_fold.simps
  proof (rule implements_bind, elim conjE)
    fix t assume t: "ok t" "view t = g x (view s)"
    have "implements (circ_fold f xs t) (\<lambda>u. ok u \<and> view u = fold g xs (view t))"
      by (rule Cons.IH [OF _ t(1)]) (use Cons.prems(1) in simp)
    then show "implements (circ_fold f xs t) (\<lambda>u. ok u \<and> view u = fold g (x # xs) (view s))" by (simp add: t(2))
  qed
qed (simp add: implements_return)

section \<open>Machines\<close>

text \<open>
  \<open>step e s\<close> is the circuit of operation \<open>e\<close> on the state \<open>s\<close>, \<open>astep e a\<close> the transition of the abstract
  machine, which is undefined where the circuit must be unsatisfiable; \<open>ok e a\<close> is what the caller has to
  guarantee.
\<close>

primrec machine_run :: "('e \<Rightarrow> 'a \<Rightarrow> 'a option) \<Rightarrow> 'e list \<Rightarrow> 'a \<Rightarrow> 'a option" where
  "machine_run astep [] a = Some a"
| "machine_run astep (e # es) a = (case astep e a of None \<Rightarrow> None | Some b \<Rightarrow> machine_run astep es b)"

primrec run_ok :: "('e \<Rightarrow> 'a \<Rightarrow> 'a option) \<Rightarrow> ('e \<Rightarrow> 'a \<Rightarrow> bool) \<Rightarrow> 'e list \<Rightarrow> 'a \<Rightarrow> bool" where
  "run_ok astep ok [] a = True"
| "run_ok astep ok (e # es) a = (ok e a \<and> (case astep e a of None \<Rightarrow> True | Some b \<Rightarrow> run_ok astep ok es b))"

locale circuit_machine =
  fixes step :: "'e \<Rightarrow> 's \<Rightarrow> 's circ"
    and astep :: "'e \<Rightarrow> 'a \<Rightarrow> 'a option"
    and ok :: "'e \<Rightarrow> 'a \<Rightarrow> bool"
    and repr :: "'s \<Rightarrow> 'a \<Rightarrow> bool"
  assumes refines: "repr s a \<Longrightarrow> ok e a \<Longrightarrow>
    realises (step e s) (astep e a \<noteq> None) (\<lambda>t. \<exists>b. astep e a = Some b \<and> repr t b)"
begin

lemma run_refines:
  "repr s a \<Longrightarrow> run_ok astep ok es a \<Longrightarrow>
    realises (circ_fold step es s) (machine_run astep es a \<noteq> None) (\<lambda>t. \<exists>b. machine_run astep es a = Some b \<and> repr t b)"
proof (induction es arbitrary: s a)
  case Nil
  then show ?case by (simp add: realises_return)
next
  case (Cons e es)
  from Cons.prems have step: "realises (step e s) (astep e a \<noteq> None) (\<lambda>t. \<exists>b. astep e a = Some b \<and> repr t b)"
    by (intro refines) simp_all
  show ?case
  proof (cases "astep e a")
    case None
    from realises_unsatisfiable [OF step] have "unsatisfiable (step e s)" by (simp add: None)
    then have "unsatisfiable (circ_fold step (e # es) s)"
      unfolding sound_False_iff circ_fold.simps by (rule sound_bind) simp
    then show ?thesis by (simp add: realises_def None)
  next
    case (Some b)
    from realises_implements [OF step] have next_state: "implements (step e s) (\<lambda>t. repr t b)" by (simp add: Some)
    have "run_ok astep ok es b" using Cons.prems(2) by (simp add: Some)
    then show ?thesis
      unfolding circ_fold.simps machine_run.simps Some option.case by (intro realises_after [OF next_state] Cons.IH)
  qed
qed

end

end
