(* ===== verification/Base_Register.thy ===== *)
theory Base_Register
  imports Builder Circuit_Loops
begin

text \<open>
  The register of an instruction in progress (\<open>types/register/base_register_info.rs\<close>). An order that is being
  executed over several transactions, and everything it still has to trigger or cancel, is kept in records
  of 23 field elements; the record of zeros means that nothing is pending. \<open>register_values\<close> is the abstract
  instruction: the canonical values of the fields.
\<close>

section \<open>Registers\<close>

definition BASE_REGISTER_INFO_SIZE :: nat where "BASE_REGISTER_INFO_SIZE = 23"

record base_register_info =
  instruction_type :: target
  reg_market_index :: target
  reg_account_index :: target
  pending_size :: target
  pending_order_index :: target
  pending_client_order_index :: target
  pending_initial_size :: target
  pending_price :: target
  pending_nonce :: target
  pending_is_ask :: target
  pending_type :: target
  pending_time_in_force :: target
  pending_reduce_only :: target
  pending_expiry :: target
  generic_field_0 :: target
  pending_trigger_price :: target
  pending_trigger_status :: target
  pending_to_trigger_order_index0 :: target
  pending_to_trigger_order_index1 :: target
  pending_to_cancel_order_index0 :: target
  generic_field_1 :: target
  generic_field_2 :: target
  generic_field_3 :: target

text \<open>\<open>get_hash_parameters\<close>: the fields in the order in which they are hashed.\<close>

definition get_hash_parameters :: "base_register_info \<Rightarrow> target list" where
  "get_hash_parameters r =
    [instruction_type r, reg_market_index r, reg_account_index r, pending_size r, pending_order_index r,
     pending_client_order_index r, pending_initial_size r, pending_price r, pending_nonce r, pending_is_ask r,
     pending_type r, pending_time_in_force r, pending_reduce_only r, pending_expiry r, generic_field_0 r,
     pending_trigger_price r, pending_trigger_status r, pending_to_trigger_order_index0 r,
     pending_to_trigger_order_index1 r, pending_to_cancel_order_index0 r, generic_field_1 r, generic_field_2 r,
     generic_field_3 r]"

definition from_vec :: "target list \<Rightarrow> base_register_info circ" where
  "from_vec pis =
    circ_bind (circ_panic_unless (length pis = BASE_REGISTER_INFO_SIZE)) (\<lambda>_. circ_return
    \<lparr>instruction_type = pis ! 0, reg_market_index = pis ! 1, reg_account_index = pis ! 2, pending_size = pis ! 3,
     pending_order_index = pis ! 4, pending_client_order_index = pis ! 5, pending_initial_size = pis ! 6,
     pending_price = pis ! 7, pending_nonce = pis ! 8, pending_is_ask = pis ! 9, pending_type = pis ! 10,
     pending_time_in_force = pis ! 11, pending_reduce_only = pis ! 12, pending_expiry = pis ! 13,
     generic_field_0 = pis ! 14, pending_trigger_price = pis ! 15, pending_trigger_status = pis ! 16,
     pending_to_trigger_order_index0 = pis ! 17, pending_to_trigger_order_index1 = pis ! 18,
     pending_to_cancel_order_index0 = pis ! 19, generic_field_1 = pis ! 20, generic_field_2 = pis ! 21,
     generic_field_3 = pis ! 22\<rparr>)"

definition empty_register :: base_register_info where
  "empty_register =
    \<lparr>instruction_type = Const 0, reg_market_index = Const 0, reg_account_index = Const 0, pending_size = Const 0,
     pending_order_index = Const 0, pending_client_order_index = Const 0, pending_initial_size = Const 0,
     pending_price = Const 0, pending_nonce = Const 0, pending_is_ask = Const 0, pending_type = Const 0,
     pending_time_in_force = Const 0, pending_reduce_only = Const 0, pending_expiry = Const 0,
     generic_field_0 = Const 0, pending_trigger_price = Const 0, pending_trigger_status = Const 0,
     pending_to_trigger_order_index0 = Const 0, pending_to_trigger_order_index1 = Const 0,
     pending_to_cancel_order_index0 = Const 0, generic_field_1 = Const 0, generic_field_2 = Const 0,
     generic_field_3 = Const 0\<rparr>"

definition select_register_target :: "target \<Rightarrow> base_register_info \<Rightarrow> base_register_info \<Rightarrow> base_register_info" where
  "select_register_target is_enabled a b =
    \<lparr>instruction_type = select is_enabled (instruction_type a) (instruction_type b),
     reg_market_index = select is_enabled (reg_market_index a) (reg_market_index b),
     reg_account_index = select is_enabled (reg_account_index a) (reg_account_index b),
     pending_size = select is_enabled (pending_size a) (pending_size b),
     pending_order_index = select is_enabled (pending_order_index a) (pending_order_index b),
     pending_client_order_index = select is_enabled (pending_client_order_index a) (pending_client_order_index b),
     pending_initial_size = select is_enabled (pending_initial_size a) (pending_initial_size b),
     pending_price = select is_enabled (pending_price a) (pending_price b),
     pending_nonce = select is_enabled (pending_nonce a) (pending_nonce b),
     pending_is_ask = select_bool is_enabled (pending_is_ask a) (pending_is_ask b),
     pending_type = select is_enabled (pending_type a) (pending_type b),
     pending_time_in_force = select is_enabled (pending_time_in_force a) (pending_time_in_force b),
     pending_reduce_only = select is_enabled (pending_reduce_only a) (pending_reduce_only b),
     pending_expiry = select is_enabled (pending_expiry a) (pending_expiry b),
     generic_field_0 = select is_enabled (generic_field_0 a) (generic_field_0 b),
     pending_trigger_price = select is_enabled (pending_trigger_price a) (pending_trigger_price b),
     pending_trigger_status = select is_enabled (pending_trigger_status a) (pending_trigger_status b),
     pending_to_trigger_order_index0 = select is_enabled (pending_to_trigger_order_index0 a) (pending_to_trigger_order_index0 b),
     pending_to_trigger_order_index1 = select is_enabled (pending_to_trigger_order_index1 a) (pending_to_trigger_order_index1 b),
     pending_to_cancel_order_index0 = select is_enabled (pending_to_cancel_order_index0 a) (pending_to_cancel_order_index0 b),
     generic_field_1 = select is_enabled (generic_field_1 a) (generic_field_1 b),
     generic_field_2 = select is_enabled (generic_field_2 a) (generic_field_2 b),
     generic_field_3 = select is_enabled (generic_field_3 a) (generic_field_3 b)\<rparr>"

definition register_is_equal :: "base_register_info \<Rightarrow> base_register_info \<Rightarrow> target circ" where
  "register_is_equal a b =
    circ_bind (circ_map (\<lambda>(x, y). is_equal x y)
      [(instruction_type a, instruction_type b), (reg_market_index a, reg_market_index b),
       (reg_account_index a, reg_account_index b), (pending_size a, pending_size b),
       (pending_order_index a, pending_order_index b), (pending_client_order_index a, pending_client_order_index b),
       (pending_initial_size a, pending_initial_size b), (pending_price a, pending_price b),
       (pending_nonce a, pending_nonce b), (pending_is_ask a, pending_is_ask b), (pending_type a, pending_type b),
       (pending_time_in_force a, pending_time_in_force b), (pending_reduce_only a, pending_reduce_only b),
       (pending_expiry a, pending_expiry b), (generic_field_0 a, generic_field_0 b),
       (pending_trigger_price a, pending_trigger_price b), (pending_trigger_status a, pending_trigger_status b),
       (pending_to_trigger_order_index0 a, pending_to_trigger_order_index0 b),
       (pending_to_trigger_order_index1 a, pending_to_trigger_order_index1 b),
       (pending_to_cancel_order_index0 a, pending_to_cancel_order_index0 b), (generic_field_1 a, generic_field_1 b),
       (generic_field_2 a, generic_field_2 b), (generic_field_3 a, generic_field_3 b)])
    (\<lambda>assertions. circ_return (multi_and assertions))"

definition connect_register :: "base_register_info \<Rightarrow> base_register_info \<Rightarrow> unit circ" where
  "connect_register a b =
    circ_for
      [(instruction_type a, instruction_type b), (reg_market_index a, reg_market_index b),
       (reg_account_index a, reg_account_index b), (pending_size a, pending_size b),
       (pending_order_index a, pending_order_index b), (pending_client_order_index a, pending_client_order_index b),
       (pending_initial_size a, pending_initial_size b), (pending_price a, pending_price b),
       (pending_nonce a, pending_nonce b), (pending_is_ask a, pending_is_ask b), (pending_type a, pending_type b),
       (pending_time_in_force a, pending_time_in_force b), (pending_reduce_only a, pending_reduce_only b),
       (pending_expiry a, pending_expiry b), (generic_field_0 a, generic_field_0 b),
       (pending_trigger_price a, pending_trigger_price b), (pending_trigger_status a, pending_trigger_status b),
       (pending_to_trigger_order_index0 a, pending_to_trigger_order_index0 b),
       (pending_to_trigger_order_index1 a, pending_to_trigger_order_index1 b),
       (pending_to_cancel_order_index0 a, pending_to_cancel_order_index0 b), (generic_field_1 a, generic_field_1 b),
       (generic_field_2 a, generic_field_2 b), (generic_field_3 a, generic_field_3 b)]
      (\<lambda>(x, y). connect x y)"

definition register_is_empty :: "base_register_info \<Rightarrow> target circ" where
  "register_is_empty r =
    (let added = b_add_many
      [instruction_type r, reg_market_index r, reg_account_index r, pending_size r, pending_client_order_index r,
       pending_initial_size r, pending_price r, pending_nonce r, pending_is_ask r, pending_type r,
       pending_time_in_force r, pending_reduce_only r, pending_expiry r, pending_trigger_price r,
       pending_trigger_status r, generic_field_2 r, generic_field_3 r] in
     circ_bind (circ_map is_zero
      [added, pending_order_index r, pending_to_trigger_order_index0 r, pending_to_trigger_order_index1 r,
       pending_to_cancel_order_index0 r, generic_field_0 r, generic_field_1 r])
     (\<lambda>assertions. circ_return (multi_and assertions)))"


section \<open>Instructions\<close>

definition register_values :: "base_register_info \<Rightarrow> nat list" where
  "register_values r = map uval (get_hash_parameters r)"

definition empty_instruction :: "nat list" where
  "empty_instruction = replicate BASE_REGISTER_INFO_SIZE 0"

text \<open>The sizes business logic guarantees; an order index and the generic fields may be any field element.\<close>

definition register_bits :: "nat list" where
  "register_bits = [8, 16, 48, 48, 64, 48, 48, 32, 48, 1, 8, 8, 8, 48, 64, 32, 2, 64, 64, 64, 64, 32, 32]"

definition valid_instruction :: "nat list \<Rightarrow> bool" where
  "valid_instruction vs \<longleftrightarrow> list_all2 (\<lambda>v bits. v < 2 ^ bits) vs register_bits"

lemma register_values_empty [simp]: "register_values empty_register = empty_instruction"
  by (simp add: register_values_def get_hash_parameters_def empty_register_def empty_instruction_def
      BASE_REGISTER_INFO_SIZE_def numeral_eq_Suc)

lemma valid_empty_instruction [simp]: "valid_instruction empty_instruction"
  by (simp add: valid_instruction_def empty_instruction_def register_bits_def BASE_REGISTER_INFO_SIZE_def numeral_eq_Suc)

lemma length_register_values [simp]: "length (register_values r) = BASE_REGISTER_INFO_SIZE"
  by (simp add: register_values_def get_hash_parameters_def BASE_REGISTER_INFO_SIZE_def)

lemma register_values_select:
  assumes "bval c e"
  shows "register_values (select_register_target c a b) = (if e then register_values a else register_values b)"
  using tval_select [OF assms] by (simp add: register_values_def get_hash_parameters_def select_register_target_def select_bool_def)

lemma from_vec_hash_parameters:
  "implements (from_vec (get_hash_parameters r)) (\<lambda>s. s = r)"
proof -
  have "length (get_hash_parameters r) = BASE_REGISTER_INFO_SIZE"
    by (simp add: get_hash_parameters_def BASE_REGISTER_INFO_SIZE_def)
  then show ?thesis
    unfolding from_vec_def
    by (intro implements_bind [OF implements_panic] implements_return) (simp_all add: get_hash_parameters_def)
qed

lemma implements_register_is_equal:
  "implements (register_is_equal a b) (\<lambda>r. bval r (register_values a = register_values b))"
proof -
  have test: "implements ((\<lambda>(x, y). is_equal x y) p) (\<lambda>r. bval r (uval (fst p) = uval (snd p)))" for p
    using implements_is_equal [of "fst p" "snd p"] by (simp add: split_def to_canonical_inject)
  show ?thesis
    unfolding register_is_equal_def
    by (rule implements_weaken [OF implements_all_tests [OF test]]) (simp_all add: register_values_def get_hash_parameters_def)
qed

lemma realises_connect_register:
  "realises (connect_register a b) (register_values a = register_values b) (\<lambda>_. True)"
proof -
  have "realises (circ_for ps (\<lambda>(x, y). connect x y)) (\<forall>p\<in>set ps. uval (fst p) = uval (snd p)) (\<lambda>_. True)" for ps
    by (rule realises_for) (simp add: split_def realises_connect to_canonical_inject)
  from this show ?thesis
    unfolding connect_register_def
    by (rule realises_weaken) (simp_all add: register_values_def get_hash_parameters_def)
qed

text \<open>The seventeen bounded fields are tested by their sum, which cannot wrap; the others one by one.\<close>

lemma implements_register_is_empty:
  assumes "valid_instruction (register_values r)"
  shows "implements (register_is_empty r) (\<lambda>e. bval e (register_values r = empty_instruction))"
proof -
  let ?small = "[instruction_type r, reg_market_index r, reg_account_index r, pending_size r, pending_client_order_index r,
     pending_initial_size r, pending_price r, pending_nonce r, pending_is_ask r, pending_type r, pending_time_in_force r,
     pending_reduce_only r, pending_expiry r, pending_trigger_price r, pending_trigger_status r, generic_field_2 r, generic_field_3 r]"
  have "sum_list (map uval ?small) < p_nat"
    using assms by (simp add: valid_instruction_def register_values_def get_hash_parameters_def register_bits_def)
  moreover have "tval (b_add_many ?small) = of_nat (sum_list (map uval ?small))"
    by (simp add: tval_b_add_many)
  ultimately have sum: "uval (b_add_many ?small) = sum_list (map uval ?small)"
    using to_canonical_of_nat_small by (simp only:)
  show ?thesis
    unfolding register_is_empty_def Let_def
    by (rule implements_weaken [OF implements_all_tests [OF implements_is_zero]], simp, unfold list.set ball_simps sum)
      (auto simp: register_values_def get_hash_parameters_def empty_instruction_def BASE_REGISTER_INFO_SIZE_def numeral_eq_Suc
        conj_ac simp del: to_canonical_eq_0_iff)
qed

end
