(* ===== verification/Exchange_Types.thy ===== *)
theory Exchange_Types
  imports Bigint
begin

text \<open>
  Data of the exchange (\<open>circuit/src/types\<close>): the constants the modelled parts use and the market
  state. Field names carry a prefix for their structure, since Isabelle's record fields are global.
\<close>

section \<open>Constants\<close>

definition MARKET_TYPE_PERPS :: nat where "MARKET_TYPE_PERPS = 0"
definition MARKET_TYPE_SPOT :: nat where "MARKET_TYPE_SPOT = 1"
definition ORDER_BASE_AMOUNT_BITS :: nat where "ORDER_BASE_AMOUNT_BITS = 48"
definition ORDER_PRICE_BITS :: nat where "ORDER_PRICE_BITS = 32"
definition FEE_TICK :: nat where "FEE_TICK = 1000000"
definition FEE_BITS :: nat where "FEE_BITS = 20"
definition MARGIN_FRACTION_BITS :: nat where "MARGIN_FRACTION_BITS = 16"
definition ASSET_EXTENSION_MULTIPLIER_BITS :: nat where "ASSET_EXTENSION_MULTIPLIER_BITS = 56"
definition USDC_TO_COLLATERAL_MULTIPLIER :: nat where "USDC_TO_COLLATERAL_MULTIPLIER = 1000000"
definition ONE_USDC :: nat where "ONE_USDC = 1000000"
definition MARGIN_TICK :: nat where "MARGIN_TICK = 10000"
definition MARGIN_FRACTION_MULTIPLIER :: nat where "MARGIN_FRACTION_MULTIPLIER = USDC_TO_COLLATERAL_MULTIPLIER div MARGIN_TICK"
definition ASSET_MARGIN_TICK :: nat where "ASSET_MARGIN_TICK = 10000"
definition USDC_ASSET_INDEX :: nat where "USDC_ASSET_INDEX = 3"
definition POSITION_SIZE_BITS :: nat where "POSITION_SIZE_BITS = 56"
definition ENTRY_QUOTE_BITS :: nat where "ENTRY_QUOTE_BITS = 56"
definition MAX_ORDER_BASE_AMOUNT :: nat where "MAX_ORDER_BASE_AMOUNT = 2 ^ ORDER_BASE_AMOUNT_BITS - 1"
definition QUOTE_MULTIPLIER_BITS :: nat where "QUOTE_MULTIPLIER_BITS = 14"
definition PUBLIC_POOL_ACCOUNT_TYPE :: nat where "PUBLIC_POOL_ACCOUNT_TYPE = 2"
definition INSURANCE_FUND_ACCOUNT_TYPE :: nat where "INSURANCE_FUND_ACCOUNT_TYPE = 3"
definition CROSS_MARGIN :: nat where "CROSS_MARGIN = 0"
definition ISOLATED_MARGIN :: nat where "ISOLATED_MARGIN = 1"
definition MARGIN_SET :: nat where "MARGIN_SET = 1"
definition HEALTHY :: nat where "HEALTHY = 0"
definition PRE_LIQUIDATION :: nat where "PRE_LIQUIDATION = 1"
definition PARTIAL_LIQUIDATION :: nat where "PARTIAL_LIQUIDATION = 2"
definition FULL_LIQUIDATION :: nat where "FULL_LIQUIDATION = 3"
definition BANKRUPTCY :: nat where "BANKRUPTCY = 4"

definition BIG_U64_LIMBS :: nat where "BIG_U64_LIMBS = 2"
definition BIG_U96_LIMBS :: nat where "BIG_U96_LIMBS = 3"
definition BIG_U128_LIMBS :: nat where "BIG_U128_LIMBS = 4"
definition BIGU16_U64_LIMBS :: nat where "BIGU16_U64_LIMBS = 4"

definition constant_u64 :: "nat \<Rightarrow> target" where
  "constant_u64 c = Const (of_nat c)"

definition is_equal_constant :: "target \<Rightarrow> nat \<Rightarrow> target circ" where
  "is_equal_constant x y = is_equal x (constant_u64 y)"

lemma implements_is_equal_constant:
  assumes "c < p_nat"
  shows "implements (is_equal_constant x c) (\<lambda>r. bval r (uval x = c))"
proof -
  have "tval x = of_nat c \<longleftrightarrow> uval x = c"
    using to_canonical_inject [of "tval x" "of_nat c"] assms by simp
  then show ?thesis
    using implements_is_equal [of x "Const (of_nat c)"] by (simp add: is_equal_constant_def constant_u64_def)
qed

section \<open>Markets\<close>

record market_target =
  market_index :: target
  market_status :: target
  market_type :: target
  market_base_asset_id :: target
  market_quote_asset_id :: target
  market_ask_nonce :: target
  market_bid_nonce :: target
  market_taker_fee :: target
  market_maker_fee :: target
  market_liquidation_fee :: target
  size_extension_multiplier :: target
  quote_extension_multiplier :: target
  market_total_order_count :: target
  min_base_amount :: target
  min_quote_amount :: target
  order_quote_limit :: target
  order_book_root :: "target list"
  perps_market_index :: target

end
