(* ===== verification/Register_Stack.thy ===== *)
theory Register_Stack
  imports Base_Register Exchange_Types "HOL-Library.More_List"
begin

text \<open>
  The stack of pending instructions (\<open>types/register/register_stack.rs\<close>, and the two operations of
  \<open>types/tx_state.rs\<close> that fill it). An array of nine registers holds the instructions that are still to be
  executed, the current one first, and a counter. The abstract state is a list of instructions: popping
  removes the head, pushing puts the new instructions in front of it. The array operations are loops of
  selections on prover-dependent indices; they refine the list machine as long as the base register is free
  or fewer instructions than the capacity of the call are pushed.
\<close>

section \<open>The circuit\<close>

definition PENDING_BASE_REGISTER_SIZE :: nat where "PENDING_BASE_REGISTER_SIZE = 8"
definition REGISTER_STACK_SIZE :: nat where "REGISTER_STACK_SIZE = PENDING_BASE_REGISTER_SIZE + 1"
definition NEW_INSTRUCTIONS_MAX_SIZE :: nat where "NEW_INSTRUCTIONS_MAX_SIZE = 8"

record register_stack =
  stack_registers :: "base_register_info list"
  stack_count :: target

definition empty_stack :: register_stack where
  "empty_stack = \<lparr>stack_registers = replicate REGISTER_STACK_SIZE empty_register, stack_count = Const 0\<rparr>"

definition stack_is_empty :: "register_stack \<Rightarrow> target circ" where
  "stack_is_empty s =
    circ_bind (circ_map register_is_empty (stack_registers s)) (\<lambda>assertions. circ_return (multi_and assertions))"

definition select_stack :: "target \<Rightarrow> register_stack \<Rightarrow> register_stack \<Rightarrow> register_stack" where
  "select_stack selector a b =
    \<lparr>stack_registers = map (\<lambda>i. select_register_target selector (stack_registers a ! i) (stack_registers b ! i)) [0..<REGISTER_STACK_SIZE],
     stack_count = select selector (stack_count a) (stack_count b)\<rparr>"

definition pop_front :: "target \<Rightarrow> register_stack \<Rightarrow> register_stack circ" where
  "pop_front is_enabled s =
    (let regs = fold (\<lambda>i regs. regs[i := select_register_target is_enabled (regs ! (i + 1)) (regs ! i)])
                  [0..<REGISTER_STACK_SIZE - 1] (stack_registers s);
         regs = regs[REGISTER_STACK_SIZE - 1 :=
                  select_register_target is_enabled empty_register (regs ! (REGISTER_STACK_SIZE - 1))] in
     circ_bind (conditional_assert_not_zero is_enabled (stack_count s)) (\<lambda>_.
     circ_return \<lparr>stack_registers = regs, stack_count = b_sub (stack_count s) is_enabled\<rparr>))"

text \<open>Stacking the new instructions to the left without holes: one iteration, and the loop over \<open>j\<close> in it.\<close>

definition place_instruction ::
  "nat \<Rightarrow> base_register_info \<Rightarrow> base_register_info list \<times> target \<Rightarrow> (base_register_info list \<times> target) circ" where
  "place_instruction max_new_instr new_instruction = (\<lambda>(new_stack, placed_count).
    circ_bind (circ_fold (\<lambda>j new_stack.
      circ_bind (is_equal_constant placed_count j) (\<lambda>j_eq_placed_count.
      circ_return (new_stack[j := select_register_target j_eq_placed_count new_instruction (new_stack ! j)])))
      [0..<max_new_instr] new_stack) (\<lambda>new_stack.
    circ_bind (register_is_empty new_instruction) (\<lambda>is_empty.
    let placed = b_not is_empty in
    circ_return (new_stack, b_add placed_count placed))))"

text \<open>The inner loop of the shift stops at the end of the array.\<close>

definition shift_register :: "target \<Rightarrow> target \<Rightarrow> nat \<Rightarrow> nat \<Rightarrow> base_register_info list \<Rightarrow> base_register_info list circ" where
  "shift_register is_enabled shift_amount max_new_instr i regs =
    circ_fold (\<lambda>j regs.
      circ_bind (is_equal_constant shift_amount j) (\<lambda>is_index.
      let flag = b_and is_enabled is_index in
      circ_return (regs[i + j := select_register_target flag (regs ! i) (regs ! (i + j))])))
    (takeWhile (\<lambda>j. i + j < REGISTER_STACK_SIZE) [1..<max_new_instr]) regs"

definition put_instruction ::
  "target \<Rightarrow> base_register_info list \<Rightarrow> nat \<Rightarrow> base_register_info list \<times> target \<Rightarrow> (base_register_info list \<times> target) circ" where
  "put_instruction new_instructions_count new_stack i = (\<lambda>(regs, reached).
    circ_bind (is_equal_constant new_instructions_count i) (\<lambda>is_limit_reached.
    let reached = b_or reached is_limit_reached in
    circ_return (regs[i := select_register_target reached (regs ! i) (new_stack ! i)], reached)))"

definition push_instructions :: "nat \<Rightarrow> base_register_info list \<Rightarrow> target \<Rightarrow> register_stack \<Rightarrow> register_stack circ" where
  "push_instructions max_new_instr new_instructions new_instructions_count s =
    circ_bind (circ_panic_unless (max_new_instr \<le> PENDING_BASE_REGISTER_SIZE)) (\<lambda>_.
    circ_bind (circ_fold (place_instruction max_new_instr) (take max_new_instr new_instructions)
      (replicate PENDING_BASE_REGISTER_SIZE empty_register, Const 0)) (\<lambda>(new_stack, placed_count).
    circ_bind (is_not_zero new_instructions_count) (\<lambda>is_enabled.
    circ_bind (conditional_assert_eq is_enabled new_instructions_count placed_count) (\<lambda>_.
    let count = b_add (stack_count s) new_instructions_count;
        max_count = Const (of_nat REGISTER_STACK_SIZE) in
    circ_bind (conditional_assert_lte is_enabled count max_count 8) (\<lambda>_.
    circ_bind (register_is_empty (stack_registers s ! 0)) (\<lambda>base_reg_info_is_empty.
    let shift_amount = b_sub new_instructions_count base_reg_info_is_empty in
    circ_bind (circ_fold (shift_register is_enabled shift_amount max_new_instr) (rev [0..<REGISTER_STACK_SIZE - 1])
      (stack_registers s)) (\<lambda>regs.
    let reached = b_not is_enabled in
    circ_bind (circ_fold (put_instruction new_instructions_count new_stack) [0..<max_new_instr] (regs, reached)) (\<lambda>(regs, _).
    circ_return \<lparr>stack_registers = regs, stack_count = count\<rparr>))))))))"

text \<open>The instructions a transaction queues (\<open>put_to_instruction_stack_unsafe\<close>, \<open>push_instruction_stack\<close>).\<close>

record instruction_queue =
  new_instructions :: "base_register_info list"
  new_instructions_count :: target

definition put_to_instruction_stack_unsafe ::
  "target \<Rightarrow> base_register_info \<Rightarrow> nat \<Rightarrow> instruction_queue \<Rightarrow> instruction_queue" where
  "put_to_instruction_stack_unsafe is_enabled instruction target_index q =
    \<lparr>new_instructions = (new_instructions q)[target_index :=
       select_register_target is_enabled instruction (new_instructions q ! target_index)],
     new_instructions_count = b_add (new_instructions_count q) is_enabled\<rparr>"

definition push_instruction_stack :: "nat \<Rightarrow> instruction_queue \<times> register_stack \<Rightarrow> (instruction_queue \<times> register_stack) circ" where
  "push_instruction_stack max_new_instr = (\<lambda>(q, s).
    circ_bind (push_instructions max_new_instr (new_instructions q) (new_instructions_count q) s) (\<lambda>s.
    circ_return (\<lparr>new_instructions = replicate NEW_INSTRUCTIONS_MAX_SIZE empty_register, new_instructions_count = Const 0\<rparr>, s)))"

section \<open>Arrays of registers\<close>

definition reg_array :: "base_register_info list \<Rightarrow> nat \<Rightarrow> (nat \<Rightarrow> nat list) \<Rightarrow> bool" where
  "reg_array regs n g \<longleftrightarrow> length regs = n \<and> (\<forall>k<n. register_values (regs ! k) = g k)"

lemma reg_array_cong: "reg_array regs n g \<Longrightarrow> (\<And>k. k < n \<Longrightarrow> g k = h k) \<Longrightarrow> reg_array regs n h"
  by (simp add: reg_array_def)

lemma reg_array_nth: "reg_array regs n g \<Longrightarrow> k < n \<Longrightarrow> register_values (regs ! k) = g k"
  by (simp add: reg_array_def)

lemma reg_array_update:
  "reg_array regs n g \<Longrightarrow> register_values r = v \<Longrightarrow> reg_array (regs[i := r]) n (g(i := v))"
  by (auto simp: reg_array_def nth_list_update)

lemma reg_array_empty: "reg_array (replicate n empty_register) n (\<lambda>_. empty_instruction)"
  by (simp add: reg_array_def)

lemma reg_array_select:
  assumes "bval c e" "reg_array regs n g" "register_values r = v" "i < n"
  shows "reg_array (regs[i := select_register_target c r (regs ! i)]) n (\<lambda>k. if e \<and> k = i then v else g k)"
  by (rule reg_array_cong [OF reg_array_update [OF assms(2) refl]])
    (use assms in \<open>auto simp: register_values_select [OF assms(1)] reg_array_nth\<close>)

section \<open>The loops\<close>

lemma small_field: "k \<le> 9 \<Longrightarrow> k < p_nat"
  by simp

lemma implements_place_loop:
  assumes "reg_array ns 8 g" "n \<le> 8"
  shows "implements (circ_fold (\<lambda>j ns. circ_bind (is_equal_constant pc j) (\<lambda>eq.
      circ_return (ns[j := select_register_target eq r (ns ! j)]))) [0..<n] ns)
    (\<lambda>ns. reg_array ns 8 (\<lambda>k. if k < n \<and> k = uval pc then register_values r else g k))"
proof -
  let ?I = "\<lambda>i ns. reg_array ns 8 (\<lambda>k. if k < i \<and> k = uval pc then register_values r else g k)"
  have "implements (circ_fold (\<lambda>j ns. circ_bind (is_equal_constant pc j) (\<lambda>eq.
      circ_return (ns[j := select_register_target eq r (ns ! j)]))) [0..<n] ns) (?I (length [0..<n]))"
  proof (rule implements_fold [where I = ?I])
    show "?I 0 ns" using assms(1) by simp
    fix i s assume i: "i < length [0..<n]" and s: "?I i s"
    then have "i < 8" "[0..<n] ! i = i" using assms(2) by simp_all
    show "implements (circ_bind (is_equal_constant pc ([0..<n] ! i)) (\<lambda>eq.
        circ_return (s[[0..<n] ! i := select_register_target eq r (s ! ([0..<n] ! i))]))) (?I (Suc i))"
      unfolding \<open>[0..<n] ! i = i\<close>
    proof (rule implements_bind [OF implements_is_equal_constant], use \<open>i < 8\<close> in simp, rule implements_return)
      fix eq assume "bval eq (uval pc = i)"
      from reg_array_select [OF this s refl \<open>i < 8\<close>]
      show "?I (Suc i) (s[i := select_register_target eq r (s ! i)])"
        by (rule reg_array_cong) (auto simp: less_Suc_eq)
    qed
  qed
  then show ?thesis by simp
qed

text \<open>The instructions that are not empty, in order.\<close>

definition queued :: "nat \<Rightarrow> base_register_info list \<Rightarrow> nat list list" where
  "queued n rs = filter (\<lambda>v. v \<noteq> empty_instruction) (map register_values (take n rs))"

definition slot :: "nat list list \<Rightarrow> nat \<Rightarrow> nat list" where
  "slot = nth_default empty_instruction"

lemma slot_simps [simp]: "slot [] k = empty_instruction" "slot (v # l) 0 = v" "slot (v # l) (Suc k) = slot l k"
  by (simp_all add: slot_def)

lemma slot_append: "slot (xs @ ys) k = (if k < length xs then xs ! k else slot ys (k - length xs))"
  by (auto simp: slot_def nth_default_append nth_default_nth)

lemma slot_drop: "slot (drop n l) k = slot l (n + k)"
  by (induction n arbitrary: l) (case_tac [2] l, simp_all add: slot_def)

lemma slot_nth: "k < length l \<Longrightarrow> slot l k = l ! k" "length l \<le> k \<Longrightarrow> slot l k = empty_instruction"
  by (simp_all add: slot_def nth_default_nth nth_default_beyond)

lemma queued_length: "length (queued n rs) \<le> n"
  unfolding queued_def using length_filter_le [of "\<lambda>v. v \<noteq> empty_instruction" "map register_values (take n rs)"] by simp

lemma implements_place_instructions:
  assumes valid: "list_all valid_instruction (map register_values rs)" and n: "n \<le> 8"
  shows "implements (circ_fold (place_instruction n) (take n rs) (replicate PENDING_BASE_REGISTER_SIZE empty_register, Const 0))
    (\<lambda>(ns, pc). reg_array ns 8 (slot (queued n rs)) \<and> uval pc = length (queued n rs))"
proof -
  let ?xs = "take n rs"
  let ?I = "\<lambda>i (ns, pc). reg_array ns 8 (slot (queued i ?xs)) \<and> uval pc = length (queued i ?xs)"
  have "implements (circ_fold (place_instruction n) ?xs (replicate PENDING_BASE_REGISTER_SIZE empty_register, Const 0)) (?I (length ?xs))"
  proof (rule implements_fold [where I = ?I])
    show "?I 0 (replicate PENDING_BASE_REGISTER_SIZE empty_register, Const 0)"
      by (simp add: queued_def PENDING_BASE_REGISTER_SIZE_def reg_array_cong [OF reg_array_empty])
    fix i s assume i: "i < length ?xs" and s: "?I i s"
    obtain ns pc where sp: "s = (ns, pc)" by fastforce
    let ?r = "?xs ! i"
    have ns: "reg_array ns 8 (slot (queued i ?xs))" and pc: "uval pc = length (queued i ?xs)" using s by (simp_all add: sp)
    have bound: "uval pc < n" "i < n" using i queued_length [of i ?xs] unfolding pc by simp_all
    have vr: "valid_instruction (register_values ?r)" using valid i by (simp add: list_all_length)
    have step: "queued (Suc i) ?xs = queued i ?xs @ (if register_values ?r \<noteq> empty_instruction then [register_values ?r] else [])"
      using i by (simp add: queued_def take_Suc_conv_app_nth)
    show "implements (place_instruction n ?r s) (?I (Suc i))"
      unfolding place_instruction_def sp prod.case
    proof (rule implements_bind [OF implements_place_loop [OF ns n]], rule implements_bind [OF implements_register_is_empty [OF vr]],
        unfold Let_def, rule implements_return, unfold prod.case, rule conjI)
      fix ns' e assume ns': "reg_array ns' 8 (\<lambda>k. if k < n \<and> k = uval pc then register_values ?r else slot (queued i ?xs) k)"
        and e: "bval e (register_values ?r = empty_instruction)"
      show "reg_array ns' 8 (slot (queued (Suc i) ?xs))"
        by (rule reg_array_cong [OF ns']) (use bound pc in \<open>auto simp: step slot_append slot_nth\<close>)
      have "tval (b_add pc (b_not e)) = of_nat (uval pc + of_bool (register_values ?r \<noteq> empty_instruction))"
        using bval_not [OF e] by (simp add: tval_simps bval_def)
      moreover have "uval pc + of_bool (register_values ?r \<noteq> empty_instruction) < p_nat" using bound n by simp
      ultimately have "uval (b_add pc (b_not e)) = uval pc + of_bool (register_values ?r \<noteq> empty_instruction)"
        using to_canonical_of_nat_small by (simp only:)
      then show "uval (b_add pc (b_not e)) = length (queued (Suc i) ?xs)" by (simp add: step pc)
    qed
  qed
  moreover have "queued (length ?xs) ?xs = queued n rs" unfolding queued_def by (simp only: take_all order_refl)
  ultimately show ?thesis by simp
qed

text \<open>One iteration of the shift moves register \<open>i\<close>; all of them move the stack, unless the amount is not covered.\<close>

lemma takeWhile_upt: "takeWhile (\<lambda>j. j < c) [a..<n] = [a..<min n c]"
proof (induction n)
  case (Suc n)
  have "takeWhile (\<lambda>j. j < c) [a..<Suc n] = [a..<Suc n]" if "n < c"
    using that by (intro takeWhile_eq_all_conv [THEN iffD2]) auto
  moreover have "takeWhile (\<lambda>j. j < c) [a..<Suc n] = takeWhile (\<lambda>j. j < c) [a..<n]" if "\<not> n < c"
    using that by (simp add: takeWhile_tail)
  ultimately show ?case using Suc by (cases "n < c") (simp_all add: min_def del: upt_Suc)
qed simp

lemma implements_shift_register:
  assumes regs: "reg_array regs 9 g" and e: "bval en e" and i: "i < 8" and n: "n \<le> 8"
  shows "implements (shift_register en amount n i regs)
    (\<lambda>regs. reg_array regs 9 (\<lambda>k. if e \<and> 1 \<le> uval amount \<and> uval amount < n \<and> k = i + uval amount then g i else g k))"
proof -
  let ?js = "[1..<min n (9 - i)]"
  let ?I = "\<lambda>m regs. reg_array regs 9 (\<lambda>k. if e \<and> 1 \<le> uval amount \<and> uval amount \<le> m \<and> k = i + uval amount then g i else g k)"
  have "implements (circ_fold (\<lambda>j regs. circ_bind (is_equal_constant amount j) (\<lambda>is_index. let flag = b_and en is_index in
      circ_return (regs[i + j := select_register_target flag (regs ! i) (regs ! (i + j))]))) ?js regs) (?I (length ?js))"
  proof (rule implements_fold [where I = ?I])
    show "?I 0 regs" using regs by (simp add: reg_array_def)
    fix m s assume m: "m < length ?js" and s: "?I m s"
    have m': "1 + m < min n (9 - i)" using m by (simp only: length_upt less_diff_conv add.commute)
    have js: "?js ! m = Suc m" "i + Suc m < 9" "Suc m < n" using nth_upt [OF m'] m' by auto
    have at: "register_values (s ! i) = g i" using reg_array_nth [OF s, of i] i by simp
    show "implements (circ_bind (is_equal_constant amount (?js ! m)) (\<lambda>is_index. let flag = b_and en is_index in
        circ_return (s[i + ?js ! m := select_register_target flag (s ! i) (s ! (i + ?js ! m))]))) (?I (Suc m))"
      unfolding js(1) Let_def
    proof (rule implements_bind [OF implements_is_equal_constant], use js(3) n in simp, rule implements_return)
      fix eq assume "bval eq (uval amount = Suc m)"
      from reg_array_select [OF bval_and [OF e this] s at js(2)]
      show "?I (Suc m) (s[i + Suc m := select_register_target (b_and en eq) (s ! i) (s ! (i + Suc m))])"
        by (rule reg_array_cong) auto
    qed
  qed
  note loop = this
  have within: "(\<lambda>j. i + j < 8 + 1) = (\<lambda>j. j < 9 - i)" by auto
  show ?thesis
    unfolding shift_register_def REGISTER_STACK_SIZE_def PENDING_BASE_REGISTER_SIZE_def within takeWhile_upt
    by (rule implements_weaken [OF loop], erule reg_array_cong) (use i in auto)
qed

lemma implements_shift:
  assumes regs: "reg_array regs 9 g" and e: "bval en e" and n: "n \<le> 8"
  shows "implements (circ_fold (shift_register en amount n) (rev [0..<REGISTER_STACK_SIZE - 1]) regs)
    (\<lambda>regs. reg_array regs 9 (\<lambda>k. if e \<and> 1 \<le> uval amount \<and> uval amount < n \<and> uval amount \<le> k then g (k - uval amount) else g k))"
proof -
  let ?s = "uval amount" and ?is = "rev [0..<REGISTER_STACK_SIZE - 1]"
  have len: "length ?is = 8" by (simp add: REGISTER_STACK_SIZE_def PENDING_BASE_REGISTER_SIZE_def)
  let ?I = "\<lambda>m regs. reg_array regs 9 (\<lambda>k. if e \<and> 1 \<le> ?s \<and> ?s < n \<and> 8 - m + ?s \<le> k then g (k - ?s) else g k)"
  have "implements (circ_fold (shift_register en amount n) ?is regs) (?I (length ?is))"
  proof (rule implements_fold [where I = ?I])
    show "?I 0 regs" by (rule reg_array_cong [OF regs]) auto
    fix m s assume m: "m < length ?is" and s: "?I m s"
    then have i: "?is ! m = 7 - m" "m < 8" by (simp_all add: rev_nth REGISTER_STACK_SIZE_def PENDING_BASE_REGISTER_SIZE_def)
    show "implements (shift_register en amount n (?is ! m) s) (?I (Suc m))"
      unfolding i(1)
      by (rule implements_weaken [OF implements_shift_register [OF s e _ n]], simp, erule reg_array_cong) (use i(2) in auto)
  qed
  then show ?thesis unfolding len by simp
qed

lemma implements_put_instructions:
  assumes regs: "reg_array regs 9 g" and ns: "reg_array ns 8 h" and e: "bval reached (\<not> e)" and n: "n \<le> 8"
  shows "implements (circ_fold (put_instruction cnt ns) [0..<n] (regs, reached))
    (\<lambda>(regs, _). reg_array regs 9 (\<lambda>k. if e \<and> k < n \<and> k < uval cnt then h k else g k))"
proof -
  let ?I = "\<lambda>m (regs, reached). bval reached (\<not> e \<or> uval cnt < m)
    \<and> reg_array regs 9 (\<lambda>k. if e \<and> k < m \<and> k < uval cnt then h k else g k)"
  have "implements (circ_fold (put_instruction cnt ns) [0..<n] (regs, reached)) (?I (length [0..<n]))"
  proof (rule implements_fold [where I = ?I])
    show "?I 0 (regs, reached)" using regs e by simp
    fix m s assume m: "m < length [0..<n]" and s: "?I m s"
    obtain rs rd where sp: "s = (rs, rd)" by fastforce
    have m': "[0..<n] ! m = m" "m < 8" using m n by simp_all
    have rs: "reg_array rs 9 (\<lambda>k. if e \<and> k < m \<and> k < uval cnt then h k else g k)" and rd: "bval rd (\<not> e \<or> uval cnt < m)"
      using s by (simp_all add: sp)
    show "implements (put_instruction cnt ns ([0..<n] ! m) s) (?I (Suc m))"
      unfolding put_instruction_def sp prod.case m'(1)
    proof (rule implements_bind [OF implements_is_equal_constant], use m'(2) in simp, unfold Let_def, rule implements_return, unfold prod.case)
      fix lim assume "bval lim (uval cnt = m)"
      note stop = bval_or [OF rd this]
      have "register_values (rs ! m) = g m" "register_values (ns ! m) = h m"
        using reg_array_nth [OF rs, of m] reg_array_nth [OF ns, of m] m'(2) by simp_all
      then have "register_values (select_register_target (b_or rd lim) (rs ! m) (ns ! m))
          = (if e \<and> m < uval cnt then h m else g m)"
        by (auto simp: register_values_select [OF stop])
      from reg_array_update [OF rs this, of m] stop
      show "bval (b_or rd lim) (\<not> e \<or> uval cnt < Suc m)
          \<and> reg_array (rs[m := select_register_target (b_or rd lim) (rs ! m) (ns ! m)]) 9
            (\<lambda>k. if e \<and> k < Suc m \<and> k < uval cnt then h k else g k)"
        by (auto simp: less_Suc_eq le_less disj_assoc elim!: reg_array_cong)
    qed
  qed
  then show ?thesis by (rule implements_weaken) auto
qed

section \<open>The operations\<close>

text \<open>
  \<open>stack_repr s l\<close>: the registers hold the instructions \<open>l\<close>, from the current one on and without holes, and
  the counter is their number.
\<close>

definition stack_repr :: "register_stack \<Rightarrow> nat list list \<Rightarrow> bool" where
  "stack_repr s l \<longleftrightarrow> reg_array (stack_registers s) 9 (slot l) \<and> length l \<le> 9 \<and> uval (stack_count s) = length l
    \<and> list_all (\<lambda>v. valid_instruction v \<and> v \<noteq> empty_instruction) l"

lemma stack_repr_empty: "stack_repr empty_stack []"
  using reg_array_empty [of 9]
  by (simp add: stack_repr_def empty_stack_def REGISTER_STACK_SIZE_def PENDING_BASE_REGISTER_SIZE_def reg_array_def)

lemma stack_repr_select:
  assumes "bval c e" "stack_repr s l" "stack_repr t m"
  shows "stack_repr (select_stack c s t) (if e then l else m)"
  using assms(2,3) tval_select [OF assms(1)]
  by (auto simp: stack_repr_def select_stack_def reg_array_def REGISTER_STACK_SIZE_def PENDING_BASE_REGISTER_SIZE_def
      register_values_select [OF assms(1)])

lemma reg_array_pop:
  assumes "bval c e" "reg_array regs 9 g" "n \<le> 8"
  shows "reg_array (fold (\<lambda>i regs. regs[i := select_register_target c (regs ! (i + 1)) (regs ! i)]) [0..<n] regs) 9
    (\<lambda>k. if e \<and> k < n then g (Suc k) else g k)"
  using assms(3)
proof (induction n)
  case (Suc n)
  let ?regs = "fold (\<lambda>i regs. regs[i := select_register_target c (regs ! (i + 1)) (regs ! i)]) [0..<n] regs"
  have IH: "reg_array ?regs 9 (\<lambda>k. if e \<and> k < n then g (Suc k) else g k)" using Suc by simp
  have "reg_array (?regs[n := select_register_target c (?regs ! (n + 1)) (?regs ! n)]) 9 (\<lambda>k. if e \<and> k < Suc n then g (Suc k) else g k)"
    by (rule reg_array_cong [OF reg_array_select [OF assms(1) IH, of "?regs ! (n + 1)"]])
      (use Suc.prems reg_array_nth [OF IH, of "Suc n"] in auto)
  then show ?case by simp
qed (use assms(2) in simp)

lemma realises_pop_front:
  assumes s: "stack_repr s l" and c: "bval c e"
  shows "realises (pop_front c s) (e \<longrightarrow> l \<noteq> []) (\<lambda>t. stack_repr t (if e then tl l else l))"
proof -
  let ?regs = "fold (\<lambda>i regs. regs[i := select_register_target c (regs ! (i + 1)) (regs ! i)]) [0..<8] (stack_registers s)"
  let ?all = "?regs[8 := select_register_target c empty_register (?regs ! 8)]"
  have g: "reg_array (stack_registers s) 9 (slot l)" and len: "length l \<le> 9" and count: "uval (stack_count s) = length l"
    and ok: "list_all (\<lambda>v. valid_instruction v \<and> v \<noteq> empty_instruction) l" using s by (simp_all add: stack_repr_def)
  have "reg_array ?all 9 (slot (if e then tl l else l))"
  proof (rule reg_array_cong [OF reg_array_select [OF c reg_array_pop [OF c g order_refl] register_values_empty]])
    fix k :: nat assume "k < 9"
    moreover have "slot (tl l) k = slot l (Suc k)" using slot_drop [of 1 l k] by (simp add: drop_Suc)
    ultimately show "(if e \<and> k = 8 then empty_instruction else if e \<and> k < 8 then slot l (Suc k) else slot l k)
        = slot (if e then tl l else l) k" using len by (auto simp: slot_nth)
  qed simp
  moreover have "uval (b_sub (stack_count s) c) = length (if e then tl l else l)" if "e \<longrightarrow> l \<noteq> []"
  proof -
    have "length l = length (if e then tl l else l) + of_bool e" using that by (cases l) auto
    then have "tval (stack_count s) = of_nat (length (if e then tl l else l) + of_bool e)"
      using count of_nat_to_canonical [of "tval (stack_count s)"] by (simp only:)
    then have "tval (b_sub (stack_count s) c) = of_nat (length (if e then tl l else l))"
      using c by (simp add: tval_simps bval_def del: length_tl)
    moreover have "length (if e then tl l else l) < p_nat" using len by (cases l) auto
    ultimately show ?thesis using to_canonical_of_nat_small by (simp only:)
  qed
  moreover have "list_all (\<lambda>v. valid_instruction v \<and> v \<noteq> empty_instruction) (if e then tl l else l)" "length (if e then tl l else l) \<le> 9"
    using ok len by (cases l; simp)+
  ultimately have repr: "stack_repr \<lparr>stack_registers = ?all, stack_count = b_sub (stack_count s) c\<rparr> (if e then tl l else l)"
    if "e \<longrightarrow> l \<noteq> []"
    using that by (simp add: stack_repr_def)
  have nonempty: "(e \<longrightarrow> l \<noteq> []) = (e \<longrightarrow> uval (stack_count s) \<noteq> 0)" unfolding count by simp
  have "pop_front c s = circ_bind (conditional_assert_not_zero c (stack_count s)) (\<lambda>_.
      circ_return \<lparr>stack_registers = ?all, stack_count = b_sub (stack_count s) c\<rparr>)"
    by (simp add: pop_front_def Let_def REGISTER_STACK_SIZE_def PENDING_BASE_REGISTER_SIZE_def del: upt_Suc)
  then show ?thesis
    unfolding nonempty
    by (simp only:) (rule realises_then_return [OF realises_conditional_assert_not_zero [OF c]], use repr nonempty in blast)
qed

text \<open>
  What a push leaves in the array: the new instructions, and behind them the old registers, moved by the
  number of new ones less one for an empty base register -- unless that is the whole capacity of the call.
\<close>

definition pushed_slots :: "nat \<Rightarrow> nat list list \<Rightarrow> (nat \<Rightarrow> nat list) \<Rightarrow> nat \<Rightarrow> nat list" where
  "pushed_slots n new g k =
    (let amount = length new - of_bool (g 0 = empty_instruction) in
     if k < length new then new ! k else if 1 \<le> amount \<and> amount < n \<and> amount \<le> k then g (k - amount) else g k)"

lemma realises_push_array:
  fixes nc :: target
  assumes regs: "reg_array (stack_registers s) 9 g" and base: "valid_instruction (g 0)" and cnt: "uval (stack_count s) \<le> 9"
    and new: "list_all valid_instruction (map register_values rs)" and n: "n \<le> 8"
  defines "new \<equiv> queued n rs" and "c \<equiv> uval nc"
  shows "realises (push_instructions n rs nc s) ((c \<noteq> 0 \<longrightarrow> c = length new) \<and> (c \<noteq> 0 \<longrightarrow> uval (stack_count s) + c \<le> 9))
    (\<lambda>t. reg_array (stack_registers t) 9 (if c = 0 then g else pushed_slots n new g) \<and> uval (stack_count t) = uval (stack_count s) + c)"
proof -
  have len: "length new \<le> 8" using queued_length [of n rs] n by (simp add: new_def)
  have cap: "n \<le> PENDING_BASE_REGISTER_SIZE" using n by (simp add: PENDING_BASE_REGISTER_SIZE_def)
  let ?count = "b_add (stack_count s) nc" and ?max = "Const (of_nat REGISTER_STACK_SIZE)"
  have max: "uval ?max = 9" by (simp add: REGISTER_STACK_SIZE_def PENDING_BASE_REGISTER_SIZE_def)
  have count: "uval ?count = uval (stack_count s) + c" "cmp_ok 8 ?count" "cmp_ok 8 ?max" if "c \<noteq> 0 \<longrightarrow> c = length new"
  proof -
    have "c \<le> 8" using that len by auto
    then show "uval ?count = uval (stack_count s) + c" using cnt uval_add_small [of "stack_count s" nc] by (simp add: c_def)
    then show "cmp_ok 8 ?count" "cmp_ok 8 ?max" using \<open>c \<le> 8\<close> cnt max by (simp_all add: cmp_ok_def cmp_bit_size_bucket_def)
  qed
  have rest: "implements (circ_bind (circ_fold (shift_register en (b_sub nc be) n) (rev [0..<REGISTER_STACK_SIZE - 1]) (stack_registers s)) (\<lambda>regs.
      circ_bind (circ_fold (put_instruction nc ns) [0..<n] (regs, b_not en)) (\<lambda>(regs, _).
      circ_return \<lparr>stack_registers = regs, stack_count = ?count\<rparr>)))
    (\<lambda>t. reg_array (stack_registers t) 9 (if c = 0 then g else pushed_slots n new g) \<and> uval (stack_count t) = uval (stack_count s) + c)"
    if eq: "c \<noteq> 0 \<longrightarrow> c = length new" and ns: "reg_array ns 8 (slot new)" and en: "bval en (c \<noteq> 0)"
      and be: "bval be (g 0 = empty_instruction)" for en be ns
  proof (rule implements_bind [OF implements_shift [OF regs en n]], rule implements_bind [OF implements_put_instructions [OF _ ns _ n]],
      assumption, rule bval_not [OF en], unfold split_paired_all prod.case, rule implements_return)
    fix regs' x assume r: "reg_array regs' 9 (\<lambda>k. if c \<noteq> 0 \<and> k < n \<and> k < uval nc then slot new k
        else if c \<noteq> 0 \<and> 1 \<le> uval (b_sub nc be) \<and> uval (b_sub nc be) < n \<and> uval (b_sub nc be) \<le> k
          then g (k - uval (b_sub nc be)) else g k)"
    have amount: "uval (b_sub nc be) = length new - of_bool (g 0 = empty_instruction)" if "c \<noteq> 0"
    proof -
      have "1 \<le> c" "c = length new" using eq that by linarith+
      then show ?thesis using uval_sub_small [of be nc] uval_bval [OF be] unfolding c_def by simp
    qed
    have "length new \<le> n" using queued_length [of n rs] by (simp add: new_def)
    then have "reg_array regs' 9 (if c = 0 then g else pushed_slots n new g)"
      by (intro reg_array_cong [OF r]) (use eq amount in \<open>auto simp: pushed_slots_def Let_def slot_nth c_def [symmetric]\<close>)
    with count(1) [OF eq] show "reg_array (stack_registers \<lparr>stack_registers = regs', stack_count = ?count\<rparr>) 9 (if c = 0 then g else pushed_slots n new g)
        \<and> uval (stack_count \<lparr>stack_registers = regs', stack_count = ?count\<rparr>) = uval (stack_count s) + c" by simp
  qed
  have base': "implements (register_is_empty (stack_registers s ! 0)) (\<lambda>e. bval e (g 0 = empty_instruction))"
    using implements_register_is_empty [of "stack_registers s ! 0"] reg_array_nth [OF regs, of 0] base by simp
  show ?thesis
    unfolding push_instructions_def Let_def
  proof (rule realises_after [OF implements_panic [OF cap]], rule realises_after [OF implements_place_instructions [OF new n]],
      unfold split_paired_all prod.case, elim conjE, rule realises_after [OF implements_is_not_zero], rule realises_bind)
    fix ns pc en assume ns: "reg_array ns 8 (slot (queued n rs))" and pc: "uval pc = length (queued n rs)" and en: "bval en (uval nc \<noteq> 0)"
    have "(c \<noteq> 0 \<longrightarrow> c = length new) \<longleftrightarrow> (uval nc \<noteq> 0 \<longrightarrow> tval nc = tval pc)"
      unfolding c_def new_def pc [symmetric] to_canonical_inject ..
    then show "realises (conditional_assert_eq en nc pc) (c \<noteq> 0 \<longrightarrow> c = length new) (\<lambda>_. True)"
      using realises_conditional_assert_eq [OF en] by (simp only:)
    assume eq: "c \<noteq> 0 \<longrightarrow> c = length new"
    have fits: "(c \<noteq> 0 \<longrightarrow> uval (stack_count s) + c \<le> 9) = ((c \<noteq> 0 \<longrightarrow> uval ?count \<le> uval ?max) \<and> True)"
      unfolding count(1) [OF eq] max by simp
    show "realises (circ_bind (conditional_assert_lte en ?count ?max 8) (\<lambda>_. circ_bind (register_is_empty (stack_registers s ! 0)) (\<lambda>be.
        circ_bind (circ_fold (shift_register en (b_sub nc be) n) (rev [0..<REGISTER_STACK_SIZE - 1]) (stack_registers s)) (\<lambda>regs.
        circ_bind (circ_fold (put_instruction nc ns) [0..<n] (regs, b_not en)) (\<lambda>(regs, _).
        circ_return \<lparr>stack_registers = regs, stack_count = ?count\<rparr>)))))
      (c \<noteq> 0 \<longrightarrow> uval (stack_count s) + c \<le> 9)
      (\<lambda>t. reg_array (stack_registers t) 9 (if c = 0 then g else pushed_slots n new g) \<and> uval (stack_count t) = uval (stack_count s) + c)"
      unfolding fits
    proof (rule realises_bind [OF realises_conditional_assert_lte [OF en [folded c_def] count(2,3) [OF eq]]],
        unfold implements_realises [symmetric], rule implements_bind [OF base'])
      fix be assume "bval be (g 0 = empty_instruction)"
      from rest [OF eq ns [folded new_def] en [folded c_def] this]
      show "implements (circ_bind (circ_fold (shift_register en (b_sub nc be) n) (rev [0..<REGISTER_STACK_SIZE - 1]) (stack_registers s)) (\<lambda>regs.
          circ_bind (circ_fold (put_instruction nc ns) [0..<n] (regs, b_not en)) (\<lambda>(regs, _).
          circ_return \<lparr>stack_registers = regs, stack_count = ?count\<rparr>)))
        (\<lambda>t. reg_array (stack_registers t) 9 (if c = 0 then g else pushed_slots n new g) \<and> uval (stack_count t) = uval (stack_count s) + c)" .
    qed
  qed
qed

section \<open>Refinement of the list machine\<close>

text \<open>When the base is free, or the call has room left, a push puts the new instructions in front.\<close>

lemma pushed_slots_append:
  assumes "l = [] \<or> length new < n" "length new \<le> n" "list_all (\<lambda>v. valid_instruction v \<and> v \<noteq> empty_instruction) l"
  shows "pushed_slots n new (slot l) = slot (new @ l)"
proof
  fix k
  have "slot l 0 = empty_instruction \<longleftrightarrow> l = []" using assms(3) by (cases l) auto
  then show "pushed_slots n new (slot l) k = slot (new @ l) k"
    using assms(1,2) by (cases l) (auto simp: pushed_slots_def Let_def slot_append slot_nth not_le not_less less_Suc_eq)
qed

lemma queued_valid:
  assumes "list_all valid_instruction (map register_values rs)"
  shows "list_all (\<lambda>v. valid_instruction v \<and> v \<noteq> empty_instruction) (queued n rs)"
  using assms by (auto simp: queued_def list_all_iff dest: in_set_takeD)

lemma stack_repr_valid: "stack_repr s l \<Longrightarrow> valid_instruction (slot l 0)"
  by (cases l) (simp_all add: stack_repr_def)

definition push_accepted :: "nat \<Rightarrow> base_register_info list \<Rightarrow> target \<Rightarrow> nat list list \<Rightarrow> bool" where
  "push_accepted n rs nc l \<longleftrightarrow> uval nc = 0 \<or> uval nc = length (queued n rs) \<and> length l + uval nc \<le> REGISTER_STACK_SIZE"

lemma realises_push_instructions:
  assumes s: "stack_repr s l" and n: "n \<le> 8" and new: "list_all valid_instruction (map register_values rs)"
    and room: "l = [] \<or> length (queued n rs) < n"
  shows "realises (push_instructions n rs nc s) (push_accepted n rs nc l)
    (\<lambda>t. stack_repr t (if uval nc = 0 then l else queued n rs @ l))"
proof (rule realises_weaken [OF realises_push_array [where g = "slot l", OF _ stack_repr_valid [OF s] _ new n]])
  show "reg_array (stack_registers s) 9 (slot l)" and cnt: "uval (stack_count s) \<le> 9" using s by (simp_all add: stack_repr_def)
  have l: "uval (stack_count s) = length l" "length l \<le> 9" "list_all (\<lambda>v. valid_instruction v \<and> v \<noteq> empty_instruction) l"
    using s by (simp_all add: stack_repr_def)
  show "((uval nc \<noteq> 0 \<longrightarrow> uval nc = length (queued n rs)) \<and> (uval nc \<noteq> 0 \<longrightarrow> uval (stack_count s) + uval nc \<le> 9))
      = push_accepted n rs nc l"
    by (auto simp: push_accepted_def l(1) REGISTER_STACK_SIZE_def PENDING_BASE_REGISTER_SIZE_def)
  fix t :: register_stack
  assume "(uval nc \<noteq> 0 \<longrightarrow> uval nc = length (queued n rs)) \<and> (uval nc \<noteq> 0 \<longrightarrow> uval (stack_count s) + uval nc \<le> 9)"
    and "reg_array (stack_registers t) 9 (if uval nc = 0 then slot l else pushed_slots n (queued n rs) (slot l))
      \<and> uval (stack_count t) = uval (stack_count s) + uval nc"
  then show "stack_repr t (if uval nc = 0 then l else queued n rs @ l)"
    unfolding pushed_slots_append [OF room queued_length l(3)]
    using l queued_valid [OF new, of n] by (cases "uval nc = 0") (simp_all only: stack_repr_def if_True if_False, simp_all)
qed

text \<open>The events of a stack, the transitions of the list machine, and what callers guarantee.\<close>

datatype stack_event =
  Pop target
| Push nat "base_register_info list" target
| Put base_register_info

text \<open>\<open>Put\<close> is the assignment to the base register through \<open>IndexMut\<close>, as in \<open>register_stack[0].pending_size = ...\<close>.\<close>

definition put_base :: "base_register_info \<Rightarrow> register_stack \<Rightarrow> register_stack" where
  "put_base r s = s\<lparr>stack_registers := (stack_registers s)[0 := r]\<rparr>"

fun stack_step :: "stack_event \<Rightarrow> register_stack \<Rightarrow> register_stack circ" where
  "stack_step (Pop c) s = pop_front c s"
| "stack_step (Push n rs nc) s = push_instructions n rs nc s"
| "stack_step (Put r) s = circ_return (put_base r s)"

fun list_step :: "stack_event \<Rightarrow> nat list list \<Rightarrow> nat list list option" where
  "list_step (Pop c) l = (if uval c = 0 then Some l else if l = [] then None else Some (tl l))"
| "list_step (Push n rs nc) l =
    (if push_accepted n rs nc l then Some (if uval nc = 0 then l else queued n rs @ l) else None)"
| "list_step (Put r) l = Some (register_values r # tl l)"

text \<open>
  What callers guarantee: flags are flags and instructions are well-formed. The second predicate is not guaranteed: a push
  that fills the capacity of its call finds no current instruction (\<open>register_push_overwrites\<close> has what happens else).
\<close>

fun event_formed :: "stack_event \<Rightarrow> nat list list \<Rightarrow> bool" where
  "event_formed (Pop c) l = (uval c \<le> 1)"
| "event_formed (Push n rs nc) l = (n \<le> PENDING_BASE_REGISTER_SIZE \<and> list_all valid_instruction (map register_values rs))"
| "event_formed (Put r) l = (l \<noteq> [] \<and> valid_instruction (register_values r) \<and> register_values r \<noteq> empty_instruction)"

fun spares_current :: "stack_event \<Rightarrow> nat list list \<Rightarrow> bool" where
  "spares_current (Push n rs nc) l = (l = [] \<or> length (queued n rs) < n)"
| "spares_current (Pop c) l = True"
| "spares_current (Put r) l = True"

definition event_ok :: "stack_event \<Rightarrow> nat list list \<Rightarrow> bool" where
  "event_ok e l \<longleftrightarrow> event_formed e l \<and> spares_current e l"

lemma event_ok_simps [simp]:
  "event_ok (Pop c) l = (uval c \<le> 1)"
  "event_ok (Push n rs nc) l =
    (n \<le> PENDING_BASE_REGISTER_SIZE \<and> list_all valid_instruction (map register_values rs) \<and> (l = [] \<or> length (queued n rs) < n))"
  "event_ok (Put r) l = (l \<noteq> [] \<and> valid_instruction (register_values r) \<and> register_values r \<noteq> empty_instruction)"
  by (auto simp: event_ok_def)

lemma bval_small: "uval c \<le> 1 \<Longrightarrow> bval c (uval c \<noteq> 0)"
proof -
  have "n = of_bool (n \<noteq> 0)" if "n \<le> 1" for n :: nat using that by auto
  then show "uval c \<le> 1 \<Longrightarrow> bval c (uval c \<noteq> 0)" unfolding bval_iff_uval .
qed

interpretation stack: circuit_machine stack_step list_step event_ok stack_repr
proof
  fix s l e assume s: "stack_repr s l" and ok: "event_ok e l"
  show "realises (stack_step e s) (list_step e l \<noteq> None) (\<lambda>t. \<exists>m. list_step e l = Some m \<and> stack_repr t m)"
  proof (cases e)
    case (Pop c)
    then have c: "bval c (uval c \<noteq> 0)" using ok bval_small by (simp only: event_ok_simps)
    show ?thesis
      unfolding Pop stack_step.simps by (rule realises_weaken [OF realises_pop_front [OF s c]]) auto
  next
    case (Push n rs nc)
    then have "n \<le> 8" "list_all valid_instruction (map register_values rs)" "l = [] \<or> length (queued n rs) < n"
      using ok by (simp_all add: PENDING_BASE_REGISTER_SIZE_def)
    from realises_push_instructions [OF s this, of nc] show ?thesis
      unfolding Push stack_step.simps by (rule realises_weaken) simp_all
  next
    case (Put r)
    then have r: "l \<noteq> []" "valid_instruction (register_values r)" "register_values r \<noteq> empty_instruction" using ok by simp_all
    obtain v m where l: "l = v # m" using r(1) by (cases l) auto
    have "reg_array (stack_registers (put_base r s)) 9 (slot (register_values r # m))"
    proof -
      have "reg_array (stack_registers s) 9 (slot l)" using s by (simp add: stack_repr_def)
      from reg_array_update [OF this refl, of 0 r] show ?thesis
        unfolding put_base_def by (simp, elim reg_array_cong) (use l in \<open>case_tac k; simp\<close>)
    qed
    then have "stack_repr (put_base r s) (register_values r # m)"
      using s r by (simp add: stack_repr_def l put_base_def)
    then show ?thesis unfolding Put by (simp add: l realises_return)
  qed
qed

section \<open>Properties\<close>

text \<open>A register that holds only its instruction type and a size, for the examples.\<close>

definition sample_register :: "nat \<Rightarrow> nat \<Rightarrow> base_register_info" where
  "sample_register ty sz = empty_register\<lparr>instruction_type := Const (of_nat ty), pending_size := Const (of_nat sz)\<rparr>"

definition sample_instruction :: "nat \<Rightarrow> nat \<Rightarrow> nat list" where
  "sample_instruction ty sz = ty # 0 # 0 # sz # replicate 19 0"

lemma sample_register_values:
  assumes "ty < 2 ^ 8" "sz < 2 ^ 48"
  shows "register_values (sample_register ty sz) = sample_instruction ty sz"
    "valid_instruction (sample_instruction ty sz)" "0 < ty \<Longrightarrow> sample_instruction ty sz \<noteq> empty_instruction"
proof -
  have "ty < p_nat" "sz < p_nat" using assms by (auto elim: less_trans)
  then have u: "uval (Const (of_nat ty)) = ty" "uval (Const (of_nat sz)) = sz"
    by (simp_all only: tval.simps to_canonical_of_nat_small)
  have "register_values (sample_register ty sz)
      = [uval (Const (of_nat ty)), 0, 0, uval (Const (of_nat sz)), 0, 0, 0, 0, 0, 0, 0, 0, 0, 0, 0, 0, 0, 0, 0, 0, 0, 0, 0]"
    by (simp add: register_values_def get_hash_parameters_def sample_register_def empty_register_def)
  then show "register_values (sample_register ty sz) = sample_instruction ty sz"
    unfolding u by (simp add: sample_instruction_def numeral_eq_Suc)
  have "sample_instruction ty sz = [ty, 0, 0, sz, 0, 0, 0, 0, 0, 0, 0, 0, 0, 0, 0, 0, 0, 0, 0, 0, 0, 0, 0]"
    by (simp add: sample_instruction_def numeral_eq_Suc)
  then show "valid_instruction (sample_instruction ty sz)"
    using assms by (simp add: valid_instruction_def register_bits_def)
  show "0 < ty \<Longrightarrow> sample_instruction ty sz \<noteq> empty_instruction"
    by (simp add: sample_instruction_def empty_instruction_def BASE_REGISTER_INFO_SIZE_def numeral_eq_Suc)
qed

lemma queued_simps:
  "queued n [] = []"
  "0 < n \<Longrightarrow> queued n (r # rs) = (if register_values r = empty_instruction then [] else [register_values r]) @ queued (n - 1) rs"
  by (simp_all add: queued_def take_Cons split: nat.split)

lemma sample_queue:
  "queued 3 [sample_register 1 5, empty_register, sample_register 2 7] = [sample_instruction 1 5, sample_instruction 2 7]"
  "queued 1 [sample_register 1 5] = [sample_instruction 1 5]"
  "queued 1 [sample_register 2 7] = [sample_instruction 2 7]"
  "list_all valid_instruction (map register_values [sample_register 1 5, empty_register, sample_register 2 7])"
proof -
  have a: "register_values (sample_register 1 5) = sample_instruction 1 5" "valid_instruction (sample_instruction 1 5)"
      "sample_instruction 1 5 \<noteq> empty_instruction" by (rule sample_register_values; simp)+
  have b: "register_values (sample_register 2 7) = sample_instruction 2 7" "valid_instruction (sample_instruction 2 7)"
      "sample_instruction 2 7 \<noteq> empty_instruction" by (rule sample_register_values; simp)+
  show "queued 3 [sample_register 1 5, empty_register, sample_register 2 7] = [sample_instruction 1 5, sample_instruction 2 7]"
    "queued 1 [sample_register 1 5] = [sample_instruction 1 5]" "queued 1 [sample_register 2 7] = [sample_instruction 2 7]"
    using a(3) b(3) by (simp_all add: queued_simps a(1) b(1) del: One_nat_def)
  show "list_all valid_instruction (map register_values [sample_register 1 5, empty_register, sample_register 2 7])"
    using a(2) b(2) by (simp add: a(1) b(1) del: One_nat_def)
qed

lemma run_ok_both:
  "run_ok step ok es m \<Longrightarrow> run_ok step ok' es m \<Longrightarrow> run_ok step (\<lambda>e m. ok e m \<and> ok' e m) es m"
  by (induction es arbitrary: m) (auto split: option.splits)

text \<open>
  C25. Refinement: a sequence of pops, pushes and updates of the current instruction, with well-formed instructions and
  in which no push fills the whole capacity of its call while there is a current instruction, is satisfiable exactly
  when the list machine accepts it (no pop of an empty stack, no push beyond the capacity, the announced
  number of instructions is the number of non-empty ones), and then the registers hold the list the machine
  ends with, without holes, and the counter its length. The excluded push is the one where the code is not a list:
  it loses the current instruction (\<open>register_push_overwrites\<close>).
\<close>
theorem register_stack_refines:
  assumes "stack_repr s l" "run_ok list_step event_formed es l" "run_ok list_step spares_current es l"
  shows "realises (circ_fold stack_step es s) (machine_run list_step es l \<noteq> None)
    (\<lambda>t. \<exists>m. machine_run list_step es l = Some m \<and> stack_repr t m)"
proof (rule stack.run_refines [OF assms(1)])
  show "run_ok list_step event_ok es l"
    using run_ok_both [OF assms(2,3)] unfolding event_ok_def [abs_def] .
qed

lemma register_stack_refines_witness:
  "complete (circ_fold stack_step
      [Push 3 [sample_register 1 5, empty_register, sample_register 2 7] (Const 2), Pop (Const 1)] empty_stack)
    (\<lambda>t. stack_repr t [sample_instruction 2 7])"
proof -
  let ?es = "[Push 3 [sample_register 1 5, empty_register, sample_register 2 7] (Const 2), Pop (Const 1)]"
  have two: "uval (Const 2) = 2" by simp
  have acc: "push_accepted 3 [sample_register 1 5, empty_register, sample_register 2 7] (Const 2) []"
    unfolding push_accepted_def sample_queue two by (simp add: REGISTER_STACK_SIZE_def PENDING_BASE_REGISTER_SIZE_def)
  have run: "machine_run list_step ?es [] = Some [sample_instruction 2 7]"
    using acc by (simp add: sample_queue(1) del: One_nat_def)
  have ok: "run_ok list_step event_formed ?es []" "run_ok list_step spares_current ?es []"
    using acc sample_queue(4) by (simp_all add: sample_queue(1) PENDING_BASE_REGISTER_SIZE_def del: One_nat_def)
  show ?thesis
    using realises_implements [OF register_stack_refines [OF stack_repr_empty ok]] unfolding run
    by (simp add: implements_def)
qed

lemma machine_run_pops:
  "uval c = 1 \<Longrightarrow> machine_run list_step (replicate n (Pop c)) l = (if n \<le> length l then Some (drop n l) else None)"
proof (induction n arbitrary: l)
  case (Suc n)
  then show ?case by (cases l) (simp_all)
qed simp

lemma run_ok_pops: "uval c = 1 \<Longrightarrow> run_ok list_step event_ok (replicate n (Pop c)) l"
  by (induction n arbitrary: l) (auto simp: list_step.simps split: option.split)

text \<open>
  C33. Liveness: a stack of \<open>n\<close> instructions is drained by exactly \<open>n\<close> pops, whatever they are: the pops can
  be satisfied, leave every register empty, and one more pop can not.
\<close>
theorem register_stack_drains:
  assumes "stack_repr s l" "uval c = 1"
  shows "implements (circ_fold stack_step (replicate (length l) (Pop c)) s) (\<lambda>t. stack_repr t [])
    \<and> unsatisfiable (circ_fold stack_step (replicate (Suc (length l)) (Pop c)) s)"
proof
  note run = stack.run_refines [OF assms(1) run_ok_pops [OF assms(2)]]
  show "implements (circ_fold stack_step (replicate (length l) (Pop c)) s) (\<lambda>t. stack_repr t [])"
    using realises_implements [OF run [of "length l"]] by (simp add: machine_run_pops [OF assms(2)])
  show "unsatisfiable (circ_fold stack_step (replicate (Suc (length l)) (Pop c)) s)"
    using realises_unsatisfiable [OF run [of "Suc (length l)"]] by (simp add: machine_run_pops [OF assms(2)] del: replicate_Suc)
qed

lemma register_stack_drains_witness:
  "unsatisfiable (circ_fold stack_step (replicate (Suc 0) (Pop (Const 1))) empty_stack)"
  using register_stack_drains [OF stack_repr_empty, of "Const 1"] by simp

text \<open>
  Error: a push that fills the whole capacity of the call while the base register is in use does not shift
  the stack: the old current instruction is gone, although the counter still counts it. (The loop over the
  shift amount ends one short of the capacity.)
\<close>
theorem register_push_overwrites:
  assumes "stack_repr s (v # l)" "n \<le> 8" "list_all valid_instruction (map register_values rs)"
    and "length (queued n rs) = n" "0 < n" "uval nc = n" "Suc (length l) + n \<le> 9"
  shows "implements (push_instructions n rs nc s) (\<lambda>t. uval (stack_count t) = Suc (length l) + n
    \<and> reg_array (stack_registers t) 9 (\<lambda>k. if k < n then queued n rs ! k else slot (v # l) k))"
proof -
  note r = assms(1) [unfolded stack_repr_def]
  have cnt: "uval (stack_count s) \<le> 9" "uval (stack_count s) = Suc (length l)" and regs: "reg_array (stack_registers s) 9 (slot (v # l))"
    and v: "v \<noteq> empty_instruction" using r by simp_all
  have slots: "pushed_slots n (queued n rs) (slot (v # l)) = (\<lambda>k. if k < n then queued n rs ! k else slot (v # l) k)"
    using v assms(4) by (auto simp: pushed_slots_def Let_def)
  show ?thesis
    by (rule implements_weaken [OF realises_implements
          [OF realises_push_array [where nc = nc, OF regs stack_repr_valid [OF assms(1)] cnt(1) assms(3,2)]]])
      (use assms(4-7) cnt(2) in \<open>simp_all add: slots\<close>)
qed

lemma register_push_overwrites_witness:
  "complete (circ_bind (push_instructions 1 [sample_register 1 5] (Const 1) empty_stack)
      (push_instructions 1 [sample_register 2 7] (Const 1)))
    (\<lambda>t. uval (stack_count t) = 2 \<and> register_values (stack_registers t ! 0) = sample_instruction 2 7
      \<and> register_values (stack_registers t ! 1) = empty_instruction)"
proof -
  have valid: "list_all valid_instruction (map register_values [sample_register 1 5])"
    "list_all valid_instruction (map register_values [sample_register 2 7])" using sample_queue(4) by simp_all
  have one: "uval (Const 1) = 1" by simp
  have acc: "push_accepted 1 [sample_register 1 5] (Const 1) []"
    unfolding push_accepted_def sample_queue one by (simp add: REGISTER_STACK_SIZE_def PENDING_BASE_REGISTER_SIZE_def)
  from realises_implements [OF realises_push_instructions [OF stack_repr_empty _ valid(1) disjI1 [OF refl]] acc]
  have first: "implements (push_instructions 1 [sample_register 1 5] (Const 1) empty_stack) (\<lambda>t. stack_repr t [sample_instruction 1 5])"
    unfolding sample_queue one by simp
  show ?thesis
  proof (rule complete_bind [OF implements_complete [OF first]])
    fix s assume s: "stack_repr s [sample_instruction 1 5]"
    have "implements (push_instructions 1 [sample_register 2 7] (Const 1) s) (\<lambda>t. uval (stack_count t) = Suc (length ([] :: nat list list)) + 1
        \<and> reg_array (stack_registers t) 9 (\<lambda>k. if k < 1 then queued 1 [sample_register 2 7] ! k else slot [sample_instruction 1 5] k))"
      by (rule register_push_overwrites [OF s _ valid(2) _ _ one]) (simp_all only: sample_queue, simp_all)
    then show "complete (push_instructions 1 [sample_register 2 7] (Const 1) s) (\<lambda>t. uval (stack_count t) = 2
        \<and> register_values (stack_registers t ! 0) = sample_instruction 2 7 \<and> register_values (stack_registers t ! 1) = empty_instruction)"
      unfolding sample_queue by (elim complete_weaken [OF implements_complete]) (auto simp: reg_array_def slot_def nth_default_def)
  qed
qed

end
