(* ===== verification/Hash_Tree.thy ===== *)
theory Hash_Tree
  imports Main
begin

text \<open>
  Hash trees over an index space, the abstract counterpart of the Merkle trees and of the order book tree.
  The node at height \<open>d\<close> with number \<open>k\<close> covers the indices from \<open>k * 2 ^ d\<close> on; it carries a label and the
  hash of its label and its children. A proof lists, from the leaf to the root, label, sibling hash and side.
  The locale \<open>hash_tree\<close> is the interface to the hash function: it promises no injectivity, only that equal
  hashes have equal inputs or exhibit a collision.
\<close>

section \<open>Trees and proofs\<close>

primrec tree_hash :: "('d \<Rightarrow> 'h \<Rightarrow> 'h \<Rightarrow> 'h) \<Rightarrow> (nat \<Rightarrow> nat \<Rightarrow> 'd) \<Rightarrow> (nat \<Rightarrow> 'h) \<Rightarrow> nat \<Rightarrow> nat \<Rightarrow> 'h" where
  "tree_hash node label leaf 0 k = leaf k"
| "tree_hash node label leaf (Suc d) k =
    node (label (Suc d) k) (tree_hash node label leaf d (2 * k)) (tree_hash node label leaf d (2 * k + 1))"

definition sibling :: "nat \<Rightarrow> nat" where
  "sibling k = (if even k then k + 1 else k - 1)"

type_synonym ('d, 'h) tree_step = "'d \<times> 'h \<times> bool"

fun climb_input :: "'h \<Rightarrow> ('d, 'h) tree_step \<Rightarrow> 'd \<times> 'h \<times> 'h" where
  "climb_input s (d, sib, b) = (if b then (d, sib, s) else (d, s, sib))"

definition climb_step :: "('d \<Rightarrow> 'h \<Rightarrow> 'h \<Rightarrow> 'h) \<Rightarrow> 'h \<Rightarrow> ('d, 'h) tree_step \<Rightarrow> 'h" where
  "climb_step node s x = (case climb_input s x of (d, l, r) \<Rightarrow> node d l r)"

definition climb :: "('d \<Rightarrow> 'h \<Rightarrow> 'h \<Rightarrow> 'h) \<Rightarrow> 'h \<Rightarrow> ('d, 'h) tree_step list \<Rightarrow> 'h" where
  "climb node = foldl (climb_step node)"

definition proof_at ::
  "('d \<Rightarrow> 'h \<Rightarrow> 'h \<Rightarrow> 'h) \<Rightarrow> (nat \<Rightarrow> nat \<Rightarrow> 'd) \<Rightarrow> (nat \<Rightarrow> 'h) \<Rightarrow> nat \<Rightarrow> nat \<Rightarrow> ('d, 'h) tree_step list" where
  "proof_at node label leaf L k =
    map (\<lambda>i. (label (Suc i) (k div 2 ^ Suc i), tree_hash node label leaf i (sibling (k div 2 ^ i)), odd (k div 2 ^ i))) [0..<L]"

definition index_bits :: "nat \<Rightarrow> nat \<Rightarrow> bool list" where
  "index_bits L k = map (\<lambda>i. odd (k div 2 ^ i)) [0..<L]"

definition step_side :: "('d, 'h) tree_step \<Rightarrow> bool" where "step_side x = snd (snd x)"

lemma climb_simps [simp]:
  "climb node s [] = s" "climb node s (x # xs) = climb node (climb_step node s x) xs"
  "climb node s (xs @ ys) = climb node (climb node s xs) ys"
  by (simp_all add: climb_def)

lemma length_proof_at [simp]: "length (proof_at node label leaf L k) = L"
  by (simp add: proof_at_def)

lemma proof_at_nth: "i < L \<Longrightarrow> proof_at node label leaf L k ! i
    = (label (Suc i) (k div 2 ^ Suc i), tree_hash node label leaf i (sibling (k div 2 ^ i)), odd (k div 2 ^ i))"
  by (simp add: proof_at_def)

lemma proof_at_Suc: "proof_at node label leaf (Suc L) k = proof_at node label leaf L k
    @ [(label (Suc L) (k div 2 ^ Suc L), tree_hash node label leaf L (sibling (k div 2 ^ L)), odd (k div 2 ^ L))]"
  by (simp add: proof_at_def)

lemma step_sides_proof_at: "map step_side (proof_at node label leaf L k) = index_bits L k"
  by (simp add: proof_at_def index_bits_def step_side_def)

lemma half_cases:
  fixes m :: nat
  obtains "even m" "2 * (m div 2) = m" "2 * (m div 2) + 1 = sibling m" | "odd m" "2 * (m div 2) = sibling m" "2 * (m div 2) + 1 = m"
  by (cases "even m") (auto simp: sibling_def elim!: evenE oddE)

text \<open>Climbing along its own proof leads from a leaf to the root.\<close>

lemma climb_proof_at: "climb node (leaf k) (proof_at node label leaf L k) = tree_hash node label leaf L (k div 2 ^ L)"
proof (induction L)
  case (Suc L)
  have half: "k div 2 ^ Suc L = k div 2 ^ L div 2" by (simp only: power_Suc2 div_mult2_eq)
  show ?case
    unfolding proof_at_Suc climb_simps Suc tree_hash.simps half
    by (rule half_cases [of "k div 2 ^ L"]) (simp_all add: climb_step_def)
qed (simp add: proof_at_def)

text \<open>The siblings do not change when the leaf does, and only labels on its path do.\<close>

definition agree_off_path :: "nat \<Rightarrow> (nat \<Rightarrow> nat \<Rightarrow> 'd) \<Rightarrow> (nat \<Rightarrow> 'h) \<Rightarrow> (nat \<Rightarrow> nat \<Rightarrow> 'd) \<Rightarrow> (nat \<Rightarrow> 'h) \<Rightarrow> bool" where
  "agree_off_path k label leaf label' leaf' \<longleftrightarrow>
    (\<forall>j. j \<noteq> k \<longrightarrow> leaf j = leaf' j) \<and> (\<forall>i j. j \<noteq> k div 2 ^ i \<longrightarrow> label i j = label' i j)"

lemma tree_hash_off_path:
  assumes "agree_off_path k label leaf label' leaf'" "j \<noteq> k div 2 ^ d"
  shows "tree_hash node label leaf d j = tree_hash node label' leaf' d j"
  using assms(2)
proof (induction d arbitrary: j)
  case 0
  then show ?case using assms(1) by (simp add: agree_off_path_def)
next
  case (Suc d)
  then have "j \<noteq> k div 2 ^ d div 2" by (simp add: power_Suc2 div_mult2_eq del: power_Suc)
  then have "2 * j \<noteq> k div 2 ^ d" "2 * j + 1 \<noteq> k div 2 ^ d" by auto
  with Suc.prems assms(1) show ?case by (simp add: Suc.IH agree_off_path_def del: power_Suc)
qed

lemma sibling_neq: "sibling m \<noteq> m"
  by (auto simp: sibling_def elim: oddE)

definition relabel :: "('d, 'h) tree_step list \<Rightarrow> 'd list \<Rightarrow> ('d, 'h) tree_step list" where
  "relabel xs ds = map2 (\<lambda>(_, sib, b) d. (d, sib, b)) xs ds"

lemma relabel_proof_at:
  assumes "agree_off_path k label leaf label' leaf'"
  shows "relabel (proof_at node label leaf L k) (map (\<lambda>i. label' (Suc i) (k div 2 ^ Suc i)) [0..<L]) = proof_at node label' leaf' L k"
  using tree_hash_off_path [OF assms sibling_neq]
  by (intro nth_equalityI) (simp_all add: relabel_def proof_at_nth del: power_Suc)

section \<open>Interface to the hash function\<close>

primrec climb_inputs :: "('d \<Rightarrow> 'h \<Rightarrow> 'h \<Rightarrow> 'h) \<Rightarrow> 'h \<Rightarrow> ('d, 'h) tree_step list \<Rightarrow> ('d \<times> 'h \<times> 'h) list" where
  "climb_inputs node s [] = []"
| "climb_inputs node s (x # xs) = climb_input s x # climb_inputs node (climb_step node s x) xs"

lemma length_climb_inputs [simp]: "length (climb_inputs node s xs) = length xs"
  by (induction xs arbitrary: s) simp_all

lemma climb_input_eq:
  "climb_input s x = climb_input t y \<Longrightarrow> step_side x = step_side y \<Longrightarrow> s = t \<and> x = y"
  by (cases x; cases y) (auto simp: step_side_def split: if_splits)

locale hash_tree =
  fixes node :: "'d \<Rightarrow> 'h \<Rightarrow> 'h \<Rightarrow> 'h"
    and clash :: "'d \<times> 'h \<times> 'h \<Rightarrow> 'd \<times> 'h \<times> 'h \<Rightarrow> bool"
  assumes node_eq: "node d l r = node d' l' r' \<Longrightarrow> (d, l, r) = (d', l', r') \<or> clash (d, l, r) (d', l', r')"
begin

lemma climb_step_eq:
  assumes "climb_step node s x = climb_step node t y" "step_side x = step_side y"
  shows "s = t \<and> x = y \<or> clash (climb_input s x) (climb_input t y)"
  using assms(1) climb_input_eq [of s x t y, OF _ assms(2)]
  by (auto simp: climb_step_def split: prod.splits dest: node_eq)

text \<open>Two proofs with the same sides and the same root are equal and start at the same leaf, or they collide.\<close>

lemma climb_binding:
  assumes "climb node s xs = climb node t ys" "map step_side xs = map step_side ys"
  shows "s = t \<and> xs = ys \<or> (\<exists>i<length xs. clash (climb_inputs node s xs ! i) (climb_inputs node t ys ! i))"
  using assms
proof (induction xs arbitrary: s t ys)
  case (Cons x xs)
  then obtain y ys' where ys: "ys = y # ys'" by (cases ys) auto
  have sides: "map step_side xs = map step_side ys'" "step_side x = step_side y" using Cons.prems by (simp_all add: ys)
  from Cons.IH [OF _ sides(1), of "climb_step node s x" "climb_step node t y"] Cons.prems(1)
  consider "climb_step node s x = climb_step node t y" "xs = ys'"
    | i where "i < length xs" "clash (climb_inputs node (climb_step node s x) xs ! i) (climb_inputs node (climb_step node t y) ys' ! i)"
    by (auto simp: ys)
  then show ?case
  proof cases
    case 1
    from climb_step_eq [OF 1(1) sides(2)] 1(2) show ?thesis unfolding ys by (auto intro: exI [of _ 0])
  next
    case 2
    then show ?thesis unfolding ys by (intro disjI2 exI [of _ "Suc i"]) simp
  qed
qed simp

text \<open>
  A proof that is accepted against the root of a tree is the proof of the tree, and its leaf is the leaf
  stored there, or it exhibits a collision with the inputs hashed in the tree.
\<close>

lemma accepted_proof:
  assumes "climb node s xs = tree_hash node label leaf L (k div 2 ^ L)" "map step_side xs = index_bits L k"
  shows "s = leaf k \<and> xs = proof_at node label leaf L k
    \<or> (\<exists>i<L. clash (climb_inputs node s xs ! i) (climb_inputs node (leaf k) (proof_at node label leaf L k) ! i))"
proof -
  have "length xs = L" using arg_cong [OF assms(2), of length] by (simp add: index_bits_def)
  with climb_binding [of s xs "leaf k" "proof_at node label leaf L k"] assms show ?thesis
    by (simp add: climb_proof_at step_sides_proof_at)
qed

end

end
