(* ===== verification/Merkle.thy ===== *)
theory Merkle
  imports Byte_Gate Circuit_Loops Hash_Tree
begin

text \<open>
  Hashing in circuits (\<open>hash_utils.rs\<close>, and the sponge of plonky2's \<open>hash/hashing.rs\<close>) and the Merkle
  proofs built on it (\<open>merkle_helpers.rs\<close>). The permutation of the hash function is a parameter \<open>perm\<close> on
  lists of twelve field elements: nothing is assumed of it, so the theorems hold for Poseidon2 in particular,
  and security statements exhibit a collision of the compression function instead of excluding one.
\<close>

section \<open>Hashing of values\<close>

definition NUM_HASH_OUT_ELTS :: nat where "NUM_HASH_OUT_ELTS = 4"
definition SPONGE_RATE :: nat where "SPONGE_RATE = 8"
definition SPONGE_WIDTH :: nat where "SPONGE_WIDTH = 12"

type_synonym permutation = "gf list \<Rightarrow> gf list"
type_synonym hash_out = "gf list"
type_synonym hash_out_target = "target list"

definition squeeze_hash :: "'a list \<Rightarrow> 'a list" where
  "squeeze_hash state = map ((!) state) [0..<NUM_HASH_OUT_ELTS]"

text \<open>\<open>two_to_one\<close> (\<open>compress\<close>), the value of \<open>hash_two_to_one\<close>.\<close>

definition two_to_one :: "permutation \<Rightarrow> hash_out \<Rightarrow> hash_out \<Rightarrow> hash_out" where
  "two_to_one perm x y = squeeze_hash (perm (x @ y @ replicate 4 0))"

fun chunks_of :: "nat \<Rightarrow> 'a list \<Rightarrow> 'a list list" where
  "chunks_of n xs = (if n = 0 \<or> xs = [] then [] else take n xs # chunks_of n (drop n xs))"

declare chunks_of.simps [simp del]

text \<open>\<open>set_from_slice\<close> overwrites the first elements of the state.\<close>

definition set_from_slice :: "'a list \<Rightarrow> 'a list \<Rightarrow> 'a list" where
  "set_from_slice chunk state = chunk @ drop (length chunk) state"

definition hash_no_pad :: "permutation \<Rightarrow> gf list \<Rightarrow> hash_out" where
  "hash_no_pad perm inputs =
    squeeze_hash (fold (\<lambda>chunk state. map ((!) (perm (set_from_slice chunk state))) [0..<SPONGE_WIDTH])
      (chunks_of SPONGE_RATE inputs) (replicate SPONGE_WIDTH 0))"

section \<open>Hashing in the circuit\<close>

text \<open>
  A row of the permutation gate: its swap wire is Boolean, and the first two groups of four inputs are
  exchanged before the permutation when it is set.
\<close>

definition permute_swapped :: "permutation \<Rightarrow> target list \<Rightarrow> target \<Rightarrow> target list circ" where
  "permute_swapped perm inputs swap =
    circ_bind (circ_assert (tval swap * (tval swap - 1) = 0)) (\<lambda>_.
    let state = map tval inputs;
        state = (if tval swap = 1 then take 4 (drop 4 state) @ take 4 state @ drop 8 state else state) in
    circ_return (map (\<lambda>i. Wire (perm state ! i)) [0..<SPONGE_WIDTH]))"

definition hash_two_to_one_swap :: "permutation \<Rightarrow> hash_out_target \<Rightarrow> hash_out_target \<Rightarrow> target \<Rightarrow> hash_out_target circ" where
  "hash_two_to_one_swap perm left right swap =
    circ_bind (permute_swapped perm (left @ right @ replicate 4 (Const 0)) swap) (\<lambda>perm_outs.
    circ_return (squeeze_hash perm_outs))"

definition hash_two_to_one :: "permutation \<Rightarrow> hash_out_target \<Rightarrow> hash_out_target \<Rightarrow> hash_out_target circ" where
  "hash_two_to_one perm left right = hash_two_to_one_swap perm left right (Const 0)"

definition hash_n_to_one :: "permutation \<Rightarrow> hash_out_target list \<Rightarrow> hash_out_target circ" where
  "hash_n_to_one perm elements =
    circ_bind (circ_panic_unless (elements \<noteq> [])) (\<lambda>_.
    if length elements = 1 then circ_return (elements ! 0)
    else circ_bind (hash_two_to_one perm (elements ! 0) (elements ! 1)) (\<lambda>result.
      circ_fold (\<lambda>e result. hash_two_to_one perm result e) (drop 2 elements) result))"

definition hash_n_to_hash_no_pad :: "permutation \<Rightarrow> target list \<Rightarrow> hash_out_target circ" where
  "hash_n_to_hash_no_pad perm inputs =
    circ_bind (circ_fold (\<lambda>chunk state. permute_swapped perm (set_from_slice chunk state) (Const 0))
      (chunks_of SPONGE_RATE inputs) (replicate SPONGE_WIDTH (Const 0))) (\<lambda>state.
    circ_return (squeeze_hash state))"

definition is_equal_hash :: "hash_out_target \<Rightarrow> hash_out_target \<Rightarrow> target circ" where
  "is_equal_hash a b =
    circ_bind (circ_map (\<lambda>i. is_equal (a ! i) (b ! i)) [0..<NUM_HASH_OUT_ELTS]) (\<lambda>assertions.
    circ_return (multi_and assertions))"

definition conditional_assert_eq_hash :: "target \<Rightarrow> hash_out_target \<Rightarrow> hash_out_target \<Rightarrow> unit circ" where
  "conditional_assert_eq_hash is_enabled a b =
    circ_bind (circ_panic_unless (length a = NUM_HASH_OUT_ELTS)) (\<lambda>_.
    circ_bind (circ_panic_unless (length b = NUM_HASH_OUT_ELTS)) (\<lambda>_.
    circ_for [0..<NUM_HASH_OUT_ELTS] (\<lambda>i. conditional_assert_eq is_enabled (a ! i) (b ! i))))"

definition select_hash :: "target \<Rightarrow> hash_out_target \<Rightarrow> hash_out_target \<Rightarrow> hash_out_target" where
  "select_hash b h0 h1 = map (\<lambda>i. select b (h0 ! i) (h1 ! i)) [0..<NUM_HASH_OUT_ELTS]"

definition zero_hash_out :: hash_out_target where
  "zero_hash_out = replicate NUM_HASH_OUT_ELTS (Const 0)"

definition is_zero_hash_out :: "hash_out_target \<Rightarrow> target circ" where
  "is_zero_hash_out a =
    circ_bind (circ_map (\<lambda>i. is_zero (a ! i)) [0..<NUM_HASH_OUT_ELTS]) (\<lambda>assertions.
    circ_return (multi_and assertions))"

definition connect_hashes :: "hash_out_target \<Rightarrow> hash_out_target \<Rightarrow> unit circ" where
  "connect_hashes x y = circ_for [0..<NUM_HASH_OUT_ELTS] (\<lambda>i. connect (x ! i) (y ! i))"

section \<open>Merkle proofs\<close>

definition ACCOUNT_MERKLE_LEVELS :: nat where "ACCOUNT_MERKLE_LEVELS = 48"
definition API_KEY_MERKLE_LEVELS :: nat where "API_KEY_MERKLE_LEVELS = 8"
definition ACCOUNT_ORDERS_MERKLE_LEVELS :: nat where "ACCOUNT_ORDERS_MERKLE_LEVELS = 60"
definition POSITION_MERKLE_LEVELS :: nat where "POSITION_MERKLE_LEVELS = 8"
definition MARKET_MERKLE_LEVELS :: nat where "MARKET_MERKLE_LEVELS = 12"
definition ASSET_MERKLE_LEVELS :: nat where "ASSET_MERKLE_LEVELS = 6"
definition CLIENT_ORDER_INDEX_BITS :: nat where "CLIENT_ORDER_INDEX_BITS = 48"

definition account_index_to_merkle_path :: "target \<Rightarrow> target list circ" where
  "account_index_to_merkle_path account_index = split_le account_index ACCOUNT_MERKLE_LEVELS"

definition account_order_index_to_merkle_path :: "target \<Rightarrow> target list circ" where
  "account_order_index_to_merkle_path index = split_le index ACCOUNT_ORDERS_MERKLE_LEVELS"

definition account_client_order_index_to_merkle_path :: "target \<Rightarrow> target list circ" where
  "account_client_order_index_to_merkle_path index =
    circ_bind (split_le index CLIENT_ORDER_INDEX_BITS) (\<lambda>bits.
    circ_return (bits @ replicate (ACCOUNT_ORDERS_MERKLE_LEVELS - length bits) (Const 0)))"

definition api_key_index_to_merkle_path :: "target \<Rightarrow> target list circ" where
  "api_key_index_to_merkle_path api_key_index = split_le api_key_index API_KEY_MERKLE_LEVELS"

definition asset_index_to_merkle_path :: "target \<Rightarrow> target list circ" where
  "asset_index_to_merkle_path asset_index = split_le asset_index ASSET_MERKLE_LEVELS"

definition perps_market_index_to_merkle_path :: "target \<Rightarrow> target list circ" where
  "perps_market_index_to_merkle_path market_index = split_le market_index POSITION_MERKLE_LEVELS"

definition market_index_to_merkle_path :: "target \<Rightarrow> target list circ" where
  "market_index_to_merkle_path market_index = split_le market_index MARKET_MERKLE_LEVELS"

definition recalculate_root :: "permutation \<Rightarrow> hash_out_target \<Rightarrow> hash_out_target list \<Rightarrow> target list \<Rightarrow> hash_out_target circ" where
  "recalculate_root perm leaf proofs helpers =
    circ_fold (\<lambda>(helper, sib) state. hash_two_to_one_swap perm state sib helper) (zip helpers proofs) leaf"

definition verify_merkle_proof ::
  "permutation \<Rightarrow> hash_out_target \<Rightarrow> hash_out_target \<Rightarrow> hash_out_target list \<Rightarrow> target list \<Rightarrow> unit circ" where
  "verify_merkle_proof perm root leaf proofs helpers =
    circ_bind (circ_fold (\<lambda>(helper, sib) state. hash_two_to_one_swap perm state sib helper) (zip helpers proofs) leaf)
      (\<lambda>state. connect_hashes state root)"

definition conditional_verify_merkle_proof ::
  "permutation \<Rightarrow> target \<Rightarrow> hash_out_target \<Rightarrow> hash_out_target \<Rightarrow> hash_out_target list \<Rightarrow> target list \<Rightarrow> unit circ" where
  "conditional_verify_merkle_proof perm condition root leaf proofs helpers =
    circ_bind (circ_fold (\<lambda>(helper, sib) state. hash_two_to_one_swap perm state sib helper) (zip helpers proofs) leaf)
      (\<lambda>state. conditional_assert_eq_hash condition state root)"

definition try_verify_merkle_proof ::
  "permutation \<Rightarrow> hash_out_target \<Rightarrow> hash_out_target \<Rightarrow> hash_out_target list \<Rightarrow> target list \<Rightarrow> target circ" where
  "try_verify_merkle_proof perm root leaf proofs helpers =
    circ_bind (circ_fold (\<lambda>(helper, sib) state. hash_two_to_one_swap perm state sib helper) (zip helpers proofs) leaf)
      (\<lambda>state. is_equal_hash state root)"

section \<open>Contracts of the hash gadgets\<close>

abbreviation hval :: "hash_out_target \<Rightarrow> hash_out" where
  "hval \<equiv> map tval"

definition hash_ok :: "hash_out_target \<Rightarrow> hash_out \<Rightarrow> bool" where
  "hash_ok h v \<longleftrightarrow> length h = NUM_HASH_OUT_ELTS \<and> hval h = v"

lemma hash_okD: "hash_ok h v \<Longrightarrow> length h = 4" "hash_ok h v \<Longrightarrow> hval h = v" "hash_ok h v \<Longrightarrow> length v = 4"
  by (auto simp: hash_ok_def NUM_HASH_OUT_ELTS_def)

lemma hash_ok_hval: "length h = 4 \<Longrightarrow> hash_ok h (hval h)"
  by (simp add: hash_ok_def NUM_HASH_OUT_ELTS_def)

lemma hash_ok_nth_iff: "hash_ok h v \<longleftrightarrow> length h = 4 \<and> length v = 4 \<and> (\<forall>i<4. tval (h ! i) = v ! i)"
  by (auto simp: hash_ok_def NUM_HASH_OUT_ELTS_def intro!: nth_equalityI)

lemma hash_ok_eq_iff: "hash_ok a v \<Longrightarrow> hash_ok b w \<Longrightarrow> v = w \<longleftrightarrow> (\<forall>i\<in>set [0..<NUM_HASH_OUT_ELTS]. tval (a ! i) = tval (b ! i))"
  by (auto simp: hash_ok_nth_iff NUM_HASH_OUT_ELTS_def atLeast0LessThan intro!: nth_equalityI)

lemma length_two_to_one [simp]: "length (two_to_one perm x y) = 4"
  by (simp add: two_to_one_def squeeze_hash_def NUM_HASH_OUT_ELTS_def)

lemma hash_ok_zero: "hash_ok zero_hash_out (replicate 4 0)"
  by (simp add: hash_ok_def zero_hash_out_def NUM_HASH_OUT_ELTS_def)

lemma hash_ok_select: "bval c e \<Longrightarrow> hash_ok a v \<Longrightarrow> hash_ok b w \<Longrightarrow> hash_ok (select_hash c a b) (if e then v else w)"
  by (simp add: hash_ok_nth_iff select_hash_def NUM_HASH_OUT_ELTS_def tval_select)

lemma implements_is_equal_hash:
  assumes "hash_ok a v" "hash_ok b w"
  shows "implements (is_equal_hash a b) (\<lambda>r. bval r (v = w))"
  unfolding is_equal_hash_def hash_ok_eq_iff [OF assms]
  by (rule implements_all_tests [OF implements_is_equal]) (simp add: NUM_HASH_OUT_ELTS_def)

lemma realises_connect_hashes:
  assumes "hash_ok a v" "hash_ok b w"
  shows "realises (connect_hashes a b) (v = w) (\<lambda>_. True)"
  unfolding connect_hashes_def hash_ok_eq_iff [OF assms] by (rule realises_for) (rule realises_connect)

lemma realises_conditional_assert_eq_hash:
  assumes "bval c e" "hash_ok a v" "hash_ok b w"
  shows "realises (conditional_assert_eq_hash c a b) (e \<longrightarrow> v = w) (\<lambda>_. True)"
  unfolding conditional_assert_eq_hash_def
  using assms(2,3)
  by (intro realises_after [OF implements_panic] realises_weaken [OF realises_for [OF realises_conditional_assert_eq [OF assms(1)]]])
    (auto simp: hash_okD NUM_HASH_OUT_ELTS_def hash_ok_eq_iff)

lemma implements_permute_swapped:
  assumes "bval s e" "length inputs = 12"
  shows "implements (permute_swapped perm inputs s) (\<lambda>out. length out = 12
    \<and> hval out = map ((!) (perm (let v = hval inputs in if e then take 4 (drop 4 v) @ take 4 v @ drop 8 v else v))) [0..<SPONGE_WIDTH])"
proof -
  have "tval s * (tval s - 1) = 0" "tval s = 1 \<longleftrightarrow> e" using assms(1) by (auto simp: bval_def)
  then show ?thesis
    unfolding permute_swapped_def Let_def
    by (intro implements_bind [OF implements_assert] implements_return) (simp_all add: SPONGE_WIDTH_def comp_def)
qed

lemma implements_hash_two_to_one_swap:
  assumes "hash_ok l v" "hash_ok r w" "bval s e"
  shows "implements (hash_two_to_one_swap perm l r s) (\<lambda>h. hash_ok h (if e then two_to_one perm w v else two_to_one perm v w))"
  unfolding hash_two_to_one_swap_def
proof (rule implements_bind [OF implements_permute_swapped [OF assms(3)]], use hash_okD [OF assms(1)] hash_okD [OF assms(2)] in simp,
    rule implements_return, elim conjE)
  fix out assume len: "length out = 12" and out: "hval out = map ((!) (perm (let v = hval (l @ r @ replicate 4 (Const 0))
      in if e then take 4 (drop 4 v) @ take 4 v @ drop 8 v else v))) [0..<SPONGE_WIDTH]"
  note hs = hash_okD [OF assms(1)] hash_okD [OF assms(2)]
  have nth: "tval (out ! i) = perm (let v = hval (l @ r @ replicate 4 (Const 0))
      in if e then take 4 (drop 4 v) @ take 4 v @ drop 8 v else v) ! i" if "i < 4" for i
    using arg_cong [OF out, of "\<lambda>xs. xs ! i"] that len by (simp add: SPONGE_WIDTH_def)
  show "hash_ok (squeeze_hash out) (if e then two_to_one perm w v else two_to_one perm v w)"
    using hs nth by (simp add: hash_ok_nth_iff squeeze_hash_def two_to_one_def NUM_HASH_OUT_ELTS_def Let_def del: upt_rec_numeral)
qed

lemma implements_hash_two_to_one:
  "hash_ok l v \<Longrightarrow> hash_ok r w \<Longrightarrow> implements (hash_two_to_one perm l r) (\<lambda>h. hash_ok h (two_to_one perm v w))"
  using implements_hash_two_to_one_swap [of l v r w "Const 0" False] by (simp add: hash_two_to_one_def bval_Const)

lemma implements_hash_n_to_one:
  assumes "list_all2 hash_ok es vs" "es \<noteq> []"
  shows "implements (hash_n_to_one perm es) (\<lambda>h. hash_ok h (foldl (two_to_one perm) (hd vs) (tl vs)))"
proof -
  have loop: "implements (circ_fold (\<lambda>e result. hash_two_to_one perm result e) es h) (\<lambda>h. hash_ok h (foldl (two_to_one perm) v vs))"
    if "list_all2 hash_ok es vs" "hash_ok h v" for es vs h v
    using that
  proof (induction arbitrary: h v rule: list_all2_induct)
    case (Cons e es w vs)
    then show ?case by (simp add: implements_bind [OF implements_hash_two_to_one [OF Cons.prems Cons.hyps(1)]])
  qed (simp add: implements_return)
  obtain e es' where es: "es = e # es'" using assms(2) by (cases es) auto
  obtain v vs' where vs: "vs = v # vs'" "hash_ok e v" "list_all2 hash_ok es' vs'" using assms(1) by (auto simp: es list_all2_Cons1)
  show ?thesis
  proof (cases es')
    case Nil
    then show ?thesis
      using vs by (simp add: hash_n_to_one_def es implements_bind [OF implements_panic] implements_return)
  next
    case (Cons e2 es2)
    obtain v2 vs2 where v2: "vs' = v2 # vs2" "hash_ok e2 v2" "list_all2 hash_ok es2 vs2" using vs(3) by (auto simp: Cons list_all2_Cons1)
    show ?thesis
      unfolding hash_n_to_one_def
      by (rule implements_bind [OF implements_panic], simp add: es)
        (simp add: es Cons vs v2 numeral_2_eq_2 implements_bind [OF implements_hash_two_to_one [OF vs(2) v2(2)] loop [OF v2(3)]])
  qed
qed

lemma chunks_of_bound: "c \<in> set (chunks_of n xs) \<Longrightarrow> length c \<le> n"
proof (induction n xs rule: chunks_of.induct)
  case (1 n xs)
  from 1(2) have "n \<noteq> 0 \<and> xs \<noteq> [] \<and> (c = take n xs \<or> c \<in> set (chunks_of n (drop n xs)))"
    unfolding chunks_of.simps [of n xs] by (simp split: if_splits)
  with 1(1) show ?case by auto
qed

lemma map_chunks_of: "map (map f) (chunks_of n xs) = chunks_of n (map f xs)"
proof (induction n xs rule: chunks_of.induct)
  case (1 n xs)
  then show ?case
    unfolding chunks_of.simps [of n xs] chunks_of.simps [of n "map f xs"] by (simp add: take_map drop_map)
qed

lemma implements_hash_n_to_hash_no_pad:
  "implements (hash_n_to_hash_no_pad perm inputs) (\<lambda>h. hash_ok h (hash_no_pad perm (map tval inputs)))"
proof -
  let ?f = "\<lambda>chunk state. permute_swapped perm (set_from_slice chunk state) (Const 0)"
  let ?g = "\<lambda>chunk state. map ((!) (perm (set_from_slice chunk state))) [0..<SPONGE_WIDTH]"
  have step: "implements (?f c s) (\<lambda>t. length t = 12 \<and> hval t = ?g (map tval c) (hval s))"
    if "c \<in> set (chunks_of SPONGE_RATE inputs)" "length s = 12" for c s
  proof -
    have "length c \<le> 8" using chunks_of_bound [OF that(1)] by (simp add: SPONGE_RATE_def)
    then have "length (set_from_slice c s) = 12" using that(2) by (simp add: set_from_slice_def)
    from implements_permute_swapped [OF bval_Const(2) this, of perm] show ?thesis
      by (simp add: set_from_slice_def drop_map)
  qed
  have "implements (circ_fold ?f (chunks_of SPONGE_RATE inputs) (replicate SPONGE_WIDTH (Const 0)))
      (\<lambda>t. length t = 12 \<and> hval t = fold (\<lambda>c. ?g (map tval c)) (chunks_of SPONGE_RATE inputs) (hval (replicate SPONGE_WIDTH (Const 0))))"
    by (rule implements_fold_view [where ok = "\<lambda>s. length s = 12"]) (use step in \<open>simp_all add: SPONGE_WIDTH_def\<close>)
  note loop = this
  show ?thesis
    unfolding hash_n_to_hash_no_pad_def
  proof (rule implements_bind [OF loop], rule implements_return, elim conjE)
    fix t :: "target list" assume t: "length t = 12"
      "hval t = fold (\<lambda>c. ?g (map tval c)) (chunks_of SPONGE_RATE inputs) (hval (replicate SPONGE_WIDTH (Const 0)))"
    have "fold (\<lambda>c. ?g (map tval c)) (chunks_of SPONGE_RATE inputs) = fold ?g (chunks_of SPONGE_RATE (map tval inputs))"
      unfolding map_chunks_of [symmetric] by (simp add: fold_map comp_def)
    with t show "hash_ok (squeeze_hash t) (hash_no_pad perm (map tval inputs))"
      by (simp add: hash_ok_def hash_no_pad_def squeeze_hash_def NUM_HASH_OUT_ELTS_def flip: nth_map)
  qed
qed

section \<open>Merkle trees\<close>

text \<open>The tree of the leaf hashes \<open>f\<close>, its root, and the steps a proof and the sides of its path give.\<close>

definition merkle_node :: "permutation \<Rightarrow> unit \<Rightarrow> hash_out \<Rightarrow> hash_out \<Rightarrow> hash_out" where
  "merkle_node perm _ l r = two_to_one perm l r"

definition merkle_root :: "permutation \<Rightarrow> nat \<Rightarrow> (nat \<Rightarrow> hash_out) \<Rightarrow> hash_out" where
  "merkle_root perm L f = tree_hash (merkle_node perm) (\<lambda>_ _. ()) f L 0"

definition merkle_proof :: "permutation \<Rightarrow> nat \<Rightarrow> (nat \<Rightarrow> hash_out) \<Rightarrow> nat \<Rightarrow> (unit, hash_out) tree_step list" where
  "merkle_proof perm L f k = proof_at (merkle_node perm) (\<lambda>_ _. ()) f L k"

definition merkle_steps :: "hash_out_target list \<Rightarrow> bool list \<Rightarrow> (unit, hash_out) tree_step list" where
  "merkle_steps proofs bs = map2 (\<lambda>p b. ((), hval p, b)) proofs bs"

definition hash_collision :: "permutation \<Rightarrow> hash_out \<times> hash_out \<Rightarrow> hash_out \<times> hash_out \<Rightarrow> bool" where
  "hash_collision perm x y \<longleftrightarrow> x \<noteq> y \<and> two_to_one perm (fst x) (snd x) = two_to_one perm (fst y) (snd y)"

definition merkle_clash :: "permutation \<Rightarrow> unit \<times> hash_out \<times> hash_out \<Rightarrow> unit \<times> hash_out \<times> hash_out \<Rightarrow> bool" where
  "merkle_clash perm x y \<longleftrightarrow> hash_collision perm (snd x) (snd y)"

interpretation merkle: hash_tree "merkle_node perm" "merkle_clash perm" for perm
  by unfold_locales (auto simp: merkle_node_def merkle_clash_def hash_collision_def)

lemma climb_step_merkle:
  "climb_step (merkle_node perm) v ((), w, b) = (if b then two_to_one perm w v else two_to_one perm v w)"
  by (simp add: climb_step_def merkle_node_def)

lemma implements_merkle_climb:
  assumes "list_all2 bval helpers bs" "length proofs = length helpers" "\<forall>p\<in>set proofs. length p = 4" "hash_ok leaf v"
  shows "implements (circ_fold (\<lambda>(helper, sib) state. hash_two_to_one_swap perm state sib helper) (zip helpers proofs) leaf)
    (\<lambda>h. hash_ok h (climb (merkle_node perm) v (merkle_steps proofs bs)))"
  using assms
proof (induction arbitrary: proofs leaf v rule: list_all2_induct)
  case (Cons h helpers b bs)
  obtain p ps where ps: "proofs = p # ps" using Cons.prems(1) by (cases proofs) auto
  have p: "hash_ok p (hval p)" using Cons.prems(2) by (intro hash_ok_hval) (simp add: ps)
  show ?case
    unfolding ps zip_Cons_Cons circ_fold.simps prod.case
  proof (rule implements_bind [OF implements_hash_two_to_one_swap [OF Cons.prems(3) p Cons.hyps(1)]])
    fix s assume "hash_ok s (if b then two_to_one perm (hval p) v else two_to_one perm v (hval p))"
    then have "hash_ok s (climb_step (merkle_node perm) v ((), hval p, b))" by (simp only: climb_step_merkle)
    from Cons.IH [OF _ _ this, of ps] Cons.prems show "implements (circ_fold (\<lambda>(helper, sib) state.
        hash_two_to_one_swap perm state sib helper) (zip helpers ps) s)
      (\<lambda>h. hash_ok h (climb (merkle_node perm) v (merkle_steps (p # ps) (b # bs))))"
      by (simp add: ps merkle_steps_def)
  qed
qed (simp add: merkle_steps_def implements_return)

lemmas implements_recalculate_root = implements_merkle_climb [folded recalculate_root_def]

lemma realises_verify_merkle_proof:
  assumes "list_all2 bval helpers bs" "length proofs = length helpers" "\<forall>p\<in>set proofs. length p = 4" "hash_ok leaf v"
    and root: "hash_ok root r"
  shows "realises (verify_merkle_proof perm root leaf proofs helpers) (climb (merkle_node perm) v (merkle_steps proofs bs) = r) (\<lambda>_. True)"
  unfolding verify_merkle_proof_def
  by (rule realises_after [OF implements_merkle_climb [OF assms(1-4)]]) (rule realises_connect_hashes [OF _ root])

lemma realises_conditional_verify_merkle_proof:
  assumes "list_all2 bval helpers bs" "length proofs = length helpers" "\<forall>p\<in>set proofs. length p = 4" "hash_ok leaf v"
    and root: "hash_ok root r" and c: "bval c e"
  shows "realises (conditional_verify_merkle_proof perm c root leaf proofs helpers)
    (e \<longrightarrow> climb (merkle_node perm) v (merkle_steps proofs bs) = r) (\<lambda>_. True)"
  unfolding conditional_verify_merkle_proof_def
  by (rule realises_after [OF implements_merkle_climb [OF assms(1-4)]]) (rule realises_conditional_assert_eq_hash [OF c _ root])

lemma implements_try_verify_merkle_proof:
  assumes "list_all2 bval helpers bs" "length proofs = length helpers" "\<forall>p\<in>set proofs. length p = 4" "hash_ok leaf v"
    and root: "hash_ok root r"
  shows "implements (try_verify_merkle_proof perm root leaf proofs helpers)
    (\<lambda>t. bval t (climb (merkle_node perm) v (merkle_steps proofs bs) = r))"
  unfolding try_verify_merkle_proof_def
  by (rule implements_bind [OF implements_merkle_climb [OF assms(1-4)]]) (rule implements_is_equal_hash [OF _ root])

text \<open>The path of an index is made of its bits.\<close>

lemma le_digits_bits: "le_digits 2 n x = map of_bool (index_bits n x)"
proof (induction n)
  case (Suc n)
  have "le_digits 2 (n + 1) x = le_digits 2 n x @ le_digits 2 1 (x div 2 ^ n)" by (rule le_digits_append)
  then show ?case by (simp add: Suc index_bits_def of_bool_odd_eq_mod_2)
qed (simp add: index_bits_def)

lemma realises_split_le_bits:
  assumes "n \<le> 63" "n \<noteq> 0"
  shows "realises (split_le x n) (uval x < 2 ^ n) (\<lambda>ts. list_all2 bval ts (index_bits n (uval x)))"
proof (rule realises_weaken [OF realises_split_le [OF assms]])
  fix ts assume "map uval ts = le_digits 2 n (uval x)"
  then have "map uval ts = map of_bool (index_bits n (uval x))" by (simp only: le_digits_bits)
  then show "list_all2 bval ts (index_bits n (uval x))"
    by (auto simp: list_all2_conv_all_nth bval_iff_uval list_eq_iff_nth_eq)
qed simp

lemma index_bits_pad: "x < 2 ^ m \<Longrightarrow> m \<le> n \<Longrightarrow> index_bits n x = index_bits m x @ replicate (n - m) False"
proof (induction n)
  case (Suc n)
  show ?case
  proof (cases "m = Suc n")
    case False
    with Suc.prems have "m \<le> n" by simp
    moreover from this have "x < 2 ^ n" using pow2_mono_less Suc.prems(1) by blast
    ultimately show ?thesis
      using Suc by (simp add: index_bits_def Suc_diff_le replicate_append_same)
  qed simp
qed (simp add: index_bits_def)

lemma realises_client_order_path:
  "realises (account_client_order_index_to_merkle_path x) (uval x < 2 ^ 48) (\<lambda>ts. list_all2 bval ts (index_bits 60 (uval x)))"
  unfolding account_client_order_index_to_merkle_path_def CLIENT_ORDER_INDEX_BITS_def
proof (rule realises_then_return [OF realises_split_le_bits])
  fix ts assume lt: "uval x < 2 ^ 48" and ts: "list_all2 bval ts (index_bits 48 (uval x))"
  then have "length ts = 48" by (simp add: list_all2_conv_all_nth index_bits_def)
  with ts show "list_all2 bval (ts @ replicate (ACCOUNT_ORDERS_MERKLE_LEVELS - length ts) (Const 0)) (index_bits 60 (uval x))"
    unfolding index_bits_pad [OF lt, of 60, simplified]
    by (intro list_all2_appendI) (simp_all add: ACCOUNT_ORDERS_MERKLE_LEVELS_def bval_Const list_all2_conv_all_nth)
qed simp_all

section \<open>Updates\<close>

lemma merkle_steps_sides: "length proofs = length bs \<Longrightarrow> map step_side (merkle_steps proofs bs) = bs"
  by (induction proofs bs rule: list_induct2) (simp_all add: merkle_steps_def step_side_def)

lemma merkle_update:
  "climb (merkle_node perm) w (merkle_proof perm L f k) = tree_hash (merkle_node perm) (\<lambda>_ _. ()) (f(k := w)) L (k div 2 ^ L)"
proof -
  have "agree_off_path k (\<lambda>_ _. ()) f (\<lambda>_ _. ()) (f(k := w))" by (simp add: agree_off_path_def)
  from tree_hash_off_path [OF this sibling_neq]
  have "merkle_proof perm L f k = merkle_proof perm L (f(k := w)) k" by (simp add: merkle_proof_def proof_at_def)
  then show ?thesis using climb_proof_at [of "merkle_node perm" "f(k := w)" k "\<lambda>_ _. ()" L] by (simp add: merkle_proof_def)
qed

definition proof_collision :: "permutation \<Rightarrow> nat \<Rightarrow> (nat \<Rightarrow> hash_out) \<Rightarrow> nat \<Rightarrow> hash_out \<Rightarrow> (unit, hash_out) tree_step list \<Rightarrow> bool" where
  "proof_collision perm L f k v steps \<longleftrightarrow> (\<exists>i<L. hash_collision perm
    (snd (climb_inputs (merkle_node perm) v steps ! i))
    (snd (climb_inputs (merkle_node perm) (f k) (merkle_proof perm L f k) ! i)))"

text \<open>Opening a leaf and writing it back, as every state tree of a transaction is updated.\<close>

definition open_and_update ::
  "permutation \<Rightarrow> hash_out_target \<Rightarrow> hash_out_target \<Rightarrow> hash_out_target \<Rightarrow> hash_out_target list \<Rightarrow> target list \<Rightarrow> hash_out_target circ" where
  "open_and_update perm root leaf new_leaf proofs helpers =
    circ_bind (verify_merkle_proof perm root leaf proofs helpers) (\<lambda>_. recalculate_root perm new_leaf proofs helpers)"

lemma realises_open_and_update:
  assumes helpers: "list_all2 bval helpers bs" "length proofs = length helpers" "\<forall>p\<in>set proofs. length p = 4"
    and "hash_ok leaf v" "hash_ok new_leaf w" "hash_ok root r"
  shows "realises (open_and_update perm root leaf new_leaf proofs helpers)
    (climb (merkle_node perm) v (merkle_steps proofs bs) = r) (\<lambda>h. hash_ok h (climb (merkle_node perm) w (merkle_steps proofs bs)))"
  unfolding open_and_update_def
  by (rule realises_bind [where P' = True, simplified, OF realises_verify_merkle_proof [OF helpers assms(4,6)]])
    (simp add: implements_realises [symmetric] implements_recalculate_root [OF helpers assms(5)])

text \<open>
  C29. Authenticated update: whatever siblings the prover supplies, when a leaf is opened at index \<open>k\<close> against
  the root of the tree with leaves \<open>f\<close>, then the opened leaf is \<open>f k\<close> and the recalculated root is the root of
  \<open>f(k := w)\<close>, or the supplied proof contains a collision with a pair hashed in the tree. The siblings of the
  tree itself are accepted for \<open>f k\<close>.
\<close>
theorem merkle_update_authenticated:
  assumes "hash_ok root (merkle_root perm L f)" "k < 2 ^ L" "list_all2 bval helpers (index_bits L k)"
    and "length proofs = L" "\<forall>p\<in>set proofs. length p = 4" "hash_ok leaf v" "hash_ok new_leaf w"
  shows "sound (open_and_update perm root leaf new_leaf proofs helpers)
      (\<lambda>h. v = f k \<and> hash_ok h (merkle_root perm L (f(k := w)))
        \<or> proof_collision perm L f k v (merkle_steps proofs (index_bits L k)))
    \<and> (merkle_steps proofs (index_bits L k) = merkle_proof perm L f k \<and> v = f k \<longrightarrow>
      implements (open_and_update perm root leaf new_leaf proofs helpers) (\<lambda>h. hash_ok h (merkle_root perm L (f(k := w)))))"
proof -
  have k: "k div 2 ^ L = 0" using assms(2) by simp
  have len: "length proofs = length helpers" "length proofs = length (index_bits L k)"
    using assms(3,4) by (simp_all add: list_all2_conv_all_nth index_bits_def)
  let ?xs = "merkle_steps proofs (index_bits L k)"
  note run = realises_open_and_update [OF assms(3) len(1) assms(5,6,7,1)]
  note update = merkle_update [of perm w L f k, unfolded k, folded merkle_root_def]
  show ?thesis
  proof
    show "sound (open_and_update perm root leaf new_leaf proofs helpers)
      (\<lambda>h. v = f k \<and> hash_ok h (merkle_root perm L (f(k := w))) \<or> proof_collision perm L f k v ?xs)"
    proof (rule sound_weaken [OF realises_sound [OF run]], elim conjE)
      fix h assume climbed: "climb (merkle_node perm) v ?xs = merkle_root perm L f"
        and h: "hash_ok h (climb (merkle_node perm) w ?xs)"
      from climbed have "climb (merkle_node perm) v ?xs = tree_hash (merkle_node perm) (\<lambda>_ _. ()) f L (k div 2 ^ L)"
        by (simp add: k merkle_root_def)
      from merkle.accepted_proof [OF this merkle_steps_sides [OF len(2)]] h update
      show "v = f k \<and> hash_ok h (merkle_root perm L (f(k := w))) \<or> proof_collision perm L f k v ?xs"
        unfolding proof_collision_def merkle_proof_def [symmetric] merkle_clash_def by auto
    qed
    have "climb (merkle_node perm) (f k) (merkle_proof perm L f k) = merkle_root perm L f"
      using climb_proof_at [of "merkle_node perm" f k "\<lambda>_ _. ()" L] by (simp add: merkle_proof_def merkle_root_def k)
    then show "?xs = merkle_proof perm L f k \<and> v = f k \<longrightarrow>
        implements (open_and_update perm root leaf new_leaf proofs helpers) (\<lambda>h. hash_ok h (merkle_root perm L (f(k := w))))"
      using realises_implements [OF run [of perm]] update by auto
  qed
qed

lemma merkle_update_authenticated_witness:
  "complete (open_and_update (\<lambda>s. s) zero_hash_out zero_hash_out [Const 1, Const 0, Const 0, Const 0] [zero_hash_out] [Const 0])
    (\<lambda>h. hash_ok h (merkle_root (\<lambda>s. s) 1 ((\<lambda>_. replicate 4 0)(0 := [1, 0, 0, 0]))))"
proof -
  have root: "merkle_root (\<lambda>s. s) 1 (\<lambda>_. replicate 4 0) = replicate 4 0"
    by (simp add: merkle_root_def merkle_node_def two_to_one_def squeeze_hash_def NUM_HASH_OUT_ELTS_def numeral_eq_Suc)
  have bits: "index_bits 1 0 = [False]" by (simp add: index_bits_def)
  have steps: "merkle_steps [zero_hash_out] (index_bits 1 0) = merkle_proof (\<lambda>s. s) 1 (\<lambda>_. replicate 4 0) 0"
    by (simp add: bits merkle_steps_def merkle_proof_def proof_at_def zero_hash_out_def NUM_HASH_OUT_ELTS_def del: One_nat_def) simp
  have "hash_ok zero_hash_out (merkle_root (\<lambda>s. s) 1 (\<lambda>_. replicate 4 0))" unfolding root by (rule hash_ok_zero)
  moreover have "hash_ok [Const 1, Const 0, Const 0, Const 0] [1, 0, 0, 0]"
    by (simp add: hash_ok_def NUM_HASH_OUT_ELTS_def)
  ultimately show ?thesis
    using merkle_update_authenticated [of zero_hash_out "\<lambda>s. s" 1 "\<lambda>_. replicate 4 0" 0 "[Const 0]" "[zero_hash_out]"
        zero_hash_out "replicate 4 0" "[Const 1, Const 0, Const 0, Const 0]" "[1, 0, 0, 0]"] steps hash_ok_zero
    by (simp add: bits bval_Const implements_def zero_hash_out_def NUM_HASH_OUT_ELTS_def del: One_nat_def)
qed

end
