(* ===== verification/Order_Book.thy ===== *)
theory Order_Book
  imports Merkle Comparison Exchange_Types
begin

text \<open>
  The order book (\<open>types/order.rs\<close>, \<open>types/order_book_node.rs\<close>, \<open>order_book_tree_helpers.rs\<close>, and the parts of
  \<open>matching_engine.rs\<close> that read and update it). The book of a market is a hash tree over keys of 80 bits,
  price first and nonce second. A leaf holds the open size and quote of an order on either side, and an inner
  node the sums over its subtree, which are part of what is hashed. So one path authenticates an order and the
  total size and quote of all orders with better priority. The abstract book is a function from keys to four
  amounts.
\<close>

section \<open>Orders and nodes\<close>

definition ORDER_NONCE_BITS :: nat where "ORDER_NONCE_BITS = 48"
definition BASE_SUM_BITS :: nat where "BASE_SUM_BITS = 63"
definition QUOTE_SUM_BITS :: nat where "QUOTE_SUM_BITS = 63"
definition ORDER_BOOK_MERKLE_LEVELS :: nat where "ORDER_BOOK_MERKLE_LEVELS = ORDER_PRICE_BITS + ORDER_NONCE_BITS"

record order_target =
  price_index :: target
  nonce_index :: target
  ask_base_sum :: target
  ask_quote_sum :: target
  bid_base_sum :: target
  bid_quote_sum :: target

record order_book_node =
  sibling_child_hash :: hash_out_target
  node_ask_base_sum :: target
  node_ask_quote_sum :: target
  node_bid_base_sum :: target
  node_bid_quote_sum :: target

definition set_remaining_amount_conditional :: "target \<Rightarrow> target \<Rightarrow> target \<Rightarrow> order_target \<Rightarrow> order_target" where
  "set_remaining_amount_conditional condition is_ask remaining_amount ord =
    (let quote_sum = b_mul (price_index ord) remaining_amount;
         ask_condition = b_and condition is_ask;
         ord = ord\<lparr>ask_base_sum := select ask_condition remaining_amount (ask_base_sum ord),
                   ask_quote_sum := select ask_condition quote_sum (ask_quote_sum ord)\<rparr>;
         is_bid = b_not is_ask;
         bid_condition = b_and condition is_bid in
     ord\<lparr>bid_base_sum := select bid_condition remaining_amount (bid_base_sum ord),
         bid_quote_sum := select bid_condition quote_sum (bid_quote_sum ord)\<rparr>)"

definition empty_order :: "target \<Rightarrow> target \<Rightarrow> order_target" where
  "empty_order price nonce =
    \<lparr>price_index = price, nonce_index = nonce, ask_base_sum = Const 0, ask_quote_sum = Const 0,
     bid_base_sum = Const 0, bid_quote_sum = Const 0\<rparr>"

definition order_is_ask :: "order_target \<Rightarrow> target circ" where
  "order_is_ask ord = is_zero (bid_base_sum ord)"

definition order_is_empty :: "order_target \<Rightarrow> target circ" where
  "order_is_empty ord =
    circ_bind (circ_map is_zero [ask_base_sum ord, ask_quote_sum ord, bid_base_sum ord, bid_quote_sum ord]) (\<lambda>assertions.
    circ_return (multi_and assertions))"

definition order_hash :: "permutation \<Rightarrow> order_target \<Rightarrow> hash_out_target circ" where
  "order_hash perm ord =
    circ_bind (hash_n_to_hash_no_pad perm [ask_base_sum ord, ask_quote_sum ord, bid_base_sum ord, bid_quote_sum ord]) (\<lambda>non_empty_hash.
    circ_bind (order_is_empty ord) (\<lambda>is_empty.
    circ_return (select_hash is_empty zero_hash_out non_empty_hash)))"

definition new_order_index :: "order_target \<Rightarrow> target \<Rightarrow> target" where
  "new_order_index ord market =
    b_mul_add (b_add market (Const 1)) (Const (of_nat (2 ^ ORDER_NONCE_BITS))) (nonce_index ord)"

definition select_order_target :: "target \<Rightarrow> order_target \<Rightarrow> order_target \<Rightarrow> order_target" where
  "select_order_target is_enabled a b =
    \<lparr>price_index = select is_enabled (price_index a) (price_index b),
     nonce_index = select is_enabled (nonce_index a) (nonce_index b),
     ask_base_sum = select is_enabled (ask_base_sum a) (ask_base_sum b),
     ask_quote_sum = select is_enabled (ask_quote_sum a) (ask_quote_sum b),
     bid_base_sum = select is_enabled (bid_base_sum a) (bid_base_sum b),
     bid_quote_sum = select is_enabled (bid_quote_sum a) (bid_quote_sum b)\<rparr>"

definition get_order_index :: "target \<Rightarrow> target \<Rightarrow> target" where
  "get_order_index market order_nonce =
    b_mul_add (b_add market (Const 1)) (Const (of_nat (2 ^ ORDER_NONCE_BITS))) order_nonce"

definition internal_hash :: "order_book_node \<Rightarrow> hash_out_target" where
  "internal_hash n = [node_ask_base_sum n, node_ask_quote_sum n, node_bid_base_sum n, node_bid_quote_sum n]"

definition empty_node :: order_book_node where
  "empty_node = \<lparr>sibling_child_hash = zero_hash_out, node_ask_base_sum = Const 0, node_ask_quote_sum = Const 0,
     node_bid_base_sum = Const 0, node_bid_quote_sum = Const 0\<rparr>"

definition select_order_book_node :: "target \<Rightarrow> order_book_node \<Rightarrow> order_book_node \<Rightarrow> order_book_node" where
  "select_order_book_node flag a b =
    \<lparr>sibling_child_hash = select_hash flag (sibling_child_hash a) (sibling_child_hash b),
     node_ask_base_sum = select flag (node_ask_base_sum a) (node_ask_base_sum b),
     node_ask_quote_sum = select flag (node_ask_quote_sum a) (node_ask_quote_sum b),
     node_bid_base_sum = select flag (node_bid_base_sum a) (node_bid_base_sum b),
     node_bid_quote_sum = select flag (node_bid_quote_sum a) (node_bid_quote_sum b)\<rparr>"

definition select_order_book_path :: "target \<Rightarrow> order_book_node list \<Rightarrow> order_book_node list \<Rightarrow> order_book_node list" where
  "select_order_book_path flag a b = map (\<lambda>i. select_order_book_node flag (a ! i) (b ! i)) [0..<ORDER_BOOK_MERKLE_LEVELS]"

section \<open>Paths\<close>

definition order_indexes_to_merkle_path :: "target \<Rightarrow> target \<Rightarrow> target list circ" where
  "order_indexes_to_merkle_path price nonce =
    circ_bind (split_le price ORDER_PRICE_BITS) (\<lambda>price_merkle_helpers.
    circ_bind (split_le nonce ORDER_NONCE_BITS) (\<lambda>nonce_merkle_helpers.
    circ_return (nonce_merkle_helpers @ price_merkle_helpers)))"

definition order_book_step :: "permutation \<Rightarrow> order_book_node \<times> target \<Rightarrow> hash_out_target \<Rightarrow> hash_out_target circ" where
  "order_book_step perm = (\<lambda>(node, helper) state.
    circ_bind (hash_two_to_one_swap perm state (sibling_child_hash node) helper) (\<lambda>sibling_hash.
    hash_two_to_one perm sibling_hash (internal_hash node)))"

definition recalculate_order_book_tree_root ::
  "permutation \<Rightarrow> hash_out_target \<Rightarrow> order_book_node list \<Rightarrow> target list \<Rightarrow> hash_out_target circ" where
  "recalculate_order_book_tree_root perm leaf proofs helpers =
    circ_fold (\<lambda>i. order_book_step perm (proofs ! i, helpers ! i)) [0..<length proofs] leaf"

definition verify_order_book_tree_merkle_proof ::
  "permutation \<Rightarrow> hash_out_target \<Rightarrow> hash_out_target \<Rightarrow> order_book_node list \<Rightarrow> target list \<Rightarrow> unit circ" where
  "verify_order_book_tree_merkle_proof perm root leaf proofs helpers =
    circ_bind (circ_fold (\<lambda>i. order_book_step perm (proofs ! i, helpers ! i)) [0..<length proofs] leaf)
      (\<lambda>state. connect_hashes state root)"

text \<open>The path after a change of the order: the sums move by the change of the leaf.\<close>

definition path_delta_first :: "order_target \<Rightarrow> order_book_node \<Rightarrow> order_target \<Rightarrow> order_book_node" where
  "path_delta_first order_before before order_after =
    \<lparr>sibling_child_hash = sibling_child_hash before,
     node_ask_base_sum = b_add (ask_base_sum order_after) (b_sub (node_ask_base_sum before) (ask_base_sum order_before)),
     node_ask_quote_sum = b_add (ask_quote_sum order_after) (b_sub (node_ask_quote_sum before) (ask_quote_sum order_before)),
     node_bid_base_sum = b_add (bid_base_sum order_after) (b_sub (node_bid_base_sum before) (bid_base_sum order_before)),
     node_bid_quote_sum = b_add (bid_quote_sum order_after) (b_sub (node_bid_quote_sum before) (bid_quote_sum order_before))\<rparr>"

definition path_delta_step :: "order_book_node \<Rightarrow> order_book_node \<Rightarrow> order_book_node \<Rightarrow> order_book_node" where
  "path_delta_step before below_before below_after =
    \<lparr>sibling_child_hash = sibling_child_hash before,
     node_ask_base_sum = b_add (node_ask_base_sum below_after) (b_sub (node_ask_base_sum before) (node_ask_base_sum below_before)),
     node_ask_quote_sum = b_add (node_ask_quote_sum below_after) (b_sub (node_ask_quote_sum before) (node_ask_quote_sum below_before)),
     node_bid_base_sum = b_add (node_bid_base_sum below_after) (b_sub (node_bid_base_sum before) (node_bid_base_sum below_before)),
     node_bid_quote_sum = b_add (node_bid_quote_sum below_after) (b_sub (node_bid_quote_sum before) (node_bid_quote_sum below_before))\<rparr>"

definition order_book_path_after :: "order_target \<Rightarrow> order_book_node list \<Rightarrow> order_target \<Rightarrow> order_book_node list" where
  "order_book_path_after order_before path_before order_after =
    foldl (\<lambda>after i. after @ [path_delta_step (path_before ! i) (path_before ! (i - 1)) (after ! (i - 1))])
      [path_delta_first order_before (path_before ! 0) order_after] [1..<ORDER_BOOK_MERKLE_LEVELS]"

definition get_order_book_path_delta ::
  "order_target \<Rightarrow> order_book_node list \<Rightarrow> order_target \<Rightarrow> order_book_node list circ" where
  "get_order_book_path_delta order_before path_before order_after =
    (let path_after = order_book_path_after order_before path_before order_after;
         last_node = path_after ! (ORDER_BOOK_MERKLE_LEVELS - 1) in
     circ_bind (register_range_check (node_ask_base_sum last_node) BASE_SUM_BITS) (\<lambda>_.
     circ_bind (register_range_check (node_ask_quote_sum last_node) QUOTE_SUM_BITS) (\<lambda>_.
     circ_bind (register_range_check (node_bid_base_sum last_node) BASE_SUM_BITS) (\<lambda>_.
     circ_bind (register_range_check (node_bid_quote_sum last_node) QUOTE_SUM_BITS) (\<lambda>_.
     circ_return path_after)))))"

text \<open>Size and quote of the orders with strictly higher priority: one level above the leaf, and the leaf's sibling.\<close>

definition quote_step ::
  "target \<Rightarrow> order_book_node list \<Rightarrow> target list \<Rightarrow> nat \<Rightarrow> target \<times> target \<Rightarrow> target \<times> target" where
  "quote_step is_ask path helper i = (\<lambda>(size_sum, quote_sum).
    let ask_base_diff = b_sub (node_ask_base_sum (path ! i)) (node_ask_base_sum (path ! (i - 1)));
        ask_quote_diff = b_sub (node_ask_quote_sum (path ! i)) (node_ask_quote_sum (path ! (i - 1)));
        bid_base_diff = b_sub (node_bid_base_sum (path ! i)) (node_bid_base_sum (path ! (i - 1)));
        bid_quote_diff = b_sub (node_bid_quote_sum (path ! i)) (node_bid_quote_sum (path ! (i - 1)));
        ask_size = select (helper ! i) ask_base_diff (Const 0);
        ask_quote = select (helper ! i) ask_quote_diff (Const 0);
        bid_size = select (helper ! i) (Const 0) bid_base_diff;
        bid_quote = select (helper ! i) (Const 0) bid_quote_diff;
        side_adjusted_size = select is_ask bid_size ask_size;
        side_adjusted_quote = select is_ask bid_quote ask_quote in
    (b_add size_sum side_adjusted_size, b_add quote_sum side_adjusted_quote))"

definition get_quote :: "target \<Rightarrow> order_target \<Rightarrow> order_book_node list \<Rightarrow> target list \<Rightarrow> target \<times> target" where
  "get_quote is_ask order_before path helper =
    (let (size_sum, quote_sum) = fold (quote_step is_ask path helper) [1..<ORDER_BOOK_MERKLE_LEVELS] (Const 0, Const 0);
         sibling_ask_base_diff = b_sub (node_ask_base_sum (path ! 0)) (ask_base_sum order_before);
         sibling_ask_quote_diff = b_sub (node_ask_quote_sum (path ! 0)) (ask_quote_sum order_before);
         sibling_bid_base_diff = b_sub (node_bid_base_sum (path ! 0)) (bid_base_sum order_before);
         sibling_bid_quote_diff = b_sub (node_bid_quote_sum (path ! 0)) (bid_quote_sum order_before);
         sibling_ask_size = select (helper ! 0) sibling_ask_base_diff (Const 0);
         sibling_ask_quote = select (helper ! 0) sibling_ask_quote_diff (Const 0);
         sibling_bid_size = select (helper ! 0) (Const 0) sibling_bid_base_diff;
         sibling_bid_quote = select (helper ! 0) (Const 0) sibling_bid_quote_diff in
     (b_add size_sum (select is_ask sibling_bid_size sibling_ask_size),
      b_add quote_sum (select is_ask sibling_bid_quote sibling_ask_quote)))"

definition get_next_order_nonce :: "market_target \<Rightarrow> target \<Rightarrow> target" where
  "get_next_order_nonce market is_ask = select is_ask (market_ask_nonce market) (market_bid_nonce market)"

section \<open>The abstract book\<close>

text \<open>
  The amounts of an order and the sums of a node are lists of four field elements: size and quote of the asks,
  size and quote of the bids.
\<close>

definition order_amounts :: "order_target \<Rightarrow> gf list" where
  "order_amounts ord = map tval [ask_base_sum ord, ask_quote_sum ord, bid_base_sum ord, bid_quote_sum ord]"

definition node_sums :: "order_book_node \<Rightarrow> gf list" where
  "node_sums n = hval (internal_hash n)"

type_synonym book = "nat \<Rightarrow> gf list"

definition book_ok :: "book \<Rightarrow> bool" where
  "book_ok B \<longleftrightarrow> (\<forall>k. length (B k) = 4)"

definition block_sum :: "book \<Rightarrow> nat \<Rightarrow> nat \<Rightarrow> gf list" where
  "block_sum B d m = map (\<lambda>c. \<Sum>j\<in>{m * 2 ^ d..<(m + 1) * 2 ^ d}. B j ! c) [0..<4]"

definition order_leaf :: "permutation \<Rightarrow> gf list \<Rightarrow> hash_out" where
  "order_leaf perm a = (if a = replicate 4 0 then replicate 4 0 else hash_no_pad perm a)"

definition book_node :: "permutation \<Rightarrow> gf list \<Rightarrow> hash_out \<Rightarrow> hash_out \<Rightarrow> hash_out" where
  "book_node perm sums l r = two_to_one perm (two_to_one perm l r) sums"

definition book_root :: "permutation \<Rightarrow> nat \<Rightarrow> book \<Rightarrow> hash_out" where
  "book_root perm L B = tree_hash (book_node perm) (block_sum B) (\<lambda>k. order_leaf perm (B k)) L 0"

definition book_proof :: "permutation \<Rightarrow> nat \<Rightarrow> book \<Rightarrow> nat \<Rightarrow> (gf list, hash_out) tree_step list" where
  "book_proof perm L B k = proof_at (book_node perm) (block_sum B) (\<lambda>k. order_leaf perm (B k)) L k"

definition book_steps :: "order_book_node list \<Rightarrow> bool list \<Rightarrow> (gf list, hash_out) tree_step list" where
  "book_steps path bs = map2 (\<lambda>n b. (node_sums n, hval (sibling_child_hash n), b)) path bs"

definition book_clash :: "permutation \<Rightarrow> gf list \<times> hash_out \<times> hash_out \<Rightarrow> gf list \<times> hash_out \<times> hash_out \<Rightarrow> bool" where
  "book_clash perm x y \<longleftrightarrow> hash_collision perm (snd x) (snd y)
    \<or> hash_collision perm (two_to_one perm (fst (snd x)) (snd (snd x)), fst x) (two_to_one perm (fst (snd y)) (snd (snd y)), fst y)"

interpretation book: hash_tree "book_node perm" "book_clash perm" for perm
  by unfold_locales (auto simp: book_node_def book_clash_def hash_collision_def)

lemma length_block_sum [simp]: "length (block_sum B d m) = 4"
  by (simp add: block_sum_def)

lemma block_sum_nth: "c < 4 \<Longrightarrow> block_sum B d m ! c = (\<Sum>j\<in>{m * 2 ^ d..<(m + 1) * 2 ^ d}. B j ! c)"
  by (simp add: block_sum_def)

lemma block_sum_0: "length (B m) = 4 \<Longrightarrow> block_sum B 0 m = B m"
  by (intro nth_equalityI) (simp_all add: block_sum_nth)

lemma block_split:
  fixes f :: "nat \<Rightarrow> 'a::comm_monoid_add"
  shows "(\<Sum>j\<in>{m * 2 ^ Suc d..<(m + 1) * 2 ^ Suc d}. f j)
    = (\<Sum>j\<in>{2 * m * 2 ^ d..<(2 * m + 1) * 2 ^ d}. f j) + (\<Sum>j\<in>{(2 * m + 1) * 2 ^ d..<(2 * m + 2) * 2 ^ d}. f j)"
  by (subst sum.atLeastLessThan_concat) (simp_all add: algebra_simps)

text \<open>What the sibling of a node on the path contributes to the sum of their parent.\<close>

lemma block_sibling:
  assumes "c < 4"
  shows "block_sum B (Suc d) (m div 2) ! c = block_sum B d m ! c + block_sum B d (sibling m) ! c"
proof (rule half_cases [of m])
  assume "even m" "2 * (m div 2) = m" "2 * (m div 2) + 1 = sibling m"
  then show ?thesis using assms block_split [of "\<lambda>j. B j ! c" "m div 2" d] by (simp add: block_sum_nth)
next
  assume "odd m" "2 * (m div 2) = sibling m" "2 * (m div 2) + 1 = m"
  then show ?thesis using assms block_split [of "\<lambda>j. B j ! c" "m div 2" d] by (simp add: block_sum_nth add_ac)
qed

text \<open>A change of one order moves the sums on its path and no others.\<close>

lemma in_block_iff:
  fixes k m d :: nat
  shows "k \<in> {m * 2 ^ d..<(m + 1) * 2 ^ d} \<longleftrightarrow> m = k div 2 ^ d"
proof
  assume k: "k \<in> {m * 2 ^ d..<(m + 1) * 2 ^ d}"
  then have "k div 2 ^ d = m" by (intro div_nat_eqI) (simp_all add: mult.commute)
  then show "m = k div 2 ^ d" by simp
next
  assume m: "m = k div 2 ^ d"
  have "k div 2 ^ d * 2 ^ d \<le> k" "k < (k div 2 ^ d + 1) * 2 ^ d"
    using div_times_less_eq_dividend [of k "2 ^ d"] dividend_less_div_times [of "2 ^ d" k] by simp_all
  then show "k \<in> {m * 2 ^ d..<(m + 1) * 2 ^ d}" by (simp add: m)
qed

lemma block_sum_update:
  assumes "length a = 4" "length (B k) = 4"
  shows "block_sum (B(k := a)) d m = (if m = k div 2 ^ d then map2 (+) (block_sum B d m) (map2 (-) a (B k)) else block_sum B d m)"
proof (rule nth_equalityI)
  fix c assume "c < length (block_sum (B(k := a)) d m)"
  then have c: "c < 4" by simp
  let ?I = "{m * 2 ^ d..<(m + 1) * 2 ^ d}"
  have "(\<Sum>j\<in>?I. (B(k := a)) j ! c) = (\<Sum>j\<in>?I. B j ! c + (if j = k then a ! c - B k ! c else 0))"
    by (rule sum.cong) auto
  also have "\<dots> = (\<Sum>j\<in>?I. B j ! c) + (if k \<in> ?I then a ! c - B k ! c else 0)"
    by (simp only: sum.distrib sum.delta [OF finite_atLeastLessThan] sum.delta' [OF finite_atLeastLessThan])
  finally show "block_sum (B(k := a)) d m ! c
      = (if m = k div 2 ^ d then map2 (+) (block_sum B d m) (map2 (-) a (B k)) else block_sum B d m) ! c"
    using c assms unfolding in_block_iff by (simp add: block_sum_nth)
qed (simp add: assms)

lemma agree_off_path_update:
  "length a = 4 \<Longrightarrow> length (B k) = 4 \<Longrightarrow>
    agree_off_path k (block_sum B) (\<lambda>j. order_leaf perm (B j)) (block_sum (B(k := a))) (\<lambda>j. order_leaf perm ((B(k := a)) j))"
  unfolding agree_off_path_def by (simp add: block_sum_update del: fun_upd_apply) simp

text \<open>The sums over all smaller and all larger keys, level by level.\<close>

lemma prefix_sum:
  fixes f :: "nat \<Rightarrow> 'a::comm_monoid_add"
  shows "(\<Sum>j\<in>{k div 2 ^ L * 2 ^ L..<k}. f j)
    = (\<Sum>i<L. if odd (k div 2 ^ i) then \<Sum>j\<in>{sibling (k div 2 ^ i) * 2 ^ i..<(sibling (k div 2 ^ i) + 1) * 2 ^ i}. f j else 0)"
proof (induction L)
  case (Suc L)
  let ?m = "k div 2 ^ L"
  have start: "k div 2 ^ Suc L * 2 ^ Suc L = 2 * (?m div 2) * 2 ^ L"
    unfolding power_Suc2 div_mult2_eq by (simp only: ac_simps)
  have le: "?m * 2 ^ L \<le> k" by simp
  show ?case
  proof (cases "odd ?m")
    case True
    then have sib: "2 * (?m div 2) = sibling ?m" "sibling ?m + 1 = ?m" by (simp_all add: sibling_def)
    have "(\<Sum>j\<in>{sibling ?m * 2 ^ L..<k}. f j) = (\<Sum>j\<in>{sibling ?m * 2 ^ L..<(sibling ?m + 1) * 2 ^ L}. f j) + (\<Sum>j\<in>{?m * 2 ^ L..<k}. f j)"
      unfolding sib(2) using le sib(2) mult_le_mono1 [of "sibling ?m" ?m "2 ^ L"] by (simp add: sum.atLeastLessThan_concat)
    then show ?thesis using True unfolding start sib(1) Suc by (simp add: add_ac)
  next
    case False
    then have "2 * (?m div 2) = ?m" by simp
    then show ?thesis using False unfolding start by (simp only: Suc sum.lessThan_Suc if_False add_0_right)
  qed
qed simp

lemma suffix_sum:
  fixes f :: "nat \<Rightarrow> 'a::comm_monoid_add"
  shows "(\<Sum>j\<in>{Suc k..<(k div 2 ^ L + 1) * 2 ^ L}. f j)
    = (\<Sum>i<L. if even (k div 2 ^ i) then \<Sum>j\<in>{sibling (k div 2 ^ i) * 2 ^ i..<(sibling (k div 2 ^ i) + 1) * 2 ^ i}. f j else 0)"
proof (induction L)
  case (Suc L)
  let ?m = "k div 2 ^ L"
  have finish: "(k div 2 ^ Suc L + 1) * 2 ^ Suc L = (2 * (?m div 2) + 2) * 2 ^ L"
    by (simp only: power_Suc2 div_mult2_eq) (simp add: algebra_simps)
  have le: "Suc k \<le> (?m + 1) * 2 ^ L" using in_block_iff [of k ?m L] by simp
  show ?case
  proof (cases "even ?m")
    case True
    then have sib: "2 * (?m div 2) + 2 = sibling ?m + 1" "?m + 1 = sibling ?m" by (simp_all add: sibling_def)
    have "(\<Sum>j\<in>{Suc k..<(sibling ?m + 1) * 2 ^ L}. f j)
        = (\<Sum>j\<in>{Suc k..<(?m + 1) * 2 ^ L}. f j) + (\<Sum>j\<in>{sibling ?m * 2 ^ L..<(sibling ?m + 1) * 2 ^ L}. f j)"
      using le unfolding sib(2) by (subst sum.atLeastLessThan_concat) simp_all
    then show ?thesis using True unfolding finish sib(1) by (simp only: Suc sum.lessThan_Suc if_True)
  next
    case False
    then have "2 * (?m div 2) + 2 = ?m + 1" by simp
    then show ?thesis using False unfolding finish by (simp only: Suc sum.lessThan_Suc if_False add_0_right)
  qed
qed simp

section \<open>Hashing an order and climbing the book\<close>

lemma order_leaf_nonempty:
  assumes "length a = 4"
  shows "hash_no_pad perm a = two_to_one perm a (replicate 4 0)"
proof -
  have "chunks_of SPONGE_RATE a = [a]"
    by (subst chunks_of.simps, subst chunks_of.simps) (use assms in \<open>auto simp: SPONGE_RATE_def\<close>)
  moreover have "set_from_slice a (replicate SPONGE_WIDTH 0) = a @ replicate 4 0 @ replicate 4 0"
    using assms by (simp add: set_from_slice_def SPONGE_WIDTH_def flip: replicate_add)
  ultimately show ?thesis
    by (simp add: hash_no_pad_def two_to_one_def squeeze_hash_def SPONGE_WIDTH_def NUM_HASH_OUT_ELTS_def del: upt_rec_numeral)
qed

lemma implements_order_is_empty:
  "implements (order_is_empty ord) (\<lambda>r. bval r (order_amounts ord = replicate 4 0))"
  unfolding order_is_empty_def
  by (rule implements_weaken [OF implements_all_tests [OF implements_is_zero]]) (simp_all add: order_amounts_def numeral_eq_Suc)

lemma implements_order_hash:
  "implements (order_hash perm ord) (\<lambda>h. hash_ok h (order_leaf perm (order_amounts ord)))"
  unfolding order_hash_def
proof (rule implements_bind [OF implements_hash_n_to_hash_no_pad], rule implements_bind [OF implements_order_is_empty], rule implements_return)
  fix h e assume h: "hash_ok h (hash_no_pad perm (map tval [ask_base_sum ord, ask_quote_sum ord, bid_base_sum ord, bid_quote_sum ord]))"
    and e: "bval e (order_amounts ord = replicate 4 0)"
  from hash_ok_select [OF e hash_ok_zero h] show "hash_ok (select_hash e zero_hash_out h) (order_leaf perm (order_amounts ord))"
    unfolding order_amounts_def [symmetric] order_leaf_def .
qed

text \<open>The shape of a path is static; its contents are the prover's.\<close>

definition path_shape :: "nat \<Rightarrow> order_book_node list \<Rightarrow> bool" where
  "path_shape L path \<longleftrightarrow> length path = L \<and> (\<forall>n\<in>set path. length (sibling_child_hash n) = 4)"

lemma circ_fold_map: "circ_fold f (map h xs) s = circ_fold (\<lambda>x. f (h x)) xs s"
proof (induction xs arbitrary: s)
  case (Cons x xs)
  have "circ_fold f (map h xs) = circ_fold (\<lambda>x. f (h x)) xs" by (rule ext) (rule Cons.IH)
  then show ?case by simp
qed simp

lemma circ_fold_zip:
  "length ys = length xs \<Longrightarrow> circ_fold (\<lambda>i. f (xs ! i, ys ! i)) [0..<length xs] s = circ_fold f (zip xs ys) s"
proof -
  assume len: "length ys = length xs"
  have "zip xs ys = map (\<lambda>i. (xs ! i, ys ! i)) [0..<length xs]"
    using len by (intro nth_equalityI) simp_all
  then show ?thesis by (simp add: circ_fold_map)
qed

lemma implements_order_book_step:
  assumes "hash_ok s v" "length (sibling_child_hash n) = 4" "bval h b"
  shows "implements (order_book_step perm (n, h) s)
    (\<lambda>t. hash_ok t (climb_step (book_node perm) v (node_sums n, hval (sibling_child_hash n), b)))"
  unfolding order_book_step_def prod.case
proof (rule implements_bind [OF implements_hash_two_to_one_swap [OF assms(1) hash_ok_hval [OF assms(2)] assms(3)]])
  fix t assume t: "hash_ok t (if b then two_to_one perm (hval (sibling_child_hash n)) v else two_to_one perm v (hval (sibling_child_hash n)))"
  have "hash_ok (internal_hash n) (node_sums n)" by (simp add: hash_ok_def internal_hash_def node_sums_def NUM_HASH_OUT_ELTS_def)
  from implements_hash_two_to_one [OF t this]
  show "implements (hash_two_to_one perm t (internal_hash n))
      (\<lambda>t. hash_ok t (climb_step (book_node perm) v (node_sums n, hval (sibling_child_hash n), b)))"
    by (rule implements_weaken) (simp add: climb_step_def book_node_def split: if_splits)
qed

lemma implements_book_climb:
  assumes "list_all2 bval helpers bs" "path_shape (length helpers) path" "hash_ok leaf v"
  shows "implements (circ_fold (\<lambda>i. order_book_step perm (path ! i, helpers ! i)) [0..<length path] leaf)
    (\<lambda>h. hash_ok h (climb (book_node perm) v (book_steps path bs)))"
proof -
  have "implements (circ_fold (order_book_step perm) (zip path helpers) leaf) (\<lambda>h. hash_ok h (climb (book_node perm) v (book_steps path bs)))"
    using assms
  proof (induction arbitrary: path leaf v rule: list_all2_induct)
    case (Cons h helpers b bs)
    obtain n ns where ns: "path = n # ns" using Cons.prems(1) by (cases path) (auto simp: path_shape_def)
    have n: "length (sibling_child_hash n) = 4" "path_shape (length helpers) ns" using Cons.prems(1) by (simp_all add: path_shape_def ns)
    show ?case
      unfolding ns zip_Cons_Cons circ_fold.simps
    proof (rule implements_bind [OF implements_order_book_step [OF Cons.prems(2) n(1) Cons.hyps(1)]])
      fix t assume "hash_ok t (climb_step (book_node perm) v (node_sums n, hval (sibling_child_hash n), b))"
      from Cons.IH [OF n(2) this] show "implements (circ_fold (order_book_step perm) (zip ns helpers) t)
          (\<lambda>h. hash_ok h (climb (book_node perm) v (book_steps (n # ns) (b # bs))))"
        by (simp add: book_steps_def)
    qed
  qed (simp add: book_steps_def implements_return path_shape_def)
  then show ?thesis using assms(2) circ_fold_zip [of helpers path "order_book_step perm"] by (simp add: path_shape_def)
qed

lemmas implements_recalculate_book_root = implements_book_climb [folded recalculate_order_book_tree_root_def]

lemma realises_verify_book_proof:
  assumes "list_all2 bval helpers bs" "path_shape (length helpers) path" "hash_ok leaf v" "hash_ok root r"
  shows "realises (verify_order_book_tree_merkle_proof perm root leaf path helpers)
    (climb (book_node perm) v (book_steps path bs) = r) (\<lambda>_. True)"
  unfolding verify_order_book_tree_merkle_proof_def
  by (rule realises_after [OF implements_book_climb [OF assms(1-3)]]) (rule realises_connect_hashes [OF _ assms(4)])

text \<open>The path of an order: the bits of its nonce below those of its price.\<close>

definition order_key :: "nat \<Rightarrow> nat \<Rightarrow> nat" where
  "order_key price nonce = nonce + 2 ^ ORDER_NONCE_BITS * price"

lemma index_bits_append:
  assumes "x < 2 ^ m"
  shows "index_bits (m + n) (x + 2 ^ m * y) = index_bits m x @ index_bits n y"
proof (rule nth_equalityI)
  fix i assume i: "i < length (index_bits (m + n) (x + 2 ^ m * y))"
  show "index_bits (m + n) (x + 2 ^ m * y) ! i = (index_bits m x @ index_bits n y) ! i"
  proof (cases "i < m")
    case True
    then have "(2::nat) ^ m * y = 2 ^ i * (2 ^ (m - i) * y)" by (simp add: mult.assoc [symmetric] power_add [symmetric])
    then have "(x + 2 ^ m * y) div 2 ^ i = x div 2 ^ i + 2 ^ (m - i) * y" by (simp only: div_mult_self2) simp
    then show ?thesis using True i by (simp add: index_bits_def nth_append)
  next
    case False
    then have "(x + 2 ^ m * y) div 2 ^ i = (x + 2 ^ m * y) div 2 ^ m div 2 ^ (i - m)"
      by (simp only: div_mult2_eq [symmetric] power_add [symmetric]) simp
    also have "\<dots> = y div 2 ^ (i - m)" using assms by simp
    finally have "(x + 2 ^ m * y) div 2 ^ i = y div 2 ^ (i - m)" .
    moreover have "i - m < n" using False i by (simp add: index_bits_def less_diff_conv2)
    ultimately show ?thesis using False i by (simp add: index_bits_def nth_append)
  qed
qed (simp add: index_bits_def)

lemma realises_order_path:
  "realises (order_indexes_to_merkle_path price nonce) (uval price < 2 ^ ORDER_PRICE_BITS \<and> uval nonce < 2 ^ ORDER_NONCE_BITS)
    (\<lambda>ts. list_all2 bval ts (index_bits ORDER_BOOK_MERKLE_LEVELS (order_key (uval price) (uval nonce))))"
  unfolding order_indexes_to_merkle_path_def
proof (rule realises_bind [OF realises_split_le_bits], simp add: ORDER_PRICE_BITS_def, simp add: ORDER_PRICE_BITS_def,
    rule realises_then_return [OF realises_split_le_bits], simp add: ORDER_NONCE_BITS_def, simp add: ORDER_NONCE_BITS_def)
  fix ps ns assume ps: "list_all2 bval ps (index_bits ORDER_PRICE_BITS (uval price))"
    and ns: "list_all2 bval ns (index_bits ORDER_NONCE_BITS (uval nonce))" and lt: "uval nonce < 2 ^ ORDER_NONCE_BITS"
  from list_all2_appendI [OF ns ps] index_bits_append [OF lt, of ORDER_PRICE_BITS "uval price"]
  show "list_all2 bval (ns @ ps) (index_bits ORDER_BOOK_MERKLE_LEVELS (order_key (uval price) (uval nonce)))"
    by (simp add: order_key_def ORDER_BOOK_MERKLE_LEVELS_def add.commute)
qed

section \<open>Updating an order\<close>

definition add_change :: "gf list \<Rightarrow> gf list \<Rightarrow> gf list \<Rightarrow> gf list" where
  "add_change old new v = map2 (+) v (map2 (-) new old)"

lemma levels_pos: "0 < ORDER_BOOK_MERKLE_LEVELS"
  by (simp add: ORDER_BOOK_MERKLE_LEVELS_def ORDER_PRICE_BITS_def)

lemma path_after_props:
  fixes path :: "order_book_node list" and ob oa :: order_target
  assumes "1 \<le> n"
  defines "after \<equiv> foldl (\<lambda>after i. after @ [path_delta_step (path ! i) (path ! (i - 1)) (after ! (i - 1))])
      [path_delta_first ob (path ! 0) oa] [1..<n]"
  shows "length after = n \<and> (\<forall>i<n. sibling_child_hash (after ! i) = sibling_child_hash (path ! i)
    \<and> node_sums (after ! i) = add_change (order_amounts ob) (order_amounts oa) (node_sums (path ! i)))"
  unfolding after_def using assms(1)
proof (induction n rule: nat_induct_at_least)
  case base
  then show ?case
    by (simp add: path_delta_first_def node_sums_def internal_hash_def add_change_def order_amounts_def tval_simps)
next
  case (Suc n)
  let ?after = "foldl (\<lambda>after i. after @ [path_delta_step (path ! i) (path ! (i - 1)) (after ! (i - 1))])
      [path_delta_first ob (path ! 0) oa] [1..<n]"
  let ?new = "path_delta_step (path ! n) (path ! (n - 1)) (?after ! (n - 1))"
  have "node_sums (?after ! (n - 1)) = add_change (order_amounts ob) (order_amounts oa) (node_sums (path ! (n - 1)))"
    using Suc by simp
  then have "node_sums ?new = add_change (order_amounts ob) (order_amounts oa) (node_sums (path ! n))"
    by (simp add: path_delta_step_def node_sums_def internal_hash_def add_change_def order_amounts_def tval_simps)
  moreover have "sibling_child_hash ?new = sibling_child_hash (path ! n)" by (simp add: path_delta_step_def)
  ultimately show ?case using Suc by (simp add: nth_append less_Suc_eq)
qed

lemma order_book_path_after:
  "length (order_book_path_after ob path oa) = ORDER_BOOK_MERKLE_LEVELS"
  "i < ORDER_BOOK_MERKLE_LEVELS \<Longrightarrow> sibling_child_hash (order_book_path_after ob path oa ! i) = sibling_child_hash (path ! i)"
  "i < ORDER_BOOK_MERKLE_LEVELS \<Longrightarrow>
    node_sums (order_book_path_after ob path oa ! i) = add_change (order_amounts ob) (order_amounts oa) (node_sums (path ! i))"
  using path_after_props [where n = ORDER_BOOK_MERKLE_LEVELS and ob = ob and path = path and oa = oa] levels_pos by (simp_all add: order_book_path_after_def)

lemma path_after_shape:
  "path_shape ORDER_BOOK_MERKLE_LEVELS path \<Longrightarrow> path_shape ORDER_BOOK_MERKLE_LEVELS (order_book_path_after ob path oa)"
  by (fastforce simp: path_shape_def order_book_path_after in_set_conv_nth)

definition sums_fit :: "gf list \<Rightarrow> bool" where
  "sums_fit v \<longleftrightarrow> (\<forall>c<4. to_canonical_u64 (v ! c) < 2 ^ 63)"

lemma all_less_4: "(\<forall>c<4::nat. P c) \<longleftrightarrow> P 0 \<and> P 1 \<and> P 2 \<and> P 3"
  by (auto simp: numeral_eq_Suc less_Suc_eq)

lemma sums_fit_node: "sums_fit (node_sums n) \<longleftrightarrow> uval (node_ask_base_sum n) < 2 ^ 63 \<and> uval (node_ask_quote_sum n) < 2 ^ 63
    \<and> uval (node_bid_base_sum n) < 2 ^ 63 \<and> uval (node_bid_quote_sum n) < 2 ^ 63"
  unfolding sums_fit_def all_less_4 node_sums_def internal_hash_def by simp

lemma realises_path_delta:
  "realises (get_order_book_path_delta ob path oa)
    (sums_fit (node_sums (order_book_path_after ob path oa ! (ORDER_BOOK_MERKLE_LEVELS - 1))))
    (\<lambda>p. p = order_book_path_after ob path oa)"
  unfolding get_order_book_path_delta_def Let_def sums_fit_node BASE_SUM_BITS_def QUOTE_SUM_BITS_def
  by (rule realises_bind [OF realises_register_range_check], simp)+
    (rule realises_then_return [OF realises_register_range_check], simp_all)

text \<open>
  The part of a transaction that writes an order (\<open>verify_market_and_order_book_proofs\<close>): the old leaf is
  opened, the sums of its path are moved, and the root is recalculated from the new leaf.
\<close>

definition update_order_book_root ::
  "permutation \<Rightarrow> hash_out_target \<Rightarrow> order_target \<Rightarrow> order_book_node list \<Rightarrow> target list \<Rightarrow> order_target \<Rightarrow> hash_out_target circ" where
  "update_order_book_root perm root order_before path helpers order_after =
    circ_bind (order_hash perm order_before) (\<lambda>order_hash_before.
    circ_bind (verify_order_book_tree_merkle_proof perm root order_hash_before path helpers) (\<lambda>_.
    circ_bind (get_order_book_path_delta order_before path order_after) (\<lambda>path_after.
    circ_bind (order_hash perm order_after) (\<lambda>new_order_hash.
    recalculate_order_book_tree_root perm new_order_hash path_after helpers))))"

lemma length_order_amounts [simp]: "length (order_amounts ord) = 4"
  by (simp add: order_amounts_def)

lemma length_book_steps [simp]: "length path = length bs \<Longrightarrow> length (book_steps path bs) = length bs"
  by (simp add: book_steps_def)

lemma book_steps_nth:
  "length path = length bs \<Longrightarrow> i < length bs \<Longrightarrow>
    book_steps path bs ! i = (node_sums (path ! i), hval (sibling_child_hash (path ! i)), bs ! i)"
  by (simp add: book_steps_def)

text \<open>On the path of the book itself the change gives the path of the changed book.\<close>

lemma book_steps_after:
  assumes B: "book_ok B" and a: "length a = 4" and path: "length path = ORDER_BOOK_MERKLE_LEVELS"
    and steps: "book_steps path (index_bits ORDER_BOOK_MERKLE_LEVELS k) = book_proof perm ORDER_BOOK_MERKLE_LEVELS B k"
    and ob: "order_amounts ob = B k" and oa: "order_amounts oa = a"
  shows "book_steps (order_book_path_after ob path oa) (index_bits ORDER_BOOK_MERKLE_LEVELS k)
    = book_proof perm ORDER_BOOK_MERKLE_LEVELS (B(k := a)) k" (is "?after = ?proof")
proof (rule nth_equalityI)
  have bits: "length (index_bits ORDER_BOOK_MERKLE_LEVELS k) = ORDER_BOOK_MERKLE_LEVELS" by (simp add: index_bits_def)
  note after = order_book_path_after [where ob = ob and path = path and oa = oa]
  show "length ?after = length ?proof" by (simp add: after bits book_proof_def)
  fix i assume "i < length ?after"
  then have i: "i < ORDER_BOOK_MERKLE_LEVELS" by (simp add: after bits)
  have len: "length (B k) = 4" using B by (simp add: book_ok_def)
  have step: "(node_sums (path ! i), hval (sibling_child_hash (path ! i)), index_bits ORDER_BOOK_MERKLE_LEVELS k ! i)
      = book_proof perm ORDER_BOOK_MERKLE_LEVELS B k ! i"
    using arg_cong [OF steps, of "\<lambda>xs. xs ! i"] i by (simp add: book_steps_nth path bits)
  have sums: "add_change (B k) a (block_sum B (Suc i) (k div 2 ^ Suc i)) = block_sum (B(k := a)) (Suc i) (k div 2 ^ Suc i)"
    using block_sum_update [where B = B and k = k, OF a len] by (simp add: add_change_def)
  have sib: "tree_hash (book_node perm) (block_sum B) (\<lambda>k. order_leaf perm (B k)) i (sibling (k div 2 ^ i))
      = tree_hash (book_node perm) (block_sum (B(k := a))) (\<lambda>j. order_leaf perm ((B(k := a)) j)) i (sibling (k div 2 ^ i))"
    by (rule tree_hash_off_path [OF agree_off_path_update [where k = k and B = B, OF a len] sibling_neq])
  show "?after ! i = ?proof ! i"
    using step i unfolding book_proof_def by (simp add: book_steps_nth after bits proof_at_nth ob oa sums sib del: power_Suc fun_upd_apply)
qed

definition book_collision :: "permutation \<Rightarrow> book \<Rightarrow> nat \<Rightarrow> gf list \<Rightarrow> (gf list, hash_out) tree_step list \<Rightarrow> bool" where
  "book_collision perm B k a steps \<longleftrightarrow>
    (a \<noteq> B k \<and> order_leaf perm a = order_leaf perm (B k)) \<or>
    (\<exists>i<ORDER_BOOK_MERKLE_LEVELS. book_clash perm
      (climb_inputs (book_node perm) (order_leaf perm a) steps ! i)
      (climb_inputs (book_node perm) (order_leaf perm (B k)) (book_proof perm ORDER_BOOK_MERKLE_LEVELS B k) ! i))"

abbreviation order_book_root_of :: "permutation \<Rightarrow> book \<Rightarrow> hash_out" where
  "order_book_root_of perm B \<equiv> book_root perm ORDER_BOOK_MERKLE_LEVELS B"

lemma climb_book_proof:
  "k < 2 ^ L \<Longrightarrow> climb (book_node perm) (order_leaf perm (B k)) (book_proof perm L B k) = book_root perm L B"
  using climb_proof_at [of "book_node perm" "\<lambda>k. order_leaf perm (B k)" k "block_sum B" L] by (simp add: book_proof_def book_root_def)

lemma realises_update_order_book_root:
  assumes helpers: "list_all2 bval helpers (index_bits ORDER_BOOK_MERKLE_LEVELS k)" and shape: "path_shape ORDER_BOOK_MERKLE_LEVELS path"
    and root: "hash_ok root r"
  defines "bs \<equiv> index_bits ORDER_BOOK_MERKLE_LEVELS k"
  shows "realises (update_order_book_root perm root ob path helpers oa)
    (climb (book_node perm) (order_leaf perm (order_amounts ob)) (book_steps path bs) = r
      \<and> sums_fit (node_sums (order_book_path_after ob path oa ! (ORDER_BOOK_MERKLE_LEVELS - 1))))
    (\<lambda>h. hash_ok h (climb (book_node perm) (order_leaf perm (order_amounts oa)) (book_steps (order_book_path_after ob path oa) bs)))"
proof -
  have len: "length helpers = ORDER_BOOK_MERKLE_LEVELS" using helpers by (simp add: list_all2_conv_all_nth index_bits_def)
  note after = path_after_shape [OF shape, of ob oa]
  show ?thesis
    unfolding update_order_book_root_def bs_def
  proof (rule realises_after [OF implements_order_hash], rule realises_bind [OF realises_verify_book_proof [OF helpers _ _ root]],
      use len shape in simp, assumption, rule realises_bind [where P' = True, simplified, OF realises_path_delta])
    fix p assume p: "p = order_book_path_after ob path oa"
    show "realises (circ_bind (order_hash perm oa) (\<lambda>h. recalculate_order_book_tree_root perm h p helpers)) True
      (\<lambda>h. hash_ok h (climb (book_node perm) (order_leaf perm (order_amounts oa))
        (book_steps (order_book_path_after ob path oa) (index_bits ORDER_BOOK_MERKLE_LEVELS k))))"
      unfolding implements_realises [symmetric] p
      by (rule implements_bind [OF implements_order_hash], rule implements_recalculate_book_root [OF helpers]) (use len after in simp_all)
  qed
qed

section \<open>Priority\<close>

text \<open>A path that is the one of key \<open>k\<close> in the book \<open>B\<close>.\<close>

definition book_path :: "permutation \<Rightarrow> book \<Rightarrow> nat \<Rightarrow> order_book_node list \<Rightarrow> bool" where
  "book_path perm B k path \<longleftrightarrow> path_shape ORDER_BOOK_MERKLE_LEVELS path
    \<and> book_steps path (index_bits ORDER_BOOK_MERKLE_LEVELS k) = book_proof perm ORDER_BOOK_MERKLE_LEVELS B k"

lemma book_path_sums:
  assumes "book_path perm B k path" "i < ORDER_BOOK_MERKLE_LEVELS"
  shows "node_sums (path ! i) = block_sum B (Suc i) (k div 2 ^ Suc i)"
proof -
  have "length path = length (index_bits ORDER_BOOK_MERKLE_LEVELS k)"
    using assms(1) by (simp add: book_path_def path_shape_def index_bits_def)
  then have "book_steps path (index_bits ORDER_BOOK_MERKLE_LEVELS k) ! i
      = (node_sums (path ! i), hval (sibling_child_hash (path ! i)), index_bits ORDER_BOOK_MERKLE_LEVELS k ! i)"
    using assms(2) by (intro book_steps_nth) (simp_all add: index_bits_def)
  with assms show ?thesis by (simp add: book_path_def book_proof_def proof_at_nth)
qed

lemma node_sums_nth:
  "tval (node_ask_base_sum n) = node_sums n ! 0" "tval (node_ask_quote_sum n) = node_sums n ! 1"
  "tval (node_bid_base_sum n) = node_sums n ! 2" "tval (node_bid_quote_sum n) = node_sums n ! 3"
  by (simp_all add: node_sums_def internal_hash_def)

lemma order_amounts_nth:
  "tval (ask_base_sum ord) = order_amounts ord ! 0" "tval (ask_quote_sum ord) = order_amounts ord ! 1"
  "tval (bid_base_sum ord) = order_amounts ord ! 2" "tval (bid_quote_sum ord) = order_amounts ord ! 3"
  by (simp_all add: order_amounts_def)

text \<open>The level-wise differences are the sums over the siblings.\<close>

definition sibling_sum :: "book \<Rightarrow> nat \<Rightarrow> nat \<Rightarrow> nat \<Rightarrow> gf" where
  "sibling_sum B k c i = block_sum B i (sibling (k div 2 ^ i)) ! c"

lemma path_difference:
  assumes "book_path perm B k path" "0 < i" "i < ORDER_BOOK_MERKLE_LEVELS" "c < 4"
  shows "node_sums (path ! i) ! c - node_sums (path ! (i - 1)) ! c = sibling_sum B k c i"
proof -
  have half: "k div 2 ^ Suc i = k div 2 ^ i div 2" by (simp only: power_Suc2 div_mult2_eq)
  have below: "node_sums (path ! (i - 1)) = block_sum B i (k div 2 ^ i)"
    using book_path_sums [OF assms(1), of "i - 1"] assms(2,3) by simp
  show ?thesis
    unfolding book_path_sums [OF assms(1,3)] below half sibling_sum_def block_sibling [OF assms(4)] by simp
qed

lemma leaf_difference:
  assumes "book_path perm B k path" "book_ok B" "c < 4"
  shows "node_sums (path ! 0) ! c - B k ! c = sibling_sum B k c 0"
  using book_path_sums [OF assms(1) levels_pos] block_sibling [OF assms(3), of B 0 k] assms(2)
  by (simp add: sibling_sum_def block_sum_0 book_ok_def)

definition better_sum :: "book \<Rightarrow> nat \<Rightarrow> bool \<Rightarrow> nat \<Rightarrow> gf" where
  "better_sum B k larger c =
    (if larger then \<Sum>j\<in>{Suc k..<2 ^ ORDER_BOOK_MERKLE_LEVELS}. B j ! c else \<Sum>j<k. B j ! c)"

lemma better_sum_levels:
  assumes "k < 2 ^ ORDER_BOOK_MERKLE_LEVELS" "c < 4"
  shows "better_sum B k larger c = (\<Sum>i<ORDER_BOOK_MERKLE_LEVELS. if odd (k div 2 ^ i) \<noteq> larger then sibling_sum B k c i else 0)"
proof -
  have sib: "sibling_sum B k c = (\<lambda>i. \<Sum>j\<in>{sibling (k div 2 ^ i) * 2 ^ i..<(sibling (k div 2 ^ i) + 1) * 2 ^ i}. B j ! c)"
    by (rule ext) (simp add: sibling_sum_def block_sum_nth assms(2))
  have "k div 2 ^ ORDER_BOOK_MERKLE_LEVELS = 0" using assms(1) by simp
  then show ?thesis
    using suffix_sum [of "\<lambda>j. B j ! c" k ORDER_BOOK_MERKLE_LEVELS] prefix_sum [of "\<lambda>j. B j ! c" k ORDER_BOOK_MERKLE_LEVELS]
    unfolding better_sum_def sib by (cases larger) (simp_all add: lessThan_atLeast0)
qed

lemma quote_step_values:
  assumes "book_path perm B k path" "0 < i" "i < ORDER_BOOK_MERKLE_LEVELS" "bval a e" "bval (helper ! i) (odd (k div 2 ^ i))"
  shows "tval (fst (quote_step a path helper i acc))
      = tval (fst acc) + (if odd (k div 2 ^ i) \<noteq> e then sibling_sum B k (if e then 2 else 0) i else 0)"
    "tval (snd (quote_step a path helper i acc))
      = tval (snd acc) + (if odd (k div 2 ^ i) \<noteq> e then sibling_sum B k (if e then 3 else 1) i else 0)"
  using path_difference [OF assms(1-3)]
  by (simp_all add: quote_step_def split_def Let_def tval_simps tval_select [OF assms(4)] tval_select [OF assms(5)] node_sums_nth)

lemma quote_fold:
  assumes path: "book_path perm B k path" and a: "bval a e"
    and bits: "\<forall>i<ORDER_BOOK_MERKLE_LEVELS. bval (helper ! i) (odd (k div 2 ^ i))" and n: "n \<le> ORDER_BOOK_MERKLE_LEVELS"
  defines "acc \<equiv> fold (quote_step a path helper) [1..<n] (Const 0, Const 0)"
  shows "tval (fst acc) = (\<Sum>i\<in>{1..<n}. if odd (k div 2 ^ i) \<noteq> e then sibling_sum B k (if e then 2 else 0) i else 0)
    \<and> tval (snd acc) = (\<Sum>i\<in>{1..<n}. if odd (k div 2 ^ i) \<noteq> e then sibling_sum B k (if e then 3 else 1) i else 0)"
  unfolding acc_def using n
proof (induction n)
  case (Suc n)
  show ?case
  proof (cases "n = 0")
    case False
    then show ?thesis
      using Suc quote_step_values [OF path _ _ a, of n helper] bits by (simp add: sum.atLeastLessThan_Suc cong: if_cong)
  qed simp
qed simp

lemma get_quote_better:
  assumes path: "book_path perm B k path" and B: "book_ok B" and a: "bval a e" and k: "k < 2 ^ ORDER_BOOK_MERKLE_LEVELS"
    and bits: "list_all2 bval helper (index_bits ORDER_BOOK_MERKLE_LEVELS k)" and ord: "order_amounts ord = B k"
  shows "tval (fst (get_quote a ord path helper)) = better_sum B k e (if e then 2 else 0)"
    "tval (snd (get_quote a ord path helper)) = better_sum B k e (if e then 3 else 1)"
proof -
  have h: "\<forall>i<ORDER_BOOK_MERKLE_LEVELS. bval (helper ! i) (odd (k div 2 ^ i))"
    using bits by (auto simp: list_all2_conv_all_nth index_bits_def)
  then have h0: "bval (helper ! 0) (odd k)" using levels_pos by fastforce
  have split: "sum f {..<ORDER_BOOK_MERKLE_LEVELS} = f 0 + sum f {1..<ORDER_BOOK_MERKLE_LEVELS}" for f :: "nat \<Rightarrow> gf"
    using levels_pos by (simp add: lessThan_atLeast0 sum.atLeast_Suc_lessThan)
  note fold = quote_fold [OF path a h order_refl]
  note diff = leaf_difference [OF path B, folded ord]
  show "tval (fst (get_quote a ord path helper)) = better_sum B k e (if e then 2 else 0)"
    using fold diff [of 0] diff [of 2] unfolding get_quote_def Let_def split_def fst_conv
    by (cases e) (simp_all add: better_sum_levels [OF k] split tval_simps tval_select [OF a] tval_select [OF h0] node_sums_nth order_amounts_nth)
  show "tval (snd (get_quote a ord path helper)) = better_sum B k e (if e then 3 else 1)"
    using fold diff [of 1] diff [of 3] unfolding get_quote_def Let_def split_def snd_conv
    by (cases e) (simp_all add: better_sum_levels [OF k] split tval_simps tval_select [OF a] tval_select [OF h0] node_sums_nth order_amounts_nth del: One_nat_def)
qed

section \<open>Totals as numbers\<close>

text \<open>
  The tree computes in the field; the amounts are numbers. \<open>book_bounded\<close> says that the totals of the four
  columns are below \<open>2 ^ 63\<close>, which the range checks of the path maintain.
\<close>

definition amount :: "book \<Rightarrow> nat \<Rightarrow> nat \<Rightarrow> nat" where
  "amount B c j = to_canonical_u64 (B j ! c)"

definition book_bounded :: "book \<Rightarrow> bool" where
  "book_bounded B \<longleftrightarrow> (\<forall>c<4. (\<Sum>j<2 ^ ORDER_BOOK_MERKLE_LEVELS. amount B c j) < 2 ^ 63)"

lemma canonical_sum:
  assumes "(\<Sum>j\<in>S. to_canonical_u64 (f j)) < p_nat"
  shows "to_canonical_u64 (\<Sum>j\<in>S. f j) = (\<Sum>j\<in>S. to_canonical_u64 (f j))"
proof -
  have "(\<Sum>j\<in>S. f j) = of_nat (\<Sum>j\<in>S. to_canonical_u64 (f j))" by (simp only: of_nat_sum of_nat_to_canonical)
  then show ?thesis using to_canonical_of_nat_small [OF assms] by (simp only:)
qed

definition better_amount :: "book \<Rightarrow> nat \<Rightarrow> bool \<Rightarrow> nat \<Rightarrow> nat" where
  "better_amount B k larger c =
    (if larger then \<Sum>j\<in>{Suc k..<2 ^ ORDER_BOOK_MERKLE_LEVELS}. amount B c j else \<Sum>j<k. amount B c j)"

lemma better_amount_le:
  assumes "k < 2 ^ ORDER_BOOK_MERKLE_LEVELS"
  shows "better_amount B k larger c + amount B c k \<le> (\<Sum>j<2 ^ ORDER_BOOK_MERKLE_LEVELS. amount B c j)"
proof -
  have "sum (amount B c) (insert k S) \<le> (\<Sum>j<2 ^ ORDER_BOOK_MERKLE_LEVELS. amount B c j)"
    if "S = {Suc k..<2 ^ ORDER_BOOK_MERKLE_LEVELS} \<or> S = {..<k}" for S
    using that assms by (intro sum_mono2) auto
  from this [of "{Suc k..<2 ^ ORDER_BOOK_MERKLE_LEVELS}"] this [of "{..<k}"] show ?thesis
    by (simp add: better_amount_def add.commute)
qed

lemma better_amount_small:
  assumes "book_bounded B" "k < 2 ^ ORDER_BOOK_MERKLE_LEVELS" "c < 4"
  shows "better_amount B k larger c + amount B c k < 2 ^ 63"
  using better_amount_le [OF assms(2), of B larger c] assms(1,3) unfolding book_bounded_def by (meson le_less_trans)

lemma canonical_better_sum:
  assumes "book_bounded B" "k < 2 ^ ORDER_BOOK_MERKLE_LEVELS" "c < 4"
  shows "to_canonical_u64 (better_sum B k larger c) = better_amount B k larger c"
proof -
  have "better_amount B k larger c < 2 ^ 63" using better_amount_small [OF assms, of larger] by linarith
  then have "better_amount B k larger c < p_nat" by simp
  then show ?thesis unfolding better_sum_def better_amount_def amount_def
    by (cases larger) (simp_all only: if_True if_False, (rule canonical_sum, simp)+)
qed

lemma total_nth: "c < 4 \<Longrightarrow> block_sum B ORDER_BOOK_MERKLE_LEVELS 0 ! c = (\<Sum>j<2 ^ ORDER_BOOK_MERKLE_LEVELS. B j ! c)"
  by (simp add: block_sum_nth lessThan_atLeast0)

lemma canonical_total:
  assumes "book_bounded B" "c < 4"
  shows "to_canonical_u64 (block_sum B ORDER_BOOK_MERKLE_LEVELS 0 ! c) = (\<Sum>j<2 ^ ORDER_BOOK_MERKLE_LEVELS. amount B c j)"
proof -
  have "(\<Sum>j<2 ^ ORDER_BOOK_MERKLE_LEVELS. amount B c j) < 2 ^ 63" using assms by (simp add: book_bounded_def)
  then have "(\<Sum>j<2 ^ ORDER_BOOK_MERKLE_LEVELS. amount B c j) < p_nat" by simp
  from canonical_sum [OF this [unfolded amount_def]] show ?thesis unfolding total_nth [OF assms(2)] amount_def .
qed

lemma sums_fit_update:
  assumes B: "book_bounded B" "book_ok B" and a: "length a = 4" "\<forall>c<4. to_canonical_u64 (a ! c) < 2 ^ 62"
    and k: "k < 2 ^ ORDER_BOOK_MERKLE_LEVELS"
  shows "sums_fit (block_sum (B(k := a)) ORDER_BOOK_MERKLE_LEVELS 0) \<longleftrightarrow> book_bounded (B(k := a))"
proof -
  have eq: "to_canonical_u64 (block_sum (B(k := a)) ORDER_BOOK_MERKLE_LEVELS 0 ! c)
      = (\<Sum>j<2 ^ ORDER_BOOK_MERKLE_LEVELS. amount (B(k := a)) c j)" if c: "c < 4" for c
  proof -
    let ?J = "{..<2 ^ ORDER_BOOK_MERKLE_LEVELS} :: nat set"
    have "(\<Sum>j\<in>?J. amount (B(k := a)) c j) \<le> (\<Sum>j\<in>?J. amount B c j + (if j = k then to_canonical_u64 (a ! c) else 0))"
      by (rule sum_mono) (simp add: amount_def)
    also have "\<dots> = (\<Sum>j\<in>?J. amount B c j) + to_canonical_u64 (a ! c)"
      using k by (simp only: sum.distrib sum.delta [OF finite_lessThan] sum.delta' [OF finite_lessThan]) simp
    also have "\<dots> < 2 ^ 63 + 2 ^ 62" using B(1) a(2) c unfolding book_bounded_def by (intro add_strict_mono) auto
    finally have "(\<Sum>j\<in>?J. amount (B(k := a)) c j) < p_nat" by simp
    from canonical_sum [OF this [unfolded amount_def]] show ?thesis unfolding total_nth [OF c] amount_def .
  qed
  show ?thesis unfolding sums_fit_def book_bounded_def by (simp add: eq)
qed

section \<open>The path of a book\<close>

definition honest_node :: "hash_out \<Rightarrow> gf list \<Rightarrow> order_book_node" where
  "honest_node sib sums = \<lparr>sibling_child_hash = map Wire sib, node_ask_base_sum = Wire (sums ! 0),
     node_ask_quote_sum = Wire (sums ! 1), node_bid_base_sum = Wire (sums ! 2), node_bid_quote_sum = Wire (sums ! 3)\<rparr>"

definition honest_path :: "permutation \<Rightarrow> book \<Rightarrow> nat \<Rightarrow> order_book_node list" where
  "honest_path perm B k = map (\<lambda>(sums, sib, _). honest_node sib sums) (book_proof perm ORDER_BOOK_MERKLE_LEVELS B k)"

lemma length_tree_hash: "length (tree_hash (book_node perm) (block_sum B) (\<lambda>k. order_leaf perm (B k)) d j) = 4"
  by (cases d) (simp_all add: order_leaf_def hash_no_pad_def squeeze_hash_def NUM_HASH_OUT_ELTS_def book_node_def)

lemma honest_node_simps:
  "length sums = 4 \<Longrightarrow> node_sums (honest_node sib sums) = sums" "sibling_child_hash (honest_node sib sums) = map Wire sib"
  by (auto simp: honest_node_def node_sums_def internal_hash_def numeral_eq_Suc length_Suc_conv)

lemma book_path_honest: "book_path perm B k (honest_path perm B k)"
proof -
  have nth: "honest_path perm B k ! i = honest_node (tree_hash (book_node perm) (block_sum B) (\<lambda>k. order_leaf perm (B k)) i (sibling (k div 2 ^ i)))
      (block_sum B (Suc i) (k div 2 ^ Suc i))" if "i < ORDER_BOOK_MERKLE_LEVELS" for i
    using that by (simp add: honest_path_def book_proof_def proof_at_nth)
  have len: "length (honest_path perm B k) = ORDER_BOOK_MERKLE_LEVELS" by (simp add: honest_path_def book_proof_def)
  have shape: "path_shape ORDER_BOOK_MERKLE_LEVELS (honest_path perm B k)"
    by (auto simp: path_shape_def in_set_conv_nth len nth honest_node_simps length_tree_hash)
  have "book_steps (honest_path perm B k) (index_bits ORDER_BOOK_MERKLE_LEVELS k) = book_proof perm ORDER_BOOK_MERKLE_LEVELS B k"
    using shape
    by (intro nth_equalityI) (simp_all add: path_shape_def book_steps_nth index_bits_def nth honest_node_simps book_proof_def proof_at_nth comp_def)
  with shape show ?thesis by (simp add: book_path_def)
qed

text \<open>A book with one order, for the examples.\<close>

definition no_orders :: book where "no_orders k = replicate 4 0"

definition order_with :: "gf list \<Rightarrow> order_target" where
  "order_with a = \<lparr>price_index = Const 0, nonce_index = Const 0, ask_base_sum = Wire (a ! 0), ask_quote_sum = Wire (a ! 1),
     bid_base_sum = Wire (a ! 2), bid_quote_sum = Wire (a ! 3)\<rparr>"

lemma order_with_amounts: "length a = 4 \<Longrightarrow> order_amounts (order_with a) = a"
  by (auto simp: order_with_def order_amounts_def numeral_eq_Suc length_Suc_conv)

lemma single_order_book:
  assumes "length a = 4" "k < 2 ^ ORDER_BOOK_MERKLE_LEVELS"
  shows "book_ok (no_orders(k := a))" "book_bounded (no_orders(k := a)) \<longleftrightarrow> sums_fit a"
proof -
  show "book_ok (no_orders(k := a))" using assms by (simp add: book_ok_def no_orders_def)
  have "(\<Sum>j<2 ^ ORDER_BOOK_MERKLE_LEVELS. amount (no_orders(k := a)) c j)
      = (\<Sum>j<2 ^ ORDER_BOOK_MERKLE_LEVELS. if j = k then to_canonical_u64 (a ! c) else 0)" if "c < 4" for c
    using that by (intro sum.cong) (auto simp: amount_def no_orders_def)
  then have "(\<Sum>j<2 ^ ORDER_BOOK_MERKLE_LEVELS. amount (no_orders(k := a)) c j) = to_canonical_u64 (a ! c)" if "c < 4" for c
    using that assms(2) by (simp add: sum.delta)
  then show "book_bounded (no_orders(k := a)) \<longleftrightarrow> sums_fit a" by (simp add: book_bounded_def sums_fit_def)
qed

lemma no_orders_update: "no_orders(k := replicate 4 0) = no_orders"
  by (auto simp: no_orders_def)

lemma no_orders_ok: "book_ok no_orders" "book_bounded no_orders"
  using single_order_book [of "replicate 4 0" 0] by (simp_all add: no_orders_update sums_fit_def)

definition helper_targets :: "nat \<Rightarrow> target list" where
  "helper_targets k = map (\<lambda>b. Const (of_bool b)) (index_bits ORDER_BOOK_MERKLE_LEVELS k)"

lemma helper_targets_ok: "list_all2 bval (helper_targets k) (index_bits ORDER_BOOK_MERKLE_LEVELS k)"
  by (simp add: helper_targets_def list_all2_conv_all_nth bval_def)

lemma root_targets_ok: "hash_ok (map Wire (book_root perm L B)) (book_root perm L B)"
  using length_tree_hash by (simp add: hash_ok_def book_root_def NUM_HASH_OUT_ELTS_def comp_def)

section \<open>Properties of the book\<close>

text \<open>
  C11. Authenticated order update: for an arbitrary path supplied by the prover, an accepted update of the order
  at key \<open>k\<close> has opened the order stored there and returns the root of the book with that order replaced, sums of
  all inner nodes included, or the path exhibits a collision with a value hashed in the book.
\<close>
theorem order_book_update_authenticated:
  assumes "book_ok B" "k < 2 ^ ORDER_BOOK_MERKLE_LEVELS" "list_all2 bval helpers (index_bits ORDER_BOOK_MERKLE_LEVELS k)"
    and "path_shape ORDER_BOOK_MERKLE_LEVELS path" "hash_ok root (order_book_root_of perm B)"
  shows "sound (update_order_book_root perm root ob path helpers oa)
    (\<lambda>h. order_amounts ob = B k \<and> hash_ok h (order_book_root_of perm (B(k := order_amounts oa)))
      \<or> book_collision perm B k (order_amounts ob) (book_steps path (index_bits ORDER_BOOK_MERKLE_LEVELS k)))"
proof (rule sound_weaken [OF realises_sound [OF realises_update_order_book_root [OF assms(3,4,5)]]], elim conjE)
  let ?bits = "index_bits ORDER_BOOK_MERKLE_LEVELS k"
  fix h assume climbed: "climb (book_node perm) (order_leaf perm (order_amounts ob)) (book_steps path ?bits) = order_book_root_of perm B"
    and h: "hash_ok h (climb (book_node perm) (order_leaf perm (order_amounts oa)) (book_steps (order_book_path_after ob path oa) ?bits))"
  have len: "length path = ORDER_BOOK_MERKLE_LEVELS" using assms(4) by (simp add: path_shape_def)
  have sides: "map step_side (book_steps path ?bits) = ?bits"
    using len by (intro nth_equalityI) (simp_all add: book_steps_nth step_side_def index_bits_def)
  have root: "order_book_root_of perm B
      = tree_hash (book_node perm) (block_sum B) (\<lambda>k. order_leaf perm (B k)) ORDER_BOOK_MERKLE_LEVELS (k div 2 ^ ORDER_BOOK_MERKLE_LEVELS)"
    using assms(2) by (simp add: book_root_def)
  from book.accepted_proof [OF climbed [unfolded root] sides]
  consider "order_leaf perm (order_amounts ob) = order_leaf perm (B k)" "book_steps path ?bits = book_proof perm ORDER_BOOK_MERKLE_LEVELS B k"
    | "book_collision perm B k (order_amounts ob) (book_steps path ?bits)"
    by (auto simp: book_collision_def book_proof_def)
  then show "order_amounts ob = B k \<and> hash_ok h (order_book_root_of perm (B(k := order_amounts oa)))
      \<or> book_collision perm B k (order_amounts ob) (book_steps path ?bits)"
  proof cases
    case 1
    show ?thesis
    proof (cases "order_amounts ob = B k")
      case True
      from book_steps_after [OF assms(1) length_order_amounts len 1(2) True refl] climb_book_proof [OF assms(2), of perm "B(k := order_amounts oa)"] h True
      show ?thesis by simp
    qed (use 1 in \<open>simp add: book_collision_def\<close>)
  qed simp
qed

lemma order_book_update_authenticated_witness:
  "sound (update_order_book_root (\<lambda>s. s) (map Wire (order_book_root_of (\<lambda>s. s) no_orders)) (order_with [0, 0, 0, 0])
      (honest_path (\<lambda>s. s) no_orders 5) (helper_targets 5) (order_with [10, 80, 0, 0]))
    (\<lambda>h. order_amounts (order_with [0, 0, 0, 0]) = no_orders 5
        \<and> hash_ok h (order_book_root_of (\<lambda>s. s) (no_orders(5 := order_amounts (order_with [10, 80, 0, 0]))))
      \<or> book_collision (\<lambda>s. s) no_orders 5 (order_amounts (order_with [0, 0, 0, 0]))
          (book_steps (honest_path (\<lambda>s. s) no_orders 5) (index_bits ORDER_BOOK_MERKLE_LEVELS 5)))"
  by (rule order_book_update_authenticated [OF no_orders_ok(1) _ helper_targets_ok _ root_targets_ok])
    (use book_path_honest in \<open>simp_all add: book_path_def ORDER_BOOK_MERKLE_LEVELS_def ORDER_PRICE_BITS_def ORDER_NONCE_BITS_def\<close>)

text \<open>
  C30. Invariant: on the path of the book itself an update is satisfiable exactly when the totals of the new book
  stay below \<open>2 ^ 63\<close>, so the sums in the tree never wrap around the field.
\<close>
theorem order_book_update_bounded:
  assumes "book_ok B" "book_bounded B" "k < 2 ^ ORDER_BOOK_MERKLE_LEVELS" "book_path perm B k path"
    and "list_all2 bval helpers (index_bits ORDER_BOOK_MERKLE_LEVELS k)" "hash_ok root (order_book_root_of perm B)"
    and "order_amounts ob = B k" "\<forall>c<4. to_canonical_u64 (order_amounts oa ! c) < 2 ^ 62"
  shows "realises (update_order_book_root perm root ob path helpers oa)
    (book_bounded (B(k := order_amounts oa))) (\<lambda>h. hash_ok h (order_book_root_of perm (B(k := order_amounts oa))))"
proof -
  let ?a = "order_amounts oa" and ?last = "ORDER_BOOK_MERKLE_LEVELS - 1"
  have shape: "path_shape ORDER_BOOK_MERKLE_LEVELS path" and steps: "book_steps path (index_bits ORDER_BOOK_MERKLE_LEVELS k)
      = book_proof perm ORDER_BOOK_MERKLE_LEVELS B k" using assms(4) by (simp_all add: book_path_def)
  have len: "length path = ORDER_BOOK_MERKLE_LEVELS" using shape by (simp add: path_shape_def)
  have last: "?last < ORDER_BOOK_MERKLE_LEVELS" "Suc ?last = ORDER_BOOK_MERKLE_LEVELS" using levels_pos by simp_all
  have "k div 2 ^ ORDER_BOOK_MERKLE_LEVELS = 0" using assms(3) by simp
  then have "node_sums (order_book_path_after ob path oa ! ?last) = block_sum (B(k := ?a)) ORDER_BOOK_MERKLE_LEVELS 0"
    using block_sum_update [of ?a B k ORDER_BOOK_MERKLE_LEVELS 0] assms(1)
    unfolding order_book_path_after(3) [OF last(1)] book_path_sums [OF assms(4) last(1)] last(2) assms(7)
    by (simp add: add_change_def book_ok_def)
  then have fit: "sums_fit (node_sums (order_book_path_after ob path oa ! ?last)) = book_bounded (B(k := ?a))"
    using sums_fit_update [OF assms(2,1) length_order_amounts assms(8,3)] by simp
  show ?thesis
    using realises_update_order_book_root [OF assms(5) shape assms(6), where perm = perm and ob = ob and oa = oa]
    unfolding steps book_steps_after [OF assms(1) length_order_amounts len steps assms(7) refl] fit assms(7)
      climb_book_proof [OF assms(3)] climb_book_proof [where B = "B(k := ?a)" and k = k, OF assms(3), unfolded fun_upd_same]
    by simp
qed

lemma order_book_update_bounded_witness:
  "complete (update_order_book_root (\<lambda>s. s) (map Wire (order_book_root_of (\<lambda>s. s) no_orders)) (order_with [0, 0, 0, 0])
      (honest_path (\<lambda>s. s) no_orders 5) (helper_targets 5) (order_with [10, 80, 0, 0]))
    (\<lambda>h. hash_ok h (order_book_root_of (\<lambda>s. s) (no_orders(5 := [10, 80, 0, 0]))))"
proof -
  let ?a = "[10, 80, 0, 0] :: gf list"
  have k: "5 < (2::nat) ^ ORDER_BOOK_MERKLE_LEVELS"
    by (simp add: ORDER_BOOK_MERKLE_LEVELS_def ORDER_PRICE_BITS_def ORDER_NONCE_BITS_def)
  have a: "order_amounts (order_with ?a) = ?a" "order_amounts (order_with [0, 0, 0, 0]) = no_orders 5"
    by (simp_all add: order_with_amounts no_orders_def numeral_eq_Suc)
  have small: "\<forall>c<4. to_canonical_u64 (order_amounts (order_with ?a) ! c) < 2 ^ 62" unfolding all_less_4 a by simp
  have "book_bounded (no_orders(5 := ?a))" unfolding single_order_book(2) [where a = ?a, OF _ k, simplified] sums_fit_def all_less_4 by simp
  then show ?thesis
    using order_book_update_bounded [OF no_orders_ok k book_path_honest helper_targets_ok root_targets_ok a(2) small, where perm = "\<lambda>s. s"]
    by (simp add: a(1) realises_def implements_def)
qed

text \<open>
  C12. Price-time priority: on the path of key \<open>k\<close>, \<open>get_quote\<close> returns the total size and quote of all orders
  on the opposite side with strictly better priority: the asks at smaller keys for a buyer, the bids at larger
  keys for a seller.
\<close>
theorem get_quote_priority:
  assumes "book_ok B" "book_bounded B" "k < 2 ^ ORDER_BOOK_MERKLE_LEVELS" "book_path perm B k path"
    and "list_all2 bval helpers (index_bits ORDER_BOOK_MERKLE_LEVELS k)" "order_amounts ord = B k" "bval is_ask e"
  shows "uval (fst (get_quote is_ask ord path helpers)) = better_amount B k e (if e then 2 else 0)
    \<and> uval (snd (get_quote is_ask ord path helpers)) = better_amount B k e (if e then 3 else 1)"
  using get_quote_better [OF assms(4,1,7,3,5,6)] canonical_better_sum [OF assms(2,3)] by simp

lemma get_quote_priority_witness:
  "uval (snd (get_quote (Const 0) (order_with [0, 0, 0, 0]) (honest_path (\<lambda>s. s) (no_orders(5 := [10, 80, 0, 0])) 9) (helper_targets 9))) = 80"
proof -
  let ?B = "no_orders(5 := [10, 80, 0, 0])"
  have k: "5 < (2::nat) ^ ORDER_BOOK_MERKLE_LEVELS" "9 < (2::nat) ^ ORDER_BOOK_MERKLE_LEVELS"
    by (simp_all add: ORDER_BOOK_MERKLE_LEVELS_def ORDER_PRICE_BITS_def ORDER_NONCE_BITS_def)
  have B: "book_ok ?B" "book_bounded ?B" using single_order_book [where a = "[10, 80, 0, 0]", OF _ k(1)]
    by (simp_all add: sums_fit_def all_less_4)
  have ord: "order_amounts (order_with [0, 0, 0, 0]) = ?B 9" by (simp add: order_with_amounts no_orders_def numeral_eq_Suc)
  have "better_amount ?B 9 False 1 = (\<Sum>j<9. if j = (5::nat) then 80 else 0)"
    unfolding better_amount_def if_False by (rule sum.cong) (auto simp: amount_def no_orders_def)
  then have "better_amount ?B 9 False 1 = 80" by (simp add: sum.delta)
  then show ?thesis
    using get_quote_priority [OF B k(2) book_path_honest helper_targets_ok ord bval_Const(2), where perm = "\<lambda>s. s"]
    by (simp del: fun_upd_apply)
qed

end
