(* ===== verification/Impact_Price.thy ===== *)
theory Impact_Price
  imports Order_Book
begin

text \<open>
  Impact prices (\<open>get_impact_price\<close> and \<open>get_impact_prices\<close> of \<open>matching_engine.rs\<close>, \<open>update_impact_prices\<close> of
  \<open>tx_constraints.rs\<close>): the average price at which a fixed notional would trade against one side of the book.
  The prover names the order at which the notional is reached; the circuit checks the choice against the sums
  on its path. The averages are hinted divisions, so the result is unique only while they cannot wrap.
\<close>

section \<open>The circuit\<close>

definition IMPACT_USDC_AMOUNT :: nat where "IMPACT_USDC_AMOUNT = 500 * ONE_USDC"
definition MARKET_STATUS_ACTIVE :: nat where "MARKET_STATUS_ACTIVE = 1"

text \<open>The first half of \<open>get_impact_price\<close>: what the order's path says, and the checks on the choice of the order.\<close>

definition impact_order_checks ::
  "target \<Rightarrow> target \<Rightarrow> order_book_node list \<Rightarrow> order_target \<Rightarrow> target \<Rightarrow> (target \<times> target \<times> target) circ" where
  "impact_order_checks should_update notional path ord is_bid =
    circ_bind (order_indexes_to_merkle_path (price_index ord) (nonce_index ord)) (\<lambda>order_merkle_helper.
    let (orders_before_base, orders_before_quote) = get_quote is_bid ord path order_merkle_helper;
        leaf_quote = select is_bid (bid_quote_sum ord) (ask_quote_sum ord);
        impact_path_quote = b_add orders_before_quote leaf_quote;
        total_quote = select is_bid (node_bid_quote_sum (path ! (ORDER_BOOK_MERKLE_LEVELS - 1)))
          (node_ask_quote_sum (path ! (ORDER_BOOK_MERKLE_LEVELS - 1))) in
    circ_bind (is_gt notional total_quote 64) (\<lambda>not_enough_liquidity.
    let enough_liquidity = b_not not_enough_liquidity;
        checks_enabled = b_and should_update enough_liquidity in
    circ_bind (conditional_assert_lt checks_enabled orders_before_quote notional 64) (\<lambda>_.
    circ_bind (conditional_assert_lte checks_enabled notional impact_path_quote 64) (\<lambda>_.
    circ_return (orders_before_base, orders_before_quote, enough_liquidity)))))"

text \<open>The second half: the average over the orders before it and the part of the order that is needed.\<close>

definition impact_average ::
  "target \<Rightarrow> target \<Rightarrow> target \<Rightarrow> target \<Rightarrow> target \<Rightarrow> target \<Rightarrow> target circ" where
  "impact_average notional price is_bid orders_before_base orders_before_quote enough_liquidity =
    (let remaining_quote = b_sub notional orders_before_quote in
     circ_bind (ceil_div remaining_quote price ORDER_PRICE_BITS) (\<lambda>leaf_included_base.
     let leaf_included_quote = b_mul leaf_included_base price;
         total_included_base = b_add orders_before_base leaf_included_base;
         total_included_quote = b_add orders_before_quote leaf_included_quote in
     circ_bind (div_rem total_included_quote total_included_base ORDER_BASE_AMOUNT_BITS) (\<lambda>(impact_price_div, _).
     circ_bind (ceil_div total_included_quote total_included_base ORDER_BASE_AMOUNT_BITS) (\<lambda>impact_price_ceil_div.
     let impact_price = select is_bid impact_price_div impact_price_ceil_div in
     circ_return (select enough_liquidity impact_price (Const 0))))))"

definition get_impact_price ::
  "target \<Rightarrow> target \<Rightarrow> order_book_node list \<Rightarrow> order_target \<Rightarrow> target \<Rightarrow> target circ" where
  "get_impact_price should_update notional path ord is_ask =
    (let is_bid = b_not is_ask in
     circ_bind (impact_order_checks should_update notional path ord is_bid) (\<lambda>(orders_before_base, orders_before_quote, enough_liquidity).
     impact_average notional (price_index ord) is_bid orders_before_base orders_before_quote enough_liquidity))"

definition get_impact_prices ::
  "target \<Rightarrow> order_book_node list \<Rightarrow> order_target \<Rightarrow> order_book_node list \<Rightarrow> order_target \<Rightarrow> target \<Rightarrow> target \<Rightarrow> (target \<times> target) circ" where
  "get_impact_prices should_update ask_path ask_order bid_path bid_order min_initial_margin_fraction quote_multiplier =
    circ_bind (div_rem (Const (of_nat (MARGIN_TICK * IMPACT_USDC_AMOUNT))) min_initial_margin_fraction MARGIN_FRACTION_BITS)
      (\<lambda>(margin_tick_over_initial_margin, _).
    circ_bind (div_rem margin_tick_over_initial_margin quote_multiplier QUOTE_MULTIPLIER_BITS) (\<lambda>(notional, _).
    circ_bind (get_impact_price should_update notional ask_path ask_order (Const 1)) (\<lambda>impact_ask_price.
    circ_bind (get_impact_price should_update notional bid_path bid_order (Const 0)) (\<lambda>impact_bid_price.
    circ_return (impact_ask_price, impact_bid_price)))))"

record impact_prices =
  impact_ask_price :: target
  impact_bid_price :: target
  impact_price :: target

definition update_impact_prices ::
  "target \<Rightarrow> target \<Rightarrow> market_target \<Rightarrow> order_book_node list \<Rightarrow> order_target \<Rightarrow> order_book_node list \<Rightarrow> order_target
    \<Rightarrow> target \<Rightarrow> target \<Rightarrow> impact_prices \<Rightarrow> impact_prices circ" where
  "update_impact_prices update_flag risk_status market ask_path ask_order bid_path bid_order min_initial_margin_fraction quote_multiplier d =
    circ_bind (is_equal risk_status (constant_u64 MARKET_STATUS_ACTIVE)) (\<lambda>is_market_active.
    circ_bind (is_equal (market_type market) (constant_u64 MARKET_TYPE_PERPS)) (\<lambda>is_perps_market.
    let should_update = multi_and [update_flag, is_market_active, is_perps_market] in
    circ_bind (get_impact_prices should_update ask_path ask_order bid_path bid_order min_initial_margin_fraction quote_multiplier)
      (\<lambda>(ask, bid).
    let d = d\<lparr>impact_ask_price := select should_update ask (impact_ask_price d),
              impact_bid_price := select should_update bid (impact_bid_price d)\<rparr>;
        impact_prices_sum = b_add ask bid in
    circ_bind (div_rem impact_prices_sum (Const 2) 2) (\<lambda>(avg, _).
    circ_bind (is_not_zero ask) (\<lambda>ask_non_zero.
    circ_bind (is_not_zero bid) (\<lambda>bid_non_zero.
    let non_zero = b_and ask_non_zero bid_non_zero;
        update_and_non_zero = b_and should_update non_zero;
        d = d\<lparr>impact_price := select update_and_non_zero avg (impact_price d)\<rparr>;
        update_and_zero = and_not should_update non_zero in
    circ_return (d\<lparr>impact_price := select update_and_zero (Const 0) (impact_price d)\<rparr>)))))))"

section \<open>Specification\<close>

definition ceil_nat :: "nat \<Rightarrow> nat \<Rightarrow> nat" where
  "ceil_nat n d = n div d + of_bool (d \<noteq> 0 \<and> n mod d \<noteq> 0)"

lemma complete_ceil_div:
  assumes "uval n mod uval d < 2 ^ cmp_bit_size_bucket bits"
  shows "complete (ceil_div n d bits) (\<lambda>_. True)"
proof -
  obtain q r where acc: "division_accepts True n d bits (Wire q) (Wire r)"
    using generator_accepted [of True d n bits] assms by (auto split: prod.splits)
  show ?thesis
    unfolding ceil_div_def
    by (rule complete_bind [OF div_rem_accepts(2) [OF acc]], simp only: prod.case,
        rule complete_bind [OF implements_complete [OF implements_is_zero]]) (simp add: Let_def complete_return)
qed

text \<open>The size taken from the last order, and the totals up to it.\<close>

definition impact_totals :: "nat \<Rightarrow> nat \<Rightarrow> nat \<Rightarrow> nat \<Rightarrow> nat \<times> nat" where
  "impact_totals notional price base_before quote_before =
    (let m = ceil_nat (notional - quote_before) price in (base_before + m, quote_before + m * price))"

definition impact_spec :: "bool \<Rightarrow> nat \<times> nat \<Rightarrow> nat" where
  "impact_spec ask = (\<lambda>(base, quote). if ask then ceil_nat quote base else quote div base)"

lemma ceil_nat_bounds:
  assumes "0 < n" "0 < d"
  shows "0 < ceil_nat n d" "ceil_nat n d \<le> n" "ceil_nat n d * d < n + d" "n \<le> ceil_nat n d * d"
proof -
  define q r where "q = n div d" and "r = n mod d"
  have n: "n = q * d + r" "r < d" using assms by (simp_all add: q_def r_def)
  have c: "ceil_nat n d = q + of_bool (r \<noteq> 0)" using assms(2) by (simp add: ceil_nat_def q_def r_def)
  show "0 < ceil_nat n d" using assms n c by (cases "r = 0") auto
  show "ceil_nat n d * d < n + d" using n c by (cases "r = 0") simp_all
  show "n \<le> ceil_nat n d * d" using n c by (cases "r = 0") simp_all
  have "q * 1 \<le> q * d" using assms(2) by (intro mult_le_mono2) simp
  then show "ceil_nat n d \<le> n" unfolding c using n by (cases "r = 0"; simp; linarith)
qed

lemma implements_ceil_div_nat:
  assumes "division_fits n d" "uval d \<le> 2 ^ bits" "bits \<le> 64" "0 < uval n" "0 < uval d"
  shows "implements (ceil_div n d bits) (\<lambda>r. uval r = ceil_nat (uval n) (uval d))"
proof (rule implements_weaken [OF implements_ceil_div [OF assms(1-3)], folded ceil_nat_def])
  fix r assume "tval r = of_nat (ceil_nat (uval n) (uval d))"
  moreover have "ceil_nat (uval n) (uval d) < p_nat" by (rule le_less_trans [OF ceil_nat_bounds(2) [OF assms(4,5)] to_canonical_lt])
  ultimately show "uval r = ceil_nat (uval n) (uval d)" using to_canonical_of_nat_small by (simp only:)
qed

section \<open>Contracts\<close>

lemma realises_impact_order_checks:
  fixes notional :: target and ord :: order_target and path :: "order_book_node list"
  assumes B: "book_ok B" "book_bounded B" and price: "uval (price_index ord) < 2 ^ ORDER_PRICE_BITS" and nonce: "uval (nonce_index ord) < 2 ^ ORDER_NONCE_BITS"
    and path: "book_path perm B (order_key (uval (price_index ord)) (uval (nonce_index ord))) path"
    and ord: "order_amounts ord = B (order_key (uval (price_index ord)) (uval (nonce_index ord)))"
    and bid: "bval is_bid b" and upd: "bval should_update u"
  defines "k \<equiv> order_key (uval (price_index ord)) (uval (nonce_index ord))"
  defines "quote \<equiv> better_amount B k b (if b then 3 else 1)" and "base \<equiv> better_amount B k b (if b then 2 else 0)"
    and "enough \<equiv> uval notional \<le> (\<Sum>j<2 ^ ORDER_BOOK_MERKLE_LEVELS. amount B (if b then 3 else 1) j)"
  shows "realises (impact_order_checks should_update notional path ord is_bid)
    (u \<and> enough \<longrightarrow> quote < uval notional \<and> uval notional \<le> quote + amount B (if b then 3 else 1) k)
    (\<lambda>(x, y, z). uval x = base \<and> uval y = quote \<and> bval z enough)"
proof -
  let ?q = "if b then 3 else 1 :: nat" and ?s = "if b then 2 else 0 :: nat" and ?last = "path ! (ORDER_BOOK_MERKLE_LEVELS - 1)"
  let ?total = "select is_bid (node_bid_quote_sum ?last) (node_ask_quote_sum ?last)"
  have k: "k < 2 ^ ORDER_BOOK_MERKLE_LEVELS"
  proof -
    have "k < 2 ^ ORDER_NONCE_BITS * (uval (price_index ord) + 1)" using nonce by (simp add: k_def order_key_def algebra_simps)
    also have "\<dots> \<le> 2 ^ ORDER_NONCE_BITS * 2 ^ ORDER_PRICE_BITS" using price by (intro mult_le_mono2) simp
    finally show ?thesis by (simp add: ORDER_BOOK_MERKLE_LEVELS_def power_add mult.commute)
  qed
  note path = path [folded k_def] and ord = ord [folded k_def]
  have q: "?q < 4" "?s < 4" by simp_all
  have leaf: "uval (select is_bid (bid_quote_sum ord) (ask_quote_sum ord)) = amount B ?q k"
    by (cases b) (simp_all add: tval_select [OF bid] order_amounts_nth ord amount_def)
  have "node_sums ?last = block_sum B ORDER_BOOK_MERKLE_LEVELS 0"
    using book_path_sums [OF path, of "ORDER_BOOK_MERKLE_LEVELS - 1"] levels_pos k by simp
  then have total: "uval ?total = (\<Sum>j<2 ^ ORDER_BOOK_MERKLE_LEVELS. amount B ?q j)"
    using canonical_total [OF B(2) q(1)] by (cases b) (simp_all add: tval_select [OF bid] node_sums_nth)
  have helper: "realises (order_indexes_to_merkle_path (price_index ord) (nonce_index ord)) True
      (\<lambda>ts. list_all2 bval ts (index_bits ORDER_BOOK_MERKLE_LEVELS k))"
    using realises_order_path [of "price_index ord" "nonce_index ord"] price nonce by (simp add: k_def)
  show ?thesis
    unfolding impact_order_checks_def Let_def split_def
  proof (rule realises_bind [where P = True, simplified, OF helper], rule realises_after [OF implements_is_gt],
      simp add: cmp_ok_wide, simp add: cmp_ok_wide)
    fix ts gt assume ts: "list_all2 bval ts (index_bits ORDER_BOOK_MERKLE_LEVELS k)" and gt: "bval gt (uval ?total < uval notional)"
    let ?gq = "get_quote is_bid ord path ts"
    have bq: "uval (fst ?gq) = base" "uval (snd ?gq) = quote"
      using get_quote_better [OF path B(1) bid k ts ord] canonical_better_sum [OF B(2) k] q by (simp_all add: base_def quote_def)
    have en: "bval (b_not gt) enough" using bval_not [OF gt] unfolding enough_def total not_less .
    have "quote + amount B ?q k < 2 ^ 63" using better_amount_small [OF B(2) k q(1), of b] by (simp only: quote_def)
    then have sum: "uval (b_add (snd ?gq) (select is_bid (bid_quote_sum ord) (ask_quote_sum ord))) = quote + amount B ?q k"
      using uval_add_small [of "snd ?gq" "select is_bid (bid_quote_sum ord) (ask_quote_sum ord)"] unfolding leaf bq by simp
    have fits: "(u \<and> enough \<longrightarrow> quote < uval notional \<and> uval notional \<le> quote + amount B ?q k)
        = ((u \<and> enough \<longrightarrow> quote < uval notional) \<and> (u \<and> enough \<longrightarrow> uval notional \<le> quote + amount B ?q k))" by blast
    show "realises (circ_bind (conditional_assert_lt (b_and should_update (b_not gt)) (snd ?gq) notional 64) (\<lambda>_.
        circ_bind (conditional_assert_lte (b_and should_update (b_not gt)) notional
          (b_add (snd ?gq) (select is_bid (bid_quote_sum ord) (ask_quote_sum ord))) 64) (\<lambda>_.
        circ_return (fst ?gq, snd ?gq, b_not gt))))
      (u \<and> enough \<longrightarrow> quote < uval notional \<and> uval notional \<le> quote + amount B ?q k)
      (\<lambda>p. uval (fst p) = base \<and> uval (fst (snd p)) = quote \<and> bval (snd (snd p)) enough)"
      unfolding fits
      using realises_conditional_assert_lt [OF bval_and [OF upd en] cmp_ok_64 cmp_ok_64, of "snd ?gq" notional]
        realises_conditional_assert_lte [OF bval_and [OF upd en] cmp_ok_64 cmp_ok_64, of notional
          "b_add (snd ?gq) (select is_bid (bid_quote_sum ord) (ask_quote_sum ord))"]
      unfolding bq sum by (intro realises_bind realises_then_return) (use bq en in simp_all)
  qed
qed

text \<open>The averages are exact while neither division can wrap around.\<close>

definition impact_fits :: "nat \<Rightarrow> nat \<Rightarrow> nat \<times> nat \<Rightarrow> bool" where
  "impact_fits remaining price = (\<lambda>(base, quote).
    remaining * price + price \<le> p_nat \<and> quote * base + base \<le> p_nat \<and> base \<le> 2 ^ 48)"

lemma product_bound:
  fixes q b :: nat
  assumes "q * b + b \<le> n" "0 < q" "0 < b"
  shows "q < n" "b < n"
proof -
  have "q * 1 \<le> q * b" "1 * b \<le> q * b" using assms(2,3) by (intro mult_le_mono2 mult_le_mono1; linarith)+
  then show "q < n" "b < n" using assms by linarith+
qed

lemma implements_impact_average:
  fixes notional price base_t quote_t :: target
  assumes bid: "bval is_bid b" and enough: "bval enough_t e" and quote: "uval quote_t < uval notional" and price: "0 < uval price" "uval price < 2 ^ 32"
  defines "totals \<equiv> impact_totals (uval notional) (uval price) (uval base_t) (uval quote_t)"
  assumes fits: "impact_fits (uval notional - uval quote_t) (uval price) totals"
  shows "implements (impact_average notional price is_bid base_t quote_t enough_t) (\<lambda>r. uval r = (if e then impact_spec (\<not> b) totals else 0))"
proof -
  let ?R = "b_sub notional quote_t"
  have R: "uval ?R = uval notional - uval quote_t" "0 < uval ?R" using uval_sub_small [of quote_t notional] quote by simp_all
  define m where "m = ceil_nat (uval ?R) (uval price)"
  have tot: "totals = (uval base_t + m, uval quote_t + m * uval price)" by (simp add: totals_def impact_totals_def m_def R(1) Let_def)
  note m = ceil_nat_bounds [OF R(2) price(1), folded m_def]
  let ?B = "uval base_t + m" and ?Q = "uval quote_t + m * uval price"
  have f: "uval ?R * uval price + uval price \<le> p_nat" "?Q * ?B + ?B \<le> p_nat" "?B \<le> 2 ^ 48" using fits by (simp_all add: impact_fits_def tot R(1))
  have pos: "0 < ?Q" "0 < ?B" using m(1) price by simp_all
  note Q = product_bound(1) [OF f(2) pos] and B = product_bound(2) [OF f(2) pos]
  have first: "implements (ceil_div ?R price ORDER_PRICE_BITS) (\<lambda>r. uval r = m)"
    unfolding m_def using f(1) price R by (intro implements_ceil_div_nat) (simp_all add: division_fits_def ORDER_PRICE_BITS_def)
  show ?thesis
    unfolding impact_average_def Let_def
  proof (rule implements_bind [OF first])
    fix lib assume lib: "uval lib = m"
    have mul: "uval (b_mul lib price) = m * uval price"
    proof -
      have "tval (b_mul lib price) = of_nat (m * uval price)" unfolding lib [symmetric] by (simp add: tval_simps)
      moreover have "m * uval price < p_nat" using Q by linarith
      ultimately show ?thesis using to_canonical_of_nat_small by (simp only:)
    qed
    have TB: "uval (b_add base_t lib) = ?B" using uval_add_small [of base_t lib] B by (simp add: lib)
    have TQ: "uval (b_add quote_t (b_mul lib price)) = ?Q" using uval_add_small [of quote_t "b_mul lib price"] Q by (simp add: mul)
    have df: "division_fits (b_add quote_t (b_mul lib price)) (b_add base_t lib)" "uval (b_add base_t lib) \<le> 2 ^ ORDER_BASE_AMOUNT_BITS"
      "ORDER_BASE_AMOUNT_BITS \<le> 64" "0 < uval (b_add quote_t (b_mul lib price))" "0 < uval (b_add base_t lib)"
      unfolding division_fits_def TB TQ using f(2,3) pos by (simp_all add: ORDER_BASE_AMOUNT_BITS_def)
    show "implements (circ_bind (div_rem (b_add quote_t (b_mul lib price)) (b_add base_t lib) ORDER_BASE_AMOUNT_BITS) (\<lambda>(d, _).
        circ_bind (ceil_div (b_add quote_t (b_mul lib price)) (b_add base_t lib) ORDER_BASE_AMOUNT_BITS) (\<lambda>c.
        circ_return (select enough_t (select is_bid d c) (Const 0)))))
      (\<lambda>r. uval r = (if e then impact_spec (\<not> b) totals else 0))"
    proof (rule implements_bind [OF implements_div_rem [OF df(1-3)]], unfold split_paired_all prod.case,
        rule implements_bind [OF implements_ceil_div_nat [OF df]], rule implements_return)
      fix d x c assume d: "is_quotient (b_add quote_t (b_mul lib price)) (b_add base_t lib) (d, x)"
        and c: "uval c = ceil_nat (uval (b_add quote_t (b_mul lib price))) (uval (b_add base_t lib))"
      have zero: "tval (Const 0) = 0" by simp
      show "uval (select enough_t (select is_bid d c) (Const 0)) = (if e then impact_spec (\<not> b) totals else 0)"
        using d c by (cases b) (simp_all add: uval_select [OF enough] uval_select [OF bid] TB TQ is_quotient_def impact_spec_def tot zero del: tval.simps)
    qed
  qed
qed

lemma realises_get_impact_price:
  fixes notional :: target and ord :: order_target and path :: "order_book_node list"
  assumes B: "book_ok B" "book_bounded B" and price: "0 < uval (price_index ord)" "uval (price_index ord) < 2 ^ ORDER_PRICE_BITS"
    and nonce: "uval (nonce_index ord) < 2 ^ ORDER_NONCE_BITS"
    and path: "book_path perm B (order_key (uval (price_index ord)) (uval (nonce_index ord))) path"
    and ord: "order_amounts ord = B (order_key (uval (price_index ord)) (uval (nonce_index ord)))"
    and ask: "bval is_ask a" and upd: "bval should_update True"
  defines "k \<equiv> order_key (uval (price_index ord)) (uval (nonce_index ord))"
  defines "quote \<equiv> better_amount B k (\<not> a) (if a then 1 else 3)" and "base \<equiv> better_amount B k (\<not> a) (if a then 0 else 2)"
  assumes enough: "uval notional \<le> (\<Sum>j<2 ^ ORDER_BOOK_MERKLE_LEVELS. amount B (if a then 1 else 3) j)"
    and fits: "impact_fits (uval notional - quote) (uval (price_index ord)) (impact_totals (uval notional) (uval (price_index ord)) base quote)"
  shows "realises (get_impact_price should_update notional path ord is_ask)
    (quote < uval notional \<and> uval notional \<le> quote + amount B (if a then 1 else 3) k)
    (\<lambda>r. uval r = impact_spec a (impact_totals (uval notional) (uval (price_index ord)) base quote))"
  (is "realises _ ?P ?Q")
proof -
  have if_not: "(if \<not> a then x else y) = (if a then y else x)" for x y :: nat by simp
  note checks = realises_impact_order_checks [OF B price(2) nonce path ord bval_not [OF ask] upd,
      folded k_def, unfolded if_not, folded quote_def base_def]
  show ?thesis
    unfolding get_impact_price_def Let_def
  proof (rule realises_weaken [OF realises_bind [OF checks, where P' = True and R = ?Q]])
    fix x assume "case x of (x, y, z) \<Rightarrow> uval x = base \<and> uval y = quote \<and> bval z
        (uval notional \<le> (\<Sum>j<2 ^ ORDER_BOOK_MERKLE_LEVELS. amount B (if a then 1 else 3) j))"
      and P: "True \<and> uval notional \<le> (\<Sum>j<2 ^ ORDER_BOOK_MERKLE_LEVELS. amount B (if a then 1 else 3) j)
        \<longrightarrow> quote < uval notional \<and> uval notional \<le> quote + amount B (if a then 1 else 3) k"
    then obtain bt qt en where x: "x = (bt, qt, en)" "uval bt = base" "uval qt = quote" and en: "bval en True"
      using enough by (cases x) auto
    have "implements (impact_average notional (price_index ord) (b_not is_ask) bt qt en) ?Q"
      using implements_impact_average [OF bval_not [OF ask] en, of qt notional "price_index ord" bt] P enough price fits x
      by (simp add: ORDER_PRICE_BITS_def)
    then show "realises (case x of (base_t, quote_t, en) \<Rightarrow>
        impact_average notional (price_index ord) (b_not is_ask) base_t quote_t en) True ?Q"
      by (simp add: x implements_realises)
  qed (use enough in simp_all)
qed

text \<open>Past the bound the second division accepts a wrapped quotient: with nothing before the order and price one.\<close>

lemma impact_average_wraps:
  fixes notional price base_t quote_t :: target
  assumes bid: "bval is_bid True" and enough: "bval enough_t True" and zero: "uval base_t = 0" "uval quote_t = 0" and price: "uval price = 1"
    and N: "0 < uval notional" "2 * uval notional \<le> p_nat" "uval notional \<le> 2 ^ 48"
    and wrap: "q * uval notional + r = uval notional + p_nat" "q \<le> uval notional" "r < uval notional"
  shows "complete (impact_average notional price is_bid base_t quote_t enough_t) (\<lambda>x. uval x = q)"
proof -
  let ?R = "b_sub notional quote_t"
  have R: "uval ?R = uval notional" using uval_sub_small [of quote_t notional] zero by simp
  have lt: "uval notional < p_nat" by (rule to_canonical_lt)
  have "implements (ceil_div ?R price ORDER_PRICE_BITS) (\<lambda>x. uval x = uval notional)"
    using implements_ceil_div_nat [of ?R price ORDER_PRICE_BITS] N(1) lt
    by (simp add: R price division_fits_def ORDER_PRICE_BITS_def ceil_nat_def)
  note first = implements_complete [OF this]
  show ?thesis
    unfolding impact_average_def Let_def
  proof (rule complete_bind [OF first])
    fix m assume m: "uval m = uval notional"
    have "tval m = tval notional" using m by (simp only: to_canonical_inject)
    moreover have "tval price = 1" "tval base_t = 0" "tval quote_t = 0"
      using of_nat_to_canonical [of "tval price"] of_nat_to_canonical [of "tval base_t"] of_nat_to_canonical [of "tval quote_t"] zero price
      by (simp_all del: of_nat_to_canonical)
    ultimately have TB: "uval (b_add base_t m) = uval notional" and TQ: "uval (b_add quote_t (b_mul m price)) = uval notional"
      by (simp_all add: tval_simps)
    have r: "r < 2 ^ cmp_bit_size_bucket ORDER_BASE_AMOUNT_BITS"
      using wrap(3) N(3) by (simp add: ORDER_BASE_AMOUNT_BITS_def cmp_bit_size_bucket_def)
    have w: "q * uval (b_add base_t m) + r = uval (b_add quote_t (b_mul m price)) + p_nat" "q \<le> uval (b_add quote_t (b_mul m price))"
      "r < uval (b_add base_t m)" using wrap unfolding TB TQ by simp_all
    have last: "complete (ceil_div (b_add quote_t (b_mul m price)) (b_add base_t m) ORDER_BASE_AMOUNT_BITS) (\<lambda>_. True)"
      by (rule complete_ceil_div) (simp add: TB TQ)
    show "complete (circ_bind (div_rem (b_add quote_t (b_mul m price)) (b_add base_t m) ORDER_BASE_AMOUNT_BITS) (\<lambda>(d, _).
        circ_bind (ceil_div (b_add quote_t (b_mul m price)) (b_add base_t m) ORDER_BASE_AMOUNT_BITS) (\<lambda>c.
        circ_return (select enough_t (select is_bid d c) (Const 0))))) (\<lambda>x. uval x = q)"
    proof (rule complete_bind [OF div_rem_accepts(2) [OF wrapped_quotient(1) [OF w r]]], hypsubst, unfold prod.case,
        rule complete_bind [OF last], rule complete_return)
      have "uval (Wire (of_nat q)) = q" using wrapped_quotient(2) [OF w r] by (simp only: tval.simps to_canonical_of_nat_small)
      then show "uval (select enough_t (select is_bid (Wire (of_nat q)) c) (Const 0)) = q" for c
        by (simp add: uval_select [OF bid] uval_select [OF enough] del: tval.simps)
    qed
  qed
qed

section \<open>Properties\<close>

text \<open>
  C32. Impact price: on the path of the named order of an active market with enough liquidity, the circuit is
  satisfiable exactly when that order is the one at which the notional is reached, and the result is the average
  price over the orders before it and the needed part of it, rounded down for bids and up for asks, as long as
  the divisions cannot wrap.
\<close>
theorem impact_price_correct:
  fixes notional :: target and ord :: order_target and path :: "order_book_node list"
  assumes "book_ok B" "book_bounded B" "bval is_ask a" "bval should_update True"
    and "uval (price_index ord) = pr" "0 < pr" "pr < 2 ^ ORDER_PRICE_BITS" "uval (nonce_index ord) = nonce" "nonce < 2 ^ ORDER_NONCE_BITS"
    and "book_path perm B (order_key pr nonce) path" "order_amounts ord = B (order_key pr nonce)"
    and "uval notional \<le> (\<Sum>j<2 ^ ORDER_BOOK_MERKLE_LEVELS. amount B (if a then 1 else 3) j)"
    and "before_base = better_amount B (order_key pr nonce) (\<not> a) (if a then 0 else 2)"
    and "before_quote = better_amount B (order_key pr nonce) (\<not> a) (if a then 1 else 3)"
    and "impact_fits (uval notional - before_quote) pr (impact_totals (uval notional) pr before_base before_quote)"
  shows "realises (get_impact_price should_update notional path ord is_ask)
    (before_quote < uval notional \<and> uval notional \<le> before_quote + amount B (if a then 1 else 3) (order_key pr nonce))
    (\<lambda>r. uval r = impact_spec a (impact_totals (uval notional) pr before_base before_quote))"
  using realises_get_impact_price [of B ord perm path is_ask a should_update notional] assms by simp

text \<open>Orders with a key, for the examples.\<close>

definition order_at :: "nat \<Rightarrow> nat \<Rightarrow> gf list \<Rightarrow> order_target" where
  "order_at pr nonce a = (order_with a)\<lparr>price_index := Const (of_nat pr), nonce_index := Const (of_nat nonce)\<rparr>"

lemma order_at_simps:
  "length a = 4 \<Longrightarrow> order_amounts (order_at pr nonce a) = a" "price_index (order_at pr nonce a) = Const (of_nat pr)"
  "nonce_index (order_at pr nonce a) = Const (of_nat nonce)"
  using order_with_amounts [of a] by (simp_all add: order_at_def order_amounts_def)

lemma better_amount_single:
  "k < 2 ^ ORDER_BOOK_MERKLE_LEVELS \<Longrightarrow> c < 4 \<Longrightarrow> better_amount (no_orders(k := a)) k larger c = 0"
  by (cases larger) (auto simp: better_amount_def amount_def no_orders_def)

lemma total_single:
  assumes "k < 2 ^ ORDER_BOOK_MERKLE_LEVELS" "c < 4"
  shows "(\<Sum>j<2 ^ ORDER_BOOK_MERKLE_LEVELS. amount (no_orders(k := a)) c j) = to_canonical_u64 (a ! c)"
proof -
  have "(\<Sum>j<2 ^ ORDER_BOOK_MERKLE_LEVELS. amount (no_orders(k := a)) c j)
      = (\<Sum>j<2 ^ ORDER_BOOK_MERKLE_LEVELS. if j = k then to_canonical_u64 (a ! c) else 0)"
    using assms by (intro sum.cong) (auto simp: amount_def no_orders_def)
  then show ?thesis using assms(1) by (simp add: sum.delta)
qed

lemma order_key_examples: "order_key 8 11 < 2 ^ ORDER_BOOK_MERKLE_LEVELS" "order_key 1 0 < 2 ^ ORDER_BOOK_MERKLE_LEVELS"
  by (simp_all add: order_key_def ORDER_BOOK_MERKLE_LEVELS_def ORDER_PRICE_BITS_def ORDER_NONCE_BITS_def)

lemma impact_price_correct_witness:
  "complete (get_impact_price (Const 1) (Const 500) (honest_path (\<lambda>s. s) (no_orders(order_key 8 11 := [100, 800, 0, 0])) (order_key 8 11))
      (order_at 8 11 [100, 800, 0, 0]) (Const 1)) (\<lambda>r. uval r = 8)"
proof -
  let ?a = "[100, 800, 0, 0] :: gf list"
  let ?B = "no_orders(order_key 8 11 := ?a)"
  have B: "book_ok ?B" "book_bounded ?B" using single_order_book [where a = ?a, OF _ order_key_examples(1)]
    by (simp_all add: sums_fit_def all_less_4)
  have before: "0 = better_amount ?B (order_key 8 11) (\<not> True) (if True then 0 else 2)"
    "0 = better_amount ?B (order_key 8 11) (\<not> True) (if True then 1 else 3)"
    by (simp_all only: better_amount_single [OF order_key_examples(1)] if_True)
  have liquid: "uval (Const 500) \<le> (\<Sum>j<2 ^ ORDER_BOOK_MERKLE_LEVELS. amount ?B (if True then 1 else 3) j)"
    using total_single [where c = 1, OF order_key_examples(1)] by simp
  show ?thesis
    using impact_price_correct [OF B bval_Const(1) bval_Const(1), of "order_at 8 11 ?a" 8 11 "\<lambda>s. s", OF _ _ _ _ _ book_path_honest _ liquid before]
    by (simp add: order_at_simps realises_def implements_def amount_def impact_fits_def impact_totals_def impact_spec_def ceil_nat_def ORDER_PRICE_BITS_def ORDER_NONCE_BITS_def)
qed

text \<open>
  The bound of the impact price is needed: with a single bid of 25,000,000,000 at price one and that notional
  (the one of a margin fraction of 200 and a quote multiplier of one), the circuit accepts an impact price of
  737,869,763, although the average price is one.
\<close>
theorem impact_price_ambiguous:
  "complete (get_impact_price (Const 1) (Const 25000000000)
      (honest_path perm (no_orders(order_key 1 0 := [0, 0, 25000000000, 25000000000])) (order_key 1 0))
      (order_at 1 0 [0, 0, 25000000000, 25000000000]) (Const 0)) (\<lambda>r. uval r = 737869763)
    \<and> impact_spec False (impact_totals 25000000000 1 0 0) = 1"
proof
  let ?a = "[0, 0, 25000000000, 25000000000] :: gf list" and ?k = "order_key 1 0"
  let ?B = "no_orders(?k := ?a)" and ?N = "Const 25000000000" and ?ord = "order_at 1 0 ?a"
  let ?bid = "b_not (Const 0)"
  have B: "book_ok ?B" "book_bounded ?B" using single_order_book [where a = ?a, OF _ order_key_examples(2)]
    by (simp_all add: sums_fit_def all_less_4)
  have ord: "order_amounts ?ord = ?B ?k" "uval (price_index ?ord) = 1" "uval (nonce_index ?ord) = 0"
    by (simp_all add: order_at_simps)
  have bid: "bval ?bid True" using bval_not [OF bval_Const(2)] by simp
  have total: "(\<Sum>j<2 ^ ORDER_BOOK_MERKLE_LEVELS. amount ?B 3 j) = 25000000000"
    using total_single [where c = 3, OF order_key_examples(2)] by simp
  have before: "better_amount ?B ?k True 3 = 0" "better_amount ?B ?k True 2 = 0"
    using better_amount_single [OF order_key_examples(2)] by simp_all
  have one: "amount ?B 3 ?k = 25000000000" by (simp add: amount_def)
  have checks: "complete (impact_order_checks (Const 1) ?N (honest_path perm ?B ?k) ?ord ?bid)
      (\<lambda>(x, y, z). uval x = 0 \<and> uval y = 0 \<and> bval z True)"
    using implements_complete [OF realises_implements [OF realises_impact_order_checks
        [OF B _ _ _ _ bid bval_Const(1), of ?ord perm "honest_path perm ?B ?k" ?N]]]
    unfolding ord(2,3) if_True total before one
    by (simp add: ord(1) book_path_honest ORDER_PRICE_BITS_def ORDER_NONCE_BITS_def del: fun_upd_apply One_nat_def)
  show "complete (get_impact_price (Const 1) ?N (honest_path perm ?B ?k) ?ord (Const 0)) (\<lambda>r. uval r = 737869763)"
    unfolding get_impact_price_def Let_def
  proof (rule complete_bind [OF checks])
    fix x assume x: "case x of (x, y, z) \<Rightarrow> uval x = 0 \<and> uval y = 0 \<and> bval z True"
    then obtain bt qt en where t: "x = (bt, qt, en)" "uval bt = 0" "uval qt = 0" "bval en True" by (cases x) auto
    show "complete (case x of (base_t, quote_t, en) \<Rightarrow> impact_average ?N (price_index ?ord) ?bid base_t quote_t en) (\<lambda>r. uval r = 737869763)"
      using impact_average_wraps [OF bid t(4,2,3) ord(2), of ?N 737869763 19414584321] by (simp add: t(1))
  qed
qed (simp add: impact_spec_def impact_totals_def ceil_nat_def)

end
