(* ===== verification/Match_Flags.thy ===== *)
theory Match_Flags
  imports Exchange_Types
begin

text \<open>
  The flags of the matching engine (\<open>update_status_flags\<close>, \<open>cancel_taker_order\<close>, \<open>cancel_maker_order\<close>,
  \<open>insert_taker_order\<close> in \<open>circuit/src/matching_engine.rs\<close>) and what they mean. The code passes the flags through a
  sequence of tests; the first test that holds decides what happens to the two orders and switches the rest off.
  The abstract state is the decision taken so far, if any.
\<close>

section \<open>The flags\<close>

record match_flags =
  update_status :: target
  cancel_taker_order :: target
  cancel_maker_order :: target
  insert_taker_order :: target

definition cancel_taker_if :: "target \<Rightarrow> match_flags \<Rightarrow> match_flags" where
  "cancel_taker_if flag fl =
    fl\<lparr>cancel_taker_order := select_bool flag (update_status fl) (cancel_taker_order fl),
      update_status := select_bool flag (Const 0) (update_status fl)\<rparr>"

definition cancel_maker_if :: "target \<Rightarrow> match_flags \<Rightarrow> match_flags" where
  "cancel_maker_if flag fl =
    fl\<lparr>cancel_maker_order := select_bool flag (update_status fl) (cancel_maker_order fl),
      update_status := select_bool flag (Const 0) (update_status fl)\<rparr>"

definition cancel_both_if :: "target \<Rightarrow> match_flags \<Rightarrow> match_flags" where
  "cancel_both_if flag fl =
    fl\<lparr>cancel_taker_order := select_bool flag (update_status fl) (cancel_taker_order fl),
      cancel_maker_order := select_bool flag (update_status fl) (cancel_maker_order fl),
      update_status := select_bool flag (Const 0) (update_status fl)\<rparr>"

definition insert_taker_if :: "target \<Rightarrow> match_flags \<Rightarrow> match_flags" where
  "insert_taker_if flag fl =
    fl\<lparr>insert_taker_order := select_bool flag (update_status fl) (insert_taker_order fl),
      update_status := select_bool flag (Const 0) (update_status fl)\<rparr>"

section \<open>Decisions\<close>

text \<open>
  Insert the taker order into the book, or stop, cancelling the taker order or the maker order or both or none. No
  decision means that the trade goes on.
\<close>

datatype decision = Insert_Taker | Stop bool bool

definition first_of :: "decision option \<Rightarrow> bool \<Rightarrow> decision \<Rightarrow> decision option" where
  "first_of s c d = (case s of None \<Rightarrow> if c then Some d else None | Some d' \<Rightarrow> Some d')"

lemma first_of_simps [simp]:
  "first_of (Some d) c e = Some d" "first_of None True e = Some e" "first_of s False e = s"
  "first_of s c e = None \<longleftrightarrow> s = None \<and> \<not> c"
  by (auto simp: first_of_def split: option.splits)

definition flags_are :: "match_flags \<Rightarrow> decision option \<Rightarrow> bool" where
  "flags_are fl s \<longleftrightarrow> bval (update_status fl) (s = None) \<and> bval (cancel_taker_order fl) (\<exists>m. s = Some (Stop True m)) \<and>
    bval (cancel_maker_order fl) (\<exists>t. s = Some (Stop t True)) \<and> bval (insert_taker_order fl) (s = Some Insert_Taker)"

lemma flags_areD:
  "flags_are fl s \<Longrightarrow> bval (update_status fl) (s = None)"
  "flags_are fl s \<Longrightarrow> bval (cancel_taker_order fl) (\<exists>m. s = Some (Stop True m))"
  "flags_are fl s \<Longrightarrow> bval (cancel_maker_order fl) (\<exists>t. s = Some (Stop t True))"
  "flags_are fl s \<Longrightarrow> bval (insert_taker_order fl) (s = Some Insert_Taker)"
  by (simp_all add: flags_are_def)

lemma bval_select_flag: "bval f c \<Longrightarrow> bval a x \<Longrightarrow> bval b y \<Longrightarrow> bval (select_bool f a b) (if c then x else y)"
  using bval_select_bool [of f c a x b y] by (cases c) simp_all

text \<open>Each test asks whether no decision was taken before, so its flag is only set then.\<close>

lemma bval_eq: "bval t b \<Longrightarrow> b = b' \<Longrightarrow> bval t b'"
  by simp

lemma flags_are_cong: "flags_are fl s \<Longrightarrow> s = s' \<Longrightarrow> flags_are fl s'"
  by simp

lemma flag_fields:
  "update_status (cancel_taker_if f fl) = select_bool f (Const 0) (update_status fl)" "cancel_taker_order (cancel_taker_if f fl) = select_bool f (update_status fl) (cancel_taker_order fl)"
  "cancel_maker_order (cancel_taker_if f fl) = cancel_maker_order fl" "insert_taker_order (cancel_taker_if f fl) = insert_taker_order fl"
  "update_status (cancel_maker_if f fl) = select_bool f (Const 0) (update_status fl)" "cancel_taker_order (cancel_maker_if f fl) = cancel_taker_order fl"
  "cancel_maker_order (cancel_maker_if f fl) = select_bool f (update_status fl) (cancel_maker_order fl)" "insert_taker_order (cancel_maker_if f fl) = insert_taker_order fl"
  "update_status (cancel_both_if f fl) = select_bool f (Const 0) (update_status fl)" "cancel_taker_order (cancel_both_if f fl) = select_bool f (update_status fl) (cancel_taker_order fl)"
  "cancel_maker_order (cancel_both_if f fl) = select_bool f (update_status fl) (cancel_maker_order fl)" "insert_taker_order (cancel_both_if f fl) = insert_taker_order fl"
  "update_status (insert_taker_if f fl) = select_bool f (Const 0) (update_status fl)" "cancel_taker_order (insert_taker_if f fl) = cancel_taker_order fl"
  "cancel_maker_order (insert_taker_if f fl) = cancel_maker_order fl" "insert_taker_order (insert_taker_if f fl) = select_bool f (update_status fl) (insert_taker_order fl)"
  by (simp_all add: cancel_taker_if_def cancel_maker_if_def cancel_both_if_def insert_taker_if_def)

lemma flags_are_step:
  assumes fl: "flags_are fl s" and f: "bval f (s = None \<and> c)"
  shows "flags_are (cancel_taker_if f fl) (first_of s c (Stop True False))" "flags_are (cancel_maker_if f fl) (first_of s c (Stop False True))"
    "flags_are (cancel_both_if f fl) (first_of s c (Stop True True))" "flags_are (insert_taker_if f fl) (first_of s c Insert_Taker)"
proof -
  note keep = flags_areD [OF fl]
  note sel = bval_select_flag [OF f keep(1) keep(2)] bval_select_flag [OF f keep(1) keep(3)] bval_select_flag [OF f keep(1) keep(4)]
    bval_select_flag [OF f bval_Const(2) keep(1)]
  have d: "first_of s c d = (if s = None \<and> c then Some d else s)" for d by (cases s) (simp_all add: first_of_def)
  show "flags_are (cancel_taker_if f fl) (first_of s c (Stop True False))"
    unfolding flags_are_def d flag_fields by (intro conjI; (rule bval_eq, rule sel keep, force))
  show "flags_are (cancel_maker_if f fl) (first_of s c (Stop False True))"
    unfolding flags_are_def d flag_fields by (intro conjI; (rule bval_eq, rule sel keep, force))
  show "flags_are (cancel_both_if f fl) (first_of s c (Stop True True))"
    unfolding flags_are_def d flag_fields by (intro conjI; (rule bval_eq, rule sel keep, force))
  show "flags_are (insert_taker_if f fl) (first_of s c Insert_Taker)"
    unfolding flags_are_def d flag_fields by (intro conjI; (rule bval_eq, rule sel keep, force))
qed

text \<open>The test of the code: not decided yet, and a list of conditions.\<close>

lemma bval_test:
  assumes "flags_are fl s" "list_all2 bval ts bs"
  shows "bval (multi_and (update_status fl # ts)) (s = None \<and> (\<forall>b\<in>set bs. b))"
  using bval_multi_and [of "update_status fl # ts" "(s = None) # bs"] flags_areD(1) [OF assms(1)] assms(2) by simp

lemma bval_test_one: "flags_are fl s \<Longrightarrow> bval t b \<Longrightarrow> bval (b_and (update_status fl) t) (s = None \<and> b)"
  by (rule bval_and [OF flags_areD(1)])

lemma flags_start:
  assumes "bval f b"
  shows "flags_are \<lparr>update_status = f, cancel_taker_order = Const 0, cancel_maker_order = Const 0, insert_taker_order = Const 0\<rparr>
    (if b then None else Some (Stop False False))"
  using assms bval_Const(2) by (cases b) (simp_all add: flags_are_def)

end
