(* ===== verification/Account_Position.thy ===== *)
theory Account_Position
  imports Exchange_Types Bigint_U16 Bigint_Weak
begin

text \<open>
  A position of an account in a perpetual market (\<open>AccountPositionTarget\<close> of
  \<open>circuit/src/types/account_position/account_position.rs\<close>) and the risk view of the market it is in
  (\<open>MarketRiskDetailsTarget\<close> of \<open>circuit/src/types/market_details.rs\<close>), with the operations the settlement of
  trades and the risk checks use.
\<close>

section \<open>Market risk details\<close>

record market_risk_details =
  funding_rate_prefix_sum :: bigint_u16
  mark_price :: target
  quote_multiplier :: target
  risk_status :: target
  strategy_index :: target
  default_initial_margin_fraction :: target
  min_initial_margin_fraction :: target
  maintenance_margin_fraction :: target
  close_out_margin_fraction :: target

definition empty_market :: market_risk_details where
  "empty_market = \<lparr>funding_rate_prefix_sum = zero_bigint_u16, mark_price = Const 0, quote_multiplier = Const 0,
     risk_status = Const 0, strategy_index = Const 0, default_initial_margin_fraction = Const 0,
     min_initial_margin_fraction = Const 0, maintenance_margin_fraction = Const 0, close_out_margin_fraction = Const 0\<rparr>"

definition select_market_risk_details ::
  "target \<Rightarrow> market_risk_details \<Rightarrow> market_risk_details \<Rightarrow> market_risk_details" where
  "select_market_risk_details flag a b =
    \<lparr>funding_rate_prefix_sum = select_bigint_u16 flag (funding_rate_prefix_sum a) (funding_rate_prefix_sum b),
     mark_price = select flag (mark_price a) (mark_price b),
     quote_multiplier = select flag (quote_multiplier a) (quote_multiplier b),
     risk_status = select flag (risk_status a) (risk_status b),
     strategy_index = select flag (strategy_index a) (strategy_index b),
     default_initial_margin_fraction = select flag (default_initial_margin_fraction a) (default_initial_margin_fraction b),
     min_initial_margin_fraction = select flag (min_initial_margin_fraction a) (min_initial_margin_fraction b),
     maintenance_margin_fraction = select flag (maintenance_margin_fraction a) (maintenance_margin_fraction b),
     close_out_margin_fraction = select flag (close_out_margin_fraction a) (close_out_margin_fraction b)\<rparr>"

text \<open>The part of a market that is published, and its update by a published difference.\<close>

definition apply_diff_partial :: "target \<Rightarrow> market_risk_details \<Rightarrow> market_risk_details \<Rightarrow> market_risk_details circ" where
  "apply_diff_partial flag d old =
    circ_bind (bigint_u16_vector_sum flag (funding_rate_prefix_sum d) (funding_rate_prefix_sum old)) (\<lambda>f.
    circ_return (empty_market\<lparr>funding_rate_prefix_sum := f,
      mark_price := b_mul_add flag (mark_price d) (mark_price old),
      quote_multiplier := b_mul_add flag (quote_multiplier d) (quote_multiplier old)\<rparr>))"

definition connect_partial :: "market_risk_details \<Rightarrow> market_risk_details \<Rightarrow> unit circ" where
  "connect_partial a b =
    circ_bind (connect_bigint_u16 (funding_rate_prefix_sum a) (funding_rate_prefix_sum b)) (\<lambda>_.
    circ_bind (connect (mark_price a) (mark_price b)) (\<lambda>_.
    connect (quote_multiplier a) (quote_multiplier b)))"

definition to_public_market_details :: "market_risk_details \<Rightarrow> market_risk_details" where
  "to_public_market_details a =
    empty_market\<lparr>funding_rate_prefix_sum := funding_rate_prefix_sum a, mark_price := mark_price a,
      quote_multiplier := quote_multiplier a\<rparr>"

section \<open>Positions\<close>

record account_position =
  last_funding_rate_prefix_sum :: bigint_u16
  position :: bigint_u16
  entry_quote :: target
  initial_margin_fraction :: target
  total_order_count :: target
  total_position_tied_order_count :: target
  margin_mode :: target
  margin_set_flag :: target
  allocated_margin :: bigint

definition is_isolated_unsafe :: "account_position \<Rightarrow> target" where
  "is_isolated_unsafe pos = margin_mode pos"

definition is_cross_unsafe :: "account_position \<Rightarrow> target" where
  "is_cross_unsafe pos = b_not (is_isolated_unsafe pos)"

definition get_initial_margin_fraction :: "account_position \<Rightarrow> target \<Rightarrow> target \<Rightarrow> target circ" where
  "get_initial_margin_fraction pos default_imr min_imr =
    circ_bind (is_zero (initial_margin_fraction pos)) (\<lambda>position_imr_is_zero.
    let position_imr = select position_imr_is_zero default_imr (initial_margin_fraction pos) in
    circ_bind (is_lte min_imr position_imr MARGIN_FRACTION_BITS) (\<lambda>min_imr_lte_position_imr.
    circ_return (select min_imr_lte_position_imr position_imr min_imr)))"

definition is_order_or_position_open :: "account_position \<Rightarrow> target circ" where
  "is_order_or_position_open pos =
    circ_bind (is_not_zero (total_order_count pos)) (\<lambda>is_order_open.
    circ_bind (is_not_equal_bigint_u16 (position pos) zero_bigint_u16) (\<lambda>is_position_open.
    circ_return (b_or is_order_open is_position_open)))"

definition mul_many :: "target list \<Rightarrow> target" where
  "mul_many ts = foldl (\<lambda>acc t. b_mul acc t) (Const 1) ts"

definition position_is_empty :: "account_position \<Rightarrow> target circ" where
  "position_is_empty pos =
    is_zero (b_add_many (bi_abs (last_funding_rate_prefix_sum pos) @ bi_abs (position pos) @ bi_abs (allocated_margin pos) @
      [entry_quote pos, initial_margin_fraction pos, total_order_count pos, total_position_tied_order_count pos,
       margin_mode pos, margin_set_flag pos]))"

definition init_if_empty :: "target \<Rightarrow> target \<Rightarrow> target \<Rightarrow> account_position \<Rightarrow> account_position circ" where
  "init_if_empty is_enabled account_type default_margin_mode pos =
    circ_bind (position_is_empty pos) (\<lambda>was_empty.
    let flag = b_and is_enabled was_empty in
    circ_bind (is_equal_constant account_type INSURANCE_FUND_ACCOUNT_TYPE) (\<lambda>is_insurance_fund.
    circ_bind (is_equal_constant account_type PUBLIC_POOL_ACCOUNT_TYPE) (\<lambda>is_public_pool.
    let is_pool_or_insurance_fund = b_or is_insurance_fund is_public_pool;
        cross_margin_mode = constant_u64 CROSS_MARGIN;
        init_mode = select is_pool_or_insurance_fund cross_margin_mode default_margin_mode;
        margin_set = constant_u64 MARGIN_SET in
    circ_return (pos\<lparr>margin_mode := select flag init_mode (margin_mode pos),
      margin_set_flag := select flag margin_set (margin_set_flag pos)\<rparr>))))"

definition empty_position :: account_position where
  "empty_position = \<lparr>last_funding_rate_prefix_sum = zero_bigint_u16, position = zero_bigint_u16, entry_quote = Const 0,
     initial_margin_fraction = Const 0, total_order_count = Const 0, total_position_tied_order_count = Const 0,
     margin_mode = Const 0, margin_set_flag = Const 0, allocated_margin = zero_bigint\<rparr>"

definition calculate_position_tied_order_base_amount :: "account_position \<Rightarrow> target \<Rightarrow> target \<Rightarrow> target \<Rightarrow> target circ" where
  "calculate_position_tied_order_base_amount pos quote_mult price quote_limit =
    circ_bind (biguint_u16_to_target (bi_abs (position pos))) (\<lambda>abs_position.
    let max_order_base_amount = constant_u64 MAX_ORDER_BASE_AMOUNT in
    circ_bind (div_rem quote_limit quote_mult QUOTE_MULTIPLIER_BITS) (\<lambda>(max_order_quote_amount_div_quote_multiplier, _).
    circ_bind (div_rem max_order_quote_amount_div_quote_multiplier price ORDER_PRICE_BITS) (\<lambda>(max_base_amount_for_quote, _).
    min_target [abs_position, max_order_base_amount, max_base_amount_for_quote] 63)))"

definition calculate_aggregated_usdc :: "account_position \<Rightarrow> bigint circ" where
  "calculate_aggregated_usdc pos =
    circ_bind (euclidian_div_by_biguint (allocated_margin pos) (constant_biguint USDC_TO_COLLATERAL_MULTIPLIER) BIG_U96_LIMBS)
      (\<lambda>aggregated_usdc.
    circ_bind (target_to_biguint (entry_quote pos)) (\<lambda>abs.
    let aggregated_entry_quote = \<lparr>bi_abs = abs, bi_sign = negate_sign (bi_sign (position pos))\<rparr> in
    add_bigint_non_carry aggregated_usdc aggregated_entry_quote BIG_U96_LIMBS))"

definition position_is_valid :: "account_position \<Rightarrow> target circ" where
  "position_is_valid pos =
    (let max_entry_quote = Const (of_nat (2 ^ ENTRY_QUOTE_BITS - 1));
         max_position_size = constant_biguint (2 ^ POSITION_SIZE_BITS - 1);
         position_abs = biguint_u16_to_biguint (bi_abs (position pos)) in
     circ_bind (is_lte_biguint position_abs max_position_size) (\<lambda>is_position_size_valid.
     circ_bind (is_lte (entry_quote pos) max_entry_quote 64) (\<lambda>is_entry_quote_valid.
     circ_return (b_and is_entry_quote_valid is_position_size_valid))))"

text \<open>The order counts and the allocated margin stay those of the owner.\<close>

definition partial_select_for_cross_risk :: "target \<Rightarrow> account_position \<Rightarrow> account_position \<Rightarrow> account_position" where
  "partial_select_for_cross_risk flag sub_position owner_position =
    owner_position\<lparr>position := select_bigint_u16 flag (position sub_position) (position owner_position),
      last_funding_rate_prefix_sum := select_bigint_u16 flag (last_funding_rate_prefix_sum sub_position) (last_funding_rate_prefix_sum owner_position),
      entry_quote := select flag (entry_quote sub_position) (entry_quote owner_position),
      initial_margin_fraction := select flag (initial_margin_fraction sub_position) (initial_margin_fraction owner_position),
      margin_mode := select flag (margin_mode sub_position) (margin_mode owner_position),
      margin_set_flag := select flag (margin_set_flag sub_position) (margin_set_flag owner_position)\<rparr>"

definition select_position :: "target \<Rightarrow> account_position \<Rightarrow> account_position \<Rightarrow> account_position" where
  "select_position flag a b =
    \<lparr>last_funding_rate_prefix_sum = select_bigint_u16 flag (last_funding_rate_prefix_sum a) (last_funding_rate_prefix_sum b),
     position = select_bigint_u16 flag (position a) (position b),
     entry_quote = select flag (entry_quote a) (entry_quote b),
     initial_margin_fraction = select flag (initial_margin_fraction a) (initial_margin_fraction b),
     total_order_count = select flag (total_order_count a) (total_order_count b),
     total_position_tied_order_count = select flag (total_position_tied_order_count a) (total_position_tied_order_count b),
     margin_mode = select flag (margin_mode a) (margin_mode b),
     margin_set_flag = select flag (margin_set_flag a) (margin_set_flag b),
     allocated_margin = select_bigint flag (allocated_margin a) (allocated_margin b)\<rparr>"

definition position_diff :: "account_position \<Rightarrow> account_position \<Rightarrow> account_position circ" where
  "position_diff new old =
    circ_bind (bigint_u16_vector_diff (position new) (position old)) (\<lambda>p.
    circ_bind (bigint_u16_vector_diff (last_funding_rate_prefix_sum new) (last_funding_rate_prefix_sum old)) (\<lambda>f.
    circ_bind (bigint_vector_diff (allocated_margin new) (allocated_margin old)) (\<lambda>m.
    circ_return \<lparr>last_funding_rate_prefix_sum = f, position = p,
      entry_quote = b_sub (entry_quote new) (entry_quote old),
      initial_margin_fraction = b_sub (initial_margin_fraction new) (initial_margin_fraction old),
      total_order_count = b_sub (total_order_count new) (total_order_count old),
      total_position_tied_order_count = b_sub (total_position_tied_order_count new) (total_position_tied_order_count old),
      margin_mode = b_sub (margin_mode new) (margin_mode old),
      margin_set_flag = b_sub (margin_set_flag new) (margin_set_flag old),
      allocated_margin = m\<rparr>)))"

definition position_apply_diff :: "target \<Rightarrow> account_position \<Rightarrow> account_position \<Rightarrow> account_position circ" where
  "position_apply_diff flag base d =
    circ_bind (bigint_u16_vector_sum flag (position d) (position base)) (\<lambda>p.
    circ_bind (bigint_u16_vector_sum flag (last_funding_rate_prefix_sum d) (last_funding_rate_prefix_sum base)) (\<lambda>f.
    circ_bind (bigint_vector_sum flag (allocated_margin d) (allocated_margin base)) (\<lambda>m.
    circ_return \<lparr>last_funding_rate_prefix_sum = f, position = p,
      entry_quote = b_mul_add flag (entry_quote d) (entry_quote base),
      initial_margin_fraction = b_mul_add flag (initial_margin_fraction d) (initial_margin_fraction base),
      total_order_count = b_mul_add flag (total_order_count d) (total_order_count base),
      total_position_tied_order_count = b_mul_add flag (total_position_tied_order_count d) (total_position_tied_order_count base),
      margin_mode = b_mul_add flag (margin_mode d) (margin_mode base),
      margin_set_flag = b_mul_add flag (margin_set_flag d) (margin_set_flag base),
      allocated_margin = m\<rparr>)))"

definition get_position_unrealized_pnl :: "market_risk_details \<Rightarrow> target \<Rightarrow> target \<Rightarrow> target \<Rightarrow> target circ" where
  "get_position_unrealized_pnl market position_abs position_sign entry =
    (let multiplier = b_mul (quote_multiplier market) (mark_price market);
         position_base_notional_signed = b_mul multiplier position_abs;
         result = sub_signed position_base_notional_signed entry;
         result_neg = neg_signed result in
     circ_bind (is_sign_positive position_sign) (\<lambda>position_is_positive.
     circ_return (select_signed position_is_positive result result_neg)))"

section \<open>Contracts\<close>

lemma limb_counts: "BIG_U64_LIMBS = 2" "BIG_U96_LIMBS = 3" "BIG_U128_LIMBS = 4" "BIGU16_U64_LIMBS = 4"
  by (simp_all add: BIG_U64_LIMBS_def BIG_U96_LIMBS_def BIG_U128_LIMBS_def BIGU16_U64_LIMBS_def)

text \<open>The initial margin fraction in force: the own or the default one, but at least the minimum.\<close>

definition margin_fraction_in_force :: "account_position \<Rightarrow> nat \<Rightarrow> nat \<Rightarrow> nat" where
  "margin_fraction_in_force pos d m =
    max (if uval (initial_margin_fraction pos) = 0 then d else uval (initial_margin_fraction pos)) m"

lemma implements_get_initial_margin_fraction:
  assumes "uval (initial_margin_fraction pos) < 2 ^ 16" "uval d < 2 ^ 16" "uval m < 2 ^ 16"
  shows "implements (get_initial_margin_fraction pos d m) (\<lambda>r. uval r = margin_fraction_in_force pos (uval d) (uval m))"
  unfolding get_initial_margin_fraction_def Let_def
proof (rule implements_bind [OF implements_is_zero])
  fix z assume z: "bval z (uval (initial_margin_fraction pos) = 0)"
  have sel: "uval (select z d (initial_margin_fraction pos)) = (if uval (initial_margin_fraction pos) = 0 then uval d else uval (initial_margin_fraction pos))"
    by (rule uval_select [OF z])
  have ok: "cmp_ok MARGIN_FRACTION_BITS m" "cmp_ok MARGIN_FRACTION_BITS (select z d (initial_margin_fraction pos))"
    unfolding cmp_ok_def sel using assms by (simp_all add: MARGIN_FRACTION_BITS_def cmp_bit_size_bucket_def)
  show "implements (circ_bind (is_lte m (select z d (initial_margin_fraction pos)) MARGIN_FRACTION_BITS) (\<lambda>lte.
      circ_return (select lte (select z d (initial_margin_fraction pos)) m)))
    (\<lambda>r. uval r = margin_fraction_in_force pos (uval d) (uval m))"
    by (rule implements_bind [OF implements_is_lte [OF ok]], rule implements_return)
      (auto simp: uval_select sel margin_fraction_in_force_def)
qed

lemma uval_big: "uval (Const (of_nat n)) = n" if "n < p_nat"
  using to_canonical_of_nat_small [OF that] by (simp only: tval.simps)

text \<open>The bounds \<open>is_valid\<close> checks.\<close>

lemma implements_position_is_valid:
  assumes "bigz16 (position pos) 4 v"
  shows "implements (position_is_valid pos) (\<lambda>r. bval r (\<bar>v\<bar> < 2 ^ POSITION_SIZE_BITS \<and> uval (entry_quote pos) < 2 ^ ENTRY_QUOTE_BITS))"
proof -
  have pos: "big (biguint_u16_to_biguint (bi_abs (position pos))) 2 (nat \<bar>v\<bar>)"
    using biguint_u16_to_biguint_big [OF bigz16D(1) [OF assms]] bigz16D(2,3) [OF assms] by simp
  have eq: "uval (Const (of_nat (2 ^ ENTRY_QUOTE_BITS - 1))) = 2 ^ ENTRY_QUOTE_BITS - 1"
    by (rule uval_big) (simp add: ENTRY_QUOTE_BITS_def)
  have less: "a \<le> 2 ^ n - 1 \<longleftrightarrow> a < 2 ^ n" for a n :: nat by (cases "(2::nat) ^ n") auto
  note size = implements_is_lte_biguint [OF _ constant_biguint_props(2), of "biguint_u16_to_biguint (bi_abs (position pos))"]
  show ?thesis
    unfolding position_is_valid_def Let_def
  proof (rule implements_bind [OF size], use pos in \<open>simp add: big_def\<close>, rule implements_bind [OF implements_is_lte [OF cmp_ok_64 cmp_ok_64]],
      rule implements_return)
    fix s e assume "bval s (bnat (biguint_u16_to_biguint (bi_abs (position pos))) \<le> bnat (constant_biguint (2 ^ POSITION_SIZE_BITS - 1)))"
      and "bval e (uval (entry_quote pos) \<le> uval (Const (of_nat (2 ^ ENTRY_QUOTE_BITS - 1))))"
    then have "bval s (\<bar>v\<bar> < 2 ^ POSITION_SIZE_BITS)" "bval e (uval (entry_quote pos) < 2 ^ ENTRY_QUOTE_BITS)"
      using pos unfolding eq constant_biguint_props less by (simp_all add: big_def nat_abs_simps)
    from bval_and [OF this(2,1)] show "bval (b_and e s) (\<bar>v\<bar> < 2 ^ POSITION_SIZE_BITS \<and> uval (entry_quote pos) < 2 ^ ENTRY_QUOTE_BITS)"
      by (simp only: conj_commute)
  qed
qed

text \<open>The unrealized profit, exact within the signed range.\<close>

lemma implements_get_position_unrealized_pnl:
  fixes position_abs position_sign entry :: target and market :: market_risk_details
  assumes s: "sval position_sign v"
  defines "m \<equiv> int (uval (quote_multiplier market) * uval (mark_price market) * uval position_abs) - int (uval entry)"
  assumes range: "signed_range m" "signed_range (- m)"
  shows "implements (get_position_unrealized_pnl market position_abs position_sign entry)
    (\<lambda>r. get_signed_target r = (if 0 < v then m else - m))"
proof -
  let ?r = "sub_signed (b_mul (b_mul (quote_multiplier market) (mark_price market)) position_abs) entry"
  have "tval ?r = of_int m"
    by (simp add: m_def sub_signed_def tval_simps)
  then have r: "get_signed_target ?r = m" "get_signed_target (neg_signed ?r) = - m"
    using range by (auto intro!: get_signed_target_eqI simp: neg_signed_def tval_simps)
  show ?thesis
    unfolding get_position_unrealized_pnl_def Let_def
    by (rule implements_bind [OF implements_is_sign(2) [OF s]], rule implements_return) (simp add: get_signed_target_select r)
qed

text \<open>The state difference between two positions, added to the old one, gives the new one, field by field.\<close>

definition position_values :: "account_position \<Rightarrow> gf list" where
  "position_values pos =
    map tval (bi_abs (last_funding_rate_prefix_sum pos) @ [bi_sign (last_funding_rate_prefix_sum pos)] @
      bi_abs (position pos) @ [bi_sign (position pos)] @
      [entry_quote pos, initial_margin_fraction pos, total_order_count pos, total_position_tied_order_count pos,
       margin_mode pos, margin_set_flag pos] @ bi_abs (allocated_margin pos) @ [bi_sign (allocated_margin pos)])"

definition same_shape :: "account_position \<Rightarrow> account_position \<Rightarrow> bool" where
  "same_shape a b \<longleftrightarrow> length (bi_abs (last_funding_rate_prefix_sum a)) = length (bi_abs (last_funding_rate_prefix_sum b)) \<and>
    length (bi_abs (position a)) = length (bi_abs (position b)) \<and>
    length (bi_abs (allocated_margin a)) = length (bi_abs (allocated_margin b))"

lemma map2_vector_diff_sum:
  assumes "bval cond c" "length xs = length ys"
  shows "map (\<lambda>x. tval x) (map2 (\<lambda>x y. b_mul_add cond x y) (map2 (\<lambda>x y. b_sub x y) xs ys) ys) = map tval (if c then xs else ys)"
  using assms(2,1) by (induction xs ys rule: list_induct2) (simp_all add: tval_simps bval_def)

lemma implements_position_diff_apply:
  assumes "bval flag e" "same_shape new old"
  shows "implements (circ_bind (position_diff new old) (\<lambda>d. position_apply_diff flag old d))
    (\<lambda>r. position_values r = position_values (if e then new else old))"
proof -
  have f: "tval (b_mul_add flag (b_sub x y) y) = tval (if e then x else y)" for x y
    using assms(1) by (simp add: tval_simps bval_def)
  have len: "length (bi_abs (position new)) = length (bi_abs (position old))"
    "length (bi_abs (last_funding_rate_prefix_sum new)) = length (bi_abs (last_funding_rate_prefix_sum old))"
    "length (bi_abs (allocated_margin new)) = length (bi_abs (allocated_margin old))"
    using assms(2) by (simp_all add: same_shape_def)
  note vec = map2_vector_diff_sum [OF assms(1)]
  show ?thesis
    unfolding position_diff_def position_apply_diff_def bigint_u16_vector_diff_def bigint_vector_diff_def bigint_u16_vector_sum_def bigint_vector_sum_def
      circ_bind_assoc circ_return_bind
    by (intro implements_bind [OF implements_panic] implements_return)
      (simp_all add: len position_values_def vec f del: map_map split: if_split)
qed

section \<open>Property\<close>

text \<open>
  State difference: the difference of a position to its old state, applied to the old state with the flag
  set, gives the new position in every field and limb, and with the flag clear gives the old one.
\<close>
theorem position_diff_roundtrip:
  assumes "bval flag e" "same_shape new old"
  shows "implements (circ_bind (position_diff new old) (\<lambda>d. position_apply_diff flag old d))
    (\<lambda>r. position_values r = position_values (if e then new else old))"
  by (rule implements_position_diff_apply [OF assms])

lemma position_diff_roundtrip_witness:
  "implements (circ_bind (position_diff (empty_position\<lparr>entry_quote := Wire 3\<rparr>) empty_position) (\<lambda>d. position_apply_diff (Const 1) empty_position d))
    (\<lambda>r. position_values r = position_values (empty_position\<lparr>entry_quote := Wire 3\<rparr>))"
  using position_diff_roundtrip [OF bval_Const(1), of "empty_position\<lparr>entry_quote := Wire 3\<rparr>" empty_position] by (simp add: same_shape_def)

end
