(* ===== verification/Position_Change.thy ===== *)
theory Position_Change
  imports Account_Position
begin

text \<open>
  What a trade does to a position (\<open>calculate_position_change\<close> of \<open>circuit/src/apply_trade.rs\<close>): the new size,
  the new entry quote by the three cases of the code, the realized profit and the change of the open interest.
\<close>

section \<open>The circuit\<close>

text \<open>The new entry quote; also the magnitude and sign of the trade's quote and the old entry quote in limbs.\<close>

definition position_entry_quote ::
  "account_position \<Rightarrow> target \<Rightarrow> target \<Rightarrow> target \<Rightarrow> target \<Rightarrow> target \<Rightarrow> target \<Rightarrow> (target \<times> target \<times> biguint \<times> target) circ" where
  "position_entry_quote pos trade_quote trade_base abs_old_position abs_new_position is_position_sign_changed is_delta_sign_same =
    circ_bind (signed_abs trade_quote) (\<lambda>(abs_trade_quote, trade_quote_sign).
    circ_bind (is_sign_positive trade_quote_sign) (\<lambda>trade_quote_is_positive.
    circ_bind (div_rem abs_trade_quote trade_base ORDER_BASE_AMOUNT_BITS) (\<lambda>(trade_quote_div_trade_base, _).
    let new_entry_quote_0 = b_mul trade_quote_div_trade_base abs_new_position;
        new_entry_quote_0 = select trade_quote_is_positive new_entry_quote_0 (Const 0);
        new_entry_quote_1 = b_mul_add trade_quote_is_positive trade_quote (entry_quote pos) in
    circ_bind (target_to_biguint (entry_quote pos)) (\<lambda>entry_quote_big.
    circ_bind (target_to_biguint abs_new_position) (\<lambda>abs_new_position_big.
    circ_bind (mul_biguint_non_carry entry_quote_big abs_new_position_big BIG_U128_LIMBS) (\<lambda>entry_quote_times_new_position.
    circ_bind (target_to_biguint abs_old_position) (\<lambda>abs_old_position_big.
    circ_bind (div_biguint_trimmed entry_quote_times_new_position abs_old_position_big BIG_U64_LIMBS) (\<lambda>new_entry_quote_2.
    circ_bind (biguint_to_target_safe new_entry_quote_2) (\<lambda>new_entry_quote_2.
    let new_entry_quote_1_2 = select is_delta_sign_same new_entry_quote_1 new_entry_quote_2 in
    circ_return (abs_trade_quote, trade_quote_sign, entry_quote_big,
      select is_position_sign_changed new_entry_quote_0 new_entry_quote_1_2))))))))))"

definition position_realized_pnl ::
  "target \<Rightarrow> target \<Rightarrow> target \<Rightarrow> target \<Rightarrow> target \<Rightarrow> biguint \<Rightarrow> target \<Rightarrow> bigint circ" where
  "position_realized_pnl new_sign old_sign delta_sign abs_trade_quote trade_quote_sign entry_quote_big new_entry_quote =
    circ_bind (target_to_biguint new_entry_quote) (\<lambda>new_entry_quote_big.
    let new_position_sign_times_entry_quote = \<lparr>bi_abs = new_entry_quote_big, bi_sign = new_sign\<rparr>;
        old_position_sign_times_entry_quote = \<lparr>bi_abs = entry_quote_big, bi_sign = old_sign\<rparr> in
    circ_bind (target_to_biguint abs_trade_quote) (\<lambda>abs_trade_quote_big.
    let delta_sign_times_trade_quote = \<lparr>bi_abs = abs_trade_quote_big, bi_sign = b_mul delta_sign trade_quote_sign\<rparr> in
    circ_bind (add_bigint_non_carry old_position_sign_times_entry_quote delta_sign_times_trade_quote BIG_U64_LIMBS) (\<lambda>realized_pnl.
    sub_bigint_non_carry new_position_sign_times_entry_quote realized_pnl BIG_U64_LIMBS)))"

text \<open>The steps up to the entry quote: the new size and margin fraction, both magnitudes, and the two comparisons of signs.\<close>

definition position_change_start ::
  "account_position \<Rightarrow> target \<Rightarrow> market_risk_details \<Rightarrow> (bigint_u16 \<times> bigint_u16 \<times> target \<times> target \<times> target \<times> target \<times> target) circ" where
  "position_change_start pos position_delta market =
    circ_bind (signed_target_to_bigint_u16 position_delta BIGU16_U64_LIMBS) (\<lambda>position_delta_bigint.
    circ_bind (add_bigint_u16_non_carry (position pos) position_delta_bigint BIGU16_U64_LIMBS) (\<lambda>new_size.
    circ_bind (get_initial_margin_fraction pos (default_initial_margin_fraction market) (min_initial_margin_fraction market)) (\<lambda>imf.
    circ_bind (biguint_u16_to_target (bi_abs (position pos))) (\<lambda>abs_old_position.
    circ_bind (biguint_u16_to_target (bi_abs new_size)) (\<lambda>abs_new_position.
    circ_bind (is_equal (bi_sign (position pos)) (bi_sign new_size)) (\<lambda>is_position_sign_same.
    let is_position_sign_changed = b_not is_position_sign_same in
    circ_bind (is_equal (bi_sign position_delta_bigint) (bi_sign (position pos))) (\<lambda>is_delta_sign_same.
    circ_return (position_delta_bigint, new_size, imf, abs_old_position, abs_new_position, is_position_sign_changed, is_delta_sign_same))))))))"

definition calculate_position_change ::
  "target \<Rightarrow> account_position \<Rightarrow> target \<Rightarrow> market_risk_details \<Rightarrow> target \<Rightarrow> target \<Rightarrow> (account_position \<times> bigint \<times> target) circ" where
  "calculate_position_change is_enabled pos position_delta market trade_quote trade_base =
    circ_bind (position_change_start pos position_delta market)
      (\<lambda>(position_delta_bigint, new_size, imf, abs_old_position, abs_new_position, is_position_sign_changed, is_delta_sign_same).
    circ_bind (position_entry_quote pos trade_quote trade_base abs_old_position abs_new_position is_position_sign_changed is_delta_sign_same)
      (\<lambda>(abs_trade_quote, trade_quote_sign, entry_quote_big, new_entry_quote).
    let new_position = pos\<lparr>last_funding_rate_prefix_sum := funding_rate_prefix_sum market, position := new_size,
          initial_margin_fraction := imf, entry_quote := new_entry_quote\<rparr>;
        open_interest_delta = sub_signed abs_new_position abs_old_position in
    circ_bind (position_realized_pnl (bi_sign new_size) (bi_sign (position pos)) (bi_sign position_delta_bigint)
        abs_trade_quote trade_quote_sign entry_quote_big new_entry_quote) (\<lambda>realized_pnl.
    circ_return (select_position is_enabled new_position pos, select_bigint is_enabled realized_pnl zero_bigint,
      select_signed is_enabled open_interest_delta (Const 0)))))"

section \<open>Specification\<close>

text \<open>The entry quote after a trade of \<open>d\<close> at a quote of \<open>q\<close>, for a position of \<open>v\<close> entered at \<open>e\<close>.\<close>

definition new_entry_quote :: "int \<Rightarrow> int \<Rightarrow> int \<Rightarrow> int \<Rightarrow> int" where
  "new_entry_quote v e d q =
    (if sgn v \<noteq> sgn (v + d) then (if 0 < q then q div \<bar>d\<bar> * \<bar>v + d\<bar> else 0)
     else if sgn d = sgn v then e + max q 0
     else e * \<bar>v + d\<bar> div \<bar>v\<bar>)"

text \<open>What the holder of a position owes or is owed at entry: the sign of the position times its entry quote.\<close>

definition realized_pnl :: "int \<Rightarrow> int \<Rightarrow> int \<Rightarrow> int \<Rightarrow> int \<Rightarrow> int" where
  "realized_pnl v e d q e' = sgn (v + d) * e' - (sgn v * e + sgn d * q)"

section \<open>Contracts\<close>

lemma implements_signed_parts:
  "implements (signed_abs q) (\<lambda>(a, s). uval a = nat \<bar>get_signed_target q\<bar> \<and> sval s (get_signed_target q))"
  by (rule implements_weaken [OF implements_signed_abs]) auto

lemma abs_sum_small:
  fixes x y a b :: int
  shows "\<bar>x\<bar> \<le> a \<Longrightarrow> \<bar>y\<bar> \<le> b \<Longrightarrow> a < 2 ^ 56 \<Longrightarrow> b < 2 ^ 60 \<Longrightarrow> \<bar>x + y\<bar> < 2 ^ 61"
  using abs_triangle_ineq [of x y] by simp

lemma sgn_times_le: "\<bar>sgn v * w\<bar> \<le> \<bar>w\<bar>" for v w :: int
  by (auto simp: abs_mult sgn_if)

lemma realises_position_realized_pnl:
  fixes e :: nat and v n d q :: int
  assumes new: "sval new_sign n" "n = 0 \<longrightarrow> uval e' = 0" and old: "sval old_sign v" "v = 0 \<longrightarrow> e = 0" and eb: "big eb 2 e" "e < 2 ^ 56"
    and d: "sval delta_sign d" "d = 0 \<longrightarrow> q = 0" and q: "uval abs_q = nat \<bar>q\<bar>" "sval q_sign q" "\<bar>q\<bar> < 2 ^ 60"
  shows "realises (position_realized_pnl new_sign old_sign delta_sign abs_q q_sign eb e')
    (\<bar>sgn n * int (uval e') - (sgn v * int e + sgn d * q)\<bar> < 2 ^ 64) (\<lambda>r. bigw r 2 (sgn n * int (uval e') - (sgn v * int e + sgn d * q)))"
  unfolding position_realized_pnl_def Let_def
proof (rule realises_after [OF implements_target_to_biguint], rule realises_after [OF implements_target_to_biguint])
  fix nb qb assume nb: "big nb 2 (uval e')" and qb: "big qb 2 (uval abs_q)"
  have N: "bigw \<lparr>bi_abs = nb, bi_sign = new_sign\<rparr> 2 (sgn n * int (uval e'))" by (rule bigw_parts [OF nb new(1)]) (use new(2) in simp)
  have V: "bigw \<lparr>bi_abs = eb, bi_sign = old_sign\<rparr> 2 (sgn v * int e)" by (rule bigw_parts [OF eb(1) old(1)]) (use old(2) in simp)
  have "sgn (d * q) * int (nat \<bar>q\<bar>) = sgn d * (sgn q * \<bar>q\<bar>)" by (simp add: sgn_mult)
  then have "sgn (d * q) * int (nat \<bar>q\<bar>) = sgn d * q" by (simp only: sgn_mult_abs)
  moreover have "bigw \<lparr>bi_abs = qb, bi_sign = b_mul delta_sign q_sign\<rparr> 2 (sgn (d * q) * int (nat \<bar>q\<bar>))"
    by (rule bigw_parts [OF qb [unfolded q(1)] sval_mult [OF d(1) q(2)]]) (use d(2) in auto)
  ultimately have Q: "bigw \<lparr>bi_abs = qb, bi_sign = b_mul delta_sign q_sign\<rparr> 2 (sgn d * q)" by simp
  have "\<bar>int e\<bar> < 2 ^ 56" using eb(2) by simp
  from abs_sum_small [OF sgn_times_le [of v] sgn_times_le [of d] this q(3)] have "\<bar>sgn v * int e + sgn d * q\<bar> < 2 ^ 64" by simp
  then have "implements (add_bigint_non_carry \<lparr>bi_abs = eb, bi_sign = old_sign\<rparr> \<lparr>bi_abs = qb, bi_sign = b_mul delta_sign q_sign\<rparr> BIG_U64_LIMBS)
      (\<lambda>r. bigw r 2 (sgn v * int e + sgn d * q))"
    using realises_implements [OF realises_add_bigint_weak [OF V Q, of BIG_U64_LIMBS]] by (simp add: limb_counts)
  then show "realises (circ_bind (add_bigint_non_carry \<lparr>bi_abs = eb, bi_sign = old_sign\<rparr>
        \<lparr>bi_abs = qb, bi_sign = b_mul delta_sign q_sign\<rparr> BIG_U64_LIMBS) (\<lambda>p. sub_bigint_non_carry \<lparr>bi_abs = nb, bi_sign = new_sign\<rparr> p BIG_U64_LIMBS))
    (\<bar>sgn n * int (uval e') - (sgn v * int e + sgn d * q)\<bar> < 2 ^ 64) (\<lambda>r. bigw r 2 (sgn n * int (uval e') - (sgn v * int e + sgn d * q)))"
  proof (rule realises_after)
    fix p assume "bigw p 2 (sgn v * int e + sgn d * q)"
    from realises_sub_bigint_weak [OF N this, of BIG_U64_LIMBS]
    show "realises (sub_bigint_non_carry \<lparr>bi_abs = nb, bi_sign = new_sign\<rparr> p BIG_U64_LIMBS)
        (\<bar>sgn n * int (uval e') - (sgn v * int e + sgn d * q)\<bar> < 2 ^ 64) (\<lambda>r. bigw r 2 (sgn n * int (uval e') - (sgn v * int e + sgn d * q)))"
      by (simp add: limb_counts)
  qed
qed

text \<open>The quotient of the first case is the only step a prover may bend; the others are exact.\<close>

lemma realises_entry_quote_rest:
  assumes e: "uval (entry_quote pos) = e" "e < 2 ^ 56" and q: "\<bar>get_signed_target trade_quote\<bar> < 2 ^ 60"
    and old: "uval abs_old = nat \<bar>v\<bar>" and new: "uval abs_new = nat \<bar>n\<bar>" "\<bar>n\<bar> < 2 ^ 60"
    and changed: "bval changed_t changed" and same: "bval same_t same" and pos_q: "bval tqp (0 < get_signed_target trade_quote)"
    and case0: "uval k0 = (if 0 < get_signed_target trade_quote then c else 0)"
  shows "realises
    (circ_bind (target_to_biguint (entry_quote pos)) (\<lambda>eb. circ_bind (target_to_biguint abs_new) (\<lambda>nb.
     circ_bind (mul_biguint_non_carry eb nb BIG_U128_LIMBS) (\<lambda>m. circ_bind (target_to_biguint abs_old) (\<lambda>ob.
     circ_bind (div_biguint_trimmed m ob BIG_U64_LIMBS) (\<lambda>r. circ_bind (biguint_to_target_safe r) (\<lambda>e2.
     circ_return (aq, qs, eb, select changed_t k0 (select same_t (b_mul_add tqp trade_quote (entry_quote pos)) e2)))))))))
    (e * nat \<bar>n\<bar> div nat \<bar>v\<bar> < p_nat)
    (\<lambda>(aq', qs', eb, e'). aq' = aq \<and> qs' = qs \<and> big eb 2 e \<and>
      int (uval e') = (if changed then if 0 < get_signed_target trade_quote then int c else 0
        else if same then int e + max (get_signed_target trade_quote) 0 else int (e * nat \<bar>n\<bar> div nat \<bar>v\<bar>)))"
proof (rule realises_after [OF implements_target_to_biguint], rule realises_after [OF implements_target_to_biguint])
  let ?q = "get_signed_target trade_quote"
  fix eb nb assume eb: "big eb 2 (uval (entry_quote pos))" and nb: "big nb 2 (uval abs_new)"
  have ok: "limbs_ok eb" "length eb = 2" "bnat eb = e" "limbs_ok nb" "length nb = 2" "bnat nb = nat \<bar>n\<bar>"
    using eb nb e(1) new(1) by (simp_all add: big_def)
  have "nat \<bar>n\<bar> < 2 ^ 60" using new(2) by (simp add: nat_less_iff)
  with e(2) have "e * nat \<bar>n\<bar> < 2 ^ 56 * 2 ^ 60" by (rule mult_strict_mono) simp_all
  then have small: "e * nat \<bar>n\<bar> < 2 ^ (32 * 4)" by simp
  have mul: "implements (mul_biguint_non_carry eb nb BIG_U128_LIMBS) (\<lambda>r. big r 4 (e * nat \<bar>n\<bar>))"
    using realises_implements [OF realises_mul_biguint_non_carry [OF ok(1,4), of 4]] small ok by (simp add: limb_counts)
  have e1: "int (uval (b_mul_add tqp trade_quote (entry_quote pos))) = int e + max ?q 0"
  proof -
    have "tval (b_mul_add tqp trade_quote (entry_quote pos)) = of_int (int e + max ?q 0)"
      using pos_q get_signed_target_props(2) [of trade_quote] e(1) by (auto simp: tval_simps bval_def max_def simp flip: e(1))
    moreover have "0 \<le> int e + max ?q 0" "int e + max ?q 0 < goldilocks_order" using e(2) q by (auto simp: goldilocks_order_nat)
    ultimately show ?thesis by (simp only: to_canonical_of_int)
  qed
  show "realises (circ_bind (mul_biguint_non_carry eb nb BIG_U128_LIMBS) (\<lambda>m. circ_bind (target_to_biguint abs_old) (\<lambda>ob.
     circ_bind (div_biguint_trimmed m ob BIG_U64_LIMBS) (\<lambda>r. circ_bind (biguint_to_target_safe r) (\<lambda>e2.
     circ_return (aq, qs, eb, select changed_t k0 (select same_t (b_mul_add tqp trade_quote (entry_quote pos)) e2)))))))
    (e * nat \<bar>n\<bar> div nat \<bar>v\<bar> < p_nat)
    (\<lambda>(aq', qs', eb, e'). aq' = aq \<and> qs' = qs \<and> big eb 2 e \<and>
      int (uval e') = (if changed then if 0 < ?q then int c else 0
        else if same then int e + max ?q 0 else int (e * nat \<bar>n\<bar> div nat \<bar>v\<bar>)))"
  proof (rule realises_after [OF mul], rule realises_after [OF implements_target_to_biguint])
    fix m ob assume m: "big m 4 (e * nat \<bar>n\<bar>)" and ob: "big ob 2 (uval abs_old)"
    let ?d = "e * nat \<bar>n\<bar> div nat \<bar>v\<bar>"
    have "limbs_ok m" "limbs_ok ob" "min 2 (length ob) \<le> 8" using m ob by (simp_all add: big_def)
    from realises_div_biguint_trimmed [OF this]
    have div: "realises (div_biguint_trimmed m ob BIG_U64_LIMBS) (?d < 2 ^ 64) (\<lambda>r. big r 2 ?d)"
      using m ob by (simp add: big_def limb_counts old)
    have lim: "?d < p_nat \<longleftrightarrow> ?d < 2 ^ 64 \<and> ?d < p_nat" by auto
    have "realises (circ_bind (div_biguint_trimmed m ob BIG_U64_LIMBS) (\<lambda>r. circ_bind (biguint_to_target_safe r) (\<lambda>e2.
       circ_return (aq, qs, eb, select changed_t k0 (select same_t (b_mul_add tqp trade_quote (entry_quote pos)) e2)))))
      (?d < 2 ^ 64 \<and> ?d < p_nat) (\<lambda>(aq', qs', eb, e'). aq' = aq \<and> qs' = qs \<and> big eb 2 e \<and>
      int (uval e') = (if changed then if 0 < ?q then int c else 0 else if same then int e + max ?q 0 else int ?d))"
    proof (rule realises_bind [OF div])
      fix r assume r: "big r 2 ?d"
      then have r': "limbs_ok r" "bnat r = ?d" by (simp_all add: big_def)
      show "realises (circ_bind (biguint_to_target_safe r) (\<lambda>e2.
         circ_return (aq, qs, eb, select changed_t k0 (select same_t (b_mul_add tqp trade_quote (entry_quote pos)) e2))))
        (?d < p_nat) (\<lambda>(aq', qs', eb, e'). aq' = aq \<and> qs' = qs \<and> big eb 2 e \<and>
        int (uval e') = (if changed then if 0 < ?q then int c else 0 else if same then int e + max ?q 0 else int ?d))"
      proof (rule realises_then_return [OF realises_biguint_to_target_safe [OF r'(1), unfolded r'(2)]], unfold prod.case)
        fix e2 assume "uval e2 = ?d"
        then show "aq = aq \<and> qs = qs \<and> big eb 2 e \<and>
            int (uval (select changed_t k0 (select same_t (b_mul_add tqp trade_quote (entry_quote pos)) e2)))
            = (if changed then if 0 < ?q then int c else 0 else if same then int e + max ?q 0 else int ?d)"
          using eb e(1) e1 case0 by (simp add: uval_select [OF changed] uval_select [OF same])
      qed
    qed
    then show "realises (circ_bind (div_biguint_trimmed m ob BIG_U64_LIMBS) (\<lambda>r. circ_bind (biguint_to_target_safe r) (\<lambda>e2.
       circ_return (aq, qs, eb, select changed_t k0 (select same_t (b_mul_add tqp trade_quote (entry_quote pos)) e2)))))
      (?d < p_nat) (\<lambda>(aq', qs', eb, e'). aq' = aq \<and> qs' = qs \<and> big eb 2 e \<and>
      int (uval e') = (if changed then if 0 < ?q then int c else 0 else if same then int e + max ?q 0 else int ?d))"
      by (simp only: lim [symmetric])
  qed
qed

text \<open>A position that changes side or opens is no larger than the trade, so its entry quote is at most the trade's.\<close>

lemma flipped_entry_quote:
  fixes v d q :: int
  assumes "sgn v \<noteq> sgn (v + d)" "0 < q"
  shows "0 \<le> q div \<bar>d\<bar> * \<bar>v + d\<bar>" "q div \<bar>d\<bar> * \<bar>v + d\<bar> \<le> q"
proof -
  have le: "\<bar>v + d\<bar> \<le> \<bar>d\<bar>" using assms(1) by (auto simp: sgn_if split: if_splits)
  have K: "0 \<le> q div \<bar>d\<bar>" using assms(2) by (simp add: div_int_pos_iff)
  then show "0 \<le> q div \<bar>d\<bar> * \<bar>v + d\<bar>" by simp
  have "q div \<bar>d\<bar> * \<bar>v + d\<bar> \<le> q div \<bar>d\<bar> * \<bar>d\<bar>" by (rule mult_left_mono [OF le K])
  also have "\<dots> \<le> q" using assms(2) by (metis div_mult_mod_eq le_add_same_cancel1 pos_mod_sign abs_ge_zero order_le_less div_by_0 mod_by_0 less_imp_le)
  finally show "q div \<bar>d\<bar> * \<bar>v + d\<bar> \<le> q" .
qed

text \<open>With a quotient that cannot wrap the new entry quote is that of the specification.\<close>

lemma realises_position_entry_quote:
  assumes e: "uval (entry_quote pos) = e" "e < 2 ^ 56" and q: "get_signed_target trade_quote = q" "\<bar>q\<bar> < 2 ^ 60"
    and old: "uval abs_old = nat \<bar>v\<bar>" and new: "uval abs_new = nat \<bar>v + d\<bar>" "\<bar>v + d\<bar> < 2 ^ 60"
    and changed: "bval changed_t (sgn v \<noteq> sgn (v + d))" and same: "bval same_t (sgn d = sgn v)"
    and base: "int (uval trade_base) = \<bar>d\<bar>" "\<bar>d\<bar> \<le> 2 ^ 48" and fits: "\<bar>q\<bar> * \<bar>d\<bar> + \<bar>d\<bar> \<le> goldilocks_order"
  shows "realises (position_entry_quote pos trade_quote trade_base abs_old abs_new changed_t same_t)
    (e * nat \<bar>v + d\<bar> div nat \<bar>v\<bar> < p_nat)
    (\<lambda>(aq, qs, eb, e'). uval aq = nat \<bar>q\<bar> \<and> sval qs q \<and> big eb 2 e \<and> int (uval e') = new_entry_quote v (int e) d q)"
  unfolding position_entry_quote_def Let_def
proof (rule realises_after [OF implements_signed_parts], unfold split_paired_all prod.case, elim conjE, unfold q(1),
    rule realises_after [OF implements_is_sign(2)], assumption)
  fix aq qs pq assume aq: "uval aq = nat \<bar>q\<bar>" and qs: "sval qs q" and pq: "bval pq (0 < q)"
  have df: "division_fits aq trade_base"
  proof -
    have "int (uval aq * uval trade_base + uval trade_base) = \<bar>q\<bar> * \<bar>d\<bar> + \<bar>d\<bar>" using aq base(1) by simp
    then have "int (uval aq * uval trade_base + uval trade_base) \<le> int p_nat" using fits by (simp only: goldilocks_order_nat)
    then show ?thesis by (simp only: division_fits_def of_nat_le_iff)
  qed
  have "uval trade_base \<le> 2 ^ ORDER_BASE_AMOUNT_BITS" using base by (simp add: ORDER_BASE_AMOUNT_BITS_def)
  then have div: "implements (div_rem aq trade_base ORDER_BASE_AMOUNT_BITS) (is_quotient aq trade_base)"
    by (rule implements_div_rem [OF df]) (simp add: ORDER_BASE_AMOUNT_BITS_def)
  show "realises (circ_bind (div_rem aq trade_base ORDER_BASE_AMOUNT_BITS) (\<lambda>(k, _).
      circ_bind (target_to_biguint (entry_quote pos)) (\<lambda>eb. circ_bind (target_to_biguint abs_new) (\<lambda>nb.
      circ_bind (mul_biguint_non_carry eb nb BIG_U128_LIMBS) (\<lambda>m. circ_bind (target_to_biguint abs_old) (\<lambda>ob.
      circ_bind (div_biguint_trimmed m ob BIG_U64_LIMBS) (\<lambda>r. circ_bind (biguint_to_target_safe r) (\<lambda>e2.
      circ_return (aq, qs, eb, select changed_t (select pq (b_mul k abs_new) (Const 0))
        (select same_t (b_mul_add pq trade_quote (entry_quote pos)) e2))))))))))
    (e * nat \<bar>v + d\<bar> div nat \<bar>v\<bar> < p_nat)
    (\<lambda>(aq, qs, eb, e'). uval aq = nat \<bar>q\<bar> \<and> sval qs q \<and> big eb 2 e \<and> int (uval e') = new_entry_quote v (int e) d q)"
  proof (rule realises_after [OF div], unfold split_paired_all prod.case)
    fix k x assume "is_quotient aq trade_base (k, x)"
    then have k: "uval k = nat \<bar>q\<bar> div nat \<bar>d\<bar>" using arg_cong [OF base(1), of nat] by (simp add: is_quotient_def aq)
    let ?k0 = "b_mul k abs_new"
    have k0: "int (uval ?k0) = q div \<bar>d\<bar> * \<bar>v + d\<bar>" if "sgn v \<noteq> sgn (v + d)" "0 < q"
    proof -
      note fl = flipped_entry_quote [OF that]
      have "q div \<bar>d\<bar> * \<bar>v + d\<bar> < goldilocks_order" using fl(2) q(2) by (simp add: goldilocks_order_nat)
      moreover have "tval ?k0 = of_int (q div \<bar>d\<bar> * \<bar>v + d\<bar>)"
      proof -
        have "int (uval k * uval abs_new) = q div \<bar>d\<bar> * \<bar>v + d\<bar>" using that(2) by (simp add: k new(1) zdiv_int)
        moreover have "tval ?k0 = of_int (int (uval k * uval abs_new))" by (simp add: tval_simps)
        ultimately show ?thesis by (simp only:)
      qed
      ultimately show ?thesis using fl(1) by (simp only: to_canonical_of_int)
    qed
    have pick: "uval (select pq ?k0 (Const 0)) = (if 0 < get_signed_target trade_quote then uval ?k0 else 0)"
      by (simp add: uval_select [OF pq] q(1))
    note rest = realises_entry_quote_rest [OF e _ old new changed same _ pick, where aq = aq and qs = qs, unfolded q(1), OF q(2) pq]
    show "realises (circ_bind (target_to_biguint (entry_quote pos)) (\<lambda>eb. circ_bind (target_to_biguint abs_new) (\<lambda>nb.
      circ_bind (mul_biguint_non_carry eb nb BIG_U128_LIMBS) (\<lambda>m. circ_bind (target_to_biguint abs_old) (\<lambda>ob.
      circ_bind (div_biguint_trimmed m ob BIG_U64_LIMBS) (\<lambda>r. circ_bind (biguint_to_target_safe r) (\<lambda>e2.
      circ_return (aq, qs, eb, select changed_t (select pq (b_mul k abs_new) (Const 0))
        (select same_t (b_mul_add pq trade_quote (entry_quote pos)) e2)))))))))
    (e * nat \<bar>v + d\<bar> div nat \<bar>v\<bar> < p_nat)
    (\<lambda>(aq, qs, eb, e'). uval aq = nat \<bar>q\<bar> \<and> sval qs q \<and> big eb 2 e \<and> int (uval e') = new_entry_quote v (int e) d q)"
    proof (rule realises_weaken [OF rest _ refl], unfold split_paired_all prod.case, elim conjE, hypsubst)
      fix eb e' assume "big eb 2 e" and e': "int (uval e') = (if sgn v \<noteq> sgn (v + d) then if 0 < q then int (uval ?k0) else 0
        else if sgn d = sgn v then int e + max q 0 else int (e * nat \<bar>v + d\<bar> div nat \<bar>v\<bar>))"
      moreover have "int (uval e') = new_entry_quote v (int e) d q"
        unfolding e' new_entry_quote_def using k0 by (simp add: zdiv_int)
      ultimately show "uval aq = nat \<bar>q\<bar> \<and> sval qs q \<and> big eb 2 e \<and> int (uval e') = new_entry_quote v (int e) d q"
        using aq qs by simp
    qed
  qed
qed

section \<open>Abstract positions\<close>

record position_state =
  size_of :: int
  entry_of :: int
  funding_of :: int
  fraction_of :: nat
  margin_of :: int
  isolated_of :: bool

definition represents :: "account_position \<Rightarrow> position_state \<Rightarrow> bool" where
  "represents pos s \<longleftrightarrow>
    bigz16 (position pos) 4 (size_of s) \<and> int (uval (entry_quote pos)) = entry_of s \<and>
    bigz16 (last_funding_rate_prefix_sum pos) 4 (funding_of s) \<and> uval (initial_margin_fraction pos) = fraction_of s \<and>
    bigw (allocated_margin pos) 3 (margin_of s) \<and> bval (margin_mode pos) (isolated_of s)"

text \<open>The bounds of \<open>is_valid\<close>, and no entry quote without a position.\<close>

definition position_ok :: "position_state \<Rightarrow> bool" where
  "position_ok s \<longleftrightarrow> \<bar>size_of s\<bar> < 2 ^ POSITION_SIZE_BITS \<and> 0 \<le> entry_of s \<and> entry_of s < 2 ^ ENTRY_QUOTE_BITS \<and>
    (size_of s = 0 \<longrightarrow> entry_of s = 0) \<and> fraction_of s < 2 ^ MARGIN_FRACTION_BITS"

definition fraction_in_force :: "nat \<Rightarrow> nat \<Rightarrow> nat \<Rightarrow> nat" where
  "fraction_in_force f d m = max (if f = 0 then d else f) m"

definition change_position :: "position_state \<Rightarrow> int \<Rightarrow> int \<Rightarrow> int \<Rightarrow> nat \<Rightarrow> nat \<Rightarrow> position_state" where
  "change_position s d q funding default_fraction min_fraction =
    s\<lparr>size_of := size_of s + d, entry_of := new_entry_quote (size_of s) (entry_of s) d q, funding_of := funding,
      fraction_of := fraction_in_force (fraction_of s) default_fraction min_fraction\<rparr>"

text \<open>The profit a change of position realizes: what the two entry quotes and the trade's quote leave.\<close>

definition change_pnl :: "position_state \<Rightarrow> position_state \<Rightarrow> int \<Rightarrow> int \<Rightarrow> int" where
  "change_pnl s s' d q = sgn (size_of s') * entry_of s' - (sgn (size_of s) * entry_of s + sgn d * q)"

lemma bval_select: "bval c e \<Longrightarrow> bval x u \<Longrightarrow> bval y v \<Longrightarrow> bval (select c x y) (if e then u else v)"
  by (simp add: bval_def tval_select)

lemma represents_select:
  assumes "bval c e" "represents a s" "represents b t"
  shows "represents (select_position c a b) (if e then s else t)"
  using assms bigz16_select [OF assms(1), of "position a" 4 "size_of s" "position b" 4 "size_of t"]
    bigz16_select [OF assms(1), of "last_funding_rate_prefix_sum a" 4 "funding_of s" "last_funding_rate_prefix_sum b" 4 "funding_of t"]
    bigw_select [OF assms(1), of "allocated_margin a" 3 "margin_of s" "allocated_margin b" 3 "margin_of t"]
    bval_select [OF assms(1), of "margin_mode a" "isolated_of s" "margin_mode b" "isolated_of t"]
  by (cases e) (simp_all add: represents_def select_position_def uval_select)

text \<open>The entry quote stays in range and vanishes with the position.\<close>

lemma new_entry_quote_bounds:
  fixes v e d q :: int
  assumes e: "0 \<le> e" "e < 2 ^ 56" and q: "\<bar>q\<bar> < 2 ^ 60"
  shows "0 \<le> new_entry_quote v e d q" "new_entry_quote v e d q < 2 ^ 61"
proof -
  note a = flipped_entry_quote [of v d q]
  have b: "0 \<le> e * \<bar>v + d\<bar> div \<bar>v\<bar>" "e * \<bar>v + d\<bar> div \<bar>v\<bar> \<le> e" if "sgn v = sgn (v + d)" "sgn d \<noteq> sgn v"
  proof -
    show "0 \<le> e * \<bar>v + d\<bar> div \<bar>v\<bar>" using e(1) by (simp add: div_int_pos_iff)
    have "\<bar>v + d\<bar> \<le> \<bar>v\<bar>" using that by (auto simp: sgn_if split: if_splits)
    moreover have "0 < \<bar>v\<bar>" using that by auto
    ultimately have "e * \<bar>v + d\<bar> div \<bar>v\<bar> \<le> e * \<bar>v\<bar> div \<bar>v\<bar>" using e(1) by (intro zdiv_mono1 mult_left_mono)
    also have "\<dots> \<le> e" using e(1) by simp
    finally show "e * \<bar>v + d\<bar> div \<bar>v\<bar> \<le> e" .
  qed
  show "0 \<le> new_entry_quote v e d q" "new_entry_quote v e d q < 2 ^ 61"
    using a b e q by (auto simp: new_entry_quote_def max_def)
qed

lemma new_entry_quote_closed: "(v = 0 \<longrightarrow> e = 0) \<Longrightarrow> (d = 0 \<longrightarrow> q = 0) \<Longrightarrow> v + d = 0 \<Longrightarrow> new_entry_quote v e d q = 0"
  by (auto simp: new_entry_quote_def sgn_eq_0_iff)

lemma uval_biguint_u16_to_target:
  assumes "bigz16 a 4 v" "\<bar>v\<bar> < 2 ^ 60"
  shows "implements (biguint_u16_to_target (bi_abs a)) (\<lambda>t. uval t = nat \<bar>v\<bar>)"
proof (rule implements_weaken [OF implements_biguint_u16_to_target])
  fix t assume "tval t = of_nat (bnat16 (bi_abs a))"
  moreover have "nat \<bar>v\<bar> < p_nat" using assms(2) by (simp add: nat_less_iff)
  ultimately show "uval t = nat \<bar>v\<bar>" unfolding bigz16D(3) [OF assms(1)] using to_canonical_of_nat_small by (simp only:)
qed (simp add: bigz16D(2) [OF assms(1)])

lemma bval_sign_eq: "bval r (tval s = tval t) \<Longrightarrow> sval s v \<Longrightarrow> sval t w \<Longrightarrow> bval r (sgn v = sgn w)"
proof -
  assume r: "bval r (tval s = tval t)" and s: "sval s v" "sval t w"
  have "(of_int (sgn v) :: gf) = of_int (sgn w) \<longleftrightarrow> sgn v = sgn w"
    by (rule signed_range_inj) (auto simp: signed_range_def goldilocks_order_nat sgn_if)
  then show "bval r (sgn v = sgn w)" using r s by (simp add: sval_def)
qed

text \<open>The trade a position change gets: base and quote amounts below their bounds, the quote divisible without wrapping.\<close>

definition trade_ok :: "int \<Rightarrow> int \<Rightarrow> bool" where
  "trade_ok d q \<longleftrightarrow> \<bar>d\<bar> < 2 ^ ORDER_BASE_AMOUNT_BITS \<and> \<bar>q\<bar> < 2 ^ 60 \<and> (d = 0 \<longrightarrow> q = 0)"

definition quote_divisible :: "int \<Rightarrow> int \<Rightarrow> bool" where
  "quote_divisible d q \<longleftrightarrow> \<bar>q\<bar> * \<bar>d\<bar> + \<bar>d\<bar> \<le> goldilocks_order"

lemma bigw_zero: "bigw zero_bigint 0 0"
  by (rule bigz_bigw) (simp add: bigz_def zero_bigint_def big_def sval_Const)

lemma signed_range_diff: "0 \<le> x \<Longrightarrow> x < 2 ^ 60 \<Longrightarrow> 0 \<le> y \<Longrightarrow> y < 2 ^ 60 \<Longrightarrow> signed_range (x - y)"
  by (simp add: signed_range_def goldilocks_order_nat)

lemma get_signed_target_small:
  assumes "uval t = nat \<bar>v\<bar>" "\<bar>v\<bar> < 2 ^ 60"
  shows "get_signed_target t = \<bar>v\<bar>"
proof -
  have "\<not> 2 ^ POSITIVE_THRESHOLD_BIT \<le> uval t" using assms by (simp add: POSITIVE_THRESHOLD_BIT_def nat_less_iff not_le)
  then show ?thesis unfolding get_signed_target_def assms(1) by simp
qed

text \<open>The position after the change, whatever its new entry quote.\<close>

definition changed_to :: "position_state \<Rightarrow> int \<Rightarrow> int \<Rightarrow> int \<Rightarrow> nat \<Rightarrow> nat \<Rightarrow> position_state" where
  "changed_to s d e' funding default_fraction min_fraction =
    s\<lparr>size_of := size_of s + d, entry_of := e', funding_of := funding,
      fraction_of := fraction_in_force (fraction_of s) default_fraction min_fraction\<rparr>"

lemma change_position_eq: "change_position s d q F m n = changed_to s d (new_entry_quote (size_of s) (entry_of s) d q) F m n"
  by (simp add: change_position_def changed_to_def)

text \<open>Everything after the new entry quote.\<close>

lemma realises_change_finish:
  fixes default_f min_f :: nat and funding :: bigint_u16
  assumes en: "bval is_enabled b" and pos: "represents pos s" "position_ok s" and funding: "bigz16 funding 4 F"
    and imf: "uval imf = margin_fraction_in_force pos default_f min_f" and db: "bigz16 db 4 d" and nsize: "bigz16 nsize 4 (size_of s + d)"
    and abs: "uval old_abs = nat \<bar>size_of s\<bar>" "uval new_abs = nat \<bar>size_of s + d\<bar>" and ok: "trade_ok d q"
    and aq: "uval aq = nat \<bar>q\<bar>" "sval qs q" and eb: "big eb 2 (nat (entry_of s))" and closed: "size_of s + d = 0 \<longrightarrow> uval e' = 0"
  defines "s' \<equiv> changed_to s d (int (uval e')) F default_f min_f"
  shows "realises (circ_bind (position_realized_pnl (bi_sign nsize) (bi_sign (position pos)) (bi_sign db) aq qs eb e') (\<lambda>pnl.
      circ_return (select_position is_enabled (pos\<lparr>last_funding_rate_prefix_sum := funding, position := nsize, initial_margin_fraction := imf,
          entry_quote := e'\<rparr>) pos,
        select_bigint is_enabled pnl zero_bigint, select_signed is_enabled (sub_signed new_abs old_abs) (Const 0))))
    (\<bar>change_pnl s s' d q\<bar> < 2 ^ 64)
    (\<lambda>(r, pnl, oi). represents r (if b then s' else s) \<and> bigw pnl 2 (if b then change_pnl s s' d q else 0) \<and>
      get_signed_target oi = (if b then \<bar>size_of s'\<bar> - \<bar>size_of s\<bar> else 0))"
proof -
  let ?v = "size_of s" and ?e = "nat (entry_of s)"
  let ?n = "?v + d"
  have v: "bigz16 (position pos) 4 ?v" using pos(1) by (simp add: represents_def)
  have e: "?e < 2 ^ 56" "int ?e = entry_of s" "?v = 0 \<longrightarrow> ?e = 0" using pos(2) by (auto simp: position_ok_def ENTRY_QUOTE_BITS_def nat_less_iff)
  have bounds: "\<bar>?v\<bar> < 2 ^ 60" "\<bar>?n\<bar> < 2 ^ 60" "\<bar>q\<bar> < 2 ^ 60" "d = 0 \<longrightarrow> q = 0"
    using pos(2) ok by (auto simp: position_ok_def trade_ok_def POSITION_SIZE_BITS_def ORDER_BASE_AMOUNT_BITS_def)
  have eq: "sgn ?n * int (uval e') - (sgn ?v * int ?e + sgn d * q) = change_pnl s s' d q"
    using e(2) by (simp add: change_pnl_def s'_def changed_to_def)
  note pnl = realises_position_realized_pnl [OF bigz16D(4) [OF nsize] closed bigz16D(4) [OF v] e(3) eb e(1) bigz16D(4) [OF db] bounds(4) aq bounds(3),
      unfolded eq]
  show ?thesis
  proof (rule realises_then_return [OF pnl], unfold prod.case, intro conjI)
    fix pnl assume pnl: "bigw pnl 2 (change_pnl s s' d q)"
    let ?new = "pos\<lparr>last_funding_rate_prefix_sum := funding, position := nsize, initial_margin_fraction := imf, entry_quote := e'\<rparr>"
    have "represents ?new s'"
      using pos(1) nsize funding imf by (simp add: represents_def s'_def changed_to_def margin_fraction_in_force_def fraction_in_force_def)
    from represents_select [OF en this pos(1)] show "represents (select_position is_enabled ?new pos) (if b then s' else s)" .
    show "bigw (select_bigint is_enabled pnl zero_bigint) 2 (if b then change_pnl s s' d q else 0)"
      using bigw_select [OF en pnl bigw_zero] by simp
    have "get_signed_target new_abs = \<bar>?n\<bar>" "get_signed_target old_abs = \<bar>?v\<bar>"
      using get_signed_target_small [OF abs(2) bounds(2)] get_signed_target_small [OF abs(1) bounds(1)] by simp_all
    moreover have "signed_range (\<bar>?n\<bar> - \<bar>?v\<bar>)" using bounds(1,2) by (intro signed_range_diff) simp_all
    ultimately show "get_signed_target (select_signed is_enabled (sub_signed new_abs old_abs) (Const 0)) = (if b then \<bar>size_of s'\<bar> - \<bar>size_of s\<bar> else 0)"
      using get_signed_target_arith(2) [of new_abs old_abs]
      get_signed_target_small [of "Const 0" 0]
      by (simp add: get_signed_target_select [OF en] s'_def changed_to_def)
  qed
qed

lemma implements_position_change_start:
  assumes pos: "represents pos s" "position_ok s"
    and imf: "uval (default_initial_margin_fraction market) < 2 ^ 16" "uval (min_initial_margin_fraction market) < 2 ^ 16"
    and d: "get_signed_target position_delta = d" and ok: "trade_ok d q"
  shows "implements (position_change_start pos position_delta market) (\<lambda>(db, nsize, imf, old_abs, new_abs, changed_t, same_t).
      bigz16 db 4 d \<and> bigz16 nsize 4 (size_of s + d) \<and>
      uval imf = margin_fraction_in_force pos (uval (default_initial_margin_fraction market)) (uval (min_initial_margin_fraction market)) \<and>
      uval old_abs = nat \<bar>size_of s\<bar> \<and> uval new_abs = nat \<bar>size_of s + d\<bar> \<and>
      bval changed_t (sgn (size_of s) \<noteq> sgn (size_of s + d)) \<and> bval same_t (sgn d = sgn (size_of s)))"
proof -
  let ?v = "size_of s"
  let ?n = "?v + d"
  have v: "bigz16 (position pos) 4 ?v" using pos(1) by (simp add: represents_def)
  have bounds: "\<bar>?v\<bar> < 2 ^ 60" "\<bar>?n\<bar> < 2 ^ 60" "\<bar>d\<bar> < 2 ^ 64"
    using pos(2) ok by (auto simp: position_ok_def trade_ok_def POSITION_SIZE_BITS_def ORDER_BASE_AMOUNT_BITS_def)
  have delta: "implements (signed_target_to_bigint_u16 position_delta BIGU16_U64_LIMBS) (\<lambda>r. bigz16 r 4 d)"
    using realises_implements [OF realises_signed_target_to_bigint_u16 [of 4 position_delta]] bounds(3) by (simp add: limb_counts d)
  have nsize: "implements (add_bigint_u16_non_carry (position pos) db BIGU16_U64_LIMBS) (\<lambda>r. bigz16 r 4 ?n)" if "bigz16 db 4 d" for db
    using realises_implements [OF realises_add_bigint_u16_non_carry [OF v that, of BIGU16_U64_LIMBS]] bounds(2) by (simp add: limb_counts)
  have fraction: "uval (initial_margin_fraction pos) < 2 ^ 16" using pos by (simp add: represents_def position_ok_def MARGIN_FRACTION_BITS_def)
  show ?thesis
    unfolding position_change_start_def Let_def
  proof (rule implements_bind [OF delta], rule implements_bind [OF nsize], assumption,
      rule implements_bind [OF implements_get_initial_margin_fraction [OF fraction imf]],
      rule implements_bind [OF uval_biguint_u16_to_target [OF v bounds(1)]],
      rule implements_bind [OF uval_biguint_u16_to_target [OF _ bounds(2)]], assumption,
      rule implements_bind [OF implements_is_equal], rule implements_bind [OF implements_is_equal], rule implements_return, unfold prod.case, intro conjI)
    fix db nsize same dsame
    assume db: "bigz16 db 4 d" and nsize: "bigz16 nsize 4 ?n" and same: "bval same (tval (bi_sign (position pos)) = tval (bi_sign nsize))"
      and dsame: "bval dsame (tval (bi_sign db) = tval (bi_sign (position pos)))"
    note signs = bigz16D(4) [OF v] bigz16D(4) [OF nsize] bigz16D(4) [OF db]
    show "bval (b_not same) (sgn ?v \<noteq> sgn ?n)" "bval dsame (sgn d = sgn ?v)"
      using bval_not [OF bval_sign_eq [OF same signs(1,2)]] bval_sign_eq [OF dsame signs(3,1)] by simp_all
  qed
qed

lemma change_pnl_bound:
  assumes "position_ok s" "trade_ok d q"
  shows "\<bar>change_pnl s (change_position s d q F m n) d q\<bar> < 2 ^ 64"
proof -
  let ?v = "size_of s" and ?e = "entry_of s"
  let ?f = "new_entry_quote ?v ?e d q"
  have e: "0 \<le> ?e" "?e < 2 ^ 56" "\<bar>?e\<bar> < 2 ^ 56" and q: "\<bar>q\<bar> < 2 ^ 60"
    using assms by (auto simp: position_ok_def trade_ok_def ENTRY_QUOTE_BITS_def)
  from abs_sum_small [OF sgn_times_le [of ?v] sgn_times_le [of d] e(3) q] have "\<bar>sgn ?v * ?e + sgn d * q\<bar> < 2 ^ 61" .
  moreover have "\<bar>sgn (?v + d) * ?f\<bar> < 2 ^ 61"
    using sgn_times_le [of "?v + d" ?f] new_entry_quote_bounds [OF e(1,2) q, of ?v d] by simp
  ultimately show ?thesis
    using abs_triangle_ineq4 [of "sgn (?v + d) * ?f" "sgn ?v * ?e + sgn d * q"] by (simp add: change_pnl_def change_position_def)
qed

lemma realises_calculate_position_change:
  assumes en: "bval is_enabled b" and pos: "represents pos s" "position_ok s" and funding: "bigz16 (funding_rate_prefix_sum market) 4 F"
    and imf: "uval (default_initial_margin_fraction market) < 2 ^ 16" "uval (min_initial_margin_fraction market) < 2 ^ 16"
    and d: "get_signed_target position_delta = d" and q: "get_signed_target trade_quote = q" and base: "int (uval trade_base) = \<bar>d\<bar>"
    and ok: "trade_ok d q" "quote_divisible d q"
  defines "s' \<equiv> change_position s d q F (uval (default_initial_margin_fraction market)) (uval (min_initial_margin_fraction market))"
  shows "realises (calculate_position_change is_enabled pos position_delta market trade_quote trade_base)
    (nat (entry_of s) * nat \<bar>size_of s + d\<bar> div nat \<bar>size_of s\<bar> < p_nat)
    (\<lambda>(r, pnl, oi). represents r (if b then s' else s) \<and> bigw pnl 2 (if b then change_pnl s s' d q else 0) \<and>
      get_signed_target oi = (if b then \<bar>size_of s'\<bar> - \<bar>size_of s\<bar> else 0))"
  unfolding calculate_position_change_def Let_def
proof (rule realises_after [OF implements_position_change_start [OF pos imf d ok(1)]], unfold split_paired_all prod.case, elim conjE)
  let ?v = "size_of s" and ?e = "nat (entry_of s)"
  let ?n = "?v + d"
  have e: "uval (entry_quote pos) = ?e" "?e < 2 ^ 56" "int ?e = entry_of s" "0 \<le> entry_of s" "entry_of s < 2 ^ 56"
    using pos by (auto simp: represents_def position_ok_def ENTRY_QUOTE_BITS_def nat_less_iff)
  have bounds: "\<bar>?n\<bar> < 2 ^ 60" "\<bar>d\<bar> \<le> 2 ^ 48" "\<bar>q\<bar> < 2 ^ 60"
    using pos(2) ok(1) by (auto simp: position_ok_def trade_ok_def POSITION_SIZE_BITS_def ORDER_BASE_AMOUNT_BITS_def)
  fix db nsize imf old_abs new_abs changed_t same_t
  assume db: "bigz16 db 4 d" and nsize: "bigz16 nsize 4 ?n"
    and imf: "uval imf = margin_fraction_in_force pos (uval (default_initial_margin_fraction market)) (uval (min_initial_margin_fraction market))"
    and abs: "uval old_abs = nat \<bar>?v\<bar>" "uval new_abs = nat \<bar>?n\<bar>"
    and changed: "bval changed_t (sgn ?v \<noteq> sgn ?n)" and same: "bval same_t (sgn d = sgn ?v)"
  note entry = realises_position_entry_quote [OF e(1,2) q bounds(3) abs bounds(1) changed same base bounds(2) ok(2) [unfolded quote_divisible_def], unfolded e(3)]
  let ?new = "\<lambda>e. pos\<lparr>last_funding_rate_prefix_sum := funding_rate_prefix_sum market, position := nsize, initial_margin_fraction := imf, entry_quote := e\<rparr>"
  show "realises (circ_bind (position_entry_quote pos trade_quote trade_base old_abs new_abs changed_t same_t) (\<lambda>(aq, qs, eb, e').
      circ_bind (position_realized_pnl (bi_sign nsize) (bi_sign (position pos)) (bi_sign db) aq qs eb e') (\<lambda>pnl.
      circ_return (select_position is_enabled (?new e') pos, select_bigint is_enabled pnl zero_bigint,
        select_signed is_enabled (sub_signed new_abs old_abs) (Const 0)))))
    (?e * nat \<bar>?n\<bar> div nat \<bar>?v\<bar> < p_nat)
    (\<lambda>(r, pnl, oi). represents r (if b then s' else s) \<and> bigw pnl 2 (if b then change_pnl s s' d q else 0) \<and>
      get_signed_target oi = (if b then \<bar>size_of s'\<bar> - \<bar>size_of s\<bar> else 0))"
  proof (rule realises_bind [where P' = True, simplified, OF entry], unfold split_paired_all prod.case, elim conjE)
    fix aq qs eb e' assume aq: "uval aq = nat \<bar>q\<bar>" "sval qs q" and eb: "big eb 2 ?e"
      and e': "int (uval e') = new_entry_quote ?v (entry_of s) d q"
    have closed: "?n = 0 \<longrightarrow> uval e' = 0"
      using e' new_entry_quote_closed [of ?v "entry_of s" d q] pos(2) ok(1) by (auto simp: position_ok_def trade_ok_def)
    have s': "changed_to s d (int (uval e')) F (uval (default_initial_margin_fraction market)) (uval (min_initial_margin_fraction market)) = s'"
      by (simp add: s'_def change_position_eq e')
    have fits: "\<bar>change_pnl s s' d q\<bar> < 2 ^ 64" unfolding s'_def by (rule change_pnl_bound [OF pos(2) ok(1)])
    from realises_change_finish [OF en pos funding imf db nsize abs ok(1) aq eb closed, unfolded s']
    show "realises (circ_bind (position_realized_pnl (bi_sign nsize) (bi_sign (position pos)) (bi_sign db) aq qs eb e') (\<lambda>pnl.
        circ_return (select_position is_enabled (?new e') pos, select_bigint is_enabled pnl zero_bigint,
          select_signed is_enabled (sub_signed new_abs old_abs) (Const 0)))) True
      (\<lambda>(r, pnl, oi). represents r (if b then s' else s) \<and> bigw pnl 2 (if b then change_pnl s s' d q else 0) \<and>
        get_signed_target oi = (if b then \<bar>size_of s'\<bar> - \<bar>size_of s\<bar> else 0))"
      using fits by (simp only: simp_thms)
  qed
qed

section \<open>Conservation between two parties\<close>

text \<open>
  Without any assumption on the division, an accepted change realizes exactly the profit that its own new
  entry quote leaves: what a wrapped quotient adds to the entry quote it also takes from the profit.
\<close>

lemma sound_position_entry_quote:
  assumes e: "uval (entry_quote pos) = e" "e < 2 ^ 56" and q: "get_signed_target trade_quote = q" "\<bar>q\<bar> < 2 ^ 60"
    and old: "uval abs_old = nat \<bar>v\<bar>" and new: "uval abs_new = nat \<bar>v + d\<bar>" "\<bar>v + d\<bar> < 2 ^ 60"
    and changed: "bval changed_t (sgn v \<noteq> sgn (v + d))" and same: "bval same_t (sgn d = sgn v)"
    and ok: "v = 0 \<longrightarrow> e = 0" "d = 0 \<longrightarrow> q = 0"
  shows "sound (position_entry_quote pos trade_quote trade_base abs_old abs_new changed_t same_t)
    (\<lambda>(aq, qs, eb, e'). uval aq = nat \<bar>q\<bar> \<and> sval qs q \<and> big eb 2 e \<and> (v + d = 0 \<longrightarrow> uval e' = 0))"
  unfolding position_entry_quote_def Let_def
proof (rule sound_bind [OF implements_sound [OF implements_signed_parts]], unfold split_paired_all prod.case, elim conjE, unfold q(1),
    rule sound_bind [OF implements_sound [OF implements_is_sign(2)]], assumption,
    rule sound_bind [OF div_rem_accepts(1)], unfold split_paired_all prod.case)
  fix aq qs pq k x assume aq: "uval aq = nat \<bar>q\<bar>" and qs: "sval qs q" and pq: "bval pq (0 < q)"
  let ?k0 = "b_mul k abs_new"
  have pick: "uval (select pq ?k0 (Const 0)) = (if 0 < get_signed_target trade_quote then uval ?k0 else 0)"
    by (simp add: uval_select [OF pq] q(1))
  note rest = realises_entry_quote_rest [OF e _ old new changed same _ pick, where aq = aq and qs = qs, unfolded q(1), OF q(2) pq]
  show "sound (circ_bind (target_to_biguint (entry_quote pos)) (\<lambda>eb. circ_bind (target_to_biguint abs_new) (\<lambda>nb.
      circ_bind (mul_biguint_non_carry eb nb BIG_U128_LIMBS) (\<lambda>m. circ_bind (target_to_biguint abs_old) (\<lambda>ob.
      circ_bind (div_biguint_trimmed m ob BIG_U64_LIMBS) (\<lambda>r. circ_bind (biguint_to_target_safe r) (\<lambda>e2.
      circ_return (aq, qs, eb, select changed_t (select pq (b_mul k abs_new) (Const 0))
        (select same_t (b_mul_add pq trade_quote (entry_quote pos)) e2)))))))))
    (\<lambda>(aq, qs, eb, e'). uval aq = nat \<bar>q\<bar> \<and> sval qs q \<and> big eb 2 e \<and> (v + d = 0 \<longrightarrow> uval e' = 0))"
  proof (rule sound_weaken [OF realises_sound [OF rest]], unfold split_paired_all prod.case, elim conjE, hypsubst, intro conjI impI)
    fix eb e' assume e': "int (uval e') = (if sgn v \<noteq> sgn (v + d) then if 0 < q then int (uval ?k0) else 0
        else if sgn d = sgn v then int e + max q 0 else int (e * nat \<bar>v + d\<bar> div nat \<bar>v\<bar>))" and zero: "v + d = 0"
    have "uval ?k0 = 0" using new(1) zero by (simp add: tval_simps)
    then show "uval e' = 0" using e' zero ok by (auto simp: sgn_eq_0_iff split: if_splits)
  qed (use aq qs in auto)
qed

lemma sound_calculate_position_change:
  assumes en: "bval is_enabled b" and pos: "represents pos s" "position_ok s" and funding: "bigz16 (funding_rate_prefix_sum market) 4 F"
    and imf: "uval (default_initial_margin_fraction market) < 2 ^ 16" "uval (min_initial_margin_fraction market) < 2 ^ 16"
    and d: "get_signed_target position_delta = d" and q: "get_signed_target trade_quote = q" and ok: "trade_ok d q"
  defines "s' \<equiv> \<lambda>e'. changed_to s d e' F (uval (default_initial_margin_fraction market)) (uval (min_initial_margin_fraction market))"
  shows "sound (calculate_position_change is_enabled pos position_delta market trade_quote trade_base)
    (\<lambda>(r, pnl, oi). \<exists>e'\<ge>0. (size_of s + d = 0 \<longrightarrow> e' = 0) \<and> represents r (if b then s' e' else s) \<and>
      bigw pnl 2 (if b then change_pnl s (s' e') d q else 0) \<and> get_signed_target oi = (if b then \<bar>size_of s + d\<bar> - \<bar>size_of s\<bar> else 0))"
  unfolding calculate_position_change_def Let_def
proof (rule sound_bind [OF implements_sound [OF implements_position_change_start [OF pos imf d ok]]], unfold split_paired_all prod.case, elim conjE)
  let ?v = "size_of s" and ?e = "nat (entry_of s)"
  let ?n = "?v + d"
  have e: "uval (entry_quote pos) = ?e" "?e < 2 ^ 56" "?v = 0 \<longrightarrow> ?e = 0"
    using pos by (auto simp: represents_def position_ok_def ENTRY_QUOTE_BITS_def nat_less_iff)
  have bounds: "\<bar>?n\<bar> < 2 ^ 60" "\<bar>q\<bar> < 2 ^ 60" "d = 0 \<longrightarrow> q = 0"
    using pos(2) ok by (auto simp: position_ok_def trade_ok_def POSITION_SIZE_BITS_def ORDER_BASE_AMOUNT_BITS_def)
  fix db nsize imf old_abs new_abs changed_t same_t
  assume db: "bigz16 db 4 d" and nsize: "bigz16 nsize 4 ?n"
    and imf: "uval imf = margin_fraction_in_force pos (uval (default_initial_margin_fraction market)) (uval (min_initial_margin_fraction market))"
    and abs: "uval old_abs = nat \<bar>?v\<bar>" "uval new_abs = nat \<bar>?n\<bar>"
    and changed: "bval changed_t (sgn ?v \<noteq> sgn ?n)" and same: "bval same_t (sgn d = sgn ?v)"
  note entry = sound_position_entry_quote [OF e(1,2) q bounds(2) abs bounds(1) changed same e(3) bounds(3)]
  let ?new = "\<lambda>e. pos\<lparr>last_funding_rate_prefix_sum := funding_rate_prefix_sum market, position := nsize, initial_margin_fraction := imf, entry_quote := e\<rparr>"
  show "sound (circ_bind (position_entry_quote pos trade_quote trade_base old_abs new_abs changed_t same_t) (\<lambda>(aq, qs, eb, e').
      circ_bind (position_realized_pnl (bi_sign nsize) (bi_sign (position pos)) (bi_sign db) aq qs eb e') (\<lambda>pnl.
      circ_return (select_position is_enabled (?new e') pos, select_bigint is_enabled pnl zero_bigint,
        select_signed is_enabled (sub_signed new_abs old_abs) (Const 0)))))
    (\<lambda>(r, pnl, oi). \<exists>e'\<ge>0. (?n = 0 \<longrightarrow> e' = 0) \<and> represents r (if b then s' e' else s) \<and>
      bigw pnl 2 (if b then change_pnl s (s' e') d q else 0) \<and> get_signed_target oi = (if b then \<bar>size_of s + d\<bar> - \<bar>size_of s\<bar> else 0))"
  proof (rule sound_bind [OF entry], unfold split_paired_all prod.case, elim conjE)
    fix aq qs eb e' assume aq: "uval aq = nat \<bar>q\<bar>" "sval qs q" and eb: "big eb 2 ?e" and closed: "?n = 0 \<longrightarrow> uval e' = 0"
    show "sound (circ_bind (position_realized_pnl (bi_sign nsize) (bi_sign (position pos)) (bi_sign db) aq qs eb e') (\<lambda>pnl.
        circ_return (select_position is_enabled (?new e') pos, select_bigint is_enabled pnl zero_bigint,
          select_signed is_enabled (sub_signed new_abs old_abs) (Const 0))))
      (\<lambda>(r, pnl, oi). \<exists>e'\<ge>0. (?n = 0 \<longrightarrow> e' = 0) \<and> represents r (if b then s' e' else s) \<and>
        bigw pnl 2 (if b then change_pnl s (s' e') d q else 0) \<and> get_signed_target oi = (if b then \<bar>size_of s + d\<bar> - \<bar>size_of s\<bar> else 0))"
      by (rule sound_weaken [OF realises_sound [OF realises_change_finish [OF en pos funding imf db nsize abs ok aq eb closed]]])
        (use closed in \<open>auto simp: s'_def changed_to_def intro!: exI [of _ "int (uval e')"]\<close>)
  qed
qed

text \<open>Both sides of a trade; the maker's change is the taker's negated.\<close>

definition change_both ::
  "account_position \<Rightarrow> account_position \<Rightarrow> target \<Rightarrow> market_risk_details \<Rightarrow> target \<Rightarrow> target \<Rightarrow>
    ((account_position \<times> bigint \<times> target) \<times> (account_position \<times> bigint \<times> target)) circ" where
  "change_both taker maker position_delta market trade_quote trade_base =
    circ_bind (calculate_position_change (Const 1) taker position_delta market trade_quote trade_base) (\<lambda>t.
    circ_bind (calculate_position_change (Const 1) maker (neg_signed position_delta) market trade_quote trade_base) (\<lambda>m.
    circ_return (t, m)))"

definition owed :: "position_state \<Rightarrow> int" where
  "owed s = sgn (size_of s) * entry_of s"

lemma get_signed_target_neg:
  assumes "get_signed_target t = d" "\<bar>d\<bar> < 2 ^ 60"
  shows "get_signed_target (neg_signed t) = - d"
  using assms get_signed_target_props(2) [of t] by (intro get_signed_target_eqI) (simp_all add: neg_signed_def tval_simps signed_range_def goldilocks_order_nat abs_less_iff)

section \<open>Properties\<close>

text \<open>
  C15. Position change: for a position within its bounds and a trade whose quote divides without wrapping, the
  circuit is satisfiable exactly when the entry quote scaled to the new size fits the field, and it computes the
  new size, the new entry quote by the three cases (opened or flipped, increased, reduced), the funding and
  margin fraction, the realized profit and the change of the open interest; disabled it changes nothing.
\<close>
theorem position_change_refines:
  assumes "bval is_enabled b" "represents pos s" "position_ok s" "bigz16 (funding_rate_prefix_sum market) 4 F"
    and "uval (default_initial_margin_fraction market) = dm" "dm < 2 ^ 16" "uval (min_initial_margin_fraction market) = mm" "mm < 2 ^ 16"
    and "get_signed_target position_delta = d" "get_signed_target trade_quote = q" "int (uval trade_base) = \<bar>d\<bar>"
    and "trade_ok d q" "quote_divisible d q" "s' = change_position s d q F dm mm"
  shows "realises (calculate_position_change is_enabled pos position_delta market trade_quote trade_base)
    (nat (entry_of s) * nat \<bar>size_of s + d\<bar> div nat \<bar>size_of s\<bar> < p_nat)
    (\<lambda>(r, pnl, oi). represents r (if b then s' else s) \<and> bigw pnl 2 (if b then change_pnl s s' d q else 0) \<and>
      get_signed_target oi = (if b then \<bar>size_of s'\<bar> - \<bar>size_of s\<bar> else 0))"
  using realises_calculate_position_change [OF assms(1-4) _ _ assms(9-13)] assms(6,8) unfolding assms(5,7,14) by blast

text \<open>Small positions, for the examples.\<close>

definition small16 :: "int \<Rightarrow> bigint_u16" where
  "small16 v = \<lparr>bi_abs = [Const (of_nat (nat \<bar>v\<bar>)), Const 0, Const 0, Const 0], bi_sign = Const (of_int (sgn v))\<rparr>"

definition example_position :: "int \<Rightarrow> nat \<Rightarrow> account_position" where
  "example_position v e = empty_position\<lparr>last_funding_rate_prefix_sum := small16 0, position := small16 v, entry_quote := Const (of_nat e),
     allocated_margin := \<lparr>bi_abs = [Const 0, Const 0, Const 0], bi_sign = Const 0\<rparr>\<rparr>"

definition example_state :: "int \<Rightarrow> nat \<Rightarrow> position_state" where
  "example_state v e = \<lparr>size_of = v, entry_of = int e, funding_of = 0, fraction_of = 0, margin_of = 0, isolated_of = False\<rparr>"

definition example_market :: market_risk_details where
  "example_market = empty_market\<lparr>funding_rate_prefix_sum := small16 7, default_initial_margin_fraction := Const 500,
     min_initial_margin_fraction := Const 100\<rparr>"

lemma bigz16_small16: "\<bar>v\<bar> < 2 ^ 16 \<Longrightarrow> bigz16 (small16 v) 4 v"
  using to_canonical_of_nat_small [of "nat \<bar>v\<bar>"]
  by (simp add: bigz16_def small16_def big16_def bnat16_def limbs16_ok_def is_u16_def sval_def nat_less_iff del: of_nat_nat)

lemma represents_example:
  assumes "\<bar>v\<bar> < 2 ^ 16" "e < 2 ^ 32"
  shows "represents (example_position v e) (example_state v e)"
  using bigz16_small16 [OF assms(1)] bigz16_small16 [of 0] assms(2) bval_Const(2)
  by (simp add: represents_def example_position_def example_state_def empty_position_def bigw_def big_def wsval_0 [OF sval_Const(1)] limbs_ok_def is_u32_def bnat_def)

lemma example_market_ok:
  "bigz16 (funding_rate_prefix_sum example_market) 4 7" "uval (default_initial_margin_fraction example_market) = 500"
  "uval (min_initial_margin_fraction example_market) = 100"
  using bigz16_small16 [of 7] by (simp_all add: example_market_def)

lemma example_trade:
  "represents (example_position 10 500) (example_state 10 500)" "position_ok (example_state 10 500)"
  "get_signed_target (Wire (- 15)) = - 15" "get_signed_target (Wire 900) = 900" "trade_ok (- 15) 900" "quote_divisible (- 15) 900"
proof -
  show "represents (example_position 10 500) (example_state 10 500)" "position_ok (example_state 10 500)"
    using represents_example [of 10 500] by (simp_all add: example_state_def position_ok_def POSITION_SIZE_BITS_def ENTRY_QUOTE_BITS_def MARGIN_FRACTION_BITS_def)
  show "get_signed_target (Wire (- 15)) = - 15" "get_signed_target (Wire 900) = 900"
    by (rule get_signed_target_eqI; simp add: signed_range_def goldilocks_order_nat)+
  show "trade_ok (- 15) 900" "quote_divisible (- 15) 900"
    by (simp_all add: trade_ok_def quote_divisible_def ORDER_BASE_AMOUNT_BITS_def goldilocks_order_nat)
qed

lemma position_change_refines_witness:
  "complete (calculate_position_change (Const 1) (example_position 10 500) (Wire (- 15)) example_market (Wire 900) (Wire 15))
    (\<lambda>(r, pnl, oi). represents r (change_position (example_state 10 500) (- 15) 900 7 500 100) \<and> bigw pnl 2 100 \<and> get_signed_target oi = - 5)"
proof -
  let ?s = "example_state 10 500"
  have "change_pnl ?s (change_position ?s (- 15) 900 7 500 100) (- 15) 900 = 100"
    by (simp add: change_pnl_def change_position_def example_state_def new_entry_quote_def)
  with position_change_refines [OF bval_Const(1) example_trade(1,2) example_market_ok(1,2) _ example_market_ok(3) _ example_trade(3,4) _ example_trade(5,6) refl, of "Wire 15"]
  show ?thesis by (simp add: realises_def implements_def example_state_def change_position_def)
qed

text \<open>
  C16. Conservation between the two parties of a trade, for every accepted run and with no assumption on the
  division: sizes balance, and the two realized profits are exactly the change of what the two positions owe.
\<close>
theorem position_change_conserves:
  assumes "represents taker s" "position_ok s" "represents maker t" "position_ok t" "bigz16 (funding_rate_prefix_sum market) 4 F"
    and "uval (default_initial_margin_fraction market) < 2 ^ 16" "uval (min_initial_margin_fraction market) < 2 ^ 16"
    and "get_signed_target position_delta = d" "get_signed_target trade_quote = q" "trade_ok d q"
  shows "sound (change_both taker maker position_delta market trade_quote trade_base)
    (\<lambda>((taker', pnl, _), (maker', pnl', _)). \<exists>s' t' x y. represents taker' s' \<and> represents maker' t' \<and> bigw pnl 2 x \<and> bigw pnl' 2 y \<and>
      size_of s' + size_of t' = size_of s + size_of t \<and> x + y = (owed s' + owed t') - (owed s + owed t))"
proof -
  let ?m = "uval (default_initial_margin_fraction market)" and ?n = "uval (min_initial_margin_fraction market)"
  have d: "\<bar>d\<bar> < 2 ^ 60" and neg: "trade_ok (- d) q" using assms(10) by (simp_all add: trade_ok_def ORDER_BASE_AMOUNT_BITS_def)
  note one = sound_calculate_position_change [OF bval_Const(1) assms(1,2,5,6,7,8,9,10)]
  note two = sound_calculate_position_change [OF bval_Const(1) assms(3,4,5,6,7) get_signed_target_neg [OF assms(8) d] assms(9) neg]
  show ?thesis
    unfolding change_both_def
  proof (rule sound_bind [OF one], rule sound_bind [OF two], rule sound_return, unfold split_paired_all prod.case if_True, elim exE conjE)
    fix taker' pnl oi maker' pnl' oi' e f
    assume r: "represents taker' (changed_to s d e F ?m ?n)" "represents maker' (changed_to t (- d) f F ?m ?n)"
      and p: "bigw pnl 2 (change_pnl s (changed_to s d e F ?m ?n) d q)" "bigw pnl' 2 (change_pnl t (changed_to t (- d) f F ?m ?n) (- d) q)"
    show "\<exists>s' t' x y. represents taker' s' \<and> represents maker' t' \<and> bigw pnl 2 x \<and> bigw pnl' 2 y \<and>
        size_of s' + size_of t' = size_of s + size_of t \<and> x + y = (owed s' + owed t') - (owed s + owed t)"
      using r p by (intro exI conjI) (assumption+, simp_all add: changed_to_def change_pnl_def owed_def sgn_minus)
  qed
qed

lemma position_change_conserves_witness:
  "sound (change_both (example_position 10 500) (example_position 10 500) (Wire (- 15)) example_market (Wire 900) (Wire 15))
    (\<lambda>((taker', pnl, _), (maker', pnl', _)). \<exists>s' t' x y. represents taker' s' \<and> represents maker' t' \<and> bigw pnl 2 x \<and> bigw pnl' 2 y \<and>
      size_of s' + size_of t' = 20 \<and> x + y = (owed s' + owed t') - 1000)"
  using position_change_conserves [OF example_trade(1,2,1,2) example_market_ok(1) _ _ example_trade(3-5), of "Wire 15"]
  by (simp add: example_market_ok example_state_def owed_def)

text \<open>
  Invariant: the check of the new position that the matching engine runs after a trade succeeds exactly when
  the new position is within the bounds the next trade relies on; that a closed position owes nothing holds anyway.
\<close>
theorem position_change_keeps_ok:
  assumes "bval is_enabled b" "represents pos s" "position_ok s" "bigz16 (funding_rate_prefix_sum market) 4 F"
    and "uval (default_initial_margin_fraction market) < 2 ^ 16" "uval (min_initial_margin_fraction market) < 2 ^ 16"
    and "get_signed_target position_delta = d" "get_signed_target trade_quote = q" "trade_ok d q"
  shows "sound (circ_bind (calculate_position_change is_enabled pos position_delta market trade_quote trade_base) (\<lambda>(r, _).
      circ_bind (position_is_valid r) (\<lambda>v. circ_return (r, v))))
    (\<lambda>(r, v). \<exists>s'. represents r s' \<and> bval v (position_ok s'))"
proof (rule sound_bind [OF sound_calculate_position_change [OF assms]], unfold split_paired_all prod.case, elim exE conjE)
  let ?m = "uval (default_initial_margin_fraction market)" and ?n = "uval (min_initial_margin_fraction market)"
  fix r pnl oi e assume e: "0 \<le> e" "size_of s + d = 0 \<longrightarrow> e = 0" and r: "represents r (if b then changed_to s d e F ?m ?n else s)"
  let ?s' = "if b then changed_to s d e F ?m ?n else s"
  have v: "bigz16 (position r) 4 (size_of ?s')" and q: "int (uval (entry_quote r)) = entry_of ?s'" using r by (simp_all only: represents_def)
  have f: "fraction_of ?s' < 2 ^ MARGIN_FRACTION_BITS" "size_of ?s' = 0 \<longrightarrow> entry_of ?s' = 0"
    using assms(3,5,6) e by (auto simp: changed_to_def position_ok_def fraction_in_force_def MARGIN_FRACTION_BITS_def)
  show "sound (circ_bind (position_is_valid r) (\<lambda>v. circ_return (r, v)))
      (\<lambda>(r, v). \<exists>s'. represents r s' \<and> bval v (position_ok s'))"
  proof (rule sound_bind [OF implements_sound [OF implements_position_is_valid [OF v]]], rule sound_return, unfold prod.case)
    fix t assume t: "bval t (\<bar>size_of ?s'\<bar> < 2 ^ POSITION_SIZE_BITS \<and> uval (entry_quote r) < 2 ^ ENTRY_QUOTE_BITS)"
    have "uval (entry_quote r) < 2 ^ ENTRY_QUOTE_BITS \<longleftrightarrow> int (uval (entry_quote r)) < 2 ^ ENTRY_QUOTE_BITS"
      by (simp only: of_nat_less_numeral_power_cancel_iff)
    moreover have "0 \<le> entry_of ?s'" by (simp only: q [symmetric] of_nat_0_le_iff)
    ultimately have "position_ok ?s' \<longleftrightarrow> \<bar>size_of ?s'\<bar> < 2 ^ POSITION_SIZE_BITS \<and> uval (entry_quote r) < 2 ^ ENTRY_QUOTE_BITS"
      using f unfolding position_ok_def q by blast
    with t have "bval t (position_ok ?s')" by (simp only:)
    with r show "\<exists>s'. represents r s' \<and> bval t (position_ok s')" by blast
  qed
qed

lemma position_change_keeps_ok_witness:
  "sound (circ_bind (calculate_position_change (Const 1) (example_position 10 500) (Wire (- 15)) example_market (Wire 900) (Wire 15)) (\<lambda>(r, _).
      circ_bind (position_is_valid r) (\<lambda>v. circ_return (r, v))))
    (\<lambda>(r, v). \<exists>s'. represents r s' \<and> bval v (position_ok s'))"
  by (rule position_change_keeps_ok [OF bval_Const(1) example_trade(1,2) example_market_ok(1)]) (simp_all add: example_market_ok example_trade(5) del: One_nat_def, simp_all add: example_trade)

end
