(* ===== verification/Risk_Parameters.thy ===== *)
theory Risk_Parameters
  imports Position_Change
begin

text \<open>
  The risk parameters of an account, cross margin or one isolated position
  (\<open>RiskParametersTarget\<close> of \<open>circuit/src/types/risk_info.rs\<close>): the health of an account, the check of a
  change of risk, the collateral it may move out (\<open>circuit/src/liquidation.rs\<close>), the parameters of an
  isolated position and their incremental update by a trade.
\<close>

section \<open>Data\<close>

record risk_parameters =
  usdc_collateral :: bigint
  usdc_collateral_with_funding :: bigint
  usdc_portfolio_value :: bigint
  total_portfolio_value :: bigint
  total_account_value :: bigint
  total_account_liquidation_threshold :: bigint
  initial_margin_requirement :: biguint
  maintenance_margin_requirement :: biguint
  close_out_margin_requirement :: biguint

record risk_info =
  cross_risk_parameters :: risk_parameters
  current_risk_parameters :: risk_parameters

definition BIG_U160_LIMBS :: nat where "BIG_U160_LIMBS = 5"

definition target_to_biguint_single_limb_unsafe :: "target \<Rightarrow> biguint" where
  "target_to_biguint_single_limb_unsafe t = [t]"

section \<open>Health\<close>

definition get_health :: "risk_parameters \<Rightarrow> target circ" where
  "get_health r =
    circ_bind (is_equal (bi_sign (total_account_liquidation_threshold r)) (Const (- 1))) (\<lambda>is_tav_negative.
    circ_bind (is_lt_biguint (bi_abs (total_account_value r)) (initial_margin_requirement r)) (\<lambda>initial_margin_gt.
    circ_bind (is_lt_biguint (bi_abs (total_account_liquidation_threshold r)) (maintenance_margin_requirement r)) (\<lambda>maintenance_margin_gt.
    circ_bind (is_lt_biguint (bi_abs (total_account_liquidation_threshold r)) (close_out_margin_requirement r)) (\<lambda>close_out_margin_gt.
    let positive_tav_result = b_add_many [initial_margin_gt, maintenance_margin_gt, close_out_margin_gt];
        bancruptcy = constant_u64 BANKRUPTCY in
    circ_return (select is_tav_negative bancruptcy positive_tav_result)))))"

definition is_healthy :: "risk_parameters \<Rightarrow> target circ" where
  "is_healthy r =
    circ_bind (is_not_equal (bi_sign (total_account_value r)) (Const (- 1))) (\<lambda>tav_is_not_negative.
    circ_bind (is_gte_biguint (bi_abs (total_account_value r)) (initial_margin_requirement r)) (\<lambda>abs_tav_gte_initial_margin.
    circ_return (b_and tav_is_not_negative abs_tav_gte_initial_margin)))"

definition is_health_improved :: "risk_parameters \<Rightarrow> risk_parameters \<Rightarrow> target circ" where
  "is_health_improved r new =
    circ_bind (mul_bigint_with_biguint_non_carry (total_account_liquidation_threshold r) (maintenance_margin_requirement new)
      (length (bi_abs (total_account_liquidation_threshold r)) + length (maintenance_margin_requirement new))) (\<lambda>left_side.
    circ_bind (mul_bigint_with_biguint_non_carry (total_account_liquidation_threshold new) (maintenance_margin_requirement r)
      (length (bi_abs (total_account_liquidation_threshold new)) + length (maintenance_margin_requirement r))) (\<lambda>right_side.
    is_lte_bigint left_side right_side))"

definition is_valid_risk_change :: "risk_parameters \<Rightarrow> risk_parameters \<Rightarrow> target circ" where
  "is_valid_risk_change r new =
    circ_bind (is_healthy r) (\<lambda>is_healthy_before.
    circ_bind (is_health_improved r new) (\<lambda>is_health_improved.
    let cond_1 = b_or is_healthy_before is_health_improved;
        is_not_healthy_before = b_not is_healthy_before in
    circ_bind (is_healthy new) (\<lambda>is_healthy_after.
    let cond_2 = b_or is_not_healthy_before is_healthy_after in
    circ_return (b_and cond_1 cond_2))))"

definition is_in_liquidation :: "risk_parameters \<Rightarrow> target circ" where
  "is_in_liquidation r =
    circ_bind (is_equal (bi_sign (total_account_liquidation_threshold r)) (Const (- 1))) (\<lambda>is_talt_negative.
    circ_bind (is_lt_biguint (bi_abs (total_account_liquidation_threshold r)) (maintenance_margin_requirement r)) (\<lambda>is_tav_abs_less_than_mmr.
    circ_return (b_or is_talt_negative is_tav_abs_less_than_mmr)))"

definition select_risk_parameters :: "target \<Rightarrow> risk_parameters \<Rightarrow> risk_parameters \<Rightarrow> risk_parameters" where
  "select_risk_parameters flag a b =
    \<lparr>usdc_collateral = select_bigint flag (usdc_collateral a) (usdc_collateral b),
     usdc_collateral_with_funding = select_bigint flag (usdc_collateral_with_funding a) (usdc_collateral_with_funding b),
     usdc_portfolio_value = select_bigint flag (usdc_portfolio_value a) (usdc_portfolio_value b),
     total_portfolio_value = select_bigint flag (total_portfolio_value a) (total_portfolio_value b),
     total_account_value = select_bigint flag (total_account_value a) (total_account_value b),
     total_account_liquidation_threshold = select_bigint flag (total_account_liquidation_threshold a) (total_account_liquidation_threshold b),
     initial_margin_requirement = select_biguint flag (initial_margin_requirement a) (initial_margin_requirement b),
     maintenance_margin_requirement = select_biguint flag (maintenance_margin_requirement a) (maintenance_margin_requirement b),
     close_out_margin_requirement = select_biguint flag (close_out_margin_requirement a) (close_out_margin_requirement b)\<rparr>"

text \<open>The collateral that may leave the cross margin (\<open>liquidation.rs\<close>).\<close>

definition get_available_usdc_collateral :: "risk_parameters \<Rightarrow> biguint circ" where
  "get_available_usdc_collateral r =
    circ_bind (is_healthy r) (\<lambda>healthy.
    circ_bind (try_sub_biguint (bi_abs (total_account_value r)) (initial_margin_requirement r)) (\<lambda>(available_margin_in_usdc, borrow).
    circ_bind (conditional_assert_zero healthy borrow) (\<lambda>_.
    let available_margin_in_usdc = mul_biguint_by_bool available_margin_in_usdc healthy;
        collateral_with_funding = usdc_collateral_with_funding r in
    circ_bind (is_not_equal (bi_sign collateral_with_funding) (Const (- 1))) (\<lambda>is_collateral_with_funding_non_negative.
    let available_margin_in_usdc = mul_biguint_by_bool available_margin_in_usdc is_collateral_with_funding_non_negative in
    min_biguint available_margin_in_usdc (bi_abs collateral_with_funding)))))"

section \<open>A position in a market\<close>

definition position_base_notional ::
  "account_position \<Rightarrow> market_risk_details \<Rightarrow> target \<Rightarrow> (target \<times> target \<times> target) circ" where
  "position_base_notional pos market given_strategy_index =
    circ_bind (is_equal (strategy_index market) given_strategy_index) (\<lambda>is_correct_strategy.
    let mark_price_times_quote_multiplier = b_mul (quote_multiplier market) (mark_price market) in
    circ_bind (biguint_u16_to_target (bi_abs (position pos))) (\<lambda>abs_position.
    let abs_position = select_or_zero is_correct_strategy abs_position;
        abs_position_notional = b_mul abs_position mark_price_times_quote_multiplier;
        entry_quote = select_or_zero is_correct_strategy (entry_quote pos) in
    circ_bind (is_sign_positive (bi_sign (position pos))) (\<lambda>position_is_positive.
    let positive_tpv_component = select position_is_positive abs_position_notional entry_quote;
        negative_tpv_component = select position_is_positive entry_quote abs_position_notional in
    circ_return (b_mul (risk_status market) abs_position_notional, positive_tpv_component, negative_tpv_component))))"

definition position_unrealized_funding :: "account_position \<Rightarrow> market_risk_details \<Rightarrow> bigint circ" where
  "position_unrealized_funding pos market =
    (let last_funding_rate_ps = bigint_u16_to_bigint (last_funding_rate_prefix_sum pos);
         market_funding_rate_ps = bigint_u16_to_bigint (funding_rate_prefix_sum market);
         pos_big = bigint_u16_to_bigint (position pos);
         quote_multiplier_big = [quote_multiplier market] in
     circ_bind (mul_biguint_non_carry (bi_abs pos_big) quote_multiplier_big BIG_U96_LIMBS) (\<lambda>abs_position_times_quote_multiplier.
     circ_bind (sub_bigint last_funding_rate_ps market_funding_rate_ps) (\<lambda>funding_rate_ps_diff.
     circ_bind (mul_biguint_non_carry abs_position_times_quote_multiplier (bi_abs funding_rate_ps_diff) BIG_U96_LIMBS) (\<lambda>abs.
     circ_return \<lparr>bi_abs = abs, bi_sign = b_mul (bi_sign pos_big) (bi_sign funding_rate_ps_diff)\<rparr>))))"

definition times_fraction :: "biguint \<Rightarrow> target \<Rightarrow> biguint circ" where
  "times_fraction position_notional_value fraction =
    circ_bind (mul_biguint_non_carry position_notional_value [fraction] BIG_U96_LIMBS) (\<lambda>position_times_margin.
    mul_biguint_non_carry position_times_margin (constant_biguint MARGIN_FRACTION_MULTIPLIER) BIG_U96_LIMBS)"

definition position_margin_requirements ::
  "account_position \<Rightarrow> biguint \<Rightarrow> market_risk_details \<Rightarrow> bool \<Rightarrow> (biguint \<times> biguint \<times> biguint) circ" where
  "position_margin_requirements pos position_notional_value market light =
    circ_bind (times_fraction position_notional_value (maintenance_margin_fraction market)) (\<lambda>maintenance.
    if light then circ_return (maintenance, maintenance, maintenance)
    else
      circ_bind (get_initial_margin_fraction pos (default_initial_margin_fraction market) (min_initial_margin_fraction market)) (\<lambda>fraction.
      circ_bind (times_fraction position_notional_value fraction) (\<lambda>initial.
      circ_bind (times_fraction position_notional_value (close_out_margin_fraction market)) (\<lambda>close_out.
      circ_return (initial, maintenance, close_out)))))"

text \<open>A sum of magnitudes as a signed integer, with sign 0 or 1.\<close>

definition tpv_sum_to_bigint :: "target \<Rightarrow> bigint circ" where
  "tpv_sum_to_bigint t =
    circ_bind (is_zero t) (\<lambda>is_tpv_sum_zero.
    let add_sign = select is_tpv_sum_zero (Const 0) (Const 1) in
    circ_bind (target_to_biguint t) (\<lambda>abs. circ_return \<lparr>bi_abs = abs, bi_sign = add_sign\<rparr>))"

definition new_isolated :: "target \<Rightarrow> account_position \<Rightarrow> market_risk_details \<Rightarrow> bool \<Rightarrow> risk_parameters circ" where
  "new_isolated strategy pos market light =
    circ_bind (position_base_notional pos market strategy) (\<lambda>(isolated_position_notional, positive_tpv_sum, negative_tpv_sum).
    circ_bind (tpv_sum_to_bigint positive_tpv_sum) (\<lambda>big_positive_tpv_sum.
    circ_bind (tpv_sum_to_bigint negative_tpv_sum) (\<lambda>big_negative_tpv_sum.
    circ_bind (target_to_biguint isolated_position_notional) (\<lambda>isolated_position_notional.
    circ_bind (sub_bigint_non_carry big_positive_tpv_sum big_negative_tpv_sum BIG_U96_LIMBS) (\<lambda>isolated_position_base_notional_value.
    circ_bind (mul_bigint_with_biguint_non_carry isolated_position_base_notional_value
      [constant_u64 USDC_TO_COLLATERAL_MULTIPLIER] BIG_U96_LIMBS) (\<lambda>isolated_position_notional_value.
    circ_bind (position_unrealized_funding pos market) (\<lambda>isolated_funding.
    let isolated_collateral = allocated_margin pos in
    circ_bind (add_bigint_non_carry isolated_collateral isolated_funding BIG_U96_LIMBS) (\<lambda>isolated_collateral_with_funding.
    circ_bind (add_bigint_non_carry isolated_collateral_with_funding isolated_position_notional_value BIG_U96_LIMBS) (\<lambda>isolated_total_account_value.
    circ_bind (position_margin_requirements pos isolated_position_notional market light) (\<lambda>(initial, maintenance, close_out).
    circ_return
      \<lparr>usdc_collateral = isolated_collateral,
       usdc_collateral_with_funding = isolated_collateral_with_funding,
       usdc_portfolio_value = isolated_total_account_value,
       total_portfolio_value = isolated_total_account_value,
       total_account_value = isolated_total_account_value,
       total_account_liquidation_threshold = isolated_total_account_value,
       initial_margin_requirement = initial,
       maintenance_margin_requirement = maintenance,
       close_out_margin_requirement = close_out\<rparr>))))))))))"

section \<open>The update by a trade\<close>

text \<open>All six values move by a difference; the first two only by a difference of collateral.\<close>

definition add_to_values :: "bigint \<Rightarrow> risk_parameters \<Rightarrow> risk_parameters circ" where
  "add_to_values delta r =
    circ_bind (add_bigint_non_carry (usdc_portfolio_value r) delta BIG_U96_LIMBS) (\<lambda>upv.
    circ_bind (add_bigint_non_carry (total_portfolio_value r) delta BIG_U96_LIMBS) (\<lambda>tpv.
    circ_bind (add_bigint_non_carry (total_account_value r) delta BIG_U96_LIMBS) (\<lambda>tav.
    circ_bind (add_bigint_non_carry (total_account_liquidation_threshold r) delta BIG_U96_LIMBS) (\<lambda>talt.
    circ_return (r\<lparr>usdc_portfolio_value := upv, total_portfolio_value := tpv, total_account_value := tav,
      total_account_liquidation_threshold := talt\<rparr>)))))"

definition add_to_collateral :: "bigint \<Rightarrow> risk_parameters \<Rightarrow> risk_parameters circ" where
  "add_to_collateral delta r =
    circ_bind (add_bigint_non_carry (usdc_collateral r) delta BIG_U96_LIMBS) (\<lambda>collateral.
    circ_bind (add_bigint_non_carry (usdc_collateral_with_funding r) delta BIG_U96_LIMBS) (\<lambda>collateral_with_funding.
    circ_return (r\<lparr>usdc_collateral := collateral, usdc_collateral_with_funding := collateral_with_funding\<rparr>)))"

text \<open>One margin requirement: the share of the new position is added, that of the old one subtracted.\<close>

definition replace_requirement ::
  "target \<Rightarrow> biguint \<Rightarrow> biguint \<Rightarrow> biguint \<Rightarrow> biguint \<Rightarrow> biguint \<Rightarrow> biguint circ" where
  "replace_requirement is_enabled requirement new_a new_b old_a old_b =
    circ_bind (mul_biguint_non_carry new_a new_b BIG_U96_LIMBS) (\<lambda>requirement_add.
    circ_bind (mul_biguint_non_carry old_a old_b BIG_U96_LIMBS) (\<lambda>requirement_sub.
    circ_bind (add_biguint_non_carry requirement requirement_add BIG_U96_LIMBS) (\<lambda>requirement.
    circ_bind (try_sub_biguint requirement requirement_sub) (\<lambda>(requirement, sub_success).
    circ_bind (conditional_assert_zero is_enabled sub_success) (\<lambda>_.
    circ_return requirement)))))"

definition unrealized_pnl_of :: "market_risk_details \<Rightarrow> account_position \<Rightarrow> (target \<times> target) circ" where
  "unrealized_pnl_of market pos =
    circ_bind (biguint_u16_to_target (bi_abs (position pos))) (\<lambda>position_abs.
    circ_bind (get_position_unrealized_pnl market position_abs (bi_sign (position pos)) (entry_quote pos)) (\<lambda>notional.
    circ_return (position_abs, notional)))"

definition replace_requirements ::
  "target \<Rightarrow> market_risk_details \<Rightarrow> account_position \<Rightarrow> target \<Rightarrow> account_position \<Rightarrow> target \<Rightarrow> risk_parameters \<Rightarrow> risk_parameters circ" where
  "replace_requirements is_enabled market old_position old_position_abs new_position new_position_abs r =
    (let margin_fraction_multiplier = constant_u64 MARGIN_FRACTION_MULTIPLIER;
         normalized_position_notional_multiplier = mul_many [mark_price market, quote_multiplier market, margin_fraction_multiplier] in
     circ_bind (target_to_biguint normalized_position_notional_multiplier) (\<lambda>multiplier.
     circ_bind (target_to_biguint old_position_abs) (\<lambda>old_position_abs_big.
     circ_bind (target_to_biguint new_position_abs) (\<lambda>new_position_abs_big.
     circ_bind (mul_biguint_non_carry old_position_abs_big multiplier BIG_U96_LIMBS) (\<lambda>old_notional.
     circ_bind (mul_biguint_non_carry new_position_abs_big multiplier BIG_U96_LIMBS) (\<lambda>new_notional.
     circ_bind (get_initial_margin_fraction new_position (default_initial_margin_fraction market) (min_initial_margin_fraction market)) (\<lambda>new_fraction.
     circ_bind (get_initial_margin_fraction old_position (default_initial_margin_fraction market) (min_initial_margin_fraction market)) (\<lambda>old_fraction.
     circ_bind (replace_requirement is_enabled (initial_margin_requirement r)
       (target_to_biguint_single_limb_unsafe new_fraction) new_notional (target_to_biguint_single_limb_unsafe old_fraction) old_notional) (\<lambda>initial.
     let maintenance_fraction = target_to_biguint_single_limb_unsafe (maintenance_margin_fraction market);
         close_out_fraction = target_to_biguint_single_limb_unsafe (close_out_margin_fraction market) in
     circ_bind (replace_requirement is_enabled (maintenance_margin_requirement r) new_notional maintenance_fraction old_notional maintenance_fraction) (\<lambda>maintenance.
     circ_bind (replace_requirement is_enabled (close_out_margin_requirement r) new_notional close_out_fraction old_notional close_out_fraction) (\<lambda>close_out.
     circ_return (r\<lparr>initial_margin_requirement := initial, maintenance_margin_requirement := maintenance,
       close_out_margin_requirement := close_out\<rparr>))))))))))))"

definition update_for_perps_trade ::
  "bigint \<Rightarrow> account_position \<Rightarrow> account_position \<Rightarrow> market_risk_details \<Rightarrow> target \<Rightarrow> risk_parameters \<Rightarrow> risk_parameters circ" where
  "update_for_perps_trade collateral_delta old_position new_position market is_enabled r =
    (let collateral_delta = select_bigint is_enabled collateral_delta zero_bigint;
         old_position = select_position is_enabled old_position empty_position;
         new_position = select_position is_enabled new_position empty_position;
         market = select_market_risk_details is_enabled market empty_market in
     circ_bind (add_to_collateral collateral_delta r) (\<lambda>r.
     circ_bind (add_to_values collateral_delta r) (\<lambda>r.
     circ_bind (unrealized_pnl_of market old_position) (\<lambda>(old_position_abs, old_notional).
     circ_bind (unrealized_pnl_of market new_position) (\<lambda>(new_position_abs, new_notional).
     let notional_diff = sub_signed new_notional old_notional in
     circ_bind (signed_target_to_bigint notional_diff) (\<lambda>notional_diff_big.
     circ_bind (mul_bigint_with_biguint_non_carry notional_diff_big (constant_biguint USDC_TO_COLLATERAL_MULTIPLIER) BIG_U96_LIMBS)
       (\<lambda>total_account_value_delta.
     circ_bind (add_to_values total_account_value_delta r) (\<lambda>r.
     replace_requirements is_enabled market old_position old_position_abs new_position new_position_abs r))))))))"


section \<open>Abstract risk\<close>

record risk_state =
  collateral_of :: int
  funded_of :: int
  portfolio_of :: int
  total_portfolio_of :: int
  value_of :: int
  threshold_of :: int
  initial_of :: nat
  maintenance_of :: nat
  close_out_of :: nat

definition requirements_are :: "risk_parameters \<Rightarrow> risk_state \<Rightarrow> bool" where
  "requirements_are r R \<longleftrightarrow> big (initial_margin_requirement r) 3 (initial_of R) \<and>
    big (maintenance_margin_requirement r) 3 (maintenance_of R) \<and> big (close_out_margin_requirement r) 3 (close_out_of R)"

definition risk_represents :: "risk_parameters \<Rightarrow> risk_state \<Rightarrow> bool" where
  "risk_represents r R \<longleftrightarrow>
    bigw (usdc_collateral r) 3 (collateral_of R) \<and> bigw (usdc_collateral_with_funding r) 3 (funded_of R) \<and>
    bigw (usdc_portfolio_value r) 3 (portfolio_of R) \<and> bigw (total_portfolio_value r) 3 (total_portfolio_of R) \<and>
    bigw (total_account_value r) 3 (value_of R) \<and> bigw (total_account_liquidation_threshold r) 3 (threshold_of R) \<and> requirements_are r R"

text \<open>The values the health depends on, with the sign of a zero being 0.\<close>

definition risk_reads :: "risk_parameters \<Rightarrow> risk_state \<Rightarrow> bool" where
  "risk_reads r R \<longleftrightarrow> bigz (total_account_value r) 3 (value_of R) \<and>
    bigz (total_account_liquidation_threshold r) 3 (threshold_of R) \<and> requirements_are r R"

lemma requirements_areD:
  "requirements_are r R \<Longrightarrow> big (initial_margin_requirement r) 3 (initial_of R)"
  "requirements_are r R \<Longrightarrow> big (maintenance_margin_requirement r) 3 (maintenance_of R)"
  "requirements_are r R \<Longrightarrow> big (close_out_margin_requirement r) 3 (close_out_of R)"
  by (simp_all add: requirements_are_def)

lemma risk_readsD:
  "risk_reads r R \<Longrightarrow> bigz (total_account_value r) 3 (value_of R)"
  "risk_reads r R \<Longrightarrow> bigz (total_account_liquidation_threshold r) 3 (threshold_of R)"
  "risk_reads r R \<Longrightarrow> requirements_are r R"
  by (simp_all add: risk_reads_def)

section \<open>Contracts of the health checks\<close>

definition healthy :: "risk_state \<Rightarrow> bool" where
  "healthy R \<longleftrightarrow> int (initial_of R) \<le> value_of R"

definition health_improved :: "risk_state \<Rightarrow> risk_state \<Rightarrow> bool" where
  "health_improved R R' \<longleftrightarrow> threshold_of R * int (maintenance_of R') \<le> threshold_of R' * int (maintenance_of R)"

definition valid_risk_change :: "risk_state \<Rightarrow> risk_state \<Rightarrow> bool" where
  "valid_risk_change R R' \<longleftrightarrow> (if healthy R then healthy R' else health_improved R R')"

definition health_of :: "risk_state \<Rightarrow> nat" where
  "health_of R =
    (if threshold_of R < 0 then BANKRUPTCY
     else if threshold_of R < int (close_out_of R) then FULL_LIQUIDATION
     else if threshold_of R < int (maintenance_of R) then PARTIAL_LIQUIDATION
     else if value_of R < int (initial_of R) then PRE_LIQUIDATION
     else HEALTHY)"

lemma sign_is_negative: "sval s v \<Longrightarrow> tval s = tval (Const (- 1)) \<longleftrightarrow> v < 0"
  using sval_sgn_iff [OF _ sval_Const(3), of s v] by (auto simp: sgn_if split: if_splits)

lemma implements_is_neg_sign:
  assumes "sval s v"
  shows "implements (is_equal s (Const (- 1))) (\<lambda>r. bval r (v < 0))" "implements (is_not_equal s (Const (- 1))) (\<lambda>r. bval r (0 \<le> v))"
  using implements_is_equal [of s "Const (- 1)"] implements_is_not_equal [of s "Const (- 1)"]
  by (simp_all only: sign_is_negative [OF assms] not_less)

lemma big_lt: "big a n x \<Longrightarrow> big b m y \<Longrightarrow> implements (is_lt_biguint a b) (\<lambda>r. bval r (x < y))"
  and big_gte: "big a n x \<Longrightarrow> big b m y \<Longrightarrow> implements (is_gte_biguint a b) (\<lambda>r. bval r (y \<le> x))"
  using implements_is_lt_biguint [of a b] implements_is_gte_biguint [of a b] by (simp_all add: big_def)

lemma bigz_big: "bigz a n v \<Longrightarrow> big (bi_abs a) n (nat \<bar>v\<bar>)" by (simp add: bigz_def)

lemma uval_sum3: "bval a x \<Longrightarrow> bval b y \<Longrightarrow> bval c z \<Longrightarrow> uval (b_add_many [a, b, c]) = of_bool x + of_bool y + of_bool z"
proof -
  assume "bval a x" "bval b y" "bval c z"
  then have "tval (b_add_many [a, b, c]) = of_nat (of_bool x + of_bool y + of_bool z)"
    by (simp add: tval_b_add_many bval_def)
  then show ?thesis using to_canonical_of_nat_small [of "of_bool x + of_bool y + of_bool z"] by (simp only: ) (auto split: if_splits)
qed

lemma implements_get_health_raw:
  assumes "risk_reads r R"
  shows "implements (get_health r) (\<lambda>h. uval h = (if threshold_of R < 0 then BANKRUPTCY
    else of_bool (nat \<bar>value_of R\<bar> < initial_of R) + of_bool (nat \<bar>threshold_of R\<bar> < maintenance_of R) + of_bool (nat \<bar>threshold_of R\<bar> < close_out_of R)))"
proof -
  note q = risk_readsD [OF assms] and q' = requirements_areD [OF risk_readsD(3) [OF assms]]
  have four: "uval (constant_u64 BANKRUPTCY) = BANKRUPTCY"
    unfolding constant_u64_def by (rule uval_big) (simp add: BANKRUPTCY_def)
  show ?thesis
    unfolding get_health_def Let_def
    by (rule implements_bind [OF implements_is_neg_sign(1) [OF bigzD(4) [OF q(2)]]],
        rule implements_bind [OF big_lt [OF bigz_big [OF q(1)] q'(1)]], rule implements_bind [OF big_lt [OF bigz_big [OF q(2)] q'(2)]],
        rule implements_bind [OF big_lt [OF bigz_big [OF q(2)] q'(3)]], rule implements_return)
      (simp only: uval_select uval_sum3 four)
qed

lemma implements_is_healthy:
  assumes "risk_reads r R"
  shows "implements (is_healthy r) (\<lambda>h. bval h (healthy R))"
proof -
  note q = risk_readsD [OF assms] and q' = requirements_areD [OF risk_readsD(3) [OF assms]]
  have eq: "0 \<le> value_of R \<and> initial_of R \<le> nat \<bar>value_of R\<bar> \<longleftrightarrow> healthy R" by (auto simp: healthy_def)
  show ?thesis
    unfolding is_healthy_def
    by (rule implements_bind [OF implements_is_neg_sign(2) [OF bigzD(4) [OF q(1)]]],
        rule implements_bind [OF big_gte [OF bigz_big [OF q(1)] q'(1)]], rule implements_return, unfold eq [symmetric], rule bval_and)
qed

lemma implements_health_product:
  assumes "bigz a 3 v" "big b 3 m"
  shows "implements (mul_bigint_with_biguint_non_carry a b (length (bi_abs a) + length b)) (\<lambda>r. bigz r 6 (v * int m))"
proof -
  have len: "length (bi_abs a) = 3" "length b = 3" "limbs_ok b" "bnat b = m" using assms by (simp_all add: bigz_def big_def)
  have "\<bar>v\<bar> < 2 ^ 96" using bigz_bound [OF assms(1)] by simp
  moreover have "m < 2 ^ 96" using bnat_bound [OF len(3)] unfolding len(2,4) by simp
  then have "int m < 2 ^ 96" by simp
  ultimately have "\<bar>v\<bar> * \<bar>int m\<bar> < 2 ^ 96 * 2 ^ 96" by (intro mult_strict_mono) simp_all
  then have "\<bar>v * int m\<bar> < 2 ^ (32 * 6)" unfolding abs_mult by simp
  then show ?thesis
    using realises_implements [OF realises_mul_bigint_with_biguint_non_carry [OF assms(1) len(3), of 6]] len by simp
qed

lemma implements_is_health_improved:
  assumes "risk_reads r R" "risk_reads r' R'"
  shows "implements (is_health_improved r r') (\<lambda>h. bval h (health_improved R R'))"
  unfolding is_health_improved_def health_improved_def
  by (rule implements_bind [OF implements_health_product [OF risk_readsD(2) [OF assms(1)] requirements_areD(2) [OF risk_readsD(3) [OF assms(2)]]]],
      rule implements_bind [OF implements_health_product [OF risk_readsD(2) [OF assms(2)] requirements_areD(2) [OF risk_readsD(3) [OF assms(1)]]]],
      rule implements_is_lte_bigint [where n = 6 and m = 6]) simp_all

lemma implements_is_valid_risk_change:
  assumes "risk_reads r R" "risk_reads r' R'"
  shows "implements (is_valid_risk_change r r') (\<lambda>h. bval h (valid_risk_change R R'))"
  unfolding is_valid_risk_change_def Let_def
proof (rule implements_bind [OF implements_is_healthy [OF assms(1)]], rule implements_bind [OF implements_is_health_improved [OF assms]],
    rule implements_bind [OF implements_is_healthy [OF assms(2)]], rule implements_return)
  fix b i a assume "bval b (healthy R)" "bval i (health_improved R R')" "bval a (healthy R')"
  then have "bval (b_and (b_or b i) (b_or (b_not b) a)) ((healthy R \<or> health_improved R R') \<and> (\<not> healthy R \<or> healthy R'))"
    by (intro bval_and bval_or bval_not)
  moreover have "(healthy R \<or> health_improved R R') \<and> (\<not> healthy R \<or> healthy R') \<longleftrightarrow> valid_risk_change R R'"
    by (auto simp: valid_risk_change_def)
  ultimately show "bval (b_and (b_or b i) (b_or (b_not b) a)) (valid_risk_change R R')" by simp
qed

lemma implements_is_in_liquidation:
  assumes "risk_reads r R"
  shows "implements (is_in_liquidation r) (\<lambda>h. bval h (threshold_of R < int (maintenance_of R)))"
proof -
  note q = risk_readsD [OF assms] and q' = requirements_areD [OF risk_readsD(3) [OF assms]]
  have eq: "threshold_of R < 0 \<or> nat \<bar>threshold_of R\<bar> < maintenance_of R \<longleftrightarrow> threshold_of R < int (maintenance_of R)" by auto
  show ?thesis
    unfolding is_in_liquidation_def eq [symmetric]
    by (rule implements_bind [OF implements_is_neg_sign(1) [OF bigzD(4) [OF q(2)]]],
        rule implements_bind [OF big_lt [OF bigz_big [OF q(2)] q'(2)]], rule implements_return, rule bval_or)
qed

lemma health_of_raw:
  assumes "value_of R \<le> threshold_of R" "0 \<le> value_of R \<or> \<bar>value_of R\<bar> < int (initial_of R)"
    "close_out_of R \<le> maintenance_of R" "maintenance_of R \<le> initial_of R"
  shows "health_of R = (if threshold_of R < 0 then BANKRUPTCY
    else of_bool (nat \<bar>value_of R\<bar> < initial_of R) + of_bool (nat \<bar>threshold_of R\<bar> < maintenance_of R) + of_bool (nat \<bar>threshold_of R\<bar> < close_out_of R))"
  using assms
  by (auto simp: health_of_def HEALTHY_def PRE_LIQUIDATION_def PARTIAL_LIQUIDATION_def FULL_LIQUIDATION_def nat_less_iff zabs_less_one_iff)

text \<open>The collateral that may leave.\<close>

definition available_of :: "risk_state \<Rightarrow> nat" where
  "available_of R = (if healthy R \<and> 0 \<le> funded_of R then min (nat (value_of R) - initial_of R) (nat (funded_of R)) else 0)"

lemma implements_get_available_usdc_collateral:
  assumes "risk_reads r R" "bigz (usdc_collateral_with_funding r) 3 (funded_of R)"
  shows "implements (get_available_usdc_collateral r) (\<lambda>a. big a 3 (available_of R))"
  unfolding get_available_usdc_collateral_def Let_def
proof (rule implements_bind [OF implements_is_healthy [OF assms(1)]], rule implements_bind [OF implements_try_sub_biguint])
  note q = bigz_big [OF risk_readsD(1) [OF assms(1)]] and q' = requirements_areD(1) [OF risk_readsD(3) [OF assms(1)]]
  show "limbs_ok (bi_abs (total_account_value r))" "limbs_ok (initial_margin_requirement r)" using q q' by (simp_all add: big_def)
  fix h x
  let ?v = "nat \<bar>value_of R\<bar>" and ?f = "funded_of R"
  assume h: "bval h (healthy R)" and "case x of (d, borrow) \<Rightarrow> bval borrow (bnat (bi_abs (total_account_value r)) < bnat (initial_margin_requirement r)) \<and>
      big d (max (length (bi_abs (total_account_value r))) (length (initial_margin_requirement r)))
        (bnat (bi_abs (total_account_value r)) + 2 ^ (32 * max (length (bi_abs (total_account_value r))) (length (initial_margin_requirement r))) *
          of_bool (bnat (bi_abs (total_account_value r)) < bnat (initial_margin_requirement r)) - bnat (initial_margin_requirement r))"
  then obtain d borrow where x: "x = (d, borrow)" and b: "bval borrow (?v < initial_of R)"
    and d: "big d 3 (?v + 2 ^ 96 * of_bool (?v < initial_of R) - initial_of R)" using q q' by (cases x) (simp add: big_def)
  have above: "\<not> ?v < initial_of R" if "healthy R" using that by (auto simp: healthy_def)
  have ok: "healthy R \<longrightarrow> uval borrow = 0" using b above by (auto simp: uval_bval)
  show "implements (case x of (available_margin_in_usdc, borrow) \<Rightarrow> circ_bind (conditional_assert_zero h borrow) (\<lambda>_.
      circ_bind (is_not_equal (bi_sign (usdc_collateral_with_funding r)) (Const (- 1))) (\<lambda>n.
      min_biguint (mul_biguint_by_bool (mul_biguint_by_bool available_margin_in_usdc h) n) (bi_abs (usdc_collateral_with_funding r)))))
    (\<lambda>a. big a 3 (available_of R))"
    unfolding x prod.case
  proof (rule implements_bind [OF realises_implements [OF realises_conditional_assert_zero [OF h] ok]],
      rule implements_bind [OF implements_is_neg_sign(2) [OF bigzD(4) [OF assms(2)]]])
    fix n assume n: "bval n (0 \<le> ?f)"
    have a: "big (mul_biguint_by_bool d h) 3 (if healthy R then ?v - initial_of R else 0)"
      using mul_biguint_by_bool_big [OF h bigD(1) [OF d]] unfolding bigD(2,3) [OF d] by (cases "healthy R") (simp_all add: above)
    have a': "big (mul_biguint_by_bool (mul_biguint_by_bool d h) n) 3 (if 0 \<le> ?f then if healthy R then ?v - initial_of R else 0 else 0)"
      using mul_biguint_by_bool_big [OF n bigD(1) [OF a]] unfolding bigD(2,3) [OF a] .
    note f = bigz_big [OF assms(2)]
    show "implements (min_biguint (mul_biguint_by_bool (mul_biguint_by_bool d h) n) (bi_abs (usdc_collateral_with_funding r))) (\<lambda>a. big a 3 (available_of R))"
    proof (rule implements_weaken [OF implements_min_biguint [OF bigD(1) [OF a'] bigD(1) [OF f]]], unfold bigD(2,3) [OF a'] bigD(2,3) [OF f])
      fix y assume "big y (max 3 3) (min (if 0 \<le> ?f then if healthy R then ?v - initial_of R else 0 else 0) (nat \<bar>?f\<bar>))"
      then show "big y 3 (available_of R)" by (auto simp: available_of_def healthy_def split: if_splits)
    qed
  qed
qed

section \<open>A sequence of changes\<close>

text \<open>The states of an account along accepted changes of risk, all with a property \<open>P\<close>.\<close>

inductive risk_run :: "(risk_state \<Rightarrow> bool) \<Rightarrow> risk_parameters \<Rightarrow> risk_state \<Rightarrow> risk_parameters \<Rightarrow> risk_state \<Rightarrow> bool"
  for P r R where
  start: "risk_reads r R \<Longrightarrow> P R \<Longrightarrow> risk_run P r R r R"
| change: "risk_run P r R r' R' \<Longrightarrow> risk_reads r'' R'' \<Longrightarrow> P R'' \<Longrightarrow> is_valid_risk_change r' r'' tape = Done t rest \<Longrightarrow>
    bval t True \<Longrightarrow> risk_run P r R r'' R''"

lemma accepted_risk_change:
  "risk_reads r R \<Longrightarrow> risk_reads r' R' \<Longrightarrow> is_valid_risk_change r r' tape = Done t rest \<Longrightarrow> bval t True \<Longrightarrow> valid_risk_change R R'"
  using soundD [OF implements_sound [OF implements_is_valid_risk_change]] bval_unique by blast

lemma risk_run_reads: "risk_run P r R r' R' \<Longrightarrow> risk_reads r' R' \<and> P R'"
  by (induction rule: risk_run.induct) simp_all

text \<open>The comparison of two ratios by products is transitive when the requirement between them is positive.\<close>

lemma health_improved_trans:
  assumes "health_improved R R'" "health_improved R' R''" "0 < maintenance_of R'"
  shows "health_improved R R''"
proof -
  let ?m = "int (maintenance_of R)" and ?m' = "int (maintenance_of R')" and ?m'' = "int (maintenance_of R'')"
  have "threshold_of R * ?m'' * ?m' = (threshold_of R * ?m') * ?m''" by simp
  also have "\<dots> \<le> (threshold_of R' * ?m) * ?m''"
    using assms(1) by (intro mult_right_mono) (simp_all add: health_improved_def)
  also have "\<dots> = (threshold_of R' * ?m'') * ?m" by simp
  also have "\<dots> \<le> (threshold_of R'' * ?m') * ?m"
    using assms(2) by (intro mult_right_mono) (simp_all add: health_improved_def)
  also have "\<dots> = threshold_of R'' * ?m * ?m'" by simp
  finally show ?thesis using assms(3) by (simp add: health_improved_def)
qed

lemma risk_run_invariant:
  assumes "risk_run P r R r' R'"
  shows "(healthy R \<longrightarrow> healthy R') \<and> ((\<forall>R. P R \<longrightarrow> 0 < maintenance_of R) \<longrightarrow> healthy R' \<or> health_improved R R')"
  using assms
proof (induction rule: risk_run.induct)
  case (change r' R' r'' R'' tape t rest)
  have "valid_risk_change R' R''" by (rule accepted_risk_change) (use change risk_run_reads in blast)+
  moreover have "P R'" using risk_run_reads change.hyps(1) by blast
  ultimately show ?case using change.IH health_improved_trans [of R R' R''] by (auto simp: valid_risk_change_def split: if_splits)
qed (simp add: health_improved_def)

section \<open>Contracts of the value of a position\<close>

definition market_price :: "market_risk_details \<Rightarrow> nat" where
  "market_price market = uval (quote_multiplier market) * uval (mark_price market)"

definition notional_of :: "market_risk_details \<Rightarrow> position_state \<Rightarrow> nat" where
  "notional_of market s = nat \<bar>size_of s\<bar> * market_price market"

definition unrealized_of :: "market_risk_details \<Rightarrow> position_state \<Rightarrow> int" where
  "unrealized_of market s =
    (if 0 < size_of s then int (notional_of market s) - entry_of s else entry_of s - int (notional_of market s))"

definition funding_owed :: "market_risk_details \<Rightarrow> int \<Rightarrow> position_state \<Rightarrow> int" where
  "funding_owed market F s = size_of s * int (uval (quote_multiplier market)) * (funding_of s - F)"

definition market_ok :: "market_risk_details \<Rightarrow> bool" where
  "market_ok market \<longleftrightarrow> uval (quote_multiplier market) < 2 ^ QUOTE_MULTIPLIER_BITS \<and> uval (mark_price market) < 2 ^ 32 \<and>
    uval (default_initial_margin_fraction market) < 2 ^ MARGIN_FRACTION_BITS \<and> uval (min_initial_margin_fraction market) < 2 ^ MARGIN_FRACTION_BITS \<and>
    uval (maintenance_margin_fraction market) < 2 ^ MARGIN_FRACTION_BITS \<and> uval (close_out_margin_fraction market) < 2 ^ MARGIN_FRACTION_BITS"

text \<open>The field has room for the notional of the position.\<close>

definition position_fits :: "market_risk_details \<Rightarrow> position_state \<Rightarrow> bool" where
  "position_fits market s \<longleftrightarrow> position_ok s \<and> notional_of market s < 2 ^ 59"

lemma position_fitsD:
  assumes "position_fits market s"
  shows "\<bar>size_of s\<bar> < 2 ^ 60" "notional_of market s < 2 ^ 59" "notional_of market s < p_nat" "0 \<le> entry_of s" "entry_of s < 2 ^ 56"
    "size_of s = 0 \<longrightarrow> entry_of s = 0" "fraction_of s < 2 ^ MARGIN_FRACTION_BITS"
  using assms by (auto simp: position_fits_def position_ok_def POSITION_SIZE_BITS_def ENTRY_QUOTE_BITS_def)

lemma representsD:
  assumes "represents pos s"
  shows "bigz16 (position pos) 4 (size_of s)" "int (uval (entry_quote pos)) = entry_of s"
    "bigz16 (last_funding_rate_prefix_sum pos) 4 (funding_of s)" "uval (initial_margin_fraction pos) = fraction_of s"
    "bigw (allocated_margin pos) 3 (margin_of s)" "bval (margin_mode pos) (isolated_of s)"
  using assms by (simp_all add: represents_def)

lemma uval_of_nat: "tval t = of_nat n \<Longrightarrow> n < p_nat \<Longrightarrow> uval t = n"
  using to_canonical_of_nat_small by (simp only:)

lemma uval_mul: "uval a * uval b < p_nat \<Longrightarrow> uval (b_mul a b) = uval a * uval b"
  by (rule uval_of_nat) (simp_all add: tval_simps)

lemma uval_select_or_zero: "bval c e \<Longrightarrow> uval (select_or_zero c x) = (if e then uval x else 0)"
  by (simp add: select_or_zero_def tval_simps bval_def)

lemma implements_position_base_notional:
  fixes strategy :: target and market :: market_risk_details
  assumes pos: "represents pos s" "position_fits market s" and act: "uval (risk_status market) = of_bool act"
  defines "m \<equiv> tval (strategy_index market) = tval strategy"
  shows "implements (position_base_notional pos market strategy) (\<lambda>(a, p, n).
    uval a = (if m \<and> act then notional_of market s else 0) \<and>
    uval p = (if m then if 0 < size_of s then notional_of market s else nat (entry_of s) else 0) \<and>
    uval n = (if m then if 0 < size_of s then nat (entry_of s) else notional_of market s else 0))"
  unfolding position_base_notional_def Let_def
proof (rule implements_bind [OF implements_is_equal], rule implements_bind [OF uval_biguint_u16_to_target [OF representsD(1) [OF pos(1)]
      position_fitsD(1) [OF pos(2)]]], rule implements_bind [OF implements_is_sign(2) [OF bigz16D(4) [OF representsD(1) [OF pos(1)]]]],
    rule implements_return, unfold prod.case)
  fix c t q
  assume c: "bval c (tval (strategy_index market) = tval strategy)" and t: "uval t = nat \<bar>size_of s\<bar>" and q: "bval q (0 < size_of s)"
  note c = c [folded m_def]
  let ?price = "b_mul (quote_multiplier market) (mark_price market)"
  let ?a = "b_mul (select_or_zero c t) ?price"
  have a: "uval ?a = (if m then notional_of market s else 0)"
  proof (rule uval_of_nat)
    have "tval ?a = of_nat (uval (select_or_zero c t) * (uval (quote_multiplier market) * uval (mark_price market)))" by (simp add: tval_simps)
    then show "tval ?a = of_nat (if m then notional_of market s else 0)"
      unfolding uval_select_or_zero [OF c] t by (simp add: notional_of_def market_price_def)
  qed (use position_fitsD(3) [OF pos(2)] in simp)
  have st: "uval (b_mul (risk_status market) ?a) = (if m \<and> act then notional_of market s else 0)"
    using uval_mul [of "risk_status market" ?a] position_fitsD(3) [OF pos(2)] unfolding a act by (cases act) (simp_all split: if_splits)
  have e: "uval (entry_quote pos) = nat (entry_of s)" using representsD(2) [OF pos(1)] by simp
  show "uval (b_mul (risk_status market) ?a) = (if m \<and> act then notional_of market s else 0) \<and>
    uval (select q ?a (select_or_zero c (entry_quote pos))) = (if m then if 0 < size_of s then notional_of market s else nat (entry_of s) else 0) \<and>
    uval (select q (select_or_zero c (entry_quote pos)) ?a) = (if m then if 0 < size_of s then nat (entry_of s) else notional_of market s else 0)"
    unfolding uval_select [OF q] uval_select_or_zero [OF c] st a e by auto
qed

lemma implements_tpv_sum_to_bigint: "implements (tpv_sum_to_bigint t) (\<lambda>r. bigz r 2 (int (uval t)))"
  unfolding tpv_sum_to_bigint_def Let_def
proof (rule implements_bind [OF implements_is_zero], rule implements_bind [OF implements_target_to_biguint], rule implements_return)
  fix z a assume "bval z (uval t = 0)" "big a 2 (uval t)"
  then show "bigz \<lparr>bi_abs = a, bi_sign = select z (Const 0) (Const 1)\<rparr> 2 (int (uval t))"
    using tval_select [of z "uval t = 0" "Const 0" "Const 1"] by (auto simp: bigz_def sval_def sgn_if)
qed

lemma signed_product: "0 \<le> q \<Longrightarrow> sgn (a * b) * \<bar>a * q * b\<bar> = a * q * b" for a b q :: int
proof -
  assume "0 \<le> q"
  then have "sgn (a * b) * \<bar>a * q * b\<bar> = (sgn a * \<bar>a\<bar>) * q * (sgn b * \<bar>b\<bar>)"
    by (simp only: abs_mult sgn_mult abs_of_nonneg mult_ac)
  then show ?thesis by (simp only: sgn_mult_abs)
qed

lemma realises_position_unrealized_funding:
  fixes market :: market_risk_details
  assumes pos: "represents pos s" and F: "bigz16 (funding_rate_prefix_sum market) 4 F" and qm: "uval (quote_multiplier market) < 2 ^ 32"
  shows "realises (position_unrealized_funding pos market) (\<bar>funding_owed market F s\<bar> < 2 ^ 96) (\<lambda>r. bigw r 3 (funding_owed market F s))"
proof -
  let ?q = "uval (quote_multiplier market)" and ?v = "size_of s" and ?d = "funding_of s - F"
  have p: "bigz (bigint_u16_to_bigint (position pos)) 2 ?v"
    and l: "bigz (bigint_u16_to_bigint (last_funding_rate_prefix_sum pos)) 2 (funding_of s)"
    and f: "bigz (bigint_u16_to_bigint (funding_rate_prefix_sum market)) 2 F"
    using bigz_bigint_u16_to_bigint [OF representsD(1) [OF pos]] bigz_bigint_u16_to_bigint [OF representsD(3) [OF pos]]
      bigz_bigint_u16_to_bigint [OF F] by simp_all
  have q: "limbs_ok [quote_multiplier market]" "length [quote_multiplier market] = 1" using qm by (simp_all add: is_u32_def)
  have "nat \<bar>?v\<bar> < 2 ^ 64" using bigz_bound [OF p] by (simp add: nat_less_iff)
  then have "nat \<bar>?v\<bar> * ?q < 2 ^ 64 * 2 ^ 32" using qm by (intro mult_strict_mono) simp_all
  then have first: "implements (mul_biguint_non_carry (bi_abs (bigint_u16_to_bigint (position pos))) [quote_multiplier market] BIG_U96_LIMBS)
      (\<lambda>r. big r 3 (nat \<bar>?v\<bar> * ?q))"
    using realises_implements [OF realises_mul_biguint_non_carry [OF bigzD(1) [OF p] q(1), of 3]]
    unfolding bigzD(2,3) [OF p] q(2) by (simp add: limb_counts)
  have k: "nat \<bar>?v\<bar> * ?q * nat \<bar>?d\<bar> = nat \<bar>funding_owed market F s\<bar>"
    by (simp add: funding_owed_def abs_mult nat_mult_distrib)
  show ?thesis
    unfolding position_unrealized_funding_def Let_def
  proof (rule realises_after [OF first], rule realises_after [OF implements_sub_bigint [OF l f]])
    fix a d assume a: "big a 3 (nat \<bar>?v\<bar> * ?q)" and d: "bigz d (Suc (max 2 2)) ?d"
    have "realises (mul_biguint_non_carry a (bi_abs d) BIG_U96_LIMBS) (\<bar>funding_owed market F s\<bar> < 2 ^ 96) (\<lambda>r. big r 3 (nat \<bar>funding_owed market F s\<bar>))"
      using realises_mul_biguint_non_carry [OF bigD(1) [OF a] bigzD(1) [OF d], of 3]
      unfolding bigD(2,3) [OF a] bigzD(2,3) [OF d] k by (simp add: limb_counts nat_less_iff)
    then show "realises (circ_bind (mul_biguint_non_carry a (bi_abs d) BIG_U96_LIMBS) (\<lambda>abs.
        circ_return \<lparr>bi_abs = abs, bi_sign = b_mul (bi_sign (bigint_u16_to_bigint (position pos))) (bi_sign d)\<rparr>))
      (\<bar>funding_owed market F s\<bar> < 2 ^ 96) (\<lambda>r. bigw r 3 (funding_owed market F s))"
    proof (rule realises_then_return)
      fix x assume "big x 3 (nat \<bar>funding_owed market F s\<bar>)"
      from bigw_parts [OF this sval_mult [OF bigzD(4) [OF p] bigzD(4) [OF d]]]
      have "bigw \<lparr>bi_abs = x, bi_sign = b_mul (bi_sign (bigint_u16_to_bigint (position pos))) (bi_sign d)\<rparr> 3
          (sgn (?v * ?d) * \<bar>funding_owed market F s\<bar>)" by (auto simp: funding_owed_def)
      moreover have "sgn (?v * ?d) * \<bar>funding_owed market F s\<bar> = funding_owed market F s"
        unfolding funding_owed_def by (rule signed_product) simp
      ultimately show "bigw \<lparr>bi_abs = x, bi_sign = b_mul (bi_sign (bigint_u16_to_bigint (position pos))) (bi_sign d)\<rparr> 3 (funding_owed market F s)" by simp
    qed
  qed
qed

section \<open>Contract of the parameters of an isolated position\<close>

lemma margin_fraction_multiplier: "MARGIN_FRACTION_MULTIPLIER = 100"
  by (simp add: MARGIN_FRACTION_MULTIPLIER_def USDC_TO_COLLATERAL_MULTIPLIER_def MARGIN_TICK_def)

lemma constant_biguint_single:
  assumes "0 < c" "c < 2 ^ 32"
  shows "length (constant_biguint c) = 1" "big (constant_biguint c) 1 c"
proof -
  have "to_u32_digits c = [c]" using assms by (simp add: to_u32_digits.simps [of c] to_u32_digits.simps [of 0])
  then show "length (constant_biguint c) = 1" by (simp add: constant_biguint_def)
  then show "big (constant_biguint c) 1 c" by (simp add: big_def)
qed

text \<open>Multiplication of integers of at most three limbs, with the result in three.\<close>

lemma big_mul3:
  assumes "big a n x" "big b k y" "n \<le> 3" "k \<le> 3" "3 \<le> n + k"
  shows "realises (mul_biguint_non_carry a b BIG_U96_LIMBS) (x * y < 2 ^ 96) (\<lambda>r. big r 3 (x * y))"
  using realises_mul_biguint_non_carry [OF bigD(1) [OF assms(1)] bigD(1) [OF assms(2)], of 3] assms(3-5)
  unfolding bigD(2,3) [OF assms(1)] bigD(2,3) [OF assms(2)] by (simp add: limb_counts)

lemma big_mul3':
  "big a n x \<Longrightarrow> big b k y \<Longrightarrow> n \<le> 3 \<Longrightarrow> k \<le> 3 \<Longrightarrow> 3 \<le> n + k \<Longrightarrow> x * y < 2 ^ 96 \<Longrightarrow>
    implements (mul_biguint_non_carry a b BIG_U96_LIMBS) (\<lambda>r. big r 3 (x * y))"
  using realises_implements [OF big_mul3] by blast

lemma big_single: "uval t < 2 ^ 32 \<Longrightarrow> big [t] 1 (uval t)"
  by (simp add: big_def is_u32_def)

definition share :: "nat \<Rightarrow> nat \<Rightarrow> nat" where
  "share notional fraction = notional * fraction * MARGIN_FRACTION_MULTIPLIER"

lemma share_bound: "n < 2 ^ 59 \<Longrightarrow> f < 2 ^ 16 \<Longrightarrow> n * f < 2 ^ 75" "n < 2 ^ 59 \<Longrightarrow> f < 2 ^ 16 \<Longrightarrow> share n f < 2 ^ 96"
proof -
  assume n: "n < 2 ^ 59" and f: "f < 2 ^ 16"
  have "n * f < 2 ^ 59 * 2 ^ 16" using n f by (rule mult_strict_mono) simp_all
  then show a: "n * f < 2 ^ 75" by simp
  have "n * f * 100 < 2 ^ 75 * 100" using a by (rule mult_strict_right_mono) simp
  then show "share n f < 2 ^ 96" by (simp add: share_def margin_fraction_multiplier)
qed

lemma implements_times_fraction:
  assumes "big n 2 x" "x < 2 ^ 59" "uval f < 2 ^ 16"
  shows "implements (times_fraction n f) (\<lambda>r. big r 3 (share x (uval f)))"
  unfolding times_fraction_def
proof (rule implements_bind)
  have f: "big [f] 1 (uval f)" using assms(3) by (intro big_single) simp
  show "implements (mul_biguint_non_carry n [f] BIG_U96_LIMBS) (\<lambda>r. big r 3 (x * uval f))"
    by (rule big_mul3' [OF assms(1) f]) (use share_bound(1) [OF assms(2,3)] in simp_all)
  fix r assume r: "big r 3 (x * uval f)"
  show "implements (mul_biguint_non_carry r (constant_biguint MARGIN_FRACTION_MULTIPLIER) BIG_U96_LIMBS) (\<lambda>r. big r 3 (share x (uval f)))"
    unfolding share_def
    by (rule big_mul3' [OF r constant_biguint_single(2)])
      (use share_bound(2) [OF assms(2,3)] in \<open>simp_all add: share_def margin_fraction_multiplier\<close>)
qed

text \<open>The initial margin fraction in force for a position in a market.\<close>

definition fraction_for :: "market_risk_details \<Rightarrow> position_state \<Rightarrow> nat" where
  "fraction_for market s = fraction_in_force (fraction_of s) (uval (default_initial_margin_fraction market)) (uval (min_initial_margin_fraction market))"

lemma market_okD:
  assumes "market_ok market"
  shows "uval (quote_multiplier market) < 2 ^ 14" "uval (mark_price market) < 2 ^ 32"
    "uval (default_initial_margin_fraction market) < 2 ^ 16" "uval (min_initial_margin_fraction market) < 2 ^ 16"
    "uval (maintenance_margin_fraction market) < 2 ^ 16" "uval (close_out_margin_fraction market) < 2 ^ 16"
  using assms by (simp_all add: market_ok_def MARGIN_FRACTION_BITS_def QUOTE_MULTIPLIER_BITS_def)

lemma implements_fraction_for:
  assumes "represents pos s" "fraction_of s < 2 ^ MARGIN_FRACTION_BITS" "market_ok market"
  shows "implements (get_initial_margin_fraction pos (default_initial_margin_fraction market) (min_initial_margin_fraction market))
    (\<lambda>f. uval f = fraction_for market s)" "fraction_for market s < 2 ^ 16"
proof -
  have f: "uval (initial_margin_fraction pos) = fraction_of s" "fraction_of s < 2 ^ 16"
    using representsD(4) [OF assms(1)] assms(2) by (simp_all add: MARGIN_FRACTION_BITS_def)
  show "implements (get_initial_margin_fraction pos (default_initial_margin_fraction market) (min_initial_margin_fraction market))
      (\<lambda>f. uval f = fraction_for market s)"
    using implements_get_initial_margin_fraction [of pos, OF _ market_okD(3,4) [OF assms(3)]] f(2)
    unfolding margin_fraction_in_force_def fraction_for_def fraction_in_force_def f(1) by simp
  show "fraction_for market s < 2 ^ 16"
    using f(2) market_okD(3,4) [OF assms(3)] by (simp add: fraction_for_def fraction_in_force_def)
qed

lemma implements_position_margin_requirements:
  assumes pos: "represents pos s" "position_fits market' s" and market: "market_ok market" and n: "big n 2 x" "x < 2 ^ 59"
  shows "implements (position_margin_requirements pos n market light) (\<lambda>(i, m, c).
    big i 3 (share x (if light then uval (maintenance_margin_fraction market) else fraction_for market s)) \<and>
    big m 3 (share x (uval (maintenance_margin_fraction market))) \<and>
    big c 3 (share x (if light then uval (maintenance_margin_fraction market) else uval (close_out_margin_fraction market))))"
proof (cases light)
  case True
  then show ?thesis
    unfolding position_margin_requirements_def
    by (intro implements_bind [OF implements_times_fraction [OF n market_okD(5) [OF market]]]) (simp add: implements_return)
next
  case False
  note F = implements_fraction_for [OF pos(1) position_fitsD(7) [OF pos(2)] market]
  show ?thesis
    unfolding position_margin_requirements_def if_not_P [OF False]
  proof (rule implements_bind [OF implements_times_fraction [OF n market_okD(5) [OF market]]], rule implements_bind [OF F(1)])
    fix m f assume m: "big m 3 (share x (uval (maintenance_margin_fraction market)))" and f: "uval f = fraction_for market s"
    have "uval f < 2 ^ 16" using F(2) f by simp
    note i = implements_times_fraction [OF n this, unfolded f]
    show "implements (circ_bind (times_fraction n f) (\<lambda>i. circ_bind (times_fraction n (close_out_margin_fraction market)) (\<lambda>c. circ_return (i, m, c))))
      (\<lambda>(i, m, c). big i 3 (share x (fraction_for market s)) \<and> big m 3 (share x (uval (maintenance_margin_fraction market))) \<and>
        big c 3 (share x (uval (close_out_margin_fraction market))))"
      by (rule implements_bind [OF i], rule implements_bind [OF implements_times_fraction [OF n market_okD(6) [OF market]]], rule implements_return)
        (simp add: m)
  qed
qed

definition isolated_risk :: "market_risk_details \<Rightarrow> bool \<Rightarrow> int \<Rightarrow> position_state \<Rightarrow> risk_state" where
  "isolated_risk market active F s =
    (let funded = margin_of s + funding_owed market F s;
         account_value = funded + unrealized_of market s * int USDC_TO_COLLATERAL_MULTIPLIER;
         notional = (if active then notional_of market s else 0) in
     \<lparr>collateral_of = margin_of s, funded_of = funded, portfolio_of = account_value, total_portfolio_of = account_value,
      value_of = account_value, threshold_of = account_value,
      initial_of = share notional (fraction_for market s), maintenance_of = share notional (uval (maintenance_margin_fraction market)),
      close_out_of = share notional (uval (close_out_margin_fraction market))\<rparr>)"

definition isolated_fits :: "market_risk_details \<Rightarrow> int \<Rightarrow> position_state \<Rightarrow> bool" where
  "isolated_fits market F s \<longleftrightarrow> \<bar>funding_owed market F s\<bar> < 2 ^ 96 \<and> \<bar>margin_of s + funding_owed market F s\<bar> < 2 ^ 96 \<and>
    \<bar>margin_of s + funding_owed market F s + unrealized_of market s * int USDC_TO_COLLATERAL_MULTIPLIER\<bar> < 2 ^ 96"

lemma unrealized_bound: "position_fits market s \<Longrightarrow> \<bar>unrealized_of market s\<bar> < 2 ^ 59"
  using position_fitsD [of market s] by (auto simp: unrealized_of_def abs_if)

lemma usdc_multiplier: "USDC_TO_COLLATERAL_MULTIPLIER = 1000000"
  by (simp add: USDC_TO_COLLATERAL_MULTIPLIER_def)

lemma big_usdc_multiplier: "big [constant_u64 USDC_TO_COLLATERAL_MULTIPLIER] 1 USDC_TO_COLLATERAL_MULTIPLIER"
proof -
  have "uval (constant_u64 USDC_TO_COLLATERAL_MULTIPLIER) = USDC_TO_COLLATERAL_MULTIPLIER"
    unfolding constant_u64_def usdc_multiplier by (rule uval_big) simp
  then show ?thesis using big_single [of "constant_u64 USDC_TO_COLLATERAL_MULTIPLIER"] by (simp add: usdc_multiplier)
qed

lemma implements_to_collateral:
  assumes v: "bigz a n v" "n \<le> 3" "2 \<le> n" "\<bar>v\<bar> < 2 ^ 65" and m: "big m 1 USDC_TO_COLLATERAL_MULTIPLIER"
  shows "implements (mul_bigint_with_biguint_non_carry a m BIG_U96_LIMBS) (\<lambda>r. bigz r 3 (v * int USDC_TO_COLLATERAL_MULTIPLIER))"
proof -
  have "\<bar>v * int USDC_TO_COLLATERAL_MULTIPLIER\<bar> < 2 ^ 96" using v(4) by (simp add: abs_mult usdc_multiplier)
  then show ?thesis
    using realises_implements [OF realises_mul_bigint_with_biguint_non_carry [OF v(1) bigD(1) [OF m], of 3]] v(2,3) bigD(2,3) [OF m]
    by (simp add: limb_counts min_absorb1)
qed

lemma add_values:
  assumes "bigw a 3 v" "bigw b n w" "n \<le> 3"
  shows "realises (add_bigint_non_carry a b BIG_U96_LIMBS) (\<bar>v + w\<bar> < 2 ^ 96) (\<lambda>r. bigw r 3 (v + w))"
  using realises_add_bigint_weak [OF assms(1,2), of 3] assms(3) by (simp add: limb_counts)

lemma realises_new_isolated:
  fixes strategy :: target and market :: market_risk_details
  assumes pos: "represents pos s" "position_fits market s" and market: "market_ok market" and F: "bigz16 (funding_rate_prefix_sum market) 4 F"
    and act: "uval (risk_status market) = of_bool act" and strategy: "tval (strategy_index market) = tval strategy"
  shows "realises (new_isolated strategy pos market False) (isolated_fits market F s) (\<lambda>r. risk_represents r (isolated_risk market act F s))"
  unfolding new_isolated_def Let_def
proof (rule realises_after [OF implements_position_base_notional [OF pos act, where strategy = strategy]], unfold split_paired_all prod.case, elim conjE,
    rule realises_after [OF implements_tpv_sum_to_bigint], rule realises_after [OF implements_tpv_sum_to_bigint],
    rule realises_after [OF implements_target_to_biguint])
  let ?n = "notional_of market s" and ?u = "unrealized_of market s" and ?f = "funding_owed market F s"
  let ?active = "if act then ?n else 0"
  note fits = position_fitsD [OF pos(2)]
  fix a p n P N A
  assume a: "uval a = (if tval (strategy_index market) = tval strategy \<and> act then ?n else 0)"
    and p: "uval p = (if tval (strategy_index market) = tval strategy then if 0 < size_of s then ?n else nat (entry_of s) else 0)"
    and n: "uval n = (if tval (strategy_index market) = tval strategy then if 0 < size_of s then nat (entry_of s) else ?n else 0)"
    and P: "bigz P 2 (int (uval p))" and N: "bigz N 2 (int (uval n))" and A: "big A 2 (uval a)"
  have u: "int (uval p) - int (uval n) = ?u" using p n strategy fits(4) by (auto simp: unrealized_of_def)
  have A: "big A 2 ?active" using A a strategy by simp
  have val: "?active < 2 ^ 59" using fits(2) by simp
  have "\<bar>?u\<bar> < 2 ^ 96" using unrealized_bound [OF pos(2)] by simp
  then have sub: "implements (sub_bigint_non_carry P N BIG_U96_LIMBS) (\<lambda>r. bigz r 3 ?u)"
    using realises_implements [OF realises_sub_bigint_non_carry [OF P N, of 3]] unfolding u by (simp add: limb_counts)
  note req = implements_position_margin_requirements [OF pos market A val, where light = False]
  show "realises (circ_bind (sub_bigint_non_carry P N BIG_U96_LIMBS) (\<lambda>base.
      circ_bind (mul_bigint_with_biguint_non_carry base [constant_u64 USDC_TO_COLLATERAL_MULTIPLIER] BIG_U96_LIMBS) (\<lambda>v.
      circ_bind (position_unrealized_funding pos market) (\<lambda>f.
      circ_bind (add_bigint_non_carry (allocated_margin pos) f BIG_U96_LIMBS) (\<lambda>cf.
      circ_bind (add_bigint_non_carry cf v BIG_U96_LIMBS) (\<lambda>tav.
      circ_bind (position_margin_requirements pos A market False) (\<lambda>(initial, maintenance, close_out).
      circ_return \<lparr>usdc_collateral = allocated_margin pos, usdc_collateral_with_funding = cf, usdc_portfolio_value = tav, total_portfolio_value = tav,
        total_account_value = tav, total_account_liquidation_threshold = tav, initial_margin_requirement = initial,
        maintenance_margin_requirement = maintenance, close_out_margin_requirement = close_out\<rparr>))))))) (isolated_fits market F s)
    (\<lambda>r. risk_represents r (isolated_risk market act F s))"
    unfolding isolated_fits_def
  proof (rule realises_after [OF sub], rule realises_after [OF implements_to_collateral [OF _ _ _ _ big_usdc_multiplier]], assumption, simp, simp)
    show "\<bar>?u\<bar> < 2 ^ 65" using unrealized_bound [OF pos(2)] by simp
    have qm: "uval (quote_multiplier market) < 2 ^ 32" using market_okD(1) [OF market] by simp
    fix v assume v: "bigz v 3 (?u * int USDC_TO_COLLATERAL_MULTIPLIER)"
    show "realises (circ_bind (position_unrealized_funding pos market) (\<lambda>f.
        circ_bind (add_bigint_non_carry (allocated_margin pos) f BIG_U96_LIMBS) (\<lambda>cf.
        circ_bind (add_bigint_non_carry cf v BIG_U96_LIMBS) (\<lambda>tav.
        circ_bind (position_margin_requirements pos A market False) (\<lambda>(initial, maintenance, close_out).
        circ_return \<lparr>usdc_collateral = allocated_margin pos, usdc_collateral_with_funding = cf, usdc_portfolio_value = tav, total_portfolio_value = tav,
          total_account_value = tav, total_account_liquidation_threshold = tav, initial_margin_requirement = initial,
          maintenance_margin_requirement = maintenance, close_out_margin_requirement = close_out\<rparr>)))))
      (\<bar>?f\<bar> < 2 ^ 96 \<and> \<bar>margin_of s + ?f\<bar> < 2 ^ 96 \<and> \<bar>margin_of s + ?f + ?u * int USDC_TO_COLLATERAL_MULTIPLIER\<bar> < 2 ^ 96)
      (\<lambda>r. risk_represents r (isolated_risk market act F s))"
    proof (rule realises_bind [OF realises_position_unrealized_funding [OF pos(1) F qm]],
        rule realises_bind [OF add_values [OF representsD(5) [OF pos(1)]]], assumption, simp,
        rule realises_bind [where P' = True, simplified, OF add_values], assumption, rule bigz_bigw [OF v], simp,
        rule realises_after [OF req], unfold split_paired_all prod.case if_False, elim conjE, rule realises_return)
      fix f cf tav i m c
      assume "bigw cf 3 (margin_of s + ?f)" "bigw tav 3 (margin_of s + ?f + ?u * int USDC_TO_COLLATERAL_MULTIPLIER)"
        "big i 3 (share ?active (fraction_for market s))" "big m 3 (share ?active (uval (maintenance_margin_fraction market)))"
        "big c 3 (share ?active (uval (close_out_margin_fraction market)))"
      then show "risk_represents \<lparr>usdc_collateral = allocated_margin pos, usdc_collateral_with_funding = cf, usdc_portfolio_value = tav,
          total_portfolio_value = tav, total_account_value = tav, total_account_liquidation_threshold = tav, initial_margin_requirement = i,
          maintenance_margin_requirement = m, close_out_margin_requirement = c\<rparr> (isolated_risk market act F s)"
        using representsD(5) [OF pos(1)] by (simp add: risk_represents_def requirements_are_def isolated_risk_def Let_def)
    qed
  qed
qed

section \<open>Contract of the update by a trade\<close>

definition shift_collateral :: "int \<Rightarrow> risk_state \<Rightarrow> risk_state" where
  "shift_collateral d R = R\<lparr>collateral_of := collateral_of R + d, funded_of := funded_of R + d\<rparr>"

definition collateral_fits :: "int \<Rightarrow> risk_state \<Rightarrow> bool" where
  "collateral_fits d R \<longleftrightarrow> \<bar>collateral_of R + d\<bar> < 2 ^ 96 \<and> \<bar>funded_of R + d\<bar> < 2 ^ 96"

definition shift_values :: "int \<Rightarrow> risk_state \<Rightarrow> risk_state" where
  "shift_values d R = R\<lparr>portfolio_of := portfolio_of R + d, total_portfolio_of := total_portfolio_of R + d,
    value_of := value_of R + d, threshold_of := threshold_of R + d\<rparr>"

definition values_fit :: "int \<Rightarrow> risk_state \<Rightarrow> bool" where
  "values_fit d R \<longleftrightarrow> \<bar>portfolio_of R + d\<bar> < 2 ^ 96 \<and> \<bar>total_portfolio_of R + d\<bar> < 2 ^ 96 \<and>
    \<bar>value_of R + d\<bar> < 2 ^ 96 \<and> \<bar>threshold_of R + d\<bar> < 2 ^ 96"

lemma risk_representsD:
  "risk_represents r R \<Longrightarrow> bigw (usdc_collateral r) 3 (collateral_of R)"
  "risk_represents r R \<Longrightarrow> bigw (usdc_collateral_with_funding r) 3 (funded_of R)"
  "risk_represents r R \<Longrightarrow> bigw (usdc_portfolio_value r) 3 (portfolio_of R)"
  "risk_represents r R \<Longrightarrow> bigw (total_portfolio_value r) 3 (total_portfolio_of R)"
  "risk_represents r R \<Longrightarrow> bigw (total_account_value r) 3 (value_of R)"
  "risk_represents r R \<Longrightarrow> bigw (total_account_liquidation_threshold r) 3 (threshold_of R)"
  "risk_represents r R \<Longrightarrow> requirements_are r R"
  by (simp_all add: risk_represents_def)

lemma realises_add_to_collateral:
  assumes "risk_represents r R" "bigw delta n d" "n \<le> 3"
  shows "realises (add_to_collateral delta r) (collateral_fits d R) (\<lambda>r'. risk_represents r' (shift_collateral d R))"
  unfolding add_to_collateral_def collateral_fits_def
  by (rule realises_bind [OF add_values [OF risk_representsD(1) [OF assms(1)] assms(2,3)]],
      rule realises_then_return [OF add_values [OF risk_representsD(2) [OF assms(1)] assms(2,3)]])
    (use assms(1) in \<open>simp add: risk_represents_def shift_collateral_def requirements_are_def\<close>)

lemma realises_add_to_values:
  assumes "risk_represents r R" "bigw delta n d" "n \<le> 3"
  shows "realises (add_to_values delta r) (values_fit d R) (\<lambda>r'. risk_represents r' (shift_values d R))"
  unfolding add_to_values_def values_fit_def
  by (rule realises_bind [OF add_values [OF risk_representsD(3) [OF assms(1)] assms(2,3)]],
      rule realises_bind [OF add_values [OF risk_representsD(4) [OF assms(1)] assms(2,3)]],
      rule realises_bind [OF add_values [OF risk_representsD(5) [OF assms(1)] assms(2,3)]],
      rule realises_then_return [OF add_values [OF risk_representsD(6) [OF assms(1)] assms(2,3)]])
    (use assms(1) in \<open>simp add: risk_represents_def shift_values_def requirements_are_def\<close>)

definition requirement_fits :: "nat \<Rightarrow> nat \<Rightarrow> nat \<Rightarrow> bool" where
  "requirement_fits x new old \<longleftrightarrow> x + new < 2 ^ 96 \<and> old \<le> x + new"

lemma realises_replace_requirement:
  assumes b: "bval is_enabled b" and x: "big x 3 n" and new: "big na k1 u1" "big nb k2 v1" and old: "big oa l1 u0" "big ob l2 v0"
    and len: "k1 \<le> 3" "k2 \<le> 3" "3 \<le> k1 + k2" "l1 \<le> 3" "l2 \<le> 3" "3 \<le> l1 + l2"
    and small: "u1 * v1 < 2 ^ 96" "u0 * v0 < 2 ^ 96" and off: "b \<or> u0 * v0 = 0"
  shows "realises (replace_requirement is_enabled x na nb oa ob) (requirement_fits n (u1 * v1) (u0 * v0)) (\<lambda>r. big r 3 (n + u1 * v1 - u0 * v0))"
  unfolding replace_requirement_def requirement_fits_def
proof (rule realises_after [OF big_mul3' [OF new len(1-3) small(1)]], rule realises_after [OF big_mul3' [OF old len(4-6) small(2)]])
  fix add sub assume add: "big add 3 (u1 * v1)" and sub: "big sub 3 (u0 * v0)"
  have sum: "realises (add_biguint_non_carry x add BIG_U96_LIMBS) (n + u1 * v1 < 2 ^ 96) (\<lambda>r. big r 3 (n + u1 * v1))"
    using realises_add_biguint_non_carry [OF bigD(1) [OF x] bigD(1) [OF add], of 3] unfolding bigD(2,3) [OF x] bigD(2,3) [OF add]
    by (simp add: limb_counts)
  show "realises (circ_bind (add_biguint_non_carry x add BIG_U96_LIMBS) (\<lambda>requirement.
      circ_bind (try_sub_biguint requirement sub) (\<lambda>(requirement, sub_success).
      circ_bind (conditional_assert_zero is_enabled sub_success) (\<lambda>_. circ_return requirement))))
    (n + u1 * v1 < 2 ^ 96 \<and> u0 * v0 \<le> n + u1 * v1) (\<lambda>r. big r 3 (n + u1 * v1 - u0 * v0))"
  proof (rule realises_bind [OF sum], rule realises_after [OF implements_try_sub_biguint [OF bigD(1) bigD(1) [OF sub]]], assumption,
      unfold split_paired_all prod.case, elim conjE)
    fix s d w
    assume s: "big s 3 (n + u1 * v1)" and w: "bval w (bnat s < bnat sub)"
      and d: "big d (max (length s) (length sub)) (bnat s + 2 ^ (32 * max (length s) (length sub)) * of_bool (bnat s < bnat sub) - bnat sub)"
    note d = d [unfolded bigD(2,3) [OF s] bigD(2,3) [OF sub]] and w = w [unfolded bigD(2,3) [OF s] bigD(2,3) [OF sub]]
    have fits: "(b \<longrightarrow> uval w = 0) \<longleftrightarrow> u0 * v0 \<le> n + u1 * v1" using w off by (auto simp: uval_bval)
    show "realises (circ_bind (conditional_assert_zero is_enabled w) (\<lambda>_. circ_return d)) (u0 * v0 \<le> n + u1 * v1)
        (\<lambda>r. big r 3 (n + u1 * v1 - u0 * v0))"
    proof (rule realises_then_return [OF realises_conditional_assert_zero [OF b, of w], unfolded fits])
      assume "u0 * v0 \<le> n + u1 * v1"
      then show "big d 3 (n + u1 * v1 - u0 * v0)" using d by (simp add: not_less [symmetric])
    qed
  qed
qed

definition shift_requirements :: "market_risk_details \<Rightarrow> position_state \<Rightarrow> position_state \<Rightarrow> risk_state \<Rightarrow> risk_state" where
  "shift_requirements market s s' R =
    (let n = notional_of market s; n' = notional_of market s';
         m = uval (maintenance_margin_fraction market); c = uval (close_out_margin_fraction market) in
     R\<lparr>initial_of := initial_of R + share n' (fraction_for market s') - share n (fraction_for market s),
       maintenance_of := maintenance_of R + share n' m - share n m, close_out_of := close_out_of R + share n' c - share n c\<rparr>)"

definition requirements_fit :: "market_risk_details \<Rightarrow> position_state \<Rightarrow> position_state \<Rightarrow> risk_state \<Rightarrow> bool" where
  "requirements_fit market s s' R \<longleftrightarrow>
    (let n = notional_of market s; n' = notional_of market s';
         m = uval (maintenance_margin_fraction market); c = uval (close_out_margin_fraction market) in
     requirement_fits (initial_of R) (share n' (fraction_for market s')) (share n (fraction_for market s)) \<and>
     requirement_fits (maintenance_of R) (share n' m) (share n m) \<and> requirement_fits (close_out_of R) (share n' c) (share n c))"

lemma uval_mul_many3: "uval a * uval b * uval c < p_nat \<Longrightarrow> uval (mul_many [a, b, c]) = uval a * uval b * uval c"
  by (rule uval_of_nat) (simp_all add: mul_many_def tval_simps)

lemma realises_replace_requirements:
  fixes old_abs new_abs :: target and market :: market_risk_details
  assumes b: "bval is_enabled b" and r: "risk_represents r R" and market: "market_ok market"
    and old: "represents old s" "position_fits market s" "uval old_abs = nat \<bar>size_of s\<bar>"
    and new: "represents new s'" "position_fits market s'" "uval new_abs = nat \<bar>size_of s'\<bar>"
    and off: "b \<or> notional_of market s = 0"
  shows "realises (replace_requirements is_enabled market old old_abs new new_abs r) (requirements_fit market s s' R)
    (\<lambda>r'. risk_represents r' (shift_requirements market s s' R))"
proof -
  let ?mult = "mul_many [mark_price market, quote_multiplier market, constant_u64 MARGIN_FRACTION_MULTIPLIER]"
  let ?M = "market_price market * 100"
  let ?n = "notional_of market s" and ?n' = "notional_of market s'"
  let ?f = "fraction_for market s" and ?f' = "fraction_for market s'"
  let ?m = "uval (maintenance_margin_fraction market)" and ?c = "uval (close_out_margin_fraction market)"
  have hundred: "uval (constant_u64 MARGIN_FRACTION_MULTIPLIER) = 100" unfolding constant_u64_def margin_fraction_multiplier by (rule uval_big) simp
  have M: "uval ?mult = ?M"
  proof -
    have "uval (mark_price market) * uval (quote_multiplier market) < 2 ^ 32 * 2 ^ 14"
      using market_okD(1,2) [OF market] by (intro mult_strict_mono) simp_all
    then have "uval (mark_price market) * uval (quote_multiplier market) * 100 < p_nat" by simp
    then show ?thesis using uval_mul_many3 [of "mark_price market" "quote_multiplier market" "constant_u64 MARGIN_FRACTION_MULTIPLIER"]
      unfolding hundred by (simp add: market_price_def mult_ac)
  qed
  have eq: "nat \<bar>size_of s\<bar> * ?M = ?n * 100" "nat \<bar>size_of s'\<bar> * ?M = ?n' * 100" by (simp_all add: notional_of_def)
  have N: "?n < 2 ^ 59" "?n' < 2 ^ 59" "?n * 100 < 2 ^ 96" "?n' * 100 < 2 ^ 96" using position_fitsD(2) [OF old(2)] position_fitsD(2) [OF new(2)] by simp_all
  note F = implements_fraction_for [OF old(1) position_fitsD(7) [OF old(2)] market] and F' = implements_fraction_for [OF new(1) position_fitsD(7) [OF new(2)] market]
  have mc: "?m < 2 ^ 16" "?c < 2 ^ 16" "?m < 2 ^ 32" "?c < 2 ^ 32" using market_okD(5,6) [OF market] by simp_all
  have sh: "?n * 100 * k = share ?n k" "?n' * 100 * k = share ?n' k" "k * (?n * 100) = share ?n k" "k * (?n' * 100) = share ?n' k" for k
    by (simp_all add: share_def margin_fraction_multiplier)
  have off: "b \<or> share ?n k = 0" for k using off by (auto simp: share_def)
  have ms: "big (target_to_biguint_single_limb_unsafe (maintenance_margin_fraction market)) 1 ?m"
    "big (target_to_biguint_single_limb_unsafe (close_out_margin_fraction market)) 1 ?c"
    unfolding target_to_biguint_single_limb_unsafe_def by (rule big_single, use mc in simp)+
  note R = requirements_areD [OF risk_representsD(7) [OF r]]
  have mul: "implements (mul_biguint_non_carry a k BIG_U96_LIMBS) (\<lambda>r. big r 3 (x * 100))"
    if "big a 2 (nat \<bar>z\<bar>)" "big k 2 ?M" "nat \<bar>z\<bar> * ?M = x * 100" "x * 100 < 2 ^ 96" for a k z x
    using big_mul3' [OF that(1,2)] that(3,4) by simp
  show ?thesis
    unfolding replace_requirements_def Let_def requirements_fit_def
  proof (rule realises_after [OF implements_target_to_biguint], unfold M, rule realises_after [OF implements_target_to_biguint], unfold old(3),
      rule realises_after [OF implements_target_to_biguint], unfold new(3), rule realises_after [OF mul [OF _ _ eq(1) N(3)]], assumption, assumption,
      rule realises_after [OF mul [OF _ _ eq(2) N(4)]], assumption, assumption, rule realises_after [OF F'(1)], rule realises_after [OF F(1)])
    fix on nn f' f
    assume on: "big on 3 (?n * 100)" and nn: "big nn 3 (?n' * 100)" and f': "uval f' = ?f'" and f: "uval f = ?f"
    have fs: "big (target_to_biguint_single_limb_unsafe f') 1 ?f'" "big (target_to_biguint_single_limb_unsafe f) 1 ?f"
      unfolding target_to_biguint_single_limb_unsafe_def f' [symmetric] f [symmetric] by (rule big_single, use F F' f f' in simp)+
    note bound = share_bound(2) [OF N(1)] share_bound(2) [OF N(2)]
    note one = realises_replace_requirement [OF b R(1) fs(1) nn fs(2) on, unfolded sh, OF _ _ _ _ _ _ bound(2) [OF F'(2)] bound(1) [OF F(2)] off]
      and two = realises_replace_requirement [OF b R(2) nn ms(1) on ms(1), unfolded sh, OF _ _ _ _ _ _ bound(2) [OF mc(1)] bound(1) [OF mc(1)] off]
      and three = realises_replace_requirement [OF b R(3) nn ms(2) on ms(2), unfolded sh, OF _ _ _ _ _ _ bound(2) [OF mc(2)] bound(1) [OF mc(2)] off]
    show "realises (circ_bind (replace_requirement is_enabled (initial_margin_requirement r) (target_to_biguint_single_limb_unsafe f') nn
          (target_to_biguint_single_limb_unsafe f) on) (\<lambda>initial.
        circ_bind (replace_requirement is_enabled (maintenance_margin_requirement r) nn
          (target_to_biguint_single_limb_unsafe (maintenance_margin_fraction market)) on
          (target_to_biguint_single_limb_unsafe (maintenance_margin_fraction market))) (\<lambda>maintenance.
        circ_bind (replace_requirement is_enabled (close_out_margin_requirement r) nn
          (target_to_biguint_single_limb_unsafe (close_out_margin_fraction market)) on
          (target_to_biguint_single_limb_unsafe (close_out_margin_fraction market))) (\<lambda>close_out.
        circ_return (r\<lparr>initial_margin_requirement := initial, maintenance_margin_requirement := maintenance,
          close_out_margin_requirement := close_out\<rparr>)))))
      (requirement_fits (initial_of R) (share ?n' ?f') (share ?n ?f) \<and> requirement_fits (maintenance_of R) (share ?n' ?m) (share ?n ?m) \<and>
        requirement_fits (close_out_of R) (share ?n' ?c) (share ?n ?c))
      (\<lambda>r'. risk_represents r' (shift_requirements market s s' R))"
      by (rule realises_bind [OF one], simp, simp, simp, simp, simp, simp, rule realises_bind [OF two], simp, simp, simp, simp, simp, simp,
          rule realises_then_return [OF three], simp, simp, simp, simp, simp, simp)
        (use r in \<open>simp add: risk_represents_def requirements_are_def shift_requirements_def Let_def\<close>)
  qed
qed

lemma implements_unrealized_pnl_of:
  fixes market :: market_risk_details
  assumes pos: "represents pos s" "position_fits market s"
  shows "implements (unrealized_pnl_of market pos) (\<lambda>(a, u). uval a = nat \<bar>size_of s\<bar> \<and> get_signed_target u = unrealized_of market s)"
  unfolding unrealized_pnl_of_def
proof (rule implements_bind [OF uval_biguint_u16_to_target [OF representsD(1) [OF pos(1)] position_fitsD(1) [OF pos(2)]]])
  fix a assume a: "uval a = nat \<bar>size_of s\<bar>"
  let ?m = "int (uval (quote_multiplier market) * uval (mark_price market) * uval a) - int (uval (entry_quote pos))"
  note fits = position_fitsD [OF pos(2)]
  have m: "?m = int (notional_of market s) - entry_of s"
    using representsD(2) [OF pos(1)] by (simp add: a notional_of_def market_price_def)
  have range: "signed_range ?m" "signed_range (- ?m)"
    unfolding m using fits(2,4,5) by (simp_all add: signed_range_def goldilocks_order_nat)
  show "implements (circ_bind (get_position_unrealized_pnl market a (bi_sign (position pos)) (entry_quote pos)) (\<lambda>u. circ_return (a, u)))
      (\<lambda>(a, u). uval a = nat \<bar>size_of s\<bar> \<and> get_signed_target u = unrealized_of market s)"
    by (rule implements_bind [OF implements_get_position_unrealized_pnl [OF bigz16D(4) [OF representsD(1) [OF pos(1)]] range, unfolded m]],
        rule implements_return)
      (simp add: a unrealized_of_def)
qed

definition trade_value :: "market_risk_details \<Rightarrow> position_state \<Rightarrow> position_state \<Rightarrow> int" where
  "trade_value market s s' = (unrealized_of market s' - unrealized_of market s) * int USDC_TO_COLLATERAL_MULTIPLIER"

definition update_risk :: "market_risk_details \<Rightarrow> int \<Rightarrow> position_state \<Rightarrow> position_state \<Rightarrow> risk_state \<Rightarrow> risk_state" where
  "update_risk market c s s' R =
    shift_requirements market s s' (shift_values (trade_value market s s') (shift_values c (shift_collateral c R)))"

definition update_fits :: "market_risk_details \<Rightarrow> int \<Rightarrow> position_state \<Rightarrow> position_state \<Rightarrow> risk_state \<Rightarrow> bool" where
  "update_fits market c s s' R \<longleftrightarrow> collateral_fits c R \<and> values_fit c (shift_collateral c R) \<and>
    values_fit (trade_value market s s') (shift_values c (shift_collateral c R)) \<and>
    requirements_fit market s s' (shift_values (trade_value market s s') (shift_values c (shift_collateral c R)))"

lemma realises_update_chosen:
  fixes market :: market_risk_details
  assumes b: "bval is_enabled b" and r: "risk_represents r R" and cd: "bigw cd 3 c" and market: "market_ok market"
    and old: "represents old s" "position_fits market s" and new: "represents new s'" "position_fits market s'"
    and off: "b \<or> notional_of market s = 0"
  shows "realises (circ_bind (add_to_collateral cd r) (\<lambda>r. circ_bind (add_to_values cd r) (\<lambda>r.
      circ_bind (unrealized_pnl_of market old) (\<lambda>(old_abs, old_notional). circ_bind (unrealized_pnl_of market new) (\<lambda>(new_abs, new_notional).
      circ_bind (signed_target_to_bigint (sub_signed new_notional old_notional)) (\<lambda>notional_diff_big.
      circ_bind (mul_bigint_with_biguint_non_carry notional_diff_big (constant_biguint USDC_TO_COLLATERAL_MULTIPLIER) BIG_U96_LIMBS)
        (\<lambda>delta. circ_bind (add_to_values delta r) (\<lambda>r.
      replace_requirements is_enabled market old old_abs new new_abs r))))))))
    (update_fits market c s s' R) (\<lambda>r'. risk_represents r' (update_risk market c s s' R))"
  unfolding update_fits_def
proof (rule realises_bind [OF realises_add_to_collateral [OF r cd]], simp, rule realises_bind [OF realises_add_to_values [OF _ cd]], assumption, simp,
    rule realises_after [OF implements_unrealized_pnl_of [OF old]], unfold split_paired_all prod.case, elim conjE,
    rule realises_after [OF implements_unrealized_pnl_of [OF new]], unfold split_paired_all prod.case, elim conjE,
    rule realises_after [OF implements_signed_target_to_bigint])
  let ?R = "shift_values c (shift_collateral c R)"
  let ?d = "unrealized_of market s' - unrealized_of market s"
  fix r1 r2 oa on na nn diff
  assume r2: "risk_represents r2 ?R" and oa: "uval oa = nat \<bar>size_of s\<bar>" and on: "get_signed_target on = unrealized_of market s"
    and na: "uval na = nat \<bar>size_of s'\<bar>" and nn: "get_signed_target nn = unrealized_of market s'"
    and diff: "bigz diff 2 (get_signed_target (sub_signed nn on))"
  have small: "\<bar>?d\<bar> < 2 ^ 60" using unrealized_bound [OF old(2)] unrealized_bound [OF new(2)] by simp
  then have "signed_range ?d" unfolding abs_less_iff by (simp add: signed_range_def goldilocks_order_nat)
  then have "get_signed_target (sub_signed nn on) = ?d" using get_signed_target_arith(2) [of nn on] unfolding on nn by simp
  then have diff: "bigz diff 2 ?d" using diff by simp
  have small': "\<bar>?d\<bar> < 2 ^ 65" using small by simp
  have mult: "big (constant_biguint USDC_TO_COLLATERAL_MULTIPLIER) 1 USDC_TO_COLLATERAL_MULTIPLIER"
    by (rule constant_biguint_single(2)) (simp_all add: usdc_multiplier)
  show "realises (circ_bind (mul_bigint_with_biguint_non_carry diff (constant_biguint USDC_TO_COLLATERAL_MULTIPLIER) BIG_U96_LIMBS)
      (\<lambda>delta. circ_bind (add_to_values delta r2) (\<lambda>r. replace_requirements is_enabled market old oa new na r)))
    (values_fit (trade_value market s s') ?R \<and> requirements_fit market s s' (shift_values (trade_value market s s') ?R))
    (\<lambda>r'. risk_represents r' (update_risk market c s s' R))"
  proof (rule realises_after [OF implements_to_collateral [OF diff _ _ small' mult, folded trade_value_def]], simp, simp,
      rule realises_bind [OF realises_add_to_values [OF r2 bigz_bigw]], assumption, simp)
    fix r3 assume "risk_represents r3 (shift_values (trade_value market s s') ?R)"
    from realises_replace_requirements [OF b this market old oa new na off]
    show "realises (replace_requirements is_enabled market old oa new na r3)
        (requirements_fit market s s' (shift_values (trade_value market s s') ?R)) (\<lambda>r'. risk_represents r' (update_risk market c s s' R))"
      by (simp only: update_risk_def)
  qed
qed

text \<open>The empty position and market the gadget works on when it is switched off.\<close>

definition empty_state :: position_state where
  "empty_state = \<lparr>size_of = 0, entry_of = 0, funding_of = 0, fraction_of = 0, margin_of = 0, isolated_of = False\<rparr>"

lemma represents_select_empty:
  assumes "bval c e" "represents pos s"
  shows "represents (select_position c pos empty_position) (if e then s else empty_state)"
  using bigz16_select [OF assms(1) representsD(1) [OF assms(2)] bigz16_zero] bigz16_select [OF assms(1) representsD(3) [OF assms(2)] bigz16_zero]
    bigw_select [OF assms(1) representsD(5) [OF assms(2)] bigw_zero] bval_select [OF assms(1) representsD(6) [OF assms(2)] bval_Const(2)]
    representsD(2,4) [OF assms(2)]
  by (cases e) (simp_all add: represents_def select_position_def empty_position_def empty_state_def uval_select [OF assms(1)])

lemma position_fits_empty: "position_fits market empty_state"
  by (simp add: position_fits_def position_ok_def empty_state_def notional_of_def POSITION_SIZE_BITS_def ENTRY_QUOTE_BITS_def MARGIN_FRACTION_BITS_def)

lemma uval_select_market:
  fixes market :: market_risk_details
  assumes "bval c e"
  defines "m \<equiv> select_market_risk_details c market empty_market"
  shows "uval (quote_multiplier m) = (if e then uval (quote_multiplier market) else 0)" "uval (mark_price m) = (if e then uval (mark_price market) else 0)"
    "uval (default_initial_margin_fraction m) = (if e then uval (default_initial_margin_fraction market) else 0)"
    "uval (min_initial_margin_fraction m) = (if e then uval (min_initial_margin_fraction market) else 0)"
    "uval (maintenance_margin_fraction m) = (if e then uval (maintenance_margin_fraction market) else 0)"
    "uval (close_out_margin_fraction m) = (if e then uval (close_out_margin_fraction market) else 0)"
  by (simp_all add: m_def select_market_risk_details_def empty_market_def uval_select [OF assms(1)])

lemma select_market_simps:
  fixes market :: market_risk_details
  assumes "bval c e"
  defines "m \<equiv> select_market_risk_details c market empty_market"
  shows "market_ok market \<Longrightarrow> market_ok m" "notional_of m s = (if e then notional_of market s else 0)"
    "e \<Longrightarrow> unrealized_of m s = unrealized_of market s" "e \<Longrightarrow> fraction_for m s = fraction_for market s"
  using uval_select_market [OF assms(1), of market, folded m_def]
  by (cases e; simp add: market_ok_def notional_of_def market_price_def unrealized_of_def fraction_for_def)+

lemma risk_represents_bounds:
  assumes "risk_represents r R"
  shows "collateral_fits 0 R" "values_fit 0 R" "initial_of R < 2 ^ 96" "maintenance_of R < 2 ^ 96" "close_out_of R < 2 ^ 96"
  using risk_representsD(1-6) [OF assms, THEN bigw_bound] requirements_areD [OF risk_representsD(7) [OF assms]]
    bnat_bound [of "initial_margin_requirement r"] bnat_bound [of "maintenance_margin_requirement r"] bnat_bound [of "close_out_margin_requirement r"]
  by (simp_all add: collateral_fits_def values_fit_def big_def)

lemma shift_zero [simp]: "shift_collateral 0 R = R" "shift_values 0 R = R"
  by (simp_all add: shift_collateral_def shift_values_def)

lemma realises_update_for_perps_trade:
  fixes market :: market_risk_details
  assumes b: "bval is_enabled b" and r: "risk_represents r R" and cd: "bigw cd 3 c" and market: "market_ok market"
    and old: "represents old s" "position_fits market s" and new: "represents new s'" "position_fits market s'"
  shows "realises (update_for_perps_trade cd old new market is_enabled r) (b \<longrightarrow> update_fits market c s s' R)
    (\<lambda>r'. risk_represents r' (if b then update_risk market c s s' R else R))"
proof -
  let ?market = "select_market_risk_details is_enabled market empty_market"
  let ?s = "if b then s else empty_state" and ?s' = "if b then s' else empty_state" and ?c = "if b then c else 0"
  note sel = select_market_simps [OF b, of market] uval_select_market [OF b, of market]
  have cd': "bigw (select_bigint is_enabled cd zero_bigint) 3 ?c" using bigw_select [OF b cd bigw_zero] by simp
  have fits: "position_fits ?market ?s" "position_fits ?market ?s'"
    using old(2) new(2) position_fits_empty by (cases b; simp add: position_fits_def sel)+
  have off: "b \<or> notional_of ?market ?s = 0" by (simp add: sel)
  have P: "update_fits ?market ?c ?s ?s' R \<longleftrightarrow> (b \<longrightarrow> update_fits market c s s' R)"
  proof (cases b)
    case False
    then show ?thesis
      using risk_represents_bounds [OF r]
      by (simp add: update_fits_def trade_value_def unrealized_of_def sel requirements_fit_def requirement_fits_def share_def empty_state_def)
  qed (simp add: update_fits_def trade_value_def requirements_fit_def sel)
  have Q: "update_risk ?market ?c ?s ?s' R = (if b then update_risk market c s s' R else R)"
  proof (cases b)
    case False
    then show ?thesis
      by (simp add: update_risk_def trade_value_def unrealized_of_def sel shift_requirements_def share_def empty_state_def)
  qed (simp add: update_risk_def trade_value_def shift_requirements_def sel)
  show ?thesis
    unfolding update_for_perps_trade_def Let_def P [symmetric] Q [symmetric]
    by (rule realises_update_chosen [OF b r cd' sel(1) [OF market] represents_select_empty [OF b old(1)] fits(1) represents_select_empty [OF b new(1)] fits(2) off])
qed

section \<open>The update and the computation from scratch\<close>

text \<open>
  \<open>apply_perps_trade\<close> settles the funding of the position first: it goes to the collateral of the risk parameters and
  to the margin of the position, whose prefix sum becomes that of the market.
\<close>

definition settle_funding :: "int \<Rightarrow> risk_state \<Rightarrow> risk_state" where
  "settle_funding f R = R\<lparr>collateral_of := collateral_of R + f\<rparr>"

definition settle_position :: "int \<Rightarrow> int \<Rightarrow> position_state \<Rightarrow> position_state" where
  "settle_position f F s = s\<lparr>margin_of := margin_of s + f, funding_of := F\<rparr>"

lemma settle_position_simps [simp]:
  "notional_of market (settle_position f F s) = notional_of market s" "unrealized_of market (settle_position f F s) = unrealized_of market s"
  "fraction_for market (settle_position f F s) = fraction_for market s" "position_fits market (settle_position f F s) = position_fits market s"
  by (simp_all add: settle_position_def notional_of_def unrealized_of_def fraction_for_def position_fits_def position_ok_def)

lemma funding_owed_settled: "funding_of s = F \<Longrightarrow> funding_owed market F s = 0"
  by (simp add: funding_owed_def)

lemma update_risk_isolated:
  assumes "funding_of s' = F" "margin_of s' = margin_of s + funding_owed market F s + c"
  shows "update_risk market c (settle_position (funding_owed market F s) F s) s' (settle_funding (funding_owed market F s) (isolated_risk market True F s))
    = isolated_risk market True F s'"
  using assms
  by (simp add: update_risk_def shift_requirements_def shift_values_def shift_collateral_def settle_funding_def isolated_risk_def trade_value_def Let_def
      funding_owed_settled algebra_simps)

section \<open>Properties\<close>

text \<open>
  Health: where a maintenance requirement lies between the close-out and the initial one, the account value
  does not exceed the liquidation threshold and is not a large negative number, the status is the worst band the
  account is in.
\<close>
theorem get_health_correct:
  assumes "risk_reads r R" "value_of R \<le> threshold_of R" "0 \<le> value_of R \<or> \<bar>value_of R\<bar> < int (initial_of R)"
    and "close_out_of R \<le> maintenance_of R" "maintenance_of R \<le> initial_of R"
  shows "implements (get_health r) (\<lambda>h. uval h = health_of R)"
  using implements_get_health_raw [OF assms(1)] unfolding health_of_raw [OF assms(2-5)] .

definition small_bigint :: "int \<Rightarrow> bigint" where
  "small_bigint v = \<lparr>bi_abs = [Const (of_nat (nat \<bar>v\<bar>)), Const 0, Const 0], bi_sign = Const (of_int (sgn v))\<rparr>"

definition small_biguint :: "nat \<Rightarrow> biguint" where
  "small_biguint n = [Const (of_nat n), Const 0, Const 0]"

definition example_risk :: "int \<Rightarrow> int \<Rightarrow> int \<Rightarrow> nat \<Rightarrow> nat \<Rightarrow> nat \<Rightarrow> risk_parameters" where
  "example_risk funded v t i m c =
    \<lparr>usdc_collateral = small_bigint funded, usdc_collateral_with_funding = small_bigint funded, usdc_portfolio_value = small_bigint v,
     total_portfolio_value = small_bigint v, total_account_value = small_bigint v, total_account_liquidation_threshold = small_bigint t,
     initial_margin_requirement = small_biguint i, maintenance_margin_requirement = small_biguint m, close_out_margin_requirement = small_biguint c\<rparr>"

definition example_risk_state :: "int \<Rightarrow> int \<Rightarrow> int \<Rightarrow> nat \<Rightarrow> nat \<Rightarrow> nat \<Rightarrow> risk_state" where
  "example_risk_state funded v t i m c = \<lparr>collateral_of = funded, funded_of = funded, portfolio_of = v, total_portfolio_of = v, value_of = v,
    threshold_of = t, initial_of = i, maintenance_of = m, close_out_of = c\<rparr>"

lemma bigz_small_bigint: "\<bar>v\<bar> < 2 ^ 32 \<Longrightarrow> bigz (small_bigint v) 3 v"
  using to_canonical_of_nat_small [of "nat \<bar>v\<bar>"]
  by (simp add: bigz_def small_bigint_def big_def bnat_def limbs_ok_def is_u32_def sval_def nat_less_iff del: of_nat_nat)

lemma big_small_biguint: "n < 2 ^ 32 \<Longrightarrow> big (small_biguint n) 3 n"
  using to_canonical_of_nat_small [of n] by (simp add: small_biguint_def big_def bnat_def limbs_ok_def is_u32_def)

lemma example_risk_reads:
  "\<bar>f\<bar> < 2 ^ 32 \<Longrightarrow> \<bar>v\<bar> < 2 ^ 32 \<Longrightarrow> \<bar>t\<bar> < 2 ^ 32 \<Longrightarrow> i < 2 ^ 32 \<Longrightarrow> m < 2 ^ 32 \<Longrightarrow> c < 2 ^ 32 \<Longrightarrow>
    risk_reads (example_risk f v t i m c) (example_risk_state f v t i m c)"
  by (simp add: risk_reads_def requirements_are_def example_risk_def example_risk_state_def bigz_small_bigint big_small_biguint)

lemma get_health_correct_witness:
  "implements (get_health (example_risk 0 5 8 10 6 4)) (\<lambda>h. uval h = PRE_LIQUIDATION)"
  using get_health_correct [OF example_risk_reads [of 0 5 8 10 6 4]] by (simp add: example_risk_state_def health_of_def)

text \<open>
  The sign of the account value is not looked at: an account with debt, no position and a liquidation
  threshold that is still met has a negative account value and is unhealthy, yet its health status is HEALTHY.
\<close>
theorem get_health_ignores_sign:
  "implements (get_health (example_risk (- 900) (- 100) 50 0 0 0)) (\<lambda>h. uval h = HEALTHY) \<and>
   implements (is_healthy (example_risk (- 900) (- 100) 50 0 0 0)) (\<lambda>h. bval h False) \<and>
   health_of (example_risk_state (- 900) (- 100) 50 0 0 0) = PRE_LIQUIDATION"
proof -
  have r: "risk_reads (example_risk (- 900) (- 100) 50 0 0 0) (example_risk_state (- 900) (- 100) 50 0 0 0)"
    by (rule example_risk_reads) simp_all
  show ?thesis
    using implements_get_health_raw [OF r] implements_is_healthy [OF r]
    by (simp add: example_risk_state_def health_of_def healthy_def HEALTHY_def)
qed

text \<open>
  C17. Invariant along any sequence of accepted changes of risk: an account that is healthy stays healthy, and
  one that is not, with a positive maintenance requirement all along, ends healthy or with a ratio of the
  liquidation threshold to the requirement that is no smaller.
\<close>
theorem risk_run_safe:
  assumes "risk_run P r R r' R'"
  shows "(healthy R \<longrightarrow> healthy R') \<and> ((\<forall>R. P R \<longrightarrow> 0 < maintenance_of R) \<longrightarrow> healthy R' \<or> health_improved R R')"
  using assms by (rule risk_run_invariant)

lemma accepting_run:
  assumes "risk_reads r R" "risk_reads r' R'" "P R" "P R'" "valid_risk_change R R'"
  shows "risk_run P r R r' R'"
proof -
  have "implements (is_valid_risk_change r r') (\<lambda>h. bval h True)"
    using implements_is_valid_risk_change [OF assms(1,2)] assms(5) by simp
  then obtain tape t where "bval t True" "is_valid_risk_change r r' (tape @ []) = Done t []"
    unfolding implements_def complete_def by blast
  with change [OF start assms(2)] assms show ?thesis by blast
qed

lemma risk_run_safe_witness:
  "\<exists>r'. risk_run (\<lambda>R. 0 < maintenance_of R) (example_risk 0 5 8 10 6 4) (example_risk_state 0 5 8 10 6 4) r' (example_risk_state 0 6 9 10 6 4) \<and>
    (healthy (example_risk_state 0 6 9 10 6 4) \<or> health_improved (example_risk_state 0 5 8 10 6 4) (example_risk_state 0 6 9 10 6 4))"
proof -
  have "risk_run (\<lambda>R. 0 < maintenance_of R) (example_risk 0 5 8 10 6 4) (example_risk_state 0 5 8 10 6 4) (example_risk 0 6 9 10 6 4) (example_risk_state 0 6 9 10 6 4)"
    by (rule accepting_run [OF example_risk_reads example_risk_reads])
      (simp_all add: example_risk_state_def valid_risk_change_def healthy_def health_improved_def)
  from risk_run_safe [OF this] this show ?thesis by blast
qed

text \<open>
  Without a maintenance requirement (no open position) before and after, every change of an unhealthy
  account is accepted, however much the account loses.
\<close>
theorem risk_change_vacuous:
  assumes "risk_reads r R" "risk_reads r' R'" "\<not> healthy R" "maintenance_of R = 0" "maintenance_of R' = 0"
  shows "implements (is_valid_risk_change r r') (\<lambda>h. bval h True)"
  using implements_is_valid_risk_change [OF assms(1,2)] assms(3-5) by (simp add: valid_risk_change_def health_improved_def)

lemma risk_change_vacuous_witness:
  "implements (is_valid_risk_change (example_risk (- 900) (- 100) 50 0 0 0) (example_risk (- 900) (- 800) (- 700) 0 0 0)) (\<lambda>h. bval h True)"
  using risk_change_vacuous [OF example_risk_reads [of "- 900" "- 100" 50 0 0 0] example_risk_reads [of "- 900" "- 800" "- 700" 0 0 0]]
  by (simp add: example_risk_state_def healthy_def)

text \<open>
  C31. The collateral that may leave the cross margin: the circuit computes it exactly, what it allows leaves a
  healthy account healthy and its collateral non-negative, and an unhealthy account gets nothing.
\<close>
theorem available_collateral_safe:
  assumes "risk_reads r R" "bigz (usdc_collateral_with_funding r) 3 (funded_of R)"
  shows "implements (get_available_usdc_collateral r) (\<lambda>a. big a 3 (available_of R) \<and>
    (if healthy R \<and> 0 \<le> funded_of R
     then int (initial_of R) \<le> value_of R - int (bnat a) \<and> 0 \<le> funded_of R - int (bnat a) \<and>
       (int (initial_of R) = value_of R - int (bnat a) \<or> funded_of R = int (bnat a))
     else bnat a = 0))"
proof (rule implements_weaken [OF implements_get_available_usdc_collateral [OF assms]])
  fix a assume a: "big a 3 (available_of R)"
  show "big a 3 (available_of R) \<and> (if healthy R \<and> 0 \<le> funded_of R
     then int (initial_of R) \<le> value_of R - int (bnat a) \<and> 0 \<le> funded_of R - int (bnat a) \<and>
       (int (initial_of R) = value_of R - int (bnat a) \<or> funded_of R = int (bnat a))
     else bnat a = 0)"
    unfolding bigD(3) [OF a] using a by (auto simp: available_of_def healthy_def min_def split: if_splits)
qed

lemma available_collateral_safe_witness:
  "implements (get_available_usdc_collateral (example_risk 7 15 18 10 6 4)) (\<lambda>a. bnat a = 5)"
  using available_collateral_safe [OF example_risk_reads [of 7 15 18 10 6 4]] bigz_small_bigint [of 7]
  by (simp add: example_risk_state_def example_risk_def available_of_def healthy_def big_def implements_weaken)

text \<open>
  C18. Equivalence: after a trade of an isolated position in an active market, with its funding settled and the
  collateral moved booked in its margin, the incremental update of the risk parameters represents the same
  values as the computation from scratch for the new position.
\<close>
theorem isolated_update_matches:
  fixes market :: market_risk_details
  assumes "bval is_enabled True" "market_ok market" "bigz16 (funding_rate_prefix_sum market) 4 F" "uval (risk_status market) = 1"
    and "tval (strategy_index market) = tval strategy"
    and "f = funding_owed market F s" "represents old (settle_position f F s)" "position_fits market s"
    and "represents new s'" "position_fits market s'" "funding_of s' = F" "margin_of s' = margin_of s + f + c"
    and "risk_represents r (settle_funding f (isolated_risk market True F s))" "bigw cd 3 c"
  shows "realises (update_for_perps_trade cd old new market is_enabled r)
      (update_fits market c (settle_position f F s) s' (settle_funding f (isolated_risk market True F s)))
      (\<lambda>r'. risk_represents r' (isolated_risk market True F s')) \<and>
    realises (new_isolated strategy new market False) (isolated_fits market F s') (\<lambda>r'. risk_represents r' (isolated_risk market True F s'))"
proof
  have eq: "update_risk market c (settle_position f F s) s' (settle_funding f (isolated_risk market True F s)) = isolated_risk market True F s'"
    using update_risk_isolated [of s' F s market c] assms(6,11,12) by simp
  show "realises (update_for_perps_trade cd old new market is_enabled r)
      (update_fits market c (settle_position f F s) s' (settle_funding f (isolated_risk market True F s)))
      (\<lambda>r'. risk_represents r' (isolated_risk market True F s'))"
    using realises_update_for_perps_trade [OF assms(1,13,14,2,7) _ assms(9,10)] assms(8) by (simp add: eq)
  show "realises (new_isolated strategy new market False) (isolated_fits market F s') (\<lambda>r'. risk_represents r' (isolated_risk market True F s'))"
    by (rule realises_new_isolated [OF assms(9,10,2,3) _ assms(5)]) (simp add: assms(4))
qed

definition isolated_position :: "int \<Rightarrow> nat \<Rightarrow> int \<Rightarrow> nat \<Rightarrow> int \<Rightarrow> account_position" where
  "isolated_position v e funding fraction margin = empty_position\<lparr>last_funding_rate_prefix_sum := small16 funding, position := small16 v,
     entry_quote := Const (of_nat e), initial_margin_fraction := Const (of_nat fraction), allocated_margin := small_bigint margin, margin_mode := Const 1\<rparr>"

definition isolated_state :: "int \<Rightarrow> nat \<Rightarrow> int \<Rightarrow> nat \<Rightarrow> int \<Rightarrow> position_state" where
  "isolated_state v e funding fraction margin =
    \<lparr>size_of = v, entry_of = int e, funding_of = funding, fraction_of = fraction, margin_of = margin, isolated_of = True\<rparr>"

definition trading_market :: market_risk_details where
  "trading_market = example_market\<lparr>quote_multiplier := Const 2, mark_price := Const 60, risk_status := Const 1,
     maintenance_margin_fraction := Const 300, close_out_margin_fraction := Const 200\<rparr>"

lemma represents_isolated:
  assumes "\<bar>v\<bar> < 2 ^ 16" "e < 2 ^ 32" "\<bar>F\<bar> < 2 ^ 16" "k < 2 ^ 16" "\<bar>m\<bar> < 2 ^ 32"
  shows "represents (isolated_position v e F k m) (isolated_state v e F k m)"
  using bigz16_small16 [OF assms(1)] bigz16_small16 [OF assms(3)] bigz_bigw [OF bigz_small_bigint [OF assms(5)]] assms(2,4)
    bval_Const(1)
  by (simp add: represents_def isolated_position_def isolated_state_def empty_position_def)

lemma trading_market_ok:
  "market_ok trading_market" "bigz16 (funding_rate_prefix_sum trading_market) 4 7" "uval (risk_status trading_market) = 1"
  "uval (quote_multiplier trading_market) = 2" "uval (mark_price trading_market) = 60"
  "uval (maintenance_margin_fraction trading_market) = 300" "uval (close_out_margin_fraction trading_market) = 200"
  "uval (default_initial_margin_fraction trading_market) = 500" "uval (min_initial_margin_fraction trading_market) = 100"
  using example_market_ok
  by (simp_all add: market_ok_def trading_market_def QUOTE_MULTIPLIER_BITS_def MARGIN_FRACTION_BITS_def)

lemmas trading_values = trading_market_ok(4-9) notional_of_def market_price_def unrealized_of_def funding_owed_def isolated_state_def
  fraction_for_def fraction_in_force_def share_def margin_fraction_multiplier usdc_multiplier

lemma example_risk_represents:
  "\<bar>f\<bar> < 2 ^ 32 \<Longrightarrow> \<bar>v\<bar> < 2 ^ 32 \<Longrightarrow> \<bar>t\<bar> < 2 ^ 32 \<Longrightarrow> i < 2 ^ 32 \<Longrightarrow> m < 2 ^ 32 \<Longrightarrow> c < 2 ^ 32 \<Longrightarrow>
    risk_represents (example_risk f v t i m c) (example_risk_state f v t i m c)"
  by (simp add: risk_represents_def requirements_are_def example_risk_def example_risk_state_def bigz_bigw [OF bigz_small_bigint] big_small_biguint)

lemma isolated_update_matches_witness:
  "implements (update_for_perps_trade (small_bigint 50000) (isolated_position 10 500 7 0 9920) (isolated_position (- 5) 300 7 500 59920)
      trading_market (Const 1) (example_risk 9920 700009920 700009920 60000000 36000000 24000000))
    (\<lambda>r. risk_represents r (example_risk_state 59920 (- 299940080) (- 299940080) 30000000 18000000 12000000))"
proof -
  let ?s = "isolated_state 10 500 3 0 10000" and ?s' = "isolated_state (- 5) 300 7 500 59920"
  let ?R = "settle_funding (- 80) (isolated_risk trading_market True 7 ?s)"
  have f: "- 80 = funding_owed trading_market 7 ?s" by (simp add: trading_values)
  have old: "represents (isolated_position 10 500 7 0 9920) (settle_position (- 80) 7 ?s)"
    using represents_isolated [of 10 500 7 0 9920] by (simp add: settle_position_def isolated_state_def)
  have new: "represents (isolated_position (- 5) 300 7 500 59920) ?s'" by (rule represents_isolated) simp_all
  have fits: "position_fits trading_market ?s" "position_fits trading_market ?s'"
    by (simp_all add: position_fits_def position_ok_def trading_values POSITION_SIZE_BITS_def ENTRY_QUOTE_BITS_def MARGIN_FRACTION_BITS_def)
  have R: "?R = example_risk_state 9920 700009920 700009920 60000000 36000000 24000000"
    by (simp add: settle_funding_def isolated_risk_def Let_def example_risk_state_def trading_values)
  have r: "risk_represents (example_risk 9920 700009920 700009920 60000000 36000000 24000000) ?R"
    unfolding R by (rule example_risk_represents) simp_all
  have R': "isolated_risk trading_market True 7 ?s' = example_risk_state 59920 (- 299940080) (- 299940080) 30000000 18000000 12000000"
    by (simp add: isolated_risk_def Let_def example_risk_state_def trading_values)
  have c: "bigw (small_bigint 50000) 3 50000" by (rule bigz_bigw [OF bigz_small_bigint]) simp
  have U: "update_fits trading_market 50000 (settle_position (- 80) 7 ?s) ?s' ?R"
    unfolding R by (simp add: update_fits_def collateral_fits_def values_fit_def shift_collateral_def shift_values_def trade_value_def requirements_fit_def
        requirement_fits_def Let_def example_risk_state_def settle_position_def trading_values)
  have side: "funding_of ?s' = 7" "margin_of ?s' = margin_of ?s + - 80 + 50000" "tval (strategy_index trading_market) = tval (strategy_index trading_market)"
    by (simp_all add: isolated_state_def)
  note m = isolated_update_matches [OF bval_Const(1) trading_market_ok(1-3) side(3) f old fits(1) new fits(2) side(1,2) r c]
  show ?thesis using realises_implements [OF conjunct1 [OF m] U] by (simp only: R')
qed

end
