(* ===== verification/Isolated_Margin.thy ===== *)
theory Isolated_Margin
  imports Risk_Parameters
begin

text \<open>
  The margin an isolated position takes from or gives back to the cross margin when a trade changes it
  (\<open>calculate_isolated_margin_change\<close> of \<open>circuit/src/apply_trade.rs\<close>). The circuit computes all four cases and
  selects one, so a run is accepted only when every case fits.
\<close>

section \<open>The four cases\<close>

definition zero_bigint_if :: "target \<Rightarrow> bigint \<Rightarrow> bigint" where
  "zero_bigint_if c a = \<lparr>bi_abs = select_biguint c zero_biguint (bi_abs a), bi_sign = select c (Const 0) (bi_sign a)\<rparr>"

definition positive_part :: "bigint \<Rightarrow> bigint circ" where
  "positive_part a =
    circ_bind (is_sign_positive (bi_sign a)) (\<lambda>p.
    circ_return \<lparr>bi_abs = select_biguint p (bi_abs a) zero_biguint, bi_sign = select p (Const 1) (Const 0)\<rparr>)"

definition margin_if_closed :: "bigint \<Rightarrow> bigint circ" where
  "margin_if_closed margin =
    circ_bind (is_sign_negative (bi_sign margin)) (\<lambda>is_allocated_margin_negative.
    circ_return (zero_bigint_if is_allocated_margin_negative \<lparr>bi_abs = bi_abs margin, bi_sign = b_mul (bi_sign margin) (Const (- 1))\<rparr>))"

definition margin_if_side_changed :: "biguint \<Rightarrow> bigint \<Rightarrow> bigint \<Rightarrow> bigint circ" where
  "margin_if_side_changed position_requirement margin unrealized_pnl =
    circ_bind (add_bigint_non_carry margin unrealized_pnl BIG_U96_LIMBS) (\<lambda>allocated_margin_plus_unrealized_pnl.
    sub_bigint_non_carry \<lparr>bi_abs = position_requirement, bi_sign = Const 1\<rparr> allocated_margin_plus_unrealized_pnl BIG_U96_LIMBS)"

definition margin_if_increased :: "target \<Rightarrow> target \<Rightarrow> biguint \<Rightarrow> bigint \<Rightarrow> bigint circ" where
  "margin_if_increased unrealized_usdc_pnl old_unrealized_usdc_pnl open_interest_requirement fee =
    (let trade_usdc_pnl = sub_signed unrealized_usdc_pnl old_unrealized_usdc_pnl in
     circ_bind (signed_target_to_bigint trade_usdc_pnl) (\<lambda>trade_usdc_pnl_big.
     circ_bind (mul_bigint_with_biguint_non_carry trade_usdc_pnl_big (constant_biguint USDC_TO_COLLATERAL_MULTIPLIER) BIG_U96_LIMBS)
       (\<lambda>trade_pnl_big.
     circ_bind (sub_bigint_non_carry trade_pnl_big fee BIG_U96_LIMBS) (\<lambda>trade_pnl_big.
     circ_bind (biguint_to_bigint open_interest_requirement) (\<lambda>open_interest_requirement_bigint.
     circ_bind (sub_bigint_non_carry open_interest_requirement_bigint trade_pnl_big BIG_U96_LIMBS) (\<lambda>result.
     circ_bind (is_sign_negative (bi_sign result)) (\<lambda>is_negative.
     circ_return (zero_bigint_if is_negative result))))))))"

definition margin_if_decreased :: "bigint \<Rightarrow> bigint \<Rightarrow> bigint \<Rightarrow> bigint \<Rightarrow> biguint \<Rightarrow> biguint \<Rightarrow> biguint \<Rightarrow> bigint circ" where
  "margin_if_decreased old_margin old_unrealized_pnl margin unrealized_pnl old_position_abs position_abs position_requirement =
    circ_bind (add_bigint_non_carry old_margin old_unrealized_pnl BIG_U96_LIMBS) (\<lambda>old_total_market_value.
    circ_bind (add_bigint_non_carry margin unrealized_pnl BIG_U96_LIMBS) (\<lambda>new_total_market_value.
    circ_bind (mul_biguint_non_carry (bi_abs old_total_market_value) position_abs BIG_U128_LIMBS) (\<lambda>times_position.
    circ_bind (ceil_div_biguint times_position old_position_abs) (\<lambda>quotient.
    circ_bind (trim_bigint \<lparr>bi_abs = quotient, bi_sign = bi_sign old_total_market_value\<rparr> BIG_U96_LIMBS) (\<lambda>target_position_value.
    circ_bind (max_biguint (bi_abs target_position_value) position_requirement) (\<lambda>max_abs.
    circ_bind (is_sign_positive (bi_sign target_position_value)) (\<lambda>is_target_position_value_positive.
    let target_position_value = \<lparr>bi_abs = select_biguint is_target_position_value_positive max_abs position_requirement, bi_sign = Const 1\<rparr> in
    circ_bind (sub_bigint_non_carry new_total_market_value target_position_value BIG_U96_LIMBS) (\<lambda>target_position_value_delta.
    circ_bind (positive_part target_position_value_delta) (\<lambda>target_position_value_delta.
    circ_bind (positive_part margin) (\<lambda>allocated_margin_to_move_out.
    circ_bind (min_biguint (bi_abs target_position_value_delta) (bi_abs allocated_margin_to_move_out)) (\<lambda>abs.
    let neg_result_sign = b_mul (bi_sign target_position_value_delta) (bi_sign allocated_margin_to_move_out) in
    circ_return \<lparr>bi_abs = abs, bi_sign = b_mul neg_result_sign (Const (- 1))\<rparr>)))))))))))"

section \<open>The change of margin\<close>

definition unrealized_in_collateral :: "market_risk_details \<Rightarrow> target \<Rightarrow> account_position \<Rightarrow> (target \<times> bigint) circ" where
  "unrealized_in_collateral market position_abs pos =
    circ_bind (get_position_unrealized_pnl market position_abs (bi_sign (position pos)) (entry_quote pos)) (\<lambda>unrealized_usdc_pnl.
    circ_bind (signed_target_to_bigint unrealized_usdc_pnl) (\<lambda>unrealized_usdc_pnl_big.
    circ_bind (mul_bigint_with_biguint_non_carry unrealized_usdc_pnl_big (constant_biguint USDC_TO_COLLATERAL_MULTIPLIER) BIG_U96_LIMBS)
      (\<lambda>unrealized_pnl_big.
    circ_return (unrealized_usdc_pnl, unrealized_pnl_big))))"

definition common_multiplier :: "market_risk_details \<Rightarrow> account_position \<Rightarrow> biguint circ" where
  "common_multiplier market pos =
    circ_bind (target_to_biguint (mul_many [mark_price market, quote_multiplier market, constant_u64 MARGIN_FRACTION_MULTIPLIER])) (\<lambda>multiplier.
    circ_bind (get_initial_margin_fraction pos (default_initial_margin_fraction market) (min_initial_margin_fraction market)) (\<lambda>fraction.
    mul_biguint_non_carry multiplier (target_to_biguint_single_limb_unsafe fraction) BIG_U96_LIMBS))"

definition select_margin_change ::
  "target \<Rightarrow> target \<Rightarrow> target \<Rightarrow> account_position \<Rightarrow> account_position \<Rightarrow> biguint \<Rightarrow> biguint \<Rightarrow> bigint \<Rightarrow>
    target \<times> bigint \<Rightarrow> target \<times> bigint \<Rightarrow> bigint \<Rightarrow> bigint circ" where
  "select_margin_change is_enabled is_open_interest_decreased position_side_flipped old_position pos open_interest_requirement position_requirement fee
      old_unrealized unrealized result_if_position_closed =
    (let (old_unrealized_usdc_pnl, old_unrealized_pnl_big) = old_unrealized; (unrealized_usdc_pnl, unrealized_pnl_big) = unrealized in
     circ_bind (margin_if_side_changed position_requirement (allocated_margin pos) unrealized_pnl_big) (\<lambda>result_if_side_changed.
     circ_bind (margin_if_increased unrealized_usdc_pnl old_unrealized_usdc_pnl open_interest_requirement fee) (\<lambda>result_if_increased.
     circ_bind (margin_if_decreased (allocated_margin old_position) old_unrealized_pnl_big (allocated_margin pos) unrealized_pnl_big
       (biguint_u16_to_biguint (bi_abs (position old_position))) (biguint_u16_to_biguint (bi_abs (position pos))) position_requirement)
       (\<lambda>result_if_decreased.
     let result_if_side_unchanged = select_bigint is_open_interest_decreased result_if_decreased result_if_increased;
         result_if_position_open = select_bigint position_side_flipped result_if_side_changed result_if_side_unchanged in
     circ_bind (is_zero (bi_sign (position pos))) (\<lambda>is_position_closed.
     let result = select_bigint is_position_closed result_if_position_closed result_if_position_open in
     circ_return (select_bigint is_enabled result zero_bigint))))))"

definition calculate_isolated_margin_change ::
  "market_risk_details \<Rightarrow> target \<Rightarrow> target \<Rightarrow> account_position \<Rightarrow> account_position \<Rightarrow> target \<Rightarrow> bigint \<Rightarrow> bigint circ" where
  "calculate_isolated_margin_change market is_enabled account_open_interest_delta old_position pos position_side_flipped fee =
    circ_bind (common_multiplier market pos) (\<lambda>common_multiplier.
    circ_bind (signed_abs account_open_interest_delta) (\<lambda>(open_interest_abs, open_interest_sign).
    circ_bind (is_sign_negative open_interest_sign) (\<lambda>is_open_interest_decreased.
    circ_bind (target_to_biguint open_interest_abs) (\<lambda>open_interest_abs_big.
    circ_bind (biguint_u16_to_target (bi_abs (position old_position))) (\<lambda>old_position_abs_target.
    let position_abs_big = biguint_u16_to_biguint (bi_abs (position pos)) in
    circ_bind (biguint_u16_to_target (bi_abs (position pos))) (\<lambda>position_abs_target.
    circ_bind (mul_biguint_non_carry open_interest_abs_big common_multiplier BIG_U96_LIMBS) (\<lambda>open_interest_requirement.
    circ_bind (mul_biguint_non_carry position_abs_big common_multiplier BIG_U96_LIMBS) (\<lambda>position_requirement.
    circ_bind (margin_if_closed (allocated_margin pos)) (\<lambda>result_if_position_closed.
    circ_bind (unrealized_in_collateral market old_position_abs_target old_position) (\<lambda>(old_unrealized_usdc_pnl, old_unrealized_pnl_big).
    circ_bind (unrealized_in_collateral market position_abs_target pos) (\<lambda>(unrealized_usdc_pnl, unrealized_pnl_big).
    select_margin_change is_enabled is_open_interest_decreased position_side_flipped old_position pos open_interest_requirement position_requirement fee
      (old_unrealized_usdc_pnl, old_unrealized_pnl_big) (unrealized_usdc_pnl, unrealized_pnl_big) result_if_position_closed)))))))))))"

section \<open>Contracts of the cases\<close>

text \<open>A sign that may be wrong for a zero: the test is still right for every other value.\<close>

definition reads_sign :: "target \<Rightarrow> int \<Rightarrow> bool \<Rightarrow> bool \<Rightarrow> bool" where
  "reads_sign t v e b \<longleftrightarrow> bval t e \<and> (v \<noteq> 0 \<longrightarrow> e = b)"

lemma implements_is_sign_weak:
  assumes "wsval s v"
  shows "implements (is_sign_negative s) (\<lambda>r. \<exists>e. reads_sign r v e (v < 0))" "implements (is_sign_positive s) (\<lambda>r. \<exists>e. reads_sign r v e (0 < v))"
proof -
  obtain u where u: "sval s u" "v = sgn u * \<bar>v\<bar>" using wsvalE [OF assms] .
  have "(u < 0) = (v < 0)" "(0 < u) = (0 < v)" if "v \<noteq> 0"
  proof -
    have "sgn v = sgn (sgn u * \<bar>v\<bar>)" using u(2) by simp
    also have "\<dots> = sgn u" using that by (simp add: sgn_mult)
    finally show "(u < 0) = (v < 0)" "(0 < u) = (0 < v)" by (auto simp: sgn_if split: if_splits)
  qed
  then show "implements (is_sign_negative s) (\<lambda>r. \<exists>e. reads_sign r v e (v < 0))" "implements (is_sign_positive s) (\<lambda>r. \<exists>e. reads_sign r v e (0 < v))"
    unfolding reads_sign_def
    by (blast intro: implements_weaken [OF implements_is_sign(1) [OF u(1)]] implements_weaken [OF implements_is_sign(2) [OF u(1)]])+
qed

lemma bigw_zero_if:
  assumes "bval c e" "bigw a n v"
  shows "bigw (zero_bigint_if c a) n (if e then 0 else v)"
proof -
  have "bigw \<lparr>bi_abs = zero_biguint, bi_sign = Const 0\<rparr> 0 0" using bigw_zero by (simp add: zero_bigint_def)
  from bigw_select [OF assms(1) this assms(2)] show ?thesis by (simp add: zero_bigint_if_def select_bigint_def)
qed

lemma bigw_one_sign: "big a n k \<Longrightarrow> bigw \<lparr>bi_abs = a, bi_sign = Const 1\<rparr> n (int k)"
  using bigw_parts [OF _ sval_Const(2)] by simp

lemma implements_positive_part:
  assumes "bigw a n v"
  shows "implements (positive_part a) (\<lambda>r. bigw r n (max 0 v))"
  unfolding positive_part_def
proof (rule implements_bind [OF implements_is_sign_weak(2) [OF bigwD(4) [OF assms]]], elim exE, rule implements_return)
  fix p e assume p: "reads_sign p v e (0 < v)"
  then have b: "bval p e" by (simp add: reads_sign_def)
  have "bigw \<lparr>bi_abs = bi_abs a, bi_sign = Const 1\<rparr> n \<bar>v\<bar>"
    using bigw_one_sign [of "bi_abs a" n "nat \<bar>v\<bar>"] assms by (simp add: bigw_def)
  moreover have "bigw \<lparr>bi_abs = zero_biguint, bi_sign = Const 0\<rparr> 0 0" using bigw_zero by (simp add: zero_bigint_def)
  ultimately have "bigw (select_bigint p \<lparr>bi_abs = bi_abs a, bi_sign = Const 1\<rparr> \<lparr>bi_abs = zero_biguint, bi_sign = Const 0\<rparr>) (max n 0) (if e then \<bar>v\<bar> else 0)"
    by (rule bigw_select [OF b])
  moreover have "(if e then \<bar>v\<bar> else 0) = max 0 v" using p by (auto simp: reads_sign_def)
  ultimately show "bigw \<lparr>bi_abs = select_biguint p (bi_abs a) zero_biguint, bi_sign = select p (Const 1) (Const 0)\<rparr> n (max 0 v)"
    by (simp add: select_bigint_def)
qed

lemma implements_margin_if_closed:
  assumes "bigw a n v"
  shows "implements (margin_if_closed a) (\<lambda>r. bigw r n (- max 0 v))"
  unfolding margin_if_closed_def
proof (rule implements_bind [OF implements_is_sign_weak(1) [OF bigwD(4) [OF assms]]], elim exE, rule implements_return)
  fix p e assume p: "reads_sign p v e (v < 0)"
  have "wsval (b_mul (bi_sign a) (Const (- 1))) (v * - 1)"
    by (rule wsval_mult [OF bigwD(4) [OF assms] sval_wsval [OF sval_Const(3)]])
  then have "bigw \<lparr>bi_abs = bi_abs a, bi_sign = b_mul (bi_sign a) (Const (- 1))\<rparr> n (- v)" using assms by (simp add: bigw_def)
  from bigw_zero_if [OF _ this, of p e] p
  show "bigw (zero_bigint_if p \<lparr>bi_abs = bi_abs a, bi_sign = b_mul (bi_sign a) (Const (- 1))\<rparr>) n (- max 0 v)"
    by (auto simp: reads_sign_def max_def split: if_splits)
qed

lemma sub_values:
  assumes "bigw a 3 v" "bigw b n w" "n \<le> 3"
  shows "realises (sub_bigint_non_carry a b BIG_U96_LIMBS) (\<bar>v - w\<bar> < 2 ^ 96) (\<lambda>r. bigw r 3 (v - w))"
  using realises_sub_bigint_weak [OF assms(1,2), of 3] assms(3) by (simp add: limb_counts)

lemma realises_margin_if_side_changed:
  assumes "big req 3 q" "bigw margin 3 m" "bigw pnl 3 u"
  shows "realises (margin_if_side_changed req margin pnl) (\<bar>m + u\<bar> < 2 ^ 96 \<and> \<bar>int q - (m + u)\<bar> < 2 ^ 96) (\<lambda>r. bigw r 3 (int q - (m + u)))"
  unfolding margin_if_side_changed_def
  by (rule realises_bind [OF add_values [OF assms(2,3)]], simp, rule sub_values [OF bigw_one_sign [OF assms(1)]], assumption, simp)

lemma realises_margin_if_increased:
  assumes u: "get_signed_target (sub_signed new old) = d" and req: "big req 3 q" and fee: "bigw fee n f" "n \<le> 3"
  defines "p \<equiv> d * int USDC_TO_COLLATERAL_MULTIPLIER - f"
  shows "realises (margin_if_increased new old req fee) (\<bar>p\<bar> < 2 ^ 96 \<and> \<bar>int q - p\<bar> < 2 ^ 96) (\<lambda>r. bigw r 3 (max 0 (int q - p)))"
  unfolding margin_if_increased_def Let_def
proof (rule realises_after [OF implements_signed_target_to_bigint], unfold u)
  have mult: "big (constant_biguint USDC_TO_COLLATERAL_MULTIPLIER) 1 USDC_TO_COLLATERAL_MULTIPLIER"
    by (rule constant_biguint_single(2)) (simp_all add: usdc_multiplier)
  fix b assume b: "bigz b 2 d"
  have small: "\<bar>d\<bar> < 2 ^ 65" using bigz_bound [OF b] by simp
  show "realises (circ_bind (mul_bigint_with_biguint_non_carry b (constant_biguint USDC_TO_COLLATERAL_MULTIPLIER) BIG_U96_LIMBS) (\<lambda>t.
      circ_bind (sub_bigint_non_carry t fee BIG_U96_LIMBS) (\<lambda>t. circ_bind (biguint_to_bigint req) (\<lambda>ob.
      circ_bind (sub_bigint_non_carry ob t BIG_U96_LIMBS) (\<lambda>r. circ_bind (is_sign_negative (bi_sign r)) (\<lambda>n. circ_return (zero_bigint_if n r)))))))
    (\<bar>p\<bar> < 2 ^ 96 \<and> \<bar>int q - p\<bar> < 2 ^ 96) (\<lambda>r. bigw r 3 (max 0 (int q - p)))"
  proof (rule realises_after [OF implements_to_collateral [OF b _ _ small mult]], simp, simp)
    fix t assume t: "bigz t 3 (d * int USDC_TO_COLLATERAL_MULTIPLIER)"
    note req' = implements_biguint_to_bigint [OF bigD(1) [OF req], unfolded bigD(2,3) [OF req]]
    show "realises (circ_bind (sub_bigint_non_carry t fee BIG_U96_LIMBS) (\<lambda>t. circ_bind (biguint_to_bigint req) (\<lambda>ob.
        circ_bind (sub_bigint_non_carry ob t BIG_U96_LIMBS) (\<lambda>r. circ_bind (is_sign_negative (bi_sign r)) (\<lambda>n. circ_return (zero_bigint_if n r))))))
      (\<bar>p\<bar> < 2 ^ 96 \<and> \<bar>int q - p\<bar> < 2 ^ 96) (\<lambda>r. bigw r 3 (max 0 (int q - p)))"
    proof (rule realises_bind [OF sub_values [OF bigz_bigw [OF t] fee, folded p_def]], rule realises_after [OF req'],
        rule realises_bind [where P' = True, simplified, OF sub_values [OF bigz_bigw]], assumption, assumption, simp)
      fix r assume r: "bigw r 3 (int q - p)"
      show "realises (circ_bind (is_sign_negative (bi_sign r)) (\<lambda>n. circ_return (zero_bigint_if n r))) True (\<lambda>r. bigw r 3 (max 0 (int q - p)))"
      proof (rule realises_after [OF implements_is_sign_weak(1) [OF bigwD(4) [OF r]]], elim exE, rule realises_return)
        fix n e assume n: "reads_sign n (int q - p) e (int q - p < 0)"
        then have "bval n e" by (simp add: reads_sign_def)
        from bigw_zero_if [OF this r] n show "bigw (zero_bigint_if n r) 3 (max 0 (int q - p))"
          by (auto simp: reads_sign_def max_def split: if_splits)
      qed
    qed
  qed
qed

definition ceil_quotient :: "nat \<Rightarrow> nat \<Rightarrow> nat" where
  "ceil_quotient a b = a div b + of_bool (b \<noteq> 0 \<and> a mod b \<noteq> 0)"

text \<open>The value the smaller position is to keep: its share of the old value, rounded up, and at least the requirement.\<close>

definition target_value :: "int \<Rightarrow> nat \<Rightarrow> nat \<Rightarrow> nat \<Rightarrow> nat" where
  "target_value t new_abs old_abs req = (if 0 < t then max (ceil_quotient (nat \<bar>t\<bar> * new_abs) old_abs) req else req)"

definition decrease_fits :: "int \<Rightarrow> int \<Rightarrow> nat \<Rightarrow> nat \<Rightarrow> nat \<Rightarrow> bool" where
  "decrease_fits t n new_abs old_abs req \<longleftrightarrow> \<bar>t\<bar> < 2 ^ 96 \<and> \<bar>n\<bar> < 2 ^ 96 \<and> nat \<bar>t\<bar> * new_abs < 2 ^ 128 \<and>
    ceil_quotient (nat \<bar>t\<bar> * new_abs) old_abs < 2 ^ 96 \<and> \<bar>n - int (target_value t new_abs old_abs req)\<bar> < 2 ^ 96"

lemma nat_min: "min (nat x) (nat y) = nat (min x y)"
  by (simp add: min_def nat_le_eq_zle)

lemma abs_max_0: "\<bar>max 0 x\<bar> = max 0 x" for x :: int
  by simp

text \<open>A product of signs is the sign of the smaller of two numbers that are not negative.\<close>

lemma wsval_min:
  assumes "wsval s (x * y * - 1)" "0 \<le> x" "0 \<le> y"
  shows "wsval s (- min x y)"
proof -
  obtain u where "sval s u" "x * y * - 1 \<noteq> 0 \<longrightarrow> sgn u = sgn (x * y * - 1)" using assms(1) by (auto simp: wsval_def)
  moreover have "- min x y \<noteq> 0 \<Longrightarrow> x * y * - 1 \<noteq> 0 \<and> sgn (x * y * - 1) = sgn (- min x y)"
    using assms(2,3) by (auto simp: sgn_if min_def zero_less_mult_iff mult_less_0_iff split: if_splits)
  ultimately show ?thesis unfolding wsval_def by metis
qed

lemma realises_margin_if_decreased:
  assumes om: "bigw old_margin 3 om" and ou: "bigw old_pnl 3 ou" and m: "bigw margin 3 m" and u: "bigw pnl 3 u"
    and po: "big old_abs 2 po" and pn: "big new_abs 2 pn" and req: "big req 3 q"
  defines "t \<equiv> om + ou" and "n \<equiv> m + u"
  shows "realises (margin_if_decreased old_margin old_pnl margin pnl old_abs new_abs req) (decrease_fits t n pn po q)
    (\<lambda>r. bigw r 3 (- min (max 0 (n - int (target_value t pn po q))) (max 0 m)))"
  unfolding margin_if_decreased_def Let_def decrease_fits_def
proof (rule realises_bind [OF add_values [OF om ou, folded t_def]], simp, rule realises_bind [OF add_values [OF m u, folded n_def]], simp)
  let ?c = "ceil_quotient (nat \<bar>t\<bar> * pn) po" and ?T = "target_value t pn po q"
  let ?r = "- min (max 0 (n - int ?T)) (max 0 m)"
  let ?after = "\<lambda>sign new_total z. circ_bind (max_biguint z req) (\<lambda>mx. circ_bind (is_sign_positive sign) (\<lambda>p.
      circ_bind (sub_bigint_non_carry new_total \<lparr>bi_abs = select_biguint p mx req, bi_sign = Const 1\<rparr> BIG_U96_LIMBS) (\<lambda>d.
      circ_bind (positive_part d) (\<lambda>d. circ_bind (positive_part margin) (\<lambda>mo. circ_bind (min_biguint (bi_abs d) (bi_abs mo)) (\<lambda>abs.
      circ_return \<lparr>bi_abs = abs, bi_sign = b_mul (b_mul (bi_sign d) (bi_sign mo)) (Const (- 1))\<rparr>))))))"
  fix ot nt assume ot: "bigw ot 3 t" and nt: "bigw nt 3 n"
  have times: "realises (mul_biguint_non_carry (bi_abs ot) new_abs BIG_U128_LIMBS) (nat \<bar>t\<bar> * pn < 2 ^ 128) (\<lambda>r. big r 4 (nat \<bar>t\<bar> * pn))"
    using realises_mul_biguint_non_carry [OF bigwD(1) [OF ot] bigD(1) [OF pn], of 4]
    unfolding bigwD(2,3) [OF ot] bigD(2,3) [OF pn] by (simp add: limb_counts)
  show "realises (circ_bind (mul_biguint_non_carry (bi_abs ot) new_abs BIG_U128_LIMBS) (\<lambda>x. circ_bind (ceil_div_biguint x old_abs) (\<lambda>y.
      circ_bind (trim_bigint \<lparr>bi_abs = y, bi_sign = bi_sign ot\<rparr> BIG_U96_LIMBS)
        (\<lambda>tv. ?after (bi_sign tv) nt (bi_abs tv)))))
    (nat \<bar>t\<bar> * pn < 2 ^ 128 \<and> ?c < 2 ^ 96 \<and> \<bar>n - int ?T\<bar> < 2 ^ 96) (\<lambda>r. bigw r 3 ?r)"
  proof (rule realises_bind [OF times])
    fix x assume x: "big x 4 (nat \<bar>t\<bar> * pn)"
    have ceil: "implements (ceil_div_biguint x old_abs) (\<lambda>r. big r 5 ?c)"
      using implements_ceil_div_biguint [OF bigD(1) [OF x] bigD(1) [OF po]]
      unfolding bigD(2,3) [OF x] bigD(2,3) [OF po] by (simp add: ceil_quotient_def)
    show "realises (circ_bind (ceil_div_biguint x old_abs) (\<lambda>y. circ_bind (trim_bigint \<lparr>bi_abs = y, bi_sign = bi_sign ot\<rparr> BIG_U96_LIMBS)
        (\<lambda>tv. ?after (bi_sign tv) nt (bi_abs tv))))
      (?c < 2 ^ 96 \<and> \<bar>n - int ?T\<bar> < 2 ^ 96) (\<lambda>r. bigw r 3 ?r)"
    proof (rule realises_after [OF ceil], unfold trim_bigint_def bigint.simps circ_bind_assoc circ_return_bind)
      fix y assume y: "big y 5 ?c"
      have trim: "realises (trim_biguint y BIG_U96_LIMBS) (?c < 2 ^ 96) (\<lambda>r. big r 3 ?c)"
        using realises_trim_biguint [OF bigD(1) [OF y], of 3] unfolding bigD(2,3) [OF y] by (simp add: limb_counts)
      show "realises (circ_bind (trim_biguint y BIG_U96_LIMBS) (\<lambda>x. ?after (bi_sign ot) nt x))
        (?c < 2 ^ 96 \<and> \<bar>n - int ?T\<bar> < 2 ^ 96) (\<lambda>r. bigw r 3 ?r)"
      proof (rule realises_bind [OF trim], rule realises_after [OF implements_max_biguint [OF bigD(1) bigD(1) [OF req]]], assumption,
          rule realises_after [OF implements_is_sign_weak(2) [OF bigwD(4) [OF ot]]], elim exE)
        fix z mx p e
        assume z: "big z 3 ?c" and mx: "big mx (max (length z) (length req)) (max (bnat z) (bnat req))" and p: "reads_sign p t e (0 < t)"
        have mx: "big mx 3 (max ?c q)" using mx bigD [OF z] bigD [OF req] by simp
        have pb: "bval p e" using p by (simp add: reads_sign_def)
        have "big (select_biguint p mx req) 3 (if e then max ?c q else q)"
          using select_biguint_big [OF pb bigD(1) [OF mx] bigD(1) [OF req]] unfolding bigD(2,3) [OF mx] bigD(2,3) [OF req] by simp
        moreover have "(if e then max ?c q else q) = ?T" using p by (auto simp: reads_sign_def target_value_def ceil_quotient_def)
        ultimately have T: "bigw \<lparr>bi_abs = select_biguint p mx req, bi_sign = Const 1\<rparr> 3 (int ?T)" using bigw_one_sign by simp
        show "realises (circ_bind (sub_bigint_non_carry nt \<lparr>bi_abs = select_biguint p mx req, bi_sign = Const 1\<rparr> BIG_U96_LIMBS) (\<lambda>d.
          circ_bind (positive_part d) (\<lambda>d. circ_bind (positive_part margin) (\<lambda>mo. circ_bind (min_biguint (bi_abs d) (bi_abs mo)) (\<lambda>abs.
          circ_return \<lparr>bi_abs = abs, bi_sign = b_mul (b_mul (bi_sign d) (bi_sign mo)) (Const (- 1))\<rparr>)))))
          (\<bar>n - int ?T\<bar> < 2 ^ 96) (\<lambda>r. bigw r 3 ?r)"
        proof (rule realises_bind [where P' = True, simplified, OF sub_values [OF nt T]], simp, rule realises_after [OF implements_positive_part], assumption,
            rule realises_after [OF implements_positive_part [OF m]], rule realises_after [OF implements_min_biguint [OF bigwD(1) bigwD(1)]],
            assumption, assumption, rule realises_return)
          fix d d' mo a
          assume d: "bigw d' 3 (max 0 (n - int ?T))" and mo: "bigw mo 3 (max 0 m)"
            and a: "big a (max (length (bi_abs d')) (length (bi_abs mo))) (min (bnat (bi_abs d')) (bnat (bi_abs mo)))"
          have a: "big a 3 (nat (min (max 0 (n - int ?T)) (max 0 m)))"
            using a bigwD(2,3) [OF d] bigwD(2,3) [OF mo] by (simp only: nat_min abs_max_0 max.idem)
          have "wsval (b_mul (b_mul (bi_sign d') (bi_sign mo)) (Const (- 1))) (max 0 (n - int ?T) * max 0 m * - 1)"
            by (intro wsval_mult bigwD(4) [OF d] bigwD(4) [OF mo] sval_wsval [OF sval_Const(3)])
          from wsval_min [OF this] have "wsval (b_mul (b_mul (bi_sign d') (bi_sign mo)) (Const (- 1))) ?r" by simp
          moreover have "\<bar>?r\<bar> = min (max 0 (n - int ?T)) (max 0 m)" by simp
          ultimately show "bigw \<lparr>bi_abs = a, bi_sign = b_mul (b_mul (bi_sign d') (bi_sign mo)) (Const (- 1))\<rparr> 3 ?r"
            using a by (simp only: bigw_def bigint.simps)
        qed
      qed
    qed
  qed
qed

section \<open>Contract of the change of margin\<close>

definition multiplier_of :: "market_risk_details \<Rightarrow> position_state \<Rightarrow> nat" where
  "multiplier_of market s = market_price market * MARGIN_FRACTION_MULTIPLIER * fraction_for market s"

definition requirement_of :: "market_risk_details \<Rightarrow> position_state \<Rightarrow> nat" where
  "requirement_of market s = nat \<bar>size_of s\<bar> * multiplier_of market s"

definition worth_of :: "market_risk_details \<Rightarrow> position_state \<Rightarrow> int" where
  "worth_of market s = margin_of s + unrealized_of market s * int USDC_TO_COLLATERAL_MULTIPLIER"

text \<open>The profit the trade itself makes, after its fee.\<close>

definition trade_profit :: "market_risk_details \<Rightarrow> position_state \<Rightarrow> position_state \<Rightarrow> int \<Rightarrow> int" where
  "trade_profit market s s' fee = (unrealized_of market s' - unrealized_of market s) * int USDC_TO_COLLATERAL_MULTIPLIER - fee"

definition margin_change :: "market_risk_details \<Rightarrow> position_state \<Rightarrow> position_state \<Rightarrow> int \<Rightarrow> bool \<Rightarrow> int \<Rightarrow> int" where
  "margin_change market s s' oi flipped fee =
    (let worth = worth_of market s'; req = requirement_of market s' in
     if size_of s' = 0 then - max 0 (margin_of s')
     else if flipped then int req - worth
     else if oi < 0 then
       - min (max 0 (worth - int (target_value (worth_of market s) (nat \<bar>size_of s'\<bar>) (nat \<bar>size_of s\<bar>) req))) (max 0 (margin_of s'))
     else max 0 (int (nat \<bar>oi\<bar> * multiplier_of market s') - trade_profit market s s' fee))"

definition margin_fits :: "market_risk_details \<Rightarrow> position_state \<Rightarrow> position_state \<Rightarrow> int \<Rightarrow> int \<Rightarrow> bool" where
  "margin_fits market s s' oi fee \<longleftrightarrow>
    nat \<bar>oi\<bar> * multiplier_of market s' < 2 ^ 96 \<and> requirement_of market s' < 2 ^ 96 \<and>
    (\<bar>worth_of market s'\<bar> < 2 ^ 96 \<and> \<bar>int (requirement_of market s') - worth_of market s'\<bar> < 2 ^ 96) \<and>
    (\<bar>trade_profit market s s' fee\<bar> < 2 ^ 96 \<and> \<bar>int (nat \<bar>oi\<bar> * multiplier_of market s') - trade_profit market s s' fee\<bar> < 2 ^ 96) \<and>
    decrease_fits (worth_of market s) (worth_of market s') (nat \<bar>size_of s'\<bar>) (nat \<bar>size_of s\<bar>) (requirement_of market s')"

lemma hundred_multiplier: "market_ok market \<Longrightarrow> uval (mul_many [mark_price market, quote_multiplier market, constant_u64 MARGIN_FRACTION_MULTIPLIER])
    = market_price market * MARGIN_FRACTION_MULTIPLIER" "market_ok market \<Longrightarrow> market_price market < 2 ^ 46"
proof -
  assume market: "market_ok market"
  have hundred: "uval (constant_u64 MARGIN_FRACTION_MULTIPLIER) = 100" unfolding constant_u64_def margin_fraction_multiplier by (rule uval_big) simp
  have lt: "uval (mark_price market) * uval (quote_multiplier market) < 2 ^ 32 * 2 ^ 14"
    using market_okD(1,2) [OF market] by (intro mult_strict_mono) simp_all
  then have "uval (mark_price market) * uval (quote_multiplier market) * 100 < p_nat" by simp
  then show "uval (mul_many [mark_price market, quote_multiplier market, constant_u64 MARGIN_FRACTION_MULTIPLIER]) = market_price market * MARGIN_FRACTION_MULTIPLIER"
    using uval_mul_many3 [of "mark_price market" "quote_multiplier market" "constant_u64 MARGIN_FRACTION_MULTIPLIER"]
    unfolding hundred by (simp add: market_price_def margin_fraction_multiplier mult_ac)
  show "market_price market < 2 ^ 46" using lt by (simp add: market_price_def mult.commute)
qed

lemma implements_common_multiplier:
  assumes "represents pos s" "fraction_of s < 2 ^ MARGIN_FRACTION_BITS" "market_ok market"
  shows "implements (common_multiplier market pos) (\<lambda>r. big r 3 (multiplier_of market s))"
  unfolding common_multiplier_def
proof (rule implements_bind [OF implements_target_to_biguint], unfold hundred_multiplier(1) [OF assms(3)],
    rule implements_bind [OF implements_fraction_for(1) [OF assms]])
  fix m f assume m: "big m 2 (market_price market * MARGIN_FRACTION_MULTIPLIER)" and f: "uval f = fraction_for market s"
  have f16: "uval f < 2 ^ 16" using implements_fraction_for(2) [OF assms] f by simp
  then have "uval f < 2 ^ 32" by simp
  from big_single [OF this] have f': "big (target_to_biguint_single_limb_unsafe f) 1 (fraction_for market s)"
    by (simp only: target_to_biguint_single_limb_unsafe_def f)
  have "market_price market * MARGIN_FRACTION_MULTIPLIER * uval f < 2 ^ 53 * 2 ^ 16"
    using hundred_multiplier(2) [OF assms(3)] f16 by (intro mult_strict_mono) (simp_all add: margin_fraction_multiplier)
  then show "implements (mul_biguint_non_carry m (target_to_biguint_single_limb_unsafe f) BIG_U96_LIMBS) (\<lambda>r. big r 3 (multiplier_of market s))"
    unfolding multiplier_of_def f by (intro big_mul3' [OF m f']) simp_all
qed

lemma implements_unrealized_in_collateral:
  fixes market :: market_risk_details
  assumes pos: "represents pos s" "position_fits market s" and a: "uval a = nat \<bar>size_of s\<bar>"
  shows "implements (unrealized_in_collateral market a pos) (\<lambda>(u, b). get_signed_target u = unrealized_of market s \<and>
    bigz b 3 (unrealized_of market s * int USDC_TO_COLLATERAL_MULTIPLIER))"
proof -
  let ?m = "int (uval (quote_multiplier market) * uval (mark_price market) * uval a) - int (uval (entry_quote pos))"
  note fits = position_fitsD [OF pos(2)]
  have m: "?m = int (notional_of market s) - entry_of s"
    using representsD(2) [OF pos(1)] by (simp add: a notional_of_def market_price_def)
  have range: "signed_range ?m" "signed_range (- ?m)"
    unfolding m using fits(2,4,5) by (simp_all add: signed_range_def goldilocks_order_nat)
  note pnl = implements_get_position_unrealized_pnl [OF bigz16D(4) [OF representsD(1) [OF pos(1)]] range, unfolded m]
  have mult: "big (constant_biguint USDC_TO_COLLATERAL_MULTIPLIER) 1 USDC_TO_COLLATERAL_MULTIPLIER"
    by (rule constant_biguint_single(2)) (simp_all add: usdc_multiplier)
  have small: "\<bar>unrealized_of market s\<bar> < 2 ^ 65" using unrealized_bound [OF pos(2)] by simp
  show ?thesis
    unfolding unrealized_in_collateral_def
  proof (rule implements_bind [OF pnl], rule implements_bind [OF implements_signed_target_to_bigint])
    fix u b assume "get_signed_target u = (if 0 < size_of s then int (notional_of market s) - entry_of s else - (int (notional_of market s) - entry_of s))"
      and b: "bigz b 2 (get_signed_target u)"
    then have u: "get_signed_target u = unrealized_of market s" by (simp add: unrealized_of_def)
    show "implements (circ_bind (mul_bigint_with_biguint_non_carry b (constant_biguint USDC_TO_COLLATERAL_MULTIPLIER) BIG_U96_LIMBS)
        (\<lambda>b. circ_return (u, b))) (\<lambda>(u, b). get_signed_target u = unrealized_of market s \<and> bigz b 3 (unrealized_of market s * int USDC_TO_COLLATERAL_MULTIPLIER))"
      by (rule implements_bind [OF implements_to_collateral [OF b [unfolded u] _ _ small mult]]) (simp_all add: implements_return u)
  qed
qed

lemma big_position: "bigz16 a 4 v \<Longrightarrow> big (biguint_u16_to_biguint (bi_abs a)) 2 (nat \<bar>v\<bar>)"
  using biguint_u16_to_biguint_big [OF bigz16D(1)] bigz16D(2,3) by fastforce

text \<open>The selection of the case, for any values of the two positions before and after.\<close>

definition case_change :: "bool \<Rightarrow> bool \<Rightarrow> bool \<Rightarrow> int \<Rightarrow> int \<Rightarrow> int \<Rightarrow> nat \<Rightarrow> nat \<Rightarrow> nat \<Rightarrow> int" where
  "case_change closed flipped decreased m worth profit oreq req target =
    (if closed then - max 0 m else if flipped then int req - worth
     else if decreased then - min (max 0 (worth - int target)) (max 0 m) else max 0 (int oreq - profit))"

lemma realises_select_margin_change:
  assumes en: "bval is_enabled b" and dec: "bval dec e" and flip: "bval flip fl" and old: "bigz16 (position old) 4 v" "bigw (allocated_margin old) 3 om"
    and new: "bigz16 (position new) 4 v'" "bigw (allocated_margin new) 3 m" and orq: "big orq 3 oq" and rq: "big rq 3 q" and fee: "bigw fee n f" "n \<le> 3"
    and uo: "bigz bo 3 u" and un: "bigz bn 3 u'" "get_signed_target (sub_signed un uo) = d" and r1: "bigw r1 3 (- max 0 m)"
  defines "p \<equiv> d * int USDC_TO_COLLATERAL_MULTIPLIER - f" and "t \<equiv> om + u" and "w \<equiv> m + u'"
  shows "realises (select_margin_change is_enabled dec flip old new orq rq fee (uo, bo) (un, bn) r1)
    ((\<bar>w\<bar> < 2 ^ 96 \<and> \<bar>int q - w\<bar> < 2 ^ 96) \<and> (\<bar>p\<bar> < 2 ^ 96 \<and> \<bar>int oq - p\<bar> < 2 ^ 96) \<and> decrease_fits t w (nat \<bar>v'\<bar>) (nat \<bar>v\<bar>) q)
    (\<lambda>r. bigw r 3 (if b then case_change (v' = 0) fl e m w p oq q (target_value t (nat \<bar>v'\<bar>) (nat \<bar>v\<bar>) q) else 0))"
  unfolding select_margin_change_def Let_def prod.case
proof (rule realises_bind [OF realises_margin_if_side_changed [OF rq new(2) bigz_bigw [OF un(1)], folded w_def]],
    rule realises_bind [OF realises_margin_if_increased [OF un(2) orq fee, folded p_def]],
    rule realises_bind [where P' = True, simplified, OF realises_margin_if_decreased [OF old(2) bigz_bigw [OF uo] new(2) bigz_bigw [OF un(1)]
      big_position [OF old(1)] big_position [OF new(1)] rq, folded t_def w_def]],
    rule realises_after [OF implements_is_sign(4) [OF bigz16D(4) [OF new(1)]]], rule realises_return)
  let ?T = "target_value t (nat \<bar>v'\<bar>) (nat \<bar>v\<bar>) q"
  fix r2 r3 r4 cl
  assume r2: "bigw r2 3 (int q - w)" and r3: "bigw r3 3 (max 0 (int oq - p))" and cl: "bval cl (v' = 0)"
    and r4: "bigw r4 3 (- min (max 0 (w - int ?T)) (max 0 m))"
  from bigw_select [OF en bigw_select [OF cl r1 bigw_select [OF flip r2 bigw_select [OF dec r4 r3]]] bigw_zero]
  show "bigw (select_bigint is_enabled (select_bigint cl r1 (select_bigint flip r2 (select_bigint dec r4 r3))) zero_bigint) 3
      (if b then case_change (v' = 0) fl e m w p oq q ?T else 0)"
    by (simp add: case_change_def cong: if_cong)
qed

lemma realises_oi_requirement:
  fixes oi_abs :: target
  assumes c: "big c 3 C" and oa: "int (uval oi_abs) = \<bar>oi\<bar>" and ob: "big ob 2 (uval oi_abs)"
  shows "realises (mul_biguint_non_carry ob c BIG_U96_LIMBS) (nat \<bar>oi\<bar> * C < 2 ^ 96) (\<lambda>r. big r 3 (nat \<bar>oi\<bar> * C))"
proof -
  have "big ob 2 (nat \<bar>oi\<bar>)" using ob by (simp flip: oa)
  then show ?thesis by (rule big_mul3 [OF _ c]) simp_all
qed

lemma realises_position_requirement:
  assumes c: "big c 3 (multiplier_of market s)" and pos: "represents pos s"
  shows "realises (mul_biguint_non_carry (biguint_u16_to_biguint (bi_abs (position pos))) c BIG_U96_LIMBS) (requirement_of market s < 2 ^ 96)
    (\<lambda>r. big r 3 (requirement_of market s))"
  unfolding requirement_of_def by (rule big_mul3 [OF big_position [OF representsD(1) [OF pos]] c]) simp_all

lemma realises_calculate_isolated_margin_change:
  fixes market :: market_risk_details
  assumes en: "bval is_enabled b" and market: "market_ok market" and old: "represents old s" "position_fits market s"
    and new: "represents new s'" "position_fits market s'" and oi: "get_signed_target oi_delta = oi"
    and flip: "bval flip flipped" and fee: "bigw fee n f" "n \<le> 3"
  shows "realises (calculate_isolated_margin_change market is_enabled oi_delta old new flip fee) (margin_fits market s s' oi f)
    (\<lambda>r. bigw r 3 (if b then margin_change market s s' oi flipped f else 0))"
  unfolding calculate_isolated_margin_change_def Let_def margin_fits_def
proof (rule realises_after [OF implements_common_multiplier [OF new(1) position_fitsD(7) [OF new(2)] market]], rule realises_after [OF implements_signed_abs],
    unfold split_paired_all prod.case oi, elim conjE, rule realises_after [OF implements_is_sign(1)], assumption,
    rule realises_after [OF implements_target_to_biguint],
    rule realises_after [OF uval_biguint_u16_to_target [OF representsD(1) [OF old(1)] position_fitsD(1) [OF old(2)]]],
    rule realises_after [OF uval_biguint_u16_to_target [OF representsD(1) [OF new(1)] position_fitsD(1) [OF new(2)]]],
    rule realises_bind [OF realises_oi_requirement], assumption, assumption, assumption,
    rule realises_bind [OF realises_position_requirement [OF _ new(1)]], assumption,
    rule realises_after [OF implements_margin_if_closed [OF representsD(5) [OF new(1)]]])
  let ?oreq = "nat \<bar>oi\<bar> * multiplier_of market s'"
  fix c ou osg dec ob oa na orq rq r1
  assume dec: "bval dec (oi < 0)" and olda: "uval oa = nat \<bar>size_of s\<bar>" and newa: "uval na = nat \<bar>size_of s'\<bar>"
    and orq: "big orq 3 ?oreq" and rq: "big rq 3 (requirement_of market s')" and r1: "bigw r1 3 (- max 0 (margin_of s'))"
  have diff: "get_signed_target (sub_signed un uo) = unrealized_of market s' - unrealized_of market s"
    if "get_signed_target uo = unrealized_of market s" "get_signed_target un = unrealized_of market s'" for un uo
  proof -
    have "\<bar>unrealized_of market s' - unrealized_of market s\<bar> < 2 ^ 60" using unrealized_bound [OF old(2)] unrealized_bound [OF new(2)] by simp
    then have "signed_range (unrealized_of market s' - unrealized_of market s)"
      unfolding abs_less_iff by (simp add: signed_range_def goldilocks_order_nat)
    then show ?thesis using get_signed_target_arith(2) [of un uo] that by simp
  qed
  show "realises (circ_bind (unrealized_in_collateral market oa old) (\<lambda>(uo, bo). circ_bind (unrealized_in_collateral market na new) (\<lambda>(un, bn).
      select_margin_change is_enabled dec flip old new orq rq fee (uo, bo) (un, bn) r1)))
    ((\<bar>worth_of market s'\<bar> < 2 ^ 96 \<and> \<bar>int (requirement_of market s') - worth_of market s'\<bar> < 2 ^ 96) \<and>
      (\<bar>trade_profit market s s' f\<bar> < 2 ^ 96 \<and> \<bar>int ?oreq - trade_profit market s s' f\<bar> < 2 ^ 96) \<and>
      decrease_fits (worth_of market s) (worth_of market s') (nat \<bar>size_of s'\<bar>) (nat \<bar>size_of s\<bar>) (requirement_of market s'))
    (\<lambda>r. bigw r 3 (if b then margin_change market s s' oi flipped f else 0))"
  proof (rule realises_after [OF implements_unrealized_in_collateral [OF old olda]], unfold split_paired_all prod.case, elim conjE,
      rule realises_after [OF implements_unrealized_in_collateral [OF new newa]], unfold split_paired_all prod.case, elim conjE)
    fix uo bo un bn
    assume uo: "get_signed_target uo = unrealized_of market s" "bigz bo 3 (unrealized_of market s * int USDC_TO_COLLATERAL_MULTIPLIER)"
      and un: "get_signed_target un = unrealized_of market s'" "bigz bn 3 (unrealized_of market s' * int USDC_TO_COLLATERAL_MULTIPLIER)"
    note sel = realises_select_margin_change [OF en dec flip representsD(1) [OF old(1)] representsD(5) [OF old(1)] representsD(1) [OF new(1)]
        representsD(5) [OF new(1)] orq rq fee uo(2) un(2) diff [OF uo(1) un(1)] r1, folded worth_of_def trade_profit_def]
    have eq: "case_change (size_of s' = 0) flipped (oi < 0) (margin_of s') (worth_of market s') (trade_profit market s s' f) ?oreq (requirement_of market s')
        (target_value (worth_of market s) (nat \<bar>size_of s'\<bar>) (nat \<bar>size_of s\<bar>) (requirement_of market s')) = margin_change market s s' oi flipped f"
      by (simp add: case_change_def margin_change_def Let_def)
    show "realises (select_margin_change is_enabled dec flip old new orq rq fee (uo, bo) (un, bn) r1)
      ((\<bar>worth_of market s'\<bar> < 2 ^ 96 \<and> \<bar>int (requirement_of market s') - worth_of market s'\<bar> < 2 ^ 96) \<and>
        (\<bar>trade_profit market s s' f\<bar> < 2 ^ 96 \<and> \<bar>int ?oreq - trade_profit market s s' f\<bar> < 2 ^ 96) \<and>
        decrease_fits (worth_of market s) (worth_of market s') (nat \<bar>size_of s'\<bar>) (nat \<bar>size_of s\<bar>) (requirement_of market s'))
      (\<lambda>r. bigw r 3 (if b then margin_change market s s' oi flipped f else 0))"
      using sel unfolding eq .
  qed
qed

text \<open>Whatever the positions, an accepted run gives a regular integer, and zero when switched off.\<close>

lemma sound_any: "sound c (\<lambda>_. True)"
  by (simp add: sound_def)

lemma sound_unrealized_in_collateral: "sound (unrealized_in_collateral market a pos) (\<lambda>(u, b). \<exists>x. bigz b 3 x)"
  unfolding unrealized_in_collateral_def
proof (rule sound_bind [OF sound_any], rule sound_bind [OF implements_sound [OF implements_signed_target_to_bigint]])
  have mult: "big (constant_biguint USDC_TO_COLLATERAL_MULTIPLIER) 1 USDC_TO_COLLATERAL_MULTIPLIER"
    by (rule constant_biguint_single(2)) (simp_all add: usdc_multiplier)
  fix u b assume b: "bigz b 2 (get_signed_target u)"
  have small: "\<bar>get_signed_target u\<bar> < 2 ^ 65" using bigz_bound [OF b] by simp
  show "sound (circ_bind (mul_bigint_with_biguint_non_carry b (constant_biguint USDC_TO_COLLATERAL_MULTIPLIER) BIG_U96_LIMBS) (\<lambda>b. circ_return (u, b)))
    (\<lambda>(u, b). \<exists>x. bigz b 3 x)"
    by (rule sound_bind [OF implements_sound [OF implements_to_collateral [OF b _ _ small mult]]], simp, simp, rule sound_return) auto
qed

lemma sound_calculate_isolated_margin_change:
  fixes market :: market_risk_details
  assumes en: "bval is_enabled b" and market: "market_ok market" and old: "represents old s"
    and new: "represents new s'" "fraction_of s' < 2 ^ MARGIN_FRACTION_BITS" and flip: "bval flip flipped" and fee: "bigw fee n f" "n \<le> 3"
  shows "sound (calculate_isolated_margin_change market is_enabled oi_delta old new flip fee) (\<lambda>r. \<exists>x. bigw r 3 (if b then x else 0))"
  unfolding calculate_isolated_margin_change_def Let_def
proof (rule sound_bind [OF implements_sound [OF implements_common_multiplier [OF new market]]], rule sound_bind [OF implements_sound [OF implements_signed_abs]],
    unfold split_paired_all prod.case, elim conjE, rule sound_bind [OF implements_sound [OF implements_is_sign(1)]], assumption,
    rule sound_bind [OF implements_sound [OF implements_target_to_biguint]], rule sound_bind [OF sound_any],
    rule sound_bind [OF sound_any],
    rule sound_bind [OF realises_sound [OF realises_oi_requirement]], assumption, assumption, assumption,
    rule sound_bind [OF realises_sound [OF realises_position_requirement [OF _ new(1)]]], assumption,
    rule sound_bind [OF implements_sound [OF implements_margin_if_closed [OF representsD(5) [OF new(1)]]]],
    rule sound_bind [OF sound_unrealized_in_collateral], unfold split_paired_all prod.case, elim exE,
    rule sound_bind [OF sound_unrealized_in_collateral], unfold split_paired_all prod.case, elim exE conjE)
  fix c ou osg dec ob oa na orq rq r1 uo bo x un bn y
  assume "bval dec (get_signed_target oi_delta < 0)" "big orq 3 (nat \<bar>get_signed_target oi_delta\<bar> * multiplier_of market s')"
    "big rq 3 (requirement_of market s')" "bigw r1 3 (- max 0 (margin_of s'))" "bigz bo 3 x" "bigz bn 3 y"
  note realises_select_margin_change [OF en this(1) flip representsD(1,5) [OF old] representsD(1,5) [OF new(1)] this(2,3) fee this(5,6) refl this(4)]
  then show "sound (select_margin_change is_enabled dec flip old new orq rq fee (uo, bo) (un, bn) r1) (\<lambda>r. \<exists>x. bigw r 3 (if b then x else 0))"
    by (rule sound_weaken [OF realises_sound], elim conjE, intro exI)
qed

section \<open>Properties\<close>

text \<open>
  C13. Refinement: the circuit computes the abstract change of margin by its four cases (closed, side changed, open
  interest decreased or increased), and is satisfiable exactly when every case fits, whichever is selected.
\<close>
theorem isolated_margin_refines:
  fixes market :: market_risk_details
  assumes "bval is_enabled b" "market_ok market" "represents old s" "position_fits market s" "represents new s'" "position_fits market s'"
    and "get_signed_target oi_delta = oi" "bval flip flipped" "bigw fee n f" "n \<le> 3"
  shows "realises (calculate_isolated_margin_change market is_enabled oi_delta old new flip fee) (margin_fits market s s' oi f)
    (\<lambda>r. bigw r 3 (if b then margin_change market s s' oi flipped f else 0))"
  using assms by (rule realises_calculate_isolated_margin_change)

lemma margin_example:
  "represents (isolated_position 10 500 7 0 9920) (isolated_state 10 500 7 0 9920)" "position_fits trading_market (isolated_state 10 500 7 0 9920)"
  "represents (isolated_position (- 5) 300 7 500 59920) (isolated_state (- 5) 300 7 500 59920)"
  "position_fits trading_market (isolated_state (- 5) 300 7 500 59920)" "get_signed_target (Wire (- 5)) = - 5"
  "margin_fits trading_market (isolated_state 10 500 7 0 9920) (isolated_state (- 5) 300 7 500 59920) (- 5) 0"
proof -
  show "represents (isolated_position 10 500 7 0 9920) (isolated_state 10 500 7 0 9920)"
    "represents (isolated_position (- 5) 300 7 500 59920) (isolated_state (- 5) 300 7 500 59920)"
    by (rule represents_isolated; simp)+
  show "position_fits trading_market (isolated_state 10 500 7 0 9920)" "position_fits trading_market (isolated_state (- 5) 300 7 500 59920)"
    by (simp_all add: position_fits_def position_ok_def trading_values POSITION_SIZE_BITS_def ENTRY_QUOTE_BITS_def MARGIN_FRACTION_BITS_def)
  show "get_signed_target (Wire (- 5)) = - 5"
    by (rule get_signed_target_eqI; simp add: signed_range_def goldilocks_order_nat)
  show "margin_fits trading_market (isolated_state 10 500 7 0 9920) (isolated_state (- 5) 300 7 500 59920) (- 5) 0"
    by (simp add: margin_fits_def multiplier_of_def requirement_of_def worth_of_def trade_profit_def decrease_fits_def ceil_quotient_def target_value_def
        trading_values)
qed

lemma isolated_margin_refines_witness:
  "implements (calculate_isolated_margin_change trading_market (Const 1) (Wire (- 5)) (isolated_position 10 500 7 0 9920)
      (isolated_position (- 5) 300 7 500 59920) (Const 1) zero_bigint) (\<lambda>r. bigw r 3 329940080)"
proof -
  have "margin_change trading_market (isolated_state 10 500 7 0 9920) (isolated_state (- 5) 300 7 500 59920) (- 5) True 0 = 329940080"
    by (simp add: margin_change_def multiplier_of_def requirement_of_def worth_of_def trading_values)
  then show ?thesis
    using realises_implements [OF isolated_margin_refines [OF bval_Const(1) trading_market_ok(1) margin_example(1-5) bval_Const(1) bigw_zero] margin_example(6)]
    by simp
qed

lemma decrease_bounds:
  fixes q T w m :: int
  assumes "q \<le> T"
  shows "- min (max 0 (w - T)) (max 0 m) \<le> 0" "min w q \<le> w + - min (max 0 (w - T)) (max 0 m)" "min 0 m \<le> m + - min (max 0 (w - T)) (max 0 m)"
  using assms by (auto simp: min_def max_def)

lemma trade_gain: "margin_of s' = margin_of s - f \<Longrightarrow> trade_profit market s s' f = worth_of market s' - worth_of market s"
  by (simp add: trade_profit_def worth_of_def algebra_simps)

text \<open>
  C14. What the moved margin achieves: a closed position keeps no positive margin; a position that changed side is
  worth exactly its initial requirement; a reduced position gives nothing below its requirement and never takes
  margin; an increased one grows in worth at least by the requirement of the added size.
\<close>
theorem isolated_margin_safe:
  fixes market :: market_risk_details
  assumes "bval is_enabled True" "market_ok market" "represents old s" "position_fits market s" "represents new s'" "position_fits market s'"
    and "get_signed_target oi_delta = oi" "bval flip flipped" "bigw fee n f" "n \<le> 3"
  shows "sound (calculate_isolated_margin_change market is_enabled oi_delta old new flip fee) (\<lambda>r. \<exists>x. bigw r 3 x \<and>
    (if size_of s' = 0 then margin_of s' + x = min 0 (margin_of s')
     else if flipped then worth_of market s' + x = int (requirement_of market s')
     else if oi < 0 then x \<le> 0 \<and> min (worth_of market s') (int (requirement_of market s')) \<le> worth_of market s' + x \<and> min 0 (margin_of s') \<le> margin_of s' + x
     else 0 \<le> x \<and> (margin_of s' = margin_of s - f \<longrightarrow> worth_of market s + int (nat \<bar>oi\<bar> * multiplier_of market s') \<le> worth_of market s' + x)))"
proof (rule sound_weaken [OF realises_sound [OF realises_calculate_isolated_margin_change [OF assms]]], elim conjE, unfold if_True)
  fix r assume r: "bigw r 3 (margin_change market s s' oi flipped f)"
  have req: "int (requirement_of market s') \<le> int (target_value (worth_of market s) (nat \<bar>size_of s'\<bar>) (nat \<bar>size_of s\<bar>) (requirement_of market s'))"
    by (simp add: target_value_def)
  show "\<exists>x. bigw r 3 x \<and>
    (if size_of s' = 0 then margin_of s' + x = min 0 (margin_of s')
     else if flipped then worth_of market s' + x = int (requirement_of market s')
     else if oi < 0 then x \<le> 0 \<and> min (worth_of market s') (int (requirement_of market s')) \<le> worth_of market s' + x \<and> min 0 (margin_of s') \<le> margin_of s' + x
     else 0 \<le> x \<and> (margin_of s' = margin_of s - f \<longrightarrow> worth_of market s + int (nat \<bar>oi\<bar> * multiplier_of market s') \<le> worth_of market s' + x))"
    by (rule exI [of _ "margin_change market s s' oi flipped f"])
      (use r decrease_bounds [OF req] in \<open>auto simp: margin_change_def Let_def trade_gain\<close>)
qed

lemma isolated_margin_safe_witness:
  "sound (calculate_isolated_margin_change trading_market (Const 1) (Wire (- 5)) (isolated_position 10 500 7 0 9920)
      (isolated_position (- 5) 300 7 500 59920) (Const 1) zero_bigint) (\<lambda>r. \<exists>x. bigw r 3 x \<and> - 299940080 + x = 30000000)"
  using isolated_margin_safe [OF bval_Const(1) trading_market_ok(1) margin_example(1-5) bval_Const(1) bigw_zero]
  by (simp add: multiplier_of_def requirement_of_def worth_of_def trading_values)

end
