(* ===== verification/Spot_Trade.thy ===== *)
theory Spot_Trade
  imports Exchange_Types
begin

text \<open>
  Settlement of a spot trade (\<open>apply_spot_trade\<close> of \<open>circuit/src/apply_trade.rs\<close>): the six balance
  deltas of taker, maker and fee account in the base and the quote asset. The abstract specification
  \<open>spot_deltas\<close> is over integers; the circuit refines it, and value is conserved in every accepted run.
\<close>

section \<open>The circuit\<close>

text \<open>The fields of \<open>ApplyTradeParams\<close> a spot trade reads, and \<open>ApplySpotTradeParams\<close>.\<close>

record apply_trade_params =
  atp_market :: market_target
  is_taker_ask :: target
  trade_base :: target
  trade_quote :: target
  taker_fee :: target
  maker_fee :: target

record apply_spot_trade_params =
  fee_account_is_taker :: target
  fee_account_is_maker :: target

text \<open>The closure that computes the fee in one asset.\<close>

definition spot_fee_delta :: "target \<Rightarrow> target \<Rightarrow> biguint \<Rightarrow> biguint \<Rightarrow> target \<Rightarrow> target \<Rightarrow> bigint circ" where
  "spot_fee_delta taker_ask fees_enabled delta fee_multiplier ask_fee bid_fee =
    circ_bind (mul_biguint_non_carry delta fee_multiplier BIG_U128_LIMBS) (\<lambda>delta_multiplied.
    let fee = select_signed taker_ask ask_fee bid_fee;
        fee = mul_bool fees_enabled fee in
    circ_bind (signed_target_to_bigint fee) (\<lambda>fee_big.
    mul_bigint_with_biguint_non_carry fee_big delta_multiplied BIG_U128_LIMBS))"

text \<open>The negated amount, the amount, and the amount less the fee.\<close>

definition spot_amounts :: "biguint \<Rightarrow> target \<Rightarrow> bigint \<Rightarrow> (bigint \<times> bigint) circ" where
  "spot_amounts delta multiplier ext_fee_delta =
    circ_bind (target_to_biguint multiplier) (\<lambda>multiplier_big.
    circ_bind (mul_biguint_non_carry delta multiplier_big BIG_U128_LIMBS) (\<lambda>ext_delta.
    circ_bind (negative_biguint ext_delta) (\<lambda>neg_ext_delta.
    circ_bind (biguint_to_bigint ext_delta) (\<lambda>ext_delta.
    circ_bind (sub_bigint ext_delta ext_fee_delta) (\<lambda>ext_delta_with_fee.
    circ_return (neg_ext_delta, ext_delta_with_fee))))))"

text \<open>The closure that computes a party's balance delta, and the fee account's.\<close>

definition spot_party_delta :: "target \<Rightarrow> bigint \<Rightarrow> bigint \<Rightarrow> bigint \<Rightarrow> target \<Rightarrow> bigint circ" where
  "spot_party_delta taker_ask delta_if_ask delta_if_bid fee_delta fee_account_is_party =
    (let delta = select_bigint taker_ask delta_if_ask delta_if_bid;
         add_to_balance_if_fee_account =
           \<lparr>bi_abs = mul_biguint_by_bool (bi_abs fee_delta) fee_account_is_party,
            bi_sign = mul_bool fee_account_is_party (bi_sign fee_delta)\<rparr> in
     add_bigint_non_carry delta add_to_balance_if_fee_account BIG_U128_LIMBS)"

definition spot_fee_account_delta :: "target \<Rightarrow> bigint \<Rightarrow> bigint" where
  "spot_fee_account_delta fee_account_is_different ext_fee_delta =
    \<lparr>bi_abs = mul_biguint_by_bool (bi_abs ext_fee_delta) fee_account_is_different,
     bi_sign = mul_bool fee_account_is_different (bi_sign ext_fee_delta)\<rparr>"

record spot_deltas =
  taker_base_delta :: bigint
  taker_quote_delta :: bigint
  maker_base_delta :: bigint
  maker_quote_delta :: bigint
  fee_base_delta :: bigint
  fee_quote_delta :: bigint

text \<open>Everything after the division of the multipliers by the fee tick.\<close>

definition spot_settle ::
  "target \<Rightarrow> apply_trade_params \<Rightarrow> apply_spot_trade_params \<Rightarrow> biguint \<Rightarrow> biguint \<Rightarrow> spot_deltas circ" where
  "spot_settle is_enabled input spot_input base_fee_multiplier quote_fee_multiplier =
    (let trade_base = select is_enabled (trade_base input) (Const 0) in
     circ_bind (target_to_biguint trade_base) (\<lambda>base_delta.
     let trade_quote = select is_enabled (trade_quote input) (Const 0) in
     circ_bind (target_to_biguint trade_quote) (\<lambda>quote_delta.
     circ_bind (is_not_zero (taker_fee input)) (\<lambda>taker_fee_non_zero.
     circ_bind (is_not_zero (maker_fee input)) (\<lambda>maker_fee_non_zero.
     let fees_enabled = b_or taker_fee_non_zero maker_fee_non_zero in
     circ_bind (spot_fee_delta (is_taker_ask input) fees_enabled base_delta base_fee_multiplier (maker_fee input) (taker_fee input))
       (\<lambda>ext_fee_base_delta.
     circ_bind (spot_fee_delta (is_taker_ask input) fees_enabled quote_delta quote_fee_multiplier (taker_fee input) (maker_fee input))
       (\<lambda>ext_fee_quote_delta.
     circ_bind (spot_amounts base_delta (size_extension_multiplier (atp_market input)) ext_fee_base_delta)
       (\<lambda>(neg_ext_base_delta, ext_base_delta_with_fee).
     circ_bind (spot_amounts quote_delta (quote_extension_multiplier (atp_market input)) ext_fee_quote_delta)
       (\<lambda>(neg_ext_quote_delta, ext_quote_delta_with_fee).
     circ_bind (spot_party_delta (is_taker_ask input) neg_ext_base_delta ext_base_delta_with_fee ext_fee_base_delta (fee_account_is_taker spot_input))
       (\<lambda>taker_base.
     circ_bind (spot_party_delta (is_taker_ask input) ext_quote_delta_with_fee neg_ext_quote_delta ext_fee_quote_delta (fee_account_is_taker spot_input))
       (\<lambda>taker_quote.
     circ_bind (spot_party_delta (is_taker_ask input) ext_base_delta_with_fee neg_ext_base_delta ext_fee_base_delta (fee_account_is_maker spot_input))
       (\<lambda>maker_base.
     circ_bind (spot_party_delta (is_taker_ask input) neg_ext_quote_delta ext_quote_delta_with_fee ext_fee_quote_delta (fee_account_is_maker spot_input))
       (\<lambda>maker_quote.
     let fee_account_is_taker_or_maker = b_or (fee_account_is_taker spot_input) (fee_account_is_maker spot_input);
         fee_account_is_different = b_not fee_account_is_taker_or_maker in
     circ_return \<lparr>taker_base_delta = taker_base, taker_quote_delta = taker_quote,
        maker_base_delta = maker_base, maker_quote_delta = maker_quote,
        fee_base_delta = spot_fee_account_delta fee_account_is_different ext_fee_base_delta,
        fee_quote_delta = spot_fee_account_delta fee_account_is_different ext_fee_quote_delta\<rparr>)))))))))))))"

definition apply_spot_trade :: "target \<Rightarrow> apply_trade_params \<Rightarrow> apply_spot_trade_params \<Rightarrow> spot_deltas circ" where
  "apply_spot_trade is_enabled input spot_input =
    circ_bind (is_equal_constant (market_type (atp_market input)) MARKET_TYPE_SPOT) (\<lambda>is_spot.
    let is_enabled = b_and is_enabled is_spot in
    circ_bind (is_negative (trade_quote input)) (\<lambda>trade_quote_is_negative.
    circ_bind (conditional_assert_false is_enabled trade_quote_is_negative) (\<lambda>_.
    circ_bind (is_negative (taker_fee input)) (\<lambda>is_taker_fee_negative.
    circ_bind (is_negative (maker_fee input)) (\<lambda>is_maker_fee_negative.
    let is_fee_negative = b_or is_taker_fee_negative is_maker_fee_negative in
    circ_bind (conditional_assert_false is_enabled is_fee_negative) (\<lambda>_.
    let fee_tick = constant_u64 FEE_TICK in
    circ_bind (div_rem (size_extension_multiplier (atp_market input)) fee_tick FEE_BITS) (\<lambda>(base_fee_multiplier, _).
    circ_bind (target_to_biguint base_fee_multiplier) (\<lambda>base_fee_multiplier.
    circ_bind (div_rem (quote_extension_multiplier (atp_market input)) fee_tick FEE_BITS) (\<lambda>(quote_fee_multiplier, _).
    circ_bind (target_to_biguint quote_fee_multiplier) (\<lambda>quote_fee_multiplier.
    spot_settle is_enabled input spot_input base_fee_multiplier quote_fee_multiplier))))))))))"

section \<open>Contracts of the steps\<close>

lemma mul_bool_uval: "bval c e \<Longrightarrow> tval (mul_bool c t) = (if e then tval t else 0)"
  by (simp add: mul_bool_def tval_simps bval_def)

lemma get_signed_target_mul_bool: "bval c e \<Longrightarrow> get_signed_target (mul_bool c t) = (if e then get_signed_target t else 0)"
  by (simp add: get_signed_target_def mul_bool_uval POSITIVE_THRESHOLD_BIT_def)

lemma bigz_mask:
  assumes "bval c e" "bigz f n v"
  shows "bigz \<lparr>bi_abs = mul_biguint_by_bool (bi_abs f) c, bi_sign = mul_bool c (bi_sign f)\<rparr> n (if e then v else 0)"
proof -
  have "tval (mul_bool c (bi_sign f)) = tval (b_mul (bi_sign f) c)" by (simp add: mul_bool_def tval_simps mult.commute)
  then show ?thesis
    using bigz_mul_by_bool [OF assms] by (simp add: bigz_def mul_bigint_by_bool_def sval_def)
qed

text \<open>A fee is satisfiable exactly when it fits 128 bits.\<close>

definition fits128 :: "int \<Rightarrow> bool" where
  "fits128 v \<longleftrightarrow> \<bar>v\<bar> < 2 ^ 128"

lemma realises_spot_fee_delta:
  assumes ask: "bval ask a" and en: "bval en e" and d: "big d 2 x" and m: "big m 2 k"
    and fee: "fee = (if e then (if a then get_signed_target f else get_signed_target g) else 0)"
  shows "realises (spot_fee_delta ask en d m f g) (fits128 (fee * int (x * k))) (\<lambda>r. bigz r 4 (fee * int (x * k)))"
proof -
  have d': "limbs_ok d" "length d = 2" "bnat d = x" and m': "limbs_ok m" "length m = 2" "bnat m = k"
    using d m by (simp_all add: big_def)
  have "x < 2 ^ 64" "k < 2 ^ 64" using bnat_bound [OF d'(1)] bnat_bound [OF m'(1)] d' m' by simp_all
  then have "x * k < 2 ^ 64 * 2 ^ 64" by (rule mult_strict_mono) simp_all
  then have fit: "2 \<le> (4::nat) \<and> x * k < 2 ^ (32 * 4)" by simp
  have prod: "implements (mul_biguint_non_carry d m BIG_U128_LIMBS) (\<lambda>r. big r 4 (x * k))"
    using realises_implements [OF realises_mul_biguint_non_carry [OF d'(1) m'(1), of 4]] fit d' m' by (simp add: BIG_U128_LIMBS_def)
  show ?thesis
    unfolding spot_fee_delta_def
  proof (rule realises_after [OF prod], unfold Let_def, rule realises_after [OF implements_signed_target_to_bigint])
    fix p s assume p: "big p 4 (x * k)" and s: "bigz s 2 (get_signed_target (mul_bool en (select_signed ask f g)))"
    have s: "bigz s 2 fee" using s unfolding fee get_signed_target_mul_bool [OF en] get_signed_target_select [OF ask] .
    have p': "limbs_ok p" "length p = 4" "bnat p = x * k" using p by (simp_all add: big_def)
    show "realises (mul_bigint_with_biguint_non_carry s p BIG_U128_LIMBS) (fits128 (fee * int (x * k))) (\<lambda>r. bigz r 4 (fee * int (x * k)))"
      using realises_mul_bigint_with_biguint_non_carry [OF s p'(1), of 4] p' by (simp add: BIG_U128_LIMBS_def fits128_def)
  qed
qed

lemma implements_spot_amounts:
  assumes d: "big d 2 x" and f: "bigz f 4 v"
  shows "implements (spot_amounts d t f)
    (\<lambda>(neg, less). bigz neg 4 (- int (x * uval t)) \<and> bigz less 5 (int (x * uval t) - v))"
  unfolding spot_amounts_def
proof (rule implements_bind [OF implements_target_to_biguint])
  fix m assume m: "big m 2 (uval t)"
  have d': "limbs_ok d" "length d = 2" "bnat d = x" and m': "limbs_ok m" "length m = 2" "bnat m = uval t"
    using d m by (simp_all add: big_def)
  have "x < 2 ^ 64" "uval t < 2 ^ 64" using bnat_bound [OF d'(1)] bnat_bound [OF m'(1)] d' m' by simp_all
  then have "x * uval t < 2 ^ 64 * 2 ^ 64" by (rule mult_strict_mono) simp_all
  then have fit: "x * uval t < 2 ^ (32 * 4)" by simp
  have prod: "implements (mul_biguint_non_carry d m BIG_U128_LIMBS) (\<lambda>r. big r 4 (x * uval t))"
    using realises_implements [OF realises_mul_biguint_non_carry [OF d'(1) m'(1), of 4]] fit d' m' by (simp add: BIG_U128_LIMBS_def)
  show "implements (circ_bind (mul_biguint_non_carry d m BIG_U128_LIMBS) (\<lambda>ext_delta.
      circ_bind (negative_biguint ext_delta) (\<lambda>neg_ext_delta. circ_bind (biguint_to_bigint ext_delta) (\<lambda>ext_delta.
      circ_bind (sub_bigint ext_delta f) (\<lambda>ext_delta_with_fee. circ_return (neg_ext_delta, ext_delta_with_fee))))))
    (\<lambda>(neg, less). bigz neg 4 (- int (x * uval t)) \<and> bigz less 5 (int (x * uval t) - v))"
  proof (rule implements_bind [OF prod])
    fix p assume "big p 4 (x * uval t)"
    then have p: "limbs_ok p" "length p = 4" "bnat p = x * uval t" by (simp_all add: big_def)
    show "implements (circ_bind (negative_biguint p) (\<lambda>neg_ext_delta. circ_bind (biguint_to_bigint p) (\<lambda>ext_delta.
      circ_bind (sub_bigint ext_delta f) (\<lambda>ext_delta_with_fee. circ_return (neg_ext_delta, ext_delta_with_fee)))))
      (\<lambda>(neg, less). bigz neg 4 (- int (x * uval t)) \<and> bigz less 5 (int (x * uval t) - v))"
    proof (rule implements_bind [OF implements_negative_biguint [OF p(1)]], rule implements_bind [OF implements_biguint_to_bigint [OF p(1)]],
        rule implements_bind [OF implements_sub_bigint [OF _ f]], assumption, rule implements_return, unfold prod.case)
      fix neg ext less
      assume "bigz neg (length p) (- int (bnat p))" "bigz less (Suc (max (length p) 4)) (int (bnat p) - v)"
      then show "bigz neg 4 (- int (x * uval t)) \<and> bigz less 5 (int (x * uval t) - v)" using p by (simp add: numeral_eq_Suc)
    qed
  qed
qed

lemma realises_spot_party_delta:
  assumes ask: "bval ask a" and c: "bval c e" and x: "bigz x n v" and y: "bigz y m w" and nm: "max n m = 5" and f: "bigz f 4 u"
    and delta: "delta = (if a then v else w) + (if e then u else 0)"
  shows "realises (spot_party_delta ask x y f c) (fits128 delta) (\<lambda>r. bigz r 4 delta)"
  using realises_add_bigint_non_carry [OF bigz_select [OF ask x y] bigz_mask [OF c f], of 4] nm
  by (simp add: spot_party_delta_def Let_def delta BIG_U128_LIMBS_def fits128_def)

section \<open>Specification\<close>

text \<open>The deltas as integers, from the amounts traded and the fees charged in the two assets.\<close>

record spot_ints =
  taker_base :: int
  taker_quote :: int
  maker_base :: int
  maker_quote :: int
  fee_base :: int
  fee_quote :: int

definition spot_spec :: "bool \<Rightarrow> bool \<Rightarrow> bool \<Rightarrow> int \<Rightarrow> int \<Rightarrow> int \<Rightarrow> int \<Rightarrow> spot_ints" where
  "spot_spec taker_ask fee_is_taker fee_is_maker base quote base_fee quote_fee =
    \<lparr>taker_base = (if taker_ask then - base else base - base_fee) + (if fee_is_taker then base_fee else 0),
     taker_quote = (if taker_ask then quote - quote_fee else - quote) + (if fee_is_taker then quote_fee else 0),
     maker_base = (if taker_ask then base - base_fee else - base) + (if fee_is_maker then base_fee else 0),
     maker_quote = (if taker_ask then - quote else quote - quote_fee) + (if fee_is_maker then quote_fee else 0),
     fee_base = (if fee_is_taker \<or> fee_is_maker then 0 else base_fee),
     fee_quote = (if fee_is_taker \<or> fee_is_maker then 0 else quote_fee)\<rparr>"

definition spot_conserved :: "spot_ints \<Rightarrow> bool" where
  "spot_conserved s \<longleftrightarrow> taker_base s + maker_base s + fee_base s = 0 \<and> taker_quote s + maker_quote s + fee_quote s = 0"

definition deltas_match :: "spot_deltas \<Rightarrow> spot_ints \<Rightarrow> bool" where
  "deltas_match r s \<longleftrightarrow>
    bigz (taker_base_delta r) 4 (taker_base s) \<and> bigz (taker_quote_delta r) 4 (taker_quote s) \<and>
    bigz (maker_base_delta r) 4 (maker_base s) \<and> bigz (maker_quote_delta r) 4 (maker_quote s) \<and>
    bigz (fee_base_delta r) 4 (fee_base s) \<and> bigz (fee_quote_delta r) 4 (fee_quote s)"

text \<open>What a trade with the given fee multipliers must come to.\<close>

definition spot_expected :: "bool \<Rightarrow> bool \<Rightarrow> bool \<Rightarrow> bool \<Rightarrow> apply_trade_params \<Rightarrow> nat \<Rightarrow> nat \<Rightarrow> spot_ints" where
  "spot_expected enabled taker_ask fee_is_taker fee_is_maker input base_fee_multiplier quote_fee_multiplier =
    (let x = if enabled then uval (trade_base input) else 0;
         y = if enabled then uval (trade_quote input) else 0;
         tf = get_signed_target (taker_fee input); mf = get_signed_target (maker_fee input);
         base = int (x * uval (size_extension_multiplier (atp_market input)));
         quote = int (y * uval (quote_extension_multiplier (atp_market input)));
         base_fee = (if taker_ask then mf else tf) * int (x * base_fee_multiplier);
         quote_fee = (if taker_ask then tf else mf) * int (y * quote_fee_multiplier)
     in spot_spec taker_ask fee_is_taker fee_is_maker base quote base_fee quote_fee)"

lemma spot_spec_conserved: "\<not> (ft \<and> fm) \<Longrightarrow> spot_conserved (spot_spec a ft fm base quote bf qf)"
  by (auto simp: spot_conserved_def spot_spec_def)

definition spot_fits :: "spot_ints \<Rightarrow> bool" where
  "spot_fits s \<longleftrightarrow> fits128 (taker_base s) \<and> fits128 (taker_quote s) \<and> fits128 (maker_base s) \<and> fits128 (maker_quote s)"

lemma realises_spot_settle:
  assumes en: "bval is_enabled v" and ask: "bval (is_taker_ask input) a" and ft: "bval (fee_account_is_taker sp) t"
    and fm: "bval (fee_account_is_maker sp) u" and b: "big bm 2 kb" and q: "big qm 2 kq"
  defines "tf \<equiv> get_signed_target (taker_fee input)" and "mf \<equiv> get_signed_target (maker_fee input)"
    and "x \<equiv> if v then uval (trade_base input) else 0" and "y \<equiv> if v then uval (trade_quote input) else 0"
    and "s \<equiv> spot_expected v a t u input kb kq"
  shows "realises (spot_settle is_enabled input sp bm qm)
    (fits128 ((if a then mf else tf) * int (x * kb)) \<and> fits128 ((if a then tf else mf) * int (y * kq)) \<and>
     fits128 (taker_base s) \<and> fits128 (taker_quote s) \<and> fits128 (maker_base s) \<and> fits128 (maker_quote s))
    (\<lambda>r. deltas_match r s)"
proof -
  let ?bf = "(if a then mf else tf) * int (x * kb)" and ?qf = "(if a then tf else mf) * int (y * kq)"
  let ?base = "int (x * uval (size_extension_multiplier (atp_market input)))"
  let ?quote = "int (y * uval (quote_extension_multiplier (atp_market input)))"
  have s: "taker_base s = (if a then - ?base else ?base - ?bf) + (if t then ?bf else 0)"
    "taker_quote s = (if a then ?quote - ?qf else - ?quote) + (if t then ?qf else 0)"
    "maker_base s = (if a then ?base - ?bf else - ?base) + (if u then ?bf else 0)"
    "maker_quote s = (if a then - ?quote else ?quote - ?qf) + (if u then ?qf else 0)"
    "fee_base s = (if t \<or> u then 0 else ?bf)" "fee_quote s = (if t \<or> u then 0 else ?qf)"
    unfolding s_def spot_expected_def spot_spec_def Let_def tf_def mf_def x_def y_def by simp_all
  have x: "uval (select is_enabled (trade_base input) (Const 0)) = x" and y: "uval (select is_enabled (trade_quote input) (Const 0)) = y"
    using tval_select [OF en] by (simp_all add: x_def y_def)
  have zero: "uval t = 0 \<longleftrightarrow> get_signed_target t = 0" for t by (simp only: get_signed_target_sgn)
  have len: "max 4 5 = (5::nat)" "max 5 4 = (5::nat)" by simp_all
  show ?thesis
    unfolding spot_settle_def Let_def
  proof (rule realises_after [OF implements_target_to_biguint], rule realises_after [OF implements_target_to_biguint], unfold x y,
      rule realises_after [OF implements_is_not_zero], rule realises_after [OF implements_is_not_zero], unfold zero)
    fix bd qd nt nm assume bd: "big bd 2 x" and qd: "big qd 2 y"
      and nt: "bval nt (get_signed_target (taker_fee input) \<noteq> 0)" and nm: "bval nm (get_signed_target (maker_fee input) \<noteq> 0)"
    note on = bval_or [OF nt nm]
    have fees: "(if a then mf else tf) = (if tf \<noteq> 0 \<or> mf \<noteq> 0 then (if a then mf else tf) else 0)"
      "(if a then tf else mf) = (if tf \<noteq> 0 \<or> mf \<noteq> 0 then (if a then tf else mf) else 0)" by auto
    note base_fee = realises_spot_fee_delta [OF ask on bd b fees(1) [unfolded tf_def mf_def], folded tf_def mf_def]
      and quote_fee = realises_spot_fee_delta [OF ask on qd q fees(2) [unfolded tf_def mf_def], folded tf_def mf_def]
    note diff = bval_not [OF bval_or [OF ft fm]]
    show "realises
       (circ_bind (spot_fee_delta (is_taker_ask input) (b_or nt nm) bd bm (maker_fee input) (taker_fee input)) (\<lambda>fb.
        circ_bind (spot_fee_delta (is_taker_ask input) (b_or nt nm) qd qm (taker_fee input) (maker_fee input)) (\<lambda>fq.
        circ_bind (spot_amounts bd (size_extension_multiplier (atp_market input)) fb) (\<lambda>(nb, lb).
        circ_bind (spot_amounts qd (quote_extension_multiplier (atp_market input)) fq) (\<lambda>(nq, lq).
        circ_bind (spot_party_delta (is_taker_ask input) nb lb fb (fee_account_is_taker sp)) (\<lambda>tb.
        circ_bind (spot_party_delta (is_taker_ask input) lq nq fq (fee_account_is_taker sp)) (\<lambda>tq.
        circ_bind (spot_party_delta (is_taker_ask input) lb nb fb (fee_account_is_maker sp)) (\<lambda>mb.
        circ_bind (spot_party_delta (is_taker_ask input) nq lq fq (fee_account_is_maker sp)) (\<lambda>mq.
        circ_return \<lparr>taker_base_delta = tb, taker_quote_delta = tq, maker_base_delta = mb, maker_quote_delta = mq,
          fee_base_delta = spot_fee_account_delta (b_not (b_or (fee_account_is_taker sp) (fee_account_is_maker sp))) fb,
          fee_quote_delta = spot_fee_account_delta (b_not (b_or (fee_account_is_taker sp) (fee_account_is_maker sp))) fq\<rparr>))))))))
        ) (fits128 ?bf \<and> fits128 ?qf \<and> fits128 (taker_base s) \<and> fits128 (taker_quote s) \<and> fits128 (maker_base s) \<and> fits128 (maker_quote s))
        (\<lambda>r. deltas_match r s)"
    proof (rule realises_bind [OF base_fee], rule realises_bind [OF quote_fee],
        rule realises_after [OF implements_spot_amounts [OF bd]], assumption, unfold split_paired_all prod.case, elim conjE,
        rule realises_after [OF implements_spot_amounts [OF qd]], assumption, unfold split_paired_all prod.case, elim conjE, unfold s(1-4),
        rule realises_bind [OF realises_spot_party_delta [OF ask ft _ _ len(1) _ refl]], assumption+,
        rule realises_bind [OF realises_spot_party_delta [OF ask ft _ _ len(2) _ refl]], assumption+,
        rule realises_bind [OF realises_spot_party_delta [OF ask fm _ _ len(2) _ refl]], assumption+,
        rule realises_then_return [OF realises_spot_party_delta [OF ask fm _ _ len(1) _ refl]], assumption+)
      fix fb fq assume "bigz fb 4 ?bf" "bigz fq 4 ?qf"
      note masked = bigz_mask [OF diff this(1)] bigz_mask [OF diff this(2)]
      fix tb tq mb mq
      assume "bigz tb 4 ((if a then - ?base else ?base - ?bf) + (if t then ?bf else 0))"
        "bigz tq 4 ((if a then ?quote - ?qf else - ?quote) + (if t then ?qf else 0))"
        "bigz mb 4 ((if a then ?base - ?bf else - ?base) + (if u then ?bf else 0))"
        "bigz mq 4 ((if a then - ?quote else ?quote - ?qf) + (if u then ?qf else 0))"
      then show "deltas_match \<lparr>taker_base_delta = tb, taker_quote_delta = tq, maker_base_delta = mb, maker_quote_delta = mq,
          fee_base_delta = spot_fee_account_delta (b_not (b_or (fee_account_is_taker sp) (fee_account_is_maker sp))) fb,
          fee_quote_delta = spot_fee_account_delta (b_not (b_or (fee_account_is_taker sp) (fee_account_is_maker sp))) fq\<rparr> s"
        unfolding deltas_match_def spot_fee_account_delta_def s using masked by (cases "t \<or> u") simp_all
    qed
  qed
qed

section \<open>The whole trade\<close>

lemma uval_fee_tick: "uval (constant_u64 FEE_TICK) = FEE_TICK"
  by (simp add: constant_u64_def FEE_TICK_def)

text \<open>What the circuit asserts about an enabled trade.\<close>

definition spot_checks :: "bool \<Rightarrow> apply_trade_params \<Rightarrow> bool" where
  "spot_checks enabled input \<longleftrightarrow>
    (enabled \<longrightarrow> 0 \<le> get_signed_target (trade_quote input) \<and> 0 \<le> get_signed_target (taker_fee input)
      \<and> 0 \<le> get_signed_target (maker_fee input))"

text \<open>A fee multiplier the division by the fee tick accepts.\<close>

definition fee_multiplier_accepted :: "target \<Rightarrow> nat \<Rightarrow> bool" where
  "fee_multiplier_accepted m k \<longleftrightarrow>
    k < p_nat \<and> (\<exists>r<p_nat. division_accepts True m (constant_u64 FEE_TICK) FEE_BITS (Wire (of_nat k)) (Wire (of_nat r)))"

lemma division_accepts_cong:
  "tval q = tval q' \<Longrightarrow> tval r = tval r' \<Longrightarrow> division_accepts v n d bits q r = division_accepts v n d bits q' r'"
  by (simp add: division_accepts_def)

lemma div_rem_fee_tick:
  "sound (div_rem m (constant_u64 FEE_TICK) FEE_BITS) (\<lambda>(q, _). fee_multiplier_accepted m (uval q))"
  "fee_multiplier_accepted m k \<Longrightarrow> complete (div_rem m (constant_u64 FEE_TICK) FEE_BITS) (\<lambda>(q, _). uval q = k)"
proof -
  show "sound (div_rem m (constant_u64 FEE_TICK) FEE_BITS) (\<lambda>(q, _). fee_multiplier_accepted m (uval q))"
  proof (rule sound_weaken [OF div_rem_accepts(1)], unfold split_paired_all prod.case)
    fix q r assume "division_accepts True m (constant_u64 FEE_TICK) FEE_BITS q r"
    then have "division_accepts True m (constant_u64 FEE_TICK) FEE_BITS (Wire (of_nat (uval q))) (Wire (of_nat (uval r)))"
      by (rule division_accepts_cong [THEN iffD1, rotated -1]) simp_all
    then show "fee_multiplier_accepted m (uval q)"
      unfolding fee_multiplier_accepted_def using to_canonical_lt by blast
  qed
  show "complete (div_rem m (constant_u64 FEE_TICK) FEE_BITS) (\<lambda>(q, _). uval q = k)" if "fee_multiplier_accepted m k"
    using that unfolding fee_multiplier_accepted_def
    by (auto intro!: complete_weaken [OF div_rem_accepts(2)])
qed

text \<open>Below \<open>p / 10 ^ 6\<close> the only accepted fee multiplier is the quotient.\<close>

lemma fee_multiplier_unique:
  assumes "uval m * FEE_TICK + FEE_TICK \<le> p_nat"
  shows "fee_multiplier_accepted m k \<longleftrightarrow> k = uval m div FEE_TICK"
proof
  assume "fee_multiplier_accepted m k"
  then obtain r where k: "k < p_nat" and acc: "division_accepts True m (constant_u64 FEE_TICK) FEE_BITS (Wire (of_nat k)) (Wire (of_nat r))"
    by (auto simp: fee_multiplier_accepted_def)
  have "division_fits m (constant_u64 FEE_TICK)" unfolding division_fits_def uval_fee_tick by (rule assms)
  from division_accepts_unique [OF acc this] show "k = uval m div FEE_TICK"
    using k by (simp add: is_quotient_def uval_fee_tick)
next
  assume k: "k = uval m div FEE_TICK"
  have "uval m mod FEE_TICK < 2 ^ cmp_bit_size_bucket FEE_BITS"
    using mod_less_divisor [of FEE_TICK "uval m"] by (simp add: FEE_TICK_def FEE_BITS_def cmp_bit_size_bucket_def)
  then have "case div_rem_hint_generator (tval m) (tval (constant_u64 FEE_TICK)) of (q, r) \<Rightarrow>
      division_accepts True m (constant_u64 FEE_TICK) FEE_BITS (Wire q) (Wire r)"
    by (intro generator_accepted) (simp add: uval_fee_tick)
  then have acc: "division_accepts True m (constant_u64 FEE_TICK) FEE_BITS (Wire (of_nat k)) (Wire (of_nat (uval m mod FEE_TICK)))"
    unfolding div_rem_hint_generator_def Let_def uval_fee_tick k by (simp add: FEE_TICK_def)
  have "k < p_nat" "uval m mod FEE_TICK < p_nat"
    using to_canonical_lt [of "tval m"] unfolding k by (meson div_le_dividend mod_less_eq_dividend le_less_trans)+
  with acc show "fee_multiplier_accepted m k" unfolding fee_multiplier_accepted_def by blast
qed

text \<open>The checks, up to the two divisions.\<close>

lemma realises_spot_checks:
  assumes en: "bval en v" and that: "spot_checks v input \<Longrightarrow> realises c P Q"
  shows "realises (circ_bind (is_negative (trade_quote input)) (\<lambda>tq. circ_bind (conditional_assert_false en tq) (\<lambda>_.
      circ_bind (is_negative (taker_fee input)) (\<lambda>tf. circ_bind (is_negative (maker_fee input)) (\<lambda>mf.
      circ_bind (conditional_assert_false en (b_or tf mf)) (\<lambda>_. c)))))) (spot_checks v input \<and> P) Q"
proof -
  have checks: "spot_checks v input \<longleftrightarrow> (v \<longrightarrow> \<not> get_signed_target (trade_quote input) < 0) \<and>
      (v \<longrightarrow> \<not> (get_signed_target (taker_fee input) < 0 \<or> get_signed_target (maker_fee input) < 0))"
    by (auto simp: spot_checks_def)
  show ?thesis
    unfolding checks conj_assoc
  proof (rule realises_after [OF implements_is_negative], rule realises_bind [OF realises_conditional_assert_false [OF en]], assumption,
      rule realises_after [OF implements_is_negative], rule realises_after [OF implements_is_negative],
      rule realises_bind [OF realises_conditional_assert_false [OF en bval_or]])
  qed (use that in \<open>auto simp: checks\<close>)
qed

lemma apply_spot_trade_unfold:
  "apply_spot_trade e input sp =
    circ_bind (is_equal_constant (market_type (atp_market input)) MARKET_TYPE_SPOT) (\<lambda>is_spot.
    circ_bind (is_negative (trade_quote input)) (\<lambda>tq. circ_bind (conditional_assert_false (b_and e is_spot) tq) (\<lambda>_.
    circ_bind (is_negative (taker_fee input)) (\<lambda>tf. circ_bind (is_negative (maker_fee input)) (\<lambda>mf.
    circ_bind (conditional_assert_false (b_and e is_spot) (b_or tf mf)) (\<lambda>_.
    circ_bind (div_rem (size_extension_multiplier (atp_market input)) (constant_u64 FEE_TICK) FEE_BITS) (\<lambda>bm.
    circ_bind (target_to_biguint (fst bm)) (\<lambda>b.
    circ_bind (div_rem (quote_extension_multiplier (atp_market input)) (constant_u64 FEE_TICK) FEE_BITS) (\<lambda>qm.
    circ_bind (target_to_biguint (fst qm)) (\<lambda>q.
    spot_settle (b_and e is_spot) input sp b q))))))))))"
  by (simp add: apply_spot_trade_def Let_def split_def)

definition spot_enabled :: "bool \<Rightarrow> apply_trade_params \<Rightarrow> bool" where
  "spot_enabled v input \<longleftrightarrow> v \<and> uval (market_type (atp_market input)) = MARKET_TYPE_SPOT"

lemma implements_is_spot:
  "implements (is_equal_constant (market_type (atp_market input)) MARKET_TYPE_SPOT)
    (\<lambda>r. bval r (uval (market_type (atp_market input)) = MARKET_TYPE_SPOT))"
  by (rule implements_is_equal_constant) (simp add: MARKET_TYPE_SPOT_def)

text \<open>The side conditions of the settlement: fees and deltas of less than 128 bits.\<close>

definition spot_settle_fits :: "bool \<Rightarrow> bool \<Rightarrow> bool \<Rightarrow> bool \<Rightarrow> apply_trade_params \<Rightarrow> nat \<Rightarrow> nat \<Rightarrow> bool" where
  "spot_settle_fits v a t u input kb kq \<longleftrightarrow>
    (let tf = get_signed_target (taker_fee input); mf = get_signed_target (maker_fee input);
         x = (if v then uval (trade_base input) else 0); y = (if v then uval (trade_quote input) else 0)
     in fits128 ((if a then mf else tf) * int (x * kb)) \<and> fits128 ((if a then tf else mf) * int (y * kq))
        \<and> spot_fits (spot_expected v a t u input kb kq))"

lemma realises_spot_settle':
  assumes "bval is_enabled v" "bval (is_taker_ask input) a" "bval (fee_account_is_taker sp) t"
    "bval (fee_account_is_maker sp) u" "big bm 2 kb" "big qm 2 kq"
  shows "realises (spot_settle is_enabled input sp bm qm) (spot_settle_fits v a t u input kb kq)
    (\<lambda>r. deltas_match r (spot_expected v a t u input kb kq))"
  using realises_spot_settle [OF assms] unfolding spot_settle_fits_def spot_fits_def Let_def .

lemma sound_apply_spot_trade:
  assumes e: "bval e v" and sel: "bval (is_taker_ask input) a" "bval (fee_account_is_taker sp) t" "bval (fee_account_is_maker sp) u"
  shows "sound (apply_spot_trade e input sp) (\<lambda>r. spot_checks (spot_enabled v input) input \<and>
    (\<exists>kb kq. fee_multiplier_accepted (size_extension_multiplier (atp_market input)) kb \<and>
       fee_multiplier_accepted (quote_extension_multiplier (atp_market input)) kq \<and>
       deltas_match r (spot_expected (spot_enabled v input) a t u input kb kq)))"
    (is "sound _ (\<lambda>r. ?checks \<and> ?Q r)")
  unfolding apply_spot_trade_unfold
proof (rule sound_bind [OF implements_sound [OF implements_is_spot]])
  fix is_spot assume "bval is_spot (uval (market_type (atp_market input)) = MARKET_TYPE_SPOT)"
  with e have en: "bval (b_and e is_spot) (spot_enabled v input)" unfolding spot_enabled_def by (rule bval_and)
  let ?settle = "circ_bind (div_rem (size_extension_multiplier (atp_market input)) (constant_u64 FEE_TICK) FEE_BITS) (\<lambda>bm.
    circ_bind (target_to_biguint (fst bm)) (\<lambda>b.
    circ_bind (div_rem (quote_extension_multiplier (atp_market input)) (constant_u64 FEE_TICK) FEE_BITS) (\<lambda>qm.
    circ_bind (target_to_biguint (fst qm)) (\<lambda>q. spot_settle (b_and e is_spot) input sp b q))))"
  have settle: "sound ?settle ?Q"
  proof (rule sound_bind [OF div_rem_fee_tick(1)], rule sound_bind [OF implements_sound [OF implements_target_to_biguint]],
      rule sound_bind [OF div_rem_fee_tick(1)], rule sound_bind [OF implements_sound [OF implements_target_to_biguint]])
    fix bm b qm q assume "case bm of (q, _) \<Rightarrow> fee_multiplier_accepted (size_extension_multiplier (atp_market input)) (uval q)"
      "case qm of (q, _) \<Rightarrow> fee_multiplier_accepted (quote_extension_multiplier (atp_market input)) (uval q)"
      "big b 2 (uval (fst bm))" "big q 2 (uval (fst qm))"
    then show "sound (spot_settle (b_and e is_spot) input sp b q) ?Q"
      by (intro sound_weaken [OF realises_sound [OF realises_spot_settle' [OF en sel]]]) (auto simp: split_def)
  qed
  show "sound (circ_bind (is_negative (trade_quote input)) (\<lambda>tq. circ_bind (conditional_assert_false (b_and e is_spot) tq) (\<lambda>_.
      circ_bind (is_negative (taker_fee input)) (\<lambda>tf. circ_bind (is_negative (maker_fee input)) (\<lambda>mf.
      circ_bind (conditional_assert_false (b_and e is_spot) (b_or tf mf)) (\<lambda>_. ?settle)))))) (\<lambda>r. ?checks \<and> ?Q r)"
  proof -
    have checks: "sound (circ_bind (is_negative (trade_quote input)) (\<lambda>tq. circ_bind (conditional_assert_false (b_and e is_spot) tq) (\<lambda>_.
      circ_bind (is_negative (taker_fee input)) (\<lambda>tf. circ_bind (is_negative (maker_fee input)) (\<lambda>mf.
      circ_bind (conditional_assert_false (b_and e is_spot) (b_or tf mf)) (\<lambda>_. circ_return ())))))) (\<lambda>_. ?checks)"
      using realises_sound [OF realises_spot_checks [OF en, where c = "circ_return ()" and P = True and Q = "\<lambda>_. True"]]
      by (simp add: realises_return)
    have "sound (circ_bind (circ_bind (is_negative (trade_quote input)) (\<lambda>tq. circ_bind (conditional_assert_false (b_and e is_spot) tq) (\<lambda>_.
      circ_bind (is_negative (taker_fee input)) (\<lambda>tf. circ_bind (is_negative (maker_fee input)) (\<lambda>mf.
      circ_bind (conditional_assert_false (b_and e is_spot) (b_or tf mf)) (\<lambda>_. circ_return ())))))) (\<lambda>_. ?settle)) (\<lambda>r. ?checks \<and> ?Q r)"
      by (rule sound_bind [OF checks], rule sound_weaken [OF settle]) simp
    then show ?thesis by (simp only: circ_bind_assoc circ_return_bind)
  qed
qed

lemma complete_apply_spot_trade:
  assumes e: "bval e v" and sel: "bval (is_taker_ask input) a" "bval (fee_account_is_taker sp) t" "bval (fee_account_is_maker sp) u"
    and checks: "spot_checks (spot_enabled v input) input"
    and kb: "fee_multiplier_accepted (size_extension_multiplier (atp_market input)) kb"
    and kq: "fee_multiplier_accepted (quote_extension_multiplier (atp_market input)) kq"
    and fits: "spot_settle_fits (spot_enabled v input) a t u input kb kq"
  shows "complete (apply_spot_trade e input sp) (\<lambda>r. deltas_match r (spot_expected (spot_enabled v input) a t u input kb kq))"
    (is "complete _ ?Q")
  unfolding apply_spot_trade_unfold
proof (rule complete_bind [OF implements_complete [OF implements_is_spot]])
  fix is_spot assume "bval is_spot (uval (market_type (atp_market input)) = MARKET_TYPE_SPOT)"
  with e have en: "bval (b_and e is_spot) (spot_enabled v input)" unfolding spot_enabled_def by (rule bval_and)
  let ?settle = "circ_bind (div_rem (size_extension_multiplier (atp_market input)) (constant_u64 FEE_TICK) FEE_BITS) (\<lambda>bm.
    circ_bind (target_to_biguint (fst bm)) (\<lambda>b.
    circ_bind (div_rem (quote_extension_multiplier (atp_market input)) (constant_u64 FEE_TICK) FEE_BITS) (\<lambda>qm.
    circ_bind (target_to_biguint (fst qm)) (\<lambda>q. spot_settle (b_and e is_spot) input sp b q))))"
  have settle: "complete ?settle ?Q"
  proof (rule complete_bind [OF div_rem_fee_tick(2) [OF kb]], rule complete_bind [OF implements_complete [OF implements_target_to_biguint]],
      rule complete_bind [OF div_rem_fee_tick(2) [OF kq]], rule complete_bind [OF implements_complete [OF implements_target_to_biguint]])
    fix bm b qm q assume "case bm of (q, _) \<Rightarrow> uval q = kb" "case qm of (q, _) \<Rightarrow> uval q = kq"
      "big b 2 (uval (fst bm))" "big q 2 (uval (fst qm))"
    then have "big b 2 kb" "big q 2 kq" by (simp_all add: split_def)
    from realises_implements [OF realises_spot_settle' [OF en sel this] fits]
    show "complete (spot_settle (b_and e is_spot) input sp b q) ?Q" by (rule implements_complete)
  qed
  have "implements (circ_bind (is_negative (trade_quote input)) (\<lambda>tq. circ_bind (conditional_assert_false (b_and e is_spot) tq) (\<lambda>_.
      circ_bind (is_negative (taker_fee input)) (\<lambda>tf. circ_bind (is_negative (maker_fee input)) (\<lambda>mf.
      circ_bind (conditional_assert_false (b_and e is_spot) (b_or tf mf)) (\<lambda>_. circ_return ())))))) (\<lambda>_. True)"
    using realises_implements [OF realises_spot_checks [OF en, where c = "circ_return ()" and P = True and Q = "\<lambda>_. True"]] checks
    by (simp add: realises_return)
  from complete_bind [OF implements_complete [OF this], of "\<lambda>_. ?settle" ?Q] settle
  show "complete (circ_bind (is_negative (trade_quote input)) (\<lambda>tq. circ_bind (conditional_assert_false (b_and e is_spot) tq) (\<lambda>_.
      circ_bind (is_negative (taker_fee input)) (\<lambda>tf. circ_bind (is_negative (maker_fee input)) (\<lambda>mf.
      circ_bind (conditional_assert_false (b_and e is_spot) (b_or tf mf)) (\<lambda>_. ?settle)))))) ?Q"
    by (simp only: circ_bind_assoc circ_return_bind simp_thms)
qed

text \<open>With fees of at most the fee tick and honest multipliers nothing overflows.\<close>

lemma fee_at_most_amount:
  assumes "0 \<le> f" "f \<le> int FEE_TICK"
  shows "0 \<le> f * int (x * (m div FEE_TICK))" "f * int (x * (m div FEE_TICK)) \<le> int (x * m)"
proof -
  have "f * int (x * (m div FEE_TICK)) \<le> int FEE_TICK * int (x * (m div FEE_TICK))"
    using assms by (intro mult_right_mono) simp_all
  also have "\<dots> = int (x * (FEE_TICK * (m div FEE_TICK)))" by simp
  also have "\<dots> \<le> int (x * m)" by (simp only: of_nat_le_iff mult_le_mono2 times_div_less_eq_dividend)
  finally show "f * int (x * (m div FEE_TICK)) \<le> int (x * m)" .
  show "0 \<le> f * int (x * (m div FEE_TICK))" using assms(1) by simp
qed

definition fee_in_range :: "target \<Rightarrow> bool" where
  "fee_in_range f \<longleftrightarrow> 0 \<le> get_signed_target f \<and> get_signed_target f \<le> int FEE_TICK"

lemma spot_settle_fits_honest:
  assumes "fee_in_range (taker_fee input)" "fee_in_range (maker_fee input)"
  shows "spot_settle_fits v a t u input (uval (size_extension_multiplier (atp_market input)) div FEE_TICK)
    (uval (quote_extension_multiplier (atp_market input)) div FEE_TICK)"
proof -
  define x y where "x = (if v then uval (trade_base input) else 0)" and "y = (if v then uval (trade_quote input) else 0)"
  define mb mq where "mb = uval (size_extension_multiplier (atp_market input))" and "mq = uval (quote_extension_multiplier (atp_market input))"
  define f g where "f = get_signed_target (taker_fee input)" and "g = get_signed_target (maker_fee input)"
  have amount: "int (n * uval s) < 2 ^ 128" if "n < 2 ^ 64" for n s
  proof -
    have "uval s < 2 ^ 64" by (rule less_trans [OF to_canonical_lt]) simp
    with that have "n * uval s < 2 ^ 64 * 2 ^ 64" by (intro mult_strict_mono) simp_all
    then have "int (n * uval s) < int (2 ^ 64 * 2 ^ 64)" by (simp only: of_nat_less_iff)
    then show ?thesis by simp
  qed
  have xy: "x < 2 ^ 64" "y < 2 ^ 64" unfolding x_def y_def by (auto intro: less_trans [OF to_canonical_lt])
  have base: "int (x * mb) < 2 ^ 128" unfolding mb_def by (rule amount [OF xy(1)])
  have quote: "int (y * mq) < 2 ^ 128" unfolding mq_def by (rule amount [OF xy(2)])
  have range: "0 \<le> f" "f \<le> int FEE_TICK" "0 \<le> g" "g \<le> int FEE_TICK" using assms by (simp_all add: fee_in_range_def f_def g_def)
  note fees = fee_at_most_amount [OF range(1,2)] fee_at_most_amount [OF range(3,4)]
  have bound: "fits128 ((if c then h else h') * int (n * (m div FEE_TICK)))"
      "fits128 ((if a then - int (n * m) else int (n * m) - (if c then h else h') * int (n * (m div FEE_TICK)))
        + (if d then (if c then h else h') * int (n * (m div FEE_TICK)) else 0))"
      "fits128 ((if a then int (n * m) - (if c then h else h') * int (n * (m div FEE_TICK)) else - int (n * m))
        + (if d then (if c then h else h') * int (n * (m div FEE_TICK)) else 0))"
    if "int (n * m) < 2 ^ 128" "0 \<le> h" "h \<le> int FEE_TICK" "0 \<le> h'" "h' \<le> int FEE_TICK" for c d h h' n m
  proof -
    define w where "w = (if c then h else h') * int (n * (m div FEE_TICK))"
    have w: "0 \<le> w" "w \<le> int (n * m)" unfolding w_def using fee_at_most_amount that(2-5) by (auto split: if_split)
    show "fits128 ((if c then h else h') * int (n * (m div FEE_TICK)))"
      unfolding w_def [symmetric] using w that(1) by (simp add: fits128_def)
    show "fits128 ((if a then - int (n * m) else int (n * m) - (if c then h else h') * int (n * (m div FEE_TICK)))
        + (if d then (if c then h else h') * int (n * (m div FEE_TICK)) else 0))"
      "fits128 ((if a then int (n * m) - (if c then h else h') * int (n * (m div FEE_TICK)) else - int (n * m))
        + (if d then (if c then h else h') * int (n * (m div FEE_TICK)) else 0))"
      unfolding w_def [symmetric] fits128_def using w that(1) by (auto simp del: of_nat_mult split: if_split)
  qed
  show ?thesis
    unfolding spot_settle_fits_def spot_fits_def spot_expected_def spot_spec_def Let_def spot_ints.simps
      x_def [symmetric] y_def [symmetric] mb_def [symmetric] mq_def [symmetric] f_def [symmetric] g_def [symmetric]
    by (intro conjI bound base quote range)
qed

section \<open>Properties\<close>

text \<open>
  C19. Value is conserved: in every accepted run of \<open>apply_spot_trade\<close>, whatever fee multipliers the
  prover supplies, the deltas of taker, maker and fee account add up to zero in the base and in the quote
  asset, provided the fee account is not both parties at once, and an enabled trade has a
  non-negative quote and non-negative fees.
\<close>

theorem spot_trade_conserves_value:
  assumes "bval is_enabled v" "bval (is_taker_ask input) a" "bval (fee_account_is_taker sp) t" "bval (fee_account_is_maker sp) u"
    and "\<not> (t \<and> u)"
  shows "sound (apply_spot_trade is_enabled input sp)
    (\<lambda>r. spot_checks (spot_enabled v input) input \<and> (\<exists>s. deltas_match r s \<and> spot_conserved s))"
proof (rule sound_weaken [OF sound_apply_spot_trade [OF assms(1-4)]], elim conjE exE)
  fix r kb kq
  assume "spot_checks (spot_enabled v input) input" "deltas_match r (spot_expected (spot_enabled v input) a t u input kb kq)"
  moreover have "spot_conserved (spot_expected (spot_enabled v input) a t u input kb kq)"
    unfolding spot_expected_def Let_def by (rule spot_spec_conserved [OF assms(5)])
  ultimately show "spot_checks (spot_enabled v input) input \<and> (\<exists>s. deltas_match r s \<and> spot_conserved s)" by blast
qed

text \<open>
  C20. A spot trade is settled exactly: while the multipliers of the market are below \<open>p / 10 ^ 6\<close>, and
  the fees between zero and the fee tick, the circuit is satisfiable and every accepted run returns the
  deltas of the specification, with the fee multiplier of the integers.
\<close>

theorem spot_trade_exact:
  assumes "bval is_enabled v" "bval (is_taker_ask input) a" "bval (fee_account_is_taker sp) t" "bval (fee_account_is_maker sp) u"
    and "uval (size_extension_multiplier (atp_market input)) * FEE_TICK + FEE_TICK \<le> p_nat"
    and "uval (quote_extension_multiplier (atp_market input)) * FEE_TICK + FEE_TICK \<le> p_nat"
    and "fee_in_range (taker_fee input)" "fee_in_range (maker_fee input)" "0 \<le> get_signed_target (trade_quote input)"
  shows "implements (apply_spot_trade is_enabled input sp)
    (\<lambda>r. deltas_match r (spot_expected (spot_enabled v input) a t u input
      (uval (size_extension_multiplier (atp_market input)) div FEE_TICK)
      (uval (quote_extension_multiplier (atp_market input)) div FEE_TICK)))"
proof (rule implementsI)
  show "sound (apply_spot_trade is_enabled input sp)
    (\<lambda>r. deltas_match r (spot_expected (spot_enabled v input) a t u input
      (uval (size_extension_multiplier (atp_market input)) div FEE_TICK)
      (uval (quote_extension_multiplier (atp_market input)) div FEE_TICK)))"
    by (rule sound_weaken [OF sound_apply_spot_trade [OF assms(1-4)]])
      (auto simp: fee_multiplier_unique [OF assms(5)] fee_multiplier_unique [OF assms(6)])
  have "spot_checks (spot_enabled v input) input" using assms(7-9) by (simp add: spot_checks_def fee_in_range_def)
  from complete_apply_spot_trade [OF assms(1-4) this _ _ spot_settle_fits_honest [OF assms(7,8)]]
  show "complete (apply_spot_trade is_enabled input sp)
    (\<lambda>r. deltas_match r (spot_expected (spot_enabled v input) a t u input
      (uval (size_extension_multiplier (atp_market input)) div FEE_TICK)
      (uval (quote_extension_multiplier (atp_market input)) div FEE_TICK)))"
    by (simp add: fee_multiplier_unique [OF assms(5)] fee_multiplier_unique [OF assms(6)])
qed

lemma wrapped_fee_multiplier:
  assumes "k * FEE_TICK + r = uval m + p_nat" "k \<le> uval m" "r < FEE_TICK"
  shows "fee_multiplier_accepted m k" "k \<noteq> uval m div FEE_TICK"
proof -
  have "r < 2 ^ cmp_bit_size_bucket FEE_BITS" using assms(3) by (simp add: FEE_TICK_def FEE_BITS_def cmp_bit_size_bucket_def)
  note wrapped = wrapped_quotient [of k "constant_u64 FEE_TICK" r m FEE_BITS, unfolded uval_fee_tick, OF assms this]
  from wrapped show "fee_multiplier_accepted m k" unfolding fee_multiplier_accepted_def by blast
  from wrapped(4) show "k \<noteq> uval m div FEE_TICK" .
qed

text \<open>
  The fee multiplier is not determined for large markets: if a number up to the size multiplier makes
  up the multiplier plus the order of the field when multiplied by the fee tick (with a remainder), the
  circuit accepts a trade whose base fee is computed from it instead of from the multiplier divided by
  the fee tick, as long as the amounts stay below 128 bits.
\<close>

theorem spot_fee_multiplier_ambiguous:
  assumes "bval is_enabled v" "bval (is_taker_ask input) a" "bval (fee_account_is_taker sp) t" "bval (fee_account_is_maker sp) u"
    and "spot_checks (spot_enabled v input) input"
    and "k * FEE_TICK + r = uval (size_extension_multiplier (atp_market input)) + p_nat"
    and "k \<le> uval (size_extension_multiplier (atp_market input))" "r < FEE_TICK"
    and "uval (quote_extension_multiplier (atp_market input)) * FEE_TICK + FEE_TICK \<le> p_nat"
    and "spot_settle_fits (spot_enabled v input) a t u input k (uval (quote_extension_multiplier (atp_market input)) div FEE_TICK)"
  shows "k \<noteq> uval (size_extension_multiplier (atp_market input)) div FEE_TICK
    \<and> complete (apply_spot_trade is_enabled input sp)
      (\<lambda>r. deltas_match r (spot_expected (spot_enabled v input) a t u input k
        (uval (quote_extension_multiplier (atp_market input)) div FEE_TICK)))"
  using wrapped_fee_multiplier [OF assms(6-8)]
    complete_apply_spot_trade [OF assms(1-5) wrapped_fee_multiplier(1) [OF assms(6-8)] _ assms(10)]
  by (simp add: fee_multiplier_unique [OF assms(9)])

text \<open>
  A bid taker buys 1000 units with a taker fee of 0.1 percent in a market with the given size multiplier.
\<close>

definition sample_trade :: "nat \<Rightarrow> apply_trade_params" where
  "sample_trade multiplier =
    \<lparr>atp_market = \<lparr>market_index = Const 0, market_status = Const 1, market_type = Const 1, market_base_asset_id = Const 1,
       market_quote_asset_id = Const 3, market_ask_nonce = Const 0, market_bid_nonce = Const 0, market_taker_fee = Const 1000,
       market_maker_fee = Const 0, market_liquidation_fee = Const 0, size_extension_multiplier = Wire (of_nat multiplier),
       quote_extension_multiplier = Wire (of_nat 1000000), market_total_order_count = Const 0, min_base_amount = Const 0,
       min_quote_amount = Const 0, order_quote_limit = Const 0, order_book_root = [], perps_market_index = Const 255\<rparr>,
     is_taker_ask = Const 0, trade_base = Wire 1000, trade_quote = Wire 5000, taker_fee = Wire 1000, maker_fee = Const 0\<rparr>"

lemma sample_trade_simps:
  "bval (Const 1) True" "bval (is_taker_ask (sample_trade m)) False" "tval (is_taker_ask (sample_trade m)) = 0"
  "get_signed_target (taker_fee (sample_trade m)) = 1000" "get_signed_target (maker_fee (sample_trade m)) = 0"
  "get_signed_target (trade_quote (sample_trade m)) = 5000" "spot_enabled True (sample_trade m)"
  by (simp_all add: sample_trade_def bval_def spot_enabled_def MARKET_TYPE_SPOT_def get_signed_target_def POSITIVE_THRESHOLD_BIT_def)

lemma sample_trade_expected:
  "m < p_nat \<Longrightarrow> spot_expected True False False False (sample_trade m) k (1000000 div FEE_TICK) =
    \<lparr>taker_base = int (1000 * m) - 1000 * int (1000 * k), taker_quote = - 5000000000, maker_base = - int (1000 * m),
     maker_quote = 5000000000, fee_base = 1000 * int (1000 * k), fee_quote = 0\<rparr>"
  by (simp add: spot_expected_def spot_spec_def Let_def sample_trade_simps FEE_TICK_def) (simp add: sample_trade_def)

theorem spot_trade_conserves_value_witness:
  "sound (apply_spot_trade (Const 1) (sample_trade 100000000) \<lparr>fee_account_is_taker = Const 0, fee_account_is_maker = Const 0\<rparr>)
    (\<lambda>r. \<exists>s. deltas_match r s \<and> spot_conserved s)"
  by (rule sound_weaken [OF spot_trade_conserves_value [where v = True and a = False and t = False and u = False]])
    (auto simp: sample_trade_simps bval_def)

theorem spot_trade_exact_witness:
  "implements (apply_spot_trade (Const 1) (sample_trade 100000000) \<lparr>fee_account_is_taker = Const 0, fee_account_is_maker = Const 0\<rparr>)
    (\<lambda>r. deltas_match r \<lparr>taker_base = 99900000000, taker_quote = - 5000000000, maker_base = - 100000000000,
      maker_quote = 5000000000, fee_base = 100000000, fee_quote = 0\<rparr>)"
proof -
  have mults: "uval (size_extension_multiplier (atp_market (sample_trade 100000000))) = 100000000"
    "uval (quote_extension_multiplier (atp_market (sample_trade 100000000))) = 1000000"
    by (simp_all add: sample_trade_def)
  have "fee_in_range (taker_fee (sample_trade 100000000))" "fee_in_range (maker_fee (sample_trade 100000000))"
    by (simp_all add: fee_in_range_def sample_trade_simps FEE_TICK_def)
  then have "implements (apply_spot_trade (Const 1) (sample_trade 100000000) \<lparr>fee_account_is_taker = Const 0, fee_account_is_maker = Const 0\<rparr>)
    (\<lambda>r. deltas_match r (spot_expected True False False False (sample_trade 100000000) (100000000 div FEE_TICK) (1000000 div FEE_TICK)))"
    using spot_trade_exact [of "Const 1" True "sample_trade 100000000" False
        "\<lparr>fee_account_is_taker = Const 0, fee_account_is_maker = Const 0\<rparr>" False False]
    by (simp add: mults sample_trade_simps bval_def FEE_TICK_def)
  then show ?thesis unfolding sample_trade_expected [of 100000000, simplified] by (simp add: FEE_TICK_def)
qed

text \<open>With a size multiplier of \<open>2 ^ 45\<close> the accepted fee is more than five hundred times the amount bought.\<close>

theorem spot_fee_multiplier_ambiguous_witness:
  "complete (apply_spot_trade (Const 1) (sample_trade 35184372088832) \<lparr>fee_account_is_taker = Const 0, fee_account_is_maker = Const 0\<rparr>)
    (\<lambda>r. deltas_match r \<lparr>taker_base = - 18411594881697168000, taker_quote = - 5000000000, maker_base = - 35184372088832000,
      maker_quote = 5000000000, fee_base = 18446779253786000000, fee_quote = 0\<rparr>)"
proof -
  have mults: "uval (size_extension_multiplier (atp_market (sample_trade 35184372088832))) = 35184372088832"
    "uval (quote_extension_multiplier (atp_market (sample_trade 35184372088832))) = 1000000"
    by (simp_all add: sample_trade_def)
  let ?s = "spot_expected True False False False (sample_trade 35184372088832) 18446779253786 (1000000 div FEE_TICK)"
  have s: "?s = \<lparr>taker_base = - 18411594881697168000, taker_quote = - 5000000000, maker_base = - 35184372088832000,
      maker_quote = 5000000000, fee_base = 18446779253786000000, fee_quote = 0\<rparr>"
    by (simp add: sample_trade_expected)
  have "spot_settle_fits True False False False (sample_trade 35184372088832) 18446779253786 (1000000 div FEE_TICK)"
    unfolding spot_settle_fits_def spot_fits_def s Let_def
    by (simp add: fits128_def sample_trade_simps) (simp add: sample_trade_def FEE_TICK_def)
  moreover have "spot_checks True (sample_trade 35184372088832)" by (simp add: spot_checks_def sample_trade_simps)
  ultimately show ?thesis
    using spot_fee_multiplier_ambiguous [of "Const 1" True "sample_trade 35184372088832" False
        "\<lparr>fee_account_is_taker = Const 0, fee_account_is_maker = Const 0\<rparr>" False False 18446779253786 673153]
    by (simp add: mults sample_trade_simps bval_def FEE_TICK_def s [unfolded FEE_TICK_def, simplified])
qed

end
