(* ===== verification/Perps_Trade.thy ===== *)
theory Perps_Trade
  imports Isolated_Margin Spot_Trade Byte_Gate
begin

text \<open>
  The settlement of a trade in a perpetual market (\<open>apply_perps_trade\<close> of \<open>circuit/src/apply_trade.rs\<close>): funding,
  the two positions, fees, the margin of isolated positions, the risk parameters of both parties and the open
  interest. What the code does twice, for taker and maker, is one definition here, used twice in its order.
\<close>

section \<open>Parameters and results\<close>

record perps_trade_params = apply_trade_params +
  ptp_market_flags :: target
  ptp_open_interest :: target
  ptp_risk_details :: market_risk_details
  ptp_taker_position :: account_position
  ptp_maker_position :: account_position
  taker_account_type :: target
  maker_account_type :: target
  taker_risk_info :: risk_info
  maker_risk_info :: risk_info

record perps_trade_result =
  new_taker_position :: account_position
  new_maker_position :: account_position
  new_taker_risk_info :: risk_info
  new_maker_risk_info :: risk_info
  fee_collateral_delta :: bigint
  new_open_interest :: target
  taker_position_sign_changed :: target
  maker_position_sign_changed :: target
  is_taker_position_isolated :: target
  is_maker_position_isolated :: target
  taker_margin_delta :: bigint
  maker_margin_delta :: bigint

definition MARKET_FLAGS_BITS :: nat where "MARKET_FLAGS_BITS = 2"

record market_flags_target =
  flag_margin_mode :: target
  default_margin_mode :: target

definition market_flags_from_target :: "target \<Rightarrow> market_flags_target circ" where
  "market_flags_from_target market_flags =
    circ_bind (split_le market_flags MARKET_FLAGS_BITS) (\<lambda>le_bits.
    circ_return \<lparr>flag_margin_mode = le_bits ! 0, default_margin_mode = le_bits ! 1\<rparr>)"

definition assert_bool :: "target \<Rightarrow> unit circ" where
  "assert_bool b = connect (b_mul_sub b b b) (Const 0)"

section \<open>The steps for one party\<close>

definition get_funding_delta_for_position_and_market :: "account_position \<Rightarrow> market_risk_details \<Rightarrow> bigint circ" where
  "get_funding_delta_for_position_and_market pos market =
    (let quote_multiplier_big = target_to_biguint_single_limb_unsafe (quote_multiplier market);
         position_big_u32 = bigint_u16_to_bigint (position pos) in
     circ_bind (mul_bigint_with_biguint_non_carry position_big_u32 quote_multiplier_big BIG_U96_LIMBS) (\<lambda>funding_multiplier.
     circ_bind (sub_bigint_u16_non_carry (last_funding_rate_prefix_sum pos) (funding_rate_prefix_sum market) BIGU16_U64_LIMBS) (\<lambda>funding_rate.
     let funding_rate = bigint_u16_to_bigint funding_rate in
     circ_bind (mul_biguint_non_carry (bi_abs funding_multiplier) (bi_abs funding_rate) BIG_U96_LIMBS) (\<lambda>abs.
     circ_return \<lparr>bi_abs = abs, bi_sign = b_mul (bi_sign funding_multiplier) (bi_sign funding_rate)\<rparr>))))"

text \<open>The margin mode, the funding due, and the risk parameters with it.\<close>

definition settle_funding_info ::
  "target \<Rightarrow> account_position \<Rightarrow> market_risk_details \<Rightarrow> risk_info \<Rightarrow> (target \<times> target \<times> bigint \<times> risk_info) circ" where
  "settle_funding_info is_enabled pos market info =
    circ_bind (is_equal (margin_mode pos) (constant_u64 ISOLATED_MARGIN)) (\<lambda>is_isolated.
    let is_isolated_and_enabled = b_and is_isolated is_enabled;
        is_cross = b_not is_isolated;
        is_cross_and_enabled = b_and is_cross is_enabled in
    circ_bind (get_funding_delta_for_position_and_market pos market) (\<lambda>funding_delta.
    let funding_cross_delta = mul_bigint_by_bool funding_delta is_cross_and_enabled;
        funding_current_delta = mul_bigint_by_bool funding_delta is_enabled;
        cross = cross_risk_parameters info; current = current_risk_parameters info in
    circ_bind (add_bigint_non_carry funding_cross_delta (usdc_collateral cross) BIG_U96_LIMBS) (\<lambda>cross_collateral.
    circ_bind (add_bigint_non_carry funding_current_delta (usdc_collateral current) BIG_U96_LIMBS) (\<lambda>current_collateral.
    circ_return (is_isolated, is_isolated_and_enabled, funding_current_delta,
      \<lparr>cross_risk_parameters = cross\<lparr>usdc_collateral := cross_collateral\<rparr>,
       current_risk_parameters = current\<lparr>usdc_collateral := current_collateral\<rparr>\<rparr>)))))"

definition apply_funding :: "target \<Rightarrow> target \<Rightarrow> bigint \<Rightarrow> market_risk_details \<Rightarrow> account_position \<Rightarrow> account_position circ" where
  "apply_funding is_enabled is_isolated_and_enabled funding_current_delta market pos =
    circ_bind (add_bigint_non_carry (allocated_margin pos) funding_current_delta BIG_U96_LIMBS) (\<lambda>allocated_margin_with_funding.
    circ_return (pos
      \<lparr>allocated_margin := select_bigint is_isolated_and_enabled allocated_margin_with_funding (allocated_margin pos),
       last_funding_rate_prefix_sum :=
         select_bigint_u16 is_enabled (funding_rate_prefix_sum market) (last_funding_rate_prefix_sum pos)\<rparr>))"

definition trade_fee :: "bigint \<Rightarrow> target \<Rightarrow> bigint circ" where
  "trade_fee trade_quote_big fee =
    circ_bind (signed_abs fee) (\<lambda>(abs_fee, sign_fee).
    circ_bind (mul_biguint_non_carry (bi_abs trade_quote_big) [abs_fee] BIG_U64_LIMBS) (\<lambda>abs.
    circ_return \<lparr>bi_abs = abs, bi_sign = b_mul (bi_sign trade_quote_big) sign_fee\<rparr>))"

definition trade_fees :: "target \<Rightarrow> 'a apply_trade_params_scheme \<Rightarrow> (bigint \<times> bigint) circ" where
  "trade_fees is_enabled input =
    circ_bind (is_not_zero (taker_fee input)) (\<lambda>taker_fee_non_zero.
    circ_bind (is_not_zero (maker_fee input)) (\<lambda>maker_fee_non_zero.
    let fees_enabled = b_or taker_fee_non_zero maker_fee_non_zero;
        trade_quote_for_fees = mul_bool fees_enabled (trade_quote input) in
    circ_bind (signed_target_to_bigint trade_quote_for_fees) (\<lambda>trade_quote_big.
    let trade_quote_big = select_bigint is_enabled trade_quote_big zero_bigint in
    circ_bind (trade_fee trade_quote_big (taker_fee input)) (\<lambda>new_taker_fee.
    circ_bind (trade_fee trade_quote_big (maker_fee input)) (\<lambda>new_maker_fee.
    circ_return (new_taker_fee, new_maker_fee))))))"

definition allocate :: "target \<Rightarrow> bigint \<Rightarrow> account_position \<Rightarrow> account_position circ" where
  "allocate is_isolated_and_enabled delta pos =
    circ_bind (add_bigint_non_carry delta (allocated_margin pos) BIG_U96_LIMBS) (\<lambda>new_allocated_margin.
    circ_return (pos\<lparr>allocated_margin := select_bigint is_isolated_and_enabled new_allocated_margin (allocated_margin pos)\<rparr>))"

definition settle_margin ::
  "market_risk_details \<Rightarrow> target \<Rightarrow> target \<Rightarrow> target \<Rightarrow> account_position \<Rightarrow> account_position \<Rightarrow> bigint \<Rightarrow> bigint \<Rightarrow> (account_position \<times> bigint) circ" where
  "settle_margin market is_isolated is_isolated_and_enabled open_interest_delta old_position new_position collateral_delta new_fee =
    (let neg_position_sign = b_neg (bi_sign (position old_position)) in
     circ_bind (is_equal neg_position_sign (bi_sign (position new_position))) (\<lambda>position_side_flipped.
     circ_bind (allocate is_isolated_and_enabled collateral_delta new_position) (\<lambda>new_position.
     circ_bind (calculate_isolated_margin_change market is_isolated open_interest_delta old_position new_position position_side_flipped new_fee)
       (\<lambda>margin_delta.
     circ_bind (allocate is_isolated_and_enabled margin_delta new_position) (\<lambda>new_position.
     circ_return (new_position, margin_delta))))))"

definition finish_risk ::
  "target \<Rightarrow> target \<Rightarrow> bigint \<Rightarrow> bigint \<Rightarrow> account_position \<Rightarrow> account_position \<Rightarrow> market_risk_details \<Rightarrow> risk_info \<Rightarrow> risk_info circ" where
  "finish_risk is_enabled is_isolated_and_enabled collateral_delta margin_delta old_position new_position market info =
    (let cross_collateral_delta_for_isolated = \<lparr>bi_abs = bi_abs margin_delta, bi_sign = b_neg (bi_sign margin_delta)\<rparr>;
         cross_collateral_delta = select_bigint is_isolated_and_enabled cross_collateral_delta_for_isolated collateral_delta;
         cross = cross_risk_parameters info in
     circ_bind (update_for_perps_trade collateral_delta old_position new_position market is_enabled (current_risk_parameters info)) (\<lambda>current.
     circ_bind (add_bigint_non_carry (usdc_collateral cross) cross_collateral_delta BIG_U96_LIMBS) (\<lambda>collateral.
     circ_bind (add_bigint_non_carry (usdc_collateral_with_funding cross) cross_collateral_delta BIG_U96_LIMBS) (\<lambda>with_funding.
     circ_bind (add_bigint_non_carry (total_account_value cross) cross_collateral_delta BIG_U96_LIMBS) (\<lambda>tav.
     circ_bind (add_bigint_non_carry (total_account_liquidation_threshold cross) cross_collateral_delta BIG_U96_LIMBS) (\<lambda>talt.
     circ_return
       \<lparr>cross_risk_parameters = cross\<lparr>usdc_collateral := collateral, usdc_collateral_with_funding := with_funding,
          total_account_value := tav, total_account_liquidation_threshold := talt\<rparr>,
        current_risk_parameters = current\<rparr>))))))"

section \<open>The trade\<close>

definition apply_perps_trade :: "target \<Rightarrow> perps_trade_params \<Rightarrow> perps_trade_result circ" where
  "apply_perps_trade is_enabled input =
    circ_bind (is_equal_constant (market_type (atp_market input)) MARKET_TYPE_PERPS) (\<lambda>is_perps.
    let is_enabled = b_and is_enabled is_perps; market = ptp_risk_details input in
    circ_bind (market_flags_from_target (ptp_market_flags input)) (\<lambda>market_flags.
    circ_bind (init_if_empty is_enabled (taker_account_type input) (default_margin_mode market_flags) (ptp_taker_position input)) (\<lambda>old_taker.
    circ_bind (init_if_empty is_enabled (maker_account_type input) (default_margin_mode market_flags) (ptp_maker_position input)) (\<lambda>old_maker.
    circ_bind (settle_funding_info is_enabled old_taker market (taker_risk_info input)) (\<lambda>(taker_isolated, taker_isolated_on, taker_funding, taker_info).
    circ_bind (settle_funding_info is_enabled old_maker market (maker_risk_info input)) (\<lambda>(maker_isolated, maker_isolated_on, maker_funding, maker_info).
    circ_bind (apply_funding is_enabled taker_isolated_on taker_funding market old_taker) (\<lambda>old_taker.
    let taker_position_change_sign = arithmetic (- 2) 1 (Const 1) (is_taker_ask input) (Const 1);
        taker_position_delta = b_mul taker_position_change_sign (trade_base input) in
    circ_bind (calculate_position_change is_enabled old_taker taker_position_delta market (trade_quote input) (trade_base input))
      (\<lambda>(new_taker, taker_pnl, taker_oi).
    circ_bind (mul_bigint_with_biguint_non_carry taker_pnl (constant_biguint USDC_TO_COLLATERAL_MULTIPLIER) BIG_U96_LIMBS) (\<lambda>taker_delta.
    circ_bind (apply_funding is_enabled maker_isolated_on maker_funding market old_maker) (\<lambda>old_maker.
    circ_bind (calculate_position_change is_enabled old_maker (neg_signed taker_position_delta) market (trade_quote input) (trade_base input))
      (\<lambda>(new_maker, maker_pnl, maker_oi).
    circ_bind (mul_bigint_with_biguint_non_carry maker_pnl (constant_biguint USDC_TO_COLLATERAL_MULTIPLIER) BIG_U96_LIMBS) (\<lambda>maker_delta.
    circ_bind (trade_fees is_enabled input) (\<lambda>(new_taker_fee, new_maker_fee).
    circ_bind (sub_bigint_non_carry taker_delta new_taker_fee BIG_U96_LIMBS) (\<lambda>taker_delta.
    circ_bind (sub_bigint_non_carry maker_delta new_maker_fee BIG_U96_LIMBS) (\<lambda>maker_delta.
    circ_bind (add_bigint_non_carry new_taker_fee new_maker_fee BIG_U64_LIMBS) (\<lambda>fee_delta.
    circ_bind (assert_bool (bi_sign fee_delta)) (\<lambda>_.
    circ_bind (settle_margin market taker_isolated taker_isolated_on taker_oi old_taker new_taker taker_delta new_taker_fee) (\<lambda>(new_taker, taker_margin).
    circ_bind (settle_margin market maker_isolated maker_isolated_on maker_oi old_maker new_maker maker_delta new_maker_fee) (\<lambda>(new_maker, maker_margin).
    circ_bind (add_bigint_non_carry taker_delta taker_margin BIG_U96_LIMBS) (\<lambda>taker_delta.
    circ_bind (add_bigint_non_carry maker_delta maker_margin BIG_U96_LIMBS) (\<lambda>maker_delta.
    circ_bind (finish_risk is_enabled taker_isolated_on taker_delta taker_margin old_taker new_taker market taker_info) (\<lambda>taker_info.
    circ_bind (finish_risk is_enabled maker_isolated_on maker_delta maker_margin old_maker new_maker market maker_info) (\<lambda>maker_info.
    let open_interest_delta = add_signed taker_oi maker_oi;
        new_open_interest = add_signed (ptp_open_interest input) open_interest_delta in
    circ_bind (is_not_equal (bi_sign (position old_taker)) (bi_sign (position new_taker))) (\<lambda>taker_changed.
    circ_bind (is_not_equal (bi_sign (position old_maker)) (bi_sign (position new_maker))) (\<lambda>maker_changed.
    circ_return \<lparr>new_taker_position = new_taker, new_maker_position = new_maker, new_taker_risk_info = taker_info, new_maker_risk_info = maker_info,
      fee_collateral_delta = fee_delta, new_open_interest = new_open_interest, taker_position_sign_changed = taker_changed,
      maker_position_sign_changed = maker_changed, is_taker_position_isolated = taker_isolated, is_maker_position_isolated = maker_isolated,
      taker_margin_delta = taker_margin, maker_margin_delta = maker_margin\<rparr>)))))))))))))))))))))))))"

section \<open>Contracts of the steps\<close>

text \<open>The product of two integers, magnitude and sign apart.\<close>

lemma sound_product:
  assumes "bigw a n v" "bigw b m w" "min n m \<le> 8"
  shows "sound (mul_biguint_non_carry (bi_abs a) (bi_abs b) k)
    (\<lambda>x. bigw \<lparr>bi_abs = x, bi_sign = b_mul (bi_sign a) (bi_sign b)\<rparr> (min k (n + m)) (v * w))"
proof (rule sound_weaken [OF realises_sound [OF realises_mul_biguint_non_carry [OF bigwD(1) [OF assms(1)] bigwD(1) [OF assms(2)]]]])
  show "min (length (bi_abs a)) (length (bi_abs b)) \<le> 8" using assms(3) unfolding bigwD(2) [OF assms(1)] bigwD(2) [OF assms(2)] .
  fix x assume "(max (length (bi_abs a)) (length (bi_abs b)) \<le> k \<and> bnat (bi_abs a) * bnat (bi_abs b) < 2 ^ (32 * k)) \<and>
    big x (min k (length (bi_abs a) + length (bi_abs b))) (bnat (bi_abs a) * bnat (bi_abs b))"
  then have "big x (min k (n + m)) (nat \<bar>v * w\<bar>)"
    by (simp add: bigwD(2,3) [OF assms(1)] bigwD(2,3) [OF assms(2)] abs_mult nat_mult_distrib)
  then show "bigw \<lparr>bi_abs = x, bi_sign = b_mul (bi_sign a) (bi_sign b)\<rparr> (min k (n + m)) (v * w)"
    using wsval_mult [OF bigwD(4) [OF assms(1)] bigwD(4) [OF assms(2)]] by (simp add: bigw_def)
qed

lemma sound_add96: "bigw a n v \<Longrightarrow> bigw b m w \<Longrightarrow> sound (add_bigint_non_carry a b BIG_U96_LIMBS) (\<lambda>r. bigw r 3 (v + w))"
  and sound_sub96: "bigw a n v \<Longrightarrow> bigw b m w \<Longrightarrow> sound (sub_bigint_non_carry a b BIG_U96_LIMBS) (\<lambda>r. bigw r 3 (v - w))"
  and sound_add64: "bigw a n v \<Longrightarrow> bigw b m w \<Longrightarrow> sound (add_bigint_non_carry a b BIG_U64_LIMBS) (\<lambda>r. bigw r 2 (v + w))"
  unfolding limb_counts
  by (rule sound_weaken [OF realises_sound [OF realises_add_bigint_weak]] sound_weaken [OF realises_sound [OF realises_sub_bigint_weak]]; (assumption | blast))+

lemma sound_init_if_empty:
  assumes "bval en b" "bval mode d" "represents pos s"
  shows "sound (init_if_empty en account_type mode pos) (\<lambda>r. \<exists>i. represents r (s\<lparr>isolated_of := i\<rparr>))"
  unfolding init_if_empty_def position_is_empty_def is_equal_constant_def Let_def
proof (rule sound_bind [OF implements_sound [OF implements_is_zero]], rule sound_bind [OF implements_sound [OF implements_is_equal]],
    rule sound_bind [OF implements_sound [OF implements_is_equal]], rule sound_return)
  fix empty insurance pool
  assume e: "bval empty (uval (b_add_many (bi_abs (last_funding_rate_prefix_sum pos) @ bi_abs (position pos) @ bi_abs (allocated_margin pos) @
      [entry_quote pos, initial_margin_fraction pos, total_order_count pos, total_position_tied_order_count pos, margin_mode pos, margin_set_flag pos])) = 0)"
    and i: "bval insurance (tval account_type = tval (constant_u64 INSURANCE_FUND_ACCOUNT_TYPE))"
      "bval pool (tval account_type = tval (constant_u64 PUBLIC_POOL_ACCOUNT_TYPE))"
  have zero: "bval (constant_u64 CROSS_MARGIN) False" by (simp add: constant_u64_def CROSS_MARGIN_def bval_def)
  show "\<exists>i. represents (pos\<lparr>margin_mode := select (b_and en empty) (select (b_or insurance pool) (constant_u64 CROSS_MARGIN) mode) (margin_mode pos),
      margin_set_flag := select (b_and en empty) (constant_u64 MARGIN_SET) (margin_set_flag pos)\<rparr>) (s\<lparr>isolated_of := i\<rparr>)"
    using bval_select [OF bval_and [OF assms(1) e] bval_select [OF bval_or [OF i] zero assms(2)] representsD(6) [OF assms(3)]] assms(3)
    by (auto simp: represents_def)
qed

lemma sound_get_funding_delta:
  fixes market :: market_risk_details
  assumes pos: "represents pos s" and F: "bigz16 (funding_rate_prefix_sum market) 4 F" and market: "market_ok market"
  shows "sound (get_funding_delta_for_position_and_market pos market) (\<lambda>r. bigw r 3 (funding_owed market F s))"
  unfolding get_funding_delta_for_position_and_market_def Let_def
proof -
  let ?q = "target_to_biguint_single_limb_unsafe (quote_multiplier market)"
  have "uval (quote_multiplier market) < 2 ^ 32" using market_okD(1) [OF market] by simp
  then have q: "limbs_ok ?q" "bnat ?q = uval (quote_multiplier market)" "length ?q = 1"
    by (simp_all add: target_to_biguint_single_limb_unsafe_def is_u32_def)
  have p: "bigw (bigint_u16_to_bigint (position pos)) 2 (size_of s)"
    using bigz_bigw [OF bigz_bigint_u16_to_bigint [OF representsD(1) [OF pos]]] by simp
  have one: "sound (mul_bigint_with_biguint_non_carry (bigint_u16_to_bigint (position pos)) ?q BIG_U96_LIMBS)
      (\<lambda>r. bigw r 3 (size_of s * int (uval (quote_multiplier market))))"
    by (rule sound_weaken [OF realises_sound [OF realises_mul_bigint_weak [OF p q(1)]]]) (simp_all add: q limb_counts)
  show "sound (circ_bind (mul_bigint_with_biguint_non_carry (bigint_u16_to_bigint (position pos)) ?q BIG_U96_LIMBS) (\<lambda>funding_multiplier.
     circ_bind (sub_bigint_u16_non_carry (last_funding_rate_prefix_sum pos) (funding_rate_prefix_sum market) BIGU16_U64_LIMBS) (\<lambda>funding_rate.
     circ_bind (mul_biguint_non_carry (bi_abs funding_multiplier) (bi_abs (bigint_u16_to_bigint funding_rate)) BIG_U96_LIMBS) (\<lambda>abs.
     circ_return \<lparr>bi_abs = abs, bi_sign = b_mul (bi_sign funding_multiplier) (bi_sign (bigint_u16_to_bigint funding_rate))\<rparr>))))
     (\<lambda>r. bigw r 3 (funding_owed market F s))"
  proof (rule sound_bind [OF one], rule sound_bind [OF realises_sound [OF realises_sub_bigint_u16_non_carry [OF representsD(3) [OF pos] F]]], elim conjE)
    fix m r assume m: "bigw m 3 (size_of s * int (uval (quote_multiplier market)))" and "bigz16 r BIGU16_U64_LIMBS (funding_of s - F)"
    then have r: "bigw (bigint_u16_to_bigint r) 2 (funding_of s - F)"
      using bigz_bigw [OF bigz_bigint_u16_to_bigint] by (fastforce simp: limb_counts)
    show "sound (circ_bind (mul_biguint_non_carry (bi_abs m) (bi_abs (bigint_u16_to_bigint r)) BIG_U96_LIMBS) (\<lambda>abs.
       circ_return \<lparr>bi_abs = abs, bi_sign = b_mul (bi_sign m) (bi_sign (bigint_u16_to_bigint r))\<rparr>)) (\<lambda>r. bigw r 3 (funding_owed market F s))"
      by (rule sound_bind [OF sound_product [OF m r]], simp, rule sound_return) (simp add: limb_counts funding_owed_def)
  qed
qed

text \<open>What the risk parameters of a party hold across the steps: the collateral of the cross margin.\<close>

definition cross_collateral :: "risk_info \<Rightarrow> int \<Rightarrow> bool" where
  "cross_collateral info c \<longleftrightarrow> bigw (usdc_collateral (cross_risk_parameters info)) 3 c"

lemma sound_settle_funding_info:
  fixes market :: market_risk_details
  assumes en: "bval en True" and pos: "represents pos s" and F: "bigz16 (funding_rate_prefix_sum market) 4 F" and market: "market_ok market"
    and c: "cross_collateral info c"
  shows "sound (settle_funding_info en pos market info) (\<lambda>(isol, on, f, info'). bval isol (isolated_of s) \<and> bval on (isolated_of s) \<and>
    bigw f 3 (funding_owed market F s) \<and> cross_collateral info' (c + (if isolated_of s then 0 else funding_owed market F s)))"
  unfolding settle_funding_info_def Let_def
proof (rule sound_bind [OF implements_sound [OF implements_is_equal]], rule sound_bind [OF sound_get_funding_delta [OF pos F market]])
  fix isol f assume iso: "bval isol (tval (margin_mode pos) = tval (constant_u64 ISOLATED_MARGIN))" and f: "bigw f 3 (funding_owed market F s)"
  have iso: "bval isol (isolated_of s)"
    using iso representsD(6) [OF pos] by (cases "isolated_of s") (simp_all add: bval_def constant_u64_def ISOLATED_MARGIN_def)
  have on: "bval (b_and isol en) (isolated_of s)" using bval_and [OF iso en] by simp
  have off: "bval (b_and (b_not isol) en) (\<not> isolated_of s)" using bval_and [OF bval_not [OF iso] en] by simp
  let ?u = "usdc_collateral (cross_risk_parameters info)" and ?w = "usdc_collateral (current_risk_parameters info)"
  show "sound (circ_bind (add_bigint_non_carry (mul_bigint_by_bool f (b_and (b_not isol) en)) ?u BIG_U96_LIMBS) (\<lambda>cross_collateral.
    circ_bind (add_bigint_non_carry (mul_bigint_by_bool f en) ?w BIG_U96_LIMBS) (\<lambda>current_collateral.
    circ_return (isol, b_and isol en, mul_bigint_by_bool f en,
      \<lparr>cross_risk_parameters = cross_risk_parameters info\<lparr>usdc_collateral := cross_collateral\<rparr>,
       current_risk_parameters = current_risk_parameters info\<lparr>usdc_collateral := current_collateral\<rparr>\<rparr>))))
    (\<lambda>(isol, on, f, info'). bval isol (isolated_of s) \<and> bval on (isolated_of s) \<and>
    bigw f 3 (funding_owed market F s) \<and> cross_collateral info' (c + (if isolated_of s then 0 else funding_owed market F s)))"
  proof (rule sound_bind [OF sound_add96 [OF bigw_mul_by_bool [OF off f] c [unfolded cross_collateral_def]]], rule sound_bind [OF sound_any], rule sound_return,
      unfold prod.case, intro conjI iso on)
    show "bigw (mul_bigint_by_bool f en) 3 (funding_owed market F s)" using bigw_mul_by_bool [OF en f] by simp
    fix x w assume "bigw x 3 ((if \<not> isolated_of s then funding_owed market F s else 0) + c)"
    then show "cross_collateral \<lparr>cross_risk_parameters = cross_risk_parameters info\<lparr>usdc_collateral := x\<rparr>,
        current_risk_parameters = current_risk_parameters info\<lparr>usdc_collateral := w\<rparr>\<rparr> (c + (if isolated_of s then 0 else funding_owed market F s))"
      by (cases "isolated_of s") (simp_all add: cross_collateral_def add.commute)
  qed
qed

text \<open>The position with its funding settled.\<close>

definition funded :: "market_risk_details \<Rightarrow> int \<Rightarrow> position_state \<Rightarrow> position_state" where
  "funded market F s = s\<lparr>funding_of := F, margin_of := margin_of s + (if isolated_of s then funding_owed market F s else 0)\<rparr>"

lemma sound_apply_funding:
  fixes market :: market_risk_details
  assumes en: "bval en True" and pos: "represents pos s" and F: "bigz16 (funding_rate_prefix_sum market) 4 F" and on: "bval on (isolated_of s)"
    and f: "bigw f 3 (funding_owed market F s)"
  shows "sound (apply_funding en on f market pos) (\<lambda>r. represents r (funded market F s))"
  unfolding apply_funding_def
proof (rule sound_bind [OF sound_add96 [OF representsD(5) [OF pos] f]], rule sound_return)
  fix x assume x: "bigw x 3 (margin_of s + funding_owed market F s)"
  show "represents (pos\<lparr>allocated_margin := select_bigint on x (allocated_margin pos),
      last_funding_rate_prefix_sum := select_bigint_u16 en (funding_rate_prefix_sum market) (last_funding_rate_prefix_sum pos)\<rparr>) (funded market F s)"
    using pos bigw_select [OF on x representsD(5) [OF pos]] bigz16_select [OF en F representsD(3) [OF pos]]
    by (cases "isolated_of s") (simp_all add: represents_def funded_def)
qed

text \<open>Fees are below 32 bits.\<close>

definition fee_ok :: "target \<Rightarrow> int \<Rightarrow> bool" where
  "fee_ok t f \<longleftrightarrow> get_signed_target t = f \<and> \<bar>f\<bar> < 2 ^ 32"

lemma sound_trade_fee:
  assumes "bigw quote n q" "n \<le> 2" "fee_ok fee f"
  shows "sound (trade_fee quote fee) (\<lambda>r. \<exists>k\<le>2. bigw r k (q * f))"
  unfolding trade_fee_def
proof (rule sound_bind [OF implements_sound [OF implements_signed_abs]], unfold split_paired_all prod.case, elim conjE)
  fix a sg assume a: "int (uval a) = \<bar>get_signed_target fee\<bar>" and sg: "sval sg (get_signed_target fee)"
  have f: "get_signed_target fee = f" "\<bar>f\<bar> < 2 ^ 32" using assms(3) by (simp_all add: fee_ok_def)
  have ua: "uval a = nat \<bar>f\<bar>" using a f(1) by simp
  then have "uval a < 2 ^ 32" using f(2) by (simp add: nat_less_iff)
  from big_single [OF this] have "bigw \<lparr>bi_abs = [a], bi_sign = sg\<rparr> 1 f"
    using sg f(1) ua by (simp add: bigw_def sval_wsval)
  from sound_product [OF assms(1) this, of BIG_U64_LIMBS]
  have prd: "sound (mul_biguint_non_carry (bi_abs quote) [a] BIG_U64_LIMBS) (\<lambda>x. bigw \<lparr>bi_abs = x, bi_sign = b_mul (bi_sign quote) sg\<rparr> (min BIG_U64_LIMBS (n + 1)) (q * f))"
    using assms(2) by simp
  show "sound (circ_bind (mul_biguint_non_carry (bi_abs quote) [a] BIG_U64_LIMBS) (\<lambda>abs.
      circ_return \<lparr>bi_abs = abs, bi_sign = b_mul (bi_sign quote) sg\<rparr>)) (\<lambda>r. \<exists>k\<le>2. bigw r k (q * f))"
    by (rule sound_bind [OF prd], rule sound_return, rule exI [of _ "min BIG_U64_LIMBS (n + 1)"]) (simp add: limb_counts)
qed

lemma bval_or_zero: "bval a (x \<noteq> 0) \<Longrightarrow> bval b (y \<noteq> 0) \<Longrightarrow> bval (b_or a b) (\<not> (x = 0 \<and> y = 0))" for x y :: nat
  using bval_or [of a "x \<noteq> 0" b "y \<noteq> 0"] by simp

lemma sound_trade_fees:
  assumes en: "bval en True" and f: "fee_ok (taker_fee input) tf" "fee_ok (maker_fee input) mf" and q: "get_signed_target (trade_quote input) = q"
  shows "sound (trade_fees en input) (\<lambda>(t, m). (\<exists>k\<le>2. bigw t k (q * tf)) \<and> (\<exists>k\<le>2. bigw m k (q * mf)))"
  unfolding trade_fees_def Let_def
proof (rule sound_bind [OF implements_sound [OF implements_is_not_zero]], rule sound_bind [OF implements_sound [OF implements_is_not_zero]],
    rule sound_bind [OF implements_sound [OF implements_signed_target_to_bigint]])
  fix t m qb
  assume t: "bval t (uval (taker_fee input) \<noteq> 0)" and m: "bval m (uval (maker_fee input) \<noteq> 0)"
    and qb: "bigz qb 2 (get_signed_target (mul_bool (b_or t m) (trade_quote input)))"
  have zero: "f = 0" if "uval x = 0" "fee_ok x f" for x f
    using that by (simp add: fee_ok_def get_signed_target_def POSITIVE_THRESHOLD_BIT_def)
  let ?q = "if uval (taker_fee input) = 0 \<and> uval (maker_fee input) = 0 then 0 else q"
  have "get_signed_target (mul_bool (b_or t m) (trade_quote input)) = ?q" unfolding get_signed_target_mul_bool [OF bval_or_zero [OF t m]] q by simp
  then have "bigw (select_bigint en qb zero_bigint) 2 ?q" using bigw_select [OF en bigz_bigw [OF qb] bigw_zero] by simp
  note fees = sound_trade_fee [OF this order_refl f(1)] sound_trade_fee [OF this order_refl f(2)]
  have eq: "?q * tf = q * tf" "?q * mf = q * mf" using zero [OF _ f(1)] zero [OF _ f(2)] by simp_all
  show "sound (circ_bind (trade_fee (select_bigint en qb zero_bigint) (taker_fee input)) (\<lambda>x.
      circ_bind (trade_fee (select_bigint en qb zero_bigint) (maker_fee input)) (\<lambda>y. circ_return (x, y))))
    (\<lambda>(t, m). (\<exists>k\<le>2. bigw t k (q * tf)) \<and> (\<exists>k\<le>2. bigw m k (q * mf)))"
    by (rule sound_bind [OF fees(1) [unfolded eq]], rule sound_bind [OF fees(2) [unfolded eq]], rule sound_return) simp
qed

lemma sound_allocate:
  assumes "bval on b" "bigw delta n x" "represents pos s"
  shows "sound (allocate on delta pos) (\<lambda>r. represents r (s\<lparr>margin_of := margin_of s + (if b then x else 0)\<rparr>))"
  unfolding allocate_def
proof (rule sound_bind [OF sound_add96 [OF assms(2) representsD(5) [OF assms(3)]]], rule sound_return)
  fix r assume "bigw r 3 (x + margin_of s)"
  from bigw_select [OF assms(1) this representsD(5) [OF assms(3)]] assms(3)
  show "represents (pos\<lparr>allocated_margin := select_bigint on r (allocated_margin pos)\<rparr>) (s\<lparr>margin_of := margin_of s + (if b then x else 0)\<rparr>)"
    by (cases b) (simp_all add: represents_def add.commute)
qed

lemma sound_settle_margin:
  fixes market :: market_risk_details
  assumes market: "market_ok market" and iso: "bval isol i" "bval on i" and old: "represents old s" and new: "represents new s'" "fraction_of s' < 2 ^ MARGIN_FRACTION_BITS"
    and cd: "bigw cd n c" and fee: "bigw fee k f" "k \<le> 3"
  shows "sound (settle_margin market isol on oi old new cd fee) (\<lambda>(r, md). \<exists>x. represents r (s'\<lparr>margin_of := margin_of s' + (if i then c + x else 0)\<rparr>) \<and>
    bigw md 3 (if i then x else 0))"
  unfolding settle_margin_def Let_def
proof (rule sound_bind [OF implements_sound [OF implements_is_equal]], rule sound_bind [OF sound_allocate [OF iso(2) cd new(1)]])
  fix flip new'
  let ?s = "s'\<lparr>margin_of := margin_of s' + (if i then c else 0)\<rparr>"
  assume flip: "bval flip (tval (b_neg (bi_sign (position old))) = tval (bi_sign (position new)))" and new': "represents new' ?s"
  have fr: "fraction_of ?s < 2 ^ MARGIN_FRACTION_BITS" using new(2) by simp
  show "sound (circ_bind (calculate_isolated_margin_change market isol oi old new' flip fee) (\<lambda>md.
      circ_bind (allocate on md new') (\<lambda>r. circ_return (r, md))))
    (\<lambda>(r, md). \<exists>x. represents r (s'\<lparr>margin_of := margin_of s' + (if i then c + x else 0)\<rparr>) \<and> bigw md 3 (if i then x else 0))"
  proof (rule sound_bind [OF sound_calculate_isolated_margin_change [OF iso(1) market old new' fr flip fee]], elim exE,
      rule sound_bind [OF sound_allocate [OF iso(2) _ new']], assumption, rule sound_return, unfold prod.case)
    fix md x r assume "bigw md 3 (if i then x else 0)" and r: "represents r (?s\<lparr>margin_of := margin_of ?s + (if i then if i then x else 0 else 0)\<rparr>)"
    moreover have "?s\<lparr>margin_of := margin_of ?s + (if i then if i then x else 0 else 0)\<rparr> = s'\<lparr>margin_of := margin_of s' + (if i then c + x else 0)\<rparr>" by simp
    ultimately show "\<exists>x. represents r (s'\<lparr>margin_of := margin_of s' + (if i then c + x else 0)\<rparr>) \<and> bigw md 3 (if i then x else 0)" by metis
  qed
qed

lemma sound_finish_risk:
  assumes on: "bval on i" and cd: "bigw cd 3 c" and md: "bigw md 3 m" and info: "cross_collateral info u"
  shows "sound (finish_risk en on cd md old new market info) (\<lambda>r. cross_collateral r (u + (if i then - m else c)))"
  unfolding finish_risk_def Let_def
proof (rule sound_bind [OF sound_any])
  fix current
  let ?d = "select_bigint on \<lparr>bi_abs = bi_abs md, bi_sign = b_neg (bi_sign md)\<rparr> cd"
  have d: "bigw ?d 3 (if i then - m else c)" using bigw_select [OF on bigw_neg(1) [OF md] cd] by simp
  let ?x = "cross_risk_parameters info"
  show "sound (circ_bind (add_bigint_non_carry (usdc_collateral ?x) ?d BIG_U96_LIMBS) (\<lambda>collateral.
     circ_bind (add_bigint_non_carry (usdc_collateral_with_funding ?x) ?d BIG_U96_LIMBS) (\<lambda>with_funding.
     circ_bind (add_bigint_non_carry (total_account_value ?x) ?d BIG_U96_LIMBS) (\<lambda>tav.
     circ_bind (add_bigint_non_carry (total_account_liquidation_threshold ?x) ?d BIG_U96_LIMBS) (\<lambda>talt.
     circ_return
       \<lparr>cross_risk_parameters = ?x\<lparr>usdc_collateral := collateral, usdc_collateral_with_funding := with_funding,
          total_account_value := tav, total_account_liquidation_threshold := talt\<rparr>,
        current_risk_parameters = current\<rparr>))))) (\<lambda>r. cross_collateral r (u + (if i then - m else c)))"
    by (rule sound_bind [OF sound_add96 [OF info [unfolded cross_collateral_def] d]], rule sound_bind [OF sound_any], rule sound_bind [OF sound_any],
        rule sound_bind [OF sound_any], rule sound_return) (simp add: cross_collateral_def)
qed

lemma sound_assert_bool:
  assumes "bigw a n v"
  shows "sound (assert_bool (bi_sign a)) (\<lambda>_. 0 \<le> v)"
  unfolding assert_bool_def
proof (rule sound_weaken [OF realises_sound [OF realises_connect]])
  let ?s = "bi_sign a"
  fix x assume "tval (b_mul_sub ?s ?s ?s) = tval (Const 0) \<and> True"
  then have sq: "tval ?s * tval ?s = tval ?s" by (simp add: tval_simps)
  obtain u where u: "sval ?s u" "v \<noteq> 0 \<longrightarrow> sgn u = sgn v" using bigwD(4) [OF assms] by (auto simp: wsval_def)
  have "sgn u \<noteq> - 1" using sq u(1) by (auto simp: sval_def)
  then show "0 \<le> v" using u(2) by (auto simp: sgn_if split: if_splits)
qed

section \<open>The trade as a whole\<close>

text \<open>What becomes of one party: position \<open>s\<close> and cross collateral \<open>c\<close> before, \<open>s'\<close> and \<open>c'\<close> after, for a trade of \<open>d\<close> at \<open>q\<close> and a fee.\<close>

definition settled ::
  "market_risk_details \<Rightarrow> int \<Rightarrow> int \<Rightarrow> int \<Rightarrow> int \<Rightarrow> position_state \<Rightarrow> int \<Rightarrow> position_state \<Rightarrow> int \<Rightarrow> bool" where
  "settled market F d q fee s c s' c' \<longleftrightarrow>
    size_of s' = size_of s + d \<and> funding_of s' = F \<and> 0 \<le> entry_of s' \<and> (size_of s' = 0 \<longrightarrow> entry_of s' = 0) \<and>
    c' + margin_of s' = c + margin_of s + funding_owed market F s + (owed s' - owed s - sgn d * q) * int USDC_TO_COLLATERAL_MULTIPLIER - fee"

lemma settledI:
  fixes c d q e' f x F :: int and dm mm :: nat and i :: bool and s :: position_state and market :: market_risk_details
  assumes "0 \<le> e'" "size_of s + d = 0 \<longrightarrow> e' = 0"
  defines "s2 \<equiv> funded market F (s\<lparr>isolated_of := i\<rparr>)"
  defines "s3 \<equiv> changed_to s2 d e' F dm mm"
  defines "delta \<equiv> change_pnl s2 s3 d q * int USDC_TO_COLLATERAL_MULTIPLIER - f"
  defines "md \<equiv> if i then x else 0"
  shows "settled market F d q f s c (s3\<lparr>margin_of := margin_of s3 + (if i then delta + x else 0)\<rparr>)
    (c + (if i then 0 else funding_owed market F (s\<lparr>isolated_of := i\<rparr>)) + (if i then - md else delta + md))"
  using assms(1,2)
  by (cases i) (simp_all add: settled_def s2_def s3_def delta_def md_def funded_def changed_to_def change_pnl_def owed_def funding_owed_def)

lemma fraction_changed:
  assumes "market_ok market" "fraction_of s < 2 ^ MARGIN_FRACTION_BITS"
  shows "fraction_of (changed_to (funded market F (s\<lparr>isolated_of := i\<rparr>)) d e F (uval (default_initial_margin_fraction market)) (uval (min_initial_margin_fraction market)))
    < 2 ^ MARGIN_FRACTION_BITS"
  using assms by (simp add: changed_to_def funded_def fraction_in_force_def market_ok_def)

lemma position_ok_funded: "position_ok s \<Longrightarrow> position_ok (funded market F (s\<lparr>isolated_of := i\<rparr>))"
  by (simp add: position_ok_def funded_def)

lemma isolated_set: "isolated_of (s\<lparr>isolated_of := i\<rparr>) = i" and size_funded: "size_of (funded market F (s\<lparr>isolated_of := i\<rparr>)) = size_of s"
  by (simp_all add: funded_def)

lemma open_interest_sum:
  fixes v w d :: int
  assumes "get_signed_target a = \<bar>v + d\<bar> - \<bar>v\<bar>" "get_signed_target b = \<bar>w + - d\<bar> - \<bar>w\<bar>" "get_signed_target o1 = oi" "\<bar>oi\<bar> < 2 ^ 59" "\<bar>d\<bar> \<le> 2 ^ 48"
  shows "get_signed_target (add_signed o1 (add_signed a b)) = oi + (\<bar>v + d\<bar> - \<bar>v\<bar>) + (\<bar>w - d\<bar> - \<bar>w\<bar>)"
proof -
  let ?x = "\<bar>v + d\<bar> - \<bar>v\<bar>" and ?y = "\<bar>w - d\<bar> - \<bar>w\<bar>"
  have small: "\<bar>?x\<bar> \<le> 2 ^ 48" "\<bar>?y\<bar> \<le> 2 ^ 48" using assms(5) by arith+
  then have range: "signed_range (?x + ?y)" "signed_range (oi + (?x + ?y))"
    using assms(4) unfolding signed_range_def abs_le_iff abs_less_iff by (simp_all add: goldilocks_order_nat)
  have "get_signed_target (add_signed a b) = ?x + ?y" using get_signed_target_arith(1) [of a b] range(1) assms(1,2) by simp
  then show ?thesis using get_signed_target_arith(1) [of o1 "add_signed a b"] range(2) assms(3) by simp
qed

lemma sound_market_flags: "sound (market_flags_from_target t) (\<lambda>r. \<exists>d. bval (default_margin_mode r) d)"
  unfolding market_flags_from_target_def
proof (rule sound_bind [OF realises_sound [OF realises_split_le [of MARKET_FLAGS_BITS]]])
  fix ts assume "uval t < 2 ^ MARKET_FLAGS_BITS \<and> map uval ts = le_digits 2 MARKET_FLAGS_BITS (uval t)"
  then have ts: "map uval ts = le_digits 2 2 (uval t)" by (simp add: MARKET_FLAGS_BITS_def)
  then have len: "length ts = 2" using length_map [of uval ts] unfolding ts length_le_digits by simp
  have "uval (ts ! 1) \<in> set (map uval ts)" using len by simp
  then have "uval (ts ! 1) < 2" unfolding ts using le_digits_lt [of 2 _ 2 "uval t"] by simp
  then have "bval (ts ! 1) (uval (ts ! 1) = 1)" by (auto simp: bval_iff_uval less_2_cases_iff)
  then show "sound (circ_return \<lparr>flag_margin_mode = ts ! 0, default_margin_mode = ts ! 1\<rparr>) (\<lambda>r. \<exists>d. bval (default_margin_mode r) d)"
    by (intro sound_return) auto
qed (simp_all add: MARKET_FLAGS_BITS_def)

lemma sound_to_collateral:
  assumes "bigw a 2 v"
  shows "sound (mul_bigint_with_biguint_non_carry a (constant_biguint USDC_TO_COLLATERAL_MULTIPLIER) BIG_U96_LIMBS)
    (\<lambda>r. bigw r 3 (v * int USDC_TO_COLLATERAL_MULTIPLIER))"
proof -
  have m: "big (constant_biguint USDC_TO_COLLATERAL_MULTIPLIER) 1 USDC_TO_COLLATERAL_MULTIPLIER"
    by (rule constant_biguint_single(2)) (simp_all add: usdc_multiplier)
  show ?thesis
    by (rule sound_weaken [OF realises_sound [OF realises_mul_bigint_weak [OF assms bigD(1) [OF m]]]]) (simp_all add: bigD(2,3) [OF m] limb_counts)
qed

text \<open>The signed size of the trade for the taker.\<close>

lemma taker_delta:
  assumes "bval ask_t ask" "int (uval base_t) = base" "base < 2 ^ 60"
  shows "get_signed_target (b_mul (arithmetic (- 2) 1 (Const 1) ask_t (Const 1)) base_t) = (if ask then - base else base)"
proof (rule get_signed_target_eqI)
  have "tval base_t = of_int base" unfolding assms(2) [symmetric] by simp
  then show "tval (b_mul (arithmetic (- 2) 1 (Const 1) ask_t (Const 1)) base_t) = of_int (if ask then - base else base)"
    using assms(1) by (cases ask) (simp_all add: tval_simps bval_def)
  have "0 \<le> base" unfolding assms(2) [symmetric] by simp
  then show "signed_range (if ask then - base else base)" using assms(3) by (simp add: signed_range_def goldilocks_order_nat)
qed

definition perps_conserved ::
  "perps_trade_params \<Rightarrow> int \<Rightarrow> int \<Rightarrow> int \<Rightarrow> int \<Rightarrow> int \<Rightarrow> int \<Rightarrow> position_state \<Rightarrow> int \<Rightarrow> position_state \<Rightarrow> int \<Rightarrow> perps_trade_result \<Rightarrow> bool" where
  "perps_conserved input F d q tf mf oi s c t c2 r \<longleftrightarrow>
    (\<exists>s' t' c' c2'. represents (new_taker_position r) s' \<and> represents (new_maker_position r) t' \<and>
      cross_collateral (new_taker_risk_info r) c' \<and> cross_collateral (new_maker_risk_info r) c2' \<and>
      settled (ptp_risk_details input) F d q (q * tf) s c s' c' \<and> settled (ptp_risk_details input) F (- d) q (q * mf) t c2 t' c2' \<and>
      bigw (fee_collateral_delta r) 2 (q * tf + q * mf) \<and> 0 \<le> q * tf + q * mf \<and>
      get_signed_target (new_open_interest r) = oi + (\<bar>size_of s'\<bar> - \<bar>size_of s\<bar>) + (\<bar>size_of t'\<bar> - \<bar>size_of t\<bar>))"

lemma perps_conservedI:
  assumes "represents p s'" "represents p' t'" "cross_collateral i c'" "cross_collateral i' c2'"
    "settled (ptp_risk_details input) F d q (q * tf) s c s' c'" "settled (ptp_risk_details input) F (- d) q (q * mf) t c2 t' c2'"
    "bigw fd 2 (q * tf + q * mf)" "0 \<le> q * tf + q * mf"
    "get_signed_target a = \<bar>size_of s + d\<bar> - \<bar>size_of s\<bar>" "get_signed_target b = \<bar>size_of t + - d\<bar> - \<bar>size_of t\<bar>"
    "get_signed_target o1 = oi" "\<bar>oi\<bar> < 2 ^ 59" "\<bar>d\<bar> \<le> 2 ^ 48"
  shows "perps_conserved input F d q tf mf oi s c t c2
    \<lparr>new_taker_position = p, new_maker_position = p', new_taker_risk_info = i, new_maker_risk_info = i',
      fee_collateral_delta = fd, new_open_interest = add_signed o1 (add_signed a b), taker_position_sign_changed = x1,
      maker_position_sign_changed = x2, is_taker_position_isolated = x3, is_maker_position_isolated = x4,
      taker_margin_delta = x5, maker_margin_delta = x6\<rparr>"
  unfolding perps_conserved_def perps_trade_result.simps
  by (intro exI conjI; (rule assms)?) (use assms(5,6) open_interest_sum [OF assms(9-13)] in \<open>simp add: settled_def\<close>)

lemma sound_perps:
  fixes input :: perps_trade_params
  defines "market \<equiv> ptp_risk_details input"
  assumes en: "bval is_enabled True" "uval (market_type (atp_market input)) = MARKET_TYPE_PERPS" and market: "market_ok market"
    and F: "bigz16 (funding_rate_prefix_sum market) 4 F"
    and taker: "represents (ptp_taker_position input) s" "position_ok s" "cross_collateral (taker_risk_info input) c"
    and maker: "represents (ptp_maker_position input) t" "position_ok t" "cross_collateral (maker_risk_info input) c2"
    and ask: "bval (is_taker_ask input) ask" and base: "int (uval (trade_base input)) = base" and q: "get_signed_target (trade_quote input) = q"
    and ok: "trade_ok base q" and fees: "fee_ok (taker_fee input) tf" "fee_ok (maker_fee input) mf"
    and oi: "get_signed_target (ptp_open_interest input) = oi" "\<bar>oi\<bar> < 2 ^ 59"
  shows "sound (apply_perps_trade is_enabled input) (perps_conserved input F (if ask then - base else base) q tf mf oi s c t c2)"
proof -
  let ?d = "if ask then - base else base" and ?m = "uval (default_initial_margin_fraction market)" and ?n = "uval (min_initial_margin_fraction market)"
  have small: "base < 2 ^ 60" "\<bar>?d\<bar> < 2 ^ 60" "\<bar>?d\<bar> \<le> 2 ^ 48" and ok': "trade_ok ?d q" "trade_ok (- ?d) q"
    using ok by (auto simp: trade_ok_def ORDER_BASE_AMOUNT_BITS_def)
  note d = taker_delta [OF ask base small(1)]
  note d' = get_signed_target_neg [OF d small(2)]
  have perps: "sound (is_equal_constant (market_type (atp_market input)) MARKET_TYPE_PERPS) (\<lambda>r. bval r True)"
    using implements_sound [OF implements_is_equal_constant [of MARKET_TYPE_PERPS "market_type (atp_market input)"]] en(2)
    by (simp add: MARKET_TYPE_PERPS_def)
  note imf = market_okD(3,4) [OF market]
  note fr = fraction_changed [OF market, where F = F]
  have frs: "fraction_of s < 2 ^ MARGIN_FRACTION_BITS" "fraction_of t < 2 ^ MARGIN_FRACTION_BITS" using taker(2) maker(2) by (simp_all add: position_ok_def)
  note step = sound_settle_funding_info [OF _ _ F market] sound_apply_funding [OF _ _ F] sound_calculate_position_change [OF _ _ _ F imf]
  have en1: "bval (b_and is_enabled p) True" if "bval p True" for p using bval_and [OF en(1) that] by simp
  show ?thesis
    unfolding apply_perps_trade_def Let_def market_def [symmetric]
  proof (rule sound_bind [OF perps], rule sound_bind [OF sound_market_flags], elim exE,
      rule sound_bind [OF sound_init_if_empty [OF en1]], assumption, assumption, rule taker(1), elim exE,
      rule sound_bind [OF sound_init_if_empty [OF en1]], assumption, assumption, rule maker(1), elim exE,
      rule sound_bind [OF step(1) [OF en1]], assumption, assumption, rule taker(3), unfold split_paired_all prod.case, elim conjE,
      rule sound_bind [OF step(1) [OF en1]], assumption, assumption, rule maker(3), unfold split_paired_all prod.case, elim conjE,
      unfold isolated_set,
      rule sound_bind [OF step(2) [OF en1]], assumption, assumption, unfold isolated_set, assumption, assumption,
      rule sound_bind [OF step(3) [OF en1 _ position_ok_funded d q ok'(1)]], assumption, assumption, rule taker(2),
      unfold split_paired_all prod.case if_True, elim exE conjE,
      rule sound_bind [OF sound_to_collateral], assumption,
      rule sound_bind [OF step(2) [OF en1]], assumption, assumption, unfold isolated_set, assumption, assumption,
      rule sound_bind [OF step(3) [OF en1 _ position_ok_funded d' q ok'(2)]], assumption, assumption, rule maker(2),
      unfold split_paired_all prod.case if_True, elim exE conjE,
      rule sound_bind [OF sound_to_collateral], assumption,
      rule sound_bind [OF sound_trade_fees [OF en1 fees q]], assumption, unfold split_paired_all prod.case, elim exE conjE,
      rule sound_bind [OF sound_sub96], assumption, assumption, rule sound_bind [OF sound_sub96], assumption, assumption,
      rule sound_bind [OF sound_add64], assumption, assumption, rule sound_bind [OF sound_assert_bool], assumption,
      rule sound_bind [OF sound_settle_margin [OF market]], assumption, assumption, assumption, assumption, rule fr, rule frs(1),
      assumption, assumption, erule order_trans, simp, unfold split_paired_all prod.case, elim exE conjE,
      rule sound_bind [OF sound_settle_margin [OF market]], assumption, assumption, assumption, assumption, rule fr, rule frs(2),
      assumption, assumption, erule order_trans, simp, unfold split_paired_all prod.case, elim exE conjE,
      rule sound_bind [OF sound_add96], assumption, assumption, rule sound_bind [OF sound_add96], assumption, assumption,
      rule sound_bind [OF sound_finish_risk], assumption, assumption, assumption, assumption,
      rule sound_bind [OF sound_finish_risk], assumption, assumption, assumption, assumption,
      rule sound_bind [OF sound_any], rule sound_bind [OF sound_any], rule sound_return, unfold size_funded,
      rule perps_conservedI [where input = input, OF _ _ _ _ _ _ _ _ _ _ oi small(3), folded market_def], assumption, assumption, assumption, assumption,
      rule settledI, assumption, assumption, rule settledI, assumption, assumption, assumption, assumption, assumption, assumption)
  qed
qed

section \<open>Properties\<close>

text \<open>
  C6. Settlement of a perpetual trade, for every accepted run: both sizes move by the trade in opposite directions,
  both fundings are up to date, each party's collateral and margin together change by the funding due, the realized
  profit and the fee, the fees are not negative together, and the open interest follows the two sizes.
\<close>
theorem perps_trade_settles:
  assumes "bval is_enabled True" "uval (market_type (atp_market input)) = MARKET_TYPE_PERPS" "market_ok (ptp_risk_details input)"
    and "bigz16 (funding_rate_prefix_sum (ptp_risk_details input)) 4 F"
    and "represents (ptp_taker_position input) s" "position_ok s" "cross_collateral (taker_risk_info input) c"
    and "represents (ptp_maker_position input) t" "position_ok t" "cross_collateral (maker_risk_info input) c2"
    and "bval (is_taker_ask input) ask" "int (uval (trade_base input)) = base" "get_signed_target (trade_quote input) = q" "trade_ok base q"
    and "fee_ok (taker_fee input) tf" "fee_ok (maker_fee input) mf" "get_signed_target (ptp_open_interest input) = oi" "\<bar>oi\<bar> < 2 ^ 59"
  shows "sound (apply_perps_trade is_enabled input) (perps_conserved input F (if ask then - base else base) q tf mf oi s c t c2)"
  using assms by (rule sound_perps)

definition example_market_target :: market_target where
  "example_market_target = \<lparr>market_index = Const 0, market_status = Const 1, market_type = Const 0, market_base_asset_id = Const 1,
     market_quote_asset_id = Const 3, market_ask_nonce = Const 0, market_bid_nonce = Const 0, market_taker_fee = Const 50,
     market_maker_fee = Const 0, market_liquidation_fee = Const 0, size_extension_multiplier = Const 1,
     quote_extension_multiplier = Const 1, market_total_order_count = Const 0, min_base_amount = Const 0,
     min_quote_amount = Const 0, order_quote_limit = Const 0, order_book_root = [], perps_market_index = Const 0\<rparr>"

definition example_info :: "int \<Rightarrow> risk_info" where
  "example_info c = \<lparr>cross_risk_parameters = example_risk c 0 0 0 0 0, current_risk_parameters = example_risk c 0 0 0 0 0\<rparr>"

definition perps_example :: perps_trade_params where
  "perps_example = \<lparr>atp_market = example_market_target, is_taker_ask = Const 1, trade_base = Wire 15, trade_quote = Wire 900,
     taker_fee = Wire 50, maker_fee = Wire (- 20), ptp_market_flags = Const 0, ptp_open_interest = Wire 20, ptp_risk_details = trading_market,
     ptp_taker_position = isolated_position 10 500 3 0 10000, ptp_maker_position = isolated_position 10 500 3 0 10000,
     taker_account_type = Const 0, maker_account_type = Const 0, taker_risk_info = example_info 1000, maker_risk_info = example_info 1000\<rparr>"

lemma perps_example:
  "uval (market_type (atp_market perps_example)) = MARKET_TYPE_PERPS" "market_ok (ptp_risk_details perps_example)"
  "bigz16 (funding_rate_prefix_sum (ptp_risk_details perps_example)) 4 7"
  "represents (ptp_taker_position perps_example) (isolated_state 10 500 3 0 10000)" "position_ok (isolated_state 10 500 3 0 10000)"
  "cross_collateral (taker_risk_info perps_example) 1000" "represents (ptp_maker_position perps_example) (isolated_state 10 500 3 0 10000)"
  "cross_collateral (maker_risk_info perps_example) 1000" "bval (is_taker_ask perps_example) True"
  "int (uval (trade_base perps_example)) = 15" "get_signed_target (trade_quote perps_example) = 900" "trade_ok 15 900"
  "fee_ok (taker_fee perps_example) 50" "fee_ok (maker_fee perps_example) (- 20)" "get_signed_target (ptp_open_interest perps_example) = 20"
proof -
  have "get_signed_target (Wire 900) = 900" "get_signed_target (Wire 50) = 50" "get_signed_target (Wire (- 20)) = - 20" "get_signed_target (Wire 20) = 20"
    by (rule get_signed_target_eqI; simp add: signed_range_def goldilocks_order_nat)+
  then show "get_signed_target (trade_quote perps_example) = 900" "fee_ok (taker_fee perps_example) 50" "fee_ok (maker_fee perps_example) (- 20)"
    "get_signed_target (ptp_open_interest perps_example) = 20"
    by (simp_all add: perps_example_def fee_ok_def)
  have "cross_collateral (example_info 1000) 1000"
    using bigz_bigw [OF bigz_small_bigint [of 1000]] by (simp add: cross_collateral_def example_info_def example_risk_def)
  then show "cross_collateral (taker_risk_info perps_example) 1000" "cross_collateral (maker_risk_info perps_example) 1000"
    by (simp_all add: perps_example_def)
qed (use represents_isolated [of 10 500 3 0 10000] trading_market_ok bval_Const(1) in \<open>simp_all add: perps_example_def example_market_target_def MARKET_TYPE_PERPS_def
    position_ok_def isolated_state_def POSITION_SIZE_BITS_def ENTRY_QUOTE_BITS_def MARGIN_FRACTION_BITS_def trade_ok_def ORDER_BASE_AMOUNT_BITS_def\<close>)

lemma perps_trade_settles_witness:
  "sound (apply_perps_trade (Const 1) perps_example)
    (perps_conserved perps_example 7 (- 15) 900 50 (- 20) 20 (isolated_state 10 500 3 0 10000) 1000 (isolated_state 10 500 3 0 10000) 1000)"
  using perps_trade_settles [OF bval_Const(1) perps_example(1-6) perps_example(7) perps_example(5) perps_example(8-15)] by simp

text \<open>
  C5. Conservation: in every accepted run the collateral and margin of both parties and the fee collected sum to
  what the parties had, the funding due to them, and the change of what their two positions owe at entry; sizes balance.
\<close>
theorem perps_trade_conserves:
  assumes "bval is_enabled True" "uval (market_type (atp_market input)) = MARKET_TYPE_PERPS" "market_ok (ptp_risk_details input)"
    and "bigz16 (funding_rate_prefix_sum (ptp_risk_details input)) 4 F"
    and "represents (ptp_taker_position input) s" "position_ok s" "cross_collateral (taker_risk_info input) c"
    and "represents (ptp_maker_position input) t" "position_ok t" "cross_collateral (maker_risk_info input) c2"
    and "bval (is_taker_ask input) ask" "int (uval (trade_base input)) = base" "get_signed_target (trade_quote input) = q" "trade_ok base q"
    and "fee_ok (taker_fee input) tf" "fee_ok (maker_fee input) mf" "get_signed_target (ptp_open_interest input) = oi" "\<bar>oi\<bar> < 2 ^ 59"
  shows "sound (apply_perps_trade is_enabled input) (\<lambda>r. \<exists>s' t' c' c2' fee.
    represents (new_taker_position r) s' \<and> represents (new_maker_position r) t' \<and>
    cross_collateral (new_taker_risk_info r) c' \<and> cross_collateral (new_maker_risk_info r) c2' \<and> bigw (fee_collateral_delta r) 2 fee \<and> 0 \<le> fee \<and>
    size_of s' + size_of t' = size_of s + size_of t \<and>
    c' + margin_of s' + c2' + margin_of t' + fee = c + margin_of s + c2 + margin_of t +
      funding_owed (ptp_risk_details input) F s + funding_owed (ptp_risk_details input) F t +
      (owed s' + owed t' - (owed s + owed t)) * int USDC_TO_COLLATERAL_MULTIPLIER)"
proof (rule sound_weaken [OF sound_perps [OF assms]], unfold perps_conserved_def, elim exE conjE, intro exI conjI)
  fix r s' t' c' c2'
  let ?d = "if ask then - base else base"
  assume settled: "settled (ptp_risk_details input) F ?d q (q * tf) s c s' c'" "settled (ptp_risk_details input) F (- ?d) q (q * mf) t c2 t' c2'"
  show "size_of s' + size_of t' = size_of s + size_of t" using settled by (simp add: settled_def)
  have "sgn (- ?d) = - sgn ?d" by (simp only: sgn_minus)
  with settled show "c' + margin_of s' + c2' + margin_of t' + (q * tf + q * mf) = c + margin_of s + c2 + margin_of t +
      funding_owed (ptp_risk_details input) F s + funding_owed (ptp_risk_details input) F t +
      (owed s' + owed t' - (owed s + owed t)) * int USDC_TO_COLLATERAL_MULTIPLIER"
    unfolding settled_def by (simp add: algebra_simps)
qed

lemma perps_trade_conserves_witness:
  "sound (apply_perps_trade (Const 1) perps_example) (\<lambda>r. \<exists>s' t' c' c2' fee.
    represents (new_taker_position r) s' \<and> represents (new_maker_position r) t' \<and>
    cross_collateral (new_taker_risk_info r) c' \<and> cross_collateral (new_maker_risk_info r) c2' \<and> bigw (fee_collateral_delta r) 2 fee \<and> 0 \<le> fee \<and>
    size_of s' + size_of t' = 20 \<and> c' + margin_of s' + c2' + margin_of t' + fee = 22000 - 160 + (owed s' + owed t' - 1000) * 1000000)"
  using perps_trade_conserves [OF bval_Const(1) perps_example(1-6) perps_example(7) perps_example(5) perps_example(8-15)]
  by (simp add: perps_example_def trading_values owed_def algebra_simps)

end
