(* ===== verification/Trade_Validity.thy ===== *)
theory Trade_Validity
  imports Match_Flags Perps_Trade
begin

text \<open>
  Whether a settled perpetual trade may take effect (\<open>is_valid_perps_trade\<close> of \<open>circuit/src/matching_engine.rs\<close>): the
  open interest of the market, and for each party the bounds of the new position, the change of its risk and the
  collateral an isolated position takes. A trade that fails cancels the order of the party at fault.
\<close>

section \<open>The circuit\<close>

definition MARKET_OPEN_INTEREST_BITS :: nat where "MARKET_OPEN_INTEREST_BITS = 56"
definition MARKET_OPEN_INTEREST_NOTIONAL_BITS :: nat where "MARKET_OPEN_INTEREST_NOTIONAL_BITS = 56"
definition MARKET_OPEN_INTEREST_NOTIONAL :: nat where "MARKET_OPEN_INTEREST_NOTIONAL = 2 ^ MARKET_OPEN_INTEREST_NOTIONAL_BITS - 1"
definition MARKET_OPEN_INTEREST :: nat where "MARKET_OPEN_INTEREST = 2 ^ MARKET_OPEN_INTEREST_BITS - 1"

text \<open>The open interest: the tests that cancel the taker order.\<close>

definition open_interest_check :: "target \<Rightarrow> perps_trade_params \<Rightarrow> target \<Rightarrow> account_position \<Rightarrow> target \<Rightarrow> target circ" where
  "open_interest_check is_enabled input open_interest_limit taker_position oi =
    (let old_position = position (ptp_taker_position input); market = ptp_risk_details input;
         new_taker_position_abs = biguint_u16_to_biguint (bi_abs (position taker_position));
         old_taker_position_abs = biguint_u16_to_biguint (bi_abs old_position) in
     circ_bind (is_gte_biguint new_taker_position_abs old_taker_position_abs) (\<lambda>is_new_taker_position_gte.
     let neg_taker_position_sign = b_neg (bi_sign old_position) in
     circ_bind (is_equal neg_taker_position_sign (bi_sign (position taker_position))) (\<lambda>taker_position_side_flipped.
     let is_position_increase_or_flip = b_or is_new_taker_position_gte taker_position_side_flipped;
         open_interest_notional_mult = b_mul (mark_price market) (quote_multiplier market);
         old_open_interest_notional = b_mul (ptp_open_interest input) open_interest_notional_mult;
         new_open_interest_notional = b_mul oi open_interest_notional_mult in
     circ_bind (is_equal_constant (taker_account_type input) INSURANCE_FUND_ACCOUNT_TYPE) (\<lambda>is_taker_insurance_fund.
     circ_bind (is_equal_constant (maker_account_type input) INSURANCE_FUND_ACCOUNT_TYPE) (\<lambda>is_maker_insurance_fund.
     let is_not_insurance_fund_trade = b_not (b_or is_taker_insurance_fund is_maker_insurance_fund) in
     circ_bind (is_gt old_open_interest_notional open_interest_limit 64) (\<lambda>is_market_open_interest_notional_full.
     let full_and_not_reduce = b_and is_market_open_interest_notional_full is_position_increase_or_flip;
         full_and_not_reduce = b_and full_and_not_reduce is_not_insurance_fund_trade;
         within_the_limit = b_not is_market_open_interest_notional_full in
     circ_bind (is_gt new_open_interest_notional open_interest_limit 64) (\<lambda>new_open_interest_notional_gt_limit.
     circ_bind (is_gt new_open_interest_notional (Const (of_nat MARKET_OPEN_INTEREST_NOTIONAL)) 64) (\<lambda>new_open_interest_notional_gt_max_limit.
     let went_over_the_limit = b_and within_the_limit new_open_interest_notional_gt_limit;
         went_over_the_limit = b_and went_over_the_limit is_not_insurance_fund_trade in
     circ_bind (is_gt oi (constant_u64 MARKET_OPEN_INTEREST) 64) (\<lambda>open_interest_went_over_the_limit.
     let cancel_taker = b_and full_and_not_reduce is_enabled;
         went_over_the_limit = b_and went_over_the_limit is_enabled;
         open_interest_went_over_the_limit = b_and open_interest_went_over_the_limit is_enabled;
         cancel_taker = b_or cancel_taker went_over_the_limit;
         cancel_taker = b_or cancel_taker open_interest_went_over_the_limit in
     circ_return (b_or cancel_taker new_open_interest_notional_gt_max_limit))))))))))"

text \<open>The tests of one party.\<close>

definition party_check :: "target \<Rightarrow> target \<Rightarrow> account_position \<Rightarrow> risk_info \<Rightarrow> risk_info \<Rightarrow> bigint \<Rightarrow> target circ" where
  "party_check is_enabled cancel new_pos old_info new_info margin_delta =
    circ_bind (position_is_valid new_pos) (\<lambda>is_new_position_valid.
    let cancel = b_or cancel (and_not is_enabled is_new_position_valid) in
    circ_bind (is_valid_risk_change (current_risk_parameters old_info) (current_risk_parameters new_info)) (\<lambda>is_valid_risk_change.
    let cancel = b_or cancel (and_not is_enabled is_valid_risk_change) in
    circ_bind (get_available_usdc_collateral (cross_risk_parameters old_info)) (\<lambda>available_cross_collateral.
    circ_bind (is_gte_biguint available_cross_collateral (bi_abs margin_delta)) (\<lambda>collateral_gte_delta.
    circ_bind (is_sign_negative (bi_sign margin_delta)) (\<lambda>is_delta_negative.
    let has_enough_cross_collateral = b_or collateral_gte_delta is_delta_negative in
    circ_return (b_or cancel (and_not is_enabled has_enough_cross_collateral)))))))"

definition is_valid_perps_trade ::
  "match_flags \<Rightarrow> perps_trade_params \<Rightarrow> target \<Rightarrow> account_position \<Rightarrow> risk_info \<Rightarrow> bigint \<Rightarrow> account_position \<Rightarrow> risk_info \<Rightarrow> bigint \<Rightarrow> target \<Rightarrow>
    match_flags circ" where
  "is_valid_perps_trade fl input limit taker_position taker_info taker_margin maker_position maker_info maker_margin
      oi =
    circ_bind (is_equal_constant (market_type (atp_market input)) MARKET_TYPE_PERPS) (\<lambda>is_perps.
    let is_enabled = b_and (update_status fl) is_perps in
    circ_bind (open_interest_check is_enabled input limit taker_position oi) (\<lambda>cancel_taker.
    circ_bind (party_check is_enabled cancel_taker taker_position (taker_risk_info input) taker_info taker_margin) (\<lambda>cancel_taker.
    let fl = fl\<lparr>cancel_taker_order := select_bool cancel_taker is_enabled (cancel_taker_order fl)\<rparr> in
    circ_bind (party_check is_enabled (Const 0) maker_position (maker_risk_info input) maker_info maker_margin) (\<lambda>cancel_maker.
    let fl = fl\<lparr>cancel_maker_order := select_bool cancel_maker is_enabled (cancel_maker_order fl)\<rparr>;
        update = and_not (update_status fl) (cancel_taker_order fl) in
    circ_return (fl\<lparr>update_status := and_not update (cancel_maker_order fl)\<rparr>)))))"

section \<open>Contracts\<close>

text \<open>The open interest blocks the trade: \<open>P\<close> is the value of one unit, \<open>grow\<close> that the taker's position does not shrink.\<close>

definition interest_blocked :: "nat \<Rightarrow> nat \<Rightarrow> nat \<Rightarrow> nat \<Rightarrow> bool \<Rightarrow> bool \<Rightarrow> bool" where
  "interest_blocked P oi oi' limit grow insurance \<longleftrightarrow>
    (limit < oi * P \<and> grow \<and> \<not> insurance) \<or> (oi * P \<le> limit \<and> limit < oi' * P \<and> \<not> insurance) \<or> MARKET_OPEN_INTEREST < oi' \<or>
    MARKET_OPEN_INTEREST_NOTIONAL < oi' * P"

text \<open>The part of it the code does not switch off.\<close>

definition interest_flag :: "bool \<Rightarrow> nat \<Rightarrow> nat \<Rightarrow> nat \<Rightarrow> nat \<Rightarrow> bool \<Rightarrow> bool \<Rightarrow> bool" where
  "interest_flag en P oi oi' limit grow insurance \<longleftrightarrow>
    (if en then interest_blocked P oi oi' limit grow insurance else MARKET_OPEN_INTEREST_NOTIONAL < oi' * P)"

definition grows :: "int \<Rightarrow> int \<Rightarrow> bool" where
  "grows v v' \<longleftrightarrow> \<bar>v\<bar> \<le> \<bar>v'\<bar> \<or> sgn v' = - sgn v"

lemma implements_open_interest_check:
  fixes input :: perps_trade_params
  defines "P \<equiv> market_price (ptp_risk_details input)"
  assumes en: "bval is_enabled en" and market: "market_ok (ptp_risk_details input)"
    and old: "represents (ptp_taker_position input) s" and new: "represents pos s'"
    and fits: "uval (ptp_open_interest input) * P < p_nat" "uval oi' * P < p_nat"
  shows "implements (open_interest_check is_enabled input limit pos oi')
    (\<lambda>r. bval r (interest_flag en P (uval (ptp_open_interest input)) (uval oi') (uval limit) (grows (size_of s) (size_of s'))
      (uval (taker_account_type input) = INSURANCE_FUND_ACCOUNT_TYPE \<or> uval (maker_account_type input) = INSURANCE_FUND_ACCOUNT_TYPE)))"
  unfolding open_interest_check_def Let_def
proof -
  let ?o = "position (ptp_taker_position input)" and ?n = "position pos"
  note o' = representsD(1) [OF old] and n' = representsD(1) [OF new]
  note ob = big_position [OF o'] and nb = big_position [OF n']
  let ?mult = "b_mul (mark_price (ptp_risk_details input)) (quote_multiplier (ptp_risk_details input))"
  have "uval (mark_price (ptp_risk_details input)) * uval (quote_multiplier (ptp_risk_details input)) < 2 ^ 32 * 2 ^ 14"
    using market_okD(1,2) [OF market] by (intro mult_strict_mono) simp_all
  then have mult: "uval ?mult = P" using uval_mul [of "mark_price (ptp_risk_details input)" "quote_multiplier (ptp_risk_details input)"]
    by (simp add: P_def market_price_def mult.commute)
  have notional: "uval (b_mul (ptp_open_interest input) ?mult) = uval (ptp_open_interest input) * P" "uval (b_mul oi' ?mult) = uval oi' * P"
    using uval_mul [of "ptp_open_interest input" ?mult] uval_mul [of oi' ?mult] fits mult by simp_all
  have limits: "uval (Const (of_nat MARKET_OPEN_INTEREST_NOTIONAL)) = MARKET_OPEN_INTEREST_NOTIONAL" "uval (constant_u64 MARKET_OPEN_INTEREST) = MARKET_OPEN_INTEREST"
    unfolding constant_u64_def by (rule uval_big; simp add: MARKET_OPEN_INTEREST_NOTIONAL_def MARKET_OPEN_INTEREST_NOTIONAL_BITS_def
      MARKET_OPEN_INTEREST_def MARKET_OPEN_INTEREST_BITS_def)+
  have ins: "INSURANCE_FUND_ACCOUNT_TYPE < p_nat" by (simp add: INSURANCE_FUND_ACCOUNT_TYPE_def)
  have gte: "implements (is_gte_biguint (biguint_u16_to_biguint (bi_abs ?n)) (biguint_u16_to_biguint (bi_abs ?o))) (\<lambda>r. bval r (\<bar>size_of s\<bar> \<le> \<bar>size_of s'\<bar>))"
    using implements_is_gte_biguint [OF bigD(1) [OF nb] bigD(1) [OF ob]] unfolding bigD(3) [OF nb] bigD(3) [OF ob] by (simp add: nat_abs_simps)
  have sval_neg: "sval (b_neg (bi_sign ?o)) (- size_of s)" unfolding sval_simps(2) using bigz16D(4) [OF o'] by simp
  have flip: "bval r (sgn (size_of s') = - sgn (size_of s))" if "bval r (tval (b_neg (bi_sign ?o)) = tval (bi_sign ?n))" for r
    using bval_sign_eq [OF that sval_neg bigz16D(4) [OF n']] by (simp add: sgn_minus eq_commute)
  note gt = implements_is_gt [OF cmp_ok_64 cmp_ok_64]
  show "implements (circ_bind (is_gte_biguint (biguint_u16_to_biguint (bi_abs ?n)) (biguint_u16_to_biguint (bi_abs ?o))) (\<lambda>is_new_taker_position_gte.
     circ_bind (is_equal (b_neg (bi_sign ?o)) (bi_sign ?n)) (\<lambda>taker_position_side_flipped.
     circ_bind (is_equal_constant (taker_account_type input) INSURANCE_FUND_ACCOUNT_TYPE) (\<lambda>is_taker_insurance_fund.
     circ_bind (is_equal_constant (maker_account_type input) INSURANCE_FUND_ACCOUNT_TYPE) (\<lambda>is_maker_insurance_fund.
     circ_bind (is_gt (b_mul (ptp_open_interest input) ?mult) limit 64) (\<lambda>full.
     circ_bind (is_gt (b_mul oi' ?mult) limit 64) (\<lambda>over.
     circ_bind (is_gt (b_mul oi' ?mult) (Const (of_nat MARKET_OPEN_INTEREST_NOTIONAL)) 64) (\<lambda>over_max.
     circ_bind (is_gt oi' (constant_u64 MARKET_OPEN_INTEREST) 64) (\<lambda>oi_over.
     circ_return (b_or (b_or (b_or (b_and (b_and (b_and full (b_or is_new_taker_position_gte taker_position_side_flipped))
       (b_not (b_or is_taker_insurance_fund is_maker_insurance_fund))) is_enabled)
       (b_and (b_and (b_and (b_not full) over) (b_not (b_or is_taker_insurance_fund is_maker_insurance_fund))) is_enabled))
       (b_and oi_over is_enabled)) over_max))))))))))
    (\<lambda>r. bval r (interest_flag en P (uval (ptp_open_interest input)) (uval oi') (uval limit) (grows (size_of s) (size_of s'))
      (uval (taker_account_type input) = INSURANCE_FUND_ACCOUNT_TYPE \<or> uval (maker_account_type input) = INSURANCE_FUND_ACCOUNT_TYPE)))"
  proof (rule implements_bind [OF gte], rule implements_bind [OF implements_is_equal], rule implements_bind [OF implements_is_equal_constant [OF ins]],
      rule implements_bind [OF implements_is_equal_constant [OF ins]], rule implements_bind [OF gt], rule implements_bind [OF gt],
      rule implements_bind [OF gt], rule implements_bind [OF gt], rule implements_return)
    fix g f t m full over mx oo
    assume g: "bval g (\<bar>size_of s\<bar> \<le> \<bar>size_of s'\<bar>)" and f: "bval f (tval (b_neg (bi_sign ?o)) = tval (bi_sign ?n))"
      and t: "bval t (uval (taker_account_type input) = INSURANCE_FUND_ACCOUNT_TYPE)" and m: "bval m (uval (maker_account_type input) = INSURANCE_FUND_ACCOUNT_TYPE)"
      and full: "bval full (uval limit < uval (b_mul (ptp_open_interest input) ?mult))" and over: "bval over (uval limit < uval (b_mul oi' ?mult))"
      and mx: "bval mx (uval (Const (of_nat MARKET_OPEN_INTEREST_NOTIONAL)) < uval (b_mul oi' ?mult))"
      and oo: "bval oo (uval (constant_u64 MARKET_OPEN_INTEREST) < uval oi')"
    note f' = flip [OF f] and fund = bval_not [OF bval_or [OF t m]]
    note full' = full [unfolded notional(1)] and over' = over [unfolded notional(2)] and mx' = mx [unfolded notional(2) limits(1)] and oo' = oo [unfolded limits(2)]
    note one = bval_and [OF bval_and [OF bval_and [OF full' bval_or [OF g f']] fund] en]
      and two = bval_and [OF bval_and [OF bval_and [OF bval_not [OF full'] over'] fund] en] and three = bval_and [OF oo' en]
    show "bval (b_or (b_or (b_or (b_and (b_and (b_and full (b_or g f)) (b_not (b_or t m))) is_enabled)
       (b_and (b_and (b_and (b_not full) over) (b_not (b_or t m))) is_enabled)) (b_and oo is_enabled)) mx)
      (interest_flag en P (uval (ptp_open_interest input)) (uval oi') (uval limit) (grows (size_of s) (size_of s'))
      (uval (taker_account_type input) = INSURANCE_FUND_ACCOUNT_TYPE \<or> uval (maker_account_type input) = INSURANCE_FUND_ACCOUNT_TYPE))"
      by (rule bval_eq [OF bval_or [OF bval_or [OF bval_or [OF one two] three] mx']], cases en)
        (auto simp: interest_flag_def interest_blocked_def grows_def)
  qed
qed

text \<open>What disqualifies a party.\<close>

definition party_bad :: "position_state \<Rightarrow> risk_state \<Rightarrow> risk_state \<Rightarrow> risk_state \<Rightarrow> int \<Rightarrow> bool" where
  "party_bad s' old cross new md \<longleftrightarrow>
    2 ^ POSITION_SIZE_BITS \<le> \<bar>size_of s'\<bar> \<or> 2 ^ ENTRY_QUOTE_BITS \<le> entry_of s' \<or> \<not> valid_risk_change old new \<or> int (available_of cross) < md"

definition party_reads :: "account_position \<Rightarrow> position_state \<Rightarrow> risk_info \<Rightarrow> risk_state \<Rightarrow> risk_state \<Rightarrow> risk_info \<Rightarrow> risk_state \<Rightarrow> bigint \<Rightarrow> int \<Rightarrow> bool" where
  "party_reads pos s' i old cross i' new b md \<longleftrightarrow> represents pos s' \<and> risk_reads (current_risk_parameters i) old \<and>
    risk_reads (cross_risk_parameters i) cross \<and> bigz (usdc_collateral_with_funding (cross_risk_parameters i)) 3 (funded_of cross) \<and>
    risk_reads (current_risk_parameters i') new \<and> bigz b 3 md"

lemma party_readsD:
  assumes "party_reads pos s' i old cross i' new b md"
  shows "represents pos s'" "risk_reads (current_risk_parameters i) old" "risk_reads (cross_risk_parameters i) cross"
    "bigz (usdc_collateral_with_funding (cross_risk_parameters i)) 3 (funded_of cross)" "risk_reads (current_risk_parameters i') new" "bigz b 3 md"
  using assms by (simp_all add: party_reads_def)

lemma implements_party_check:
  assumes en: "bval is_enabled en" and c: "bval cancel c" and party: "party_reads pos s' i old cross i' new b md"
  shows "implements (party_check is_enabled cancel pos i i' b) (\<lambda>r. bval r (c \<or> en \<and> party_bad s' old cross new md))"
  unfolding party_check_def Let_def
proof -
  note p = party_readsD [OF party]
  have e: "int (uval (entry_quote pos)) = entry_of s'" using representsD(2) [OF p(1)] .
  show "implements
     (circ_bind (position_is_valid pos) (\<lambda>v. circ_bind (is_valid_risk_change (current_risk_parameters i) (current_risk_parameters i')) (\<lambda>k.
       circ_bind (get_available_usdc_collateral (cross_risk_parameters i)) (\<lambda>a. circ_bind (is_gte_biguint a (bi_abs b)) (\<lambda>g.
         circ_bind (is_sign_negative (bi_sign b)) (\<lambda>n.
           circ_return (b_or (b_or (b_or cancel (and_not is_enabled v)) (and_not is_enabled k)) (and_not is_enabled (b_or g n)))))))))
     (\<lambda>r. bval r (c \<or> en \<and> party_bad s' old cross new md))"
  proof (rule implements_bind [OF implements_position_is_valid [OF representsD(1) [OF p(1)]]],
      rule implements_bind [OF implements_is_valid_risk_change [OF p(2,5)]], rule implements_bind [OF implements_get_available_usdc_collateral [OF p(3,4)]])
    fix v k a
    assume v: "bval v (\<bar>size_of s'\<bar> < 2 ^ POSITION_SIZE_BITS \<and> uval (entry_quote pos) < 2 ^ ENTRY_QUOTE_BITS)"
      and k: "bval k (valid_risk_change old new)" and a: "big a 3 (available_of cross)"
    show "implements (circ_bind (is_gte_biguint a (bi_abs b)) (\<lambda>g. circ_bind (is_sign_negative (bi_sign b)) (\<lambda>n.
        circ_return (b_or (b_or (b_or cancel (and_not is_enabled v)) (and_not is_enabled k)) (and_not is_enabled (b_or g n))))))
      (\<lambda>r. bval r (c \<or> en \<and> party_bad s' old cross new md))"
    proof (rule implements_bind [OF big_gte [OF a bigz_big [OF p(6)]]], rule implements_bind [OF implements_is_neg_sign(1) [OF bigzD(4) [OF p(6)], folded is_sign_negative_def]], rule implements_return)
      fix g n assume g: "bval g (nat \<bar>md\<bar> \<le> available_of cross)" and n: "bval n (md < 0)"
      have int: "uval (entry_quote pos) < 2 ^ ENTRY_QUOTE_BITS \<longleftrightarrow> entry_of s' < 2 ^ ENTRY_QUOTE_BITS"
        unfolding e [symmetric] by (simp add: ENTRY_QUOTE_BITS_def)
      show "bval (b_or (b_or (b_or cancel (and_not is_enabled v)) (and_not is_enabled k)) (and_not is_enabled (b_or g n))) (c \<or> en \<and> party_bad s' old cross new md)"
        by (rule bval_eq [OF bval_or [OF bval_or [OF bval_or [OF c bval_and_not [OF en v]] bval_and_not [OF en k]] bval_and_not [OF en bval_or [OF g n]]]])
          (use int in \<open>auto simp: party_bad_def\<close>)
    qed
  qed
qed

text \<open>
  The outcome. \<open>over\<close> says that the new open interest is worth more than the absolute limit. A decision taken before
  should stay; the code forgets that the taker order was to be cancelled when \<open>over\<close> holds.
\<close>

definition judged :: "bool \<Rightarrow> bool \<Rightarrow> bool \<Rightarrow> bool \<Rightarrow> decision option \<Rightarrow> decision option" where
  "judged perps over tb mb s = (if s = None \<and> perps then first_of None (tb \<or> mb) (Stop tb mb)
    else case s of Some (Stop t m) \<Rightarrow> Some (Stop (t \<and> \<not> over) m) | _ \<Rightarrow> s)"

lemma flags_are_judged:
  assumes fl: "flags_are fl s" and en: "bval e (s = None \<and> perps)" and t: "bval ct (if s = None \<and> perps then tb else over)"
    and m: "bval cm (False \<or> (s = None \<and> perps) \<and> mb)"
  shows "flags_are (fl\<lparr>cancel_taker_order := select_bool ct e (cancel_taker_order fl), cancel_maker_order := select_bool cm e (cancel_maker_order fl),
      update_status := and_not (and_not (update_status fl) (select_bool ct e (cancel_taker_order fl))) (select_bool cm e (cancel_maker_order fl))\<rparr>)
    (judged perps over tb mb s)"
proof -
  note keep = flags_areD [OF fl]
  note t' = bval_select_flag [OF t en keep(2)] and m' = bval_select_flag [OF m en keep(3)]
  note u = bval_and_not [OF bval_and_not [OF keep(1) t'] m']
  have cases: "judged perps over tb mb s = (if s = None then if perps \<and> (tb \<or> mb) then Some (Stop tb mb) else None
      else case s of Some (Stop t m) \<Rightarrow> Some (Stop (t \<and> \<not> over) m) | _ \<Rightarrow> s)"
    by (auto simp: judged_def first_of_def)
  have fields: "update_status (fl\<lparr>cancel_taker_order := a, cancel_maker_order := b, update_status := c\<rparr>) = c"
    "cancel_taker_order (fl\<lparr>cancel_taker_order := a, cancel_maker_order := b, update_status := c\<rparr>) = a"
    "cancel_maker_order (fl\<lparr>cancel_taker_order := a, cancel_maker_order := b, update_status := c\<rparr>) = b"
    "insert_taker_order (fl\<lparr>cancel_taker_order := a, cancel_maker_order := b, update_status := c\<rparr>) = insert_taker_order fl" for a b c
    by simp_all
  show ?thesis
    unfolding flags_are_def fields cases
    by (intro conjI; (rule bval_eq, rule u t' m' keep(4), auto split: option.splits decision.splits))
qed

lemma implements_is_valid_perps_trade:
  fixes input :: perps_trade_params
  defines "P \<equiv> market_price (ptp_risk_details input)" and "oi \<equiv> uval (ptp_open_interest input)"
    and "insured \<equiv> uval (taker_account_type input) = INSURANCE_FUND_ACCOUNT_TYPE \<or> uval (maker_account_type input) = INSURANCE_FUND_ACCOUNT_TYPE"
  assumes fl: "flags_are fl s" and market: "market_ok (ptp_risk_details input)" and old: "represents (ptp_taker_position input) s0"
    and taker: "party_reads tp s1 (taker_risk_info input) R C ti R' tm tmd" and maker: "party_reads mp s2 (maker_risk_info input) S D mi S' mm mmd"
    and fits: "oi * P < p_nat" "uval oi' * P < p_nat"
  shows "implements (is_valid_perps_trade fl input limit tp ti tm mp mi mm oi')
    (\<lambda>r. flags_are r (judged (uval (market_type (atp_market input)) = MARKET_TYPE_PERPS) (MARKET_OPEN_INTEREST_NOTIONAL < uval oi' * P)
      (interest_blocked P oi (uval oi') (uval limit) (grows (size_of s0) (size_of s1)) insured \<or> party_bad s1 R C R' tmd) (party_bad s2 S D S' mmd) s))"
proof -
  have perps: "MARKET_TYPE_PERPS < p_nat" by (simp add: MARKET_TYPE_PERPS_def)
  let ?p = "uval (market_type (atp_market input)) = MARKET_TYPE_PERPS" and ?over = "MARKET_OPEN_INTEREST_NOTIONAL < uval oi' * P"
  let ?e = "\<lambda>p. b_and (update_status fl) p"
  have oi: "implements (open_interest_check e input limit tp oi') (\<lambda>r. bval r (interest_flag en P oi (uval oi') (uval limit) (grows (size_of s0) (size_of s1)) insured))"
    if "bval e en" for e en
    unfolding oi_def P_def insured_def
    by (rule implements_open_interest_check [OF that market old party_readsD(1) [OF taker]]) (use fits in \<open>simp_all add: oi_def P_def\<close>)
  have key: "implements (circ_bind (open_interest_check (?e p) input limit tp oi') (\<lambda>c. circ_bind (party_check (?e p) c tp (taker_risk_info input) ti tm) (\<lambda>ct.
      circ_bind (party_check (?e p) (Const 0) mp (maker_risk_info input) mi mm) (\<lambda>cm.
        circ_return (fl\<lparr>cancel_taker_order := select_bool ct (?e p) (cancel_taker_order fl), cancel_maker_order := select_bool cm (?e p) (cancel_maker_order fl),
        update_status := and_not (and_not (update_status fl) (select_bool ct (?e p) (cancel_taker_order fl))) (select_bool cm (?e p) (cancel_maker_order fl))\<rparr>)))))
      (\<lambda>r. flags_are r (judged ?p ?over
        (interest_blocked P oi (uval oi') (uval limit) (grows (size_of s0) (size_of s1)) insured \<or> party_bad s1 R C R' tmd) (party_bad s2 S D S' mmd) s))"
    if p: "bval p ?p" for p
  proof -
    note e = bval_and [OF flags_areD(1) [OF fl] p]
    show ?thesis
    proof (rule implements_bind [OF oi [OF e]], rule implements_bind [OF implements_party_check [OF e _ taker]], assumption,
        rule implements_bind [OF implements_party_check [OF e bval_Const(2) maker]], rule implements_return)
      fix c ct cm
      let ?tb = "interest_blocked P oi (uval oi') (uval limit) (grows (size_of s0) (size_of s1)) insured \<or> party_bad s1 R C R' tmd"
      assume "bval ct (interest_flag (s = None \<and> ?p) P oi (uval oi') (uval limit) (grows (size_of s0) (size_of s1)) insured \<or> (s = None \<and> ?p) \<and> party_bad s1 R C R' tmd)"
      then have ct: "bval ct (if s = None \<and> ?p then ?tb else ?over)"
        by (rule bval_eq) (auto simp: interest_flag_def)
      assume cm: "bval cm (False \<or> (s = None \<and> ?p) \<and> party_bad s2 S D S' mmd)"
      show "flags_are (fl\<lparr>cancel_taker_order := select_bool ct (?e p) (cancel_taker_order fl), cancel_maker_order := select_bool cm (?e p) (cancel_maker_order fl),
          update_status := and_not (and_not (update_status fl) (select_bool ct (?e p) (cancel_taker_order fl))) (select_bool cm (?e p) (cancel_maker_order fl))\<rparr>)
        (judged ?p ?over ?tb (party_bad s2 S D S' mmd) s)"
        by (rule flags_are_judged [OF fl e ct cm])
    qed
  qed
  show ?thesis
    unfolding is_valid_perps_trade_def Let_def
    by (rule implements_bind [OF implements_is_equal_constant [OF perps]], drule key, simp)
qed

section \<open>Properties\<close>

text \<open>
  C7. A perpetual trade that no earlier test has stopped takes effect exactly when neither party is at fault: otherwise the
  taker order is cancelled if the open interest or the taker's new position, risk or collateral forbids the trade, and the
  maker order if the maker's do. The circuit rejects no trade here.
\<close>
theorem perps_trade_validity:
  assumes "flags_are fl None" "uval (market_type (atp_market input)) = MARKET_TYPE_PERPS"
    and "market_ok (ptp_risk_details input)" "represents (ptp_taker_position input) s0"
    and "party_reads tp s1 (taker_risk_info input) R C ti R' tm tmd" "party_reads mp s2 (maker_risk_info input) S D mi S' mm mmd"
    and "uval (ptp_open_interest input) * market_price (ptp_risk_details input) < p_nat" "uval oi' * market_price (ptp_risk_details input) < p_nat"
    and taker_bad: "taker_bad = (interest_blocked (market_price (ptp_risk_details input)) (uval (ptp_open_interest input)) (uval oi') (uval limit)
        (grows (size_of s0) (size_of s1)) (uval (taker_account_type input) = INSURANCE_FUND_ACCOUNT_TYPE \<or> uval (maker_account_type input) = INSURANCE_FUND_ACCOUNT_TYPE)
      \<or> party_bad s1 R C R' tmd)"
    and maker_bad: "maker_bad = party_bad s2 S D S' mmd"
  shows "implements (is_valid_perps_trade fl input limit tp ti tm mp mi mm oi')
    (\<lambda>r. flags_are r (if taker_bad \<or> maker_bad then Some (Stop taker_bad maker_bad) else None))"
  using implements_is_valid_perps_trade [OF assms(1,3-8), of limit] assms(2) unfolding taker_bad [symmetric] maker_bad [symmetric]
  by (simp add: judged_def first_of_def cong: if_cong)

definition no_decision :: match_flags where
  "no_decision = \<lparr>update_status = Const 1, cancel_taker_order = Const 0, cancel_maker_order = Const 0, insert_taker_order = Const 0\<rparr>"

definition weak_info :: risk_info where
  "weak_info = (example_info 1000)\<lparr>current_risk_parameters := example_risk 1000 (- 5) 0 5 0 0\<rparr>"

lemma validity_example:
  "flags_are no_decision None" "uval (ptp_open_interest perps_example) * market_price (ptp_risk_details perps_example) < p_nat"
  "uval (Wire 20) * market_price (ptp_risk_details perps_example) < p_nat"
  "party_reads (isolated_position (- 5) 300 7 0 10000) (isolated_state (- 5) 300 7 0 10000) (taker_risk_info perps_example)
    (example_risk_state 1000 0 0 0 0 0) (example_risk_state 1000 0 0 0 0 0) weak_info (example_risk_state 1000 (- 5) 0 5 0 0) (small_bigint 0) 0"
  "party_reads (isolated_position 25 1400 7 0 10000) (isolated_state 25 1400 7 0 10000) (maker_risk_info perps_example)
    (example_risk_state 1000 0 0 0 0 0) (example_risk_state 1000 0 0 0 0 0) (example_info 1000) (example_risk_state 1000 0 0 0 0 0) (small_bigint 0) 0"
proof -
  show "flags_are no_decision None" using flags_start [OF bval_Const(1)] by (simp add: no_decision_def)
  have r: "risk_reads (example_risk 1000 0 0 0 0 0) (example_risk_state 1000 0 0 0 0 0)"
    "risk_reads (example_risk 1000 (- 5) 0 5 0 0) (example_risk_state 1000 (- 5) 0 5 0 0)"
    by (rule example_risk_reads; simp)+
  have f: "bigz (usdc_collateral_with_funding (example_risk 1000 0 0 0 0 0)) 3 (funded_of (example_risk_state 1000 0 0 0 0 0))"
    using bigz_small_bigint [of 1000] by (simp add: example_risk_def example_risk_state_def)
  show "party_reads (isolated_position (- 5) 300 7 0 10000) (isolated_state (- 5) 300 7 0 10000) (taker_risk_info perps_example)
      (example_risk_state 1000 0 0 0 0 0) (example_risk_state 1000 0 0 0 0 0) weak_info (example_risk_state 1000 (- 5) 0 5 0 0) (small_bigint 0) 0"
    using represents_isolated [of "- 5" 300 7 0 10000] r f bigz_small_bigint [of 0] by (simp add: party_reads_def perps_example_def example_info_def weak_info_def)
  show "party_reads (isolated_position 25 1400 7 0 10000) (isolated_state 25 1400 7 0 10000) (maker_risk_info perps_example)
      (example_risk_state 1000 0 0 0 0 0) (example_risk_state 1000 0 0 0 0 0) (example_info 1000) (example_risk_state 1000 0 0 0 0 0) (small_bigint 0) 0"
    using represents_isolated [of 25 1400 7 0 10000] r f bigz_small_bigint [of 0] by (simp add: party_reads_def perps_example_def example_info_def)
qed (simp_all add: perps_example_def market_price_def trading_values)

lemma perps_trade_validity_witness:
  "implements (is_valid_perps_trade no_decision perps_example (Wire 5000) (isolated_position (- 5) 300 7 0 10000) weak_info (small_bigint 0)
      (isolated_position 25 1400 7 0 10000) (example_info 1000) (small_bigint 0) (Wire 20))
    (\<lambda>r. flags_are r (Some (Stop True False)))"
proof -
  have taker: "True = (interest_blocked (market_price (ptp_risk_details perps_example)) (uval (ptp_open_interest perps_example)) (uval (Wire 20)) (uval (Wire 5000))
        (grows (size_of (isolated_state 10 500 3 0 10000)) (size_of (isolated_state (- 5) 300 7 0 10000)))
        (uval (taker_account_type perps_example) = INSURANCE_FUND_ACCOUNT_TYPE \<or> uval (maker_account_type perps_example) = INSURANCE_FUND_ACCOUNT_TYPE)
      \<or> party_bad (isolated_state (- 5) 300 7 0 10000) (example_risk_state 1000 0 0 0 0 0) (example_risk_state 1000 0 0 0 0 0) (example_risk_state 1000 (- 5) 0 5 0 0) 0)"
    by (simp add: party_bad_def valid_risk_change_def healthy_def example_risk_state_def)
  have maker: "False = party_bad (isolated_state 25 1400 7 0 10000) (example_risk_state 1000 0 0 0 0 0) (example_risk_state 1000 0 0 0 0 0)
      (example_risk_state 1000 0 0 0 0 0) 0"
    by (simp add: party_bad_def valid_risk_change_def healthy_def example_risk_state_def isolated_state_def POSITION_SIZE_BITS_def ENTRY_QUOTE_BITS_def)
  show ?thesis
    using perps_trade_validity [OF validity_example(1) perps_example(1,2,4) validity_example(4,5,2,3) taker maker] by simp
qed

text \<open>
  C8. A cancelled taker order that is forgotten: the test of the open interest's absolute limit is not switched off with
  the others, so after a decision to cancel the taker order an open interest above the limit resets the decision.
\<close>
theorem cancelled_taker_forgotten:
  assumes "flags_are fl (Some (Stop True m))"
    and "market_ok (ptp_risk_details input)" "represents (ptp_taker_position input) s0"
    and "party_reads tp s1 (taker_risk_info input) R C ti R' tm tmd" "party_reads mp s2 (maker_risk_info input) S D mi S' mm mmd"
    and "uval (ptp_open_interest input) * market_price (ptp_risk_details input) < p_nat" "uval oi' * market_price (ptp_risk_details input) < p_nat"
    and over: "MARKET_OPEN_INTEREST_NOTIONAL < uval oi' * market_price (ptp_risk_details input)"
  shows "implements (is_valid_perps_trade fl input limit tp ti tm mp mi mm oi') (\<lambda>r. flags_are r (Some (Stop False m)))"
  using implements_is_valid_perps_trade [OF assms(1-7), of limit] over by (simp add: judged_def)

lemma cancelled_taker_forgotten_witness:
  "implements (is_valid_perps_trade \<lparr>update_status = Const 0, cancel_taker_order = Const 1, cancel_maker_order = Const 0, insert_taker_order = Const 0\<rparr>
      perps_example (Wire 5000) (isolated_position (- 5) 300 7 0 10000) weak_info (small_bigint 0)
      (isolated_position 25 1400 7 0 10000) (example_info 1000) (small_bigint 0) (Wire (2 ^ 50)))
    (\<lambda>r. flags_are r (Some (Stop False False)))"
proof -
  have flags: "flags_are \<lparr>update_status = Const 0, cancel_taker_order = Const 1, cancel_maker_order = Const 0, insert_taker_order = Const 0\<rparr> (Some (Stop True False))"
    using bval_Const by (simp add: flags_are_def) (rule bval_eq, assumption, auto)
  have huge: "uval (Wire (2 ^ 50)) = 2 ^ 50" by (rule uval_of_nat) simp_all
  have "market_price (ptp_risk_details perps_example) = 120" by (simp add: perps_example_def market_price_def trading_values)
  then have over: "uval (Wire (2 ^ 50)) * market_price (ptp_risk_details perps_example) < p_nat"
      "MARKET_OPEN_INTEREST_NOTIONAL < uval (Wire (2 ^ 50)) * market_price (ptp_risk_details perps_example)"
    unfolding huge by (simp_all add: MARKET_OPEN_INTEREST_NOTIONAL_def MARKET_OPEN_INTEREST_NOTIONAL_BITS_def)
  show ?thesis
    by (rule cancelled_taker_forgotten [OF flags perps_example(2,4) validity_example(4,5,2) over])
qed

end
