(* ===== verification/Account_Order.thy ===== *)
theory Account_Order
  imports Base_Register Order_Book Risk_Parameters
begin

text \<open>
  The order of an account (\<open>types/account_order.rs\<close>) with its flags, and the passage between an order, the leaf of the
  order book and the register of the instruction in progress (\<open>matching_engine.rs\<close>, \<open>register/base_register_info.rs\<close>,
  \<open>tx_attributes.rs\<close>). Three generic fields of the register hold four fields of the order: the second is the taker fee of
  an integrator when there is one, and the flags for self-trades otherwise.
\<close>

section \<open>Orders\<close>

record account_order =
  ao_index_0 :: target
  ao_index_1 :: target
  ao_owner_account_index :: target
  ao_order_index :: target
  ao_client_order_index :: target
  ao_initial_base_amount :: target
  ao_price :: target
  ao_nonce :: target
  ao_remaining_base_amount :: target
  ao_is_ask :: target
  ao_order_type :: target
  ao_time_in_force :: target
  ao_reduce_only :: target
  ao_trigger_price :: target
  ao_expiry :: target
  ao_trigger_status :: target
  ao_to_trigger_order_index0 :: target
  ao_to_trigger_order_index1 :: target
  ao_to_cancel_order_index0 :: target
  ao_integrator_fee_collector_index :: target
  ao_integrator_taker_fee :: target
  ao_integrator_maker_fee :: target
  ao_order_flags :: target

definition empty_account_order :: "target \<Rightarrow> target \<Rightarrow> target \<Rightarrow> account_order" where
  "empty_account_order index_0 index_1 owner_account_index =
    \<lparr>ao_index_0 = index_0, ao_index_1 = index_1, ao_owner_account_index = owner_account_index, ao_order_index = Const 0, ao_client_order_index = Const 0, ao_initial_base_amount = Const 0, ao_price = Const 0, ao_nonce = Const 0, ao_remaining_base_amount = Const 0, ao_is_ask = Const 0, ao_order_type = Const 0, ao_time_in_force = Const 0, ao_reduce_only = Const 0, ao_trigger_price = Const 0, ao_expiry = Const 0, ao_trigger_status = Const 0, ao_to_trigger_order_index0 = Const 0, ao_to_trigger_order_index1 = Const 0, ao_to_cancel_order_index0 = Const 0, ao_integrator_fee_collector_index = Const 0, ao_integrator_taker_fee = Const 0, ao_integrator_maker_fee = Const 0, ao_order_flags = Const 0\<rparr>"

definition account_order_is_empty :: "account_order \<Rightarrow> target circ" where
  "account_order_is_empty a =
    (let added = b_add_many
      [ao_client_order_index a, ao_initial_base_amount a, ao_price a, ao_nonce a, ao_remaining_base_amount a, ao_is_ask a, ao_order_type a, ao_time_in_force a, ao_reduce_only a, ao_trigger_price a, ao_expiry a, ao_trigger_status a, ao_integrator_fee_collector_index a, ao_integrator_taker_fee a, ao_integrator_maker_fee a] in
     circ_bind (circ_map is_zero [added, ao_order_index a, ao_to_trigger_order_index0 a, ao_to_trigger_order_index1 a, ao_to_cancel_order_index0 a, ao_order_flags a]) (\<lambda>assertions.
     circ_return (multi_and assertions)))"

definition order_elements :: "account_order \<Rightarrow> target list" where
  "order_elements a =
    [ao_order_index a, ao_client_order_index a, ao_initial_base_amount a, ao_price a, ao_nonce a, ao_remaining_base_amount a, ao_is_ask a, ao_order_type a, ao_time_in_force a, ao_reduce_only a, ao_trigger_price a, ao_expiry a, ao_trigger_status a, ao_to_trigger_order_index0 a, ao_to_trigger_order_index1 a, ao_to_cancel_order_index0 a, ao_integrator_fee_collector_index a, ao_integrator_taker_fee a, ao_integrator_maker_fee a, ao_order_flags a]"

definition account_order_hash :: "permutation \<Rightarrow> account_order \<Rightarrow> hash_out_target circ" where
  "account_order_hash perm a =
    circ_bind (hash_n_to_hash_no_pad perm (order_elements a)) (\<lambda>non_empty_hash.
    circ_bind (account_order_is_empty a) (\<lambda>is_empty.
    circ_return (select_hash is_empty zero_hash_out non_empty_hash)))"

definition select_account_order_target :: "target \<Rightarrow> account_order \<Rightarrow> account_order \<Rightarrow> account_order" where
  "select_account_order_target flag a b =
    \<lparr>ao_index_0 = select flag (ao_index_0 a) (ao_index_0 b),
     ao_index_1 = select flag (ao_index_1 a) (ao_index_1 b),
     ao_owner_account_index = select flag (ao_owner_account_index a) (ao_owner_account_index b),
     ao_order_index = select flag (ao_order_index a) (ao_order_index b),
     ao_client_order_index = select flag (ao_client_order_index a) (ao_client_order_index b),
     ao_initial_base_amount = select flag (ao_initial_base_amount a) (ao_initial_base_amount b),
     ao_price = select flag (ao_price a) (ao_price b),
     ao_nonce = select flag (ao_nonce a) (ao_nonce b),
     ao_remaining_base_amount = select flag (ao_remaining_base_amount a) (ao_remaining_base_amount b),
     ao_is_ask = select_bool flag (ao_is_ask a) (ao_is_ask b),
     ao_order_type = select flag (ao_order_type a) (ao_order_type b),
     ao_time_in_force = select flag (ao_time_in_force a) (ao_time_in_force b),
     ao_reduce_only = select flag (ao_reduce_only a) (ao_reduce_only b),
     ao_trigger_price = select flag (ao_trigger_price a) (ao_trigger_price b),
     ao_expiry = select flag (ao_expiry a) (ao_expiry b),
     ao_trigger_status = select flag (ao_trigger_status a) (ao_trigger_status b),
     ao_to_trigger_order_index0 = select flag (ao_to_trigger_order_index0 a) (ao_to_trigger_order_index0 b),
     ao_to_trigger_order_index1 = select flag (ao_to_trigger_order_index1 a) (ao_to_trigger_order_index1 b),
     ao_to_cancel_order_index0 = select flag (ao_to_cancel_order_index0 a) (ao_to_cancel_order_index0 b),
     ao_integrator_fee_collector_index = select flag (ao_integrator_fee_collector_index a) (ao_integrator_fee_collector_index b),
     ao_integrator_taker_fee = select flag (ao_integrator_taker_fee a) (ao_integrator_taker_fee b),
     ao_integrator_maker_fee = select flag (ao_integrator_maker_fee a) (ao_integrator_maker_fee b),
     ao_order_flags = select flag (ao_order_flags a) (ao_order_flags b)\<rparr>"

section \<open>Generic fields and flags\<close>

definition is_integrator_fee_disabled :: "target \<Rightarrow> target circ" where
  "is_integrator_fee_disabled integrator_fee_collector_index = is_equal integrator_fee_collector_index (Const 0)"

definition get_register_generic_fields_from_order :: "account_order \<Rightarrow> (target \<times> target \<times> target) circ" where
  "get_register_generic_fields_from_order a =
    circ_bind (is_integrator_fee_disabled (ao_integrator_fee_collector_index a)) (\<lambda>disabled.
    circ_return (ao_integrator_fee_collector_index a, select disabled (ao_order_flags a) (ao_integrator_taker_fee a), ao_integrator_maker_fee a))"

definition to_order_fields_from_generic_fields :: "base_register_info \<Rightarrow> (target \<times> target \<times> target \<times> target) circ" where
  "to_order_fields_from_generic_fields r =
    circ_bind (is_integrator_fee_disabled (generic_field_1 r)) (\<lambda>disabled.
    circ_return (generic_field_1 r, select disabled (Const 0) (generic_field_2 r), select disabled (Const 0) (generic_field_3 r),
      select disabled (generic_field_2 r) (Const 0)))"

text \<open>plonky2's \<open>le_sum\<close> for as few bits as the crate sums: a chain of multiply-adds from the last bit.\<close>

fun le_sum :: "target list \<Rightarrow> target" where
  "le_sum [] = Const 0"
| "le_sum [b] = b"
| "le_sum (b # bs) = b_mul_add (Const 2) (le_sum bs) b"

record order_flags =
  self_trade_behavior_mode :: target
  self_trade_equality_mode :: target

definition order_flags_from_target :: "target \<Rightarrow> order_flags circ" where
  "order_flags_from_target flags =
    circ_bind (split_le flags 3) (\<lambda>le_bits.
    circ_return \<lparr>self_trade_behavior_mode = le_sum (take 2 le_bits), self_trade_equality_mode = le_bits ! 2\<rparr>)"

definition order_flags_to_target :: "order_flags \<Rightarrow> target" where
  "order_flags_to_target f = b_mul_add (Const 4) (self_trade_equality_mode f) (self_trade_behavior_mode f)"

definition is_master_account_index_equality_mode :: "order_flags \<Rightarrow> target" where
  "is_master_account_index_equality_mode f = self_trade_equality_mode f"

definition is_account_index_equality_mode :: "order_flags \<Rightarrow> target" where
  "is_account_index_equality_mode f = b_not (is_master_account_index_equality_mode f)"

section \<open>The pending order\<close>

definition get_order_from_register :: "base_register_info \<Rightarrow> order_target" where
  "get_order_from_register r =
    (let quote = b_mul (pending_size r) (pending_price r) in
     \<lparr>price_index = pending_price r, nonce_index = pending_nonce r,
      ask_base_sum = select (pending_is_ask r) (pending_size r) (Const 0), ask_quote_sum = select (pending_is_ask r) quote (Const 0),
      bid_base_sum = select (pending_is_ask r) (Const 0) (pending_size r), bid_quote_sum = select (pending_is_ask r) (Const 0) quote\<rparr>)"

definition get_account_order_from_register :: "base_register_info \<Rightarrow> account_order circ" where
  "get_account_order_from_register r =
    circ_bind (to_order_fields_from_generic_fields r) (\<lambda>(collector, taker_fee, maker_fee, flags).
    circ_return
      \<lparr>ao_index_0 = pending_order_index r, ao_index_1 = pending_client_order_index r, ao_owner_account_index = reg_account_index r,
       ao_order_index = pending_order_index r, ao_client_order_index = pending_client_order_index r,
       ao_initial_base_amount = pending_initial_size r, ao_price = pending_price r, ao_nonce = pending_nonce r,
       ao_remaining_base_amount = pending_size r, ao_is_ask = pending_is_ask r, ao_order_type = pending_type r,
       ao_time_in_force = pending_time_in_force r, ao_reduce_only = pending_reduce_only r, ao_trigger_price = pending_trigger_price r,
       ao_expiry = pending_expiry r, ao_trigger_status = pending_trigger_status r,
       ao_to_trigger_order_index0 = pending_to_trigger_order_index0 r, ao_to_trigger_order_index1 = pending_to_trigger_order_index1 r,
       ao_to_cancel_order_index0 = pending_to_cancel_order_index0 r, ao_integrator_fee_collector_index = collector,
       ao_integrator_taker_fee = taker_fee, ao_integrator_maker_fee = maker_fee, ao_order_flags = flags\<rparr>)"

text \<open>The order a pending instruction is made from (\<open>get_instruction_from_account_order\<close> of \<open>transactions/l2_modify_order.rs\<close>).\<close>

definition INSERT_ORDER :: nat where "INSERT_ORDER = 1"

definition get_instruction_from_account_order :: "target \<Rightarrow> account_order \<Rightarrow> base_register_info circ" where
  "get_instruction_from_account_order market a =
    circ_bind (get_register_generic_fields_from_order a) (\<lambda>(field_1, field_2, field_3).
    circ_return
      \<lparr>instruction_type = Const (of_nat INSERT_ORDER), reg_market_index = market, reg_account_index = ao_owner_account_index a,
       pending_size = ao_remaining_base_amount a, pending_order_index = ao_order_index a,
       pending_client_order_index = ao_client_order_index a, pending_initial_size = ao_initial_base_amount a, pending_price = ao_price a,
       pending_nonce = ao_nonce a, pending_is_ask = ao_is_ask a, pending_type = ao_order_type a,
       pending_time_in_force = ao_time_in_force a, pending_reduce_only = ao_reduce_only a, pending_expiry = ao_expiry a,
       generic_field_0 = Const 0, pending_trigger_price = ao_trigger_price a, pending_trigger_status = ao_trigger_status a,
       pending_to_trigger_order_index0 = ao_to_trigger_order_index0 a, pending_to_trigger_order_index1 = ao_to_trigger_order_index1 a,
       pending_to_cancel_order_index0 = ao_to_cancel_order_index0 a,
       generic_field_1 = field_1, generic_field_2 = field_2, generic_field_3 = field_3\<rparr>)"

section \<open>Values\<close>

definition order_values :: "account_order \<Rightarrow> nat list" where
  "order_values a = map uval (order_elements a)"

definition no_order :: "nat list" where "no_order = replicate 20 0"

text \<open>The sizes business logic guarantees; the indices of orders and the flags may be any field element.\<close>

definition order_bits :: "nat list" where
  "order_bits = [64, 48, 48, 32, 48, 48, 1, 8, 2, 1, 32, 48, 2, 64, 64, 64, 48, 32, 32, 64]"

definition valid_order :: "nat list \<Rightarrow> bool" where
  "valid_order vs \<longleftrightarrow> list_all2 (\<lambda>v bits. v < 2 ^ bits) vs order_bits"

definition account_order_leaf :: "permutation \<Rightarrow> account_order \<Rightarrow> hash_out" where
  "account_order_leaf perm a =
    (if order_values a = no_order then replicate 4 0 else hash_no_pad perm (map tval (order_elements a)))"

lemma implements_account_order_is_empty:
  assumes "valid_order (order_values a)"
  shows "implements (account_order_is_empty a) (\<lambda>e. bval e (order_values a = no_order))"
proof -
  let ?small = "[ao_client_order_index a, ao_initial_base_amount a, ao_price a, ao_nonce a, ao_remaining_base_amount a, ao_is_ask a,
      ao_order_type a, ao_time_in_force a, ao_reduce_only a, ao_trigger_price a, ao_expiry a, ao_trigger_status a,
      ao_integrator_fee_collector_index a, ao_integrator_taker_fee a, ao_integrator_maker_fee a]"
  have "sum_list (map uval ?small) < p_nat"
    using assms by (simp add: valid_order_def order_values_def order_elements_def order_bits_def)
  moreover have "tval (b_add_many ?small) = of_nat (sum_list (map uval ?small))"
    by (simp add: tval_b_add_many)
  ultimately have total: "uval (b_add_many ?small) = sum_list (map uval ?small)"
    using to_canonical_of_nat_small by (simp only:)
  show ?thesis
    unfolding account_order_is_empty_def Let_def
    by (rule implements_weaken [OF implements_all_tests [OF implements_is_zero]], simp, unfold list.set ball_simps total)
      (auto simp: order_values_def order_elements_def no_order_def numeral_eq_Suc conj_ac simp del: to_canonical_eq_0_iff)
qed

lemma implements_account_order_hash:
  assumes "valid_order (order_values a)"
  shows "implements (account_order_hash perm a) (\<lambda>h. hash_ok h (account_order_leaf perm a))"
  unfolding account_order_hash_def
proof (rule implements_bind [OF implements_hash_n_to_hash_no_pad], rule implements_bind [OF implements_account_order_is_empty [OF assms]], rule implements_return)
  fix h e assume h: "hash_ok h (hash_no_pad perm (map tval (order_elements a)))" and e: "bval e (order_values a = no_order)"
  show "hash_ok (select_hash e zero_hash_out h) (account_order_leaf perm a)"
    unfolding account_order_leaf_def by (rule hash_ok_select [OF e hash_ok_zero h])
qed

lemma implements_is_integrator_fee_disabled: "implements (is_integrator_fee_disabled t) (\<lambda>r. bval r (uval t = 0))"
  using implements_is_equal [of t "Const 0"] by (simp add: is_integrator_fee_disabled_def)

text \<open>Without an integrator there is no fee for it, with one there are no flags for self-trades.\<close>

definition fee_fields_ok :: "account_order \<Rightarrow> bool" where
  "fee_fields_ok a \<longleftrightarrow> (if uval (ao_integrator_fee_collector_index a) = 0
    then uval (ao_integrator_taker_fee a) = 0 \<and> uval (ao_integrator_maker_fee a) = 0 else uval (ao_order_flags a) = 0)"

lemma uval_eqI: "tval t = tval u \<Longrightarrow> uval t = uval u"
  by simp

text \<open>
  C36. Round trip: the register made from an order gives the order back, value by value, for every order that carries
  either the fees of an integrator or flags for self-trades.
\<close>
theorem order_register_roundtrip:
  assumes "fee_fields_ok a"
  shows "implements (circ_bind (get_instruction_from_account_order m a) get_account_order_from_register)
    (\<lambda>b. order_values b = order_values a \<and> uval (ao_owner_account_index b) = uval (ao_owner_account_index a))"
  unfolding get_instruction_from_account_order_def get_register_generic_fields_from_order_def get_account_order_from_register_def
    to_order_fields_from_generic_fields_def circ_bind_assoc circ_return_bind split base_register_info.simps
proof (rule implements_bind [OF implements_is_integrator_fee_disabled], rule implements_bind [OF implements_is_integrator_fee_disabled], rule implements_return)
  fix d e assume d: "bval d (uval (ao_integrator_fee_collector_index a) = 0)" and e: "bval e (uval (ao_integrator_fee_collector_index a) = 0)"
  have keep: "tval (select e (Const 0) (select d (ao_order_flags a) (ao_integrator_taker_fee a))) = tval (ao_integrator_taker_fee a)"
    "tval (select e (Const 0) (ao_integrator_maker_fee a)) = tval (ao_integrator_maker_fee a)"
    "tval (select e (select d (ao_order_flags a) (ao_integrator_taker_fee a)) (Const 0)) = tval (ao_order_flags a)"
    using assms by (auto simp: tval_select [OF d] tval_select [OF e] fee_fields_ok_def split: if_splits)
  show "order_values
        \<lparr>ao_index_0 = ao_order_index a, ao_index_1 = ao_client_order_index a, ao_owner_account_index = ao_owner_account_index a,
         ao_order_index = ao_order_index a, ao_client_order_index = ao_client_order_index a, ao_initial_base_amount = ao_initial_base_amount a,
         ao_price = ao_price a, ao_nonce = ao_nonce a, ao_remaining_base_amount = ao_remaining_base_amount a, ao_is_ask = ao_is_ask a,
         ao_order_type = ao_order_type a, ao_time_in_force = ao_time_in_force a, ao_reduce_only = ao_reduce_only a,
         ao_trigger_price = ao_trigger_price a, ao_expiry = ao_expiry a, ao_trigger_status = ao_trigger_status a,
         ao_to_trigger_order_index0 = ao_to_trigger_order_index0 a, ao_to_trigger_order_index1 = ao_to_trigger_order_index1 a,
         ao_to_cancel_order_index0 = ao_to_cancel_order_index0 a, ao_integrator_fee_collector_index = ao_integrator_fee_collector_index a,
         ao_integrator_taker_fee = select e (Const 0) (select d (ao_order_flags a) (ao_integrator_taker_fee a)),
         ao_integrator_maker_fee = select e (Const 0) (ao_integrator_maker_fee a),
         ao_order_flags = select e (select d (ao_order_flags a) (ao_integrator_taker_fee a)) (Const 0)\<rparr> = order_values a \<and>
      uval (ao_owner_account_index
        \<lparr>ao_index_0 = ao_order_index a, ao_index_1 = ao_client_order_index a, ao_owner_account_index = ao_owner_account_index a,
         ao_order_index = ao_order_index a, ao_client_order_index = ao_client_order_index a, ao_initial_base_amount = ao_initial_base_amount a,
         ao_price = ao_price a, ao_nonce = ao_nonce a, ao_remaining_base_amount = ao_remaining_base_amount a, ao_is_ask = ao_is_ask a,
         ao_order_type = ao_order_type a, ao_time_in_force = ao_time_in_force a, ao_reduce_only = ao_reduce_only a,
         ao_trigger_price = ao_trigger_price a, ao_expiry = ao_expiry a, ao_trigger_status = ao_trigger_status a,
         ao_to_trigger_order_index0 = ao_to_trigger_order_index0 a, ao_to_trigger_order_index1 = ao_to_trigger_order_index1 a,
         ao_to_cancel_order_index0 = ao_to_cancel_order_index0 a, ao_integrator_fee_collector_index = ao_integrator_fee_collector_index a,
         ao_integrator_taker_fee = select e (Const 0) (select d (ao_order_flags a) (ao_integrator_taker_fee a)),
         ao_integrator_maker_fee = select e (Const 0) (ao_integrator_maker_fee a),
         ao_order_flags = select e (select d (ao_order_flags a) (ao_integrator_taker_fee a)) (Const 0)\<rparr>) = uval (ao_owner_account_index a)"
    by (simp add: order_values_def order_elements_def keep)
qed

section \<open>Flags\<close>

lemma index_bits_3: "index_bits 3 n = [odd n, odd (n div 2), odd (n div 4)]"
  by (simp add: index_bits_def upt_rec)

lemma uval_two_bits:
  assumes "bval a x" "bval b y"
  shows "uval (b_mul_add (Const 2) b a) = 2 * of_bool y + of_bool x"
  by (rule uval_of_nat) (use assms in \<open>simp_all add: tval_simps bval_def\<close>)

lemma realises_order_flags_from_target:
  "realises (order_flags_from_target t) (uval t < 8)
    (\<lambda>f. uval (self_trade_behavior_mode f) = uval t mod 4 \<and> bval (self_trade_equality_mode f) (4 \<le> uval t))"
  unfolding order_flags_from_target_def
proof (rule realises_weaken [OF realises_then_return [OF realises_split_le_bits]])
  fix bs assume t: "uval t < 2 ^ 3" and "list_all2 bval bs (index_bits 3 (uval t))"
  then obtain a b c where bs: "bs = [a, b, c]" and bits: "bval a (odd (uval t))" "bval b (odd (uval t div 2))" "bval c (odd (uval t div 4))"
    unfolding index_bits_3 by (auto simp: list_all2_Cons2)
  have "uval t mod 4 = 2 * of_bool (odd (uval t div 2)) + of_bool (odd (uval t))" "odd (uval t div 4) \<longleftrightarrow> 4 \<le> uval t"
    using t by (simp_all, presburger+)
  then show "uval (self_trade_behavior_mode \<lparr>self_trade_behavior_mode = le_sum (take 2 bs), self_trade_equality_mode = bs ! 2\<rparr>) = uval t mod 4 \<and>
      bval (self_trade_equality_mode \<lparr>self_trade_behavior_mode = le_sum (take 2 bs), self_trade_equality_mode = bs ! 2\<rparr>) (4 \<le> uval t)"
    using bits(3) uval_two_bits [OF bits(1,2)] by (simp add: bs numeral_2_eq_2)
qed simp_all

lemma uval_order_flags_to_target:
  assumes "uval (self_trade_behavior_mode f) < 4" "bval (self_trade_equality_mode f) e"
  shows "uval (order_flags_to_target f) = uval (self_trade_behavior_mode f) + (if e then 4 else 0)"
proof -
  have "tval (order_flags_to_target f) = of_nat (uval (self_trade_behavior_mode f) + (if e then 4 else 0))"
    using assms(2) by (simp add: order_flags_to_target_def tval_simps bval_def)
  then show ?thesis by (rule uval_of_nat) (use assms(1) in simp)
qed

lemma order_flags_roundtrip:
  assumes "uval (self_trade_behavior_mode f) < 4" "bval (self_trade_equality_mode f) e"
  shows "implements (order_flags_from_target (order_flags_to_target f))
    (\<lambda>g. uval (self_trade_behavior_mode g) = uval (self_trade_behavior_mode f) \<and> bval (self_trade_equality_mode g) e)"
  using realises_implements [OF realises_order_flags_from_target [of "order_flags_to_target f"]] assms
  unfolding uval_order_flags_to_target [OF assms] by (cases e) simp_all

section \<open>The leaf of the book\<close>

lemma order_from_register_amounts:
  assumes "bval (pending_is_ask r) ask"
  shows "order_amounts (get_order_from_register r) =
    (let size = tval (pending_size r); quote = size * tval (pending_price r) in if ask then [size, quote, 0, 0] else [0, 0, size, quote])"
  by (simp add: order_amounts_def get_order_from_register_def Let_def tval_select [OF assms] tval_simps)

section \<open>A concrete order\<close>

definition example_order :: "nat \<Rightarrow> nat \<Rightarrow> nat \<Rightarrow> account_order" where
  "example_order collector taker_fee flags = (empty_account_order (Const 9) (Const 4) (Const 77))
    \<lparr>ao_order_index := Const 9, ao_client_order_index := Const 4, ao_initial_base_amount := Const 40, ao_remaining_base_amount := Const 25,
     ao_price := Const 3000, ao_nonce := Const 5, ao_integrator_fee_collector_index := Const (of_nat collector),
     ao_integrator_taker_fee := Const (of_nat taker_fee), ao_order_flags := Const (of_nat flags)\<rparr>"

lemma order_register_roundtrip_witness:
  "implements (circ_bind (get_instruction_from_account_order (Const 1) (example_order 12 50 0)) get_account_order_from_register)
    (\<lambda>b. order_values b = order_values (example_order 12 50 0) \<and> uval (ao_owner_account_index b) = 77)"
  using order_register_roundtrip [of "example_order 12 50 0" "Const 1"] by (simp add: fee_fields_ok_def example_order_def empty_account_order_def)

end
