(* ===== verification/Tx_Attributes.thy ===== *)
theory Tx_Attributes
  imports Account_Order
begin

text \<open>
  The attributes of a transaction (\<open>circuit/src/tx_attributes.rs\<close>): up to four pairs of a type and a value that name the
  integrator of an order, its fees, and how self-trades are treated. \<open>prepare\<close> checks the pairs and spreads them over an
  array by type; \<open>sanitize_and_normalize\<close> checks the integrator's fees against what the account approved and caps them.
\<close>

section \<open>The circuit\<close>

definition NB_ATTRIBUTES_PER_TX :: nat where "NB_ATTRIBUTES_PER_TX = 4"
definition ATTR_NIL :: nat where "ATTR_NIL = 0"
definition ATTR_INTEGRATOR_FEE_COLLECTOR_INDEX :: nat where "ATTR_INTEGRATOR_FEE_COLLECTOR_INDEX = 1"
definition ATTR_INTEGRATOR_TAKER_FEE :: nat where "ATTR_INTEGRATOR_TAKER_FEE = 2"
definition ATTR_INTEGRATOR_MAKER_FEE :: nat where "ATTR_INTEGRATOR_MAKER_FEE = 3"
definition ATTR_SKIP_TX_NONCE :: nat where "ATTR_SKIP_TX_NONCE = 4"
definition ATTR_CANCEL_ALL_MARKET_INDEX :: nat where "ATTR_CANCEL_ALL_MARKET_INDEX = 5"
definition ATTR_SELF_TRADE_BEHAVIOR_MODE :: nat where "ATTR_SELF_TRADE_BEHAVIOR_MODE = 6"
definition ATTR_SELF_TRADE_EQUALITY_MODE :: nat where "ATTR_SELF_TRADE_EQUALITY_MODE = 7"
definition TOTAL_ATTRIBUTE_COUNT :: nat where "TOTAL_ATTRIBUTE_COUNT = ATTR_SELF_TRADE_EQUALITY_MODE + 1"
definition ATTRIBUTE_TYPE_BITS :: nat where "ATTRIBUTE_TYPE_BITS = 3"
definition ACCOUNT_INDEX_BITS :: nat where "ACCOUNT_INDEX_BITS = 48"
definition NIL_ACCOUNT_INDEX :: nat where "NIL_ACCOUNT_INDEX = 281474976710655"
definition NIL_MARKET_INDEX :: nat where "NIL_MARKET_INDEX = 255"
definition MARKET_INDEX_BITS :: nat where "MARKET_INDEX_BITS = 12"
definition TIMESTAMP_BITS :: nat where "TIMESTAMP_BITS = 48"
definition SELF_TRADE_EQUALITY_MASTER_ACCOUNT_INDEX :: nat where "SELF_TRADE_EQUALITY_MASTER_ACCOUNT_INDEX = 1"
definition SELF_TRADE_BEHAVIOR_EXPIRE_MAKER :: nat where "SELF_TRADE_BEHAVIOR_EXPIRE_MAKER = 0"
definition SELF_TRADE_BEHAVIOR_EXPIRE_TAKER :: nat where "SELF_TRADE_BEHAVIOR_EXPIRE_TAKER = 1"
definition SELF_TRADE_BEHAVIOR_EXPIRE_BOTH :: nat where "SELF_TRADE_BEHAVIOR_EXPIRE_BOTH = 2"
definition SELF_TRADE_BEHAVIOR_REDUCE :: nat where "SELF_TRADE_BEHAVIOR_REDUCE = 3"

definition ATTR_BIT_SIZES :: "nat list" where
  "ATTR_BIT_SIZES = [0, ACCOUNT_INDEX_BITS, 24, 24, 1, MARKET_INDEX_BITS, 8, 8]"

definition ATTR_MAX_VALUES :: "nat list" where
  "ATTR_MAX_VALUES = [0, NIL_ACCOUNT_INDEX, FEE_TICK, FEE_TICK, 1, NIL_MARKET_INDEX, SELF_TRADE_BEHAVIOR_REDUCE,
     SELF_TRADE_EQUALITY_MASTER_ACCOUNT_INDEX]"

definition ATTR_NIL_VALUES :: "nat list" where
  "ATTR_NIL_VALUES = [0, 0, 0, 0, 0, NIL_MARKET_INDEX, 0, 0]"

record tx_attributes =
  inner_types :: "target list"
  inner_values :: "target list"
  attr_values :: "target list"

definition get_attribute :: "tx_attributes \<Rightarrow> nat \<Rightarrow> target" where
  "get_attribute a attribute_type = attr_values a ! attribute_type"

definition set_attribute :: "target \<Rightarrow> nat \<Rightarrow> target \<Rightarrow> tx_attributes \<Rightarrow> tx_attributes" where
  "set_attribute is_enabled attribute_type v a =
    a\<lparr>attr_values := (attr_values a)[attribute_type := select is_enabled v (attr_values a ! attribute_type)]\<rparr>"

text \<open>\<open>verify_attribute_types\<close>, one pass of its loop.\<close>

definition verify_attribute :: "tx_attributes \<Rightarrow> nat \<Rightarrow> target \<Rightarrow> target circ" where
  "verify_attribute a i last_type =
    (let t = inner_types a ! i; v = inner_values a ! i in
     circ_bind (register_range_check t ATTRIBUTE_TYPE_BITS) (\<lambda>_.
     circ_bind (assert_lte t (Const (of_nat (TOTAL_ATTRIBUTE_COUNT - 1))) ATTRIBUTE_TYPE_BITS) (\<lambda>_.
     circ_bind (is_zero t) (\<lambda>is_nil_type.
     circ_bind (conditional_assert_zero is_nil_type v) (\<lambda>_.
     if i = 0 then circ_return last_type
     else
       circ_bind (is_lt last_type t ATTRIBUTE_TYPE_BITS) (\<lambda>is_type_increasing.
       circ_bind (assert_true (b_or is_type_increasing is_nil_type)) (\<lambda>_.
       circ_return t)))))))"

definition verify_attribute_types :: "tx_attributes \<Rightarrow> unit circ" where
  "verify_attribute_types a =
    circ_bind (circ_fold (verify_attribute a) [0..<NB_ATTRIBUTES_PER_TX] (inner_types a ! 0)) (\<lambda>_. circ_return ())"

definition set_attributes_array :: "tx_attributes \<Rightarrow> tx_attributes circ" where
  "set_attributes_array a =
    circ_bind (circ_fold (\<lambda>(t, v). circ_fold (\<lambda>i vals.
        circ_bind (is_equal_constant t i) (\<lambda>is_type. circ_return (vals[i := select is_type v (vals ! i)]))) [1..<TOTAL_ATTRIBUTE_COUNT])
      (zip (inner_types a) (inner_values a)) (attr_values a)) (\<lambda>vals.
    circ_return (a\<lparr>attr_values := vals\<rparr>))"

definition range_check_attribute_values :: "tx_attributes \<Rightarrow> unit circ" where
  "range_check_attribute_values a =
    circ_for [1..<TOTAL_ATTRIBUTE_COUNT] (\<lambda>i.
      circ_bind (register_range_check (attr_values a ! i) (ATTR_BIT_SIZES ! i)) (\<lambda>_.
      assert_lte (attr_values a ! i) (Const (of_nat (ATTR_MAX_VALUES ! i))) (ATTR_BIT_SIZES ! i)))"

definition is_nil_attribute :: "tx_attributes \<Rightarrow> nat \<Rightarrow> target circ" where
  "is_nil_attribute a i = is_equal (get_attribute a i) (Const (of_nat (ATTR_NIL_VALUES ! i)))"

definition validate_attribute_types :: "tx_attributes \<Rightarrow> unit circ" where
  "validate_attribute_types a =
    circ_bind (is_nil_attribute a ATTR_INTEGRATOR_TAKER_FEE) (\<lambda>is_taker_fee_nil.
    circ_bind (is_nil_attribute a ATTR_INTEGRATOR_MAKER_FEE) (\<lambda>is_maker_fee_nil.
    circ_bind (is_nil_attribute a ATTR_INTEGRATOR_FEE_COLLECTOR_INDEX) (\<lambda>is_integrator_index_nil.
    circ_bind (is_nil_attribute a ATTR_SELF_TRADE_BEHAVIOR_MODE) (\<lambda>is_self_trade_behavior_mode_nil.
    circ_bind (is_nil_attribute a ATTR_SELF_TRADE_EQUALITY_MODE) (\<lambda>is_self_trade_equality_mode_nil.
    let is_both_fees_nil = b_and is_taker_fee_nil is_maker_fee_nil in
    circ_bind (assert_false (and_not is_integrator_index_nil is_both_fees_nil)) (\<lambda>_.
    let is_self_trade_modes_nil = b_and is_self_trade_behavior_mode_nil is_self_trade_equality_mode_nil in
    circ_bind (assert_true (b_or is_integrator_index_nil is_self_trade_modes_nil)) (\<lambda>_.
    circ_bind (is_equal_constant (get_attribute a ATTR_SELF_TRADE_EQUALITY_MODE) SELF_TRADE_EQUALITY_MASTER_ACCOUNT_INDEX) (\<lambda>is_master.
    circ_bind (is_equal_constant (get_attribute a ATTR_SELF_TRADE_BEHAVIOR_MODE) SELF_TRADE_BEHAVIOR_REDUCE) (\<lambda>is_reduce_behavior_mode.
    assert_false (b_and is_master is_reduce_behavior_mode))))))))))"

definition prepare_attributes :: "tx_attributes \<Rightarrow> tx_attributes circ" where
  "prepare_attributes a =
    circ_bind (verify_attribute_types a) (\<lambda>_.
    circ_bind (set_attributes_array a) (\<lambda>a.
    circ_bind (range_check_attribute_values a) (\<lambda>_.
    circ_bind (validate_attribute_types a) (\<lambda>_.
    circ_return a))))"

definition tx_attributes_new :: "tx_attributes circ" where
  "tx_attributes_new =
    circ_bind (add_virtual_targets NB_ATTRIBUTES_PER_TX) (\<lambda>types.
    circ_bind (add_virtual_targets NB_ATTRIBUTES_PER_TX) (\<lambda>vals.
    prepare_attributes \<lparr>inner_types = types, inner_values = vals, attr_values = map (\<lambda>v. Const (of_nat v)) ATTR_NIL_VALUES\<rparr>))"

definition attributes_are_empty :: "tx_attributes \<Rightarrow> target circ" where
  "attributes_are_empty a = is_zero (b_add_many (inner_types a @ inner_values a))"

definition get_register_generic_fields :: "tx_attributes \<Rightarrow> (target \<times> target \<times> target) circ" where
  "get_register_generic_fields a =
    circ_bind (is_integrator_fee_disabled (get_attribute a ATTR_INTEGRATOR_FEE_COLLECTOR_INDEX)) (\<lambda>disabled.
    let flags = order_flags_to_target \<lparr>self_trade_behavior_mode = get_attribute a ATTR_SELF_TRADE_BEHAVIOR_MODE,
      self_trade_equality_mode = get_attribute a ATTR_SELF_TRADE_EQUALITY_MODE\<rparr> in
    circ_return (get_attribute a ATTR_INTEGRATOR_FEE_COLLECTOR_INDEX, select disabled flags (get_attribute a ATTR_INTEGRATOR_TAKER_FEE),
      get_attribute a ATTR_INTEGRATOR_MAKER_FEE))"

section \<open>Approved integrators\<close>

definition MAX_APPROVED_INTEGRATORS :: nat where "MAX_APPROVED_INTEGRATORS = 4"

record approved_integrator =
  integrator_account_index :: target
  max_perps_taker_fee :: target
  max_perps_maker_fee :: target
  max_spot_taker_fee :: target
  max_spot_maker_fee :: target
  integrator_expiry :: target

record system_config =
  liquidity_pool_index :: target
  staking_pool_index :: target
  liquidity_pool_cooldown_period :: target
  staking_pool_lockup_period :: target
  max_integrator_spot_taker_fee :: target
  max_integrator_spot_maker_fee :: target
  max_integrator_perps_taker_fee :: target
  max_integrator_perps_maker_fee :: target

definition market_is_empty :: "market_target \<Rightarrow> target circ" where
  "market_is_empty m = is_zero (b_add_many
    [market_ask_nonce m, market_bid_nonce m, market_taker_fee m, market_maker_fee m, market_liquidation_fee m, min_base_amount m,
     min_quote_amount m, market_status m, order_quote_limit m, market_total_order_count m, market_type m, market_base_asset_id m,
     market_quote_asset_id m, size_extension_multiplier m, quote_extension_multiplier m])"

text \<open>One fee of one approval: the fee sent is checked against the approval, then capped.\<close>

definition cap_fee :: "target \<Rightarrow> nat \<times> target \<times> target \<Rightarrow> tx_attributes \<Rightarrow> tx_attributes circ" where
  "cap_fee flag = (\<lambda>(attr_type, approved, cap) a.
    let fee_bit_size = ATTR_BIT_SIZES ! attr_type; fee_value = get_attribute a attr_type in
    circ_bind (conditional_assert_lte flag fee_value approved fee_bit_size) (\<lambda>_.
    circ_bind (min_target [fee_value, cap] fee_bit_size) (\<lambda>capped_fee.
    circ_return (set_attribute flag attr_type capped_fee a))))"

definition check_integrator ::
  "target \<Rightarrow> target \<Rightarrow> target \<Rightarrow> target \<Rightarrow> approved_integrator \<Rightarrow> target \<times> tx_attributes \<Rightarrow> (target \<times> tx_attributes) circ" where
  "check_integrator is_perps taker_cap maker_cap block_created_at g = (\<lambda>(sanitized, a).
    circ_bind (is_equal (integrator_account_index g) (get_attribute a ATTR_INTEGRATOR_FEE_COLLECTOR_INDEX)) (\<lambda>is_integrator.
    let flag = and_not is_integrator sanitized; sanitized = b_or sanitized flag in
    circ_bind (conditional_assert_lt flag block_created_at (integrator_expiry g) TIMESTAMP_BITS) (\<lambda>_.
    let taker_fee = select is_perps (max_perps_taker_fee g) (max_spot_taker_fee g);
        maker_fee = select is_perps (max_perps_maker_fee g) (max_spot_maker_fee g) in
    circ_bind (circ_fold (cap_fee flag) [(ATTR_INTEGRATOR_TAKER_FEE, taker_fee, taker_cap), (ATTR_INTEGRATOR_MAKER_FEE, maker_fee, maker_cap)] a) (\<lambda>a.
    circ_return (sanitized, a)))))"

definition sanitize_and_normalize ::
  "approved_integrator list \<Rightarrow> market_target \<Rightarrow> system_config \<Rightarrow> target \<Rightarrow> tx_attributes \<Rightarrow> tx_attributes circ" where
  "sanitize_and_normalize approved_integrators market cfg block_created_at a =
    circ_bind (is_nil_attribute a ATTR_INTEGRATOR_FEE_COLLECTOR_INDEX) (\<lambda>is_nil_integrator_index.
    circ_bind (market_is_empty market) (\<lambda>is_empty_market.
    let is_enabled = multi_and [b_not is_nil_integrator_index, b_not is_empty_market] in
    circ_bind (is_equal_constant (market_type market) MARKET_TYPE_PERPS) (\<lambda>is_perps.
    let taker_cap = select is_perps (max_integrator_perps_taker_fee cfg) (max_integrator_spot_taker_fee cfg);
        maker_cap = select is_perps (max_integrator_perps_maker_fee cfg) (max_integrator_spot_maker_fee cfg) in
    circ_bind (circ_fold (check_integrator is_perps taker_cap maker_cap block_created_at) (take MAX_APPROVED_INTEGRATORS approved_integrators)
      (b_not is_enabled, a)) (\<lambda>(sanitized, a).
    circ_bind (conditional_assert_true is_enabled sanitized) (\<lambda>_.
    circ_return a)))))"

section \<open>Contracts\<close>

text \<open>A loop that asserts in every pass.\<close>

lemma realises_fold:
  assumes "I 0 s" "\<And>i s. i < length xs \<Longrightarrow> I i s \<Longrightarrow> realises (f (xs ! i) s) (P i) (I (Suc i))"
  shows "realises (circ_fold f xs s) (\<forall>i<length xs. P i) (I (length xs))"
  using assms
proof (induction xs arbitrary: I P s)
  case Nil
  then show ?case by (simp add: realises_return)
next
  case (Cons x xs)
  have first: "realises (f x s) (P 0) (I (Suc 0))" using Cons.prems(2) [of 0 s] Cons.prems(1) by simp
  have rest: "realises (circ_fold f xs t) (\<forall>i<length xs. P (Suc i)) (I (Suc (length xs)))" if "I (Suc 0) t" for t
    using Cons.IH [of "\<lambda>i. I (Suc i)" t "\<lambda>i. P (Suc i)", OF that] Cons.prems(2) [of "Suc i" for i] by simp
  show ?case
    unfolding circ_fold.simps using realises_bind [OF first rest] by (simp add: All_less_Suc2)
qed

lemma realises_fold_view:
  assumes "\<And>x s. x \<in> set xs \<Longrightarrow> ok s \<Longrightarrow> realises (f x s) (P x) (\<lambda>t. ok t \<and> view t = g x (view s))" "ok s"
  shows "realises (circ_fold f xs s) (\<forall>x\<in>set xs. P x) (\<lambda>t. ok t \<and> view t = fold g xs (view s))"
  using assms
proof (induction xs arbitrary: s)
  case (Cons x xs)
  have first: "realises (f x s) (P x) (\<lambda>t. ok t \<and> view t = g x (view s))" using Cons.prems by simp
  have rest: "realises (circ_fold f xs t) (\<forall>x\<in>set xs. P x) (\<lambda>u. ok u \<and> view u = fold g (x # xs) (view s))"
    if "ok t \<and> view t = g x (view s)" for t
    using Cons.IH [of t] Cons.prems(1) that by simp
  show ?case
    unfolding circ_fold.simps using realises_bind [OF first rest] by simp
qed (simp add: realises_return)

text \<open>What the pairs have to satisfy; \<open>attribute_array\<close> is the array of values by type.\<close>

definition attribute_ok :: "nat list \<Rightarrow> nat list \<Rightarrow> nat \<Rightarrow> bool" where
  "attribute_ok ts vs i \<longleftrightarrow> ts ! i < TOTAL_ATTRIBUTE_COUNT \<and> (ts ! i = ATTR_NIL \<longrightarrow> vs ! i = 0) \<and> (i = 0 \<or> ts ! (i - 1) < ts ! i \<or> ts ! i = ATTR_NIL)"

definition put_attribute :: "nat \<times> nat \<Rightarrow> nat list \<Rightarrow> nat list" where
  "put_attribute = (\<lambda>(t, v) w. if t = ATTR_NIL then w else w[t := v])"

definition attribute_array :: "nat list \<Rightarrow> nat list \<Rightarrow> nat list" where
  "attribute_array ts vs = fold put_attribute (zip ts vs) ATTR_NIL_VALUES"

definition values_ok :: "nat list \<Rightarrow> bool" where
  "values_ok w \<longleftrightarrow> (\<forall>i\<in>{1..<TOTAL_ATTRIBUTE_COUNT}. w ! i \<le> ATTR_MAX_VALUES ! i)"

definition modes_ok :: "nat list \<Rightarrow> bool" where
  "modes_ok w \<longleftrightarrow> (if w ! ATTR_INTEGRATOR_FEE_COLLECTOR_INDEX = 0 then w ! ATTR_INTEGRATOR_TAKER_FEE = 0 \<and> w ! ATTR_INTEGRATOR_MAKER_FEE = 0
      else w ! ATTR_SELF_TRADE_BEHAVIOR_MODE = 0 \<and> w ! ATTR_SELF_TRADE_EQUALITY_MODE = 0) \<and>
    \<not> (w ! ATTR_SELF_TRADE_EQUALITY_MODE = SELF_TRADE_EQUALITY_MASTER_ACCOUNT_INDEX \<and> w ! ATTR_SELF_TRADE_BEHAVIOR_MODE = SELF_TRADE_BEHAVIOR_REDUCE)"

definition attributes_ok :: "nat list \<Rightarrow> nat list \<Rightarrow> bool" where
  "attributes_ok ts vs \<longleftrightarrow> (\<forall>i<NB_ATTRIBUTES_PER_TX. attribute_ok ts vs i) \<and> values_ok (attribute_array ts vs) \<and> modes_ok (attribute_array ts vs)"

lemma attr_numbers:
  "NB_ATTRIBUTES_PER_TX = 4" "TOTAL_ATTRIBUTE_COUNT = 8" "ATTR_NIL = 0" "ATTR_INTEGRATOR_FEE_COLLECTOR_INDEX = 1" "ATTR_INTEGRATOR_TAKER_FEE = 2"
  "ATTR_INTEGRATOR_MAKER_FEE = 3" "ATTR_SKIP_TX_NONCE = 4" "ATTR_CANCEL_ALL_MARKET_INDEX = 5" "ATTR_SELF_TRADE_BEHAVIOR_MODE = 6"
  "ATTR_SELF_TRADE_EQUALITY_MODE = 7"
  by (simp_all add: NB_ATTRIBUTES_PER_TX_def TOTAL_ATTRIBUTE_COUNT_def ATTR_NIL_def ATTR_INTEGRATOR_FEE_COLLECTOR_INDEX_def
    ATTR_INTEGRATOR_TAKER_FEE_def ATTR_INTEGRATOR_MAKER_FEE_def ATTR_SKIP_TX_NONCE_def ATTR_CANCEL_ALL_MARKET_INDEX_def
    ATTR_SELF_TRADE_BEHAVIOR_MODE_def ATTR_SELF_TRADE_EQUALITY_MODE_def)

lemma realises_verify_attribute:
  assumes "length (inner_types a) = 4" "length (inner_values a) = 4" "i < 4" and prev: "prev = inner_types a ! (i - 1)" "i \<noteq> 0 \<longrightarrow> uval prev < 8"
  shows "realises (verify_attribute a i prev) (attribute_ok (map uval (inner_types a)) (map uval (inner_values a)) i)
    (\<lambda>r. r = inner_types a ! i \<and> uval r < 8)"
proof -
  let ?t = "inner_types a ! i" and ?v = "inner_values a ! i"
  have seven: "uval (Const (of_nat (TOTAL_ATTRIBUTE_COUNT - 1))) = 7" by (rule uval_of_nat) (simp_all add: attr_numbers)
  have rc: "realises (register_range_check ?t ATTRIBUTE_TYPE_BITS) (uval ?t < 8) (\<lambda>_. True)"
    using realises_register_range_check [of 3 ?t] by (simp add: ATTRIBUTE_TYPE_BITS_def)
  have small: "cmp_ok ATTRIBUTE_TYPE_BITS u" if "uval u < 8" for u
    using cmp_okI [of 3 u] that by (simp add: ATTRIBUTE_TYPE_BITS_def)
  have lte: "realises (assert_lte ?t (Const (of_nat (TOTAL_ATTRIBUTE_COUNT - 1))) ATTRIBUTE_TYPE_BITS) (uval ?t \<le> 7) (\<lambda>_. True)" if "uval ?t < 8"
    using realises_assert_lte [OF small [OF that] small, of "Const (of_nat (TOTAL_ATTRIBUTE_COUNT - 1))"] unfolding seven by simp
  have step: "realises (if i = 0 then circ_return prev
     else circ_bind (is_lt prev ?t ATTRIBUTE_TYPE_BITS) (\<lambda>inc. circ_bind (assert_true (b_or inc z)) (\<lambda>_. circ_return ?t)))
     (i = 0 \<or> uval prev < uval ?t \<or> uval ?t = 0) (\<lambda>r. r = ?t \<and> uval r < 8)" if "bval z (uval ?t = 0)" "uval ?t < 8" for z
  proof (cases "i = 0")
    case True
    then show ?thesis using that prev by (simp add: realises_return)
  next
    case False
    then have l: "uval prev < 8" using prev(2) by simp
    have "realises (circ_bind (is_lt prev ?t ATTRIBUTE_TYPE_BITS) (\<lambda>inc. circ_bind (assert_true (b_or inc z)) (\<lambda>_. circ_return ?t)))
      (uval prev < uval ?t \<or> uval ?t = 0) (\<lambda>r. r = ?t \<and> uval r < 8)"
    proof (rule realises_after [OF implements_is_lt [OF small [OF l] small [OF that(2)]]])
      fix inc assume "bval inc (uval prev < uval ?t)"
      from realises_assert_true [OF bval_or [OF this that(1)]]
      show "realises (circ_bind (assert_true (b_or inc z)) (\<lambda>_. circ_return ?t)) (uval prev < uval ?t \<or> uval ?t = 0) (\<lambda>r. r = ?t \<and> uval r < 8)"
        by (rule realises_then_return) (simp add: that)
    qed
    then show ?thesis using False by simp
  qed
  have "realises (verify_attribute a i prev)
     (uval ?t < 8 \<and> (uval ?t \<le> 7 \<and> ((uval ?t = 0 \<longrightarrow> uval ?v = 0) \<and> (i = 0 \<or> uval prev < uval ?t \<or> uval ?t = 0)))) (\<lambda>r. r = ?t \<and> uval r < 8)"
    unfolding verify_attribute_def Let_def
    by (rule realises_bind [OF rc], rule realises_bind [OF lte], assumption, rule realises_after [OF implements_is_zero],
        rule realises_bind [OF realises_conditional_assert_zero], assumption, rule step)
  then show ?thesis
    by (rule realises_weaken) (use assms in \<open>auto simp: attribute_ok_def attr_numbers\<close>)
qed

lemma realises_verify_attribute_types:
  assumes "length (inner_types a) = 4" "length (inner_values a) = 4"
  shows "realises (verify_attribute_types a) (\<forall>i<NB_ATTRIBUTES_PER_TX. attribute_ok (map uval (inner_types a)) (map uval (inner_values a)) i) (\<lambda>_. True)"
proof -
  let ?I = "\<lambda>i r. r = inner_types a ! (i - 1) \<and> (i \<noteq> 0 \<longrightarrow> uval r < 8)" and ?P = "attribute_ok (map uval (inner_types a)) (map uval (inner_values a))"
  have "realises (circ_fold (verify_attribute a) [0..<NB_ATTRIBUTES_PER_TX] (inner_types a ! 0)) (\<forall>i<length [0..<NB_ATTRIBUTES_PER_TX]. ?P i)
    (?I (length [0..<NB_ATTRIBUTES_PER_TX]))"
  proof (rule realises_fold [where I = ?I])
    fix i r assume "i < length [0..<NB_ATTRIBUTES_PER_TX]" "?I i r"
    then show "realises (verify_attribute a ([0..<NB_ATTRIBUTES_PER_TX] ! i) r) (?P i) (?I (Suc i))"
      using realises_verify_attribute [OF assms, of i r] by (auto simp: attr_numbers)
  qed simp
  then show ?thesis
    unfolding verify_attribute_types_def by (intro realises_then_return) simp_all
qed

lemma fold_put:
  "fold (\<lambda>i w. if t = i then w[i := v] else w) xs w = (if t \<in> set xs then w[t := v] else w)"
  by (induction xs arbitrary: w) auto

lemma put_attribute_fold:
  assumes "length w = 8"
  shows "fold (\<lambda>i w. if t = i then w[i := v] else w) [1..<TOTAL_ATTRIBUTE_COUNT] w = put_attribute (t, v) w"
  unfolding fold_put using assms by (auto simp: put_attribute_def attr_numbers not_less list_update_beyond)

lemma implements_put_attribute:
  assumes "length vals = 8"
  shows "implements (circ_fold (\<lambda>i vals. circ_bind (is_equal_constant t i) (\<lambda>is_type. circ_return (vals[i := select is_type v (vals ! i)])))
      [1..<TOTAL_ATTRIBUTE_COUNT] vals) (\<lambda>r. length r = 8 \<and> map uval r = put_attribute (uval t, uval v) (map uval vals))"
proof -
  have step: "implements (circ_bind (is_equal_constant t i) (\<lambda>is_type. circ_return (ws[i := select is_type v (ws ! i)])))
      (\<lambda>r. length r = 8 \<and> map uval r = (if uval t = i then (map uval ws)[i := uval v] else map uval ws))"
    if i: "i \<in> set [1..<TOTAL_ATTRIBUTE_COUNT]" and ws: "length ws = 8" for i ws
  proof (rule implements_bind [OF implements_is_equal_constant], use i in \<open>simp add: attr_numbers\<close>, rule implements_return)
    fix e assume e: "bval e (uval t = i)"
    have "i < length ws" using i ws by (simp add: attr_numbers)
    then show "length (ws[i := select e v (ws ! i)]) = 8 \<and>
        map uval (ws[i := select e v (ws ! i)]) = (if uval t = i then (map uval ws)[i := uval v] else map uval ws)"
      using ws by (simp add: map_update uval_select [OF e] list_update_same_conv)
  qed
  have len: "length (map uval vals) = 8" using assms by simp
  show ?thesis
    unfolding put_attribute_fold [OF len, symmetric]
    by (rule implements_fold_view [where ok = "\<lambda>ws. length ws = 8"]) (use step assms in auto)
qed

lemma implements_set_attributes_array:
  assumes "length (attr_values a) = 8"
  shows "implements (set_attributes_array a) (\<lambda>b. inner_types b = inner_types a \<and> inner_values b = inner_values a \<and> length (attr_values b) = 8 \<and>
    map uval (attr_values b) = fold put_attribute (zip (map uval (inner_types a)) (map uval (inner_values a))) (map uval (attr_values a)))"
proof -
  let ?body = "\<lambda>(t, v). circ_fold (\<lambda>i vals. circ_bind (is_equal_constant t i) (\<lambda>is_type. circ_return (vals[i := select is_type v (vals ! i)])))
    [1..<TOTAL_ATTRIBUTE_COUNT]"
  have "implements (circ_fold ?body (zip (inner_types a) (inner_values a)) (attr_values a))
    (\<lambda>r. length r = 8 \<and> map uval r = fold (\<lambda>(t, v). put_attribute (uval t, uval v)) (zip (inner_types a) (inner_values a)) (map uval (attr_values a)))"
    by (rule implements_fold_view [where ok = "\<lambda>ws. length ws = 8"]) (use assms implements_put_attribute in auto)
  note array = this
  have eq: "fold (\<lambda>(t, v). put_attribute (uval t, uval v)) (zip (inner_types a) (inner_values a)) =
    fold put_attribute (zip (map uval (inner_types a)) (map uval (inner_values a)))"
    by (simp add: zip_map_map fold_map comp_def split_def)
  show ?thesis
    unfolding set_attributes_array_def by (rule implements_bind [OF array [unfolded eq]]) (auto intro!: implements_return)
qed

lemma attribute_sizes: "i < 8 \<Longrightarrow> ATTR_BIT_SIZES ! i \<le> 64 \<and> ATTR_MAX_VALUES ! i < 2 ^ (ATTR_BIT_SIZES ! i) \<and> ATTR_MAX_VALUES ! i < p_nat"
proof -
  have "list_all2 (\<lambda>m b. b \<le> 64 \<and> m < 2 ^ b \<and> m < p_nat) ATTR_MAX_VALUES ATTR_BIT_SIZES"
    by (simp add: ATTR_MAX_VALUES_def ATTR_BIT_SIZES_def NIL_ACCOUNT_INDEX_def ACCOUNT_INDEX_BITS_def FEE_TICK_def MARKET_INDEX_BITS_def
      NIL_MARKET_INDEX_def SELF_TRADE_BEHAVIOR_REDUCE_def SELF_TRADE_EQUALITY_MASTER_ACCOUNT_INDEX_def)
  moreover assume "i < 8"
  then have "i < length ATTR_MAX_VALUES" by (simp add: ATTR_MAX_VALUES_def)
  ultimately show ?thesis by (blast dest: list_all2_nthD)
qed

lemma realises_range_check_attribute_values:
  assumes "length (attr_values a) = 8"
  shows "realises (range_check_attribute_values a) (values_ok (map uval (attr_values a))) (\<lambda>_. True)"
proof -
  have "realises (circ_bind (register_range_check (attr_values a ! i) (ATTR_BIT_SIZES ! i)) (\<lambda>_.
      assert_lte (attr_values a ! i) (Const (of_nat (ATTR_MAX_VALUES ! i))) (ATTR_BIT_SIZES ! i)))
      (map uval (attr_values a) ! i \<le> ATTR_MAX_VALUES ! i) (\<lambda>_. True)" if i: "i \<in> set [1..<TOTAL_ATTRIBUTE_COUNT]" for i
  proof -
    let ?v = "attr_values a ! i" and ?b = "ATTR_BIT_SIZES ! i" and ?m = "ATTR_MAX_VALUES ! i"
    have sizes: "?b \<le> 64" "?m < 2 ^ ?b" "?m < p_nat" using attribute_sizes [of i] i by (simp_all add: attr_numbers)
    have m: "uval (Const (of_nat ?m)) = ?m" by (rule uval_of_nat) (use sizes(3) in simp_all)
    have lte: "realises (assert_lte ?v (Const (of_nat ?m)) ?b) (uval ?v \<le> ?m) (\<lambda>_. True)" if "uval ?v < 2 ^ ?b"
      using realises_assert_lte [OF cmp_okI [OF sizes(1) that] cmp_okI [OF sizes(1)], of "Const (of_nat ?m)"] sizes(2) unfolding m by simp
    have "realises (circ_bind (register_range_check ?v ?b) (\<lambda>_. assert_lte ?v (Const (of_nat ?m)) ?b)) (uval ?v < 2 ^ ?b \<and> uval ?v \<le> ?m) (\<lambda>_. True)"
      by (rule realises_bind [OF realises_register_range_check [OF sizes(1)] lte])
    then show ?thesis by (rule realises_weaken) (use sizes(2) assms i in \<open>auto simp: attr_numbers\<close>)
  qed
  from realises_for [OF this]
  have "realises (range_check_attribute_values a) (\<forall>i\<in>set [1..<TOTAL_ATTRIBUTE_COUNT]. map uval (attr_values a) ! i \<le> ATTR_MAX_VALUES ! i) (\<lambda>_. True)"
    unfolding range_check_attribute_values_def .
  then show ?thesis by (simp add: values_ok_def)
qed

lemma implements_is_nil_attribute:
  assumes "length (attr_values a) = 8" "i < 8" "ATTR_NIL_VALUES ! i = 0"
  shows "implements (is_nil_attribute a i) (\<lambda>r. bval r (map uval (attr_values a) ! i = 0))"
  using implements_is_equal [of "attr_values a ! i" "Const 0"] assms by (simp add: is_nil_attribute_def get_attribute_def)

lemma realises_validate_attribute_types:
  assumes "length (attr_values a) = 8"
  shows "realises (validate_attribute_types a) (modes_ok (map uval (attr_values a))) (\<lambda>_. True)"
proof -
  let ?w = "map uval (attr_values a)"
  note nil = implements_is_nil_attribute [OF assms]
  have const: "implements (is_equal_constant (get_attribute a i) c) (\<lambda>r. bval r (?w ! i = c))" if "i < 8" "c < 256" for i c
    using implements_is_equal_constant [of c "get_attribute a i"] that assms by (simp add: get_attribute_def)
  have nils: "ATTR_NIL_VALUES ! ATTR_INTEGRATOR_TAKER_FEE = 0" "ATTR_NIL_VALUES ! ATTR_INTEGRATOR_MAKER_FEE = 0"
    "ATTR_NIL_VALUES ! ATTR_INTEGRATOR_FEE_COLLECTOR_INDEX = 0" "ATTR_NIL_VALUES ! ATTR_SELF_TRADE_BEHAVIOR_MODE = 0"
    "ATTR_NIL_VALUES ! ATTR_SELF_TRADE_EQUALITY_MODE = 0"
    by (simp_all add: attr_numbers ATTR_NIL_VALUES_def)
  have small: "ATTR_INTEGRATOR_TAKER_FEE < 8" "ATTR_INTEGRATOR_MAKER_FEE < 8" "ATTR_INTEGRATOR_FEE_COLLECTOR_INDEX < 8"
    "ATTR_SELF_TRADE_BEHAVIOR_MODE < 8" "ATTR_SELF_TRADE_EQUALITY_MODE < 8" "SELF_TRADE_EQUALITY_MASTER_ACCOUNT_INDEX < 256" "SELF_TRADE_BEHAVIOR_REDUCE < 256"
    by (simp_all add: attr_numbers SELF_TRADE_EQUALITY_MASTER_ACCOUNT_INDEX_def SELF_TRADE_BEHAVIOR_REDUCE_def)
  let ?taker = "?w ! ATTR_INTEGRATOR_TAKER_FEE = 0" and ?maker = "?w ! ATTR_INTEGRATOR_MAKER_FEE = 0" and ?index = "?w ! ATTR_INTEGRATOR_FEE_COLLECTOR_INDEX = 0"
    and ?behavior = "?w ! ATTR_SELF_TRADE_BEHAVIOR_MODE = 0" and ?equality = "?w ! ATTR_SELF_TRADE_EQUALITY_MODE = 0"
    and ?master = "?w ! ATTR_SELF_TRADE_EQUALITY_MODE = SELF_TRADE_EQUALITY_MASTER_ACCOUNT_INDEX"
    and ?reduce = "?w ! ATTR_SELF_TRADE_BEHAVIOR_MODE = SELF_TRADE_BEHAVIOR_REDUCE"
  have "realises (validate_attribute_types a) (\<not> (?index \<and> \<not> (?taker \<and> ?maker)) \<and> ((?index \<or> (?behavior \<and> ?equality)) \<and> \<not> (?master \<and> ?reduce))) (\<lambda>_. True)"
    unfolding validate_attribute_types_def Let_def
    by (rule realises_after [OF nil [OF small(1) nils(1)]], rule realises_after [OF nil [OF small(2) nils(2)]],
        rule realises_after [OF nil [OF small(3) nils(3)]], rule realises_after [OF nil [OF small(4) nils(4)]],
        rule realises_after [OF nil [OF small(5) nils(5)]], rule realises_bind [OF realises_assert_false], (intro bval_and bval_and_not; assumption),
        rule realises_bind [OF realises_assert_true], (intro bval_and bval_or; assumption),
        rule realises_after [OF const [OF small(5,6)]], rule realises_after [OF const [OF small(4,7)]], rule realises_assert_false, (intro bval_and; assumption))
  then show ?thesis
    by (rule realises_weaken) (auto simp: modes_ok_def)
qed

lemma realises_prepare_attributes:
  assumes "length (inner_types a) = 4" "length (inner_values a) = 4" "map uval (attr_values a) = ATTR_NIL_VALUES"
  shows "realises (prepare_attributes a) (attributes_ok (map uval (inner_types a)) (map uval (inner_values a)))
    (\<lambda>b. inner_types b = inner_types a \<and> inner_values b = inner_values a \<and>
      map uval (attr_values b) = attribute_array (map uval (inner_types a)) (map uval (inner_values a)))"
  unfolding prepare_attributes_def attributes_ok_def
proof (rule realises_bind [OF realises_verify_attribute_types [OF assms(1,2)]])
  let ?array = "attribute_array (map uval (inner_types a)) (map uval (inner_values a))"
  have "length (map uval (attr_values a)) = 8" unfolding assms(3) by (simp add: ATTR_NIL_VALUES_def)
  then have len: "length (attr_values a) = 8" by simp
  show "realises (circ_bind (set_attributes_array a) (\<lambda>a. circ_bind (range_check_attribute_values a) (\<lambda>_. circ_bind (validate_attribute_types a) (\<lambda>_. circ_return a))))
    (values_ok ?array \<and> modes_ok ?array) (\<lambda>b. inner_types b = inner_types a \<and> inner_values b = inner_values a \<and> map uval (attr_values b) = ?array)"
  proof (rule realises_after [OF implements_set_attributes_array [OF len]], elim conjE)
    fix b :: tx_attributes assume b: "inner_types b = inner_types a" "inner_values b = inner_values a" "length (attr_values b) = 8"
      "map uval (attr_values b) = fold put_attribute (zip (map uval (inner_types a)) (map uval (inner_values a))) (map uval (attr_values a))"
    then have array: "map uval (attr_values b) = ?array" by (simp add: attribute_array_def assms(3))
    show "realises (circ_bind (range_check_attribute_values b) (\<lambda>_. circ_bind (validate_attribute_types b) (\<lambda>_. circ_return b)))
      (values_ok ?array \<and> modes_ok ?array) (\<lambda>b. inner_types b = inner_types a \<and> inner_values b = inner_values a \<and> map uval (attr_values b) = ?array)"
      unfolding array [symmetric]
      by (rule realises_bind [OF realises_range_check_attribute_values [OF b(3)]], rule realises_then_return [OF realises_validate_attribute_types [OF b(3)]])
        (simp add: b(1,2))
  qed
qed

section \<open>Fees\<close>

record approval =
  approved_index :: nat
  approved_taker :: nat
  approved_maker :: nat
  approved_until :: nat

definition approval_of :: "bool \<Rightarrow> approved_integrator \<Rightarrow> approval" where
  "approval_of perps g = \<lparr>approved_index = uval (integrator_account_index g),
     approved_taker = uval (if perps then max_perps_taker_fee g else max_spot_taker_fee g),
     approved_maker = uval (if perps then max_perps_maker_fee g else max_spot_maker_fee g), approved_until = uval (integrator_expiry g)\<rparr>"

text \<open>The bounds the comparisons rely on.\<close>

definition integrator_ok :: "approved_integrator \<Rightarrow> bool" where
  "integrator_ok g \<longleftrightarrow> uval (max_perps_taker_fee g) < 2 ^ 32 \<and> uval (max_perps_maker_fee g) < 2 ^ 32 \<and> uval (max_spot_taker_fee g) < 2 ^ 32 \<and>
    uval (max_spot_maker_fee g) < 2 ^ 32 \<and> uval (integrator_expiry g) < 2 ^ TIMESTAMP_BITS"

text \<open>The array with one fee replaced by the smaller of itself and the cap.\<close>

definition cap_at :: "nat \<Rightarrow> nat \<Rightarrow> nat list \<Rightarrow> nat list" where
  "cap_at i cap w = w[i := min (w ! i) cap]"

definition fees_small :: "nat list \<Rightarrow> bool" where
  "fees_small w \<longleftrightarrow> length w = 8 \<and> w ! ATTR_INTEGRATOR_TAKER_FEE < 2 ^ 32 \<and> w ! ATTR_INTEGRATOR_MAKER_FEE < 2 ^ 32"

lemma cmp_ok_24: "uval t < 2 ^ 32 \<Longrightarrow> cmp_ok 24 t"
  by (simp add: cmp_ok_def cmp_bit_size_bucket_def)

lemma realises_cap_fee:
  assumes f: "bval flag v" and a: "fees_small (map uval (attr_values a))" and i: "i = ATTR_INTEGRATOR_TAKER_FEE \<or> i = ATTR_INTEGRATOR_MAKER_FEE"
    and small: "uval approved < 2 ^ 32" "uval cap < 2 ^ 32"
  shows "realises (cap_fee flag (i, approved, cap) a) (v \<longrightarrow> map uval (attr_values a) ! i \<le> uval approved)
    (\<lambda>b. map uval (attr_values b) = (if v then cap_at i (uval cap) (map uval (attr_values a)) else map uval (attr_values a)))"
proof -
  let ?fee = "attr_values a ! i"
  have len: "length (attr_values a) = 8" "i < 8" using a i by (auto simp: fees_small_def attr_numbers)
  then have w: "map uval (attr_values a) ! i = uval ?fee" by simp
  have fee: "uval ?fee < 2 ^ 32" using a i unfolding w [symmetric] by (auto simp: fees_small_def)
  have bits: "ATTR_BIT_SIZES ! i = 24" using i by (auto simp: attr_numbers ATTR_BIT_SIZES_def)
  note ok = cmp_ok_24 [OF fee] cmp_ok_24 [OF small(1)] cmp_ok_24 [OF small(2)]
  have "realises (circ_bind (conditional_assert_lte flag ?fee approved 24) (\<lambda>_. circ_bind (min_target [?fee, cap] 24) (\<lambda>capped.
      circ_return (set_attribute flag i capped a)))) ((v \<longrightarrow> uval ?fee \<le> uval approved) \<and> True)
    (\<lambda>b. map uval (attr_values b) = (if v then cap_at i (uval cap) (map uval (attr_values a)) else map uval (attr_values a)))"
  proof (rule realises_bind [OF realises_conditional_assert_lte [OF f ok(1,2)]], rule realises_after [OF implements_min_max_target(1)], use ok in simp, simp,
      rule realises_return)
    fix m assume "uval m = Min (uval ` set [?fee, cap])"
    then have m: "uval m = min (uval ?fee) (uval cap)" by simp
    show "map uval (attr_values (set_attribute flag i m a)) = (if v then cap_at i (uval cap) (map uval (attr_values a)) else map uval (attr_values a))"
      using len by (auto simp: set_attribute_def map_update uval_select [OF f] m cap_at_def list_update_same_conv)
  qed
  then show ?thesis unfolding cap_fee_def prod.case Let_def get_attribute_def bits w by (simp only: simp_thms)
qed

lemma fees_small_cap: "fees_small w \<Longrightarrow> i = ATTR_INTEGRATOR_TAKER_FEE \<or> i = ATTR_INTEGRATOR_MAKER_FEE \<Longrightarrow> fees_small (cap_at i c w)"
  by (auto simp: fees_small_def cap_at_def attr_numbers)

lemma realises_cap_fees:
  assumes f: "bval flag v" and a: "fees_small (map uval (attr_values a))"
    and small: "uval t < 2 ^ 32" "uval tc < 2 ^ 32" "uval m < 2 ^ 32" "uval mc < 2 ^ 32"
  shows "realises (circ_fold (cap_fee flag) [(ATTR_INTEGRATOR_TAKER_FEE, t, tc), (ATTR_INTEGRATOR_MAKER_FEE, m, mc)] a)
    (v \<longrightarrow> map uval (attr_values a) ! ATTR_INTEGRATOR_TAKER_FEE \<le> uval t \<and> map uval (attr_values a) ! ATTR_INTEGRATOR_MAKER_FEE \<le> uval m)
    (\<lambda>b. map uval (attr_values b) = (if v then cap_at ATTR_INTEGRATOR_MAKER_FEE (uval mc) (cap_at ATTR_INTEGRATOR_TAKER_FEE (uval tc) (map uval (attr_values a)))
      else map uval (attr_values a)))"
proof -
  let ?w = "map uval (attr_values a)"
  let ?w1 = "if v then cap_at ATTR_INTEGRATOR_TAKER_FEE (uval tc) ?w else ?w"
  let ?w2 = "if v then cap_at ATTR_INTEGRATOR_MAKER_FEE (uval mc) ?w1 else ?w1"
  have taker: "realises (cap_fee flag (ATTR_INTEGRATOR_TAKER_FEE, t, tc) a) (v \<longrightarrow> ?w ! ATTR_INTEGRATOR_TAKER_FEE \<le> uval t) (\<lambda>b. map uval (attr_values b) = ?w1)"
    by (rule realises_cap_fee [OF f a _ small(1,2)]) simp
  have maker: "realises (cap_fee flag (ATTR_INTEGRATOR_MAKER_FEE, m, mc) b) (v \<longrightarrow> ?w1 ! ATTR_INTEGRATOR_MAKER_FEE \<le> uval m) (\<lambda>c. map uval (attr_values c) = ?w2)"
    if b: "map uval (attr_values b) = ?w1" for b
  proof -
    have "fees_small (map uval (attr_values b))" unfolding b using fees_small_cap [OF a] a by simp
    from realises_cap_fee [OF f this _ small(3,4), of ATTR_INTEGRATOR_MAKER_FEE] show ?thesis unfolding b by simp
  qed
  have "realises (circ_fold (cap_fee flag) [(ATTR_INTEGRATOR_TAKER_FEE, t, tc), (ATTR_INTEGRATOR_MAKER_FEE, m, mc)] a)
      ((v \<longrightarrow> ?w ! ATTR_INTEGRATOR_TAKER_FEE \<le> uval t) \<and> ((v \<longrightarrow> ?w1 ! ATTR_INTEGRATOR_MAKER_FEE \<le> uval m) \<and> True)) (\<lambda>c. map uval (attr_values c) = ?w2)"
    unfolding circ_fold.simps
    by (rule realises_bind [OF taker], rule realises_bind [OF maker], assumption, rule realises_return)
  then show ?thesis
    by (rule realises_weaken) (auto simp: cap_at_def attr_numbers)
qed

text \<open>The first approval of the integrator decides; without an enabled check the attributes stay.\<close>

definition approved_fees :: "nat \<Rightarrow> nat \<Rightarrow> approval \<Rightarrow> nat list \<Rightarrow> bool" where
  "approved_fees collector now g w \<longleftrightarrow> approved_index g = collector \<and> now < approved_until g \<and>
    w ! ATTR_INTEGRATOR_TAKER_FEE \<le> approved_taker g \<and> w ! ATTR_INTEGRATOR_MAKER_FEE \<le> approved_maker g"

definition capped :: "nat \<Rightarrow> nat \<Rightarrow> nat list \<Rightarrow> nat list" where
  "capped tc mc w = cap_at ATTR_INTEGRATOR_MAKER_FEE mc (cap_at ATTR_INTEGRATOR_TAKER_FEE tc w)"

text \<open>One pass: \<open>b\<close> says that an approval was found before.\<close>

lemma realises_check_integrator:
  assumes g: "integrator_ok g" and p: "bval is_perps perps" and s: "bval sanitized b" and a: "fees_small (map uval (attr_values a))"
    and now: "uval now < 2 ^ TIMESTAMP_BITS" and caps: "uval tc < 2 ^ 32" "uval mc < 2 ^ 32"
  defines "w \<equiv> map uval (attr_values a)"
  defines "hit \<equiv> approved_index (approval_of perps g) = w ! ATTR_INTEGRATOR_FEE_COLLECTOR_INDEX \<and> \<not> b"
  shows "realises (check_integrator is_perps tc mc now g (sanitized, a))
    (hit \<longrightarrow> approved_fees (w ! ATTR_INTEGRATOR_FEE_COLLECTOR_INDEX) (uval now) (approval_of perps g) w)
    (\<lambda>(sanitized', a'). bval sanitized' (b \<or> hit) \<and> map uval (attr_values a') = (if hit then capped (uval tc) (uval mc) w else w))"
  unfolding check_integrator_def prod.case Let_def
proof -
  have len: "length (attr_values a) = 8" using a by (simp add: fees_small_def)
  have ind: "tval (integrator_account_index g) = tval (get_attribute a ATTR_INTEGRATOR_FEE_COLLECTOR_INDEX) \<longleftrightarrow>
      approved_index (approval_of perps g) = w ! ATTR_INTEGRATOR_FEE_COLLECTOR_INDEX"
    using to_canonical_inject len by (simp add: approval_of_def w_def get_attribute_def attr_numbers)
  have fees: "uval (select is_perps (max_perps_taker_fee g) (max_spot_taker_fee g)) = approved_taker (approval_of perps g)"
    "uval (select is_perps (max_perps_maker_fee g) (max_spot_maker_fee g)) = approved_maker (approval_of perps g)"
    by (simp_all add: uval_select [OF p] approval_of_def)
  have small: "approved_taker (approval_of perps g) < 2 ^ 32" "approved_maker (approval_of perps g) < 2 ^ 32"
    using g by (simp_all add: integrator_ok_def approval_of_def)
  have time: "cmp_ok TIMESTAMP_BITS now" "cmp_ok TIMESTAMP_BITS (integrator_expiry g)"
    using now g by (simp_all add: cmp_okI integrator_ok_def TIMESTAMP_BITS_def)
  let ?taker = "select is_perps (max_perps_taker_fee g) (max_spot_taker_fee g)" and ?maker = "select is_perps (max_perps_maker_fee g) (max_spot_maker_fee g)"
  have rest: "realises (circ_bind (conditional_assert_lt flag now (integrator_expiry g) TIMESTAMP_BITS) (\<lambda>_.
      circ_bind (circ_fold (cap_fee flag) [(ATTR_INTEGRATOR_TAKER_FEE, ?taker, tc), (ATTR_INTEGRATOR_MAKER_FEE, ?maker, mc)] a) (\<lambda>a.
      circ_return (b_or sanitized flag, a))))
    ((hit \<longrightarrow> uval now < uval (integrator_expiry g)) \<and> (hit \<longrightarrow> w ! ATTR_INTEGRATOR_TAKER_FEE \<le> uval ?taker \<and> w ! ATTR_INTEGRATOR_MAKER_FEE \<le> uval ?maker))
    (\<lambda>(sanitized', a'). bval sanitized' (b \<or> hit) \<and> map uval (attr_values a') = (if hit then capped (uval tc) (uval mc) w else w))"
    if flag: "bval flag hit" for flag
    unfolding w_def
    by (rule realises_bind [OF realises_conditional_assert_lt [OF flag time]],
        rule realises_then_return [OF realises_cap_fees [OF flag a _ caps(1) _ caps(2)]])
      (use small fees in \<open>simp_all add: capped_def bval_or [OF s flag]\<close>)
  show "realises (circ_bind (is_equal (integrator_account_index g) (get_attribute a ATTR_INTEGRATOR_FEE_COLLECTOR_INDEX)) (\<lambda>is_integrator.
      circ_bind (conditional_assert_lt (and_not is_integrator sanitized) now (integrator_expiry g) TIMESTAMP_BITS) (\<lambda>_.
      circ_bind (circ_fold (cap_fee (and_not is_integrator sanitized)) [(ATTR_INTEGRATOR_TAKER_FEE, ?taker, tc), (ATTR_INTEGRATOR_MAKER_FEE, ?maker, mc)] a) (\<lambda>a.
      circ_return (b_or sanitized (and_not is_integrator sanitized), a)))))
    (hit \<longrightarrow> approved_fees (w ! ATTR_INTEGRATOR_FEE_COLLECTOR_INDEX) (uval now) (approval_of perps g) w)
    (\<lambda>(sanitized', a'). bval sanitized' (b \<or> hit) \<and> map uval (attr_values a') = (if hit then capped (uval tc) (uval mc) w else w))"
  proof (rule realises_after [OF implements_is_equal])
    fix x assume "bval x (tval (integrator_account_index g) = tval (get_attribute a ATTR_INTEGRATOR_FEE_COLLECTOR_INDEX))"
    then have "bval (and_not x sanitized) hit" using bval_and_not [OF _ s] unfolding ind hit_def by blast
    from rest [OF this]
    show "realises (circ_bind (conditional_assert_lt (and_not x sanitized) now (integrator_expiry g) TIMESTAMP_BITS) (\<lambda>_.
        circ_bind (circ_fold (cap_fee (and_not x sanitized)) [(ATTR_INTEGRATOR_TAKER_FEE, ?taker, tc), (ATTR_INTEGRATOR_MAKER_FEE, ?maker, mc)] a) (\<lambda>a.
        circ_return (b_or sanitized (and_not x sanitized), a))))
      (hit \<longrightarrow> approved_fees (w ! ATTR_INTEGRATOR_FEE_COLLECTOR_INDEX) (uval now) (approval_of perps g) w)
      (\<lambda>(sanitized', a'). bval sanitized' (b \<or> hit) \<and> map uval (attr_values a') = (if hit then capped (uval tc) (uval mc) w else w))"
      by (rule realises_weaken) (simp, unfold fees, auto simp: approved_fees_def hit_def approval_of_def)
  qed
qed

lemma capped_simps:
  "fees_small w \<Longrightarrow> fees_small (capped tc mc w)" "capped tc mc w ! ATTR_INTEGRATOR_FEE_COLLECTOR_INDEX = w ! ATTR_INTEGRATOR_FEE_COLLECTOR_INDEX"
  by (simp_all add: capped_def fees_small_cap) (simp add: cap_at_def attr_numbers)

text \<open>All approvals: the first one of the integrator is checked, unless none is to be (\<open>b\<close>).\<close>

abbreviation first_approval :: "nat \<Rightarrow> approval list \<Rightarrow> approval option" where
  "first_approval collector gs \<equiv> find (\<lambda>g. approved_index g = collector) gs"

lemma realises_check_integrators:
  assumes "\<forall>g\<in>set gs. integrator_ok g" "bval sanitized b" "fees_small (map uval (attr_values a))" "map uval (attr_values a) = w"
    and p: "bval is_perps perps" and now: "uval now < 2 ^ TIMESTAMP_BITS" and caps: "uval tc < 2 ^ 32" "uval mc < 2 ^ 32"
    and c: "w ! ATTR_INTEGRATOR_FEE_COLLECTOR_INDEX = collector"
  shows "realises (circ_fold (check_integrator is_perps tc mc now) gs (sanitized, a))
    (\<not> b \<longrightarrow> (case first_approval collector (map (approval_of perps) gs) of None \<Rightarrow> True | Some g \<Rightarrow> approved_fees collector (uval now) g w))
    (\<lambda>(sanitized', a'). bval sanitized' (b \<or> first_approval collector (map (approval_of perps) gs) \<noteq> None) \<and>
      map uval (attr_values a') = (if \<not> b \<and> first_approval collector (map (approval_of perps) gs) \<noteq> None then capped (uval tc) (uval mc) w else w))"
  using assms(1-4) c
proof (induction gs arbitrary: sanitized b a w)
  case Nil
  then show ?case by (simp add: realises_return)
next
  case (Cons g gs)
  let ?hit = "approved_index (approval_of perps g) = collector \<and> \<not> b" and ?f = "first_approval collector (map (approval_of perps) gs)"
  let ?w = "if ?hit then capped (uval tc) (uval mc) w else w"
  have first: "realises (check_integrator is_perps tc mc now g (sanitized, a)) (?hit \<longrightarrow> approved_fees collector (uval now) (approval_of perps g) w)
    (\<lambda>(sanitized', a'). bval sanitized' (b \<or> ?hit) \<and> map uval (attr_values a') = ?w)"
    using realises_check_integrator [OF _ p Cons.prems(2,3) now caps, of g] Cons.prems(1) unfolding Cons.prems(4,5) by simp
  have rest: "realises (circ_fold (check_integrator is_perps tc mc now) gs st)
      (\<not> (b \<or> ?hit) \<longrightarrow> (case ?f of None \<Rightarrow> True | Some g \<Rightarrow> approved_fees collector (uval now) g ?w))
      (\<lambda>(sanitized', a'). bval sanitized' ((b \<or> ?hit) \<or> ?f \<noteq> None) \<and>
        map uval (attr_values a') = (if \<not> (b \<or> ?hit) \<and> ?f \<noteq> None then capped (uval tc) (uval mc) ?w else ?w))"
    if state: "case st of (sanitized', a') \<Rightarrow> bval sanitized' (b \<or> ?hit) \<and> map uval (attr_values a') = ?w" for st
  proof -
    obtain s' a' where st: "st = (s', a')" "bval s' (b \<or> ?hit)" "map uval (attr_values a') = ?w" using state by (cases st) simp
    have small: "fees_small (map uval (attr_values a'))" unfolding st(3) using Cons.prems(3,4) by (simp add: capped_simps)
    have ind: "?w ! ATTR_INTEGRATOR_FEE_COLLECTOR_INDEX = collector" using Cons.prems(5) by (simp add: capped_simps)
    show ?thesis unfolding st(1) by (rule Cons.IH [OF _ st(2) small st(3) ind]) (use Cons.prems(1) in simp)
  qed
  show ?case
    unfolding circ_fold.simps
    by (rule realises_weaken [OF realises_bind [OF first rest]]) (auto split: option.splits if_splits)
qed

lemma implements_market_is_empty: "implements (market_is_empty m) (\<lambda>r. bval r (uval (b_add_many
    [market_ask_nonce m, market_bid_nonce m, market_taker_fee m, market_maker_fee m, market_liquidation_fee m, min_base_amount m,
     min_quote_amount m, market_status m, order_quote_limit m, market_total_order_count m, market_type m, market_base_asset_id m,
     market_quote_asset_id m, size_extension_multiplier m, quote_extension_multiplier m]) = 0))"
  unfolding market_is_empty_def by (rule implements_is_zero)

text \<open>The fields of a market that tell it from no market; their sum does not wrap around.\<close>

definition market_fields :: "market_target \<Rightarrow> nat list" where
  "market_fields m = map uval [market_ask_nonce m, market_bid_nonce m, market_taker_fee m, market_maker_fee m, market_liquidation_fee m, min_base_amount m,
     min_quote_amount m, market_status m, order_quote_limit m, market_total_order_count m, market_type m, market_base_asset_id m,
     market_quote_asset_id m, size_extension_multiplier m, quote_extension_multiplier m]"

lemma implements_market_is_empty_exact:
  assumes "sum_list (market_fields m) < p_nat"
  shows "implements (market_is_empty m) (\<lambda>r. bval r (\<forall>x\<in>set (market_fields m). x = 0))"
proof (rule implements_weaken [OF implements_market_is_empty])
  let ?ts = "[market_ask_nonce m, market_bid_nonce m, market_taker_fee m, market_maker_fee m, market_liquidation_fee m, min_base_amount m,
     min_quote_amount m, market_status m, order_quote_limit m, market_total_order_count m, market_type m, market_base_asset_id m,
     market_quote_asset_id m, size_extension_multiplier m, quote_extension_multiplier m]"
  have "tval (b_add_many ?ts) = of_nat (sum_list (market_fields m))"
    unfolding market_fields_def by (simp add: tval_b_add_many)
  then have "uval (b_add_many ?ts) = sum_list (market_fields m)" using assms by (rule uval_of_nat)
  then show "bval r (\<forall>x\<in>set (market_fields m). x = 0)" if "bval r (uval (b_add_many ?ts) = 0)" for r
    using that by (simp only: sum_list_eq_0_iff)
qed

text \<open>The caps of the exchange for the kind of market.\<close>

definition fee_caps :: "bool \<Rightarrow> system_config \<Rightarrow> nat \<times> nat" where
  "fee_caps perps cfg = (if perps then (uval (max_integrator_perps_taker_fee cfg), uval (max_integrator_perps_maker_fee cfg))
    else (uval (max_integrator_spot_taker_fee cfg), uval (max_integrator_spot_maker_fee cfg)))"

definition caps_ok :: "system_config \<Rightarrow> bool" where
  "caps_ok cfg \<longleftrightarrow> uval (max_integrator_perps_taker_fee cfg) < 2 ^ 32 \<and> uval (max_integrator_perps_maker_fee cfg) < 2 ^ 32 \<and>
    uval (max_integrator_spot_taker_fee cfg) < 2 ^ 32 \<and> uval (max_integrator_spot_maker_fee cfg) < 2 ^ 32"

lemma values_ok_fees_small: "length w = 8 \<Longrightarrow> values_ok w \<Longrightarrow> fees_small w"
proof -
  assume len: "length w = 8" and w: "values_ok w"
  have "w ! 2 \<le> ATTR_MAX_VALUES ! 2" "w ! 3 \<le> ATTR_MAX_VALUES ! 3" using w by (simp_all add: values_ok_def attr_numbers)
  then show "fees_small w" using len by (simp add: fees_small_def attr_numbers ATTR_MAX_VALUES_def FEE_TICK_def)
qed

section \<open>Properties\<close>

text \<open>
  C37. Attributes: the pairs of types and values are accepted exactly when every type is known, an empty pair has no value,
  each type is greater than the one before it or empty, every value is within its bound, and fees and self-trade
  modes do not contradict each other; the attributes then are read from the array by type.
\<close>
theorem attributes_accepted:
  assumes "length (inner_types a) = 4" "length (inner_values a) = 4" "map uval (attr_values a) = ATTR_NIL_VALUES"
  shows "realises (prepare_attributes a) (attributes_ok (map uval (inner_types a)) (map uval (inner_values a)))
    (\<lambda>b. inner_types b = inner_types a \<and> inner_values b = inner_values a \<and>
      map uval (attr_values b) = attribute_array (map uval (inner_types a)) (map uval (inner_values a)))"
  using assms by (rule realises_prepare_attributes)

definition pairs :: "nat list \<Rightarrow> nat list \<Rightarrow> tx_attributes" where
  "pairs ts vs = \<lparr>inner_types = map (\<lambda>v. Const (of_nat v)) ts, inner_values = map (\<lambda>v. Const (of_nat v)) vs,
    attr_values = map (\<lambda>v. Const (of_nat v)) ATTR_NIL_VALUES\<rparr>"

lemma pairs_values:
  "map uval (map (\<lambda>v. Const (of_nat v)) ATTR_NIL_VALUES) = ATTR_NIL_VALUES"
  "list_all (\<lambda>v. v < 2 ^ 32) ns \<Longrightarrow> map uval (map (\<lambda>v. Const (of_nat v)) ns) = ns"
proof -
  assume small: "list_all (\<lambda>v. v < 2 ^ 32) ns"
  show "map uval (map (\<lambda>v. Const (of_nat v)) ns) = ns"
    unfolding map_map
  proof (rule map_idI)
    fix v assume "v \<in> set ns"
    then have "v < 2 ^ 32" using small by (auto simp: list_all_iff)
    then have "uval (Const (of_nat v)) = v" by (intro uval_of_nat) simp_all
    then show "(uval \<circ> (\<lambda>v. Const (of_nat v))) v = v" by simp
  qed
qed (simp add: ATTR_NIL_VALUES_def NIL_MARKET_INDEX_def)

lemma pairs_example:
  "attributes_ok [1, 2, 0, 0] [9, 5, 0, 0]" "\<not> attributes_ok [2, 1, 0, 0] [5, 9, 0, 0]" "attributes_ok [1, 2, 0, 2] [9, 5, 0, 7]"
  "attribute_array [1, 2, 0, 0] [9, 5, 0, 0] = [0, 9, 5, 0, 0, 255, 0, 0]" "attribute_array [1, 2, 0, 2] [9, 5, 0, 7] = [0, 9, 7, 0, 0, 255, 0, 0]"
proof -
  show arrays: "attribute_array [1, 2, 0, 0] [9, 5, 0, 0] = [0, 9, 5, 0, 0, 255, 0, 0]" "attribute_array [1, 2, 0, 2] [9, 5, 0, 7] = [0, 9, 7, 0, 0, 255, 0, 0]"
    by (simp_all add: attribute_array_def put_attribute_def ATTR_NIL_VALUES_def ATTR_NIL_def NIL_MARKET_INDEX_def)
  have four: "(\<forall>i<4. P i) \<longleftrightarrow> P 0 \<and> P 1 \<and> P 2 \<and> P (3::nat)" for P by (rule all_less_4)
  have seven: "{1..<8} = {1, 2, 3, 4, 5, 6, 7::nat}" by auto
  note unfold = attributes_ok_def values_ok_def modes_ok_def attribute_ok_def attr_numbers four seven ATTR_MAX_VALUES_def NIL_ACCOUNT_INDEX_def FEE_TICK_def
    NIL_MARKET_INDEX_def SELF_TRADE_BEHAVIOR_REDUCE_def SELF_TRADE_EQUALITY_MASTER_ACCOUNT_INDEX_def
  show "attributes_ok [1, 2, 0, 0] [9, 5, 0, 0]" "attributes_ok [1, 2, 0, 2] [9, 5, 0, 7]" by (simp_all add: unfold arrays del: One_nat_def)
  show "\<not> attributes_ok [2, 1, 0, 0] [5, 9, 0, 0]" by (simp add: unfold del: One_nat_def)
qed

lemma attributes_accepted_witness:
  "implements (prepare_attributes (pairs [1, 2, 0, 0] [9, 5, 0, 0])) (\<lambda>b. map uval (attr_values b) = [0, 9, 5, 0, 0, 255, 0, 0]) \<and>
    unsatisfiable (prepare_attributes (pairs [2, 1, 0, 0] [5, 9, 0, 0]))"
proof -
  have vals: "map uval (inner_types (pairs ts vs)) = ts" "map uval (inner_values (pairs ts vs)) = vs"
    if "list_all (\<lambda>v. v < 2 ^ 32) ts" "list_all (\<lambda>v. v < 2 ^ 32) vs" for ts vs
    using that pairs_values(2) unfolding pairs_def tx_attributes.simps by blast+
  have accepted: "realises (prepare_attributes (pairs ts vs)) (attributes_ok ts vs) (\<lambda>b. map uval (attr_values b) = attribute_array ts vs)"
    if "length ts = 4" "length vs = 4" "list_all (\<lambda>v. v < 2 ^ 32) ts" "list_all (\<lambda>v. v < 2 ^ 32) vs" for ts vs
    by (rule realises_weaken [OF attributes_accepted]) (use that vals pairs_values(1) in \<open>simp_all add: pairs_def\<close>)
  from realises_implements [OF accepted [of "[1, 2, 0, 0]" "[9, 5, 0, 0]"]] realises_unsatisfiable [OF accepted [of "[2, 1, 0, 0]" "[5, 9, 0, 0]"]]
  show ?thesis by (simp add: pairs_example del: One_nat_def)
qed

text \<open>
  C38. A type given twice: the order of the types is only checked against the pair before, and an empty pair between two
  others resets it, so an attribute can be sent twice, with two values. The later one counts.
\<close>
theorem attribute_sent_twice:
  "implements (prepare_attributes (pairs [1, 2, 0, 2] [9, 5, 0, 7])) (\<lambda>b. uval (get_attribute b ATTR_INTEGRATOR_TAKER_FEE) = 7)"
proof -
  have vals: "map uval (inner_types (pairs [1, 2, 0, 2] [9, 5, 0, 7])) = [1, 2, 0, 2]" "map uval (inner_values (pairs [1, 2, 0, 2] [9, 5, 0, 7])) = [9, 5, 0, 7]"
    by (simp_all add: pairs_def)
  have "implements (prepare_attributes (pairs [1, 2, 0, 2] [9, 5, 0, 7])) (\<lambda>b. map uval (attr_values b) = [0, 9, 7, 0, 0, 255, 0, 0])"
    using realises_implements [OF realises_prepare_attributes [of "pairs [1, 2, 0, 2] [9, 5, 0, 7]"]] pairs_values(1)
    unfolding vals pairs_example(5) using pairs_example(3) by (simp add: pairs_def implements_weaken)
  then show ?thesis
  proof (rule implements_weaken)
    fix b :: tx_attributes assume b: "map uval (attr_values b) = [0, 9, 7, 0, 0, 255, 0, 0]"
    have "length (attr_values b) = 8" using arg_cong [OF b, of length] unfolding length_map by simp
    then have "uval (attr_values b ! 2) = map uval (attr_values b) ! 2" by simp
    then show "uval (get_attribute b ATTR_INTEGRATOR_TAKER_FEE) = 7" by (simp add: b get_attribute_def attr_numbers)
  qed
qed

text \<open>
  C39. Fees of an integrator: in a market an order may name an integrator only if the account's first approval of it has not
  expired and allows both fees sent; the fees are then lowered to the caps of the exchange. Without an integrator
  nothing changes.
\<close>
theorem integrator_fees_capped:
  assumes "length approved = MAX_APPROVED_INTEGRATORS" "\<forall>g\<in>set approved. integrator_ok g" "fees_small (map uval (attr_values a))"
    and "uval now < 2 ^ TIMESTAMP_BITS" "caps_ok cfg" "sum_list (market_fields market) < p_nat"
    and w: "w = map uval (attr_values a)" and collector: "collector = w ! ATTR_INTEGRATOR_FEE_COLLECTOR_INDEX"
    and enabled: "enabled = (collector \<noteq> 0 \<and> \<not> (\<forall>x\<in>set (market_fields market). x = 0))"
    and perps: "perps = (uval (market_type market) = MARKET_TYPE_PERPS)"
    and caps: "(taker_cap, maker_cap) = fee_caps perps cfg"
  shows "realises (sanitize_and_normalize approved market cfg now a)
    (enabled \<longrightarrow> (\<exists>g. first_approval collector (map (approval_of perps) approved) = Some g \<and> approved_fees collector (uval now) g w))
    (\<lambda>b. map uval (attr_values b) = (if enabled then capped taker_cap maker_cap w else w))"
  unfolding sanitize_and_normalize_def Let_def
proof -
  have len: "length (attr_values a) = 8" using assms(3) by (simp add: fees_small_def)
  have nil: "ATTR_NIL_VALUES ! ATTR_INTEGRATOR_FEE_COLLECTOR_INDEX = 0" "ATTR_INTEGRATOR_FEE_COLLECTOR_INDEX < 8"
    by (simp_all add: attr_numbers ATTR_NIL_VALUES_def)
  have type: "MARKET_TYPE_PERPS < p_nat" by (simp add: MARKET_TYPE_PERPS_def)
  have all: "take MAX_APPROVED_INTEGRATORS approved = approved" using assms(1) by simp
  let ?f = "first_approval collector (map (approval_of perps) approved)"
  let ?tc = "\<lambda>p. select p (max_integrator_perps_taker_fee cfg) (max_integrator_spot_taker_fee cfg)"
  let ?mc = "\<lambda>p. select p (max_integrator_perps_maker_fee cfg) (max_integrator_spot_maker_fee cfg)"
  show "realises (circ_bind (is_nil_attribute a ATTR_INTEGRATOR_FEE_COLLECTOR_INDEX) (\<lambda>z. circ_bind (market_is_empty market) (\<lambda>e.
      circ_bind (is_equal_constant (market_type market) MARKET_TYPE_PERPS) (\<lambda>p.
      circ_bind (circ_fold (check_integrator p (?tc p) (?mc p) now) (take MAX_APPROVED_INTEGRATORS approved) (b_not (multi_and [b_not z, b_not e]), a)) (\<lambda>(s, a).
      circ_bind (conditional_assert_true (multi_and [b_not z, b_not e]) s) (\<lambda>_. circ_return a))))))
    (enabled \<longrightarrow> (\<exists>g. ?f = Some g \<and> approved_fees collector (uval now) g w))
    (\<lambda>b. map uval (attr_values b) = (if enabled then capped taker_cap maker_cap w else w))"
    unfolding all
  proof (rule realises_after [OF implements_is_nil_attribute [OF len nil(2,1)]], rule realises_after [OF implements_market_is_empty_exact [OF assms(6)]],
      rule realises_after [OF implements_is_equal_constant [OF type]])
    fix z e p assume "bval z (map uval (attr_values a) ! ATTR_INTEGRATOR_FEE_COLLECTOR_INDEX = 0)" "bval e (\<forall>x\<in>set (market_fields market). x = 0)"
    then have en: "bval (multi_and [b_not z, b_not e]) enabled"
      unfolding enabled collector w multi_and.simps foldl.simps by (intro bval_and bval_not)
    assume "bval p (uval (market_type market) = MARKET_TYPE_PERPS)"
    then have p: "bval p perps" unfolding perps .
    have tc: "uval (?tc p) = taker_cap" "uval (?mc p) = maker_cap" using caps by (auto simp: uval_select [OF p] fee_caps_def split: if_splits)
    have small: "uval (?tc p) < 2 ^ 32" "uval (?mc p) < 2 ^ 32" using assms(5) by (simp_all add: uval_select [OF p] caps_ok_def)
    note loop = realises_check_integrators [OF assms(2) bval_not [OF en] assms(3) w [symmetric] p assms(4) small collector [symmetric]]
    have "realises (circ_bind (circ_fold (check_integrator p (?tc p) (?mc p) now) approved (b_not (multi_and [b_not z, b_not e]), a)) (\<lambda>(s, a).
        circ_bind (conditional_assert_true (multi_and [b_not z, b_not e]) s) (\<lambda>_. circ_return a)))
      ((\<not> \<not> enabled \<longrightarrow> (case ?f of None \<Rightarrow> True | Some g \<Rightarrow> approved_fees collector (uval now) g w)) \<and> ((enabled \<longrightarrow> \<not> enabled \<or> ?f \<noteq> None)))
      (\<lambda>b. map uval (attr_values b) = (if \<not> \<not> enabled \<and> ?f \<noteq> None then capped taker_cap maker_cap w else w))"
      unfolding tc [symmetric]
      by (rule realises_bind [OF loop], unfold split_paired_all prod.case, elim conjE,
          rule realises_then_return [OF realises_conditional_assert_true [OF en]], assumption, assumption)
    then show "realises (circ_bind (circ_fold (check_integrator p (?tc p) (?mc p) now) approved (b_not (multi_and [b_not z, b_not e]), a)) (\<lambda>(s, a).
        circ_bind (conditional_assert_true (multi_and [b_not z, b_not e]) s) (\<lambda>_. circ_return a)))
      (enabled \<longrightarrow> (\<exists>g. ?f = Some g \<and> approved_fees collector (uval now) g w))
      (\<lambda>b. map uval (attr_values b) = (if enabled then capped taker_cap maker_cap w else w))"
      by (rule realises_weaken) (auto split: option.splits)
  qed
qed

definition example_approval :: approved_integrator where
  "example_approval = \<lparr>integrator_account_index = Const 9, max_perps_taker_fee = Const 50, max_perps_maker_fee = Const 0,
     max_spot_taker_fee = Const 50, max_spot_maker_fee = Const 0, integrator_expiry = Const 2000\<rparr>"

definition no_approval :: approved_integrator where
  "no_approval = \<lparr>integrator_account_index = Const 0, max_perps_taker_fee = Const 0, max_perps_maker_fee = Const 0,
     max_spot_taker_fee = Const 0, max_spot_maker_fee = Const 0, integrator_expiry = Const 0\<rparr>"

definition example_config :: system_config where
  "example_config = \<lparr>liquidity_pool_index = Const 0, staking_pool_index = Const 0, liquidity_pool_cooldown_period = Const 0,
     staking_pool_lockup_period = Const 0, max_integrator_spot_taker_fee = Const 30, max_integrator_spot_maker_fee = Const 10,
     max_integrator_perps_taker_fee = Const 30, max_integrator_perps_maker_fee = Const 10\<rparr>"

definition example_open_market :: market_target where
  "example_open_market = \<lparr>market_index = Const 0, market_status = Const 1, market_type = Const 0, market_base_asset_id = Const 1,
     market_quote_asset_id = Const 3, market_ask_nonce = Const 4, market_bid_nonce = Const 9, market_taker_fee = Const 0,
     market_maker_fee = Const 0, market_liquidation_fee = Const 0, size_extension_multiplier = Const 1,
     quote_extension_multiplier = Const 1, market_total_order_count = Const 0, min_base_amount = Const 0,
     min_quote_amount = Const 0, order_quote_limit = Const 0, order_book_root = [], perps_market_index = Const 0\<rparr>"

text \<open>A fee of 40, allowed by the approval of integrator 9, is lowered to 30.\<close>

lemma integrator_fees_capped_witness:
  "implements (sanitize_and_normalize [no_approval, example_approval, no_approval, no_approval] example_open_market example_config (Const 1000)
      ((pairs [] [])\<lparr>attr_values := map (\<lambda>v. Const (of_nat v)) [0, 9, 40, 0, 0, 255, 0, 0]\<rparr>))
    (\<lambda>b. map uval (attr_values b) = [0, 9, 30, 0, 0, 255, 0, 0])"
proof -
  let ?w = "[0, 9, 40, 0, 0, 255, 0, 0] :: nat list" and ?gs = "[no_approval, example_approval, no_approval, no_approval]"
  let ?a = "(pairs [] [])\<lparr>attr_values := map (\<lambda>v. Const (of_nat v)) ?w\<rparr>"
  have w: "?w = map uval (attr_values ?a)" using pairs_values(2) [of ?w] by simp
  have collector: "9 = ?w ! ATTR_INTEGRATOR_FEE_COLLECTOR_INDEX" by (simp add: attr_numbers)
  have fields: "market_fields example_open_market = [4, 9, 0, 0, 0, 0, 0, 1, 0, 0, 0, 1, 3, 1, 1]"
    by (simp add: market_fields_def example_open_market_def)
  have enabled: "True = (9 \<noteq> (0::nat) \<and> \<not> (\<forall>x\<in>set (market_fields example_open_market). x = 0))" by (simp add: fields)
  have perps: "True = (uval (market_type example_open_market) = MARKET_TYPE_PERPS)" by (simp add: example_open_market_def MARKET_TYPE_PERPS_def)
  have caps: "(30, 10) = fee_caps True example_config" by (simp add: fee_caps_def example_config_def)
  have small: "length ?gs = MAX_APPROVED_INTEGRATORS" "\<forall>g\<in>set ?gs. integrator_ok g" "fees_small (map uval (attr_values ?a))"
    "uval (Const 1000) < 2 ^ TIMESTAMP_BITS" "caps_ok example_config" "sum_list (market_fields example_open_market) < p_nat"
    unfolding w [symmetric]
    by (simp_all add: MAX_APPROVED_INTEGRATORS_def integrator_ok_def example_approval_def no_approval_def fees_small_def attr_numbers TIMESTAMP_BITS_def
      caps_ok_def example_config_def fields)
  have "first_approval 9 (map (approval_of True) ?gs) = Some (approval_of True example_approval)"
    by (simp add: approval_of_def no_approval_def example_approval_def)
  moreover have "approved_fees 9 (uval (Const 1000)) (approval_of True example_approval) ?w"
    by (simp add: approved_fees_def approval_of_def example_approval_def attr_numbers)
  moreover have "capped 30 10 ?w = [0, 9, 30, 0, 0, 255, 0, 0]" by (simp add: capped_def cap_at_def attr_numbers)
  ultimately show ?thesis
    using realises_implements [OF integrator_fees_capped [OF small w collector enabled perps caps]] by simp
qed

end
