(* ===== verification/Modify_Order.thy ===== *)
theory Modify_Order
  imports Tx_Attributes Match_Flags
begin

text \<open>
  The change of an open order by its owner (\<open>get_modified_order\<close> of \<open>transactions/l2_modify_order.rs\<close>): a new price, a
  new size and new attributes for an order of which a part may already have been matched.
\<close>

section \<open>The circuit\<close>

definition ORDER_SIZE_BITS :: nat where "ORDER_SIZE_BITS = ORDER_BASE_AMOUNT_BITS"
definition TRIGGER_STATUS_NA :: nat where "TRIGGER_STATUS_NA = 0"

record modify_order_tx =
  mo_account_index :: target
  mo_api_key_index :: target
  mo_index :: target
  mo_base_amount :: target
  mo_price :: target
  mo_market_index :: target
  mo_trigger_price :: target
  mo_success :: target
  mo_is_perps_market :: target

record modified_order =
  changed_order :: account_order
  is_in_progress_order :: target
  is_pending_order :: target
  is_filled_order :: target

text \<open>The fields the change copies: prices and attributes.\<close>

definition with_attributes :: "target \<Rightarrow> modify_order_tx \<Rightarrow> tx_attributes \<Rightarrow> account_order \<Rightarrow> account_order" where
  "with_attributes flag tx a ord =
    ord\<lparr>ao_price := mo_price tx, ao_trigger_price := mo_trigger_price tx,
      ao_integrator_fee_collector_index := select flag (get_attribute a ATTR_INTEGRATOR_FEE_COLLECTOR_INDEX) (ao_integrator_fee_collector_index ord),
      ao_integrator_taker_fee := select flag (get_attribute a ATTR_INTEGRATOR_TAKER_FEE) (ao_integrator_taker_fee ord),
      ao_integrator_maker_fee := select flag (get_attribute a ATTR_INTEGRATOR_MAKER_FEE) (ao_integrator_maker_fee ord),
      ao_order_flags := order_flags_to_target \<lparr>self_trade_behavior_mode = get_attribute a ATTR_SELF_TRADE_BEHAVIOR_MODE,
        self_trade_equality_mode = get_attribute a ATTR_SELF_TRADE_EQUALITY_MODE\<rparr>\<rparr>"

definition get_modified_order :: "modify_order_tx \<Rightarrow> target \<Rightarrow> tx_attributes \<Rightarrow> account_order \<Rightarrow> modified_order circ" where
  "get_modified_order tx is_enabled a ord =
    (let flag = is_enabled; changed = with_attributes flag tx a ord in
     circ_bind (is_not_equal (ao_trigger_status changed) (Const (of_nat TRIGGER_STATUS_NA))) (\<lambda>pending.
     let in_progress = b_not pending; matched_base_amount = b_sub (ao_initial_base_amount ord) (ao_remaining_base_amount ord) in
     circ_bind (is_zero (mo_base_amount tx)) (\<lambda>noop_flag.
     let flag = and_not flag noop_flag in
     circ_bind (is_lte (mo_base_amount tx) matched_base_amount ORDER_SIZE_BITS) (\<lambda>filled_flag.
     let filled_flag = b_and filled_flag flag;
         changed = changed\<lparr>ao_initial_base_amount := select filled_flag matched_base_amount (ao_initial_base_amount changed),
           ao_remaining_base_amount := select filled_flag (Const 0) (ao_remaining_base_amount changed)\<rparr>;
         pending = and_not pending filled_flag; in_progress = and_not in_progress filled_flag;
         filled = b_or filled_flag (Const 0); flag = and_not flag filled_flag;
         remaining_base_amount = b_sub (mo_base_amount tx) matched_base_amount;
         changed = changed\<lparr>ao_initial_base_amount := select flag (mo_base_amount tx) (ao_initial_base_amount changed),
           ao_remaining_base_amount := select flag remaining_base_amount (ao_remaining_base_amount changed)\<rparr> in
     circ_return \<lparr>changed_order = changed, is_in_progress_order = b_and in_progress is_enabled, is_pending_order = b_and pending is_enabled,
       is_filled_order = b_and filled is_enabled\<rparr>))))"

section \<open>Contracts\<close>

text \<open>The amounts of the order: total and remaining, after a new total of \<open>size\<close>; zero keeps them.\<close>

definition resized :: "nat \<Rightarrow> nat \<times> nat \<Rightarrow> nat \<times> nat" where
  "resized total_size = (\<lambda>(initial, remaining). let matched = initial - remaining in
    if total_size = 0 then (initial, remaining) else if total_size \<le> matched then (matched, 0) else (total_size, total_size - matched))"

definition amounts_of :: "account_order \<Rightarrow> nat \<times> nat" where
  "amounts_of ord = (uval (ao_initial_base_amount ord), uval (ao_remaining_base_amount ord))"

text \<open>Everything else of an order but its prices and attributes.\<close>

definition other_fields :: "account_order \<Rightarrow> target list" where
  "other_fields a = [ao_index_0 a, ao_index_1 a, ao_owner_account_index a, ao_order_index a, ao_client_order_index a, ao_nonce a, ao_is_ask a, ao_order_type a,
    ao_time_in_force a, ao_reduce_only a, ao_expiry a, ao_trigger_status a, ao_to_trigger_order_index0 a, ao_to_trigger_order_index1 a, ao_to_cancel_order_index0 a]"

lemma implements_get_modified_order:
  assumes en: "bval is_enabled en" and small: "uval (mo_base_amount tx) < 2 ^ ORDER_SIZE_BITS"
    and ord: "uval (ao_remaining_base_amount ord) \<le> uval (ao_initial_base_amount ord)" "uval (ao_initial_base_amount ord) < 2 ^ ORDER_SIZE_BITS"
  defines "B \<equiv> uval (mo_base_amount tx)" and "M \<equiv> uval (ao_initial_base_amount ord) - uval (ao_remaining_base_amount ord)"
    and "waiting \<equiv> uval (ao_trigger_status ord) \<noteq> TRIGGER_STATUS_NA"
  shows "implements (get_modified_order tx is_enabled a ord) (\<lambda>r.
    amounts_of (changed_order r) = (if en then resized B (amounts_of ord) else amounts_of ord) \<and> other_fields (changed_order r) = other_fields ord \<and>
    ao_price (changed_order r) = mo_price tx \<and> ao_trigger_price (changed_order r) = mo_trigger_price tx \<and>
    bval (is_filled_order r) (en \<and> B \<noteq> 0 \<and> B \<le> M) \<and> bval (is_pending_order r) (en \<and> waiting \<and> \<not> (B \<noteq> 0 \<and> B \<le> M)) \<and>
    bval (is_in_progress_order r) (en \<and> \<not> waiting \<and> \<not> (B \<noteq> 0 \<and> B \<le> M)))"
proof -
  let ?m = "b_sub (ao_initial_base_amount ord) (ao_remaining_base_amount ord)"
  have m: "uval ?m = M" unfolding M_def using uval_sub_small [of "ao_remaining_base_amount ord" "ao_initial_base_amount ord"] ord(1) by simp
  have bits: "ORDER_SIZE_BITS \<le> 64" by (simp add: ORDER_SIZE_BITS_def ORDER_BASE_AMOUNT_BITS_def)
  have le: "M < 2 ^ ORDER_SIZE_BITS" using ord(2) by (simp add: M_def)
  note lte = implements_is_lte [OF cmp_okI [OF bits small] cmp_okI [OF bits le [folded m]], unfolded m, folded B_def]
  have keep: "ao_trigger_status (with_attributes is_enabled tx a ord) = ao_trigger_status ord"
    "ao_initial_base_amount (with_attributes is_enabled tx a ord) = ao_initial_base_amount ord"
    "ao_remaining_base_amount (with_attributes is_enabled tx a ord) = ao_remaining_base_amount ord"
    by (simp_all add: with_attributes_def)
  have status: "tval (ao_trigger_status ord) \<noteq> tval (Const (of_nat TRIGGER_STATUS_NA)) \<longleftrightarrow> waiting"
    by (simp add: waiting_def TRIGGER_STATUS_NA_def)
  show ?thesis
    unfolding get_modified_order_def Let_def keep
  proof (rule implements_bind [OF implements_is_not_equal], rule implements_bind [OF implements_is_zero], rule implements_bind [OF lte], rule implements_return, goal_cases)
    case (1 pending noop filled)
    note pending = 1(1) [unfolded status] and noop = 1(2) [folded B_def] and filled = 1(3)
    note flag = bval_and_not [OF en noop] note fill = bval_and [OF filled flag] note open_flag = bval_and_not [OF flag fill]
    have rest: "uval (b_sub (mo_base_amount tx) ?m) = B - M" if "M \<le> B"
      using uval_sub_small [of ?m "mo_base_amount tx"] that m by (simp add: B_def)
    have filled': "bval (b_and (b_or (b_and filled (and_not is_enabled noop)) (Const 0)) is_enabled) (en \<and> B \<noteq> 0 \<and> B \<le> M)"
      by (rule bval_eq [OF bval_and [OF bval_or [OF fill bval_Const(2)] en]]) auto
    have pending': "bval (b_and (and_not pending (b_and filled (and_not is_enabled noop))) is_enabled) (en \<and> waiting \<and> \<not> (B \<noteq> 0 \<and> B \<le> M))"
      by (rule bval_eq [OF bval_and [OF bval_and_not [OF pending fill] en]]) auto
    have progress: "bval (b_and (and_not (b_not pending) (b_and filled (and_not is_enabled noop))) is_enabled) (en \<and> \<not> waiting \<and> \<not> (B \<noteq> 0 \<and> B \<le> M))"
      by (rule bval_eq [OF bval_and [OF bval_and_not [OF bval_not [OF pending] fill] en]]) auto
    show ?case
      using filled' pending' progress rest
      by (cases "en"; cases "B = 0"; cases "B \<le> M")
        (simp_all add: keep amounts_of_def resized_def Let_def uval_select [OF fill] uval_select [OF open_flag] m other_fields_def with_attributes_def
          M_def [symmetric] B_def [symmetric])
  qed
qed

section \<open>Properties\<close>

text \<open>
  C40. A change of an order: size zero leaves the amounts, a size not above what was matched closes the order as filled
  with the matched amount, and a larger size leaves the difference open, so what was matched is never lost; exactly one of
  the three states of the order is reported, and nothing but prices, amounts and attributes changes.
\<close>
theorem modified_order_keeps_matched:
  assumes "bval is_enabled True" "uval (mo_base_amount tx) < 2 ^ ORDER_SIZE_BITS"
    and "uval (ao_remaining_base_amount ord) \<le> uval (ao_initial_base_amount ord)" "uval (ao_initial_base_amount ord) < 2 ^ ORDER_SIZE_BITS"
    and M: "M = uval (ao_initial_base_amount ord) - uval (ao_remaining_base_amount ord)" and B: "B = uval (mo_base_amount tx)"
  shows "implements (get_modified_order tx is_enabled a ord) (\<lambda>r. \<exists>filled pending progress.
    bval (is_filled_order r) filled \<and> bval (is_pending_order r) pending \<and> bval (is_in_progress_order r) progress \<and>
    filled = (B \<noteq> 0 \<and> B \<le> M) \<and> of_bool filled + of_bool pending + of_bool progress = (1::nat) \<and>
    amounts_of (changed_order r) = resized B (amounts_of ord) \<and> fst (amounts_of (changed_order r)) = snd (amounts_of (changed_order r)) + M \<and>
    other_fields (changed_order r) = other_fields ord)"
proof (rule implements_weaken [OF implements_get_modified_order [OF assms(1-4)]], elim conjE, intro exI conjI, assumption, assumption, assumption)
  fix r
  assume amounts: "amounts_of (changed_order r) = (if True then resized (uval (mo_base_amount tx)) (amounts_of ord) else amounts_of ord)"
  then show eq: "amounts_of (changed_order r) = resized B (amounts_of ord)" by (simp add: B)
  have "amounts_of ord = (uval (ao_initial_base_amount ord), uval (ao_remaining_base_amount ord))" by (simp add: amounts_of_def)
  then show "fst (amounts_of (changed_order r)) = snd (amounts_of (changed_order r)) + M"
    unfolding eq using assms(3) M by (auto simp: resized_def Let_def)
qed (auto simp: M B)

definition example_change :: modify_order_tx where
  "example_change = \<lparr>mo_account_index = Const 77, mo_api_key_index = Const 0, mo_index = Const 9, mo_base_amount = Wire 30, mo_price = Wire 3100,
     mo_market_index = Const 1, mo_trigger_price = Const 0, mo_success = Const 1, mo_is_perps_market = Const 1\<rparr>"

text \<open>Of 40 units 15 were matched; a new size of 30 leaves 15 open.\<close>

lemma modified_order_keeps_matched_witness:
  "implements (get_modified_order example_change (Const 1) (pairs [] []) (example_order 12 50 0)) (\<lambda>r. amounts_of (changed_order r) = (30, 15))"
proof -
  have small: "uval (mo_base_amount example_change) < 2 ^ ORDER_SIZE_BITS" "uval (ao_remaining_base_amount (example_order 12 50 0)) \<le> uval (ao_initial_base_amount (example_order 12 50 0))"
    "uval (ao_initial_base_amount (example_order 12 50 0)) < 2 ^ ORDER_SIZE_BITS"
    by (simp_all add: example_change_def example_order_def ORDER_SIZE_BITS_def ORDER_BASE_AMOUNT_BITS_def)
  have eq: "resized 30 (amounts_of (example_order 12 50 0)) = (30, 15)" by (simp add: resized_def amounts_of_def example_order_def)
  have "uval (mo_base_amount example_change) = 30" by (simp add: example_change_def)
  note size = this
  show ?thesis
    by (rule implements_weaken [OF modified_order_keeps_matched [OF bval_Const(1) small refl refl]], unfold size eq, elim exE conjE)
qed

end
