(* ===== verification/Order_Locks.thy ===== *)
theory Order_Locks
  imports Account_Order Spot_Trade
begin

text \<open>
  The assets of an account (\<open>types/account_asset.rs\<close>) and the amounts that open spot orders lock in them
  (\<open>get_locked_amount_and_ask_asset_index\<close>, \<open>increment_locked_balance_for_order\<close> and the two decrements of
  \<open>matching_engine.rs\<close>). The abstract state of an asset is its index, its balance and its locked part; an order locks
  what it may have to pay in the first asset with the index of the currency it pays in.
\<close>

section \<open>The circuit\<close>

definition NB_ASSETS_PER_TX :: nat where "NB_ASSETS_PER_TX = 2"

record account_asset =
  asset_index_0 :: target
  asset_balance :: biguint
  locked_balance :: biguint

definition get_available_balance :: "account_asset \<Rightarrow> biguint circ" where
  "get_available_balance a =
    circ_bind (try_sub_biguint (asset_balance a) (locked_balance a)) (\<lambda>(available_balance, borrow).
    circ_bind (is_zero_u32 borrow) (\<lambda>is_borrow_zero.
    circ_return (mul_biguint_by_bool available_balance is_borrow_zero)))"

definition asset_is_empty :: "account_asset \<Rightarrow> target circ" where
  "asset_is_empty a = is_zero (b_add_many (asset_balance a @ locked_balance a))"

definition asset_hash :: "permutation \<Rightarrow> account_asset \<Rightarrow> hash_out_target circ" where
  "asset_hash perm a =
    circ_bind (hash_n_to_hash_no_pad perm (pad_to BIG_U96_LIMBS (asset_balance a) @ pad_to BIG_U96_LIMBS (locked_balance a))) (\<lambda>non_empty_hash.
    circ_bind (asset_is_empty a) (\<lambda>is_empty.
    circ_return (select_hash is_empty zero_hash_out non_empty_hash)))"

definition diff_account_asset :: "account_asset \<Rightarrow> account_asset \<Rightarrow> account_asset" where
  "diff_account_asset new old =
    \<lparr>asset_index_0 = asset_index_0 old, asset_balance = biguint_vector_diff (asset_balance new) (asset_balance old),
     locked_balance = biguint_vector_diff (locked_balance new) (locked_balance old)\<rparr>"

definition apply_diff_account_asset :: "target \<Rightarrow> account_asset \<Rightarrow> account_asset \<Rightarrow> account_asset" where
  "apply_diff_account_asset flag d old =
    \<lparr>asset_index_0 = asset_index_0 old, asset_balance = biguint_vector_sum flag (asset_balance d) (asset_balance old),
     locked_balance = biguint_vector_sum flag (locked_balance d) (locked_balance old)\<rparr>"

definition select_account_asset_target :: "target \<Rightarrow> account_asset \<Rightarrow> account_asset \<Rightarrow> account_asset" where
  "select_account_asset_target flag a b =
    \<lparr>asset_index_0 = select flag (asset_index_0 a) (asset_index_0 b), asset_balance = select_biguint flag (asset_balance a) (asset_balance b),
     locked_balance = select_biguint flag (locked_balance a) (locked_balance b)\<rparr>"

definition get_locked_amount_and_ask_asset_index ::
  "target \<Rightarrow> market_target \<Rightarrow> target \<Rightarrow> target \<Rightarrow> target \<Rightarrow> (biguint \<times> target) circ" where
  "get_locked_amount_and_ask_asset_index is_enabled market base_amount price is_ask =
    circ_bind (target_to_biguint (size_extension_multiplier market)) (\<lambda>ask_multiplier.
    circ_bind (target_to_biguint (quote_extension_multiplier market)) (\<lambda>quote_extension_multiplier_big.
    circ_bind (mul_biguint (target_to_biguint_single_limb_unsafe price) quote_extension_multiplier_big) (\<lambda>bid_multiplier.
    let multiplier = select_biguint is_ask ask_multiplier bid_multiplier in
    circ_bind (target_to_biguint base_amount) (\<lambda>base_amount_big.
    circ_bind (mul_biguint base_amount_big multiplier) (\<lambda>locked_amount.
    circ_bind (try_trim_biguint locked_amount BIG_U96_LIMBS) (\<lambda>(success, locked_amount).
    circ_bind (conditional_assert_true is_enabled success) (\<lambda>_.
    circ_return (locked_amount, select is_ask (market_base_asset_id market) (market_quote_asset_id market)))))))))"

text \<open>The loops over the assets: a pass returns the asset and whether the asset looked for was found so far.\<close>

primrec asset_loop :: "(account_asset \<Rightarrow> target \<Rightarrow> (account_asset \<times> target) circ) \<Rightarrow> account_asset list \<Rightarrow> target \<Rightarrow> (account_asset list \<times> target) circ" where
  "asset_loop step [] found = circ_return ([], found)"
| "asset_loop step (a # assets) found =
    circ_bind (step a found) (\<lambda>(a, found).
    circ_bind (asset_loop step assets found) (\<lambda>(assets, found).
    circ_return (a # assets, found)))"

definition lock_step :: "target \<Rightarrow> target \<Rightarrow> biguint \<Rightarrow> account_asset \<Rightarrow> target \<Rightarrow> (account_asset \<times> target) circ" where
  "lock_step is_enabled ask_asset_index locked_amount asset asset_found =
    circ_bind (add_biguint (locked_balance asset) locked_amount) (\<lambda>new_locked_balance.
    circ_bind (try_trim_biguint new_locked_balance BIG_U96_LIMBS) (\<lambda>(success, new_locked_balance).
    circ_bind (is_equal (asset_index_0 asset) ask_asset_index) (\<lambda>is_asset_matched.
    let flag = and_not (b_and is_enabled is_asset_matched) asset_found; asset_found = b_or asset_found is_asset_matched in
    circ_bind (conditional_assert_true flag success) (\<lambda>_.
    circ_return (asset\<lparr>locked_balance := select_biguint flag new_locked_balance (locked_balance asset)\<rparr>, asset_found)))))"

definition unlock_step :: "target \<Rightarrow> target \<Rightarrow> biguint \<Rightarrow> account_asset \<Rightarrow> target \<Rightarrow> (account_asset \<times> target) circ" where
  "unlock_step is_enabled ask_asset_index locked_amount asset asset_found =
    circ_bind (try_sub_biguint (locked_balance asset) locked_amount) (\<lambda>(new_locked_balance, fail).
    circ_bind (is_equal (asset_index_0 asset) ask_asset_index) (\<lambda>is_asset_matched.
    let flag = and_not (b_and is_enabled is_asset_matched) asset_found; asset_found = b_or asset_found is_asset_matched in
    circ_bind (conditional_assert_zero_u32 flag fail) (\<lambda>_.
    circ_return (asset\<lparr>locked_balance := select_biguint flag new_locked_balance (locked_balance asset)\<rparr>, asset_found))))"

definition increment_locked_balance_for_order ::
  "target \<Rightarrow> account_order \<Rightarrow> market_target \<Rightarrow> account_asset list \<Rightarrow> account_asset list circ" where
  "increment_locked_balance_for_order is_enabled ord market assets =
    circ_bind (get_locked_amount_and_ask_asset_index is_enabled market (ao_remaining_base_amount ord) (ao_price ord) (ao_is_ask ord))
      (\<lambda>(locked_amount, ask_asset_index).
    circ_bind (asset_loop (lock_step is_enabled ask_asset_index locked_amount) assets (Const 0)) (\<lambda>(assets, asset_found).
    circ_bind (conditional_assert_true is_enabled asset_found) (\<lambda>_.
    circ_return assets)))"

definition decrement_locked_balance_for_partial_order ::
  "target \<Rightarrow> market_target \<Rightarrow> target \<Rightarrow> target \<Rightarrow> target \<Rightarrow> account_asset list \<Rightarrow> account_asset list circ" where
  "decrement_locked_balance_for_partial_order is_enabled market is_ask base_amount price assets =
    circ_bind (get_locked_amount_and_ask_asset_index is_enabled market base_amount price is_ask) (\<lambda>(locked_amount, ask_asset_index).
    circ_bind (asset_loop (unlock_step is_enabled ask_asset_index locked_amount) assets (Const 0)) (\<lambda>(assets, asset_found).
    circ_bind (conditional_assert_true is_enabled asset_found) (\<lambda>_.
    circ_return assets)))"

definition decrement_locked_balance_for_order ::
  "target \<Rightarrow> account_order \<Rightarrow> market_target \<Rightarrow> account_asset list \<Rightarrow> account_asset list circ" where
  "decrement_locked_balance_for_order is_enabled ord market assets =
    circ_bind (get_locked_amount_and_ask_asset_index is_enabled market (ao_remaining_base_amount ord) (ao_price ord) (ao_is_ask ord))
      (\<lambda>(locked_amount, ask_asset_index).
    circ_bind (asset_loop (unlock_step is_enabled ask_asset_index locked_amount) assets (Const 0)) (\<lambda>(assets, asset_found).
    circ_bind (conditional_assert_true is_enabled asset_found) (\<lambda>_.
    circ_return assets)))"

section \<open>Abstract assets\<close>

text \<open>Index, balance, locked part.\<close>

type_synonym asset_state = "nat \<times> nat \<times> nat"

definition asset_is :: "account_asset \<Rightarrow> asset_state \<Rightarrow> bool" where
  "asset_is a = (\<lambda>(i, b, l). uval (asset_index_0 a) = i \<and> big (asset_balance a) BIG_U96_LIMBS b \<and> big (locked_balance a) BIG_U96_LIMBS l)"

text \<open>The locked part of the first asset with index \<open>k\<close> is replaced.\<close>

fun change_locked :: "nat \<Rightarrow> (nat \<Rightarrow> nat) \<Rightarrow> asset_state list \<Rightarrow> asset_state list" where
  "change_locked k f [] = []"
| "change_locked k f ((i, b, l) # xs) = (if i = k then (i, b, f l) # xs else (i, b, l) # change_locked k f xs)"

fun locked_of :: "nat \<Rightarrow> asset_state list \<Rightarrow> nat option" where
  "locked_of k [] = None"
| "locked_of k ((i, b, l) # xs) = (if i = k then Some l else locked_of k xs)"

lemma locked_of_change: "locked_of k (change_locked k f xs) = map_option f (locked_of k xs)"
  by (induction k xs rule: locked_of.induct) auto

lemma change_locked_twice: "change_locked k g (change_locked k f xs) = change_locked k (g \<circ> f) xs"
  by (induction k f xs rule: change_locked.induct) auto

lemma change_locked_id: "locked_of k xs = Some l \<Longrightarrow> f l = l \<Longrightarrow> change_locked k f xs = xs"
  by (induction k xs rule: locked_of.induct) (auto split: if_splits)

lemma change_locked_split:
  "locked_of k xs = Some l \<Longrightarrow> \<exists>us b vs. xs = us @ (k, b, l) # vs \<and> k \<notin> fst ` set us \<and> change_locked k f xs = us @ (k, b, f l) # vs"
proof (induction k xs rule: locked_of.induct)
  case (2 k i b l' xs)
  show ?case
  proof (cases "i = k")
    case True
    then have "(i, b, l') # xs = [] @ (k, b, l) # xs \<and> k \<notin> fst ` set [] \<and> change_locked k f ((i, b, l') # xs) = [] @ (k, b, f l) # xs"
      using "2.prems" by simp
    then show ?thesis by blast
  next
    case False
    then obtain us b' vs where "xs = us @ (k, b', l) # vs" "k \<notin> fst ` set us" "change_locked k f xs = us @ (k, b', f l) # vs"
      using "2.IH" "2.prems" by auto
    then have "(i, b, l') # xs = ((i, b, l') # us) @ (k, b', l) # vs \<and> k \<notin> fst ` set ((i, b, l') # us) \<and>
        change_locked k f ((i, b, l') # xs) = ((i, b, l') # us) @ (k, b', f l) # vs" using False by auto
    then show ?thesis by blast
  qed
qed simp

section \<open>The interface of a change\<close>

text \<open>
  A step of either loop changes the locked part of an asset by the locked amount: \<open>update A l\<close> is the new value, \<open>fits A l\<close>
  the condition it asserts.
\<close>

locale locked_change =
  fixes step :: "target \<Rightarrow> target \<Rightarrow> biguint \<Rightarrow> account_asset \<Rightarrow> target \<Rightarrow> (account_asset \<times> target) circ"
    and update :: "nat \<Rightarrow> nat \<Rightarrow> nat" and fits :: "nat \<Rightarrow> nat \<Rightarrow> bool"
  assumes step_changes: "bval e en \<Longrightarrow> big amt BIG_U96_LIMBS A \<Longrightarrow> asset_is a (i, b, l) \<Longrightarrow> bval found f \<Longrightarrow>
    realises (step e ask amt a found) (en \<and> i = uval ask \<and> \<not> f \<longrightarrow> fits A l)
      (\<lambda>(a', found'). asset_is a' (i, b, if en \<and> i = uval ask \<and> \<not> f then update A l else l) \<and> bval found' (f \<or> i = uval ask))"
begin

lemma loop_changes:
  assumes "bval e en" "big amt BIG_U96_LIMBS A" "list_all2 asset_is assets xs" "bval found f"
  shows "realises (asset_loop (step e ask amt) assets found)
    (en \<and> \<not> f \<longrightarrow> (case locked_of (uval ask) xs of None \<Rightarrow> True | Some l \<Rightarrow> fits A l))
    (\<lambda>(assets', found'). list_all2 asset_is assets' (if en \<and> \<not> f then change_locked (uval ask) (update A) xs else xs) \<and>
      bval found' (f \<or> locked_of (uval ask) xs \<noteq> None))"
  using assms(3,4)
proof (induction assets xs arbitrary: found f rule: list_all2_induct)
  case Nil
  then show ?case by (simp add: realises_return)
next
  case (Cons a assets x xs)
  obtain i b l where x: "x = (i, b, l)" by (cases x)
  let ?hit = "en \<and> i = uval ask \<and> \<not> f" and ?f = "f \<or> i = uval ask"
  have first: "realises (step e ask amt a found) (?hit \<longrightarrow> fits A l)
      (\<lambda>(a', found'). asset_is a' (i, b, if ?hit then update A l else l) \<and> bval found' ?f)"
    by (rule step_changes [OF assms(1,2) Cons.hyps(1) [unfolded x] Cons.prems])
  let ?P = "en \<and> \<not> ?f \<longrightarrow> (case locked_of (uval ask) xs of None \<Rightarrow> True | Some l \<Rightarrow> fits A l)"
  let ?Q = "\<lambda>(assets', found'). list_all2 asset_is assets' ((i, b, if ?hit then update A l else l) # (if en \<and> \<not> ?f then change_locked (uval ask) (update A) xs else xs)) \<and>
      bval found' (?f \<or> locked_of (uval ask) xs \<noteq> None)"
  have rest: "realises (case st of (a', found') \<Rightarrow> circ_bind (asset_loop (step e ask amt) assets found') (\<lambda>(assets, found). circ_return (a' # assets, found))) ?P ?Q"
    if state: "case st of (a', found') \<Rightarrow> asset_is a' (i, b, if ?hit then update A l else l) \<and> bval found' ?f" for st
  proof -
    obtain a' found' where st: "st = (a', found')" "asset_is a' (i, b, if ?hit then update A l else l)" "bval found' ?f" using state by (cases st) simp
    have "realises (circ_bind (asset_loop (step e ask amt) assets found') (\<lambda>(assets, found). circ_return (a' # assets, found))) (?P \<and> True) ?Q"
      by (rule realises_bind [OF Cons.IH [OF st(3)]], unfold split_paired_all prod.case, rule realises_return) (use st(2) in simp)
    then show ?thesis unfolding st(1) by (simp only: prod.case simp_thms)
  qed
  show ?case
    unfolding asset_loop.simps x
    by (rule realises_weaken [OF realises_bind [OF first rest]]) (auto split: option.splits)
qed

end

lemma asset_isD:
  assumes "asset_is a (i, b, l)"
  shows "uval (asset_index_0 a) = i" "big (asset_balance a) 3 b" "big (locked_balance a) 3 l"
  using assms by (simp_all add: asset_is_def BIG_U96_LIMBS_def)

lemma asset_is_update: "asset_is a (i, b, l) \<Longrightarrow> big new 3 l' \<Longrightarrow> asset_is (a\<lparr>locked_balance := new\<rparr>) (i, b, l')"
  by (simp add: asset_is_def BIG_U96_LIMBS_def)

lemma bigD3: "big a 3 v \<Longrightarrow> limbs_ok a" "big a 3 v \<Longrightarrow> length a = 3" "big a 3 v \<Longrightarrow> bnat a = v"
  by (simp_all add: big_def)

lemma asset_select:
  assumes "bval c e" "big x 3 v" "big y 3 w"
  shows "big (select_biguint c x y) 3 (if e then v else w)"
  using select_biguint_big [OF assms(1) bigD3(1) [OF assms(2)] bigD3(1) [OF assms(3)]] bigD3(2,3) [OF assms(2)] bigD3(2,3) [OF assms(3)] by (cases e) simp_all

lemma index_matched: "tval (asset_index_0 a) = tval ask \<longleftrightarrow> uval (asset_index_0 a) = uval ask"
  by (simp add: to_canonical_inject)

lemma lock_flag:
  assumes "bval e en" "bval found f" "bval z (i = k)"
  shows "bval (and_not (b_and e z) found) (en \<and> i = k \<and> \<not> f)" "bval (b_or found z) (f \<or> i = k)"
  using bval_and_not [OF bval_and [OF assms(1,3)] assms(2)] bval_or [OF assms(2,3)] by simp_all

lemma realises_lock_step:
  assumes "bval e en" "big amt BIG_U96_LIMBS A" "asset_is a (i, b, l)" "bval found f"
  shows "realises (lock_step e ask amt a found) (en \<and> i = uval ask \<and> \<not> f \<longrightarrow> l + A < 2 ^ 96)
    (\<lambda>(a', found'). asset_is a' (i, b, if en \<and> i = uval ask \<and> \<not> f then l + A else l) \<and> bval found' (f \<or> i = uval ask))"
  unfolding lock_step_def Let_def
proof -
  note l = asset_isD(3) [OF assms(3)] and A = assms(2) [unfolded BIG_U96_LIMBS_def]
  let ?hit = "en \<and> i = uval ask \<and> \<not> f"
  have add: "implements (add_biguint (locked_balance a) amt) (\<lambda>r. big r 4 (l + A))"
    using implements_add_biguint [OF bigD3(1) [OF l] bigD3(1) [OF A]] bigD3(2,3) [OF l] bigD3(2,3) [OF A] by simp
  have trim: "implements (try_trim_biguint r BIG_U96_LIMBS) (\<lambda>(success, r). bval success (l + A < 2 ^ 96) \<and> big r 3 ((l + A) mod 2 ^ 96))"
    if "big r 4 (l + A)" for r
    using implements_try_trim_biguint [of r 3] that by (simp add: big_def BIG_U96_LIMBS_def)
  have match: "implements (is_equal (asset_index_0 a) ask) (\<lambda>z. bval z (i = uval ask))"
    using implements_is_equal [of "asset_index_0 a" ask] unfolding index_matched asset_isD(1) [OF assms(3)] .
  show "realises (circ_bind (add_biguint (locked_balance a) amt) (\<lambda>new. circ_bind (try_trim_biguint new BIG_U96_LIMBS) (\<lambda>(success, new).
      circ_bind (is_equal (asset_index_0 a) ask) (\<lambda>z. circ_bind (conditional_assert_true (and_not (b_and e z) found) success) (\<lambda>_.
      circ_return (a\<lparr>locked_balance := select_biguint (and_not (b_and e z) found) new (locked_balance a)\<rparr>, b_or found z))))))
    (?hit \<longrightarrow> l + A < 2 ^ 96) (\<lambda>(a', found'). asset_is a' (i, b, if ?hit then l + A else l) \<and> bval found' (f \<or> i = uval ask))"
  proof (rule realises_after [OF add], rule realises_after [OF trim], assumption, unfold split_paired_all prod.case, elim conjE, rule realises_after [OF match])
    fix success new z
    assume new: "big new 3 ((l + A) mod 2 ^ 96)" and z: "bval z (i = uval ask)" and s: "bval success (l + A < 2 ^ 96)"
    note flag = lock_flag [OF assms(1,4) z]
    show "realises (circ_bind (conditional_assert_true (and_not (b_and e z) found) success) (\<lambda>_.
        circ_return (a\<lparr>locked_balance := select_biguint (and_not (b_and e z) found) new (locked_balance a)\<rparr>, b_or found z)))
      (?hit \<longrightarrow> l + A < 2 ^ 96) (\<lambda>(a', found'). asset_is a' (i, b, if ?hit then l + A else l) \<and> bval found' (f \<or> i = uval ask))"
    proof (rule realises_then_return [OF realises_conditional_assert_true [OF flag(1) s]], unfold prod.case)
      assume fits: "?hit \<longrightarrow> l + A < 2 ^ 96"
      have "big (select_biguint (and_not (b_and e z) found) new (locked_balance a)) 3 (if ?hit then l + A else l)"
        using asset_select [OF flag(1) new l] fits by (cases ?hit) auto
      from asset_is_update [OF assms(3) this] flag(2)
      show "asset_is (a\<lparr>locked_balance := select_biguint (and_not (b_and e z) found) new (locked_balance a)\<rparr>) (i, b, if ?hit then l + A else l) \<and>
        bval (b_or found z) (f \<or> i = uval ask)" ..
    qed
  qed
qed

lemma realises_unlock_step:
  assumes "bval e en" "big amt BIG_U96_LIMBS A" "asset_is a (i, b, l)" "bval found f"
  shows "realises (unlock_step e ask amt a found) (en \<and> i = uval ask \<and> \<not> f \<longrightarrow> A \<le> l)
    (\<lambda>(a', found'). asset_is a' (i, b, if en \<and> i = uval ask \<and> \<not> f then l - A else l) \<and> bval found' (f \<or> i = uval ask))"
  unfolding unlock_step_def Let_def
proof -
  note l = asset_isD(3) [OF assms(3)] and A = assms(2) [unfolded BIG_U96_LIMBS_def]
  let ?hit = "en \<and> i = uval ask \<and> \<not> f"
  have sub: "implements (try_sub_biguint (locked_balance a) amt) (\<lambda>(r, borrow). bval borrow (l < A) \<and> big r 3 (l + 2 ^ 96 * of_bool (l < A) - A))"
    using implements_try_sub_biguint [OF bigD3(1) [OF l] bigD3(1) [OF A]] bigD3(2,3) [OF l] bigD3(2,3) [OF A] by simp
  have match: "implements (is_equal (asset_index_0 a) ask) (\<lambda>z. bval z (i = uval ask))"
    using implements_is_equal [of "asset_index_0 a" ask] unfolding index_matched asset_isD(1) [OF assms(3)] .
  show "realises (circ_bind (try_sub_biguint (locked_balance a) amt) (\<lambda>(new, fail).
      circ_bind (is_equal (asset_index_0 a) ask) (\<lambda>z. circ_bind (conditional_assert_zero_u32 (and_not (b_and e z) found) fail) (\<lambda>_.
      circ_return (a\<lparr>locked_balance := select_biguint (and_not (b_and e z) found) new (locked_balance a)\<rparr>, b_or found z)))))
    (?hit \<longrightarrow> A \<le> l) (\<lambda>(a', found'). asset_is a' (i, b, if ?hit then l - A else l) \<and> bval found' (f \<or> i = uval ask))"
  proof (rule realises_after [OF sub], unfold split_paired_all prod.case, elim conjE, rule realises_after [OF match])
    fix new borrow z
    assume borrow: "bval borrow (l < A)" and new: "big new 3 (l + 2 ^ 96 * of_bool (l < A) - A)" and z: "bval z (i = uval ask)"
    note flag = lock_flag [OF assms(1,4) z]
    have zero: "uval borrow = 0 \<longleftrightarrow> A \<le> l" using borrow by (auto simp: uval_bval)
    show "realises (circ_bind (conditional_assert_zero_u32 (and_not (b_and e z) found) borrow) (\<lambda>_.
        circ_return (a\<lparr>locked_balance := select_biguint (and_not (b_and e z) found) new (locked_balance a)\<rparr>, b_or found z)))
      (?hit \<longrightarrow> A \<le> l) (\<lambda>(a', found'). asset_is a' (i, b, if ?hit then l - A else l) \<and> bval found' (f \<or> i = uval ask))"
      unfolding zero [symmetric]
    proof (rule realises_then_return [OF realises_conditional_assert_zero_u32 [OF flag(1)]], unfold zero prod.case)
      assume fits: "?hit \<longrightarrow> A \<le> l"
      have "big (select_biguint (and_not (b_and e z) found) new (locked_balance a)) 3 (if ?hit then l - A else l)"
        using asset_select [OF flag(1) new l] fits by (auto split: if_splits)
      from asset_is_update [OF assms(3) this] flag(2)
      show "asset_is (a\<lparr>locked_balance := select_biguint (and_not (b_and e z) found) new (locked_balance a)\<rparr>) (i, b, if ?hit then l - A else l) \<and>
        bval (b_or found z) (f \<or> i = uval ask)" ..
    qed
  qed
qed

interpretation lock: locked_change lock_step "\<lambda>A l. l + A" "\<lambda>A l. l + A < 2 ^ 96"
  by unfold_locales (rule realises_lock_step)

interpretation unlock: locked_change unlock_step "\<lambda>A l. l - A" "\<lambda>A l. A \<le> l"
  by unfold_locales (rule realises_unlock_step)

section \<open>The amount an order locks\<close>

text \<open>The base amount in units of its asset for an ask, its worth at the price in units of the quote asset for a bid.\<close>

definition locked_amount_of :: "market_target \<Rightarrow> bool \<Rightarrow> nat \<Rightarrow> nat \<Rightarrow> nat" where
  "locked_amount_of m ask base price =
    base * (if ask then uval (size_extension_multiplier m) else price * uval (quote_extension_multiplier m))"

definition paid_asset :: "market_target \<Rightarrow> bool \<Rightarrow> nat" where
  "paid_asset m ask = uval (if ask then market_base_asset_id m else market_quote_asset_id m)"

lemma realises_get_locked_amount:
  fixes m :: market_target and base price :: target
  assumes en: "bval e en" and ask: "bval is_ask ask" and price: "uval price < 2 ^ 32"
  defines "A \<equiv> locked_amount_of m ask (uval base) (uval price)"
  shows "realises (get_locked_amount_and_ask_asset_index e m base price is_ask) (en \<longrightarrow> A < 2 ^ 96)
    (\<lambda>(r, k). big r 3 (A mod 2 ^ 96) \<and> uval k = paid_asset m ask)"
  unfolding get_locked_amount_and_ask_asset_index_def Let_def
proof (rule realises_after [OF implements_target_to_biguint], rule realises_after [OF implements_target_to_biguint])
  fix x y assume x: "big x 2 (uval (size_extension_multiplier m))" and y: "big y 2 (uval (quote_extension_multiplier m))"
  have p: "limbs_ok (target_to_biguint_single_limb_unsafe price)" "length (target_to_biguint_single_limb_unsafe price) = 1"
    "bnat (target_to_biguint_single_limb_unsafe price) = uval price"
    using price by (simp_all add: target_to_biguint_single_limb_unsafe_def limbs_ok_def is_u32_def bnat_def)
  have bid: "implements (mul_biguint (target_to_biguint_single_limb_unsafe price) y) (\<lambda>r. big r 4 (uval price * uval (quote_extension_multiplier m)))"
    using implements_mul_biguint [of "target_to_biguint_single_limb_unsafe price" y] p y by (simp add: big_def)
  let ?M = "if ask then uval (size_extension_multiplier m) else uval price * uval (quote_extension_multiplier m)"
  have mult: "big (select_biguint is_ask x z) 4 ?M" if "big z 4 (uval price * uval (quote_extension_multiplier m))" for z
    using select_biguint_big [OF ask, of x z] x that by (simp add: big_def)
  have A: "A = uval base * ?M" by (simp add: A_def locked_amount_of_def)
  have amt: "implements (mul_biguint b s) (\<lambda>r. big r 7 A)" if "big b 2 (uval base)" "big s 4 ?M" for b s
    using implements_mul_biguint [of b s] that by (simp add: big_def A)
  have trim: "implements (try_trim_biguint r BIG_U96_LIMBS) (\<lambda>(success, r). bval success (A < 2 ^ 96) \<and> big r 3 (A mod 2 ^ 96))" if "big r 7 A" for r
    using implements_try_trim_biguint [of r 3] that by (simp add: big_def BIG_U96_LIMBS_def)
  have k: "uval (select is_ask (market_base_asset_id m) (market_quote_asset_id m)) = paid_asset m ask"
    by (simp add: uval_select [OF ask] paid_asset_def)
  show "realises (circ_bind (mul_biguint (target_to_biguint_single_limb_unsafe price) y) (\<lambda>z. circ_bind (target_to_biguint base) (\<lambda>b.
      circ_bind (mul_biguint b (select_biguint is_ask x z)) (\<lambda>r. circ_bind (try_trim_biguint r BIG_U96_LIMBS) (\<lambda>(success, r).
      circ_bind (conditional_assert_true e success) (\<lambda>_. circ_return (r, select is_ask (market_base_asset_id m) (market_quote_asset_id m))))))))
    (en \<longrightarrow> A < 2 ^ 96) (\<lambda>(r, k). big r 3 (A mod 2 ^ 96) \<and> uval k = paid_asset m ask)"
    by (rule realises_after [OF bid], drule mult, rule realises_after [OF implements_target_to_biguint], rule realises_after [OF amt], assumption, assumption,
        rule realises_after [OF trim], assumption, unfold split_paired_all prod.case, elim conjE,
        rule realises_then_return [OF realises_conditional_assert_true [OF en]], assumption) (simp add: k)
qed

text \<open>The parts shared by the three changes: the amount, the loop, and the final check that the asset was found.\<close>

lemma realises_locked_change:
  fixes m :: market_target and base price :: target
  assumes en: "bval e en" and ask: "bval is_ask ask" and price: "uval price < 2 ^ 32" and assets: "list_all2 asset_is assets xs"
    and loop: "\<And>amt k. big amt BIG_U96_LIMBS (locked_amount_of m ask (uval base) (uval price)) \<Longrightarrow> uval k = paid_asset m ask \<Longrightarrow>
      realises (asset_loop (step e k amt) assets (Const 0))
        (en \<and> \<not> False \<longrightarrow> (case locked_of (uval k) xs of None \<Rightarrow> True | Some l \<Rightarrow> fits l))
        (\<lambda>(assets', found'). list_all2 asset_is assets' (if en \<and> \<not> False then change_locked (uval k) up xs else xs) \<and>
          bval found' (False \<or> locked_of (uval k) xs \<noteq> None))"
    and loop_off: "\<And>amt A k. \<not> en \<Longrightarrow> big amt BIG_U96_LIMBS A \<Longrightarrow> realises (asset_loop (step e k amt) assets (Const 0)) True
        (\<lambda>(assets', found'). list_all2 asset_is assets' xs \<and> bval found' (locked_of (uval k) xs \<noteq> None))"
  shows "realises (circ_bind (get_locked_amount_and_ask_asset_index e m base price is_ask) (\<lambda>(amt, k).
      circ_bind (asset_loop (step e k amt) assets (Const 0)) (\<lambda>(assets, found). circ_bind (conditional_assert_true e found) (\<lambda>_. circ_return assets))))
    (en \<longrightarrow> locked_amount_of m ask (uval base) (uval price) < 2 ^ 96 \<and> (\<exists>l. locked_of (paid_asset m ask) xs = Some l \<and> fits l))
    (\<lambda>assets'. list_all2 asset_is assets' (if en then change_locked (paid_asset m ask) up xs else xs))"
proof -
  let ?A = "locked_amount_of m ask (uval base) (uval price)" and ?k = "paid_asset m ask"
  let ?rest = "\<lambda>(amt, k). circ_bind (asset_loop (step e k amt) assets (Const 0)) (\<lambda>(assets, found).
      circ_bind (conditional_assert_true e found) (\<lambda>_. circ_return assets))"
  have rest: "realises (?rest st) ((en \<longrightarrow> (case locked_of ?k xs of None \<Rightarrow> True | Some l \<Rightarrow> fits l)) \<and> (en \<longrightarrow> locked_of ?k xs \<noteq> None))
      (\<lambda>assets'. list_all2 asset_is assets' (if en then change_locked ?k up xs else xs))"
    if "en \<longrightarrow> ?A < 2 ^ 96" and state: "case st of (amt, k) \<Rightarrow> big amt 3 (?A mod 2 ^ 96) \<and> uval k = ?k" for st
  proof -
    obtain amt k where st: "st = (amt, k)" "big amt BIG_U96_LIMBS (?A mod 2 ^ 96)" "uval k = ?k" using state by (cases st) (simp add: BIG_U96_LIMBS_def)
    have "realises (asset_loop (step e k amt) assets (Const 0)) (en \<longrightarrow> (case locked_of ?k xs of None \<Rightarrow> True | Some l \<Rightarrow> fits l))
        (\<lambda>(assets', found'). list_all2 asset_is assets' (if en then change_locked ?k up xs else xs) \<and> bval found' (locked_of ?k xs \<noteq> None))"
    proof (cases en)
      case True
      then have "big amt BIG_U96_LIMBS ?A" using st(2) that(1) by (simp add: mod_less)
      from loop [OF this st(3)] show ?thesis unfolding st(3) by simp
    next
      case False
      from loop_off [OF this st(2), of k] False show ?thesis unfolding st(3) by simp
    qed
    note looped = this
    show ?thesis
      unfolding st(1) prod.case
    proof (rule realises_bind [OF looped], unfold split_paired_all prod.case, elim conjE)
      fix assets' found'
      assume assets': "list_all2 asset_is assets' (if en then change_locked ?k up xs else xs)" and found: "bval found' (locked_of ?k xs \<noteq> None)"
      show "realises (circ_bind (conditional_assert_true e found') (\<lambda>_. circ_return assets')) (en \<longrightarrow> locked_of ?k xs \<noteq> None)
        (\<lambda>assets'. list_all2 asset_is assets' (if en then change_locked ?k up xs else xs))"
        by (rule realises_then_return [OF realises_conditional_assert_true [OF en found]]) (rule assets')
    qed
  qed
  show ?thesis
    by (rule realises_weaken [OF realises_bind [OF realises_get_locked_amount [OF en ask price] rest]]) (auto split: option.splits)
qed

text \<open>Locking, and unlocking in its two uses.\<close>

abbreviation order_lock :: "market_target \<Rightarrow> bool \<Rightarrow> account_order \<Rightarrow> nat" where
  "order_lock m ask ord \<equiv> locked_amount_of m ask (uval (ao_remaining_base_amount ord)) (uval (ao_price ord))"

lemma realises_increment_locked_balance:
  assumes "bval e en" "bval (ao_is_ask ord) ask" "uval (ao_price ord) < 2 ^ 32" "list_all2 asset_is assets xs"
  shows "realises (increment_locked_balance_for_order e ord m assets)
    (en \<longrightarrow> order_lock m ask ord < 2 ^ 96 \<and> (\<exists>l. locked_of (paid_asset m ask) xs = Some l \<and> l + order_lock m ask ord < 2 ^ 96))
    (\<lambda>assets'. list_all2 asset_is assets' (if en then change_locked (paid_asset m ask) (\<lambda>l. l + order_lock m ask ord) xs else xs))"
  unfolding increment_locked_balance_for_order_def
  by (rule realises_locked_change [OF assms, where step = lock_step and up = "\<lambda>l. l + order_lock m ask ord"],
      rule lock.loop_changes [OF assms(1) _ assms(4) bval_Const(2)], assumption)
    (rule realises_weaken [OF lock.loop_changes [OF assms(1) _ assms(4) bval_Const(2)]], auto)

lemma realises_decrement_partial:
  assumes "bval e en" "bval is_ask ask" "uval price < 2 ^ 32" "list_all2 asset_is assets xs"
  shows "realises (decrement_locked_balance_for_partial_order e m is_ask base price assets)
    (en \<longrightarrow> locked_amount_of m ask (uval base) (uval price) < 2 ^ 96 \<and>
      (\<exists>l. locked_of (paid_asset m ask) xs = Some l \<and> locked_amount_of m ask (uval base) (uval price) \<le> l))
    (\<lambda>assets'. list_all2 asset_is assets'
      (if en then change_locked (paid_asset m ask) (\<lambda>l. l - locked_amount_of m ask (uval base) (uval price)) xs else xs))"
  unfolding decrement_locked_balance_for_partial_order_def
  by (rule realises_locked_change [OF assms, where step = unlock_step and up = "\<lambda>l. l - locked_amount_of m ask (uval base) (uval price)"],
      rule unlock.loop_changes [OF assms(1) _ assms(4) bval_Const(2)], assumption)
    (rule realises_weaken [OF unlock.loop_changes [OF assms(1) _ assms(4) bval_Const(2)]], auto)

lemma decrement_is_partial:
  "decrement_locked_balance_for_order e ord m assets =
    decrement_locked_balance_for_partial_order e m (ao_is_ask ord) (ao_remaining_base_amount ord) (ao_price ord) assets"
  by (simp add: decrement_locked_balance_for_order_def decrement_locked_balance_for_partial_order_def)

lemma implements_get_available_balance:
  assumes "asset_is a (i, b, l)"
  shows "implements (get_available_balance a) (\<lambda>r. big r 3 (b - l))"
  unfolding get_available_balance_def
proof -
  note bl = asset_isD(2,3) [OF assms]
  have sub: "implements (try_sub_biguint (asset_balance a) (locked_balance a)) (\<lambda>(r, borrow). bval borrow (b < l) \<and> big r 3 (b + 2 ^ 96 * of_bool (b < l) - l))"
    using implements_try_sub_biguint [OF bigD3(1) [OF bl(1)] bigD3(1) [OF bl(2)]] bigD3(2,3) [OF bl(1)] bigD3(2,3) [OF bl(2)] by simp
  show "implements (circ_bind (try_sub_biguint (asset_balance a) (locked_balance a)) (\<lambda>(r, borrow). circ_bind (is_zero_u32 borrow) (\<lambda>z.
      circ_return (mul_biguint_by_bool r z)))) (\<lambda>r. big r 3 (b - l))"
  proof (rule implements_bind [OF sub], unfold split_paired_all prod.case, elim conjE, rule implements_bind [OF implements_is_zero_u32], rule implements_return)
    fix r borrow z assume "bval borrow (b < l)" and r: "big r 3 (b + 2 ^ 96 * of_bool (b < l) - l)" and "bval z (uval borrow = 0)"
    then have z: "bval z (\<not> b < l)" by (simp add: uval_bval)
    from mul_biguint_by_bool_big [OF z bigD3(1) [OF r]] bigD3(2,3) [OF r] show "big (mul_biguint_by_bool r z) 3 (b - l)"
      by (cases "b < l") simp_all
  qed
qed

section \<open>An order that is filled in parts\<close>

text \<open>The amount locked is linear in the base amount.\<close>

definition lock_unit :: "market_target \<Rightarrow> bool \<Rightarrow> nat \<Rightarrow> nat" where
  "lock_unit m ask price = (if ask then uval (size_extension_multiplier m) else price * uval (quote_extension_multiplier m))"

lemma locked_amount_linear: "locked_amount_of m ask base price = base * lock_unit m ask price"
  by (simp add: locked_amount_of_def lock_unit_def)

text \<open>The lock of an order released by its fills, one call for each.\<close>

primrec release_parts :: "target \<Rightarrow> market_target \<Rightarrow> target \<Rightarrow> target \<Rightarrow> target list \<Rightarrow> account_asset list \<Rightarrow> account_asset list circ" where
  "release_parts e m is_ask price [] assets = circ_return assets"
| "release_parts e m is_ask price (base # bases) assets =
    circ_bind (decrement_locked_balance_for_partial_order e m is_ask base price assets) (release_parts e m is_ask price bases)"

lemma implements_release_parts:
  assumes "bval e True" "bval is_ask ask" "uval price < 2 ^ 32"
    and "list_all2 asset_is assets xs" "locked_of (paid_asset m ask) xs = Some l" "l < 2 ^ 96"
    and "locked_amount_of m ask (\<Sum>base\<leftarrow>bases. uval base) (uval price) \<le> l"
  shows "implements (release_parts e m is_ask price bases assets) (\<lambda>assets'. list_all2 asset_is assets'
    (change_locked (paid_asset m ask) (\<lambda>l. l - locked_amount_of m ask (\<Sum>base\<leftarrow>bases. uval base) (uval price)) xs))"
  using assms(4-)
proof (induction bases arbitrary: assets xs l)
  case Nil
  then show ?case by (simp add: implements_return locked_amount_of_def change_locked_id)
next
  case (Cons base bases)
  let ?U = "lock_unit m ask (uval price)" and ?k = "paid_asset m ask"
  let ?A = "uval base * ?U" and ?B = "(\<Sum>base\<leftarrow>bases. uval base) * ?U"
  have bound: "?A + ?B \<le> l" using Cons.prems(4) by (simp add: locked_amount_linear add_mult_distrib)
  have first: "implements (decrement_locked_balance_for_partial_order e m is_ask base price assets)
      (\<lambda>assets'. list_all2 asset_is assets' (change_locked ?k (\<lambda>l. l - ?A) xs))"
    using realises_implements [OF realises_decrement_partial [OF assms(1-3) Cons.prems(1), of m base]] Cons.prems(2,3) bound
    by (simp add: locked_amount_linear)
  have rest: "implements (release_parts e m is_ask price bases assets')
      (\<lambda>assets'. list_all2 asset_is assets' (change_locked ?k (\<lambda>l. l - (?A + ?B)) xs))"
    if "list_all2 asset_is assets' (change_locked ?k (\<lambda>l. l - ?A) xs)" for assets'
  proof -
    have "locked_of ?k (change_locked ?k (\<lambda>l. l - ?A) xs) = Some (l - ?A)" by (simp add: locked_of_change Cons.prems(2))
    moreover have "l - ?A < 2 ^ 96" "locked_amount_of m ask (\<Sum>base\<leftarrow>bases. uval base) (uval price) \<le> l - ?A"
      using Cons.prems(3) bound by (simp_all add: locked_amount_linear)
    ultimately show ?thesis
      using Cons.IH [OF that] by (simp add: change_locked_twice comp_def locked_amount_linear)
  qed
  show ?case
    unfolding release_parts.simps by (rule implements_weaken [OF implements_bind [OF first rest]]) (simp_all add: locked_amount_linear add_mult_distrib)
qed

section \<open>Properties\<close>

text \<open>
  C24. The lock of a spot order: it is accepted exactly when the amount the order may have to pay fits 96 bits, the account
  holds the asset it pays in, and the locked part stays below 96 bits; then the first asset with that index has just this
  amount more locked, and its balance and all other assets are as before.
\<close>
theorem order_lock_exact:
  assumes "bval e True" "bval (ao_is_ask ord) ask" "uval (ao_price ord) < 2 ^ 32" "list_all2 asset_is assets xs"
    and k: "k = paid_asset m ask" and A: "A = order_lock m ask ord"
  shows "realises (increment_locked_balance_for_order e ord m assets)
    (A < 2 ^ 96 \<and> (\<exists>l. locked_of k xs = Some l \<and> l + A < 2 ^ 96))
    (\<lambda>assets'. \<exists>us b l vs. xs = us @ (k, b, l) # vs \<and> k \<notin> fst ` set us \<and> list_all2 asset_is assets' (us @ (k, b, l + A) # vs))"
proof (rule realises_weaken [OF realises_increment_locked_balance [OF assms(1-4), of m]])
  fix assets'
  assume "True \<longrightarrow> order_lock m ask ord < 2 ^ 96 \<and> (\<exists>l. locked_of (paid_asset m ask) xs = Some l \<and> l + order_lock m ask ord < 2 ^ 96)"
    and after: "list_all2 asset_is assets' (if True then change_locked (paid_asset m ask) (\<lambda>l. l + order_lock m ask ord) xs else xs)"
  then obtain l where "locked_of k xs = Some l" using k by auto
  from change_locked_split [OF this, of "\<lambda>l. l + A"] after
  show "\<exists>us b l vs. xs = us @ (k, b, l) # vs \<and> k \<notin> fst ` set us \<and> list_all2 asset_is assets' (us @ (k, b, l + A) # vs)"
    unfolding k [symmetric] A [symmetric] if_True by metis
qed (simp add: k A)

text \<open>
  C23. What an open spot order locks is released exactly by its fills: after an order was locked, fills of any sizes that
  add up to the order, at its price, are all accepted and leave the assets of the account as they were.
\<close>
theorem order_lock_released:
  assumes "bval e True" "bval (ao_is_ask ord) ask" "uval (ao_price ord) < 2 ^ 32" "list_all2 asset_is assets xs"
    and "order_lock m ask ord < 2 ^ 96" "locked_of (paid_asset m ask) xs = Some l" "l + order_lock m ask ord < 2 ^ 96"
    and bases: "(\<Sum>base\<leftarrow>bases. uval base) = uval (ao_remaining_base_amount ord)"
  shows "implements (circ_bind (increment_locked_balance_for_order e ord m assets) (release_parts e m (ao_is_ask ord) (ao_price ord) bases))
    (\<lambda>assets'. list_all2 asset_is assets' xs)"
proof -
  let ?A = "order_lock m ask ord" and ?k = "paid_asset m ask"
  let ?ys = "change_locked ?k (\<lambda>l. l + ?A) xs"
  have lock: "implements (increment_locked_balance_for_order e ord m assets) (\<lambda>assets'. list_all2 asset_is assets' ?ys)"
    using realises_implements [OF realises_increment_locked_balance [OF assms(1-4), of m]] assms(5-7) by simp
  have l: "locked_of ?k ?ys = Some (l + ?A)" by (simp add: locked_of_change assms(6))
  have undo: "change_locked ?k (\<lambda>l. l - ?A) ?ys = xs"
    by (simp add: change_locked_twice comp_def change_locked_id [OF assms(6)])
  have release: "implements (release_parts e m (ao_is_ask ord) (ao_price ord) bases assets') (\<lambda>assets'. list_all2 asset_is assets' xs)"
    if "list_all2 asset_is assets' ?ys" for assets'
    using implements_release_parts [OF assms(1-3) that l assms(7), of bases] unfolding bases undo by simp
  show ?thesis by (rule implements_bind [OF lock release])
qed

definition example_asset :: "nat \<Rightarrow> nat \<Rightarrow> nat \<Rightarrow> account_asset" where
  "example_asset i b l = \<lparr>asset_index_0 = Const (of_nat i), asset_balance = [Const (of_nat b), Const 0, Const 0], locked_balance = [Const (of_nat l), Const 0, Const 0]\<rparr>"

definition example_spot_market :: market_target where
  "example_spot_market = \<lparr>market_index = Const 2048, market_status = Const 1, market_type = Const 1, market_base_asset_id = Const 1,
     market_quote_asset_id = Const 3, market_ask_nonce = Const 4, market_bid_nonce = Const 9, market_taker_fee = Const 0,
     market_maker_fee = Const 0, market_liquidation_fee = Const 0, size_extension_multiplier = Const 10,
     quote_extension_multiplier = Const 2, market_total_order_count = Const 0, min_base_amount = Const 0,
     min_quote_amount = Const 0, order_quote_limit = Const 0, order_book_root = [], perps_market_index = Const 0\<rparr>"

lemma asset_is_example:
  assumes "i < 2 ^ 32" "b < 2 ^ 32" "l < 2 ^ 32"
  shows "asset_is (example_asset i b l) (i, b, l)"
  using assms to_canonical_of_nat_small [of i] to_canonical_of_nat_small [of b] to_canonical_of_nat_small [of l]
  by (simp add: asset_is_def example_asset_def big_def bnat_def limbs_ok_def is_u32_def BIG_U96_LIMBS_def)

lemma example_assets: "list_all2 asset_is [example_asset 1 500 20, example_asset 3 200000 10] [(1, 500, 20), (3, 200000, 10)]"
  by (simp add: asset_is_example)

lemma example_lock: "order_lock example_spot_market False (example_order 0 0 0) = 150000" "paid_asset example_spot_market False = 3"
  by (simp_all add: locked_amount_of_def paid_asset_def example_spot_market_def example_order_def)

lemma example_order_side: "bval (ao_is_ask (example_order 0 0 0)) False" "uval (ao_price (example_order 0 0 0)) < 2 ^ 32"
  by (simp_all add: example_order_def empty_account_order_def bval_def)

text \<open>A bid for 25 at 3000 locks 150000 of asset 3.\<close>

lemma order_lock_exact_witness:
  "implements (increment_locked_balance_for_order (Const 1) (example_order 0 0 0) example_spot_market [example_asset 1 500 20, example_asset 3 200000 10])
    (\<lambda>assets'. list_all2 asset_is assets' [(1, 500, 20), (3, 200000, 150010)])"
proof -
  note ex = order_lock_exact [OF bval_Const(1) example_order_side example_assets refl refl, where m = example_spot_market, unfolded example_lock]
  show ?thesis by (rule implements_weaken [OF realises_implements [OF ex]]) (auto simp: Cons_eq_append_conv)
qed

text \<open>It is filled by 10, 0 and 15.\<close>

lemma order_lock_released_witness:
  "implements (circ_bind (increment_locked_balance_for_order (Const 1) (example_order 0 0 0) example_spot_market [example_asset 1 500 20, example_asset 3 200000 10])
      (release_parts (Const 1) example_spot_market (Const 0) (Const 3000) [Const 10, Const 0, Const 15]))
    (\<lambda>assets'. list_all2 asset_is assets' [(1, 500, 20), (3, 200000, 10)])"
proof -
  have order: "ao_is_ask (example_order 0 0 0) = Const 0" "ao_price (example_order 0 0 0) = Const 3000"
    by (simp_all add: example_order_def empty_account_order_def)
  show ?thesis
    using order_lock_released [OF bval_Const(1) example_order_side example_assets, where m = example_spot_market and bases = "[Const 10, Const 0, Const 15]", unfolded example_lock]
    unfolding order by (simp add: example_order_def)
qed

end
