(* ===== verification/Asset_Delta.thy ===== *)
theory Asset_Delta
  imports Order_Locks Match_Flags Risk_Parameters
begin

text \<open>
  How an amount of an asset enters or leaves an account (\<open>apply_asset_delta\<close>, \<open>apply_asset_delta_raw\<close> and
  \<open>apply_collateral_delta\<close> of \<open>types/account/account.rs\<close>, with the supply caps of \<open>types/margined_asset.rs\<close>). An
  account holds an asset in two places, as spot balance and as margin; the insurance fund also keeps a strategy balance.
  Deposits, withdrawals, transfers and trades all go through these functions, so what they promise is that nothing is
  created or lost and that no balance or cap is overrun. The abstract state is the four numbers that change.
\<close>

section \<open>The circuit\<close>

definition PRODUCT_TYPE_SPOT :: nat where "PRODUCT_TYPE_SPOT = 1"

record margined_asset =
  ma_asset_index :: target
  ma_loan_to_value :: target
  ma_liquidation_threshold :: target
  ma_liquidation_factor :: target
  ma_liquidation_fee :: target
  ma_index_price :: target
  ma_index_price_divider :: target
  global_supply_cap :: biguint
  user_supply_cap :: biguint
  total_supplied_amount :: biguint

record account_margined_asset =
  margined_balance :: bigint
  asset_margin_mode :: target

definition empty_account_margined_asset :: account_margined_asset where
  "empty_account_margined_asset = \<lparr>margined_balance = zero_bigint, asset_margin_mode = Const 0\<rparr>"

definition select_account_margined_asset_target :: "target \<Rightarrow> account_margined_asset \<Rightarrow> account_margined_asset \<Rightarrow> account_margined_asset" where
  "select_account_margined_asset_target flag a b =
    \<lparr>margined_balance = select_bigint flag (margined_balance a) (margined_balance b),
     asset_margin_mode = select flag (asset_margin_mode a) (asset_margin_mode b)\<rparr>"

definition is_universal_asset :: "target \<Rightarrow> target circ" where
  "is_universal_asset asset_index =
    circ_bind (is_equal_constant asset_index USDC_ASSET_INDEX) (\<lambda>is_usdc. circ_return (multi_or [is_usdc]))"


definition margined_asset_is_empty :: "margined_asset \<Rightarrow> target circ" where
  "margined_asset_is_empty a = is_zero (b_add_many
    [ma_asset_index a, ma_loan_to_value a, ma_liquidation_threshold a, ma_liquidation_factor a, ma_liquidation_fee a, ma_index_price a,
     ma_index_price_divider a, global_supply_cap a ! 0, global_supply_cap a ! 1, global_supply_cap a ! 2, user_supply_cap a ! 0,
     user_supply_cap a ! 1, user_supply_cap a ! 2, total_supplied_amount a ! 0, total_supplied_amount a ! 1, total_supplied_amount a ! 2])"

definition margined_asset_hash_parameters :: "margined_asset \<Rightarrow> target list" where
  "margined_asset_hash_parameters a =
    [ma_asset_index a, ma_index_price a, ma_loan_to_value a, ma_liquidation_threshold a, ma_liquidation_factor a, ma_liquidation_fee a,
     ma_index_price_divider a] @
    concat (map (pad_to BIG_U96_LIMBS) [global_supply_cap a, user_supply_cap a, total_supplied_amount a])"

definition get_remaining_supply_cap :: "bigint \<Rightarrow> margined_asset \<Rightarrow> biguint circ" where
  "get_remaining_supply_cap user_margin_balance a =
    circ_bind (try_sub_biguint (global_supply_cap a) (total_supplied_amount a)) (\<lambda>(remaining_global_supply_cap, borrow).
    let remaining_global_supply_cap = select_biguint borrow zero_biguint remaining_global_supply_cap in
    circ_bind (try_sub_biguint (user_supply_cap a) (bi_abs user_margin_balance)) (\<lambda>(remaining_user_supply_cap, borrow).
    circ_bind (is_sign_negative (bi_sign user_margin_balance)) (\<lambda>user_balance_negative.
    let borrow_or_user_balance_negative = b_or borrow user_balance_negative;
        remaining_user_supply_cap = select_biguint borrow_or_user_balance_negative zero_biguint remaining_user_supply_cap in
    min_biguint remaining_global_supply_cap remaining_user_supply_cap)))"

text \<open>The balances that \<open>apply_asset_delta\<close> and \<open>apply_collateral_delta\<close> change through references.\<close>

record balances =
  spot_balance :: biguint
  margin_balance :: bigint
  strategy_balance :: bigint

definition apply_collateral_delta :: "target \<Rightarrow> target \<Rightarrow> bigint \<Rightarrow> balances \<Rightarrow> balances circ" where
  "apply_collateral_delta account_type is_enabled collateral_delta b =
    (let collateral_delta = mul_bigint_by_bool collateral_delta is_enabled in
    circ_bind (add_bigint_non_carry (margin_balance b) collateral_delta BIG_U96_LIMBS) (\<lambda>margin.
    circ_bind (is_equal_constant account_type INSURANCE_FUND_ACCOUNT_TYPE) (\<lambda>is_insurance_fund.
    let strategy_delta = mul_bigint_by_bool collateral_delta is_insurance_fund in
    circ_bind (add_bigint_non_carry (strategy_balance b) strategy_delta BIG_U96_LIMBS) (\<lambda>strategy.
    circ_return (b\<lparr>margin_balance := margin, strategy_balance := strategy\<rparr>)))))"

definition apply_asset_delta_raw ::
  "target \<Rightarrow> target \<Rightarrow> target \<Rightarrow> bigint \<Rightarrow> bool \<Rightarrow> margined_asset \<times> biguint \<times> bigint \<Rightarrow> (margined_asset \<times> biguint \<times> bigint) circ" where
  "apply_asset_delta_raw is_enabled product_type asset_index asset_delta can_be_universal_asset = (\<lambda>(a, asset_balance, margin_balance).
    let asset_delta = mul_bigint_by_bool asset_delta is_enabled; is_spot = product_type; is_perps = b_not is_spot;
        spot_delta = mul_bigint_by_bool asset_delta is_spot in
    circ_bind (biguint_to_bigint asset_balance) (\<lambda>balance_bigint.
    circ_bind (add_bigint_non_carry balance_bigint spot_delta BIG_U96_LIMBS) (\<lambda>new_spot_balance.
    circ_bind (is_sign_negative (bi_sign new_spot_balance)) (\<lambda>is_new_spot_balance_negative.
    circ_bind (assert_false is_new_spot_balance_negative) (\<lambda>_.
    let perps_delta = mul_bigint_by_bool asset_delta is_perps in
    circ_bind (if can_be_universal_asset
        then circ_bind (is_universal_asset asset_index) (\<lambda>is_universal. circ_return (b_not is_universal))
        else circ_return (Const 1)) (\<lambda>caps_enabled.
    circ_bind (is_sign_positive (bi_sign perps_delta)) (\<lambda>is_delta_positive.
    circ_bind (get_remaining_supply_cap margin_balance a) (\<lambda>remaining_supply_cap.
    let remaining_supply_flag = multi_and [caps_enabled, is_delta_positive] in
    circ_bind (is_lt_biguint remaining_supply_cap (bi_abs perps_delta)) (\<lambda>is_remaining_supply_cap_lt_delta.
    circ_bind (conditional_assert_false remaining_supply_flag is_remaining_supply_cap_lt_delta) (\<lambda>_.
    circ_bind (add_bigint_non_carry margin_balance perps_delta BIG_U96_LIMBS) (\<lambda>margin_balance.
    let cap_delta = mul_bigint_by_bool perps_delta caps_enabled in
    circ_bind (biguint_to_bigint (total_supplied_amount a)) (\<lambda>tsa_bigint.
    circ_bind (add_bigint_non_carry tsa_bigint cap_delta BIG_U96_LIMBS) (\<lambda>new_tsa.
    circ_bind (is_sign_negative (bi_sign new_tsa)) (\<lambda>is_new_tsa_negative.
    circ_bind (assert_false is_new_tsa_negative) (\<lambda>_.
    circ_return (a\<lparr>total_supplied_amount := bi_abs new_tsa\<rparr>, bi_abs new_spot_balance, margin_balance))))))))))))))))"




section \<open>The abstract account\<close>



definition caps_are :: "margined_asset \<Rightarrow> nat \<Rightarrow> nat \<Rightarrow> bool" where
  "caps_are a g u \<longleftrightarrow> big (global_supply_cap a) 3 g \<and> big (user_supply_cap a) 3 u"

text \<open>What may still be supplied: nothing by an account that owes the asset.\<close>

definition supply_room :: "nat \<Rightarrow> nat \<Rightarrow> int \<Rightarrow> int \<Rightarrow> nat" where
  "supply_room g u m t = min (g - nat t) (if m < 0 then 0 else u - nat m)"




section \<open>Contracts\<close>

lemma implements_is_universal_asset: "implements (is_universal_asset i) (\<lambda>r. bval r (uval i = USDC_ASSET_INDEX))"
  unfolding is_universal_asset_def
proof (rule implements_bind [OF implements_is_equal_constant], simp add: USDC_ASSET_INDEX_def, rule implements_return)
  fix r assume "bval r (uval i = USDC_ASSET_INDEX)"
  then show "bval (multi_or [r]) (uval i = USDC_ASSET_INDEX)" using bval_multi_or [of "[r]" "[uval i = USDC_ASSET_INDEX]"] by simp
qed

lemma implements_try_sub_big:
  assumes "big a n v" "big b m w"
  shows "implements (try_sub_biguint a b) (\<lambda>(r, borrow). bval borrow (v < w) \<and> big r (max n m) (v + 2 ^ (32 * max n m) * of_bool (v < w) - w))"
  using implements_try_sub_biguint [of a b] assms by (auto simp: big_def)

lemma big_select: "bval c e \<Longrightarrow> big x n v \<Longrightarrow> big y m w \<Longrightarrow> big (select_biguint c x y) (max n m) (if e then v else w)"
  using select_biguint_big [of c e x y] by (cases e) (simp_all add: big_def)

lemma implements_min_big: "big a n v \<Longrightarrow> big b m w \<Longrightarrow> implements (min_biguint a b) (\<lambda>r. big r (max n m) (min v w))"
  using implements_min_biguint [of a b] by (simp add: big_def)

lemma implements_get_remaining_supply_cap:
  assumes caps: "caps_are a g u" and t: "big (total_supplied_amount a) 3 (nat t)" and m: "bigz b 3 m"
  shows "implements (get_remaining_supply_cap b a) (\<lambda>r. big r 3 (supply_room g u m t))"
  unfolding get_remaining_supply_cap_def Let_def
proof -
  have g: "big (global_supply_cap a) 3 g" and u: "big (user_supply_cap a) 3 u" using caps by (simp_all add: caps_are_def)
  have m': "big (bi_abs b) 3 (nat \<bar>m\<bar>)" using m by (simp add: bigz_def)
  have zero: "big zero_biguint 0 0" by (simp add: big_def)
  show "implements (circ_bind (try_sub_biguint (global_supply_cap a) (total_supplied_amount a)) (\<lambda>(rg, borrow).
      circ_bind (try_sub_biguint (user_supply_cap a) (bi_abs b)) (\<lambda>(ru, borrow'). circ_bind (is_sign_negative (bi_sign b)) (\<lambda>neg.
      min_biguint (select_biguint borrow zero_biguint rg) (select_biguint (b_or borrow' neg) zero_biguint ru))))) (\<lambda>r. big r 3 (supply_room g u m t))"
  proof (rule implements_bind [OF implements_try_sub_big [OF g t]], unfold split_paired_all prod.case, elim conjE,
      rule implements_bind [OF implements_try_sub_big [OF u m']], unfold split_paired_all prod.case, elim conjE,
      rule implements_bind [OF implements_is_sign(1) [OF bigzD(4) [OF m]]])
    fix rg borrow ru borrow' neg
    assume b: "bval borrow (g < nat t)" and rg: "big rg (max 3 3) (g + 2 ^ (32 * max 3 3) * of_bool (g < nat t) - nat t)"
      and b': "bval borrow' (u < nat \<bar>m\<bar>)" and ru: "big ru (max 3 3) (u + 2 ^ (32 * max 3 3) * of_bool (u < nat \<bar>m\<bar>) - nat \<bar>m\<bar>)"
      and neg: "bval neg (m < 0)"
    have "big (select_biguint borrow zero_biguint rg) 3 (g - nat t)"
      using big_select [OF b zero rg] by (cases "g < nat t") simp_all
    moreover have "big (select_biguint (b_or borrow' neg) zero_biguint ru) 3 (if m < 0 then 0 else u - nat m)"
      using big_select [OF bval_or [OF b' neg] zero ru] by (cases "u < nat \<bar>m\<bar>"; cases "m < 0") simp_all
    ultimately show "implements (min_biguint (select_biguint borrow zero_biguint rg) (select_biguint (b_or borrow' neg) zero_biguint ru)) (\<lambda>r. big r 3 (supply_room g u m t))"
      using implements_min_big unfolding supply_room_def by fastforce
  qed
qed

lemma bigz_of_big: "big a n v \<Longrightarrow> implements (biguint_to_bigint a) (\<lambda>r. bigz r n (int v))"
  "big a n v \<Longrightarrow> implements (negative_biguint a) (\<lambda>r. bigz r n (- int v))"
  using implements_biguint_to_bigint [of a] implements_negative_biguint [of a] by (simp_all add: big_def)










lemma realises_when: "realises c P Q \<Longrightarrow> P = P' \<Longrightarrow> realises c P' Q"
  by simp






text \<open>The two shorter updates.\<close>

lemma realises_apply_collateral_delta:
  fixes account_type :: target
  assumes en: "bval e en" and d: "bigz delta 3 d" and b: "bigz (margin_balance b) 3 m" "bigz (strategy_balance b) 3 y"
  defines "ins \<equiv> uval account_type = INSURANCE_FUND_ACCOUNT_TYPE"
  shows "realises (apply_collateral_delta account_type e delta b)
    (\<bar>m + (if en then d else 0)\<bar> < 2 ^ 96 \<and> \<bar>y + (if ins then if en then d else 0 else 0)\<bar> < 2 ^ 96)
    (\<lambda>b'. bigz (margin_balance b') 3 (m + (if en then d else 0)) \<and> bigz (strategy_balance b') 3 (y + (if ins then if en then d else 0 else 0)) \<and>
      spot_balance b' = spot_balance b)"
proof -
  have D: "bigz (mul_bigint_by_bool delta e) 3 (if en then d else 0)" by (rule bigz_mul_by_bool [OF en d])
  have fund: "implements (is_equal_constant account_type INSURANCE_FUND_ACCOUNT_TYPE) (\<lambda>r. bval r ins)"
    unfolding ins_def by (rule implements_is_equal_constant) (simp add: INSURANCE_FUND_ACCOUNT_TYPE_def)
  have add: "realises (add_bigint_non_carry v w BIG_U96_LIMBS) (\<bar>i + j\<bar> < 2 ^ 96) (\<lambda>r. bigz r 3 (i + j))" if "bigz v 3 i" "bigz w 3 j" for v w i j
    using realises_add_bigint_non_carry [OF that, of BIG_U96_LIMBS] by (simp add: BIG_U96_LIMBS_def)
  show ?thesis
    unfolding apply_collateral_delta_def Let_def
    by (rule realises_bind [OF add [OF b(1) D]], rule realises_after [OF fund], rule realises_then_return [OF add [OF b(2) bigz_mul_by_bool [OF _ D]]], assumption) simp
qed

definition raw_fits :: "bool \<Rightarrow> bool \<Rightarrow> nat \<Rightarrow> int \<Rightarrow> int \<Rightarrow> int \<Rightarrow> int \<Rightarrow> bool" where
  "raw_fits spot capped room d s m t =
    (if spot then 0 \<le> s + d \<and> s + d < 2 ^ 96
     else (capped \<and> 0 < d \<longrightarrow> d \<le> int room) \<and> \<bar>m + d\<bar> < 2 ^ 96 \<and> (capped \<longrightarrow> 0 \<le> t + d \<and> t + d < 2 ^ 96))"

lemma realises_apply_asset_delta_raw:
  fixes idx :: target and can_be_universal :: bool
  assumes en: "bval e True" and sp: "bval product_type spot" and d: "bigz delta 3 d" and caps: "caps_are a g u"
    and s: "0 \<le> s" "big sb 3 (nat s)" and m: "bigz mb 3 m" and t: "0 \<le> t" "big (total_supplied_amount a) 3 (nat t)"
  defines "capped \<equiv> can_be_universal \<longrightarrow> uval idx \<noteq> USDC_ASSET_INDEX"
  shows "realises (apply_asset_delta_raw e product_type idx delta can_be_universal (a, sb, mb)) (raw_fits spot capped (supply_room g u m t) d s m t)
    (\<lambda>(a', sb', mb'). big sb' 3 (nat (if spot then s + d else s)) \<and> bigz mb' 3 (if spot then m else m + d) \<and>
      big (total_supplied_amount a') 3 (nat (if \<not> spot \<and> capped then t + d else t)))"
proof -
  let ?room = "supply_room g u m t"
  let ?sd = "if spot then d else 0" and ?pd = "if \<not> spot then d else 0" let ?cd = "if capped then ?pd else 0"
  have D: "bigz (mul_bigint_by_bool delta e) 3 d" using bigz_mul_by_bool [OF en d] by simp
  have S: "bigz (mul_bigint_by_bool (mul_bigint_by_bool delta e) product_type) 3 ?sd" by (rule bigz_mul_by_bool [OF sp D])
  have P: "bigz (mul_bigint_by_bool (mul_bigint_by_bool delta e) (b_not product_type)) 3 ?pd" by (rule bigz_mul_by_bool [OF bval_not [OF sp] D])
  have conv: "implements (biguint_to_bigint sb) (\<lambda>r. bigz r 3 s)" "implements (biguint_to_bigint (total_supplied_amount a)) (\<lambda>r. bigz r 3 t)"
    using bigz_of_big(1) [OF s(2)] bigz_of_big(1) [OF t(2)] s(1) t(1) by simp_all
  have add: "realises (add_bigint_non_carry v w BIG_U96_LIMBS) (\<bar>i + j\<bar> < 2 ^ 96) (\<lambda>r. bigz r 3 (i + j))" if "bigz v 3 i" "bigz w 3 j" for v w i j
    using realises_add_bigint_non_carry [OF that, of BIG_U96_LIMBS] by (simp add: BIG_U96_LIMBS_def)
  have uni: "implements (if can_be_universal then circ_bind (is_universal_asset idx) (\<lambda>q. circ_return (b_not q)) else circ_return (Const 1)) (\<lambda>r. bval r capped)"
  proof (cases can_be_universal)
    case True
    have "implements (circ_bind (is_universal_asset idx) (\<lambda>q. circ_return (b_not q))) (\<lambda>r. bval r capped)"
      by (rule implements_bind [OF implements_is_universal_asset], rule implements_return, rule bval_eq, erule bval_not) (simp add: capped_def True)
    then show ?thesis using True by simp
  qed (simp add: implements_return capped_def bval_Const)
  note room = implements_get_remaining_supply_cap [OF caps t(2) m]
  have less: "implements (is_lt_biguint cap (bi_abs (mul_bigint_by_bool (mul_bigint_by_bool delta e) (b_not product_type)))) (\<lambda>r. bval r (?room < nat \<bar>?pd\<bar>))"
    if "big cap 3 ?room" for cap
    using implements_is_lt_biguint [of cap "bi_abs (mul_bigint_by_bool (mul_bigint_by_bool delta e) (b_not product_type))"] that bigzD(1,3) [OF P]
    by (simp add: big_def)
  have flag: "bval (multi_and [c, p]) (capped \<and> 0 < ?pd)" if "bval c capped" "bval p (0 < ?pd)" for c p
    using bval_multi_and [of "[c, p]" "[capped, 0 < ?pd]"] that by simp
  show ?thesis
    unfolding apply_asset_delta_raw_def Let_def prod.case
  proof (rule realises_when [where P = "\<bar>s + ?sd\<bar> < 2 ^ 96 \<and> \<not> s + ?sd < 0 \<and> (capped \<and> 0 < ?pd \<longrightarrow> \<not> ?room < nat \<bar>?pd\<bar>) \<and> \<bar>m + ?pd\<bar> < 2 ^ 96 \<and>
        \<bar>t + ?cd\<bar> < 2 ^ 96 \<and> \<not> t + ?cd < 0"], rule realises_after [OF conv(1)], rule realises_bind [OF add [OF _ S]], assumption,
      rule realises_after [OF implements_is_sign(1) [OF bigzD(4)]], assumption, rule realises_bind [OF realises_assert_false], assumption,
      rule realises_after [OF uni], rule realises_after [OF implements_is_sign(2) [OF bigzD(4) [OF P]]], rule realises_after [OF room],
      rule realises_after [OF less], assumption, rule realises_bind [OF realises_conditional_assert_false [OF flag]], assumption, assumption, assumption,
      rule realises_bind [OF add [OF m P]], rule realises_after [OF conv(2)], rule realises_bind [OF add [OF _ bigz_mul_by_bool [OF _ P]]], assumption, assumption,
      rule realises_after [OF implements_is_sign(1) [OF bigzD(4)]], assumption, rule realises_then_return [OF realises_assert_false], assumption, goal_cases)
    case 1
    then show ?case using s(1) t(1) by (auto simp: bigz_def split: if_splits)
  next
    case 2
    have "\<bar>m\<bar> < 2 ^ 96" "s < 2 ^ 96" "t < 2 ^ 96"
      using bigz_bound [OF m] bnat_bound [of sb] bnat_bound [of "total_supplied_amount a"] s t by (auto simp: big_def nat_less_iff)
    then show ?case using s(1) t(1) by (auto simp: raw_fits_def)
  qed
qed

section \<open>Properties\<close>











end
