(* ===== verification/Pool_Shares.thy ===== *)
theory Pool_Shares
  imports Asset_Delta Tx_Attributes
begin

text \<open>
  The shares an account holds of public pools (\<open>types/public_pool.rs\<close>, \<open>apply_pool_share_delta\<close> and
  \<open>get_public_pool_share\<close> of \<open>types/account/account.rs\<close>). They are kept in sixteen slots sorted by the index of the pool;
  one pass over the slots adds to a share, inserts a new one between its neighbours, or closes the gap of one that was
  sold. The abstract state is the sorted list of shares, and the reference definition is the update of that list.
\<close>

section \<open>The circuit\<close>

definition SHARES_LIST_SIZE :: nat where "SHARES_LIST_SIZE = 16"

record public_pool_share =
  public_pool_index :: target
  share_amount :: target
  principal_amount :: target
  entry_timestamp :: target

definition empty_pool_share :: "target \<Rightarrow> public_pool_share" where
  "empty_pool_share i = \<lparr>public_pool_index = i, share_amount = Const 0, principal_amount = Const 0, entry_timestamp = Const 0\<rparr>"

definition select_public_pool_share_target :: "target \<Rightarrow> public_pool_share \<Rightarrow> public_pool_share \<Rightarrow> public_pool_share" where
  "select_public_pool_share_target flag a b =
    \<lparr>public_pool_index = select flag (public_pool_index a) (public_pool_index b), share_amount = select flag (share_amount a) (share_amount b),
     principal_amount = select flag (principal_amount a) (principal_amount b), entry_timestamp = select flag (entry_timestamp a) (entry_timestamp b)\<rparr>"

definition is_empty_without_metadata :: "public_pool_share \<Rightarrow> target circ" where
  "is_empty_without_metadata s =
    circ_bind (circ_map is_zero [share_amount s, principal_amount s, entry_timestamp s]) (\<lambda>assertions. circ_return (multi_and assertions))"

record public_pool_info =
  pool_status :: target
  operator_fee :: target
  min_operator_share_rate :: target
  total_shares :: target
  operator_shares :: target
  pool_strategies :: "bigint list"

definition NB_STRATEGIES :: nat where "NB_STRATEGIES = 2 ^ 3"

definition empty_pool_info :: public_pool_info where
  "empty_pool_info = \<lparr>pool_status = Const 0, operator_fee = Const 0, min_operator_share_rate = Const 0, total_shares = Const 0,
     operator_shares = Const 0, pool_strategies = replicate NB_STRATEGIES zero_bigint\<rparr>"

definition select_public_pool_info_target :: "target \<Rightarrow> public_pool_info \<Rightarrow> public_pool_info \<Rightarrow> public_pool_info" where
  "select_public_pool_info_target flag a b =
    \<lparr>pool_status = select flag (pool_status a) (pool_status b), operator_fee = select flag (operator_fee a) (operator_fee b),
     min_operator_share_rate = select flag (min_operator_share_rate a) (min_operator_share_rate b),
     total_shares = select flag (total_shares a) (total_shares b), operator_shares = select flag (operator_shares a) (operator_shares b),
     pool_strategies = map (\<lambda>i. select_bigint flag (pool_strategies a ! i) (pool_strategies b ! i)) [0..<NB_STRATEGIES]\<rparr>"

definition get_public_pool_share :: "target \<Rightarrow> public_pool_share list \<Rightarrow> public_pool_share circ" where
  "get_public_pool_share pool_index shares =
    circ_fold (\<lambda>sh res.
      circ_bind (is_equal (public_pool_index sh) pool_index) (\<lambda>is_pool_index_equal.
      circ_return (select_public_pool_share_target is_pool_index_equal sh res))) shares (empty_pool_share pool_index)"

text \<open>The flags of the pass: applied, use the next slot, use the previous slot.\<close>

record share_flags =
  share_applied :: target
  use_next :: target
  use_prev :: target

definition pool_share_step ::
  "target \<Rightarrow> public_pool_share \<Rightarrow> public_pool_share \<Rightarrow> public_pool_share \<Rightarrow> public_pool_share \<Rightarrow> share_flags \<Rightarrow> (public_pool_share \<times> share_flags) circ" where
  "pool_share_step is_enabled new_share old_prev sh old_next fl =
    circ_bind (is_gt (public_pool_index sh) (public_pool_index new_share) ACCOUNT_INDEX_BITS) (\<lambda>is_pool_index_gt.
    circ_bind (is_zero (share_amount sh)) (\<lambda>is_pool_share_slot_empty.
    let empty_or_insert = b_or is_pool_share_slot_empty is_pool_index_gt;
        empty_or_insert_and_not_applied = and_not empty_or_insert (share_applied fl);
        apply_delta = b_and empty_or_insert_and_not_applied is_enabled;
        applied = b_or (share_applied fl) apply_delta;
        sh = select_public_pool_share_target apply_delta new_share sh;
        sh = select_public_pool_share_target (use_prev fl) old_prev sh;
        prev = b_or apply_delta (use_prev fl) in
    circ_bind (is_equal (public_pool_index sh) (public_pool_index new_share)) (\<lambda>is_pool_index_eq.
    let is_pool_index_eq_and_not_applied = and_not is_pool_index_eq applied;
        apply_delta = b_and is_pool_index_eq_and_not_applied is_enabled;
        applied = b_or applied apply_delta;
        sh = sh\<lparr>share_amount := b_add (share_amount sh) (mul_bool apply_delta (share_amount new_share)),
          principal_amount := b_add (principal_amount sh) (mul_bool apply_delta (principal_amount new_share)),
          entry_timestamp := b_add (entry_timestamp sh) (mul_bool apply_delta (entry_timestamp new_share))\<rparr> in
    circ_bind (is_zero (share_amount sh)) (\<lambda>is_new_share_amount_empty.
    let next_flag = select_bool apply_delta is_new_share_amount_empty (use_next fl);
        sh = select_public_pool_share_target next_flag old_next sh in
    circ_return (sh, \<lparr>share_applied = applied, use_next = next_flag, use_prev = prev\<rparr>)))))"

text \<open>The pass: the neighbours are those of the list before the pass, with an empty sh beyond the ends.\<close>

fun pool_share_loop ::
  "target \<Rightarrow> public_pool_share \<Rightarrow> public_pool_share \<Rightarrow> public_pool_share list \<Rightarrow> share_flags \<Rightarrow> (public_pool_share list \<times> share_flags) circ" where
  "pool_share_loop is_enabled new_share old_prev [] fl = circ_return ([], fl)"
| "pool_share_loop is_enabled new_share old_prev (sh # shares) fl =
    circ_bind (pool_share_step is_enabled new_share old_prev sh (case shares of [] \<Rightarrow> empty_pool_share (Const 0) | s # _ \<Rightarrow> s) fl) (\<lambda>(sh', fl).
    circ_bind (pool_share_loop is_enabled new_share sh shares fl) (\<lambda>(shares', fl).
    circ_return (sh' # shares', fl)))"

definition apply_pool_share_delta :: "target \<Rightarrow> target \<Rightarrow> target \<Rightarrow> target \<Rightarrow> target \<Rightarrow> public_pool_share list \<Rightarrow> public_pool_share list circ" where
  "apply_pool_share_delta is_enabled pool_index share_delta entry_usdc_delta entry_timestamp_delta shares =
    (let new_share = \<lparr>public_pool_index = pool_index, share_amount = share_delta, principal_amount = entry_usdc_delta, entry_timestamp = entry_timestamp_delta\<rparr> in
    circ_bind (is_not_zero share_delta) (\<lambda>is_share_delta_non_zero.
    let is_enabled = b_and is_enabled is_share_delta_non_zero in
    circ_bind (pool_share_loop is_enabled new_share (empty_pool_share (Const 0)) shares \<lparr>share_applied = Const 0, use_next = Const 0, use_prev = Const 0\<rparr>) (\<lambda>(new_shares, fl).
    circ_bind (is_not_zero (share_amount (shares ! (SHARES_LIST_SIZE - 1)))) (\<lambda>last_pool_share_before_non_empty.
    let not_enough_slots = b_and last_pool_share_before_non_empty (use_prev fl) in
    circ_bind (conditional_assert_false is_enabled not_enough_slots) (\<lambda>_.
    circ_bind (conditional_assert_true is_enabled (share_applied fl)) (\<lambda>_.
    circ_return new_shares))))))"

section \<open>Sorted lists of shares\<close>

text \<open>Pool, shares, principal and time; the last three are field elements, because the changes may be negative.\<close>

type_synonym share_state = "nat \<times> gf \<times> gf \<times> gf"

abbreviation no_share :: share_state where "no_share \<equiv> (0, 0, 0, 0)"

definition share_is :: "public_pool_share \<Rightarrow> share_state \<Rightarrow> bool" where
  "share_is s = (\<lambda>(i, a, p, t). uval (public_pool_index s) = i \<and> tval (share_amount s) = a \<and> tval (principal_amount s) = p \<and> tval (entry_timestamp s) = t)"

text \<open>The reference: add to the sh of the pool, insert it in order, or drop it when nothing is left.\<close>

fun update_shares :: "share_state \<Rightarrow> share_state list \<Rightarrow> share_state list" where
  "update_shares (k, d, c, e) [] = [(k, d, c, e)]"
| "update_shares (k, d, c, e) ((i, a, p, t) # q) =
    (if k < i then (k, d, c, e) # (i, a, p, t) # q
     else if i = k then if a + d = 0 then q else (i, a + d, p + c, t + e) # q
     else (i, a, p, t) # update_shares (k, d, c, e) q)"

definition shares_ok :: "share_state list \<Rightarrow> bool" where
  "shares_ok q \<longleftrightarrow> sorted_wrt (<) (map fst q) \<and> (\<forall>(i, a, p, t)\<in>set q. a \<noteq> 0 \<and> i < 2 ^ ACCOUNT_INDEX_BITS)"

definition shares_repr :: "public_pool_share list \<Rightarrow> share_state list \<Rightarrow> bool" where
  "shares_repr ss q \<longleftrightarrow> length q \<le> SHARES_LIST_SIZE \<and> shares_ok q \<and> list_all2 share_is ss (q @ replicate (SHARES_LIST_SIZE - length q) no_share)"

fun share_of :: "nat \<Rightarrow> share_state list \<Rightarrow> share_state" where
  "share_of k [] = (k, 0, 0, 0)"
| "share_of k ((i, a, p, t) # q) = (if i = k then (i, a, p, t) else share_of k q)"

lemma update_shares_bound: "x \<in> set (update_shares (k, d, c, e) q) \<Longrightarrow> fst x = k \<or> x \<in> set q"
  by (induction "(k, d, c, e)" q rule: update_shares.induct) (auto split: if_splits)

lemma update_shares_ok:
  assumes "shares_ok q" "d \<noteq> 0" "k < 2 ^ ACCOUNT_INDEX_BITS"
  shows "shares_ok (update_shares (k, d, c, e) q)"
  using assms(1)
proof (induction "(k, d, c, e)" q rule: update_shares.induct)
  case (2 i a p t q)
  have tail: "shares_ok q" and head: "\<forall>x\<in>set q. i < fst x" using "2.prems" by (auto simp: shares_ok_def)
  note keep = "2.prems"
  consider "k < i" | "i = k" | "i < k" by linarith
  then show ?case
  proof cases
    case 1
    then show ?thesis using keep head assms(2,3) by (auto simp: shares_ok_def)
  next
    case 2
    then show ?thesis using keep head by (auto simp: shares_ok_def)
  next
    case 3
    then have "shares_ok (update_shares (k, d, c, e) q)" using "2.hyps" tail by simp
    moreover have "\<forall>x\<in>set (update_shares (k, d, c, e) q). i < fst x"
    proof
      fix x assume "x \<in> set (update_shares (k, d, c, e) q)"
      from update_shares_bound [OF this] head 3 show "i < fst x" by auto
    qed
    ultimately show ?thesis using keep 3 by (auto simp: shares_ok_def)
  qed
qed (use assms in \<open>auto simp: shares_ok_def\<close>)

lemma share_of_update:
  assumes "shares_ok q" "d \<noteq> 0"
  shows "share_of k (update_shares (k, d, c, e) q) = (case share_of k q of (_, a, p, t) \<Rightarrow> if a + d = 0 then (k, 0, 0, 0) else (k, a + d, p + c, t + e))"
  using assms(1)
proof (induction "(k, d, c, e)" q rule: update_shares.induct)
  case (2 i a p t q)
  have tail: "shares_ok q" and head: "\<forall>x\<in>set q. i < fst x" using "2.prems" by (auto simp: shares_ok_def)
  have absent: "share_of k q = (k, 0, 0, 0)" if "\<forall>x\<in>set q. k < fst x" for q using that by (induction q) auto
  have "share_of k q = (k, 0, 0, 0)" if "k \<le> i" by (rule absent) (use that head in force)
  then show ?case using "2.hyps" tail assms(2) by (auto split: prod.splits)
qed (use assms in simp)

lemma share_of_other: "j \<noteq> k \<Longrightarrow> share_of j (update_shares (k, d, c, e) q) = share_of j q"
  by (induction "(k, d, c, e)" q rule: update_shares.induct) auto

section \<open>The pass over the slots\<close>

text \<open>What the pass does to slots: the new slots, whether the change was applied, and whether slots were shifted up.\<close>

fun shift_shares :: "share_state \<Rightarrow> share_state list \<Rightarrow> share_state list \<times> bool \<times> bool" where
  "shift_shares x [] = ([], False, False)"
| "shift_shares (k, d, c, e) ((i, a, p, t) # q) =
    (if a = 0 \<or> k < i then ((k, d, c, e) # butlast ((i, a, p, t) # q), True, True)
     else if i = k then (if a + d = 0 then q @ [no_share] else (i, a + d, p + c, t + e) # q, True, False)
     else (case shift_shares (k, d, c, e) q of (q', applied, shifted) \<Rightarrow> ((i, a, p, t) # q', applied, shifted)))"

lemma length_shift_shares: "length (fst (shift_shares x q)) = length q"
  by (induction x q rule: shift_shares.induct) (auto split: prod.splits)

lemma length_update_shares: "length (update_shares x q) \<le> Suc (length q)"
  by (induction x q rule: update_shares.induct) auto

lemma butlast_free: "0 < n \<Longrightarrow> butlast (q @ replicate n no_share) = q @ replicate (n - 1) no_share"
proof -
  assume "0 < n"
  then obtain m where n: "n = Suc m" by (cases n) auto
  have "replicate n no_share = replicate m no_share @ [no_share]" by (simp add: n replicate_append_same)
  then show ?thesis unfolding n by (simp only: append_assoc [symmetric] butlast_snoc) simp
qed

text \<open>With a free slot at the end the pass always succeeds; without one, only if no slot is needed.\<close>

lemma shift_shares_room:
  assumes "\<forall>(i, a, p, t)\<in>set q. a \<noteq> 0" "0 < n"
  shows "shift_shares (k, d, c, e) (q @ replicate n no_share) =
    (update_shares (k, d, c, e) q @ replicate (length q + n - length (update_shares (k, d, c, e) q)) no_share, True, length q < length (update_shares (k, d, c, e) q))"
  using assms(1)
proof (induction q)
  case Nil
  obtain m where n: "n = Suc m" using assms(2) by (cases n) auto
  have "butlast (replicate (Suc m) no_share) = replicate m no_share" using butlast_free [of "Suc m" "[]"] by simp
  then show ?case by (simp add: n del: butlast.simps)
next
  case (Cons y q)
  obtain i a p t where y: "y = (i, a, p, t)" by (cases y)
  have a: "a \<noteq> 0" and q: "\<forall>(i, a, p, t)\<in>set q. a \<noteq> 0" using Cons.prems by (auto simp: y)
  have insert_here: "butlast ((y # q) @ replicate n no_share) = y # q @ replicate (n - 1) no_share" using butlast_free [OF assms(2), of "y # q"] by simp
  have drop_here: "(q @ replicate n no_share) @ [no_share] = q @ replicate (Suc n) no_share" by (simp add: replicate_append_same)
  have len: "length (update_shares (k, d, c, e) q) \<le> length q + n" using length_update_shares [of "(k, d, c, e)" q] assms(2) by simp
  obtain m where n: "n = Suc m" using assms(2) by (cases n) auto
  show ?case
    using a Cons.IH [OF q] insert_here drop_here len by (auto simp: y n Suc_diff_le)
qed

lemma shift_shares_full:
  assumes "\<forall>(i, a, p, t)\<in>set q. a \<noteq> 0"
  shows "length (update_shares (k, d, c, e) q) \<le> length q \<Longrightarrow> shift_shares (k, d, c, e) q =
      (update_shares (k, d, c, e) q @ replicate (length q - length (update_shares (k, d, c, e) q)) no_share, True, False)"
    "length q < length (update_shares (k, d, c, e) q) \<Longrightarrow> fst (snd (shift_shares (k, d, c, e) q)) = snd (snd (shift_shares (k, d, c, e) q))"
  using assms
proof (induction q)
  case (Cons y q)
  obtain i a p t where y: "y = (i, a, p, t)" by (cases y)
  {
    case 1
    then show ?case using Cons.IH(1) by (auto simp: y Suc_diff_le split: if_splits)
  next
    case 2
    then show ?case using Cons.IH(2) by (auto simp: y split: if_splits prod.splits)
  }
qed simp_all

lemma share_is_select:
  assumes "bval c e" "share_is a x" "share_is b y"
  shows "share_is (select_public_pool_share_target c a b) (if e then x else y)"
  using assms by (cases e) (auto simp: share_is_def select_public_pool_share_target_def uval_select [OF assms(1)] tval_select [OF assms(1)])

lemma share_is_empty: "share_is (empty_pool_share (Const 0)) no_share"
  by (simp add: share_is_def empty_pool_share_def)

definition phase_is :: "share_flags \<Rightarrow> bool \<Rightarrow> bool \<Rightarrow> bool \<Rightarrow> bool" where
  "phase_is fl a n p \<longleftrightarrow> bval (share_applied fl) a \<and> bval (use_next fl) n \<and> bval (use_prev fl) p"

text \<open>One slot: the slot stays, or is replaced, changed, shifted up or shifted down.\<close>

definition slot_result :: "bool \<Rightarrow> share_state \<Rightarrow> share_state \<Rightarrow> share_state \<Rightarrow> share_state \<Rightarrow> bool \<times> bool \<times> bool \<Rightarrow> share_state \<times> bool \<times> bool \<times> bool" where
  "slot_result en = (\<lambda>(k, d, c, e) prev (i, a, p, t) nxt (applied, down, up).
    if up then (prev, True, False, True)
    else if down then (nxt, True, True, False)
    else if applied \<or> \<not> en then ((i, a, p, t), applied, False, False)
    else if a = 0 \<or> k < i then ((k, d, c, e), True, False, True)
    else if i = k then (if a + d = 0 then nxt else (i, a + d, p + c, t + e), True, a + d = 0, False)
    else ((i, a, p, t), False, False, False))"

lemma share_is_add:
  assumes "bval c f" "share_is s (i, a, p, t)" "share_is new (k, d, pc, e)"
  shows "share_is (s\<lparr>share_amount := b_add (share_amount s) (mul_bool c (share_amount new)), principal_amount := b_add (principal_amount s) (mul_bool c (principal_amount new)),
      entry_timestamp := b_add (entry_timestamp s) (mul_bool c (entry_timestamp new))\<rparr>) (if f then (i, a + d, p + pc, t + e) else (i, a, p, t))"
  using assms by (cases f) (auto simp: share_is_def mul_bool_def tval_simps bval_def)

lemma share_amount_zero: "share_is s y \<Longrightarrow> implements (is_zero (share_amount s)) (\<lambda>r. bval r (fst (snd y) = 0))"
  using implements_is_zero [of "share_amount s"] by (cases y) (auto simp: share_is_def)

lemma share_index_equal: "share_is s y \<Longrightarrow> share_is new x \<Longrightarrow> implements (is_equal (public_pool_index s) (public_pool_index new)) (\<lambda>r. bval r (fst y = fst x))"
  using implements_is_equal [of "public_pool_index s" "public_pool_index new"] by (cases y; cases x) (auto simp: share_is_def to_canonical_inject [symmetric])

lemma implements_pool_share_step:
  assumes en: "bval ent en" and x: "share_is new x" "fst x < 2 ^ ACCOUNT_INDEX_BITS" and s: "share_is s y" "fst y < 2 ^ ACCOUNT_INDEX_BITS"
    and prev: "share_is s0 y0" and nxt: "share_is s1 y1" and fl: "phase_is fl ap dn up" and phase: "up \<longrightarrow> ap" "dn \<longrightarrow> ap \<and> \<not> up"
  shows "implements (pool_share_step ent new s0 s s1 fl) (\<lambda>(s', fl'). case slot_result en x y0 y y1 (ap, dn, up) of (z, ap', dn', up') \<Rightarrow>
    share_is s' z \<and> phase_is fl' ap' dn' up')"
proof -
  obtain i a p t where y: "y = (i, a, p, t)" by (cases y)
  obtain k d c e where xk: "x = (k, d, c, e)" by (cases x)
  have fl': "bval (share_applied fl) ap" "bval (use_next fl) dn" "bval (use_prev fl) up" using fl by (simp_all add: phase_is_def)
  have gt: "implements (is_gt (public_pool_index s) (public_pool_index new) ACCOUNT_INDEX_BITS) (\<lambda>r. bval r (fst x < fst y))"
    using implements_is_gt [OF cmp_okI cmp_okI, of ACCOUNT_INDEX_BITS "public_pool_index s" "public_pool_index new"] x s
    by (simp add: y xk share_is_def ACCOUNT_INDEX_BITS_def)
  show ?thesis
    unfolding pool_share_step_def Let_def
  proof (rule implements_bind [OF gt], rule implements_bind [OF share_amount_zero [OF s(1)]], goal_cases)
    case (1 g z)
    note A1 = bval_and [OF bval_and_not [OF bval_or [OF 1(2) 1(1)] fl'(1)] en]
    note share2 = share_is_select [OF fl'(3) prev share_is_select [OF A1 x(1) s(1)]]
    note applied1 = bval_or [OF fl'(1) A1]
    let ?A1 = "((fst (snd y) = 0 \<or> fst x < fst y) \<and> \<not> ap) \<and> en"
    let ?w = "if up then y0 else if ?A1 then x else y"
    obtain i' a' p' t' where w: "?w = (i', a', p', t')" by (cases ?w)
    show ?case
    proof (rule implements_bind [OF share_index_equal [OF share2 x(1)]], goal_cases)
      case (1 q)
      note A2 = bval_and [OF bval_and_not [OF 1 applied1] en]
      note share3 = share_is_add [OF A2 share2 [unfolded w] x(1) [unfolded xk]]
      show ?case
      proof (rule implements_bind [OF share_amount_zero [OF share3]], rule implements_return, unfold prod.case, goal_cases)
        case (1 z2)
        note dn = bval_select_flag [OF A2 1 fl'(2)]
        note share4 = share_is_select [OF dn nxt share3]
        note applied2 = bval_or [OF applied1 A2] note up = bval_or [OF A1 fl'(3)]
        have eq: "slot_result en x y0 y y1 (ap, dn, up) =
          (if if (fst ?w = fst x \<and> \<not> (ap \<or> ?A1)) \<and> en then fst (snd (if (fst ?w = fst x \<and> \<not> (ap \<or> ?A1)) \<and> en then (i', a' + d, p' + c, t' + e) else (i', a', p', t'))) = 0 else dn
            then y1 else if (fst ?w = fst x \<and> \<not> (ap \<or> ?A1)) \<and> en then (i', a' + d, p' + c, t' + e) else (i', a', p', t'),
           (ap \<or> ?A1) \<or> (fst ?w = fst x \<and> \<not> (ap \<or> ?A1)) \<and> en,
           if (fst ?w = fst x \<and> \<not> (ap \<or> ?A1)) \<and> en then fst (snd (if (fst ?w = fst x \<and> \<not> (ap \<or> ?A1)) \<and> en then (i', a' + d, p' + c, t' + e) else (i', a', p', t'))) = 0 else dn,
           ?A1 \<or> up)"
          using phase w by (cases up; cases ap; cases dn; cases en) (auto simp: slot_result_def y xk split: if_splits)
        show ?case
          unfolding eq prod.case phase_is_def using share4 dn applied2 up by (simp only: share_flags.simps simp_thms)
      qed
    qed
  qed
qed

fun share_pass :: "bool \<Rightarrow> share_state \<Rightarrow> share_state \<Rightarrow> share_state list \<Rightarrow> bool \<times> bool \<times> bool \<Rightarrow> share_state list \<times> bool \<times> bool \<times> bool" where
  "share_pass en x y0 [] st = ([], st)"
| "share_pass en x y0 (y # ys) st =
    (case slot_result en x y0 y (case ys of [] \<Rightarrow> no_share | z # _ \<Rightarrow> z) st of (y', st') \<Rightarrow>
     case share_pass en x y ys st' of (ys', st'') \<Rightarrow> (y' # ys', st''))"

text \<open>The phases: slots move up, slots move down, nothing more to do, the search.\<close>

lemma pass_up: "share_pass en x y0 ys (True, False, True) = (if ys = [] then [] else y0 # butlast ys, True, False, True)"
proof (induction ys arbitrary: y0)
  case (Cons y ys)
  then show ?case by (cases x; cases y) (simp add: slot_result_def)
qed simp

lemma pass_down: "share_pass en x y0 ys (True, True, False) = (if ys = [] then [] else tl ys @ [no_share], True, True, False)"
proof (induction ys arbitrary: y0)
  case (Cons y ys)
  then show ?case by (cases x; cases y; cases ys) (simp_all add: slot_result_def)
qed simp

lemma pass_done: "share_pass en x y0 ys (True, False, False) = (ys, True, False, False)"
proof (induction ys arbitrary: y0)
  case (Cons y ys)
  then show ?case by (cases x; cases y) (simp add: slot_result_def)
qed simp

lemma pass_off: "share_pass False x before ys (False, False, False) = (ys, False, False, False)"
proof (induction ys arbitrary: before)
  case (Cons y ys)
  then show ?case by (cases x; cases y) (simp add: slot_result_def)
qed simp

lemma pass_search: "case share_pass True x before ys (False, False, False) of (ys', ap, dn, up) \<Rightarrow> shift_shares x ys = (ys', ap, up)"
proof (induction ys arbitrary: before)
  case (Cons y ys)
  obtain i a p t where y: "y = (i, a, p, t)" by (cases y)
  obtain k d c e where x: "x = (k, d, c, e)" by (cases x)
  consider (insert) "a = 0 \<or> k < i" | (gone) "a \<noteq> 0" "i = k" "a + d = 0" | (changed) "a \<noteq> 0" "i = k" "a + d \<noteq> 0" | (later) "a \<noteq> 0" "i < k" by linarith
  then show ?case
  proof cases
    case insert
    then show ?thesis by (simp add: slot_result_def y x pass_up)
  next
    case gone
    then have first: "slot_result True x before y nxt (False, False, False) = (nxt, True, True, False)" for nxt by (simp add: slot_result_def y x)
    have "(case ys of [] \<Rightarrow> no_share | z # _ \<Rightarrow> z) # (if ys = [] then [] else tl ys @ [no_share]) = ys @ [no_share]" by (cases ys) simp_all
    then have "share_pass True x before (y # ys) (False, False, False) = (ys @ [no_share], True, True, False)" by (simp add: first pass_down)
    moreover have "shift_shares x (y # ys) = (ys @ [no_share], True, False)" using gone by (simp add: y x)
    ultimately show ?thesis by (simp only: prod.case)
  next
    case changed
    then show ?thesis by (simp add: slot_result_def y x pass_done)
  next
    case later
    then show ?thesis using Cons.IH [of y] by (auto simp: slot_result_def y x split: prod.splits)
  qed
qed simp

lemma slot_result_phase:
  "slot_result en x y0 y y1 (ap, dn, up) = (z, ap', dn', up') \<Longrightarrow> up \<longrightarrow> ap \<Longrightarrow> dn \<longrightarrow> ap \<and> \<not> up \<Longrightarrow> (up' \<longrightarrow> ap') \<and> (dn' \<longrightarrow> ap' \<and> \<not> up')"
  by (cases x; cases y) (auto simp: slot_result_def split: if_splits)

lemma implements_pool_share_loop:
  assumes en: "bval ent en" and x: "share_is new x" "fst x < 2 ^ ACCOUNT_INDEX_BITS"
    and "list_all2 share_is ss ys" "\<forall>y\<in>set ys. fst y < 2 ^ ACCOUNT_INDEX_BITS" "share_is s0 y0" "phase_is fl ap dn up" "up \<longrightarrow> ap" "dn \<longrightarrow> ap \<and> \<not> up"
  shows "implements (pool_share_loop ent new s0 ss fl) (\<lambda>(ss', fl'). case share_pass en x y0 ys (ap, dn, up) of (zs, ap', dn', up') \<Rightarrow>
    list_all2 share_is ss' zs \<and> phase_is fl' ap' dn' up')"
  using assms(4-)
proof (induction ss ys arbitrary: s0 y0 fl ap dn up rule: list_all2_induct)
  case Nil
  then show ?case by (simp add: implements_return)
next
  case (Cons s ss y ys)
  let ?s1 = "case ss of [] \<Rightarrow> empty_pool_share (Const 0) | s # _ \<Rightarrow> s" and ?y1 = "case ys of [] \<Rightarrow> no_share | z # _ \<Rightarrow> z"
  have s1: "share_is ?s1 ?y1" using Cons.hyps(2) share_is_empty by (cases ss; cases ys) auto
  obtain z ap1 dn1 up1 where r: "slot_result en x y0 y ?y1 (ap, dn, up) = (z, ap1, dn1, up1)" by (cases "slot_result en x y0 y ?y1 (ap, dn, up)") auto
  note phase = slot_result_phase [OF r Cons.prems(4,5)]
  have step: "implements (pool_share_step ent new s0 s ?s1 fl) (\<lambda>(s', fl'). share_is s' z \<and> phase_is fl' ap1 dn1 up1)"
    using implements_pool_share_step [OF en x Cons.hyps(1) _ Cons.prems(2) s1 Cons.prems(3-5)] Cons.prems(1) by (simp add: r)
  obtain zs ap2 dn2 up2 where rest: "share_pass en x y ys (ap1, dn1, up1) = (zs, ap2, dn2, up2)" by (cases "share_pass en x y ys (ap1, dn1, up1)") auto
  show ?case
    unfolding pool_share_loop.simps
  proof (rule implements_bind [OF step], unfold split_paired_all prod.case, elim conjE)
    fix s' fl' assume s': "share_is s' z" and fl': "phase_is fl' ap1 dn1 up1"
    have "implements (pool_share_loop ent new s ss fl') (\<lambda>(ss', fl'). list_all2 share_is ss' zs \<and> phase_is fl' ap2 dn2 up2)"
      using Cons.IH [OF _ Cons.hyps(1) fl'] phase Cons.prems(1) by (simp add: rest)
    then show "implements (circ_bind (pool_share_loop ent new s ss fl') (\<lambda>(shares', fl). circ_return (s' # shares', fl)))
      (\<lambda>(ss', fl'). case share_pass en x y0 (y # ys) (ap, dn, up) of (zs, ap', dn', up') \<Rightarrow> list_all2 share_is ss' zs \<and> phase_is fl' ap' dn' up')"
      by (rule implements_bind, unfold split_paired_all prod.case, elim conjE) (rule implements_return, simp add: r rest s')
  qed
qed

section \<open>The update of the slots\<close>

lemma shares_reprD:
  assumes "shares_repr ss q"
  shows "list_all2 share_is ss (q @ replicate (16 - length q) no_share)" "\<forall>(i, a, p, t)\<in>set q. a \<noteq> 0" "length ss = 16"
    "\<forall>y\<in>set (q @ replicate (16 - length q) no_share). fst y < 2 ^ ACCOUNT_INDEX_BITS" "length q \<le> 16" "shares_ok q"
proof -
  show slots: "list_all2 share_is ss (q @ replicate (16 - length q) no_share)" and len: "length q \<le> 16" and ok: "shares_ok q"
    using assms by (simp_all add: shares_repr_def SHARES_LIST_SIZE_def)
  show "length ss = 16" using list_all2_lengthD [OF slots] len by simp
  show "\<forall>(i, a, p, t)\<in>set q. a \<noteq> 0" "\<forall>y\<in>set (q @ replicate (16 - length q) no_share). fst y < 2 ^ ACCOUNT_INDEX_BITS"
    using ok by (auto simp: shares_ok_def)
qed

lemma shares_repr_last:
  assumes "shares_repr ss q"
  shows "uval (share_amount (ss ! (SHARES_LIST_SIZE - 1))) \<noteq> 0 \<longleftrightarrow> length q = 16"
proof -
  note r = shares_reprD [OF assms]
  have "share_is (ss ! 15) ((q @ replicate (16 - length q) no_share) ! 15)" using list_all2_nthD [OF r(1), of 15] r(3) by simp
  moreover have "fst (snd ((q @ replicate (16 - length q) no_share) ! 15)) \<noteq> 0 \<longleftrightarrow> length q = 16"
  proof (cases "length q = 16")
    case True
    then have "q ! 15 \<in> set q" by simp
    from bspec [OF r(2) this] have "fst (snd (q ! 15)) \<noteq> 0" by (simp split: prod.splits)
    then show ?thesis using True by (simp add: nth_append)
  qed (use r(5) in \<open>simp add: nth_append\<close>)
  ultimately show ?thesis by (auto simp: share_is_def SHARES_LIST_SIZE_def)
qed

lemma realises_apply_pool_share_delta:
  fixes d c t k :: target
  assumes en: "bval e en" and q: "shares_repr ss q" and k: "uval k < 2 ^ ACCOUNT_INDEX_BITS"
  defines "on \<equiv> en \<and> tval d \<noteq> 0" and "q' \<equiv> update_shares (uval k, tval d, tval c, tval t) q"
  shows "realises (apply_pool_share_delta e k d c t ss) (on \<longrightarrow> length q' \<le> SHARES_LIST_SIZE) (\<lambda>ss'. shares_repr ss' (if on then q' else q))"
proof -
  let ?x = "(uval k, tval d, tval c, tval t)" and ?ys = "q @ replicate (16 - length q) no_share"
  let ?new = "\<lparr>public_pool_index = k, share_amount = d, principal_amount = c, entry_timestamp = t\<rparr>"
  note r = shares_reprD [OF q]
  have new: "share_is ?new ?x" "fst ?x < 2 ^ ACCOUNT_INDEX_BITS" using k by (simp_all add: share_is_def)
  have start: "phase_is \<lparr>share_applied = Const 0, use_next = Const 0, use_prev = Const 0\<rparr> False False False" using bval_Const(2) by (simp add: phase_is_def)
  have nz: "implements (is_not_zero d) (\<lambda>z. bval z (tval d \<noteq> 0))" using implements_is_not_zero [of d] by simp
  obtain zs ap dn up where pass: "share_pass on ?x no_share ?ys (False, False, False) = (zs, ap, dn, up)" by (cases "share_pass on ?x no_share ?ys (False, False, False)") auto
  have outcome: "if on then shift_shares ?x ?ys = (zs, ap, up) else zs = ?ys \<and> \<not> ap \<and> \<not> up"
    using pass_search [where x = ?x and before = no_share and ys = ?ys] pass_off [where x = ?x and before = no_share and ys = ?ys] pass by (cases on) simp_all
  have accepted: "(on \<longrightarrow> \<not> (length q = 16 \<and> up)) \<and> (on \<longrightarrow> ap) \<longleftrightarrow> (on \<longrightarrow> length q' \<le> SHARES_LIST_SIZE)"
  proof (cases "length q = 16")
    case True
    then show ?thesis
      using shift_shares_full [OF r(2), of "uval k" "tval d" "tval c" "tval t"] outcome
      by (cases on; cases "length q' \<le> 16") (auto simp: q'_def SHARES_LIST_SIZE_def)
  next
    case False
    then have "0 < 16 - length q" "length q' \<le> 16" using r(5) length_update_shares [of ?x q] by (auto simp: q'_def)
    then show ?thesis using shift_shares_room [OF r(2), of "16 - length q" "uval k" "tval d" "tval c" "tval t"] outcome False
      by (cases on) (auto simp: SHARES_LIST_SIZE_def)
  qed
  have result: "shares_repr ss' (if on then q' else q)" if zs: "list_all2 share_is ss' zs" and fits: "on \<longrightarrow> length q' \<le> SHARES_LIST_SIZE" for ss'
  proof (cases on)
    case True
    have len: "length q' \<le> 16" using fits True by (simp add: SHARES_LIST_SIZE_def)
    have "zs = q' @ replicate (16 - length q') no_share"
    proof (cases "length q = 16")
      case full: True
      then show ?thesis using shift_shares_full(1) [OF r(2), of "uval k" "tval d" "tval c" "tval t"] outcome True len by (simp add: q'_def)
    next
      case False
      then have "0 < 16 - length q" using r(5) by simp
      then show ?thesis using shift_shares_room [OF r(2), of "16 - length q" "uval k" "tval d" "tval c" "tval t"] outcome True r(5) by (simp add: q'_def)
    qed
    moreover have "shares_ok q'" using update_shares_ok [OF r(6)] k True by (simp add: q'_def on_def)
    ultimately show ?thesis using zs True len by (simp add: shares_repr_def SHARES_LIST_SIZE_def)
  next
    case False
    then show ?thesis using zs outcome r(5,6) by (simp add: shares_repr_def SHARES_LIST_SIZE_def)
  qed
  show ?thesis
    unfolding apply_pool_share_delta_def Let_def
  proof (rule realises_when [where P = "(on \<longrightarrow> \<not> (length q = 16 \<and> up)) \<and> (on \<longrightarrow> ap)"], rule realises_after [OF nz], goal_cases)
    case (1 z)
    have on: "bval (b_and e z) on" unfolding on_def by (rule bval_and [OF en 1])
    note loop = implements_pool_share_loop [OF on new r(1,4) share_is_empty start, unfolded pass prod.case]
    show ?case
    proof (rule realises_after [OF loop], simp, simp, unfold split_paired_all prod.case, elim conjE, rule realises_after [OF implements_is_not_zero], goal_cases)
      case (1 ss' fl l)
      note l = 1(3) [unfolded shares_repr_last [OF q]]
      have fl: "bval (use_prev fl) up" "bval (share_applied fl) ap" using 1(2) by (simp_all add: phase_is_def)
      show ?case
      proof (rule realises_bind [OF realises_conditional_assert_false [OF on bval_and [OF l fl(1)]]],
          rule realises_then_return [OF realises_conditional_assert_true [OF on fl(2)], where R = "\<lambda>ss'. shares_repr ss' (if on then q' else q)"])
        assume "on \<longrightarrow> \<not> (length q = 16 \<and> up)" "on \<longrightarrow> ap"
        then show "shares_repr ss' (if on then q' else q)" using result [OF 1(1)] accepted by blast
      qed
    qed
  next
    case 2
    show ?case by (rule accepted)
  qed
qed

text \<open>The lookup: the last slot with the index; free slots have index 0.\<close>

lemma share_of_absent: "k \<notin> fst ` set q \<Longrightarrow> share_of k q = (k, 0, 0, 0)"
  by (induction q) auto

lemma implements_get_public_pool_share:
  assumes q: "shares_repr ss q" and k: "uval k \<noteq> 0"
  shows "implements (get_public_pool_share k ss) (\<lambda>s. share_is s (share_of (uval k) q))"
proof -
  note r = shares_reprD [OF q]
  have pass: "implements (circ_fold (\<lambda>share res. circ_bind (is_equal (public_pool_index share) k) (\<lambda>eq. circ_return (select_public_pool_share_target eq share res))) ss res)
      (\<lambda>s. share_is s (fold (\<lambda>y z. if fst y = uval k then y else z) ys z))"
    if "list_all2 share_is ss ys" "share_is res z" for ss ys res z
    using that
  proof (induction ss ys arbitrary: res z rule: list_all2_induct)
    case (Cons s ss y ys)
    have eq: "implements (is_equal (public_pool_index s) k) (\<lambda>r. bval r (fst y = uval k))"
      using implements_is_equal [of "public_pool_index s" k] Cons.hyps(1) by (cases y) (auto simp: share_is_def to_canonical_inject [symmetric])
    show ?case
      unfolding circ_fold.simps circ_bind_assoc
      by (rule implements_bind [OF eq], simp only: circ_return_bind fold_Cons comp_apply)
        (rule Cons.IH, rule share_is_select [OF _ Cons.hyps(1) Cons.prems])
  qed (simp add: implements_return)
  have frees: "fold (\<lambda>y z. if fst y = uval k then y else z) (replicate n no_share) z = z" for n z
    using k by (induction n) simp_all
  have found: "fold (\<lambda>y z. if fst y = uval k then y else z) q z = (if uval k \<in> fst ` set q then share_of (uval k) q else z)" if "sorted_wrt (<) (map fst q)" for q and z :: share_state
    using that
  proof (induction q arbitrary: z)
    case (Cons y q)
    obtain i a p t where y: "y = (i, a, p, t)" by (cases y)
    have "uval k \<notin> fst ` set q" if "i = uval k" using Cons.prems that by (auto simp: y)
    then show ?case using Cons by (auto simp: y)
  qed simp
  have sorted: "sorted_wrt (<) (map fst q)" using r(6) by (simp add: shares_ok_def)
  have start: "share_is (empty_pool_share k) (uval k, 0, 0, 0)" by (simp add: share_is_def empty_pool_share_def)
  have "fold (\<lambda>y z. if fst y = uval k then y else z) (q @ replicate (16 - length q) no_share) (uval k, 0, 0, 0) = share_of (uval k) q"
    using found [OF sorted] share_of_absent [of "uval k" q] frees by (simp del: fold_replicate)
  with pass [OF r(1) start] show ?thesis unfolding get_public_pool_share_def by simp
qed

section \<open>Properties\<close>

text \<open>
  C26. Buying and selling shares of a pool refines the update of a sorted list: the pass over the slots is accepted exactly
  when the updated list fits the sixteen slots, and leaves them holding it, still strictly sorted by pool, without empty
  shares and without holes.
\<close>
theorem pool_share_update_refines:
  assumes "bval e True" "shares_repr ss q" "uval k < 2 ^ ACCOUNT_INDEX_BITS" "tval d \<noteq> 0"
    and "q' = update_shares (uval k, tval d, tval c, tval t) q"
  shows "realises (apply_pool_share_delta e k d c t ss) (length q' \<le> SHARES_LIST_SIZE) (\<lambda>ss'. shares_repr ss' q' \<and> sorted_wrt (<) (map fst q'))"
  by (rule realises_weaken [OF realises_apply_pool_share_delta [OF assms(1-3), of d c t]])
    (use assms(4,5) in \<open>auto simp: shares_repr_def shares_ok_def\<close>)

text \<open>
  C27. After an update, looking up a pool finds exactly what was paid in: the share of the pool has changed by the amounts of
  the update, or is empty when nothing is left, and the share of every other pool is what it was.
\<close>
theorem pool_share_lookup:
  assumes "bval e True" "shares_repr ss q" "uval k < 2 ^ ACCOUNT_INDEX_BITS" "tval d \<noteq> 0" "uval j \<noteq> 0"
    and "length (update_shares (uval k, tval d, tval c, tval t) q) \<le> SHARES_LIST_SIZE"
  shows "implements (circ_bind (apply_pool_share_delta e k d c t ss) (get_public_pool_share j)) (\<lambda>s. share_is s
    (if uval j = uval k then (case share_of (uval k) q of (_, a, p, u) \<Rightarrow> if a + tval d = 0 then (uval k, 0, 0, 0) else (uval k, a + tval d, p + tval c, u + tval t))
     else share_of (uval j) q))"
proof -
  let ?q = "update_shares (uval k, tval d, tval c, tval t) q"
  have update: "implements (apply_pool_share_delta e k d c t ss) (\<lambda>ss'. shares_repr ss' ?q)"
    using realises_implements [OF realises_apply_pool_share_delta [OF assms(1-3), of d c t]] assms(4,6) by simp
  have result: "share_of (uval j) ?q = (if uval j = uval k then (case share_of (uval k) q of (_, a, p, u) \<Rightarrow> if a + tval d = 0 then (uval k, 0, 0, 0) else (uval k, a + tval d, p + tval c, u + tval t))
     else share_of (uval j) q)"
    using share_of_update [OF shares_reprD(6) [OF assms(2)] assms(4)] share_of_other [of "uval j" "uval k"] by simp
  show ?thesis
    unfolding result [symmetric] by (rule implements_bind [OF update]) (rule implements_get_public_pool_share [OF _ assms(5)])
qed

definition example_shares :: "public_pool_share list" where
  "example_shares = \<lparr>public_pool_index = Const 5, share_amount = Const 10, principal_amount = Const 100, entry_timestamp = Const 1\<rparr> #
     \<lparr>public_pool_index = Const 9, share_amount = Const 20, principal_amount = Const 300, entry_timestamp = Const 2\<rparr> # replicate 14 (empty_pool_share (Const 0))"

lemma example_shares_repr: "shares_repr example_shares [(5, 10, 100, 1), (9, 20, 300, 2)]"
proof -
  have "list_all2 share_is (replicate 14 (empty_pool_share (Const 0))) (replicate 14 no_share)"
    using share_is_empty by (simp add: list_all2_conv_all_nth)
  then show ?thesis by (simp add: shares_repr_def shares_ok_def example_shares_def SHARES_LIST_SIZE_def share_is_def ACCOUNT_INDEX_BITS_def)
qed

text \<open>Shares of pool 7 are inserted between those of pools 5 and 9; those of pool 5 are all sold.\<close>

lemma pool_share_update_refines_witness:
  "implements (apply_pool_share_delta (Const 1) (Const 7) (Const 4) (Const 40) (Const 3) example_shares)
    (\<lambda>ss'. shares_repr ss' [(5, 10, 100, 1), (7, 4, 40, 3), (9, 20, 300, 2)])"
  using pool_share_update_refines [OF bval_Const(1) example_shares_repr, of "Const 7" "Const 4" _ "Const 40" "Const 3", OF _ _ refl]
  by (simp add: realises_def SHARES_LIST_SIZE_def ACCOUNT_INDEX_BITS_def implements_def sound_def complete_def)

lemma pool_share_lookup_witness:
  "implements (circ_bind (apply_pool_share_delta (Const 1) (Const 5) (Const (- 10)) (Const (- 100)) (Const (- 1)) example_shares) (get_public_pool_share (Const 9)))
    (\<lambda>s. share_is s (9, 20, 300, 2))"
  using pool_share_lookup [OF bval_Const(1) example_shares_repr, of "Const 5" "Const (- 10)" "Const 9" "Const (- 100)" "Const (- 1)"]
  by (simp add: SHARES_LIST_SIZE_def ACCOUNT_INDEX_BITS_def)

end
