(* ===== verification/Accounts.thy ===== *)
theory Accounts
  imports Pool_Shares Unsafe_Big Register_Stack Account_Position Merkle
begin

text \<open>
  The account record and the withdrawals that wait in it (\<open>types/account/account.rs\<close>, \<open>types/pending_unlock.rs\<close>). An
  account has eight slots for amounts that are unlocked later; they are a queue: a new one takes the first free slot, the
  oldest one leaves from the front.
\<close>

section \<open>The circuit\<close>

definition MAX_PENDING_UNLOCKS :: nat where "MAX_PENDING_UNLOCKS = 8"

record pending_unlock =
  unlock_timestamp :: target
  unlock_asset_index :: target
  unlock_amount :: biguint

definition empty_pending_unlock :: pending_unlock where
  "empty_pending_unlock = \<lparr>unlock_timestamp = Const 0, unlock_asset_index = Const 0, unlock_amount = zero_biguint\<rparr>"

definition select_pending_unlock_target :: "target \<Rightarrow> pending_unlock \<Rightarrow> pending_unlock \<Rightarrow> pending_unlock" where
  "select_pending_unlock_target flag a b =
    \<lparr>unlock_timestamp = select flag (unlock_timestamp a) (unlock_timestamp b),
     unlock_asset_index = select flag (unlock_asset_index a) (unlock_asset_index b),
     unlock_amount = select_biguint flag (unlock_amount a) (unlock_amount b)\<rparr>"

record account_target =
  acc_master_account_index :: target
  acc_account_index :: target
  acc_l1_address :: biguint
  acc_account_type :: target
  acc_account_trading_mode :: target
  acc_margined_assets :: "account_margined_asset list"
  acc_aggregated_balances :: "bigint list"
  acc_positions :: "account_position list"
  acc_approved_integrators :: "approved_integrator list"
  acc_pending_unlocks :: "pending_unlock list"
  acc_public_pool_shares :: "public_pool_share list"
  acc_public_pool_info :: public_pool_info
  acc_total_order_count :: target
  acc_total_non_cross_order_count :: target
  acc_cancel_all_time :: target
  acc_api_key_root :: hash_out_target
  acc_account_orders_root :: hash_out_target
  acc_aggregated_balances_root :: hash_out_target
  acc_asset_root :: hash_out_target
  acc_partial_hash :: hash_out_target
  acc_partial_hash_for_pub_data :: hash_out_target

definition should_dms_be_triggered :: "target \<Rightarrow> account_target \<Rightarrow> target circ" where
  "should_dms_be_triggered block_created_at a =
    circ_bind (is_not_zero (acc_cancel_all_time a)) (\<lambda>is_cancel_all_time_not_zero.
    circ_bind (is_lte (acc_cancel_all_time a) block_created_at TIMESTAMP_BITS) (\<lambda>is_cancel_all_time_lte_block_created_at.
    circ_return (multi_and [is_cancel_all_time_not_zero, is_cancel_all_time_lte_block_created_at])))"

definition is_unified_mode :: "account_target \<Rightarrow> target" where
  "is_unified_mode a = acc_account_trading_mode a"

definition pop_pending_unlock :: "target \<Rightarrow> pending_unlock list \<Rightarrow> pending_unlock \<times> pending_unlock list" where
  "pop_pending_unlock is_enabled us =
    (us ! 0,
     map (\<lambda>i. select_pending_unlock_target is_enabled (us ! (i + 1)) (us ! i)) [0..<MAX_PENDING_UNLOCKS - 1] @
     [select_pending_unlock_target is_enabled empty_pending_unlock (us ! (MAX_PENDING_UNLOCKS - 1))])"

definition get_total_unlock_amount :: "pending_unlock list \<Rightarrow> biguint circ" where
  "get_total_unlock_amount us =
    circ_bind (circ_fold (\<lambda>pu total_unlock_amount. add_unsafe_big total_unlock_amount (unsafe_big_from_biguint (unlock_amount pu))) us
      (replicate BIG_U96_LIMBS (Const 0))) (\<lambda>total_unlock_amount.
    unsafe_big32_to_biguint total_unlock_amount BIG_U96_LIMBS)"

primrec add_unlock_loop :: "pending_unlock \<Rightarrow> pending_unlock list \<Rightarrow> target \<Rightarrow> (pending_unlock list \<times> target) circ" where
  "add_unlock_loop u [] appended = circ_return ([], appended)"
| "add_unlock_loop u (s # us) appended =
    circ_bind (is_zero_biguint (unlock_amount s)) (\<lambda>is_slot_empty.
    let flag = and_not is_slot_empty appended; appended = b_or appended flag; s = select_pending_unlock_target flag u s in
    circ_bind (add_unlock_loop u us appended) (\<lambda>(us, appended).
    circ_return (s # us, appended)))"

definition add_pending_unlock :: "target \<Rightarrow> pending_unlock \<Rightarrow> pending_unlock list \<Rightarrow> pending_unlock list circ" where
  "add_pending_unlock is_enabled u us =
    circ_bind (add_unlock_loop u us (b_not is_enabled)) (\<lambda>(us, appended).
    circ_bind (conditional_assert_true is_enabled appended) (\<lambda>_.
    circ_return us))"

section \<open>The dead man's switch\<close>

lemma implements_should_dms_be_triggered:
  assumes "uval (acc_cancel_all_time a) < 2 ^ TIMESTAMP_BITS" "uval now < 2 ^ TIMESTAMP_BITS"
  shows "implements (should_dms_be_triggered now a) (\<lambda>r. bval r (uval (acc_cancel_all_time a) \<noteq> 0 \<and> uval (acc_cancel_all_time a) \<le> uval now))"
  unfolding should_dms_be_triggered_def
proof (rule implements_bind [OF implements_is_not_zero], rule implements_bind [OF implements_is_lte [OF cmp_okI [OF _ assms(1)] cmp_okI [OF _ assms(2)]]],
    simp add: TIMESTAMP_BITS_def, simp add: TIMESTAMP_BITS_def, rule implements_return)
  fix x y assume "bval x (uval (acc_cancel_all_time a) \<noteq> 0)" "bval y (uval (acc_cancel_all_time a) \<le> uval now)"
  then show "bval (multi_and [x, y]) (uval (acc_cancel_all_time a) \<noteq> 0 \<and> uval (acc_cancel_all_time a) \<le> uval now)"
    using bval_multi_and [of "[x, y]" "[uval (acc_cancel_all_time a) \<noteq> 0, uval (acc_cancel_all_time a) \<le> uval now]"] by simp
qed

section \<open>The queue of pending unlocks\<close>

text \<open>Time, asset and amount; a free slot is all zero.\<close>

type_synonym unlock_state = "nat \<times> nat \<times> nat"

abbreviation free_slot :: unlock_state where "free_slot \<equiv> (0, 0, 0)"

definition unlock_is :: "pending_unlock \<Rightarrow> unlock_state \<Rightarrow> bool" where
  "unlock_is u = (\<lambda>(t, i, v). uval (unlock_timestamp u) = t \<and> uval (unlock_asset_index u) = i \<and> big (unlock_amount u) 3 v)"

definition unlocks_repr :: "pending_unlock list \<Rightarrow> unlock_state list \<Rightarrow> bool" where
  "unlocks_repr us q \<longleftrightarrow> length q \<le> MAX_PENDING_UNLOCKS \<and> (\<forall>(t, i, v)\<in>set q. v \<noteq> 0) \<and>
    list_all2 unlock_is us (q @ replicate (MAX_PENDING_UNLOCKS - length q) free_slot)"

lemma unlock_is_select:
  assumes "bval c e" "unlock_is a x" "unlock_is b y"
  shows "unlock_is (select_pending_unlock_target c a b) (if e then x else y)"
  using assms big_select [OF assms(1), of "unlock_amount a" 3 "snd (snd x)" "unlock_amount b" 3 "snd (snd y)"]
  by (cases e) (auto simp: unlock_is_def select_pending_unlock_target_def uval_select [OF assms(1)])

lemma unlock_is_select_empty:
  assumes "bval c e" "unlock_is b y"
  shows "unlock_is (select_pending_unlock_target c empty_pending_unlock b) (if e then free_slot else y)"
  using assms big_select [OF assms(1), of zero_biguint 0 0 "unlock_amount b" 3 "snd (snd y)"]
  by (cases e) (auto simp: unlock_is_def select_pending_unlock_target_def empty_pending_unlock_def uval_select [OF assms(1)] big_def)

text \<open>The first free slot is taken.\<close>

fun put_first :: "unlock_state \<Rightarrow> unlock_state list \<Rightarrow> unlock_state list" where
  "put_first x [] = []"
| "put_first x ((t, i, v) # ss) = (if v = 0 then x # ss else (t, i, v) # put_first x ss)"

lemma put_first_queue:
  "\<forall>(t, i, v)\<in>set q. v \<noteq> 0 \<Longrightarrow> put_first x (q @ replicate n free_slot) = (if n = 0 then q else q @ x # replicate (n - 1) free_slot)"
  by (induction q) (cases n; auto)+

lemma implements_add_unlock_loop:
  assumes "unlock_is u x" "list_all2 unlock_is us ss" "bval appended ap"
  shows "implements (add_unlock_loop u us appended) (\<lambda>(us', appended').
    list_all2 unlock_is us' (if ap then ss else put_first x ss) \<and> bval appended' (ap \<or> (\<exists>(t, i, v)\<in>set ss. v = 0)))"
  using assms(2,3)
proof (induction us ss arbitrary: appended ap rule: list_all2_induct)
  case Nil
  then show ?case by (simp add: implements_return)
next
  case (Cons s us y ss)
  obtain t i v where y: "y = (t, i, v)" by (cases y)
  have s: "big (unlock_amount s) 3 v" using Cons.hyps(1) by (simp add: unlock_is_def y)
  have zero: "implements (is_zero_biguint (unlock_amount s)) (\<lambda>r. bval r (v = 0))"
    using implements_is_zero_biguint [of "unlock_amount s"] s by (simp add: big_def)
  show ?case
    unfolding add_unlock_loop.simps Let_def
  proof (rule implements_bind [OF zero], goal_cases)
    case (1 z)
    note flag = bval_and_not [OF 1 Cons.prems] note found = bval_or [OF Cons.prems flag]
    note slot = unlock_is_select [OF flag assms(1) Cons.hyps(1)]
    show ?case
    proof (rule implements_bind [OF Cons.IH [OF found]], unfold split_paired_all prod.case, elim conjE, rule implements_return, unfold prod.case, intro conjI, goal_cases)
      case (1 us' appended')
      then show ?case using slot by (cases ap; cases "v = 0") (simp_all add: y)
    next
      case (2 us' appended')
      show ?case by (rule bval_eq [OF 2(2)]) (auto simp: y)
    qed
  qed
qed

lemma realises_add_pending_unlock:
  assumes e: "bval e en" and u: "unlock_is u (t, i, v)" "v \<noteq> 0" and us: "unlocks_repr us q"
  shows "realises (add_pending_unlock e u us) (en \<longrightarrow> length q < MAX_PENDING_UNLOCKS) (\<lambda>us'. unlocks_repr us' (if en then q @ [(t, i, v)] else q))"
proof -
  let ?n = "MAX_PENDING_UNLOCKS - length q"
  let ?ss = "q @ replicate ?n free_slot"
  have q: "length q \<le> MAX_PENDING_UNLOCKS" "\<forall>(t, i, v)\<in>set q. v \<noteq> 0" "list_all2 unlock_is us ?ss" using us by (auto simp: unlocks_repr_def)
  have free: "(\<exists>(t, i, v)\<in>set ?ss. v = 0) \<longleftrightarrow> length q < MAX_PENDING_UNLOCKS" using q(1,2) by (cases ?n) auto
  show ?thesis
    unfolding add_pending_unlock_def
  proof (rule realises_after [OF implements_add_unlock_loop [OF u(1) q(3) bval_not [OF e]]], unfold split_paired_all prod.case free, elim conjE, goal_cases)
    case (1 us' appended)
    have "realises (conditional_assert_true e appended) (en \<longrightarrow> length q < MAX_PENDING_UNLOCKS) (\<lambda>_. True)"
      by (rule realises_when [OF realises_conditional_assert_true [OF e 1(2)]]) auto
    then show ?case
    proof (rule realises_then_return)
      assume room: "en \<longrightarrow> length q < MAX_PENDING_UNLOCKS"
      show "unlocks_repr us' (if en then q @ [(t, i, v)] else q)"
      proof (cases en)
        case True
        then obtain k where "?n = Suc k" using room by (metis Suc_diff_Suc)
        then have "MAX_PENDING_UNLOCKS - Suc (length q) = k" by simp
        with \<open>?n = Suc k\<close> show ?thesis using True 1(1) q u(2) put_first_queue [OF q(2), of "(t, i, v)" ?n] room
          by (auto simp: unlocks_repr_def)
      next
        case False
        then show ?thesis using 1(1) q by (auto simp: unlocks_repr_def)
      qed
    qed
  qed
qed

lemma shift_slots:
  assumes "length ss = 8"
  shows "map (\<lambda>i. if en then if i = 7 then x else ss ! (i + 1) else ss ! i) [0..<7] @ [if en then if 7 = (7::nat) then x else ss ! (7 + 1) else ss ! 7] =
    (if en then tl ss @ [x] else ss)"
proof (rule nth_equalityI)
  fix i assume "i < length (map (\<lambda>i. if en then if i = 7 then x else ss ! (i + 1) else ss ! i) [0..<7] @ [if en then if 7 = (7::nat) then x else ss ! (7 + 1) else ss ! 7])"
  then have "i < 7 \<or> i = 7" by auto
  then show "(map (\<lambda>i. if en then if i = 7 then x else ss ! (i + 1) else ss ! i) [0..<7] @ [if en then if 7 = (7::nat) then x else ss ! (7 + 1) else ss ! 7]) ! i =
      (if en then tl ss @ [x] else ss) ! i"
    using assms by (elim disjE) (simp_all add: nth_append nth_tl)
qed (use assms in simp)

lemma pop_pending_unlock_queue:
  assumes e: "bval e en" and us: "unlocks_repr us q"
  shows "unlock_is (fst (pop_pending_unlock e us)) (if q = [] then free_slot else hd q)"
    "unlocks_repr (snd (pop_pending_unlock e us)) (if en then tl q else q)"
proof -
  let ?ss = "q @ replicate (MAX_PENDING_UNLOCKS - length q) free_slot"
  have q: "length q \<le> 8" "\<forall>(t, i, v)\<in>set q. v \<noteq> 0" "list_all2 unlock_is us ?ss" using us by (auto simp: unlocks_repr_def MAX_PENDING_UNLOCKS_def)
  have len: "length ?ss = 8" "length us = 8" using q(1) list_all2_lengthD [OF q(3)] by (simp_all add: MAX_PENDING_UNLOCKS_def)
  have nth: "unlock_is (us ! i) (?ss ! i)" if "i < 8" for i using list_all2_nthD [OF q(3), of i] that len by simp
  have hd_slot: "?ss ! 0 = (if q = [] then free_slot else hd q)" by (simp add: nth_append hd_conv_nth MAX_PENDING_UNLOCKS_def)
  show "unlock_is (fst (pop_pending_unlock e us)) (if q = [] then free_slot else hd q)"
    using nth [of 0] unfolding hd_slot by (simp add: pop_pending_unlock_def)
  let ?next = "\<lambda>i. if en then if i = 7 then free_slot else ?ss ! (i + 1) else ?ss ! i"
  have popped: "list_all2 unlock_is (snd (pop_pending_unlock e us)) (map ?next [0..<7] @ [?next 7])"
    unfolding pop_pending_unlock_def snd_conv
  proof (intro list_all2_appendI)
    show "list_all2 unlock_is (map (\<lambda>i. select_pending_unlock_target e (us ! (i + 1)) (us ! i)) [0..<MAX_PENDING_UNLOCKS - 1]) (map ?next [0..<7])"
      unfolding list_all2_map1 list_all2_map2
    proof (rule list_all2_all_nthI)
      fix i assume "i < length [0..<MAX_PENDING_UNLOCKS - 1]"
      then have i: "i < 7" by (simp add: MAX_PENDING_UNLOCKS_def)
      show "unlock_is (select_pending_unlock_target e (us ! ([0..<MAX_PENDING_UNLOCKS - 1] ! i + 1)) (us ! ([0..<MAX_PENDING_UNLOCKS - 1] ! i))) (?next ([0..<7] ! i))"
        using unlock_is_select [OF e nth [of "i + 1"] nth [of i]] i by (cases en) (simp_all add: MAX_PENDING_UNLOCKS_def)
    qed (simp add: MAX_PENDING_UNLOCKS_def)
    show "list_all2 unlock_is [select_pending_unlock_target e empty_pending_unlock (us ! (MAX_PENDING_UNLOCKS - 1))] [?next 7]"
      using unlock_is_select_empty [OF e nth [of 7]] by (cases en) (simp_all add: MAX_PENDING_UNLOCKS_def)
  qed
  have "map ?next [0..<7] @ [?next 7] = (if en then tl ?ss @ [free_slot] else ?ss)" by (rule shift_slots [OF len(1)])
  also have "\<dots> = (if en then tl q else q) @ replicate (8 - length (if en then tl q else q)) free_slot"
  proof (cases q)
    case (Cons x q')
    have "Suc (7 - length q') = 8 - length q'" using Cons q(1) by simp
    then show ?thesis using q(1) Cons by (simp add: MAX_PENDING_UNLOCKS_def Suc_diff_le replicate_append_same flip: replicate_Suc)
  qed (simp add: MAX_PENDING_UNLOCKS_def numeral_eq_Suc)
  finally show "unlocks_repr (snd (pop_pending_unlock e us)) (if en then tl q else q)"
    using popped q(1,2) by (cases q) (auto simp: unlocks_repr_def MAX_PENDING_UNLOCKS_def)
qed

text \<open>The amount that waits.\<close>

lemma big_three: "big a 3 v \<Longrightarrow> \<exists>x y z. a = [x, y, z] \<and> uval x < 2 ^ 32 \<and> uval y < 2 ^ 32 \<and> uval z < 2 ^ 32 \<and> v = uval x + 2 ^ 32 * (uval y + 2 ^ 32 * uval z)"
proof -
  assume a: "big a 3 v"
  then have "length a = 3" by (simp add: big_def)
  then obtain x y z where xyz: "a = [x, y, z]" by (auto simp: numeral_eq_Suc length_Suc_conv)
  then show ?thesis using a by (auto simp: big_def bnat_def limbs_ok_def is_u32_def)
qed

lemma implements_add_columns:
  assumes "big b 3 v" "ubig acc [i, j, k]"
  shows "implements (add_unsafe_big acc (unsafe_big_from_biguint b)) (\<lambda>r. \<exists>x y z. v = x + 2 ^ 32 * (y + 2 ^ 32 * z) \<and>
    x < 2 ^ 32 \<and> y < 2 ^ 32 \<and> z < 2 ^ 32 \<and> ubig r [i + int x, j + int y, k + int z])"
proof -
  obtain x y z where b: "b = [x, y, z]" "uval x < 2 ^ 32" "uval y < 2 ^ 32" "uval z < 2 ^ 32" "v = uval x + 2 ^ 32 * (uval y + 2 ^ 32 * uval z)"
    using big_three [OF assms(1)] by blast
  show ?thesis
    by (rule implements_weaken [OF implements_add_unsafe_big [OF assms(2) ubig_from_biguint [of b]]]) (use b in auto)
qed

text \<open>Three columns of sums that are still below \<open>n * 2 ^ 32\<close>.\<close>

definition columns :: "nat \<Rightarrow> unsafe_big \<Rightarrow> nat \<Rightarrow> bool" where
  "columns n r v \<longleftrightarrow> (\<exists>x y z. v = x + 2 ^ 32 * (y + 2 ^ 32 * z) \<and> x \<le> n * 2 ^ 32 \<and> y \<le> n * 2 ^ 32 \<and> z \<le> n * 2 ^ 32 \<and> ubig r [int x, int y, int z])"

lemma implements_sum_amounts:
  assumes "list_all2 unlock_is us ss" "columns n acc v"
  shows "implements (circ_fold (\<lambda>pu acc. add_unsafe_big acc (unsafe_big_from_biguint (unlock_amount pu))) us acc)
    (\<lambda>r. columns (n + length us) r (v + (\<Sum>(t, i, a)\<leftarrow>ss. a)))"
  using assms
proof (induction us ss arbitrary: acc n v rule: list_all2_induct)
  case Nil
  then show ?case by (simp add: implements_return)
next
  case (Cons u us x ss)
  obtain t i a where x: "x = (t, i, a)" by (cases x)
  have a: "big (unlock_amount u) 3 a" using Cons.hyps(1) by (simp add: unlock_is_def x)
  obtain l1 l2 l3 where l: "v = l1 + 2 ^ 32 * (l2 + 2 ^ 32 * l3)" "l1 \<le> n * 2 ^ 32" "l2 \<le> n * 2 ^ 32" "l3 \<le> n * 2 ^ 32" "ubig acc [int l1, int l2, int l3]"
    using Cons.prems by (auto simp: columns_def)
  show ?case
    unfolding circ_fold.simps
  proof (rule implements_bind [OF implements_add_columns [OF a l(5)]], elim exE conjE)
    fix acc' i j k assume ijk: "a = i + 2 ^ 32 * (j + 2 ^ 32 * k)" "i < 2 ^ 32" "j < 2 ^ 32" "k < 2 ^ 32"
      "ubig acc' [int l1 + int i, int l2 + int j, int l3 + int k]"
    have "columns (Suc n) acc' (v + a)"
      unfolding columns_def by (rule exI [of _ "l1 + i"], rule exI [of _ "l2 + j"], rule exI [of _ "l3 + k"]) (use l ijk in \<open>simp add: algebra_simps\<close>)
    from Cons.IH [OF this] show "implements (circ_fold (\<lambda>pu acc. add_unsafe_big acc (unsafe_big_from_biguint (unlock_amount pu))) us acc')
        (\<lambda>r. columns (n + length (u # us)) r (v + (\<Sum>(t, i, a)\<leftarrow>x # ss. a)))" by (simp add: x add.assoc)
  qed
qed

lemma realises_get_total_unlock_amount:
  assumes "unlocks_repr us q"
  shows "realises (get_total_unlock_amount us) ((\<Sum>(t, i, v)\<leftarrow>q. v) < 2 ^ 96) (\<lambda>r. big r 3 (\<Sum>(t, i, v)\<leftarrow>q. v))"
proof -
  let ?ss = "q @ replicate (MAX_PENDING_UNLOCKS - length q) free_slot"
  have us: "list_all2 unlock_is us ?ss" and q: "length q \<le> 8" using assms by (simp_all add: unlocks_repr_def MAX_PENDING_UNLOCKS_def)
  have len: "length us = 8" using list_all2_lengthD [OF us] q by (simp add: MAX_PENDING_UNLOCKS_def)
  have sum_ss: "(\<Sum>(t, i, v)\<leftarrow>?ss. v) = (\<Sum>(t, i, v)\<leftarrow>q. v)" by (simp add: sum_list_replicate)
  have "replicate BIG_U96_LIMBS (Const 0) = [Const 0, Const 0, Const 0]" by (simp add: BIG_U96_LIMBS_def numeral_eq_Suc)
  then have start: "columns 0 (replicate BIG_U96_LIMBS (Const 0)) 0" by (simp add: columns_def)
  show ?thesis
    unfolding get_total_unlock_amount_def
  proof (rule realises_after [OF implements_sum_amounts [OF us start]], unfold sum_ss add_0)
    fix r assume "columns (length us) r (\<Sum>(t, i, v)\<leftarrow>q. v)"
    then obtain x y z where r: "(\<Sum>(t, i, v)\<leftarrow>q. v) = x + 2 ^ 32 * (y + 2 ^ 32 * z)" "x \<le> 2 ^ 35" "y \<le> 2 ^ 35" "z \<le> 2 ^ 35" "ubig r [int x, int y, int z]"
      unfolding columns_def len by auto
    have "length r = 3" using ubig_length [OF r(5)] by simp
    then obtain r1 r2 r3 where rs: "r = [r1, r2, r3]" by (auto simp: numeral_eq_Suc length_Suc_conv)
    have "uval r1 = x" "uval r2 = y" "uval r3 = z"
      using r(5) uval_big [of x] uval_big [of y] uval_big [of z] r(2-4) by (simp_all add: rs)
    then have "unsafe32_ok r" "bnat r = (\<Sum>(t, i, v)\<leftarrow>q. v)" "length r = 3"
      using r(1-4) by (simp_all add: rs unsafe32_ok_def bnat_def)
    then show "realises (unsafe_big32_to_biguint r BIG_U96_LIMBS) ((\<Sum>(t, i, v)\<leftarrow>q. v) < 2 ^ 96) (\<lambda>r. big r 3 (\<Sum>(t, i, v)\<leftarrow>q. v))"
      using realises_unsafe_big32_to_biguint [of r 3] by (simp add: BIG_U96_LIMBS_def)
  qed
qed

section \<open>Runs of the queue\<close>

datatype unlock_event = Add_Unlock target pending_unlock | Pop_Unlock target

fun unlock_step :: "unlock_event \<Rightarrow> pending_unlock list \<Rightarrow> pending_unlock list circ" where
  "unlock_step (Add_Unlock e u) us = add_pending_unlock e u us"
| "unlock_step (Pop_Unlock e) us = circ_return (snd (pop_pending_unlock e us))"

definition unlock_values :: "pending_unlock \<Rightarrow> unlock_state" where
  "unlock_values u = (uval (unlock_timestamp u), uval (unlock_asset_index u), bnat (unlock_amount u))"

fun queue_step :: "unlock_event \<Rightarrow> unlock_state list \<Rightarrow> unlock_state list option" where
  "queue_step (Add_Unlock e u) q = (if uval e = 0 then Some q else if length q < MAX_PENDING_UNLOCKS then Some (q @ [unlock_values u]) else None)"
| "queue_step (Pop_Unlock e) q = Some (if uval e = 0 then q else tl q)"

fun unlock_ok :: "unlock_event \<Rightarrow> unlock_state list \<Rightarrow> bool" where
  "unlock_ok (Add_Unlock e u) q = (uval e \<le> 1 \<and> limbs_ok (unlock_amount u) \<and> length (unlock_amount u) = 3 \<and> bnat (unlock_amount u) \<noteq> 0)"
| "unlock_ok (Pop_Unlock e) q = (uval e \<le> 1)"

interpretation unlocks: circuit_machine unlock_step queue_step unlock_ok unlocks_repr
proof
  fix us q ev assume us: "unlocks_repr us q" and ok: "unlock_ok ev q"
  show "realises (unlock_step ev us) (queue_step ev q \<noteq> None) (\<lambda>us'. \<exists>q'. queue_step ev q = Some q' \<and> unlocks_repr us' q')"
  proof (cases ev)
    case (Add_Unlock e u)
    then have e: "bval e (uval e \<noteq> 0)" and u: "unlock_is u (uval (unlock_timestamp u), uval (unlock_asset_index u), bnat (unlock_amount u))" "bnat (unlock_amount u) \<noteq> 0"
      using ok bval_small by (simp_all add: unlock_is_def big_def)
    show ?thesis
      unfolding Add_Unlock unlock_step.simps by (rule realises_weaken [OF realises_add_pending_unlock [OF e u us]]) (auto simp: unlock_values_def)
  next
    case (Pop_Unlock e)
    then have e: "bval e (uval e \<noteq> 0)" using ok bval_small by simp
    show ?thesis
      using pop_pending_unlock_queue(2) [OF e us] unfolding Pop_Unlock unlock_step.simps by (auto intro!: realises_when [OF realises_return])
  qed
qed

lemma unlocks_repr_empty: "unlocks_repr (replicate MAX_PENDING_UNLOCKS \<lparr>unlock_timestamp = Const 0, unlock_asset_index = Const 0, unlock_amount = [Const 0, Const 0, Const 0]\<rparr>) []"
proof -
  have "unlock_is \<lparr>unlock_timestamp = Const 0, unlock_asset_index = Const 0, unlock_amount = [Const 0, Const 0, Const 0]\<rparr> free_slot"
    by (simp add: unlock_is_def big_def bnat_def limbs_ok_def is_u32_def)
  then show ?thesis by (simp add: unlocks_repr_def list_all2_conv_all_nth)
qed

section \<open>Properties\<close>

text \<open>
  C28. The amounts that wait to be unlocked are a bounded queue: every sequence of additions and removals is accepted
  exactly when no amount is added to eight that wait, and leaves the slots holding the queue of what was added and not yet
  removed, oldest first.
\<close>
theorem pending_unlocks_refine:
  assumes "unlocks_repr us q" "run_ok queue_step unlock_ok es q"
  shows "realises (circ_fold unlock_step es us) (machine_run queue_step es q \<noteq> None)
    (\<lambda>us'. \<exists>q'. machine_run queue_step es q = Some q' \<and> unlocks_repr us' q')"
  using assms by (rule unlocks.run_refines)

definition example_unlock :: "nat \<Rightarrow> nat \<Rightarrow> pending_unlock" where
  "example_unlock t v = \<lparr>unlock_timestamp = Const (of_nat t), unlock_asset_index = Const 3, unlock_amount = small_biguint v\<rparr>"

lemma pending_unlocks_refine_witness:
  "complete (circ_fold unlock_step [Add_Unlock (Const 1) (example_unlock 10 500), Add_Unlock (Const 1) (example_unlock 20 700), Pop_Unlock (Const 1)]
      (replicate MAX_PENDING_UNLOCKS \<lparr>unlock_timestamp = Const 0, unlock_asset_index = Const 0, unlock_amount = [Const 0, Const 0, Const 0]\<rparr>))
    (\<lambda>us. unlocks_repr us [(20, 3, 700)])"
proof -
  let ?es = "[Add_Unlock (Const 1) (example_unlock 10 500), Add_Unlock (Const 1) (example_unlock 20 700), Pop_Unlock (Const 1)]"
  have u: "unlock_values (example_unlock 10 500) = (10, 3, 500)" "unlock_values (example_unlock 20 700) = (20, 3, 700)"
    by (simp_all add: unlock_values_def example_unlock_def small_biguint_def bnat_def)
  have ok: "unlock_ok (Add_Unlock (Const 1) (example_unlock 10 500)) []" "unlock_ok (Add_Unlock (Const 1) (example_unlock 20 700)) [(10, 3, 500)]"
    by (simp_all add: example_unlock_def small_biguint_def bnat_def limbs_ok_def is_u32_def)
  have run: "machine_run queue_step ?es [] = Some [(20, 3, 700)]" "run_ok queue_step unlock_ok ?es []"
    using ok by (simp_all add: u MAX_PENDING_UNLOCKS_def)
  show ?thesis
    using realises_implements [OF pending_unlocks_refine [OF unlocks_repr_empty run(2)]] unfolding run(1) by (simp add: implements_def)
qed

end
