(* ===== verification/Order_Counts.thy ===== *)
theory Order_Counts
  imports Accounts Perps_Trade
begin

text \<open>
  The counts of open orders (\<open>increment_order_count_in_place\<close> and \<open>decrement_order_count_in_place\<close> of
  \<open>matching_engine.rs\<close>): of the market, of the account, of the orders of the account outside its cross margin, and of the
  position, where orders tied to the position are counted once more. The first order of a position also fixes its margin
  mode, so the same mode is seen when the order is closed.
\<close>

section \<open>The circuit\<close>

definition TRIGGER_STATUS_PARENT_ORDER :: nat where "TRIGGER_STATUS_PARENT_ORDER = 3"

type_synonym counted = "market_target \<times> account_target \<times> account_position"

definition is_position_tied :: "target \<Rightarrow> target \<Rightarrow> target \<Rightarrow> target circ" where
  "is_position_tied flag trigger_status reduce_only =
    circ_bind (is_not_equal trigger_status (constant_u64 TRIGGER_STATUS_PARENT_ORDER)) (\<lambda>is_not_trigger_status_parent_order.
    circ_bind (is_not_zero reduce_only) (\<lambda>is_reduce_only.
    circ_return (multi_and [flag, is_not_trigger_status_parent_order, is_reduce_only])))"

definition increment_order_count_in_place :: "target \<Rightarrow> target \<Rightarrow> target \<Rightarrow> target \<Rightarrow> counted \<Rightarrow> counted circ" where
  "increment_order_count_in_place flag trigger_status reduce_only market_flags = (\<lambda>(market, account, pos).
    let market = market\<lparr>market_total_order_count := b_add (market_total_order_count market) flag\<rparr>;
        account = account\<lparr>acc_total_order_count := b_add (acc_total_order_count account) flag\<rparr> in
    circ_bind (is_equal_constant (market_type market) MARKET_TYPE_SPOT) (\<lambda>is_spot.
    let increment_flag = b_and is_spot flag;
        account = account\<lparr>acc_total_non_cross_order_count := b_add (acc_total_non_cross_order_count account) increment_flag\<rparr>;
        flag = and_not flag is_spot in
    circ_bind (market_flags_from_target market_flags) (\<lambda>market_flags.
    circ_bind (init_if_empty flag (acc_account_type account) (default_margin_mode market_flags) pos) (\<lambda>pos.
    circ_bind (is_position_tied flag trigger_status reduce_only) (\<lambda>position_tied_flag.
    let pos = pos\<lparr>total_position_tied_order_count := b_add (total_position_tied_order_count pos) position_tied_flag\<rparr>;
        pos = pos\<lparr>total_order_count := b_add (total_order_count pos) flag\<rparr> in
    circ_bind (is_equal (margin_mode pos) (constant_u64 ISOLATED_MARGIN)) (\<lambda>is_position_isolated.
    let is_position_isolated_and_flag = b_and is_position_isolated flag in
    circ_return (market, account\<lparr>acc_total_non_cross_order_count := b_add (acc_total_non_cross_order_count account) is_position_isolated_and_flag\<rparr>, pos)))))))"

definition decrement_order_count_in_place :: "target \<Rightarrow> target \<Rightarrow> target \<Rightarrow> counted \<Rightarrow> counted circ" where
  "decrement_order_count_in_place flag trigger_status reduce_only = (\<lambda>(market, account, pos).
    let market = market\<lparr>market_total_order_count := b_sub (market_total_order_count market) flag\<rparr>;
        account = account\<lparr>acc_total_order_count := b_sub (acc_total_order_count account) flag\<rparr> in
    circ_bind (is_equal_constant (market_type market) MARKET_TYPE_SPOT) (\<lambda>is_spot.
    let decrement_flag = b_and is_spot flag;
        account = account\<lparr>acc_total_non_cross_order_count := b_sub (acc_total_non_cross_order_count account) decrement_flag\<rparr>;
        flag = and_not flag is_spot in
    circ_bind (is_position_tied flag trigger_status reduce_only) (\<lambda>position_tied_flag.
    let pos = pos\<lparr>total_position_tied_order_count := b_sub (total_position_tied_order_count pos) position_tied_flag\<rparr>;
        pos = pos\<lparr>total_order_count := b_sub (total_order_count pos) flag\<rparr> in
    circ_bind (is_equal (margin_mode pos) (constant_u64 ISOLATED_MARGIN)) (\<lambda>is_position_isolated.
    let is_position_isolated_and_flag = b_and is_position_isolated flag in
    circ_return (market, account\<lparr>acc_total_non_cross_order_count := b_sub (acc_total_non_cross_order_count account) is_position_isolated_and_flag\<rparr>, pos)))))"

section \<open>What is counted\<close>

text \<open>The five counts, and what one order adds to each.\<close>

definition order_counts :: "counted \<Rightarrow> gf list" where
  "order_counts = (\<lambda>(market, account, pos). map tval
    [market_total_order_count market, acc_total_order_count account, acc_total_non_cross_order_count account,
     total_order_count pos, total_position_tied_order_count pos])"

definition order_weight :: "bool \<Rightarrow> bool \<Rightarrow> bool \<Rightarrow> gf list" where
  "order_weight spot isolated tied = [1, 1, of_bool (spot \<or> isolated), of_bool (\<not> spot), of_bool (\<not> spot \<and> tied)]"

definition isolated_here :: "counted \<Rightarrow> bool" where
  "isolated_here = (\<lambda>(market, account, pos). uval (margin_mode pos) = ISOLATED_MARGIN)"

definition spot_market :: "counted \<Rightarrow> bool" where
  "spot_market = (\<lambda>(market, account, pos). uval (market_type market) = MARKET_TYPE_SPOT)"

definition tied_to_position :: "target \<Rightarrow> target \<Rightarrow> bool" where
  "tied_to_position trigger_status reduce_only \<longleftrightarrow> uval trigger_status \<noteq> TRIGGER_STATUS_PARENT_ORDER \<and> uval reduce_only \<noteq> 0"

lemma implements_is_position_tied:
  assumes "bval flag f"
  shows "implements (is_position_tied flag ts ro) (\<lambda>r. bval r (f \<and> tied_to_position ts ro))"
  unfolding is_position_tied_def
proof (rule implements_bind [OF implements_is_not_equal], rule implements_bind [OF implements_is_not_zero], rule implements_return)
  fix x y assume "bval x (tval ts \<noteq> tval (constant_u64 TRIGGER_STATUS_PARENT_ORDER))" "bval y (uval ro \<noteq> 0)"
  moreover have "tval ts = tval (constant_u64 TRIGGER_STATUS_PARENT_ORDER) \<longleftrightarrow> uval ts = TRIGGER_STATUS_PARENT_ORDER"
    by (simp add: to_canonical_inject [symmetric] constant_u64_def TRIGGER_STATUS_PARENT_ORDER_def)
  ultimately show "bval (multi_and [flag, x, y]) (f \<and> tied_to_position ts ro)"
    using bval_multi_and [of "[flag, x, y]" "[f, uval ts \<noteq> TRIGGER_STATUS_PARENT_ORDER, uval ro \<noteq> 0]"] assms by (simp add: tied_to_position_def)
qed

lemma bval_tval: "bval t b \<Longrightarrow> tval t = of_bool b"
  by (simp add: bval_def)

lemma isolated_field: "tval t = tval (constant_u64 ISOLATED_MARGIN) \<longleftrightarrow> uval t = ISOLATED_MARGIN"
  by (simp add: to_canonical_inject [symmetric] constant_u64_def ISOLATED_MARGIN_def)

lemma implements_init_if_empty_frame:
  assumes "bval flag f"
  shows "implements (init_if_empty flag account_type mode pos) (\<lambda>r. (\<exists>x s. r = pos\<lparr>margin_mode := x, margin_set_flag := s\<rparr>) \<and>
    (\<not> f \<longrightarrow> uval (margin_mode r) = uval (margin_mode pos)))"
  unfolding init_if_empty_def position_is_empty_def is_equal_constant_def Let_def
proof (rule implements_bind [OF implements_is_zero], rule implements_bind [OF implements_is_equal], rule implements_bind [OF implements_is_equal], rule implements_return, intro conjI impI)
  fix z x y
  let ?r = "pos\<lparr>margin_mode := select (b_and flag z) (select (b_or x y) (constant_u64 CROSS_MARGIN) mode) (margin_mode pos),
      margin_set_flag := select (b_and flag z) (constant_u64 MARGIN_SET) (margin_set_flag pos)\<rparr>"
  show "\<exists>x s. ?r = pos\<lparr>margin_mode := x, margin_set_flag := s\<rparr>" by blast
  assume z: "bval z (uval (b_add_many (bi_abs (last_funding_rate_prefix_sum pos) @ bi_abs (position pos) @ bi_abs (allocated_margin pos) @
      [entry_quote pos, initial_margin_fraction pos, total_order_count pos, total_position_tied_order_count pos, margin_mode pos, margin_set_flag pos])) = 0)" and "\<not> f"
  then show "uval (margin_mode ?r) = uval (margin_mode pos)" using uval_select [OF bval_and [OF assms z]] by simp
qed

section \<open>Contracts\<close>

lemma implements_spot_test: "implements (is_equal_constant (market_type m) MARKET_TYPE_SPOT) (\<lambda>r. bval r (uval (market_type m) = MARKET_TYPE_SPOT))"
  by (rule implements_is_equal_constant) (simp add: MARKET_TYPE_SPOT_def)

lemma realises_market_flags: "realises (market_flags_from_target t) (uval t < 2 ^ MARKET_FLAGS_BITS) (\<lambda>_. True)"
  unfolding market_flags_from_target_def by (rule realises_then_return [OF realises_split_le]) (simp_all add: MARKET_FLAGS_BITS_def)

lemma realises_increment_order_count:
  assumes f: "bval flag f"
  shows "realises (increment_order_count_in_place flag ts ro mf (m, a, p)) (uval mf < 2 ^ MARKET_FLAGS_BITS)
    (\<lambda>st'. order_counts st' = (if f then map2 (+) (order_counts (m, a, p)) (order_weight (spot_market (m, a, p)) (isolated_here st') (tied_to_position ts ro))
      else order_counts (m, a, p)) \<and> spot_market st' = spot_market (m, a, p))"
proof -
  let ?spot = "uval (market_type m) = MARKET_TYPE_SPOT"
  let ?m = "m\<lparr>market_total_order_count := b_add (market_total_order_count m) flag\<rparr>"
  have type: "market_type ?m = market_type m" by simp
  show ?thesis
    unfolding increment_order_count_in_place_def Let_def prod.case type
  proof (rule realises_after [OF implements_spot_test], goal_cases)
    case (1 q)
    note q = 1
    note g = bval_and_not [OF f q] note g' = bval_and [OF q f]
    show ?case
    proof (rule realises_when, rule realises_bind [OF realises_market_flags], rule realises_after [OF implements_init_if_empty_frame [OF g]], elim conjE exE, simp only:,
        rule realises_after [OF implements_is_position_tied [OF g]], rule realises_after [OF implements_is_equal], rule realises_return, goal_cases)
      case (1 mf p' x s tied iso)
      note tied = bval_tval [OF 1(5)] and iso = 1(6)
      then show ?case using f q bval_tval [OF bval_and [OF iso g]] bval_tval [OF g] bval_tval [OF g'] bval_tval [OF f]
        by (auto simp: order_counts_def order_weight_def isolated_here_def spot_market_def tval_simps isolated_field split: if_splits)
    qed simp
  qed
qed

lemma implements_decrement_order_count:
  assumes f: "bval flag f"
  shows "implements (decrement_order_count_in_place flag ts ro (m, a, p))
    (\<lambda>st'. order_counts st' = (if f then map2 (-) (order_counts (m, a, p)) (order_weight (spot_market (m, a, p)) (isolated_here (m, a, p)) (tied_to_position ts ro))
      else order_counts (m, a, p)) \<and> spot_market st' = spot_market (m, a, p) \<and> isolated_here st' = isolated_here (m, a, p))"
proof -
  have type: "market_type (m\<lparr>market_total_order_count := b_sub (market_total_order_count m) flag\<rparr>) = market_type m" by simp
  show ?thesis
    unfolding decrement_order_count_in_place_def Let_def prod.case type
  proof (rule implements_bind [OF implements_spot_test], goal_cases)
    case (1 q)
    note q = 1
    note g = bval_and_not [OF f q] note g' = bval_and [OF q f]
    show ?case
    proof (rule implements_bind [OF implements_is_position_tied [OF g]], rule implements_bind [OF implements_is_equal], rule implements_return, goal_cases)
      case (1 tied iso)
      note tied = bval_tval [OF 1(1)] and iso = 1(2)
      then show ?case using f q bval_tval [OF bval_and [OF iso g]] bval_tval [OF g] bval_tval [OF g'] bval_tval [OF f]
        by (auto simp: order_counts_def order_weight_def isolated_here_def spot_market_def tval_simps isolated_field split: if_splits)
    qed
  qed
qed

lemma map2_add_sub: "length xs = length ws \<Longrightarrow> map2 (-) (map2 (+) xs ws) ws = (xs::gf list)"
  by (induction xs ws rule: list_induct2) simp_all

lemma length_order_counts [simp]: "length (order_counts st) = 5" "length (order_weight s i t) = 5"
  by (simp_all add: order_counts_def order_weight_def split: prod.split)

section \<open>Properties\<close>

text \<open>
  Closing an order undoes what opening it did to the counts of the market, the account and the position, also when the
  order was the first of its position and chose its margin mode: the order leaves the count it entered. Opening is accepted
  exactly when the flags of the market are two bits.
\<close>
theorem order_count_roundtrip:
  assumes "bval flag f"
  shows "realises (circ_bind (increment_order_count_in_place flag ts ro market_flags st) (decrement_order_count_in_place flag ts ro))
    (uval market_flags < 2 ^ MARKET_FLAGS_BITS) (\<lambda>st'. order_counts st' = order_counts st)"
proof -
  obtain m a p where st: "st = (m, a, p)" by (cases st)
  have close: "realises (decrement_order_count_in_place flag ts ro st') True (\<lambda>st''. order_counts st'' = order_counts st)"
    if "order_counts st' = (if f then map2 (+) (order_counts (m, a, p)) (order_weight (spot_market (m, a, p)) (isolated_here st') (tied_to_position ts ro))
      else order_counts (m, a, p)) \<and> spot_market st' = spot_market (m, a, p)" for st'
  proof -
    obtain m' a' p' where st': "st' = (m', a', p')" by (cases st')
    have undo: "(if f then map2 (-) (order_counts st') (order_weight (spot_market st') (isolated_here st') (tied_to_position ts ro)) else order_counts st') =
        order_counts st"
      using that by (cases f) (simp_all add: st map2_add_sub)
    show ?thesis
      unfolding st' implements_realises [symmetric]
      by (rule implements_weaken [OF implements_decrement_order_count [OF assms]]) (use undo st' in \<open>cases f; simp\<close>)
  qed
  show ?thesis
    unfolding st by (rule realises_when [OF realises_bind [OF realises_increment_order_count [OF assms] close [unfolded st]]]) simp_all
qed

definition example_account :: account_target where
  "example_account = \<lparr>acc_master_account_index = Const 70, acc_account_index = Const 77, acc_l1_address = [], acc_account_type = Const 0,
     acc_account_trading_mode = Const 0, acc_margined_assets = [], acc_aggregated_balances = [], acc_positions = [], acc_approved_integrators = [],
     acc_pending_unlocks = [], acc_public_pool_shares = [], acc_public_pool_info = empty_pool_info, acc_total_order_count = Const 6,
     acc_total_non_cross_order_count = Const 1, acc_cancel_all_time = Const 0, acc_api_key_root = [], acc_account_orders_root = [],
     acc_aggregated_balances_root = [], acc_asset_root = [], acc_partial_hash = [], acc_partial_hash_for_pub_data = []\<rparr>"

text \<open>The first order of a position in a perpetual market whose default is isolated margin.\<close>

lemma order_count_roundtrip_witness:
  "implements (circ_bind (increment_order_count_in_place (Const 1) (Const 0) (Const 1) (Const 2) (example_open_market, example_account, empty_position))
      (decrement_order_count_in_place (Const 1) (Const 0) (Const 1)))
    (\<lambda>st'. order_counts st' = [0, 6, 1, 0, 0])"
  using order_count_roundtrip [OF bval_Const(1), of "Const 0" "Const 1" "Const 2" "(example_open_market, example_account, empty_position)"]
  by (simp add: realises_def MARKET_FLAGS_BITS_def order_counts_def example_open_market_def example_account_def empty_position_def)

end
