(* ===== verification/Child_Orders.thy ===== *)
theory Child_Orders
  imports Register_Stack
begin

text \<open>
  What an order that ends leaves to be done (\<open>matching_engine.rs\<close>): its child orders are triggered when a part of it was
  filled and cancelled otherwise, and when a trade turns a position around the orders tied to it are cancelled. Each is an
  instruction in a fixed slot of the queue of the transaction. The abstract queue is the list of the eight slots.
\<close>

section \<open>The circuit\<close>

definition CANCEL_SINGLE_ACCOUNT_ORDER :: nat where "CANCEL_SINGLE_ACCOUNT_ORDER = 3"
definition CANCEL_POSITION_TIED_ACCOUNT_ORDERS :: nat where "CANCEL_POSITION_TIED_ACCOUNT_ORDERS = 4"
definition TRIGGER_CHILD_ORDER :: nat where "TRIGGER_CHILD_ORDER = 5"

definition cancel_position_tied_account_orders ::
  "target \<Rightarrow> target \<Rightarrow> target \<Rightarrow> target \<Rightarrow> nat \<Rightarrow> instruction_queue \<Rightarrow> instruction_queue" where
  "cancel_position_tied_account_orders is_enabled market owner_account_index position_tied_order_count register_index =
    put_to_instruction_stack_unsafe is_enabled
      (empty_register\<lparr>instruction_type := constant_u64 CANCEL_POSITION_TIED_ACCOUNT_ORDERS, reg_market_index := market,
        reg_account_index := owner_account_index, pending_size := position_tied_order_count\<rparr>) register_index"

definition get_trigger_child_order_instruction :: "target \<Rightarrow> target \<Rightarrow> target \<Rightarrow> target \<Rightarrow> base_register_info" where
  "get_trigger_child_order_instruction market owner_account_index child_order_index filled_size =
    empty_register\<lparr>instruction_type := constant_u64 TRIGGER_CHILD_ORDER, reg_market_index := market,
      reg_account_index := owner_account_index, pending_size := filled_size, pending_order_index := child_order_index\<rparr>"

definition get_cancel_child_order_instruction :: "target \<Rightarrow> target \<Rightarrow> target \<Rightarrow> base_register_info" where
  "get_cancel_child_order_instruction market owner_account_index child_order_index =
    empty_register\<lparr>instruction_type := constant_u64 CANCEL_SINGLE_ACCOUNT_ORDER, reg_market_index := market,
      reg_account_index := owner_account_index, pending_order_index := child_order_index\<rparr>"

definition trigger_child_orders ::
  "target \<Rightarrow> target \<Rightarrow> target \<Rightarrow> target \<Rightarrow> target \<Rightarrow> target \<Rightarrow> nat \<Rightarrow> instruction_queue \<Rightarrow> instruction_queue circ" where
  "trigger_child_orders is_enabled market owner_account_index child_order_index_0 child_order_index_1 filled_size max_register_index q =
    circ_bind (circ_panic_unless (1 \<le> max_register_index)) (\<lambda>_.
    circ_bind (is_not_zero child_order_index_0) (\<lambda>does_child_order_0_exist.
    let q = put_to_instruction_stack_unsafe (b_and is_enabled does_child_order_0_exist)
              (get_trigger_child_order_instruction market owner_account_index child_order_index_0 filled_size) max_register_index q in
    circ_bind (is_not_zero child_order_index_1) (\<lambda>does_child_order_1_exist.
    circ_return (put_to_instruction_stack_unsafe (b_and is_enabled does_child_order_1_exist)
      (get_trigger_child_order_instruction market owner_account_index child_order_index_1 filled_size) (max_register_index - 1) q))))"

text \<open>Here the subtraction of the second slot panics for slot zero.\<close>

definition cancel_child_orders ::
  "target \<Rightarrow> target \<Rightarrow> target \<Rightarrow> target \<Rightarrow> target \<Rightarrow> nat \<Rightarrow> instruction_queue \<Rightarrow> instruction_queue circ" where
  "cancel_child_orders is_enabled market owner_account_index child_order_index_0 child_order_index_1 max_register_index q =
    circ_bind (is_not_zero child_order_index_0) (\<lambda>does_child_order_0_exist.
    let q = put_to_instruction_stack_unsafe (b_and is_enabled does_child_order_0_exist)
              (get_cancel_child_order_instruction market owner_account_index child_order_index_0) max_register_index q in
    circ_bind (is_not_zero child_order_index_1) (\<lambda>does_child_order_1_exist.
    circ_bind (circ_panic_unless (1 \<le> max_register_index)) (\<lambda>_.
    circ_return (put_to_instruction_stack_unsafe (b_and is_enabled does_child_order_1_exist)
      (get_cancel_child_order_instruction market owner_account_index child_order_index_1) (max_register_index - 1) q))))"

section \<open>The queue\<close>

text \<open>The values of an instruction of a kind: its market, account, size and order.\<close>

definition instruction_of :: "nat \<Rightarrow> nat \<Rightarrow> nat \<Rightarrow> nat \<Rightarrow> nat \<Rightarrow> nat list" where
  "instruction_of kind market owner n order_index = [kind, market, owner, n, order_index] @ replicate 18 0"

definition queue_is :: "instruction_queue \<Rightarrow> nat list list \<Rightarrow> bool" where
  "queue_is q vs \<longleftrightarrow> map register_values (new_instructions q) = vs \<and> length vs = NEW_INSTRUCTIONS_MAX_SIZE \<and>
    list_all valid_instruction vs \<and> uval (new_instructions_count q) = length (filter (\<lambda>v. v \<noteq> empty_instruction) vs)"

lemma filter_update:
  "k < length vs \<Longrightarrow> \<not> P (vs ! k) \<Longrightarrow> P v \<Longrightarrow> length (filter P (vs[k := v])) = Suc (length (filter P vs))"
  by (induction vs arbitrary: k) (auto split: nat.splits)

lemma queue_is_put:
  assumes q: "queue_is q vs" and e: "bval e b" and k: "k < NEW_INSTRUCTIONS_MAX_SIZE" "b \<Longrightarrow> vs ! k = empty_instruction"
    and v: "register_values r = v" "b \<Longrightarrow> v \<noteq> empty_instruction" "b \<Longrightarrow> valid_instruction v"
  shows "queue_is (put_to_instruction_stack_unsafe e r k q) (if b then vs[k := v] else vs)"
proof -
  note Q = q [unfolded queue_is_def]
  have len: "k < length (new_instructions q)" "k < length vs" using Q k(1) by auto
  have regs: "map register_values (new_instructions (put_to_instruction_stack_unsafe e r k q)) = (if b then vs[k := v] else vs)"
    using Q len v(1) by (auto simp: put_to_instruction_stack_unsafe_def map_update register_values_select [OF e] list_update_same_conv)
  have count: "tval (new_instructions_count (put_to_instruction_stack_unsafe e r k q)) = of_nat (uval (new_instructions_count q) + (if b then 1 else 0))"
    using e by (simp add: put_to_instruction_stack_unsafe_def tval_simps of_nat_to_canonical bval_def)
  have le: "length (filter (\<lambda>v. v \<noteq> empty_instruction) vs) \<le> 8" using Q length_filter_le [of "\<lambda>v. v \<noteq> empty_instruction" vs] by (simp add: NEW_INSTRUCTIONS_MAX_SIZE_def)
  have "uval (new_instructions_count q) + (if b then 1 else 0) < p_nat" using Q le by simp
  then have "uval (new_instructions_count (put_to_instruction_stack_unsafe e r k q)) = uval (new_instructions_count q) + (if b then 1 else 0)"
    by (simp only: count to_canonical_of_nat_small)
  moreover have "length (filter (\<lambda>v. v \<noteq> empty_instruction) (vs[k := v])) = Suc (length (filter (\<lambda>v. v \<noteq> empty_instruction) vs))" if b
    by (rule filter_update) (use len k v that in auto)
  moreover have "list_all valid_instruction (vs[k := v])" if b
    using Q v(3) that set_update_subset_insert [of vs k v] by (auto simp: list_all_iff)
  ultimately show ?thesis unfolding queue_is_def regs using Q by auto
qed

text \<open>The orders tied to an order that ends, and their instructions in the queue.\<close>

definition put_if :: "bool \<Rightarrow> nat \<Rightarrow> nat list \<Rightarrow> nat list list \<Rightarrow> nat list list" where
  "put_if b k v vs = (if b then vs[k := v] else vs)"

definition children_put :: "bool \<Rightarrow> nat \<Rightarrow> (nat \<Rightarrow> nat list) \<Rightarrow> nat \<Rightarrow> nat \<Rightarrow> nat list list \<Rightarrow> nat list list" where
  "children_put b k f i0 i1 vs = put_if (b \<and> i1 \<noteq> 0) (k - 1) (f i1) (put_if (b \<and> i0 \<noteq> 0) k (f i0) vs)"

lemma put_if_simps [simp]:
  "length (put_if b k v vs) = length vs" "put_if False k v vs = vs" "put_if True k v vs = vs[k := v]"
  "k \<noteq> j \<Longrightarrow> put_if b k v vs ! j = vs ! j"
  by (simp_all add: put_if_def)

lemma children_put_simps [simp]:
  "children_put False k f i0 i1 vs = vs" "length (children_put b k f i0 i1 vs) = length vs"
  "j \<noteq> k \<Longrightarrow> j \<noteq> k - 1 \<Longrightarrow> children_put b k f i0 i1 vs ! j = vs ! j"
  by (simp_all add: children_put_def)

lemma replicate_18: "replicate 18 (0 :: nat) = [0, 0, 0, 0, 0, 0, 0, 0, 0, 0, 0, 0, 0, 0, 0, 0, 0, 0]"
  by (simp add: numeral_eq_Suc)

lemma instruction_values:
  "register_values (get_trigger_child_order_instruction m a c s) = instruction_of TRIGGER_CHILD_ORDER (uval m) (uval a) (uval s) (uval c)"
  "register_values (get_cancel_child_order_instruction m a c) = instruction_of CANCEL_SINGLE_ACCOUNT_ORDER (uval m) (uval a) 0 (uval c)"
  "register_values (empty_register\<lparr>instruction_type := constant_u64 CANCEL_POSITION_TIED_ACCOUNT_ORDERS, reg_market_index := m,
     reg_account_index := a, pending_size := s\<rparr>) = instruction_of CANCEL_POSITION_TIED_ACCOUNT_ORDERS (uval m) (uval a) (uval s) 0"
  by (simp_all add: register_values_def get_hash_parameters_def empty_register_def instruction_of_def replicate_18
      get_trigger_child_order_instruction_def get_cancel_child_order_instruction_def constant_u64_def
      TRIGGER_CHILD_ORDER_def CANCEL_SINGLE_ACCOUNT_ORDER_def CANCEL_POSITION_TIED_ACCOUNT_ORDERS_def)

lemma instruction_not_empty: "kind \<noteq> 0 \<Longrightarrow> instruction_of kind m a s c \<noteq> empty_instruction"
proof
  assume k: "kind \<noteq> 0" and "instruction_of kind m a s c = empty_instruction"
  then have "hd (instruction_of kind m a s c) = hd empty_instruction" by simp
  then show False using k by (simp add: instruction_of_def empty_instruction_def BASE_REGISTER_INFO_SIZE_def)
qed

lemma instruction_valid:
  assumes "kind < 2 ^ 8" "m < 2 ^ 16" "a < 2 ^ 48" "n < 2 ^ 48" "c < 2 ^ 64"
  shows "valid_instruction (instruction_of kind m a n c)"
  using assms by (simp add: valid_instruction_def instruction_of_def register_bits_def replicate_18)

lemma canonical_64: "uval x < 2 ^ 64"
  by (rule less_trans [OF to_canonical_lt]) simp

lemma implements_trigger_child_orders:
  assumes q: "queue_is q vs" and e: "bval e b" and k: "1 \<le> k" "k < NEW_INSTRUCTIONS_MAX_SIZE"
    and free: "b \<Longrightarrow> vs ! k = empty_instruction" "b \<Longrightarrow> vs ! (k - 1) = empty_instruction"
    and range: "b \<Longrightarrow> uval m < 2 ^ 16 \<and> uval a < 2 ^ 48 \<and> uval s < 2 ^ 48"
  shows "implements (trigger_child_orders e m a c0 c1 s k q)
    (\<lambda>q'. queue_is q' (children_put b k (instruction_of TRIGGER_CHILD_ORDER (uval m) (uval a) (uval s)) (uval c0) (uval c1) vs))"
  unfolding trigger_child_orders_def Let_def
proof (rule implements_bind [OF implements_panic [OF k(1)]], rule implements_bind [OF implements_is_not_zero], rule implements_bind [OF implements_is_not_zero],
    rule implements_return, goal_cases)
  case (1 u x y)
  let ?f = "instruction_of TRIGGER_CHILD_ORDER (uval m) (uval a) (uval s)"
  have ok: "?f c \<noteq> empty_instruction" for c by (rule instruction_not_empty) (simp add: TRIGGER_CHILD_ORDER_def)
  have valid: "valid_instruction (?f (uval c))" if b for c
    by (rule instruction_valid) (use range that canonical_64 in \<open>simp_all add: TRIGGER_CHILD_ORDER_def\<close>)
  have first: "queue_is (put_to_instruction_stack_unsafe (b_and e x) (get_trigger_child_order_instruction m a c0 s) k q)
      (put_if (b \<and> uval c0 \<noteq> 0) k (?f (uval c0)) vs)"
    unfolding put_if_def by (rule queue_is_put [OF q bval_and [OF e 1(2)] k(2)]) (use free ok valid in \<open>auto simp: instruction_values\<close>)
  have slots: "k - 1 < NEW_INSTRUCTIONS_MAX_SIZE" "k \<noteq> k - 1" using k by auto
  show ?case
    unfolding children_put_def put_if_def [of "b \<and> uval c1 \<noteq> 0"]
    by (rule queue_is_put [OF first bval_and [OF e 1(3)] slots(1)]) (use free ok valid slots in \<open>auto simp: instruction_values\<close>)
qed

lemma implements_cancel_child_orders:
  assumes q: "queue_is q vs" and e: "bval e b" and k: "1 \<le> k" "k < NEW_INSTRUCTIONS_MAX_SIZE"
    and free: "b \<Longrightarrow> vs ! k = empty_instruction" "b \<Longrightarrow> vs ! (k - 1) = empty_instruction"
    and range: "b \<Longrightarrow> uval m < 2 ^ 16 \<and> uval a < 2 ^ 48"
  shows "implements (cancel_child_orders e m a c0 c1 k q)
    (\<lambda>q'. queue_is q' (children_put b k (instruction_of CANCEL_SINGLE_ACCOUNT_ORDER (uval m) (uval a) 0) (uval c0) (uval c1) vs))"
  unfolding cancel_child_orders_def Let_def
proof (rule implements_bind [OF implements_is_not_zero], rule implements_bind [OF implements_is_not_zero], rule implements_bind [OF implements_panic [OF k(1)]],
    rule implements_return, goal_cases)
  case (1 x y u)
  let ?f = "instruction_of CANCEL_SINGLE_ACCOUNT_ORDER (uval m) (uval a) 0"
  have ok: "?f c \<noteq> empty_instruction" for c by (rule instruction_not_empty) (simp add: CANCEL_SINGLE_ACCOUNT_ORDER_def)
  have valid: "valid_instruction (?f (uval c))" if b for c
    by (rule instruction_valid) (use range that canonical_64 in \<open>simp_all add: CANCEL_SINGLE_ACCOUNT_ORDER_def\<close>)
  have first: "queue_is (put_to_instruction_stack_unsafe (b_and e x) (get_cancel_child_order_instruction m a c0) k q)
      (put_if (b \<and> uval c0 \<noteq> 0) k (?f (uval c0)) vs)"
    unfolding put_if_def by (rule queue_is_put [OF q bval_and [OF e 1(1)] k(2)]) (use free ok valid in \<open>auto simp: instruction_values\<close>)
  have slots: "k - 1 < NEW_INSTRUCTIONS_MAX_SIZE" "k \<noteq> k - 1" using k by auto
  show ?case
    unfolding children_put_def put_if_def [of "b \<and> uval c1 \<noteq> 0"]
    by (rule queue_is_put [OF first bval_and [OF e 1(2)] slots(1)]) (use free ok valid slots in \<open>auto simp: instruction_values\<close>)
qed

lemma queue_is_tied:
  assumes q: "queue_is q vs" and e: "bval e b" and k: "k < NEW_INSTRUCTIONS_MAX_SIZE" and free: "b \<Longrightarrow> vs ! k = empty_instruction"
    and range: "b \<Longrightarrow> uval m < 2 ^ 16 \<and> uval a < 2 ^ 48 \<and> uval s < 2 ^ 48"
  shows "queue_is (cancel_position_tied_account_orders e m a s k q)
    (put_if b k (instruction_of CANCEL_POSITION_TIED_ACCOUNT_ORDERS (uval m) (uval a) (uval s) 0) vs)"
proof -
  have valid: "valid_instruction (instruction_of CANCEL_POSITION_TIED_ACCOUNT_ORDERS (uval m) (uval a) (uval s) 0)" if b
    by (rule instruction_valid) (use range that in \<open>simp_all add: CANCEL_POSITION_TIED_ACCOUNT_ORDERS_def\<close>)
  have some: "instruction_of CANCEL_POSITION_TIED_ACCOUNT_ORDERS (uval m) (uval a) (uval s) 0 \<noteq> empty_instruction"
    by (rule instruction_not_empty) (simp add: CANCEL_POSITION_TIED_ACCOUNT_ORDERS_def)
  show ?thesis
    unfolding cancel_position_tied_account_orders_def put_if_def
    by (rule queue_is_put [OF q e k free instruction_values(3) some valid])
qed

end
