(* ===== verification/Match_Decision.thy ===== *)
theory Match_Decision
  imports Order_Counts Order_Book Modify_Order
begin

text \<open>
  How a pending order meets the best order of the book: the first part of \<open>execute_matching\<close> in
  \<open>circuit/src/matching_engine.rs\<close>, up to the size of the trade. A sequence of tests decides whether the taker order
  rests in the book, whether it or the maker order is cancelled, or whether the two trade. The abstract decision is
  the first test that holds.
\<close>

section \<open>Constants and inputs\<close>

definition LIMIT_ORDER :: nat where "LIMIT_ORDER = 0"
definition MARKET_ORDER :: nat where "MARKET_ORDER = 1"
definition STOP_LOSS_ORDER :: nat where "STOP_LOSS_ORDER = 2"
definition STOP_LOSS_LIMIT_ORDER :: nat where "STOP_LOSS_LIMIT_ORDER = 3"
definition TAKE_PROFIT_ORDER :: nat where "TAKE_PROFIT_ORDER = 4"
definition TAKE_PROFIT_LIMIT_ORDER :: nat where "TAKE_PROFIT_LIMIT_ORDER = 5"
definition TWAP_SUB_ORDER :: nat where "TWAP_SUB_ORDER = 7"
definition LIQUIDATION_ORDER :: nat where "LIQUIDATION_ORDER = 8"
definition IOC :: nat where "IOC = 0"
definition POST_ONLY :: nat where "POST_ONLY = 2"
definition MARKET_INDEX_BITS :: nat where "MARKET_INDEX_BITS = 12"

lemmas order_kinds = LIMIT_ORDER_def MARKET_ORDER_def STOP_LOSS_ORDER_def STOP_LOSS_LIMIT_ORDER_def TAKE_PROFIT_ORDER_def
  TAKE_PROFIT_LIMIT_ORDER_def TWAP_SUB_ORDER_def LIQUIDATION_ORDER_def

text \<open>What the matching reads: the market, its book on the path of one leaf, and the two parties.\<close>

record match_env =
  me_market :: market_target
  me_path :: "order_book_node list"
  me_helper :: "target list"
  me_taker :: account_target
  me_maker :: account_target
  me_taker_position :: account_position
  me_maker_position :: account_position

text \<open>What it changes: the pending order, the maker order, the leaf of the book and the assets of the taker.\<close>

record match_state =
  ms_register :: base_register_info
  ms_account_order :: account_order
  ms_order :: order_target
  ms_taker_assets :: "account_asset list"

section \<open>The tests on the orders\<close>

definition order_type_flags :: "target \<Rightarrow> (target \<times> target) circ" where
  "order_type_flags pending =
    circ_bind (is_equal pending (constant_u64 LIMIT_ORDER)) (\<lambda>is_limit_order.
    circ_bind (is_equal pending (constant_u64 MARKET_ORDER)) (\<lambda>is_market_order.
    circ_bind (is_equal pending (constant_u64 STOP_LOSS_ORDER)) (\<lambda>is_stop_loss_order.
    circ_bind (is_equal pending (constant_u64 STOP_LOSS_LIMIT_ORDER)) (\<lambda>is_stop_loss_limit_order.
    circ_bind (is_equal pending (constant_u64 TAKE_PROFIT_ORDER)) (\<lambda>is_take_profit_order.
    circ_bind (is_equal pending (constant_u64 TAKE_PROFIT_LIMIT_ORDER)) (\<lambda>is_take_profit_limit_order.
    circ_bind (is_equal pending (constant_u64 TWAP_SUB_ORDER)) (\<lambda>is_twap_sub_order.
    circ_bind (is_equal pending (constant_u64 LIQUIDATION_ORDER)) (\<lambda>is_liquidation_order.
    circ_return (multi_or [is_market_order, is_stop_loss_order, is_take_profit_order, is_twap_sub_order],
      multi_or [is_limit_order, is_liquidation_order, is_stop_loss_limit_order, is_take_profit_limit_order])))))))))"

record match_tests =
  t_perps :: target
  t_maker_limit :: target
  t_triggered :: target
  t_market :: target
  t_limit :: target
  t_ioc :: target
  t_post_only :: target
  t_side_empty :: target
  t_price_gt :: target
  t_price_lt :: target

definition match_prepare :: "match_env \<Rightarrow> match_state \<Rightarrow> match_tests circ" where
  "match_prepare env ms =
    (let r = ms_register ms; ord = ms_order ms; top_node = me_path env ! (ORDER_BOOK_MERKLE_LEVELS - 1) in
     circ_bind (is_equal_constant (market_type (me_market env)) MARKET_TYPE_PERPS) (\<lambda>is_perps.
     circ_bind (is_not_equal (pending_trigger_status r) (constant_u64 TRIGGER_STATUS_NA)) (\<lambda>is_triggered.
     circ_bind (is_equal (ao_order_type (ms_account_order ms)) (constant_u64 LIMIT_ORDER)) (\<lambda>is_maker_limit_order.
     circ_bind (order_type_flags (pending_type r)) (\<lambda>(market_flag, limit_flag).
     circ_bind (is_equal (pending_time_in_force r) (constant_u64 IOC)) (\<lambda>is_ioc.
     circ_bind (is_equal (pending_time_in_force r) (constant_u64 POST_ONLY)) (\<lambda>is_post_only.
     let opposite_size = select (pending_is_ask r) (node_bid_base_sum top_node) (node_ask_base_sum top_node) in
     circ_bind (is_zero opposite_size) (\<lambda>is_opposite_side_empty.
     circ_bind (is_gt (pending_price r) (price_index ord) ORDER_PRICE_BITS) (\<lambda>price_gt.
     circ_bind (is_equal (pending_price r) (price_index ord)) (\<lambda>price_eq.
     circ_return \<lparr>t_perps = is_perps, t_maker_limit = is_maker_limit_order, t_triggered = is_triggered, t_market = market_flag,
       t_limit = limit_flag, t_ioc = is_ioc, t_post_only = is_post_only, t_side_empty = is_opposite_side_empty,
       t_price_gt = price_gt, t_price_lt = b_not (b_or price_gt price_eq)\<rparr>))))))))))"

definition is_not_valid_reduce_only_direction :: "target \<Rightarrow> target \<Rightarrow> target circ" where
  "is_not_valid_reduce_only_direction position_sign is_ask =
    circ_bind (is_sign_positive position_sign) (\<lambda>positive_position.
    let is_ask_and_positive_position = b_and is_ask positive_position in
    circ_bind (is_sign_negative position_sign) (\<lambda>negative_position.
    let is_bid_and_negative_position = and_not negative_position is_ask in
    circ_return (b_not (b_or is_ask_and_positive_position is_bid_and_negative_position))))"

section \<open>From the book: no order to meet\<close>

text \<open>An empty leaf belongs to the taker order.\<close>

definition empty_leaf_checks :: "target \<Rightarrow> match_state \<Rightarrow> unit circ" where
  "empty_leaf_checks flag ms =
    (let r = ms_register ms; ao = ms_account_order ms in
     circ_bind (conditional_assert_eq flag (price_index (ms_order ms)) (pending_price r)) (\<lambda>_.
     circ_bind (conditional_assert_eq flag (nonce_index (ms_order ms)) (pending_nonce r)) (\<lambda>_.
     circ_bind (conditional_assert_eq flag (ao_owner_account_index ao) (reg_account_index r)) (\<lambda>_.
     circ_bind (conditional_assert_eq flag (ao_index_0 ao) (pending_order_index r)) (\<lambda>_.
     conditional_assert_eq flag (ao_index_1 ao) (pending_client_order_index r))))))"

definition match_opening :: "match_env \<Rightarrow> match_state \<Rightarrow> match_tests \<Rightarrow> match_flags \<Rightarrow> (match_flags \<times> target \<times> target) circ" where
  "match_opening env ms t fl =
    (let r = ms_register ms; taker_position = position (me_taker_position env);
         fl = insert_taker_if (b_and (update_status fl) (t_triggered t)) fl in
     circ_bind (biguint_u16_to_target (bi_abs taker_position)) (\<lambda>abs_taker_account_old_position.
     circ_bind (is_equal (pending_reduce_only r) (Const 1)) (\<lambda>taker_reduce_only.
     circ_bind (is_not_valid_reduce_only_direction (bi_sign taker_position) (pending_is_ask r)) (\<lambda>bad_direction.
     let fl = cancel_taker_if (multi_and [update_status fl, t_perps t, bad_direction, taker_reduce_only]) fl in
     circ_bind (order_is_empty (ms_order ms)) (\<lambda>order_leaf_is_empty.
     circ_bind (empty_leaf_checks (b_and (update_status fl) order_leaf_is_empty) ms) (\<lambda>_.
     let fl = cancel_taker_if (multi_and [update_status fl, t_ioc t, t_side_empty t]) fl;
         (opposite_base_sum, _) = get_quote (pending_is_ask r) (ms_order ms) (me_path env) (me_helper env) in
     circ_bind (is_zero opposite_base_sum) (\<lambda>opposite_base_is_zero.
     circ_bind (conditional_assert_true (update_status fl) opposite_base_is_zero) (\<lambda>_.
     let fl = cancel_taker_if (multi_and [update_status fl, t_ioc t, order_leaf_is_empty]) fl;
         flag = multi_and [update_status fl, order_leaf_is_empty] in
     circ_bind (conditional_assert_true flag (t_limit t)) (\<lambda>_.
     circ_return (insert_taker_if flag fl, taker_reduce_only, abs_taker_account_old_position))))))))))"

section \<open>Specification\<close>

definition perps_market :: "match_env \<Rightarrow> bool" where
  "perps_market env \<longleftrightarrow> uval (market_type (me_market env)) = MARKET_TYPE_PERPS"

definition market_kind :: "nat \<Rightarrow> bool" where
  "market_kind k \<longleftrightarrow> k = MARKET_ORDER \<or> k = STOP_LOSS_ORDER \<or> k = TAKE_PROFIT_ORDER \<or> k = TWAP_SUB_ORDER"

definition limit_kind :: "nat \<Rightarrow> bool" where
  "limit_kind k \<longleftrightarrow> k = LIMIT_ORDER \<or> k = LIQUIDATION_ORDER \<or> k = STOP_LOSS_LIMIT_ORDER \<or> k = TAKE_PROFIT_LIMIT_ORDER"

definition side_empty :: "match_env \<Rightarrow> bool \<Rightarrow> bool" where
  "side_empty env ask \<longleftrightarrow>
    uval ((if ask then node_bid_base_sum else node_ask_base_sum) (me_path env ! (ORDER_BOOK_MERKLE_LEVELS - 1))) = 0"

definition leaf_empty :: "match_state \<Rightarrow> bool" where
  "leaf_empty ms \<longleftrightarrow> order_amounts (ms_order ms) = replicate 4 0"

definition leaf_is_takers :: "match_state \<Rightarrow> bool" where
  "leaf_is_takers ms \<longleftrightarrow> (let r = ms_register ms; ao = ms_account_order ms in
    uval (price_index (ms_order ms)) = uval (pending_price r) \<and> uval (nonce_index (ms_order ms)) = uval (pending_nonce r) \<and>
    uval (ao_owner_account_index ao) = uval (reg_account_index r) \<and> uval (ao_index_0 ao) = uval (pending_order_index r) \<and>
    uval (ao_index_1 ao) = uval (pending_client_order_index r))"

definition immediate :: "match_state \<Rightarrow> bool" where
  "immediate ms \<longleftrightarrow> uval (pending_time_in_force (ms_register ms)) = IOC"

definition misdirected :: "int \<Rightarrow> bool \<Rightarrow> bool" where
  "misdirected z ask \<longleftrightarrow> \<not> (if ask then 0 < z else z < 0)"

text \<open>The decision before the book is looked at, with the other side of the book empty, and with the leaf empty.\<close>

definition entry_decision :: "match_env \<Rightarrow> match_state \<Rightarrow> bool \<Rightarrow> int \<Rightarrow> decision option \<Rightarrow> decision option" where
  "entry_decision env ms ask z s =
    first_of (first_of s (uval (pending_trigger_status (ms_register ms)) \<noteq> TRIGGER_STATUS_NA) Insert_Taker)
      (perps_market env \<and> misdirected z ask \<and> uval (pending_reduce_only (ms_register ms)) = 1) (Stop True False)"

definition side_decision :: "match_env \<Rightarrow> match_state \<Rightarrow> bool \<Rightarrow> int \<Rightarrow> decision option \<Rightarrow> decision option" where
  "side_decision env ms ask z s = first_of (entry_decision env ms ask z s) (immediate ms \<and> side_empty env ask) (Stop True False)"

definition opening_decision :: "match_env \<Rightarrow> match_state \<Rightarrow> bool \<Rightarrow> int \<Rightarrow> decision option \<Rightarrow> decision option" where
  "opening_decision env ms ask z s =
    first_of (first_of (side_decision env ms ask z s) (immediate ms \<and> leaf_empty ms) (Stop True False)) (leaf_empty ms) Insert_Taker"

text \<open>What the prover has to show on the way: \<open>better\<close> is the size of the orders with better priority than the leaf.\<close>

definition opening_accepts :: "match_env \<Rightarrow> match_state \<Rightarrow> bool \<Rightarrow> int \<Rightarrow> decision option \<Rightarrow> nat \<Rightarrow> bool" where
  "opening_accepts env ms ask z s better \<longleftrightarrow>
    (entry_decision env ms ask z s = None \<and> leaf_empty ms \<longrightarrow> leaf_is_takers ms) \<and>
    (side_decision env ms ask z s = None \<longrightarrow> better = 0) \<and>
    (side_decision env ms ask z s = None \<and> \<not> immediate ms \<and> leaf_empty ms \<longrightarrow> limit_kind (uval (pending_type (ms_register ms))))"

definition tests_are :: "match_env \<Rightarrow> match_state \<Rightarrow> bool \<Rightarrow> match_tests \<Rightarrow> bool" where
  "tests_are env ms ask t \<longleftrightarrow>
    bval (t_perps t) (perps_market env) \<and> bval (t_maker_limit t) (uval (ao_order_type (ms_account_order ms)) = LIMIT_ORDER) \<and>
    bval (t_triggered t) (uval (pending_trigger_status (ms_register ms)) \<noteq> TRIGGER_STATUS_NA) \<and>
    bval (t_market t) (market_kind (uval (pending_type (ms_register ms)))) \<and> bval (t_limit t) (limit_kind (uval (pending_type (ms_register ms)))) \<and>
    bval (t_ioc t) (immediate ms) \<and> bval (t_post_only t) (uval (pending_time_in_force (ms_register ms)) = POST_ONLY) \<and>
    bval (t_side_empty t) (side_empty env ask) \<and>
    bval (t_price_gt t) (uval (price_index (ms_order ms)) < uval (pending_price (ms_register ms))) \<and>
    bval (t_price_lt t) (uval (pending_price (ms_register ms)) < uval (price_index (ms_order ms)))"

lemma tests_areD:
  assumes "tests_are env ms ask t"
  shows "bval (t_perps t) (perps_market env)" "bval (t_maker_limit t) (uval (ao_order_type (ms_account_order ms)) = LIMIT_ORDER)"
    "bval (t_triggered t) (uval (pending_trigger_status (ms_register ms)) \<noteq> TRIGGER_STATUS_NA)"
    "bval (t_market t) (market_kind (uval (pending_type (ms_register ms))))" "bval (t_limit t) (limit_kind (uval (pending_type (ms_register ms))))"
    "bval (t_ioc t) (immediate ms)" "bval (t_post_only t) (uval (pending_time_in_force (ms_register ms)) = POST_ONLY)"
    "bval (t_side_empty t) (side_empty env ask)"
    "bval (t_price_gt t) (uval (price_index (ms_order ms)) < uval (pending_price (ms_register ms)))"
    "bval (t_price_lt t) (uval (pending_price (ms_register ms)) < uval (price_index (ms_order ms)))"
  using assms by (simp_all add: tests_are_def)

section \<open>Contracts\<close>

lemma implements_is_code:
  assumes "c < 16"
  shows "implements (is_equal x (constant_u64 c)) (\<lambda>r. bval r (uval x = c))"
  using implements_is_equal_constant [of c x] assms by (simp add: is_equal_constant_def)

lemma implements_is_not_code:
  assumes "c < 16"
  shows "implements (is_not_equal x (constant_u64 c)) (\<lambda>r. bval r (uval x \<noteq> c))"
  unfolding is_not_equal_def by (rule implements_bind [OF implements_is_code [OF assms]]) (auto intro!: implements_return bval_not)

lemma implements_order_type_flags:
  "implements (order_type_flags x) (\<lambda>(m, l). bval m (market_kind (uval x)) \<and> bval l (limit_kind (uval x)))"
proof -
  have codes: "LIMIT_ORDER < 16" "MARKET_ORDER < 16" "STOP_LOSS_ORDER < 16" "STOP_LOSS_LIMIT_ORDER < 16" "TAKE_PROFIT_ORDER < 16"
    "TAKE_PROFIT_LIMIT_ORDER < 16" "TWAP_SUB_ORDER < 16" "LIQUIDATION_ORDER < 16" by (simp_all add: order_kinds)
  show ?thesis
    unfolding order_type_flags_def
  proof (rule implements_bind [OF implements_is_code [OF codes(1)]], rule implements_bind [OF implements_is_code [OF codes(2)]],
      rule implements_bind [OF implements_is_code [OF codes(3)]], rule implements_bind [OF implements_is_code [OF codes(4)]],
      rule implements_bind [OF implements_is_code [OF codes(5)]], rule implements_bind [OF implements_is_code [OF codes(6)]],
      rule implements_bind [OF implements_is_code [OF codes(7)]], rule implements_bind [OF implements_is_code [OF codes(8)]],
      rule implements_return, unfold prod.case)
    fix a b c d e f g h
    assume "bval a (uval x = LIMIT_ORDER)" "bval b (uval x = MARKET_ORDER)" "bval c (uval x = STOP_LOSS_ORDER)" "bval d (uval x = STOP_LOSS_LIMIT_ORDER)"
      "bval e (uval x = TAKE_PROFIT_ORDER)" "bval f (uval x = TAKE_PROFIT_LIMIT_ORDER)" "bval g (uval x = TWAP_SUB_ORDER)" "bval h (uval x = LIQUIDATION_ORDER)"
    then show "bval (multi_or [b, c, e, g]) (market_kind (uval x)) \<and> bval (multi_or [a, h, d, f]) (limit_kind (uval x))"
      using bval_multi_or [of "[b, c, e, g]" "[uval x = MARKET_ORDER, uval x = STOP_LOSS_ORDER, uval x = TAKE_PROFIT_ORDER, uval x = TWAP_SUB_ORDER]"]
        bval_multi_or [of "[a, h, d, f]" "[uval x = LIMIT_ORDER, uval x = LIQUIDATION_ORDER, uval x = STOP_LOSS_LIMIT_ORDER, uval x = TAKE_PROFIT_LIMIT_ORDER]"]
      by (simp add: market_kind_def limit_kind_def)
  qed
qed

lemma implements_match_prepare:
  assumes ask: "bval (pending_is_ask (ms_register ms)) ask"
    and price: "uval (pending_price (ms_register ms)) < 2 ^ ORDER_PRICE_BITS" "uval (price_index (ms_order ms)) < 2 ^ ORDER_PRICE_BITS"
  shows "implements (match_prepare env ms) (tests_are env ms ask)"
proof -
  have gt: "implements (is_gt (pending_price (ms_register ms)) (price_index (ms_order ms)) ORDER_PRICE_BITS)
      (\<lambda>r. bval r (uval (price_index (ms_order ms)) < uval (pending_price (ms_register ms))))"
    by (rule implements_is_gt [OF cmp_okI [OF _ price(1)] cmp_okI [OF _ price(2)]]) (simp_all add: ORDER_PRICE_BITS_def)
  have codes: "MARKET_TYPE_PERPS < p_nat" "TRIGGER_STATUS_NA < 16" "LIMIT_ORDER < 16" "IOC < 16" "POST_ONLY < 16"
    by (simp_all add: MARKET_TYPE_PERPS_def TRIGGER_STATUS_NA_def LIMIT_ORDER_def IOC_def POST_ONLY_def)
  show ?thesis
    unfolding match_prepare_def Let_def
  proof (rule implements_bind [OF implements_is_equal_constant [OF codes(1)]], rule implements_bind [OF implements_is_not_code [OF codes(2)]],
      rule implements_bind [OF implements_is_code [OF codes(3)]], rule implements_bind [OF implements_order_type_flags], unfold split_paired_all prod.case,
      elim conjE, rule implements_bind [OF implements_is_code [OF codes(4)]], rule implements_bind [OF implements_is_code [OF codes(5)]],
      rule implements_bind [OF implements_is_zero], rule implements_bind [OF gt], rule implements_bind [OF implements_is_equal], rule implements_return, goal_cases)
    case (1 p n k m l i o e g q)
    have lt: "bval (b_not (b_or g q)) (uval (pending_price (ms_register ms)) < uval (price_index (ms_order ms)))"
      by (rule bval_eq [OF bval_not [OF bval_or [OF 1(9,10)]]]) (auto simp: to_canonical_inject [symmetric])
    show ?case
      unfolding tests_are_def perps_market_def immediate_def
      using 1 lt by (cases ask) (simp_all add: uval_select [OF ask] side_empty_def)
  qed
qed

lemma implements_misdirected:
  assumes "sval s z" "bval is_ask ask"
  shows "implements (is_not_valid_reduce_only_direction s is_ask) (\<lambda>r. bval r (misdirected z ask))"
  unfolding is_not_valid_reduce_only_direction_def Let_def
proof (rule implements_bind [OF implements_is_sign(2) [OF assms(1)]], rule implements_bind [OF implements_is_sign(1) [OF assms(1)]], rule implements_return)
  fix p n assume "bval p (0 < z)" "bval n (z < 0)"
  from bval_not [OF bval_or [OF bval_and [OF assms(2) this(1)] bval_and_not [OF this(2) assms(2)]]]
  show "bval (b_not (b_or (b_and is_ask p) (and_not n is_ask))) (misdirected z ask)"
    by (rule bval_eq) (auto simp: misdirected_def)
qed

lemma realises_empty_leaf_checks:
  assumes f: "bval flag f"
  shows "realises (empty_leaf_checks flag ms) (f \<longrightarrow> leaf_is_takers ms) (\<lambda>_. True)"
  unfolding empty_leaf_checks_def Let_def
  by (rule realises_when, rule realises_bind [OF realises_conditional_assert_eq [OF f]], rule realises_bind [OF realises_conditional_assert_eq [OF f]],
      rule realises_bind [OF realises_conditional_assert_eq [OF f]], rule realises_bind [OF realises_conditional_assert_eq [OF f]],
      rule realises_conditional_assert_eq [OF f]) (auto simp: leaf_is_takers_def Let_def to_canonical_inject)

text \<open>One test of the sequence.\<close>

lemma flags_test:
  assumes fl: "flags_are fl s" and ts: "list_all2 bval ts bs" and c: "(\<forall>b\<in>set bs. b) = c"
  shows "flags_are (cancel_taker_if (multi_and (update_status fl # ts)) fl) (first_of s c (Stop True False))"
    "flags_are (cancel_maker_if (multi_and (update_status fl # ts)) fl) (first_of s c (Stop False True))"
    "flags_are (cancel_both_if (multi_and (update_status fl # ts)) fl) (first_of s c (Stop True True))"
    "flags_are (insert_taker_if (multi_and (update_status fl # ts)) fl) (first_of s c Insert_Taker)"
  using flags_are_step [OF fl bval_test [OF fl ts]] unfolding c by simp_all

lemma flags_test_one:
  assumes fl: "flags_are fl s" and t: "bval t c"
  shows "flags_are (cancel_taker_if (b_and (update_status fl) t) fl) (first_of s c (Stop True False))"
    "flags_are (cancel_maker_if (b_and (update_status fl) t) fl) (first_of s c (Stop False True))"
    "flags_are (insert_taker_if (b_and (update_status fl) t) fl) (first_of s c Insert_Taker)"
  using flags_are_step [OF fl bval_test_one [OF fl t]] by simp_all

lemma realises_match_opening:
  fixes env :: match_env and ms :: match_state
  defines "better \<equiv> uval (fst (get_quote (pending_is_ask (ms_register ms)) (ms_order ms) (me_path env) (me_helper env)))"
  assumes t: "tests_are env ms ask t" and ask: "bval (pending_is_ask (ms_register ms)) ask" and fl: "flags_are fl s"
    and z: "bigz16 (position (me_taker_position env)) 4 z" "\<bar>z\<bar> < 2 ^ 60"
  shows "realises (match_opening env ms t fl) (opening_accepts env ms ask z s better)
    (\<lambda>(fl, ro, a). flags_are fl (opening_decision env ms ask z s) \<and>
      bval ro (uval (pending_reduce_only (ms_register ms)) = 1) \<and> uval a = nat \<bar>z\<bar>)"
proof -
  note tests = tests_areD [OF t]
  let ?r = "ms_register ms" and ?q = "get_quote (pending_is_ask (ms_register ms)) (ms_order ms) (me_path env) (me_helper env)"
  let ?entry = "entry_decision env ms ask z s" and ?side = "side_decision env ms ask z s"
  have one: "implements (is_equal (pending_reduce_only ?r) (Const 1)) (\<lambda>ro. bval ro (uval (pending_reduce_only ?r) = 1))"
    using implements_is_code [of 1 "pending_reduce_only ?r"] by (simp add: constant_u64_def)
  note fl1 = flags_test_one(3) [OF fl tests(3)]
  have quote: "(let (a, uu) = ?q in f a) = f (fst ?q)" for f :: "target \<Rightarrow> (match_flags \<times> target \<times> target) circ"
    by (simp add: case_prod_unfold)
  show ?thesis
    unfolding match_opening_def case_prod_unfold Let_def
  proof (rule realises_when [where P = "(?entry = None \<and> order_amounts (ms_order ms) = replicate 4 0 \<longrightarrow> leaf_is_takers ms) \<and>
        (?side = None \<longrightarrow> uval (fst ?q) = 0) \<and>
        (first_of ?side (immediate ms \<and> leaf_empty ms) (Stop True False) = None \<and> (\<forall>b\<in>set [leaf_empty ms]. b) \<longrightarrow> limit_kind (uval (pending_type ?r)))"],
      rule realises_after [OF uval_biguint_u16_to_target [OF z]], rule realises_after [OF one],
      rule realises_after [OF implements_misdirected [OF bigz16D(4) [OF z(1)] ask]], rule realises_after [OF implements_order_is_empty], goal_cases)
    case (1 a ro bad e)
    let ?f1 = "insert_taker_if (b_and (update_status fl) (t_triggered t)) fl"
    let ?f2 = "cancel_taker_if (multi_and [update_status ?f1, t_perps t, bad, ro]) ?f1"
    have fl2: "flags_are ?f2 ?entry"
      unfolding entry_decision_def
      by (rule flags_test(1) [OF fl1, where bs = "[perps_market env, misdirected z ask, uval (pending_reduce_only ?r) = 1]"]) (use 1 tests in simp_all)
    let ?f3 = "cancel_taker_if (multi_and [update_status ?f2, t_ioc t, t_side_empty t]) ?f2"
    have fl3: "flags_are ?f3 ?side"
      unfolding side_decision_def
      by (rule flags_test(1) [OF fl2, where bs = "[immediate ms, side_empty env ask]"]) (use tests in simp_all)
    let ?f4 = "cancel_taker_if (multi_and [update_status ?f3, t_ioc t, e]) ?f3"
    have fl4: "flags_are ?f4 (first_of ?side (immediate ms \<and> leaf_empty ms) (Stop True False))"
      by (rule flags_test(1) [OF fl3, where bs = "[immediate ms, leaf_empty ms]"]) (use 1 tests in \<open>simp_all add: leaf_empty_def\<close>)
    let ?g = "multi_and [update_status ?f4, e]"
    have g: "bval ?g (first_of ?side (immediate ms \<and> leaf_empty ms) (Stop True False) = None \<and> (\<forall>b\<in>set [leaf_empty ms]. b))"
      by (rule bval_test [OF fl4]) (use 1 in \<open>simp add: leaf_empty_def\<close>)
    have fl5: "flags_are (insert_taker_if ?g ?f4) (opening_decision env ms ask z s)"
      unfolding opening_decision_def by (rule flags_test(4) [OF fl4, where bs = "[leaf_empty ms]"]) (use 1 in \<open>simp_all add: leaf_empty_def\<close>)
    show ?case
      by (rule realises_bind [OF realises_empty_leaf_checks [OF bval_test_one [OF fl2 1(4)]]], rule realises_after [OF implements_is_zero],
          rule realises_bind [OF realises_conditional_assert_true [OF flags_areD(1) [OF fl3]]], assumption,
          rule realises_then_return [OF realises_conditional_assert_true [OF g tests(5)]])
        (use fl5 1 in simp)
  qed (auto simp: opening_accepts_def leaf_empty_def better_def)
qed

end
