(* ===== verification/Self_Trade.thy ===== *)
theory Self_Trade
  imports Match_Decision
begin

text \<open>
  The matching after an order was found in the book (\<open>execute_matching\<close> and \<open>apply_self_trade_reduce\<close> of
  \<open>circuit/src/matching_engine.rs\<close>): the maker order is the one of the leaf, orders of the same account or master
  account do not trade with each other but are cancelled or reduced, and a maker order that is expired or reduces
  nothing is cancelled.
\<close>

section \<open>The maker order\<close>

definition le_sum_bytes :: "target list \<Rightarrow> target" where
  "le_sum_bytes bytes = (if bytes = [] then Const 0
    else foldl (\<lambda>acc byte. b_mul_add acc (Const 256) byte) (last bytes) (tl (rev bytes)))"

definition get_market_index_and_order_nonce_from_order_index :: "target \<Rightarrow> (target \<times> target) circ" where
  "get_market_index_and_order_nonce_from_order_index order_index =
    circ_bind (split_bytes order_index ((ORDER_NONCE_BITS + MARKET_INDEX_BITS + 7) div 8)) (\<lambda>bytes.
    let order_nonce = le_sum_bytes (take (ORDER_NONCE_BITS div 8) bytes);
        market_index_plus_one = le_sum_bytes (drop (ORDER_NONCE_BITS div 8) bytes) in
    circ_return (b_sub market_index_plus_one (Const 1), order_nonce))"

definition match_maker :: "match_env \<Rightarrow> match_state \<Rightarrow> target \<Rightarrow> unit circ" where
  "match_maker env ms update =
    (let ao = ms_account_order ms in
     circ_bind (conditional_assert_eq update (price_index (ms_order ms)) (ao_price ao)) (\<lambda>_.
     circ_bind (conditional_assert_eq update (nonce_index (ms_order ms)) (ao_nonce ao)) (\<lambda>_.
     circ_bind (get_market_index_and_order_nonce_from_order_index (ao_index_0 ao)) (\<lambda>(market, _).
     conditional_assert_eq update market (market_index (me_market env))))))"

section \<open>The tests on the two parties\<close>

record party_tests =
  p_amount :: target
  p_no_integrator :: target
  p_taker_flags :: order_flags
  p_integrator_taker_fee :: target
  p_integrator_maker_fee :: target
  p_expire_maker :: target
  p_expire_taker :: target
  p_expire_both :: target
  p_reduce :: target
  p_maker_expired :: target
  p_same_account :: target

definition party_prepare :: "match_state \<Rightarrow> target \<Rightarrow> party_tests circ" where
  "party_prepare ms timestamp =
    (let r = ms_register ms; ao = ms_account_order ms in
     circ_bind (min_target [ao_remaining_base_amount ao, pending_size r] ORDER_SIZE_BITS) (\<lambda>optimistic_trade_amount.
     circ_bind (is_integrator_fee_disabled (generic_field_1 r)) (\<lambda>taker_disabled.
     let taker_order_flags_value = select taker_disabled (generic_field_2 r) (Const 0) in
     circ_bind (order_flags_from_target taker_order_flags_value) (\<lambda>taker_order_flags.
     let integrator_taker_fee = select taker_disabled (Const 0) (generic_field_2 r) in
     circ_bind (is_integrator_fee_disabled (ao_integrator_fee_collector_index ao)) (\<lambda>maker_disabled.
     let integrator_maker_fee = select maker_disabled (Const 0) (ao_integrator_maker_fee ao);
         mode = self_trade_behavior_mode taker_order_flags in
     circ_bind (is_equal_constant mode SELF_TRADE_BEHAVIOR_EXPIRE_MAKER) (\<lambda>is_expire_maker_mode.
     circ_bind (is_equal_constant mode SELF_TRADE_BEHAVIOR_EXPIRE_TAKER) (\<lambda>is_expire_taker_mode.
     circ_bind (is_equal_constant mode SELF_TRADE_BEHAVIOR_EXPIRE_BOTH) (\<lambda>is_expire_both_mode.
     circ_bind (is_equal_constant mode SELF_TRADE_BEHAVIOR_REDUCE) (\<lambda>is_reduce_mode.
     circ_bind (is_lte (ao_expiry ao) timestamp TIMESTAMP_BITS) (\<lambda>is_maker_order_expired.
     circ_bind (is_equal (ao_owner_account_index ao) (reg_account_index r)) (\<lambda>is_account_index_equal.
     circ_return \<lparr>p_amount = optimistic_trade_amount, p_no_integrator = taker_disabled, p_taker_flags = taker_order_flags,
       p_integrator_taker_fee = integrator_taker_fee, p_integrator_maker_fee = integrator_maker_fee,
       p_expire_maker = is_expire_maker_mode, p_expire_taker = is_expire_taker_mode, p_expire_both = is_expire_both_mode,
       p_reduce = is_reduce_mode, p_maker_expired = is_maker_order_expired, p_same_account = is_account_index_equal\<rparr>)))))))))))"

section \<open>Reducing both orders\<close>

definition apply_self_trade_reduce ::
  "match_env \<Rightarrow> match_tests \<Rightarrow> target \<Rightarrow> target \<Rightarrow> match_flags \<times> match_state \<Rightarrow> (match_flags \<times> match_state) circ" where
  "apply_self_trade_reduce env t flag trade_size = (\<lambda>(fl, ms).
    let fl = cancel_taker_if (multi_and [update_status fl, flag, t_post_only t]) fl;
        not_post_only_flag = b_and (update_status fl) flag;
        new_pending = b_sub (pending_size (ms_register ms)) trade_size;
        new_remaining = b_sub (ao_remaining_base_amount (ms_account_order ms)) trade_size;
        r = (ms_register ms)\<lparr>pending_size := select not_post_only_flag new_pending (pending_size (ms_register ms))\<rparr>;
        ao = (ms_account_order ms)\<lparr>ao_remaining_base_amount :=
          select not_post_only_flag new_remaining (ao_remaining_base_amount (ms_account_order ms))\<rparr> in
    circ_bind (is_equal_constant (acc_account_type (me_taker env)) INSURANCE_FUND_ACCOUNT_TYPE) (\<lambda>is_taker_insurance_fund.
    let decrement_flag = multi_and [not_post_only_flag, b_not (t_perps t), t_maker_limit t, b_not is_taker_insurance_fund] in
    circ_bind (decrement_locked_balance_for_partial_order decrement_flag (me_market env) (ao_is_ask ao) trade_size (ao_price ao)
      (ms_taker_assets ms)) (\<lambda>assets.
    let ord = set_remaining_amount_conditional not_post_only_flag (ao_is_ask ao) new_remaining (ms_order ms) in
    circ_bind (is_zero (pending_size r)) (\<lambda>taker_filled.
    let fl = fl\<lparr>cancel_taker_order := select_bool (b_and not_post_only_flag taker_filled) (update_status fl) (cancel_taker_order fl)\<rparr> in
    circ_bind (is_zero (ao_remaining_base_amount ao)) (\<lambda>maker_filled.
    let fl = fl\<lparr>cancel_maker_order := select_bool (b_and not_post_only_flag maker_filled) (update_status fl) (cancel_maker_order fl)\<rparr> in
    circ_return (fl\<lparr>update_status := select_bool not_post_only_flag (Const 0) (update_status fl)\<rparr>,
      ms\<lparr>ms_register := r, ms_account_order := ao, ms_order := ord, ms_taker_assets := assets\<rparr>))))))"

section \<open>Orders of the same account\<close>

text \<open>The three modes that cancel an order, tried in turn.\<close>

definition expire_by_mode :: "target \<Rightarrow> party_tests \<Rightarrow> match_flags \<Rightarrow> match_flags" where
  "expire_by_mode same p fl =
    (let fl = cancel_maker_if (multi_and [update_status fl, same, p_expire_maker p]) fl;
         fl = cancel_taker_if (multi_and [update_status fl, same, p_expire_taker p]) fl in
     cancel_both_if (multi_and [update_status fl, same, p_expire_both p]) fl)"

definition self_trade_with_fee ::
  "match_env \<Rightarrow> match_tests \<Rightarrow> party_tests \<Rightarrow> match_flags \<times> match_state \<Rightarrow> (match_flags \<times> match_state) circ" where
  "self_trade_with_fee env t p = (\<lambda>(fl, ms).
    let flag = and_not (p_same_account p) (p_no_integrator p);
        fl = cancel_maker_if (multi_and [update_status fl, flag, p_maker_expired p]) fl in
    apply_self_trade_reduce env t flag (p_amount p) (fl, ms))"

definition self_trade_same_account ::
  "match_env \<Rightarrow> match_tests \<Rightarrow> party_tests \<Rightarrow> match_flags \<times> match_state \<Rightarrow> (match_flags \<times> match_state) circ" where
  "self_trade_same_account env t p = (\<lambda>(fl, ms).
    let is_account_index_equality_mode = b_not (self_trade_equality_mode (p_taker_flags p));
        same = multi_and [is_account_index_equality_mode, p_same_account p];
        fl = cancel_maker_if (multi_and [update_status fl, same, p_maker_expired p]) fl;
        fl = expire_by_mode same p fl;
        reduce_flag = multi_and [update_status fl, same, p_reduce p] in
    apply_self_trade_reduce env t reduce_flag (p_amount p) (fl, ms))"

definition maker_order_gone :: "match_env \<Rightarrow> party_tests \<Rightarrow> target \<Rightarrow> match_flags \<Rightarrow> match_flags circ" where
  "maker_order_gone env p timestamp fl =
    circ_bind (should_dms_be_triggered timestamp (me_maker env)) (\<lambda>should_dms_be_triggered.
    circ_return (cancel_maker_if (b_and (update_status fl) (b_or should_dms_be_triggered (p_maker_expired p))) fl))"

definition self_trade_same_master :: "match_env \<Rightarrow> party_tests \<Rightarrow> match_flags \<Rightarrow> match_flags circ" where
  "self_trade_same_master env p fl =
    circ_bind (is_equal (acc_master_account_index (me_maker env)) (acc_master_account_index (me_taker env))) (\<lambda>same_master.
    circ_return (expire_by_mode (multi_and [self_trade_equality_mode (p_taker_flags p), same_master, p_no_integrator p]) p fl))"

section \<open>The maker account\<close>

definition match_parties :: "match_env \<Rightarrow> match_tests \<Rightarrow> match_state \<Rightarrow> match_flags \<Rightarrow> match_flags circ" where
  "match_parties env t ms fl =
    (let ao = ms_account_order ms in
     circ_bind (conditional_assert_eq (update_status fl) (ao_owner_account_index ao) (acc_account_index (me_maker env))) (\<lambda>_.
     circ_bind (conditional_assert_not_eq (update_status fl) (acc_account_index (me_taker env)) (acc_account_index (me_maker env))) (\<lambda>_.
     let fl = cancel_taker_if (b_and (update_status fl) (t_post_only t)) fl in
     circ_bind (is_not_valid_reduce_only_direction (bi_sign (position (me_maker_position env))) (ao_is_ask ao)) (\<lambda>bad_direction.
     circ_return (cancel_maker_if (multi_and [t_perps t, update_status fl, bad_direction, ao_reduce_only ao]) fl)))))"

section \<open>Specification\<close>

text \<open>The sizes of the two orders, the leaf of the book and the assets of the taker, as they change.\<close>

type_synonym match_sizes = "nat \<times> nat \<times> gf list \<times> asset_state list"

definition same_orders :: "match_state \<Rightarrow> match_state \<Rightarrow> bool" where
  "same_orders ms0 ms \<longleftrightarrow> (\<exists>p q ord as. ms = ms0\<lparr>ms_register := (ms_register ms0)\<lparr>pending_size := p\<rparr>,
      ms_account_order := (ms_account_order ms0)\<lparr>ao_remaining_base_amount := q\<rparr>, ms_order := ord, ms_taker_assets := as\<rparr> \<and>
    price_index ord = price_index (ms_order ms0) \<and> nonce_index ord = nonce_index (ms_order ms0))"

definition sizes_are :: "match_state \<Rightarrow> match_state \<Rightarrow> match_sizes \<Rightarrow> bool" where
  "sizes_are ms0 ms = (\<lambda>(p, q, L, xs). same_orders ms0 ms \<and> uval (pending_size (ms_register ms)) = p \<and>
    uval (ao_remaining_base_amount (ms_account_order ms)) = q \<and> order_amounts (ms_order ms) = L \<and> list_all2 asset_is (ms_taker_assets ms) xs)"

definition leaf_with :: "bool \<Rightarrow> nat \<Rightarrow> nat \<Rightarrow> gf list \<Rightarrow> gf list" where
  "leaf_with ask price q L = (if ask then [of_nat q, of_nat price * of_nat q, L ! 2, L ! 3] else [L ! 0, L ! 1, of_nat q, of_nat price * of_nat q])"

text \<open>Whether the maker order of a self trade holds a lock on the taker's assets.\<close>

definition holds_lock :: "match_env \<Rightarrow> match_state \<Rightarrow> bool" where
  "holds_lock env ms \<longleftrightarrow> \<not> perps_market env \<and> uval (ao_order_type (ms_account_order ms)) = LIMIT_ORDER \<and>
    uval (acc_account_type (me_taker env)) \<noteq> INSURANCE_FUND_ACCOUNT_TYPE"

definition reduce_sizes :: "match_env \<Rightarrow> match_state \<Rightarrow> bool \<Rightarrow> nat \<Rightarrow> match_sizes \<Rightarrow> match_sizes" where
  "reduce_sizes env ms ask a = (\<lambda>(p, q, L, xs). (p - a, q - a, leaf_with ask (uval (price_index (ms_order ms))) (q - a) L,
    if holds_lock env ms then change_locked (paid_asset (me_market env) ask)
      (\<lambda>l. l - locked_amount_of (me_market env) ask a (uval (ao_price (ms_account_order ms)))) xs else xs))"

definition unlock_possible :: "match_env \<Rightarrow> match_state \<Rightarrow> bool \<Rightarrow> nat \<Rightarrow> match_sizes \<Rightarrow> bool" where
  "unlock_possible env ms ask a = (\<lambda>(p, q, L, xs). holds_lock env ms \<longrightarrow>
    (let A = locked_amount_of (me_market env) ask a (uval (ao_price (ms_account_order ms))) in
     A < 2 ^ 96 \<and> (\<exists>l. locked_of (paid_asset (me_market env) ask) xs = Some l \<and> A \<le> l)))"

text \<open>A self trade that reduces: a post-only order is cancelled, otherwise the filled ones of the two orders are.\<close>

definition reduce_decision :: "bool \<Rightarrow> bool \<Rightarrow> nat \<Rightarrow> match_sizes \<Rightarrow> decision option \<Rightarrow> decision option" where
  "reduce_decision f post a = (\<lambda>(p, q, L, xs) s. first_of (first_of s (f \<and> post) (Stop True False)) f (Stop (p - a = 0) (q - a = 0)))"

section \<open>Reducing both orders\<close>

lemma same_ordersD:
  assumes "same_orders ms0 ms"
  shows "ao_is_ask (ms_account_order ms) = ao_is_ask (ms_account_order ms0)" "ao_price (ms_account_order ms) = ao_price (ms_account_order ms0)"
    "price_index (ms_order ms) = price_index (ms_order ms0)" "nonce_index (ms_order ms) = nonce_index (ms_order ms0)"
    "ao_owner_account_index (ms_account_order ms) = ao_owner_account_index (ms_account_order ms0)"
    "ao_reduce_only (ms_account_order ms) = ao_reduce_only (ms_account_order ms0)"
    "pending_is_ask (ms_register ms) = pending_is_ask (ms_register ms0)" "pending_price (ms_register ms) = pending_price (ms_register ms0)"
    "generic_field_0 (ms_register ms) = generic_field_0 (ms_register ms0)"
  using assms by (auto simp: same_orders_def)

lemma same_orders_refl: "same_orders ms ms"
  unfolding same_orders_def by (intro exI [of _ "pending_size (ms_register ms)"] exI [of _ "ao_remaining_base_amount (ms_account_order ms)"]
    exI [of _ "ms_order ms"] exI [of _ "ms_taker_assets ms"]) simp

lemma same_orders_update:
  assumes "same_orders ms0 ms" "price_index ord = price_index (ms_order ms)" "nonce_index ord = nonce_index (ms_order ms)"
  shows "same_orders ms0 (ms\<lparr>ms_register := (ms_register ms)\<lparr>pending_size := p\<rparr>,
    ms_account_order := (ms_account_order ms)\<lparr>ao_remaining_base_amount := q\<rparr>, ms_order := ord, ms_taker_assets := as\<rparr>)"
  using assms unfolding same_orders_def by fastforce

lemma order_amounts_set_remaining:
  assumes "bval c e" "bval is_ask ask"
  shows "order_amounts (set_remaining_amount_conditional c is_ask x ord) =
      (if e then leaf_with ask (uval (price_index ord)) (uval x) (order_amounts ord) else order_amounts ord)"
    and "price_index (set_remaining_amount_conditional c is_ask x ord) = price_index ord"
    and "nonce_index (set_remaining_amount_conditional c is_ask x ord) = nonce_index ord"
  using tval_select [OF bval_and [OF assms]] tval_select [OF bval_and [OF assms(1) bval_not [OF assms(2)]]]
  by (auto simp: order_amounts_def set_remaining_amount_conditional_def Let_def leaf_with_def tval_simps)

text \<open>The flags when both orders may have been filled.\<close>

lemma flags_are_filled:
  assumes fl: "flags_are fl s" and n: "bval n (s = None \<and> f)" and x: "bval x X" and y: "bval y Y"
  shows "flags_are (fl\<lparr>cancel_taker_order := select_bool (b_and n x) (update_status fl) (cancel_taker_order fl),
      cancel_maker_order := select_bool (b_and n y) (update_status fl) (cancel_maker_order fl),
      update_status := select_bool n (Const 0) (update_status fl)\<rparr>) (first_of s f (Stop X Y))"
proof -
  note keep = flags_areD [OF fl]
  note sel = bval_select_flag [OF bval_and [OF n x] keep(1) keep(2)] bval_select_flag [OF bval_and [OF n y] keep(1) keep(3)]
    bval_select_flag [OF n bval_Const(2) keep(1)]
  have fields: "update_status (fl\<lparr>cancel_taker_order := a, cancel_maker_order := b, update_status := c\<rparr>) = c"
    "cancel_taker_order (fl\<lparr>cancel_taker_order := a, cancel_maker_order := b, update_status := c\<rparr>) = a"
    "cancel_maker_order (fl\<lparr>cancel_taker_order := a, cancel_maker_order := b, update_status := c\<rparr>) = b"
    "insert_taker_order (fl\<lparr>cancel_taker_order := a, cancel_maker_order := b, update_status := c\<rparr>) = insert_taker_order fl" for a b c
    by simp_all
  have d: "first_of s f (Stop X Y) = (if s = None \<and> f then Some (Stop X Y) else s)" by (cases s) (simp_all add: first_of_def)
  show ?thesis
    unfolding flags_are_def fields d
    by (intro conjI; (rule bval_eq, rule sel keep(4), force))
qed

lemma realises_apply_self_trade_reduce:
  fixes ms0 ms :: match_state
  defines "post \<equiv> uval (pending_time_in_force (ms_register ms0)) = POST_ONLY"
  assumes t: "tests_are env ms0 ask t" and fl: "flags_are fl s" and f: "bval flag f" and S: "sizes_are ms0 ms (p, q, L, xs)"
    and mside: "bval (ao_is_ask (ms_account_order ms0)) mside" and price: "uval (ao_price (ms_account_order ms0)) < 2 ^ 32"
    and a: "s = None \<Longrightarrow> a \<le> p \<and> a \<le> q" "uval trade_size = a"
  shows "realises (apply_self_trade_reduce env t flag trade_size (fl, ms))
    (s = None \<and> f \<and> \<not> post \<longrightarrow> unlock_possible env ms0 mside a (p, q, L, xs))
    (\<lambda>(fl', ms'). flags_are fl' (reduce_decision f post a (p, q, L, xs) s) \<and>
      sizes_are ms0 ms' (if s = None \<and> f \<and> \<not> post then reduce_sizes env ms0 mside a (p, q, L, xs) else (p, q, L, xs)))"
proof -
  note tests = tests_areD [OF t, folded post_def]
  define fl1 where "fl1 = cancel_taker_if (multi_and [update_status fl, flag, t_post_only t]) fl"
  define np where "np = b_and (update_status fl1) flag"
  let ?s1 = "first_of s (f \<and> post) (Stop True False)" and ?red = "s = None \<and> f \<and> \<not> post"
  have fl1: "flags_are fl1 ?s1" unfolding fl1_def by (rule flags_test(1) [OF fl, where bs = "[f, post]"]) (use f tests in simp_all)
  have np': "bval np (?s1 = None \<and> f)" unfolding np_def by (rule bval_test_one [OF fl1 f])
  have np: "bval np ?red" by (rule bval_eq [OF np']) auto
  have S': "same_orders ms0 ms" "uval (pending_size (ms_register ms)) = p" "uval (ao_remaining_base_amount (ms_account_order ms)) = q"
    "order_amounts (ms_order ms) = L" "list_all2 asset_is (ms_taker_assets ms) xs" using S by (simp_all add: sizes_are_def)
  note same = same_ordersD [OF S'(1)]
  let ?p' = "select np (b_sub (pending_size (ms_register ms)) trade_size) (pending_size (ms_register ms))"
  let ?q0 = "b_sub (ao_remaining_base_amount (ms_account_order ms)) trade_size"
  let ?q' = "select np ?q0 (ao_remaining_base_amount (ms_account_order ms))"
  have q0: "uval ?q0 = q - a" if ?red using uval_sub_small [of trade_size "ao_remaining_base_amount (ms_account_order ms)"] a S'(3) that by simp
  have p': "uval ?p' = (if ?red then p - a else p)" and q': "uval ?q' = (if ?red then q - a else q)"
    using uval_sub_small [of trade_size "pending_size (ms_register ms)"] a S'(2,3) q0 unfolding uval_select [OF np] by (cases ?red; auto)+
  have ins: "INSURANCE_FUND_ACCOUNT_TYPE < p_nat" by (simp add: INSURANCE_FUND_ACCOUNT_TYPE_def)
  let ?m = "me_market env" and ?A = "locked_amount_of (me_market env) mside a (uval (ao_price (ms_account_order ms0)))"
  let ?k = "paid_asset (me_market env) mside"
  let ?ord = "set_remaining_amount_conditional np (ao_is_ask (ms_account_order ms)) ?q0 (ms_order ms)"
  have fields: "ao_is_ask (x\<lparr>ao_remaining_base_amount := v\<rparr>) = ao_is_ask x" "ao_price (x\<lparr>ao_remaining_base_amount := v\<rparr>) = ao_price x"
    "ao_remaining_base_amount (x\<lparr>ao_remaining_base_amount := v\<rparr>) = v" "pending_size (r\<lparr>pending_size := v\<rparr>) = v"
    "update_status (fl\<lparr>cancel_taker_order := c\<rparr>) = update_status fl" "cancel_maker_order (fl\<lparr>cancel_taker_order := c\<rparr>) = cancel_maker_order fl"
    "update_status (fl\<lparr>cancel_taker_order := c, cancel_maker_order := d\<rparr>) = update_status fl" for x v r fl c d
    by simp_all
  note leaf = order_amounts_set_remaining [OF np mside, where x = ?q0 and ord = "ms_order ms", unfolded S'(4)]
  show ?thesis
    unfolding apply_self_trade_reduce_def prod.case Let_def fl1_def [symmetric] np_def [symmetric]
  proof (rule realises_when [where P = "?red \<and> holds_lock env ms0 \<longrightarrow> ?A < 2 ^ 96 \<and> (\<exists>l. locked_of ?k xs = Some l \<and> ?A \<le> l)"],
      rule realises_after [OF implements_is_equal_constant [OF ins]], goal_cases)
    case (1 i)
    have lock: "bval (multi_and [np, b_not (t_perps t), t_maker_limit t, b_not i]) (?red \<and> holds_lock env ms0)"
      by (rule bval_eq [OF bval_multi_and [where bs = "[?red, \<not> perps_market env, uval (ao_order_type (ms_account_order ms0)) = LIMIT_ORDER,
          uval (acc_account_type (me_taker env)) \<noteq> INSURANCE_FUND_ACCOUNT_TYPE]"]])
        (use np tests bval_not [OF 1] bval_not [OF tests(1)] in \<open>simp_all add: holds_lock_def\<close>)
    note unlock = realises_decrement_partial [OF lock mside price S'(5), where m = ?m and base = trade_size, unfolded a(2)]
    show ?case
      unfolding fields same(1,2)
      proof (rule realises_when, rule realises_bind [OF unlock, where P' = True], rule realises_after [OF implements_is_zero], rule realises_after [OF implements_is_zero],
        rule realises_return, unfold prod.case, goal_cases)
      case (1 as x y)
      note as = 1(2) and x = 1(3) and y = 1(4)
      show ?case
      proof (rule conjI, goal_cases)
        case 1
        have "flags_are (fl1\<lparr>cancel_taker_order := select_bool (b_and np x) (update_status fl1) (cancel_taker_order fl1),
            cancel_maker_order := select_bool (b_and np y) (update_status fl1) (cancel_maker_order fl1),
            update_status := select_bool np (Const 0) (update_status fl1)\<rparr>) (first_of ?s1 f (Stop (uval ?p' = 0) (uval ?q' = 0)))"
          by (rule flags_are_filled [OF fl1 np' x y])
        moreover have "first_of ?s1 f (Stop (uval ?p' = 0) (uval ?q' = 0)) = reduce_decision f post a (p, q, L, xs) s"
          unfolding reduce_decision_def prod.case p' q' by (cases s; cases f; cases post) simp_all
        ultimately show ?case by simp
      next
        case 2
        show ?case
          unfolding sizes_are_def using same_orders_update [OF S'(1), of ?ord] leaf p' q' q0 as
          by (cases ?red; cases "holds_lock env ms0") (simp_all add: reduce_sizes_def same, blast+)
      qed
    qed simp_all
  qed (auto simp: unlock_possible_def Let_def)
qed

section \<open>The tests on the parties\<close>

definition taker_flags :: "match_state \<Rightarrow> nat" where
  "taker_flags ms = (if uval (generic_field_1 (ms_register ms)) = 0 then uval (generic_field_2 (ms_register ms)) else 0)"

definition same_account :: "match_state \<Rightarrow> bool" where
  "same_account ms \<longleftrightarrow> uval (ao_owner_account_index (ms_account_order ms)) = uval (reg_account_index (ms_register ms))"

definition maker_expired :: "match_state \<Rightarrow> nat \<Rightarrow> bool" where
  "maker_expired ms now \<longleftrightarrow> uval (ao_expiry (ms_account_order ms)) \<le> now"

definition trade_amount :: "match_state \<Rightarrow> nat" where
  "trade_amount ms = min (uval (ao_remaining_base_amount (ms_account_order ms))) (uval (pending_size (ms_register ms)))"

definition parties_are :: "match_state \<Rightarrow> nat \<Rightarrow> party_tests \<Rightarrow> bool" where
  "parties_are ms now p \<longleftrightarrow> uval (p_amount p) = trade_amount ms \<and> bval (p_no_integrator p) (uval (generic_field_1 (ms_register ms)) = 0) \<and>
    bval (self_trade_equality_mode (p_taker_flags p)) (4 \<le> taker_flags ms) \<and>
    bval (p_expire_maker p) (taker_flags ms mod 4 = SELF_TRADE_BEHAVIOR_EXPIRE_MAKER) \<and>
    bval (p_expire_taker p) (taker_flags ms mod 4 = SELF_TRADE_BEHAVIOR_EXPIRE_TAKER) \<and>
    bval (p_expire_both p) (taker_flags ms mod 4 = SELF_TRADE_BEHAVIOR_EXPIRE_BOTH) \<and>
    bval (p_reduce p) (taker_flags ms mod 4 = SELF_TRADE_BEHAVIOR_REDUCE) \<and>
    bval (p_maker_expired p) (maker_expired ms now) \<and> bval (p_same_account p) (same_account ms)"

lemma parties_areD:
  assumes "parties_are ms now p"
  shows "uval (p_amount p) = trade_amount ms" "bval (p_no_integrator p) (uval (generic_field_1 (ms_register ms)) = 0)"
    "bval (self_trade_equality_mode (p_taker_flags p)) (4 \<le> taker_flags ms)"
    "bval (p_expire_maker p) (taker_flags ms mod 4 = SELF_TRADE_BEHAVIOR_EXPIRE_MAKER)"
    "bval (p_expire_taker p) (taker_flags ms mod 4 = SELF_TRADE_BEHAVIOR_EXPIRE_TAKER)"
    "bval (p_expire_both p) (taker_flags ms mod 4 = SELF_TRADE_BEHAVIOR_EXPIRE_BOTH)"
    "bval (p_reduce p) (taker_flags ms mod 4 = SELF_TRADE_BEHAVIOR_REDUCE)"
    "bval (p_maker_expired p) (maker_expired ms now)" "bval (p_same_account p) (same_account ms)"
  using assms by (simp_all add: parties_are_def)

lemma implements_no_integrator: "implements (is_integrator_fee_disabled x) (\<lambda>r. bval r (uval x = 0))"
  using implements_is_equal_constant [of 0 x] by (simp add: is_integrator_fee_disabled_def is_equal_constant_def constant_u64_def)

lemma realises_party_prepare:
  assumes sizes: "uval (ao_remaining_base_amount (ms_account_order ms)) < 2 ^ ORDER_SIZE_BITS" "uval (pending_size (ms_register ms)) < 2 ^ ORDER_SIZE_BITS"
    and times: "uval (ao_expiry (ms_account_order ms)) < 2 ^ TIMESTAMP_BITS" "uval timestamp < 2 ^ TIMESTAMP_BITS"
  shows "realises (party_prepare ms timestamp) (taker_flags ms < 8) (parties_are ms (uval timestamp))"
proof -
  have amount: "implements (min_target [ao_remaining_base_amount (ms_account_order ms), pending_size (ms_register ms)] ORDER_SIZE_BITS) (\<lambda>r. uval r = trade_amount ms)"
    by (rule implements_weaken [OF implements_min_max_target(1)])
      (use sizes in \<open>auto simp: trade_amount_def ORDER_SIZE_BITS_def ORDER_BASE_AMOUNT_BITS_def intro: cmp_okI\<close>)
  have expired: "implements (is_lte (ao_expiry (ms_account_order ms)) timestamp TIMESTAMP_BITS) (\<lambda>r. bval r (maker_expired ms (uval timestamp)))"
    unfolding maker_expired_def by (rule implements_is_lte) (use times in \<open>auto simp: TIMESTAMP_BITS_def intro!: cmp_okI\<close>)
  have flags: "uval (select d (generic_field_2 (ms_register ms)) (Const 0)) = taker_flags ms" if "bval d (uval (generic_field_1 (ms_register ms)) = 0)" for d
    by (simp add: uval_select [OF that] taker_flags_def)
  have codes: "SELF_TRADE_BEHAVIOR_EXPIRE_MAKER < p_nat" "SELF_TRADE_BEHAVIOR_EXPIRE_TAKER < p_nat" "SELF_TRADE_BEHAVIOR_EXPIRE_BOTH < p_nat"
    "SELF_TRADE_BEHAVIOR_REDUCE < p_nat"
    by (simp_all add: SELF_TRADE_BEHAVIOR_EXPIRE_MAKER_def SELF_TRADE_BEHAVIOR_EXPIRE_TAKER_def SELF_TRADE_BEHAVIOR_EXPIRE_BOTH_def SELF_TRADE_BEHAVIOR_REDUCE_def)
  have rest: "realises (order_flags_from_target (select d (generic_field_2 (ms_register ms)) (Const 0))) (taker_flags ms < 8)
      (\<lambda>f. uval (self_trade_behavior_mode f) = taker_flags ms mod 4 \<and> bval (self_trade_equality_mode f) (4 \<le> taker_flags ms))"
    if "bval d (uval (generic_field_1 (ms_register ms)) = 0)" for d
    using realises_order_flags_from_target [of "select d (generic_field_2 (ms_register ms)) (Const 0)"] unfolding flags [OF that] .
  show ?thesis
    unfolding party_prepare_def Let_def
  proof (rule realises_when [where P = "taker_flags ms < 8 \<and> True"], rule realises_after [OF amount], rule realises_after [OF implements_no_integrator], rule realises_bind [OF rest], assumption,
      elim conjE, rule realises_after [OF implements_no_integrator], rule realises_after [OF implements_is_equal_constant [OF codes(1)]],
      rule realises_after [OF implements_is_equal_constant [OF codes(2)]], rule realises_after [OF implements_is_equal_constant [OF codes(3)]],
      rule realises_after [OF implements_is_equal_constant [OF codes(4)]], rule realises_after [OF expired], rule realises_after [OF implements_is_equal],
      rule realises_return, goal_cases)
    case (1 a d f d' m t b r e q)
    then show ?case by (simp add: parties_are_def same_account_def to_canonical_inject)
  qed simp
qed

section \<open>Self trades\<close>

definition match_is :: "match_state \<Rightarrow> match_flags \<times> match_state \<Rightarrow> decision option \<times> match_sizes \<Rightarrow> bool" where
  "match_is ms0 = (\<lambda>(fl, ms) (s, S). flags_are fl s \<and> sizes_are ms0 ms S \<and>
    (s = None \<longrightarrow> trade_amount ms0 \<le> fst S \<and> trade_amount ms0 \<le> fst (snd S)))"

definition reduce_step :: "match_env \<Rightarrow> match_state \<Rightarrow> bool \<Rightarrow> bool \<Rightarrow> decision option \<times> match_sizes \<Rightarrow> decision option \<times> match_sizes" where
  "reduce_step env ms mside f = (\<lambda>(s, S). let post = (uval (pending_time_in_force (ms_register ms)) = POST_ONLY) in
    (reduce_decision f post (trade_amount ms) S s, if s = None \<and> f \<and> \<not> post then reduce_sizes env ms mside (trade_amount ms) S else S))"

definition reduce_accepts :: "match_env \<Rightarrow> match_state \<Rightarrow> bool \<Rightarrow> bool \<Rightarrow> decision option \<times> match_sizes \<Rightarrow> bool" where
  "reduce_accepts env ms mside f = (\<lambda>(s, S).
    s = None \<and> f \<and> uval (pending_time_in_force (ms_register ms)) \<noteq> POST_ONLY \<longrightarrow> unlock_possible env ms mside (trade_amount ms) S)"

lemma reduce_decision_None [simp]: "reduce_decision f post a S s = None \<longleftrightarrow> s = None \<and> \<not> f"
  by (cases S) (auto simp: reduce_decision_def)

lemma realises_reduce_step:
  assumes "tests_are env ms0 ask t" "match_is ms0 (fl, ms) (s, S)" "bval flag f" "uval trade_size = trade_amount ms0"
    and "bval (ao_is_ask (ms_account_order ms0)) mside" "uval (ao_price (ms_account_order ms0)) < 2 ^ 32"
  shows "realises (apply_self_trade_reduce env t flag trade_size (fl, ms)) (reduce_accepts env ms0 mside f (s, S))
    (\<lambda>r. match_is ms0 r (reduce_step env ms0 mside f (s, S)))"
proof -
  obtain p q L xs where S: "S = (p, q, L, xs)" by (cases S)
  have m: "flags_are fl s" "sizes_are ms0 ms (p, q, L, xs)" "s = None \<Longrightarrow> trade_amount ms0 \<le> p \<and> trade_amount ms0 \<le> q"
    using assms(2) by (simp_all add: match_is_def S)
  show ?thesis
    using m(3) by (intro realises_weaken [OF realises_apply_self_trade_reduce [OF assms(1) m(1) assms(3) m(2) assms(5,6) m(3) assms(4)]])
      (auto simp: S reduce_accepts_def reduce_step_def match_is_def Let_def)
qed

lemma reduce_when_open:
  "reduce_step env ms mside (s = None \<and> f) (s, S) = reduce_step env ms mside f (s, S)"
  "reduce_accepts env ms mside (s = None \<and> f) (s, S) = reduce_accepts env ms mside f (s, S)"
  by (cases s; cases S; simp add: reduce_step_def reduce_accepts_def reduce_decision_def)+

lemma match_is_flags:
  assumes "match_is ms0 (fl, ms) (s, S)" "flags_are fl' (first_of s c d)"
  shows "match_is ms0 (fl', ms) (first_of s c d, S)"
  using assms by (auto simp: match_is_def)

definition mode_decision :: "match_state \<Rightarrow> bool \<Rightarrow> decision option \<Rightarrow> decision option" where
  "mode_decision ms same s =
    first_of (first_of (first_of s (same \<and> taker_flags ms mod 4 = SELF_TRADE_BEHAVIOR_EXPIRE_MAKER) (Stop False True))
      (same \<and> taker_flags ms mod 4 = SELF_TRADE_BEHAVIOR_EXPIRE_TAKER) (Stop True False))
      (same \<and> taker_flags ms mod 4 = SELF_TRADE_BEHAVIOR_EXPIRE_BOTH) (Stop True True)"

lemma flags_are_expire:
  assumes p: "parties_are ms now p" and fl: "flags_are fl s" and c: "bval c same"
  shows "flags_are (expire_by_mode c p fl) (mode_decision ms same s)"
  unfolding expire_by_mode_def mode_decision_def Let_def
  by (rule flags_test(3) [where bs = "[same, taker_flags ms mod 4 = SELF_TRADE_BEHAVIOR_EXPIRE_BOTH]"],
      rule flags_test(1) [where bs = "[same, taker_flags ms mod 4 = SELF_TRADE_BEHAVIOR_EXPIRE_TAKER]"],
      rule flags_test(2) [where bs = "[same, taker_flags ms mod 4 = SELF_TRADE_BEHAVIOR_EXPIRE_MAKER]"], rule fl)
    (use parties_areD [OF p] c in simp_all)

definition fee_step :: "match_env \<Rightarrow> match_state \<Rightarrow> nat \<Rightarrow> bool \<Rightarrow> decision option \<times> match_sizes \<Rightarrow> bool \<times> decision option \<times> match_sizes" where
  "fee_step env ms now mside = (\<lambda>(s, S).
    let f = (same_account ms \<and> uval (generic_field_1 (ms_register ms)) \<noteq> 0);
        s = first_of s (f \<and> maker_expired ms now) (Stop False True) in
    (reduce_accepts env ms mside f (s, S), reduce_step env ms mside f (s, S)))"

definition account_step :: "match_env \<Rightarrow> match_state \<Rightarrow> nat \<Rightarrow> bool \<Rightarrow> decision option \<times> match_sizes \<Rightarrow> bool \<times> decision option \<times> match_sizes" where
  "account_step env ms now mside = (\<lambda>(s, S).
    let f = (taker_flags ms < 4 \<and> same_account ms);
        s = mode_decision ms f (first_of s (f \<and> maker_expired ms now) (Stop False True));
        f' = (f \<and> taker_flags ms mod 4 = SELF_TRADE_BEHAVIOR_REDUCE) in
    (reduce_accepts env ms mside f' (s, S), reduce_step env ms mside f' (s, S)))"

lemma realises_self_trade_with_fee:
  assumes t: "tests_are env ms0 ask t" and p: "parties_are ms0 now p" and m: "match_is ms0 (fl, ms) (s, S)"
    and mside: "bval (ao_is_ask (ms_account_order ms0)) mside" and price: "uval (ao_price (ms_account_order ms0)) < 2 ^ 32"
  shows "realises (self_trade_with_fee env t p (fl, ms)) (fst (fee_step env ms0 now mside (s, S)))
    (\<lambda>r. match_is ms0 r (snd (fee_step env ms0 now mside (s, S))))"
proof -
  note pt = parties_areD [OF p]
  let ?f = "same_account ms0 \<and> uval (generic_field_1 (ms_register ms0)) \<noteq> 0"
  have fl: "flags_are fl s" using m by (simp add: match_is_def)
  note f = bval_and_not [OF pt(9) pt(2)]
  have "match_is ms0 (cancel_maker_if (multi_and [update_status fl, and_not (p_same_account p) (p_no_integrator p), p_maker_expired p]) fl, ms)
      (first_of s (?f \<and> maker_expired ms0 now) (Stop False True), S)"
    by (rule match_is_flags [OF m flags_test(2) [OF fl, where bs = "[?f, maker_expired ms0 now]"]]) (use f pt in simp_all)
  from realises_reduce_step [OF t this f pt(1) mside price]
  show ?thesis by (simp add: self_trade_with_fee_def fee_step_def Let_def)
qed

lemma realises_self_trade_same_account:
  assumes t: "tests_are env ms0 ask t" and p: "parties_are ms0 now p" and m: "match_is ms0 (fl, ms) (s, S)"
    and mside: "bval (ao_is_ask (ms_account_order ms0)) mside" and price: "uval (ao_price (ms_account_order ms0)) < 2 ^ 32"
  shows "realises (self_trade_same_account env t p (fl, ms)) (fst (account_step env ms0 now mside (s, S)))
    (\<lambda>r. match_is ms0 r (snd (account_step env ms0 now mside (s, S))))"
proof -
  note pt = parties_areD [OF p]
  let ?f = "taker_flags ms0 < 4 \<and> same_account ms0" and ?c = "multi_and [b_not (self_trade_equality_mode (p_taker_flags p)), p_same_account p]"
  have fl: "flags_are fl s" using m by (simp add: match_is_def)
  have f: "bval ?c ?f"
    by (rule bval_eq [OF bval_multi_and [where bs = "[\<not> 4 \<le> taker_flags ms0, same_account ms0]"]]) (use pt bval_not [OF pt(3)] in auto)
  let ?fl1 = "cancel_maker_if (multi_and [update_status fl, ?c, p_maker_expired p]) fl"
  let ?s1 = "first_of s (?f \<and> maker_expired ms0 now) (Stop False True)"
  have fl1: "flags_are ?fl1 ?s1" by (rule flags_test(2) [OF fl, where bs = "[?f, maker_expired ms0 now]"]) (use f pt in simp_all)
  note fl2 = flags_are_expire [OF p fl1 f]
  have m2: "match_is ms0 (expire_by_mode ?c p ?fl1, ms) (mode_decision ms0 ?f ?s1, S)"
    using m fl2 by (auto simp: match_is_def mode_decision_def)
  have reduce: "bval (multi_and [update_status (expire_by_mode ?c p ?fl1), ?c, p_reduce p])
      (mode_decision ms0 ?f ?s1 = None \<and> (?f \<and> taker_flags ms0 mod 4 = SELF_TRADE_BEHAVIOR_REDUCE))"
    by (rule bval_eq [OF bval_test [OF fl2, where bs = "[?f, taker_flags ms0 mod 4 = SELF_TRADE_BEHAVIOR_REDUCE]"]]) (use f pt in auto)
  from realises_reduce_step [OF t m2 reduce pt(1) mside price]
  show ?thesis
    unfolding self_trade_same_account_def account_step_def Let_def prod.case fst_conv snd_conv reduce_when_open .
qed

text \<open>The maker order is gone if it has expired or if its owner's dead man's switch has gone off.\<close>

definition switch_off :: "match_env \<Rightarrow> nat \<Rightarrow> bool" where
  "switch_off env now \<longleftrightarrow> uval (acc_cancel_all_time (me_maker env)) \<noteq> 0 \<and> uval (acc_cancel_all_time (me_maker env)) \<le> now"

lemma implements_maker_order_gone:
  assumes p: "parties_are ms (uval timestamp) p" and fl: "flags_are fl s"
    and times: "uval (acc_cancel_all_time (me_maker env)) < 2 ^ TIMESTAMP_BITS" "uval timestamp < 2 ^ TIMESTAMP_BITS"
  shows "implements (maker_order_gone env p timestamp fl)
    (\<lambda>fl'. flags_are fl' (first_of s (switch_off env (uval timestamp) \<or> maker_expired ms (uval timestamp)) (Stop False True)))"
  unfolding maker_order_gone_def
proof (rule implements_bind [OF implements_should_dms_be_triggered [OF times]], rule implements_return)
  fix d assume "bval d (uval (acc_cancel_all_time (me_maker env)) \<noteq> 0 \<and> uval (acc_cancel_all_time (me_maker env)) \<le> uval timestamp)"
  from flags_test_one(2) [OF fl bval_or [OF this parties_areD(8) [OF p]]]
  show "flags_are (cancel_maker_if (b_and (update_status fl) (b_or d (p_maker_expired p))) fl)
      (first_of s (switch_off env (uval timestamp) \<or> maker_expired ms (uval timestamp)) (Stop False True))"
    by (simp add: switch_off_def)
qed

definition same_master :: "match_env \<Rightarrow> match_state \<Rightarrow> bool" where
  "same_master env ms \<longleftrightarrow> 4 \<le> taker_flags ms \<and> uval (acc_master_account_index (me_maker env)) = uval (acc_master_account_index (me_taker env)) \<and>
    uval (generic_field_1 (ms_register ms)) = 0"

lemma implements_self_trade_same_master:
  assumes p: "parties_are ms now p" and fl: "flags_are fl s"
  shows "implements (self_trade_same_master env p fl) (\<lambda>fl'. flags_are fl' (mode_decision ms (same_master env ms) s))"
  unfolding self_trade_same_master_def
proof (rule implements_bind [OF implements_is_equal], rule implements_return, rule flags_are_expire [OF p fl])
  note pt = parties_areD [OF p]
  fix q assume "bval q (tval (acc_master_account_index (me_maker env)) = tval (acc_master_account_index (me_taker env)))"
  then have "bval (multi_and [self_trade_equality_mode (p_taker_flags p), q, p_no_integrator p])
      (\<forall>b\<in>set [4 \<le> taker_flags ms, uval (acc_master_account_index (me_maker env)) = uval (acc_master_account_index (me_taker env)),
        uval (generic_field_1 (ms_register ms)) = 0]. b)"
    by (intro bval_multi_and) (use pt in \<open>simp_all add: to_canonical_inject\<close>)
  then show "bval (multi_and [self_trade_equality_mode (p_taker_flags p), q, p_no_integrator p]) (same_master env ms)"
    by (rule bval_eq) (auto simp: same_master_def)
qed

section \<open>The maker account\<close>

definition parties_differ :: "match_env \<Rightarrow> match_state \<Rightarrow> bool" where
  "parties_differ env ms \<longleftrightarrow> uval (ao_owner_account_index (ms_account_order ms)) = uval (acc_account_index (me_maker env)) \<and>
    uval (acc_account_index (me_taker env)) \<noteq> uval (acc_account_index (me_maker env))"

definition maker_reduces_nothing :: "match_env \<Rightarrow> bool \<Rightarrow> int \<Rightarrow> bool \<Rightarrow> bool" where
  "maker_reduces_nothing env mside z reduce_only \<longleftrightarrow> perps_market env \<and> misdirected z mside \<and> reduce_only"

lemma realises_match_parties:
  assumes t: "tests_are env ms0 ask t" and fl: "flags_are fl s" and ms: "same_orders ms0 ms"
    and mside: "bval (ao_is_ask (ms_account_order ms0)) mside" and ro: "bval (ao_reduce_only (ms_account_order ms0)) ro"
    and z: "sval (bi_sign (position (me_maker_position env))) z"
  shows "realises (match_parties env t ms fl) (s = None \<longrightarrow> parties_differ env ms0)
    (\<lambda>fl'. flags_are fl' (first_of (first_of s (uval (pending_time_in_force (ms_register ms0)) = POST_ONLY) (Stop True False))
      (maker_reduces_nothing env mside z ro) (Stop False True)))"
proof -
  note same = same_ordersD [OF ms] and tests = tests_areD [OF t] and upd = flags_areD(1) [OF fl]
  note fl1 = flags_test_one(1) [OF fl tests(7)]
  show ?thesis
    unfolding match_parties_def Let_def same
  proof (rule realises_when, rule realises_bind [OF realises_conditional_assert_eq [OF upd]], rule realises_bind [OF realises_conditional_assert_not_eq [OF upd]],
      rule realises_after [OF implements_misdirected [OF z mside]], rule realises_return, goal_cases)
    case (1 _ _ b)
    have "list_all2 bval [t_perps t, update_status (cancel_taker_if (b_and (update_status fl) (t_post_only t)) fl), b, ao_reduce_only (ms_account_order ms0)]
        [perps_market env, first_of s (uval (pending_time_in_force (ms_register ms0)) = POST_ONLY) (Stop True False) = None, misdirected z mside, ro]"
      using tests(1) flags_areD(1) [OF fl1] 1 ro by simp
    from bval_multi_and [OF this]
    have "bval (multi_and [t_perps t, update_status (cancel_taker_if (b_and (update_status fl) (t_post_only t)) fl), b, ao_reduce_only (ms_account_order ms0)])
        (first_of s (uval (pending_time_in_force (ms_register ms0)) = POST_ONLY) (Stop True False) = None \<and> maker_reduces_nothing env mside z ro)"
      by (rule bval_eq [OF _ ]) (auto simp: maker_reduces_nothing_def)
    from flags_are_step(2) [OF fl1 this] show ?case .
  qed (auto simp: parties_differ_def to_canonical_inject)
qed

section \<open>The maker order is the one of the leaf\<close>

lemma tval_le_sum_bytes: "tval (le_sum_bytes bs) = of_nat (le_value 256 (map uval bs))"
proof (cases bs rule: rev_cases)
  case (snoc cs c)
  have "tval (foldl (\<lambda>acc byte. b_mul_add acc (Const 256) byte) a ls) = foldl (\<lambda>acc d. acc * 256 + d) (tval a) (map tval ls)" for a ls
    by (induction ls arbitrary: a) (simp_all add: tval_simps)
  then have "tval (le_sum_bytes bs) = foldl (\<lambda>acc d. acc * 256 + d) 0 (rev (map tval bs))"
    by (simp add: le_sum_bytes_def snoc rev_map)
  then show ?thesis by (simp add: le_value_foldl_rev' of_nat_le_value comp_def)
qed (simp add: le_sum_bytes_def)

text \<open>Eight bytes do not fix the number; the two numbers they may stand for differ by the order of the field.\<close>

definition index_digits :: "target \<Rightarrow> target \<times> target \<Rightarrow> bool" where
  "index_digits idx = (\<lambda>(market, nonce). \<exists>v < 2 ^ 64. of_nat v = tval idx \<and> tval market = of_nat (v div 2 ^ 48) - 1 \<and> tval nonce = of_nat (v mod 2 ^ 48))"

lemma order_index_bytes:
  assumes "length bs = 8" "\<forall>b\<in>set bs. b < (256::nat)"
  shows "le_value 256 bs < 2 ^ 64" "le_value 256 (drop 6 bs) = le_value 256 bs div 2 ^ 48" "le_value 256 (take 6 bs) = le_value 256 bs mod 2 ^ 48"
proof -
  have "le_value 256 bs < 256 ^ length bs" by (rule le_value_bound [OF assms(2)])
  then show "le_value 256 bs < 2 ^ 64" by (simp add: assms(1))
  have small: "\<forall>b\<in>set (take 6 bs). b < 256" using assms(2) by (auto dest: in_set_takeD)
  have lt: "le_value 256 (take 6 bs) < 2 ^ 48" using le_value_bound [OF small] assms(1) by simp
  have "le_value 256 bs = le_value 256 (take 6 bs) + 2 ^ 48 * le_value 256 (drop 6 bs)"
    using le_value_append [of "256::nat" "take 6 bs" "drop 6 bs"] assms(1) by simp
  then show "le_value 256 (drop 6 bs) = le_value 256 bs div 2 ^ 48" "le_value 256 (take 6 bs) = le_value 256 bs mod 2 ^ 48"
    using lt by simp_all
qed

lemma order_index_bytes_count: "(ORDER_NONCE_BITS + MARKET_INDEX_BITS + 7) div 8 = 8" "ORDER_NONCE_BITS div 8 = 6"
  by (simp_all add: ORDER_NONCE_BITS_def MARKET_INDEX_BITS_def)

lemma order_index_parts:
  "sound (get_market_index_and_order_nonce_from_order_index idx) (index_digits idx)"
  "complete (get_market_index_and_order_nonce_from_order_index idx)
    (\<lambda>(market, nonce). tval market = of_nat (uval idx div 2 ^ 48) - 1 \<and> index_digits idx (market, nonce))"
proof -
  have parts: "tval (b_sub (le_sum_bytes (drop 6 bs)) (Const 1)) = of_nat (v div 2 ^ 48) - 1"
      "index_digits idx (b_sub (le_sum_bytes (drop 6 bs)) (Const 1), le_sum_bytes (take 6 bs))"
    if "length bs = 8" "byte_decomposition (map uval bs) (tval idx)" "le_value 256 (map uval bs) = v" for bs v
  proof -
    have d: "\<forall>b\<in>set (map uval bs). b < 256" "of_nat (le_value 256 (map uval bs)) = tval idx" using that(2) by (simp_all add: byte_decomposition_def)
    note parts = order_index_bytes [OF _ d(1)]
    show "tval (b_sub (le_sum_bytes (drop 6 bs)) (Const 1)) = of_nat (v div 2 ^ 48) - 1"
      using parts that(1) unfolding that(3) [symmetric] by (simp add: tval_simps tval_le_sum_bytes drop_map)
    then show "index_digits idx (b_sub (le_sum_bytes (drop 6 bs)) (Const 1), le_sum_bytes (take 6 bs))"
      unfolding index_digits_def prod.case using parts that(1) d(2) unfolding that(3)
      by (intro exI [of _ v]) (simp add: tval_le_sum_bytes take_map)
  qed
  show "sound (get_market_index_and_order_nonce_from_order_index idx) (index_digits idx)"
    unfolding get_market_index_and_order_nonce_from_order_index_def order_index_bytes_count Let_def
    by (rule sound_bind [OF sound_split_bytes]) (auto intro!: sound_return parts)
  have "256 ^ 8 > uval idx" using less_trans [OF to_canonical_lt [of "tval idx"], of "2 ^ 64"] by simp
  then have honest: "byte_decomposition (le_digits 256 8 (uval idx) @ replicate (8 - 8) 0) (tval idx)" "le_value 256 (le_digits 256 8 (uval idx)) = uval idx"
    using le_digits_lt [of 256] by (auto simp: byte_decomposition_def le_value_digits)
  show "complete (get_market_index_and_order_nonce_from_order_index idx)
      (\<lambda>(market, nonce). tval market = of_nat (uval idx div 2 ^ 48) - 1 \<and> index_digits idx (market, nonce))"
    unfolding get_market_index_and_order_nonce_from_order_index_def order_index_bytes_count Let_def
  proof (rule complete_bind [OF complete_split_bytes [OF order_refl _ honest(1)]])
    fix ts assume ts: "map uval ts = le_digits 256 8 (uval idx)"
    have len: "length ts = 8" using arg_cong [OF ts, of length] by simp
    then show "complete (circ_return (b_sub (le_sum_bytes (drop 6 ts)) (Const 1), le_sum_bytes (take 6 ts)))
        (\<lambda>(market, nonce). tval market = of_nat (uval idx div 2 ^ 48) - 1 \<and> index_digits idx (market, nonce))"
      using parts [of ts "uval idx"] honest ts by (intro complete_return) simp
  qed simp
qed

definition maker_agrees :: "match_env \<Rightarrow> match_state \<Rightarrow> bool" where
  "maker_agrees env ms \<longleftrightarrow> uval (price_index (ms_order ms)) = uval (ao_price (ms_account_order ms)) \<and>
    uval (nonce_index (ms_order ms)) = uval (ao_nonce (ms_account_order ms)) \<and>
    uval (ao_index_0 (ms_account_order ms)) div 2 ^ 48 = uval (market_index (me_market env)) + 1"

lemma realises_match_maker:
  assumes u: "bval update u" and market: "uval (market_index (me_market env)) < 2 ^ MARKET_INDEX_BITS"
  shows "realises (match_maker env ms update) (u \<longrightarrow> maker_agrees env ms) (\<lambda>_. True)"
proof -
  let ?idx = "ao_index_0 (ms_account_order ms)" and ?mi = "market_index (me_market env)"
  have mi: "of_nat (uval ?mi) = tval ?mi" by simp
  have small: "uval ?mi + 1 < p_nat" using market by (simp add: MARKET_INDEX_BITS_def)
  have eq: "of_nat n - 1 = tval ?mi \<longleftrightarrow> n = uval ?mi + 1" if "n < 2 ^ 32" for n
  proof -
    have "of_nat n - 1 = tval ?mi \<longleftrightarrow> (of_nat n :: gf) = of_nat (uval ?mi + 1)" unfolding of_nat_add mi by (auto simp: algebra_simps)
    then show ?thesis using gf_of_nat_inj [of n "uval ?mi + 1"] small that by simp
  qed
  have idx: "uval ?idx < 2 ^ 64" using less_trans [OF to_canonical_lt [of "tval ?idx"], of "2 ^ 64"] by simp
  have bounds: "v div 2 ^ 48 < 2 ^ 32" if "v < 2 ^ 64" for v :: nat using that by (simp add: less_mult_imp_div_less)
  have exact: "v = uval ?idx" if "v < 2 ^ 64" "of_nat v = tval ?idx" "v div 2 ^ 48 = uval ?mi + 1" for v
  proof -
    have "v < (v div 2 ^ 48 + 1) * 2 ^ 48" using dividend_less_div_times [of "2 ^ 48" v] by simp
    also have "\<dots> \<le> (2 ^ 12 + 1) * 2 ^ 48" unfolding that(3) using market by (intro mult_le_mono1) (simp add: MARKET_INDEX_BITS_def)
    finally have "v < p_nat" by simp
    then show ?thesis using to_canonical_of_nat_small [of v] that(2) by simp
  qed
  have index: "realises (circ_bind (get_market_index_and_order_nonce_from_order_index ?idx) (\<lambda>(market, _). conditional_assert_eq update market ?mi))
      (u \<longrightarrow> uval ?idx div 2 ^ 48 = uval ?mi + 1) (\<lambda>_. True)"
  proof (rule realises_choose [OF order_index_parts(1), where P' = "\<lambda>x. u \<longrightarrow> tval (fst x) = tval ?mi"], goal_cases)
    case 1
    then show ?case using eq [OF bounds [OF idx]] by (intro complete_weaken [OF order_index_parts(2)]) auto
  next
    case (2 x)
    then show ?case using realises_conditional_assert_eq [OF u, of "fst x" ?mi] by (simp add: case_prod_unfold)
  next
    case (3 x)
    then obtain v where v: "v < 2 ^ 64" "of_nat v = tval ?idx" "tval (fst x) = of_nat (v div 2 ^ 48) - 1" by (auto simp: index_digits_def)
    show ?case
    proof
      assume u
      with 3(2) v(3) have "v div 2 ^ 48 = uval ?mi + 1" using eq [OF bounds [OF v(1)]] by (simp only: simp_thms)
      with exact [OF v(1,2)] show "uval ?idx div 2 ^ 48 = uval ?mi + 1" by (simp only:)
    qed
  qed
  show ?thesis
    unfolding match_maker_def Let_def
    by (rule realises_when, rule realises_bind [OF realises_conditional_assert_eq [OF u]], rule realises_bind [OF realises_conditional_assert_eq [OF u]],
        rule index) (auto simp: maker_agrees_def to_canonical_inject)
qed

end
