(* ===== verification/Match_Cascade.thy ===== *)
theory Match_Cascade
  imports Self_Trade Impact_Price
begin

text \<open>
  The size of a trade and the whole decision of the matching (\<open>execute_matching\<close> of \<open>circuit/src/matching_engine.rs\<close>
  up to the settlement): what a pending order does with the leaf of the book the prover presents.
\<close>

section \<open>The size of the trade\<close>

definition reduce_only_amount :: "match_env \<Rightarrow> target \<Rightarrow> target \<Rightarrow> match_state \<Rightarrow> match_flags \<Rightarrow> target \<Rightarrow> target circ" where
  "reduce_only_amount env taker_reduce_only abs_taker ms fl trade_size =
    circ_bind (biguint_u16_to_target (bi_abs (position (me_maker_position env)))) (\<lambda>abs_maker.
    circ_bind (is_lt abs_maker trade_size 64) (\<lambda>maker_lt.
    let trade_size = select (multi_and [update_status fl, ao_reduce_only (ms_account_order ms), maker_lt]) abs_maker trade_size in
    circ_bind (is_lt abs_taker trade_size 64) (\<lambda>taker_lt.
    circ_return (select (multi_and [update_status fl, taker_reduce_only, taker_lt]) abs_taker trade_size))))"

definition slippage_amount ::
  "match_tests \<Rightarrow> match_state \<Rightarrow> match_flags \<Rightarrow> target \<Rightarrow> (match_flags \<times> target \<times> target) circ" where
  "slippage_amount t ms fl trade_size =
    (let r = ms_register ms;
         flag = b_and (update_status fl) (t_market t);
         ask_taker_with_slippage = b_and (pending_is_ask r) (t_price_gt t);
         bid_taker_with_slippage = b_and (b_not (pending_is_ask r)) (t_price_lt t);
         is_slippage = b_or ask_taker_with_slippage bid_taker_with_slippage;
         taker_minus_maker_price = b_sub (pending_price r) (price_index (ms_order ms));
         price_diff_multiplier = select ask_taker_with_slippage (Const 1) (Const (- 1));
         price_diff = b_mul taker_minus_maker_price price_diff_multiplier in
     circ_bind (conditional_div_rem is_slippage (generic_field_0 r) price_diff ORDER_PRICE_BITS) (\<lambda>(allowed, _).
     let allowed = select is_slippage allowed trade_size in
     circ_bind (is_not_equal allowed trade_size) (\<lambda>allowed_differs.
     circ_bind (min_target [allowed, trade_size] ORDER_SIZE_BITS) (\<lambda>new_amount.
     let trade_size = select flag new_amount trade_size in
     circ_bind (is_zero trade_size) (\<lambda>is_trade_empty.
     let fl = cancel_taker_if (b_and flag is_trade_empty) fl in
     circ_bind (is_equal trade_size allowed) (\<lambda>amount_eq_allowed.
     let is_too_much_slippage = multi_and [is_slippage, amount_eq_allowed, allowed_differs] in
     circ_return (fl, trade_size, select_bool flag is_too_much_slippage (Const 0))))))))"

text \<open>The fee goes to the insurance fund or to the treasury.\<close>

definition TREASURY_ACCOUNT_INDEX :: nat where "TREASURY_ACCOUNT_INDEX = 0"

definition match_fee_account :: "account_target \<Rightarrow> match_flags \<Rightarrow> unit circ" where
  "match_fee_account fee_account fl =
    circ_bind (is_equal_constant (acc_account_type fee_account) INSURANCE_FUND_ACCOUNT_TYPE) (\<lambda>is_insurance_fund.
    circ_bind (is_equal_constant (acc_account_index fee_account) TREASURY_ACCOUNT_INDEX) (\<lambda>is_treasury.
    conditional_assert_true (update_status fl) (b_or is_insurance_fund is_treasury)))"

section \<open>The decision\<close>

definition match_decision ::
  "match_env \<Rightarrow> account_target \<Rightarrow> target \<Rightarrow> target \<Rightarrow> match_state \<Rightarrow> (match_flags \<times> match_state \<times> target \<times> target) circ" where
  "match_decision env fee_account timestamp matching_engine_flag ms =
    circ_bind (match_prepare env ms) (\<lambda>t.
    let fl = \<lparr>update_status = matching_engine_flag, cancel_taker_order = Const 0, cancel_maker_order = Const 0, insert_taker_order = Const 0\<rparr> in
    circ_bind (match_opening env ms t fl) (\<lambda>(fl, taker_reduce_only, abs_taker).
    circ_bind (match_maker env ms (update_status fl)) (\<lambda>_.
    circ_bind (party_prepare ms timestamp) (\<lambda>p.
    circ_bind (self_trade_with_fee env t p (fl, ms)) (\<lambda>(fl, ms).
    circ_bind (self_trade_same_account env t p (fl, ms)) (\<lambda>(fl, ms).
    circ_bind (maker_order_gone env p timestamp fl) (\<lambda>fl.
    circ_bind (self_trade_same_master env p fl) (\<lambda>fl.
    circ_bind (match_parties env t ms fl) (\<lambda>fl.
    circ_bind (reduce_only_amount env taker_reduce_only abs_taker ms fl (p_amount p)) (\<lambda>trade_size.
    circ_bind (slippage_amount t ms fl trade_size) (\<lambda>(fl, trade_size, too_much_slippage).
    circ_bind (match_fee_account fee_account fl) (\<lambda>_.
    circ_return (fl, ms, trade_size, too_much_slippage)))))))))))))"

section \<open>The size of the trade\<close>

definition capped :: "bool \<Rightarrow> nat \<Rightarrow> nat \<Rightarrow> nat" where
  "capped c bound a = (if c then min bound a else a)"

lemma implements_reduce_only_amount:
  assumes fl: "flags_are fl s" and ro: "bval (ao_reduce_only (ms_account_order ms)) mro" "bval taker_ro tro"
    and z: "bigz16 (position (me_maker_position env)) 4 z" "\<bar>z\<bar> < 2 ^ 60" and taker: "uval abs_taker = y" and a: "uval a = w"
  shows "implements (reduce_only_amount env taker_ro abs_taker ms fl a)
    (\<lambda>r. uval r = capped (s = None \<and> tro) y (capped (s = None \<and> mro) (nat \<bar>z\<bar>) w))"
proof -
  note u = flags_areD(1) [OF fl]
  have lt: "bval (multi_and [update_status fl, c, lt]) (s = None \<and> cb \<and> v < w)" if "bval c cb" "bval lt (v < w)" for c cb lt and v w :: nat
    by (rule bval_eq [OF bval_multi_and [where bs = "[s = None, cb, v < w]"]]) (use u that in simp_all)
  have cap: "uval (select (multi_and [update_status fl, c, lt]) x a) = capped (s = None \<and> cb) v w"
    if "bval c cb" "bval lt (uval x < uval a)" "uval x = v" "uval a = w" for c cb lt x a v w
    using uval_select [OF lt [OF that(1), of lt v w]] that by (simp add: capped_def)
  show ?thesis
    unfolding reduce_only_amount_def Let_def
  proof (rule implements_bind [OF uval_biguint_u16_to_target [OF z]], rule implements_bind [OF implements_is_lt [OF cmp_ok_64 cmp_ok_64]],
      rule implements_bind [OF implements_is_lt [OF cmp_ok_64 cmp_ok_64]], rule implements_return, goal_cases)
    case (1 m lt lt')
    show ?case by (rule cap [OF ro(2) 1(3) taker cap [OF ro(1) 1(2,1) a]])
  qed
qed

definition slips :: "bool \<Rightarrow> nat \<Rightarrow> nat \<Rightarrow> bool" where
  "slips ask pending leaf \<longleftrightarrow> (if ask then leaf < pending else pending < leaf)"

text \<open>The size a slippage of \<open>gf\<close> in total allows, and the bound under which the division is exact.\<close>

definition allowed_size :: "bool \<Rightarrow> nat \<Rightarrow> nat \<Rightarrow> nat \<Rightarrow> nat \<Rightarrow> nat" where
  "allowed_size ask pending leaf budget a = (if slips ask pending leaf then budget div (if ask then pending - leaf else leaf - pending) else a)"

definition slippage_fits :: "bool \<Rightarrow> nat \<Rightarrow> nat \<Rightarrow> nat \<Rightarrow> bool" where
  "slippage_fits ask pending leaf budget \<longleftrightarrow> (slips ask pending leaf \<longrightarrow>
    (let d = (if ask then pending - leaf else leaf - pending) in budget * d + d \<le> p_nat \<and> budget div d < 2 ^ ORDER_SIZE_BITS))"

lemma implements_slippage_amount:
  fixes ms0 ms :: match_state
  defines "pending \<equiv> uval (pending_price (ms_register ms0))" and "leaf \<equiv> uval (price_index (ms_order ms0))"
    and "budget \<equiv> uval (generic_field_0 (ms_register ms0))" and "kind \<equiv> market_kind (uval (pending_type (ms_register ms0)))"
  assumes t: "tests_are env ms0 ask t" and fl: "flags_are fl s" and ms: "same_orders ms0 ms" and ask: "bval (pending_is_ask (ms_register ms0)) ask"
    and price: "pending < 2 ^ ORDER_PRICE_BITS" "leaf < 2 ^ ORDER_PRICE_BITS" and fits: "slippage_fits ask pending leaf budget"
    and a: "uval a = w" "w < 2 ^ ORDER_SIZE_BITS"
  defines "w' \<equiv> capped (s = None \<and> kind) (allowed_size ask pending leaf budget w) w"
  shows "implements (slippage_amount t ms fl a) (\<lambda>(fl', a', slip).
    flags_are fl' (first_of s (kind \<and> w' = 0) (Stop True False)) \<and> uval a' = w' \<and>
    bval slip (s = None \<and> kind \<and> slips ask pending leaf \<and> w' = allowed_size ask pending leaf budget w \<and> allowed_size ask pending leaf budget w \<noteq> w))"
proof -
  note tests = tests_areD [OF t] and same = same_ordersD [OF ms] and u = flags_areD(1) [OF fl]
  let ?r = "ms_register ms0" and ?l = "price_index (ms_order ms0)"
  define as where "as = b_and (pending_is_ask ?r) (t_price_gt t)"
  define bs where "bs = b_and (b_not (pending_is_ask ?r)) (t_price_lt t)"
  define d where "d = b_mul (b_sub (pending_price ?r) ?l) (select as (Const 1) (Const (- 1)))"
  let ?slip = "slips ask pending leaf" and ?d = "if ask then pending - leaf else leaf - pending"
  have as: "bval as (ask \<and> leaf < pending)" unfolding as_def pending_def leaf_def by (rule bval_and [OF ask tests(9)])
  have bs: "bval bs (\<not> ask \<and> pending < leaf)" unfolding bs_def pending_def leaf_def by (rule bval_and [OF bval_not [OF ask] tests(10)])
  have slip: "bval (b_or as bs) ?slip" by (rule bval_eq [OF bval_or [OF as bs]]) (auto simp: slips_def)
  have d: "uval d = ?d" if ?slip
  proof -
    have "tval d = of_nat ?d"
      using that unfolding d_def slips_def by (auto simp: tval_simps tval_select [OF as] pending_def leaf_def of_nat_diff split: if_splits)
    then show ?thesis by (rule uval_of_nat) (use price in \<open>auto simp: ORDER_PRICE_BITS_def\<close>)
  qed
  have div: "implements (conditional_div_rem (b_or as bs) (generic_field_0 ?r) d ORDER_PRICE_BITS) (\<lambda>x. ?slip \<longrightarrow> is_quotient (generic_field_0 ?r) d x)"
  proof (rule implements_conditional_div_rem [OF slip])
    assume s: ?slip
    show "division_fits (generic_field_0 ?r) d" using fits s unfolding division_fits_def d [OF s] by (simp add: slippage_fits_def Let_def budget_def)
    show "uval d \<le> 2 ^ ORDER_PRICE_BITS" unfolding d [OF s] using price by auto
  qed (simp add: ORDER_PRICE_BITS_def)
  let ?al = "allowed_size ask pending leaf budget w" and ?on = "s = None \<and> kind"
  have on: "bval (b_and (update_status fl) (t_market t)) ?on" unfolding kind_def by (rule bval_and [OF u tests(4)])
  have al: "uval (select (b_or as bs) q a) = ?al" if "?slip \<longrightarrow> is_quotient (generic_field_0 ?r) d (q, x)" for q x
    using that d by (simp add: uval_select [OF slip] allowed_size_def is_quotient_def a(1) budget_def)
  have al_fits: "?al < 2 ^ ORDER_SIZE_BITS" using fits a(2) by (auto simp: allowed_size_def slippage_fits_def Let_def)
  have least: "implements (min_target [al, a] ORDER_SIZE_BITS) (\<lambda>r. uval r = min ?al w)" if "uval al = ?al" for al
    by (rule implements_weaken [OF implements_min_max_target(1)])
      (use al_fits a that in \<open>auto simp: ORDER_SIZE_BITS_def ORDER_BASE_AMOUNT_BITS_def intro: cmp_okI\<close>)
  show ?thesis
    unfolding slippage_amount_def Let_def same as_def [symmetric] bs_def [symmetric] d_def [symmetric]
  proof (rule implements_bind [OF div], unfold split_paired_all prod.case, rule implements_bind [OF implements_is_not_equal], rule implements_bind [OF least],
      rule al, assumption, rule implements_bind [OF implements_is_zero], rule implements_bind [OF implements_is_equal], rule implements_return, unfold prod.case, goal_cases)
    case (1 q x ne n z e)
    note q = al [OF 1(1)]
    have w': "uval (select (b_and (update_status fl) (t_market t)) n a) = w'"
      unfolding w'_def capped_def using 1(3) a(1) by (simp add: uval_select [OF on])
    have z: "bval z (w' = 0)" using 1(4) unfolding w' .
    have e: "bval e (w' = ?al)" using 1(5) unfolding to_canonical_inject [symmetric] w' q .
    have ne: "bval ne (?al \<noteq> w)" using 1(2) unfolding to_canonical_inject [symmetric] q a(1) .
    have flag: "bval (b_and (b_and (update_status fl) (t_market t)) z) (s = None \<and> kind \<and> w' = 0)"
      by (rule bval_eq [OF bval_and [OF on z]]) auto
    have "bval (multi_and [b_or as bs, e, ne]) (\<forall>b\<in>set [?slip, w' = ?al, ?al \<noteq> w]. b)"
      using slip e ne by (intro bval_multi_and) simp_all
    from bval_select_flag [OF on this bval_Const(2)]
    have "bval (select_bool (b_and (update_status fl) (t_market t)) (multi_and [b_or as bs, e, ne]) (Const 0))
        (?on \<and> ?slip \<and> w' = ?al \<and> ?al \<noteq> w)" by (rule bval_eq) auto
    then show ?case using flags_are_step(1) [OF fl flag] w' by simp
  qed
qed

text \<open>
  The division is only constrained in the field. Without the bound \<open>slippage_fits\<close> the quotient is not determined; what
  remains is that it is at most the dividend.
\<close>

lemma sound_slippage_amount:
  fixes ms0 ms :: match_state
  defines "pending \<equiv> uval (pending_price (ms_register ms0))" and "leaf \<equiv> uval (price_index (ms_order ms0))"
    and "budget \<equiv> uval (generic_field_0 (ms_register ms0))" and "kind \<equiv> market_kind (uval (pending_type (ms_register ms0)))"
  assumes t: "tests_are env ms0 ask t" and fl: "flags_are fl s" and ms: "same_orders ms0 ms" and ask: "bval (pending_is_ask (ms_register ms0)) ask"
    and price: "pending < 2 ^ ORDER_PRICE_BITS" "leaf < 2 ^ ORDER_PRICE_BITS" and a: "uval a = w" "w < 2 ^ ORDER_SIZE_BITS"
  shows "sound (slippage_amount t ms fl a) (\<lambda>(fl', a', slip). (\<exists>c. flags_are fl' (first_of s c (Stop True False))) \<and>
    (budget < 2 ^ ORDER_SIZE_BITS \<longrightarrow> uval a' \<le> w))"
proof -
  note tests = tests_areD [OF t] and same = same_ordersD [OF ms] and u = flags_areD(1) [OF fl]
  let ?r = "ms_register ms0" and ?l = "price_index (ms_order ms0)"
  define as where "as = b_and (pending_is_ask ?r) (t_price_gt t)"
  define bs where "bs = b_and (b_not (pending_is_ask ?r)) (t_price_lt t)"
  define d where "d = b_mul (b_sub (pending_price ?r) ?l) (select as (Const 1) (Const (- 1)))"
  let ?slip = "slips ask pending leaf" and ?on = "s = None \<and> kind"
  have as: "bval as (ask \<and> leaf < pending)" unfolding as_def pending_def leaf_def by (rule bval_and [OF ask tests(9)])
  have bs: "bval bs (\<not> ask \<and> pending < leaf)" unfolding bs_def pending_def leaf_def by (rule bval_and [OF bval_not [OF ask] tests(10)])
  have slip: "bval (b_or as bs) ?slip" by (rule bval_eq [OF bval_or [OF as bs]]) (auto simp: slips_def)
  have d: "uval d \<noteq> 0" if ?slip
  proof -
    have "tval d = of_nat (if ask then pending - leaf else leaf - pending)"
      using that unfolding d_def slips_def by (auto simp: tval_simps tval_select [OF as] pending_def leaf_def of_nat_diff split: if_splits)
    then have "uval d = (if ask then pending - leaf else leaf - pending)"
      by (rule uval_of_nat) (use price in \<open>auto simp: ORDER_PRICE_BITS_def\<close>)
    then show ?thesis using that by (auto simp: slips_def split: if_splits)
  qed
  have on: "bval (b_and (update_status fl) (t_market t)) ?on" unfolding kind_def by (rule bval_and [OF u tests(4)])
  have bound: "uval (select (b_or as bs) q a) < 2 ^ ORDER_SIZE_BITS"
    if "division_accepts ?slip (generic_field_0 ?r) d ORDER_PRICE_BITS q x" "budget < 2 ^ ORDER_SIZE_BITS" for q x
    using that d a unfolding uval_select [OF slip] by (cases ?slip) (auto simp: division_accepts_def budget_def)
  have least: "sound (min_target [al, a] ORDER_SIZE_BITS) (\<lambda>r. budget < 2 ^ ORDER_SIZE_BITS \<longrightarrow> uval r \<le> w)"
    if "budget < 2 ^ ORDER_SIZE_BITS \<Longrightarrow> uval al < 2 ^ ORDER_SIZE_BITS" for al
  proof (cases "budget < 2 ^ ORDER_SIZE_BITS")
    case True
    have "implements (min_target [al, a] ORDER_SIZE_BITS) (\<lambda>r. uval r = Min (uval ` set [al, a]))"
      by (rule implements_min_max_target(1)) (use that True a in \<open>auto simp: ORDER_SIZE_BITS_def ORDER_BASE_AMOUNT_BITS_def intro: cmp_okI\<close>)
    from sound_weaken [OF implements_sound [OF this]] a(1) show ?thesis by simp
  qed (simp add: sound_def)
  show ?thesis
    unfolding slippage_amount_def Let_def same as_def [symmetric] bs_def [symmetric] d_def [symmetric]
  proof (rule sound_bind [OF conditional_div_rem_accepts(1) [OF slip]], unfold split_paired_all prod.case,
      rule sound_bind [OF implements_sound [OF implements_is_not_equal]], rule sound_bind [OF least], rule bound, assumption, assumption,
      rule sound_bind [OF implements_sound [OF implements_is_zero]], rule sound_bind [OF implements_sound [OF implements_is_equal]], rule sound_return,
      unfold prod.case, goal_cases)
    case (1 q x ne n z e)
    have "bval (b_and (b_and (update_status fl) (t_market t)) z) (s = None \<and> kind \<and> uval (select (b_and (update_status fl) (t_market t)) n a) = 0)"
      by (rule bval_eq [OF bval_and [OF on 1(4)]]) auto
    from flags_are_step(1) [OF fl this] show ?case
      using 1(3) a(1) by (auto simp: uval_select [OF on])
  qed
qed

lemma realises_match_fee_account:
  assumes "flags_are fl s"
  shows "realises (match_fee_account fee fl)
    (s = None \<longrightarrow> uval (acc_account_type fee) = INSURANCE_FUND_ACCOUNT_TYPE \<or> uval (acc_account_index fee) = TREASURY_ACCOUNT_INDEX) (\<lambda>_. True)"
proof -
  have codes: "INSURANCE_FUND_ACCOUNT_TYPE < p_nat" "TREASURY_ACCOUNT_INDEX < p_nat" by (simp_all add: INSURANCE_FUND_ACCOUNT_TYPE_def TREASURY_ACCOUNT_INDEX_def)
  show ?thesis
    unfolding match_fee_account_def
    by (rule realises_after [OF implements_is_equal_constant [OF codes(1)]], rule realises_after [OF implements_is_equal_constant [OF codes(2)]],
        rule realises_conditional_assert_true [OF flags_areD(1) [OF assms] bval_or])
qed

section \<open>The decision as a whole\<close>

text \<open>What the matching relies on: flags are flags, numbers fit the widths they were checked for.\<close>

record match_reading =
  taker_ask :: bool
  maker_ask :: bool
  maker_reduces :: bool
  taker_size :: int
  maker_size :: int
  taker_assets :: "asset_state list"

definition match_reads :: "match_env \<Rightarrow> match_state \<Rightarrow> nat \<Rightarrow> match_reading \<Rightarrow> bool" where
  "match_reads env ms now v \<longleftrightarrow>
    bval (pending_is_ask (ms_register ms)) (taker_ask v) \<and> bval (ao_is_ask (ms_account_order ms)) (maker_ask v) \<and>
    bval (ao_reduce_only (ms_account_order ms)) (maker_reduces v) \<and>
    uval (pending_price (ms_register ms)) < 2 ^ ORDER_PRICE_BITS \<and> uval (price_index (ms_order ms)) < 2 ^ ORDER_PRICE_BITS \<and>
    uval (ao_price (ms_account_order ms)) < 2 ^ 32 \<and> uval (pending_size (ms_register ms)) < 2 ^ ORDER_SIZE_BITS \<and>
    uval (ao_remaining_base_amount (ms_account_order ms)) < 2 ^ ORDER_SIZE_BITS \<and> uval (ao_expiry (ms_account_order ms)) < 2 ^ TIMESTAMP_BITS \<and>
    now < 2 ^ TIMESTAMP_BITS \<and> uval (acc_cancel_all_time (me_maker env)) < 2 ^ TIMESTAMP_BITS \<and>
    uval (market_index (me_market env)) < 2 ^ MARKET_INDEX_BITS \<and>
    bigz16 (position (me_taker_position env)) 4 (taker_size v) \<and> \<bar>taker_size v\<bar> < 2 ^ 60 \<and>
    bigz16 (position (me_maker_position env)) 4 (maker_size v) \<and> \<bar>maker_size v\<bar> < 2 ^ 60 \<and>
    list_all2 asset_is (ms_taker_assets ms) (taker_assets v)"

lemma match_readsD:
  assumes "match_reads env ms now v"
  shows "bval (pending_is_ask (ms_register ms)) (taker_ask v)" "bval (ao_is_ask (ms_account_order ms)) (maker_ask v)"
    "bval (ao_reduce_only (ms_account_order ms)) (maker_reduces v)"
    "uval (pending_price (ms_register ms)) < 2 ^ ORDER_PRICE_BITS" "uval (price_index (ms_order ms)) < 2 ^ ORDER_PRICE_BITS"
    "uval (ao_price (ms_account_order ms)) < 2 ^ 32" "uval (pending_size (ms_register ms)) < 2 ^ ORDER_SIZE_BITS"
    "uval (ao_remaining_base_amount (ms_account_order ms)) < 2 ^ ORDER_SIZE_BITS" "uval (ao_expiry (ms_account_order ms)) < 2 ^ TIMESTAMP_BITS"
    "now < 2 ^ TIMESTAMP_BITS" "uval (acc_cancel_all_time (me_maker env)) < 2 ^ TIMESTAMP_BITS"
    "uval (market_index (me_market env)) < 2 ^ MARKET_INDEX_BITS"
    "bigz16 (position (me_taker_position env)) 4 (taker_size v)" "\<bar>taker_size v\<bar> < 2 ^ 60"
    "bigz16 (position (me_maker_position env)) 4 (maker_size v)" "\<bar>maker_size v\<bar> < 2 ^ 60"
    "list_all2 asset_is (ms_taker_assets ms) (taker_assets v)"
  using assms by (simp_all add: match_reads_def)

text \<open>The stages of the decision: the book, orders of the same owner, orders that are gone, the parties, the size.\<close>

definition start_decision :: "bool \<Rightarrow> decision option" where
  "start_decision b = (if b then None else Some (Stop False False))"

definition book_stage :: "match_env \<Rightarrow> match_state \<Rightarrow> match_reading \<Rightarrow> bool \<Rightarrow> decision option" where
  "book_stage env ms v b = opening_decision env ms (taker_ask v) (taker_size v) (start_decision b)"

definition first_sizes :: "match_state \<Rightarrow> match_reading \<Rightarrow> match_sizes" where
  "first_sizes ms v = (uval (pending_size (ms_register ms)), uval (ao_remaining_base_amount (ms_account_order ms)), order_amounts (ms_order ms), taker_assets v)"

definition self_stage :: "match_env \<Rightarrow> match_state \<Rightarrow> nat \<Rightarrow> match_reading \<Rightarrow> bool \<Rightarrow> bool \<times> decision option \<times> match_sizes" where
  "self_stage env ms now v b =
    (let (ok, x) = fee_step env ms now (maker_ask v) (book_stage env ms v b, first_sizes ms v);
         (ok', y) = account_step env ms now (maker_ask v) x in (ok \<and> ok', y))"

definition alive_stage :: "match_env \<Rightarrow> match_state \<Rightarrow> nat \<Rightarrow> match_reading \<Rightarrow> bool \<Rightarrow> decision option" where
  "alive_stage env ms now v b = mode_decision ms (same_master env ms)
    (first_of (fst (snd (self_stage env ms now v b))) (switch_off env now \<or> maker_expired ms now) (Stop False True))"

definition party_stage :: "match_env \<Rightarrow> match_state \<Rightarrow> nat \<Rightarrow> match_reading \<Rightarrow> bool \<Rightarrow> decision option" where
  "party_stage env ms now v b =
    first_of (first_of (alive_stage env ms now v b) (uval (pending_time_in_force (ms_register ms)) = POST_ONLY) (Stop True False))
      (maker_reduces_nothing env (maker_ask v) (maker_size v) (maker_reduces v)) (Stop False True)"

definition capped_size :: "match_env \<Rightarrow> match_state \<Rightarrow> nat \<Rightarrow> match_reading \<Rightarrow> bool \<Rightarrow> nat" where
  "capped_size env ms now v b =
    (let on = (party_stage env ms now v b = None) in
     capped (on \<and> uval (pending_reduce_only (ms_register ms)) = 1) (nat \<bar>taker_size v\<bar>)
       (capped (on \<and> maker_reduces v) (nat \<bar>maker_size v\<bar>) (trade_amount ms)))"

definition slippage_size :: "match_env \<Rightarrow> match_state \<Rightarrow> nat \<Rightarrow> match_reading \<Rightarrow> bool \<Rightarrow> nat" where
  "slippage_size env ms now v b = allowed_size (taker_ask v) (uval (pending_price (ms_register ms))) (uval (price_index (ms_order ms)))
    (uval (generic_field_0 (ms_register ms))) (capped_size env ms now v b)"

definition traded_size :: "match_env \<Rightarrow> match_state \<Rightarrow> nat \<Rightarrow> match_reading \<Rightarrow> bool \<Rightarrow> nat" where
  "traded_size env ms now v b = capped (party_stage env ms now v b = None \<and> market_kind (uval (pending_type (ms_register ms))))
    (slippage_size env ms now v b) (capped_size env ms now v b)"

definition match_result :: "match_env \<Rightarrow> match_state \<Rightarrow> nat \<Rightarrow> match_reading \<Rightarrow> bool \<Rightarrow> decision option" where
  "match_result env ms now v b = first_of (party_stage env ms now v b)
    (market_kind (uval (pending_type (ms_register ms))) \<and> traded_size env ms now v b = 0) (Stop True False)"

definition slips_too_far :: "match_env \<Rightarrow> match_state \<Rightarrow> nat \<Rightarrow> match_reading \<Rightarrow> bool \<Rightarrow> bool" where
  "slips_too_far env ms now v b \<longleftrightarrow> party_stage env ms now v b = None \<and> market_kind (uval (pending_type (ms_register ms))) \<and>
    slips (taker_ask v) (uval (pending_price (ms_register ms))) (uval (price_index (ms_order ms))) \<and>
    traded_size env ms now v b = slippage_size env ms now v b \<and> slippage_size env ms now v b \<noteq> capped_size env ms now v b"

text \<open>What the prover has to show. \<open>better\<close> is the size of the opposite orders with better priority than the leaf.\<close>

definition match_accepts :: "match_env \<Rightarrow> account_target \<Rightarrow> match_state \<Rightarrow> nat \<Rightarrow> match_reading \<Rightarrow> nat \<Rightarrow> bool \<Rightarrow> bool" where
  "match_accepts env fee ms now v better b \<longleftrightarrow>
    opening_accepts env ms (taker_ask v) (taker_size v) (start_decision b) better \<and>
    (book_stage env ms v b = None \<longrightarrow> maker_agrees env ms) \<and> taker_flags ms < 8 \<and> fst (self_stage env ms now v b) \<and>
    (alive_stage env ms now v b = None \<longrightarrow> parties_differ env ms) \<and>
    (match_result env ms now v b = None \<longrightarrow>
      uval (acc_account_type fee) = INSURANCE_FUND_ACCOUNT_TYPE \<or> uval (acc_account_index fee) = TREASURY_ACCOUNT_INDEX)"

lemma capped_le: "capped c x a \<le> a"
  by (simp add: capped_def)

lemma capped_size_le: "capped_size env ms now v b \<le> trade_amount ms"
  unfolding capped_size_def Let_def by (rule order_trans [OF capped_le capped_le])

lemma realises_match_decision:
  fixes env :: match_env and ms :: match_state
  defines "better \<equiv> uval (fst (get_quote (pending_is_ask (ms_register ms)) (ms_order ms) (me_path env) (me_helper env)))"
  assumes v: "match_reads env ms (uval timestamp) v" and b: "bval matching_engine_flag b"
    and exact: "slippage_fits (taker_ask v) (uval (pending_price (ms_register ms))) (uval (price_index (ms_order ms))) (uval (generic_field_0 (ms_register ms)))"
  shows "realises (match_decision env fee timestamp matching_engine_flag ms) (match_accepts env fee ms (uval timestamp) v better b)
    (\<lambda>(fl, ms', a, slip). flags_are fl (match_result env ms (uval timestamp) v b) \<and>
      sizes_are ms ms' (snd (snd (self_stage env ms (uval timestamp) v b))) \<and> uval a = traded_size env ms (uval timestamp) v b \<and>
      bval slip (slips_too_far env ms (uval timestamp) v b))"
proof -
  let ?now = "uval timestamp"
  note r = match_readsD [OF v]
  have start: "flags_are \<lparr>update_status = matching_engine_flag, cancel_taker_order = Const 0, cancel_maker_order = Const 0, insert_taker_order = Const 0\<rparr> (start_decision b)"
    using flags_start [OF b] by (simp add: start_decision_def)
  obtain ok x ok' s S where steps: "fee_step env ms ?now (maker_ask v) (book_stage env ms v b, first_sizes ms v) = (ok, x)"
      "account_step env ms ?now (maker_ask v) x = (ok', s, S)" by (metis prod.exhaust)
  then have self: "self_stage env ms ?now v b = (ok \<and> ok', s, S)" by (simp add: self_stage_def)
  let ?P = "opening_accepts env ms (taker_ask v) (taker_size v) (start_decision b) better \<and> (book_stage env ms v b = None \<longrightarrow> maker_agrees env ms) \<and>
    taker_flags ms < 8 \<and> ok \<and> ok' \<and> (alive_stage env ms ?now v b = None \<longrightarrow> parties_differ env ms) \<and>
    (match_result env ms ?now v b = None \<longrightarrow> uval (acc_account_type fee) = INSURANCE_FUND_ACCOUNT_TYPE \<or> uval (acc_account_index fee) = TREASURY_ACCOUNT_INDEX)"
  show ?thesis
    unfolding match_decision_def Let_def
  proof (rule realises_when [where P = ?P], rule realises_after [OF implements_match_prepare [OF r(1,4,5)]],
      rule realises_bind [OF realises_match_opening [OF _ r(1) start r(13,14), folded better_def book_stage_def]], assumption, unfold split_paired_all prod.case, elim conjE,
      rule realises_bind [OF realises_match_maker [OF flags_areD(1) r(12)]], assumption,
      rule realises_bind [OF realises_party_prepare [OF r(8,7,9,10)]], goal_cases)
    case (1 t fl tro abs_taker _ p)
    note t = 1(1) and fl = 1(3) and tro = 1(4) and abs_taker = 1(5) and p = 1(9)
    have m: "match_is ms (fl, ms) (book_stage env ms v b, first_sizes ms v)"
      using fl r(17) unfolding match_is_def sizes_are_def first_sizes_def by (simp add: same_orders_refl trade_amount_def)
    note fee = realises_self_trade_with_fee [OF t p m r(2,6), unfolded steps fst_conv snd_conv]
    show ?case
    proof (rule realises_bind [OF fee], unfold split_paired_all prod.case, goal_cases)
      case (1 fl ms')
      obtain s0 S0 where x: "x = (s0, S0)" by (cases x)
      note account = realises_self_trade_same_account [OF t p 1(2) [unfolded x] r(2,6), folded x, unfolded steps fst_conv snd_conv]
      show ?case
      proof (rule realises_bind [OF account], unfold split_paired_all prod.case, goal_cases)
        case (1 fl ms')
        then have fl: "flags_are fl (fst (snd (self_stage env ms ?now v b)))" and sizes: "sizes_are ms ms' S" by (simp_all add: match_is_def self)
        have same: "same_orders ms ms'" using sizes by (simp add: sizes_are_def split: prod.splits)
        have alive: "implements (self_trade_same_master env p f) (\<lambda>f'. flags_are f' (alive_stage env ms ?now v b))"
          if "flags_are f (first_of (fst (snd (self_stage env ms ?now v b))) (switch_off env ?now \<or> maker_expired ms ?now) (Stop False True))" for f
          unfolding alive_stage_def by (rule implements_self_trade_same_master [OF p that])
        have parties: "realises (match_parties env t ms' f) (alive_stage env ms ?now v b = None \<longrightarrow> parties_differ env ms)
            (\<lambda>f'. flags_are f' (party_stage env ms ?now v b))" if "flags_are f (alive_stage env ms ?now v b)" for f
          unfolding party_stage_def by (rule realises_match_parties [OF t that same r(2,3) bigz16D(4) [OF r(15)]])
        have ro: "bval (ao_reduce_only (ms_account_order ms')) (maker_reduces v)" using r(3) same_ordersD(6) [OF same] by simp
        have capped: "implements (reduce_only_amount env tro abs_taker ms' f (p_amount p)) (\<lambda>a. uval a = capped_size env ms ?now v b)"
          if "flags_are f (party_stage env ms ?now v b)" for f
          unfolding capped_size_def Let_def by (rule implements_reduce_only_amount [OF that ro tro r(15,16) abs_taker parties_areD(1) [OF p]])
        have "trade_amount ms < 2 ^ ORDER_SIZE_BITS" using r(7) by (simp add: trade_amount_def)
        then have fits: "capped_size env ms ?now v b < 2 ^ ORDER_SIZE_BITS" using capped_size_le [of env ms ?now v b] by (rule le_less_trans [rotated])
        have size: "implements (slippage_amount t ms' f a) (\<lambda>(f', a', slip). flags_are f' (match_result env ms ?now v b) \<and>
            uval a' = traded_size env ms ?now v b \<and> bval slip (slips_too_far env ms ?now v b))"
          if "flags_are f (party_stage env ms ?now v b)" "uval a = capped_size env ms ?now v b" for f a
          unfolding match_result_def traded_size_def slippage_size_def slips_too_far_def
          by (rule implements_slippage_amount [OF t that(1) same r(1,4,5) exact that(2) fits])
        show ?case
        proof (rule realises_after [OF implements_maker_order_gone [OF p fl r(11,10)]], rule realises_after [OF alive], assumption,
            rule realises_bind [OF parties], assumption, rule realises_after [OF capped], assumption, rule realises_after [OF size], assumption, assumption,
            unfold split_paired_all prod.case, elim conjE, rule realises_then_return [OF realises_match_fee_account], assumption, goal_cases)
          case 1
          then show ?case using sizes by (simp add: self)
        qed
      qed
    qed
  qed (simp add: match_accepts_def self)
qed

text \<open>What holds of every accepted decision, for any property \<open>R\<close> of the size and the last flags.\<close>

definition shown_so_far :: "match_env \<Rightarrow> match_state \<Rightarrow> nat \<Rightarrow> match_reading \<Rightarrow> nat \<Rightarrow> bool \<Rightarrow> bool" where
  "shown_so_far env ms now v better b \<longleftrightarrow> opening_accepts env ms (taker_ask v) (taker_size v) (start_decision b) better \<and>
    (book_stage env ms v b = None \<longrightarrow> maker_agrees env ms) \<and> (alive_stage env ms now v b = None \<longrightarrow> parties_differ env ms)"

lemma sound_match_decision:
  fixes env :: match_env and ms :: match_state
  defines "better \<equiv> uval (fst (get_quote (pending_is_ask (ms_register ms)) (ms_order ms) (me_path env) (me_helper env)))"
  assumes v: "match_reads env ms (uval timestamp) v" and b: "bval matching_engine_flag b"
  shows "sound (match_decision env fee timestamp matching_engine_flag ms) (\<lambda>(fl, ms', a, slip). shown_so_far env ms (uval timestamp) v better b \<and>
      (\<exists>c. flags_are fl (first_of (party_stage env ms (uval timestamp) v b) c (Stop True False))) \<and> same_orders ms ms' \<and>
      (uval (generic_field_0 (ms_register ms)) < 2 ^ ORDER_SIZE_BITS \<longrightarrow> uval a \<le> capped_size env ms (uval timestamp) v b))"
proof -
  let ?now = "uval timestamp"
  note r = match_readsD [OF v]
  have start: "flags_are \<lparr>update_status = matching_engine_flag, cancel_taker_order = Const 0, cancel_maker_order = Const 0, insert_taker_order = Const 0\<rparr> (start_decision b)"
    using flags_start [OF b] by (simp add: start_decision_def)
  obtain ok x ok' s S where steps: "fee_step env ms ?now (maker_ask v) (book_stage env ms v b, first_sizes ms v) = (ok, x)"
      "account_step env ms ?now (maker_ask v) x = (ok', s, S)" by (metis prod.exhaust)
  then have self: "self_stage env ms ?now v b = (ok \<and> ok', s, S)" by (simp add: self_stage_def)
  show ?thesis
    unfolding match_decision_def Let_def
  proof (rule sound_bind [OF implements_sound [OF implements_match_prepare [OF r(1,4,5)]]],
      rule sound_bind [OF realises_sound [OF realises_match_opening [OF _ r(1) start r(13,14), folded better_def book_stage_def]]], assumption,
      unfold split_paired_all prod.case, elim conjE,
      rule sound_bind [OF realises_sound [OF realises_match_maker [OF flags_areD(1) r(12)]]], assumption,
      rule sound_bind [OF realises_sound [OF realises_party_prepare [OF r(8,7,9,10)]]], goal_cases)
    case (1 t fl tro abs_taker _ p)
    note t = 1(1) and opened = 1(2) and fl = 1(3) and tro = 1(4) and abs_taker = 1(5) and maker = conjunct1 [OF 1(6)] and p = conjunct2 [OF 1(7)]
    have m: "match_is ms (fl, ms) (book_stage env ms v b, first_sizes ms v)"
      using fl r(17) unfolding match_is_def sizes_are_def first_sizes_def by (simp add: same_orders_refl trade_amount_def)
    note fee = realises_self_trade_with_fee [OF t p m r(2,6), unfolded steps fst_conv snd_conv]
    show ?case
    proof (rule sound_bind [OF realises_sound [OF fee]], unfold split_paired_all prod.case, goal_cases)
      case (1 fl ms')
      obtain s0 S0 where x: "x = (s0, S0)" by (cases x)
      have m: "match_is ms (fl, ms') (s0, S0)" using conjunct2 [OF 1] unfolding x .
      note account = realises_self_trade_same_account [OF t p m r(2,6), folded x, unfolded steps fst_conv snd_conv]
      show ?case
      proof (rule sound_bind [OF realises_sound [OF account]], unfold split_paired_all prod.case, goal_cases)
        case (1 fl ms')
        then have fl: "flags_are fl (fst (snd (self_stage env ms ?now v b)))" and sizes: "sizes_are ms ms' S" by (simp_all add: match_is_def self)
        have same: "same_orders ms ms'" using sizes by (simp add: sizes_are_def split: prod.splits)
        have alive: "implements (self_trade_same_master env p f) (\<lambda>f'. flags_are f' (alive_stage env ms ?now v b))"
          if "flags_are f (first_of (fst (snd (self_stage env ms ?now v b))) (switch_off env ?now \<or> maker_expired ms ?now) (Stop False True))" for f
          unfolding alive_stage_def by (rule implements_self_trade_same_master [OF p that])
        have parties: "realises (match_parties env t ms' f) (alive_stage env ms ?now v b = None \<longrightarrow> parties_differ env ms)
            (\<lambda>f'. flags_are f' (party_stage env ms ?now v b))" if "flags_are f (alive_stage env ms ?now v b)" for f
          unfolding party_stage_def by (rule realises_match_parties [OF t that same r(2,3) bigz16D(4) [OF r(15)]])
        have ro: "bval (ao_reduce_only (ms_account_order ms')) (maker_reduces v)" using r(3) same_ordersD(6) [OF same] by simp
        have capped: "implements (reduce_only_amount env tro abs_taker ms' f (p_amount p)) (\<lambda>a. uval a = capped_size env ms ?now v b)"
          if "flags_are f (party_stage env ms ?now v b)" for f
          unfolding capped_size_def Let_def by (rule implements_reduce_only_amount [OF that ro tro r(15,16) abs_taker parties_areD(1) [OF p]])
        have "trade_amount ms < 2 ^ ORDER_SIZE_BITS" using r(7) by (simp add: trade_amount_def)
        then have fits: "capped_size env ms ?now v b < 2 ^ ORDER_SIZE_BITS" using capped_size_le [of env ms ?now v b] by (rule le_less_trans [rotated])
        show ?case
        proof (rule sound_bind [OF implements_sound [OF implements_maker_order_gone [OF p fl r(11,10)]]], rule sound_bind [OF implements_sound [OF alive]], assumption,
            rule sound_bind [OF realises_sound [OF parties]], assumption, elim conjE, rule sound_bind [OF implements_sound [OF capped]], assumption,
            rule sound_bind [OF sound_slippage_amount [OF t _ same r(1,4,5) _ fits]], assumption, assumption,
            unfold split_paired_all prod.case, elim conjE exE, rule sound_bind [OF realises_sound [OF realises_match_fee_account]], assumption,
            rule sound_return, unfold prod.case, goal_cases)
          case 1
          then show ?case using same opened maker unfolding shown_so_far_def by blast
        qed
      qed
    qed
  qed
qed

section \<open>The book that is shown\<close>

definition leaf_key :: "match_state \<Rightarrow> nat" where
  "leaf_key ms = order_key (uval (price_index (ms_order ms))) (uval (nonce_index (ms_order ms)))"

text \<open>The path and the leaf are those of the key of the leaf in the book.\<close>

definition shows_book :: "permutation \<Rightarrow> book \<Rightarrow> match_env \<Rightarrow> match_state \<Rightarrow> bool" where
  "shows_book perm B env ms \<longleftrightarrow> book_ok B \<and> book_bounded B \<and> leaf_key ms < 2 ^ ORDER_BOOK_MERKLE_LEVELS \<and>
    book_path perm B (leaf_key ms) (me_path env) \<and> list_all2 bval (me_helper env) (index_bits ORDER_BOOK_MERKLE_LEVELS (leaf_key ms)) \<and>
    order_amounts (ms_order ms) = B (leaf_key ms)"

text \<open>The size of the orders a taker would meet before the leaf: asks at smaller keys, bids at larger ones.\<close>

definition better_size :: "book \<Rightarrow> nat \<Rightarrow> bool \<Rightarrow> nat" where
  "better_size B k ask = better_amount B k ask (if ask then 2 else 0)"

lemma shown_better_size:
  assumes "shows_book perm B env ms" "bval is_ask ask"
  shows "uval (fst (get_quote is_ask (ms_order ms) (me_path env) (me_helper env))) = better_size B (leaf_key ms) ask"
  using assms(1) get_quote_better(1) [of perm B "leaf_key ms" "me_path env" is_ask ask "me_helper env" "ms_order ms"] assms(2)
    canonical_better_sum [of B "leaf_key ms" "if ask then 2 else 0" ask]
  unfolding shows_book_def better_size_def by simp

lemma realises_match_shown:
  assumes v: "match_reads env ms (uval timestamp) v" and B: "shows_book perm B env ms" and b: "bval matching_engine_flag b"
    and exact: "slippage_fits (taker_ask v) (uval (pending_price (ms_register ms))) (uval (price_index (ms_order ms))) (uval (generic_field_0 (ms_register ms)))"
  shows "realises (match_decision env fee timestamp matching_engine_flag ms)
    (match_accepts env fee ms (uval timestamp) v (better_size B (leaf_key ms) (taker_ask v)) b)
    (\<lambda>(fl, ms', a, slip). flags_are fl (match_result env ms (uval timestamp) v b) \<and>
      sizes_are ms ms' (snd (snd (self_stage env ms (uval timestamp) v b))) \<and> uval a = traded_size env ms (uval timestamp) v b \<and>
      bval slip (slips_too_far env ms (uval timestamp) v b))"
  using realises_match_decision [OF v b exact, of fee] unfolding shown_better_size [OF B match_readsD(1) [OF v]] .

lemma sound_match_shown:
  assumes v: "match_reads env ms (uval timestamp) v" and B: "shows_book perm B env ms" and b: "bval matching_engine_flag b"
  shows "sound (match_decision env fee timestamp matching_engine_flag ms) (\<lambda>(fl, ms', a, slip).
      shown_so_far env ms (uval timestamp) v (better_size B (leaf_key ms) (taker_ask v)) b \<and>
      (\<exists>c. flags_are fl (first_of (party_stage env ms (uval timestamp) v b) c (Stop True False))) \<and> same_orders ms ms' \<and>
      (uval (generic_field_0 (ms_register ms)) < 2 ^ ORDER_SIZE_BITS \<longrightarrow> uval a \<le> capped_size env ms (uval timestamp) v b))"
  using sound_match_decision [OF v b, of fee] unfolding shown_better_size [OF B match_readsD(1) [OF v]] .

text \<open>What a decision says about the stages before.\<close>

lemma mode_decision_None:
  "mode_decision ms same s = None \<longleftrightarrow> s = None \<and> (same \<longrightarrow> taker_flags ms mod 4 = SELF_TRADE_BEHAVIOR_REDUCE)"
proof -
  have "n mod 4 = 0 \<or> n mod 4 = 1 \<or> n mod 4 = 2 \<or> n mod 4 = (3::nat)" for n by presburger
  then show ?thesis
    by (auto simp: mode_decision_def SELF_TRADE_BEHAVIOR_EXPIRE_MAKER_def SELF_TRADE_BEHAVIOR_EXPIRE_TAKER_def SELF_TRADE_BEHAVIOR_EXPIRE_BOTH_def
      SELF_TRADE_BEHAVIOR_REDUCE_def)
qed

lemma self_stage_None:
  assumes "fst (snd (self_stage env ms now v b)) = None"
  shows "book_stage env ms v b = None" "\<not> (same_account ms \<and> (uval (generic_field_1 (ms_register ms)) \<noteq> 0 \<or> taker_flags ms < 4))"
  using assms by (auto simp: self_stage_def fee_step_def account_step_def reduce_step_def Let_def mode_decision_None split: prod.splits)

lemma opening_None:
  "opening_decision env ms ask z s = None \<longleftrightarrow> side_decision env ms ask z s = None \<and> \<not> leaf_empty ms"
  by (auto simp: opening_decision_def)

text \<open>Later stages never insert the taker order.\<close>

lemma first_of_insert: "first_of s c (Stop x y) = Some Insert_Taker \<longleftrightarrow> s = Some Insert_Taker"
  by (cases s) (auto simp: first_of_def)

lemma mode_decision_insert: "mode_decision ms same s = Some Insert_Taker \<longleftrightarrow> s = Some Insert_Taker"
  by (simp add: mode_decision_def first_of_insert)

lemma reduce_step_insert: "fst (reduce_step env ms mside f (s, S)) = Some Insert_Taker \<longleftrightarrow> s = Some Insert_Taker"
  by (cases S) (simp add: reduce_step_def reduce_decision_def first_of_insert Let_def)

lemma self_stage_insert: "fst (snd (self_stage env ms now v b)) = Some Insert_Taker \<longleftrightarrow> book_stage env ms v b = Some Insert_Taker"
proof -
  obtain s S where x: "reduce_step env ms (maker_ask v) (same_account ms \<and> uval (generic_field_1 (ms_register ms)) \<noteq> 0)
      (first_of (book_stage env ms v b) ((same_account ms \<and> uval (generic_field_1 (ms_register ms)) \<noteq> 0) \<and> maker_expired ms now) (Stop False True), first_sizes ms v) = (s, S)"
    by (cases "reduce_step env ms (maker_ask v) (same_account ms \<and> uval (generic_field_1 (ms_register ms)) \<noteq> 0)
      (first_of (book_stage env ms v b) ((same_account ms \<and> uval (generic_field_1 (ms_register ms)) \<noteq> 0) \<and> maker_expired ms now) (Stop False True), first_sizes ms v)") auto
  have "s = Some Insert_Taker \<longleftrightarrow> book_stage env ms v b = Some Insert_Taker"
    using arg_cong [OF x, of fst] reduce_step_insert unfolding fst_conv first_of_insert by (metis first_of_insert)
  moreover have "fst (snd (self_stage env ms now v b)) = Some Insert_Taker \<longleftrightarrow> s = Some Insert_Taker"
    using x by (simp add: self_stage_def fee_step_def account_step_def Let_def reduce_step_insert mode_decision_insert first_of_insert)
  ultimately show ?thesis by simp
qed

lemma party_stage_insert: "party_stage env ms now v b = Some Insert_Taker \<longleftrightarrow> book_stage env ms v b = Some Insert_Taker"
  by (simp add: party_stage_def alive_stage_def first_of_insert mode_decision_insert self_stage_insert)

lemma match_result_insert: "match_result env ms now v b = Some Insert_Taker \<longleftrightarrow> book_stage env ms v b = Some Insert_Taker"
  by (simp add: match_result_def party_stage_def alive_stage_def first_of_insert mode_decision_insert self_stage_insert)

section \<open>A bid at 100 that is shown an order at 110\<close>

definition cross_key :: nat where "cross_key = order_key 110 7"

definition flat_position :: account_position where
  "flat_position = empty_position\<lparr>position := small16 0\<rparr>"

definition treasury :: account_target where
  "treasury = example_account\<lparr>acc_account_index := Const 0\<rparr>"

definition cross_env :: "gf list \<Rightarrow> match_env" where
  "cross_env a = \<lparr>me_market = example_open_market, me_path = honest_path (\<lambda>s. s) (no_orders(cross_key := a)) cross_key,
     me_helper = helper_targets cross_key, me_taker = example_account\<lparr>acc_account_index := Const 5\<rparr>, me_maker = example_account,
     me_taker_position = flat_position, me_maker_position = flat_position\<rparr>"

text \<open>The taker bids 10 at 100; the maker order has 25 left, at 110, on the side given.\<close>

definition cross_state :: "bool \<Rightarrow> gf list \<Rightarrow> match_state" where
  "cross_state side a = \<lparr>ms_register = empty_register\<lparr>reg_account_index := Const 5, pending_size := Const 10, pending_price := Const 100,
      pending_nonce := Const 9, pending_time_in_force := Const 1\<rparr>,
     ms_account_order = (example_order 0 0 0)\<lparr>ao_index_0 := Const (2 ^ 48 + 7), ao_price := Const 110, ao_nonce := Const 7, ao_expiry := Const 1000,
      ao_is_ask := Const (of_bool side)\<rparr>,
     ms_order = order_at 110 7 a, ms_taker_assets = []\<rparr>"

definition cross_reading :: "bool \<Rightarrow> match_reading" where
  "cross_reading side = \<lparr>taker_ask = False, maker_ask = side, maker_reduces = False, taker_size = 0, maker_size = 0, taker_assets = []\<rparr>"

lemma cross_key_small: "cross_key < 2 ^ ORDER_BOOK_MERKLE_LEVELS"
  by (simp add: cross_key_def order_key_def ORDER_BOOK_MERKLE_LEVELS_def ORDER_PRICE_BITS_def ORDER_NONCE_BITS_def)

lemma flat_position_reads: "bigz16 (position flat_position) 4 0"
  using bigz16_small16 [of 0] by (simp add: flat_position_def)

lemma cross_reads: "match_reads (cross_env a) (cross_state side a) 500 (cross_reading side)"
  using flat_position_reads
  by (simp add: match_reads_def cross_env_def cross_state_def cross_reading_def empty_register_def example_order_def empty_account_order_def order_at_def
    order_with_def example_account_def example_open_market_def slippage_fits_def slips_def ORDER_PRICE_BITS_def ORDER_SIZE_BITS_def
    ORDER_BASE_AMOUNT_BITS_def TIMESTAMP_BITS_def MARKET_INDEX_BITS_def bval_def)

lemma cross_fits:
  "slippage_fits (taker_ask (cross_reading side)) (uval (pending_price (ms_register (cross_state side a))))
    (uval (price_index (ms_order (cross_state side a)))) (uval (generic_field_0 (ms_register (cross_state side a))))"
  by (simp add: cross_reading_def cross_state_def empty_register_def slippage_fits_def order_at_def order_with_def ORDER_SIZE_BITS_def
    ORDER_BASE_AMOUNT_BITS_def)

lemma cross_shown:
  assumes "length a = 4" "sums_fit a"
  shows "shows_book (\<lambda>s. s) (no_orders(cross_key := a)) (cross_env a) (cross_state side a)"
proof -
  have key: "leaf_key (cross_state side a) = cross_key"
    by (simp add: leaf_key_def cross_state_def order_at_simps cross_key_def)
  show ?thesis
    unfolding shows_book_def key
    using single_order_book [OF assms(1) cross_key_small] assms(2) cross_key_small book_path_honest helper_targets_ok
    by (simp add: cross_env_def cross_state_def order_at_simps assms(1))
qed

lemmas cross_defs = cross_env_def cross_state_def cross_reading_def empty_register_def example_order_def empty_account_order_def
  example_account_def example_open_market_def treasury_def

lemma cross_stages:
  assumes a: "length a = 4" "a \<noteq> replicate 4 0"
  shows "book_stage (cross_env a) (cross_state side a) (cross_reading side) True = None"
    "self_stage (cross_env a) (cross_state side a) 500 (cross_reading side) True = (True, None, first_sizes (cross_state side a) (cross_reading side))"
    "alive_stage (cross_env a) (cross_state side a) 500 (cross_reading side) True = None"
    "party_stage (cross_env a) (cross_state side a) 500 (cross_reading side) True = None"
proof -
  have leaf: "\<not> leaf_empty (cross_state side a)" using a by (simp add: leaf_empty_def cross_state_def order_at_simps)
  show book: "book_stage (cross_env a) (cross_state side a) (cross_reading side) True = None"
    using leaf by (simp add: book_stage_def opening_None side_decision_def entry_decision_def start_decision_def immediate_def cross_defs TRIGGER_STATUS_NA_def IOC_def)
  have "\<not> same_account (cross_state side a)" by (simp add: same_account_def cross_defs)
  then have other: "same_account (cross_state side a) = False" by simp
  show self: "self_stage (cross_env a) (cross_state side a) 500 (cross_reading side) True = (True, None, first_sizes (cross_state side a) (cross_reading side))"
    by (simp add: self_stage_def book fee_step_def account_step_def reduce_step_def reduce_accepts_def reduce_decision_def first_sizes_def mode_decision_def other Let_def)
  show alive: "alive_stage (cross_env a) (cross_state side a) 500 (cross_reading side) True = None"
    unfolding alive_stage_def self fst_conv snd_conv mode_decision_None by (simp add: same_master_def switch_off_def maker_expired_def taker_flags_def cross_defs)
  show "party_stage (cross_env a) (cross_state side a) 500 (cross_reading side) True = None"
    unfolding party_stage_def alive by (simp add: maker_reduces_nothing_def cross_defs POST_ONLY_def)
qed

lemma cross_traded:
  assumes a: "length a = 4" "a \<noteq> replicate 4 0" "sums_fit a"
  shows "implements (match_decision (cross_env a) treasury (Const 500) (Const 1) (cross_state side a)) (\<lambda>(fl, ms', sz, slip). uval (update_status fl) = 1 \<and> uval sz = 10)"
proof -
  let ?e = "cross_env a" and ?m = "cross_state side a" and ?v = "cross_reading side"
  note stages = cross_stages [OF a(1,2), of side]
  have kind: "\<not> market_kind (uval (pending_type (ms_register ?m)))"
    by (simp add: market_kind_def order_kinds cross_defs)
  have result: "match_result ?e ?m 500 ?v True = None" using kind by (simp add: match_result_def stages)
  have size: "traded_size ?e ?m 500 ?v True = 10"
    using kind by (simp add: traded_size_def capped_size_def capped_def stages trade_amount_def) (simp add: cross_defs)
  have key: "leaf_key ?m = cross_key" by (simp add: leaf_key_def cross_state_def order_at_simps cross_key_def)
  have better: "better_size (no_orders(cross_key := a)) (leaf_key ?m) (taker_ask ?v) = 0"
    unfolding key better_size_def by (rule better_amount_single [OF cross_key_small]) simp
  have accepts: "match_accepts ?e treasury ?m 500 ?v 0 True"
  proof -
    have "side_decision ?e ?m False 0 None = None" "\<not> leaf_empty ?m"
      using stages(1) by (simp_all add: book_stage_def opening_None cross_reading_def start_decision_def)
    then have "opening_accepts ?e ?m (taker_ask ?v) (taker_size ?v) (start_decision True) 0"
      by (simp add: opening_accepts_def cross_reading_def start_decision_def)
    then show ?thesis
      using a(1) by (simp add: match_accepts_def stages result maker_agrees_def parties_differ_def taker_flags_def order_at_simps)
        (simp add: cross_defs order_at_simps TREASURY_ACCOUNT_INDEX_def)
  qed
  have "implements (match_decision ?e treasury (Const 500) (Const 1) ?m) (\<lambda>(fl, ms', a, slip). flags_are fl None \<and>
      sizes_are ?m ms' (snd (snd (self_stage ?e ?m 500 ?v True))) \<and> uval a = 10 \<and> bval slip (slips_too_far ?e ?m 500 ?v True))"
    using realises_implements [OF realises_match_shown [OF _ cross_shown [OF a(1,3), of side] bval_Const(1), where timestamp = "Const 500" and v = ?v and fee = treasury]] cross_reads accepts
      cross_fits [of side a] by (simp add: better result size)
  then show ?thesis
    by (rule implements_weaken) (auto dest!: flags_areD(1) simp: bval_def)
qed

definition cross_leaf :: "gf list" where "cross_leaf = [25, 2750, 0, 0]"

lemma cross_leaf: "length cross_leaf = 4" "cross_leaf \<noteq> replicate 4 0" "sums_fit cross_leaf"
proof -
  have four: "replicate 4 (0::gf) = [0, 0, 0, 0]" by (simp add: numeral_eq_Suc)
  show "length cross_leaf = 4" "cross_leaf \<noteq> replicate 4 0" "sums_fit cross_leaf"
    by (simp_all add: four cross_leaf_def sums_fit_def all_less_4)
qed

text \<open>The same order in the book, and a bid at 100 that comes to rest.\<close>

definition rest_env :: match_env where
  "rest_env = (cross_env cross_leaf)\<lparr>me_path := honest_path (\<lambda>s. s) (no_orders(cross_key := cross_leaf)) (order_key 100 9),
     me_helper := helper_targets (order_key 100 9)\<rparr>"

definition rest_state :: match_state where
  "rest_state = (cross_state False cross_leaf)\<lparr>ms_order := order_at 100 9 (replicate 4 0)\<rparr>"

lemma rest_reads: "match_reads rest_env rest_state 500 (cross_reading False)"
  using flat_position_reads
  by (simp add: match_reads_def rest_env_def rest_state_def cross_env_def cross_state_def cross_reading_def empty_register_def example_order_def
    empty_account_order_def order_at_def order_with_def example_account_def example_open_market_def slippage_fits_def slips_def ORDER_PRICE_BITS_def
    ORDER_SIZE_BITS_def ORDER_BASE_AMOUNT_BITS_def TIMESTAMP_BITS_def MARKET_INDEX_BITS_def bval_def)

lemma rest_key: "order_key 100 9 < 2 ^ ORDER_BOOK_MERKLE_LEVELS" "leaf_key rest_state = order_key 100 9" "order_key 100 9 < cross_key"
  by (simp_all add: rest_state_def leaf_key_def order_at_simps order_key_def cross_key_def ORDER_BOOK_MERKLE_LEVELS_def ORDER_PRICE_BITS_def ORDER_NONCE_BITS_def)

lemma rest_shown: "shows_book (\<lambda>s. s) (no_orders(cross_key := cross_leaf)) rest_env rest_state"
  unfolding shows_book_def rest_key(2)
  using single_order_book [OF cross_leaf(1) cross_key_small] cross_leaf(3) rest_key(1,3) book_path_honest helper_targets_ok
  by (simp add: rest_env_def rest_state_def order_at_simps no_orders_def)

lemma rest_result: "match_result rest_env rest_state 500 (cross_reading False) True = Some Insert_Taker"
proof -
  have "leaf_empty rest_state" by (simp add: leaf_empty_def rest_state_def order_at_simps)
  then show ?thesis
    unfolding match_result_insert book_stage_def opening_decision_def side_decision_def entry_decision_def start_decision_def immediate_def
    by (simp add: rest_state_def cross_defs TRIGGER_STATUS_NA_def IOC_def)
qed

lemma sound_mp: "sound c P \<Longrightarrow> sound c (\<lambda>x. P x \<longrightarrow> Q x) \<Longrightarrow> sound c Q"
  by (auto simp: sound_def)

lemma rest_fits:
  "slippage_fits (taker_ask (cross_reading False)) (uval (pending_price (ms_register rest_state)))
    (uval (price_index (ms_order rest_state))) (uval (generic_field_0 (ms_register rest_state)))"
  by (simp add: slippage_fits_def slips_def rest_state_def cross_defs cross_state_def order_at_simps)

section \<open>The slippage division wraps\<close>

text \<open>
  A market order to buy at 100 that gained \<open>2 ^ 40\<close> in its trades so far meets an order at \<open>100 + 2 ^ 30\<close>: it may buy
  \<open>2 ^ 10\<close> there, but the circuit also accepts the quotient \<open>2 ^ 34 + 1020\<close> with remainder one, and a trade of \<open>2 ^ 33\<close>.
\<close>

definition wrap_state :: match_state where
  "wrap_state = (cross_state True (replicate 4 0))\<lparr>ms_register := empty_register\<lparr>pending_price := Const 100, pending_type := Const 1,
     generic_field_0 := Const (2 ^ 40)\<rparr>, ms_order := order_at (100 + 2 ^ 30) 7 (replicate 4 0)\<rparr>"

definition wrap_tests :: match_tests where
  "wrap_tests = \<lparr>t_perps = Const 1, t_maker_limit = Const 1, t_triggered = Const 0, t_market = Const 1, t_limit = Const 0, t_ioc = Const 0,
     t_post_only = Const 0, t_side_empty = Const 0, t_price_gt = Const 0, t_price_lt = Const 1\<rparr>"

definition wrap_flags :: match_flags where
  "wrap_flags = \<lparr>update_status = Const 1, cancel_taker_order = Const 0, cancel_maker_order = Const 0, insert_taker_order = Const 0\<rparr>"

theorem slippage_quotient_wraps:
  "complete (slippage_amount wrap_tests wrap_state wrap_flags (Const (2 ^ 33))) (\<lambda>(fl, a, slip). uval (update_status fl) = 1 \<and> uval a = 2 ^ 33)
    \<and> allowed_size False 100 (100 + 2 ^ 30) (2 ^ 40) (2 ^ 33) = 2 ^ 10"
proof
  let ?a = "Const (2 ^ 33)" and ?q = "Wire (2 ^ 34 + 1020)" and ?l = "price_index (ms_order wrap_state)"
  define as where "as = b_and (pending_is_ask (ms_register wrap_state)) (t_price_gt wrap_tests)"
  define bs where "bs = b_and (b_not (pending_is_ask (ms_register wrap_state))) (t_price_lt wrap_tests)"
  define d where "d = b_mul (b_sub (pending_price (ms_register wrap_state)) ?l) (select as (Const 1) (Const (- 1)))"
  have as: "bval as False" and bs: "bval bs True"
    unfolding as_def bs_def by (simp_all add: bval_def tval_simps wrap_state_def wrap_tests_def empty_register_def)
  have slip: "bval (b_or as bs) True" by (rule bval_eq [OF bval_or [OF as bs]]) simp
  have "tval d = of_nat (2 ^ 30)"
    unfolding d_def by (simp add: tval_simps tval_select [OF as] wrap_state_def order_at_simps)
  then have d: "uval d = 2 ^ 30" "tval d = 2 ^ 30" by (simp_all add: uval_of_nat)
  have n: "generic_field_0 (ms_register wrap_state) = Const (2 ^ 40)" by (simp add: wrap_state_def)
  have acc: "division_accepts True (Const (2 ^ 40)) d ORDER_PRICE_BITS ?q (Wire 1)"
    unfolding division_accepts_def d by (simp add: ORDER_PRICE_BITS_def cmp_bit_size_bucket_def)
  have on: "bval (b_and (update_status wrap_flags) (t_market wrap_tests)) True"
    by (simp add: bval_def tval_simps wrap_flags_def wrap_tests_def)
  have q: "uval (select (b_or as bs) ?q ?a) = 2 ^ 34 + 1020" unfolding uval_select [OF slip] by simp
  have least: "implements (min_target [select (b_or as bs) ?q ?a, ?a] ORDER_SIZE_BITS) (\<lambda>r. uval r = 2 ^ 33)"
    by (rule implements_weaken [OF implements_min_max_target(1)])
      (use q in \<open>auto simp: ORDER_SIZE_BITS_def ORDER_BASE_AMOUNT_BITS_def intro: cmp_okI\<close>)
  have flags: "flags_are wrap_flags None" by (simp add: flags_are_def wrap_flags_def bval_def)
  show "complete (slippage_amount wrap_tests wrap_state wrap_flags ?a) (\<lambda>(fl, a, slip). uval (update_status fl) = 1 \<and> uval a = 2 ^ 33)"
    unfolding slippage_amount_def Let_def n as_def [symmetric] bs_def [symmetric] d_def [symmetric]
  proof (rule complete_bind [OF conditional_div_rem_accepts(2) [OF slip acc]], simp only: prod.case,
      rule complete_bind [OF implements_complete [OF implements_is_not_equal]], rule complete_bind [OF implements_complete [OF least]],
      rule complete_bind [OF implements_complete [OF implements_is_zero]], rule complete_bind [OF implements_complete [OF implements_is_equal]],
      rule complete_return, unfold prod.case, goal_cases)
    case (1 x ne m z e)
    have m: "uval (select (b_and (update_status wrap_flags) (t_market wrap_tests)) m ?a) = 2 ^ 33" using 1(3) by (simp add: uval_select [OF on])
    have z: "bval z False" by (rule bval_eq [OF 1(4)], subst m) simp
    have "bval (b_and (b_and (update_status wrap_flags) (t_market wrap_tests)) z) (None = None \<and> False)" by (rule bval_eq [OF bval_and [OF on z]]) simp
    from flags_areD(1) [OF flags_are_step(1) [OF flags this]] show ?case using m by (simp add: bval_def)
  qed
  show "allowed_size False 100 (100 + 2 ^ 30) (2 ^ 40) (2 ^ 33) = 2 ^ 10" by (simp add: allowed_size_def slips_def)
qed

section \<open>Properties\<close>

text \<open>
  C1. The decision of the matching, exactly, as long as the division that limits the slippage of market orders cannot
  wrap (\<open>slippage_fits\<close>: the code does not enforce it, and without it other sizes are accepted, see
  \<open>slippage_quotient_wraps\<close>). It is accepted just when the prover shows the leaf of a book whose better
  orders on the other side are empty where that matters, the maker order of that leaf and its account, and the outcome
  (which order rests or is cancelled, how self trades shrink the orders, the size of the trade, and whether slippage
  ends it) is the one of the five stages.
\<close>
theorem matching_decided:
  assumes "match_reads env ms (uval timestamp) v" "shows_book perm B env ms" "bval matching_engine_flag b"
    and "slippage_fits (taker_ask v) (uval (pending_price (ms_register ms))) (uval (price_index (ms_order ms))) (uval (generic_field_0 (ms_register ms)))"
  shows "realises (match_decision env fee timestamp matching_engine_flag ms)
    (match_accepts env fee ms (uval timestamp) v (better_size B (leaf_key ms) (taker_ask v)) b)
    (\<lambda>(fl, ms', a, slip). flags_are fl (match_result env ms (uval timestamp) v b) \<and>
      sizes_are ms ms' (snd (snd (self_stage env ms (uval timestamp) v b))) \<and> uval a = traded_size env ms (uval timestamp) v b \<and>
      bval slip (slips_too_far env ms (uval timestamp) v b))"
  by (rule realises_match_shown [OF assms])

lemma matching_decided_witness:
  "sound (match_decision rest_env treasury (Const 500) (Const 1) rest_state) (\<lambda>(fl, ms', a, slip). flags_are fl (Some Insert_Taker))"
proof -
  have reads: "match_reads rest_env rest_state (uval (Const 500)) (cross_reading False)" using rest_reads by simp
  show ?thesis
    by (rule sound_weaken [OF realises_sound [OF matching_decided [OF reads rest_shown bval_Const(1) rest_fits, where fee = treasury]]]) (auto simp: rest_result)
qed

text \<open>
  C2. A trade passes over no better order: if the matching goes on to a trade, the leaf presented holds an order, no order of
  the other side of the book has better priority than this leaf, the maker order presented is the one of the leaf, and its
  account is another one and alive. If what a market order gained so far is below \<open>2 ^ 48\<close>, the trade takes at most what is
  left of either order and of a position that may only be reduced. (The side of the order in the leaf is not checked, see
  C9; nothing is assumed of the slippage division.)
\<close>
theorem trade_passes_no_better_order:
  assumes "match_reads env ms (uval timestamp) v" "shows_book perm B env ms" "bval matching_engine_flag b"
  shows "sound (match_decision env fee timestamp matching_engine_flag ms) (\<lambda>(fl, ms', a, slip). uval (update_status fl) = 1 \<longrightarrow>
    b \<and> B (leaf_key ms) \<noteq> replicate 4 0 \<and> better_size B (leaf_key ms) (taker_ask v) = 0 \<and> maker_agrees env ms \<and> parties_differ env ms \<and>
    \<not> maker_expired ms (uval timestamp) \<and> \<not> switch_off env (uval timestamp) \<and> uval (pending_time_in_force (ms_register ms)) \<noteq> POST_ONLY \<and>
    (uval (generic_field_0 (ms_register ms)) < 2 ^ ORDER_SIZE_BITS \<longrightarrow>
      uval a \<le> uval (pending_size (ms_register ms)) \<and> uval a \<le> uval (ao_remaining_base_amount (ms_account_order ms)) \<and>
      (maker_reduces v \<longrightarrow> int (uval a) \<le> \<bar>maker_size v\<bar>) \<and> (uval (pending_reduce_only (ms_register ms)) = 1 \<longrightarrow> int (uval a) \<le> \<bar>taker_size v\<bar>)))"
proof (rule sound_weaken [OF sound_match_shown [OF assms]], unfold split_paired_all prod.case, intro impI, elim conjE exE, goal_cases)
  case (1 fl ms' a slip c)
  let ?now = "uval timestamp"
  have acc: "opening_accepts env ms (taker_ask v) (taker_size v) (start_decision b) (better_size B (leaf_key ms) (taker_ask v))"
    "book_stage env ms v b = None \<longrightarrow> maker_agrees env ms" "alive_stage env ms ?now v b = None \<longrightarrow> parties_differ env ms"
    using 1(2) by (simp_all add: shown_so_far_def)
  have "first_of (party_stage env ms ?now v b) c (Stop True False) = None"
    using flags_areD(1) [OF 1(5)] 1(1) by (cases "first_of (party_stage env ms ?now v b) c (Stop True False)") (auto simp: bval_def)
  then have party: "party_stage env ms ?now v b = None" by simp
  then have alive: "alive_stage env ms ?now v b = None" "uval (pending_time_in_force (ms_register ms)) \<noteq> POST_ONLY"
    by (simp_all add: party_stage_def)
  then have self: "fst (snd (self_stage env ms ?now v b)) = None" "\<not> switch_off env ?now" "\<not> maker_expired ms ?now"
    by (simp_all add: alive_stage_def mode_decision_None)
  note book = self_stage_None(1) [OF self(1)]
  then have side: "side_decision env ms (taker_ask v) (taker_size v) (start_decision b) = None" "\<not> leaf_empty ms"
    by (simp_all add: book_stage_def opening_None)
  then have b by (cases b) (auto simp: side_decision_def entry_decision_def start_decision_def)
  moreover have "B (leaf_key ms) \<noteq> replicate 4 0" using side(2) assms(2) by (simp add: leaf_empty_def shows_book_def)
  moreover have "better_size B (leaf_key ms) (taker_ask v) = 0" using acc(1) side(1) by (simp add: opening_accepts_def)
  moreover have "capped_size env ms ?now v b \<le> trade_amount ms" by (rule capped_size_le)
  moreover have "maker_reduces v \<Longrightarrow> capped_size env ms ?now v b \<le> nat \<bar>maker_size v\<bar>"
    "uval (pending_reduce_only (ms_register ms)) = 1 \<Longrightarrow> capped_size env ms ?now v b \<le> nat \<bar>taker_size v\<bar>"
    using party by (auto simp: capped_size_def capped_def Let_def)
  ultimately show ?case
    using acc(2,3) alive self book 1 by (auto simp: trade_amount_def)
qed

lemma trade_passes_no_better_order_witness:
  "sound (match_decision (cross_env cross_leaf) treasury (Const 500) (Const 1) (cross_state True cross_leaf))
    (\<lambda>(fl, ms', a, slip). better_size (no_orders(cross_key := cross_leaf)) (leaf_key (cross_state True cross_leaf)) False = 0 \<and> uval a \<le> 10)"
proof -
  have reads: "match_reads (cross_env cross_leaf) (cross_state True cross_leaf) (uval (Const 500)) (cross_reading True)" using cross_reads by simp
  have on: "sound (match_decision (cross_env cross_leaf) treasury (Const 500) (Const 1) (cross_state True cross_leaf)) (\<lambda>(fl, ms', a, slip). uval (update_status fl) = 1)"
    by (rule sound_weaken [OF implements_sound [OF cross_traded [OF cross_leaf]]]) auto
  show ?thesis
    by (rule sound_mp [OF on], rule sound_weaken [OF trade_passes_no_better_order [OF reads cross_shown [OF cross_leaf(1,3)] bval_Const(1), where fee = treasury]])
      (auto simp: cross_reading_def cross_state_def empty_register_def)
qed

text \<open>
  C10. An order that comes to rest crosses nothing: if the matching inserts a taker order that does not wait for a trigger,
  the leaf is free and has the taker's own price and nonce, the order is a limit order that may rest, and no order of the
  other side has a better price.
\<close>
theorem resting_order_crosses_nothing:
  assumes "match_reads env ms (uval timestamp) v" "shows_book perm B env ms" "bval matching_engine_flag b"
    and waits: "uval (pending_trigger_status (ms_register ms)) = TRIGGER_STATUS_NA"
  shows "sound (match_decision env fee timestamp matching_engine_flag ms) (\<lambda>(fl, ms', a, slip). uval (insert_taker_order fl) = 1 \<longrightarrow>
    B (order_key (uval (pending_price (ms_register ms))) (uval (pending_nonce (ms_register ms)))) = replicate 4 0 \<and>
    better_size B (order_key (uval (pending_price (ms_register ms))) (uval (pending_nonce (ms_register ms)))) (taker_ask v) = 0 \<and>
    limit_kind (uval (pending_type (ms_register ms))) \<and> uval (pending_time_in_force (ms_register ms)) \<noteq> IOC)"
proof (rule sound_weaken [OF sound_match_shown [OF assms(1-3)]], unfold split_paired_all prod.case, intro impI, elim conjE exE, goal_cases)
  case (1 fl ms' a slip c)
  let ?s = "start_decision b"
  have acc: "opening_accepts env ms (taker_ask v) (taker_size v) ?s (better_size B (leaf_key ms) (taker_ask v))"
    using 1(2) by (simp add: shown_so_far_def)
  have "first_of (party_stage env ms (uval timestamp) v b) c (Stop True False) = Some Insert_Taker"
    using flags_areD(4) [OF 1(5)] 1(1)
    by (cases "first_of (party_stage env ms (uval timestamp) v b) c (Stop True False) = Some Insert_Taker") (auto simp: bval_def)
  then have "opening_decision env ms (taker_ask v) (taker_size v) ?s = Some Insert_Taker"
    by (simp add: first_of_insert party_stage_insert book_stage_def)
  then have "side_decision env ms (taker_ask v) (taker_size v) ?s = None" "leaf_empty ms" "\<not> immediate ms"
    using waits by (auto simp: opening_decision_def side_decision_def entry_decision_def start_decision_def first_of_def split: option.splits if_splits)
  moreover from this(1) have "entry_decision env ms (taker_ask v) (taker_size v) ?s = None" by (simp add: side_decision_def)
  ultimately show ?case
    using acc assms(2) by (auto simp: opening_accepts_def leaf_is_takers_def leaf_key_def leaf_empty_def shows_book_def immediate_def Let_def)
qed

lemma resting_order_crosses_nothing_witness:
  "sound (match_decision rest_env treasury (Const 500) (Const 1) rest_state)
    (\<lambda>(fl, ms', a, slip). better_size (no_orders(cross_key := cross_leaf)) (order_key 100 9) False = 0)"
proof -
  have reads: "match_reads rest_env rest_state (uval (Const 500)) (cross_reading False)" using rest_reads by simp
  have on: "sound (match_decision rest_env treasury (Const 500) (Const 1) rest_state) (\<lambda>(fl, ms', a, slip). uval (insert_taker_order fl) = 1)"
    by (rule sound_weaken [OF realises_sound [OF realises_match_shown [OF reads rest_shown bval_Const(1) rest_fits, where fee = treasury]]])
      (use rest_result in \<open>auto dest!: flags_areD(4) simp: bval_def\<close>)
  have waits: "uval (pending_trigger_status (ms_register rest_state)) = TRIGGER_STATUS_NA" by (simp add: rest_state_def cross_defs TRIGGER_STATUS_NA_def)
  have at: "uval (pending_price (ms_register rest_state)) = 100" "uval (pending_nonce (ms_register rest_state)) = 9" by (simp_all add: rest_state_def cross_defs)
  show ?thesis
    by (rule sound_mp [OF on], rule sound_weaken [OF resting_order_crosses_nothing [OF reads rest_shown bval_Const(1) waits, where fee = treasury, unfolded at]])
      (auto simp: cross_reading_def)
qed

text \<open>
  C9. Neither the limit price nor the side of the maker order is checked: a limit order to buy 10 at 100 is matched, in
  full, with an order at 110, and this also if that order is itself an order to buy.
\<close>
theorem limit_price_unchecked:
  "complete (match_decision (cross_env [25, 2750, 0, 0]) treasury (Const 500) (Const 1) (cross_state True [25, 2750, 0, 0]))
      (\<lambda>(fl, ms', a, slip). uval (update_status fl) = 1 \<and> uval a = 10)
    \<and> complete (match_decision (cross_env [0, 0, 25, 2750]) treasury (Const 500) (Const 1) (cross_state False [0, 0, 25, 2750]))
      (\<lambda>(fl, ms', a, slip). uval (update_status fl) = 1 \<and> uval a = 10)"
proof -
  have four: "replicate 4 (0::gf) = [0, 0, 0, 0]" by (simp add: numeral_eq_Suc)
  show ?thesis
    by (intro conjI implements_complete [OF cross_traded]) (simp_all add: four sums_fit_def all_less_4)
qed

end
