(* ===== verification/Match_Fill.thy ===== *)
theory Match_Fill
  imports Match_Cascade
begin

text \<open>
  A trade that takes effect (\<open>execute_matching\<close> of \<open>circuit/src/matching_engine.rs\<close>, after the settlement): it is taken
  from the pending order, from the maker order, from the leaf of the book and from what the maker order has locked, and it
  may complete either order. A market order keeps account of the prices it got: what it gained over its own price is
  what later trades may lose.
\<close>

section \<open>The circuit\<close>

definition register_fill :: "target \<Rightarrow> target \<Rightarrow> target \<Rightarrow> target \<Rightarrow> base_register_info \<Rightarrow> base_register_info" where
  "register_fill market_flag update traded leaf_price r =
    (let new_register_pending_size = b_sub (pending_size r) traded;
         r = r\<lparr>pending_size := select update new_register_pending_size (pending_size r)\<rparr>;
         ask_taker_price_diff = b_sub leaf_price (pending_price r);
         bid_taker_price_diff = b_sub (pending_price r) leaf_price;
         new_ask_taker_field = b_mul ask_taker_price_diff traded;
         new_bid_taker_field = b_mul bid_taker_price_diff traded;
         new_slippage_accumulator_delta = select (pending_is_ask r) new_ask_taker_field new_bid_taker_field;
         new_market_order_field = b_add (generic_field_0 r) new_slippage_accumulator_delta;
         new_field = select market_flag new_market_order_field (generic_field_0 r) in
     r\<lparr>generic_field_0 := select update new_field (generic_field_0 r)\<rparr>)"

text \<open>The last two arguments are the open interest of the market and the assets of the maker.\<close>

definition apply_fill ::
  "match_env \<Rightarrow> match_tests \<Rightarrow> target \<Rightarrow> target \<Rightarrow> target \<Rightarrow> match_state \<times> target \<times> account_asset list \<Rightarrow>
    (match_state \<times> target \<times> account_asset list) circ" where
  "apply_fill env t update traded interest = (\<lambda>(ms, old_open_interest, maker_assets).
    let oi = select update interest old_open_interest;
        r = register_fill (t_market t) update traded (price_index (ms_order ms)) (ms_register ms);
        new_order_remaining_size = b_sub (ao_remaining_base_amount (ms_account_order ms)) traded;
        ao = (ms_account_order ms)\<lparr>ao_remaining_base_amount :=
          select update new_order_remaining_size (ao_remaining_base_amount (ms_account_order ms))\<rparr> in
    circ_bind (is_equal_constant (acc_account_type (me_maker env)) INSURANCE_FUND_ACCOUNT_TYPE) (\<lambda>is_maker_insurance_fund.
    let decrement_flag = multi_and [update, b_not (t_perps t), t_maker_limit t, b_not is_maker_insurance_fund] in
    circ_bind (decrement_locked_balance_for_partial_order decrement_flag (me_market env) (ao_is_ask ao) traded (ao_price ao) maker_assets)
      (\<lambda>maker_assets.
    let ord = set_remaining_amount_conditional update (ao_is_ask ao) new_order_remaining_size (ms_order ms) in
    circ_return (ms\<lparr>ms_register := r, ms_account_order := ao, ms_order := ord\<rparr>, oi, maker_assets))))"

text \<open>Whether the trade completes an order: filled, nothing left to reduce, too much slippage, or no longer in liquidation.\<close>

definition fill_completes_taker ::
  "base_register_info \<Rightarrow> target \<Rightarrow> target \<Rightarrow> account_position \<Rightarrow> risk_info \<Rightarrow> match_flags \<Rightarrow> match_flags circ" where
  "fill_completes_taker r taker_reduce_only too_much_slippage fresh_taker fresh_risk fl =
    circ_bind (is_equal (pending_type r) (constant_u64 LIQUIDATION_ORDER)) (\<lambda>is_liquidation_order.
    circ_bind (is_zero (pending_size r)) (\<lambda>is_register_pending_size_empty.
    circ_bind (is_not_valid_reduce_only_direction (bi_sign (position fresh_taker)) (pending_is_ask r)) (\<lambda>bad_direction.
    let cancel_reduce_only_taker = b_and taker_reduce_only bad_direction in
    circ_bind (is_in_liquidation (current_risk_parameters fresh_risk)) (\<lambda>is_in_liquidation.
    let healthy_liquidation = and_not is_liquidation_order is_in_liquidation;
        cancel_taker = multi_or [is_register_pending_size_empty, cancel_reduce_only_taker, too_much_slippage, healthy_liquidation];
        cancel_taker_flag = b_and (update_status fl) cancel_taker in
    circ_return (fl\<lparr>cancel_taker_order := select_bool cancel_taker_flag (update_status fl) (cancel_taker_order fl)\<rparr>)))))"

definition fill_completes_maker :: "account_order \<Rightarrow> account_position \<Rightarrow> match_flags \<Rightarrow> match_flags circ" where
  "fill_completes_maker ao fresh_maker fl =
    circ_bind (is_zero (ao_remaining_base_amount ao)) (\<lambda>is_order_remaining_size_empty.
    circ_bind (is_not_valid_reduce_only_direction (bi_sign (position fresh_maker)) (ao_is_ask ao)) (\<lambda>bad_direction.
    let cancel_reduce_only_maker = b_and (ao_reduce_only ao) bad_direction;
        cancel_maker = multi_or [is_order_remaining_size_empty, cancel_reduce_only_maker];
        cancel_maker_flag = b_and (update_status fl) cancel_maker in
    circ_return (fl\<lparr>cancel_maker_order := select_bool cancel_maker_flag (update_status fl) (cancel_maker_order fl)\<rparr>)))"

section \<open>What a trade gains\<close>

text \<open>What a taker gains per unit over its own price, when it trades at the price of the leaf.\<close>

definition gain :: "bool \<Rightarrow> nat \<Rightarrow> nat \<Rightarrow> int" where
  "gain ask pending leaf = (if ask then int leaf - int pending else int pending - int leaf)"

lemma tval_of_int: "tval t = of_int n \<Longrightarrow> 0 \<le> n \<Longrightarrow> n < int p_nat \<Longrightarrow> int (uval t) = n"
  using uval_of_nat [of t "nat n"] by (simp add: nat_less_iff)

lemma register_fill_values:
  fixes r :: base_register_info
  defines "g \<equiv> int (uval (generic_field_0 r))"
  assumes u: "bval update u" and ask: "bval (pending_is_ask r) ask" and market: "bval market_flag market"
    and fits: "u \<and> market \<Longrightarrow> 0 \<le> g + gain ask (uval (pending_price r)) (uval leaf_price) * int (uval traded) \<and>
      g + gain ask (uval (pending_price r)) (uval leaf_price) * int (uval traded) < int p_nat"
  shows "u \<Longrightarrow> uval traded \<le> uval (pending_size r) \<Longrightarrow>
      uval (pending_size (register_fill market_flag update traded leaf_price r)) = uval (pending_size r) - uval traded"
    and "\<not> u \<Longrightarrow> uval (pending_size (register_fill market_flag update traded leaf_price r)) = uval (pending_size r)"
    and "int (uval (generic_field_0 (register_fill market_flag update traded leaf_price r))) =
      (if u \<and> market then g + gain ask (uval (pending_price r)) (uval leaf_price) * int (uval traded) else g)"
    and "\<exists>p g. register_fill market_flag update traded leaf_price r = r\<lparr>pending_size := p, generic_field_0 := g\<rparr>"
proof -
  let ?r' = "register_fill market_flag update traded leaf_price r"
  have size: "pending_size ?r' = select update (b_sub (pending_size r) traded) (pending_size r)"
    by (simp add: register_fill_def Let_def)
  show "uval (pending_size ?r') = uval (pending_size r) - uval traded" if u "uval traded \<le> uval (pending_size r)"
    unfolding size uval_select [OF u] using uval_sub_small [OF that(2)] that(1) by simp
  show "uval (pending_size ?r') = uval (pending_size r)" if "\<not> u"
    unfolding size uval_select [OF u] using that by simp
  have "tval (generic_field_0 ?r') =
      (if u \<and> market then tval (generic_field_0 r) + of_int (gain ask (uval (pending_price r)) (uval leaf_price)) * tval traded else tval (generic_field_0 r))"
    unfolding gain_def
    by (auto simp: register_fill_def Let_def tval_select [OF u] tval_select [OF market] tval_select [OF ask] tval_simps of_nat_to_canonical)
  then have field: "tval (generic_field_0 ?r') =
      of_int (if u \<and> market then g + gain ask (uval (pending_price r)) (uval leaf_price) * int (uval traded) else g)"
    unfolding g_def by (simp add: of_nat_to_canonical)
  have small: "g < int p_nat" unfolding g_def using to_canonical_lt by simp
  show "int (uval (generic_field_0 ?r')) =
      (if u \<and> market then g + gain ask (uval (pending_price r)) (uval leaf_price) * int (uval traded) else g)"
    by (rule tval_of_int [OF field]) (use fits small in \<open>auto simp: g_def\<close>)
  show "\<exists>p g. ?r' = r\<lparr>pending_size := p, generic_field_0 := g\<rparr>"
    unfolding register_fill_def Let_def by (intro exI) simp
qed

section \<open>The effect of a trade\<close>

definition fill_lock :: "match_env \<Rightarrow> match_state \<Rightarrow> bool" where
  "fill_lock env ms \<longleftrightarrow> \<not> perps_market env \<and> uval (ao_order_type (ms_account_order ms)) = LIMIT_ORDER \<and>
    uval (acc_account_type (me_maker env)) \<noteq> INSURANCE_FUND_ACCOUNT_TYPE"

definition fill_amount :: "match_env \<Rightarrow> match_state \<Rightarrow> bool \<Rightarrow> nat \<Rightarrow> nat" where
  "fill_amount env ms side a = locked_amount_of (me_market env) side a (uval (ao_price (ms_account_order ms)))"

definition fill_possible :: "match_env \<Rightarrow> match_state \<Rightarrow> bool \<Rightarrow> nat \<Rightarrow> asset_state list \<Rightarrow> bool" where
  "fill_possible env ms side a xs \<longleftrightarrow> (fill_lock env ms \<longrightarrow>
    fill_amount env ms side a < 2 ^ 96 \<and> (\<exists>l. locked_of (paid_asset (me_market env) side) xs = Some l \<and> fill_amount env ms side a \<le> l))"

text \<open>What is left: of the pending order, the maker order and the leaf, the open interest, and the maker's assets.\<close>

definition filled :: "match_env \<Rightarrow> match_state \<Rightarrow> bool \<Rightarrow> nat \<Rightarrow> nat \<Rightarrow> match_sizes \<times> nat \<Rightarrow> match_sizes \<times> nat" where
  "filled env ms side a interest = (\<lambda>((p, q, L, xs), _).
    ((p - a, q - a, leaf_with side (uval (price_index (ms_order ms))) (q - a) L,
      if fill_lock env ms then change_locked (paid_asset (me_market env) side) (\<lambda>l. l - fill_amount env ms side a) xs else xs), interest))"

definition fill_is :: "match_state \<times> target \<times> account_asset list \<Rightarrow> match_sizes \<times> nat \<Rightarrow> bool" where
  "fill_is = (\<lambda>(ms, oi, assets) ((p, q, L, xs), n). uval (pending_size (ms_register ms)) = p \<and>
    uval (ao_remaining_base_amount (ms_account_order ms)) = q \<and> order_amounts (ms_order ms) = L \<and> list_all2 asset_is assets xs \<and> uval oi = n)"

lemma pending_size_fill:
  assumes "bval update u" "u \<Longrightarrow> uval traded \<le> uval (pending_size r)"
  shows "uval (pending_size (register_fill market_flag update traded leaf_price r)) =
    (if u then uval (pending_size r) - uval traded else uval (pending_size r))"
proof -
  have size: "pending_size (register_fill market_flag update traded leaf_price r) = select update (b_sub (pending_size r) traded) (pending_size r)"
    by (simp add: register_fill_def Let_def)
  show ?thesis unfolding size uval_select [OF assms(1)] using uval_sub_small [OF assms(2)] by simp
qed

lemma realises_apply_fill:
  assumes t: "tests_are env ms ask t" and u: "bval update u" and side: "bval (ao_is_ask (ms_account_order ms)) side"
    and price: "uval (ao_price (ms_account_order ms)) < 2 ^ 32" and S: "fill_is (ms, oi, assets) ((p, q, L, xs), n)"
    and le: "u \<Longrightarrow> uval traded \<le> p \<and> uval traded \<le> q"
  shows "realises (apply_fill env t update traded interest (ms, oi, assets)) (u \<longrightarrow> fill_possible env ms side (uval traded) xs)
    (\<lambda>s'. fill_is s' (if u then filled env ms side (uval traded) (uval interest) ((p, q, L, xs), n) else ((p, q, L, xs), n)) \<and>
      ms_register (fst s') = register_fill (t_market t) update traded (price_index (ms_order ms)) (ms_register ms))"
proof -
  note tests = tests_areD [OF t]
  have S': "uval (pending_size (ms_register ms)) = p" "uval (ao_remaining_base_amount (ms_account_order ms)) = q" "order_amounts (ms_order ms) = L"
    "list_all2 asset_is assets xs" "uval oi = n" using S by (simp_all add: fill_is_def)
  let ?q0 = "b_sub (ao_remaining_base_amount (ms_account_order ms)) traded"
  have q0: "uval ?q0 = q - uval traded" if u using uval_sub_small [of traded "ao_remaining_base_amount (ms_account_order ms)"] le S'(2) that by simp
  note p' = pending_size_fill [OF u, of traded "ms_register ms" "t_market t" "price_index (ms_order ms)", unfolded S'(1)]
  have fields: "ao_is_ask (x\<lparr>ao_remaining_base_amount := v\<rparr>) = ao_is_ask x" "ao_price (x\<lparr>ao_remaining_base_amount := v\<rparr>) = ao_price x" for x v by simp_all
  have ins: "INSURANCE_FUND_ACCOUNT_TYPE < p_nat" by (simp add: INSURANCE_FUND_ACCOUNT_TYPE_def)
  note leaf = order_amounts_set_remaining(1) [OF u side, where x = ?q0 and ord = "ms_order ms", unfolded S'(3)]
  show ?thesis
    unfolding apply_fill_def prod.case Let_def fields
  proof (rule realises_after [OF implements_is_equal_constant [OF ins]], goal_cases)
    case (1 i)
    have lock: "bval (multi_and [update, b_not (t_perps t), t_maker_limit t, b_not i]) (u \<and> fill_lock env ms)"
      by (rule bval_eq [OF bval_multi_and [where bs = "[u, \<not> perps_market env, uval (ao_order_type (ms_account_order ms)) = LIMIT_ORDER,
          uval (acc_account_type (me_maker env)) \<noteq> INSURANCE_FUND_ACCOUNT_TYPE]"]])
        (use u tests bval_not [OF 1] bval_not [OF tests(1)] in \<open>simp_all add: fill_lock_def\<close>)
    have rel: "realises (decrement_locked_balance_for_partial_order (multi_and [update, b_not (t_perps t), t_maker_limit t, b_not i])
        (me_market env) (ao_is_ask (ms_account_order ms)) traded (ao_price (ms_account_order ms)) assets)
      (u \<longrightarrow> fill_possible env ms side (uval traded) xs)
      (\<lambda>as. list_all2 asset_is as (if u \<and> fill_lock env ms then change_locked (paid_asset (me_market env) side) (\<lambda>l. l - fill_amount env ms side (uval traded)) xs else xs))"
      by (rule realises_weaken [OF realises_decrement_partial [OF lock side price S'(4)]]) (auto simp: fill_amount_def fill_possible_def)
    show ?case
      by (rule realises_then_return [OF rel])
        (use p' le leaf q0 S' in \<open>auto simp: fill_is_def filled_def uval_select [OF u]\<close>)
  qed
qed

text \<open>The flag of one order: the trade completes it, or it stays as decided before.\<close>

lemma completes_flag:
  assumes "bval (update_status fl) u" "bval c x" "bval old o'"
  shows "bval (select_bool (b_and (update_status fl) c) (update_status fl) old) (u \<and> x \<or> o')"
  by (rule bval_eq [OF bval_select_flag [OF bval_and [OF assms(1,2)] assms(1,3)]]) auto

lemma implements_fill_completes_taker:
  assumes fl: "bval (update_status fl) u" "bval (cancel_taker_order fl) ct"
    and r: "bval (pending_is_ask r) ask" "bval reduces red" "bval slip far" "sval (bi_sign (position fresh_taker)) z"
      "risk_reads (current_risk_parameters fresh_risk) R"
  shows "implements (fill_completes_taker r reduces slip fresh_taker fresh_risk fl) (\<lambda>fl'. fl' = fl\<lparr>cancel_taker_order := cancel_taker_order fl'\<rparr> \<and>
    bval (cancel_taker_order fl') (u \<and> (uval (pending_size r) = 0 \<or> red \<and> misdirected z ask \<or> far \<or>
      uval (pending_type r) = LIQUIDATION_ORDER \<and> int (maintenance_of R) \<le> threshold_of R) \<or> ct))"
proof -
  have liq: "LIQUIDATION_ORDER < p_nat" by (simp add: LIQUIDATION_ORDER_def)
  have type: "implements (is_equal (pending_type r) (constant_u64 LIQUIDATION_ORDER)) (\<lambda>h. bval h (uval (pending_type r) = LIQUIDATION_ORDER))"
    using implements_is_equal_constant [OF liq] by (simp add: is_equal_constant_def constant_u64_def)
  show ?thesis
    unfolding fill_completes_taker_def Let_def
  proof (rule implements_bind [OF type], rule implements_bind [OF implements_is_zero], rule implements_bind [OF implements_misdirected [OF r(4,1)]],
      rule implements_bind [OF implements_is_in_liquidation [OF r(5)]], rule implements_return, goal_cases)
    case (1 l e d h)
    have "bval (multi_or [e, b_and reduces d, slip, and_not l h]) (uval (pending_size r) = 0 \<or> red \<and> misdirected z ask \<or> far \<or>
        uval (pending_type r) = LIQUIDATION_ORDER \<and> int (maintenance_of R) \<le> threshold_of R)"
      by (rule bval_eq [OF bval_multi_or [where bs = "[uval (pending_size r) = 0, red \<and> misdirected z ask, far,
          uval (pending_type r) = LIQUIDATION_ORDER \<and> \<not> threshold_of R < int (maintenance_of R)]"]])
        (use 1 r bval_and [OF r(2) 1(3)] bval_and_not [OF 1(1,4)] in auto)
    from completes_flag [OF fl(1) this fl(2)] show ?case by simp
  qed
qed

lemma implements_fill_completes_maker:
  assumes fl: "bval (update_status fl) u" "bval (cancel_maker_order fl) cm"
    and ao: "bval (ao_is_ask ao) side" "bval (ao_reduce_only ao) red" "sval (bi_sign (position fresh_maker)) z"
  shows "implements (fill_completes_maker ao fresh_maker fl) (\<lambda>fl'. fl' = fl\<lparr>cancel_maker_order := cancel_maker_order fl'\<rparr> \<and>
    bval (cancel_maker_order fl') (u \<and> (uval (ao_remaining_base_amount ao) = 0 \<or> red \<and> misdirected z side) \<or> cm))"
  unfolding fill_completes_maker_def Let_def
proof (rule implements_bind [OF implements_is_zero], rule implements_bind [OF implements_misdirected [OF ao(3,1)]], rule implements_return, goal_cases)
  case (1 e d)
  have "bval (multi_or [e, b_and (ao_reduce_only ao) d]) (uval (ao_remaining_base_amount ao) = 0 \<or> red \<and> misdirected z side)"
    by (rule bval_eq [OF bval_multi_or [where bs = "[uval (ao_remaining_base_amount ao) = 0, red \<and> misdirected z side]"]])
      (use 1 bval_and [OF ao(2) 1(2)] in auto)
  from completes_flag [OF fl(1) this fl(2)] show ?case by simp
qed

section \<open>All trades of an order\<close>

text \<open>
  The trades of one market order: each is decided by the matching and filled into the register, the register of the one
  is the register of the next. A trade is a price, a size, and what the order had gained before it.
\<close>

inductive market_run :: "bool \<Rightarrow> base_register_info \<Rightarrow> (nat \<times> nat \<times> nat) list \<Rightarrow> base_register_info \<Rightarrow> bool" for ask r0 where
  start: "market_run ask r0 [] r0"
| trade: "market_run ask r0 fs r \<Longrightarrow> ms_register ms = r \<Longrightarrow> match_reads env ms (uval timestamp) v \<Longrightarrow> taker_ask v = ask \<Longrightarrow>
    bval matching_engine_flag b \<Longrightarrow> match_decision env fee timestamp matching_engine_flag ms tape = Done (fl, ms', a, slip) rest \<Longrightarrow>
    bval market_flag (market_kind (uval (pending_type r))) \<Longrightarrow> bval update u \<Longrightarrow> (u \<Longrightarrow> uval (update_status fl) = 1) \<Longrightarrow>
    market_run ask r0 (if u then fs @ [(uval (price_index (ms_order ms)), uval a, uval (generic_field_0 r))] else fs)
      (register_fill market_flag update a (price_index (ms_order ms')) (ms_register ms'))"

definition gains :: "bool \<Rightarrow> nat \<Rightarrow> (nat \<times> nat \<times> nat) list \<Rightarrow> int" where
  "gains ask pending fs = (\<Sum>(price, a, before)\<leftarrow>fs. gain ask pending price * int a)"

lemma gains_simps [simp]:
  "gains ask pending [] = 0" "gains ask pending (fs @ [(price, a, before)]) = gains ask pending fs + gain ask pending price * int a"
  by (simp_all add: gains_def)

lemma gains_average:
  "gains ask pending fs = (if ask then int (\<Sum>(price, a, before)\<leftarrow>fs. price * a) - int (pending * (\<Sum>(price, a, before)\<leftarrow>fs. a))
    else int (pending * (\<Sum>(price, a, before)\<leftarrow>fs. a)) - int (\<Sum>(price, a, before)\<leftarrow>fs. price * a))"
  by (induction fs) (auto simp: gains_def gain_def algebra_simps)

text \<open>A trade for which the slippage division cannot wrap, nor the account of the gains.\<close>

definition trade_fits :: "bool \<Rightarrow> nat \<Rightarrow> nat \<times> nat \<times> nat \<Rightarrow> bool" where
  "trade_fits ask pending = (\<lambda>(price, a, before). slippage_fits ask pending price before \<and>
    int before + gain ask pending price * int a < int p_nat)"

text \<open>A trade never loses more than was gained before.\<close>

lemma traded_size_affordable:
  assumes "market_kind (uval (pending_type (ms_register ms)))" "match_result env ms now v b = None"
  shows "0 \<le> int (uval (generic_field_0 (ms_register ms))) +
    gain (taker_ask v) (uval (pending_price (ms_register ms))) (uval (price_index (ms_order ms))) * int (traded_size env ms now v b)"
proof (cases "slips (taker_ask v) (uval (pending_price (ms_register ms))) (uval (price_index (ms_order ms)))")
  case True
  let ?p = "uval (pending_price (ms_register ms))" and ?l = "uval (price_index (ms_order ms))" and ?g = "uval (generic_field_0 (ms_register ms))"
  define d where "d = (if taker_ask v then ?p - ?l else ?l - ?p)"
  have gain: "gain (taker_ask v) ?p ?l = - int d" using True by (auto simp: gain_def slips_def d_def split: if_splits)
  have "party_stage env ms now v b = None" using assms(2) by (simp add: match_result_def)
  then have "traded_size env ms now v b \<le> ?g div d"
    using assms(1) True by (simp add: traded_size_def slippage_size_def allowed_size_def capped_def d_def)
  then have "d * traded_size env ms now v b \<le> d * (?g div d)" by (rule mult_le_mono2)
  also have "\<dots> \<le> ?g" by simp
  finally have "d * traded_size env ms now v b \<le> ?g" .
  then have "int d * int (traded_size env ms now v b) \<le> int ?g" by (metis of_nat_le_iff of_nat_mult)
  then show ?thesis unfolding gain by simp
next
  case False
  then have "0 \<le> gain (taker_ask v) (uval (pending_price (ms_register ms))) (uval (price_index (ms_order ms)))"
    by (auto simp: gain_def slips_def)
  then show ?thesis by simp
qed

lemma market_run_keeps:
  assumes "market_run ask r0 fs r" "market_kind (uval (pending_type r0))"
  shows "pending_price r = pending_price r0 \<and> pending_type r = pending_type r0 \<and>
    ((\<forall>f\<in>set fs. trade_fits ask (uval (pending_price r0)) f) \<longrightarrow>
      int (uval (generic_field_0 r)) = int (uval (generic_field_0 r0)) + gains ask (uval (pending_price r0)) fs)"
  using assms(1)
proof (induction rule: market_run.induct)
  case (trade fs r ms env timestamp v flag b fee tape fl ms' a slip rest market_flag update u)
  note IH = trade.IH
  have kind: "market_kind (uval (pending_type r))" using IH assms(2) by simp
  have same: "same_orders ms ms'"
    using sound_match_decision [OF trade.hyps(3,5), of fee] trade.hyps(6) unfolding sound_def by fastforce
  have reg: "pending_type (ms_register ms') = pending_type r" "pending_is_ask (ms_register ms') = pending_is_ask r"
    "pending_price (ms_register ms') = pending_price r" "generic_field_0 (ms_register ms') = generic_field_0 r"
    "price_index (ms_order ms') = price_index (ms_order ms)"
    using same trade.hyps(2) by (auto simp: same_orders_def)
  have ask: "bval (pending_is_ask (ms_register ms')) ask" using match_readsD(1) [OF trade.hyps(3)] trade.hyps(2,4) reg by simp
  have market: "bval market_flag True" using trade.hyps(7) kind by simp
  let ?price = "uval (price_index (ms_order ms))" and ?before = "uval (generic_field_0 r)"
  let ?r' = "register_fill market_flag update a (price_index (ms_order ms')) (ms_register ms')"
  have frame: "\<exists>p g. ?r' = (ms_register ms')\<lparr>pending_size := p, generic_field_0 := g\<rparr>"
    unfolding register_fill_def Let_def by (intro exI) simp
  have keep: "pending_price ?r' = pending_price r0" "pending_type ?r' = pending_type r0" using frame IH reg by auto
  note step = register_fill_values(3) [OF trade.hyps(8) ask market, of "price_index (ms_order ms')" a, unfolded reg]
  have gained: "int (uval (generic_field_0 ?r')) = int ?before + (if u then gain ask (uval (pending_price r)) ?price * int (uval a) else 0)"
    if fits: "u \<Longrightarrow> trade_fits ask (uval (pending_price r)) (?price, uval a, ?before)"
  proof -
    have "0 \<le> int ?before + gain ask (uval (pending_price r)) ?price * int (uval a)" if u
    proof -
      have exact: "slippage_fits (taker_ask v) (uval (pending_price (ms_register ms))) ?price (uval (generic_field_0 (ms_register ms)))"
        using fits [OF that] trade.hyps(2,4) by (simp add: trade_fits_def)
      have decided: "flags_are fl (match_result env ms (uval timestamp) v b) \<and> uval a = traded_size env ms (uval timestamp) v b"
        using realises_sound [OF realises_match_decision [OF trade.hyps(3,5) exact, of fee]] trade.hyps(6) unfolding sound_def by fastforce
      have "match_result env ms (uval timestamp) v b = None"
        using flags_areD(1) [of fl "match_result env ms (uval timestamp) v b"] decided trade.hyps(9) [OF that]
        by (cases "match_result env ms (uval timestamp) v b") (auto simp: bval_def)
      from traded_size_affordable [OF _ this] show ?thesis using kind decided trade.hyps(2,4) by simp
    qed
    then have "u \<and> True \<Longrightarrow> 0 \<le> int ?before + gain ask (uval (pending_price r)) ?price * int (uval a) \<and>
        int ?before + gain ask (uval (pending_price r)) ?price * int (uval a) < int p_nat"
      using fits by (simp add: trade_fits_def)
    from step [OF this] show ?thesis unfolding reg by simp
  qed
  show ?case using keep gained IH by (cases u) auto
qed simp_all

section \<open>An example\<close>

text \<open>A market order to buy 10 at 120 meets the order at 110.\<close>

definition market_state :: match_state where
  "market_state = (cross_state True cross_leaf)\<lparr>ms_register := (ms_register (cross_state True cross_leaf))\<lparr>
    pending_price := Const 120, pending_type := Const 1\<rparr>\<rparr>"

lemma market_state_simps:
  "ms_order market_state = order_at 110 7 cross_leaf" "ms_account_order market_state = ms_account_order (cross_state True cross_leaf)"
  "ms_taker_assets market_state = []"
  by (simp_all add: market_state_def cross_state_def)

lemma market_reads: "match_reads (cross_env cross_leaf) market_state 500 (cross_reading True)"
  using cross_reads [of cross_leaf True]
  by (simp add: match_reads_def market_state_def cross_defs slippage_fits_def slips_def order_at_simps ORDER_PRICE_BITS_def)

lemmas market_defs = market_state_def cross_state_def cross_defs

lemma market_stages:
  "book_stage (cross_env cross_leaf) market_state (cross_reading True) True = None"
  "self_stage (cross_env cross_leaf) market_state 500 (cross_reading True) True = (True, None, first_sizes market_state (cross_reading True))"
  "alive_stage (cross_env cross_leaf) market_state 500 (cross_reading True) True = None"
  "party_stage (cross_env cross_leaf) market_state 500 (cross_reading True) True = None"
proof -
  have leaf: "\<not> leaf_empty market_state" using cross_leaf by (simp add: leaf_empty_def market_state_simps order_at_simps)
  show book: "book_stage (cross_env cross_leaf) market_state (cross_reading True) True = None"
    using leaf by (simp add: book_stage_def opening_None side_decision_def entry_decision_def start_decision_def immediate_def market_defs TRIGGER_STATUS_NA_def IOC_def)
  have other: "same_account market_state = False" by (simp add: same_account_def market_defs)
  show self: "self_stage (cross_env cross_leaf) market_state 500 (cross_reading True) True = (True, None, first_sizes market_state (cross_reading True))"
    by (simp add: self_stage_def book fee_step_def account_step_def reduce_step_def reduce_accepts_def reduce_decision_def first_sizes_def mode_decision_def other Let_def)
  show alive: "alive_stage (cross_env cross_leaf) market_state 500 (cross_reading True) True = None"
    unfolding alive_stage_def self fst_conv snd_conv mode_decision_None by (simp add: same_master_def switch_off_def maker_expired_def taker_flags_def market_defs)
  show "party_stage (cross_env cross_leaf) market_state 500 (cross_reading True) True = None"
    unfolding party_stage_def alive by (simp add: maker_reduces_nothing_def market_defs POST_ONLY_def)
qed

lemma market_kind_example: "market_kind (uval (pending_type (ms_register market_state)))"
  by (simp add: market_kind_def order_kinds market_state_def)

lemma market_traded:
  "match_result (cross_env cross_leaf) market_state 500 (cross_reading True) True = None"
  "traded_size (cross_env cross_leaf) market_state 500 (cross_reading True) True = 10"
proof -
  have "\<not> slips False 120 110" by (simp add: slips_def)
  then show size: "traded_size (cross_env cross_leaf) market_state 500 (cross_reading True) True = 10"
    by (simp add: traded_size_def slippage_size_def allowed_size_def capped_size_def capped_def market_stages trade_amount_def market_state_simps order_at_simps)
      (simp add: market_defs)
  show "match_result (cross_env cross_leaf) market_state 500 (cross_reading True) True = None"
    by (simp add: match_result_def market_stages size)
qed

lemma market_accepts: "match_accepts (cross_env cross_leaf) treasury market_state 500 (cross_reading True) 0 True"
proof -
  have "side_decision (cross_env cross_leaf) market_state False 0 None = None" "\<not> leaf_empty market_state"
    using market_stages(1) by (simp_all add: book_stage_def opening_None cross_reading_def start_decision_def)
  then have "opening_accepts (cross_env cross_leaf) market_state (taker_ask (cross_reading True)) (taker_size (cross_reading True)) (start_decision True) 0"
    by (simp add: opening_accepts_def cross_reading_def start_decision_def)
  then show ?thesis
    using cross_leaf by (simp add: match_accepts_def market_stages market_traded maker_agrees_def parties_differ_def taker_flags_def market_state_simps order_at_simps)
      (simp add: market_defs order_at_simps TREASURY_ACCOUNT_INDEX_def)
qed

lemma market_shown: "shows_book (\<lambda>s. s) (no_orders(cross_key := cross_leaf)) (cross_env cross_leaf) market_state"
  using cross_shown [OF cross_leaf(1,3), of True] by (simp add: shows_book_def leaf_key_def market_state_simps cross_state_def)

lemma market_fits:
  "slippage_fits (taker_ask (cross_reading True)) (uval (pending_price (ms_register market_state))) (uval (price_index (ms_order market_state)))
    (uval (generic_field_0 (ms_register market_state)))"
  by (simp add: slippage_fits_def slips_def market_state_simps order_at_simps) (simp add: market_defs)

lemma market_run_example: "\<exists>r. market_run False (ms_register market_state) [(110, 10, 0)] r"
proof -
  have key: "leaf_key market_state = cross_key" by (simp add: leaf_key_def market_state_simps order_at_simps cross_key_def)
  have better: "better_size (no_orders(cross_key := cross_leaf)) (leaf_key market_state) (taker_ask (cross_reading True)) = 0"
    unfolding key better_size_def by (rule better_amount_single [OF cross_key_small]) (simp add: cross_reading_def)
  have "implements (match_decision (cross_env cross_leaf) treasury (Const 500) (Const 1) market_state) (\<lambda>(fl, ms', a, slip).
      flags_are fl None \<and> uval a = 10)"
    by (rule implements_weaken [OF realises_implements [OF realises_match_shown [OF _ market_shown bval_Const(1), where timestamp = "Const 500" and
        v = "cross_reading True" and fee = treasury]]]) (use market_reads market_accepts market_fits in \<open>auto simp: better market_traded\<close>)
  then obtain tape fl ms' a slip where run: "match_decision (cross_env cross_leaf) treasury (Const 500) (Const 1) market_state (tape @ []) = Done (fl, ms', a, slip) []"
    and d: "flags_are fl None" "uval a = 10" unfolding implements_def complete_def by fast
  have reads: "match_reads (cross_env cross_leaf) market_state (uval (Const 500)) (cross_reading True)" using market_reads by simp
  have go: "uval (update_status fl) = 1" using flags_areD(1) [OF d(1)] by (simp add: bval_def)
  have price: "uval (price_index (ms_order market_state)) = 110" "uval (generic_field_0 (ms_register market_state)) = 0"
    by (simp add: market_state_simps order_at_simps) (simp add: market_defs)
  from market_run.trade [OF market_run.start refl reads _ bval_Const(1) run _ bval_Const(1) go, where market_flag = "Const 1"] market_kind_example bval_Const(1)
  show ?thesis by (auto simp: price d(2) cross_reading_def)
qed

text \<open>The tests at this state, as constants.\<close>

definition fill_tests :: match_tests where
  "fill_tests = \<lparr>t_perps = Const (of_bool (perps_market (cross_env cross_leaf))),
    t_maker_limit = Const (of_bool (uval (ao_order_type (ms_account_order market_state)) = LIMIT_ORDER)),
    t_triggered = Const (of_bool (uval (pending_trigger_status (ms_register market_state)) \<noteq> TRIGGER_STATUS_NA)),
    t_market = Const 1, t_limit = Const (of_bool (limit_kind (uval (pending_type (ms_register market_state))))),
    t_ioc = Const (of_bool (immediate market_state)), t_post_only = Const (of_bool (uval (pending_time_in_force (ms_register market_state)) = POST_ONLY)),
    t_side_empty = Const (of_bool (side_empty (cross_env cross_leaf) False)),
    t_price_gt = Const (of_bool (uval (price_index (ms_order market_state)) < uval (pending_price (ms_register market_state)))),
    t_price_lt = Const (of_bool (uval (pending_price (ms_register market_state)) < uval (price_index (ms_order market_state))))\<rparr>"

lemma fill_tests_are: "tests_are (cross_env cross_leaf) market_state False fill_tests"
  using market_kind_example by (simp add: tests_are_def fill_tests_def bval_def)

lemma fill_example: "fill_is (market_state, Const 67, []) ((10, 25, cross_leaf, []), 67)"
  using cross_leaf(1) by (simp add: fill_is_def market_state_simps order_at_simps) (simp add: market_defs)

section \<open>Properties\<close>

text \<open>
  C3. The average price of a market order is not worse than its own: over all its trades an order to buy pays at
  most its price for the sizes it got, an order to sell receives at least its price, as long as at each trade the
  division that limits the slippage cannot wrap and what the order gained stays below the order of the field. The code
  enforces neither; \<open>slippage_quotient_wraps\<close> is a trade that is accepted beyond the first bound.
\<close>
theorem market_order_average_price:
  assumes "market_run ask r fs r'" "market_kind (uval (pending_type r))" "uval (generic_field_0 r) = 0"
    and "\<forall>(price, a, before)\<in>set fs. slippage_fits ask (uval (pending_price r)) price before \<and>
      int before + gain ask (uval (pending_price r)) price * int a < int p_nat"
  shows "if ask then uval (pending_price r) * (\<Sum>(price, a, before)\<leftarrow>fs. a) \<le> (\<Sum>(price, a, before)\<leftarrow>fs. price * a)
    else (\<Sum>(price, a, before)\<leftarrow>fs. price * a) \<le> uval (pending_price r) * (\<Sum>(price, a, before)\<leftarrow>fs. a)"
proof -
  have "\<forall>f\<in>set fs. trade_fits ask (uval (pending_price r)) f" using assms(4) by (auto simp: trade_fits_def)
  then have "0 \<le> gains ask (uval (pending_price r)) fs" using market_run_keeps [OF assms(1,2)] assms(3) by simp
  moreover have "0 \<le> (if ask then int x - int y else int y - int x) \<longleftrightarrow> (if ask then y \<le> x else x \<le> y)" for x y by simp
  ultimately show ?thesis unfolding gains_average by blast
qed

lemma market_order_average_price_witness:
  "(\<exists>r. market_run False (ms_register market_state) [(110, 10, 0)] r) \<and> 110 * 10 \<le> uval (pending_price (ms_register market_state)) * 10"
proof -
  obtain r where run: "market_run False (ms_register market_state) [(110, 10, 0)] r" using market_run_example by blast
  have start: "uval (generic_field_0 (ms_register market_state)) = 0" and own: "uval (pending_price (ms_register market_state)) = 120"
    by (simp_all add: market_defs)
  have fits: "\<forall>(price, a, before)\<in>set [(110, 10, 0)]. slippage_fits False (uval (pending_price (ms_register market_state))) price before \<and>
      int before + gain False (uval (pending_price (ms_register market_state))) price * int a < int p_nat"
    by (simp add: own slippage_fits_def slips_def gain_def)
  from market_order_average_price [OF run market_kind_example start fits] run show ?thesis by auto
qed

text \<open>
  C4. A trade that takes effect is taken in full from the pending order, from the maker order and from the leaf of the
  book, sets the open interest, and releases exactly what the maker order of a spot market has locked for it; a trade
  that does not takes nothing. It is accepted just when the maker has that much locked.
\<close>
theorem fill_exact:
  assumes "tests_are env ms ask t" "bval update u" "bval (ao_is_ask (ms_account_order ms)) side" "uval (ao_price (ms_account_order ms)) < 2 ^ 32"
    "fill_is (ms, oi, assets) ((p, q, L, xs), n)" "u \<Longrightarrow> uval traded \<le> p \<and> uval traded \<le> q"
  shows "realises (apply_fill env t update traded interest (ms, oi, assets)) (u \<longrightarrow> fill_possible env ms side (uval traded) xs)
    (\<lambda>s'. fill_is s' (if u then filled env ms side (uval traded) (uval interest) ((p, q, L, xs), n) else ((p, q, L, xs), n)))"
  by (rule realises_weaken [OF realises_apply_fill [OF assms]]) simp_all

lemma fill_exact_witness:
  "implements (apply_fill (cross_env cross_leaf) fill_tests (Const 1) (Const 10) (Const 77) (market_state, Const 67, []))
    (\<lambda>s'. fill_is s' ((0, 15, [15, 1650, 0, 0], []), 77))"
proof -
  have maker: "bval (ao_is_ask (ms_account_order market_state)) True" "uval (ao_price (ms_account_order market_state)) < 2 ^ 32"
    by (simp_all add: market_defs bval_def)
  have possible: "fill_possible (cross_env cross_leaf) market_state True 10 []" "\<not> fill_lock (cross_env cross_leaf) market_state"
    by (simp_all add: fill_possible_def fill_lock_def perps_market_def market_defs MARKET_TYPE_PERPS_def)
  have price: "uval (price_index (ms_order market_state)) = 110" by (simp add: market_state_simps order_at_simps)
  from fill_exact [OF fill_tests_are bval_Const(1) maker fill_example, of "Const 10" "Const 77"]
  have "realises (apply_fill (cross_env cross_leaf) fill_tests (Const 1) (Const 10) (Const 77) (market_state, Const 67, [])) True
      (\<lambda>s'. fill_is s' ((0, 15, leaf_with True 110 15 cross_leaf, []), 77))"
    using possible by (simp add: filled_def price)
  moreover have "leaf_with True 110 15 cross_leaf = [15, 1650, 0, 0]" by (simp add: leaf_with_def cross_leaf_def)
  ultimately show ?thesis by (simp add: realises_implements)
qed

end
