(* ===== verification/Match_Finish.thy ===== *)
theory Match_Finish
  imports Child_Orders Match_Fill
begin

text \<open>
  The end of a matching (\<open>execute_matching\<close> of \<open>circuit/src/matching_engine.rs\<close>, after the settlement): the pending order
  leaves its register when it is cancelled or comes to rest, a cancelled maker order leaves the book and the account, with
  its counts and its lock, the taker order enters both, and what is tied to the orders is queued as instructions. The
  leaf of the book and the order of the account stay in agreement.
\<close>

section \<open>The circuit\<close>

text \<open>The two accounts and their records are separate copies, also when both orders have one owner.\<close>

record finish_party =
  fp_account :: account_target
  fp_position :: account_position
  fp_assets :: "account_asset list"

record finish_state =
  fs_stack :: register_stack
  fs_queue :: instruction_queue
  fs_order :: order_target
  fs_account_order :: account_order
  fs_market :: market_target
  fs_taker :: finish_party
  fs_maker :: finish_party

record finish_flags =
  ff_flags :: match_flags
  ff_spot :: target
  ff_maker_limit :: target
  ff_limit :: target
  ff_triggered :: target
  ff_same_account :: target
  ff_taker_sign_changed :: target
  ff_maker_sign_changed :: target

definition release_order ::
  "target \<Rightarrow> target \<Rightarrow> target \<Rightarrow> account_order \<Rightarrow> market_target \<times> finish_party \<Rightarrow> (market_target \<times> finish_party) circ" where
  "release_order flag is_spot is_maker_limit_order ao = (\<lambda>(market, party).
    circ_bind (decrement_order_count_in_place flag (ao_trigger_status ao) (ao_reduce_only ao) (market, fp_account party, fp_position party))
      (\<lambda>(market, account, pos).
    circ_bind (is_equal_constant (acc_account_type account) INSURANCE_FUND_ACCOUNT_TYPE) (\<lambda>is_insurance_fund.
    let decrement_flag = multi_and [flag, is_spot, is_maker_limit_order, b_not is_insurance_fund] in
    circ_bind (decrement_locked_balance_for_order decrement_flag ao market (fp_assets party)) (\<lambda>assets.
    circ_return (market, party\<lparr>fp_account := account, fp_position := pos, fp_assets := assets\<rparr>)))))"

definition finish_maker :: "finish_flags \<Rightarrow> target \<Rightarrow> finish_state \<Rightarrow> finish_state circ" where
  "finish_maker ff market_id st =
    (let ord = fs_order st; ao = fs_account_order st; cancel_maker = cancel_maker_order (ff_flags ff);
         no_order = empty_order (price_index ord) (nonce_index ord);
         no_account_order = empty_account_order (ao_index_0 ao) (ao_index_1 ao) (ao_owner_account_index ao);
         maker_id = ao_owner_account_index ao in
     circ_bind (release_order (b_and cancel_maker (ff_same_account ff)) (ff_spot ff) (ff_maker_limit ff) ao (fs_market st, fs_taker st))
       (\<lambda>(market, taker).
     circ_bind (release_order (and_not cancel_maker (ff_same_account ff)) (ff_spot ff) (ff_maker_limit ff) ao (market, fs_maker st))
       (\<lambda>(market, maker).
     let maker_filled_size = b_sub (ao_initial_base_amount ao) (ao_remaining_base_amount ao) in
     circ_bind (is_zero maker_filled_size) (\<lambda>filled_zero.
     let trigger_flag = b_and (b_not filled_zero) cancel_maker; cancel_flag = b_and filled_zero cancel_maker in
     circ_bind (cancel_child_orders cancel_flag market_id maker_id (ao_to_trigger_order_index0 ao) (ao_to_trigger_order_index1 ao) 7 (fs_queue st)) (\<lambda>q.
     circ_bind (trigger_child_orders trigger_flag market_id maker_id (ao_to_trigger_order_index0 ao) (ao_to_trigger_order_index1 ao) maker_filled_size 7 q) (\<lambda>q.
     circ_return (st\<lparr>fs_queue := q, fs_market := market, fs_taker := taker, fs_maker := maker,
       fs_account_order := select_account_order_target cancel_maker no_account_order ao,
       fs_order := select_order_target cancel_maker no_order ord\<rparr>)))))))"

definition finish_taker :: "finish_flags \<Rightarrow> target \<Rightarrow> target \<Rightarrow> target \<Rightarrow> order_target \<Rightarrow> account_order \<Rightarrow> finish_state \<Rightarrow> finish_state circ" where
  "finish_taker ff market_flags market_id taker_id register_order register_account_order st =
    (let cancel_taker = cancel_taker_order (ff_flags ff); insert_taker = insert_taker_order (ff_flags ff);
         c0 = ao_to_trigger_order_index0 register_account_order; c1 = ao_to_trigger_order_index1 register_account_order;
         taker_filled_size = b_sub (ao_initial_base_amount register_account_order) (ao_remaining_base_amount register_account_order) in
     circ_bind (is_zero taker_filled_size) (\<lambda>filled_zero.
     let trigger_flag = and_not cancel_taker filled_zero; cancel_flag = b_and filled_zero cancel_taker in
     circ_bind (cancel_child_orders cancel_flag market_id taker_id c0 c1 5 (fs_queue st)) (\<lambda>q.
     circ_bind (trigger_child_orders trigger_flag market_id taker_id c0 c1 taker_filled_size 5 q) (\<lambda>q.
     let insert_to_order_book = and_not insert_taker (ff_triggered ff);
         ord = select_order_target insert_to_order_book register_order (fs_order st);
         ao = select_account_order_target insert_taker register_account_order (fs_account_order st); taker = fs_taker st in
     circ_bind (increment_order_count_in_place insert_taker (ao_trigger_status register_account_order) (ao_reduce_only register_account_order)
       market_flags (fs_market st, fp_account taker, fp_position taker)) (\<lambda>(market, account, pos).
     circ_bind (is_equal_constant (acc_account_type account) INSURANCE_FUND_ACCOUNT_TYPE) (\<lambda>is_insurance_fund.
     let increment_flag = multi_and [insert_to_order_book, ff_spot ff, ff_limit ff, b_not is_insurance_fund] in
     circ_bind (increment_locked_balance_for_order increment_flag ao market (fp_assets taker)) (\<lambda>assets.
     circ_return (st\<lparr>fs_queue := q, fs_order := ord, fs_account_order := ao, fs_market := market,
       fs_taker := taker\<lparr>fp_account := account, fp_position := pos, fp_assets := assets\<rparr>\<rparr>))))))))"

definition finish_tied :: "finish_flags \<Rightarrow> target \<Rightarrow> target \<Rightarrow> target \<Rightarrow> finish_state \<Rightarrow> finish_state circ" where
  "finish_tied ff market_id taker_id maker_id st =
    (let update = update_status (ff_flags ff); taker_count = total_position_tied_order_count (fp_position (fs_taker st));
         maker_count = total_position_tied_order_count (fp_position (fs_maker st)) in
     circ_bind (is_not_zero taker_count) (\<lambda>taker_has_tied.
     let q = cancel_position_tied_account_orders (multi_and [update, ff_taker_sign_changed ff, taker_has_tied]) market_id taker_id taker_count 3 (fs_queue st) in
     circ_bind (is_not_zero maker_count) (\<lambda>maker_has_tied.
     let q = cancel_position_tied_account_orders (multi_and [update, ff_maker_sign_changed ff, maker_has_tied]) market_id maker_id maker_count 2 q in
     circ_return (st\<lparr>fs_queue := q\<rparr>))))"

definition finish_matching :: "finish_flags \<Rightarrow> target \<Rightarrow> finish_state \<Rightarrow> finish_state circ" where
  "finish_matching ff market_flags st =
    (let r = stack_registers (fs_stack st) ! 0; market_id = reg_market_index r; taker_id = reg_account_index r;
         maker_id = ao_owner_account_index (fs_account_order st);
         pop_register = b_or (cancel_taker_order (ff_flags ff)) (insert_taker_order (ff_flags ff));
         register_order = get_order_from_register r in
     circ_bind (get_account_order_from_register r) (\<lambda>register_account_order.
     circ_bind (pop_front pop_register (fs_stack st)) (\<lambda>stack.
     circ_bind (finish_maker ff market_id (st\<lparr>fs_stack := stack\<rparr>)) (\<lambda>st.
     circ_bind (finish_taker ff market_flags market_id taker_id register_order register_account_order st) (\<lambda>st.
     finish_tied ff market_id taker_id maker_id st)))))"

section \<open>The orders\<close>

text \<open>A leaf and an account order that stand for the same open order, and the two of a place that is free.\<close>

definition agrees :: "order_target \<Rightarrow> account_order \<Rightarrow> bool" where
  "agrees ord ao \<longleftrightarrow> (\<exists>side. bval (ao_is_ask ao) side \<and>
    order_amounts ord = leaf_with side (uval (ao_price ao)) (uval (ao_remaining_base_amount ao)) (replicate 4 0) \<and>
    uval (price_index ord) = uval (ao_price ao) \<and> uval (nonce_index ord) = uval (ao_nonce ao))"

definition vacant :: "order_target \<Rightarrow> account_order \<Rightarrow> bool" where
  "vacant ord ao \<longleftrightarrow> order_amounts ord = replicate 4 0 \<and> uval (ao_remaining_base_amount ao) = 0 \<and> uval (ao_order_index ao) = 0"

lemma four_zeros: "replicate 4 (0 :: gf) = [0, 0, 0, 0]"
  by (simp add: numeral_eq_Suc)

text \<open>A selection between two orders reads as one of them.\<close>

lemma order_select_reads:
  assumes "bval c e"
  shows "order_amounts (select_order_target c a b) = order_amounts (if e then a else b)"
    "uval (price_index (select_order_target c a b)) = uval (price_index (if e then a else b))"
    "uval (nonce_index (select_order_target c a b)) = uval (nonce_index (if e then a else b))"
  using tval_select [OF assms] by (auto simp: order_amounts_def select_order_target_def)

lemma account_order_select_reads:
  assumes "bval c e"
  shows "uval (ao_price (select_account_order_target c a b)) = uval (ao_price (if e then a else b))"
    "uval (ao_nonce (select_account_order_target c a b)) = uval (ao_nonce (if e then a else b))"
    "uval (ao_remaining_base_amount (select_account_order_target c a b)) = uval (ao_remaining_base_amount (if e then a else b))"
    "uval (ao_order_index (select_account_order_target c a b)) = uval (ao_order_index (if e then a else b))"
    "bval (ao_is_ask (select_account_order_target c a b)) side \<longleftrightarrow> bval (ao_is_ask (if e then a else b)) side"
  using tval_select [OF assms] by (auto simp: select_account_order_target_def select_bool_def bval_def)

lemma agrees_select:
  assumes "bval c e" "bval c' e"
  shows "agrees (select_order_target c a b) (select_account_order_target c' x y) \<longleftrightarrow> agrees (if e then a else b) (if e then x else y)"
  unfolding agrees_def by (cases e) (simp_all add: order_select_reads [OF assms(1)] account_order_select_reads [OF assms(2)])

lemma vacant_select:
  assumes "bval c e" "bval c' e"
  shows "vacant (select_order_target c a b) (select_account_order_target c' x y) \<longleftrightarrow> vacant (if e then a else b) (if e then x else y)"
  unfolding vacant_def by (cases e) (simp_all add: order_select_reads [OF assms(1)] account_order_select_reads [OF assms(2)])

lemma vacant_empty: "vacant (empty_order p n) (empty_account_order i j k)"
  by (simp add: vacant_def empty_order_def empty_account_order_def order_amounts_def four_zeros)

text \<open>The two orders made from a register agree.\<close>

definition from_register :: "base_register_info \<Rightarrow> account_order \<Rightarrow> bool" where
  "from_register r ao \<longleftrightarrow> ao_price ao = pending_price r \<and> ao_nonce ao = pending_nonce r \<and> ao_remaining_base_amount ao = pending_size r \<and>
    ao_is_ask ao = pending_is_ask r \<and> ao_order_index ao = pending_order_index r \<and> ao_initial_base_amount ao = pending_initial_size r \<and>
    ao_to_trigger_order_index0 ao = pending_to_trigger_order_index0 r \<and> ao_to_trigger_order_index1 ao = pending_to_trigger_order_index1 r"

lemma sound_get_account_order: "sound (get_account_order_from_register r) (from_register r)"
  unfolding get_account_order_from_register_def to_order_fields_from_generic_fields_def
  by (rule sound_bind [where P = "\<lambda>_. True"], simp add: sound_def, unfold split_paired_all prod.case, rule sound_return) (simp add: from_register_def)

lemma agrees_from_register:
  assumes "from_register r ao" "bval (pending_is_ask r) side"
  shows "agrees (get_order_from_register r) ao"
  using assms unfolding agrees_def from_register_def
  by (intro exI [of _ side]) (cases side; simp add: get_order_from_register_def Let_def order_amounts_def leaf_with_def four_zeros tval_select [OF assms(2)] tval_simps of_nat_to_canonical)

section \<open>The instructions\<close>

definition ended :: "nat \<Rightarrow> nat \<Rightarrow> nat \<Rightarrow> nat \<Rightarrow> nat list" where
  "ended m a n = (if n = 0 then instruction_of CANCEL_SINGLE_ACCOUNT_ORDER m a 0 else instruction_of TRIGGER_CHILD_ORDER m a n)"

text \<open>Cancelling and triggering exclude each other: after both, the children of an order have one kind of instruction.\<close>

definition cancelled_only :: "bool \<Rightarrow> nat \<Rightarrow> nat \<Rightarrow> nat \<Rightarrow> nat \<Rightarrow> nat \<Rightarrow> nat \<Rightarrow> nat list list \<Rightarrow> nat list list" where
  "cancelled_only b k m a n = children_put (b \<and> n = 0) k (instruction_of CANCEL_SINGLE_ACCOUNT_ORDER m a 0)"

lemma sound_cancel_children:
  assumes "queue_is q vs" "bval f (b \<and> uval n = 0)" "1 \<le> k" "k < NEW_INSTRUCTIONS_MAX_SIZE"
    and "vs ! k = empty_instruction" "vs ! (k - 1) = empty_instruction" "uval m < 2 ^ 16" "uval a < 2 ^ 48"
  shows "sound (cancel_child_orders f m a c0 c1 k q) (\<lambda>q'. queue_is q' (cancelled_only b k (uval m) (uval a) (uval n) (uval c0) (uval c1) vs))"
  unfolding cancelled_only_def
  by (rule implements_sound [OF implements_cancel_child_orders [OF assms(1-4)]]) (use assms in auto)

lemma sound_trigger_children:
  assumes q: "queue_is q (cancelled_only b k (uval m) (uval a) (uval n) (uval c0) (uval c1) vs)" and f: "bval f (b \<and> uval n \<noteq> 0)"
    and k: "1 \<le> k" "k < NEW_INSTRUCTIONS_MAX_SIZE" and free: "vs ! k = empty_instruction" "vs ! (k - 1) = empty_instruction"
    and range: "uval m < 2 ^ 16" "uval a < 2 ^ 48" "uval n < 2 ^ 48"
  shows "sound (trigger_child_orders f m a c0 c1 n k q) (\<lambda>q'. queue_is q' (children_put b k (ended (uval m) (uval a) (uval n)) (uval c0) (uval c1) vs))"
proof -
  let ?vs = "cancelled_only b k (uval m) (uval a) (uval n) (uval c0) (uval c1) vs"
  have both: "children_put b k (ended (uval m) (uval a) (uval n)) (uval c0) (uval c1) vs =
      children_put (b \<and> uval n \<noteq> 0) k (instruction_of TRIGGER_CHILD_ORDER (uval m) (uval a) (uval n)) (uval c0) (uval c1) ?vs"
    unfolding cancelled_only_def ended_def [abs_def] by (cases b; cases "uval n = 0") simp_all
  show ?thesis
    unfolding both
    by (rule implements_sound [OF implements_trigger_child_orders [OF q f k]]) (use free range in \<open>auto simp: cancelled_only_def\<close>)
qed

lemma sound_True: "sound c (\<lambda>_. True)"
  by (simp add: sound_def)

text \<open>What the maker's part does to the orders and the queue; the counts and the locks are those of their own theories.\<close>

lemma sound_finish_maker:
  fixes st :: finish_state and ff :: finish_flags
  defines "ord \<equiv> fs_order st" and "ao \<equiv> fs_account_order st" and "c \<equiv> cancel_maker_order (ff_flags ff)"
  defines "n \<equiv> b_sub (ao_initial_base_amount ao) (ao_remaining_base_amount ao)"
  assumes c: "bval (cancel_maker_order (ff_flags ff)) cm" and q: "queue_is (fs_queue st) vs"
    and free: "vs ! 7 = empty_instruction" "vs ! 6 = empty_instruction"
    and range: "uval m < 2 ^ 16" "uval (ao_owner_account_index ao) < 2 ^ 48" "uval n < 2 ^ 48"
  shows "sound (finish_maker ff m st) (\<lambda>st'. fs_stack st' = fs_stack st \<and>
    fs_order st' = select_order_target c (empty_order (price_index ord) (nonce_index ord)) ord \<and>
    fs_account_order st' = select_account_order_target c (empty_account_order (ao_index_0 ao) (ao_index_1 ao) (ao_owner_account_index ao)) ao \<and>
    queue_is (fs_queue st') (children_put cm 7 (ended (uval m) (uval (ao_owner_account_index ao)) (uval n))
      (uval (ao_to_trigger_order_index0 ao)) (uval (ao_to_trigger_order_index1 ao)) vs))"
proof -
  have slots: "(1::nat) \<le> 7" "7 < NEW_INSTRUCTIONS_MAX_SIZE" "vs ! (7 - 1) = empty_instruction" using free by (simp_all add: NEW_INSTRUCTIONS_MAX_SIZE_def)
  note c' = c [folded c_def]
  show ?thesis
    unfolding finish_maker_def Let_def ord_def [symmetric] ao_def [symmetric] c_def [symmetric] n_def [symmetric]
  proof (rule sound_bind [OF sound_True], unfold split_paired_all prod.case, rule sound_bind [OF sound_True], unfold split_paired_all prod.case,
      rule sound_bind [OF implements_sound [OF implements_is_zero]], goal_cases)
    case (1 market taker market' maker z)
    have "bval (b_and z c) (cm \<and> uval n = 0)" "bval (b_and (b_not z) c) (cm \<and> uval n \<noteq> 0)"
      using bval_and [OF 1(3) c'] bval_and [OF bval_not [OF 1(3)] c'] by (simp_all add: conj_commute)
    note f = this
    show ?case
      by (rule sound_bind [OF sound_cancel_children [OF q f(1) slots(1,2) free(1) slots(3) range(1,2)]],
          rule sound_bind [OF sound_trigger_children [OF _ f(2) slots(1,2) free(1) slots(3) range]], assumption, rule sound_return) simp
  qed
qed

lemma sound_finish_taker:
  fixes st :: finish_state and rao :: account_order
  defines "n \<equiv> b_sub (ao_initial_base_amount rao) (ao_remaining_base_amount rao)"
  assumes c: "bval (cancel_taker_order (ff_flags ff)) ct" and q: "queue_is (fs_queue st) vs"
    and free: "vs ! 5 = empty_instruction" "vs ! 4 = empty_instruction"
    and range: "uval m < 2 ^ 16" "uval t < 2 ^ 48" "uval n < 2 ^ 48"
  shows "sound (finish_taker ff mf m t ro rao st) (\<lambda>st'. fs_stack st' = fs_stack st \<and>
    fs_order st' = select_order_target (and_not (insert_taker_order (ff_flags ff)) (ff_triggered ff)) ro (fs_order st) \<and>
    fs_account_order st' = select_account_order_target (insert_taker_order (ff_flags ff)) rao (fs_account_order st) \<and>
    queue_is (fs_queue st') (children_put ct 5 (ended (uval m) (uval t) (uval n))
      (uval (ao_to_trigger_order_index0 rao)) (uval (ao_to_trigger_order_index1 rao)) vs))"
proof -
  have slots: "(1::nat) \<le> 5" "5 < NEW_INSTRUCTIONS_MAX_SIZE" "vs ! (5 - 1) = empty_instruction" using free by (simp_all add: NEW_INSTRUCTIONS_MAX_SIZE_def)
  show ?thesis
    unfolding finish_taker_def Let_def n_def [symmetric]
  proof (rule sound_bind [OF implements_sound [OF implements_is_zero]], goal_cases)
    case (1 z)
    have f: "bval (b_and z (cancel_taker_order (ff_flags ff))) (ct \<and> uval n = 0)" "bval (and_not (cancel_taker_order (ff_flags ff)) z) (ct \<and> uval n \<noteq> 0)"
      using bval_and [OF 1 c] bval_and_not [OF c 1] by (simp_all add: conj_commute)
    show ?case
      by (rule sound_bind [OF sound_cancel_children [OF q f(1) slots(1,2) free(1) slots(3) range(1,2)]],
          rule sound_bind [OF sound_trigger_children [OF _ f(2) slots(1,2) free(1) slots(3) range]], assumption,
          rule sound_bind [OF sound_True], unfold split_paired_all prod.case, rule sound_bind [OF sound_True], rule sound_bind [OF sound_True], rule sound_return) simp
  qed
qed

definition tied_count :: "finish_party \<Rightarrow> nat" where
  "tied_count party = uval (total_position_tied_order_count (fp_position party))"

definition tied_put :: "bool \<Rightarrow> nat \<Rightarrow> nat \<Rightarrow> nat \<Rightarrow> nat \<Rightarrow> nat list list \<Rightarrow> nat list list" where
  "tied_put b k m a n = put_if (b \<and> n \<noteq> 0) k (instruction_of CANCEL_POSITION_TIED_ACCOUNT_ORDERS m a n 0)"

lemma sound_finish_tied:
  assumes u: "bval (update_status (ff_flags ff)) u" and x: "bval (ff_taker_sign_changed ff) xt" "bval (ff_maker_sign_changed ff) xm"
    and q: "queue_is (fs_queue st) vs" and free: "vs ! 3 = empty_instruction" "vs ! 2 = empty_instruction"
    and range: "uval m < 2 ^ 16" "uval t < 2 ^ 48" "uval k < 2 ^ 48"
  shows "sound (finish_tied ff m t k st) (\<lambda>st'. st' = st\<lparr>fs_queue := fs_queue st'\<rparr> \<and>
    (tied_count (fs_maker st) < 2 ^ 48 \<and> tied_count (fs_taker st) < 2 ^ 48 \<longrightarrow> queue_is (fs_queue st') (tied_put (u \<and> xm) 2 (uval m) (uval k) (tied_count (fs_maker st))
      (tied_put (u \<and> xt) 3 (uval m) (uval t) (tied_count (fs_taker st)) vs))))"
  unfolding finish_tied_def Let_def
proof (rule sound_bind [OF implements_sound [OF implements_is_not_zero]], rule sound_bind [OF implements_sound [OF implements_is_not_zero]], rule sound_return, goal_cases)
  case (1 a b)
  have flag: "bval (multi_and [update_status (ff_flags ff), f, z]) ((u \<and> y) \<and> c)" if "bval f y" "bval z c" for f y z c
    by (rule bval_eq [OF bval_multi_and [where bs = "[u, y, c]"]]) (use u that in auto)
  have slots: "3 < NEW_INSTRUCTIONS_MAX_SIZE" "2 < NEW_INSTRUCTIONS_MAX_SIZE" by (simp_all add: NEW_INSTRUCTIONS_MAX_SIZE_def)
  have first: "queue_is (cancel_position_tied_account_orders (multi_and [update_status (ff_flags ff), ff_taker_sign_changed ff, a]) m t
      (total_position_tied_order_count (fp_position (fs_taker st))) 3 (fs_queue st)) (tied_put (u \<and> xt) 3 (uval m) (uval t) (tied_count (fs_taker st)) vs)"
    if "tied_count (fs_taker st) < 2 ^ 48"
    using that unfolding tied_put_def tied_count_def by (intro queue_is_tied [OF q flag [OF x(1) 1(1)] slots(1)]) (use free range in auto)
  have second: "queue_is (cancel_position_tied_account_orders (multi_and [update_status (ff_flags ff), ff_maker_sign_changed ff, b]) m k
      (total_position_tied_order_count (fp_position (fs_maker st))) 2
      (cancel_position_tied_account_orders (multi_and [update_status (ff_flags ff), ff_taker_sign_changed ff, a]) m t
        (total_position_tied_order_count (fp_position (fs_taker st))) 3 (fs_queue st)))
      (tied_put (u \<and> xm) 2 (uval m) (uval k) (tied_count (fs_maker st)) (tied_put (u \<and> xt) 3 (uval m) (uval t) (tied_count (fs_taker st)) vs))"
    if "tied_count (fs_taker st) < 2 ^ 48" "tied_count (fs_maker st) < 2 ^ 48"
    using that(2) unfolding tied_put_def [of "u \<and> xm"] tied_count_def [of "fs_maker st"]
    by (intro queue_is_tied [OF first [OF that(1)] flag [OF x(2) 1(2)] slots(2)]) (use free range in \<open>auto simp: tied_put_def\<close>)
  then show ?case by simp
qed

section \<open>The whole end of a matching\<close>

abbreviation no_instructions :: "nat list list" where
  "no_instructions \<equiv> replicate NEW_INSTRUCTIONS_MAX_SIZE empty_instruction"

text \<open>What is queued: for a cancelled maker and taker order their children, for a position turned around the orders tied to it.\<close>

definition finish_instructions ::
  "finish_state \<Rightarrow> bool \<Rightarrow> bool \<Rightarrow> bool \<Rightarrow> bool \<Rightarrow> nat \<Rightarrow> nat \<Rightarrow> nat list list" where
  "finish_instructions st cm ct turned_m turned_t count_m count_t =
    (let r = stack_registers (fs_stack st) ! 0; ao = fs_account_order st; m = uval (reg_market_index r); t = uval (reg_account_index r);
         k = uval (ao_owner_account_index ao);
         maker_filled = uval (b_sub (ao_initial_base_amount ao) (ao_remaining_base_amount ao));
         taker_filled = uval (b_sub (pending_initial_size r) (pending_size r)) in
     tied_put turned_m 2 m k count_m (tied_put turned_t 3 m t count_t
       (children_put ct 5 (ended m t taker_filled) (uval (pending_to_trigger_order_index0 r)) (uval (pending_to_trigger_order_index1 r))
         (children_put cm 7 (ended m k maker_filled) (uval (ao_to_trigger_order_index0 ao)) (uval (ao_to_trigger_order_index1 ao)) no_instructions))))"

definition finish_ok :: "finish_state \<Rightarrow> bool" where
  "finish_ok st \<longleftrightarrow> (let r = stack_registers (fs_stack st) ! 0; ao = fs_account_order st in
    uval (reg_market_index r) < 2 ^ 16 \<and> uval (reg_account_index r) < 2 ^ 48 \<and> uval (ao_owner_account_index ao) < 2 ^ 48 \<and>
    uval (b_sub (ao_initial_base_amount ao) (ao_remaining_base_amount ao)) < 2 ^ 48 \<and> uval (b_sub (pending_initial_size r) (pending_size r)) < 2 ^ 48)"

text \<open>The orders at the end, as selected by the flags.\<close>

lemma finished_orders:
  fixes r :: base_register_info and ord :: order_target and ao rao :: account_order and c i t :: target
  assumes c: "bval c cm" and i: "bval i it" and t: "bval t trig" and side: "bval (pending_is_ask r) side" and one: "\<not> (it \<and> cm)"
    and r: "from_register r rao"
  defines "o1 \<equiv> select_order_target (and_not i t) (get_order_from_register r) (select_order_target c (empty_order (price_index ord) (nonce_index ord)) ord)"
    and "a1 \<equiv> select_account_order_target i rao
      (select_account_order_target c (empty_account_order (ao_index_0 ao) (ao_index_1 ao) (ao_owner_account_index ao)) ao)"
  shows "if cm then vacant o1 a1 else if it \<and> trig then order_amounts o1 = order_amounts ord else it \<or> agrees ord ao \<longrightarrow> agrees o1 a1"
proof -
  have book: "bval (and_not i t) (it \<and> \<not> trig)" by (rule bval_and_not [OF i t])
  have vac: "order_amounts (empty_order p n) = replicate 4 0" "uval (ao_remaining_base_amount (empty_account_order i j k)) = 0"
      "uval (ao_order_index (empty_account_order i j k)) = 0" for p n i j k
    using vacant_empty by (simp_all add: vacant_def)
  note reads = order_select_reads [OF book] order_select_reads [OF c] account_order_select_reads [OF i] account_order_select_reads [OF c]
  show ?thesis
  proof (cases it)
    case True
    then have "agrees (get_order_from_register r) rao" "\<not> cm" using agrees_from_register [OF r side] one by blast+
    then show ?thesis using True by (cases trig) (simp_all add: agrees_def o1_def a1_def reads)
  next
    case False
    then show ?thesis by (cases cm) (simp_all add: agrees_def vacant_def vac o1_def a1_def reads)
  qed
qed

text \<open>
  After the end of a matching the register of a taker order that is done is popped; a cancelled maker order has left the leaf
  and the account, an inserted taker order stands in both, otherwise leaf and account order agree as they did before; and
  the queue has exactly the instructions of the children and the tied orders, so its count is right when it is pushed.
\<close>

lemma sound_finish_matching:
  assumes st: "stack_repr (fs_stack st) l" "queue_is (fs_queue st) no_instructions" "finish_ok st"
    and fl: "bval (update_status (ff_flags ff)) u" "bval (cancel_taker_order (ff_flags ff)) ct" "bval (cancel_maker_order (ff_flags ff)) cm"
      "bval (insert_taker_order (ff_flags ff)) it" "bval (ff_triggered ff) trig" "bval (ff_taker_sign_changed ff) xt" "bval (ff_maker_sign_changed ff) xm"
    and side: "bval (pending_is_ask (stack_registers (fs_stack st) ! 0)) side" and one: "\<not> (it \<and> cm)"
  shows "sound (finish_matching ff mf st) (\<lambda>st'. stack_repr (fs_stack st') (if ct \<or> it then tl l else l) \<and>
    (if cm then vacant (fs_order st') (fs_account_order st')
     else if it \<and> trig then order_amounts (fs_order st') = order_amounts (fs_order st)
     else it \<or> agrees (fs_order st) (fs_account_order st) \<longrightarrow> agrees (fs_order st') (fs_account_order st')) \<and>
    (tied_count (fs_maker st') < 2 ^ 48 \<and> tied_count (fs_taker st') < 2 ^ 48 \<longrightarrow>
      queue_is (fs_queue st') (finish_instructions st cm ct (u \<and> xm) (u \<and> xt) (tied_count (fs_maker st')) (tied_count (fs_taker st')))))"
proof -
  let ?r = "stack_registers (fs_stack st) ! 0" and ?ao = "fs_account_order st" and ?ord = "fs_order st"
  note ok = st(3) [unfolded finish_ok_def Let_def]
  have pop: "sound (pop_front (b_or (cancel_taker_order (ff_flags ff)) (insert_taker_order (ff_flags ff))) (fs_stack st))
      (\<lambda>s. stack_repr s (if ct \<or> it then tl l else l))"
    by (rule sound_weaken [OF realises_sound [OF realises_pop_front [OF st(1) bval_or [OF fl(2,4)]]]]) simp
  let ?c = "cancel_maker_order (ff_flags ff)"
  let ?o = "select_order_target ?c (empty_order (price_index ?ord) (nonce_index ?ord)) ?ord"
  let ?a = "select_account_order_target ?c (empty_account_order (ao_index_0 ?ao) (ao_index_1 ?ao) (ao_owner_account_index ?ao)) ?ao"
  note orders = finished_orders [OF fl(3-5) side one, where ord = "fs_order st" and ao = "fs_account_order st"]
  show ?thesis
    unfolding finish_matching_def Let_def
  proof (rule sound_bind [OF sound_get_account_order], rule sound_bind [OF pop], goal_cases)
    case (1 rao s)
    note rao = 1(1) and s = 1(2)
    have empty: "no_instructions ! 7 = empty_instruction" "no_instructions ! 6 = empty_instruction"
      by (simp_all add: NEW_INSTRUCTIONS_MAX_SIZE_def)
    let ?st = "st\<lparr>fs_stack := s\<rparr>"
    have n: "ao_initial_base_amount rao = pending_initial_size ?r" "ao_remaining_base_amount rao = pending_size ?r"
      "ao_to_trigger_order_index0 rao = pending_to_trigger_order_index0 ?r" "ao_to_trigger_order_index1 rao = pending_to_trigger_order_index1 ?r"
      using rao by (simp_all add: from_register_def)
    let ?vs = "children_put cm 7 (ended (uval (reg_market_index ?r)) (uval (ao_owner_account_index ?ao)) (uval (b_sub (ao_initial_base_amount ?ao) (ao_remaining_base_amount ?ao))))
        (uval (ao_to_trigger_order_index0 ?ao)) (uval (ao_to_trigger_order_index1 ?ao)) no_instructions"
    let ?ws = "children_put ct 5 (ended (uval (reg_market_index ?r)) (uval (reg_account_index ?r)) (uval (b_sub (pending_initial_size ?r) (pending_size ?r))))
        (uval (pending_to_trigger_order_index0 ?r)) (uval (pending_to_trigger_order_index1 ?r)) ?vs"
    have maker: "sound (finish_maker ff (reg_market_index ?r) ?st) (\<lambda>st'. fs_stack st' = s \<and> fs_order st' = ?o \<and> fs_account_order st' = ?a \<and> queue_is (fs_queue st') ?vs)"
      by (rule sound_weaken [OF sound_finish_maker [of ff cm ?st no_instructions]]) (use fl(3) st(2) ok empty in simp_all)
    have taker: "sound (finish_taker ff mf (reg_market_index ?r) (reg_account_index ?r) (get_order_from_register ?r) rao st1) (\<lambda>st'. fs_stack st' = s \<and>
        fs_order st' = select_order_target (and_not (insert_taker_order (ff_flags ff)) (ff_triggered ff)) (get_order_from_register ?r) ?o \<and>
        fs_account_order st' = select_account_order_target (insert_taker_order (ff_flags ff)) rao ?a \<and> queue_is (fs_queue st') ?ws)"
      if "fs_stack st1 = s \<and> fs_order st1 = ?o \<and> fs_account_order st1 = ?a \<and> queue_is (fs_queue st1) ?vs" for st1
      by (rule sound_weaken [OF sound_finish_taker [OF fl(2), of st1 ?vs]]) (use that ok n in \<open>simp_all add: NEW_INSTRUCTIONS_MAX_SIZE_def\<close>)
    show ?case
    proof (rule sound_bind [OF maker], rule sound_bind [OF taker], assumption, goal_cases)
      case (1 st1 st2)
      have slots: "?ws ! 3 = empty_instruction" "?ws ! 2 = empty_instruction" by (simp_all add: NEW_INSTRUCTIONS_MAX_SIZE_def)
      note st2 = conjunct1 [OF 1(2)] conjunct1 [OF conjunct2 [OF 1(2)]] conjunct1 [OF conjunct2 [OF conjunct2 [OF 1(2)]]]
        conjunct2 [OF conjunct2 [OF conjunct2 [OF 1(2)]]]
      have tied: "sound (finish_tied ff (reg_market_index ?r) (reg_account_index ?r) (ao_owner_account_index ?ao) st2) (\<lambda>st'.
          st' = st2\<lparr>fs_queue := fs_queue st'\<rparr> \<and> (tied_count (fs_maker st2) < 2 ^ 48 \<and> tied_count (fs_taker st2) < 2 ^ 48 \<longrightarrow>
            queue_is (fs_queue st') (finish_instructions st cm ct (u \<and> xm) (u \<and> xt) (tied_count (fs_maker st2)) (tied_count (fs_taker st2)))))"
        unfolding finish_instructions_def Let_def by (rule sound_finish_tied [OF fl(1,6,7) st2(4) slots]) (use ok in blast)+
      have fields: "fs_stack st' = s" "fs_order st' = fs_order st2" "fs_account_order st' = fs_account_order st2"
          "fs_maker st' = fs_maker st2" "fs_taker st' = fs_taker st2" if "st' = st2\<lparr>fs_queue := fs_queue st'\<rparr>" for st'
        using arg_cong [OF that, of fs_stack] arg_cong [OF that, of fs_order] arg_cong [OF that, of fs_account_order]
          arg_cong [OF that, of fs_maker] arg_cong [OF that, of fs_taker] st2(1) by simp_all
      show ?case
      proof (rule sound_weaken [OF tied], elim conjE)
        fix st' assume h: "st' = st2\<lparr>fs_queue := fs_queue st'\<rparr>"
        note f = fields [OF h]
        assume "tied_count (fs_maker st2) < 2 ^ 48 \<and> tied_count (fs_taker st2) < 2 ^ 48 \<longrightarrow>
            queue_is (fs_queue st') (finish_instructions st cm ct (u \<and> xm) (u \<and> xt) (tied_count (fs_maker st2)) (tied_count (fs_taker st2)))"
        then show "stack_repr (fs_stack st') (if ct \<or> it then tl l else l) \<and>
    (if cm then vacant (fs_order st') (fs_account_order st')
     else if it \<and> trig then order_amounts (fs_order st') = order_amounts (fs_order st)
     else it \<or> agrees (fs_order st) (fs_account_order st) \<longrightarrow> agrees (fs_order st') (fs_account_order st')) \<and>
    (tied_count (fs_maker st') < 2 ^ 48 \<and> tied_count (fs_taker st') < 2 ^ 48 \<longrightarrow>
      queue_is (fs_queue st') (finish_instructions st cm ct (u \<and> xm) (u \<and> xt) (tied_count (fs_maker st')) (tied_count (fs_taker st'))))"
          unfolding f st2(2,3) using s orders [OF rao] by blast
      qed
    qed
  qed
qed

end
