(* ===== verification/Sum_Recursion.thy ===== *)
theory Sum_Recursion
  imports Biguint_Mul
begin

text \<open>
  Termination of \<open>add_biguint_multiple\<close> (\<open>circuit/src/bigint/biguint.rs\<close>). The code sums up to fifteen integers at a time
  and calls itself on the partial sums. The model runs on fuel; here it is shown that the depth of the recursion is the
  logarithm to the base fifteen, so that the fuel the model has is enough and any more changes nothing.
\<close>

section \<open>The number of partial sums\<close>

lemma length_chunks_fuel: "length xs \<le> k \<Longrightarrow> length (chunks_fuel k xs) = (length xs + 14) div 15"
proof (induction k arbitrary: xs)
  case (Suc k)
  show ?case
  proof (cases "xs = []")
    case False
    then have "length (drop 15 xs) \<le> k" using Suc.prems by (cases xs) auto
    from Suc.IH [OF this] False have "length (chunks_fuel (Suc k) xs) = Suc ((length xs - 15 + 14) div 15)" by simp
    moreover have "Suc ((l - 15 + 14) div 15) = (l + 14) div 15" if "0 < l" for l :: nat
    proof (cases "l \<le> 15")
      case True
      then obtain j where "l + 14 = j + 15" "j < 15" using \<open>0 < l\<close> by (intro that [of "l - 1"]) auto
      then show ?thesis using True by simp
    next
      case False
      then have "l + 14 = l - 15 + 14 + 15" by simp
      then show ?thesis by (metis Suc_eq_plus1 div_add_self2 zero_neq_numeral)
    qed
    ultimately show ?thesis using False by simp
  qed simp
qed simp

lemma length_chunks15: "length (chunks15 xs) = (length xs + 14) div 15"
  by (simp add: chunks15_def length_chunks_fuel)

lemma length_chunks15_power:
  assumes "length xs \<le> 15 ^ Suc k"
  shows "length (chunks15 xs) \<le> 15 ^ k"
proof -
  have "length xs + 14 < 15 * (15 ^ k + 1)" using assms by simp
  then have "(length xs + 14) div 15 < 15 ^ k + 1" by (simp add: less_mult_imp_div_less mult.commute)
  then show ?thesis by (simp add: length_chunks15)
qed

lemma circ_map_length: "circ_map f xs tape = Done ys rest \<Longrightarrow> length ys = length xs"
  by (induction xs arbitrary: tape ys) (auto simp: circ_return_def circ_bind_def split: outcome.splits)

lemma circ_bind_cong: "(\<And>tape x rest. c tape = Done x rest \<Longrightarrow> f x = g x) \<Longrightarrow> circ_bind c f = circ_bind c g"
  by (rule ext) (simp add: circ_bind_def split: outcome.splits)

section \<open>Enough fuel\<close>

lemma fuel_independent:
  "ts \<noteq> [] \<Longrightarrow> length ts \<le> 15 ^ k \<Longrightarrow> k < fuel \<Longrightarrow> k < fuel' \<Longrightarrow> add_multiple_fuel fuel ts n = add_multiple_fuel fuel' ts n"
proof (induction k arbitrary: ts fuel fuel')
  case 0
  then have "length ts = 1" by (cases ts) auto
  then show ?case using 0(3,4) by (cases fuel; cases fuel') simp_all
next
  case (Suc k)
  obtain m m' where f: "fuel = Suc m" "fuel' = Suc m'" "k < m" "k < m'"
    using Suc.prems(3,4) by (cases fuel; cases fuel') simp_all
  have "circ_bind (circ_map (sum_chunk n) (chunks15 ts)) (\<lambda>sums. add_multiple_fuel m sums n) =
      circ_bind (circ_map (sum_chunk n) (chunks15 ts)) (\<lambda>sums. add_multiple_fuel m' sums n)"
  proof (rule circ_bind_cong)
    fix tape sums rest assume "circ_map (sum_chunk n) (chunks15 ts) tape = Done sums rest"
    then have len: "length sums = length (chunks15 ts)" by (rule circ_map_length)
    then have "sums \<noteq> []" "length sums \<le> 15 ^ k"
      using chunks15_props(4) [OF Suc.prems(1)] length_chunks15_power [OF Suc.prems(2)] by auto
    then show "add_multiple_fuel m sums n = add_multiple_fuel m' sums n" by (rule Suc.IH) (rule f)+
  qed
  then show ?case unfolding f by simp
qed

lemma length_enough: "0 < l \<Longrightarrow> l \<le> 15 ^ (l - 1)" for l :: nat
proof (induction l rule: nat_induct_non_zero)
  case (Suc l)
  then show ?case by (cases l) (simp_all add: Suc_leI)
qed simp

lemma no_integers: "add_multiple_fuel fuel [] n tape = Panic"
  by (induction fuel arbitrary: tape) (simp_all add: chunks15_def circ_bind_def circ_return_def circ_panic_unless_def)

section \<open>Properties\<close>

text \<open>
  C34. Termination: \<open>add_biguint_multiple\<close> of up to \<open>15 ^ depth\<close> integers, but at least one, calls itself at most
  \<open>depth\<close> times and returns the sum, whenever it fits the limbs; without any integer it never returns.
\<close>
theorem sum_recursion_terminates:
  assumes "ts \<noteq> []" "length ts \<le> 15 ^ depth" "depth < fuel" "list_all (\<lambda>t. limbs_ok t \<and> length t \<le> n) ts" "sum_bnat ts < 2 ^ (32 * n)"
  shows "add_multiple_fuel fuel ts n = add_biguint_multiple ts n \<and> implements (add_multiple_fuel fuel ts n) (\<lambda>r. bnat r = sum_bnat ts) \<and>
    add_multiple_fuel fuel [] n tape = Panic"
proof -
  have len: "length ts - 1 < length ts" "length ts \<le> 15 ^ (length ts - 1)" using length_enough [of "length ts"] assms(1) by simp_all
  have same: "add_multiple_fuel fuel ts n = add_biguint_multiple ts n"
    unfolding add_biguint_multiple_def
    using fuel_independent [OF assms(1,2,3), of "Suc (max depth (length ts))"]
      fuel_independent [OF assms(1) len(2,1), of "Suc (max depth (length ts))"] by simp
  have "implements (add_biguint_multiple ts n) (\<lambda>r. bnat r = sum_bnat ts)"
    by (rule implements_weaken [OF realises_implements [OF realises_add_biguint_multiple [OF assms(1)]]])
      (use assms(4,5) in \<open>auto simp: list_all_iff\<close>)
  then show ?thesis unfolding same using no_integers by blast
qed

lemma sum_recursion_terminates_witness:
  "implements (add_multiple_fuel 3 (replicate 20 [Wire 7]) 1) (\<lambda>r. bnat r = 140)"
proof -
  have b: "bnat [Wire 7] = 7" by (simp add: bnat_def)
  have "sum_bnat (replicate 20 [Wire 7]) = 140" by (simp add: b map_replicate sum_list_replicate)
  then show ?thesis
    using conjunct1 [OF conjunct2 [OF sum_recursion_terminates [of "replicate 20 [Wire 7]" 2 3 1 "[]"]]] by (simp add: list_all_iff limbs_ok_def is_u32_def)
qed

end
