(* ===== verification/Spec2Isabelle.thy ===== *)
theory Spec2Isabelle
  imports U32_Arithmetic_Gate Subtraction_Gate Add_Many_Gate Range_Check_Gate Range_Check_Registry U16_Arithmetic_Gate Unsafe_Big Bigint_Weak Register_Stack Impact_Price Trade_Validity Modify_Order Order_Counts Match_Finish Sum_Recursion
begin

text \<open>
  Verification of the circuit crate of the Lighter prover (\<open>circuit/src\<close>, with the functions of the vendored plonky2
  that it calls directly). The crate builds the arithmetic circuits of an exchange: order matching, settlement of spot and
  perpetual trades, margin and risk, balances, and the trees all state is kept in, over the field of order
  \<open>2^64 - 2^32 + 1\<close>.

  \<^bold>\<open>How circuits are modelled.\<close> A Rust function that takes a builder is a function to \<open>'a circ\<close> (theory \<open>Circuit\<close>). It is
  run on the values of its input wires and on an advice tape, from which everything the prover may choose is read: virtual
  targets, outputs and auxiliary wires of gates, hints. A run ends in \<open>Done\<close>, in \<open>Unsat\<close> (a constraint is violated), or
  in \<open>Panic\<close> (a Rust \<open>assert!\<close>, an index out of range). Contracts come in four strengths: \<open>sound c Q\<close>, every accepted
  run satisfies \<open>Q\<close>, for all tapes, so for a malicious prover; \<open>complete c Q\<close>, some tape is accepted with \<open>Q\<close>;
  \<open>implements c Q\<close>, both; \<open>realises c P Q\<close>, accepted exactly when \<open>P\<close> holds, and then with \<open>Q\<close>. Soundness is never
  assumed of anything below: a gadget is sound since its constraints are, down to the polynomials of the gates.

  \<^bold>\<open>Foundations.\<close> \<open>Prelude\<close> has the collections of lemmas and positional number systems; \<open>Goldilocks\<close> the field, its
  primality and its instance of the class of fields; \<open>Circuit\<close> and \<open>Circuit_Loops\<close> the embedding, loops and machines;
  \<open>Builder\<close> the gadgets on field elements and Booleans (\<open>builder/custom.rs\<close>, \<open>bool_utils.rs\<close>).

  \<^bold>\<open>Gates\<close> (\<open>uint/*/gates\<close>, \<open>byte\<close>, \<open>uint/range_check.rs\<close>). \<open>Gate_Base\<close> states what the optimised evaluation routines owe
  to \<open>eval_unfiltered\<close> (locale \<open>gate_variants\<close>); \<open>U32_Arithmetic_Gate\<close>, \<open>U16_Arithmetic_Gate\<close>, \<open>Subtraction_Gate\<close>,
  \<open>Add_Many_Gate\<close>, \<open>Byte_Gate\<close> and \<open>Range_Check_Gate\<close> have wires, constraints, routines, generators and the exact set of
  accepted values. \<open>Range_Check_Registry\<close> is the deferred placement of range checks.

  \<^bold>\<open>Numbers.\<close> \<open>U32_Gadgets\<close>, \<open>U16_Gadgets\<close>, \<open>Comparison\<close>; multi-limb integers in \<open>Biguint\<close>, \<open>Biguint_Mul\<close>,
  \<open>Biguint_Compare\<close>, \<open>Bigint\<close>, \<open>Bigint_Weak\<close>, \<open>Big_U16\<close>, \<open>Bigint_U16\<close>, \<open>Unsafe_Big\<close>. Limb loops are interpretations
  of the locales \<open>limb_chain\<close> and \<open>carry_chain\<close>. \<open>Sum_Recursion\<close> has the depth of the one recursion that is not structural.
  The representations \<open>big r n v\<close>, \<open>bigz r n v\<close>, \<open>bigz16 r n v\<close> say that \<open>r\<close> has \<open>n\<close> proper limbs and denotes \<open>v\<close>.

  \<^bold>\<open>Trees.\<close> \<open>Hash_Tree\<close> is the abstract theory of proofs in hash trees, over a hash function that is a parameter:
  statements exhibit a collision instead of excluding one. \<open>Merkle\<close> has the sponge and the Merkle proofs of the code over an
  arbitrary permutation, \<open>Order_Book\<close> the book as a tree of sums (\<open>order_book_tree_helpers.rs\<close>, \<open>types/order*.rs\<close>), with
  the quote that counts the orders of better priority, \<open>Impact_Price\<close> the prices derived of it.

  \<^bold>\<open>State of the exchange.\<close> \<open>Exchange_Types\<close> (constants, markets), \<open>Account_Position\<close>, \<open>Accounts\<close> (with the queue of pending
  unlocks), \<open>Account_Order\<close>, \<open>Base_Register\<close> and \<open>Register_Stack\<close> (instructions in progress, refined to a list),
  \<open>Pool_Shares\<close> (refined to a sorted list), \<open>Tx_Attributes\<close>, \<open>Asset_Delta\<close> (how an amount enters or leaves an account),
  \<open>Order_Locks\<close> (what open spot orders lock), \<open>Order_Counts\<close>, \<open>Modify_Order\<close>.

  \<^bold>\<open>Settlement\<close> (\<open>apply_trade.rs\<close>, \<open>types/risk_info.rs\<close>, \<open>liquidation.rs\<close>). \<open>Spot_Trade\<close>; for perpetual markets
  \<open>Position_Change\<close>, \<open>Risk_Parameters\<close>, \<open>Isolated_Margin\<close>, composed to \<open>Perps_Trade\<close>. The specifications are over integers:
  value is conserved, a position changes by the three cases of its sign, an accepted change of risk keeps a healthy account
  healthy or improves it.

  \<^bold>\<open>Matching\<close> (\<open>execute_matching\<close> of \<open>matching_engine.rs\<close>). \<open>Match_Flags\<close> gives the flags that the code passes along their
  meaning, the decision taken so far. \<open>Match_Decision\<close> (the book), \<open>Self_Trade\<close> (orders of one owner) and \<open>Match_Cascade\<close> (the
  parties and the size, composed to \<open>match_decision\<close>) are the code up to the settlement; \<open>Trade_Validity\<close> is
  \<open>is_valid_perps_trade\<close>; \<open>Match_Fill\<close> is what a trade takes from the orders. \<open>Match_Finish\<close> is the end of a matching
  (\<open>sound_finish_matching\<close>: the pending order leaves its register, the leaf of the book and the order of the account stay in
  agreement, the instructions for the orders tied to an ended one or to a turned position are queued, with the helpers of
  \<open>Child_Orders\<close>). The state the code keeps in \<open>tx_state\<close> is split
  into what it only reads (\<open>match_env\<close>) and what it changes (\<open>match_state\<close>).

  \<^bold>\<open>What is shown.\<close> The properties are the statements marked C1 to C40. Most are exact contracts of a component (accepted
  inputs and result) or refinements of an abstract machine; on top of them stand statements on whole runs: no trade passes
  over a better order of the other side, a market order gets no average price worse than its own over all its trades (where
  the division that limits slippage cannot wrap: it is only constrained in the field), value is conserved
  by both settlements, a run of accepted risk changes never makes a healthy account unhealthy, every operation on a tree
  preserves or authenticates it. Some properties state errors of the code: a limit price that nothing checks, a decision to
  cancel that is forgotten, an attribute that may be sent twice; others are shown beside a property that excludes them
  (\<open>slippage_quotient_wraps\<close>, \<open>register_push_overwrites\<close>, \<open>div_rem_wraps\<close>). Properties that rest on a bound of the code's own state (a
  product of a price and a size below the field order, say) have it as a hypothesis, and a witness shows that it can hold.

  \<^bold>\<open>Fuel.\<close> \<open>add_multiple_fuel\<close> and \<open>chunks_fuel\<close> run on the length of their list, which is enough
  (\<open>Sum_Recursion\<close>); all other recursion is structural or has a measure. The abstract machines have no bound on the number of
  steps.

  \<^bold>\<open>Not modelled.\<close> The caches of the builder (a cached result is that of the same operation on the same targets);
  serialisation of gates, random access, public inputs, logging. The dispatch over the types of transactions
  (\<open>tx_constraints.rs\<close>, \<open>light_tx_constraints.rs\<close>, \<open>transactions/*\<close>): their checks against the whole transaction state
  select among fifty types; what they call is modelled. The rest of \<open>matching_engine.rs\<close>: the light variant of the
  matching, which repeats parts of it, and the fees of partners. The elliptic curves (\<open>eddsa\<close>,
  \<open>ecdsa\<close>, \<open>nonnative\<close>), \<open>keccak\<close> and \<open>poseidon_bn128\<close>, \<open>blob\<close> and \<open>delta\<close>: they need the mathematics of their curves and
  fields, not of this exchange. Blocks and recursion rest on the soundness of the proof system, which is outside the
  development, as are plonky2 itself, the programs that build or time circuits, \<open>desertexit\<close> and \<open>snark\<close>.
\<close>

end
